(* ===== verification/Prelude.thy ===== *)
theory Prelude
  imports Main "HOL-Library.Word" "HOL-Library.Monad_Syntax"
begin

unbundle bit_operations_syntax

text \<open>
  Shared vocabulary of the development: machine integer types, byte memory with checked
  accesses, big-endian and little-endian encodings of machine words, and the generic lemmas on
  lists, options and words the components use.

  A region of memory that the program reaches through a \<^verbatim>\<open>char *\<close> is a list of bytes
  and the pointer is a position in it. The accessors return \<^term>\<open>None\<close> when the access
  leaves the region, which is undefined behaviour of the C++ program.
\<close>

type_synonym byte = "8 word"
type_synonym u8 = "8 word"
type_synonym u16 = "16 word"
type_synonym u32 = "32 word"
type_synonym u64 = "64 word"
type_synonym memory = "byte list"

named_theorems mem_simps \<open>rewriting checked memory accesses\<close>
named_theorems enc_simps \<open>lengths and inverses of the word encodings\<close>

section \<open>Byte memory\<close>

definition seg :: "nat \<Rightarrow> nat \<Rightarrow> 'a list \<Rightarrow> 'a list" where
  "seg i n xs = take n (drop i xs)"

definition peek :: "memory \<Rightarrow> nat \<Rightarrow> nat \<Rightarrow> byte list option" where
  "peek m i n = (if i + n \<le> length m then Some (seg i n m) else None)"

definition poke :: "memory \<Rightarrow> nat \<Rightarrow> byte list \<Rightarrow> memory option" where
  "poke m i bs =
     (if i + length bs \<le> length m then Some (take i m @ bs @ drop (i + length bs) m) else None)"

definition load_byte :: "memory \<Rightarrow> nat \<Rightarrow> byte option" where
  "load_byte m i = (if i < length m then Some (m ! i) else None)"

text \<open>The subtraction of C's \<^verbatim>\<open>size_t\<close>: it wraps around below zero.\<close>

definition size_sub :: "nat \<Rightarrow> nat \<Rightarrow> nat" where
  "size_sub a b = (if b \<le> a then a - b else 2 ^ 64 + a - b)"

section \<open>Encodings\<close>

definition be16 :: "u16 \<Rightarrow> byte list" where
  "be16 v = [ucast (drop_bit 8 v), ucast v]"

definition be32 :: "u32 \<Rightarrow> byte list" where
  "be32 v = [ucast (drop_bit 24 v), ucast (drop_bit 16 v), ucast (drop_bit 8 v), ucast v]"

definition of_be16 :: "byte \<Rightarrow> byte \<Rightarrow> u16" where
  "of_be16 a b = push_bit 8 (ucast a) OR ucast b"

definition of_be32 :: "byte \<Rightarrow> byte \<Rightarrow> byte \<Rightarrow> byte \<Rightarrow> u32" where
  "of_be32 a b c d =
     push_bit 24 (ucast a) OR push_bit 16 (ucast b) OR push_bit 8 (ucast c) OR ucast d"

definition le32 :: "u32 \<Rightarrow> byte list" where
  "le32 v = [ucast v, ucast (drop_bit 8 v), ucast (drop_bit 16 v), ucast (drop_bit 24 v)]"

text \<open>C's conversion of an integer to \<^verbatim>\<open>bool\<close> and back.\<close>

definition of_bool_byte :: "bool \<Rightarrow> byte" where
  "of_bool_byte b = (if b then 1 else 0)"

section \<open>Generic lemmas\<close>

lemma length_seg [simp]: "i + n \<le> length xs \<Longrightarrow> length (seg i n xs) = n"
  by (simp add: seg_def)

lemma seg_zero [simp]: "seg i 0 xs = []"
  by (simp add: seg_def)

lemma seg_all [simp]: "seg 0 (length xs) xs = xs"
  by (simp add: seg_def)

lemma seg_append_mid: "seg (length as) (length bs) (as @ bs @ cs) = bs"
  by (simp add: seg_def)

lemma seg_mid: "length as = i \<Longrightarrow> length bs = n \<Longrightarrow> seg i n (as @ bs @ cs) = bs"
  by (auto simp: seg_append_mid)

lemma nth_seg: "j < n \<Longrightarrow> i + j < length xs \<Longrightarrow> seg i n xs ! j = xs ! (i + j)"
  by (simp add: seg_def)

lemma seg_Suc: "i < length xs \<Longrightarrow> seg i (Suc n) xs = xs ! i # seg (Suc i) n xs"
  by (simp add: seg_def Cons_nth_drop_Suc [symmetric])

lemma seg_split: "seg i (a + b) xs = seg i a xs @ seg (i + a) b xs"
  by (simp add: seg_def take_add add.commute)

lemma peek_Some_iff: "peek m i n = Some bs \<longleftrightarrow> i + n \<le> length m \<and> bs = seg i n m"
  by (auto simp: peek_def)

lemma poke_Some_iff:
  "poke m i bs = Some m' \<longleftrightarrow>
     i + length bs \<le> length m \<and> m' = take i m @ bs @ drop (i + length bs) m"
  by (auto simp: poke_def)

lemma length_poke: "poke m i bs = Some m' \<Longrightarrow> length m' = length m"
  by (auto simp: poke_Some_iff)

lemma poke_in_range [mem_simps]:
  "i + length bs \<le> length m \<Longrightarrow>
     poke m i bs = Some (take i m @ bs @ drop (i + length bs) m)"
  by (simp add: poke_def)

lemma peek_poke_same: "poke m i bs = Some m' \<Longrightarrow> peek m' i (length bs) = Some bs"
  by (auto simp: poke_Some_iff peek_def seg_def)

lemma seg_append_left: "j + n \<le> length xs \<Longrightarrow> seg j n (xs @ ys) = seg j n xs"
  by (simp add: seg_def)

lemma seg_append_right: "length xs \<le> j \<Longrightarrow> seg j n (xs @ ys) = seg (j - length xs) n ys"
  by (simp add: seg_def)

lemma seg_take: "j + n \<le> i \<Longrightarrow> seg j n (take i xs) = seg j n xs"
  by (simp add: seg_def drop_take min_def)

lemma seg_drop: "seg j n (drop i xs) = seg (j + i) n xs"
  by (simp add: seg_def)

lemma peek_poke_other:
  assumes "poke m i bs = Some m'" and "j + n \<le> i \<or> i + length bs \<le> j"
  shows "peek m' j n = peek m j n"
proof -
  from assms(1) have r: "i + length bs \<le> length m"
    and m': "m' = take i m @ bs @ drop (i + length bs) m"
    by (auto simp: poke_Some_iff)
  from assms(2) r have "seg j n m' = seg j n m"
    by (auto simp: m' seg_append_left seg_append_right seg_take seg_drop)
  with length_poke [OF assms(1)] show ?thesis by (simp add: peek_def)
qed

text \<open>Writing two adjacent runs of bytes one after the other is writing their concatenation.\<close>

lemma poke_poke_adjacent:
  "poke m i bs \<bind> (\<lambda>m'. poke m' (i + length bs) cs) = poke m i (bs @ cs)"
  by (auto simp: poke_def Option.bind_def add.commute add.left_commute)

lemma load_byte_poke_same:
  "poke m i bs = Some m' \<Longrightarrow> k < length bs \<Longrightarrow> load_byte m' (i + k) = Some (bs ! k)"
  by (auto simp: poke_Some_iff load_byte_def nth_append)

lemma size_sub_le [simp]: "b \<le> a \<Longrightarrow> size_sub a b = a - b"
  by (simp add: size_sub_def)

lemma unat_of_nat_eq: "n < 2 ^ LENGTH('a) \<Longrightarrow> unat (of_nat n :: 'a::len word) = n"
  by (simp add: unat_of_nat take_bit_nat_eq_self)

lemma unat_of_nat_add32: "a + b < 2 ^ 32 \<Longrightarrow> unat (of_nat a + of_nat b :: u32) = a + b"
  using unat_of_nat_eq [of "a + b", where 'a = 32] by simp

lemma unat_lt_pow: "unat (w :: 'a::len word) < 2 ^ LENGTH('a)"
  by (rule unsigned_less)

lemma unat_u8_less: "unat (w :: u8) < 256"
  using unat_lt_pow [of w] by simp

lemma unat_u32_less: "unat (w :: u32) < 2 ^ 32"
  using unat_lt_pow [of w] by simp

lemma unat_ucast_8_32 [simp]: "unat (ucast (w :: u8) :: u32) = unat w"
  using unat_u8_less [of w] by (simp add: unsigned_ucast_eq take_bit_nat_eq_self)

lemma unat_ucast_32_64 [simp]: "unat (ucast (w :: u32) :: u64) = unat w"
  using unat_u32_less [of w] by (simp add: unsigned_ucast_eq take_bit_nat_eq_self)

lemma unat_ucast_64_32: "unat (w :: u64) < 2 ^ 32 \<Longrightarrow> unat (ucast w :: u32) = unat w"
  by (simp add: unsigned_ucast_eq take_bit_nat_eq_self)

lemma of_nat_unat_eq: "of_nat (unat w) = (w :: 'a::len word)"
  by simp

lemma unat_eq_zero: "unat w = 0 \<longleftrightarrow> (w :: 'a::len word) = 0"
  by (simp add: unsigned_eq_0_iff)

lemma unat_gt_0: "w \<noteq> 0 \<Longrightarrow> 0 < unat (w :: 'a::len word)"
  by (metis gr0I unat_eq_zero)

lemma unat_plus_eq:
  "unat a + unat b < 2 ^ LENGTH('a) \<Longrightarrow> unat (a + b :: 'a::len word) = unat a + unat b"
  by (simp add: unat_word_ariths)

lemma unat_minus_eq: "unat b \<le> unat a \<Longrightarrow> unat (a - b :: 'a::len word) = unat a - unat b"
  by (simp add: unat_sub word_le_nat_alt)

lemma unat_mult_eq:
  "unat a * unat b < 2 ^ LENGTH('a) \<Longrightarrow> unat (a * b :: 'a::len word) = unat a * unat b"
  by (simp add: unat_word_ariths)

subsection \<open>Word encodings\<close>

lemma length_be16 [simp, enc_simps]: "length (be16 v) = 2"
  by (simp add: be16_def)

lemma length_be32 [simp, enc_simps]: "length (be32 v) = 4"
  by (simp add: be32_def)

lemma length_le32 [simp, enc_simps]: "length (le32 v) = 4"
  by (simp add: le32_def)

lemma of_be16_be16 [simp, enc_simps]: "of_be16 (ucast (drop_bit 8 v)) (ucast v) = v"
  by (rule bit_word_eqI) (auto simp: of_be16_def bit_simps)

lemma of_be32_be32 [simp, enc_simps]:
  "of_be32 (ucast (drop_bit 24 v)) (ucast (drop_bit 16 v)) (ucast (drop_bit 8 v)) (ucast v) = v"
proof (rule bit_word_eqI)
  fix n assume "n < LENGTH(32)"
  then consider "n < 8" | "8 \<le> n" "n < 16" | "16 \<le> n" "n < 24" | "24 \<le> n" "n < 32"
    by fastforce
  then show "bit (of_be32 (ucast (drop_bit 24 v)) (ucast (drop_bit 16 v))
      (ucast (drop_bit 8 v)) (ucast v)) n = bit v n"
    by cases (auto simp: of_be32_def bit_simps)
qed

lemma of_be32_24 [enc_simps]:
  "of_be32 0 (ucast (drop_bit 16 v)) (ucast (drop_bit 8 v)) (ucast v) = take_bit 24 v"
proof (rule bit_word_eqI)
  fix n assume "n < LENGTH(32)"
  then consider "n < 8" | "8 \<le> n" "n < 16" | "16 \<le> n" "n < 24" | "24 \<le> n" "n < 32"
    by fastforce
  then show "bit (of_be32 0 (ucast (drop_bit 16 v)) (ucast (drop_bit 8 v)) (ucast v)) n
      = bit (take_bit 24 v) n"
    by cases (auto simp: of_be32_def bit_simps)
qed

lemma take_bit_24_id: "v < 2 ^ 24 \<Longrightarrow> take_bit 24 v = (v :: u32)"
  by (simp add: take_bit_eq_mod word_arith_nat_mod word_less_nat_alt)

end
