(* ===== verification/Ids.thy ===== *)
theory Ids
  imports Prelude
begin

text \<open>
  Identifier and time sources: \<^verbatim>\<open>common/timestamp/timestamp.hh\<close>,
  \<^verbatim>\<open>common/ds/id_generator.hh\<close> and \<^verbatim>\<open>common/ds/instance_id_generator.cc\<close>.
  The mutexes make each operation atomic, so an operation is a function on the state.
  Arithmetic is on 32-bit and 16-bit words. The do-while loop of
  \<^verbatim>\<open>InstanceIdGenerator::generate\<close> ends only if some identifier is free, so it has a fuel
  argument; \<open>generate_enough_fuel\<close> shows that 65536 iterations suffice when one is.
\<close>

section \<open>Timestamps\<close>

record Timestamp =
  ts_value :: u32

definition ts_new :: "u32 \<Rightarrow> Timestamp" where
  "ts_new ts = \<lparr>ts_value = ts\<rparr>"

definition ts_nextVal :: "Timestamp \<Rightarrow> u32 \<times> Timestamp" where
  "ts_nextVal t = (ts_value t, t\<lparr>ts_value := ts_value t + 1\<rparr>)"

definition ts_setVal :: "Timestamp \<Rightarrow> u32 \<Rightarrow> Timestamp" where
  "ts_setVal t ts = t\<lparr>ts_value := ts\<rparr>"

definition ts_less :: "Timestamp \<Rightarrow> Timestamp \<Rightarrow> bool" where
  "ts_less a b \<longleftrightarrow> ts_value a < ts_value b"

definition ts_minus :: "Timestamp \<Rightarrow> Timestamp \<Rightarrow> Timestamp" where
  "ts_minus a b =
     (let diff = ts_value a - ts_value b
      in ts_new (if ts_value a < ts_value b then diff + 0xFFFFFFFF else diff))"

section \<open>Per-thread request identifiers\<close>

record IDGenerator =
  idg_numberOfThreads :: u32
  idg_rangeSize :: u32
  idg_currentValue :: "u32 list"
  idg_limits :: "u32 list"

text \<open>\<^verbatim>\<open>init\<close> divides by the number of threads: zero threads is a division by zero.\<close>

definition idg_init :: "u32 \<Rightarrow> IDGenerator option" where
  "idg_init n =
     (if n = 0 then None
      else let r = (0xFFFFFFFF - 1 - 1) div n in
        Some \<lparr>idg_numberOfThreads = n, idg_rangeSize = r,
              idg_currentValue = map (\<lambda>i. r * of_nat i + 1) [0..<unat n],
              idg_limits = map (\<lambda>i. r * of_nat i + 1 + (r - 1)) [0..<unat n]\<rparr>)"

definition idg_nextVal :: "IDGenerator \<Rightarrow> nat \<Rightarrow> (u32 \<times> IDGenerator) option" where
  "idg_nextVal g t =
     (if t < length (idg_currentValue g) \<and> t < length (idg_limits g)
      then let cur = idg_currentValue g ! t;
               nxt = (if cur = idg_limits g ! t then idg_rangeSize g * of_nat t else cur + 1)
           in Some (nxt, g\<lparr>idg_currentValue := (idg_currentValue g)[t := nxt]\<rparr>)
      else None)"

section \<open>Instance identifiers\<close>

record 'sock InstanceIdGenerator =
  iig_current :: u16
  iig_mapping :: "u16 \<rightharpoonup> 'sock"

definition iig_new :: "'sock InstanceIdGenerator" where
  "iig_new = \<lparr>iig_current = 0, iig_mapping = Map.empty\<rparr>"

definition iig_advance :: "u16 \<Rightarrow> u16" where
  "iig_advance c = (let c = c + 1 in if c = 0 then c + 1 else c)"

fun iig_search :: "nat \<Rightarrow> (u16 \<rightharpoonup> 'sock) \<Rightarrow> u16 \<Rightarrow> u16 option" where
  "iig_search 0 m c = None"
| "iig_search (Suc fuel) m c =
     (let c' = iig_advance c in if m c' = None then Some c' else iig_search fuel m c')"

definition iig_generate ::
  "nat \<Rightarrow> 'sock InstanceIdGenerator \<Rightarrow> 'sock \<Rightarrow> (u16 \<times> 'sock InstanceIdGenerator) option" where
  "iig_generate fuel g s =
     (case iig_search fuel (iig_mapping g) (iig_current g) of
        None \<Rightarrow> None
      | Some c \<Rightarrow> Some (c, g\<lparr>iig_current := c, iig_mapping := (iig_mapping g)(c \<mapsto> s)\<rparr>))"

definition iig_release :: "'sock InstanceIdGenerator \<Rightarrow> u16 \<Rightarrow> bool \<times> 'sock InstanceIdGenerator" where
  "iig_release g i =
     (if iig_mapping g i \<noteq> None
      then (True, g\<lparr>iig_mapping := (iig_mapping g)(i := None)\<rparr>) else (False, g))"

section \<open>Lemmas\<close>

lemma iig_advance_nonzero: "iig_advance c \<noteq> 0"
  by (simp add: iig_advance_def Let_def)

lemma iig_search_sound:
  "iig_search fuel m c = Some i \<Longrightarrow> i \<noteq> 0 \<and> m i = None"
  by (induction fuel arbitrary: c) (auto simp: Let_def iig_advance_nonzero split: if_splits)

text \<open>The distance still to go from \<open>c\<close> to the free identifier \<open>i\<close> shrinks at every step.\<close>

lemma unat_pred_less: "d \<noteq> 0 \<Longrightarrow> unat (d - 1) < unat (d :: 'a::len word)"
  by (simp add: measure_unat)

lemma iig_advance_distance:
  assumes "i \<noteq> 0" and "iig_advance c \<noteq> i"
  shows "unat (i - iig_advance c - 1) < unat (i - c - 1)"
proof (cases "c + 1 = 0")
  case True
  then have a: "iig_advance c = 1" and c: "c = - 1"
    by (simp_all add: iig_advance_def Let_def eq_neg_iff_add_eq_0)
  from assms(2) a have "i - 1 \<noteq> 0" by auto
  then have "unat (i - 1 - 1) < unat (i - 1)" by (rule unat_pred_less)
  also have "\<dots> < unat i" using assms(1) by (rule unat_pred_less)
  finally show ?thesis by (simp only: a) (simp add: c)
next
  case False
  then have a: "iig_advance c = c + 1" by (simp add: iig_advance_def Let_def)
  with assms(2) have "i - c - 1 \<noteq> 0" by (auto simp: algebra_simps)
  then have "unat (i - c - 1 - 1) < unat (i - c - 1)" by (rule unat_pred_less)
  then show ?thesis by (simp add: a diff_diff_eq)
qed

lemma iig_search_enough:
  "i \<noteq> 0 \<Longrightarrow> m i = None \<Longrightarrow> unat (i - c - 1) < fuel \<Longrightarrow> \<exists>r. iig_search fuel m c = Some r"
proof (induction fuel arbitrary: c)
  case (Suc fuel)
  show ?case
  proof (cases "m (iig_advance c) = None")
    case False
    with Suc.prems have "iig_advance c \<noteq> i" by auto
    from iig_advance_distance [OF Suc.prems(1) this] Suc.prems(3)
    have "unat (i - iig_advance c - 1) < fuel" by simp
    from Suc.IH [OF Suc.prems(1,2) this] False show ?thesis by (simp add: Let_def)
  qed (simp add: Let_def)
qed simp

lemma generate_enough_fuel:
  assumes "i \<noteq> 0" and "iig_mapping g i = None"
  shows "\<exists>r. iig_generate 65536 g s = Some r"
proof -
  have "unat (i - iig_current g - 1) < 65536"
    using unat_lt_pow [of "i - iig_current g - 1"] by simp
  from iig_search_enough [of i "iig_mapping g", OF assms this] show ?thesis
    by (auto simp: iig_generate_def)
qed

lemma idg_range_small:
  assumes "n \<noteq> 0"
  shows "unat ((0xFFFFFFFD :: u32) div n) * unat n \<le> 4294967293"
proof -
  have "unat ((0xFFFFFFFD :: u32) div n) = 4294967293 div unat n" by (simp add: unat_div)
  then show ?thesis by (simp add: div_times_less_eq_dividend)
qed

lemma idg_base_unat:
  assumes "n \<noteq> 0" and "t < unat n" and "x \<le> unat ((0xFFFFFFFD :: u32) div n)"
  shows "unat (((0xFFFFFFFD :: u32) div n) * of_nat t + of_nat x)
          = unat ((0xFFFFFFFD :: u32) div n) * t + x"
proof -
  let ?r = "(0xFFFFFFFD :: u32) div n"
  have t: "unat (of_nat t :: u32) = t"
    using assms(2) unat_u32_less [of n] by (intro unat_of_nat_eq) simp
  have "unat ?r * t + x \<le> unat ?r * Suc t" using assms(3) by simp
  also have "\<dots> \<le> unat ?r * unat n" using assms(2) by (intro mult_le_mono2) simp
  finally have b: "unat ?r * t + x \<le> 4294967293" using idg_range_small [OF assms(1)] by simp
  have x: "unat (of_nat x :: u32) = x" using b by (intro unat_of_nat_eq) simp
  have m: "unat (?r * of_nat t) = unat ?r * t" using b t by (subst unat_mult_eq) simp_all
  show ?thesis using b m x by (subst unat_plus_eq) simp_all
qed

text \<open>
  The identifiers of thread \<open>t\<close> before its range is used up: \<open>r * t + 2\<close> to \<open>r * (t + 1)\<close>.
\<close>

definition idg_state_ok :: "u32 \<Rightarrow> IDGenerator \<Rightarrow> nat \<Rightarrow> nat \<Rightarrow> bool" where
  "idg_state_ok n g t x \<longleftrightarrow>
     idg_rangeSize g = 0xFFFFFFFD div n \<and>
     length (idg_currentValue g) = unat n \<and> length (idg_limits g) = unat n \<and> t < unat n \<and>
     idg_limits g ! t = idg_rangeSize g * of_nat t + idg_rangeSize g \<and>
     1 \<le> x \<and> x \<le> unat (idg_rangeSize g) \<and>
     idg_currentValue g ! t = idg_rangeSize g * of_nat t + of_nat x"

fun idg_take :: "IDGenerator \<Rightarrow> nat \<Rightarrow> nat \<Rightarrow> (u32 list \<times> IDGenerator) option" where
  "idg_take g t 0 = Some ([], g)"
| "idg_take g t (Suc k) =
     (case idg_nextVal g t of None \<Rightarrow> None
      | Some (i, g') \<Rightarrow> map_option (\<lambda>(is, g''). (i # is, g'')) (idg_take g' t k))"

lemma idg_init_ok:
  assumes "idg_init n = Some g" and "t < unat n" and "1 \<le> unat (idg_rangeSize g)"
  shows "idg_state_ok n g t 1"
proof -
  from assms(1) have "n \<noteq> 0" by (auto simp: idg_init_def split: if_splits)
  with assms show ?thesis by (auto simp: idg_init_def idg_state_ok_def Let_def)
qed

lemma idg_nextVal_ok:
  assumes "n \<noteq> 0" and ok: "idg_state_ok n g t x" and "x < unat (idg_rangeSize g)"
  shows "\<exists>g'. idg_nextVal g t = Some (idg_rangeSize g * of_nat t + of_nat (Suc x), g')
             \<and> idg_state_ok n g' t (Suc x) \<and> idg_rangeSize g' = idg_rangeSize g"
proof -
  let ?r = "(0xFFFFFFFD :: u32) div n"
  from ok have r: "idg_rangeSize g = ?r" and t: "t < unat n" by (simp_all add: idg_state_ok_def)
  have "unat (?r * of_nat t + of_nat x) \<noteq> unat (?r * of_nat t + of_nat (unat ?r))"
    using assms(3) r idg_base_unat [OF assms(1) t, of x] idg_base_unat [OF assms(1) t, of "unat ?r"]
    by simp
  then have "?r * of_nat t + of_nat x \<noteq> ?r * of_nat t + ?r" by auto
  then have "idg_nextVal g t = Some (idg_rangeSize g * of_nat t + of_nat (Suc x),
      g\<lparr>idg_currentValue := (idg_currentValue g)[t := idg_rangeSize g * of_nat t + of_nat (Suc x)]\<rparr>)"
    using ok r by (simp add: idg_nextVal_def idg_state_ok_def Let_def algebra_simps)
  with ok assms(3) show ?thesis by (simp add: idg_state_ok_def)
qed

lemma idg_take_ids:
  assumes "n \<noteq> 0"
  shows "idg_state_ok n g t x \<Longrightarrow> x + k \<le> unat (idg_rangeSize g) \<Longrightarrow>
    \<exists>g'. idg_take g t k =
      Some (map (\<lambda>j. idg_rangeSize g * of_nat t + of_nat (x + j)) [1..<Suc k], g')"
proof (induction k arbitrary: g x)
  case (Suc k)
  then have "x < unat (idg_rangeSize g)" by simp
  from idg_nextVal_ok [OF assms Suc.prems(1) this] obtain g1 where
    g1: "idg_nextVal g t = Some (idg_rangeSize g * of_nat t + of_nat (Suc x), g1)"
    and ok: "idg_state_ok n g1 t (Suc x)" and r: "idg_rangeSize g1 = idg_rangeSize g"
    by blast
  from Suc.IH [OF ok] Suc.prems(2) r obtain g2 where
    "idg_take g1 t k =
      Some (map (\<lambda>j. idg_rangeSize g * of_nat t + of_nat (Suc x + j)) [1..<Suc k], g2)" by auto
  moreover have "[1..<Suc (Suc k)] = 1 # map Suc [1..<Suc k]"
    by (simp add: upt_conv_Cons map_Suc_upt del: upt_Suc)
  ultimately show ?case using g1 by (simp add: o_def del: upt_Suc)
qed simp

lemma idg_ids_distinct:
  assumes "n \<noteq> 0" and "t < unat n" and "1 + k \<le> unat ((0xFFFFFFFD :: u32) div n)"
    and i: "i \<in> set (map (\<lambda>j. ((0xFFFFFFFD :: u32) div n) * of_nat t + of_nat (1 + j)) [1..<Suc k])"
  shows "unat ((0xFFFFFFFD :: u32) div n) * t + 2 \<le> unat i
       \<and> unat i \<le> unat ((0xFFFFFFFD :: u32) div n) * Suc t"
proof -
  from i obtain j where j: "1 \<le> j" "j \<le> k"
    and eq: "i = ((0xFFFFFFFD :: u32) div n) * of_nat t + of_nat (1 + j)" by auto
  have "unat i = unat ((0xFFFFFFFD :: u32) div n) * t + (1 + j)"
    unfolding eq using assms(3) j by (intro idg_base_unat [OF assms(1,2)]) simp
  with j assms(3) show ?thesis by simp
qed

section \<open>Properties\<close>

text \<open>
  Request identifiers of two threads never collide and are never the reserved identifier 0,
  as long as no thread draws more identifiers than its range holds (\<open>k\<close> at most the range
  size less one); the draws of a thread succeed.
\<close>

theorem id_ranges_disjoint:
  assumes "idg_init n = Some g" and "t1 < unat n" and "t2 < unat n" and "t1 \<noteq> t2"
    and "1 + k1 \<le> unat (idg_rangeSize g)" and "1 + k2 \<le> unat (idg_rangeSize g)"
  shows "\<exists>is1 g1 is2 g2. idg_take g t1 k1 = Some (is1, g1) \<and> idg_take g t2 k2 = Some (is2, g2)
     \<and> length is1 = k1 \<and> set is1 \<inter> set is2 = {} \<and> 0 \<notin> set is1"
proof -
  let ?r = "(0xFFFFFFFD :: u32) div n"
  from assms(1) have n: "n \<noteq> 0" and r: "idg_rangeSize g = ?r"
    by (auto simp: idg_init_def Let_def split: if_splits)
  define ids where "ids t k = map (\<lambda>j. ?r * of_nat t + of_nat (1 + j)) [1..<Suc k]" for t k
  have tk: "\<exists>g'. idg_take g t k = Some (ids t k, g')" if "t < unat n" "1 + k \<le> unat ?r" for t k
    using idg_take_ids [OF n idg_init_ok [OF assms(1) that(1)], of k] that r
    by (simp add: ids_def del: upt_Suc)
  have bnd: "unat ?r * t + 2 \<le> unat i \<and> unat i \<le> unat ?r * Suc t"
    if "t < unat n" "1 + k \<le> unat ?r" "i \<in> set (ids t k)" for t k i
    using idg_ids_distinct [OF n that(1,2)] that(3) unfolding ids_def by blast
  have "set (ids t1 k1) \<inter> set (ids t2 k2) = {}"
  proof (rule ccontr)
    assume "\<not> ?thesis"
    then obtain i where "i \<in> set (ids t1 k1)" "i \<in> set (ids t2 k2)" by blast
    with bnd assms r have b: "unat ?r * t1 + 2 \<le> unat i" "unat i \<le> unat ?r * Suc t1"
      "unat ?r * t2 + 2 \<le> unat i" "unat i \<le> unat ?r * Suc t2" by auto
    from assms(4) consider "Suc t1 \<le> t2" | "Suc t2 \<le> t1" by linarith
    then show False
    proof cases
      case 1
      then have "unat ?r * Suc t1 \<le> unat ?r * t2" by (rule mult_le_mono2)
      with b show ?thesis by linarith
    next
      case 2
      then have "unat ?r * Suc t2 \<le> unat ?r * t1" by (rule mult_le_mono2)
      with b show ?thesis by linarith
    qed
  qed
  moreover have "0 \<notin> set (ids t1 k1)" using bnd [OF assms(2)] assms(5) r by fastforce
  moreover have "length (ids t1 k1) = k1" by (simp add: ids_def)
  ultimately show ?thesis using tk [OF assms(2)] tk [OF assms(3)] assms(5,6) r by metis
qed

theorem id_ranges_disjoint_witness:
  "\<exists>g. idg_init 3 = Some g \<and> (\<exists>is1 g1 is2 g2. idg_take g 0 2 = Some (is1, g1)
      \<and> idg_take g 2 5 = Some (is2, g2) \<and> set is1 \<inter> set is2 = {})"
proof -
  obtain g where g: "idg_init 3 = Some g" and r: "unat (idg_rangeSize g) = 1431655764"
    by (simp add: idg_init_def Let_def)
  show ?thesis using g id_ranges_disjoint [OF g, of 0 2 2 5] r by auto
qed

text \<open>
  When a thread has used up its range, the next identifier is the last identifier of the
  thread before it (0, the reserved one, for thread 0): the wrap-around of
  \<^verbatim>\<open>IDGenerator::nextVal\<close> restarts one below the range it announced.
\<close>

theorem id_wraparound_overlap:
  assumes "idg_init n = Some g" and "Suc t < unat n" and "idg_currentValue g' = idg_limits g"
    and "idg_limits g' = idg_limits g" and "idg_rangeSize g' = idg_rangeSize g"
  shows "map_option fst (idg_nextVal g' (Suc t)) = Some (idg_limits g ! t)
       \<and> map_option fst (idg_nextVal g' 0) = Some 0"
  using assms by (auto simp: idg_init_def idg_nextVal_def Let_def algebra_simps split: if_splits)

theorem id_wraparound_overlap_witness:
  "\<exists>g g'. idg_init 2 = Some g \<and> idg_currentValue g' = idg_limits g \<and>
     map_option fst (idg_nextVal g' 1) = Some (idg_limits g ! 0)"
proof -
  obtain g where g: "idg_init 2 = Some g" by (simp add: idg_init_def Let_def)
  let ?g = "g\<lparr>idg_currentValue := idg_limits g\<rparr>"
  have "map_option fst (idg_nextVal ?g (Suc 0)) = Some (idg_limits g ! 0)"
    using id_wraparound_overlap [OF g, of 0 ?g] by simp
  with g show ?thesis
    by (intro exI [of _ g] exI [of _ ?g]) simp
qed

text \<open>
  \<^verbatim>\<open>InstanceIdGenerator::generate\<close> returns whenever some non-reserved identifier is free
  (its loop ends within 65536 iterations); the identifier it returns is not the reserved 0, was
  free, is now bound to the socket, and no other binding changed.
\<close>

theorem instance_id_fresh:
  assumes "i \<noteq> 0" and "iig_mapping g i = None"
  shows "\<exists>c g'. iig_generate 65536 g s = Some (c, g') \<and> c \<noteq> 0 \<and> iig_mapping g c = None
      \<and> iig_mapping g' = (iig_mapping g)(c \<mapsto> s)"
  using generate_enough_fuel [OF assms, of s]
  by (auto simp: iig_generate_def split: option.splits dest: iig_search_sound)

theorem instance_id_fresh_witness:
  "\<exists>c g'. iig_generate 65536 (iig_new :: nat InstanceIdGenerator) 7 = Some (c, g') \<and> c \<noteq> 0"
  using instance_id_fresh [of 1 "iig_new :: nat InstanceIdGenerator" 7] by (auto simp: iig_new_def)

text \<open>
  The difference of two timestamps is exact when the first is not older; otherwise it is one
  less than the distance modulo \<open>2 ^ 32\<close>, because the wrap-around is corrected twice.
\<close>

theorem timestamp_minus_value:
  "ts_value (ts_minus a b) =
     (if ts_less a b then ts_value a - ts_value b - 1 else ts_value a - ts_value b)"
  by (simp add: ts_minus_def ts_less_def ts_new_def Let_def)

end
