(* ===== verification/RingBuffer.thy ===== *)
theory RingBuffer
  imports Prelude
begin

text \<open>
  The bounded blocking queue of \<^verbatim>\<open>common/ds/ring_buffer.hh\<close>, which carries every event
  between the threads of a node. An operation runs under the mutex, so it is one function on the
  state; where the code waits on a condition variable the outcome is \<open>Blocked\<close> and the
  state does not change until another thread has moved. Also here: the contract of a bounded
  FIFO, and the facts on circular arrays that the ring buffer and the memory pool share.
\<close>

section \<open>The state and its operations\<close>

type_synonym slot = "int \<times> byte list"

record RingBuffer =
  rb_buffer :: "slot list"
  rb_readIndex :: nat
  rb_writeIndex :: nat
  rb_count :: nat
  rb_max :: nat
  rb_run :: bool
  rb_blockOnEmpty :: bool

datatype 'a outcome = Blocked | Returned 'a

definition rb_new :: "int \<Rightarrow> bool \<Rightarrow> RingBuffer" where
  "rb_new sz block =
     (let n = nat (if sz < 2 then 2 else sz)
      in \<lparr>rb_buffer = replicate n (0, []), rb_readIndex = 0, rb_writeIndex = 0, rb_count = 0,
          rb_max = n, rb_run = True, rb_blockOnEmpty = block\<rparr>)"

definition next_index :: "nat \<Rightarrow> nat \<Rightarrow> nat" where
  "next_index mx x = (if x + 1 \<ge> mx then 0 else x + 1)"

text \<open>The \<open>len\<close> bytes at \<open>data\<close> are copied into the slot; the return value is 0.\<close>

definition rb_Insert :: "RingBuffer \<Rightarrow> byte list \<Rightarrow> (int \<times> RingBuffer) outcome" where
  "rb_Insert q d =
     (if rb_count q = rb_max q then Blocked
      else Returned (0, q\<lparr>rb_buffer := (rb_buffer q)[rb_writeIndex q := (int (length d), d)],
                          rb_writeIndex := next_index (rb_max q) (rb_writeIndex q),
                          rb_count := rb_count q + 1\<rparr>))"

definition rb_Extract :: "RingBuffer \<Rightarrow> (int \<times> byte list option \<times> RingBuffer) outcome" where
  "rb_Extract q =
     (if rb_count q = 0
      then if \<not> rb_blockOnEmpty q \<or> \<not> rb_run q then Returned (-1, None, q) else Blocked
      else let (len, d) = rb_buffer q ! rb_readIndex q
           in Returned (0, Some (take (nat len) d),
                q\<lparr>rb_readIndex := next_index (rb_max q) (rb_readIndex q), rb_count := rb_count q - 1\<rparr>))"

text \<open>\<^verbatim>\<open>Stop\<close> clears the run flag and then waits until the buffer is drained.\<close>

definition rb_Stop :: "RingBuffer \<Rightarrow> RingBuffer \<times> unit outcome" where
  "rb_Stop q = (q\<lparr>rb_run := False\<rparr>, if rb_count q > 0 then Blocked else Returned ())"

section \<open>Circular arrays\<close>

definition ring_list :: "'a list \<Rightarrow> nat \<Rightarrow> nat \<Rightarrow> 'a list" where
  "ring_list xs r n = map (\<lambda>i. xs ! ((r + i) mod length xs)) [0..<n]"

lemma length_ring_list [simp]: "length (ring_list xs r n) = n"
  by (simp add: ring_list_def)

lemma next_index_mod: "x < n \<Longrightarrow> next_index n x = (x + 1) mod n"
  by (auto simp: next_index_def mod_Suc)

lemma ring_list_snoc:
  assumes "length xs = k" and "n < k"
  shows "ring_list (xs[(r + n) mod k := x]) r (Suc n) = ring_list xs r n @ [x]"
proof -
  have ne: "(r + n) mod k \<noteq> (r + i) mod k" if "i < n" for i
  proof
    assume "(r + n) mod k = (r + i) mod k"
    then have "k dvd r + n - (r + i)" using that mod_eq_dvd_iff_nat [of "r + i" "r + n" k] by simp
    then have "k \<le> n - i" using that by (intro dvd_imp_le) simp_all
    with that assms(2) show False by simp
  qed
  have "(r + n) mod k < k" using assms(2) by (intro mod_less_divisor) simp
  with assms show ?thesis by (auto simp: ring_list_def nth_list_update_neq [OF ne])
qed

lemma ring_list_Cons:
  assumes "0 < n" and "r < length xs"
  shows "ring_list xs r n = xs ! r # ring_list xs ((r + 1) mod length xs) (n - 1)"
proof -
  obtain m where n: "n = Suc m" using assms(1) by (cases n) auto
  have "(r + Suc i) mod length xs = ((r + 1) mod length xs + i) mod length xs" for i
    by (simp add: mod_simps)
  then show ?thesis using assms(2)
    by (simp add: ring_list_def n upt_conv_Cons map_Suc_upt [symmetric] o_def del: upt_Suc)
qed

section \<open>The contract of a bounded FIFO\<close>

text \<open>
  What the clients of a bounded queue rely on: \<open>put\<close> adds at the end unless the queue is
  full, \<open>get\<close> takes from the front unless it is empty, and both keep the invariant.
\<close>

locale bounded_fifo =
  fixes inv :: "'q \<Rightarrow> bool"
    and items :: "'q \<Rightarrow> 'a list"
    and cap :: "'q \<Rightarrow> nat"
    and put :: "'q \<Rightarrow> 'a \<Rightarrow> 'q option"
    and get :: "'q \<Rightarrow> ('a \<times> 'q) option"
  assumes bounded: "inv q \<Longrightarrow> length (items q) \<le> cap q"
    and put_None: "inv q \<Longrightarrow> put q x = None \<longleftrightarrow> length (items q) = cap q"
    and put_Some: "inv q \<Longrightarrow> put q x = Some q' \<Longrightarrow> inv q' \<and> items q' = items q @ [x] \<and> cap q' = cap q"
    and get_None: "inv q \<Longrightarrow> get q = None \<longleftrightarrow> items q = []"
    and get_Some: "inv q \<Longrightarrow> get q = Some (x, q') \<Longrightarrow> inv q' \<and> items q = x # items q' \<and> cap q' = cap q"
begin

fun puts :: "'q \<Rightarrow> 'a list \<Rightarrow> 'q option" where
  "puts q [] = Some q"
| "puts q (x # xs) = (case put q x of None \<Rightarrow> None | Some q' \<Rightarrow> puts q' xs)"

fun gets :: "'q \<Rightarrow> nat \<Rightarrow> ('a list \<times> 'q) option" where
  "gets q 0 = Some ([], q)"
| "gets q (Suc n) =
     (case get q of None \<Rightarrow> None
      | Some (x, q') \<Rightarrow> map_option (\<lambda>(xs, q''). (x # xs, q'')) (gets q' n))"

lemma puts_total:
  "inv q \<Longrightarrow> length (items q) + length xs \<le> cap q \<Longrightarrow>
     \<exists>q'. puts q xs = Some q' \<and> inv q' \<and> items q' = items q @ xs \<and> cap q' = cap q"
proof (induction xs arbitrary: q)
  case (Cons x xs)
  then have "put q x \<noteq> None" by (simp add: put_None)
  then obtain q1 where q1: "put q x = Some q1" by blast
  with put_Some [OF Cons.prems(1) q1] Cons.IH [of q1] Cons.prems(2) show ?case by simp
qed simp

lemma gets_total:
  "inv q \<Longrightarrow> n \<le> length (items q) \<Longrightarrow>
     \<exists>q'. gets q n = Some (take n (items q), q') \<and> inv q' \<and> items q' = drop n (items q)"
proof (induction n arbitrary: q)
  case (Suc n)
  then have "items q \<noteq> []" by auto
  then have "get q \<noteq> None" using Suc.prems(1) by (simp add: get_None)
  then obtain x q1 where q1: "get q = Some (x, q1)" by auto
  with get_Some [OF Suc.prems(1) q1] Suc.IH [of q1] Suc.prems(2) show ?case by auto
qed simp

lemma fifo_order:
  assumes "inv q" and "items q = []" and "length xs \<le> cap q"
  shows "\<exists>q1 q2. puts q xs = Some q1 \<and> gets q1 (length xs) = Some (xs, q2) \<and> items q2 = []"
proof -
  from puts_total [OF assms(1), of xs] assms(2,3) obtain q1 where
    q1: "puts q xs = Some q1" "inv q1" "items q1 = xs" by auto
  from gets_total [OF q1(2), of "length xs"] q1(3) obtain q2 where
    "gets q1 (length xs) = Some (xs, q2)" "items q2 = []" by auto
  with q1(1) show ?thesis by blast
qed

end

section \<open>The ring buffer keeps the contract\<close>

definition rb_inv :: "RingBuffer \<Rightarrow> bool" where
  "rb_inv q \<longleftrightarrow>
     length (rb_buffer q) = rb_max q \<and> 0 < rb_max q \<and> rb_count q \<le> rb_max q \<and>
     rb_readIndex q < rb_max q \<and> rb_writeIndex q = (rb_readIndex q + rb_count q) mod rb_max q"

definition rb_items :: "RingBuffer \<Rightarrow> byte list list" where
  "rb_items q = map (\<lambda>(len, d). take (nat len) d) (ring_list (rb_buffer q) (rb_readIndex q) (rb_count q))"

definition rb_put :: "RingBuffer \<Rightarrow> byte list \<Rightarrow> RingBuffer option" where
  "rb_put q d = (case rb_Insert q d of Blocked \<Rightarrow> None | Returned (_, q') \<Rightarrow> Some q')"

definition rb_get :: "RingBuffer \<Rightarrow> (byte list \<times> RingBuffer) option" where
  "rb_get q = (case rb_Extract q of
       Returned (_, Some d, q') \<Rightarrow> Some (d, q') | _ \<Rightarrow> None)"

lemma rb_Insert_step:
  assumes "rb_inv q" and "rb_count q \<noteq> rb_max q"
  shows "\<exists>q'. rb_Insert q d = Returned (0, q') \<and> rb_inv q' \<and> rb_items q' = rb_items q @ [d]
              \<and> rb_max q' = rb_max q"
proof -
  from assms have k: "length (rb_buffer q) = rb_max q" and lt: "rb_count q < rb_max q"
    by (auto simp: rb_inv_def)
  from assms show ?thesis
    by (simp add: rb_Insert_def rb_inv_def rb_items_def ring_list_snoc [OF k lt] next_index_mod mod_simps)
qed

lemma rb_Extract_step:
  assumes "rb_inv q" and "rb_count q \<noteq> 0"
  shows "\<exists>d q'. rb_Extract q = Returned (0, Some d, q') \<and> rb_inv q' \<and> rb_items q = d # rb_items q'
              \<and> rb_max q' = rb_max q"
proof -
  from assms have r: "rb_readIndex q < length (rb_buffer q)" and n: "0 < rb_count q"
    by (auto simp: rb_inv_def)
  from n obtain m where m: "rb_count q = Suc m" by (cases "rb_count q") auto
  obtain len d where s: "rb_buffer q ! rb_readIndex q = (len, d)" by fastforce
  from assms r ring_list_Cons [OF n r] show ?thesis
    by (simp add: rb_Extract_def rb_inv_def rb_items_def next_index_mod m s mod_simps)
qed

lemma rb_Extract_empty: "rb_count q = 0 \<Longrightarrow> rb_get q = None"
  by (simp add: rb_get_def rb_Extract_def)

lemma rb_items_Nil: "rb_items q = [] \<longleftrightarrow> rb_count q = 0"
  by (simp add: rb_items_def flip: length_0_conv)

interpretation ring: bounded_fifo rb_inv rb_items rb_max rb_put rb_get
proof unfold_locales
  fix q and x :: "byte list" and q'
  assume inv: "rb_inv q"
  show "length (rb_items q) \<le> rb_max q" using inv by (simp add: rb_inv_def rb_items_def)
  show "(rb_put q x = None) = (length (rb_items q) = rb_max q)"
    using rb_Insert_step [OF inv, of x] by (auto simp: rb_put_def rb_items_def rb_Insert_def)
  show "rb_put q x = Some q' \<Longrightarrow> rb_inv q' \<and> rb_items q' = rb_items q @ [x] \<and> rb_max q' = rb_max q"
    using rb_Insert_step [OF inv, of x] by (auto simp: rb_put_def rb_Insert_def split: if_splits)
  show "(rb_get q = None) = (rb_items q = [])"
    using rb_Extract_step [OF inv] rb_Extract_empty [of q]
    by (cases "rb_count q = 0") (auto simp: rb_get_def rb_items_Nil)
  show "rb_get q = Some (x, q') \<Longrightarrow> rb_inv q' \<and> rb_items q = x # rb_items q' \<and> rb_max q' = rb_max q"
    using rb_Extract_step [OF inv] rb_Extract_empty [of q]
    by (cases "rb_count q = 0") (auto simp: rb_get_def)
qed

lemma rb_new_inv: "rb_inv (rb_new sz block) \<and> rb_items (rb_new sz block) = []"
  by (auto simp: rb_new_def rb_inv_def rb_items_Nil Let_def)

section \<open>Properties\<close>

text \<open>
  The event queue is a bounded FIFO: from a new ring buffer every sequence of at most
  \<open>max\<close> insertions succeeds without blocking, and the same number of extractions returns
  the inserted messages in order and leaves the queue empty; a further insertion into a full
  queue blocks, and a further extraction from an empty one blocks exactly while the queue runs
  in blocking mode.
\<close>

theorem ring_buffer_fifo:
  assumes "length xs \<le> rb_max (rb_new sz block)"
  shows "\<exists>q1 q2. ring.puts (rb_new sz block) xs = Some q1 \<and> ring.gets q1 (length xs) = Some (xs, q2)
      \<and> rb_items q2 = []
      \<and> (length xs = rb_max (rb_new sz block) \<longrightarrow> rb_Insert q1 x = Blocked)
      \<and> rb_Extract q2 = (if rb_blockOnEmpty q2 \<and> rb_run q2 then Blocked else Returned (-1, None, q2))"
proof -
  let ?q = "rb_new sz block"
  from ring.puts_total [of ?q xs] rb_new_inv [of sz block] assms obtain q1 where
    q1: "ring.puts ?q xs = Some q1" "rb_inv q1" "rb_items q1 = xs" "rb_max q1 = rb_max ?q" by auto
  from ring.gets_total [OF q1(2), of "length xs"] q1(3) obtain q2 where
    q2: "ring.gets q1 (length xs) = Some (xs, q2)" "rb_items q2 = []" by auto
  have "rb_count q1 = length xs" using q1(3) by (auto simp: rb_items_def)
  with q1 q2 show ?thesis by (auto simp: rb_Insert_def rb_Extract_def rb_items_Nil)
qed

theorem ring_buffer_fifo_witness:
  "\<exists>q1 q2. ring.puts (rb_new 3 True) [[1], [2, 3]] = Some q1
      \<and> ring.gets q1 2 = Some ([[1], [2, 3]], q2)"
proof -
  have "length [[1 :: byte], [2, 3]] \<le> rb_max (rb_new 3 True)" by (simp add: rb_new_def)
  from ring_buffer_fifo [OF this, of "[]"] show ?thesis
    by (auto simp: numeral_2_eq_2 simp del: ring.puts.simps ring.gets.simps)
qed

end
