(* ===== verification/MemoryPool.thy ===== *)
theory MemoryPool
  imports RingBuffer "HOL-Library.Multiset"
begin

text \<open>
  The object pool of \<^verbatim>\<open>common/ds/memory_pool.hh\<close> and the packet pool of
  \<^verbatim>\<open>common/ds/packet_pool.hh\<close> on top of it. The pool is a circular array of pointers
  (natural numbers); the entries from the read index on are the free objects. A wait on the
  condition variable is the outcome \<open>Blocked\<close>; a failed \<^verbatim>\<open>assert\<close> is \<^term>\<open>None\<close>.
\<close>

section \<open>The memory pool\<close>

record MemoryPool =
  mp_readIndex :: nat
  mp_writeIndex :: nat
  mp_count :: nat
  mp_capacity :: nat
  mp_pool :: "nat list"

definition mp_getCapacity :: "nat \<Rightarrow> nat \<Rightarrow> nat \<Rightarrow> nat option" where
  "mp_getCapacity sizeofT space extra =
     (if sizeofT + extra = 0 then None else Some (space div (sizeofT + extra)))"

text \<open>\<^verbatim>\<open>init\<close> with the pointers that \<^verbatim>\<open>new T()\<close> returned.\<close>

definition mp_init :: "nat list \<Rightarrow> MemoryPool" where
  "mp_init objs =
     \<lparr>mp_readIndex = 0, mp_writeIndex = 0, mp_count = 0, mp_capacity = length objs, mp_pool = objs\<rparr>"

definition mp_take :: "MemoryPool \<Rightarrow> nat \<times> MemoryPool" where
  "mp_take p = (mp_pool p ! mp_readIndex p,
     p\<lparr>mp_readIndex := next_index (mp_capacity p) (mp_readIndex p), mp_count := mp_count p + 1\<rparr>)"

fun mp_take_n :: "MemoryPool \<Rightarrow> nat \<Rightarrow> nat list \<times> MemoryPool" where
  "mp_take_n p 0 = ([], p)"
| "mp_take_n p (Suc n) =
     (let (x, p1) = mp_take p; (xs, p2) = mp_take_n p1 n in (x # xs, p2))"

text \<open>
  \<^verbatim>\<open>malloc( buffer, count, wait )\<close>: the pointers handed out, or the empty list for the null
  result of a full pool. Without a buffer (or with a zero count) one object is taken.
\<close>

definition mp_malloc :: "MemoryPool \<Rightarrow> bool \<Rightarrow> nat \<Rightarrow> bool \<Rightarrow> (nat list \<times> MemoryPool) outcome" where
  "mp_malloc p hasBuffer n wait =
     (if mp_count p + n > mp_capacity p
      then if wait then Blocked else Returned ([], p)
      else if hasBuffer \<and> n \<noteq> 0 then Returned (mp_take_n p n)
      else let (x, p') = mp_take p in Returned ([x], p'))"

definition mp_free1 :: "MemoryPool \<Rightarrow> nat \<Rightarrow> MemoryPool option" where
  "mp_free1 p x =
     (if mp_count p = 0 then None
      else Some (p\<lparr>mp_pool := (mp_pool p)[mp_writeIndex p := x],
                   mp_writeIndex := next_index (mp_capacity p) (mp_writeIndex p),
                   mp_count := mp_count p - 1\<rparr>))"

fun mp_free :: "MemoryPool \<Rightarrow> nat list \<Rightarrow> (nat \<times> MemoryPool) option" where
  "mp_free p [] = Some (0, p)"
| "mp_free p (x # xs) =
     (case mp_free1 p x of None \<Rightarrow> None
      | Some p' \<Rightarrow> map_option (\<lambda>(r, p''). (Suc r, p'')) (mp_free p' xs))"

section \<open>Packets\<close>

record Packet =
  pk_referenceCount :: u32
  pk_capacity :: u32
  pk_size :: u32
  pk_data :: "byte list"
  pk_inPool :: bool

definition pk_new :: "bool \<Rightarrow> Packet" where
  "pk_new inPool =
     \<lparr>pk_referenceCount = 0, pk_capacity = 0, pk_size = 0, pk_data = [], pk_inPool = inPool\<rparr>"

definition pk_init :: "Packet \<Rightarrow> u32 \<Rightarrow> Packet" where
  "pk_init p c = p\<lparr>pk_capacity := c, pk_data := replicate (unat c) 0\<rparr>"

definition pk_read :: "Packet \<Rightarrow> byte list option" where
  "pk_read p = (if pk_size p = 0 then None else Some (take (unat (pk_size p)) (pk_data p)))"

definition pk_write :: "Packet \<Rightarrow> byte list \<Rightarrow> bool \<times> Packet" where
  "pk_write p d =
     (if length d > unat (pk_capacity p) then (False, p)
      else (True, p\<lparr>pk_data := d @ drop (length d) (pk_data p), pk_size := of_nat (length d)\<rparr>))"

definition pk_setReferenceCount :: "Packet \<Rightarrow> u32 \<Rightarrow> Packet" where
  "pk_setReferenceCount p n = p\<lparr>pk_referenceCount := n\<rparr>"

definition pk_decrement :: "Packet \<Rightarrow> bool \<times> Packet" where
  "pk_decrement p =
     (let p' = p\<lparr>pk_referenceCount := pk_referenceCount p - 1\<rparr> in (pk_referenceCount p' = 0, p'))"

section \<open>The packet pool\<close>

text \<open>The packets live in a store from pointers to packets; a deleted packet leaves it.\<close>

record PacketPool =
  pp_pool :: MemoryPool
  pp_size :: u32
  pp_capacity :: nat
  pp_extraCount :: u32
  pp_store :: "nat \<rightharpoonup> Packet"

definition pp_init :: "nat list \<Rightarrow> u32 \<Rightarrow> PacketPool" where
  "pp_init ptrs sz =
     \<lparr>pp_pool = mp_init ptrs, pp_size = sz, pp_capacity = length ptrs, pp_extraCount = 0,
      pp_store = (\<lambda>a. if a \<in> set ptrs then Some (pk_init (pk_new True) sz) else None)\<rparr>"

text \<open>\<open>fresh\<close> is the pointer \<^verbatim>\<open>new Packet( false )\<close> would return.\<close>

definition pp_malloc :: "PacketPool \<Rightarrow> nat \<Rightarrow> (nat \<times> PacketPool) outcome" where
  "pp_malloc pp fresh =
     (case mp_malloc (pp_pool pp) False 1 False of
        Blocked \<Rightarrow> Blocked
      | Returned ([], _) \<Rightarrow>
          Returned (fresh, pp\<lparr>pp_extraCount := pp_extraCount pp + 1,
                              pp_store := (pp_store pp)(fresh \<mapsto> pk_init (pk_new False) (pp_size pp))\<rparr>)
      | Returned (x # _, p) \<Rightarrow> Returned (x, pp\<lparr>pp_pool := p\<rparr>))"

definition pp_free :: "PacketPool \<Rightarrow> nat \<Rightarrow> PacketPool option" where
  "pp_free pp a =
     (case pp_store pp a of None \<Rightarrow> None
      | Some pk \<Rightarrow>
          let (zero, pk') = pk_decrement pk; pp = pp\<lparr>pp_store := (pp_store pp)(a \<mapsto> pk')\<rparr> in
          if \<not> zero then Some pp
          else if pk_inPool pk'
          then map_option (\<lambda>p. pp\<lparr>pp_pool := p\<rparr>) (mp_free1 (pp_pool pp) a)
          else Some (pp\<lparr>pp_store := (pp_store pp)(a := None), pp_extraCount := pp_extraCount pp - 1\<rparr>))"

section \<open>The free objects form a bounded FIFO\<close>

definition mp_left :: "MemoryPool \<Rightarrow> nat" where
  "mp_left p = mp_capacity p - mp_count p"

definition mp_inv :: "MemoryPool \<Rightarrow> bool" where
  "mp_inv p \<longleftrightarrow>
     length (mp_pool p) = mp_capacity p \<and> 0 < mp_capacity p \<and> mp_count p \<le> mp_capacity p \<and>
     mp_readIndex p < mp_capacity p \<and>
     mp_writeIndex p = (mp_readIndex p + mp_left p) mod mp_capacity p"

definition mp_avail :: "MemoryPool \<Rightarrow> nat list" where
  "mp_avail p = ring_list (mp_pool p) (mp_readIndex p) (mp_left p)"

definition mp_get :: "MemoryPool \<Rightarrow> (nat \<times> MemoryPool) option" where
  "mp_get p = (if mp_count p = mp_capacity p then None else Some (mp_take p))"

lemma length_mp_avail [simp]: "length (mp_avail p) = mp_capacity p - mp_count p"
  by (simp add: mp_avail_def mp_left_def)

lemma mp_take_step:
  assumes "mp_inv p" and "mp_count p < mp_capacity p" and "mp_take p = (x, p')"
  shows "mp_inv p' \<and> mp_avail p = x # mp_avail p' \<and> mp_capacity p' = mp_capacity p
         \<and> mp_count p' = Suc (mp_count p)"
proof -
  from assms(3) have p': "p' = p\<lparr>mp_readIndex := next_index (mp_capacity p) (mp_readIndex p),
      mp_count := mp_count p + 1\<rparr>" and x: "x = mp_pool p ! mp_readIndex p"
    by (simp_all add: mp_take_def)
  have left: "mp_left p = Suc (mp_left p')" using assms(2) by (simp add: p' mp_left_def Suc_diff_Suc)
  from assms have r: "mp_readIndex p < length (mp_pool p)" by (auto simp: mp_inv_def)
  from assms(1,2) ring_list_Cons [OF _ r, of "mp_left p"] left show ?thesis
    by (simp add: mp_inv_def mp_avail_def) (simp add: p' x next_index_mod mod_simps)
qed

lemma mp_free1_step:
  assumes "mp_inv p" and "mp_free1 p x = Some p'"
  shows "mp_inv p' \<and> mp_avail p' = mp_avail p @ [x] \<and> mp_capacity p' = mp_capacity p
         \<and> Suc (mp_count p') = mp_count p"
proof -
  from assms(2) have c: "mp_count p \<noteq> 0" by (auto simp: mp_free1_def split: if_splits)
  with assms(1) have k: "length (mp_pool p) = mp_capacity p"
    and lt: "mp_capacity p - mp_count p < mp_capacity p" by (auto simp: mp_inv_def)
  from assms(2) c have p': "p' = p\<lparr>mp_pool := (mp_pool p)[mp_writeIndex p := x],
      mp_writeIndex := next_index (mp_capacity p) (mp_writeIndex p), mp_count := mp_count p - 1\<rparr>"
    by (simp add: mp_free1_def)
  have left: "mp_left p' = Suc (mp_left p)" using c assms(1) by (auto simp: p' mp_left_def mp_inv_def)
  have lt': "mp_left p < mp_capacity p" using lt by (simp add: mp_left_def)
  have "mp_count p - Suc 0 \<le> mp_capacity p" using assms(1) by (auto simp: mp_inv_def)
  with assms(1) c ring_list_snoc [OF k lt', of "mp_readIndex p" x] left show ?thesis
    by (simp add: mp_inv_def mp_avail_def) (simp add: p' next_index_mod mod_simps)
qed

interpretation pool: bounded_fifo mp_inv mp_avail mp_capacity mp_free1 mp_get
proof unfold_locales
  fix p x p'
  assume inv: "mp_inv p"
  show "length (mp_avail p) \<le> mp_capacity p" by simp
  show "(mp_free1 p x = None) = (length (mp_avail p) = mp_capacity p)"
    using inv by (auto simp: mp_free1_def mp_inv_def)
  show "mp_free1 p x = Some p' \<Longrightarrow> mp_inv p' \<and> mp_avail p' = mp_avail p @ [x] \<and> mp_capacity p' = mp_capacity p"
    using mp_free1_step [OF inv] by blast
  show "(mp_get p = None) = (mp_avail p = [])"
    unfolding length_0_conv [symmetric] length_mp_avail using inv
    by (auto simp: mp_get_def mp_inv_def)
  show "mp_get p = Some (x, p') \<Longrightarrow> mp_inv p' \<and> mp_avail p = x # mp_avail p' \<and> mp_capacity p' = mp_capacity p"
  proof -
    assume get: "mp_get p = Some (x, p')"
    have "mp_count p < mp_capacity p" "mp_take p = (x, p')"
      using get inv by (auto simp: mp_get_def mp_inv_def split: if_splits)
    from mp_take_step [OF inv this] show ?thesis by simp
  qed
qed

lemma mp_init_inv: "objs \<noteq> [] \<Longrightarrow> mp_inv (mp_init objs) \<and> mp_avail (mp_init objs) = objs"
  by (auto simp: mp_init_def mp_inv_def mp_avail_def mp_left_def ring_list_def intro: nth_equalityI)

lemma mp_take_n_gets:
  "mp_inv p \<Longrightarrow> mp_count p + n \<le> mp_capacity p \<Longrightarrow> pool.gets p n = Some (mp_take_n p n)"
proof (induction n arbitrary: p)
  case (Suc n)
  obtain x p1 where t: "mp_take p = (x, p1)" by fastforce
  from mp_take_step [OF Suc.prems(1) _ t] Suc.prems(2) have
    "mp_inv p1" "mp_count p1 + n \<le> mp_capacity p1" by simp_all
  from Suc.IH [OF this] have "pool.gets p1 n = Some (mp_take_n p1 n)" .
  moreover have "mp_get p = Some (x, p1)" using t Suc.prems(2) by (simp add: mp_get_def)
  ultimately show ?case using t by (simp split: prod.split)
qed simp

section \<open>Runs of the pool\<close>

text \<open>
  The pool together with the list of objects its users hold. A user asks for at least one object
  (the default of one without a buffer) and frees only an object that is held.
\<close>

inductive pool_step :: "MemoryPool \<times> nat list \<Rightarrow> MemoryPool \<times> nat list \<Rightarrow> bool" where
  alloc: "mp_malloc p hasBuffer n w = Returned (xs, p') \<Longrightarrow> n \<noteq> 0 \<Longrightarrow> hasBuffer \<or> n = 1 \<Longrightarrow>
     pool_step (p, out) (p', xs @ out)"
| release: "x \<in> set out \<Longrightarrow> mp_free1 p x = Some p' \<Longrightarrow> pool_step (p, out) (p', remove1 x out)"

inductive_cases pool_stepE: "pool_step (p, out) s"

definition pool_inv :: "nat list \<Rightarrow> MemoryPool \<times> nat list \<Rightarrow> bool" where
  "pool_inv objs s \<longleftrightarrow> mp_inv (fst s) \<and> mset (mp_avail (fst s)) + mset (snd s) = mset objs
                        \<and> mp_capacity (fst s) = length objs"

lemma mp_malloc_step:
  assumes "mp_inv p" and "mp_malloc p hasBuffer n w = Returned (xs, p')" and "n \<noteq> 0" and "hasBuffer \<or> n = 1"
  shows "mp_inv p' \<and> mp_avail p = xs @ mp_avail p' \<and> mp_capacity p' = mp_capacity p"
proof (cases "mp_count p + n > mp_capacity p")
  case True
  with assms show ?thesis by (auto simp: mp_malloc_def split: if_splits)
next
  case False
  have cap: "mp_take_n p n = (ys, q) \<Longrightarrow> mp_capacity q = mp_capacity p" for n p ys q
    by (induction n arbitrary: p ys) (auto simp: mp_take_def Let_def split: prod.splits)
  have "mp_take_n p n = (xs, p')"
    using False assms(2-4) by (auto simp: mp_malloc_def Let_def split: if_splits prod.splits)
  with False pool.gets_total [OF assms(1), of n] mp_take_n_gets [OF assms(1), of n] cap [of p n xs p']
  show ?thesis by (auto simp del: pool.gets.simps)
qed

lemma pool_step_inv: "pool_step s t \<Longrightarrow> pool_inv objs s \<Longrightarrow> pool_inv objs t"
proof (induction rule: pool_step.induct)
  case (alloc p hasBuffer n w xs p' out)
  from mp_malloc_step [OF _ alloc(1-3)] alloc(4) show ?case
    by (auto simp: pool_inv_def ac_simps)
next
  case (release x out p p')
  from release(1) obtain us vs where "out = us @ x # vs" "x \<notin> set us"
    by (metis split_list_first)
  with mp_free1_step [OF _ release(2)] release(3) show ?case
    by (simp add: pool_inv_def remove1_append)
qed

lemma pool_run_inv: "pool_step\<^sup>*\<^sup>* s t \<Longrightarrow> pool_inv objs s \<Longrightarrow> pool_inv objs t"
  by (induction rule: rtranclp_induct) (auto intro: pool_step_inv)

section \<open>Properties\<close>

text \<open>
  C40. No object of the pool is handed out twice: in every run of allocations and releases from
  a pool initialised with distinct objects, the held objects are distinct, none of them is
  available, nothing is lost, and whatever the next allocation returns is not held by anyone.
\<close>

theorem pool_no_double_allocation:
  assumes "distinct objs" and "objs \<noteq> []" and "pool_step\<^sup>*\<^sup>* (mp_init objs, []) (p, out)"
  shows "distinct out \<and> set out \<inter> set (mp_avail p) = {} \<and> set out \<union> set (mp_avail p) = set objs
     \<and> (\<forall>hasBuffer n w xs p'. mp_malloc p hasBuffer n w = Returned (xs, p') \<longrightarrow> n \<noteq> 0 \<longrightarrow>
          hasBuffer \<or> n = 1 \<longrightarrow> distinct xs \<and> set xs \<inter> set out = {})"
proof -
  have "pool_inv objs (mp_init objs, [])"
    using mp_init_inv [OF assms(2)] by (simp add: pool_inv_def) (simp add: mp_init_def)
  from pool_run_inv [OF assms(3) this] have inv: "mp_inv p"
    and m: "mset (mp_avail p @ out) = mset objs" by (simp_all add: pool_inv_def)
  from m have d: "distinct (mp_avail p @ out)" and s: "set (mp_avail p @ out) = set objs"
    using assms(1) mset_eq_imp_distinct_iff mset_eq_setD by blast+
  have "distinct xs \<and> set xs \<inter> set out = {}"
    if "mp_malloc p hasBuffer n w = Returned (xs, p')" "n \<noteq> 0" "hasBuffer \<or> n = 1"
    for hasBuffer n w xs p'
    using mp_malloc_step [OF inv that] d by auto
  with d s show ?thesis by auto
qed

theorem pool_no_double_allocation_witness:
  "pool_step\<^sup>*\<^sup>* (mp_init [10, 20], []) (snd (mp_take (mp_init [10, 20])), [10])
   \<and> distinct [10 :: nat]
   \<and> set [10] \<inter> set (mp_avail (snd (mp_take (mp_init [10, 20])))) = {}"
proof -
  let ?p = "mp_init [10, 20]"
  have "mp_malloc ?p True 1 False = Returned ([10], snd (mp_take ?p))"
    by (simp add: mp_malloc_def mp_init_def mp_take_def)
  then have run: "pool_step\<^sup>*\<^sup>* (?p, []) (snd (mp_take ?p), [10])"
    using pool_step.alloc [of ?p True 1 False "[10]" "snd (mp_take ?p)" "[]"]
    by (intro r_into_rtranclp) simp
  have "distinct [10, 20 :: nat]" "[10, 20 :: nat] \<noteq> []" by simp_all
  from pool_no_double_allocation [OF this run] run show ?thesis by auto
qed

text \<open>
  A packet released by its last holder goes back where it came from: a pooled packet is
  again available in the pool, an extra packet is deleted and uncounted; a packet with holders
  left stays in the store with its reference count decreased by one.
\<close>

theorem packet_release:
  assumes "pp_store pp a = Some pk" and "mp_inv (pp_pool pp)" and "mp_count (pp_pool pp) \<noteq> 0"
    and "pk_referenceCount pk \<noteq> 0"
  shows "\<exists>pp'. pp_free pp a = Some pp' \<and>
     (if pk_referenceCount pk = 1
      then if pk_inPool pk
           then mp_avail (pp_pool pp') = mp_avail (pp_pool pp) @ [a] \<and> pp_extraCount pp' = pp_extraCount pp
           else pp_store pp' a = None \<and> pp_extraCount pp' = pp_extraCount pp - 1 \<and> pp_pool pp' = pp_pool pp
      else map_option pk_referenceCount (pp_store pp' a) = Some (pk_referenceCount pk - 1)
           \<and> pp_pool pp' = pp_pool pp)"
proof -
  obtain p' where f: "mp_free1 (pp_pool pp) a = Some p'"
    using assms(3) by (simp add: mp_free1_def)
  from mp_free1_step [OF assms(2) f] f assms(1) show ?thesis
    by (auto simp: pp_free_def pk_decrement_def Let_def)
qed

theorem packet_release_witness:
  "\<exists>pp pp'. mp_count (pp_pool pp) = 1 \<and> pp_free pp 7 = Some pp'
      \<and> mp_avail (pp_pool pp') = mp_avail (pp_pool pp) @ [7]"
proof -
  let ?mp = "snd (mp_take (mp_init [7, 8]))"
  let ?pk = "pk_setReferenceCount (pk_init (pk_new True) 4) 1"
  let ?pp = "(pp_init [7, 8] 4)\<lparr>pp_pool := ?mp, pp_store := [7 \<mapsto> ?pk]\<rparr>"
  have inv: "mp_inv ?mp"
    by (simp add: mp_inv_def mp_left_def mp_init_def mp_take_def next_index_def)
  have st: "pp_store ?pp 7 = Some ?pk" by simp
  have inv': "mp_inv (pp_pool ?pp)" using inv by simp
  have c: "mp_count (pp_pool ?pp) \<noteq> 0" by (simp add: mp_take_def mp_init_def)
  have rc: "pk_referenceCount ?pk \<noteq> 0" "pk_referenceCount ?pk = 1" "pk_inPool ?pk"
    by (simp_all add: pk_setReferenceCount_def pk_init_def pk_new_def)
  obtain pp' where "pp_free ?pp 7 = Some pp'"
    "mp_avail (pp_pool pp') = mp_avail (pp_pool ?pp) @ [7]"
    using packet_release [OF st inv' c rc(1)] rc(2,3) by auto
  moreover have "mp_count (pp_pool ?pp) = 1" by (simp add: mp_take_def mp_init_def)
  ultimately show ?thesis by blast
qed

end
