(* ===== verification/BitmaskArray.thy ===== *)
theory BitmaskArray
  imports Prelude
begin

text \<open>
  The bit matrix of \<^verbatim>\<open>common/ds/bitmask_array.cc\<close>: \<open>count\<close> entries of \<open>size\<close> bits
  packed into 64-bit words. The stripe lists record their server selection in it and the coding
  schemes receive the set of surviving chunks in it. \<^verbatim>\<open>size_t\<close> products are exact: an
  entry whose bits exist in memory cannot make them wrap. An access outside the allocated words
  is \<^term>\<open>None\<close>.
\<close>

record BitmaskArray =
  bm_size :: nat
  bm_count :: nat
  bm_total :: nat
  bm_words :: "u64 list"

definition bm_new :: "nat \<Rightarrow> nat \<Rightarrow> BitmaskArray" where
  "bm_new sz n =
     (let total = (if (sz * n) mod 64 \<noteq> 0 then sz * n div 64 + 1 else sz * n div 64)
      in \<lparr>bm_size = sz, bm_count = n, bm_total = total, bm_words = replicate total 0\<rparr>)"

definition bm_index :: "BitmaskArray \<Rightarrow> nat \<Rightarrow> nat \<Rightarrow> nat" where
  "bm_index t e b = e * bm_size t + b"

definition bm_update :: "BitmaskArray \<Rightarrow> nat \<Rightarrow> (u64 \<Rightarrow> u64) \<Rightarrow> BitmaskArray option" where
  "bm_update t w f =
     (if w < length (bm_words t) then Some (t\<lparr>bm_words := (bm_words t)[w := f (bm_words t ! w)]\<rparr>) else None)"

definition bm_set :: "BitmaskArray \<Rightarrow> nat \<Rightarrow> nat \<Rightarrow> BitmaskArray option" where
  "bm_set t e b = (let i = bm_index t e b in bm_update t (i div 64) (\<lambda>v. v OR push_bit (i mod 64) 1))"

definition bm_unset :: "BitmaskArray \<Rightarrow> nat \<Rightarrow> nat \<Rightarrow> BitmaskArray option" where
  "bm_unset t e b = (let i = bm_index t e b in bm_update t (i div 64) (\<lambda>v. v AND NOT (push_bit (i mod 64) 1)))"

definition bm_check :: "BitmaskArray \<Rightarrow> nat \<Rightarrow> nat \<Rightarrow> bool option" where
  "bm_check t e b =
     (let i = bm_index t e b in
      if i div 64 < length (bm_words t)
      then Some (bm_words t ! (i div 64) AND push_bit (i mod 64) 1 \<noteq> 0) else None)"

text \<open>The loop of \<^verbatim>\<open>checkAllSet\<close>, which returns at the first bit that is not set.\<close>

function bm_checkAllSet_loop :: "BitmaskArray \<Rightarrow> nat \<Rightarrow> nat \<Rightarrow> bool option" where
  "bm_checkAllSet_loop t e i =
     (if i < bm_size t
      then case bm_check t e i of None \<Rightarrow> None
           | Some v \<Rightarrow> if v then bm_checkAllSet_loop t e (Suc i) else Some False
      else Some True)"
  by pat_completeness auto
termination
  by (relation "measure (\<lambda>(t, e, i). bm_size t - i)") auto

declare bm_checkAllSet_loop.simps [simp del]

definition bm_checkAllSet :: "BitmaskArray \<Rightarrow> nat \<Rightarrow> bool option" where
  "bm_checkAllSet t e = bm_checkAllSet_loop t e 0"

text \<open>
  The loop of \<^verbatim>\<open>clear\<close>: a whole word is zeroed when the current bit is word aligned and
  at least 64 bits of the entry are left, otherwise one bit.
\<close>

function bm_clear_loop :: "BitmaskArray \<Rightarrow> nat \<Rightarrow> nat \<Rightarrow> BitmaskArray option" where
  "bm_clear_loop t e b =
     (if b < bm_size t
      then let i = bm_index t e b in
           if i mod 64 = 0 \<and> b + 64 \<le> bm_size t
           then case bm_update t (i div 64) (\<lambda>_. 0) of None \<Rightarrow> None
                | Some t' \<Rightarrow> bm_clear_loop t' e (b + 64)
           else case bm_update t (i div 64) (\<lambda>v. v AND NOT (push_bit (i mod 64) 1)) of None \<Rightarrow> None
                | Some t' \<Rightarrow> bm_clear_loop t' e (b + 1)
      else Some t)"
  by pat_completeness auto
termination
  by (relation "measure (\<lambda>(t, e, b). bm_size t - b)") (auto simp: bm_update_def split: if_splits)

declare bm_clear_loop.simps [simp del]

definition bm_clear :: "BitmaskArray \<Rightarrow> nat \<Rightarrow> BitmaskArray option" where
  "bm_clear t e = bm_clear_loop t e 0"

text \<open>The overloads that take a bit only address entry 0.\<close>

definition bm_set1 :: "BitmaskArray \<Rightarrow> nat \<Rightarrow> BitmaskArray option" where
  "bm_set1 t b = bm_set t 0 b"

definition bm_unset1 :: "BitmaskArray \<Rightarrow> nat \<Rightarrow> BitmaskArray option" where
  "bm_unset1 t b = bm_unset t 0 b"

definition bm_check1 :: "BitmaskArray \<Rightarrow> nat \<Rightarrow> bool option" where
  "bm_check1 t b = bm_check t 0 b"

section \<open>The contract of a bit table\<close>

locale bit_table =
  fixes inv :: "'t \<Rightarrow> bool"
    and rows :: "'t \<Rightarrow> nat"
    and cols :: "'t \<Rightarrow> nat"
    and sets :: "'t \<Rightarrow> nat \<Rightarrow> nat \<Rightarrow> 't option"
    and test :: "'t \<Rightarrow> nat \<Rightarrow> nat \<Rightarrow> bool option"
  assumes set_total: "inv t \<Longrightarrow> e < rows t \<Longrightarrow> b < cols t \<Longrightarrow> \<exists>t'. sets t e b = Some t'"
    and set_keeps: "inv t \<Longrightarrow> sets t e b = Some t' \<Longrightarrow> inv t' \<and> rows t' = rows t \<and> cols t' = cols t"
    and test_total: "inv t \<Longrightarrow> e < rows t \<Longrightarrow> b < cols t \<Longrightarrow> \<exists>v. test t e b = Some v"
    and test_set: "inv t \<Longrightarrow> sets t e b = Some t' \<Longrightarrow> e < rows t \<Longrightarrow> b < cols t \<Longrightarrow>
       e' < rows t \<Longrightarrow> b' < cols t \<Longrightarrow>
       test t' e' b' = (if e' = e \<and> b' = b then Some True else test t e' b')"
begin

lemma row_after_set:
  assumes "inv t" and "sets t e b = Some t'" and "e < rows t" and "b < cols t" and "e' < rows t"
  shows "{j. j < cols t' \<and> test t' e' j = Some True}
    = (if e' = e then insert b {j. j < cols t \<and> test t e' j = Some True}
       else {j. j < cols t \<and> test t e' j = Some True})"
  using test_set [OF assms(1-5)] set_keeps [OF assms(1,2)] assms(4) by auto

end

section \<open>Lemmas\<close>

definition bm_inv :: "BitmaskArray \<Rightarrow> bool" where
  "bm_inv t \<longleftrightarrow> bm_size t * bm_count t \<le> 64 * length (bm_words t)"

definition bm_bit :: "BitmaskArray \<Rightarrow> nat \<Rightarrow> bool" where
  "bm_bit t i = bit (bm_words t ! (i div 64)) (i mod 64)"

lemma bm_new_inv: "bm_inv (bm_new sz n)"
proof -
  have "x \<le> 64 * (x div 64 + 1)" "x mod 64 = 0 \<Longrightarrow> x \<le> 64 * (x div 64)" for x :: nat
    by presburger+
  from this [of "sz * n"] show ?thesis by (auto simp: bm_inv_def bm_new_def Let_def)
qed

lemma bm_new_bit: "i < 64 * length (bm_words (bm_new sz n)) \<Longrightarrow> \<not> bm_bit (bm_new sz n) i"
  by (auto simp: bm_bit_def bm_new_def Let_def nth_replicate)

lemma bm_index_less:
  assumes "e < bm_count t" and "b < bm_size t"
  shows "bm_index t e b < bm_size t * bm_count t"
proof -
  have "bm_index t e b < Suc e * bm_size t" using assms(2) by (simp add: bm_index_def)
  also have "\<dots> \<le> bm_count t * bm_size t" using assms(1) by (intro mult_le_mono1) simp
  finally show ?thesis by (simp add: mult.commute)
qed

lemma bm_index_inj:
  assumes "b < bm_size t" and "b' < bm_size t" and "bm_index t e b = bm_index t e' b'"
  shows "e = e' \<and> b = b'"
proof -
  have "bm_index t e b div bm_size t = e" "bm_index t e' b' div bm_size t = e'"
    using assms(1,2) by (simp_all add: bm_index_def)
  with assms(3) show ?thesis by (simp add: bm_index_def)
qed

lemma bm_in_words:
  "bm_inv t \<Longrightarrow> e < bm_count t \<Longrightarrow> b < bm_size t \<Longrightarrow> bm_index t e b div 64 < length (bm_words t)"
  using bm_index_less [of e t b] by (simp add: bm_inv_def)

lemma and_push_bit_1: "(v AND push_bit n 1 \<noteq> (0 :: u64)) = (bit v n \<and> n < 64)"
proof -
  have "v AND push_bit n 1 = (if bit v n then push_bit n 1 else 0)"
    by (rule bit_word_eqI) (auto simp: bit_simps)
  then show ?thesis using bit_imp_le_length [of v n] by (auto simp: push_bit_eq_0_iff)
qed

lemma bm_check_bit:
  "bm_inv t \<Longrightarrow> e < bm_count t \<Longrightarrow> b < bm_size t \<Longrightarrow> bm_check t e b = Some (bm_bit t (bm_index t e b))"
  by (simp add: bm_check_def Let_def bm_in_words and_push_bit_1 bm_bit_def del: push_bit_of_1)

lemma bm_update_bit:
  assumes "bm_update t w f = Some t'"
  shows "bm_bit t' j = (if j div 64 = w then bit (f (bm_words t ! w)) (j mod 64) else bm_bit t j)"
  using assms by (auto simp: bm_update_def bm_bit_def split: if_splits)

lemma bm_update_keeps:
  "bm_update t w f = Some t' \<Longrightarrow> bm_size t' = bm_size t \<and> bm_count t' = bm_count t
     \<and> length (bm_words t') = length (bm_words t)"
  by (auto simp: bm_update_def split: if_splits)

lemma same_index: "(i div 64 = j div 64 \<and> i mod 64 = j mod 64) = (i = (j :: nat))"
  by (metis div_mult_mod_eq)

lemma bm_set_bit:
  assumes "bm_set t e b = Some t'"
  shows "bm_bit t' j = (j = bm_index t e b \<or> bm_bit t j)"
  using bm_update_bit [OF assms [unfolded bm_set_def Let_def], of j] same_index [of j "bm_index t e b"]
  by (auto simp: bit_simps bm_bit_def)

lemma bm_clear1_bit:
  assumes "bm_update t (i div 64) (\<lambda>v. v AND NOT (push_bit (i mod 64) 1)) = Some t'"
  shows "bm_bit t' j = (j \<noteq> i \<and> bm_bit t j)"
  using bm_update_bit [OF assms, of j] same_index [of j i]
  by (auto simp: bit_simps bm_bit_def)

lemma bm_unset_bit:
  "bm_unset t e b = Some t' \<Longrightarrow> bm_bit t' j = (j \<noteq> bm_index t e b \<and> bm_bit t j)"
  unfolding bm_unset_def Let_def by (rule bm_clear1_bit)

interpretation mask: bit_table bm_inv bm_count bm_size bm_set bm_check
proof unfold_locales
  fix t e b t' e' b'
  assume inv: "bm_inv t"
  show "\<exists>t'. bm_set t e b = Some t'" if "e < bm_count t" "b < bm_size t"
    using bm_in_words [OF inv that] by (simp add: bm_set_def bm_update_def Let_def)
  show keeps: "bm_inv t' \<and> bm_count t' = bm_count t \<and> bm_size t' = bm_size t" if "bm_set t e b = Some t'"
    using bm_update_keeps [OF that [unfolded bm_set_def Let_def]] inv by (simp add: bm_inv_def)
  show "\<exists>v. bm_check t e b = Some v" if "e < bm_count t" "b < bm_size t"
    using bm_check_bit [OF inv that] by simp
  show "bm_check t' e' b' = (if e' = e \<and> b' = b then Some True else bm_check t e' b')"
    if s: "bm_set t e b = Some t'" and r: "e < bm_count t" "b < bm_size t" "e' < bm_count t" "b' < bm_size t"
  proof -
    have i: "bm_index t' = bm_index t" using keeps [OF s] by (intro ext) (simp add: bm_index_def)
    have "bm_check t' e' b' = Some (bm_bit t' (bm_index t e' b'))"
      using keeps [OF s] r bm_check_bit [of t' e' b'] by (simp add: i)
    then show ?thesis
      using bm_set_bit [OF s] bm_check_bit [OF inv r(3,4)] bm_index_inj [OF r(4) r(2), of e' e] by auto
  qed
qed

lemma bm_checkAllSet_loop_iff:
  assumes "bm_inv t" and "e < bm_count t"
  shows "bm_checkAllSet_loop t e i = Some (\<forall>j. i \<le> j \<longrightarrow> j < bm_size t \<longrightarrow> bm_bit t (bm_index t e j))"
proof (induction "bm_size t - i" arbitrary: i)
  case 0
  then show ?case by (subst bm_checkAllSet_loop.simps) auto
next
  case (Suc k)
  then have lt: "i < bm_size t" and IH:
    "bm_checkAllSet_loop t e (Suc i) = Some (\<forall>j. Suc i \<le> j \<longrightarrow> j < bm_size t \<longrightarrow> bm_bit t (bm_index t e j))"
    by auto
  have "(\<forall>j. i \<le> j \<longrightarrow> j < bm_size t \<longrightarrow> bm_bit t (bm_index t e j)) =
     (bm_bit t (bm_index t e i) \<and> (\<forall>j. Suc i \<le> j \<longrightarrow> j < bm_size t \<longrightarrow> bm_bit t (bm_index t e j)))"
    using lt not_less_eq_eq by (metis le_antisym le_refl Suc_leD)
  with lt IH bm_check_bit [OF assms lt] show ?case
    by (subst bm_checkAllSet_loop.simps) simp
qed

lemma bm_zero_word_bit:
  assumes "bm_update t (i div 64) (\<lambda>_. 0) = Some t'" and "i mod 64 = 0"
  shows "bm_bit t' j = (\<not> (i \<le> j \<and> j < i + 64) \<and> bm_bit t j)"
proof -
  obtain q where q: "i = 64 * q" using assms(2) by (metis mod_0_imp_dvd dvdE)
  have "(j div 64 = i div 64) = (i \<le> j \<and> j < i + 64)"
    unfolding q using div_less_iff_less_mult [of 64 j "q + 1"] less_eq_div_iff_mult_less_eq [of 64 q j]
    by (simp add: mult.commute le_antisym[symmetric]) linarith
  with bm_update_bit [OF assms(1), of j] show ?thesis by auto
qed

lemma bm_clear_loop_bits:
  assumes "bm_inv t" and "e < bm_count t"
  shows "\<exists>t'. bm_clear_loop t e b = Some t' \<and> bm_inv t' \<and> bm_size t' = bm_size t
    \<and> bm_count t' = bm_count t
    \<and> (\<forall>j. bm_bit t' j = (\<not> (bm_index t e b \<le> j \<and> j < Suc e * bm_size t) \<and> bm_bit t j))"
  using assms
proof (induction "bm_size t - b" arbitrary: t b rule: less_induct)
  case less
  show ?case
  proof (cases "b < bm_size t")
    case False
    then have "Suc e * bm_size t \<le> bm_index t e b" by (simp add: bm_index_def)
    with False less.prems show ?thesis by (subst bm_clear_loop.simps) auto
  next
    case True
    let ?i = "bm_index t e b"
    have w: "?i div 64 < length (bm_words t)" by (rule bm_in_words [OF less.prems True])
    have fin: "?i < Suc e * bm_size t" using True by (simp add: bm_index_def)
    show ?thesis
    proof (cases "?i mod 64 = 0 \<and> b + 64 \<le> bm_size t")
      case word: True
      obtain t1 where t1: "bm_update t (?i div 64) (\<lambda>_. 0) = Some t1"
        using w by (simp add: bm_update_def)
      note k = bm_update_keeps [OF t1]
      have inv1: "bm_inv t1" "e < bm_count t1" using less.prems k by (auto simp: bm_inv_def)
      have "bm_size t1 - (b + 64) < bm_size t - b" using True k by simp
      from less.hyps [OF this inv1] obtain t' where t': "bm_clear_loop t1 e (b + 64) = Some t'"
        "bm_inv t'" "bm_size t' = bm_size t1" "bm_count t' = bm_count t1"
        "\<forall>j. bm_bit t' j = (\<not> (bm_index t1 e (b + 64) \<le> j \<and> j < Suc e * bm_size t1) \<and> bm_bit t1 j)"
        by blast
      have i1: "bm_index t1 e (b + 64) = ?i + 64" using k by (simp add: bm_index_def)
      have le: "?i + 64 \<le> Suc e * bm_size t" using word by (simp add: bm_index_def)
      have "bm_clear_loop t e b = Some t'"
        using True word t1 t'(1) by (subst bm_clear_loop.simps) (simp add: Let_def)
      moreover have "\<forall>j. bm_bit t' j = (\<not> (?i \<le> j \<and> j < Suc e * bm_size t) \<and> bm_bit t j)"
      proof
        fix j
        have "bm_bit t' j = (\<not> (?i + 64 \<le> j \<and> j < Suc e * bm_size t) \<and> bm_bit t1 j)"
          using t'(5) i1 k by (simp only:)
        moreover have "bm_bit t1 j = (\<not> (?i \<le> j \<and> j < ?i + 64) \<and> bm_bit t j)"
          by (rule bm_zero_word_bit [OF t1 conjunct1 [OF word]])
        ultimately show "bm_bit t' j = (\<not> (?i \<le> j \<and> j < Suc e * bm_size t) \<and> bm_bit t j)"
          using le by linarith
      qed
      ultimately show ?thesis using t' k by auto
    next
      case one: False
      obtain t1 where t1: "bm_update t (?i div 64) (\<lambda>v. v AND NOT (push_bit (?i mod 64) 1)) = Some t1"
        using w by (simp add: bm_update_def)
      note k = bm_update_keeps [OF t1]
      have inv1: "bm_inv t1" "e < bm_count t1" using less.prems k by (auto simp: bm_inv_def)
      have "bm_size t1 - (b + 1) < bm_size t - b" using True k by simp
      from less.hyps [OF this inv1] obtain t' where t': "bm_clear_loop t1 e (b + 1) = Some t'"
        "bm_inv t'" "bm_size t' = bm_size t1" "bm_count t' = bm_count t1"
        "\<forall>j. bm_bit t' j = (\<not> (bm_index t1 e (b + 1) \<le> j \<and> j < Suc e * bm_size t1) \<and> bm_bit t1 j)"
        by blast
      have i1: "bm_index t1 e (b + 1) = Suc ?i" using k by (simp add: bm_index_def)
      have "bm_clear_loop t e b = Some t'"
        using True one t1 t'(1) by (subst bm_clear_loop.simps) (auto simp: Let_def)
      moreover have "\<forall>j. bm_bit t' j = (\<not> (?i \<le> j \<and> j < Suc e * bm_size t) \<and> bm_bit t j)"
      proof
        fix j
        have "bm_bit t' j = (\<not> (Suc ?i \<le> j \<and> j < Suc e * bm_size t) \<and> bm_bit t1 j)"
          using t'(5) i1 k by (simp only:)
        moreover have "bm_bit t1 j = (j \<noteq> ?i \<and> bm_bit t j)" by (rule bm_clear1_bit [OF t1])
        ultimately show "bm_bit t' j = (\<not> (?i \<le> j \<and> j < Suc e * bm_size t) \<and> bm_bit t j)"
          using fin by linarith
      qed
      ultimately show ?thesis using t' k by auto
    qed
  qed
qed

section \<open>Properties\<close>

text \<open>
  \<^verbatim>\<open>BitmaskArray::clear\<close>, with its word-at-a-time shortcut, clears every bit of the entry
  and no bit of any other entry, for every alignment of the entry; \<^verbatim>\<open>checkAllSet\<close> answers
  whether all bits of the entry are set.
\<close>

theorem bitmask_clear_exact:
  assumes "bm_inv t" and "e < bm_count t"
  shows "\<exists>t'. bm_clear t e = Some t' \<and>
     (\<forall>e' < bm_count t. \<forall>b < bm_size t.
        bm_check t' e' b = (if e' = e then Some False else bm_check t e' b))
     \<and> bm_checkAllSet t e = Some (\<forall>b < bm_size t. bm_check t e b = Some True)"
proof -
  from bm_clear_loop_bits [OF assms, of 0] obtain t' where t': "bm_clear t e = Some t'" "bm_inv t'"
    "bm_size t' = bm_size t" "bm_count t' = bm_count t"
    and b: "\<And>j. bm_bit t' j = (\<not> (e * bm_size t \<le> j \<and> j < Suc e * bm_size t) \<and> bm_bit t j)"
    by (auto simp: bm_clear_def bm_index_def)
  have i: "bm_index t' = bm_index t" using t' by (intro ext) (simp add: bm_index_def)
  have "bm_check t' e' b = (if e' = e then Some False else bm_check t e' b)"
    if r: "e' < bm_count t" "b < bm_size t" for e' b
  proof -
    have q: "bm_index t e' b div bm_size t = e'" using r(2) by (simp add: bm_index_def)
    have "bm_index t e' b div bm_size t = e"
      if "e * bm_size t \<le> bm_index t e' b" "bm_index t e' b < Suc e * bm_size t"
      using that by (intro div_nat_eqI) (simp_all add: mult.commute)
    moreover have "e * bm_size t \<le> bm_index t e b" "bm_index t e b < Suc e * bm_size t"
      using r(2) by (simp_all add: bm_index_def)
    ultimately have "(e * bm_size t \<le> bm_index t e' b \<and> bm_index t e' b < Suc e * bm_size t) = (e' = e)"
      unfolding q by (cases "e' = e") auto
    with b [of "bm_index t e' b"] have "bm_bit t' (bm_index t e' b) = (e' \<noteq> e \<and> bm_bit t (bm_index t e' b))"
      by (simp only:)
    moreover have "bm_check t' e' b = Some (bm_bit t' (bm_index t e' b))"
      using bm_check_bit [of t' e' b] t' r i by simp
    ultimately show ?thesis using bm_check_bit [OF assms(1) r] by simp
  qed
  moreover have "bm_checkAllSet t e = Some (\<forall>b < bm_size t. bm_check t e b = Some True)"
    using bm_checkAllSet_loop_iff [OF assms, of 0] bm_check_bit [OF assms]
    by (auto simp: bm_checkAllSet_def)
  ultimately show ?thesis using t'(1) by blast
qed

theorem bitmask_clear_exact_witness:
  "\<exists>t'. bm_clear (bm_new 70 3) 1 = Some t' \<and> bm_check t' 1 69 = Some False"
proof -
  have "bm_inv (bm_new 70 3)" "1 < bm_count (bm_new 70 3)"
    by (rule bm_new_inv) (simp add: bm_new_def Let_def)
  from bitmask_clear_exact [OF this] show ?thesis by (auto simp: bm_new_def Let_def)
qed

end
