(* ===== verification/ArrayMap.thy ===== *)
theory ArrayMap
  imports Prelude
begin

text \<open>
  The socket and pending tables of every node are \<^verbatim>\<open>ArrayMap\<close>s
  (\<^verbatim>\<open>common/ds/array_map.hh\<close>): two parallel vectors searched linearly. A value is a
  pointer; \<^verbatim>\<open>delete\<close> of a value is reported as a list of deleted pointers. The operations
  hold the map's lock from their first to their last access, so each is one step. An index outside
  the vectors is \<^term>\<open>None\<close>.
\<close>

record ('k, 'v) ArrayMap =
  am_keys :: "'k list"
  am_values :: "'v list"
  am_needsDelete :: bool

definition am_new :: "('k, 'v) ArrayMap" where
  "am_new = \<lparr>am_keys = [], am_values = [], am_needsDelete = True\<rparr>"

text \<open>\<^verbatim>\<open>indexOf\<close> runs over the whole vector: the last of several equal keys wins.\<close>

fun indexOf_loop :: "'k list \<Rightarrow> 'k \<Rightarrow> nat \<Rightarrow> nat option \<Rightarrow> nat option" where
  "indexOf_loop [] key i ret = ret"
| "indexOf_loop (k # ks) key i ret = indexOf_loop ks key (Suc i) (if k = key then Some i else ret)"

definition indexOf :: "('k, 'v) ArrayMap \<Rightarrow> 'k \<Rightarrow> nat option" where
  "indexOf am key = indexOf_loop (am_keys am) key 0 None"

text \<open>The result is the value pointer (null: \<^term>\<open>None\<close>) and the index stored through \<^verbatim>\<open>indexPtr\<close>.\<close>

definition am_get :: "('k, 'v) ArrayMap \<Rightarrow> 'k \<Rightarrow> 'v option \<times> nat option" where
  "am_get am key =
     (case indexOf am key of None \<Rightarrow> (None, None) | Some i \<Rightarrow> (Some (am_values am ! i), Some i))"

definition am_at :: "('k, 'v) ArrayMap \<Rightarrow> nat \<Rightarrow> 'v option" where
  "am_at am i = (if i < length (am_values am) then Some (am_values am ! i) else None)"

definition am_replaceKey :: "('k, 'v) ArrayMap \<Rightarrow> 'k \<Rightarrow> 'k \<Rightarrow> bool \<times> ('k, 'v) ArrayMap" where
  "am_replaceKey am oldKey newKey =
     (case indexOf am oldKey of
        None \<Rightarrow> (False, am)
      | Some i \<Rightarrow> (True, am\<lparr>am_keys := (am_keys am)[i := newKey]\<rparr>))"

definition am_size :: "('k, 'v) ArrayMap \<Rightarrow> nat" where
  "am_size am = length (am_values am)"

definition am_set :: "('k, 'v) ArrayMap \<Rightarrow> 'k \<Rightarrow> 'v \<Rightarrow> bool \<Rightarrow> bool \<times> ('k, 'v) ArrayMap" where
  "am_set am key val check =
     (if check \<and> indexOf am key \<noteq> None then (False, am)
      else (True, am\<lparr>am_keys := am_keys am @ [key], am_values := am_values am @ [val]\<rparr>))"

definition am_set_at ::
  "('k, 'v) ArrayMap \<Rightarrow> nat \<Rightarrow> 'k \<Rightarrow> 'v \<Rightarrow> ('v \<times> ('k, 'v) ArrayMap) option" where
  "am_set_at am i key val =
     (if i < length (am_keys am) \<and> i < length (am_values am)
      then Some (am_values am ! i,
                 am\<lparr>am_keys := (am_keys am)[i := key], am_values := (am_values am)[i := val]\<rparr>)
      else None)"

definition erase :: "nat \<Rightarrow> 'a list \<Rightarrow> 'a list" where
  "erase i xs = take i xs @ drop (Suc i) xs"

definition am_removeAt :: "('k, 'v) ArrayMap \<Rightarrow> nat \<Rightarrow> (bool \<times> 'v list \<times> ('k, 'v) ArrayMap) option" where
  "am_removeAt am i =
     (if i < length (am_keys am) \<and> i < length (am_values am)
      then Some (True, (if am_needsDelete am then [am_values am ! i] else []),
                 am\<lparr>am_keys := erase i (am_keys am), am_values := erase i (am_values am)\<rparr>)
      else None)"

definition am_remove :: "('k, 'v) ArrayMap \<Rightarrow> 'k \<Rightarrow> bool \<times> 'v list \<times> ('k, 'v) ArrayMap" where
  "am_remove am key =
     (case indexOf am key of
        None \<Rightarrow> (False, [], am)
      | Some i \<Rightarrow> (True, (if am_needsDelete am then [am_values am ! i] else []),
                   am\<lparr>am_keys := erase i (am_keys am), am_values := erase i (am_values am)\<rparr>))"

definition am_clear :: "('k, 'v) ArrayMap \<Rightarrow> 'v list \<times> ('k, 'v) ArrayMap" where
  "am_clear am =
     ((if am_needsDelete am then take (length (am_keys am)) (am_values am) else []),
      am\<lparr>am_keys := [], am_values := []\<rparr>)"

section \<open>The contract of a table with unique keys\<close>

locale key_table =
  fixes inv :: "'t \<Rightarrow> bool"
    and find :: "'t \<Rightarrow> 'k \<Rightarrow> 'v option"
    and add :: "'t \<Rightarrow> 'k \<Rightarrow> 'v \<Rightarrow> bool \<times> 't"
    and del :: "'t \<Rightarrow> 'k \<Rightarrow> bool \<times> 't"
  assumes add_inv: "inv t \<Longrightarrow> inv (snd (add t k v))"
    and del_inv: "inv t \<Longrightarrow> inv (snd (del t k))"
    and add_result: "inv t \<Longrightarrow> fst (add t k v) = (find t k = None)"
    and add_find: "inv t \<Longrightarrow> find (snd (add t k v)) = (if find t k = None then (find t)(k \<mapsto> v) else find t)"
    and del_result: "inv t \<Longrightarrow> fst (del t k) = (find t k \<noteq> None)"
    and del_find: "inv t \<Longrightarrow> find (snd (del t k)) = (find t)(k := None)"
begin

lemma add_then_find: "inv t \<Longrightarrow> fst (add t k v) \<Longrightarrow> find (snd (add t k v)) k = Some v"
  by (simp add: add_result add_find)

lemma add_refused: "inv t \<Longrightarrow> \<not> fst (add t k v) \<Longrightarrow> find (snd (add t k v)) = find t"
  by (auto simp: add_result add_find)

lemma del_then_find: "inv t \<Longrightarrow> find (snd (del t k)) k' = (if k' = k then None else find t k')"
  by (simp add: del_find)

lemma del_undoes_add:
  "inv t \<Longrightarrow> fst (add t k v) \<Longrightarrow> find (snd (del (snd (add t k v)) k)) = find t"
  by (auto simp: add_result add_find del_find add_inv)

end

section \<open>Lemmas\<close>

lemma indexOf_loop_snoc:
  "indexOf_loop (ks @ [k]) key i r = (if k = key then Some (i + length ks) else indexOf_loop ks key i r)"
  by (induction ks key i r rule: indexOf_loop.induct) auto

lemma indexOf_loop_None: "indexOf_loop ks key i None = None \<longleftrightarrow> key \<notin> set ks"
  by (induction ks rule: rev_induct) (auto simp: indexOf_loop_snoc)

lemma indexOf_loop_Some:
  "indexOf_loop ks key 0 None = Some j \<Longrightarrow>
     j < length ks \<and> ks ! j = key \<and> (\<forall>l. j < l \<longrightarrow> l < length ks \<longrightarrow> ks ! l \<noteq> key)"
proof (induction ks rule: rev_induct)
  case (snoc k ks)
  then show ?case
    by (auto simp: indexOf_loop_snoc nth_append less_Suc_eq split: if_splits)
qed simp

lemma indexOf_None: "indexOf am key = None \<longleftrightarrow> key \<notin> set (am_keys am)"
  by (simp add: indexOf_def indexOf_loop_None)

lemma indexOf_Some:
  "indexOf am key = Some j \<Longrightarrow>
     j < length (am_keys am) \<and> am_keys am ! j = key
     \<and> (\<forall>l. j < l \<longrightarrow> l < length (am_keys am) \<longrightarrow> am_keys am ! l \<noteq> key)"
  unfolding indexOf_def by (rule indexOf_loop_Some)

definition am_inv :: "('k, 'v) ArrayMap \<Rightarrow> bool" where
  "am_inv am \<longleftrightarrow> distinct (am_keys am) \<and> length (am_keys am) = length (am_values am)"

definition am_map :: "('k, 'v) ArrayMap \<Rightarrow> 'k \<rightharpoonup> 'v" where
  "am_map am = map_of (zip (am_keys am) (am_values am))"

lemma key_absent: "key \<notin> set (am_keys am) \<Longrightarrow> am_map am key = None"
  by (auto simp: am_map_def map_of_eq_None_iff dest: set_zip_leftD)

lemma am_get_map: "am_inv am \<Longrightarrow> fst (am_get am key) = am_map am key"
proof (cases "indexOf am key")
  case None
  assume "am_inv am"
  moreover have "am_map am key = None" using None by (simp add: indexOf_None key_absent)
  ultimately show ?thesis using None by (simp add: am_get_def)
next
  case (Some i)
  assume inv: "am_inv am"
  with indexOf_Some [OF Some] show ?thesis
    using map_of_zip_nth [of "am_keys am" "am_values am" i]
    by (simp add: am_get_def Some am_map_def am_inv_def)
qed

lemma erase_zip: "length ks = length vs \<Longrightarrow> zip (erase i ks) (erase i vs) = erase i (zip ks vs)"
  by (simp add: erase_def zip_append take_zip drop_zip)

lemma distinct_erase: "distinct ks \<Longrightarrow> distinct (erase i ks)"
  by (simp add: erase_def set_take_disj_set_drop_if_distinct)

lemma length_erase: "i < length ks \<Longrightarrow> length (erase i ks) = length ks - 1"
  by (simp add: erase_def)

lemma map_of_erase:
  assumes "distinct (map fst kvs)" and "i < length kvs" and "fst (kvs ! i) = k"
  shows "map_of (erase i kvs) = (map_of kvs)(k := None)"
proof -
  define as bs where ab: "as = take i kvs" "bs = drop (Suc i) kvs"
  have kvs: "kvs = as @ (k, snd (kvs ! i)) # bs"
    using assms(2,3) by (metis ab id_take_nth_drop prod.collapse)
  have "k \<notin> fst ` set as" "k \<notin> fst ` set bs"
    using assms(1) by (subst (asm) kvs, force)+
  then have "map_of as k = None" "map_of bs k = None" by (auto simp: map_of_eq_None_iff)
  moreover have "map_of (as @ bs) = (map_of kvs)(k := None)"
    using calculation by (subst kvs) (auto simp: fun_eq_iff map_add_def split: option.splits)
  ultimately show ?thesis by (simp add: erase_def ab)
qed

lemma singleton_add: "m k = None \<Longrightarrow> [k \<mapsto> v] ++ m = m(k \<mapsto> v)"
  by (auto simp: map_add_def fun_eq_iff split: option.splits)

interpretation table: key_table am_inv "\<lambda>am k. fst (am_get am k)" "\<lambda>am k v. am_set am k v True"
  "\<lambda>am k. (fst (am_remove am k), snd (snd (am_remove am k)))"
proof unfold_locales
  fix am :: "('k, 'v) ArrayMap" and k :: 'k and v :: 'v
  assume inv: "am_inv am"
  have f: "(fst (am_get am k) = None) = (indexOf am k = None)" for k
    by (simp add: am_get_def split: option.splits)
  show add: "am_inv (snd (am_set am k v True))"
    using inv by (auto simp: am_set_def am_inv_def indexOf_None)
  show "fst (am_set am k v True) = (fst (am_get am k) = None)"
    by (simp add: f am_set_def)
  have "am_map (snd (am_set am k v True)) = (if fst (am_get am k) = None then (am_map am)(k \<mapsto> v) else am_map am)"
    using inv key_absent [of k am] singleton_add [of "am_map am" k v]
    by (auto simp: f am_set_def am_map_def am_inv_def indexOf_None)
  then show "(\<lambda>k'. fst (am_get (snd (am_set am k v True)) k')) =
      (if fst (am_get am k) = None then (\<lambda>k'. fst (am_get am k'))(k \<mapsto> v) else (\<lambda>k'. fst (am_get am k')))"
    by (auto simp: am_get_map inv add)
  show "fst (fst (am_remove am k), snd (snd (am_remove am k))) = (fst (am_get am k) \<noteq> None)"
    by (simp add: am_remove_def am_get_def split: option.splits)
  show "am_inv (snd (fst (am_remove am k), snd (snd (am_remove am k))))"
    using inv indexOf_Some [of am k]
    by (auto simp: am_remove_def am_inv_def distinct_erase length_erase split: option.splits)
  then have del: "am_inv (snd (snd (am_remove am k)))" by simp
  have "am_map (snd (snd (am_remove am k))) = (am_map am)(k := None)"
  proof (cases "indexOf am k")
    case None
    then have "am_map am k = None" by (simp add: indexOf_None key_absent)
    with None show ?thesis by (auto simp: am_remove_def)
  next
    case (Some i)
    with indexOf_Some [OF Some] inv map_of_erase [of "zip (am_keys am) (am_values am)" i k] show ?thesis
      by (simp add: am_remove_def am_map_def am_inv_def erase_zip)
  qed
  then show "(\<lambda>k'. fst (am_get (snd (fst (am_remove am k), snd (snd (am_remove am k)))) k')) =
      (\<lambda>k'. fst (am_get am k'))(k := None)"
    by (auto simp: am_get_map inv del)
qed

section \<open>Properties\<close>

text \<open>
  C39. Used with \<^verbatim>\<open>check = true\<close>, an \<^verbatim>\<open>ArrayMap\<close> is a finite map: \<^verbatim>\<open>set\<close> succeeds exactly on an
  absent key and binds it, \<^verbatim>\<open>remove\<close> unbinds exactly its key and deletes exactly the pointer
  that was bound to it, and both keep the keys distinct and the vectors of equal length.
\<close>

theorem array_map_refines_map:
  assumes "am_inv am"
  shows "am_inv (snd (am_set am k v True)) \<and> am_inv (snd (snd (am_remove am k)))
    \<and> fst (am_set am k v True) = (fst (am_get am k) = None)
    \<and> fst (am_get (snd (am_set am k v True)) k') =
        (if k' = k \<and> fst (am_get am k) = None then Some v else fst (am_get am k'))
    \<and> fst (am_get (snd (snd (am_remove am k))) k') = (if k' = k then None else fst (am_get am k'))
    \<and> fst (snd (am_remove am k)) =
        (case fst (am_get am k) of None \<Rightarrow> [] | Some p \<Rightarrow> if am_needsDelete am then [p] else [])"
proof (intro conjI)
  show "am_inv (snd (am_set am k v True))" by (rule table.add_inv [OF assms])
  show "am_inv (snd (snd (am_remove am k)))" using table.del_inv [OF assms, of k] by simp
  show "fst (am_set am k v True) = (fst (am_get am k) = None)" by (rule table.add_result [OF assms])
  show "fst (am_get (snd (am_set am k v True)) k') =
        (if k' = k \<and> fst (am_get am k) = None then Some v else fst (am_get am k'))"
    using fun_cong [OF table.add_find [OF assms, of k v], of k'] by (auto split: if_splits)
  show "fst (am_get (snd (snd (am_remove am k))) k') = (if k' = k then None else fst (am_get am k'))"
    using table.del_then_find [OF assms, of k k'] by simp
  show "fst (snd (am_remove am k)) =
        (case fst (am_get am k) of None \<Rightarrow> [] | Some p \<Rightarrow> if am_needsDelete am then [p] else [])"
    by (simp add: am_remove_def am_get_def split: option.splits)
qed

theorem array_map_refines_map_witness:
  "fst (am_get (snd (am_set (\<lparr>am_keys = [3::nat], am_values = [''a''], am_needsDelete = True\<rparr>) 5 ''b'' True)) 5) = Some ''b''"
  using array_map_refines_map [of "\<lparr>am_keys = [3::nat], am_values = [''a''], am_needsDelete = True\<rparr>" 5 "''b''" 5]
  by (simp add: am_inv_def am_get_def indexOf_def)

text \<open>
  Without the check, \<^verbatim>\<open>set\<close> on a bound key shadows the older binding: \<^verbatim>\<open>get\<close> returns
  the newest value, and \<^verbatim>\<open>remove\<close> takes away only that one, so the older binding is visible
  again.
\<close>

theorem array_map_shadowing:
  assumes "length (am_keys am) = length (am_values am)"
  shows "fst (am_get (snd (am_set am k v False)) k) = Some v
    \<and> snd (snd (am_remove (snd (am_set am k v False)) k)) = am"
proof -
  let ?am = "snd (am_set am k v False)"
  have am: "?am = am\<lparr>am_keys := am_keys am @ [k], am_values := am_values am @ [v]\<rparr>"
    by (simp add: am_set_def)
  have i: "indexOf ?am k = Some (length (am_values am))"
    by (simp add: am indexOf_def indexOf_loop_snoc assms)
  have "fst (am_get ?am k) = Some v" by (simp add: am_get_def i) (simp add: am nth_append)
  moreover have "snd (snd (am_remove ?am k)) = am"
    by (simp add: am_remove_def i) (simp add: am erase_def assms)
  ultimately show ?thesis by simp
qed

theorem array_map_shadowing_witness:
  "fst (am_get (snd (am_set (\<lparr>am_keys = [3::nat], am_values = [1::int], am_needsDelete = True\<rparr>) 3 2 False)) 3) = Some 2"
  using array_map_shadowing [of "\<lparr>am_keys = [3::nat], am_values = [1::int], am_needsDelete = True\<rparr>" 3 2]
  by simp

end
