(* ===== verification/HashFunc.thy ===== *)
theory HashFunc
  imports Prelude
begin

text \<open>
  The string hash of \<^verbatim>\<open>common/hash/hash_func.hh\<close>, used by the hash table, the
  consistent-hashing ring and the stripe lists, with its one-, two- and three-segment
  overloads. Arithmetic is on 32-bit words; \<^verbatim>\<open>char\<close> is signed, so a byte is sign
  extended before it is added. The loops read exactly the bytes the length asks for: a segment
  shorter than its length is an out-of-range read (\<^term>\<open>None\<close>).
\<close>

definition hash_init :: u32 where "hash_init = 388650013"
definition hash_scale :: u32 where "hash_scale = 388650179"
definition hash_hardener :: u32 where "hash_hardener = 1176845762"

definition hash_step :: "u32 \<Rightarrow> byte \<Rightarrow> u32" where
  "hash_step h c = h * hash_scale + scast c"

fun hash_loop :: "byte list \<Rightarrow> nat \<Rightarrow> u32 \<Rightarrow> u32 option" where
  "hash_loop d 0 h = Some h"
| "hash_loop [] (Suc n) h = None"
| "hash_loop (c # d) (Suc n) h = hash_loop d n (hash_step h c)"

definition hash :: "byte list \<Rightarrow> u32 \<Rightarrow> u32 option" where
  "hash d n = map_option (\<lambda>h. h XOR hash_hardener) (hash_loop d (unat n) hash_init)"

fun hash_loop2 :: "byte list \<Rightarrow> byte list \<Rightarrow> nat \<Rightarrow> nat \<Rightarrow> u32 \<Rightarrow> u32 option" where
  "hash_loop2 d1 d2 n2 0 h = Some h"
| "hash_loop2 d1 d2 n2 (Suc n) h =
     (if Suc n > n2
      then (case d1 of [] \<Rightarrow> None | c # d1' \<Rightarrow> hash_loop2 d1' d2 n2 n (hash_step h c))
      else (case d2 of [] \<Rightarrow> None | c # d2' \<Rightarrow> hash_loop2 d1 d2' n2 n (hash_step h c)))"

definition hash2 :: "byte list \<Rightarrow> u32 \<Rightarrow> byte list \<Rightarrow> u32 \<Rightarrow> u32 option" where
  "hash2 d1 n1 d2 n2 =
     map_option (\<lambda>h. h XOR hash_hardener) (hash_loop2 d1 d2 (unat n2) (unat (n1 + n2)) hash_init)"

fun hash_loop3 ::
  "byte list \<Rightarrow> byte list \<Rightarrow> byte list \<Rightarrow> nat \<Rightarrow> nat \<Rightarrow> nat \<Rightarrow> u32 \<Rightarrow> u32 option" where
  "hash_loop3 d1 d2 d3 n23 n3 0 h = Some h"
| "hash_loop3 d1 d2 d3 n23 n3 (Suc n) h =
     (if Suc n > n23
      then (case d1 of [] \<Rightarrow> None | c # d1' \<Rightarrow> hash_loop3 d1' d2 d3 n23 n3 n (hash_step h c))
      else if Suc n > n3
      then (case d2 of [] \<Rightarrow> None | c # d2' \<Rightarrow> hash_loop3 d1 d2' d3 n23 n3 n (hash_step h c))
      else (case d3 of [] \<Rightarrow> None | c # d3' \<Rightarrow> hash_loop3 d1 d2 d3' n23 n3 n (hash_step h c)))"

definition hash3 ::
  "byte list \<Rightarrow> u32 \<Rightarrow> byte list \<Rightarrow> u32 \<Rightarrow> byte list \<Rightarrow> u32 \<Rightarrow> u32 option" where
  "hash3 d1 n1 d2 n2 d3 n3 =
     map_option (\<lambda>h. h XOR hash_hardener)
       (hash_loop3 d1 d2 d3 (unat (n2 + n3)) (unat n3) (unat (n1 + n2 + n3)) hash_init)"

text \<open>The reference: the hash of a whole byte string, as a fold.\<close>

definition hash_of :: "byte list \<Rightarrow> u32" where
  "hash_of bs = foldl hash_step hash_init bs XOR hash_hardener"

section \<open>The loops compute the fold\<close>

lemma hash_loop_foldl: "n \<le> length d \<Longrightarrow> hash_loop d n h = Some (foldl hash_step h (take n d))"
  by (induction d n h rule: hash_loop.induct) auto

lemma hash_loop_short: "length d < n \<Longrightarrow> hash_loop d n h = None"
  by (induction d n h rule: hash_loop.induct) auto

lemma hash_eq_hash_of: "unat n \<le> length d \<Longrightarrow> hash d n = Some (hash_of (take (unat n) d))"
  by (simp add: hash_def hash_of_def hash_loop_foldl)

lemma hash_whole: "length d < 2 ^ 32 \<Longrightarrow> hash d (of_nat (length d)) = Some (hash_of d)"
  by (simp add: hash_eq_hash_of unat_of_nat_eq)

lemma hash_loop2_snd: "n \<le> n2 \<Longrightarrow> hash_loop2 d1 d2 n2 n h = hash_loop d2 n h"
  by (induction n arbitrary: d2 h) (auto split: list.splits)

lemma hash_loop2_append:
  "length d1 = n1 \<Longrightarrow> length d2 = n2 \<Longrightarrow>
     hash_loop2 d1 d2 n2 (n1 + n2) h = Some (foldl hash_step h (d1 @ d2))"
proof (induction d1 arbitrary: n1 h)
  case Nil
  then show ?case by (simp add: hash_loop2_snd hash_loop_foldl)
next
  case (Cons c d1)
  then show ?case by auto
qed

lemma hash_loop3_snd:
  "n \<le> n23 \<Longrightarrow> hash_loop3 d1 d2 d3 n23 n3 n h = hash_loop2 d2 d3 n3 n h"
  by (induction n arbitrary: d2 d3 h) (auto split: list.splits)

lemma hash_loop3_append:
  "length d1 = n1 \<Longrightarrow> length d2 = n2 \<Longrightarrow> length d3 = n3 \<Longrightarrow>
     hash_loop3 d1 d2 d3 (n2 + n3) n3 (n1 + (n2 + n3)) h = Some (foldl hash_step h (d1 @ d2 @ d3))"
proof (induction d1 arbitrary: n1 h)
  case Nil
  then show ?case by (simp add: hash_loop3_snd hash_loop2_append)
next
  case (Cons c d1)
  then show ?case by auto
qed

lemma hash2_hash_of:
  assumes "length d1 + length d2 < 2 ^ 32"
  shows "hash2 d1 (of_nat (length d1)) d2 (of_nat (length d2)) = Some (hash_of (d1 @ d2))"
  using assms
  by (simp add: hash2_def hash_of_def unat_of_nat_add32 unat_of_nat_eq hash_loop2_append)

lemma hash3_hash_of:
  assumes "length d1 + length d2 + length d3 < 2 ^ 32"
  shows "hash3 d1 (of_nat (length d1)) d2 (of_nat (length d2)) d3 (of_nat (length d3))
     = Some (hash_of (d1 @ d2 @ d3))"
proof -
  have s: "unat (of_nat (length d1) + of_nat (length d2) + of_nat (length d3) :: u32)
      = length d1 + (length d2 + length d3)"
    using assms unat_of_nat_add32 [of "length d1 + length d2" "length d3"] by simp
  from assms show ?thesis
    by (simp add: hash3_def hash_of_def s unat_of_nat_add32 unat_of_nat_eq hash_loop3_append)
qed

end
