(* ===== verification/KeyValue.thy ===== *)
theory KeyValue
  imports HashFunc "HOL-Library.List_Lexorder" "HOL-Library.Product_Lexorder"
begin

text \<open>
  Keys and serialised objects: \<^verbatim>\<open>common/ds/key.hh\<close>, \<^verbatim>\<open>common/ds/key_value.cc\<close>.
  An object in a chunk is a four-byte header (key size, 24-bit value size), the key, for a large
  object a 24-bit split offset, and the (piece of the) value. The static
  \<^verbatim>\<open>LargeObjectUtil::chunkSize\<close> is the parameter \<open>cs\<close>. Functions that read or write
  memory, or divide, return \<^term>\<open>None\<close> on an out-of-range access or a division by zero.
\<close>

abbreviation (input) KEY_VALUE_METADATA_SIZE :: nat where "KEY_VALUE_METADATA_SIZE \<equiv> 4"
abbreviation (input) SPLIT_OFFSET_SIZE :: nat where "SPLIT_OFFSET_SIZE \<equiv> 3"

section \<open>Keys\<close>

record Key =
  key_size :: u8
  key_data :: "byte list"
  key_isLarge :: bool
  key_ptr :: nat

text \<open>\<^verbatim>\<open>strncmp\<close>: compares as unsigned characters and stops at a NUL; the sign is the result.\<close>

fun strncmp :: "byte list \<Rightarrow> byte list \<Rightarrow> nat \<Rightarrow> int option" where
  "strncmp as bs 0 = Some 0"
| "strncmp (a # as) (b # bs) (Suc n) =
     (if a < b then Some (-1) else if b < a then Some 1
      else if a = 0 then Some 0 else strncmp as bs n)"
| "strncmp _ _ (Suc n) = None"

definition key_bytes :: "u8 \<Rightarrow> bool \<Rightarrow> nat" where
  "key_bytes sz large = unat sz + (if large then SPLIT_OFFSET_SIZE else 0)"

definition key_set :: "u8 \<Rightarrow> byte list \<Rightarrow> nat \<Rightarrow> bool \<Rightarrow> Key" where
  "key_set sz d p large = \<lparr>key_size = sz, key_data = d, key_isLarge = large, key_ptr = p\<rparr>"

text \<open>
  \<^verbatim>\<open>Key::dup\<close>: a zero size or a null data pointer defaults to the key's own; the local
  \<^verbatim>\<open>uint8_t size\<close> is increased by the split offset size in 8-bit arithmetic.
\<close>

definition key_dup :: "Key \<Rightarrow> u8 \<Rightarrow> byte list option \<Rightarrow> nat \<Rightarrow> bool \<Rightarrow> Key option" where
  "key_dup k sz d p large =
     (let sz = (if sz = 0 then key_size k else sz);
          d = (case d of None \<Rightarrow> key_data k | Some d \<Rightarrow> d);
          n = (if large then sz + 3 else sz)
      in if unat n \<le> length d
         then Some \<lparr>key_size = sz, key_data = take (unat n) d, key_isLarge = large, key_ptr = p\<rparr>
         else None)"

definition key_equal :: "Key \<Rightarrow> Key \<Rightarrow> bool option" where
  "key_equal k1 k2 =
     (if key_size k1 = key_size k2 \<and> key_isLarge k1 = key_isLarge k2
      then map_option (\<lambda>r. r = 0)
             (strncmp (key_data k1) (key_data k2) (key_bytes (key_size k1) (key_isLarge k1)))
      else Some False)"

definition key_less :: "Key \<Rightarrow> Key \<Rightarrow> bool option" where
  "key_less k1 k2 =
     (if key_size k1 < key_size k2 then Some True
      else if key_size k2 < key_size k1 then Some False
      else if \<not> key_isLarge k1 \<and> key_isLarge k2 then Some True
      else if key_isLarge k1 \<and> \<not> key_isLarge k2 then Some False
      else case strncmp (key_data k1) (key_data k2) (key_bytes (key_size k1) (key_isLarge k1)) of
             None \<Rightarrow> None
           | Some r \<Rightarrow> if r < 0 then Some True else if r > 0 then Some False
                       else Some (key_ptr k1 < key_ptr k2))"

definition key_hash :: "Key \<Rightarrow> u32 option" where
  "key_hash k = hash (key_data k) (of_nat (key_bytes (key_size k) (key_isLarge k)))"

section \<open>Large objects\<close>

text \<open>The result is the answer, the number of splits and the split size.\<close>

definition isLarge :: "u32 \<Rightarrow> u8 \<Rightarrow> u32 \<Rightarrow> (bool \<times> u32 \<times> u32) option" where
  "isLarge cs keySize valueSize =
     (let totalSize = 4 + ucast keySize + valueSize in
      if cs < totalSize
      then let splitSize = cs - 4 - ucast keySize - 3 in
           if splitSize = 0 then None
           else Some (True,
                      valueSize div splitSize + (if valueSize mod splitSize \<noteq> 0 then 1 else 0),
                      splitSize)
      else Some (False, 1, valueSize))"

definition getValueOffsetAtSplit :: "u32 \<Rightarrow> u8 \<Rightarrow> u32 \<Rightarrow> u32 \<Rightarrow> u32" where
  "getValueOffsetAtSplit cs keySize valueSize index =
     (let totalSize = 4 + ucast keySize + valueSize in
      if cs < totalSize then index * (cs - 4 - ucast keySize - 3) else 0)"

definition getSplitIndex :: "u32 \<Rightarrow> u8 \<Rightarrow> u32 \<Rightarrow> u32 \<Rightarrow> (u32 \<times> bool) option" where
  "getSplitIndex cs keySize valueSize off =
     (let valueSize = (if valueSize = 0 then cs + off else valueSize);
          totalSize = 4 + ucast keySize + valueSize in
      if cs < totalSize
      then let splitSize = cs - 4 - ucast keySize - 3 in
           if splitSize = 0 then None else Some (off div splitSize, True)
      else Some (0, False))"

definition writeSplitOffset :: "memory \<Rightarrow> nat \<Rightarrow> u32 \<Rightarrow> memory option" where
  "writeSplitOffset m p splitOffset = poke m p (drop 1 (be32 splitOffset))"

definition readSplitOffset :: "memory \<Rightarrow> nat \<Rightarrow> u32 option" where
  "readSplitOffset m p =
     do { a \<leftarrow> load_byte m p; b \<leftarrow> load_byte m (p + 1); c \<leftarrow> load_byte m (p + 2);
          Some (of_be32 0 a b c) }"

section \<open>Serialised objects\<close>

text \<open>\<^verbatim>\<open>memcpy\<close> of the first \<open>n\<close> bytes of a source that may be the null pointer.\<close>

definition copy_in :: "memory \<Rightarrow> nat \<Rightarrow> byte list option \<Rightarrow> nat \<Rightarrow> memory option" where
  "copy_in m p src n =
     (case src of None \<Rightarrow> Some m
      | Some s \<Rightarrow> if n \<le> length s then poke m p (take n s) else None)"

definition setSize :: "memory \<Rightarrow> nat \<Rightarrow> u8 \<Rightarrow> u32 \<Rightarrow> memory option" where
  "setSize m p keySize valueSize = poke m p (keySize # drop 1 (be32 valueSize))"

definition piece_size :: "u32 \<Rightarrow> u32 \<Rightarrow> u32 \<Rightarrow> u32" where
  "piece_size valueSize splitOffset splitSize =
     (if splitOffset + splitSize > valueSize then valueSize - splitOffset else splitSize)"

definition serialize ::
  "u32 \<Rightarrow> memory \<Rightarrow> nat \<Rightarrow> byte list option \<Rightarrow> u8 \<Rightarrow> byte list option \<Rightarrow> u32 \<Rightarrow> u32 \<Rightarrow> memory option" where
  "serialize cs m p key keySize val valueSize splitOffset =
     do { m \<leftarrow> setSize m p keySize valueSize;
          m \<leftarrow> copy_in m (p + 4) key (unat keySize);
          let q = p + 4 + unat keySize;
          (large, _, splitSize) \<leftarrow> isLarge cs keySize valueSize;
          if large
          then do { m \<leftarrow> poke m q (drop 1 (be32 splitOffset));
                    copy_in m (q + 3) val (unat (piece_size valueSize splitOffset splitSize)) }
          else copy_in m q val (unat valueSize) }"

record object =
  obj_key :: nat
  obj_keySize :: u8
  obj_value :: nat
  obj_valueSize :: u32
  obj_splitOffset :: u32

definition deserialize :: "u32 \<Rightarrow> memory \<Rightarrow> nat \<Rightarrow> object option" where
  "deserialize cs m p =
     do { keySize \<leftarrow> load_byte m p;
          valueSize \<leftarrow> readSplitOffset m (p + 1);
          let key = p + 4;
          let q = key + unat keySize;
          (large, _, _) \<leftarrow> isLarge cs keySize valueSize;
          if large
          then do { splitOffset \<leftarrow> readSplitOffset m q;
                    Some \<lparr>obj_key = key, obj_keySize = keySize, obj_value = q + 3,
                          obj_valueSize = valueSize, obj_splitOffset = splitOffset\<rparr> }
          else Some \<lparr>obj_key = key, obj_keySize = keySize, obj_value = q,
                     obj_valueSize = valueSize, obj_splitOffset = 0\<rparr> }"

text \<open>The number of bytes of the object, as every scan of a chunk computes it.\<close>

definition object_size :: "u32 \<Rightarrow> object \<Rightarrow> u32 option" where
  "object_size cs ob =
     do { (large, _, splitSize) \<leftarrow> isLarge cs (obj_keySize ob) (obj_valueSize ob);
          if large
          then Some (4 + ucast (obj_keySize ob) + 3
                     + piece_size (obj_valueSize ob) (obj_splitOffset ob) splitSize)
          else Some (4 + ucast (obj_keySize ob) + obj_valueSize ob) }"

definition getSize :: "u32 \<Rightarrow> memory \<Rightarrow> nat \<Rightarrow> (u32 \<times> u8 \<times> u32) option" where
  "getSize cs m p =
     do { ob \<leftarrow> deserialize cs m p;
          n \<leftarrow> object_size cs ob;
          Some (n, obj_keySize ob, obj_valueSize ob) }"

definition kv_key :: "u32 \<Rightarrow> memory \<Rightarrow> nat \<Rightarrow> bool \<Rightarrow> Key option" where
  "kv_key cs m p enableSplit =
     (if enableSplit
      then do { ob \<leftarrow> deserialize cs m p;
                (large, _, _) \<leftarrow> isLarge cs (obj_keySize ob) (obj_valueSize ob);
                Some \<lparr>key_size = obj_keySize ob, key_data = drop (obj_key ob) m,
                      key_isLarge = large, key_ptr = 0\<rparr> }
      else do { sz \<leftarrow> load_byte m p;
                Some (key_set sz (drop (p + 4) m) 0 False) })"

definition serialize_raw ::
  "memory \<Rightarrow> nat \<Rightarrow> byte list option \<Rightarrow> u8 \<Rightarrow> byte list option \<Rightarrow> u32 \<Rightarrow> memory option" where
  "serialize_raw m p key keySize val valueSize =
     do { m \<leftarrow> setSize m p keySize valueSize;
          m \<leftarrow> copy_in m (p + 4) key (unat keySize);
          copy_in m (p + 4 + unat keySize) val (unat valueSize) }"

definition deserialize_raw :: "memory \<Rightarrow> nat \<Rightarrow> object option" where
  "deserialize_raw m p =
     do { keySize \<leftarrow> load_byte m p;
          valueSize \<leftarrow> readSplitOffset m (p + 1);
          Some \<lparr>obj_key = p + 4, obj_keySize = keySize, obj_value = p + 4 + unat keySize,
                obj_valueSize = valueSize, obj_splitOffset = 0\<rparr> }"

definition getChunkUpdateOffset :: "u32 \<Rightarrow> u8 \<Rightarrow> u32 \<Rightarrow> bool \<Rightarrow> u32" where
  "getChunkUpdateOffset chunkOffset keySize valueUpdateOffset large =
     chunkOffset + 4 + ucast keySize + valueUpdateOffset + (if large then 3 else 0)"

text \<open>\<^verbatim>\<open>KeyValue::dup\<close> allocates exactly the bytes it then serialises into.\<close>

definition kv_dup :: "u32 \<Rightarrow> byte list option \<Rightarrow> u8 \<Rightarrow> byte list option \<Rightarrow> u32 \<Rightarrow> u32 \<Rightarrow> memory option" where
  "kv_dup cs key keySize val valueSize splitOffset =
     do { (large, _, splitSize) \<leftarrow> isLarge cs keySize valueSize;
          let n = (if large then piece_size valueSize splitOffset splitSize else valueSize);
          let bytes = ucast keySize + n + (if large then 3 else 0) + 4;
          serialize cs (replicate (unat bytes) 0) 0 key keySize val valueSize splitOffset }"

definition kv_dup_raw :: "byte list option \<Rightarrow> u8 \<Rightarrow> byte list option \<Rightarrow> u32 \<Rightarrow> memory option" where
  "kv_dup_raw key keySize val valueSize =
     serialize_raw (replicate (unat (ucast keySize + valueSize + 4 :: u32)) 0) 0
       key keySize val valueSize"

section \<open>Comparison of keys\<close>

definition cstr :: "nat \<Rightarrow> byte list \<Rightarrow> byte list" where
  "cstr n bs = takeWhile (\<lambda>c. c \<noteq> 0) (take n bs)"

definition readable :: "Key \<Rightarrow> bool" where
  "readable k \<longleftrightarrow> key_bytes (key_size k) (key_isLarge k) \<le> length (key_data k)"

definition key_string :: "Key \<Rightarrow> byte list" where
  "key_string k = cstr (key_bytes (key_size k) (key_isLarge k)) (key_data k)"

definition key_rank :: "Key \<Rightarrow> u8 \<times> bool \<times> byte list \<times> nat" where
  "key_rank k = (key_size k, key_isLarge k, key_string k, key_ptr k)"

lemma strncmp_cstr:
  "n \<le> length as \<Longrightarrow> n \<le> length bs \<Longrightarrow>
   strncmp as bs n =
     Some (if cstr n as < cstr n bs then -1 else if cstr n bs < cstr n as then 1 else 0)"
proof (induction as bs n rule: strncmp.induct)
  case (2 a as b bs n)
  then show ?case by (auto simp: cstr_def)
qed (auto simp: cstr_def)

lemma key_equal_string:
  "readable k1 \<Longrightarrow> readable k2 \<Longrightarrow>
   key_equal k1 k2 = Some (key_size k1 = key_size k2 \<and> key_isLarge k1 = key_isLarge k2
                           \<and> key_string k1 = key_string k2)"
  by (auto simp: key_equal_def readable_def key_string_def strncmp_cstr)

lemma key_less_rank:
  assumes "readable k1" and "readable k2"
  shows "key_less k1 k2 = Some (key_rank k1 < key_rank k2)"
proof (cases "key_size k1" "key_size k2" rule: linorder_cases)
  case equal
  show ?thesis
  proof (cases "key_isLarge k1 = key_isLarge k2")
    case True
    with equal assms have
      "strncmp (key_data k1) (key_data k2) (key_bytes (key_size k1) (key_isLarge k1)) =
         Some (if key_string k1 < key_string k2 then -1
               else if key_string k2 < key_string k1 then 1 else 0)"
      by (simp add: readable_def key_string_def strncmp_cstr)
    with True equal show ?thesis
      by (cases "key_string k1" "key_string k2" rule: linorder_cases)
        (auto simp: key_less_def key_rank_def)
  next
    case False
    with equal show ?thesis
      by (cases "key_isLarge k1") (auto simp: key_less_def key_rank_def)
  qed
qed (auto simp: key_less_def key_rank_def)

lemma cstr_nul_free: "0 \<notin> set (take n bs) \<Longrightarrow> cstr n bs = take n bs"
  by (auto simp: cstr_def takeWhile_eq_all_conv)

lemma cstr_append_nul: "0 \<notin> set as \<Longrightarrow> length as < n \<Longrightarrow> cstr n (as @ 0 # bs) = as"
  by (simp add: cstr_def takeWhile_append take_Cons')

section \<open>Serialised objects: round trips\<close>

definition object_image :: "bool \<Rightarrow> u8 \<Rightarrow> byte list \<Rightarrow> u32 \<Rightarrow> u32 \<Rightarrow> byte list \<Rightarrow> byte list" where
  "object_image large keySize key valueSize splitOffset val =
     keySize # drop 1 (be32 valueSize) @ key @ (if large then drop 1 (be32 splitOffset) else []) @ val"

definition piece_len :: "u32 \<Rightarrow> u8 \<Rightarrow> u32 \<Rightarrow> u32 \<Rightarrow> nat" where
  "piece_len cs keySize valueSize splitOffset =
     (case isLarge cs keySize valueSize of
        Some (True, _, splitSize) \<Rightarrow> unat (piece_size valueSize splitOffset splitSize)
      | _ \<Rightarrow> unat valueSize)"

lemma length_object_image [simp]:
  "length (object_image large keySize key valueSize splitOffset val)
     = 4 + length key + (if large then 3 else 0) + length val"
  by (simp add: object_image_def)

lemma copy_in_Some [simp]: "copy_in m p (Some s) n = (if n \<le> length s then poke m p (take n s) else None)"
  by (simp add: copy_in_def)

lemma poke_bind_adjacent:
  "j = i + length bs \<Longrightarrow> poke m i bs \<bind> (\<lambda>m'. poke m' j cs \<bind> f) = poke m i (bs @ cs) \<bind> f"
  by (simp add: poke_poke_adjacent [symmetric] bind_assoc)

lemma poke_adjacent:
  "j = i + length bs \<Longrightarrow> poke m i bs \<bind> (\<lambda>m'. poke m' j cs) = poke m i (bs @ cs)"
  by (simp add: poke_poke_adjacent)

lemma serialize_image:
  assumes large: "isLarge cs keySize valueSize = Some (large, nsplit, splitSize)"
    and key: "unat keySize \<le> length key"
    and val: "piece_len cs keySize valueSize splitOffset \<le> length val"
  shows "serialize cs m p (Some key) keySize (Some val) valueSize splitOffset =
    poke m p (object_image large keySize (take (unat keySize) key) valueSize splitOffset
                (take (piece_len cs keySize valueSize splitOffset) val))"
proof (cases large)
  case True
  with large key val show ?thesis
    by (simp add: serialize_def setSize_def piece_len_def object_image_def
        poke_bind_adjacent poke_adjacent)
next
  case False
  with large key val show ?thesis
    by (simp add: serialize_def setSize_def piece_len_def object_image_def
        poke_bind_adjacent poke_adjacent)
qed

lemma serialize_SomeD:
  assumes "serialize cs m p (Some key) keySize (Some val) valueSize splitOffset = Some m'"
  obtains large nsplit splitSize where
    "isLarge cs keySize valueSize = Some (large, nsplit, splitSize)"
    "unat keySize \<le> length key"
    "piece_len cs keySize valueSize splitOffset \<le> length val"
  using assms
  by (auto simp: serialize_def piece_len_def bind_eq_Some_conv Let_def
      split: if_splits prod.splits bool.splits)

lemma readSplitOffset_poke:
  assumes "poke m p bs = Some m'" and "k + 3 \<le> length bs"
  shows "readSplitOffset m' (p + k) = Some (of_be32 0 (bs ! k) (bs ! (k + 1)) (bs ! (k + 2)))"
proof -
  have "load_byte m' (p + k) = Some (bs ! k)" "load_byte m' (p + (k + 1)) = Some (bs ! (k + 1))"
    "load_byte m' (p + (k + 2)) = Some (bs ! (k + 2))"
    using assms(2) load_byte_poke_same [OF assms(1), of k]
      load_byte_poke_same [OF assms(1), of "k + 1"] load_byte_poke_same [OF assms(1), of "k + 2"]
    by simp_all
  then show ?thesis by (simp add: readSplitOffset_def add.assoc)
qed

lemma drop1_be32: "drop 1 (be32 v) = [ucast (drop_bit 16 v), ucast (drop_bit 8 v), ucast v]"
  by (simp add: be32_def)

lemma readSplitOffset_poke_be:
  assumes "poke m p (as @ drop 1 (be32 v) @ cs) = Some m'" and "k = length as"
  shows "readSplitOffset m' (p + k) = Some (take_bit 24 v)"
proof -
  have "readSplitOffset m' (p + k) = Some (of_be32 0 (ucast (drop_bit 16 v)) (ucast (drop_bit 8 v)) (ucast v))"
    using readSplitOffset_poke [OF assms(1), of k] assms(2) by (simp add: be32_def nth_append)
  then show ?thesis by (simp add: of_be32_24)
qed

lemma peek_poke_part:
  assumes "poke m p (as @ bs @ cs) = Some m'" and "k = length as" and "n = length bs"
  shows "peek m' (p + k) n = Some bs"
proof -
  from assms(1) have r: "p + length (as @ bs @ cs) \<le> length m"
    and m': "m' = (take p m @ as) @ bs @ (cs @ drop (p + length (as @ bs @ cs)) m)"
    by (auto simp: poke_Some_iff)
  then have "seg (p + k) n m' = bs"
    using assms(2,3) by (simp only: m') (rule seg_mid; simp)
  with r assms(2,3) show ?thesis by (simp add: peek_def m')
qed

lemma deserialize_image:
  assumes img: "poke m p (object_image large keySize key valueSize splitOffset val) = Some m'"
    and large: "isLarge cs keySize valueSize = Some (large, nsplit, splitSize)"
    and key: "length key = unat keySize"
    and vs: "valueSize < 2 ^ 24" and so: "large \<Longrightarrow> splitOffset < 2 ^ 24"
  shows "deserialize cs m' p = Some
    \<lparr>obj_key = p + 4, obj_keySize = keySize,
     obj_value = p + 4 + unat keySize + (if large then 3 else 0),
     obj_valueSize = valueSize, obj_splitOffset = (if large then splitOffset else 0)\<rparr>"
proof -
  have b0: "load_byte m' p = Some keySize"
    using load_byte_poke_same [OF img, of 0] by (simp add: object_image_def)
  have v: "readSplitOffset m' (p + 1) = Some valueSize"
    using readSplitOffset_poke_be [of m p "[keySize]" valueSize, of _ m' 1] img vs
    by (simp add: object_image_def take_bit_24_id)
  show ?thesis
  proof (cases large)
    case True
    have "readSplitOffset m' (p + (4 + unat keySize)) = Some splitOffset"
      using readSplitOffset_poke_be
          [of m p "keySize # drop 1 (be32 valueSize) @ key" splitOffset val m' "4 + unat keySize"]
        img so True key
      by (simp add: object_image_def take_bit_24_id)
    with True b0 v large show ?thesis
      by (simp add: deserialize_def Let_def add.assoc)
  next
    case False
    with b0 v large show ?thesis by (simp add: deserialize_def Let_def)
  qed
qed

lemma object_image_parts:
  assumes img: "poke m p (object_image large keySize key valueSize splitOffset val) = Some m'"
    and key: "length key = unat keySize"
  shows "peek m' (p + 4) (unat keySize) = Some key"
    and "peek m' (p + 4 + unat keySize + (if large then 3 else 0)) (length val) = Some val"
proof -
  show "peek m' (p + 4) (unat keySize) = Some key"
    using img key unfolding object_image_def append_Cons [symmetric]
    by (rule_tac peek_poke_part [of m p "keySize # drop 1 (be32 valueSize)" key]) simp_all
  let ?h = "keySize # drop 1 (be32 valueSize) @ key @ (if large then drop 1 (be32 splitOffset) else [])"
  have len: "4 + unat keySize + (if large then 3 else 0) = length ?h"
    using key by simp
  have "poke m p (?h @ val @ []) = Some m'"
    using img by (simp only: object_image_def append_Cons append_assoc append_Nil2)
  from peek_poke_part [OF this len refl] have
    "peek m' (p + (4 + unat keySize + (if large then 3 else 0))) (length val) = Some val" .
  then show "peek m' (p + 4 + unat keySize + (if large then 3 else 0)) (length val) = Some val"
    by (simp only: add.assoc)
qed

lemma writeSplitOffset_read:
  "writeSplitOffset m p v = Some m' \<Longrightarrow> v < 2 ^ 24 \<Longrightarrow> readSplitOffset m' p = Some v"
  using readSplitOffset_poke_be [of m p "[]" v "[]" m' 0]
  by (simp add: writeSplitOffset_def take_bit_24_id)

section \<open>Splitting large objects\<close>

lemma isLarge_unat:
  assumes "7 + unat keySize < unat cs" and "valueSize < 2 ^ 24"
  shows "isLarge cs keySize valueSize =
    (if unat cs < 4 + unat keySize + unat valueSize
     then let ss = cs - ucast keySize - 7 in
          Some (True, valueSize div ss + (if valueSize mod ss \<noteq> 0 then 1 else 0), ss)
     else Some (False, 1, valueSize))"
    and "unat (cs - ucast keySize - 7) = unat cs - 7 - unat keySize"
proof -
  have ks: "unat keySize < 256" by (rule unat_u8_less)
  have vs: "unat valueSize < 2 ^ 24" using assms(2) by (simp add: word_less_nat_alt)
  have tot: "unat (4 + ucast keySize + valueSize) = 4 + unat keySize + unat valueSize"
    using ks vs by (simp add: unat_plus_eq)
  show ss: "unat (cs - ucast keySize - 7) = unat cs - 7 - unat keySize"
    using assms(1) by (simp add: unat_minus_eq)
  have eq: "cs - 4 - ucast keySize - 3 = cs - ucast keySize - 7" by simp
  have "unat (cs - ucast keySize - 7) \<noteq> 0" using ss assms(1) by simp
  then have "cs - ucast keySize - 7 \<noteq> 0" by fastforce
  with tot show "isLarge cs keySize valueSize =
    (if unat cs < 4 + unat keySize + unat valueSize
     then let ss = cs - ucast keySize - 7 in
          Some (True, valueSize div ss + (if valueSize mod ss \<noteq> 0 then 1 else 0), ss)
     else Some (False, 1, valueSize))"
    by (simp add: isLarge_def Let_def word_less_nat_alt eq)
qed

lemma concat_pieces:
  "concat (map (\<lambda>i. take (min s (length v - i * s)) (drop (i * s) v)) [0..<n]) = take (n * s) v"
proof (induction n)
  case (Suc n)
  have "take (min s (length v - n * s)) (drop (n * s) v) = take s (drop (n * s) v)"
    by (cases "s \<le> length v - n * s") (auto simp: min_def)
  with Suc show ?case by (simp add: take_add [of "n * s" s] add.commute [of s])
qed simp

lemma ceil_div_cover:
  fixes v s :: nat
  assumes "0 < s"
  defines "n \<equiv> v div s + (if v mod s \<noteq> 0 then 1 else 0)"
  shows "v \<le> n * s" and "i < n \<Longrightarrow> i * s < v"
proof -
  have v: "v div s * s + v mod s = v" by (rule div_mult_mod_eq)
  have m: "v mod s < s" using assms(1) by simp
  show "v \<le> n * s"
  proof (cases "v mod s = 0")
    case True
    with v show ?thesis by (simp add: n_def)
  next
    case False
    then have "n * s = v div s * s + s" by (simp add: n_def add_mult_distrib)
    with v m show ?thesis by linarith
  qed
  assume "i < n"
  show "i * s < v"
  proof (cases "v mod s = 0")
    case True
    with \<open>i < n\<close> have "i < v div s" by (simp add: n_def)
    then have "i * s < v div s * s" using assms(1) by simp
    with v show ?thesis by linarith
  next
    case False
    with \<open>i < n\<close> have "i * s \<le> v div s * s" by (simp add: n_def)
    with v False show ?thesis by linarith
  qed
qed

lemma isLarge_True_unat:
  assumes "isLarge cs keySize valueSize = Some (True, nsplit, splitSize)"
    and "7 + unat keySize < unat cs" and "valueSize < 2 ^ 24"
  shows "unat splitSize = unat cs - 7 - unat keySize"
    and "unat nsplit = unat valueSize div unat splitSize
                       + (if unat valueSize mod unat splitSize \<noteq> 0 then 1 else 0)"
    and "unat cs < 4 + unat keySize + unat valueSize"
    and "splitSize = cs - ucast keySize - 7"
proof -
  from assms(1) have lt: "unat cs < 4 + unat keySize + unat valueSize"
    and ss: "splitSize = cs - ucast keySize - 7"
    and n: "nsplit = valueSize div splitSize + (if valueSize mod splitSize \<noteq> 0 then 1 else 0)"
    by (auto simp: isLarge_unat(1) [OF assms(2,3)] Let_def split: if_splits)
  show u: "unat splitSize = unat cs - 7 - unat keySize"
    using isLarge_unat(2) [OF assms(2,3)] ss by simp
  have vs: "unat valueSize < 2 ^ 24" using assms(3) by (simp add: word_less_nat_alt)
  have "unat (valueSize div splitSize) \<le> unat valueSize" by (simp add: unat_div)
  then have "unat (valueSize div splitSize + 1) = unat (valueSize div splitSize) + 1"
    using vs by (subst unat_plus_eq) simp_all
  moreover have "(valueSize mod splitSize = 0) = (unat valueSize mod unat splitSize = 0)"
    by (simp add: unat_mod [symmetric] unat_eq_zero)
  ultimately show "unat nsplit = unat valueSize div unat splitSize
                       + (if unat valueSize mod unat splitSize \<noteq> 0 then 1 else 0)"
    by (simp add: n unat_div)
  show "unat cs < 4 + unat keySize + unat valueSize" by (rule lt)
  show "splitSize = cs - ucast keySize - 7" by (rule ss)
qed

lemma piece_size_unat:
  assumes "unat off \<le> unat valueSize" and "unat off + unat splitSize < 2 ^ 32"
  shows "unat (piece_size valueSize off splitSize) = min (unat splitSize) (unat valueSize - unat off)"
  using assms
  by (auto simp: piece_size_def word_less_nat_alt unat_plus_eq unat_minus_eq)

text \<open>Offset and length of each piece of a large object of at most \<open>2 ^ 24 - 1\<close> bytes.\<close>

lemma split_piece:
  assumes "isLarge cs keySize valueSize = Some (True, nsplit, splitSize)"
    and "7 + unat keySize < unat cs" and "valueSize < 2 ^ 24" and "i < unat nsplit"
  shows "unat (getValueOffsetAtSplit cs keySize valueSize (of_nat i)) = i * unat splitSize"
    and "unat (piece_size valueSize (getValueOffsetAtSplit cs keySize valueSize (of_nat i)) splitSize)
          = min (unat splitSize) (unat valueSize - i * unat splitSize)"
    and "i * unat splitSize < unat valueSize"
proof -
  note L = isLarge_True_unat [OF assms(1-3)]
  have vs: "unat valueSize < 2 ^ 24" using assms(3) by (simp add: word_less_nat_alt)
  have ss0: "0 < unat splitSize" using L(1) assms(2) by simp
  show lt: "i * unat splitSize < unat valueSize"
    using ceil_div_cover(2) [OF ss0] assms(4) L(2) by simp
  have "i * 1 \<le> i * unat splitSize" using ss0 by (intro mult_le_mono2) simp
  with lt vs have "i < 2 ^ 24" by linarith
  then have "i < 2 ^ 32" by (rule less_trans) simp
  then have i: "unat (of_nat i :: u32) = i" by (simp add: unat_of_nat_eq)
  have off: "getValueOffsetAtSplit cs keySize valueSize (of_nat i) = of_nat i * splitSize"
  proof -
    have "4 + ucast keySize + valueSize > cs"
      using assms(1) by (auto simp: isLarge_def Let_def split: if_splits)
    then show ?thesis by (simp add: getValueOffsetAtSplit_def L(4))
  qed
  show u: "unat (getValueOffsetAtSplit cs keySize valueSize (of_nat i)) = i * unat splitSize"
    unfolding off using lt vs i by (subst unat_mult_eq) simp_all
  show "unat (piece_size valueSize (getValueOffsetAtSplit cs keySize valueSize (of_nat i)) splitSize)
          = min (unat splitSize) (unat valueSize - i * unat splitSize)"
  proof (subst piece_size_unat)
    have "unat splitSize \<le> unat cs" using L(1) by simp
    with L(3) vs lt show "unat (getValueOffsetAtSplit cs keySize valueSize (of_nat i)) + unat splitSize < 2 ^ 32"
      using unat_u8_less [of keySize] by (simp add: u)
  qed (use lt u in simp_all)
qed

lemma getSplitIndex_at_split:
  assumes "isLarge cs keySize valueSize = Some (True, nsplit, splitSize)"
    and "7 + unat keySize < unat cs" and "valueSize < 2 ^ 24" and i: "i < unat nsplit"
  shows "getSplitIndex cs keySize valueSize (getValueOffsetAtSplit cs keySize valueSize (of_nat i))
         = Some (of_nat i, True)"
proof -
  note L = isLarge_True_unat [OF assms(1-3)]
  have ss0: "0 < unat splitSize" using L(1) assms(2) by simp
  then have nz: "splitSize \<noteq> 0" by auto
  have tot: "cs < 4 + ucast keySize + valueSize" "valueSize \<noteq> 0"
    using assms(1) split_piece(3) [OF assms]
    by (auto simp: isLarge_def Let_def split: if_splits)
  have "unat (getValueOffsetAtSplit cs keySize valueSize (of_nat i) div splitSize) = i"
    using split_piece(1) [OF assms] ss0 by (simp add: unat_div)
  then have "getValueOffsetAtSplit cs keySize valueSize (of_nat i) div splitSize = of_nat i"
    by (metis of_nat_unat_eq)
  with tot nz L(4) show ?thesis
    by (simp add: getSplitIndex_def Let_def)
qed

section \<open>Properties\<close>

text \<open>
  C33. Serialising an object and deserialising it gives back the key size, the key, the value
  size, the split offset of a large object, and the stored piece of the value, whenever the
  value size and the split offset fit in the 24 bits the format has for them.
\<close>

theorem serialize_roundtrip:
  assumes "serialize cs m p (Some key) keySize (Some val) valueSize splitOffset = Some m'"
    and "valueSize < 2 ^ 24" and "splitOffset < 2 ^ 24"
  shows "\<exists>ob. deserialize cs m' p = Some ob
     \<and> obj_keySize ob = keySize \<and> obj_valueSize ob = valueSize
     \<and> obj_splitOffset ob = (if map_option fst (isLarge cs keySize valueSize) = Some True then splitOffset else 0)
     \<and> peek m' (obj_key ob) (unat keySize) = Some (take (unat keySize) key)
     \<and> peek m' (obj_value ob) (piece_len cs keySize valueSize splitOffset)
         = Some (take (piece_len cs keySize valueSize splitOffset) val)"
proof -
  obtain large nsplit splitSize where
    large: "isLarge cs keySize valueSize = Some (large, nsplit, splitSize)"
    and key: "unat keySize \<le> length key"
    and val: "piece_len cs keySize valueSize splitOffset \<le> length val"
    using assms(1) by (rule serialize_SomeD)
  let ?v = "take (piece_len cs keySize valueSize splitOffset) val"
  from assms(1) serialize_image [OF large key val] have
    img: "poke m p (object_image large keySize (take (unat keySize) key) valueSize splitOffset ?v) = Some m'"
    by simp
  have k: "length (take (unat keySize) key) = unat keySize" using key by simp
  from deserialize_image [OF img large k assms(2)] object_image_parts [OF img k] val large assms(3)
  show ?thesis by simp
qed

theorem serialize_roundtrip_witness:
  "\<exists>m'. serialize 64 (replicate 40 0) 3 (Some [107, 49]) 2 (Some [1, 2, 3]) 3 0 = Some m'
      \<and> (\<exists>ob. deserialize 64 m' 3 = Some ob \<and> obj_keySize ob = 2 \<and> obj_valueSize ob = 3
              \<and> peek m' (obj_key ob) 2 = Some [107, 49])"
proof -
  have ex: "\<exists>m'. serialize 64 (replicate 40 0) 3 (Some [107, 49]) 2 (Some [1, 2, 3]) 3 0 = Some m'"
    by (simp add: serialize_def setSize_def isLarge_def poke_def be32_def Let_def copy_in_def)
  then obtain m' where m': "serialize 64 (replicate 40 0) 3 (Some [107, 49]) 2 (Some [1, 2, 3]) 3 0 = Some m'"
    by blast
  show ?thesis using m' serialize_roundtrip [OF m'] by auto
qed

text \<open>
  A large object is cut into splits that lose nothing: each split's serialised form fits in
  a chunk, the split index of each offset is the split itself, and the pieces put together are
  the value. It holds for every value of at most 16777215 bytes and every chunk that has room
  for the metadata, the key, the split offset and one byte.
\<close>

theorem large_object_splits:
  assumes "isLarge cs keySize valueSize = Some (True, nsplit, splitSize)"
    and "7 + unat keySize < unat cs" and "valueSize < 2 ^ 24" and "length val = unat valueSize"
  shows "concat (map (\<lambda>i. let off = getValueOffsetAtSplit cs keySize valueSize (of_nat i) in
                take (unat (piece_size valueSize off splitSize)) (drop (unat off) val))
              [0..<unat nsplit]) = val
    \<and> (\<forall>i < unat nsplit. let off = getValueOffsetAtSplit cs keySize valueSize (of_nat i) in
         4 + unat keySize + 3 + unat (piece_size valueSize off splitSize) \<le> unat cs
         \<and> getSplitIndex cs keySize valueSize off = Some (of_nat i, True))"
proof (intro conjI allI impI)
  note L = isLarge_True_unat [OF assms(1-3)]
  have ss0: "0 < unat splitSize" using L(1) assms(2) by simp
  let ?off = "\<lambda>i. getValueOffsetAtSplit cs keySize valueSize (of_nat i)"
  have "concat (map (\<lambda>i. let off = ?off i in
            take (unat (piece_size valueSize off splitSize)) (drop (unat off) val)) [0..<unat nsplit])
    = concat (map (\<lambda>i. take (min (unat splitSize) (length val - i * unat splitSize))
            (drop (i * unat splitSize) val)) [0..<unat nsplit])"
    using split_piece [OF assms(1-3)] assms(4)
    by (intro arg_cong [where f = concat] map_cong) (simp_all add: Let_def)
  also have "\<dots> = take (unat nsplit * unat splitSize) val"
    by (rule concat_pieces)
  also have "\<dots> = val"
    using ceil_div_cover(1) [OF ss0, of "unat valueSize"] assms(4) L(2) by simp
  finally show "concat (map (\<lambda>i. let off = ?off i in
            take (unat (piece_size valueSize off splitSize)) (drop (unat off) val))
              [0..<unat nsplit]) = val" .
next
  fix i assume i: "i < unat nsplit"
  from split_piece(2) [OF assms(1-3) i] isLarge_True_unat(1) [OF assms(1-3)] assms(2)
    getSplitIndex_at_split [OF assms(1-3) i]
  show "let off = getValueOffsetAtSplit cs keySize valueSize (of_nat i) in
         4 + unat keySize + 3 + unat (piece_size valueSize off splitSize) \<le> unat cs
         \<and> getSplitIndex cs keySize valueSize off = Some (of_nat i, True)"
    by (simp add: Let_def)
qed

theorem large_object_splits_witness:
  "isLarge 16 2 20 = Some (True, 3, 7) \<and>
   concat (map (\<lambda>i. let off = getValueOffsetAtSplit 16 2 20 (of_nat i) in
                take (unat (piece_size 20 off 7)) (drop (unat off) (replicate 20 (5 :: byte))))
              [0..<3]) = replicate 20 5"
proof -
  have l: "isLarge 16 2 20 = Some (True, 3, 7)" by (simp add: isLarge_def)
  from large_object_splits [OF l, of "replicate 20 (5 :: byte)"] l show ?thesis
    by simp
qed

text \<open>
  \<^verbatim>\<open>Key::operator<\<close> is a strict linear order on (size, largeness, C string, augmented
  pointer), so the ordered containers keyed by it are well behaved: it always answers on readable
  keys and coincides with the lexicographic order of those components.
\<close>

theorem key_less_lexicographic:
  assumes "readable k1" and "readable k2" and "readable k3"
  shows "key_less k1 k2 = Some (key_rank k1 < key_rank k2)
     \<and> key_less k1 k1 = Some False
     \<and> (key_less k1 k2 = Some True \<longrightarrow> key_less k2 k3 = Some True \<longrightarrow> key_less k1 k3 = Some True)
     \<and> (key_less k1 k2 = Some False \<longrightarrow> key_less k2 k1 = Some False \<longrightarrow>
          key_equal k1 k2 = Some True \<and> key_ptr k1 = key_ptr k2)"
  using assms
  by (auto simp: key_less_rank key_equal_string not_less key_rank_def)

theorem key_less_lexicographic_witness:
  "key_less (key_set 1 [65] 0 False) (key_set 1 [66] 0 False) = Some True
   \<and> key_less (key_set 1 [65] 0 False) (key_set 1 [65] 0 False) = Some False"
proof -
  let ?a = "key_set 1 [65] 0 False" and ?b = "key_set 1 [66] 0 False"
  have "readable ?a" "readable ?b" by (simp_all add: readable_def key_set_def key_bytes_def)
  from key_less_lexicographic [OF this this(2)] show ?thesis
    by (simp add: key_set_def key_rank_def key_string_def cstr_def key_bytes_def)
qed

text \<open>
  Keys of different splits of one large object compare equal: \<^verbatim>\<open>Key::equal\<close> compares the
  split offset with \<^verbatim>\<open>strncmp\<close>, which stops at the first zero byte, and the offset of every
  split below 65536 starts with one. Only the hash tells such splits apart.
\<close>

theorem key_equal_ignores_split_offset:
  assumes "length key = unat sz" and "0 \<notin> set key" and "off1 < 65536" and "off2 < 65536"
  shows "key_equal (key_set sz (key @ drop 1 (be32 off1)) p1 True)
                   (key_set sz (key @ drop 1 (be32 off2)) p2 True) = Some True"
proof -
  have z: "ucast (drop_bit 16 off) = (0 :: byte)" if "off < 65536" for off :: u32
  proof -
    have "drop_bit 16 off = 0"
      using that by (simp add: drop_bit_eq_div word_less_nat_alt unat_eq_zero [symmetric] unat_div)
    then show ?thesis by simp
  qed
  let ?k = "\<lambda>off p. key_set sz (key @ drop 1 (be32 off)) p True"
  have "key_string (?k off p) = key" if "off < 65536" for off p
    using assms(1,2) z [OF that]
    by (simp add: key_string_def key_set_def key_bytes_def be32_def cstr_append_nul)
  moreover have "readable (?k off p)" for off p
    using assms(1) by (simp add: readable_def key_set_def key_bytes_def)
  ultimately show ?thesis
    using assms(3,4) by (simp add: key_equal_string) (simp add: key_set_def)
qed

theorem key_equal_ignores_split_offset_witness:
  "key_equal (key_set 1 ([65] @ drop 1 (be32 0)) 0 True)
             (key_set 1 ([65] @ drop 1 (be32 4089)) 0 True) = Some True"
  by (rule key_equal_ignores_split_offset) simp_all

end
