(* ===== verification/ProtocolBase.thy ===== *)
theory ProtocolBase
  imports KeyValue
begin

text \<open>
  The wire protocol: \<^verbatim>\<open>ProtocolUtil\<close> and the message header of
  \<^verbatim>\<open>common/protocol/protocol.hh\<close>, \<^verbatim>\<open>protocol.cc\<close>, \<^verbatim>\<open>header.hh\<close>, \<^verbatim>\<open>magic.hh\<close>,
  \<^verbatim>\<open>opcode.hh\<close>.

  A generator writes through a cursor: the send buffer, the position of the write pointer and
  the byte count the function returns; a write beyond the buffer is \<^term>\<open>None\<close>. A parser reads
  through a pointer, which is the list of bytes from the pointer to the end of the buffer; a
  \<^verbatim>\<open>char *\<close> field of a parsed header is such a list too. A parser gets the header structure
  and returns it updated with its result; \<^term>\<open>None\<close> is a read beyond the buffer. The
  receive-buffer arguments \<^verbatim>\<open>buf\<close>, \<^verbatim>\<open>size\<close> default to the protocol's own buffer.
\<close>

section \<open>Reading and writing\<close>

type_synonym cursor = "memory \<times> nat \<times> nat"

definition put :: "byte list \<Rightarrow> cursor \<Rightarrow> cursor option" where
  "put bs c = (case c of (m, p, n) \<Rightarrow>
     map_option (\<lambda>m'. (m', p + length bs, n + length bs)) (poke m p bs))"

definition pwrite :: "cursor \<Rightarrow> byte list \<Rightarrow> nat \<Rightarrow> cursor option" where
  "pwrite c src len = (if len \<le> length src then put (take len src) c else None)"

definition write1Byte :: "cursor \<Rightarrow> u8 \<Rightarrow> cursor option" where
  "write1Byte c v = put [v] c"

definition be24 :: "u32 \<Rightarrow> byte list" where
  "be24 v = drop 1 (be32 v)"

definition le16 :: "u16 \<Rightarrow> byte list" where
  "le16 v = [ucast v, ucast (drop_bit 8 v)]"

definition write2Bytes :: "cursor \<Rightarrow> u16 \<Rightarrow> bool \<Rightarrow> cursor option" where
  "write2Bytes c v toNetworkOrder = put (if toNetworkOrder then be16 v else le16 v) c"

definition write3Bytes :: "cursor \<Rightarrow> u32 \<Rightarrow> cursor option" where
  "write3Bytes c v = put (be24 v) c"

definition write4Bytes :: "cursor \<Rightarrow> u32 \<Rightarrow> bool \<Rightarrow> cursor option" where
  "write4Bytes c v toNetworkOrder = put (if toNetworkOrder then be32 v else le32 v) c"

fun read1Byte :: "byte list \<Rightarrow> (u8 \<times> byte list) option" where
  "read1Byte (a # r) = Some (a, r)"
| "read1Byte _ = None"

fun read2Bytes :: "byte list \<Rightarrow> bool \<Rightarrow> (u16 \<times> byte list) option" where
  "read2Bytes (a # b # r) toHostOrder = Some (if toHostOrder then of_be16 a b else of_be16 b a, r)"
| "read2Bytes _ _ = None"

fun read3Bytes :: "byte list \<Rightarrow> (u32 \<times> byte list) option" where
  "read3Bytes (a # b # c # r) = Some (of_be32 0 a b c, r)"
| "read3Bytes _ = None"

fun read4Bytes :: "byte list \<Rightarrow> bool \<Rightarrow> (u32 \<times> byte list) option" where
  "read4Bytes (a # b # c # d # r) toHostOrder =
     Some (if toHostOrder then of_be32 a b c d else of_be32 d c b a, r)"
| "read4Bytes _ _ = None"

section \<open>The protocol object and the message header\<close>

datatype Role = ROLE_APPLICATION | ROLE_COORDINATOR | ROLE_CLIENT | ROLE_SERVER

record Protocol =
  pr_from :: u8
  pr_to :: u8
  pr_size :: nat
  pr_send :: memory
  pr_recv :: memory

fun role_from :: "Role \<Rightarrow> u8" where
  "role_from ROLE_APPLICATION = 0x00" | "role_from ROLE_COORDINATOR = 0x08"
| "role_from ROLE_CLIENT = 0x10" | "role_from ROLE_SERVER = 0x18"

fun role_to :: "Role \<Rightarrow> u8" where
  "role_to ROLE_APPLICATION = 0x00" | "role_to ROLE_COORDINATOR = 0x20"
| "role_to ROLE_CLIENT = 0x40" | "role_to ROLE_SERVER = 0x60"

definition protocol_new :: "Role \<Rightarrow> Protocol" where
  "protocol_new role = \<lparr>pr_from = role_from role, pr_to = role_to role, pr_size = 0, pr_send = [], pr_recv = []\<rparr>"

text \<open>\<^verbatim>\<open>init\<close>: the contents of freshly allocated buffers are taken as zero.\<close>

definition protocol_init :: "Protocol \<Rightarrow> nat \<Rightarrow> Protocol" where
  "protocol_init pr sz = pr\<lparr>pr_size := sz, pr_send := replicate sz 0, pr_recv := replicate sz 0\<rparr>"

record ProtocolHeader =
  ph_magic :: u8
  ph_from :: u8
  ph_to :: u8
  ph_isLarge :: bool
  ph_opcode :: u8
  ph_length :: u32
  ph_instanceId :: u16
  ph_requestId :: u32
  ph_timestamp :: u32

definition magic_byte :: "Protocol \<Rightarrow> u8 \<Rightarrow> u8 \<Rightarrow> bool \<Rightarrow> u8" where
  "magic_byte pr magic to large =
     (magic AND 0x07) OR (pr_from pr AND 0x18) OR (to AND 0x60) OR (if large then 0x80 else 0)"

text \<open>The result keeps the cursor: buffer, position after the header, and the returned byte count.\<close>

definition generateHeader ::
  "Protocol \<Rightarrow> u8 \<Rightarrow> u8 \<Rightarrow> u8 \<Rightarrow> u32 \<Rightarrow> u16 \<Rightarrow> u32 \<Rightarrow> memory \<Rightarrow> u32 \<Rightarrow> bool \<Rightarrow> cursor option" where
  "generateHeader pr magic to opcode len instanceId requestId sendBuf requestTimestamp large =
     do { c \<leftarrow> put [magic_byte pr magic to large, opcode] (sendBuf, 0, 0);
          c \<leftarrow> write4Bytes c len True;
          c \<leftarrow> write2Bytes c instanceId True;
          c \<leftarrow> write4Bytes c requestId True;
          write4Bytes c requestTimestamp True }"

definition valid_opcodes :: "u8 list" where
  "valid_opcodes =
     [0x00, 0x70,
      0x31, 0x32, 0x33, 0x34, 0x35, 0x36, 0x37, 0x38, 0x39, 0x40, 0x41,
      0x01, 0x02, 0x03, 0x04, 0x05, 0x06, 0x07, 0x08, 0x09,
      0x10, 0x11, 0x12, 0x13, 0x14, 0x20,
      0x51, 0x52, 0x53, 0x54, 0x55, 0x56, 0x57, 0x58, 0x59, 0x60, 0x61, 0x62, 0x63, 0x64]"

definition send_arg :: "Protocol \<Rightarrow> memory option \<Rightarrow> memory" where
  "send_arg pr sendBuf = (case sendBuf of None \<Rightarrow> pr_send pr | Some b \<Rightarrow> b)"

definition recv_args :: "Protocol \<Rightarrow> memory option \<Rightarrow> nat \<Rightarrow> memory \<times> nat" where
  "recv_args pr buf sz =
     (case buf of None \<Rightarrow> (pr_recv pr, pr_size pr)
      | Some b \<Rightarrow> if sz = 0 then (pr_recv pr, pr_size pr) else (b, sz))"

definition parseHeader ::
  "Protocol \<Rightarrow> ProtocolHeader \<Rightarrow> memory option \<Rightarrow> nat \<Rightarrow> (bool \<times> ProtocolHeader) option" where
  "parseHeader pr h buf sz =
     (let (buf, sz) = recv_args pr buf sz in
      if sz < 16 then Some (False, h)
      else do { (b0, r) \<leftarrow> read1Byte buf;
                (opcode, r) \<leftarrow> read1Byte r;
                (len, r) \<leftarrow> read4Bytes r True;
                (instanceId, r) \<leftarrow> read2Bytes r True;
                (requestId, r) \<leftarrow> read4Bytes r True;
                (timestamp, r) \<leftarrow> read4Bytes r True;
                let h = h\<lparr>ph_magic := b0 AND 0x07, ph_from := b0 AND 0x18, ph_to := b0 AND 0x60,
                          ph_isLarge := (b0 AND 0x80 \<noteq> 0), ph_opcode := opcode, ph_length := len,
                          ph_instanceId := instanceId, ph_requestId := requestId, ph_timestamp := timestamp\<rparr>;
                Some (ph_magic h \<le> 7 \<and> ph_from h \<in> {0x00, 0x08, 0x10, 0x18}
                      \<and> ph_to h = pr_to pr \<and> ph_opcode h \<in> set valid_opcodes, h) })"

definition getSuggestedBufferSize :: "u32 \<Rightarrow> u32 \<Rightarrow> bool \<Rightarrow> nat" where
  "getSuggestedBufferSize keySize chunkSize supportLargeObject =
     (let ret = unat (16 + 4 + keySize + (if supportLargeObject then 16777216 else chunkSize));
          ret = (if ret mod 4096 \<noteq> 0 then (ret div 4096 + 1) * 4096 else ret);
          ret = 2 * ret
      in if ret < 65536 then 65536 else ret)"

section \<open>Messages as byte strings\<close>

text \<open>Lemmas in \<open>enc_simps\<close> turn a chain of writes into one \<^const>\<open>put\<close> and evaluate the reads.\<close>

named_theorems write_simps \<open>chains of cursor writes as one put\<close>
named_theorems read_simps \<open>evaluation of reads on encoded bytes\<close>

lemma put_put [write_simps]: "put as c \<bind> put bs = put (as @ bs) c"
  by (cases c) (auto simp: put_def poke_def Option.bind_def add.commute add.left_commute)

lemma put_put_bind [write_simps]: "put as c \<bind> (\<lambda>c'. put bs c' \<bind> f) = put (as @ bs) c \<bind> f"
  by (simp add: put_put [symmetric] bind_assoc)

lemma put_put_eta [write_simps]: "put as c \<bind> (\<lambda>c'. put bs c') = put (as @ bs) c"
  by (rule put_put)

lemmas write_defs [write_simps] =
  write1Byte_def write2Bytes_def write3Bytes_def write4Bytes_def if_True if_False

lemma pwrite_ok: "len \<le> length src \<Longrightarrow> pwrite c src len = put (take len src) c"
  by (simp add: pwrite_def)

lemma length_be24 [simp]: "length (be24 v) = 3"
  by (simp add: be24_def)

lemma length_le16 [simp]: "length (le16 v) = 2"
  by (simp add: le16_def)

lemma read1Byte_Cons [read_simps]: "read1Byte (a # r) = Some (a, r)"
  by simp

lemma read2Bytes_be16 [read_simps]: "read2Bytes (be16 v @ r) True = Some (v, r)"
  by (simp add: be16_def)

lemma read2Bytes_le16 [read_simps]: "read2Bytes (le16 v @ r) False = Some (v, r)"
  by (simp add: le16_def)

lemma read3Bytes_be24 [read_simps]: "v < 2 ^ 24 \<Longrightarrow> read3Bytes (be24 v @ r) = Some (v, r)"
  by (simp add: be24_def be32_def of_be32_24 take_bit_24_id)

lemma read4Bytes_be32 [read_simps]: "read4Bytes (be32 v @ r) True = Some (v, r)"
  by (simp add: be32_def)

lemma read4Bytes_le32 [read_simps]: "read4Bytes (le32 v @ r) False = Some (v, r)"
  by (simp add: le32_def)

lemma drop_size:
  assumes "drop off buf = xs" and "xs \<noteq> []"
  shows "size_sub (length buf) off = length xs" and "buf \<noteq> []"
proof -
  have "\<not> length buf \<le> off" using assms by (metis drop_all)
  then show "size_sub (length buf) off = length xs" "buf \<noteq> []" using assms(1) by auto
qed

definition header_image :: "Protocol \<Rightarrow> u8 \<Rightarrow> u8 \<Rightarrow> u8 \<Rightarrow> u32 \<Rightarrow> u16 \<Rightarrow> u32 \<Rightarrow> u32 \<Rightarrow> bool \<Rightarrow> byte list" where
  "header_image pr magic to opcode len instanceId requestId ts large =
     [magic_byte pr magic to large, opcode] @ be32 len @ be16 instanceId @ be32 requestId @ be32 ts"

lemma length_header_image [simp]: "length (header_image pr magic to opcode len instanceId requestId ts large) = 16"
  by (simp add: header_image_def)

lemma generateHeader_put [write_simps]:
  "generateHeader pr magic to opcode len instanceId requestId sb ts large =
     put (header_image pr magic to opcode len instanceId requestId ts large) (sb, 0, 0)"
  by (simp add: generateHeader_def write_simps header_image_def)

lemma put_start:
  "put bs (sb, 0, 0) = (if length bs \<le> length sb then Some (bs @ drop (length bs) sb, length bs, length bs) else None)"
  by (simp add: put_def poke_def)

lemma put_at: "put bs (sb, p, n) =
   (if p + length bs \<le> length sb then Some (take p sb @ bs @ drop (p + length bs) sb, p + length bs, n + length bs) else None)"
  by (simp add: put_def poke_def)

lemma magic_byte_parts:
  "magic_byte pr magic to large AND 0x07 = magic AND 0x07"
  "magic_byte pr magic to large AND 0x18 = pr_from pr AND 0x18"
  "magic_byte pr magic to large AND 0x60 = to AND 0x60"
  "(magic_byte pr magic to large AND 0x80 \<noteq> 0) = large"
proof -
  have m: "(7 :: u8) AND 0x18 = 0" "(7 :: u8) AND 0x60 = 0" "(7 :: u8) AND 0x80 = 0"
    "(0x18 :: u8) AND 0x60 = 0" "(0x18 :: u8) AND 0x80 = 0" "(0x60 :: u8) AND 0x80 = 0"
    "(0x18 :: u8) AND 7 = 0" "(0x60 :: u8) AND 7 = 0" "(0x80 :: u8) AND 7 = 0"
    "(0x60 :: u8) AND 0x18 = 0" "(0x80 :: u8) AND 0x18 = 0" "(0x80 :: u8) AND 0x60 = 0"
    by simp_all
  show "magic_byte pr magic to large AND 0x07 = magic AND 0x07"
    "magic_byte pr magic to large AND 0x18 = pr_from pr AND 0x18"
    "magic_byte pr magic to large AND 0x60 = to AND 0x60"
    "(magic_byte pr magic to large AND 0x80 \<noteq> 0) = large"
    by (simp_all add: magic_byte_def bit.conj_disj_distrib2 and.assoc m)
qed

lemma from_bits: "x AND 0x18 \<in> {0, 0x08, 0x10, 0x18 :: u8}"
proof -
  have "x AND 0x18 = (if bit x 3 then 0x08 else 0) OR (if bit x 4 then 0x10 else 0)"
  proof (rule bit_word_eqI)
    fix n assume "n < LENGTH(8)"
    then consider "n = 0" | "n = 1" | "n = 2" | "n = 3" | "n = 4" | "n = 5" | "n = 6" | "n = 7" by fastforce
    then show "bit (x AND 0x18) n = bit ((if bit x 3 then 0x08 else 0) OR (if bit x 4 then 0x10 else 0) :: u8) n"
      by cases (simp_all add: bit_simps)
  qed
  then show ?thesis by auto
qed

end
