(* ===== verification/Xor.thy ===== *)
theory Xor
  imports Prelude
begin

text \<open>
  The XOR kernel of \<^verbatim>\<open>common/coding/coding.cc\<close>: it processes 64-bit words and finishes
  byte by byte. A \<^verbatim>\<open>char *\<close> is a buffer with a position. The destination is either a
  buffer of its own, or the first source itself (\<^verbatim>\<open>bitwiseXOR( p, p, q, len )\<close>); the second
  case reads the words that the call has not written yet, and both cases are modelled.
\<close>

text \<open>A 64-bit load and store on a little-endian machine.\<close>

fun le_of :: "byte list \<Rightarrow> u64" where
  "le_of [] = 0"
| "le_of (b # bs) = ucast b OR push_bit 8 (le_of bs)"

fun le_bytes :: "nat \<Rightarrow> u64 \<Rightarrow> byte list" where
  "le_bytes 0 w = []"
| "le_bytes (Suc n) w = ucast w # le_bytes n (drop_bit 8 w)"

fun xor64_loop ::
  "memory \<Rightarrow> nat \<Rightarrow> memory \<Rightarrow> nat \<Rightarrow> memory \<Rightarrow> nat \<Rightarrow> nat \<Rightarrow> nat \<Rightarrow> memory option" where
  "xor64_loop dst d srcA a srcB b i 0 = Some dst"
| "xor64_loop dst d srcA a srcB b i (Suc n) =
     do { x \<leftarrow> peek srcA (a + 8 * i) 8;
          y \<leftarrow> peek srcB (b + 8 * i) 8;
          dst \<leftarrow> poke dst (d + 8 * i) (le_bytes 8 (le_of x XOR le_of y));
          xor64_loop dst d srcA a srcB b (Suc i) n }"

fun xor8_loop ::
  "memory \<Rightarrow> nat \<Rightarrow> memory \<Rightarrow> nat \<Rightarrow> memory \<Rightarrow> nat \<Rightarrow> nat \<Rightarrow> nat \<Rightarrow> memory option" where
  "xor8_loop dst d srcA a srcB b i 0 = Some dst"
| "xor8_loop dst d srcA a srcB b i (Suc n) =
     do { x \<leftarrow> load_byte srcA (a + i);
          y \<leftarrow> load_byte srcB (b + i);
          dst \<leftarrow> poke dst (d + i) [x XOR y];
          xor8_loop dst d srcA a srcB b (Suc i) n }"

definition bitwiseXOR ::
  "memory \<Rightarrow> nat \<Rightarrow> memory \<Rightarrow> nat \<Rightarrow> memory \<Rightarrow> nat \<Rightarrow> u32 \<Rightarrow> memory option" where
  "bitwiseXOR dst d srcA a srcB b len =
     do { let xor64Count = unat len div 8;
          dst \<leftarrow> xor64_loop dst d srcA a srcB b 0 xor64Count;
          xor8_loop dst d srcA a srcB b (xor64Count * 8) (unat len - xor64Count * 8) }"

text \<open>The in-place call, \<^verbatim>\<open>dst == srcA\<close>: every load of the first operand sees the earlier stores.\<close>

fun xor64_self_loop :: "memory \<Rightarrow> nat \<Rightarrow> memory \<Rightarrow> nat \<Rightarrow> nat \<Rightarrow> nat \<Rightarrow> memory option" where
  "xor64_self_loop dst d srcB b i 0 = Some dst"
| "xor64_self_loop dst d srcB b i (Suc n) =
     do { x \<leftarrow> peek dst (d + 8 * i) 8;
          y \<leftarrow> peek srcB (b + 8 * i) 8;
          dst \<leftarrow> poke dst (d + 8 * i) (le_bytes 8 (le_of x XOR le_of y));
          xor64_self_loop dst d srcB b (Suc i) n }"

fun xor8_self_loop :: "memory \<Rightarrow> nat \<Rightarrow> memory \<Rightarrow> nat \<Rightarrow> nat \<Rightarrow> nat \<Rightarrow> memory option" where
  "xor8_self_loop dst d srcB b i 0 = Some dst"
| "xor8_self_loop dst d srcB b i (Suc n) =
     do { x \<leftarrow> load_byte dst (d + i);
          y \<leftarrow> load_byte srcB (b + i);
          dst \<leftarrow> poke dst (d + i) [x XOR y];
          xor8_self_loop dst d srcB b (Suc i) n }"

definition bitwiseXOR_self :: "memory \<Rightarrow> nat \<Rightarrow> memory \<Rightarrow> nat \<Rightarrow> u32 \<Rightarrow> memory option" where
  "bitwiseXOR_self dst d srcB b len =
     do { let xor64Count = unat len div 8;
          dst \<leftarrow> xor64_self_loop dst d srcB b 0 xor64Count;
          xor8_self_loop dst d srcB b (xor64Count * 8) (unat len - xor64Count * 8) }"

section \<open>Lemmas\<close>

text \<open>The reference definition: XOR of two byte strings.\<close>

abbreviation xor_bytes :: "byte list \<Rightarrow> byte list \<Rightarrow> byte list" where
  "xor_bytes \<equiv> map2 (\<lambda>x y. x XOR y)"

lemma xor_bytes_commute: "xor_bytes as bs = xor_bytes bs as"
proof (induction as arbitrary: bs)
  case (Cons a as)
  then show ?case by (cases bs) (simp_all add: xor.commute)
qed simp

lemma xor_bytes_assoc: "xor_bytes (xor_bytes as bs) cs = xor_bytes as (xor_bytes bs cs)"
proof (induction as arbitrary: bs cs)
  case (Cons a as)
  show ?case
  proof (cases bs)
    case bs: (Cons b bs')
    then show ?thesis using Cons.IH by (cases cs) (simp_all add: xor.assoc)
  qed simp
qed simp

lemma xor_bytes_zeros: "length as = n \<Longrightarrow> xor_bytes as (replicate n 0) = as"
  by (induction as arbitrary: n) auto

lemma xor_bytes_self: "xor_bytes as as = replicate (length as) 0"
  by (induction as) auto

lemma xor_bytes_cancel: "length as = length bs \<Longrightarrow> xor_bytes as (xor_bytes as bs) = bs"
  by (simp add: xor_bytes_assoc [symmetric] xor_bytes_self xor_bytes_commute [of "replicate _ _"] xor_bytes_zeros)

lemma xor_bytes_append:
  "length as = length cs \<Longrightarrow> xor_bytes (as @ bs) (cs @ ds) = xor_bytes as cs @ xor_bytes bs ds"
  by simp

lemma length_le_bytes [simp]: "length (le_bytes n w) = n"
  by (induction n arbitrary: w) auto

lemma le_of_bound: "bit (le_of bs) i \<Longrightarrow> i < 8 * length bs"
proof (induction bs arbitrary: i)
  case (Cons b bs)
  then show ?case
    using bit_imp_le_length [of b i] by (auto simp: bit_simps dest!: Cons.IH [of "i - 8"])
qed simp

lemma low_byte_word: "ucast (ucast b OR push_bit 8 w :: u64) = (b :: byte)"
  by (rule bit_word_eqI) (auto simp: bit_simps)

lemma drop_low_byte:
  assumes "\<And>i. bit w i \<Longrightarrow> i < 56"
  shows "drop_bit 8 (ucast (b :: byte) OR push_bit 8 w) = (w :: u64)"
proof (rule bit_word_eqI)
  fix n assume "n < LENGTH(64)"
  show "bit (drop_bit 8 (ucast b OR push_bit 8 w)) n = bit w n"
    using assms [of n] bit_imp_le_length [of b "8 + n"] by (auto simp: bit_simps)
qed

lemma le_bytes_xor:
  "length as = n \<Longrightarrow> length bs = n \<Longrightarrow> n \<le> 8 \<Longrightarrow>
     le_bytes n (le_of as XOR le_of bs) = xor_bytes as bs"
proof (induction n arbitrary: as bs)
  case (Suc n)
  obtain x xs where as: "as = x # xs" using Suc.prems by (cases as) auto
  obtain y ys where bs: "bs = y # ys" using Suc.prems by (cases bs) auto
  let ?w = "le_of xs XOR le_of ys"
  have w: "le_of as XOR le_of bs = ucast (x XOR y) OR push_bit 8 ?w"
    unfolding as bs le_of.simps
    by (rule bit_word_eqI) (auto simp: bit_simps dest: bit_imp_le_length)
  have "i < 56" if "bit ?w i" for i
    using that le_of_bound [of xs i] le_of_bound [of ys i] Suc.prems as bs by (auto simp: bit_simps)
  then have "le_bytes (Suc n) (le_of as XOR le_of bs) = (x XOR y) # le_bytes n ?w"
    unfolding w le_bytes.simps by (simp only: low_byte_word drop_low_byte)
  with Suc.IH [of xs ys] Suc.prems as bs show ?case by simp
qed simp

lemma poke_nil [simp]: "i \<le> length m \<Longrightarrow> poke m i [] = Some m"
  by (simp add: poke_def)

lemma xor64_loop_poke:
  "a + 8 * (i + n) \<le> length srcA \<Longrightarrow> b + 8 * (i + n) \<le> length srcB \<Longrightarrow> d + 8 * (i + n) \<le> length dst \<Longrightarrow>
   xor64_loop dst d srcA a srcB b i n =
     poke dst (d + 8 * i) (xor_bytes (seg (a + 8 * i) (8 * n) srcA) (seg (b + 8 * i) (8 * n) srcB))"
proof (induction n arbitrary: dst i)
  case (Suc n)
  let ?x = "seg (a + 8 * i) 8 srcA" and ?y = "seg (b + 8 * i) 8 srcB"
  have len: "length ?x = 8" "length ?y = 8" using Suc.prems by auto
  obtain dst1 where d1: "poke dst (d + 8 * i) (xor_bytes ?x ?y) = Some dst1"
    using Suc.prems len by (simp add: poke_def)
  have "xor64_loop dst d srcA a srcB b i (Suc n) = xor64_loop dst1 d srcA a srcB b (Suc i) n"
    using Suc.prems len d1 by (simp add: peek_def le_bytes_xor del: le_bytes.simps le_of.simps)
  also have "\<dots> = poke dst1 (d + 8 * i + length (xor_bytes ?x ?y))
      (xor_bytes (seg (a + 8 * i + 8) (8 * n) srcA) (seg (b + 8 * i + 8) (8 * n) srcB))"
    using Suc.prems Suc.IH [of "Suc i" dst1] length_poke [OF d1] len by (simp add: algebra_simps)
  also have "\<dots> = poke dst (d + 8 * i) (xor_bytes ?x ?y @
      xor_bytes (seg (a + 8 * i + 8) (8 * n) srcA) (seg (b + 8 * i + 8) (8 * n) srcB))"
    using d1 by (subst poke_poke_adjacent [symmetric]) simp
  also have "\<dots> = poke dst (d + 8 * i)
      (xor_bytes (seg (a + 8 * i) (8 * Suc n) srcA) (seg (b + 8 * i) (8 * Suc n) srcB))"
    using len by (simp add: seg_split xor_bytes_append)
  finally show ?case .
qed simp

lemma xor8_loop_poke:
  "a + (i + n) \<le> length srcA \<Longrightarrow> b + (i + n) \<le> length srcB \<Longrightarrow> d + (i + n) \<le> length dst \<Longrightarrow>
   xor8_loop dst d srcA a srcB b i n =
     poke dst (d + i) (xor_bytes (seg (a + i) n srcA) (seg (b + i) n srcB))"
proof (induction n arbitrary: dst i)
  case (Suc n)
  let ?x = "srcA ! (a + i)" and ?y = "srcB ! (b + i)"
  obtain dst1 where d1: "poke dst (d + i) [?x XOR ?y] = Some dst1"
    using Suc.prems by (simp add: poke_def)
  have "xor8_loop dst d srcA a srcB b i (Suc n) = xor8_loop dst1 d srcA a srcB b (Suc i) n"
    using Suc.prems d1 by (simp add: load_byte_def)
  also have "\<dots> = poke dst1 (d + i + length [?x XOR ?y])
      (xor_bytes (seg (Suc (a + i)) n srcA) (seg (Suc (b + i)) n srcB))"
    using Suc.prems Suc.IH [of "Suc i" dst1] length_poke [OF d1] by simp
  also have "\<dots> = poke dst (d + i) ([?x XOR ?y] @ xor_bytes (seg (Suc (a + i)) n srcA) (seg (Suc (b + i)) n srcB))"
    using d1 by (subst poke_poke_adjacent [symmetric]) simp
  also have "\<dots> = poke dst (d + i) (xor_bytes (seg (a + i) (Suc n) srcA) (seg (b + i) (Suc n) srcB))"
    using Suc.prems by (simp add: seg_Suc)
  finally show ?case .
qed simp

lemma bitwiseXOR_poke:
  assumes "d + unat len \<le> length dst" and "a + unat len \<le> length srcA" and "b + unat len \<le> length srcB"
  shows "bitwiseXOR dst d srcA a srcB b len =
    poke dst d (xor_bytes (seg a (unat len) srcA) (seg b (unat len) srcB))"
proof -
  define c r where cr: "c = unat len div 8" "r = unat len - c * 8"
  have l: "unat len = 8 * c + r" "c * 8 = 8 * c" unfolding cr by simp_all
  let ?p = "xor_bytes (seg a (8 * c) srcA) (seg b (8 * c) srcB)"
  have lp: "length ?p = 8 * c" using assms l by simp
  obtain dst1 where d1: "poke dst d ?p = Some dst1" using assms l lp by (simp add: poke_def)
  have "bitwiseXOR dst d srcA a srcB b len = xor8_loop dst1 d srcA a srcB b (8 * c) r"
    using xor64_loop_poke [of a 0 c srcA b srcB d dst] assms l d1
    unfolding bitwiseXOR_def Let_def cr(1) [symmetric] l(2) [symmetric] cr(2) [symmetric]
    by (simp add: mult.commute)
  also have "\<dots> = poke dst1 (d + length ?p) (xor_bytes (seg (a + 8 * c) r srcA) (seg (b + 8 * c) r srcB))"
    using assms l lp length_poke [OF d1] by (simp add: xor8_loop_poke)
  also have "\<dots> = poke dst d (?p @ xor_bytes (seg (a + 8 * c) r srcA) (seg (b + 8 * c) r srcB))"
    using d1 by (subst poke_poke_adjacent [symmetric]) simp
  also have "\<dots> = poke dst d (xor_bytes (seg a (unat len) srcA) (seg b (unat len) srcB))"
    using lp assms unfolding l by (simp add: seg_split)
  finally show ?thesis .
qed

lemma xor64_self_loop_eq:
  "d + 8 * (i + n) \<le> length dst \<Longrightarrow> length dst0 = length dst \<Longrightarrow>
   (\<forall>j \<ge> i. peek dst (d + 8 * j) 8 = peek dst0 (d + 8 * j) 8) \<Longrightarrow>
   xor64_self_loop dst d srcB b i n = xor64_loop dst d dst0 d srcB b i n"
proof (induction n arbitrary: dst i)
  case (Suc n)
  have IH: "xor64_self_loop dst1 d srcB b (Suc i) n = xor64_loop dst1 d dst0 d srcB b (Suc i) n"
    if w: "poke dst (d + 8 * i) v = Some dst1" and v: "length v = 8" for dst1 v
    using Suc.prems length_poke [OF w] peek_poke_other [OF w] v
    by (intro Suc.IH) (auto simp: algebra_simps)
  have "peek dst (d + 8 * i) 8 = peek dst0 (d + 8 * i) 8" using Suc.prems(3) by blast
  then show ?case
    by (auto simp: IH simp del: le_bytes.simps split: Option.bind_split)
qed simp

lemma xor8_self_loop_eq:
  "length dst0 = length dst \<Longrightarrow> (\<forall>j \<ge> i. load_byte dst (d + j) = load_byte dst0 (d + j)) \<Longrightarrow>
   xor8_self_loop dst d srcB b i n = xor8_loop dst d dst0 d srcB b i n"
proof (induction n arbitrary: dst i)
  case (Suc n)
  have IH: "xor8_self_loop dst1 d srcB b (Suc i) n = xor8_loop dst1 d dst0 d srcB b (Suc i) n"
    if w: "poke dst (d + i) [v] = Some dst1" for dst1 v
  proof (rule Suc.IH)
    show "length dst0 = length dst1" using Suc.prems(1) length_poke [OF w] by simp
    have "load_byte dst1 (d + j) = load_byte dst (d + j)" if "Suc i \<le> j" for j
      using w that by (auto simp: load_byte_def poke_Some_iff nth_append)
    with Suc.prems(2) show "\<forall>j \<ge> Suc i. load_byte dst1 (d + j) = load_byte dst0 (d + j)" by simp
  qed
  have "load_byte dst (d + i) = load_byte dst0 (d + i)" using Suc.prems(2) by blast
  then show ?case by (auto simp: IH split: Option.bind_split)
qed simp

lemma bitwiseXOR_self_eq:
  assumes "d + unat len \<le> length dst" and "b + unat len \<le> length srcB"
  shows "bitwiseXOR_self dst d srcB b len = bitwiseXOR dst d dst d srcB b len"
proof -
  define c where c: "c = unat len div 8"
  have r: "d + 8 * (0 + c) \<le> length dst" "b + 8 * (0 + c) \<le> length srcB"
    using assms unfolding c by (simp_all add: algebra_simps)
  obtain dst1 where d1: "xor64_loop dst d dst d srcB b 0 c = Some dst1"
    using xor64_loop_poke [OF r(1) r(2) r(1)] r by (simp add: poke_def)
  then have w: "poke dst d (xor_bytes (seg d (8 * c) dst) (seg b (8 * c) srcB)) = Some dst1"
    using xor64_loop_poke [OF r(1) r(2) r(1)] by simp
  have "load_byte dst1 (d + j) = load_byte dst (d + j)" if "c * 8 \<le> j" for j
    using w that r by (auto simp: load_byte_def poke_Some_iff nth_append)
  then have "xor8_self_loop dst1 d srcB b (c * 8) n = xor8_loop dst1 d dst d srcB b (c * 8) n" for n
    using length_poke [OF w] by (intro xor8_self_loop_eq) auto
  with d1 xor64_self_loop_eq [OF r(1), of dst srcB b] show ?thesis
    by (simp add: bitwiseXOR_self_def bitwiseXOR_def Let_def c [symmetric])
qed

lemma bitwiseXOR_self_poke:
  "d + unat len \<le> length dst \<Longrightarrow> b + unat len \<le> length srcB \<Longrightarrow>
   bitwiseXOR_self dst d srcB b len = poke dst d (xor_bytes (seg d (unat len) dst) (seg b (unat len) srcB))"
  by (simp add: bitwiseXOR_self_eq bitwiseXOR_poke)

lemma xor64_self_local:
  "xor64_self_loop dst d srcB b i n = Some m \<Longrightarrow> q + j \<le> d \<or> d + 8 * (i + n) \<le> q \<Longrightarrow> peek m q j = peek dst q j"
proof (induction n arbitrary: dst i)
  case (Suc n)
  then obtain dst1 v where w: "poke dst (d + 8 * i) v = Some dst1" "length v = 8"
    and r: "xor64_self_loop dst1 d srcB b (Suc i) n = Some m"
    by (auto simp: bind_eq_Some_conv simp del: le_bytes.simps)
  have "peek m q j = peek dst1 q j" using Suc.prems(2) by (intro Suc.IH [OF r]) auto
  with peek_poke_other [OF w(1), of q j] w(2) Suc.prems(2) show ?case by auto
qed simp

lemma xor8_self_local:
  "xor8_self_loop dst d srcB b i n = Some m \<Longrightarrow> q + j \<le> d \<or> d + (i + n) \<le> q \<Longrightarrow> peek m q j = peek dst q j"
proof (induction n arbitrary: dst i)
  case (Suc n)
  then obtain dst1 v where w: "poke dst (d + i) [v] = Some dst1"
    and r: "xor8_self_loop dst1 d srcB b (Suc i) n = Some m"
    by (auto simp: bind_eq_Some_conv)
  have "peek m q j = peek dst1 q j" using Suc.prems(2) by (intro Suc.IH [OF r]) auto
  with peek_poke_other [OF w, of q j] Suc.prems(2) show ?case by auto
qed simp

lemma xor_self_local:
  assumes "bitwiseXOR_self dst d srcB b len = Some m" and "q + j \<le> d \<or> d + unat len \<le> q"
  shows "peek m q j = peek dst q j"
proof -
  define c where c: "c = unat len div 8"
  obtain m1 where m1: "xor64_self_loop dst d srcB b 0 c = Some m1"
    "xor8_self_loop m1 d srcB b (c * 8) (unat len - c * 8) = Some m"
    using assms(1) by (auto simp: bitwiseXOR_self_def Let_def c bind_eq_Some_conv)
  have "c * 8 \<le> unat len" unfolding c by simp
  then show ?thesis
    using xor64_self_local [OF m1(1), of q j] xor8_self_local [OF m1(2), of q j] assms(2) by auto
qed

section \<open>Properties\<close>

text \<open>
  The word-at-a-time \<^verbatim>\<open>bitwiseXOR\<close> writes the byte-wise XOR of its two operands to the
  destination and nothing else, for every length and alignment, also when the destination is the
  first operand; applying it twice with the same second operand restores the destination.
\<close>

theorem bitwiseXOR_correct:
  assumes "d + unat len \<le> length dst" and "b + unat len \<le> length srcB" and "a + unat len \<le> length srcA"
  shows "bitwiseXOR dst d srcA a srcB b len =
      Some (take d dst @ map2 (\<lambda>x y. x XOR y) (seg a (unat len) srcA) (seg b (unat len) srcB)
            @ drop (d + unat len) dst)
    \<and> bitwiseXOR_self dst d srcB b len = bitwiseXOR dst d dst d srcB b len
    \<and> bitwiseXOR_self dst d srcB b len \<bind> (\<lambda>m. bitwiseXOR_self m d srcB b len) = Some dst"
proof -
  let ?n = "unat len" and ?s = "seg b (unat len) srcB"
  have s: "length ?s = ?n" using assms by simp
  have x: "length (xor_bytes (seg d ?n dst) ?s) = ?n" using assms s by simp
  obtain m where m: "bitwiseXOR_self dst d srcB b len = Some m"
    "poke dst d (xor_bytes (seg d ?n dst) ?s) = Some m"
    using assms x by (simp add: bitwiseXOR_self_poke poke_def)
  have sm: "seg d ?n m = xor_bytes (seg d ?n dst) ?s"
    using peek_poke_same [OF m(2)] x by (simp add: peek_def split: if_splits)
  have "bitwiseXOR_self m d srcB b len = poke m d (xor_bytes (xor_bytes (seg d ?n dst) ?s) ?s)"
    using assms length_poke [OF m(2)] by (simp add: bitwiseXOR_self_poke sm)
  also have "\<dots> = poke m d (seg d ?n dst)"
    using assms s by (simp add: xor_bytes_assoc xor_bytes_self xor_bytes_zeros)
  also have "\<dots> = Some dst"
    using m(2) assms x by (auto simp: poke_def seg_def)
      (metis append.assoc append_take_drop_id take_add)
  finally show ?thesis using assms m(1) s
    by (simp add: bitwiseXOR_poke bitwiseXOR_self_eq poke_def)
qed

theorem bitwiseXOR_correct_witness:
  "bitwiseXOR [0, 0, 0, 9] 1 [3, 3, 3, 3] 2 [5, 6] 0 2 = Some [0, 6, 5, 9]"
  using bitwiseXOR_correct [of 1 2 "[0, 0, 0, 9]" 0 "[5, 6]" 2 "[3, 3, 3, 3]"]
  by (simp add: seg_def)

end
