(* ===== verification/Chunk.thy ===== *)
theory Chunk
  imports KeyValue Xor
begin

text \<open>
  Chunks: \<^verbatim>\<open>common/ds/metadata.hh\<close>, \<^verbatim>\<open>common/ds/chunk.hh\<close>,
  \<^verbatim>\<open>common/ds/chunk_util.hh\<close>, \<^verbatim>\<open>common/ds/chunk_pool.cc\<close>. A chunk is an eight-byte
  identifier (list id, 48-bit stripe id, chunk id) followed by \<open>cs\<close> bytes of objects (data
  chunk) or of code (parity chunk). A \<^verbatim>\<open>Chunk *\<close> is a memory and the position of the
  identifier in it. \<open>cs\<close> and \<open>k\<close> are the statics \<^verbatim>\<open>ChunkUtil::chunkSize\<close> and
  \<^verbatim>\<open>ChunkUtil::dataChunkCount\<close>; \<^verbatim>\<open>LargeObjectUtil::chunkSize\<close> has the same value as the
  former. \<^verbatim>\<open>Coding::zeros\<close> is recognised by its address in \<^verbatim>\<open>getSize\<close>: the argument
  \<open>isZeros\<close> says whether the chunk is that one.
\<close>

abbreviation (input) CHUNK_IDENTIFIER_SIZE :: nat where "CHUNK_IDENTIFIER_SIZE \<equiv> 8"

section \<open>Metadata\<close>

record Metadata =
  md_listId :: u32
  md_stripeId :: u32
  md_chunkId :: u32

definition md_clear :: "Metadata \<Rightarrow> Metadata" where
  "md_clear md = md\<lparr>md_listId := 0, md_stripeId := 0, md_chunkId := 0\<rparr>"

definition md_set :: "u32 \<Rightarrow> u32 \<Rightarrow> u32 \<Rightarrow> Metadata" where
  "md_set l s c = \<lparr>md_listId = l, md_stripeId = s, md_chunkId = c\<rparr>"

definition md_less :: "Metadata \<Rightarrow> Metadata \<Rightarrow> bool" where
  "md_less a b =
     (if md_listId a < md_listId b then True
      else if md_listId a > md_listId b then False
      else if md_stripeId a < md_stripeId b then True
      else if md_stripeId a > md_stripeId b then False
      else md_chunkId a < md_chunkId b)"

definition md_equal :: "Metadata \<Rightarrow> Metadata \<Rightarrow> bool" where
  "md_equal a b \<longleftrightarrow> md_listId a = md_listId b \<and> md_stripeId a = md_stripeId b \<and> md_chunkId a = md_chunkId b"

text \<open>The hash packs the stripe id and the low 16 bits of the two other ids (little endian).\<close>

definition md_hash :: "Metadata \<Rightarrow> u64" where
  "md_hash md = le_of (le32 (md_stripeId md) @ take 2 (le32 (md_listId md)) @ take 2 (le32 (md_chunkId md)))"

record KeyMetadata = Metadata +
  km_offset :: u32
  km_length :: u32
  km_isParityRemapped :: bool
  km_obj :: "nat option"

record OpMetadata = Metadata +
  om_opcode :: u8
  om_timestamp :: u32

section \<open>Chunk identifier\<close>

definition of_le32 :: "byte list \<Rightarrow> u32" where
  "of_le32 bs = ucast (le_of bs)"

definition cu_getListId :: "memory \<Rightarrow> nat \<Rightarrow> u32 option" where
  "cu_getListId m p = map_option ucast (load_byte m p)"

text \<open>The 48-bit field is converted to \<^verbatim>\<open>uint32_t\<close>.\<close>

definition cu_getStripeId :: "memory \<Rightarrow> nat \<Rightarrow> u32 option" where
  "cu_getStripeId m p = map_option of_le32 (peek m (p + 1) 6)"

definition cu_getChunkId :: "memory \<Rightarrow> nat \<Rightarrow> u32 option" where
  "cu_getChunkId m p = map_option ucast (load_byte m (p + 7))"

definition cu_getMetadata :: "memory \<Rightarrow> nat \<Rightarrow> Metadata option" where
  "cu_getMetadata m p =
     do { l \<leftarrow> cu_getListId m p; s \<leftarrow> cu_getStripeId m p; c \<leftarrow> cu_getChunkId m p; Some (md_set l s c) }"

definition cu_setListId :: "memory \<Rightarrow> nat \<Rightarrow> u32 \<Rightarrow> memory option" where
  "cu_setListId m p l = poke m p [ucast l]"

definition cu_setStripeId :: "memory \<Rightarrow> nat \<Rightarrow> u32 \<Rightarrow> memory option" where
  "cu_setStripeId m p s = poke m (p + 1) (le32 s @ [0, 0])"

definition cu_setChunkId :: "memory \<Rightarrow> nat \<Rightarrow> u32 \<Rightarrow> memory option" where
  "cu_setChunkId m p c = poke m (p + 7) [ucast c]"

definition cu_set :: "memory \<Rightarrow> nat \<Rightarrow> u32 \<Rightarrow> u32 \<Rightarrow> u32 \<Rightarrow> memory option" where
  "cu_set m p l s c = do { m \<leftarrow> cu_setListId m p l; m \<leftarrow> cu_setStripeId m p s; cu_setChunkId m p c }"

definition cu_isParity :: "u32 \<Rightarrow> memory \<Rightarrow> nat \<Rightarrow> bool option" where
  "cu_isParity k m p = map_option (\<lambda>c. c \<ge> k) (cu_getChunkId m p)"

definition cu_getData :: "nat \<Rightarrow> nat" where
  "cu_getData p = p + CHUNK_IDENTIFIER_SIZE"

section \<open>Scanning the objects of a chunk\<close>

text \<open>
  The size of an object is computed in 32-bit arithmetic. A corrupted object can have size 0,
  and then the scan loops of the code stay at the same position for ever: \<^term>\<open>None\<close>.
\<close>

lemma scan_progress: "off + 4 < c \<Longrightarrow> w \<noteq> 0 \<Longrightarrow> c - (off + unat (w :: u32)) < c - off"
  using unat_gt_0 [of w] by linarith

function getSize_loop :: "u32 \<Rightarrow> memory \<Rightarrow> nat \<Rightarrow> nat \<Rightarrow> u32 \<Rightarrow> u32 option" where
  "getSize_loop cs m d off sz =
     (if off + 4 < unat cs
      then case deserialize cs m (d + off) of
        None \<Rightarrow> None
      | Some ob \<Rightarrow>
          if obj_keySize ob = 0 \<and> obj_valueSize ob = 0 then Some sz
          else (case object_size cs ob of
                  None \<Rightarrow> None
                | Some tmp \<Rightarrow> if tmp = 0 then None else getSize_loop cs m d (off + unat tmp) (sz + tmp))
      else Some sz)"
  by pat_completeness auto
termination
  by (relation "measure (\<lambda>(cs, m, d, off, sz). unat cs - off)") (auto intro: scan_progress)

declare getSize_loop.simps [simp del]

definition cu_getSize :: "u32 \<Rightarrow> u32 \<Rightarrow> bool \<Rightarrow> memory \<Rightarrow> nat \<Rightarrow> u32 option" where
  "cu_getSize cs k isZeros m p =
     (if isZeros then Some 0
      else do { par \<leftarrow> cu_isParity k m p;
                if par then Some cs else getSize_loop cs m (cu_getData p) 0 0 })"

function getCount_loop :: "u32 \<Rightarrow> memory \<Rightarrow> nat \<Rightarrow> nat \<Rightarrow> u32 \<Rightarrow> u32 option" where
  "getCount_loop cs m d off n =
     (if off + 4 < unat cs
      then case deserialize cs m (d + off) of
        None \<Rightarrow> None
      | Some ob \<Rightarrow>
          if obj_keySize ob = 0 \<and> obj_valueSize ob = 0 then Some n
          else (case object_size cs ob of
                  None \<Rightarrow> None
                | Some tmp \<Rightarrow> if tmp = 0 then None else getCount_loop cs m d (off + unat tmp) (n + 1))
      else Some n)"
  by pat_completeness auto
termination
  by (relation "measure (\<lambda>(cs, m, d, off, sz). unat cs - off)") (auto intro: scan_progress)

declare getCount_loop.simps [simp del]

definition cu_getCount :: "u32 \<Rightarrow> u32 \<Rightarrow> memory \<Rightarrow> nat \<Rightarrow> u32 option" where
  "cu_getCount cs k m p =
     do { par \<leftarrow> cu_isParity k m p;
          if par then Some 0 else getCount_loop cs m (cu_getData p) 0 0 }"

text \<open>
  \<^verbatim>\<open>next\<close>: the offset after the object at \<open>off\<close> and the object's key position, key size and
  large flag; \<^verbatim>\<open>-1\<close> is \<^term>\<open>None\<close> inside. The returned \<^verbatim>\<open>int\<close> is non-negative for every
  chunk below two gigabytes.
\<close>

definition cu_next :: "u32 \<Rightarrow> memory \<Rightarrow> nat \<Rightarrow> u32 \<Rightarrow> (u32 \<times> nat \<times> u8 \<times> bool) option option" where
  "cu_next cs m p off =
     (let d = cu_getData p in
      if unat off + 4 < unat cs
      then do { ob \<leftarrow> deserialize cs m (d + unat off);
                (large, _, _) \<leftarrow> isLarge cs (obj_keySize ob) (obj_valueSize ob);
                tmp \<leftarrow> object_size cs ob;
                Some (if obj_keySize ob \<noteq> 0
                      then Some (off + tmp, obj_key ob, obj_keySize ob, large) else None) }
      else Some None)"

fun skip_zeros :: "memory \<Rightarrow> nat \<Rightarrow> nat \<Rightarrow> nat \<Rightarrow> nat option" where
  "skip_zeros m d off 0 = Some off"
| "skip_zeros m d off (Suc n) =
     do { v \<leftarrow> load_byte m (d + off); if v \<noteq> 0 then Some off else skip_zeros m d (Suc off) n }"

fun trim_zeros :: "memory \<Rightarrow> nat \<Rightarrow> nat \<Rightarrow> nat \<Rightarrow> nat option" where
  "trim_zeros m d off 0 = Some 0"
| "trim_zeros m d off (Suc n) =
     (if off < Suc n
      then do { v \<leftarrow> load_byte m (d + Suc n); if v \<noteq> 0 then Some (Suc n) else trim_zeros m d off n }
      else Some (Suc n))"

text \<open>The second \<^verbatim>\<open>getData\<close>: the range from the first to the last non-zero byte.\<close>

definition cu_getData_range :: "u32 \<Rightarrow> u32 \<Rightarrow> bool \<Rightarrow> memory \<Rightarrow> nat \<Rightarrow> (nat \<times> u32 \<times> u32) option" where
  "cu_getData_range cs k isZeros m p =
     do { n \<leftarrow> cu_getSize cs k isZeros m p;
          let d = cu_getData p;
          if n > 0
          then do { off \<leftarrow> skip_zeros m d 0 (unat n);
                    sz \<leftarrow> trim_zeros m d off (unat n - 1);
                    Some (d + off, of_nat off, of_nat sz + 1 - of_nat off) }
          else Some (d, 0, 0) }"

section \<open>Updating a chunk\<close>

definition cu_alloc :: "u32 \<Rightarrow> u32 \<Rightarrow> bool \<Rightarrow> memory \<Rightarrow> nat \<Rightarrow> u32 \<Rightarrow> (nat \<times> u32 \<times> memory) option" where
  "cu_alloc cs k isZeros m p sz =
     do { off \<leftarrow> cu_getSize cs k isZeros m p;
          let ptr = p + CHUNK_IDENTIFIER_SIZE + unat off;
          m \<leftarrow> serialize cs m ptr None 0 None (sz - 8) 0;
          Some (ptr, off, m) }"

definition cu_computeDelta ::
  "memory \<Rightarrow> nat \<Rightarrow> memory \<Rightarrow> memory \<Rightarrow> u32 \<Rightarrow> u32 \<Rightarrow> bool \<Rightarrow> (memory \<times> memory) option" where
  "cu_computeDelta m p delta newData off len applyUpdate =
     do { let d = cu_getData p + unat off;
          delta \<leftarrow> bitwiseXOR delta 0 m d newData 0 len;
          if applyUpdate
          then do { m \<leftarrow> bitwiseXOR_self m d delta 0 len; Some (delta, m) }
          else Some (delta, m) }"

text \<open>
  In \<^verbatim>\<open>deleteObject\<close> the first XOR has its destination as second operand; XOR commutes, so it is
  the in-place call. Only \<open>len\<close> bytes are combined, not the four header bytes in addition.
\<close>

definition cu_deleteObject ::
  "u32 \<Rightarrow> memory \<Rightarrow> nat \<Rightarrow> u32 \<Rightarrow> memory option \<Rightarrow> (u32 \<times> memory option \<times> memory) option" where
  "cu_deleteObject cs m p off delta =
     do { let d = cu_getData p + unat off;
          ob \<leftarrow> deserialize cs m d;
          let len = ucast (obj_keySize ob) + obj_valueSize ob;
          case delta of
            Some delta \<Rightarrow>
              do { delta \<leftarrow> poke delta 0 (replicate (unat (4 + len)) 0);
                   delta \<leftarrow> setSize delta 0 0 len;
                   delta \<leftarrow> bitwiseXOR_self delta 0 m d len;
                   m \<leftarrow> bitwiseXOR_self m d delta 0 len;
                   Some (len, Some delta, m) }
          | None \<Rightarrow> do { m \<leftarrow> poke m d (replicate (unat (4 + len)) 0); Some (len, None, m) } }"

definition cu_dup :: "u32 \<Rightarrow> memory \<Rightarrow> nat \<Rightarrow> memory \<Rightarrow> nat \<Rightarrow> memory option" where
  "cu_dup cs dst d src s = do { bs \<leftarrow> peek src s (8 + unat cs); poke dst d bs }"

definition cu_copy :: "memory \<Rightarrow> nat \<Rightarrow> u32 \<Rightarrow> memory \<Rightarrow> u32 \<Rightarrow> memory option" where
  "cu_copy m p off src n = do { bs \<leftarrow> peek src 0 (unat n); poke m (cu_getData p + unat off) bs }"

definition cu_load :: "u32 \<Rightarrow> memory \<Rightarrow> nat \<Rightarrow> u32 \<Rightarrow> memory \<Rightarrow> u32 \<Rightarrow> memory option" where
  "cu_load cs m p off src n =
     do { let d = cu_getData p;
          m \<leftarrow> (if off > 0 then poke m d (replicate (unat off) 0) else Some m);
          bs \<leftarrow> peek src 0 (unat n);
          m \<leftarrow> poke m (d + unat off) bs;
          if off + n < cs then poke m (d + unat off + unat n) (replicate (unat (cs - off - n)) 0)
          else Some m }"

definition cu_clear :: "u32 \<Rightarrow> memory \<Rightarrow> nat \<Rightarrow> memory option" where
  "cu_clear cs m p = poke m p (replicate (8 + unat cs) 0)"

section \<open>Chunk pool\<close>

text \<open>The pool's memory starts at position 0, \<^verbatim>\<open>startAddress\<close>; \<^verbatim>\<open>count\<close> is an atomic counter.\<close>

record ChunkPool =
  cp_total :: u32
  cp_count :: u32
  cp_mem :: memory

definition cp_init :: "u32 \<Rightarrow> u64 \<Rightarrow> ChunkPool option" where
  "cp_init chunkSize capacity =
     (let chunkSize = chunkSize + 8 in
      if chunkSize = 0 then None
      else let total = ucast (capacity div ucast chunkSize) in
           Some \<lparr>cp_total = total, cp_count = 0,
                 cp_mem = replicate (unat (ucast total * ucast chunkSize :: u64)) 0\<rparr>)"

definition cp_alloc :: "u32 \<Rightarrow> ChunkPool \<Rightarrow> u32 \<Rightarrow> u32 \<Rightarrow> u32 \<Rightarrow> (nat option \<times> ChunkPool) option" where
  "cp_alloc cs cp l s c =
     (let index = cp_count cp; cp = cp\<lparr>cp_count := index + 1\<rparr> in
      if index \<ge> cp_total cp then Some (None, cp\<lparr>cp_count := cp_total cp\<rparr>)
      else let chunkSize = 8 + cs; chunk = unat (index * chunkSize) in
           if chunk + unat chunkSize \<le> unat (cp_total cp * chunkSize)
           then do { m \<leftarrow> cu_clear cs (cp_mem cp) chunk;
                     m \<leftarrow> cu_set m chunk l s c;
                     Some (Some chunk, cp\<lparr>cp_mem := m\<rparr>) }
           else Some (None, cp))"

text \<open>\<^verbatim>\<open>getChunk\<close>: the chunk an object pointer lies in and the object's offset in it.\<close>

definition cp_getChunk :: "u32 \<Rightarrow> nat \<Rightarrow> nat \<times> u32" where
  "cp_getChunk cs ptr =
     (let off = of_nat (ptr mod (8 + unat cs)) :: u32 in (ptr - unat off, off - 8))"

definition cp_isInChunkPool :: "u32 \<Rightarrow> ChunkPool \<Rightarrow> nat \<Rightarrow> bool" where
  "cp_isInChunkPool cs cp chunk = (chunk < unat ((8 + cs) * (cp_total cp + 1)))"

definition temp_alloc :: "u32 \<Rightarrow> u32 \<Rightarrow> u32 \<Rightarrow> u32 \<Rightarrow> memory option" where
  "temp_alloc cs l s c =
     do { m \<leftarrow> cu_clear cs (replicate (8 + unat cs) 0) 0; cu_set m 0 l s c }"

section \<open>The objects of a data chunk\<close>

text \<open>An object as the chunk stores it: one piece of a large object, or the whole of a small one.\<close>

record stored =
  st_keySize :: u8
  st_key :: "byte list"
  st_valueSize :: u32
  st_splitOffset :: u32
  st_val :: "byte list"

definition st_large :: "u32 \<Rightarrow> stored \<Rightarrow> bool" where
  "st_large cs x = (unat cs < 4 + unat (st_keySize x) + unat (st_valueSize x))"

definition st_image :: "u32 \<Rightarrow> stored \<Rightarrow> byte list" where
  "st_image cs x = object_image (st_large cs x) (st_keySize x) (st_key x) (st_valueSize x) (st_splitOffset x) (st_val x)"

definition st_wf :: "u32 \<Rightarrow> stored \<Rightarrow> bool" where
  "st_wf cs x \<longleftrightarrow> st_keySize x \<noteq> 0 \<and> length (st_key x) = unat (st_keySize x)
     \<and> 7 + unat (st_keySize x) < unat cs \<and> st_valueSize x < 2 ^ 24
     \<and> (if st_large cs x
        then st_splitOffset x < st_valueSize x
          \<and> length (st_val x) = min (unat cs - 7 - unat (st_keySize x)) (unat (st_valueSize x) - unat (st_splitOffset x))
        else st_splitOffset x = 0 \<and> length (st_val x) = unat (st_valueSize x))"

definition used :: "u32 \<Rightarrow> stored list \<Rightarrow> nat" where
  "used cs xs = length (concat (map (st_image cs) xs))"

text \<open>The data area holds exactly the objects \<open>xs\<close>, back to back, and zeros after them.\<close>

definition chunk_holds :: "u32 \<Rightarrow> memory \<Rightarrow> nat \<Rightarrow> stored list \<Rightarrow> bool" where
  "chunk_holds cs m p xs \<longleftrightarrow>
     list_all (st_wf cs) xs \<and> used cs xs \<le> unat cs
     \<and> peek m (cu_getData p) (unat cs) = Some (concat (map (st_image cs) xs) @ replicate (unat cs - used cs xs) 0)"

lemma used_simps [simp]:
  "used cs [] = 0" "used cs (x # xs) = length (st_image cs x) + used cs xs"
  "used cs (xs @ ys) = used cs xs + used cs ys"
  by (simp_all add: used_def)

lemma st_image_length: "length (st_image cs x) = 4 + length (st_key x) + (if st_large cs x then 3 else 0) + length (st_val x)"
  by (simp add: st_image_def)

lemma poke_peek_id: "peek m p (length bs) = Some bs \<Longrightarrow> poke m p bs = Some m"
  by (auto simp: peek_def poke_def seg_def split: if_splits) (metis append.assoc append_take_drop_id take_add)

lemma u24_less: "(v :: u32) < 2 ^ 24 \<Longrightarrow> unat v < 2 ^ 24"
  by (simp add: word_less_nat_alt)

lemma st_isLarge:
  assumes "st_wf cs x"
  obtains nsplit where "isLarge cs (st_keySize x) (st_valueSize x) =
     Some (st_large cs x, nsplit, if st_large cs x then cs - ucast (st_keySize x) - 7 else st_valueSize x)"
  using assms isLarge_unat(1) [of "st_keySize x" cs "st_valueSize x"]
  by (auto simp: st_wf_def st_large_def Let_def split: if_splits)

lemma deserialize_stored:
  assumes wf: "st_wf cs x" and img: "peek m q (length (st_image cs x)) = Some (st_image cs x)"
  shows "deserialize cs m q = Some \<lparr>obj_key = q + 4, obj_keySize = st_keySize x,
     obj_value = q + 4 + unat (st_keySize x) + (if st_large cs x then 3 else 0),
     obj_valueSize = st_valueSize x, obj_splitOffset = st_splitOffset x\<rparr>"
proof -
  obtain nsplit where L: "isLarge cs (st_keySize x) (st_valueSize x) =
     Some (st_large cs x, nsplit, if st_large cs x then cs - ucast (st_keySize x) - 7 else st_valueSize x)"
    by (rule st_isLarge [OF wf])
  have w: "length (st_key x) = unat (st_keySize x)" "st_valueSize x < 2 ^ 24"
    "st_large cs x \<Longrightarrow> st_splitOffset x < 2 ^ 24" "\<not> st_large cs x \<Longrightarrow> st_splitOffset x = 0"
    using wf by (auto simp: st_wf_def split: if_splits)
  show ?thesis
    using deserialize_image [OF poke_peek_id [OF img, unfolded st_image_def] L w(1,2,3)] w(4) by simp
qed

lemma object_size_len:
  assumes wf: "st_wf cs x"
  shows "piece_len cs (st_keySize x) (st_valueSize x) (st_splitOffset x) = length (st_val x)"
proof -
  obtain nsplit where L: "isLarge cs (st_keySize x) (st_valueSize x) =
     Some (st_large cs x, nsplit, if st_large cs x then cs - ucast (st_keySize x) - 7 else st_valueSize x)"
    by (rule st_isLarge [OF wf])
  have vs: "unat (st_valueSize x) < 2 ^ 24" using wf u24_less by (auto simp: st_wf_def)
  show ?thesis
  proof (cases "st_large cs x")
    case True
    let ?ss = "cs - ucast (st_keySize x) - 7 :: u32"
    have ss: "unat ?ss = unat cs - 7 - unat (st_keySize x)"
      using wf by (intro isLarge_unat(2) [where valueSize = "st_valueSize x"]) (auto simp: st_wf_def)
    have so: "unat (st_splitOffset x) < unat (st_valueSize x)"
      "length (st_val x) = min (unat ?ss) (unat (st_valueSize x) - unat (st_splitOffset x))"
      using wf True ss by (auto simp: st_wf_def word_less_nat_alt)
    have "unat ?ss < 2 ^ 24" using True vs so ss by (simp add: st_large_def)
    then have "unat (piece_size (st_valueSize x) (st_splitOffset x) ?ss) = length (st_val x)"
      using so vs by (subst piece_size_unat) auto
    then show ?thesis using L True by (simp add: piece_len_def)
  next
    case False
    then show ?thesis using L wf by (simp add: piece_len_def st_wf_def)
  qed
qed

lemma object_size_stored:
  assumes wf: "st_wf cs x" and "obj_keySize ob = st_keySize x" "obj_valueSize ob = st_valueSize x"
    "obj_splitOffset ob = st_splitOffset x"
  shows "object_size cs ob = Some (of_nat (length (st_image cs x)))"
proof -
  obtain nsplit where L: "isLarge cs (st_keySize x) (st_valueSize x) =
     Some (st_large cs x, nsplit, if st_large cs x then cs - ucast (st_keySize x) - 7 else st_valueSize x)"
    by (rule st_isLarge [OF wf])
  have k: "length (st_key x) = unat (st_keySize x)" using wf by (simp add: st_wf_def)
  show ?thesis
  proof (cases "st_large cs x")
    case True
    with L object_size_len [OF wf] have
      "piece_size (st_valueSize x) (st_splitOffset x) (cs - ucast (st_keySize x) - 7) = of_nat (length (st_val x))"
      by (simp add: piece_len_def) (metis of_nat_unat_eq)
    with L True assms(2-4) k show ?thesis by (simp add: object_size_def st_image_length)
  next
    case False
    with L assms(2-4) k wf show ?thesis by (simp add: object_size_def st_image_length st_wf_def)
  qed
qed

lemma peek_split:
  "peek m p (a + b) = Some (xs @ ys) \<Longrightarrow> length xs = a \<Longrightarrow> peek m p a = Some xs \<and> peek m (p + a) b = Some ys"
  by (auto simp: peek_def seg_split split: if_splits)

lemma zeros_deserialize:
  assumes "peek m q n = Some (replicate n 0)" and "4 \<le> n" and "4 \<le> unat cs"
  shows "deserialize cs m q = Some \<lparr>obj_key = q + 4, obj_keySize = 0, obj_value = q + 4,
     obj_valueSize = 0, obj_splitOffset = 0\<rparr>"
proof -
  have z: "load_byte m (q + j) = Some 0" if "j < 4" for j
  proof -
    have "seg q n m ! j = 0" using assms that by (auto simp: peek_def split: if_splits)
    then show ?thesis
      using assms that by (simp add: peek_def load_byte_def nth_seg split: if_splits)
  qed
  have "load_byte m q = Some 0" "load_byte m (q + 1) = Some 0" "load_byte m (q + 1 + 1) = Some 0"
    "load_byte m (q + 1 + 2) = Some 0"
    using z [of 0] z [of 1] z [of 2] z [of 3] by (simp_all add: numeral_eq_Suc)
  moreover have "isLarge cs 0 0 = Some (False, 1, 0)"
    using assms(3) by (simp add: isLarge_def word_less_nat_alt)
  moreover have "of_be32 0 0 0 0 = 0" by (simp add: of_be32_def)
  ultimately show ?thesis by (simp add: deserialize_def readSplitOffset_def Let_def)
qed

text \<open>One step of a scan over a stored object.\<close>

lemma scan_object:
  assumes "st_wf cs x" and "peek m q (length (st_image cs x)) = Some (st_image cs x)" and "length (st_image cs x) \<le> unat cs"
  shows "\<exists>ob. deserialize cs m q = Some ob \<and> obj_key ob = q + 4 \<and> obj_keySize ob = st_keySize x \<and> obj_keySize ob \<noteq> 0
    \<and> obj_valueSize ob = st_valueSize x
    \<and> object_size cs ob = Some (of_nat (length (st_image cs x)))
    \<and> (of_nat (length (st_image cs x)) :: u32) \<noteq> 0 \<and> unat (of_nat (length (st_image cs x)) :: u32) = length (st_image cs x)
    \<and> 4 < length (st_image cs x)"
proof -
  have l: "unat (of_nat (length (st_image cs x)) :: u32) = length (st_image cs x)"
    using assms(3) unat_u32_less [of cs] by (intro unat_of_nat_eq) simp
  have "0 < unat (st_keySize x)" "length (st_key x) = unat (st_keySize x)"
    using assms(1) unat_gt_0 by (auto simp: st_wf_def)
  then have g: "4 < length (st_image cs x)" by (simp add: st_image_length)
  then have "(of_nat (length (st_image cs x)) :: u32) \<noteq> 0" using l by (metis not_less_zero unat_0)
  with assms(1) l g show ?thesis
    by (simp add: deserialize_stored [OF assms(1,2)] object_size_stored [OF assms(1)] st_wf_def)
qed

lemma scan_end:
  assumes "off + 4 < unat cs" and "peek m (d + off) (unat cs - off) = Some (replicate (unat cs - off) 0)"
  shows "\<exists>ob. deserialize cs m (d + off) = Some ob \<and> obj_keySize ob = 0 \<and> obj_valueSize ob = 0"
  using zeros_deserialize [OF assms(2)] assms(1) by simp

lemma getSize_loop_holds:
  assumes "list_all (st_wf cs) xs" and "off + used cs xs \<le> unat cs"
    and "peek m (d + off) (unat cs - off) = Some (concat (map (st_image cs) xs) @ replicate (unat cs - off - used cs xs) 0)"
  shows "getSize_loop cs m d off sz = Some (sz + of_nat (used cs xs))
    \<and> getCount_loop cs m d off n = Some (n + of_nat (length xs))"
  using assms
proof (induction xs arbitrary: off sz n)
  case Nil
  then show ?case
    using scan_end [of off cs m d] by (subst getSize_loop.simps, subst getCount_loop.simps) auto
next
  case (Cons x xs)
  let ?l = "length (st_image cs x)"
  have r: "unat cs - off = ?l + (unat cs - (off + ?l))" using Cons.prems(2) by simp
  have px: "peek m (d + off) ?l = Some (st_image cs x)"
    and pr: "peek m (d + off + ?l) (unat cs - (off + ?l)) =
      Some (concat (map (st_image cs) xs) @ replicate (unat cs - (off + ?l) - used cs xs) 0)"
    using peek_split [of m "d + off" ?l "unat cs - (off + ?l)" "st_image cs x"] Cons.prems(3) r
    by (simp_all add: add.commute)
  have wf: "st_wf cs x" "list_all (st_wf cs) xs" using Cons.prems(1) by simp_all
  obtain ob where ob: "deserialize cs m (d + off) = Some ob" "obj_keySize ob \<noteq> 0"
    "object_size cs ob = Some (of_nat ?l)" "(of_nat ?l :: u32) \<noteq> 0" "unat (of_nat ?l :: u32) = ?l" "4 < ?l"
    using scan_object [OF wf(1) px] Cons.prems(2) by auto
  have IH: "getSize_loop cs m d (off + ?l) sz' = Some (sz' + of_nat (used cs xs))
    \<and> getCount_loop cs m d (off + ?l) n' = Some (n' + of_nat (length xs))" for sz' n'
    using Cons.IH [OF wf(2), of "off + ?l" sz' n'] Cons.prems(2) pr by (simp add: add.assoc)
  have lt: "off + 4 < unat cs" using ob(6) Cons.prems(2) by simp
  show ?case
    by (subst getSize_loop.simps, subst getCount_loop.simps) (simp add: lt ob IH)
qed

lemma holds_scan:
  assumes "chunk_holds cs m p xs"
  shows "getSize_loop cs m (cu_getData p) 0 0 = Some (of_nat (used cs xs))
    \<and> getCount_loop cs m (cu_getData p) 0 0 = Some (of_nat (length xs))"
  using assms getSize_loop_holds [of cs xs 0 m "cu_getData p" 0 0] by (auto simp: chunk_holds_def)

text \<open>Position of the object after a prefix of the objects.\<close>

lemma peek_join: "peek m p a = Some xs \<Longrightarrow> peek m (p + a) b = Some ys \<Longrightarrow> peek m p (a + b) = Some (xs @ ys)"
  by (auto simp: peek_def seg_split split: if_splits)

lemma holds_object:
  assumes "chunk_holds cs m p (xs @ x # ys)"
  shows "peek m (cu_getData p + used cs xs) (length (st_image cs x)) = Some (st_image cs x)"
proof -
  let ?z = "replicate (unat cs - used cs (xs @ x # ys)) 0"
  have u: "unat cs = used cs xs + (length (st_image cs x) + (unat cs - used cs xs - length (st_image cs x)))"
    using assms by (simp add: chunk_holds_def)
  have "peek m (cu_getData p) (unat cs) =
      Some (concat (map (st_image cs) xs) @ st_image cs x @ concat (map (st_image cs) ys) @ ?z)"
    using assms by (simp add: chunk_holds_def)
  then have "peek m (cu_getData p + used cs xs) (length (st_image cs x) + (unat cs - used cs xs - length (st_image cs x)))
      = Some (st_image cs x @ concat (map (st_image cs) ys) @ ?z)"
    by (subst (asm) u) (drule peek_split, auto simp: used_def)
  then show ?thesis by (drule_tac peek_split) auto
qed

lemma holds_next:
  assumes "chunk_holds cs m p (xs @ x # ys)"
  shows "cu_next cs m p (of_nat (used cs xs)) =
    Some (Some (of_nat (used cs (xs @ [x])), cu_getData p + used cs xs + 4, st_keySize x, st_large cs x))"
proof -
  let ?l = "length (st_image cs x)"
  have wf: "st_wf cs x" and u: "used cs xs + ?l \<le> unat cs" using assms by (auto simp: chunk_holds_def)
  obtain ob where ob: "deserialize cs m (cu_getData p + used cs xs) = Some ob"
    "obj_key ob = cu_getData p + used cs xs + 4" "obj_keySize ob = st_keySize x" "obj_keySize ob \<noteq> 0"
    "obj_valueSize ob = st_valueSize x" "object_size cs ob = Some (of_nat ?l)" "4 < ?l"
    using scan_object [OF wf holds_object [OF assms]] u by auto
  have off: "unat (of_nat (used cs xs) :: u32) = used cs xs"
    using u unat_u32_less [of cs] by (intro unat_of_nat_eq) simp
  obtain nsplit ss where L: "isLarge cs (st_keySize x) (st_valueSize x) = Some (st_large cs x, nsplit, ss)"
    by (rule st_isLarge [OF wf]) blast
  from ob off L u show ?thesis by (simp add: cu_next_def Let_def)
qed

text \<open>Serialising a stored object writes its image, and nothing else.\<close>

lemma serialize_stored:
  assumes wf: "st_wf cs x"
  shows "serialize cs m p (Some (st_key x)) (st_keySize x) (Some (st_val x)) (st_valueSize x) (st_splitOffset x) = poke m p (st_image cs x)"
proof -
  obtain nsplit where L: "isLarge cs (st_keySize x) (st_valueSize x) =
     Some (st_large cs x, nsplit, if st_large cs x then cs - ucast (st_keySize x) - 7 else st_valueSize x)"
    by (rule st_isLarge [OF wf])
  have "piece_len cs (st_keySize x) (st_valueSize x) (st_splitOffset x) = length (st_val x)"
    using object_size_len [OF wf] .
  then show ?thesis
    using serialize_image [OF L, of "st_key x" "st_splitOffset x" "st_val x" m p] wf
    by (simp add: st_wf_def st_image_def)
qed

lemma holds_append:
  assumes h: "chunk_holds cs m p xs" and wf: "st_wf cs x" and fits: "used cs xs + length (st_image cs x) \<le> unat cs"
  shows "\<exists>m'. serialize cs m (cu_getData p + used cs xs) (Some (st_key x)) (st_keySize x) (Some (st_val x))
                (st_valueSize x) (st_splitOffset x) = Some m'
    \<and> chunk_holds cs m' p (xs @ [x]) \<and> (\<forall>q n. q + n \<le> cu_getData p \<longrightarrow> peek m' q n = peek m q n)"
proof -
  let ?l = "length (st_image cs x)" and ?q = "cu_getData p + used cs xs" and ?d = "cu_getData p"
  let ?u = "concat (map (st_image cs) xs)"
  have r: "?d + unat cs \<le> length m" "length ?u = used cs xs" "used cs xs \<le> unat cs"
    using h by (auto simp: chunk_holds_def peek_def used_def split: if_splits)
  obtain m' where m': "poke m ?q (st_image cs x) = Some m'"
    using r fits by (simp add: poke_def)
  have "serialize cs m ?q (Some (st_key x)) (st_keySize x) (Some (st_val x)) (st_valueSize x) (st_splitOffset x) = Some m'"
    using m' by (simp add: serialize_stored [OF wf])
  moreover have "peek m' ?d (unat cs) = Some (?u @ st_image cs x @ replicate (unat cs - used cs xs - ?l) 0)"
  proof -
    have u: "unat cs = used cs xs + (?l + (unat cs - used cs xs - ?l))" using fits by simp
    have "peek m ?d (used cs xs + (unat cs - used cs xs)) = Some (?u @ replicate (unat cs - used cs xs) 0)"
      using h r(3) by (simp add: chunk_holds_def)
    note sp = peek_split [OF this r(2)]
    have a: "peek m' ?d (used cs xs) = Some ?u"
      using peek_poke_other [OF m', of ?d "used cs xs"] sp by simp
    have b: "peek m' ?q ?l = Some (st_image cs x)" by (rule peek_poke_same [OF m'])
    have "replicate (unat cs - used cs xs) (0::byte) = replicate ?l 0 @ replicate (unat cs - used cs xs - ?l) 0"
      using fits by (simp add: replicate_add [symmetric])
    with sp have "peek m (?d + used cs xs) (?l + (unat cs - used cs xs - ?l)) =
        Some (replicate ?l 0 @ replicate (unat cs - used cs xs - ?l) 0)"
      using fits by simp
    from peek_split [OF this] have c: "peek m' (?q + ?l) (unat cs - used cs xs - ?l) = Some (replicate (unat cs - used cs xs - ?l) 0)"
      using peek_poke_other [OF m', of "?q + ?l" "unat cs - used cs xs - ?l"] by simp
    show ?thesis
      by (subst u) (rule peek_join [OF a peek_join [OF b c]])
  qed
  moreover have "peek m' q n = peek m q n" if "q + n \<le> ?d" for q n
    using peek_poke_other [OF m', of q n] that by simp
  ultimately show ?thesis
    using h wf fits by (auto simp: chunk_holds_def)
qed

section \<open>Identifiers and pool\<close>

lemma cu_set_poke: "cu_set m p l s c = poke m p (ucast l # le32 s @ [0, 0, ucast c])"
proof -
  have "cu_set m p l s c = poke m p [ucast l] \<bind> (\<lambda>m. poke m (p + 1) (le32 s @ [0, 0]) \<bind> (\<lambda>m. poke m (p + 7) [ucast c]))"
    by (simp add: cu_set_def cu_setListId_def cu_setStripeId_def cu_setChunkId_def)
  also have "\<dots> = poke m p ([ucast l] @ le32 s @ [0, 0]) \<bind> (\<lambda>m. poke m (p + 7) [ucast c])"
    by (simp add: poke_bind_adjacent)
  also have "\<dots> = poke m p (([ucast l] @ le32 s @ [0, 0]) @ [ucast c])"
    by (rule poke_adjacent) simp
  finally show ?thesis by simp
qed

lemma of_le32_le32: "of_le32 (le32 s @ [0, 0]) = s"
proof (rule bit_word_eqI)
  fix n assume "n < LENGTH(32)"
  then consider "n < 8" | "8 \<le> n" "n < 16" | "16 \<le> n" "n < 24" | "24 \<le> n" "n < 32"
    by fastforce
  then show "bit (of_le32 (le32 s @ [0, 0])) n = bit s n"
    by cases (auto simp: of_le32_def le32_def bit_simps)
qed

lemma cu_getMetadata_set:
  assumes "cu_set m p l s c = Some m'"
  shows "cu_getMetadata m' p = Some (md_set (ucast (ucast l :: u8)) s (ucast (ucast c :: u8)))"
proof -
  let ?b = "ucast l # le32 s @ [0, 0, ucast c]"
  have w: "poke m p ?b = Some m'" using assms by (simp add: cu_set_poke)
  have "load_byte m' (p + 0) = Some (ucast l)" "load_byte m' (p + 7) = Some (ucast c)"
    using load_byte_poke_same [OF w, of 0] load_byte_poke_same [OF w, of 7] by (simp_all add: le32_def)
  moreover have "peek m' (p + 1) 6 = Some (le32 s @ [0, 0])"
  proof -
    have e: "length ?b = 1 + (6 + 1)" by simp
    have "peek m' p (1 + (6 + 1)) = Some ([ucast l] @ (le32 s @ [0, 0]) @ [ucast c])"
      using peek_poke_same [OF w] unfolding e by simp
    then have "peek m' (p + 1) (6 + 1) = Some ((le32 s @ [0, 0]) @ [ucast c])"
      by (drule_tac peek_split) simp_all
    then show ?thesis by (drule_tac peek_split) simp_all
  qed
  ultimately show ?thesis
    by (simp add: cu_getMetadata_def cu_getListId_def cu_getStripeId_def cu_getChunkId_def of_le32_le32)
qed

definition cp_wf :: "u32 \<Rightarrow> ChunkPool \<Rightarrow> bool" where
  "cp_wf cs cp \<longleftrightarrow> length (cp_mem cp) = unat (cp_total cp) * (8 + unat cs) \<and> length (cp_mem cp) < 2 ^ 32
     \<and> 8 + unat cs < 2 ^ 32 \<and> unat (cp_count cp) \<le> unat (cp_total cp)"

lemma unat_chunk_bytes: "8 + unat cs < 2 ^ 32 \<Longrightarrow> unat (8 + cs :: u32) = 8 + unat cs"
  by (subst unat_plus_eq) simp_all

lemma cp_init_wf:
  assumes "8 + unat cs < 2 ^ 32" and "unat capacity < 2 ^ 32" and "cp_init cs capacity = Some cp"
  shows "cp_wf cs cp \<and> unat (cp_total cp) = unat capacity div (8 + unat cs)"
proof -
  let ?c = "8 + unat cs" and ?t = "unat capacity div (8 + unat cs)"
  have c: "unat (cs + 8) = ?c" using unat_chunk_bytes [OF assms(1)] by (simp add: add.commute)
  have uc: "unat (ucast (cs + 8) :: u64) = ?c" using c by simp
  have tot: "unat (ucast (capacity div ucast (cs + 8)) :: u32) = ?t"
    using assms(2) le_less_trans [OF div_le_dividend [of "unat capacity" ?c], of "2 ^ 32"]
    by (subst unat_ucast_64_32) (simp_all add: unat_div c)
  have "?t * ?c \<le> unat capacity" by simp
  then have b: "?t * ?c < 2 ^ 32" using assms(2) by linarith
  have ut: "unat (ucast (ucast (capacity div ucast (cs + 8)) :: u32) :: u64) = ?t"
    using tot by simp
  have "unat (ucast (ucast (capacity div ucast (cs + 8)) :: u32) * ucast (cs + 8) :: u64) = ?t * ?c"
    using b by (subst unat_mult_eq) (simp_all add: tot c)
  with assms(1,3) b tot show ?thesis
    by (auto simp: cp_init_def Let_def cp_wf_def split: if_splits)
qed

lemma cp_alloc_step:
  assumes wf: "cp_wf cs cp" and room: "unat (cp_count cp) < unat (cp_total cp)"
  shows "\<exists>m. cp_alloc cs cp l s c = Some (Some (unat (cp_count cp) * (8 + unat cs)), cp\<lparr>cp_count := cp_count cp + 1, cp_mem := m\<rparr>)
    \<and> cp_wf cs (cp\<lparr>cp_count := cp_count cp + 1, cp_mem := m\<rparr>)
    \<and> unat (cp_count cp + 1) = unat (cp_count cp) + 1
    \<and> cu_getMetadata m (unat (cp_count cp) * (8 + unat cs)) = Some (md_set (ucast (ucast l :: u8)) s (ucast (ucast c :: u8)))
    \<and> (\<forall>q n. q + n \<le> unat (cp_count cp) * (8 + unat cs) \<longrightarrow> peek m q n = peek (cp_mem cp) q n)"
proof -
  let ?n = "8 + unat cs" and ?i = "unat (cp_count cp)" and ?t = "unat (cp_total cp)"
  let ?p = "?i * ?n"
  have len: "length (cp_mem cp) = ?t * ?n" and lim: "?t * ?n < 2 ^ 32" and n32: "?n < 2 ^ 32"
    using wf by (auto simp: cp_wf_def)
  have n: "unat (8 + cs) = ?n" by (rule unat_chunk_bytes [OF n32])
  have "Suc ?i * ?n \<le> ?t * ?n" using room by (intro mult_le_mono1) simp
  then have fits: "?p + ?n \<le> ?t * ?n" by simp
  have chunk: "unat (cp_count cp * (8 + cs)) = ?p"
    using fits lim n by (subst unat_mult_eq) simp_all
  have total: "unat (cp_total cp * (8 + cs)) = ?t * ?n"
    using lim n by (subst unat_mult_eq) simp_all
  have inc: "unat (cp_count cp + 1) = ?i + 1"
    using room unat_u32_less [of "cp_total cp"] by (subst unat_plus_eq) simp_all
  obtain m1 where m1: "cu_clear cs (cp_mem cp) ?p = Some m1"
    using fits len by (simp add: cu_clear_def poke_def)
  then have l1: "length m1 = ?t * ?n" using len by (simp add: cu_clear_def length_poke)
  obtain m2 where m2: "cu_set m1 ?p l s c = Some m2"
    using fits l1 by (simp add: cu_set_poke poke_def)
  then have l2: "length m2 = ?t * ?n" using l1 by (simp add: cu_set_poke length_poke)
  have "\<not> cp_total cp \<le> cp_count cp" using room by (simp add: word_le_nat_alt)
  then have "cp_alloc cs cp l s c = Some (Some ?p, cp\<lparr>cp_count := cp_count cp + 1, cp_mem := m2\<rparr>)"
    using fits m1 m2 by (simp add: cp_alloc_def Let_def chunk total n)
  moreover have "peek m2 q j = peek (cp_mem cp) q j" if "q + j \<le> ?p" for q j
    using peek_poke_other [of m1 ?p _ m2 q j] peek_poke_other [of "cp_mem cp" ?p _ m1 q j] m1 m2 that
    by (simp add: cu_set_poke cu_clear_def)
  ultimately show ?thesis
    using cu_getMetadata_set [OF m2] inc room lim n32 l2 by (auto simp: cp_wf_def)
qed

lemma cp_alloc_full:
  assumes "cp_wf cs cp" and "unat (cp_count cp) = unat (cp_total cp)"
  shows "cp_alloc cs cp l s c = Some (None, cp)"
proof -
  have "cp_count cp = cp_total cp" using assms(2) by (metis of_nat_unat_eq)
  then show ?thesis by (cases cp) (simp add: cp_alloc_def Let_def)
qed

lemma cp_getChunk_inverse:
  assumes "8 + unat cs < 2 ^ 32" and "off < unat cs"
  shows "cp_getChunk cs (i * (8 + unat cs) + 8 + off) = (i * (8 + unat cs), of_nat off)"
proof -
  have "(i * (8 + unat cs) + 8 + off) mod (8 + unat cs) = 8 + off"
    using assms(2) by (simp add: add.assoc)
  moreover have "unat (of_nat (8 + off) :: u32) = 8 + off"
    using assms by (intro unat_of_nat_eq) simp
  ultimately show ?thesis by (simp add: cp_getChunk_def Let_def)
qed

section \<open>Properties\<close>

text \<open>
  C32. A data chunk is an append-only log of objects. On a chunk that holds the objects
  \<open>xs\<close>, \<^verbatim>\<open>ChunkUtil::getSize\<close> and \<^verbatim>\<open>getCount\<close> return the bytes and the number of these
  objects, and serialising one more object that fits at that offset gives a chunk that holds
  \<open>xs\<close> followed by it. Every byte of the memory outside the new object is unchanged: the identifier, the objects
  before it, the rest of the chunk and everything around the chunk.
\<close>

theorem chunk_append_scan:
  assumes "chunk_holds cs m p xs" and "cu_getChunkId m p = Some c" and "c < k"
    and "st_wf cs x" and "used cs (xs @ [x]) \<le> unat cs"
  shows "cu_getSize cs k False m p = Some (of_nat (used cs xs))
    \<and> cu_getCount cs k m p = Some (of_nat (length xs))
    \<and> (\<exists>m'. serialize cs m (cu_getData p + used cs xs) (Some (st_key x)) (st_keySize x) (Some (st_val x))
                (st_valueSize x) (st_splitOffset x) = Some m'
         \<and> chunk_holds cs m' p (xs @ [x])
         \<and> cu_getSize cs k False m' p = Some (of_nat (used cs (xs @ [x])))
         \<and> cu_getMetadata m' p = cu_getMetadata m p \<and> length m' = length m
         \<and> (\<forall>i. i < cu_getData p + used cs xs \<or> cu_getData p + used cs (xs @ [x]) \<le> i \<longrightarrow> load_byte m' i = load_byte m i))"
proof -
  obtain m' where m': "serialize cs m (cu_getData p + used cs xs) (Some (st_key x)) (st_keySize x) (Some (st_val x))
                (st_valueSize x) (st_splitOffset x) = Some m'"
    "chunk_holds cs m' p (xs @ [x])" "\<And>q n. q + n \<le> cu_getData p \<Longrightarrow> peek m' q n = peek m q n"
    using holds_append [OF assms(1,4)] assms(5) by auto
  have lb: "load_byte m' q = load_byte m q" if "q < cu_getData p" for q
    using m'(3) [of q 1] that by (auto simp: peek_def load_byte_def seg_Suc split: if_splits)
  have "cu_getMetadata m' p = cu_getMetadata m p" "cu_getChunkId m' p = Some c"
    using assms(2) lb [of p] lb [of "p + 7"] m'(3) [of "p + 1" 6]
    by (simp_all add: cu_getMetadata_def cu_getListId_def cu_getStripeId_def cu_getChunkId_def cu_getData_def)
  moreover have w: "poke m (cu_getData p + used cs xs) (st_image cs x) = Some m'" using m'(1) by (simp add: serialize_stored [OF assms(4)])
  moreover have "load_byte m' i = load_byte m i"
    if "i < cu_getData p + used cs xs \<or> cu_getData p + used cs (xs @ [x]) \<le> i" for i
    using peek_poke_other [OF w, of i 1] that length_poke [OF w]
    by (auto simp: peek_def load_byte_def seg_Suc split: if_splits)
  ultimately show ?thesis
    using assms(2,3) m' holds_scan [OF assms(1)] holds_scan [OF m'(2)] length_poke [OF w]
    by (simp add: cu_getSize_def cu_getCount_def cu_isParity_def not_le [symmetric])
qed

theorem chunk_append_scan_witness:
  "chunk_holds 32 (replicate 40 0) 0 [] \<and>
   (\<exists>m'. serialize 32 (replicate 40 0) 8 (Some [107]) 1 (Some [1, 2]) 2 0 = Some m'
      \<and> cu_getSize 32 2 False m' 0 = Some 7)"
proof -
  let ?x = "\<lparr>st_keySize = 1, st_key = [107], st_valueSize = 2, st_splitOffset = 0, st_val = [1, 2]\<rparr>"
  have h: "chunk_holds 32 (replicate 40 0) 0 []"
    by (simp add: chunk_holds_def peek_def cu_getData_def seg_def)
  have "cu_getChunkId (replicate 40 0) 0 = Some 0" by (simp add: cu_getChunkId_def load_byte_def)
  moreover have "st_wf 32 ?x" "used 32 ([] @ [?x]) \<le> unat (32 :: u32)"
    by (simp_all add: st_wf_def st_large_def st_image_length)
  ultimately show ?thesis
    using h chunk_append_scan [OF h, of 0 2 ?x] by (auto simp: st_image_length st_large_def cu_getData_def)
qed

text \<open>
  Iterating with \<^verbatim>\<open>ChunkUtil::next\<close> from offset 0 visits every object of a data chunk in order:
  at the offset of an object it returns the object's key, key size and large flag and the offset of
  the following object, and after the last object it reports the end.
\<close>

theorem chunk_next_iterates:
  assumes "chunk_holds cs m p (xs @ ys)"
  shows "cu_next cs m p (of_nat (used cs xs)) =
    (case ys of
       [] \<Rightarrow> Some None
     | y # _ \<Rightarrow> Some (Some (of_nat (used cs (xs @ [y])), cu_getData p + used cs xs + 4, st_keySize y, st_large cs y)))
    \<and> (\<forall>y zs. ys = y # zs \<longrightarrow>
         peek m (cu_getData p + used cs xs + 4) (unat (st_keySize y)) = Some (st_key y))"
proof (cases ys)
  case Nil
  have u: "used cs xs \<le> unat cs"
    and pk: "peek m (cu_getData p) (unat cs) = Some (concat (map (st_image cs) xs) @ replicate (unat cs - used cs xs) 0)"
    using assms Nil by (auto simp: chunk_holds_def)
  have off: "unat (of_nat (used cs xs) :: u32) = used cs xs"
    using u unat_u32_less [of cs] by (intro unat_of_nat_eq) simp
  have "peek m (cu_getData p + used cs xs) (unat cs - used cs xs) = Some (replicate (unat cs - used cs xs) 0)"
    using peek_split [of m "cu_getData p" "used cs xs" "unat cs - used cs xs"] u pk by (simp add: used_def)
  from zeros_deserialize [OF this, of cs] have "cu_next cs m p (of_nat (used cs xs)) = Some None"
    by (auto simp: cu_next_def Let_def off isLarge_def object_size_def word_less_nat_alt)
  with Nil show ?thesis by simp
next
  case (Cons y zs)
  have h: "chunk_holds cs m p (xs @ y # zs)" using assms Cons by simp
  then have "length (st_key y) = unat (st_keySize y)" by (simp add: chunk_holds_def st_wf_def)
  with object_image_parts(1) [OF poke_peek_id [OF holds_object [OF h], unfolded st_image_def]] holds_next [OF h] Cons
  show ?thesis by simp
qed

theorem chunk_next_iterates_witness:
  "chunk_holds 32 (replicate 40 0) 0 ([] @ []) \<and> cu_next 32 (replicate 40 0) 0 0 = Some None"
proof -
  have h: "chunk_holds 32 (replicate 40 0) 0 ([] @ [])"
    by (simp add: chunk_holds_def peek_def cu_getData_def seg_def)
  show ?thesis using h chunk_next_iterates [OF h] by simp
qed

text \<open>
  \<^verbatim>\<open>ChunkUtil::computeDelta\<close> returns the XOR of the old and the new bytes and, when asked to apply
  the update, leaves exactly the new bytes in the chunk; XORing the delta into any buffer that holds
  the old bytes gives the new ones.
\<close>

theorem compute_delta_applies:
  assumes "cu_getData p + unat off + unat len \<le> length m" and "unat len \<le> length delta"
    and "length newData = unat len"
  shows "\<exists>delta' m'. cu_computeDelta m p delta newData off len True = Some (delta', m')
     \<and> take (unat len) delta' = map2 (\<lambda>x y. x XOR y) (seg (cu_getData p + unat off) (unat len) m) newData
     \<and> peek m' (cu_getData p + unat off) (unat len) = Some newData
     \<and> (\<forall>q n. q + n \<le> cu_getData p + unat off \<or> cu_getData p + unat off + unat len \<le> q \<longrightarrow> peek m' q n = peek m q n)
     \<and> cu_computeDelta m p delta newData off len False = Some (delta', m)"
proof -
  let ?d = "cu_getData p + unat off" and ?n = "unat len"
  let ?old = "seg ?d ?n m" and ?x = "xor_bytes (seg ?d ?n m) newData"
  have l: "length ?old = ?n" "length ?x = ?n" using assms by simp_all
  obtain delta' where d: "bitwiseXOR delta 0 m ?d newData 0 len = Some delta'" "poke delta 0 ?x = Some delta'"
    using assms l bitwiseXOR_poke [of 0 len delta ?d m 0 newData] by (auto simp: poke_def seg_def)
  have dx: "seg 0 ?n delta' = ?x" "?n \<le> length delta'"
    using peek_poke_same [OF d(2)] length_poke [OF d(2)] l assms(2) by (simp_all add: peek_def)
  have "xor_bytes ?old ?x = newData"
    using assms(3) l by (intro xor_bytes_cancel) simp
  then have "bitwiseXOR_self m ?d delta' 0 len = poke m ?d newData"
    using assms dx by (simp add: bitwiseXOR_self_poke)
  then obtain m' where m': "bitwiseXOR_self m ?d delta' 0 len = Some m'" "poke m ?d newData = Some m'"
    using assms by (simp add: poke_def)
  have "cu_computeDelta m p delta newData off len b = Some (delta', if b then m' else m)" for b
    using d(1) m'(1) by (simp add: cu_computeDelta_def Let_def)
  moreover have "take ?n delta' = ?x" using dx by (simp add: seg_def)
  ultimately show ?thesis
    using peek_poke_same [OF m'(2)] peek_poke_other [OF m'(2)] assms(3) by simp
qed

theorem compute_delta_applies_witness:
  "\<exists>delta' m'. cu_computeDelta (replicate 12 5) 0 [0, 0] [7, 9] 1 2 True = Some (delta', m')
     \<and> peek m' 9 2 = Some [7, 9]"
  using compute_delta_applies [of 0 1 2 "replicate 12 5" "[0, 0]" "[7, 9]"]
  by (auto simp: cu_getData_def)

text \<open>
  \<^verbatim>\<open>ChunkUtil::deleteObject\<close> with a delta buffer leaves the last four bytes of the object (value
  bytes, since the four-byte header is not counted in the length that is XORed) as they were in the
  chunk, although the call without a delta buffer clears them.
\<close>

theorem delete_with_delta_leaves_tail:
  assumes "cu_deleteObject cs m p off (Some delta) = Some (len, delta', m')"
    and "cu_deleteObject cs m p off None = Some (len, x, m0)" and "unat len + 4 < 2 ^ 32"
  shows "peek m' (cu_getData p + unat off + unat len) 4 = peek m (cu_getData p + unat off + unat len) 4
    \<and> peek m0 (cu_getData p + unat off + unat len) 4 = Some [0, 0, 0, 0]"
proof -
  let ?d = "cu_getData p + unat off"
  obtain ob where ob: "deserialize cs m ?d = Some ob" "len = ucast (obj_keySize ob) + obj_valueSize ob"
    using assms(1) by (auto simp: cu_deleteObject_def Let_def bind_eq_Some_conv)
  obtain d2 where "bitwiseXOR_self m ?d d2 0 len = Some m'"
    using assms(1) by (auto simp: cu_deleteObject_def Let_def bind_eq_Some_conv)
  from xor_self_local [OF this] have
    "peek m' (?d + unat len) 4 = peek m (?d + unat len) 4" by simp
  moreover have "poke m ?d (replicate (unat (4 + len)) 0) = Some m0" "unat (4 + len) = unat len + 4"
    using assms(2) ob assms(3) by (auto simp: cu_deleteObject_def Let_def bind_eq_Some_conv unat_plus_eq)
  then have "peek m0 ?d (unat len + 4) = Some (replicate (unat len) 0 @ replicate 4 0)"
    using peek_poke_same [of m ?d "replicate (unat (4 + len)) 0" m0] by (simp add: replicate_add)
  then have "peek m0 (?d + unat len) 4 = Some (replicate 4 0)" by (drule_tac peek_split) simp_all
  ultimately show ?thesis by (simp add: numeral_eq_Suc)
qed

theorem delete_with_delta_leaves_tail_witness:
  "\<exists>m'. map_option (\<lambda>(len, x, m'). m') (cu_deleteObject 32 [0, 0, 0, 0, 0, 0, 0, 0, 1, 0, 0, 4, 107, 5, 6, 7, 8] 0 0
          (Some (replicate 9 0))) = Some m'
      \<and> peek m' 13 4 = Some [5, 6, 7, 8]"
proof -
  let ?m = "[0, 0, 0, 0, 0, 0, 0, 0, 1, 0, 0, 4, 107, 5, 6, 7, 8] :: byte list"
  have ds: "deserialize 32 ?m 8 = Some \<lparr>obj_key = 12, obj_keySize = 1, obj_value = 13, obj_valueSize = 4, obj_splitOffset = 0\<rparr>"
    by (simp add: deserialize_def load_byte_def readSplitOffset_def of_be32_def isLarge_def)
  obtain d' m' where a: "cu_deleteObject 32 ?m 0 0 (Some (replicate 9 0)) = Some (5, d', m')"
    by (simp add: cu_deleteObject_def ds cu_getData_def setSize_def bitwiseXOR_self_poke poke_def be32_def)
  obtain m0 where b: "cu_deleteObject 32 ?m 0 0 None = Some (5, None, m0)"
    by (simp add: cu_deleteObject_def ds cu_getData_def poke_def)
  from delete_with_delta_leaves_tail [OF a b] a show ?thesis
    by (simp add: cu_getData_def peek_def seg_def)
qed

text \<open>
  C38. On a chunk pool of less than \<open>2 ^ 32\<close> bytes, which the 32-bit product in \<^verbatim>\<open>alloc\<close> can address, and that is not exhausted, \<^verbatim>\<open>ChunkPool::alloc\<close> returns the next unused chunk,
  inside the pool and disjoint from all chunks handed out before, whose contents it leaves
  unchanged; it writes the identifier, and \<^verbatim>\<open>getChunk\<close> maps every object address inside the new
  chunk back to it. An exhausted pool returns null and does not change. (For larger pools see \<open>chunk_pool_overlap\<close> below.)
\<close>

theorem chunk_pool_alloc:
  assumes "cp_wf cs cp"
  shows "(if cp_count cp = cp_total cp then cp_alloc cs cp l s c = Some (None, cp)
    else \<exists>cp'. let q = unat (cp_count cp) * (8 + unat cs) in
       cp_alloc cs cp l s c = Some (Some q, cp') \<and> cp_wf cs cp'
       \<and> unat (cp_count cp') = unat (cp_count cp) + 1 \<and> q + 8 + unat cs \<le> length (cp_mem cp')
       \<and> cu_getMetadata (cp_mem cp') q = Some (md_set (ucast (ucast l :: u8)) s (ucast (ucast c :: u8)))
       \<and> (\<forall>r n. r + n \<le> q \<longrightarrow> peek (cp_mem cp') r n = peek (cp_mem cp) r n)
       \<and> (\<forall>off < unat cs. cp_getChunk cs (q + 8 + off) = (q, of_nat off)))"
proof (cases "cp_count cp = cp_total cp")
  case True
  then show ?thesis using cp_alloc_full [OF assms] by simp
next
  case False
  let ?q = "unat (cp_count cp) * (8 + unat cs)"
  have "unat (cp_count cp) \<noteq> unat (cp_total cp)" using False by (metis of_nat_unat_eq)
  then have room: "unat (cp_count cp) < unat (cp_total cp)" using assms by (simp add: cp_wf_def)
  then have "Suc (unat (cp_count cp)) * (8 + unat cs) \<le> unat (cp_total cp) * (8 + unat cs)"
    by (intro mult_le_mono1) simp
  moreover have n: "8 + unat cs < 2 ^ 32" using assms by (simp add: cp_wf_def)
  ultimately show ?thesis
    using cp_alloc_step [OF assms room, of l s c] cp_getChunk_inverse [OF n, of _ "unat (cp_count cp)"] False
    by (auto simp: Let_def cp_isInChunkPool_def cp_wf_def)
qed

theorem chunk_pool_alloc_witness:
  "\<exists>cp cp'. cp_init 4 30 = Some cp \<and> cp_alloc 4 cp 1 7 2 = Some (Some 0, cp')
     \<and> cu_getMetadata (cp_mem cp') 0 = Some (md_set 1 7 2)"
proof -
  obtain cp where cp: "cp_init 4 30 = Some cp" "cp_count cp = 0" by (simp add: cp_init_def)
  then have w: "cp_wf 4 cp" "unat (cp_total cp) = 2" using cp_init_wf [of 4 30 cp] by simp_all
  then have "cp_count cp \<noteq> cp_total cp" using cp(2) by auto
  with chunk_pool_alloc [OF w(1), of 1 7 2] cp show ?thesis by (auto simp: Let_def)
qed

text \<open>
  The address of a chunk is the product of two 32-bit numbers. In a pool of \<open>2 ^ 32\<close> bytes or more it wraps around: \<^verbatim>\<open>alloc\<close>
  hands out, and clears, memory in which an earlier chunk begins at or before the new address and ends behind it.
\<close>

theorem chunk_pool_overlap:
  fixes cs :: u32
  defines "n \<equiv> 8 + unat cs"
  defines "q \<equiv> \<lambda>cp. (unat (cp_count cp) * n) mod 2 ^ 32"
  assumes "n < 2 ^ 32" and "length (cp_mem cp) = unat (cp_total cp) * n" and "cp_count cp < cp_total cp"
    and "2 ^ 32 \<le> unat (cp_count cp) * n" and "q cp + n \<le> (unat (cp_total cp) * n) mod 2 ^ 32"
  shows "\<exists>cp'. cp_alloc cs cp l s c = Some (Some (q cp), cp')
    \<and> (\<exists>i<unat (cp_count cp). i * n \<le> q cp \<and> q cp < i * n + n)"
proof -
  have n: "unat (8 + cs) = n" unfolding n_def by (rule unat_chunk_bytes) (use assms(3) n_def in simp)
  have prod: "unat (x * (8 + cs)) = (unat x * n) mod 2 ^ 32" for x :: u32 by (simp add: unat_word_ariths(2) n)
  have room: "\<not> cp_total cp \<le> cp_count cp" using assms(5) by simp
  have fits: "q cp + n \<le> length (cp_mem cp)" unfolding assms(4) by (rule le_trans [OF assms(7) mod_less_eq_dividend])
  obtain m1 where m1: "cu_clear cs (cp_mem cp) (q cp) = Some m1"
    using fits by (simp add: cu_clear_def poke_def n_def)
  then have "length m1 = length (cp_mem cp)" by (simp add: cu_clear_def length_poke)
  then obtain m2 where m2: "cu_set m1 (q cp) l s c = Some m2"
    using fits by (simp add: cu_set_poke poke_def n_def)
  have "cp_alloc cs cp l s c = Some (Some (q cp), cp\<lparr>cp_count := cp_count cp + 1, cp_mem := m2\<rparr>)"
    using assms(7) m1 m2 room by (simp add: cp_alloc_def Let_def prod n q_def)
  moreover have "q cp div n < unat (cp_count cp)"
  proof -
    have "q cp < unat (cp_count cp) * n" using assms(6) mod_less_divisor [of "2 ^ 32" "unat (cp_count cp) * n"] by (simp add: q_def)
    then show ?thesis by (rule less_mult_imp_div_less)
  qed
  moreover have "q cp div n * n \<le> q cp" by simp
  moreover have "q cp < q cp div n * n + n"
    using div_mult_mod_eq [of "q cp" n] mod_less_divisor [of n "q cp"] unfolding n_def by linarith
  ultimately show ?thesis by blast
qed

end
