(* ===== verification/NormalProtocol.thy ===== *)
theory NormalProtocol
  imports ProtocolBase Chunk
begin

text \<open>
  Messages of fixed layout: \<^verbatim>\<open>common/protocol/normal_protocol.cc\<close> and the fixed-size messages
  of \<^verbatim>\<open>ack_protocol.cc\<close>, \<^verbatim>\<open>address_protocol.cc\<close>, \<^verbatim>\<open>chunk_protocol.cc\<close>,
  \<^verbatim>\<open>heartbeat_protocol.cc\<close>, \<^verbatim>\<open>load_protocol.cc\<close>, \<^verbatim>\<open>register_protocol.cc\<close>,
  \<^verbatim>\<open>seal_protocol.cc\<close>. A generator returns the byte count and the send buffer it wrote.
  Size tests follow C's conversions: a sum that contains a \<^verbatim>\<open>uint32_t\<close> and no \<^verbatim>\<open>size_t\<close> is
  computed modulo \<open>2 ^ 32\<close>, the others are exact; \<^verbatim>\<open>size - offset\<close> is \<^const>\<open>size_sub\<close>.
\<close>

definition finish :: "cursor \<Rightarrow> (nat \<times> memory) option" where
  "finish c = (case c of (m, p, n) \<Rightarrow> Some (n, m))"

text \<open>The messages that write their header last: \<^verbatim>\<open>bytes += this->generateHeader( ..., bytes, ... )\<close>.\<close>

definition finish_header ::
  "Protocol \<Rightarrow> u8 \<Rightarrow> u8 \<Rightarrow> u8 \<Rightarrow> u16 \<Rightarrow> u32 \<Rightarrow> u32 \<Rightarrow> bool \<Rightarrow> cursor \<Rightarrow> (nat \<times> memory) option" where
  "finish_header pr magic to opcode instanceId requestId ts large c =
     (case c of (m, p, n) \<Rightarrow>
        do { (m, _, k) \<leftarrow> generateHeader pr magic to opcode (of_nat n) instanceId requestId m ts large;
             Some (n + k, m) })"

definition split_len :: "bool \<Rightarrow> nat" where
  "split_len large = (if large then SPLIT_OFFSET_SIZE else 0)"

section \<open>Keys\<close>

record KeyHeader =
  kh_keySize :: u8
  kh_key :: "byte list"

definition generateKeyHeader where
  "generateKeyHeader pr magic to opcode instanceId requestId keySize key sendBuf ts large =
     do { c \<leftarrow> generateHeader pr magic to opcode (1 + ucast (keySize :: u8) + of_nat (split_len large)) instanceId requestId
                 (send_arg pr sendBuf) ts large;
          c \<leftarrow> write1Byte c keySize;
          c \<leftarrow> pwrite c key (unat keySize + split_len large);
          finish c }"

definition parseKeyHeader ::
  "Protocol \<Rightarrow> KeyHeader \<Rightarrow> memory option \<Rightarrow> nat \<Rightarrow> nat \<Rightarrow> (bool \<times> KeyHeader) option" where
  "parseKeyHeader pr h buf sz off =
     (let (buf, sz) = recv_args pr buf sz in
      if size_sub sz off < 1 then Some (False, h)
      else do { (keySize, ptr) \<leftarrow> read1Byte (drop off buf);
                Some (size_sub sz off \<ge> 1 + unat keySize, h\<lparr>kh_keySize := keySize, kh_key := ptr\<rparr>) })"

record KeyBackupHeader =
  kb_isParity :: bool
  kb_keySize :: u8
  kb_isLarge :: bool
  kb_timestamp :: u32
  kb_listId :: u32
  kb_stripeId :: u32
  kb_chunkId :: u32
  kb_sealedCount :: u8
  kb_sealed :: "Metadata list"
  kb_key :: "byte list"

fun write_metadata :: "cursor \<Rightarrow> Metadata list \<Rightarrow> cursor option" where
  "write_metadata c [] = Some c"
| "write_metadata c (md # mds) =
     do { c \<leftarrow> write4Bytes c (md_listId md) True;
          c \<leftarrow> write4Bytes c (md_stripeId md) True;
          c \<leftarrow> write4Bytes c (md_chunkId md) True;
          write_metadata c mds }"

definition generateKeyBackupHeader_sealed where
  "generateKeyBackupHeader_sealed pr magic to opcode instanceId requestId timestamp listId stripeId chunkId
       sealed sealedCount keySize key large sendBuf =
     do { c \<leftarrow> generateHeader pr magic to opcode
                 (3 + 17 + ucast (sealedCount :: u8) * 12 + ucast (keySize :: u8) + of_nat (split_len large))
                 instanceId requestId (send_arg pr sendBuf) 0 large;
          c \<leftarrow> write1Byte c (of_bool_byte False);
          c \<leftarrow> write1Byte c keySize;
          c \<leftarrow> write1Byte c (of_bool_byte large);
          c \<leftarrow> write4Bytes c timestamp True;
          c \<leftarrow> write4Bytes c listId True;
          c \<leftarrow> write4Bytes c stripeId True;
          c \<leftarrow> write4Bytes c chunkId True;
          c \<leftarrow> write1Byte c sealedCount;
          c \<leftarrow> (if unat sealedCount \<le> length sealed then write_metadata c (take (unat sealedCount) sealed) else None);
          c \<leftarrow> pwrite c key (unat keySize + split_len large);
          finish c }"

definition generateKeyBackupHeader_data where
  "generateKeyBackupHeader_data pr magic to opcode instanceId requestId timestamp listId stripeId chunkId
       keySize key large sendBuf =
     do { c \<leftarrow> generateHeader pr magic to opcode (3 + 17 + ucast (keySize :: u8) + of_nat (split_len large))
                 instanceId requestId (send_arg pr sendBuf) 0 large;
          c \<leftarrow> write1Byte c (of_bool_byte False);
          c \<leftarrow> write1Byte c keySize;
          c \<leftarrow> write1Byte c (of_bool_byte large);
          c \<leftarrow> write4Bytes c timestamp True;
          c \<leftarrow> write4Bytes c listId True;
          c \<leftarrow> write4Bytes c stripeId True;
          c \<leftarrow> write4Bytes c chunkId True;
          c \<leftarrow> write1Byte c 0;
          c \<leftarrow> pwrite c key (unat keySize + split_len large);
          finish c }"

definition generateKeyBackupHeader_parity where
  "generateKeyBackupHeader_parity pr magic to opcode instanceId requestId keySize key large sendBuf =
     do { c \<leftarrow> generateHeader pr magic to opcode (3 + ucast (keySize :: u8) + of_nat (split_len large))
                 instanceId requestId (send_arg pr sendBuf) 0 large;
          c \<leftarrow> write1Byte c (of_bool_byte True);
          c \<leftarrow> write1Byte c keySize;
          c \<leftarrow> write1Byte c (of_bool_byte large);
          c \<leftarrow> pwrite c key (unat keySize + split_len large);
          finish c }"

fun read_sealed :: "Metadata list \<Rightarrow> nat \<Rightarrow> nat \<Rightarrow> byte list \<Rightarrow> (Metadata list \<times> byte list) option" where
  "read_sealed sealed i 0 ptr = Some (sealed, ptr)"
| "read_sealed sealed i (Suc n) ptr =
     do { (l, ptr) \<leftarrow> read4Bytes ptr True;
          (s, ptr) \<leftarrow> read4Bytes ptr True;
          (c, ptr) \<leftarrow> read4Bytes ptr True;
          if i < length sealed then read_sealed (sealed[i := md_set l s c]) (Suc i) n ptr else None }"

text \<open>
  \<^verbatim>\<open>header.sealed\<close> is an array of two entries: storing a third one is outside the structure,
  and nothing bounds the count read from the message.
\<close>

definition parseKeyBackupHeader ::
  "Protocol \<Rightarrow> KeyBackupHeader \<Rightarrow> memory option \<Rightarrow> nat \<Rightarrow> nat \<Rightarrow> (bool \<times> KeyBackupHeader) option" where
  "parseKeyBackupHeader pr h buf sz off =
     (let (buf, sz) = recv_args pr buf sz in
      if size_sub sz off < 3 then Some (False, h)
      else do { (isParity, ptr) \<leftarrow> read1Byte (drop off buf);
                (keySize, ptr) \<leftarrow> read1Byte ptr;
                (large, ptr) \<leftarrow> read1Byte ptr;
                let h = h\<lparr>kb_isParity := (isParity \<noteq> 0), kb_keySize := keySize, kb_isLarge := (large \<noteq> 0)\<rparr>;
                if kb_isParity h
                then if size_sub sz off < 3 + unat keySize then Some (False, h)
                     else Some (True, h\<lparr>kb_key := ptr\<rparr>)
                else if size_sub sz off < 3 + 17 + unat keySize then Some (False, h)
                else do { (timestamp, ptr) \<leftarrow> read4Bytes ptr True;
                          (listId, ptr) \<leftarrow> read4Bytes ptr True;
                          (stripeId, ptr) \<leftarrow> read4Bytes ptr True;
                          (chunkId, ptr) \<leftarrow> read4Bytes ptr True;
                          (sealedCount, ptr) \<leftarrow> read1Byte ptr;
                          let h = h\<lparr>kb_timestamp := timestamp, kb_listId := listId, kb_stripeId := stripeId,
                                    kb_chunkId := chunkId, kb_sealedCount := sealedCount\<rparr>;
                          if size_sub sz off < 3 + 17 + unat sealedCount * 12 + unat keySize then Some (False, h)
                          else do { (sealed, ptr) \<leftarrow> read_sealed (kb_sealed h) 0 (unat sealedCount) ptr;
                                    Some (True, h\<lparr>kb_sealed := sealed, kb_key := ptr\<rparr>) } } })"

record ChunkKeyHeader =
  ck_listId :: u32
  ck_stripeId :: u32
  ck_chunkId :: u32
  ck_keySize :: u8
  ck_key :: "byte list"

definition generateChunkKeyHeader where
  "generateChunkKeyHeader pr magic to opcode instanceId requestId listId stripeId chunkId keySize key sendBuf ts =
     do { c \<leftarrow> generateHeader pr magic to opcode (13 + ucast (keySize :: u8)) instanceId requestId
                 (send_arg pr sendBuf) ts False;
          c \<leftarrow> write4Bytes c listId True;
          c \<leftarrow> write4Bytes c stripeId True;
          c \<leftarrow> write4Bytes c chunkId True;
          c \<leftarrow> write1Byte c keySize;
          c \<leftarrow> pwrite c key (unat keySize);
          finish c }"

definition parseChunkKeyHeader ::
  "Protocol \<Rightarrow> ChunkKeyHeader \<Rightarrow> memory option \<Rightarrow> nat \<Rightarrow> nat \<Rightarrow> (bool \<times> ChunkKeyHeader) option" where
  "parseChunkKeyHeader pr h buf sz off =
     (let (buf, sz) = recv_args pr buf sz in
      if size_sub sz off < 13 then Some (False, h)
      else do { (listId, ptr) \<leftarrow> read4Bytes (drop off buf) True;
                (stripeId, ptr) \<leftarrow> read4Bytes ptr True;
                (chunkId, ptr) \<leftarrow> read4Bytes ptr True;
                (keySize, ptr) \<leftarrow> read1Byte ptr;
                Some (size_sub sz off \<ge> 13 + unat keySize,
                      h\<lparr>ck_listId := listId, ck_stripeId := stripeId, ck_chunkId := chunkId,
                        ck_keySize := keySize, ck_key := ptr\<rparr>) })"

section \<open>Updates\<close>

record ChunkKeyValueUpdateHeader =
  cku_listId :: u32
  cku_stripeId :: u32
  cku_chunkId :: u32
  cku_keySize :: u8
  cku_valueUpdateSize :: u32
  cku_valueUpdateOffset :: u32
  cku_chunkUpdateOffset :: u32
  cku_isLarge :: bool
  cku_key :: "byte list"
  cku_valueUpdate :: "byte list option"

definition generateChunkKeyValueUpdateHeader where
  "generateChunkKeyValueUpdateHeader pr magic to opcode instanceId requestId listId stripeId chunkId keySize large key
       valueUpdateOffset valueUpdateSize chunkUpdateOffset valueUpdate sendBuf ts =
     do { c \<leftarrow> generateHeader pr magic to opcode
                 (23 + ucast (keySize :: u8) + of_nat (split_len large) + (if valueUpdate \<noteq> None then valueUpdateSize else 0))
                 instanceId requestId (send_arg pr sendBuf) ts False;
          c \<leftarrow> write4Bytes c listId True;
          c \<leftarrow> write4Bytes c stripeId True;
          c \<leftarrow> write4Bytes c chunkId True;
          c \<leftarrow> write1Byte c keySize;
          c \<leftarrow> write3Bytes c valueUpdateSize;
          c \<leftarrow> write3Bytes c valueUpdateOffset;
          c \<leftarrow> write3Bytes c chunkUpdateOffset;
          c \<leftarrow> write1Byte c (of_bool_byte large);
          c \<leftarrow> pwrite c key (unat keySize + split_len large);
          c \<leftarrow> (case valueUpdate of None \<Rightarrow> Some c
                | Some v \<Rightarrow> if valueUpdateSize \<noteq> 0 then pwrite c v (unat valueUpdateSize) else Some c);
          finish c }"

definition parseChunkKeyValueUpdateHeader ::
  "Protocol \<Rightarrow> ChunkKeyValueUpdateHeader \<Rightarrow> bool \<Rightarrow> memory option \<Rightarrow> nat \<Rightarrow> nat
     \<Rightarrow> (bool \<times> ChunkKeyValueUpdateHeader) option" where
  "parseChunkKeyValueUpdateHeader pr h withValueUpdate buf sz off =
     (let (buf, sz) = recv_args pr buf sz in
      if size_sub sz off < 23 then Some (False, h)
      else do { (listId, ptr) \<leftarrow> read4Bytes (drop off buf) True;
                (stripeId, ptr) \<leftarrow> read4Bytes ptr True;
                (chunkId, ptr) \<leftarrow> read4Bytes ptr True;
                (keySize, ptr) \<leftarrow> read1Byte ptr;
                (valueUpdateSize, ptr) \<leftarrow> read3Bytes ptr;
                (valueUpdateOffset, ptr) \<leftarrow> read3Bytes ptr;
                (chunkUpdateOffset, ptr) \<leftarrow> read3Bytes ptr;
                (large, ptr) \<leftarrow> read1Byte ptr;
                let large = (large \<noteq> 0);
                Some (size_sub sz off \<ge> unat (23 + ucast keySize + of_nat (split_len large)
                                              + (if withValueUpdate then valueUpdateSize else 0)),
                      h\<lparr>cku_listId := listId, cku_stripeId := stripeId, cku_chunkId := chunkId, cku_keySize := keySize,
                        cku_valueUpdateSize := valueUpdateSize, cku_valueUpdateOffset := valueUpdateOffset,
                        cku_chunkUpdateOffset := chunkUpdateOffset, cku_isLarge := large, cku_key := ptr,
                        cku_valueUpdate := (if withValueUpdate \<and> valueUpdateSize \<noteq> 0
                                            then Some (drop (unat keySize + split_len large) ptr) else None)\<rparr>) })"

record KeyValueHeader =
  kv_keySize :: u8
  kv_valueSize :: u32
  kv_keyPtr :: "byte list"
  kv_splitOffset :: u32
  kv_value :: "byte list option"

definition generateKeyValueHeader where
  "generateKeyValueHeader pr magic to opcode instanceId requestId keySize key valueSize val sendBuf ts splitOffset splitSize large =
     do { c \<leftarrow> write1Byte (send_arg pr sendBuf, 16, 0) keySize;
          c \<leftarrow> write3Bytes c valueSize;
          c \<leftarrow> pwrite c key (unat (keySize :: u8));
          c \<leftarrow> (if splitSize = 0 \<or> splitSize = valueSize
                then if valueSize \<noteq> 0 then pwrite c val (unat valueSize) else Some c
                else do { c \<leftarrow> write3Bytes c splitOffset;
                          let splitSize = piece_size valueSize splitOffset splitSize;
                          if valueSize \<noteq> 0 then pwrite c val (unat splitSize) else Some c });
          finish_header pr magic to opcode instanceId requestId ts large c }"

definition parseKeyValueHeader ::
  "u32 \<Rightarrow> Protocol \<Rightarrow> KeyValueHeader \<Rightarrow> memory option \<Rightarrow> nat \<Rightarrow> nat \<Rightarrow> bool \<Rightarrow> bool \<Rightarrow> (bool \<times> KeyValueHeader) option" where
  "parseKeyValueHeader cs pr h buf sz off enableSplit large =
     (let (buf, sz) = recv_args pr buf sz in
      if size_sub sz off < 4 then Some (False, h)
      else do { (keySize, ptr) \<leftarrow> read1Byte (drop off buf);
                (valueSize, ptr) \<leftarrow> read3Bytes ptr;
                let h = h\<lparr>kv_keySize := keySize, kv_valueSize := valueSize, kv_keyPtr := ptr\<rparr>;
                let ptr = drop (unat keySize) ptr;
                (isL, _, splitSize) \<leftarrow> (if enableSplit then isLarge cs keySize valueSize else Some (False, 0, 0));
                if isL
                then do { (splitOffset, ptr) \<leftarrow> read3Bytes ptr;
                          let h = h\<lparr>kv_splitOffset := splitOffset\<rparr>;
                          if size_sub sz off < unat (4 + 3 + ucast keySize + piece_size valueSize splitOffset splitSize)
                          then Some (False, h)
                          else Some (True, h\<lparr>kv_value := (if valueSize \<noteq> 0 then Some ptr else None)\<rparr>) }
                else do { let h = h\<lparr>kv_splitOffset := 0\<rparr>;
                          if size_sub sz off < unat (4 + ucast keySize + valueSize) then Some (False, h)
                          else let ptr = (if large then drop 3 ptr else ptr) in
                               Some (True, h\<lparr>kv_value := (if valueSize \<noteq> 0 then Some ptr else None)\<rparr>) } })"

record KeyValueUpdateHeader =
  kvu_keySize :: u8
  kvu_valueUpdateSize :: u32
  kvu_valueUpdateOffset :: u32
  kvu_key :: "byte list"
  kvu_valueUpdate :: "byte list option"

definition generateKeyValueUpdateHeader where
  "generateKeyValueUpdateHeader pr magic to opcode instanceId requestId keySize key valueUpdateOffset valueUpdateSize valueUpdate sendBuf ts =
     do { c \<leftarrow> generateHeader pr magic to opcode (7 + ucast (keySize :: u8) + (if valueUpdate \<noteq> None then valueUpdateSize else 0))
                 instanceId requestId (send_arg pr sendBuf) ts False;
          c \<leftarrow> write1Byte c keySize;
          c \<leftarrow> write3Bytes c valueUpdateSize;
          c \<leftarrow> write3Bytes c valueUpdateOffset;
          c \<leftarrow> pwrite c key (unat keySize);
          c \<leftarrow> (case valueUpdate of None \<Rightarrow> Some c
                | Some v \<Rightarrow> if valueUpdateSize \<noteq> 0 then pwrite c v (unat valueUpdateSize) else Some c);
          finish c }"

definition parseKeyValueUpdateHeader ::
  "Protocol \<Rightarrow> KeyValueUpdateHeader \<Rightarrow> bool \<Rightarrow> memory option \<Rightarrow> nat \<Rightarrow> nat \<Rightarrow> (bool \<times> KeyValueUpdateHeader) option" where
  "parseKeyValueUpdateHeader pr h withValueUpdate buf sz off =
     (let (buf, sz) = recv_args pr buf sz in
      if size_sub sz off < 7 then Some (False, h)
      else do { (keySize, ptr) \<leftarrow> read1Byte (drop off buf);
                (valueUpdateSize, ptr) \<leftarrow> read3Bytes ptr;
                (valueUpdateOffset, ptr) \<leftarrow> read3Bytes ptr;
                Some (size_sub sz off \<ge> unat (7 + ucast keySize + (if withValueUpdate then valueUpdateSize else 0)),
                      h\<lparr>kvu_keySize := keySize, kvu_valueUpdateSize := valueUpdateSize,
                        kvu_valueUpdateOffset := valueUpdateOffset, kvu_key := ptr,
                        kvu_valueUpdate := (if withValueUpdate \<and> valueUpdateSize \<noteq> 0
                                            then Some (drop (unat keySize) ptr) else None)\<rparr>) })"

record ChunkUpdateHeader =
  cup_listId :: u32
  cup_stripeId :: u32
  cup_chunkId :: u32
  cup_offset :: u32
  cup_length :: u32
  cup_updatingChunkId :: u32
  cup_delta :: "byte list option"

definition generateChunkUpdateHeader where
  "generateChunkUpdateHeader pr magic to opcode instanceId requestId listId stripeId chunkId off len updatingChunkId delta sendBuf ts =
     do { c \<leftarrow> generateHeader pr magic to opcode (if delta \<noteq> None then 24 + len else 24) instanceId requestId
                 (send_arg pr sendBuf) ts False;
          c \<leftarrow> write4Bytes c listId True;
          c \<leftarrow> write4Bytes c stripeId True;
          c \<leftarrow> write4Bytes c chunkId True;
          c \<leftarrow> write4Bytes c off True;
          c \<leftarrow> write4Bytes c len True;
          c \<leftarrow> write4Bytes c updatingChunkId True;
          c \<leftarrow> (case delta of None \<Rightarrow> Some c | Some d \<Rightarrow> pwrite c d (unat len));
          finish c }"

text \<open>The final size test adds the 32-bit length to 24 in 32-bit arithmetic.\<close>

definition parseChunkUpdateHeader ::
  "Protocol \<Rightarrow> ChunkUpdateHeader \<Rightarrow> bool \<Rightarrow> memory option \<Rightarrow> nat \<Rightarrow> nat \<Rightarrow> (bool \<times> ChunkUpdateHeader) option" where
  "parseChunkUpdateHeader pr h withDelta buf sz off =
     (let (buf, sz) = recv_args pr buf sz in
      if size_sub sz off < 24 then Some (False, h)
      else do { (listId, ptr) \<leftarrow> read4Bytes (drop off buf) True;
                (stripeId, ptr) \<leftarrow> read4Bytes ptr True;
                (chunkId, ptr) \<leftarrow> read4Bytes ptr True;
                (offs, ptr) \<leftarrow> read4Bytes ptr True;
                (len, ptr) \<leftarrow> read4Bytes ptr True;
                (updatingChunkId, ptr) \<leftarrow> read4Bytes ptr True;
                Some (size_sub sz off \<ge> unat (24 + (if withDelta then len else 0)),
                      h\<lparr>cup_listId := listId, cup_stripeId := stripeId, cup_chunkId := chunkId, cup_offset := offs,
                        cup_length := len, cup_updatingChunkId := updatingChunkId,
                        cup_delta := (if withDelta \<and> len \<noteq> 0 then Some ptr else None)\<rparr>) })"

section \<open>The contract of a message format\<close>

locale wire_format =
  fixes ok :: "'a \<Rightarrow> bool"
    and enc :: "'a \<Rightarrow> memory \<Rightarrow> (nat \<times> memory) option"
    and dec :: "memory \<Rightarrow> nat \<Rightarrow> 'a option"
    and sz :: "'a \<Rightarrow> nat"
  assumes fits: "ok x \<Longrightarrow> (enc x sb \<noteq> None) = (sz x \<le> length sb)"
    and frame: "ok x \<Longrightarrow> enc x sb = Some (n, m) \<Longrightarrow> n = sz x \<and> length m = length sb \<and> drop n m = drop n sb"
    and dec_enc: "ok x \<Longrightarrow> enc x sb = Some (n, m) \<Longrightarrow> dec m n = Some x"
begin

lemma unambiguous: "ok x \<Longrightarrow> ok y \<Longrightarrow> enc x sb = Some r \<Longrightarrow> enc y sb' = Some r \<Longrightarrow> x = y"
  using dec_enc by (cases r) (metis option.inject)

lemma total:
  assumes "ok x" and "sz x \<le> length sb"
  shows "\<exists>m. enc x sb = Some (sz x, m) \<and> dec m (sz x) = Some x \<and> drop (sz x) m = drop (sz x) sb"
proof -
  obtain n m where "enc x sb = Some (n, m)" using fits [OF assms(1)] assms(2) by (metis not_None_eq surj_pair)
  with frame [OF assms(1) this] dec_enc [OF assms(1) this] show ?thesis by auto
qed

end

text \<open>A message that is written as one run of bytes from the start of the send buffer.\<close>

locale framed_message =
  fixes ok :: "'a \<Rightarrow> bool"
    and img :: "'a \<Rightarrow> byte list"
    and enc :: "'a \<Rightarrow> memory \<Rightarrow> (nat \<times> memory) option"
    and dec :: "memory \<Rightarrow> nat \<Rightarrow> 'a option"
  assumes enc_img: "ok x \<Longrightarrow> enc x sb =
      (if length (img x) \<le> length sb then Some (length (img x), img x @ drop (length (img x)) sb) else None)"
    and dec_img: "ok x \<Longrightarrow> dec (img x @ r) (length (img x)) = Some x"

sublocale framed_message \<subseteq> wire: wire_format ok enc dec "\<lambda>x. length (img x)"
  by unfold_locales (auto simp: enc_img dec_img split: if_splits)

section \<open>Lemmas\<close>

lemma finish_put:
  "put bs (sb, 0, 0) \<bind> finish =
     (if length bs \<le> length sb then Some (length bs, bs @ drop (length bs) sb) else None)"
  by (simp add: put_start finish_def)

lemma finish_header_put:
  "put bs (sb, 16, 0) \<bind> finish_header pr magic to opcode instanceId requestId ts large =
     (let h = header_image pr magic to opcode (of_nat (length bs)) instanceId requestId ts large in
      if length (h @ bs) \<le> length sb then Some (length (h @ bs), (h @ bs) @ drop (length (h @ bs)) sb) else None)"
  by (auto simp: put_at finish_header_def generateHeader_put put_start Let_def)

lemma recv_args_Some [simp]: "0 < n \<Longrightarrow> recv_args pr (Some b) n = (b, n)"
  by (simp add: recv_args_def)

lemma drop_header [simp]: "drop 16 (header_image pr magic to opcode len instanceId requestId ts large @ r) = r"
  using length_header_image by (metis append_eq_conv_conj)

lemma parseHeader_image:
  assumes "16 \<le> n" and "pr_to pr' = to AND 0x60" and "opcode \<in> set valid_opcodes"
  shows "parseHeader pr' h (Some (header_image pr magic to opcode len instanceId requestId ts large @ r)) n =
    Some (True, h\<lparr>ph_magic := magic AND 0x07, ph_from := pr_from pr AND 0x18, ph_to := to AND 0x60,
                  ph_isLarge := large, ph_opcode := opcode, ph_length := len,
                  ph_instanceId := instanceId, ph_requestId := requestId, ph_timestamp := ts\<rparr>)"
proof -
  have "x AND 7 \<le> 7" for x :: u8 by (simp add: word_and_le1)
  moreover have "x AND 0x18 \<in> {0, 0x08, 0x10, 0x18}" for x :: u8
    using from_bits [of x] .
  ultimately show ?thesis
    using assms by (simp add: parseHeader_def header_image_def read_simps magic_byte_parts)
qed

section \<open>Requests as messages\<close>

text \<open>
  A request as its receiver sees it: the message header is parsed first, then the body at offset
  16, and the pointers of the body are followed. \<open>h\<close> and \<open>b\<close> are the contents of the
  receiver's structures before the call.
\<close>

definition get_body where
  "get_body pr h m n body = do { (good, h) \<leftarrow> parseHeader pr h (Some m) n; if good then body h else None }"

definition message_ok :: "Protocol \<Rightarrow> u8 \<Rightarrow> u8 \<Rightarrow> bool" where
  "message_ok pr' to opcode \<longleftrightarrow> pr_to pr' = to AND 0x60 \<and> opcode \<in> set valid_opcodes"

lemma get_body_image:
  assumes "message_ok pr' to opcode" and "16 \<le> n"
  shows "get_body pr' h (header_image pr magic to opcode len instanceId requestId ts large @ r) n body =
    body (h\<lparr>ph_magic := magic AND 0x07, ph_from := pr_from pr AND 0x18, ph_to := to AND 0x60,
                  ph_isLarge := large, ph_opcode := opcode, ph_length := len,
                  ph_instanceId := instanceId, ph_requestId := requestId, ph_timestamp := ts\<rparr>)"
  using assms by (simp add: get_body_def message_ok_def parseHeader_image)

subsection \<open>Key messages (GET, DELETE, ...)\<close>

type_synonym key_msg = "u8 \<times> byte list \<times> bool"

definition key_msg_ok :: "Protocol \<Rightarrow> u8 \<Rightarrow> u8 \<Rightarrow> key_msg \<Rightarrow> bool" where
  "key_msg_ok pr' to opcode x = (case x of (keySize, key, large) \<Rightarrow>
     message_ok pr' to opcode \<and> length key = unat keySize + split_len large)"

definition key_msg_img :: "Protocol \<Rightarrow> u8 \<Rightarrow> u8 \<Rightarrow> u8 \<Rightarrow> u16 \<Rightarrow> u32 \<Rightarrow> u32 \<Rightarrow> key_msg \<Rightarrow> byte list" where
  "key_msg_img pr magic to opcode instanceId requestId ts x = (case x of (keySize, key, large) \<Rightarrow>
     header_image pr magic to opcode (1 + ucast keySize + of_nat (split_len large)) instanceId requestId ts large
       @ [keySize] @ key)"

definition key_msg_enc :: "Protocol \<Rightarrow> u8 \<Rightarrow> u8 \<Rightarrow> u8 \<Rightarrow> u16 \<Rightarrow> u32 \<Rightarrow> u32 \<Rightarrow> key_msg \<Rightarrow> memory \<Rightarrow> (nat \<times> memory) option" where
  "key_msg_enc pr magic to opcode instanceId requestId ts x sb = (case x of (keySize, key, large) \<Rightarrow>
     generateKeyHeader pr magic to opcode instanceId requestId keySize key (Some sb) ts large)"

definition key_msg_dec :: "Protocol \<Rightarrow> ProtocolHeader \<Rightarrow> KeyHeader \<Rightarrow> memory \<Rightarrow> nat \<Rightarrow> key_msg option" where
  "key_msg_dec pr' h b m n = get_body pr' h m n (\<lambda>h.
     do { (good, b) \<leftarrow> parseKeyHeader pr' b (Some m) n 16;
          if good then Some (kh_keySize b, take (unat (kh_keySize b) + split_len (ph_isLarge h)) (kh_key b), ph_isLarge h)
          else None })"

interpretation key_message: framed_message "key_msg_ok pr' to opcode"
  "key_msg_img pr magic to opcode instanceId requestId ts" "key_msg_enc pr magic to opcode instanceId requestId ts"
  "key_msg_dec pr' h b"
proof unfold_locales
  fix x :: key_msg and sb r
  assume "key_msg_ok pr' to opcode x"
  then obtain keySize key large where x: "x = (keySize, key, large)"
    and ok: "message_ok pr' to opcode" and key: "length key = unat keySize + split_len large"
    by (auto simp: key_msg_ok_def)
  show "key_msg_enc pr magic to opcode instanceId requestId ts x sb =
      (if length (key_msg_img pr magic to opcode instanceId requestId ts x) \<le> length sb
       then Some (length (key_msg_img pr magic to opcode instanceId requestId ts x),
                  key_msg_img pr magic to opcode instanceId requestId ts x
                  @ drop (length (key_msg_img pr magic to opcode instanceId requestId ts x)) sb) else None)"
    by (simp add: x key_msg_enc_def key_msg_img_def generateKeyHeader_def pwrite_ok key write_simps send_arg_def finish_put)
  show "key_msg_dec pr' h b (key_msg_img pr magic to opcode instanceId requestId ts x @ r)
      (length (key_msg_img pr magic to opcode instanceId requestId ts x)) = Some x"
    using key by (simp add: x key_msg_dec_def key_msg_img_def get_body_image [OF ok] parseKeyHeader_def read_simps)
qed

subsection \<open>Update messages\<close>

text \<open>Key, offset of the update in the value, and the new bytes.\<close>

type_synonym update_msg = "u8 \<times> byte list \<times> u32 \<times> byte list"

definition update_msg_ok :: "Protocol \<Rightarrow> u8 \<Rightarrow> u8 \<Rightarrow> update_msg \<Rightarrow> bool" where
  "update_msg_ok pr' to opcode x = (case x of (keySize, key, off, v) \<Rightarrow>
     message_ok pr' to opcode \<and> length key = unat keySize \<and> off < 2 ^ 24 \<and> length v < 2 ^ 24)"

definition update_msg_img :: "Protocol \<Rightarrow> u8 \<Rightarrow> u8 \<Rightarrow> u8 \<Rightarrow> u16 \<Rightarrow> u32 \<Rightarrow> u32 \<Rightarrow> update_msg \<Rightarrow> byte list" where
  "update_msg_img pr magic to opcode instanceId requestId ts x = (case x of (keySize, key, off, v) \<Rightarrow>
     header_image pr magic to opcode (7 + ucast keySize + of_nat (length v)) instanceId requestId ts False
       @ [keySize] @ be24 (of_nat (length v)) @ be24 off @ key @ v)"

definition update_msg_enc ::
  "Protocol \<Rightarrow> u8 \<Rightarrow> u8 \<Rightarrow> u8 \<Rightarrow> u16 \<Rightarrow> u32 \<Rightarrow> u32 \<Rightarrow> update_msg \<Rightarrow> memory \<Rightarrow> (nat \<times> memory) option" where
  "update_msg_enc pr magic to opcode instanceId requestId ts x sb = (case x of (keySize, key, off, v) \<Rightarrow>
     generateKeyValueUpdateHeader pr magic to opcode instanceId requestId keySize key off (of_nat (length v)) (Some v) (Some sb) ts)"

definition update_msg_dec :: "Protocol \<Rightarrow> ProtocolHeader \<Rightarrow> KeyValueUpdateHeader \<Rightarrow> memory \<Rightarrow> nat \<Rightarrow> update_msg option" where
  "update_msg_dec pr' h b m n = get_body pr' h m n (\<lambda>h.
     do { (good, b) \<leftarrow> parseKeyValueUpdateHeader pr' b True (Some m) n 16;
          if good
          then Some (kvu_keySize b, take (unat (kvu_keySize b)) (kvu_key b), kvu_valueUpdateOffset b,
                     case kvu_valueUpdate b of None \<Rightarrow> [] | Some v \<Rightarrow> take (unat (kvu_valueUpdateSize b)) v)
          else None })"

lemma of_nat_24:
  assumes "n < 2 ^ 24"
  shows "(of_nat n :: u32) < 2 ^ 24" and "unat (of_nat n :: u32) = n" and "(of_nat n = (0 :: u32)) = (n = 0)"
proof -
  show u: "unat (of_nat n :: u32) = n" using assms by (intro unat_of_nat_eq) simp
  then show "(of_nat n :: u32) < 2 ^ 24" using assms by (simp add: word_less_nat_alt)
  show "(of_nat n = (0 :: u32)) = (n = 0)"
  proof
    assume "of_nat n = (0 :: u32)"
    then have "unat (of_nat n :: u32) = unat (0 :: u32)" by (rule arg_cong)
    with u show "n = 0" by (simp only: unat_0)
  qed simp
qed

lemma unat_body_size:
  "n < 2 ^ 24 \<Longrightarrow> c < 2 ^ 24 \<Longrightarrow> unat (of_nat c + ucast (keySize :: u8) + of_nat n :: u32) = c + unat keySize + n"
proof -
  assume n: "n < 2 ^ 24" and c: "c < 2 ^ 24"
  have "unat (of_nat c + ucast keySize :: u32) = c + unat keySize"
    using c unat_u8_less [of keySize] by (subst unat_plus_eq) (simp_all add: of_nat_24)
  then show ?thesis
    using n c unat_u8_less [of keySize] by (subst unat_plus_eq) (simp_all add: of_nat_24)
qed

interpretation update_message: framed_message "update_msg_ok pr' to opcode"
  "update_msg_img pr magic to opcode instanceId requestId ts" "update_msg_enc pr magic to opcode instanceId requestId ts"
  "update_msg_dec pr' h b"
proof unfold_locales
  fix x :: update_msg and sb r
  assume "update_msg_ok pr' to opcode x"
  then obtain keySize key off v where x: "x = (keySize, key, off, v)"
    and ok: "message_ok pr' to opcode" and key: "length key = unat keySize" and off: "off < 2 ^ 24" and v: "length v < 2 ^ 24"
    by (auto simp: update_msg_ok_def)
  note n = of_nat_24 [OF v]
  show "update_msg_enc pr magic to opcode instanceId requestId ts x sb =
      (if length (update_msg_img pr magic to opcode instanceId requestId ts x) \<le> length sb
       then Some (length (update_msg_img pr magic to opcode instanceId requestId ts x),
                  update_msg_img pr magic to opcode instanceId requestId ts x
                  @ drop (length (update_msg_img pr magic to opcode instanceId requestId ts x)) sb) else None)"
    by (cases "v = []")
      (simp_all add: x update_msg_enc_def update_msg_img_def generateKeyValueUpdateHeader_def pwrite_ok key n
        write_simps send_arg_def finish_put)
  show "update_msg_dec pr' h b (update_msg_img pr magic to opcode instanceId requestId ts x @ r)
      (length (update_msg_img pr magic to opcode instanceId requestId ts x)) = Some x"
    using key n off v unat_body_size [OF v, of 7 keySize]
    by (simp add: x update_msg_dec_def update_msg_img_def get_body_image [OF ok] parseKeyValueUpdateHeader_def read_simps
        split: option.splits)
qed

subsection \<open>Object messages (SET)\<close>

text \<open>The body of the message is the image of the object in a chunk.\<close>

definition set_msg_ok :: "u32 \<Rightarrow> Protocol \<Rightarrow> u8 \<Rightarrow> u8 \<Rightarrow> stored \<Rightarrow> bool" where
  "set_msg_ok cs pr' to opcode x \<longleftrightarrow> message_ok pr' to opcode \<and> st_wf cs x"

definition set_msg_img :: "u32 \<Rightarrow> Protocol \<Rightarrow> u8 \<Rightarrow> u8 \<Rightarrow> u8 \<Rightarrow> u16 \<Rightarrow> u32 \<Rightarrow> u32 \<Rightarrow> stored \<Rightarrow> byte list" where
  "set_msg_img cs pr magic to opcode instanceId requestId ts x =
     header_image pr magic to opcode (of_nat (length (st_image cs x))) instanceId requestId ts (st_large cs x) @ st_image cs x"

definition set_msg_enc ::
  "u32 \<Rightarrow> Protocol \<Rightarrow> u8 \<Rightarrow> u8 \<Rightarrow> u8 \<Rightarrow> u16 \<Rightarrow> u32 \<Rightarrow> u32 \<Rightarrow> stored \<Rightarrow> memory \<Rightarrow> (nat \<times> memory) option" where
  "set_msg_enc cs pr magic to opcode instanceId requestId ts x sb =
     do { (large, _, splitSize) \<leftarrow> isLarge cs (st_keySize x) (st_valueSize x);
          generateKeyValueHeader pr magic to opcode instanceId requestId (st_keySize x) (st_key x) (st_valueSize x) (st_val x)
            (Some sb) ts (st_splitOffset x) splitSize large }"

definition set_msg_dec :: "u32 \<Rightarrow> Protocol \<Rightarrow> ProtocolHeader \<Rightarrow> KeyValueHeader \<Rightarrow> memory \<Rightarrow> nat \<Rightarrow> stored option" where
  "set_msg_dec cs pr' h b m n = get_body pr' h m n (\<lambda>h.
     do { (good, b) \<leftarrow> parseKeyValueHeader cs pr' b (Some m) n 16 True (ph_isLarge h);
          if good
          then Some \<lparr>st_keySize = kv_keySize b, st_key = take (unat (kv_keySize b)) (kv_keyPtr b),
                     st_valueSize = kv_valueSize b, st_splitOffset = kv_splitOffset b,
                     st_val = (case kv_value b of None \<Rightarrow> []
                               | Some v \<Rightarrow> take (piece_len cs (kv_keySize b) (kv_valueSize b) (kv_splitOffset b)) v)\<rparr>
          else None })"

lemma large_split_size:
  assumes "st_wf cs x" and "st_large cs x"
  shows "cs - ucast (st_keySize x) - 7 \<noteq> 0 \<and> cs - ucast (st_keySize x) - 7 \<noteq> st_valueSize x \<and> st_valueSize x \<noteq> 0"
proof -
  have "unat (cs - ucast (st_keySize x) - 7) = unat cs - 7 - unat (st_keySize x)"
    using assms by (intro isLarge_unat(2) [where valueSize = "st_valueSize x"]) (auto simp: st_wf_def)
  with assms show ?thesis by (auto simp: st_wf_def st_large_def)
qed

lemma set_msg_size:
  assumes "st_wf cs x"
  shows "unat (4 + (if st_large cs x then 3 else 0) + ucast (st_keySize x)
               + of_nat (length (st_val x)) :: u32) = length (st_image cs x)"
proof -
  have "length (st_val x) < 2 ^ 24"
    using assms u24_less [of "st_valueSize x"] by (auto simp: st_wf_def split: if_splits)
  with unat_body_size [of "length (st_val x)" "4 + (if st_large cs x then 3 else 0)" "st_keySize x"] assms
  show ?thesis by (auto simp: st_image_length st_wf_def)
qed

lemma set_msg_enc_img:
  assumes wf: "st_wf cs x"
  shows "set_msg_enc cs pr magic to opcode instanceId requestId ts x sb =
      (if length (set_msg_img cs pr magic to opcode instanceId requestId ts x) \<le> length sb
       then Some (length (set_msg_img cs pr magic to opcode instanceId requestId ts x),
                  set_msg_img cs pr magic to opcode instanceId requestId ts x
                  @ drop (length (set_msg_img cs pr magic to opcode instanceId requestId ts x)) sb) else None)"
proof -
  obtain nsplit where L: "isLarge cs (st_keySize x) (st_valueSize x) =
     Some (st_large cs x, nsplit, if st_large cs x then cs - ucast (st_keySize x) - 7 else st_valueSize x)"
    by (rule st_isLarge [OF wf])
  have key: "length (st_key x) = unat (st_keySize x)" using wf by (simp add: st_wf_def)
  have pl: "piece_len cs (st_keySize x) (st_valueSize x) (st_splitOffset x) = length (st_val x)"
    by (rule object_size_len [OF wf])
  show ?thesis
  proof (cases "st_large cs x")
    case True
    note ss = large_split_size [OF wf True]
    have "unat (piece_size (st_valueSize x) (st_splitOffset x) (cs - ucast (st_keySize x) - 7)) = length (st_val x)"
      using pl L True by (simp add: piece_len_def)
    with L True ss key show ?thesis
      by (simp add: set_msg_enc_def set_msg_img_def generateKeyValueHeader_def pwrite_ok write_simps send_arg_def
          finish_header_put Let_def st_image_def object_image_def be24_def)
  next
    case False
    then have v: "length (st_val x) = unat (st_valueSize x)" using wf by (simp add: st_wf_def)
    show ?thesis
      using L False key v
      by (cases "st_valueSize x = 0")
        (simp_all add: set_msg_enc_def set_msg_img_def generateKeyValueHeader_def pwrite_ok write_simps send_arg_def
          finish_header_put Let_def st_image_def object_image_def be24_def)
  qed
qed

lemma set_msg_dec_img:
  assumes ok: "message_ok pr' to opcode" and wf: "st_wf cs x"
  shows "set_msg_dec cs pr' h b (set_msg_img cs pr magic to opcode instanceId requestId ts x @ r)
      (length (set_msg_img cs pr magic to opcode instanceId requestId ts x)) = Some x"
proof -
  obtain nsplit where L: "isLarge cs (st_keySize x) (st_valueSize x) =
     Some (st_large cs x, nsplit, if st_large cs x then cs - ucast (st_keySize x) - 7 else st_valueSize x)"
    by (rule st_isLarge [OF wf])
  have w: "length (st_key x) = unat (st_keySize x)" "st_valueSize x < 2 ^ 24"
    "st_large cs x \<Longrightarrow> st_splitOffset x < 2 ^ 24" "\<not> st_large cs x \<Longrightarrow> st_splitOffset x = 0"
    using wf by (auto simp: st_wf_def split: if_splits)
  have pl: "piece_len cs (st_keySize x) (st_valueSize x) (st_splitOffset x) = length (st_val x)"
    by (rule object_size_len [OF wf])
  have pos: "0 < length (st_image cs x)" "4 \<le> length (st_image cs x)" by (simp_all add: st_image_length)
  note sz = set_msg_size [OF wf]
  show ?thesis
  proof (cases "st_large cs x")
    case True
    note ss = large_split_size [OF wf True]
    have "unat (piece_size (st_valueSize x) (st_splitOffset x) (cs - ucast (st_keySize x) - 7)) = length (st_val x)"
      using pl L True by (simp add: piece_len_def)
    then have ps: "piece_size (st_valueSize x) (st_splitOffset x) (cs - ucast (st_keySize x) - 7) = of_nat (length (st_val x))"
      by (metis of_nat_unat_eq)
    have img: "st_image cs x = [st_keySize x] @ be24 (st_valueSize x) @ st_key x @ be24 (st_splitOffset x) @ st_val x"
      using True by (simp add: st_image_def object_image_def be24_def)
    show ?thesis
      using True L w pl ps ss sz pos
      by (simp add: set_msg_dec_def set_msg_img_def get_body_image [OF ok] parseKeyValueHeader_def) 
        (simp add: img read_simps)
  next
    case False
    have img: "st_image cs x = [st_keySize x] @ be24 (st_valueSize x) @ st_key x @ st_val x"
      using False by (simp add: st_image_def object_image_def be24_def)
    have v: "length (st_val x) = unat (st_valueSize x)" using wf False by (simp add: st_wf_def)
    show ?thesis
      using False L w pl sz pos v
      by (simp add: set_msg_dec_def set_msg_img_def get_body_image [OF ok] parseKeyValueHeader_def)
        (auto simp add: img read_simps)
  qed
qed

interpretation set_message: framed_message "set_msg_ok cs pr' to opcode"
  "set_msg_img cs pr magic to opcode instanceId requestId ts" "set_msg_enc cs pr magic to opcode instanceId requestId ts"
  "set_msg_dec cs pr' h b"
  by unfold_locales (simp_all add: set_msg_ok_def set_msg_enc_img set_msg_dec_img)

subsection \<open>Key backup messages\<close>

fun metadata_bytes :: "Metadata list \<Rightarrow> byte list" where
  "metadata_bytes [] = []"
| "metadata_bytes (md # mds) =
     be32 (md_listId md) @ be32 (md_stripeId md) @ be32 (md_chunkId md) @ metadata_bytes mds"

lemma length_metadata_bytes [simp]: "length (metadata_bytes mds) = 12 * length mds"
  by (induction mds) auto

lemma write_metadata_put: "put bs c \<bind> (\<lambda>c. write_metadata c mds) = put (bs @ metadata_bytes mds) c"
proof (induction mds arbitrary: bs)
  case (Cons md mds)
  have "put bs c \<bind> (\<lambda>c. write_metadata c (md # mds)) =
      put (bs @ be32 (md_listId md) @ be32 (md_stripeId md) @ be32 (md_chunkId md)) c \<bind> (\<lambda>c. write_metadata c mds)"
    by (simp add: write_simps)
  with Cons show ?case by simp
qed simp

lemma write_metadata_put_bind [write_simps]:
  "put bs c \<bind> (\<lambda>c. write_metadata c mds \<bind> f) = put (bs @ metadata_bytes mds) c \<bind> f"
  by (simp add: write_metadata_put [symmetric])

lemma read_sealed_bytes:
  "i + length mds \<le> length sealed \<Longrightarrow>
   read_sealed sealed i (length mds) (metadata_bytes mds @ r) = Some (take i sealed @ mds @ drop (i + length mds) sealed, r)"
proof (induction mds arbitrary: i sealed)
  case (Cons md mds)
  have e: "md_set (md_listId md) (md_stripeId md) (md_chunkId md) = md" by (simp add: md_set_def)
  have "take (Suc i) (sealed[i := md]) = take i sealed @ [md]"
    using Cons.prems by (simp add: take_Suc_conv_app_nth)
  then show ?case using Cons by (simp add: read_simps e)
qed simp

lemma read_sealed_overflow:
  "i \<le> length sealed \<Longrightarrow> length sealed < i + length mds \<Longrightarrow> read_sealed sealed i (length mds) (metadata_bytes mds @ r) = None"
proof (induction mds arbitrary: i sealed)
  case (Cons md mds)
  then show ?case by (cases "i < length sealed") (simp_all add: read_simps)
qed simp

definition backup_body :: "u32 \<Rightarrow> u32 \<Rightarrow> u32 \<Rightarrow> u32 \<Rightarrow> Metadata list \<Rightarrow> u8 \<Rightarrow> byte list \<Rightarrow> bool \<Rightarrow> byte list" where
  "backup_body timestamp listId stripeId chunkId sealed keySize key large =
     [0, keySize, of_bool_byte large] @ be32 timestamp @ be32 listId @ be32 stripeId @ be32 chunkId
       @ [of_nat (length sealed)] @ metadata_bytes sealed @ key"

lemma generateKeyBackupHeader_sealed_image:
  assumes "length sealed < 256" and "length key = unat keySize + split_len large"
  shows "generateKeyBackupHeader_sealed pr magic to opcode instanceId requestId timestamp listId stripeId chunkId
       sealed (of_nat (length sealed)) keySize key large sendBuf =
    put (header_image pr magic to opcode
          (3 + 17 + ucast (of_nat (length sealed) :: u8) * 12 + ucast keySize + of_nat (split_len large)) instanceId requestId 0 large
        @ backup_body timestamp listId stripeId chunkId sealed keySize key large) (send_arg pr sendBuf, 0, 0) \<bind> finish"
proof -
  have "unat (of_nat (length sealed) :: u8) = length sealed" using assms(1) by (intro unat_of_nat_eq) simp
  with assms(2) show ?thesis
    by (simp add: generateKeyBackupHeader_sealed_def pwrite_ok write_simps backup_body_def of_bool_byte_def)
qed

lemma parse_backup_body:
  fixes sealed :: "Metadata list"
  assumes "length sealed < 256" and "length (kb_sealed b) = 2" and "length key = unat keySize + split_len large"
    and "n = 16 + length (backup_body timestamp listId stripeId chunkId sealed keySize key large)"
  shows "parseKeyBackupHeader pr' b
      (Some (header_image pr magic to opcode len instanceId requestId 0 large
             @ backup_body timestamp listId stripeId chunkId sealed keySize key large @ r)) n 16 =
    (if length sealed \<le> 2
     then Some (True, b\<lparr>kb_isParity := False, kb_keySize := keySize, kb_isLarge := large, kb_timestamp := timestamp,
                  kb_listId := listId, kb_stripeId := stripeId, kb_chunkId := chunkId,
                  kb_sealedCount := of_nat (length sealed),
                  kb_sealed := sealed @ drop (length sealed) (kb_sealed b), kb_key := key @ r\<rparr>)
     else None)"
proof -
  have c: "unat (of_nat (length sealed) :: u8) = length sealed" using assms(1) by (intro unat_of_nat_eq) simp
  have "(of_bool_byte large \<noteq> 0) = large" by (simp add: of_bool_byte_def)
  with assms(2-4) c read_sealed_bytes [of 0 sealed "kb_sealed b" "key @ r"]
    read_sealed_overflow [of 0 "kb_sealed b" sealed "key @ r"]
  show ?thesis by (simp add: parseKeyBackupHeader_def backup_body_def read_simps)
qed

section \<open>Properties\<close>

text \<open>
  Message header: a header written by \<^verbatim>\<open>Protocol::generateHeader\<close> for a valid opcode is accepted by
  \<^verbatim>\<open>parseHeader\<close> of the node it is addressed to, with every field as given (magic and routing bits
  reduced to their fields), whatever follows it in the buffer; every other node rejects it.
\<close>

theorem message_header_roundtrip:
  assumes "generateHeader pr magic to opcode len instanceId requestId sb ts large = Some (m, p, k)"
    and "opcode \<in> set valid_opcodes" and "16 \<le> n"
  shows "p = 16 \<and> k = 16 \<and> drop 16 m = drop 16 sb \<and>
    parseHeader pr' h (Some m) n =
      Some (pr_to pr' = to AND 0x60, h\<lparr>ph_magic := magic AND 0x07, ph_from := pr_from pr AND 0x18, ph_to := to AND 0x60,
                  ph_isLarge := large, ph_opcode := opcode, ph_length := len,
                  ph_instanceId := instanceId, ph_requestId := requestId, ph_timestamp := ts\<rparr>)"
proof -
  have m: "m = header_image pr magic to opcode len instanceId requestId ts large @ drop 16 sb" "p = 16" "k = 16"
    using assms(1) by (auto simp: generateHeader_put put_start split: if_splits)
  have "x AND 7 \<le> 7" for x :: u8 by (simp add: word_and_le1)
  moreover have "x AND 0x18 \<in> {0, 0x08, 0x10, 0x18}" for x :: u8
    using from_bits [of x] .
  ultimately have "parseHeader pr' h (Some m) n =
      Some (pr_to pr' = to AND 0x60, h\<lparr>ph_magic := magic AND 0x07, ph_from := pr_from pr AND 0x18, ph_to := to AND 0x60,
                  ph_isLarge := large, ph_opcode := opcode, ph_length := len,
                  ph_instanceId := instanceId, ph_requestId := requestId, ph_timestamp := ts\<rparr>)"
    using assms(2,3) by (auto simp: m parseHeader_def header_image_def read_simps magic_byte_parts)
  with m show ?thesis by simp
qed

theorem message_header_roundtrip_witness:
  "\<exists>m. generateHeader (protocol_new ROLE_CLIENT) 1 0x60 0x02 9 3 77 (replicate 20 0) 5 False = Some (m, 16, 16)
     \<and> map_option fst (parseHeader (protocol_new ROLE_SERVER) \<lparr>ph_magic = 0, ph_from = 0, ph_to = 0, ph_isLarge = False,
            ph_opcode = 0, ph_length = 0, ph_instanceId = 0, ph_requestId = 0, ph_timestamp = 0\<rparr> (Some m) 20) = Some True"
proof -
  obtain m p k where g: "generateHeader (protocol_new ROLE_CLIENT) 1 0x60 0x02 9 3 77 (replicate 20 0) 5 False = Some (m, p, k)"
    by (auto simp: generateHeader_put put_start)
  have "(0x02 :: u8) \<in> set valid_opcodes" by (simp add: valid_opcodes_def)
  from message_header_roundtrip [OF g this, of 20 "protocol_new ROLE_SERVER"] g show ?thesis
    by (intro exI [of _ m]) (simp add: protocol_new_def)
qed

text \<open>
  C29. SET message: for every well-formed object or piece of a large object, the message built by
  \<^verbatim>\<open>generateKeyValueHeader\<close> with the split size of \<^verbatim>\<open>isLarge\<close> is decoded by the receiver's
  \<^verbatim>\<open>parseHeader\<close> and \<^verbatim>\<open>parseKeyValueHeader\<close> to exactly that object; it fits a send buffer
  exactly when its length does, and the bytes after it are untouched.
\<close>

theorem set_message_roundtrip:
  assumes "set_msg_ok cs pr' to opcode x"
  shows "(set_msg_enc cs pr magic to opcode instanceId requestId ts x sb \<noteq> None
      \<longleftrightarrow> 16 + length (st_image cs x) \<le> length sb)
    \<and> (\<forall>n m. set_msg_enc cs pr magic to opcode instanceId requestId ts x sb = Some (n, m) \<longrightarrow>
      n = 16 + length (st_image cs x) \<and> seg 16 (length (st_image cs x)) m = st_image cs x
      \<and> set_msg_dec cs pr' h b m n = Some x \<and> drop n m = drop n sb)"
proof (intro conjI allI impI)
  show "set_msg_enc cs pr magic to opcode instanceId requestId ts x sb \<noteq> None
      \<longleftrightarrow> 16 + length (st_image cs x) \<le> length sb"
    using set_message.wire.fits [OF assms, of pr magic instanceId requestId ts sb] by (simp add: set_msg_img_def)
  fix n m
  assume e: "set_msg_enc cs pr magic to opcode instanceId requestId ts x sb = Some (n, m)"
  note f = set_message.wire.frame [OF assms e]
  show "n = 16 + length (st_image cs x)" using f by (simp add: set_msg_img_def)
  show "set_msg_dec cs pr' h b m n = Some x" by (rule set_message.wire.dec_enc [OF assms e])
  show "drop n m = drop n sb" using f by (elim conjE)
  show "seg 16 (length (st_image cs x)) m = st_image cs x"
    using e set_message.enc_img [OF assms, of pr magic instanceId requestId ts sb]
    by (auto simp: set_msg_img_def seg_def split: if_splits)
qed

text \<open>An object, a client and a server for the witnesses.\<close>

definition sample_object :: stored where
  "sample_object = \<lparr>st_keySize = 2, st_key = [107, 49], st_valueSize = 3, st_splitOffset = 0, st_val = [7, 8, 9]\<rparr>"

lemma sample_message_ok: "message_ok (protocol_new ROLE_SERVER) 0x60 0x02"
  by (simp add: message_ok_def protocol_new_def valid_opcodes_def)

definition sample_header :: ProtocolHeader where
  "sample_header = \<lparr>ph_magic = 0, ph_from = 0, ph_to = 0, ph_isLarge = False, ph_opcode = 0, ph_length = 0,
     ph_instanceId = 0, ph_requestId = 0, ph_timestamp = 0\<rparr>"

theorem set_message_roundtrip_witness:
  "\<exists>m. set_msg_enc 64 (protocol_new ROLE_CLIENT) 1 0x60 0x02 4 9 0 sample_object (replicate 40 0) = Some (25, m)
     \<and> set_msg_dec 64 (protocol_new ROLE_SERVER) sample_header
           \<lparr>kv_keySize = 0, kv_valueSize = 0, kv_keyPtr = [], kv_splitOffset = 0, kv_value = None\<rparr> m 25 = Some sample_object"
proof -
  have ok: "set_msg_ok 64 (protocol_new ROLE_SERVER) 0x60 0x02 sample_object"
    by (simp add: set_msg_ok_def sample_message_ok st_wf_def sample_object_def st_large_def)
  have l: "length (st_image 64 sample_object) = 9"
    by (simp add: st_image_length sample_object_def st_large_def)
  show ?thesis
    using set_message_roundtrip [OF ok, of "protocol_new ROLE_CLIENT" 1 4 9 0 "replicate 40 0"
        sample_header
        "\<lparr>kv_keySize = 0, kv_valueSize = 0, kv_keyPtr = [], kv_splitOffset = 0, kv_value = None\<rparr>"] l
    by auto
qed

text \<open>
  GET, DELETE and UPDATE messages: what \<^verbatim>\<open>generateKeyHeader\<close> and \<^verbatim>\<open>generateKeyValueUpdateHeader\<close>
  write, the receiver's \<^verbatim>\<open>parseHeader\<close> followed by \<^verbatim>\<open>parseKeyHeader\<close> or
  \<^verbatim>\<open>parseKeyValueUpdateHeader\<close> reads back, for every key (with the split offset of a large
  object) and every update of less than 16 MB.
\<close>

theorem request_roundtrip:
  assumes "message_ok pr' to opcode" and "length key = unat keySize + split_len large"
    and "length ukey = unat ukeySize" and "off < 2 ^ 24" and "length v < 2 ^ 24"
    and "24 + length key + length ukey + length v \<le> length sb"
  shows "(\<exists>m. generateKeyHeader pr magic to opcode instanceId requestId keySize key (Some sb) ts large = Some (17 + length key, m)
       \<and> key_msg_dec pr' h b m (17 + length key) = Some (keySize, key, large))
    \<and> (\<exists>m. generateKeyValueUpdateHeader pr magic to opcode instanceId requestId ukeySize ukey off (of_nat (length v)) (Some v) (Some sb) ts
         = Some (23 + length ukey + length v, m)
       \<and> update_msg_dec pr' h b' m (23 + length ukey + length v) = Some (ukeySize, ukey, off, v))"
proof
  have ok: "key_msg_ok pr' to opcode (keySize, key, large)" using assms(1,2) by (simp add: key_msg_ok_def)
  from key_message.wire.total [OF ok, of pr magic instanceId requestId ts sb h b] assms(6)
  show "\<exists>m. generateKeyHeader pr magic to opcode instanceId requestId keySize key (Some sb) ts large = Some (17 + length key, m)
       \<and> key_msg_dec pr' h b m (17 + length key) = Some (keySize, key, large)"
    by (auto simp: key_msg_img_def key_msg_enc_def)
  have ok: "update_msg_ok pr' to opcode (ukeySize, ukey, off, v)" using assms(1-5) by (simp add: update_msg_ok_def)
  from update_message.wire.total [OF ok, of pr magic instanceId requestId ts sb h b'] assms(6)
  show "\<exists>m. generateKeyValueUpdateHeader pr magic to opcode instanceId requestId ukeySize ukey off (of_nat (length v)) (Some v) (Some sb) ts
         = Some (23 + length ukey + length v, m)
       \<and> update_msg_dec pr' h b' m (23 + length ukey + length v) = Some (ukeySize, ukey, off, v)"
    by (auto simp: update_msg_img_def update_msg_enc_def add.assoc)
qed

theorem request_roundtrip_witness:
  "\<exists>m. generateKeyValueUpdateHeader (protocol_new ROLE_CLIENT) 1 0x60 0x02 4 9 1 [107] 2 2 (Some [5, 6]) (Some (replicate 40 0)) 0
         = Some (26, m)
       \<and> update_msg_dec (protocol_new ROLE_SERVER) sample_header
             \<lparr>kvu_keySize = 0, kvu_valueUpdateSize = 0, kvu_valueUpdateOffset = 0, kvu_key = [], kvu_valueUpdate = None\<rparr> m 26
           = Some (1, [107], 2, [5, 6])"
  using request_roundtrip [OF sample_message_ok, of "[107]" 1 False "[107]" 1 2 "[5, 6]" "replicate 40 0"
      "protocol_new ROLE_CLIENT" 1 4 9 0 sample_header "\<lparr>kh_keySize = 0, kh_key = []\<rparr>"
      "\<lparr>kvu_keySize = 0, kvu_valueUpdateSize = 0, kvu_valueUpdateOffset = 0, kvu_key = [], kvu_valueUpdate = None\<rparr>"]
  by (auto simp: split_len_def)

text \<open>
  Key backup message: with at most two sealed chunks \<^verbatim>\<open>parseKeyBackupHeader\<close> reads back the
  identifiers, the sealed chunks and the key that \<^verbatim>\<open>generateKeyBackupHeader\<close> wrote; with more the
  parser stores outside the two-entry array of its header structure, which nothing prevents.
\<close>

theorem key_backup_roundtrip:
  assumes "length sealed < 256" and "length (kb_sealed b) = 2" and "length key = unat keySize + split_len large"
    and "generateKeyBackupHeader_sealed pr magic to opcode instanceId requestId timestamp listId stripeId chunkId
       sealed (of_nat (length sealed)) keySize key large (Some sb) = Some (n, m)"
  shows "if length sealed \<le> 2
    then \<exists>b'. parseKeyBackupHeader pr' b (Some m) n 16 = Some (True, b')
       \<and> kb_timestamp b' = timestamp \<and> kb_listId b' = listId \<and> kb_stripeId b' = stripeId \<and> kb_chunkId b' = chunkId
       \<and> take (unat (kb_sealedCount b')) (kb_sealed b') = sealed
       \<and> take (unat (kb_keySize b') + split_len (kb_isLarge b')) (kb_key b') = key
    else parseKeyBackupHeader pr' b (Some m) n 16 = None"
proof -
  let ?body = "backup_body timestamp listId stripeId chunkId sealed keySize key large"
  have c: "unat (of_nat (length sealed) :: u8) = length sealed" using assms(1) by (intro unat_of_nat_eq) simp
  obtain len r where m: "m = header_image pr magic to opcode len instanceId requestId 0 large @ ?body @ r" "n = 16 + length ?body"
    using assms(4) unfolding generateKeyBackupHeader_sealed_image [OF assms(1,3)]
    by (auto simp: finish_put split: if_splits)
  note p = parse_backup_body [OF assms(1-3) m(2), of pr' pr magic to opcode len instanceId requestId r]
  show ?thesis
    unfolding m(1) p using assms(3) c by auto
qed

theorem key_backup_roundtrip_witness:
  "\<exists>n m. generateKeyBackupHeader_sealed (protocol_new ROLE_SERVER) 2 0x40 0x02 4 9 1 2 3 4 [md_set 1 2 3, md_set 4 5 6, md_set 7 8 9] 3
        1 [107] False (Some (replicate 80 0)) = Some (n, m)
     \<and> parseKeyBackupHeader (protocol_new ROLE_CLIENT) \<lparr>kb_isParity = False, kb_keySize = 0, kb_isLarge = False, kb_timestamp = 0,
         kb_listId = 0, kb_stripeId = 0, kb_chunkId = 0, kb_sealedCount = 0, kb_sealed = [md_set 0 0 0, md_set 0 0 0], kb_key = []\<rparr>
         (Some m) n 16 = None"
proof -
  let ?s = "[md_set 1 2 3, md_set 4 5 6, md_set 7 8 9]"
  let ?b = "\<lparr>kb_isParity = False, kb_keySize = 0, kb_isLarge = False, kb_timestamp = 0,
         kb_listId = 0, kb_stripeId = 0, kb_chunkId = 0, kb_sealedCount = 0, kb_sealed = [md_set 0 0 0, md_set 0 0 0], kb_key = []\<rparr>"
  obtain n m where g: "generateKeyBackupHeader_sealed (protocol_new ROLE_SERVER) 2 0x40 0x02 4 9 1 2 3 4 ?s (of_nat (length ?s))
      1 [107] False (Some (replicate 80 0)) = Some (n, m)"
    using generateKeyBackupHeader_sealed_image [of ?s "[107]" 1 False "protocol_new ROLE_SERVER" 2 64 2 4 9 1 2 3 4
        "Some (replicate 80 0)"]
    by (auto simp: split_len_def send_arg_def finish_put backup_body_def)
  have "length ?s < 256" "length (kb_sealed ?b) = 2" "length [107 :: byte] = unat (1 :: u8) + split_len False"
    by (simp_all add: split_len_def)
  from key_backup_roundtrip [OF this g, of "protocol_new ROLE_CLIENT"] g show ?thesis by auto
qed

text \<open>
  Chunk update message: \<^verbatim>\<open>parseChunkUpdateHeader\<close> accepts a message whose length field
  exceeds the delta bytes actually received when adding the 24 header bytes to it wraps around in
  32-bit arithmetic.
\<close>

theorem chunk_update_length_wraps:
  assumes "2 ^ 32 - 24 \<le> unat len"
  shows "\<exists>b'. parseChunkUpdateHeader pr b True
      (Some (header_image pr0 magic to opcode l instanceId requestId ts large
             @ be32 listId @ be32 stripeId @ be32 chunkId @ be32 off @ be32 len @ be32 updatingChunkId)) 40 16 = Some (True, b')
    \<and> cup_length b' = len \<and> cup_delta b' = Some []"
proof -
  have "unat (24 + len :: u32) = 24 + unat len - 2 ^ 32"
    using assms unat_u32_less [of len] by (simp add: unat_word_ariths le_mod_geq)
  then have "unat (24 + len :: u32) \<le> 24" using unat_u32_less [of len] by linarith
  moreover have "len \<noteq> 0" using assms by auto
  ultimately show ?thesis
    by (simp add: parseChunkUpdateHeader_def read_simps) (simp add: be32_def)
qed

theorem chunk_update_length_wraps_witness:
  "\<exists>b'. parseChunkUpdateHeader (protocol_new ROLE_SERVER) \<lparr>cup_listId = 0, cup_stripeId = 0, cup_chunkId = 0,
        cup_offset = 0, cup_length = 0, cup_updatingChunkId = 0, cup_delta = None\<rparr> True
      (Some (header_image (protocol_new ROLE_SERVER) 1 0x60 0x52 24 1 2 3 False
             @ be32 1 @ be32 2 @ be32 3 @ be32 0 @ be32 0xFFFFFFF0 @ be32 4)) 40 16 = Some (True, b')
    \<and> cup_length b' = 0xFFFFFFF0 \<and> cup_delta b' = Some []"
  by (rule chunk_update_length_wraps) simp

end
