(* ===== verification/ControlProtocol.thy ===== *)
theory ControlProtocol
  imports NormalProtocol
begin

text \<open>
  Messages between the nodes of the system: \<^verbatim>\<open>address_protocol.cc\<close>, \<^verbatim>\<open>ack_protocol.cc\<close>,
  \<^verbatim>\<open>register_protocol.cc\<close>, \<^verbatim>\<open>load_protocol.cc\<close>, \<^verbatim>\<open>seal_protocol.cc\<close>,
  \<^verbatim>\<open>chunk_protocol.cc\<close>, \<^verbatim>\<open>heartbeat_protocol.cc\<close>, \<^verbatim>\<open>fault_protocol.cc\<close>,
  \<^verbatim>\<open>recovery_protocol.cc\<close>, \<^verbatim>\<open>batch_protocol.cc\<close> under \<^verbatim>\<open>common/protocol\<close>.
  The unordered containers that a generator walks through are lists in iteration order; the part
  that did not fit the send buffer is returned. A parser that converts an array of the received
  message to host order in place returns the array and the receive buffer after the conversion.
\<close>

definition cursor_bytes :: "cursor \<Rightarrow> nat" where
  "cursor_bytes c = snd (snd c)"

text \<open>\<^verbatim>\<open>this->generateHeader( ..., bytes - PROTO_HEADER_SIZE, ... ); return bytes;\<close>\<close>

definition close_message ::
  "Protocol \<Rightarrow> u8 \<Rightarrow> u8 \<Rightarrow> u8 \<Rightarrow> u16 \<Rightarrow> u32 \<Rightarrow> nat \<Rightarrow> memory \<Rightarrow> (nat \<times> memory) option" where
  "close_message pr magic to opcode instanceId requestId n m =
     do { (m, _, _) \<leftarrow> generateHeader pr magic to opcode (of_nat (n - 16)) instanceId requestId m 0 False;
          Some (n, m) }"

section \<open>Arrays converted in place\<close>

fun read_u32s :: "nat \<Rightarrow> byte list \<Rightarrow> (u32 list \<times> byte list) option" where
  "read_u32s 0 ptr = Some ([], ptr)"
| "read_u32s (Suc n) ptr =
     do { (v, ptr) \<leftarrow> read4Bytes ptr True; (vs, ptr) \<leftarrow> read_u32s n ptr; Some (v # vs, ptr) }"

fun swap_u32s :: "nat \<Rightarrow> byte list \<Rightarrow> byte list" where
  "swap_u32s (Suc n) (a # b # c # d # r) = d # c # b # a # swap_u32s n r"
| "swap_u32s _ r = r"

text \<open>The buffer after converting \<open>n\<close> words at the position of the pointer \<open>ptr\<close>.\<close>

definition swapped :: "memory \<Rightarrow> byte list \<Rightarrow> nat \<Rightarrow> memory" where
  "swapped buf ptr n = take (length buf - length ptr) buf @ swap_u32s n ptr"

fun write_u32s :: "cursor \<Rightarrow> u32 list \<Rightarrow> cursor option" where
  "write_u32s c [] = Some c"
| "write_u32s c (v # vs) = do { c \<leftarrow> write4Bytes c v True; write_u32s c vs }"

section \<open>Addresses, registration, load statistics, acknowledgements\<close>

record AddressHeader =
  ah_addr :: u32
  ah_port :: u16

definition generateAddressHeader where
  "generateAddressHeader pr magic to opcode instanceId requestId addr port sendBuf =
     do { c \<leftarrow> generateHeader pr magic to opcode 6 instanceId requestId (send_arg pr sendBuf) 0 False;
          c \<leftarrow> write4Bytes c addr False;
          c \<leftarrow> write2Bytes c port False;
          finish c }"

definition parseAddressHeader ::
  "Protocol \<Rightarrow> AddressHeader \<Rightarrow> memory option \<Rightarrow> nat \<Rightarrow> nat \<Rightarrow> (bool \<times> AddressHeader) option" where
  "parseAddressHeader pr h buf sz off =
     (let (buf, sz) = recv_args pr buf sz in
      if size_sub sz off < 6 then Some (False, h)
      else do { (addr, ptr) \<leftarrow> read4Bytes (drop off buf) False;
                (port, ptr) \<leftarrow> read2Bytes ptr False;
                Some (True, h\<lparr>ah_addr := addr, ah_port := port\<rparr>) })"

definition generateSrcDstAddressHeader where
  "generateSrcDstAddressHeader pr magic to opcode instanceId requestId srcAddr srcPort dstAddr dstPort =
     do { c \<leftarrow> generateHeader pr magic to opcode (6 * 2) instanceId requestId (pr_send pr) 0 False;
          c \<leftarrow> write4Bytes c srcAddr False;
          c \<leftarrow> write2Bytes c srcPort False;
          c \<leftarrow> write4Bytes c dstAddr False;
          c \<leftarrow> write2Bytes c dstPort False;
          finish c }"

definition parseSrcDstAddressHeader ::
  "Protocol \<Rightarrow> AddressHeader \<Rightarrow> AddressHeader \<Rightarrow> memory option \<Rightarrow> nat \<Rightarrow> nat
     \<Rightarrow> (bool \<times> AddressHeader \<times> AddressHeader) option" where
  "parseSrcDstAddressHeader pr src dst buf sz off =
     (let (buf, sz) = recv_args pr buf sz in
      if size_sub sz off < 6 * 2 then Some (False, src, dst)
      else do { (srcAddr, ptr) \<leftarrow> read4Bytes (drop off buf) False;
                (srcPort, ptr) \<leftarrow> read2Bytes ptr False;
                (dstAddr, ptr) \<leftarrow> read4Bytes ptr False;
                (dstPort, ptr) \<leftarrow> read2Bytes ptr False;
                Some (True, src\<lparr>ah_addr := srcAddr, ah_port := srcPort\<rparr>, dst\<lparr>ah_addr := dstAddr, ah_port := dstPort\<rparr>) })"

record NamedPipeHeader =
  np_readLength :: u8
  np_writeLength :: u8
  np_readPathname :: "byte list"
  np_writePathname :: "byte list"

definition generateNamedPipeHeader where
  "generateNamedPipeHeader pr magic to opcode instanceId requestId readLength writeLength readPathname writePathname sendBuf =
     do { c \<leftarrow> generateHeader pr magic to opcode (2 + ucast (readLength :: u8) + ucast (writeLength :: u8)) instanceId requestId
                 (send_arg pr sendBuf) 0 False;
          c \<leftarrow> write1Byte c readLength;
          c \<leftarrow> write1Byte c writeLength;
          c \<leftarrow> pwrite c readPathname (unat readLength);
          c \<leftarrow> pwrite c writePathname (unat writeLength);
          finish c }"

definition parseNamedPipeHeader ::
  "Protocol \<Rightarrow> NamedPipeHeader \<Rightarrow> memory option \<Rightarrow> nat \<Rightarrow> nat \<Rightarrow> (bool \<times> NamedPipeHeader) option" where
  "parseNamedPipeHeader pr h buf sz off =
     (let (buf, sz) = recv_args pr buf sz in
      if size_sub sz off < 2 then Some (False, h)
      else do { (readLength, ptr) \<leftarrow> read1Byte (drop off buf);
                (writeLength, ptr) \<leftarrow> read1Byte ptr;
                Some (True, h\<lparr>np_readLength := readLength, np_writeLength := writeLength,
                              np_readPathname := ptr, np_writePathname := drop (unat readLength) ptr\<rparr>) })"

record LoadStatsHeader =
  ls_serverGetCount :: u32
  ls_serverSetCount :: u32
  ls_serverOverloadCount :: u32

definition generateLoadStatsHeader where
  "generateLoadStatsHeader pr magic to instanceId requestId serverGetCount serverSetCount serverOverloadCount recordSize serverAddrSize =
     do { c \<leftarrow> generateHeader pr magic to 0
                 (12 + (serverGetCount + serverSetCount) * recordSize + serverOverloadCount * serverAddrSize)
                 instanceId requestId (pr_send pr) 0 False;
          c \<leftarrow> write4Bytes c serverGetCount True;
          c \<leftarrow> write4Bytes c serverSetCount True;
          c \<leftarrow> write4Bytes c serverOverloadCount True;
          finish c }"

definition parseLoadStatsHeader ::
  "Protocol \<Rightarrow> LoadStatsHeader \<Rightarrow> memory option \<Rightarrow> nat \<Rightarrow> nat \<Rightarrow> (bool \<times> LoadStatsHeader) option" where
  "parseLoadStatsHeader pr h buf sz off =
     (let (buf, sz) = recv_args pr buf sz in
      if size_sub sz off < 12 then Some (False, h)
      else do { (g, ptr) \<leftarrow> read4Bytes (drop off buf) True;
                (s, ptr) \<leftarrow> read4Bytes ptr True;
                (ov, ptr) \<leftarrow> read4Bytes ptr True;
                Some (True, h\<lparr>ls_serverGetCount := g, ls_serverSetCount := s, ls_serverOverloadCount := ov\<rparr>) })"

record AcknowledgementHeader =
  ak_fromTimestamp :: u32
  ak_toTimestamp :: u32

definition generateAcknowledgementHeader where
  "generateAcknowledgementHeader pr magic to opcode instanceId requestId fromTimestamp toTimestamp sendBuf =
     do { c \<leftarrow> generateHeader pr magic to opcode 8 instanceId requestId (send_arg pr sendBuf) 0 False;
          c \<leftarrow> write4Bytes c fromTimestamp True;
          c \<leftarrow> write4Bytes c toTimestamp True;
          finish c }"

definition parseAcknowledgementHeader ::
  "Protocol \<Rightarrow> AcknowledgementHeader \<Rightarrow> memory option \<Rightarrow> nat \<Rightarrow> nat \<Rightarrow> (bool \<times> AcknowledgementHeader) option" where
  "parseAcknowledgementHeader pr h buf sz off =
     (let (buf, sz) = recv_args pr buf sz in
      if size_sub sz off < 8 then Some (False, h)
      else do { (f, ptr) \<leftarrow> read4Bytes (drop off buf) True;
                (t, ptr) \<leftarrow> read4Bytes ptr True;
                Some (True, h\<lparr>ak_fromTimestamp := f, ak_toTimestamp := t\<rparr>) })"

record DeltaAcknowledgementHeader =
  da_tsCount :: u32
  da_keyCount :: u32
  da_targetId :: u16

fun write_keys :: "cursor \<Rightarrow> Key list \<Rightarrow> cursor option" where
  "write_keys c [] = Some c"
| "write_keys c (k # ks) =
     do { c \<leftarrow> write1Byte c (key_size k);
          c \<leftarrow> pwrite c (key_data k) (unat (key_size k));
          write_keys c ks }"

definition generateDeltaAcknowledgementHeader where
  "generateDeltaAcknowledgementHeader pr magic to opcode instanceId requestId timestamps requests targetId sendBuf =
     do { c \<leftarrow> write4Bytes (send_arg pr sendBuf, 16, 0) (of_nat (length timestamps)) True;
          c \<leftarrow> write4Bytes c (of_nat (length requests)) True;
          c \<leftarrow> write2Bytes c targetId True;
          c \<leftarrow> write_u32s c timestamps;
          c \<leftarrow> write_keys c requests;
          finish_header pr magic to opcode instanceId requestId 0 False c }"

text \<open>
  The loop over the keys: the bytes consumed are summed up in a \<^verbatim>\<open>uint32_t\<close> and the bound is
  checked after the key size has been read and before the key is copied.
\<close>

fun read_keys :: "nat \<Rightarrow> u32 \<Rightarrow> u32 \<Rightarrow> nat \<Rightarrow> Key list \<Rightarrow> byte list \<Rightarrow> (bool \<times> Key list) option" where
  "read_keys avail tsCount bytes 0 acc ptr = Some (True, acc)"
| "read_keys avail tsCount bytes (Suc n) acc ptr =
     do { (keySize, ptr) \<leftarrow> read1Byte ptr;
          let bytes = bytes + (1 + ucast keySize);
          if avail < unat (10 + tsCount * 4 + bytes) then Some (False, acc)
          else do { k \<leftarrow> key_dup (key_set 0 [] 0 False) keySize (Some ptr) 0 False;
                    read_keys avail tsCount bytes n (acc @ [k]) (drop (unat keySize) ptr) } }"

definition parseDeltaAcknowledgementHeader ::
  "Protocol \<Rightarrow> DeltaAcknowledgementHeader \<Rightarrow> u32 list option \<Rightarrow> Key list option \<Rightarrow> memory option \<Rightarrow> nat \<Rightarrow> nat
     \<Rightarrow> (bool \<times> DeltaAcknowledgementHeader \<times> u32 list option \<times> Key list option) option" where
  "parseDeltaAcknowledgementHeader pr h timestamps requests buf sz off =
     (let (buf, sz) = recv_args pr buf sz in
      if size_sub sz off < 10 then Some (False, h, timestamps, requests)
      else do { (tsCount, ptr) \<leftarrow> read4Bytes (drop off buf) True;
                (keyCount, ptr) \<leftarrow> read4Bytes ptr True;
                (targetId, ptr) \<leftarrow> read2Bytes ptr True;
                let h = h\<lparr>da_tsCount := tsCount, da_keyCount := keyCount, da_targetId := targetId\<rparr>;
                if size_sub sz off < unat (10 + tsCount * 4 + keyCount) then Some (False, h, timestamps, requests)
                else case timestamps of
                  None \<Rightarrow> Some (True, h, timestamps, requests)
                | Some ts \<Rightarrow>
                    do { (vs, ptr) \<leftarrow> read_u32s (unat tsCount) ptr;
                         case requests of
                           None \<Rightarrow> Some (True, h, Some (ts @ vs), requests)
                         | Some ks \<Rightarrow> do { (good, ks) \<leftarrow> read_keys (size_sub sz off) tsCount 0 (unat keyCount) ks ptr;
                                          Some (good, h, Some (ts @ vs), Some ks) } } })"

section \<open>Sealing and chunk messages\<close>

record ChunkSealHeader =
  csh_listId :: u32
  csh_stripeId :: u32
  csh_chunkId :: u32
  csh_count :: u32

definition generateChunkSealHeader where
  "generateChunkSealHeader pr magic to opcode instanceId requestId listId stripeId chunkId count dataLength sendBuf =
     do { c \<leftarrow> generateHeader pr magic to opcode (16 + dataLength) instanceId requestId (send_arg pr sendBuf) 0 False;
          c \<leftarrow> write4Bytes c listId True;
          c \<leftarrow> write4Bytes c stripeId True;
          c \<leftarrow> write4Bytes c chunkId True;
          c \<leftarrow> write4Bytes c count True;
          (n, m) \<leftarrow> finish c;
          Some (n + unat dataLength, m) }"

definition parseChunkSealHeader ::
  "Protocol \<Rightarrow> ChunkSealHeader \<Rightarrow> memory option \<Rightarrow> nat \<Rightarrow> nat \<Rightarrow> (bool \<times> ChunkSealHeader) option" where
  "parseChunkSealHeader pr h buf sz off =
     (let (buf, sz) = recv_args pr buf sz in
      if size_sub sz off < 16 then Some (False, h)
      else do { (l, ptr) \<leftarrow> read4Bytes (drop off buf) True;
                (s, ptr) \<leftarrow> read4Bytes ptr True;
                (c, ptr) \<leftarrow> read4Bytes ptr True;
                (n, ptr) \<leftarrow> read4Bytes ptr True;
                Some (True, h\<lparr>csh_listId := l, csh_stripeId := s, csh_chunkId := c, csh_count := n\<rparr>) })"

record ChunkSealHeaderData =
  csd_keySize :: u8
  csd_offset :: u32
  csd_isLarge :: bool
  csd_key :: "byte list"

text \<open>The large flag is part of the format but is not read here: the key starts one byte early.\<close>

definition parseChunkSealHeaderData ::
  "Protocol \<Rightarrow> ChunkSealHeaderData \<Rightarrow> memory option \<Rightarrow> nat \<Rightarrow> nat \<Rightarrow> (bool \<times> ChunkSealHeaderData) option" where
  "parseChunkSealHeaderData pr h buf sz off =
     (let (buf, sz) = recv_args pr buf sz in
      if size_sub sz off < 6 then Some (False, h)
      else do { (keySize, ptr) \<leftarrow> read1Byte (drop off buf);
                (offs, ptr) \<leftarrow> read4Bytes ptr True;
                Some (size_sub sz off \<ge> 6 + unat keySize,
                      h\<lparr>csd_keySize := keySize, csd_offset := offs, csd_key := ptr\<rparr>) })"

record ChunkHeader =
  ch_listId :: u32
  ch_stripeId :: u32
  ch_chunkId :: u32

definition generateChunkHeader where
  "generateChunkHeader pr magic to opcode instanceId requestId listId stripeId chunkId sendBuf =
     do { c \<leftarrow> generateHeader pr magic to opcode 12 instanceId requestId (send_arg pr sendBuf) 0 False;
          c \<leftarrow> write4Bytes c listId True;
          c \<leftarrow> write4Bytes c stripeId True;
          c \<leftarrow> write4Bytes c chunkId True;
          finish c }"

definition parseChunkHeader ::
  "Protocol \<Rightarrow> ChunkHeader \<Rightarrow> memory option \<Rightarrow> nat \<Rightarrow> nat \<Rightarrow> (bool \<times> ChunkHeader) option" where
  "parseChunkHeader pr h buf sz off =
     (let (buf, sz) = recv_args pr buf sz in
      if size_sub sz off < 12 then Some (False, h)
      else do { (l, ptr) \<leftarrow> read4Bytes (drop off buf) True;
                (s, ptr) \<leftarrow> read4Bytes ptr True;
                (c, ptr) \<leftarrow> read4Bytes ptr True;
                Some (True, h\<lparr>ch_listId := l, ch_stripeId := s, ch_chunkId := c\<rparr>) })"

record ChunksHeader =
  chs_listId :: u32
  chs_chunkId :: u32
  chs_numStripes :: u32
  chs_stripeIds :: "u32 list"

text \<open>The loops that fill the buffer as far as it goes: stripe ids here, chunk identifiers and keys below.\<close>

fun send_stripes :: "nat \<Rightarrow> cursor \<Rightarrow> u32 list \<Rightarrow> (cursor \<times> nat) option" where
  "send_stripes bsz c [] = Some (c, 0)"
| "send_stripes bsz c (s # ss) =
     (if cursor_bytes c + 4 > bsz then Some (c, 0)
      else do { c \<leftarrow> write4Bytes c s True; (c, n) \<leftarrow> send_stripes bsz c ss; Some (c, Suc n) })"

definition generateChunksHeader where
  "generateChunksHeader pr magic to opcode instanceId requestId listId chunkId stripeIds =
     do { c \<leftarrow> write4Bytes (pr_send pr, 16, 16) listId True;
          (m, p, n) \<leftarrow> write4Bytes c chunkId True;
          (c, count) \<leftarrow> send_stripes (pr_size pr) (m, p + 4, n + 4) stripeIds;
          m \<leftarrow> poke (fst c) p (be32 (of_nat count));
          (n, m) \<leftarrow> close_message pr magic to opcode instanceId requestId (cursor_bytes c) m;
          Some (n, m, count) }"

definition parseChunksHeader ::
  "Protocol \<Rightarrow> ChunksHeader \<Rightarrow> memory option \<Rightarrow> nat \<Rightarrow> nat \<Rightarrow> (bool \<times> ChunksHeader \<times> memory) option" where
  "parseChunksHeader pr h buf sz off =
     (let (buf, sz) = recv_args pr buf sz in
      if size_sub sz off < 12 then Some (False, h, buf)
      else do { (l, ptr) \<leftarrow> read4Bytes (drop off buf) True;
                (c, ptr) \<leftarrow> read4Bytes ptr True;
                (n, ptr) \<leftarrow> read4Bytes ptr True;
                let h = h\<lparr>chs_listId := l, chs_chunkId := c, chs_numStripes := n\<rparr>;
                if size_sub sz off < unat (12 + n * 4) then Some (False, h, buf)
                else do { (vs, _) \<leftarrow> read_u32s (unat n) ptr;
                          Some (True, h\<lparr>chs_stripeIds := vs\<rparr>, swapped buf ptr (unat n)) } })"

record ChunkDataHeader =
  cd_sealIndicatorCount :: u8
  cd_listId :: u32
  cd_stripeId :: u32
  cd_chunkId :: u32
  cd_size :: u32
  cd_offset :: u32
  cd_sealIndicator :: "byte list option"
  cd_data :: "byte list option"

definition generateChunkDataHeader where
  "generateChunkDataHeader pr magic to opcode instanceId requestId listId stripeId chunkId chunkSize chunkOffset chunkData
       sealIndicatorCount sealIndicator =
     do { c \<leftarrow> generateHeader pr magic to opcode (21 + chunkSize + ucast (sealIndicatorCount :: u8)) instanceId requestId
                 (pr_send pr) 0 False;
          c \<leftarrow> write1Byte c sealIndicatorCount;
          c \<leftarrow> write4Bytes c listId True;
          c \<leftarrow> write4Bytes c stripeId True;
          c \<leftarrow> write4Bytes c chunkId True;
          c \<leftarrow> write4Bytes c chunkSize True;
          c \<leftarrow> write4Bytes c chunkOffset True;
          c \<leftarrow> pwrite c (map of_bool_byte sealIndicator) (unat sealIndicatorCount);
          c \<leftarrow> (case chunkData of None \<Rightarrow> Some c
                | Some d \<Rightarrow> if chunkSize \<noteq> 0 then pwrite c d (unat chunkSize) else Some c);
          finish c }"

definition parseChunkDataHeader ::
  "Protocol \<Rightarrow> ChunkDataHeader \<Rightarrow> memory option \<Rightarrow> nat \<Rightarrow> nat \<Rightarrow> (bool \<times> ChunkDataHeader) option" where
  "parseChunkDataHeader pr h buf sz off =
     (let (buf, sz) = recv_args pr buf sz in
      if size_sub sz off < 21 then Some (False, h)
      else do { (k, ptr) \<leftarrow> read1Byte (drop off buf);
                (l, ptr) \<leftarrow> read4Bytes ptr True;
                (s, ptr) \<leftarrow> read4Bytes ptr True;
                (c, ptr) \<leftarrow> read4Bytes ptr True;
                (n, ptr) \<leftarrow> read4Bytes ptr True;
                (offs, ptr) \<leftarrow> read4Bytes ptr True;
                let h = h\<lparr>cd_sealIndicatorCount := k, cd_listId := l, cd_stripeId := s, cd_chunkId := c, cd_size := n,
                          cd_offset := offs\<rparr>;
                let h = (if k \<noteq> 0 then h\<lparr>cd_sealIndicator := Some ptr\<rparr> else h);
                let ptr = drop (unat k) ptr;
                Some (size_sub sz off \<ge> unat (21 + ucast k + n), h\<lparr>cd_data := (if n \<noteq> 0 then Some ptr else None)\<rparr>) })"

section \<open>Heartbeats and metadata backup\<close>

record HeartbeatHeader =
  hb_timestamp :: u32
  hb_sealed :: u32
  hb_keys :: u32
  hb_isLast :: bool

fun send_metadata :: "nat \<Rightarrow> cursor \<Rightarrow> Metadata list \<Rightarrow> (cursor \<times> nat \<times> Metadata list) option" where
  "send_metadata bsz c [] = Some (c, 0, [])"
| "send_metadata bsz c (md # mds) =
     (if bsz \<ge> cursor_bytes c + 12
      then do { c \<leftarrow> write_metadata c [md]; (c, n, rest) \<leftarrow> send_metadata bsz c mds; Some (c, Suc n, rest) }
      else Some (c, 0, md # mds))"

definition write_op :: "cursor \<Rightarrow> Key \<Rightarrow> OpMetadata \<Rightarrow> cursor option" where
  "write_op c k om =
     do { c \<leftarrow> write1Byte c (key_size k);
          c \<leftarrow> write1Byte c (om_opcode om);
          c \<leftarrow> write4Bytes c (md_listId om) True;
          c \<leftarrow> write4Bytes c (md_stripeId om) True;
          c \<leftarrow> write4Bytes c (md_chunkId om) True;
          c \<leftarrow> write4Bytes c (om_timestamp om) True;
          c \<leftarrow> write1Byte c (of_bool_byte (key_isLarge k));
          pwrite c (key_data k) (key_bytes (key_size k) (key_isLarge k)) }"

fun send_ops :: "nat \<Rightarrow> cursor \<Rightarrow> (Key \<times> OpMetadata) list \<Rightarrow> (cursor \<times> nat \<times> (Key \<times> OpMetadata) list) option" where
  "send_ops bsz c [] = Some (c, 0, [])"
| "send_ops bsz c ((k, om) # ops) =
     (if bsz \<ge> cursor_bytes c + 19 + key_bytes (key_size k) (key_isLarge k)
      then do { c \<leftarrow> write_op c k om; (c, n, rest) \<leftarrow> send_ops bsz c ops; Some (c, Suc n, rest) }
      else Some (c, 0, (k, om) # ops))"

text \<open>
  The result: bytes, send buffer, number of sealed chunks sent, sealed chunks left, number of
  operations sent, operations left, and whether everything was sent.
\<close>

definition generateHeartbeatMessage where
  "generateHeartbeatMessage pr magic to opcode instanceId requestId timestamp sealed ops =
     do { m \<leftarrow> poke (pr_send pr) 16 (be32 timestamp);
          (c, sealedCount, sealedLeft) \<leftarrow> send_metadata (pr_size pr) (m, 29, 29) sealed;
          (c, opsCount, opsLeft) \<leftarrow> send_ops (pr_size pr) c ops;
          let isCompleted = (sealedLeft = [] \<and> opsLeft = []);
          m \<leftarrow> poke (fst c) 20 (be32 (of_nat sealedCount));
          m \<leftarrow> poke m 24 (be32 (of_nat opsCount));
          m \<leftarrow> poke m 28 [of_bool_byte isCompleted];
          (n, m) \<leftarrow> close_message pr magic to opcode instanceId requestId (cursor_bytes c) m;
          Some (n, m, sealedCount, sealedLeft, opsCount, opsLeft, isCompleted) }"

definition generateHeartbeatMessage_counts where
  "generateHeartbeatMessage_counts pr magic to opcode instanceId requestId timestamp sealed keys isLast =
     do { c \<leftarrow> generateHeader pr magic to opcode 13 instanceId requestId (pr_send pr) 0 False;
          c \<leftarrow> write4Bytes c timestamp True;
          c \<leftarrow> write4Bytes c sealed True;
          c \<leftarrow> write4Bytes c keys True;
          c \<leftarrow> write1Byte c (of_bool_byte isLast);
          finish c }"

definition parseHeartbeatHeader ::
  "Protocol \<Rightarrow> HeartbeatHeader \<Rightarrow> memory option \<Rightarrow> nat \<Rightarrow> nat \<Rightarrow> (bool \<times> HeartbeatHeader) option" where
  "parseHeartbeatHeader pr h buf sz off =
     (let (buf, sz) = recv_args pr buf sz in
      if size_sub sz off < 13 then Some (False, h)
      else do { (t, ptr) \<leftarrow> read4Bytes (drop off buf) True;
                (s, ptr) \<leftarrow> read4Bytes ptr True;
                (k, ptr) \<leftarrow> read4Bytes ptr True;
                (l, ptr) \<leftarrow> read1Byte ptr;
                Some (True, h\<lparr>hb_timestamp := t, hb_sealed := s, hb_keys := k, hb_isLast := (l \<noteq> 0)\<rparr>) })"

text \<open>The \<^verbatim>\<open>bytes\<close> reference argument is the third component of the result.\<close>

definition parseMetadataHeader ::
  "Protocol \<Rightarrow> Metadata \<Rightarrow> nat \<Rightarrow> memory option \<Rightarrow> nat \<Rightarrow> nat \<Rightarrow> (bool \<times> Metadata \<times> nat) option" where
  "parseMetadataHeader pr h bytes buf sz off =
     (let (buf, sz) = recv_args pr buf sz in
      if size_sub sz off < 12 then Some (False, h, bytes)
      else do { (l, ptr) \<leftarrow> read4Bytes (drop off buf) True;
                (s, ptr) \<leftarrow> read4Bytes ptr True;
                (c, ptr) \<leftarrow> read4Bytes ptr True;
                Some (True, md_set l s c, 12) })"

record KeyOpMetadataHeader =
  ko_keySize :: u8
  ko_opcode :: u8
  ko_listId :: u32
  ko_stripeId :: u32
  ko_chunkId :: u32
  ko_timestamp :: u32
  ko_isLarge :: bool
  ko_key :: "byte list"

definition parseKeyOpMetadataHeader ::
  "Protocol \<Rightarrow> KeyOpMetadataHeader \<Rightarrow> nat \<Rightarrow> memory option \<Rightarrow> nat \<Rightarrow> nat \<Rightarrow> (bool \<times> KeyOpMetadataHeader \<times> nat) option" where
  "parseKeyOpMetadataHeader pr h bytes buf sz off =
     (let (buf, sz) = recv_args pr buf sz in
      if size_sub sz off < 19 then Some (False, h, bytes)
      else do { (keySize, ptr) \<leftarrow> read1Byte (drop off buf);
                (opcode, ptr) \<leftarrow> read1Byte ptr;
                (l, ptr) \<leftarrow> read4Bytes ptr True;
                (s, ptr) \<leftarrow> read4Bytes ptr True;
                (c, ptr) \<leftarrow> read4Bytes ptr True;
                (t, ptr) \<leftarrow> read4Bytes ptr True;
                (large, ptr) \<leftarrow> read1Byte ptr;
                let large = (large \<noteq> 0);
                let bytes = 19 + key_bytes keySize large;
                Some (size_sub sz off \<ge> bytes,
                      h\<lparr>ko_keySize := keySize, ko_opcode := opcode, ko_listId := l, ko_stripeId := s, ko_chunkId := c,
                        ko_timestamp := t, ko_isLarge := large, ko_key := ptr\<rparr>, bytes) })"

definition max_timestamp :: "u32 \<Rightarrow> u32 list \<Rightarrow> u32" where
  "max_timestamp t ts = fold (\<lambda>x t. if t < x then x else t) ts t"

text \<open>
  \<^verbatim>\<open>generateMetadataBackupMessage\<close>: the maximum is taken over the entries looked at, which are the
  entries sent and the first one that does not fit.
\<close>

definition generateMetadataBackupMessage where
  "generateMetadataBackupMessage pr magic to opcode instanceId requestId addr port sealed ops =
     do { c \<leftarrow> write4Bytes (pr_send pr, 16, 16) addr False;
          (m, p, n) \<leftarrow> write2Bytes c port False;
          (c, sealedCount, sealedLeft) \<leftarrow> send_metadata (pr_size pr) (m, p + 13, n + 13) (map snd sealed);
          let maxTimestamp = max_timestamp 0 (map fst (take (sealedCount + 1) sealed));
          (c, opsCount, opsLeft) \<leftarrow> send_ops (pr_size pr) c ops;
          let maxTimestamp = max_timestamp maxTimestamp (map (om_timestamp \<circ> snd) (take (opsCount + 1) ops));
          let isCompleted = (sealedLeft = [] \<and> opsLeft = []);
          m \<leftarrow> poke (fst c) p (be32 maxTimestamp);
          m \<leftarrow> poke m (p + 4) (be32 (of_nat sealedCount));
          m \<leftarrow> poke m (p + 8) (be32 (of_nat opsCount));
          m \<leftarrow> poke m (p + 12) [of_bool_byte isCompleted];
          (n, m) \<leftarrow> close_message pr magic to opcode instanceId requestId (cursor_bytes c) m;
          Some (n, m, sealedCount, drop sealedCount sealed, opsCount, opsLeft, isCompleted) }"

definition parseMetadataBackupMessage ::
  "Protocol \<Rightarrow> AddressHeader \<Rightarrow> HeartbeatHeader \<Rightarrow> memory option \<Rightarrow> nat \<Rightarrow> nat
     \<Rightarrow> (bool \<times> AddressHeader \<times> HeartbeatHeader) option" where
  "parseMetadataBackupMessage pr a hb buf sz off =
     (let (buf, sz) = recv_args pr buf sz in
      do { (good, a) \<leftarrow> parseAddressHeader pr a (Some buf) sz off;
           if good
           then do { (good, hb) \<leftarrow> parseHeartbeatHeader pr hb (Some buf) sz (off + 6); Some (good, a, hb) }
           else Some (False, a, hb) })"

section \<open>Lemmas on batches\<close>

definition op_bytes :: "Key \<Rightarrow> OpMetadata \<Rightarrow> byte list" where
  "op_bytes k om =
     [key_size k, om_opcode om] @ be32 (md_listId om) @ be32 (md_stripeId om) @ be32 (md_chunkId om)
       @ be32 (om_timestamp om) @ [of_bool_byte (key_isLarge k)] @ take (key_bytes (key_size k) (key_isLarge k)) (key_data k)"

fun ops_bytes :: "(Key \<times> OpMetadata) list \<Rightarrow> byte list" where
  "ops_bytes [] = []"
| "ops_bytes ((k, om) # ops) = op_bytes k om @ ops_bytes ops"

lemma length_op_bytes: "readable k \<Longrightarrow> length (op_bytes k om) = 19 + key_bytes (key_size k) (key_isLarge k)"
  by (simp add: op_bytes_def readable_def)

lemma write_metadata1: "write_metadata c [md] = put (metadata_bytes [md]) c"
  by (simp add: write_simps)

lemma write_op_put: "readable k \<Longrightarrow> write_op c k om = put (op_bytes k om) c"
  by (simp add: write_op_def write_simps op_bytes_def pwrite_ok readable_def)

lemma put_bytes: "put bs c = Some c' \<Longrightarrow> cursor_bytes c' = cursor_bytes c + length bs"
  by (cases c) (auto simp: put_def cursor_bytes_def)

lemma put_append_Some: "put as c = Some c1 \<Longrightarrow> put bs c1 = Some c2 \<Longrightarrow> put (as @ bs) c = Some c2"
  by (simp add: put_put [symmetric])

definition cursor_ok :: "cursor \<Rightarrow> bool" where
  "cursor_ok c \<longleftrightarrow> fst (snd c) \<le> length (fst c)"

lemma put_nil: "cursor_ok c \<Longrightarrow> put [] c = Some c"
  by (cases c) (simp add: put_def cursor_ok_def)

lemma put_cursor_ok: "put bs c = Some c' \<Longrightarrow> cursor_ok c'"
  by (cases c) (auto simp: put_def cursor_ok_def poke_def split: if_splits)

text \<open>Each filling loop sends a prefix and leaves the rest, which is non-empty only when the next entry does not fit.\<close>

lemma send_metadata_prefix:
  "send_metadata bsz c mds = Some (c', k, rest) \<Longrightarrow> cursor_ok c \<Longrightarrow>
     k \<le> length mds \<and> rest = drop k mds \<and> put (metadata_bytes (take k mds)) c = Some c'
     \<and> (rest \<noteq> [] \<longrightarrow> bsz < cursor_bytes c' + 12) \<and> (cursor_bytes c \<le> bsz \<longrightarrow> cursor_bytes c' \<le> bsz)"
proof (induction bsz c mds arbitrary: c' k rest rule: send_metadata.induct)
  case (1 bsz c)
  then show ?case by (auto simp: put_nil)
next
  case (2 bsz c md mds)
  show ?case
  proof (cases "bsz \<ge> cursor_bytes c + 12")
    case True
    with 2(2) obtain c1 k1 where c1: "put (metadata_bytes [md]) c = Some c1"
      "send_metadata bsz c1 mds = Some (c', k1, rest)" "k = Suc k1"
      by (auto simp: write_metadata1 bind_eq_Some_conv simp del: metadata_bytes.simps write_metadata.simps)
    have w: "write_metadata c [md] = Some c1" using c1(1) by (simp only: write_metadata1)
    note IH = 2(1) [OF True w c1(2) put_cursor_ok [OF c1(1)]]
    have b: "cursor_bytes c1 = cursor_bytes c + 12" using put_bytes [OF c1(1)] by simp
    have "put (metadata_bytes [md] @ metadata_bytes (take k1 mds)) c = Some c'"
      using put_append_Some [OF c1(1)] IH by blast
    with IH b c1(3) True show ?thesis by simp
  next
    case False
    with 2(2,3) show ?thesis by (auto simp: put_nil)
  qed
qed

lemma send_metadata_exact:
  "cursor_ok c \<Longrightarrow> send_metadata bsz c mds =
     (let k = min (length mds) ((bsz - cursor_bytes c) div 12) in
      map_option (\<lambda>c'. (c', k, drop k mds)) (put (metadata_bytes (take k mds)) c))"
proof (induction bsz c mds rule: send_metadata.induct)
  case (2 bsz c md mds)
  show ?case
  proof (cases "bsz \<ge> cursor_bytes c + 12")
    case True
    let ?k = "(bsz - (cursor_bytes c + 12)) div 12"
    have k: "(bsz - cursor_bytes c) div 12 = Suc ?k" using True by (subst le_div_geq) simp_all
    have split: "put (metadata_bytes (md # xs)) c = put (metadata_bytes [md]) c \<bind> put (metadata_bytes xs)" for xs
    proof -
      have "metadata_bytes (md # xs) = metadata_bytes [md] @ metadata_bytes xs" by simp
      then show ?thesis by (simp only: put_put)
    qed
    show ?thesis
    proof (cases "put (metadata_bytes [md]) c")
      case None
      then have "write_metadata c [md] = None" by (simp only: write_metadata1)
      with None True show ?thesis by (simp add: k split [of "take (min (length mds) ?k) mds"] Let_def del: metadata_bytes.simps write_metadata.simps)
    next
      case (Some c1)
      have w: "write_metadata c [md] = Some c1" using Some by (simp only: write_metadata1)
      have b: "cursor_bytes c1 = cursor_bytes c + 12" using put_bytes [OF Some] by simp
      show ?thesis using 2(1) [OF True w put_cursor_ok [OF Some]] True Some w
        by (simp add: k b split [of "take (min (length mds) ?k) mds"] Let_def option.map_comp comp_def map_option_bind del: metadata_bytes.simps write_metadata.simps)
          (cases "put (metadata_bytes (take (min (length mds) ?k) mds)) c1"; simp)
    qed
  next
    case False
    then have "(bsz - cursor_bytes c) div 12 = 0" by simp
    with False 2(2) show ?thesis by (simp add: put_nil)
  qed
qed (simp add: put_nil)

lemma send_ops_prefix:
  "send_ops bsz c ops = Some (c', k, rest) \<Longrightarrow> cursor_ok c \<Longrightarrow> \<forall>(key, om) \<in> set ops. readable key \<Longrightarrow>
     k \<le> length ops \<and> rest = drop k ops \<and> put (ops_bytes (take k ops)) c = Some c'
     \<and> (cursor_bytes c \<le> bsz \<longrightarrow> cursor_bytes c' \<le> bsz)"
proof (induction bsz c ops arbitrary: c' k rest rule: send_ops.induct)
  case (1 bsz c)
  then show ?case by (auto simp: put_nil)
next
  case (2 bsz c key om ops)
  have rd: "readable key" using 2(4) by simp
  show ?case
  proof (cases "bsz \<ge> cursor_bytes c + 19 + key_bytes (key_size key) (key_isLarge key)")
    case True
    with 2(2) obtain c1 k1 where c1: "write_op c key om = Some c1"
      "send_ops bsz c1 ops = Some (c', k1, rest)" "k = Suc k1"
      by (auto simp: bind_eq_Some_conv)
    note w = c1(1) [unfolded write_op_put [OF rd]]
    note IH = 2(1) [OF True c1(1,2) put_cursor_ok [OF w]]
    have b: "cursor_bytes c1 = cursor_bytes c + 19 + key_bytes (key_size key) (key_isLarge key)"
      using put_bytes [OF w] length_op_bytes [OF rd] by simp
    have "put (op_bytes key om @ ops_bytes (take k1 ops)) c = Some c'"
      using put_append_Some [OF w] IH 2(4) by simp
    with IH b c1(3) True 2(4) show ?thesis by simp
  next
    case False
    with 2(2,3) show ?thesis by (auto simp: put_nil)
  qed
qed

section \<open>Heartbeat messages\<close>

definition heartbeat_body :: "u32 \<Rightarrow> Metadata list \<Rightarrow> (Key \<times> OpMetadata) list \<Rightarrow> bool \<Rightarrow> byte list" where
  "heartbeat_body timestamp sealed ops isLast =
     be32 timestamp @ be32 (of_nat (length sealed)) @ be32 (of_nat (length ops)) @ [of_bool_byte isLast]
       @ metadata_bytes sealed @ ops_bytes ops"

lemma put_poke: "put bs (m, p, n) = Some c \<longleftrightarrow> poke m p bs = Some (fst c) \<and> snd c = (p + length bs, n + length bs)"
  by (cases c) (auto simp: put_def)

lemma generateHeartbeat_image:
  assumes g: "generateHeartbeatMessage pr magic to opcode instanceId requestId timestamp sealed ops =
      Some (n, m, sealedCount, sealedLeft, opsCount, opsLeft, isCompleted)"
    and rd: "\<forall>(key, om) \<in> set ops. readable key" and ok: "29 \<le> length (pr_send pr)"
  shows "sealedLeft = drop sealedCount sealed \<and> opsLeft = drop opsCount ops
    \<and> isCompleted = (sealedLeft = [] \<and> opsLeft = [])
    \<and> n = 16 + length (heartbeat_body timestamp (take sealedCount sealed) (take opsCount ops) isCompleted)
    \<and> (\<exists>r. m = header_image pr magic to opcode (of_nat (n - 16)) instanceId requestId 0 False
             @ heartbeat_body timestamp (take sealedCount sealed) (take opsCount ops) isCompleted @ r)
    \<and> (29 \<le> pr_size pr \<longrightarrow> n \<le> pr_size pr)"
proof -
  let ?ms = "metadata_bytes (take sealedCount sealed)" and ?os = "ops_bytes (take opsCount ops)"
  obtain m0 c1 c2 m1 m2 m3 where
    m0: "poke (pr_send pr) 16 (be32 timestamp) = Some m0"
    and s1: "send_metadata (pr_size pr) (m0, 29, 29) sealed = Some (c1, sealedCount, sealedLeft)"
    and s2: "send_ops (pr_size pr) c1 ops = Some (c2, opsCount, opsLeft)"
    and ic: "isCompleted = (sealedLeft = [] \<and> opsLeft = [])"
    and m1: "poke (fst c2) 20 (be32 (of_nat sealedCount)) = Some m1"
    and m2: "poke m1 24 (be32 (of_nat opsCount)) = Some m2"
    and m3': "poke m2 28 [of_bool_byte (sealedLeft = [] \<and> opsLeft = [])] = Some m3"
    and cl: "close_message pr magic to opcode instanceId requestId (cursor_bytes c2) m3 = Some (n, m)"
    using g unfolding generateHeartbeatMessage_def bind_eq_Some_conv Let_def split_paired_Ex prod.case option.inject prod.inject
    by blast
  have m3: "poke m2 28 [of_bool_byte isCompleted] = Some m3" using m3' ic by simp
  have "cursor_ok (m0, 29, 29)" using ok length_poke [OF m0] by (simp add: cursor_ok_def)
  note p1 = send_metadata_prefix [OF s1 this]
  have "cursor_ok c1" using p1 put_cursor_ok by blast
  note p2 = send_ops_prefix [OF s2 this rd]
  have len: "length (take sealedCount sealed) = sealedCount" "length (take opsCount ops) = opsCount"
    using p1 p2 by simp_all
  have "put (?ms @ ?os) (m0, 29, 29) = Some c2" using p1 p2 put_append_Some by blast
  then have w: "poke m0 29 (?ms @ ?os) = Some (fst c2)" and cb: "cursor_bytes c2 = 29 + length (?ms @ ?os)"
    by (auto simp: put_poke cursor_bytes_def)
  have h: "poke m3 0 (header_image pr magic to opcode (of_nat (n - 16)) instanceId requestId 0 False) = Some m" "n = cursor_bytes c2"
    using cl by (auto simp: close_message_def generateHeader_put put_def bind_eq_Some_conv)
  note other = peek_poke_other [OF m0] peek_poke_other [OF w] peek_poke_other [OF m1] peek_poke_other [OF m2]
    peek_poke_other [OF m3] peek_poke_other [OF h(1)]
  have "peek m 16 4 = Some (be32 timestamp)"
    using peek_poke_same [OF m0] by (simp add: other)
  moreover have "peek m (16 + 4) 4 = Some (be32 (of_nat sealedCount))"
    using peek_poke_same [OF m1] by (simp add: other)
  moreover have "peek m (16 + 4 + 4) 4 = Some (be32 (of_nat opsCount))"
    using peek_poke_same [OF m2] by (simp add: other)
  moreover have "peek m (16 + 4 + 4 + 4) 1 = Some [of_bool_byte isCompleted]"
    using peek_poke_same [OF m3] by (simp add: other)
  moreover have "peek m (16 + 4 + 4 + 4 + 1) (length (?ms @ ?os)) = Some (?ms @ ?os)"
    using peek_poke_same [OF w] by (simp add: other)
  ultimately have "peek m (0 + 16) (4 + (4 + (4 + (1 + length (?ms @ ?os))))) =
      Some (be32 timestamp @ be32 (of_nat sealedCount) @ be32 (of_nat opsCount) @ [of_bool_byte isCompleted] @ ?ms @ ?os)"
    unfolding add_0 by (intro peek_join)
  moreover have "peek m 0 16 = Some (header_image pr magic to opcode (of_nat (n - 16)) instanceId requestId 0 False)"
    using peek_poke_same [OF h(1)] by simp
  ultimately have "peek m 0 (16 + (4 + (4 + (4 + (1 + length (?ms @ ?os)))))) =
      Some (header_image pr magic to opcode (of_nat (n - 16)) instanceId requestId 0 False
        @ heartbeat_body timestamp (take sealedCount sealed) (take opsCount ops) isCompleted)"
    unfolding heartbeat_body_def len by (rule peek_join [rotated])
  then have "\<exists>r. m = header_image pr magic to opcode (of_nat (n - 16)) instanceId requestId 0 False
             @ heartbeat_body timestamp (take sealedCount sealed) (take opsCount ops) isCompleted @ r"
    unfolding peek_Some_iff seg_def by (metis append.assoc append_take_drop_id drop0)
  moreover have "n = 16 + length (heartbeat_body timestamp (take sealedCount sealed) (take opsCount ops) isCompleted)"
    using h(2) cb by (simp add: heartbeat_body_def)
  moreover have "29 \<le> pr_size pr \<longrightarrow> n \<le> pr_size pr" using p1 p2 h(2) by (simp add: cursor_bytes_def)
  ultimately show ?thesis using p1 p2 ic by blast
qed

lemma generateHeartbeat_counts:
  assumes "generateHeartbeatMessage pr magic to opcode instanceId requestId timestamp sealed ops =
      Some (n, m, sealedCount, sealedLeft, opsCount, opsLeft, isCompleted)"
    and "\<forall>(key, om) \<in> set ops. readable key" and "29 \<le> length (pr_send pr)"
  shows "length (take sealedCount sealed) = sealedCount \<and> length (take opsCount ops) = opsCount
    \<and> sealedCount < n \<and> opsCount < n"
proof -
  obtain m0 c1 c2 where
    m0: "poke (pr_send pr) 16 (be32 timestamp) = Some m0"
    and s1: "send_metadata (pr_size pr) (m0, 29, 29) sealed = Some (c1, sealedCount, sealedLeft)"
    and s2: "send_ops (pr_size pr) c1 ops = Some (c2, opsCount, opsLeft)"
    using assms(1) unfolding generateHeartbeatMessage_def bind_eq_Some_conv Let_def split_paired_Ex prod.case option.inject prod.inject
    by blast
  have "cursor_ok (m0, 29, 29)" using assms(3) length_poke [OF m0] by (simp add: cursor_ok_def)
  note p1 = send_metadata_prefix [OF s1 this]
  have "cursor_ok c1" using p1 put_cursor_ok by blast
  note p2 = send_ops_prefix [OF s2 this assms(2)]
  have "length (ops_bytes xs) \<ge> length xs" for xs
    by (induction xs rule: ops_bytes.induct) (auto simp: op_bytes_def)
  from this [of "take opsCount ops"] show ?thesis
    using p1 p2 generateHeartbeat_image [OF assms] by (simp add: heartbeat_body_def)
qed

end
