(* ===== verification/BatchProtocol.thy ===== *)
theory BatchProtocol
  imports ControlProtocol
begin

text \<open>
  Batched messages and recovery: \<^verbatim>\<open>batch_protocol.cc\<close>, \<^verbatim>\<open>recovery_protocol.cc\<close>, the
  key-value part of \<^verbatim>\<open>chunk_protocol.cc\<close> and the remapping messages of
  \<^verbatim>\<open>remap_protocol.cc\<close> under \<^verbatim>\<open>common/protocol\<close>. Maps of keys to objects are partial
  functions, the iterated containers lists in iteration order; \<open>cs\<close> is the chunk size.
\<close>

section \<open>Batches\<close>

record BatchHeader =
  bh_count :: u32
  bh_items :: "byte list"

fun send_chunks ::
  "nat \<Rightarrow> cursor \<Rightarrow> (u32 \<times> Metadata) list \<Rightarrow> (cursor \<times> nat \<times> (u32 \<times> Metadata) list) option" where
  "send_chunks bsz c [] = Some (c, 0, [])"
| "send_chunks bsz c ((rid, md) # xs) =
     (if bsz \<ge> cursor_bytes c + 12 + 4
      then do { c \<leftarrow> write4Bytes c rid True;
                c \<leftarrow> write4Bytes c (md_listId md) True;
                c \<leftarrow> write4Bytes c (md_stripeId md) True;
                c \<leftarrow> write4Bytes c (md_chunkId md) True;
                (c, n, rest) \<leftarrow> send_chunks bsz c xs;
                Some (c, Suc n, rest) }
      else Some (c, 0, (rid, md) # xs))"

text \<open>
  The two parallel vectors are one list of pairs; \<^verbatim>\<open>at\<close> on a shorter vector of request ids throws.
  The result has the pairs that remain (empty: both vectors are deleted).
\<close>

definition generateBatchChunkHeader where
  "generateBatchChunkHeader pr magic to opcode instanceId requestId requestIds metadata =
     (if length requestIds < length metadata then None
      else do { (c, count, rest) \<leftarrow> send_chunks (pr_size pr) (pr_send pr, 20, 20) (zip requestIds metadata);
                m \<leftarrow> poke (fst c) 16 (be32 (of_nat count));
                (n, m) \<leftarrow> close_message pr magic to opcode instanceId requestId (cursor_bytes c) m;
                Some (n, m, count, rest, rest = []) })"

definition parseBatchHeader ::
  "Protocol \<Rightarrow> BatchHeader \<Rightarrow> memory option \<Rightarrow> nat \<Rightarrow> nat \<Rightarrow> (bool \<times> BatchHeader) option" where
  "parseBatchHeader pr h buf sz off =
     (let (buf, sz) = recv_args pr buf sz in
      if size_sub sz off < 4 then Some (False, h)
      else do { (n, ptr) \<leftarrow> read4Bytes (drop off buf) True; Some (True, h\<lparr>bh_count := n, bh_items := ptr\<rparr>) })"

definition parseBatchChunkHeader where "parseBatchChunkHeader = parseBatchHeader"
definition parseBatchKeyHeader where "parseBatchKeyHeader = parseBatchHeader"
definition parseBatchKeyValueHeader where "parseBatchKeyValueHeader = parseBatchHeader"

definition nextChunkInBatchChunkHeader ::
  "Protocol \<Rightarrow> BatchHeader \<Rightarrow> ChunkHeader \<Rightarrow> u32 \<Rightarrow> u32 \<Rightarrow> (bool \<times> u32 \<times> ChunkHeader \<times> u32) option" where
  "nextChunkInBatchChunkHeader pr h ch sz off =
     do { (responseId, _) \<leftarrow> read4Bytes (drop (unat off) (bh_items h)) True;
          (good, ch) \<leftarrow> parseChunkHeader pr ch (Some (bh_items h)) (unat sz) (unat (off + 4));
          Some (good, responseId, ch, off + 4 + 12) }"

fun send_keys :: "nat \<Rightarrow> cursor \<Rightarrow> Key list \<Rightarrow> (cursor \<times> nat \<times> Key list) option" where
  "send_keys bsz c [] = Some (c, 0, [])"
| "send_keys bsz c (k # ks) =
     (if bsz \<ge> cursor_bytes c + 1 + unat (key_size k)
      then do { c \<leftarrow> write_keys c [k]; (c, n, rest) \<leftarrow> send_keys bsz c ks; Some (c, Suc n, rest) }
      else Some (c, 0, k # ks))"

definition generateBatchKeyHeader where
  "generateBatchKeyHeader pr magic to opcode instanceId requestId keys =
     do { (c, count, rest) \<leftarrow> send_keys (pr_size pr) (pr_send pr, 20, 20) keys;
          m \<leftarrow> poke (fst c) 16 (be32 (of_nat count));
          (n, m) \<leftarrow> close_message pr magic to opcode instanceId requestId (cursor_bytes c) m;
          Some (n, m, count, rest, rest = []) }"

definition nextKeyInBatchKeyHeader :: "BatchHeader \<Rightarrow> u32 \<Rightarrow> (u8 \<times> byte list \<times> u32) option" where
  "nextKeyInBatchKeyHeader h off =
     do { (keySize, ptr) \<leftarrow> read1Byte (drop (unat off) (bh_items h));
          Some (keySize, ptr, off + 1 + ucast keySize) }"

definition nextKeyValueInBatchKeyValueHeader ::
  "BatchHeader \<Rightarrow> u32 \<Rightarrow> (u8 \<times> u32 \<times> byte list \<times> byte list option \<times> u32) option" where
  "nextKeyValueInBatchKeyValueHeader h off =
     do { (keySize, ptr) \<leftarrow> read1Byte (drop (unat off) (bh_items h));
          (valueSize, ptr) \<leftarrow> read3Bytes ptr;
          Some (keySize, valueSize, ptr, (if valueSize \<noteq> 0 then Some (drop (unat keySize) ptr) else None),
                off + (4 + ucast keySize + valueSize)) }"

text \<open>The response to a batch of objects: the keys of the request, without a bound on the buffer.\<close>

fun echo_keys :: "BatchHeader \<Rightarrow> cursor \<Rightarrow> u32 \<Rightarrow> nat \<Rightarrow> cursor option" where
  "echo_keys h c off 0 = Some c"
| "echo_keys h c off (Suc n) =
     do { (keySize, valueSize, key, _, off) \<leftarrow> nextKeyValueInBatchKeyValueHeader h off;
          c \<leftarrow> write1Byte c keySize;
          c \<leftarrow> pwrite c key (unat keySize);
          echo_keys h c off n }"

definition generateBatchKeyHeader_echo where
  "generateBatchKeyHeader_echo pr magic to opcode instanceId requestId h =
     do { c \<leftarrow> echo_keys h (pr_send pr, 20, 20) 0 (unat (bh_count h));
          m \<leftarrow> poke (fst c) 16 (be32 (bh_count h));
          close_message pr magic to opcode instanceId requestId (cursor_bytes c) m }"

fun send_key_values ::
  "nat \<Rightarrow> u32 \<Rightarrow> (Key \<Rightarrow> memory option) \<Rightarrow> cursor \<Rightarrow> Key list \<Rightarrow> (cursor \<times> nat \<times> Key list) option" where
  "send_key_values bsz cs values c [] = Some (c, 0, [])"
| "send_key_values bsz cs values c (k # ks) =
     (case values k of
        None \<Rightarrow> send_key_values bsz cs values c ks
      | Some kv \<Rightarrow>
          do { (n, _, _) \<leftarrow> getSize cs kv 0;
               if bsz \<ge> cursor_bytes c + unat n
               then do { c \<leftarrow> pwrite c kv (unat n);
                         (c, count, rest) \<leftarrow> send_key_values bsz cs values c ks;
                         Some (c, Suc count, rest) }
               else Some (c, 0, k # ks) })"

definition generateBatchKeyValueHeader where
  "generateBatchKeyValueHeader cs pr magic to opcode instanceId requestId keys values =
     do { (c, count, rest) \<leftarrow> send_key_values (pr_size pr) cs values (pr_send pr, 20, 20) keys;
          m \<leftarrow> poke (fst c) 16 (be32 (of_nat count));
          (n, m) \<leftarrow> close_message pr magic to opcode instanceId requestId (cursor_bytes c) m;
          Some (n, m, count, rest, rest = []) }"

section \<open>Recovery\<close>

record PromoteBackupServerHeader =
  pb_addr :: u32
  pb_port :: u16
  pb_chunkCount :: u32
  pb_unsealedCount :: u32
  pb_metadata :: "u32 list"
  pb_keys :: "byte list"

definition generatePromoteBackupServerHeader where
  "generatePromoteBackupServerHeader pr magic to opcode instanceId requestId addr port chunks keys =
     do { c \<leftarrow> write4Bytes (pr_send pr, 16, 16) addr False;
          (m, p, n) \<leftarrow> write2Bytes c port False;
          (c, chunkCount, chunksLeft) \<leftarrow> send_metadata (pr_size pr) (m, p + 8, n + 8) chunks;
          (c, unsealedCount, keysLeft) \<leftarrow>
            (if chunksLeft = [] then send_keys (pr_size pr) c keys else Some (c, 0, keys));
          m \<leftarrow> poke (fst c) p (be32 (of_nat chunkCount));
          m \<leftarrow> poke m (p + 4) (be32 (of_nat unsealedCount));
          (n, m) \<leftarrow> close_message pr magic to opcode instanceId requestId (cursor_bytes c) m;
          Some (n, m, chunksLeft, keysLeft, chunksLeft = [] \<and> keysLeft = []) }"

definition generatePromoteBackupServerHeader_counts where
  "generatePromoteBackupServerHeader_counts pr magic to opcode instanceId requestId addr port numReconstructedChunks numReconstructedKeys =
     do { c \<leftarrow> generateHeader pr magic to opcode 14 instanceId requestId (pr_send pr) 0 False;
          c \<leftarrow> write4Bytes c addr False;
          c \<leftarrow> write2Bytes c port False;
          c \<leftarrow> write4Bytes c numReconstructedChunks True;
          c \<leftarrow> write4Bytes c numReconstructedKeys True;
          finish c }"

definition parsePromoteBackupServerHeader ::
  "Protocol \<Rightarrow> PromoteBackupServerHeader \<Rightarrow> bool \<Rightarrow> memory option \<Rightarrow> nat \<Rightarrow> nat
     \<Rightarrow> (bool \<times> PromoteBackupServerHeader \<times> memory) option" where
  "parsePromoteBackupServerHeader pr h isRequest buf sz off =
     (let (buf, sz) = recv_args pr buf sz in
      if size_sub sz off < 14 then Some (False, h, buf)
      else do { (addr, ptr) \<leftarrow> read4Bytes (drop off buf) False;
                (port, ptr) \<leftarrow> read2Bytes ptr False;
                (chunkCount, ptr) \<leftarrow> read4Bytes ptr True;
                (unsealedCount, ptr) \<leftarrow> read4Bytes ptr True;
                let h = h\<lparr>pb_addr := addr, pb_port := port, pb_chunkCount := chunkCount, pb_unsealedCount := unsealedCount\<rparr>;
                if isRequest
                then do { (vs, keys) \<leftarrow> read_u32s (unat chunkCount * 3) ptr;
                          Some (True, h\<lparr>pb_metadata := vs, pb_keys := keys\<rparr>, swapped buf ptr (unat chunkCount * 3)) }
                else Some (True, h, buf) })"

record ReconstructionHeader =
  rc_listId :: u32
  rc_chunkId :: u32
  rc_numStripes :: u32
  rc_stripeIds :: "u32 list option"

text \<open>At most 3000 stripe ids go into one message.\<close>

fun send_reconstruction :: "nat \<Rightarrow> nat \<Rightarrow> nat \<Rightarrow> cursor \<Rightarrow> u32 list \<Rightarrow> (cursor \<times> nat \<times> u32 list \<times> bool) option" where
  "send_reconstruction bsz numChunks count c [] = Some (c, count, [], True)"
| "send_reconstruction bsz numChunks count c (s # ss) =
     (if count < numChunks
      then if bsz \<ge> cursor_bytes c + 4 \<and> count < 3000
           then do { c \<leftarrow> write4Bytes c s True; send_reconstruction bsz numChunks (Suc count) c ss }
           else Some (c, count, s # ss, False)
      else Some (c, count, s # ss, True))"

definition generateReconstructionHeader where
  "generateReconstructionHeader pr magic to opcode instanceId requestId listId chunkId stripeIds numChunks =
     do { c \<leftarrow> write4Bytes (pr_send pr, 16, 16) listId True;
          (m, p, n) \<leftarrow> write4Bytes c chunkId True;
          (c, count, rest, isCompleted) \<leftarrow>
            send_reconstruction (pr_size pr) (unat (numChunks :: u32)) 0 (m, p + 4, n + 4) stripeIds;
          m \<leftarrow> poke (fst c) p (be32 (of_nat count));
          (n, m) \<leftarrow> close_message pr magic to opcode instanceId requestId (cursor_bytes c) m;
          Some (n, m, rest, isCompleted) }"

definition generateReconstructionHeader_count where
  "generateReconstructionHeader_count pr magic to opcode instanceId requestId listId chunkId numChunks =
     do { c \<leftarrow> generateHeader pr magic to opcode 12 instanceId requestId (pr_send pr) 0 False;
          c \<leftarrow> write4Bytes c listId True;
          c \<leftarrow> write4Bytes c chunkId True;
          c \<leftarrow> write4Bytes c numChunks True;
          finish c }"

definition parseReconstructionHeader ::
  "Protocol \<Rightarrow> ReconstructionHeader \<Rightarrow> bool \<Rightarrow> memory option \<Rightarrow> nat \<Rightarrow> nat
     \<Rightarrow> (bool \<times> ReconstructionHeader \<times> memory) option" where
  "parseReconstructionHeader pr h isRequest buf sz off =
     (let (buf, sz) = recv_args pr buf sz in
      if size_sub sz off < 12 then Some (False, h, buf)
      else do { (l, ptr) \<leftarrow> read4Bytes (drop off buf) True;
                (c, ptr) \<leftarrow> read4Bytes ptr True;
                (n, ptr) \<leftarrow> read4Bytes ptr True;
                let h = h\<lparr>rc_listId := l, rc_chunkId := c, rc_numStripes := n\<rparr>;
                if isRequest
                then if size_sub sz off < 12 + unat (n * 4) then Some (False, h, buf)
                     else do { (vs, _) \<leftarrow> read_u32s (unat n) ptr;
                               Some (True, h\<lparr>rc_stripeIds := Some vs\<rparr>, swapped buf ptr (unat n)) }
                else Some (True, h\<lparr>rc_stripeIds := None\<rparr>, buf) })"

section \<open>Objects of an unsealed chunk\<close>

record ChunkKeyValueHeader =
  ckv_listId :: u32
  ckv_stripeId :: u32
  ckv_chunkId :: u32
  ckv_deleted :: u32
  ckv_count :: u32
  ckv_isCompleted :: bool

text \<open>
  First loop of \<^verbatim>\<open>generateChunkKeyValueHeader\<close>: the deleted keys of the chunk. The first list holds
  the keys still to visit, the second the visited keys that stay in the reverse map.
\<close>

fun send_deleted ::
  "nat \<Rightarrow> cursor \<Rightarrow> Key set \<Rightarrow> Key list \<Rightarrow> Key list \<Rightarrow> nat \<Rightarrow> (cursor \<times> Key set \<times> Key list \<times> nat \<times> bool) option" where
  "send_deleted bsz c deleted [] kept n = Some (c, deleted, kept, n, True)"
| "send_deleted bsz c deleted (k # ks) kept n =
     (if k \<in> deleted
      then if bsz \<ge> cursor_bytes c + 1 + unat (key_size k)
           then do { c \<leftarrow> write_keys c [k]; send_deleted bsz c (deleted - {k}) ks kept (Suc n) }
           else Some (c, deleted, kept @ k # ks, n, False)
      else send_deleted bsz c deleted ks (kept @ [k]) n)"

definition chunk_object_bytes :: "u32 \<Rightarrow> memory \<Rightarrow> object \<Rightarrow> (bool \<times> u32) option" where
  "chunk_object_bytes cs kv ob =
     do { (large, _, splitSize) \<leftarrow> isLarge cs (obj_keySize ob) (obj_valueSize ob);
          Some (large, if large then piece_size (obj_valueSize ob) (obj_splitOffset ob) splitSize else splitSize) }"

text \<open>
  Second loop: the objects of the chunk. Every object that fits is written once without a test of
  its kind and then a second time under the test, as the code has it; the second time a large
  object carries its piece size in the place of the split offset.
\<close>

definition write_object :: "nat \<Rightarrow> u32 \<Rightarrow> cursor \<Rightarrow> memory \<Rightarrow> (cursor \<times> bool) option" where
  "write_object bsz cs c kv =
     do { ob \<leftarrow> deserialize cs kv 0;
          let key = drop (obj_key ob) kv;
          let val = drop (obj_value ob) kv;
          let ks = obj_keySize ob;
          let vs = obj_valueSize ob;
          c \<leftarrow> (if bsz \<ge> cursor_bytes c + unat (4 + ucast ks + vs :: u32)
                then do { c \<leftarrow> write1Byte c ks; c \<leftarrow> write3Bytes c vs; c \<leftarrow> pwrite c key (unat ks); pwrite c val (unat vs) }
                else Some c);
          (large, splitSize) \<leftarrow> chunk_object_bytes cs kv ob;
          let objSize = (if large then 4 + 3 + ucast ks + vs else 4 + ucast ks + vs :: u32);
          if bsz \<ge> cursor_bytes c + unat objSize
          then do { c \<leftarrow> write1Byte c ks; c \<leftarrow> write3Bytes c vs; c \<leftarrow> pwrite c key (unat ks);
                    c \<leftarrow> (if large then do { c \<leftarrow> write3Bytes c splitSize; pwrite c val (unat splitSize) }
                          else pwrite c val (unat vs));
                    Some (c, True) }
          else Some (c, False) }"

fun send_objects ::
  "nat \<Rightarrow> u32 \<Rightarrow> cursor \<Rightarrow> (Key \<Rightarrow> memory option) \<Rightarrow> Key list \<Rightarrow> Key list \<Rightarrow> nat
     \<Rightarrow> (cursor \<times> (Key \<Rightarrow> memory option) \<times> Key list \<times> nat \<times> bool) option" where
  "send_objects bsz cs c values [] kept n = Some (c, values, kept, n, True)"
| "send_objects bsz cs c values (k # ks) kept n =
     (case values k of
        None \<Rightarrow> send_objects bsz cs c values ks (kept @ [k]) n
      | Some kv \<Rightarrow>
          do { (c, sent) \<leftarrow> write_object bsz cs c kv;
               if sent then send_objects bsz cs c (values(k := None)) ks kept (Suc n)
               else Some (c, values, kept @ k # ks, n, False) })"

definition generateChunkKeyValueHeader where
  "generateChunkKeyValueHeader cs pr magic to opcode instanceId requestId listId stripeId chunkId values keysOf deleted =
     do { (c, deleted, keys, numDeleted, done1) \<leftarrow> send_deleted (pr_size pr) (pr_send pr, 37, 37) deleted keysOf [] 0;
          (c, values, keys, numValues, done2) \<leftarrow> send_objects (pr_size pr) cs c values keys [] 0;
          let isCompleted = (done1 \<and> done2);
          (n, m) \<leftarrow> close_message pr magic to opcode instanceId requestId (cursor_bytes c) (fst c);
          c \<leftarrow> write4Bytes (m, 16, 0) listId True;
          c \<leftarrow> write4Bytes c stripeId True;
          c \<leftarrow> write4Bytes c chunkId True;
          c \<leftarrow> write4Bytes c (of_nat numDeleted) True;
          c \<leftarrow> write4Bytes c (of_nat numValues) True;
          c \<leftarrow> write1Byte c (of_bool_byte isCompleted);
          Some (n, fst c, values, keys, deleted, isCompleted) }"

definition parseChunkKeyValueHeader ::
  "Protocol \<Rightarrow> ChunkKeyValueHeader \<Rightarrow> byte list \<Rightarrow> memory option \<Rightarrow> nat \<Rightarrow> nat
     \<Rightarrow> (bool \<times> ChunkKeyValueHeader \<times> byte list) option" where
  "parseChunkKeyValueHeader pr h dataPtr buf sz off =
     (let (buf, sz) = recv_args pr buf sz in
      if size_sub sz off < 21 then Some (False, h, dataPtr)
      else do { (l, ptr) \<leftarrow> read4Bytes (drop off buf) True;
                (s, ptr) \<leftarrow> read4Bytes ptr True;
                (c, ptr) \<leftarrow> read4Bytes ptr True;
                (d, ptr) \<leftarrow> read4Bytes ptr True;
                (n, ptr) \<leftarrow> read4Bytes ptr True;
                (f, ptr) \<leftarrow> read1Byte ptr;
                Some (True, h\<lparr>ckv_listId := l, ckv_stripeId := s, ckv_chunkId := c, ckv_deleted := d, ckv_count := n,
                              ckv_isCompleted := (f \<noteq> 0)\<rparr>, ptr) })"

section \<open>Remapping\<close>

record RemappingLockHeader =
  rl_remappedCount :: u32
  rl_keySize :: u8
  rl_isLarge :: bool
  rl_key :: "byte list"
  rl_original :: "u32 list"
  rl_remapped :: "u32 list"

definition write_pairs :: "cursor \<Rightarrow> u32 list \<Rightarrow> u32 \<Rightarrow> cursor option" where
  "write_pairs c vs n = (if 2 * unat n \<le> length vs then write_u32s c (take (2 * unat n) vs) else None)"

definition generateRemappingLockHeader where
  "generateRemappingLockHeader pr magic to opcode instanceId requestId original remapped remappedCount keySize key large =
     do { c \<leftarrow> generateHeader pr magic to opcode
                 (6 + ucast (keySize :: u8) + of_nat (split_len large) + remappedCount * 4 * 4) instanceId requestId (pr_send pr) 0 False;
          c \<leftarrow> write4Bytes c remappedCount True;
          c \<leftarrow> write1Byte c keySize;
          c \<leftarrow> write1Byte c (of_bool_byte large);
          c \<leftarrow> pwrite c key (unat keySize + split_len large);
          c \<leftarrow> write_pairs c original remappedCount;
          c \<leftarrow> write_pairs c remapped remappedCount;
          finish c }"

text \<open>The size test leaves out the split offset of a large object's key.\<close>

definition parseRemappingLockHeader ::
  "Protocol \<Rightarrow> RemappingLockHeader \<Rightarrow> memory option \<Rightarrow> nat \<Rightarrow> nat \<Rightarrow> (bool \<times> RemappingLockHeader \<times> memory) option" where
  "parseRemappingLockHeader pr h buf sz off =
     (let (buf, sz) = recv_args pr buf sz in
      if size_sub sz off < 6 then Some (False, h, buf)
      else do { (n, ptr) \<leftarrow> read4Bytes (drop off buf) True;
                (keySize, ptr) \<leftarrow> read1Byte ptr;
                (large, ptr) \<leftarrow> read1Byte ptr;
                let large = (large \<noteq> 0);
                let h = h\<lparr>rl_remappedCount := n, rl_keySize := keySize, rl_isLarge := large\<rparr>;
                if size_sub sz off < 6 + unat keySize + unat (n * 4 * 4) then Some (False, h, buf)
                else do { let h = h\<lparr>rl_key := ptr\<rparr>;
                          let ptr = drop (unat keySize + split_len large) ptr;
                          (os, ptr2) \<leftarrow> read_u32s (2 * unat n) ptr;
                          (rs, _) \<leftarrow> read_u32s (2 * unat n) ptr2;
                          Some (True, h\<lparr>rl_original := os, rl_remapped := rs\<rparr>, swapped buf ptr (4 * unat n)) } })"

record DegradedSetHeader =
  ds_listId :: u32
  ds_chunkId :: u32
  ds_remappedCount :: u32
  ds_keySize :: u8
  ds_valueSize :: u32
  ds_isLarge :: bool
  ds_key :: "byte list"
  ds_splitOffset :: u32
  ds_value :: "byte list"
  ds_original :: "u32 list option"
  ds_remapped :: "u32 list option"

definition generateDegradedSetHeader where
  "generateDegradedSetHeader pr magic to opcode instanceId requestId listId chunkId original remapped remappedCount
       keySize key valueSize val splitOffset splitSize sendBuf =
     do { let large = (\<not> (splitSize = 0 \<or> splitSize = valueSize));
          c \<leftarrow> write4Bytes (send_arg pr sendBuf, 16, 0) listId True;
          c \<leftarrow> write4Bytes c chunkId True;
          c \<leftarrow> write4Bytes c remappedCount True;
          c \<leftarrow> write1Byte c keySize;
          c \<leftarrow> write3Bytes c valueSize;
          c \<leftarrow> write1Byte c (of_bool_byte large);
          c \<leftarrow> pwrite c key (unat (keySize :: u8));
          c \<leftarrow> (if \<not> large then pwrite c val (unat valueSize)
                else do { c \<leftarrow> write3Bytes c splitOffset;
                          pwrite c (drop (unat splitOffset) val) (unat (piece_size valueSize splitOffset splitSize)) });
          c \<leftarrow> (if remappedCount \<noteq> 0
                then do { let count = unat (remappedCount * 2);
                          if count \<le> length original \<and> count \<le> length remapped
                          then do { c \<leftarrow> write_u32s c (take count original); write_u32s c (take count remapped) }
                          else None }
                else Some c);
          finish_header pr magic to opcode instanceId requestId 0 False c }"

definition parseDegradedSetHeader ::
  "u32 \<Rightarrow> Protocol \<Rightarrow> DegradedSetHeader \<Rightarrow> memory option \<Rightarrow> nat \<Rightarrow> nat \<Rightarrow> (bool \<times> DegradedSetHeader \<times> memory) option" where
  "parseDegradedSetHeader cs pr h buf sz off =
     (let (buf, sz) = recv_args pr buf sz in
      if size_sub sz off < 17 then Some (False, h, buf)
      else do { (l, ptr) \<leftarrow> read4Bytes (drop off buf) True;
                (c, ptr) \<leftarrow> read4Bytes ptr True;
                (n, ptr) \<leftarrow> read4Bytes ptr True;
                (keySize, ptr) \<leftarrow> read1Byte ptr;
                (valueSize, ptr) \<leftarrow> read3Bytes ptr;
                (large, ptr) \<leftarrow> read1Byte ptr;
                let h = h\<lparr>ds_listId := l, ds_chunkId := c, ds_remappedCount := n, ds_keySize := keySize,
                          ds_valueSize := valueSize, ds_isLarge := (large \<noteq> 0), ds_key := ptr\<rparr>;
                let ptr = drop (unat keySize) ptr;
                (isL, _, splitSize) \<leftarrow> isLarge cs keySize valueSize;
                (good, h, ptr) \<leftarrow>
                  (if isL
                   then do { (splitOffset, ptr) \<leftarrow> read3Bytes ptr;
                             let h = h\<lparr>ds_splitOffset := splitOffset\<rparr>;
                             let splitSize = piece_size valueSize splitOffset splitSize;
                             if size_sub sz off < unat (17 + 3 + ucast keySize + splitSize + n * 4 * 4)
                             then Some (False, h, ptr)
                             else Some (True, h\<lparr>ds_value := ptr\<rparr>, drop (unat splitSize) ptr) }
                   else let h = h\<lparr>ds_splitOffset := 0\<rparr> in
                        if size_sub sz off < unat (17 + ucast keySize + valueSize + n * 4 * 4) then Some (False, h, ptr)
                        else Some (True, h\<lparr>ds_value := ptr\<rparr>, drop (unat valueSize) ptr));
                if \<not> good then Some (False, h, buf)
                else if n \<noteq> 0
                then do { let count = unat (n * 2);
                          (os, ptr2) \<leftarrow> read_u32s count ptr;
                          (rs, _) \<leftarrow> read_u32s count ptr2;
                          Some (True, h\<lparr>ds_original := Some os, ds_remapped := Some rs\<rparr>, swapped buf ptr (2 * count)) }
                else Some (True, h\<lparr>ds_original := None, ds_remapped := None\<rparr>, buf) })"

end
