(* ===== verification/DegradedProtocol.thy ===== *)
theory DegradedProtocol
  imports BatchProtocol
begin

text \<open>
  Messages of degraded operation, \<^verbatim>\<open>common/protocol/degraded_protocol.cc\<close>: locking a chunk of a
  failed server, requests on a locked chunk, forwarding of keys, and the release of locks. Arrays of
  (list id, chunk id) pairs are flat lists of words.
\<close>

section \<open>Degraded locks\<close>

record DegradedLockReqHeader =
  dlq_reconstructedCount :: u32
  dlq_keySize :: u8
  dlq_isLarge :: bool
  dlq_key :: "byte list"
  dlq_original :: "u32 list"
  dlq_reconstructed :: "u32 list"

definition generateDegradedLockReqHeader where
  "generateDegradedLockReqHeader pr magic to opcode instanceId requestId original reconstructed reconstructedCount keySize key large =
     do { c \<leftarrow> generateHeader pr magic to opcode (6 + ucast (keySize :: u8) + 3 + reconstructedCount * 4 * 4)
                 instanceId requestId (pr_send pr) 0 False;
          c \<leftarrow> write4Bytes c reconstructedCount True;
          c \<leftarrow> write1Byte c keySize;
          c \<leftarrow> write1Byte c (of_bool_byte large);
          c \<leftarrow> pwrite c key (unat keySize + split_len large);
          c \<leftarrow> (if \<not> large then write3Bytes c 0 else Some c);
          c \<leftarrow> write_pairs c original reconstructedCount;
          c \<leftarrow> write_pairs c reconstructed reconstructedCount;
          finish c }"

text \<open>
  The size test leaves out the three bytes of the split offset, and for a key that is not large the
  parser overwrites these bytes of the receive buffer with zeros.
\<close>

definition parseDegradedLockReqHeader ::
  "Protocol \<Rightarrow> DegradedLockReqHeader \<Rightarrow> memory option \<Rightarrow> nat \<Rightarrow> nat \<Rightarrow> (bool \<times> DegradedLockReqHeader \<times> memory) option" where
  "parseDegradedLockReqHeader pr h buf sz off =
     (let (buf, sz) = recv_args pr buf sz in
      if size_sub sz off < 6 then Some (False, h, buf)
      else do { (n, ptr) \<leftarrow> read4Bytes (drop off buf) True;
                (keySize, ptr) \<leftarrow> read1Byte ptr;
                (large, ptr) \<leftarrow> read1Byte ptr;
                let large = (large \<noteq> 0);
                let h = h\<lparr>dlq_reconstructedCount := n, dlq_keySize := keySize, dlq_isLarge := large\<rparr>;
                if size_sub sz off < 6 + unat keySize + unat (n * 4 * 4) then Some (False, h, buf)
                else do { let p = length buf - length ptr;
                          buf \<leftarrow> (if \<not> large then poke buf (p + unat keySize) [0, 0, 0] else Some buf);
                          let h = h\<lparr>dlq_key := drop p buf\<rparr>;
                          let ptr = drop (p + unat keySize + 3) buf;
                          (os, ptr2) \<leftarrow> read_u32s (2 * unat n) ptr;
                          (rs, _) \<leftarrow> read_u32s (2 * unat n) ptr2;
                          Some (True, h\<lparr>dlq_original := os, dlq_reconstructed := rs\<rparr>, swapped buf ptr (4 * unat n)) } })"

abbreviation (input) RES_IS_LOCKED :: u8 where "RES_IS_LOCKED \<equiv> 1"
abbreviation (input) RES_WAS_LOCKED :: u8 where "RES_WAS_LOCKED \<equiv> 2"
abbreviation (input) RES_NOT_LOCKED :: u8 where "RES_NOT_LOCKED \<equiv> 3"
abbreviation (input) RES_REMAPPED :: u8 where "RES_REMAPPED \<equiv> 4"
abbreviation (input) RES_NOT_EXIST :: u8 where "RES_NOT_EXIST \<equiv> 5"

text \<open>The common prefix; the cursor stays open for the caller.\<close>

definition generateDegradedLockResHeader_base where
  "generateDegradedLockResHeader_base pr magic to opcode instanceId requestId len type keySize key large =
     do { c \<leftarrow> generateHeader pr magic to opcode (3 + ucast (keySize :: u8) + of_nat (split_len large) + len)
                 instanceId requestId (pr_send pr) 0 False;
          c \<leftarrow> write1Byte c type;
          c \<leftarrow> write1Byte c keySize;
          c \<leftarrow> write1Byte c (of_bool_byte large);
          pwrite c key (unat keySize + split_len large) }"

definition related :: "u32 \<Rightarrow> u32 \<Rightarrow> u32 \<Rightarrow> bool" where
  "related dataChunkId dataChunkCount chunkId \<longleftrightarrow>
     (chunkId < dataChunkCount \<and> chunkId = dataChunkId) \<or> chunkId \<ge> dataChunkCount"

text \<open>
  One of the four loops: the pairs of \<open>xs\<close> at the positions where the chunk id of \<open>original\<close>
  is, or is not, related to the key.
\<close>

fun write_selected :: "(u32 \<Rightarrow> bool) \<Rightarrow> cursor \<Rightarrow> u32 list \<Rightarrow> u32 list \<Rightarrow> nat \<Rightarrow> cursor option" where
  "write_selected P c original xs 0 = Some c"
| "write_selected P c (l # i # original) (a # b # xs) (Suc n) =
     do { c \<leftarrow> (if P i then do { c \<leftarrow> write4Bytes c a True; write4Bytes c b True } else Some c);
          write_selected P c original xs n }"
| "write_selected P c _ _ (Suc n) = None"

definition generateDegradedLockResHeader_lock where
  "generateDegradedLockResHeader_lock pr magic to opcode instanceId requestId isLocked keySize key large
       isSealed stripeId dataChunkId dataChunkCount original reconstructed reconstructedCount ongoingAtChunk
       numSurvivingChunkIds survivingChunkIds =
     do { c \<leftarrow> generateDegradedLockResHeader_base pr magic to opcode instanceId requestId
                 (14 + ucast (numSurvivingChunkIds :: u8) * 4 + reconstructedCount * 4 * 4)
                 (if isLocked then RES_IS_LOCKED else RES_WAS_LOCKED) keySize key large;
          c \<leftarrow> write1Byte c (of_bool_byte isSealed);
          c \<leftarrow> write4Bytes c stripeId True;
          c \<leftarrow> write4Bytes c reconstructedCount True;
          c \<leftarrow> write4Bytes c ongoingAtChunk True;
          c \<leftarrow> write1Byte c numSurvivingChunkIds;
          c \<leftarrow> (if unat numSurvivingChunkIds \<le> length survivingChunkIds
                then write_u32s c (take (unat numSurvivingChunkIds) survivingChunkIds) else None);
          let rel = related dataChunkId dataChunkCount;
          let n = unat reconstructedCount;
          c \<leftarrow> write_selected rel c original original n;
          c \<leftarrow> write_selected (\<lambda>i. \<not> rel i) c original original n;
          c \<leftarrow> write_selected rel c original reconstructed n;
          c \<leftarrow> write_selected (\<lambda>i. \<not> rel i) c original reconstructed n;
          finish c }"

definition generateDegradedLockResHeader_not where
  "generateDegradedLockResHeader_not pr magic to opcode instanceId requestId exist keySize key large =
     do { c \<leftarrow> generateDegradedLockResHeader_base pr magic to opcode instanceId requestId 0
                 (if exist then RES_NOT_LOCKED else RES_NOT_EXIST) keySize key large;
          finish c }"

definition generateDegradedLockResHeader_remap where
  "generateDegradedLockResHeader_remap pr magic to opcode instanceId requestId keySize key large original remapped remappedCount =
     do { c \<leftarrow> generateDegradedLockResHeader_base pr magic to opcode instanceId requestId (4 + remappedCount * 4 * 4)
                 RES_REMAPPED keySize key large;
          c \<leftarrow> write4Bytes c remappedCount True;
          c \<leftarrow> write_pairs c original remappedCount;
          c \<leftarrow> write_pairs c remapped remappedCount;
          finish c }"

record DegradedLockResHeader =
  dlr_type :: u8
  dlr_keySize :: u8
  dlr_isLarge :: bool
  dlr_key :: "byte list"
  dlr_isSealed :: bool
  dlr_stripeId :: u32
  dlr_reconstructedCount :: u32
  dlr_ongoingAtChunk :: u32
  dlr_numSurvivingChunkIds :: u8
  dlr_survivingChunkIds :: "u32 list"
  dlr_remappedCount :: u32
  dlr_original :: "u32 list"
  dlr_reconstructed :: "u32 list"
  dlr_remapped :: "u32 list"

definition parseDegradedLockResHeader_base ::
  "DegradedLockResHeader \<Rightarrow> memory \<Rightarrow> nat \<Rightarrow> nat \<Rightarrow> (bool \<times> DegradedLockResHeader) option" where
  "parseDegradedLockResHeader_base h buf sz off =
     (if size_sub sz off < 3 then Some (False, h)
      else do { (type, ptr) \<leftarrow> read1Byte (drop off buf);
                (keySize, ptr) \<leftarrow> read1Byte ptr;
                (large, ptr) \<leftarrow> read1Byte ptr;
                Some (size_sub sz off \<ge> 3 + unat keySize,
                      h\<lparr>dlr_type := type, dlr_keySize := keySize, dlr_isLarge := (large \<noteq> 0), dlr_key := ptr\<rparr>) })"

text \<open>Apart from the fixed part no size is tested: the arrays are trusted to be in the buffer.\<close>

definition parseDegradedLockResHeader_lock ::
  "DegradedLockResHeader \<Rightarrow> memory \<Rightarrow> nat \<Rightarrow> nat \<Rightarrow> (bool \<times> DegradedLockResHeader \<times> memory) option" where
  "parseDegradedLockResHeader_lock h buf sz off =
     (if size_sub sz off < 14 then Some (False, h, buf)
      else do { (isSealed, ptr) \<leftarrow> read1Byte (drop off buf);
                (stripeId, ptr) \<leftarrow> read4Bytes ptr True;
                (n, ptr) \<leftarrow> read4Bytes ptr True;
                (ongoingAtChunk, ptr) \<leftarrow> read4Bytes ptr True;
                (k, ptr) \<leftarrow> read1Byte ptr;
                (surv, ptr2) \<leftarrow> read_u32s (unat k) ptr;
                (os, ptr3) \<leftarrow> read_u32s (2 * unat n) ptr2;
                (rs, _) \<leftarrow> read_u32s (2 * unat n) ptr3;
                Some (True, h\<lparr>dlr_isSealed := (isSealed \<noteq> 0), dlr_stripeId := stripeId, dlr_reconstructedCount := n,
                              dlr_ongoingAtChunk := ongoingAtChunk, dlr_numSurvivingChunkIds := k,
                              dlr_survivingChunkIds := surv, dlr_original := os, dlr_reconstructed := rs\<rparr>,
                      swapped buf ptr (unat k + 4 * unat n)) })"

definition parseDegradedLockResHeader_remap ::
  "DegradedLockResHeader \<Rightarrow> memory \<Rightarrow> nat \<Rightarrow> nat \<Rightarrow> (bool \<times> DegradedLockResHeader \<times> memory) option" where
  "parseDegradedLockResHeader_remap h buf sz off =
     (if size_sub sz off < 4 then Some (False, h, buf)
      else do { (n, ptr) \<leftarrow> read4Bytes (drop off buf) True;
                (os, ptr2) \<leftarrow> read_u32s (2 * unat n) ptr;
                (rs, _) \<leftarrow> read_u32s (2 * unat n) ptr2;
                Some (True, h\<lparr>dlr_remappedCount := n, dlr_original := os, dlr_remapped := rs\<rparr>,
                      swapped buf ptr (4 * unat n)) })"

definition parseDegradedLockResHeader ::
  "Protocol \<Rightarrow> DegradedLockResHeader \<Rightarrow> memory option \<Rightarrow> nat \<Rightarrow> nat \<Rightarrow> (bool \<times> DegradedLockResHeader \<times> memory) option" where
  "parseDegradedLockResHeader pr h buf sz off =
     (let (buf, sz) = recv_args pr buf sz in
      do { (good, h) \<leftarrow> parseDegradedLockResHeader_base h buf sz off;
           if \<not> good then Some (False, h, buf)
           else let off = off + 3 + unat (dlr_keySize h) + split_len (dlr_isLarge h) in
                if dlr_type h = RES_IS_LOCKED \<or> dlr_type h = RES_WAS_LOCKED then parseDegradedLockResHeader_lock h buf sz off
                else if dlr_type h = RES_NOT_LOCKED \<or> dlr_type h = RES_NOT_EXIST then Some (True, h, buf)
                else if dlr_type h = RES_REMAPPED then parseDegradedLockResHeader_remap h buf sz off
                else Some (False, h, buf) })"

section \<open>Degraded requests\<close>

datatype degraded_data = DKey KeyHeader | DUpdate KeyValueUpdateHeader

record DegradedReqHeader =
  dr_isLarge :: bool
  dr_isSealed :: bool
  dr_stripeId :: u32
  dr_reconstructedCount :: u32
  dr_original :: "u32 list"
  dr_reconstructed :: "u32 list"
  dr_ongoingAtChunk :: u32
  dr_numSurvivingChunkIds :: u8
  dr_survivingChunkIds :: "u32 list"
  dr_data :: degraded_data

definition write_degraded_base where
  "write_degraded_base c large isSealed stripeId original reconstructed reconstructedCount ongoingAtChunk
       numSurvivingChunkIds survivingChunkIds =
     do { c \<leftarrow> write1Byte c (of_bool_byte large);
          c \<leftarrow> write1Byte c (of_bool_byte isSealed);
          c \<leftarrow> write4Bytes c stripeId True;
          c \<leftarrow> write4Bytes c reconstructedCount True;
          c \<leftarrow> write4Bytes c ongoingAtChunk True;
          c \<leftarrow> write1Byte c numSurvivingChunkIds;
          c \<leftarrow> (if unat numSurvivingChunkIds \<le> length survivingChunkIds
                then write_u32s c (take (unat numSurvivingChunkIds) survivingChunkIds) else None);
          c \<leftarrow> write_pairs c original reconstructedCount;
          write_pairs c reconstructed reconstructedCount }"

definition generateDegradedReqHeader_key where
  "generateDegradedReqHeader_key pr magic to opcode instanceId requestId isSealed stripeId original reconstructed
       reconstructedCount ongoingAtChunk numSurvivingChunkIds survivingChunkIds keySize key large ts =
     do { c \<leftarrow> generateHeader pr magic to opcode
                 (15 + ucast (numSurvivingChunkIds :: u8) * 4 + reconstructedCount * 4 * 4 + 1 + ucast (keySize :: u8)
                  + of_nat (split_len large)) instanceId requestId (pr_send pr) ts large;
          c \<leftarrow> write_degraded_base c large isSealed stripeId original reconstructed reconstructedCount ongoingAtChunk
                 numSurvivingChunkIds survivingChunkIds;
          c \<leftarrow> write1Byte c keySize;
          c \<leftarrow> pwrite c key (unat keySize + split_len large);
          finish c }"

definition generateDegradedReqHeader_update where
  "generateDegradedReqHeader_update pr magic to opcode instanceId requestId isSealed stripeId original reconstructed
       reconstructedCount ongoingAtChunk numSurvivingChunkIds survivingChunkIds keySize key large
       valueUpdateOffset valueUpdateSize valueUpdate ts =
     do { c \<leftarrow> generateHeader pr magic to opcode
                 (15 + ucast (numSurvivingChunkIds :: u8) * 4 + reconstructedCount * 4 * 4 + 7 + ucast (keySize :: u8)
                  + of_nat (split_len large) + valueUpdateSize) instanceId requestId (pr_send pr) ts False;
          c \<leftarrow> write_degraded_base c large isSealed stripeId original reconstructed reconstructedCount ongoingAtChunk
                 numSurvivingChunkIds survivingChunkIds;
          c \<leftarrow> write1Byte c keySize;
          c \<leftarrow> write3Bytes c valueUpdateSize;
          c \<leftarrow> write3Bytes c valueUpdateOffset;
          c \<leftarrow> pwrite c key (unat keySize + split_len large);
          c \<leftarrow> pwrite c valueUpdate (unat valueUpdateSize);
          finish c }"

definition parseDegradedReqHeader_base ::
  "DegradedReqHeader \<Rightarrow> memory \<Rightarrow> nat \<Rightarrow> nat \<Rightarrow> (bool \<times> DegradedReqHeader \<times> memory) option" where
  "parseDegradedReqHeader_base h buf sz off =
     (if size_sub sz off < 15 then Some (False, h, buf)
      else do { (large, ptr) \<leftarrow> read1Byte (drop off buf);
                (isSealed, ptr) \<leftarrow> read1Byte ptr;
                (stripeId, ptr) \<leftarrow> read4Bytes ptr True;
                (n, ptr) \<leftarrow> read4Bytes ptr True;
                (ongoingAtChunk, ptr) \<leftarrow> read4Bytes ptr True;
                (k, ptr) \<leftarrow> read1Byte ptr;
                (surv, ptr2) \<leftarrow> read_u32s (unat k) ptr;
                (os, ptr3) \<leftarrow> read_u32s (2 * unat n) ptr2;
                (rs, _) \<leftarrow> read_u32s (2 * unat n) ptr3;
                Some (True, h\<lparr>dr_isLarge := (large \<noteq> 0), dr_isSealed := (isSealed \<noteq> 0), dr_stripeId := stripeId,
                              dr_reconstructedCount := n, dr_ongoingAtChunk := ongoingAtChunk,
                              dr_numSurvivingChunkIds := k, dr_survivingChunkIds := surv,
                              dr_original := os, dr_reconstructed := rs\<rparr>,
                      swapped buf ptr (unat k + 4 * unat n)) })"

text \<open>
  The body of the request follows the arrays. \<open>kh\<close> and \<open>uh\<close> are the contents of the union
  before the call; adding the split offset to a null pointer is outside C++'s rules.
\<close>

definition parseDegradedReqHeader ::
  "Protocol \<Rightarrow> DegradedReqHeader \<Rightarrow> KeyHeader \<Rightarrow> KeyValueUpdateHeader \<Rightarrow> u8 \<Rightarrow> memory option \<Rightarrow> nat \<Rightarrow> nat
     \<Rightarrow> (bool \<times> DegradedReqHeader \<times> memory) option" where
  "parseDegradedReqHeader pr h kh uh opcode buf sz off =
     (let (buf, sz) = recv_args pr buf sz in
      do { (good, h, buf) \<leftarrow> parseDegradedReqHeader_base h buf sz off;
           if \<not> good then Some (False, h, buf)
           else let off = off + unat (15 + ucast (dr_numSurvivingChunkIds h) * 4 + dr_reconstructedCount h * 4 * 4 :: u32) in
                if opcode = 0x07 \<or> opcode = 0x09
                then do { (good, kh) \<leftarrow> parseKeyHeader pr kh (Some buf) sz off;
                          Some (good, h\<lparr>dr_data := DKey kh\<rparr>, buf) }
                else if opcode = 0x08
                then do { (good, uh) \<leftarrow> parseKeyValueUpdateHeader pr uh True (Some buf) sz off;
                          if dr_isLarge h
                          then case kvu_valueUpdate uh of
                                 None \<Rightarrow> None
                               | Some v \<Rightarrow> Some (good, h\<lparr>dr_data := DUpdate (uh\<lparr>kvu_valueUpdate := Some (drop 3 v)\<rparr>)\<rparr>, buf)
                          else Some (good, h\<lparr>dr_data := DUpdate uh\<rparr>, buf) }
                else Some (False, h, buf) })"

section \<open>Forwarded keys\<close>

record ForwardKeyHeader =
  fk_opcode :: u8
  fk_listId :: u32
  fk_stripeId :: u32
  fk_chunkId :: u32
  fk_keySize :: u8
  fk_valueSize :: u32
  fk_key :: "byte list"
  fk_value :: "byte list"
  fk_valueUpdateSize :: u32
  fk_valueUpdateOffset :: u32
  fk_valueUpdate :: "byte list"

definition generateForwardKeyReqHeader where
  "generateForwardKeyReqHeader pr magic to opcode instanceId requestId degradedOpcode listId stripeId chunkId keySize key
       valueSize val valueUpdateSize valueUpdateOffset valueUpdate =
     do { c \<leftarrow> generateHeader pr magic to opcode
                 (17 + ucast (keySize :: u8) + valueSize + (if degradedOpcode = 0x08 then 6 + valueUpdateSize else 0))
                 instanceId requestId (pr_send pr) 0 False;
          c \<leftarrow> write1Byte c degradedOpcode;
          c \<leftarrow> write4Bytes c listId True;
          c \<leftarrow> write4Bytes c stripeId True;
          c \<leftarrow> write4Bytes c chunkId True;
          c \<leftarrow> write1Byte c keySize;
          c \<leftarrow> write3Bytes c valueSize;
          c \<leftarrow> pwrite c key (unat keySize);
          c \<leftarrow> pwrite c val (unat valueSize);
          c \<leftarrow> (if degradedOpcode = 0x08
                then do { c \<leftarrow> write3Bytes c valueUpdateSize;
                          c \<leftarrow> write3Bytes c valueUpdateOffset;
                          pwrite c valueUpdate (unat valueUpdateSize) }
                else Some c);
          finish c }"

definition parseForwardKeyReqHeader ::
  "Protocol \<Rightarrow> ForwardKeyHeader \<Rightarrow> memory option \<Rightarrow> nat \<Rightarrow> nat \<Rightarrow> (bool \<times> ForwardKeyHeader) option" where
  "parseForwardKeyReqHeader pr h buf sz off =
     (let (buf, sz) = recv_args pr buf sz; avail = size_sub sz off in
      if avail < 17 then Some (False, h)
      else do { (opcode, ptr) \<leftarrow> read1Byte (drop off buf);
                (l, ptr) \<leftarrow> read4Bytes ptr True;
                (s, ptr) \<leftarrow> read4Bytes ptr True;
                (c, ptr) \<leftarrow> read4Bytes ptr True;
                (keySize, ptr) \<leftarrow> read1Byte ptr;
                (valueSize, ptr) \<leftarrow> read3Bytes ptr;
                let h = h\<lparr>fk_opcode := opcode, fk_listId := l, fk_stripeId := s, fk_chunkId := c, fk_keySize := keySize,
                          fk_valueSize := valueSize\<rparr>;
                let n = 17 + unat keySize + unat valueSize;
                if avail < n then Some (False, h)
                else do { let h = h\<lparr>fk_key := ptr, fk_value := drop (unat keySize) ptr\<rparr>;
                          let ptr = drop (unat keySize + unat valueSize) ptr;
                          if opcode = 0x08
                          then if avail < n + 6 then Some (False, h)
                               else do { (us, ptr) \<leftarrow> read3Bytes ptr;
                                         (uo, ptr) \<leftarrow> read3Bytes ptr;
                                         Some (avail \<ge> n + 6 + unat us,
                                               h\<lparr>fk_valueUpdateSize := us, fk_valueUpdateOffset := uo, fk_valueUpdate := ptr\<rparr>) }
                          else Some (True, h) } })"

definition generateForwardKeyResHeader where
  "generateForwardKeyResHeader pr magic to opcode instanceId requestId degradedOpcode listId stripeId chunkId keySize key
       valueSize valueUpdateSize valueUpdateOffset =
     do { c \<leftarrow> generateHeader pr magic to opcode
                 (17 + ucast (keySize :: u8) + (if degradedOpcode = 0x08 then 6 else 0)) instanceId requestId (pr_send pr) 0 False;
          c \<leftarrow> write1Byte c degradedOpcode;
          c \<leftarrow> write4Bytes c listId True;
          c \<leftarrow> write4Bytes c stripeId True;
          c \<leftarrow> write4Bytes c chunkId True;
          c \<leftarrow> write1Byte c keySize;
          c \<leftarrow> write3Bytes c valueSize;
          c \<leftarrow> pwrite c key (unat keySize);
          c \<leftarrow> (if degradedOpcode = 0x08
                then do { c \<leftarrow> write3Bytes c valueUpdateSize; write3Bytes c valueUpdateOffset }
                else Some c);
          finish c }"

definition parseForwardKeyResHeader ::
  "Protocol \<Rightarrow> ForwardKeyHeader \<Rightarrow> memory option \<Rightarrow> nat \<Rightarrow> nat \<Rightarrow> (bool \<times> ForwardKeyHeader) option" where
  "parseForwardKeyResHeader pr h buf sz off =
     (let (buf, sz) = recv_args pr buf sz; avail = size_sub sz off in
      if avail < 17 then Some (False, h)
      else do { (opcode, ptr) \<leftarrow> read1Byte (drop off buf);
                (l, ptr) \<leftarrow> read4Bytes ptr True;
                (s, ptr) \<leftarrow> read4Bytes ptr True;
                (c, ptr) \<leftarrow> read4Bytes ptr True;
                (keySize, ptr) \<leftarrow> read1Byte ptr;
                (valueSize, ptr) \<leftarrow> read3Bytes ptr;
                let h = h\<lparr>fk_opcode := opcode, fk_listId := l, fk_stripeId := s, fk_chunkId := c, fk_keySize := keySize,
                          fk_valueSize := valueSize\<rparr>;
                let n = 17 + unat keySize;
                if avail < n then Some (False, h)
                else do { let h = h\<lparr>fk_key := ptr\<rparr>;
                          let ptr = drop (unat keySize) ptr;
                          if opcode = 0x08
                          then if avail < n + 6 then Some (False, h)
                               else do { (us, ptr) \<leftarrow> read3Bytes ptr;
                                         (uo, ptr) \<leftarrow> read3Bytes ptr;
                                         Some (True, h\<lparr>fk_valueUpdateSize := us, fk_valueUpdateOffset := uo\<rparr>) }
                          else Some (True, h) } })"

record ListStripeKeyHeader =
  lsk_listId :: u32
  lsk_chunkId :: u32
  lsk_keySize :: u8
  lsk_key :: "byte list"

definition generateListStripeKeyHeader where
  "generateListStripeKeyHeader pr magic to opcode instanceId requestId listId chunkId keySize key large =
     do { c \<leftarrow> generateHeader pr magic to opcode (9 + ucast (keySize :: u8) + of_nat (split_len large)) instanceId requestId
                 (pr_send pr) 0 large;
          c \<leftarrow> write4Bytes c listId True;
          c \<leftarrow> write4Bytes c chunkId True;
          c \<leftarrow> write1Byte c keySize;
          c \<leftarrow> pwrite c key (unat keySize + split_len large);
          finish c }"

definition parseListStripeKeyHeader ::
  "Protocol \<Rightarrow> ListStripeKeyHeader \<Rightarrow> bool \<Rightarrow> memory option \<Rightarrow> nat \<Rightarrow> nat \<Rightarrow> (bool \<times> ListStripeKeyHeader) option" where
  "parseListStripeKeyHeader pr h large buf sz off =
     (let (buf, sz) = recv_args pr buf sz in
      if size_sub sz off < 9 then Some (False, h)
      else do { (l, ptr) \<leftarrow> read4Bytes (drop off buf) True;
                (c, ptr) \<leftarrow> read4Bytes ptr True;
                (keySize, ptr) \<leftarrow> read1Byte ptr;
                Some (size_sub sz off \<ge> 9 + unat keySize + split_len large,
                      h\<lparr>lsk_listId := l, lsk_chunkId := c, lsk_keySize := keySize, lsk_key := ptr\<rparr>) })"

section \<open>Release of degraded locks\<close>

text \<open>
  The loop counts from 0, not from the 16 bytes of the message header in front of the entries. The
  write pointer starts behind the header, so the cursor has position 16 and byte count 0.
\<close>

definition generateDegradedReleaseReqHeader where
  "generateDegradedReleaseReqHeader pr magic to opcode instanceId requestId chunks =
     do { (c, count, rest) \<leftarrow> send_metadata (pr_size pr) (pr_send pr, 16, 0) chunks;
          (n, m) \<leftarrow> finish_header pr magic to opcode instanceId requestId 0 False c;
          Some (n, m, rest, rest = []) }"

definition generateDegradedReleaseResHeader where
  "generateDegradedReleaseResHeader pr magic to opcode instanceId requestId count =
     do { c \<leftarrow> generateHeader pr magic to opcode 4 instanceId requestId (pr_send pr) 0 False;
          c \<leftarrow> write4Bytes c count True;
          finish c }"

definition parseDegradedReleaseResHeader ::
  "Protocol \<Rightarrow> u32 \<Rightarrow> memory option \<Rightarrow> nat \<Rightarrow> nat \<Rightarrow> (bool \<times> u32) option" where
  "parseDegradedReleaseResHeader pr h buf sz off =
     (let (buf, sz) = recv_args pr buf sz in
      if size_sub sz off < 4 then Some (False, h)
      else do { (n, ptr) \<leftarrow> read4Bytes (drop off buf) True; Some (True, n) })"

section \<open>Arrays on the wire\<close>

definition word_bytes :: "u32 list \<Rightarrow> byte list" where
  "word_bytes vs = concat (map be32 vs)"

lemma word_bytes_simps [simp]: "word_bytes [] = []" "word_bytes (v # vs) = be32 v @ word_bytes vs"
  "word_bytes (vs @ ws) = word_bytes vs @ word_bytes ws"
  by (simp_all add: word_bytes_def)

lemma length_word_bytes [simp]: "length (word_bytes vs) = 4 * length vs"
  by (induction vs) simp_all

lemma write_u32s_put: "put bs c \<bind> (\<lambda>c. write_u32s c vs) = put (bs @ word_bytes vs) c"
proof (induction vs arbitrary: bs)
  case (Cons v vs)
  have "put bs c \<bind> (\<lambda>c. write_u32s c (v # vs)) = put (bs @ be32 v) c \<bind> (\<lambda>c. write_u32s c vs)" by (simp add: write_simps)
  with Cons show ?case by simp
qed simp

lemma write_u32s_put_bind [write_simps]: "put bs c \<bind> (\<lambda>c. write_u32s c vs \<bind> f) = put (bs @ word_bytes vs) c \<bind> f"
  by (simp add: write_u32s_put [symmetric])

lemma read_u32s_bytes: "n = length vs \<Longrightarrow> read_u32s n (word_bytes vs @ r) = Some (vs, r)"
proof (induction vs arbitrary: n)
  case (Cons v vs)
  then show ?case by (simp add: read_simps)
qed simp

text \<open>Arrays of (list id, chunk id) pairs.\<close>

fun pairs :: "'a list \<Rightarrow> ('a \<times> 'a) list" where
  "pairs (a # b # xs) = (a, b) # pairs xs"
| "pairs _ = []"

definition unpairs :: "('a \<times> 'a) list \<Rightarrow> 'a list" where
  "unpairs ps = concat (map (\<lambda>(a, b). [a, b]) ps)"

lemma unpairs_simps [simp]: "unpairs [] = []" "unpairs (p # ps) = fst p # snd p # unpairs ps" "unpairs (ps @ qs) = unpairs ps @ unpairs qs"
  by (simp_all add: unpairs_def case_prod_unfold)

lemma pairs_unpairs [simp]: "pairs (unpairs ps) = ps"
  by (induction ps) simp_all

lemma length_unpairs [simp]: "length (unpairs ps) = 2 * length ps"
  by (induction ps) simp_all

lemma length_pairs [simp]: "length (pairs xs) = length xs div 2"
  by (induction xs rule: pairs.induct) simp_all

definition selected :: "(u32 \<Rightarrow> bool) \<Rightarrow> u32 list \<Rightarrow> u32 list \<Rightarrow> nat \<Rightarrow> ((u32 \<times> u32) \<times> (u32 \<times> u32)) list" where
  "selected P original xs n = filter (\<lambda>(a, _). P (snd a)) (take n (zip (pairs original) (pairs xs)))"

lemma write_selected_put:
  "2 * n \<le> length original \<Longrightarrow> 2 * n \<le> length xs \<Longrightarrow>
   put bs c \<bind> (\<lambda>c. write_selected P c original xs n) = put (bs @ word_bytes (unpairs (map snd (selected P original xs n)))) c"
proof (induction n arbitrary: bs original xs)
  case (Suc n)
  obtain l i os where o: "original = l # i # os" using Suc.prems(1) by (cases original rule: pairs.cases) auto
  obtain a b ys where x: "xs = a # b # ys" using Suc.prems(2) by (cases xs rule: pairs.cases) auto
  have "put bs c \<bind> (\<lambda>c. write_selected P c original xs (Suc n)) =
      put (bs @ (if P i then be32 a @ be32 b else [])) c \<bind> (\<lambda>c. write_selected P c os ys n)"
    by (simp add: o x write_simps)
  also have "\<dots> = put ((bs @ (if P i then be32 a @ be32 b else [])) @ word_bytes (unpairs (map snd (selected P os ys n)))) c"
    using Suc.prems by (intro Suc.IH) (simp_all add: o x)
  also have "(bs @ (if P i then be32 a @ be32 b else [])) @ word_bytes (unpairs (map snd (selected P os ys n))) =
      bs @ word_bytes (unpairs (map snd (selected P original xs (Suc n))))"
    by (simp add: selected_def o x)
  finally show ?case .
qed (simp add: selected_def)

lemma write_selected_put_bind:
  "2 * n \<le> length original \<Longrightarrow> 2 * n \<le> length xs \<Longrightarrow>
   put bs c \<bind> (\<lambda>c. write_selected P c original xs n \<bind> f) = put (bs @ word_bytes (unpairs (map snd (selected P original xs n)))) c \<bind> f"
  by (simp add: write_selected_put [symmetric])

lemma selected_fst:
  assumes "2 * n \<le> length xs" and "2 * n \<le> length ys"
  shows "map fst (selected P xs ys n) = filter (P \<circ> snd) (take n (pairs xs))"
proof -
  have "map fst (selected P xs ys n) = filter (P \<circ> snd) (map fst (take n (zip (pairs xs) (pairs ys))))"
    by (simp add: selected_def filter_map comp_def case_prod_unfold)
  also have "map fst (take n (zip (pairs xs) (pairs ys))) = take n (pairs xs)"
    using assms by (simp add: take_zip map_fst_zip)
  finally show ?thesis .
qed

lemma selected_self:
  assumes "2 * n \<le> length xs" and "2 * n \<le> length ys"
  shows "map snd (selected P xs xs n) = map fst (selected P xs ys n)"
proof -
  have "map snd (selected P xs xs n) = map fst (selected P xs xs n)"
    by (rule map_cong [OF refl]) (auto simp: selected_def in_set_zip dest!: in_set_takeD)
  then show ?thesis using selected_fst [OF assms(1,1)] selected_fst [OF assms] by simp
qed

lemma length_selected:
  "2 * n \<le> length original \<Longrightarrow> 2 * n \<le> length xs \<Longrightarrow>
   length (selected P original xs n) + length (selected (\<lambda>i. \<not> P i) original xs n) = n"
  using sum_length_filter_compl [of "\<lambda>(a, _). P (snd a)" "take n (zip (pairs original) (pairs xs))"]
  by (simp add: selected_def case_prod_unfold)

section \<open>Degraded lock responses\<close>

text \<open>The rows of a lock in the order of the message: those related to the key first.\<close>

definition response_rows :: "u32 \<Rightarrow> u32 \<Rightarrow> u32 list \<Rightarrow> u32 list \<Rightarrow> nat \<Rightarrow> ((u32 \<times> u32) \<times> (u32 \<times> u32)) list" where
  "response_rows dataChunkId dataChunkCount original reconstructed n =
     selected (related dataChunkId dataChunkCount) original reconstructed n
       @ selected (\<lambda>i. \<not> related dataChunkId dataChunkCount i) original reconstructed n"

definition lock_response_tail where
  "lock_response_tail isSealed stripeId reconstructedCount ongoingAtChunk surviving rs =
     [of_bool_byte isSealed] @ be32 stripeId @ be32 reconstructedCount @ be32 ongoingAtChunk @ [of_nat (length surviving) :: u8]
       @ word_bytes surviving @ word_bytes (unpairs (map fst rs)) @ word_bytes (unpairs (map snd rs))"

definition lock_response_body where
  "lock_response_body isLocked keySize key large isSealed stripeId reconstructedCount ongoingAtChunk surviving rs =
     [if isLocked then RES_IS_LOCKED else RES_WAS_LOCKED, keySize, of_bool_byte large] @ key
       @ lock_response_tail isSealed stripeId reconstructedCount ongoingAtChunk surviving rs"

lemma length_response_rows:
  "2 * n \<le> length original \<Longrightarrow> 2 * n \<le> length reconstructed \<Longrightarrow> length (response_rows i k original reconstructed n) = n"
  using length_selected by (simp add: response_rows_def)

lemma generate_lock_response:
  assumes "2 * unat rc \<le> length original" and "2 * unat rc \<le> length reconstructed" and "length surviving < 256"
    and "length key = unat keySize + split_len large"
  shows "generateDegradedLockResHeader_lock pr magic to opcode instanceId requestId isLocked keySize key large isSealed stripeId i k
      original reconstructed rc ongoing (of_nat (length surviving)) surviving =
    put (header_image pr magic to opcode
           (3 + ucast keySize + of_nat (split_len large) + (14 + ucast (of_nat (length surviving) :: u8) * 4 + rc * 4 * 4))
           instanceId requestId 0 False
         @ lock_response_body isLocked keySize key large isSealed stripeId rc ongoing surviving
             (response_rows i k original reconstructed (unat rc))) (pr_send pr, 0, 0) \<bind> finish"
proof -
  have c: "unat (of_nat (length surviving) :: u8) = length surviving" using assms(3) by (intro unat_of_nat_eq) simp
  note sel = write_selected_put_bind [OF assms(1,1)] write_selected_put_bind [OF assms(1,2)]
  show ?thesis
    using assms(4) c
    by (simp add: generateDegradedLockResHeader_lock_def generateDegradedLockResHeader_base_def Let_def pwrite_ok write_simps sel
        selected_self [OF assms(1,2)] lock_response_body_def lock_response_tail_def response_rows_def)
qed

lemma parse_lock_tail:
  assumes "drop off buf = lock_response_tail isSealed stripeId rc ongoing surviving rs" and "length rs = unat rc" and "length surviving < 256"
  shows "\<exists>buf'. parseDegradedLockResHeader_lock h buf (length buf) off =
    Some (True, h\<lparr>dlr_isSealed := isSealed, dlr_stripeId := stripeId, dlr_reconstructedCount := rc, dlr_ongoingAtChunk := ongoing,
      dlr_numSurvivingChunkIds := of_nat (length surviving), dlr_survivingChunkIds := surviving,
      dlr_original := unpairs (map fst rs), dlr_reconstructed := unpairs (map snd rs)\<rparr>, buf')"
proof -
  have c: "unat (of_nat (length surviving) :: u8) = length surviving" using assms(3) by (intro unat_of_nat_eq) simp
  have t: "(of_bool_byte x \<noteq> 0) = x" for x by (simp add: of_bool_byte_def)
  have words: "read_u32s (length surviving) (word_bytes surviving @ r) = Some (surviving, r)"
    "read_u32s (2 * unat rc) (word_bytes (unpairs (map fst rs)) @ r) = Some (unpairs (map fst rs), r)"
    "read_u32s (2 * unat rc) (word_bytes (unpairs (map snd rs))) = Some (unpairs (map snd rs), [])" for r
    using read_u32s_bytes [of _ "unpairs (map snd rs)" "[]"] assms(2) by (simp_all add: read_u32s_bytes)
  have "lock_response_tail isSealed stripeId rc ongoing surviving rs \<noteq> []" by (simp add: lock_response_tail_def)
  note sz = drop_size(1) [OF assms(1) this]
  have "\<not> size_sub (length buf) off < 14" unfolding sz by (simp add: lock_response_tail_def)
  then show ?thesis
    using t by (simp add: parseDegradedLockResHeader_lock_def assms(1) lock_response_tail_def read_simps words c)
qed

lemma parse_lock_response:
  assumes "length rs = unat rc" and "length surviving < 256" and "length key = unat keySize + split_len large"
  shows "\<exists>buf. parseDegradedLockResHeader pr h (Some (lock_response_body isLocked keySize key large isSealed stripeId rc ongoing surviving rs))
      (length (lock_response_body isLocked keySize key large isSealed stripeId rc ongoing surviving rs)) 0 =
    Some (True, h\<lparr>dlr_type := (if isLocked then RES_IS_LOCKED else RES_WAS_LOCKED), dlr_keySize := keySize, dlr_isLarge := large,
      dlr_key := key @ lock_response_tail isSealed stripeId rc ongoing surviving rs,
      dlr_isSealed := isSealed, dlr_stripeId := stripeId, dlr_reconstructedCount := rc, dlr_ongoingAtChunk := ongoing,
      dlr_numSurvivingChunkIds := of_nat (length surviving), dlr_survivingChunkIds := surviving,
      dlr_original := unpairs (map fst rs), dlr_reconstructed := unpairs (map snd rs)\<rparr>, buf)"
proof -
  let ?tail = "lock_response_tail isSealed stripeId rc ongoing surviving rs"
  let ?body = "lock_response_body isLocked keySize key large isSealed stripeId rc ongoing surviving rs"
  let ?type = "if isLocked then RES_IS_LOCKED else RES_WAS_LOCKED :: u8"
  let ?h = "h\<lparr>dlr_type := ?type, dlr_keySize := keySize, dlr_isLarge := large, dlr_key := key @ ?tail\<rparr>"
  have base: "parseDegradedLockResHeader_base h ?body (length ?body) 0 = Some (True, ?h)"
    using assms(3) by (simp add: parseDegradedLockResHeader_base_def lock_response_body_def of_bool_byte_def)
  have at: "drop (3 + unat keySize + split_len large) ?body = ?tail"
  proof -
    have "3 + unat keySize + split_len large = Suc (Suc (Suc (length key)))" using assms(3) by simp
    then show ?thesis by (simp only: lock_response_body_def append_Cons append_Nil drop_Suc_Cons) simp
  qed
  have ne: "length ?body \<noteq> 0" by (simp add: lock_response_body_def)
  from parse_lock_tail [OF at assms(1,2), of ?h] show ?thesis
    unfolding parseDegradedLockResHeader_def recv_args_def option.case Let_def
    using ne base by (auto split: if_splits)
qed

section \<open>Properties\<close>

text \<open>
  C35. Degraded lock response: what the coordinator grants arrives at the client with every (original,
  redirected) row intact and aligned: the parsed arrays hold the rows of the lock, those
  of the requested data chunk and of the parity chunks first, and the other
  fields as sent.
\<close>

theorem degraded_lock_response_roundtrip:
  assumes "2 * unat rc \<le> length original" and "2 * unat rc \<le> length reconstructed" and "length surviving < 256"
    and "length key = unat keySize + split_len large" and "33 + length key + 4 * length surviving + 16 * unat rc \<le> length (pr_send pr)"
  shows "\<exists>m h' buf'. generateDegradedLockResHeader_lock pr magic to opcode instanceId requestId isLocked keySize key large isSealed stripeId
        dataChunkId dataChunkCount original reconstructed rc ongoing (of_nat (length surviving)) surviving =
      Some (33 + length key + 4 * length surviving + 16 * unat rc, m)
    \<and> parseDegradedLockResHeader pr' h (Some (seg 16 (17 + length key + 4 * length surviving + 16 * unat rc) m))
        (17 + length key + 4 * length surviving + 16 * unat rc) 0 = Some (True, h', buf')
    \<and> dlr_type h' = (if isLocked then RES_IS_LOCKED else RES_WAS_LOCKED) \<and> dlr_keySize h' = keySize \<and> dlr_isLarge h' = large
    \<and> take (length key) (dlr_key h') = key \<and> dlr_isSealed h' = isSealed \<and> dlr_stripeId h' = stripeId \<and> dlr_reconstructedCount h' = rc
    \<and> dlr_ongoingAtChunk h' = ongoing \<and> dlr_survivingChunkIds h' = surviving
    \<and> zip (pairs (dlr_original h')) (pairs (dlr_reconstructed h')) =
        filter (\<lambda>(a, _). related dataChunkId dataChunkCount (snd a)) (take (unat rc) (zip (pairs original) (pairs reconstructed)))
        @ filter (\<lambda>(a, _). \<not> related dataChunkId dataChunkCount (snd a)) (take (unat rc) (zip (pairs original) (pairs reconstructed)))"
proof -
  let ?rs = "response_rows dataChunkId dataChunkCount original reconstructed (unat rc)"
  let ?body = "lock_response_body isLocked keySize key large isSealed stripeId rc ongoing surviving ?rs"
  let ?len = "17 + length key + 4 * length surviving + 16 * unat rc"
  have rs: "length ?rs = unat rc" using length_response_rows [OF assms(1,2)] .
  then have len: "length ?body = ?len" by (simp add: lock_response_body_def lock_response_tail_def)
  obtain hd where hd: "length hd = 16" "generateDegradedLockResHeader_lock pr magic to opcode instanceId requestId isLocked keySize key large
      isSealed stripeId dataChunkId dataChunkCount original reconstructed rc ongoing (of_nat (length surviving)) surviving =
      put (hd @ ?body) (pr_send pr, 0, 0) \<bind> finish"
    by (rule that [OF length_header_image generate_lock_response [OF assms(1-4)]])
  let ?m = "hd @ ?body @ drop (16 + ?len) (pr_send pr)"
  have "generateDegradedLockResHeader_lock pr magic to opcode instanceId requestId isLocked keySize key large isSealed stripeId
      dataChunkId dataChunkCount original reconstructed rc ongoing (of_nat (length surviving)) surviving = Some (16 + ?len, ?m)"
    using hd len assms(5) by (simp add: put_start finish_def)
  moreover have "seg 16 ?len ?m = ?body" using seg_mid [of hd 16 ?body ?len] hd(1) len by simp
  moreover obtain buf' where "parseDegradedLockResHeader pr' h (Some ?body) ?len 0 =
      Some (True, h\<lparr>dlr_type := (if isLocked then RES_IS_LOCKED else RES_WAS_LOCKED), dlr_keySize := keySize, dlr_isLarge := large,
      dlr_key := key @ lock_response_tail isSealed stripeId rc ongoing surviving ?rs,
      dlr_isSealed := isSealed, dlr_stripeId := stripeId, dlr_reconstructedCount := rc, dlr_ongoingAtChunk := ongoing,
      dlr_numSurvivingChunkIds := of_nat (length surviving), dlr_survivingChunkIds := surviving,
      dlr_original := unpairs (map fst ?rs), dlr_reconstructed := unpairs (map snd ?rs)\<rparr>, buf')"
    using parse_lock_response [OF rs assms(3,4), of pr' h isLocked isSealed stripeId ongoing] len by auto
  moreover have "zip (map fst ?rs) (map snd ?rs) =
        filter (\<lambda>(a, _). related dataChunkId dataChunkCount (snd a)) (take (unat rc) (zip (pairs original) (pairs reconstructed)))
        @ filter (\<lambda>(a, _). \<not> related dataChunkId dataChunkCount (snd a)) (take (unat rc) (zip (pairs original) (pairs reconstructed)))"
    unfolding zip_map_fst_snd by (simp add: response_rows_def selected_def)
  ultimately show ?thesis
    by (intro exI conjI) (assumption | simp)+
qed

definition blank_response :: DegradedLockResHeader where
  "blank_response = \<lparr>dlr_type = 0, dlr_keySize = 0, dlr_isLarge = False, dlr_key = [], dlr_isSealed = False, dlr_stripeId = 0,
     dlr_reconstructedCount = 0, dlr_ongoingAtChunk = 0, dlr_numSurvivingChunkIds = 0, dlr_survivingChunkIds = [], dlr_remappedCount = 0,
     dlr_original = [], dlr_reconstructed = [], dlr_remapped = []\<rparr>"

theorem degraded_lock_response_roundtrip_witness:
  "\<exists>m h' buf'. generateDegradedLockResHeader_lock (protocol_init (protocol_new ROLE_COORDINATOR) 128) 1 0x40 0x11 0 7 True 1 [0x61] False True 9
        2 4 [0, 1, 0, 2] [0, 5, 0, 6] 2 2 (of_nat (length [3, 4 :: u32])) [3, 4] = Some (74, m)
    \<and> parseDegradedLockResHeader (protocol_new ROLE_CLIENT) blank_response (Some (seg 16 58 m)) 58 0 = Some (True, h', buf')
    \<and> dlr_survivingChunkIds h' = [3, 4]
    \<and> zip (pairs (dlr_original h')) (pairs (dlr_reconstructed h')) = [((0, 2), (0, 6)), ((0, 1), (0, 5))]"
  using degraded_lock_response_roundtrip [of 2 "[0, 1, 0, 2]" "[0, 5, 0, 6]" "[3, 4]" "[0x61]" 1 False
      "protocol_init (protocol_new ROLE_COORDINATOR) 128" 1 "0x40" "0x11" 0 7 True True 9 2 4 2 "protocol_new ROLE_CLIENT" blank_response]
  by (auto simp: protocol_init_def split_len_def related_def word_le_nat_alt)

text \<open>
  Release of degraded locks: the loop of \<^verbatim>\<open>generateDegradedReleaseReqHeader\<close> counts the bytes of the entries
  but not the 16 bytes of the header in front of them, so on a buffer of \<open>pr_size\<close> bytes the message runs past
  its end exactly when the entries it decides to send do not fit behind the header; otherwise it
  sends the longest prefix of at most \<open>pr_size div 12\<close> chunks and keeps the rest.
\<close>

theorem degraded_release_bounds:
  assumes "length (pr_send pr) = pr_size pr" and "16 \<le> pr_size pr" and "k = min (length chunks) (pr_size pr div 12)"
  shows "generateDegradedReleaseReqHeader pr magic to opcode instanceId requestId chunks =
    (if 16 + 12 * k \<le> pr_size pr
     then Some (16 + 12 * k, header_image pr magic to opcode (of_nat (12 * k)) instanceId requestId 0 False
                  @ metadata_bytes (take k chunks) @ drop (16 + 12 * k) (pr_send pr), drop k chunks, k = length chunks)
     else None)"
proof -
  have ok: "cursor_ok (pr_send pr, 16, 0)" using assms(1,2) by (simp add: cursor_ok_def)
  have k: "min (length chunks) ((pr_size pr - cursor_bytes (pr_send pr, 16, 0)) div 12) = k"
    using assms(3) by (simp add: cursor_bytes_def)
  note eq = send_metadata_exact [OF ok, of "pr_size pr" chunks, unfolded k Let_def]
  have len: "length (metadata_bytes (take k chunks)) = 12 * k" using assms(3) by simp
  have rest: "drop k chunks = [] \<longleftrightarrow> k = length chunks" using assms(3) by auto
  show ?thesis
  proof (cases "16 + 12 * k \<le> pr_size pr")
    case True
    let ?m = "take 16 (pr_send pr) @ metadata_bytes (take k chunks) @ drop (16 + 12 * k) (pr_send pr)"
    have "put (metadata_bytes (take k chunks)) (pr_send pr, 16, 0) = Some (?m, 16 + 12 * k, 12 * k)"
      using True assms(1) by (simp add: put_at len del: length_metadata_bytes)
    moreover have "drop 16 ?m = metadata_bytes (take k chunks) @ drop (16 + 12 * k) (pr_send pr)" "16 \<le> length ?m"
      using assms(1,2) by simp_all
    ultimately show ?thesis
      using True rest by (simp add: generateDegradedReleaseReqHeader_def eq finish_header_def generateHeader_put put_start)
  next
    case False
    then have "put (metadata_bytes (take k chunks)) (pr_send pr, 16, 0) = None"
      using assms(1) by (simp add: put_at len del: length_metadata_bytes)
    then show ?thesis using False by (simp add: generateDegradedReleaseReqHeader_def eq)
  qed
qed

theorem degraded_release_bounds_witness:
  "generateDegradedReleaseReqHeader (protocol_init (protocol_new ROLE_COORDINATOR) 36) 1 0x60 0x38 0 5
     [md_set 0 1 2, md_set 0 1 3, md_set 0 2 2] = None"
  using degraded_release_bounds [of "protocol_init (protocol_new ROLE_COORDINATOR) 36" 3 "[md_set 0 1 2, md_set 0 1 3, md_set 0 2 2]" 1 "0x60" "0x38" 0 5]
  by (simp add: protocol_init_def)

end
