(* ===== verification/HashedTable.thy ===== *)
theory HashedTable
  imports Chunk
begin

text \<open>
  The hashed containers of the C++ library (\<^verbatim>\<open>std::unordered_map\<close> and \<^verbatim>\<open>std::unordered_set\<close>) as the
  coordinator, the servers and the clients use them: an association list in the iteration order of
  the container, searched with the equality of the key type.  A key is found when an entry has the
  same hash value and compares equal, which for \<^verbatim>\<open>Key\<close> is weaker than having the same bytes.
\<close>

section \<open>Operations\<close>

type_synonym ('k, 'v) um = "('k \<times> 'v) list"

definition um_find :: "('k \<Rightarrow> 'k \<Rightarrow> bool) \<Rightarrow> ('k, 'v) um \<Rightarrow> 'k \<Rightarrow> 'v option" where
  "um_find same t k = map_option snd (find (\<lambda>(k', _). same k' k) t)"

definition um_insert :: "('k \<Rightarrow> 'k \<Rightarrow> bool) \<Rightarrow> ('k, 'v) um \<Rightarrow> 'k \<Rightarrow> 'v \<Rightarrow> bool \<times> ('k, 'v) um" where
  "um_insert same t k v = (if um_find same t k = None then (True, t @ [(k, v)]) else (False, t))"

text \<open>Assignment through the iterator returned by \<^verbatim>\<open>find\<close>: the stored key stays.\<close>

definition um_assign :: "('k \<Rightarrow> 'k \<Rightarrow> bool) \<Rightarrow> ('k, 'v) um \<Rightarrow> 'k \<Rightarrow> 'v \<Rightarrow> ('k, 'v) um" where
  "um_assign same t k v = map (\<lambda>(k', v'). (k', if same k' k then v else v')) t"

definition um_erase :: "('k \<Rightarrow> 'k \<Rightarrow> bool) \<Rightarrow> ('k, 'v) um \<Rightarrow> 'k \<Rightarrow> ('k, 'v) um" where
  "um_erase same t k = filter (\<lambda>(k', _). \<not> same k' k) t"

definition um_unique :: "('k \<Rightarrow> 'k \<Rightarrow> bool) \<Rightarrow> ('k, 'v) um \<Rightarrow> bool" where
  "um_unique same t \<longleftrightarrow> sorted_wrt (\<lambda>(a, _) (b, _). \<not> same a b) t"

section \<open>The contract of a hashed container\<close>

text \<open>The key equality is a partial equivalence, reflexive on the keys whose bytes can be read.\<close>

locale hashed_container =
  fixes same :: "'k \<Rightarrow> 'k \<Rightarrow> bool" and ok :: "'k \<Rightarrow> bool"
  assumes same_refl: "ok k \<Longrightarrow> same k k"
    and same_sym: "same a b \<Longrightarrow> same b a"
    and same_trans: "same a b \<Longrightarrow> same b c \<Longrightarrow> same a c"
begin

lemma same_cong: "same a b \<Longrightarrow> same c a = same c b"
  using same_sym same_trans by blast

lemma find_cong: "same a b \<Longrightarrow> um_find same t a = um_find same t b"
  by (simp add: um_find_def same_cong)

lemma find_None: "um_find same t k = None \<longleftrightarrow> (\<forall>(k', v) \<in> set t. \<not> same k' k)"
  by (auto simp: um_find_def find_None_iff)

lemma find_append: "um_find same (t @ u) k = (case um_find same t k of None \<Rightarrow> um_find same u k | Some v \<Rightarrow> Some v)"
  by (induction t) (auto simp: um_find_def)

lemma find_insert:
  "um_find same (snd (um_insert same t k v)) k' =
     (if um_find same t k = None \<and> same k k' then Some v else um_find same t k')"
proof (cases "um_find same t k = None")
  case True
  have "um_find same [(k, v)] k' = (if same k k' then Some v else None)" by (simp add: um_find_def)
  moreover have "same k k' \<Longrightarrow> um_find same t k' = None" using True find_cong by metis
  ultimately show ?thesis using True by (auto simp: um_insert_def find_append split: option.splits)
qed (auto simp: um_insert_def)

lemma same_split: "(same k k' \<longrightarrow> same a k' = same a k) \<and> (\<not> same k k' \<longrightarrow> same a k \<longrightarrow> \<not> same a k')"
  using same_cong same_sym same_trans by blast

lemma find_assign:
  "um_find same (um_assign same t k v) k' =
     (if same k k' then map_option (\<lambda>_. v) (um_find same t k') else um_find same t k')"
proof (induction t)
  case (Cons e t)
  then show ?case using same_split [of k k' "fst e"]
    by (cases e) (auto simp: um_find_def um_assign_def split: if_splits)
qed (simp add: um_find_def um_assign_def)

lemma find_erase: "um_find same (um_erase same t k) k' = (if same k k' then None else um_find same t k')"
proof (induction t)
  case (Cons e t)
  then show ?case using same_split [of k k' "fst e"]
    by (cases e) (auto simp: um_find_def um_erase_def split: if_splits)
qed (simp add: um_find_def um_erase_def)

lemma insert_unique: "um_unique same t \<Longrightarrow> um_unique same (snd (um_insert same t k v))"
  by (auto simp: um_unique_def um_insert_def sorted_wrt_append find_None split: if_splits)

lemma assign_unique: "um_unique same t \<Longrightarrow> um_unique same (um_assign same t k v)"
  by (auto simp: um_unique_def um_assign_def sorted_wrt_map case_prod_unfold)

lemma erase_unique: "um_unique same t \<Longrightarrow> um_unique same (um_erase same t k)"
  by (auto simp: um_unique_def um_erase_def sorted_wrt_filter)

lemma erase_keys: "set (um_erase same t k) \<subseteq> set t"
  by (auto simp: um_erase_def)

end

section \<open>Keys\<close>

definition key_same :: "Key \<Rightarrow> Key \<Rightarrow> bool" where
  "key_same a b \<longleftrightarrow> key_hash a = key_hash b \<and> key_equal a b = Some True"

lemma strncmp_Cons_0 [simp]:
  "strncmp (a # as) (b # bs) (Suc n) = Some 0 \<longleftrightarrow> a = b \<and> (a = 0 \<or> strncmp as bs n = Some 0)"
  by auto

lemma strncmp_sym: "strncmp as bs n = Some 0 \<Longrightarrow> strncmp bs as n = Some 0"
proof (induction as bs n rule: strncmp.induct)
  case (2 a as b bs n)
  then show ?case by (auto simp del: strncmp.simps)
qed auto

lemma strncmp_trans: "strncmp as bs n = Some 0 \<Longrightarrow> strncmp bs cs n = Some 0 \<Longrightarrow> strncmp as cs n = Some 0"
proof (induction as bs n arbitrary: cs rule: strncmp.induct)
  case (2 a as b bs n)
  then show ?case by (cases cs) (auto simp del: strncmp.simps(2))
qed auto

lemma key_equal_True:
  "key_equal a b = Some True \<longleftrightarrow> key_size a = key_size b \<and> key_isLarge a = key_isLarge b
     \<and> strncmp (key_data a) (key_data b) (key_bytes (key_size a) (key_isLarge a)) = Some 0"
  by (auto simp: key_equal_def)

lemma key_same_readable:
  "readable a \<Longrightarrow> readable b \<Longrightarrow>
     key_same a b \<longleftrightarrow> key_hash a = key_hash b \<and> key_size a = key_size b \<and> key_isLarge a = key_isLarge b
       \<and> key_string a = key_string b"
  by (auto simp: key_same_def key_equal_string)

interpretation keyed: hashed_container key_same readable
proof unfold_locales
  show "readable k \<Longrightarrow> key_same k k" for k by (simp add: key_same_readable)
  show "key_same a b \<Longrightarrow> key_same b a" for a b
    using strncmp_sym [of "key_data a" "key_data b" "key_bytes (key_size a) (key_isLarge a)"]
    unfolding key_same_def key_equal_True by (elim conjE) (simp only: simp_thms)
  show "key_same a b \<Longrightarrow> key_same b c \<Longrightarrow> key_same a c" for a b c
    using strncmp_trans [of "key_data a" "key_data b" "key_bytes (key_size a) (key_isLarge a)" "key_data c"]
    unfolding key_same_def key_equal_True by (elim conjE) (simp only: simp_thms)
qed

interpretation chunks: hashed_container md_equal "\<lambda>_. True"
  by unfold_locales (auto simp: md_equal_def)

end
