(* ===== verification/CoordinatorMap.thy ===== *)
theory CoordinatorMap
  imports HashedTable ControlProtocol "HOL-Library.Multiset"
begin

unbundle bit_operations_syntax

text \<open>
  The coordinator's view of one server (\<^verbatim>\<open>coordinator/ds/map.hh\<close> and \<^verbatim>\<open>map.cc\<close>): the sealed chunks, the
  keys with the last operation seen on them, the keys locked for remapping, the degraded locks of all
  stripes, and the handler that feeds the map from the heartbeats of a server
  (\<^verbatim>\<open>CoordinatorWorker::processHeartbeat\<close>).  \<^verbatim>\<open>None\<close> stands for a run that leaves the behaviour the
  language defines or that an assertion stops.
\<close>

section \<open>Arrays of words\<close>

definition aget :: "u32 list \<Rightarrow> nat \<Rightarrow> u32 option" where
  "aget xs i = (if i < length xs then Some (xs ! i) else None)"

definition aset :: "u32 list \<Rightarrow> nat \<Rightarrow> u32 \<Rightarrow> u32 list option" where
  "aset xs i v = (if i < length xs then Some (xs[i := v]) else None)"

definition aset2 :: "u32 list \<Rightarrow> nat \<Rightarrow> u32 \<Rightarrow> u32 \<Rightarrow> u32 list option" where
  "aset2 xs i a b = do { xs \<leftarrow> aset xs (i * 2) a; aset xs (i * 2 + 1) b }"

section \<open>Degraded locks\<close>

record ListStripe =
  ls_listId :: u32
  ls_stripeId :: u32

definition ls_less :: "ListStripe \<Rightarrow> ListStripe \<Rightarrow> bool" where
  "ls_less a b =
     (if ls_listId a < ls_listId b then True
      else if ls_listId a > ls_listId b then False
      else ls_stripeId a < ls_stripeId b)"

definition ls_equal :: "ListStripe \<Rightarrow> ListStripe \<Rightarrow> bool" where
  "ls_equal a b \<longleftrightarrow> ls_listId a = ls_listId b \<and> ls_stripeId a = ls_stripeId b"

text \<open>The two arrays hold (list id, chunk id) pairs; a null pointer is the empty array.\<close>

record DegradedLock =
  dl_original :: "u32 list"
  dl_reconstructed :: "u32 list"
  dl_reconstructedCount :: u32
  dl_ongoingAtChunk :: u32

text \<open>A count of zero leaves the field \<^verbatim>\<open>reconstructedCount\<close> as it was.\<close>

definition dl_set :: "DegradedLock \<Rightarrow> u32 list \<Rightarrow> u32 list \<Rightarrow> u32 \<Rightarrow> u32 \<Rightarrow> DegradedLock" where
  "dl_set d original reconstructed reconstructedCount ongoingAtChunk =
     (if reconstructedCount = 0
      then d\<lparr>dl_original := [], dl_reconstructed := [], dl_ongoingAtChunk := - 1\<rparr>
      else d\<lparr>dl_original := original, dl_reconstructed := reconstructed,
             dl_reconstructedCount := reconstructedCount, dl_ongoingAtChunk := ongoingAtChunk\<rparr>)"

text \<open>The selection sort by original chunk id: the inner loop, the exchange of two rows, the outer loop.\<close>

fun min_index :: "u32 list \<Rightarrow> nat \<Rightarrow> nat \<Rightarrow> nat \<Rightarrow> nat option" where
  "min_index original j 0 m = Some m"
| "min_index original j (Suc k) m =
     do { a \<leftarrow> aget original (j * 2 + 1);
          b \<leftarrow> aget original (m * 2 + 1);
          min_index original (Suc j) k (if a < b then j else m) }"

definition swap_rows :: "u32 list \<Rightarrow> nat \<Rightarrow> nat \<Rightarrow> u32 list option" where
  "swap_rows xs i m =
     do { a \<leftarrow> aget xs (i * 2); b \<leftarrow> aget xs (i * 2 + 1);
          c \<leftarrow> aget xs (m * 2); d \<leftarrow> aget xs (m * 2 + 1);
          xs \<leftarrow> aset2 xs i c d;
          aset2 xs m a b }"

fun sort_loop :: "u32 list \<Rightarrow> u32 list \<Rightarrow> nat \<Rightarrow> nat \<Rightarrow> (u32 list \<times> u32 list) option" where
  "sort_loop original reconstructed i 0 = Some (original, reconstructed)"
| "sort_loop original reconstructed i (Suc k) =
     do { m \<leftarrow> min_index original (Suc i) k i;
          original \<leftarrow> swap_rows original i m;
          reconstructed \<leftarrow> swap_rows reconstructed i m;
          sort_loop original reconstructed (Suc i) k }"

definition dl_sort :: "DegradedLock \<Rightarrow> DegradedLock option" where
  "dl_sort d =
     do { (original, reconstructed) \<leftarrow> sort_loop (dl_original d) (dl_reconstructed d) 0 (unat (dl_reconstructedCount d));
          Some (d\<lparr>dl_original := original, dl_reconstructed := reconstructed\<rparr>) }"

fun copy_rows :: "u32 list \<Rightarrow> u32 list \<Rightarrow> nat \<Rightarrow> nat \<Rightarrow> u32 list option" where
  "copy_rows src dst i 0 = Some dst"
| "copy_rows src dst i (Suc k) =
     do { a \<leftarrow> aget src (i * 2); b \<leftarrow> aget src (i * 2 + 1);
          dst \<leftarrow> aset2 dst i a b;
          copy_rows src dst (Suc i) k }"

definition chunk_ids :: "u32 list \<Rightarrow> nat \<Rightarrow> u32 list" where
  "chunk_ids xs n = map (\<lambda>i. xs ! (i * 2 + 1)) [0..<n]"

text \<open>
  The new entries of \<^verbatim>\<open>dup\<close>: every chunk that neither survives nor is handled yet is redirected to the
  first surviving chunk no existing entry redirects to (the set of redirected chunks does not grow).
\<close>

fun add_rows ::
  "u32 \<Rightarrow> u32 list \<Rightarrow> u32 list \<Rightarrow> u32 list \<Rightarrow> nat \<Rightarrow> nat \<Rightarrow> u32 list \<Rightarrow> u32 list \<Rightarrow> nat
     \<Rightarrow> (u32 list \<times> u32 list) option" where
  "add_rows listId handled redirected surviving i 0 original reconstructed ptr = Some (original, reconstructed)"
| "add_rows listId handled redirected surviving i (Suc k) original reconstructed ptr =
     (if of_nat i \<in> set handled
      then add_rows listId handled redirected surviving (Suc i) k original reconstructed ptr
      else do { original \<leftarrow> aset2 original ptr listId (of_nat i);
                reconstructed \<leftarrow> aset reconstructed (ptr * 2) listId;
                reconstructed \<leftarrow> (case find (\<lambda>s. s \<notin> set redirected) surviving of
                                   None \<Rightarrow> Some reconstructed
                                 | Some s \<Rightarrow> aset reconstructed (ptr * 2 + 1) s);
                add_rows listId handled redirected surviving (Suc i) k original reconstructed (Suc ptr) })"

text \<open>\<^verbatim>\<open>junk\<close> is what \<^verbatim>\<open>new\<close> leaves in the arrays.\<close>

definition dl_dup :: "u32 \<Rightarrow> DegradedLock \<Rightarrow> u8 \<Rightarrow> u32 list \<Rightarrow> u32 \<Rightarrow> DegradedLock option" where
  "dl_dup junk d numSurvivingChunkIds survivingChunkIds chunkCount =
     (if dl_reconstructedCount d = 0 then Some d
      else do {
        listId \<leftarrow> aget (dl_original d) 0;
        let rc = unat (dl_reconstructedCount d);
        let newCount = chunkCount - ucast numSurvivingChunkIds - dl_reconstructedCount d;
        if \<not> newCount < chunkCount then None
        else do {
          let fresh = replicate (unat (dl_reconstructedCount d * 2 + newCount)) junk;
          original \<leftarrow> copy_rows (dl_original d) fresh 0 rc;
          reconstructed \<leftarrow> copy_rows (dl_reconstructed d) fresh 0 rc;
          (original, reconstructed, d) \<leftarrow>
            (if newCount = 0 then Some (original, reconstructed, d)
             else if unat numSurvivingChunkIds \<le> length survivingChunkIds
             then do {
               let surviving = take (unat numSurvivingChunkIds) survivingChunkIds;
               (original, reconstructed) \<leftarrow>
                 add_rows listId (chunk_ids (dl_original d) rc @ surviving) (chunk_ids (dl_reconstructed d) rc) surviving
                   0 (unat chunkCount) original reconstructed rc;
               Some (original, reconstructed, d\<lparr>dl_reconstructedCount := dl_reconstructedCount d + newCount\<rparr>) }
             else None);
          dl_sort (d\<lparr>dl_original := original, dl_reconstructed := reconstructed\<rparr>) } })"

definition row :: "u32 list \<Rightarrow> nat \<Rightarrow> u32 \<times> u32" where
  "row xs i = (xs ! (i * 2), xs ! (i * 2 + 1))"

definition rows :: "u32 list \<Rightarrow> nat \<Rightarrow> (u32 \<times> u32) list" where
  "rows xs n = map (row xs) [0..<n]"

text \<open>The entries of the argument that are not in the lock yet, and the loop that appends them.\<close>

definition new_rows :: "DegradedLock \<Rightarrow> u32 list \<Rightarrow> nat \<Rightarrow> nat list" where
  "new_rows d original n = filter (\<lambda>i. row original i \<notin> set (rows (dl_original d) (unat (dl_reconstructedCount d)))) [0..<n]"

fun append_rows :: "u32 list \<Rightarrow> u32 list \<Rightarrow> nat list \<Rightarrow> nat \<Rightarrow> u32 list option" where
  "append_rows dst src [] tmp = Some dst"
| "append_rows dst src (i # is) tmp =
     do { dst \<leftarrow> aset2 dst tmp (fst (row src i)) (snd (row src i)); append_rows dst src is (Suc tmp) }"

definition dl_expand ::
  "u32 \<Rightarrow> DegradedLock \<Rightarrow> u32 list \<Rightarrow> u32 list \<Rightarrow> u32 \<Rightarrow> u32 \<Rightarrow> u8 \<Rightarrow> u32 list \<Rightarrow> u32 \<Rightarrow> DegradedLock option" where
  "dl_expand junk d original reconstructed reconstructedCount ongoingAtChunk numSurvivingChunkIds survivingChunkIds chunkCount =
     do { d \<leftarrow> (if dl_reconstructedCount d = 0
                then dl_dup junk (dl_set d original reconstructed reconstructedCount ongoingAtChunk)
                       numSurvivingChunkIds survivingChunkIds chunkCount
                else Some d);
          if reconstructedCount = 0 then Some d
          else if length original < 2 * unat reconstructedCount \<or> length reconstructed < 2 * unat reconstructedCount
            \<or> length (dl_original d) < 2 * unat (dl_reconstructedCount d) then None
          else do {
            let new = new_rows d original (unat reconstructedCount);
            if new = [] then Some d
            else do {
              let total = of_nat (length new) + dl_reconstructedCount d;
              let rc = unat (dl_reconstructedCount d);
              original' \<leftarrow> copy_rows (dl_original d) (replicate (unat total) junk) 0 rc;
              reconstructed' \<leftarrow> copy_rows (dl_reconstructed d) (replicate (unat total) junk) 0 rc;
              original' \<leftarrow> append_rows original' original new rc;
              reconstructed' \<leftarrow> append_rows reconstructed' reconstructed new rc;
              dl_sort (d\<lparr>dl_reconstructedCount := total, dl_original := original', dl_reconstructed := reconstructed'\<rparr>) } } }"

section \<open>The map of one server\<close>

abbreviation (input) OPCODE_SET :: u8 where "OPCODE_SET \<equiv> 0x02"
abbreviation (input) OPCODE_DELETE :: u8 where "OPCODE_DELETE \<equiv> 0x04"
abbreviation (input) OPCODE_DEGRADED_SET :: u8 where "OPCODE_DEGRADED_SET \<equiv> 0x10"
abbreviation (input) OPCODE_REMAPPING_LOCK :: u8 where "OPCODE_REMAPPING_LOCK \<equiv> 0x20"

record Map =
  cm_chunks :: "(Metadata, unit) um"
  cm_keys :: "(Key, OpMetadata) um"
  cm_lockedKeys :: "(Key, unit) um"

definition map_init :: "u32 \<Rightarrow> u32 list" where
  "map_init numStripeList = replicate (unat numStripeList) 0"

definition updateMaxStripeId :: "u32 list \<Rightarrow> u32 \<Rightarrow> u32 \<Rightarrow> (bool \<times> u32 list) option" where
  "updateMaxStripeId stripes listId stripeId =
     do { s \<leftarrow> aget stripes (unat listId);
          if s < stripeId then Some (True, stripes[unat listId := stripeId]) else Some (False, stripes) }"

definition insertChunk :: "Map \<Rightarrow> u32 list \<Rightarrow> u32 \<Rightarrow> u32 \<Rightarrow> u32 \<Rightarrow> (bool \<times> Map \<times> u32 list) option" where
  "insertChunk cm stripes listId stripeId chunkId =
     do { let (ret, chunks) = um_insert md_equal (cm_chunks cm) (md_set listId stripeId chunkId) ();
          (_, stripes) \<leftarrow> updateMaxStripeId stripes listId stripeId;
          Some (ret, cm\<lparr>cm_chunks := chunks\<rparr>, stripes) }"

definition om_set :: "u32 \<Rightarrow> u32 \<Rightarrow> u32 \<Rightarrow> u8 \<Rightarrow> u32 \<Rightarrow> OpMetadata" where
  "om_set l s c opcode timestamp =
     \<lparr>md_listId = l, md_stripeId = s, md_chunkId = c, om_opcode = opcode, om_timestamp = timestamp\<rparr>"

text \<open>The insertion of an absent key: a copy of the key is stored, and its lock is dropped.\<close>

definition insert_copy :: "Map \<Rightarrow> Key \<Rightarrow> OpMetadata \<Rightarrow> (bool \<times> Map) option" where
  "insert_copy cm key om =
     do { key \<leftarrow> key_dup key 0 None 0 (key_isLarge key);
          let (ret, keys) = um_insert key_same (cm_keys cm) key om;
          Some (ret, cm\<lparr>cm_keys := keys, cm_lockedKeys := um_erase key_same (cm_lockedKeys cm) key\<rparr>) }"

text \<open>
  The switch of \<^verbatim>\<open>insertKey\<close>.  With a record of the key already there, a SET compares the timestamps but
  replaces a SET record in both cases.  The message for an unknown opcode reads through the iterator
  even when it is the end of the container.
\<close>

definition insertKey_switch :: "Map \<Rightarrow> Key \<Rightarrow> OpMetadata \<Rightarrow> u8 \<Rightarrow> u32 \<Rightarrow> (bool \<times> Map) option" where
  "insertKey_switch cm key om opcode timestamp =
     (let it = um_find key_same (cm_keys cm) key;
          replaced = cm\<lparr>cm_keys := um_assign key_same (cm_keys cm) key om\<rparr>;
          erased = cm\<lparr>cm_keys := um_erase key_same (cm_keys cm) key\<rparr> in
      if opcode = OPCODE_SET \<or> opcode = OPCODE_DEGRADED_SET then
        (case it of
           Some old \<Rightarrow>
             if om_timestamp old > timestamp
             then if om_opcode old = OPCODE_SET \<or> om_opcode old = OPCODE_DEGRADED_SET then Some (True, replaced)
                  else if om_opcode old = OPCODE_DELETE then Some (True, erased)
                  else Some (False, cm)
             else Some (True, replaced)
         | None \<Rightarrow> insert_copy cm key om)
      else if opcode = OPCODE_DELETE then
        (case it of Some old \<Rightarrow> Some (True, erased) | None \<Rightarrow> insert_copy cm key om)
      else if opcode = OPCODE_REMAPPING_LOCK then
        (case it of
           Some old \<Rightarrow> Some (False, cm)
         | None \<Rightarrow>
             if um_find key_same (cm_lockedKeys cm) key \<noteq> None then Some (False, cm)
             else do { key \<leftarrow> key_dup key 0 None 0 (key_isLarge key);
                       Some (True, cm\<lparr>cm_lockedKeys := snd (um_insert key_same (cm_lockedKeys cm) key ())\<rparr>) })
      else (case it of Some old \<Rightarrow> Some (False, cm) | None \<Rightarrow> None))"

definition insertKey ::
  "Map \<Rightarrow> u32 list \<Rightarrow> bool \<Rightarrow> byte list \<Rightarrow> u8 \<Rightarrow> u32 \<Rightarrow> u32 \<Rightarrow> u32 \<Rightarrow> u8 \<Rightarrow> u32 \<Rightarrow> (bool \<times> Map \<times> u32 list) option" where
  "insertKey cm stripes large keyStr keySize listId stripeId chunkId opcode timestamp =
     do { (ret, cm) \<leftarrow> insertKey_switch cm (key_set keySize keyStr 0 large)
                        (om_set listId stripeId chunkId opcode timestamp) opcode timestamp;
          (_, stripes) \<leftarrow> updateMaxStripeId stripes listId stripeId;
          Some (ret, cm, stripes) }"

definition insertDegradedLock ::
  "u32 \<Rightarrow> u32 \<Rightarrow> (ListStripe, DegradedLock) um \<Rightarrow> u32 \<Rightarrow> u32 \<Rightarrow> u32 list \<Rightarrow> u32 list \<Rightarrow> u32 \<Rightarrow> u32 \<Rightarrow> u8 \<Rightarrow> u32 list \<Rightarrow> u32
     \<Rightarrow> (bool \<times> (ListStripe, DegradedLock) um) option" where
  "insertDegradedLock junk uninit locks listId stripeId original reconstructed reconstructedCount ongoingAtChunk
       numSurvivingChunkIds survivingChunkIds chunkCount =
     (let ls = \<lparr>ls_listId = listId, ls_stripeId = stripeId\<rparr>;
          d = dl_set \<lparr>dl_original = [], dl_reconstructed = [], dl_reconstructedCount = uninit, dl_ongoingAtChunk = 0\<rparr>
                original reconstructed reconstructedCount ongoingAtChunk in
      if um_find ls_equal locks ls = None
      then do { d \<leftarrow> dl_dup junk d numSurvivingChunkIds survivingChunkIds chunkCount;
                Some (um_insert ls_equal locks ls d) }
      else Some (False, locks))"

definition expandDegradedLock ::
  "u32 \<Rightarrow> (ListStripe, DegradedLock) um \<Rightarrow> u32 \<Rightarrow> u32 \<Rightarrow> u32 list \<Rightarrow> u32 list \<Rightarrow> u32 \<Rightarrow> u32 \<Rightarrow> u8 \<Rightarrow> u32 list \<Rightarrow> u32
     \<Rightarrow> DegradedLock \<Rightarrow> (bool \<times> DegradedLock \<times> (ListStripe, DegradedLock) um) option" where
  "expandDegradedLock junk locks listId stripeId original reconstructed reconstructedCount ongoingAtChunk
       numSurvivingChunkIds survivingChunkIds chunkCount degradedLock =
     (let ls = \<lparr>ls_listId = listId, ls_stripeId = stripeId\<rparr> in
      case um_find ls_equal locks ls of
        None \<Rightarrow> Some (False, degradedLock, locks)
      | Some d \<Rightarrow> do { d \<leftarrow> dl_expand junk d original reconstructed reconstructedCount ongoingAtChunk
                              numSurvivingChunkIds survivingChunkIds chunkCount;
                      Some (True, d, um_assign ls_equal locks ls d) })"

definition findMetadataByKey :: "Map \<Rightarrow> byte list \<Rightarrow> u8 \<Rightarrow> bool \<Rightarrow> OpMetadata option" where
  "findMetadataByKey cm keyStr keySize large = um_find key_same (cm_keys cm) (key_set keySize keyStr 0 large)"

definition findDegradedLock :: "(ListStripe, DegradedLock) um \<Rightarrow> u32 \<Rightarrow> u32 \<Rightarrow> DegradedLock option" where
  "findDegradedLock locks listId stripeId = um_find ls_equal locks \<lparr>ls_listId = listId, ls_stripeId = stripeId\<rparr>"

definition isSealed :: "Map \<Rightarrow> Metadata \<Rightarrow> bool" where
  "isSealed cm md \<longleftrightarrow> um_find md_equal (cm_chunks cm) md \<noteq> None"

section \<open>Heartbeats\<close>

text \<open>
  \<^verbatim>\<open>processHeartbeat\<close>: the maps of all servers, the table of the largest stripe ids, and the pending
  metadata synchronisations with the flags they raise.  The handler inserts what the message stripeList
  into the map of the sending server, except that a deleted key goes to the map of the server the
  stripe lists name for its chunk.
\<close>

record coordinator =
  co_maps :: "Map list"
  co_stripes :: "u32 list"
  co_syncMeta :: "(u32, nat) um"
  co_synced :: "nat list"

text \<open>An entry that fails to parse leaves \<^verbatim>\<open>processed\<close> as the previous entry left it.\<close>

fun hb_chunks ::
  "Protocol \<Rightarrow> memory \<Rightarrow> nat \<Rightarrow> nat \<Rightarrow> coordinator \<Rightarrow> nat \<Rightarrow> nat \<Rightarrow> nat \<Rightarrow> nat \<Rightarrow> (coordinator \<times> nat \<times> nat \<times> nat) option" where
  "hb_chunks pr buf sz socket co 0 processed off failed = Some (co, processed, off, failed)"
| "hb_chunks pr buf sz socket co (Suc k) processed off failed =
     do { (good, md, processed) \<leftarrow> parseMetadataHeader pr (md_set 0 0 0) processed (Some buf) sz off;
          if good
          then if socket < length (co_maps co)
            then do { (_, cm, stripes) \<leftarrow> insertChunk (co_maps co ! socket) (co_stripes co) (md_listId md) (md_stripeId md) (md_chunkId md);
                      hb_chunks pr buf sz socket (co\<lparr>co_maps := (co_maps co)[socket := cm], co_stripes := stripes\<rparr>)
                        k processed (off + processed) failed }
            else None
          else hb_chunks pr buf sz socket co k processed (off + processed) (failed + 1) }"

definition stripe_get :: "nat list list \<Rightarrow> u32 \<Rightarrow> u32 \<Rightarrow> nat option" where
  "stripe_get stripeList listIndex chunkIndex =
     (if unat listIndex < length stripeList \<and> unat chunkIndex < length (stripeList ! unat listIndex)
      then Some (stripeList ! unat listIndex ! unat chunkIndex) else None)"

definition op_header0 :: KeyOpMetadataHeader where
  "op_header0 = \<lparr>ko_keySize = 0, ko_opcode = 0, ko_listId = 0, ko_stripeId = 0, ko_chunkId = 0, ko_timestamp = 0,
     ko_isLarge = False, ko_key = []\<rparr>"

definition insert_op :: "nat list list \<Rightarrow> nat \<Rightarrow> coordinator \<Rightarrow> KeyOpMetadataHeader \<Rightarrow> coordinator option" where
  "insert_op stripeList socket co h =
     do { s \<leftarrow> (if ko_opcode h = OPCODE_DELETE then stripe_get stripeList (ko_listId h) (ko_chunkId h) else Some socket);
          if s < length (co_maps co)
          then do { (_, cm, stripes) \<leftarrow> insertKey (co_maps co ! s) (co_stripes co) (ko_isLarge h) (ko_key h) (ko_keySize h)
                                         (ko_listId h) (ko_stripeId h) (ko_chunkId h) (ko_opcode h) (ko_timestamp h);
                    Some (co\<lparr>co_maps := (co_maps co)[s := cm], co_stripes := stripes\<rparr>) }
          else None }"

fun hb_ops ::
  "Protocol \<Rightarrow> nat list list \<Rightarrow> memory \<Rightarrow> nat \<Rightarrow> nat \<Rightarrow> coordinator \<Rightarrow> nat \<Rightarrow> nat \<Rightarrow> nat \<Rightarrow> nat \<Rightarrow> (coordinator \<times> nat) option" where
  "hb_ops pr stripeList buf sz socket co 0 processed off failed = Some (co, failed)"
| "hb_ops pr stripeList buf sz socket co (Suc k) processed off failed =
     do { (good, h, processed) \<leftarrow> parseKeyOpMetadataHeader pr op_header0 processed (Some buf) sz off;
          if good
          then do { co \<leftarrow> insert_op stripeList socket co h; hb_ops pr stripeList buf sz socket co k processed (off + processed) failed }
          else hb_ops pr stripeList buf sz socket co k processed (off + processed) (failed + 1) }"

definition removeSyncMetaReq :: "(u32, nat) um \<Rightarrow> u32 \<Rightarrow> nat option \<times> (u32, nat) um" where
  "removeSyncMetaReq t i = (um_find (=) t i, um_erase (=) t i)"

text \<open>The result: the returned flag, the acknowledgement to send, and the new state.\<close>

definition processHeartbeat ::
  "Protocol \<Rightarrow> nat list list \<Rightarrow> coordinator \<Rightarrow> nat \<Rightarrow> u32 \<Rightarrow> memory \<Rightarrow> nat \<Rightarrow> nat
     \<Rightarrow> (bool \<times> HeartbeatHeader option \<times> coordinator) option" where
  "processHeartbeat pr stripeList co socket requestId buf sz processed0 =
     do { (good, hb) \<leftarrow> parseHeartbeatHeader pr \<lparr>hb_timestamp = 0, hb_sealed = 0, hb_keys = 0, hb_isLast = False\<rparr> (Some buf) sz 0;
          if \<not> good then Some (False, None, co)
          else do {
            (co, processed, off, failed) \<leftarrow> hb_chunks pr buf sz socket co (unat (hb_sealed hb)) processed0 13 0;
            (co, failed) \<leftarrow> hb_ops pr stripeList buf sz socket co (unat (hb_keys hb)) processed off failed;
            let ack = (if failed = 0 then Some hb else None);
            let co = (if requestId \<noteq> 0 \<and> hb_isLast hb \<and> failed = 0
                      then let (sync, t) = removeSyncMetaReq (co_syncMeta co) requestId in
                           co\<lparr>co_syncMeta := t, co_synced := (case sync of None \<Rightarrow> co_synced co | Some p \<Rightarrow> p # co_synced co)\<rparr>
                      else co);
            Some (failed = 0, ack, co) } }"

section \<open>Reading back a heartbeat\<close>

text \<open>What a message should do: insert its entries one after the other.\<close>

fun insert_chunks :: "nat \<Rightarrow> coordinator \<Rightarrow> Metadata list \<Rightarrow> coordinator option" where
  "insert_chunks socket co [] = Some co"
| "insert_chunks socket co (md # mds) =
     (if socket < length (co_maps co)
      then do { (_, cm, stripes) \<leftarrow> insertChunk (co_maps co ! socket) (co_stripes co) (md_listId md) (md_stripeId md) (md_chunkId md);
                insert_chunks socket (co\<lparr>co_maps := (co_maps co)[socket := cm], co_stripes := stripes\<rparr>) mds }
      else None)"

definition op_header :: "Key \<Rightarrow> OpMetadata \<Rightarrow> KeyOpMetadataHeader" where
  "op_header k om =
     \<lparr>ko_keySize = key_size k, ko_opcode = om_opcode om, ko_listId = md_listId om, ko_stripeId = md_stripeId om,
      ko_chunkId = md_chunkId om, ko_timestamp = om_timestamp om, ko_isLarge = key_isLarge k, ko_key = key_data k\<rparr>"

lemma op_header_fields [simp]:
  "ko_keySize (op_header k om) = key_size k" "ko_opcode (op_header k om) = om_opcode om" "ko_listId (op_header k om) = md_listId om"
  "ko_stripeId (op_header k om) = md_stripeId om" "ko_chunkId (op_header k om) = md_chunkId om"
  "ko_timestamp (op_header k om) = om_timestamp om" "ko_isLarge (op_header k om) = key_isLarge k" "ko_key (op_header k om) = key_data k"
  by (simp_all add: op_header_def)

fun insert_ops :: "nat list list \<Rightarrow> nat \<Rightarrow> coordinator \<Rightarrow> (Key \<times> OpMetadata) list \<Rightarrow> coordinator option" where
  "insert_ops stripeList socket co [] = Some co"
| "insert_ops stripeList socket co ((k, om) # ops) =
     do { co \<leftarrow> insert_op stripeList socket co (op_header k om); insert_ops stripeList socket co ops }"

lemma parseMetadata_at:
  assumes "drop off buf = metadata_bytes (md # mds) @ post"
  shows "parseMetadataHeader pr h b (Some buf) (length buf) off = Some (True, md_set (md_listId md) (md_stripeId md) (md_chunkId md), 12)"
proof -
  have "metadata_bytes (md # mds) @ post \<noteq> []" by (auto simp: be32_def)
  note d = drop_size [OF assms this]
  then show ?thesis using assms by (simp add: parseMetadataHeader_def recv_args_def read_simps)
qed

lemma hb_chunks_read:
  "drop off buf = metadata_bytes mds @ post \<Longrightarrow>
   hb_chunks pr buf (length buf) socket co (length mds) p off f =
     map_option (\<lambda>co'. (co', if mds = [] then p else 12, off + 12 * length mds, f)) (insert_chunks socket co mds)"
proof (induction mds arbitrary: off co p)
  case (Cons md mds)
  have next_off: "drop (off + 12) buf = metadata_bytes mds @ post"
    using arg_cong [OF Cons.prems, of "drop 12"] by (simp add: add.commute)
  have IH: "hb_chunks pr buf (length buf) socket co (length mds) 12 (off + 12) f =
      map_option (\<lambda>co'. (co', 12, off + 12 * length (md # mds), f)) (insert_chunks socket co mds)" for co
    using Cons.IH [OF next_off, of co 12] by (simp add: algebra_simps)
  show ?case
    by (simp add: parseMetadata_at [OF Cons.prems] IH md_set_def map_option_bind case_prod_unfold comp_def del: metadata_bytes.simps)
qed simp

text \<open>An operation entry: the key is followed by the rest of the message, which the insertion does not look at.\<close>

lemma key_set_fields [simp]:
  "key_size (key_set sz d p large) = sz" "key_data (key_set sz d p large) = d"
  "key_isLarge (key_set sz d p large) = large" "key_ptr (key_set sz d p large) = p"
  by (simp_all add: key_set_def)

lemma key_bytes_less: "key_bytes sz large < 2 ^ 32"
  using unat_u8_less [of sz] by (simp add: key_bytes_def)

lemma unat_key_bytes: "unat (of_nat (key_bytes sz large) :: u32) = key_bytes sz large"
  by (rule unat_of_nat_eq) (use key_bytes_less in simp)

lemma key_hash_readable: "readable k \<Longrightarrow> key_hash k = Some (hash_of (take (key_bytes (key_size k) (key_isLarge k)) (key_data k)))"
  using hash_eq_hash_of [of "of_nat (key_bytes (key_size k) (key_isLarge k))" "key_data k"] unat_key_bytes
  by (simp add: key_hash_def readable_def)

lemma key_same_tail:
  assumes "readable (key_set sz d p large)" and "take (key_bytes sz large) d = take (key_bytes sz large) d'"
    and "key_bytes sz large \<le> length d'"
  shows "key_same (key_set sz d p large) (key_set sz d' p' large)"
proof -
  have "readable (key_set sz d' p' large)" using assms(3) by (simp add: readable_def key_set_def)
  with assms show ?thesis
    by (simp add: key_same_readable key_hash_readable) (simp add: key_set_def key_string_def cstr_def)
qed

lemma key_same_self: "readable k \<Longrightarrow> key_same k (key_set (key_size k) (key_data k) p (key_isLarge k))"
  by (subst key_same_readable) (simp_all add: key_hash_readable readable_def key_string_def)

lemma key_dup_tail:
  assumes "key_bytes sz large < 256" and "take (key_bytes sz large) d = take (key_bytes sz large) d'"
    and "key_bytes sz large \<le> length d" and "key_bytes sz large \<le> length d'"
  shows "key_dup (key_set sz d p large) 0 None q large = Some (key_set sz (take (key_bytes sz large) d') q large)"
proof -
  have "unat (if large then sz + 3 else sz) = key_bytes sz large"
    using assms(1) by (simp add: key_bytes_def unat_plus_eq split: if_splits)
  then show ?thesis using assms by (simp add: key_dup_def key_set_def)
qed

lemma insertKey_tail:
  assumes "key_bytes sz large < 256" and "take (key_bytes sz large) d = take (key_bytes sz large) d'"
    and "key_bytes sz large \<le> length d" and "key_bytes sz large \<le> length d'"
  shows "insertKey cm st large d sz l s c opcode ts = insertKey cm st large d' sz l s c opcode ts"
proof -
  have rd: "readable (key_set sz d 0 large)" using assms by (simp add: readable_def key_set_def)
  note same = keyed.same_cong [OF key_same_tail [OF rd assms(2,4), of 0]]
  have eqs: "um_find key_same t (key_set sz d 0 large) = um_find key_same t (key_set sz d' 0 large)"
    "um_assign key_same t (key_set sz d 0 large) v = um_assign key_same t (key_set sz d' 0 large) v"
    "um_erase key_same t (key_set sz d 0 large) = um_erase key_same t (key_set sz d' 0 large)"
    for t :: "(Key, 'v) um" and v by (simp_all add: um_find_def um_assign_def um_erase_def same)
  have dups: "key_dup (key_set sz d 0 large) 0 None 0 large = key_dup (key_set sz d' 0 large) 0 None 0 large"
    using key_dup_tail [OF assms] key_dup_tail [OF assms(1) refl assms(4,4)] by simp
  have "insertKey_switch cm (key_set sz d 0 large) om opcode ts = insertKey_switch cm (key_set sz d' 0 large) om opcode ts" for om
    by (simp add: insertKey_switch_def insert_copy_def eqs dups Let_def split: option.split)
  then show ?thesis by (simp add: insertKey_def)
qed

definition op_ok :: "Key \<times> OpMetadata \<Rightarrow> bool" where
  "op_ok kom \<longleftrightarrow> readable (fst kom) \<and> key_bytes (key_size (fst kom)) (key_isLarge (fst kom)) < 256"

lemma insert_op_tail:
  assumes "op_ok (k, om)"
  shows "insert_op stripeList socket co
           ((op_header k om)\<lparr>ko_key := take (key_bytes (key_size k) (key_isLarge k)) (key_data k) @ r\<rparr>) =
         insert_op stripeList socket co (op_header k om)"
proof -
  let ?n = "key_bytes (key_size k) (key_isLarge k)"
  have "insertKey cm st (key_isLarge k) (take ?n (key_data k) @ r) (key_size k) l s c opcode ts =
        insertKey cm st (key_isLarge k) (key_data k) (key_size k) l s c opcode ts" for cm st l s c opcode ts
    using assms by (intro insertKey_tail) (auto simp: op_ok_def readable_def)
  then show ?thesis by (simp add: insert_op_def op_header_def cong: if_cong)
qed

lemma parseKeyOp_at:
  assumes "drop off buf = op_bytes k om @ post" and "op_ok (k, om)"
  shows "parseKeyOpMetadataHeader pr op_header0 b (Some buf) (length buf) off =
    Some (True, (op_header k om)\<lparr>ko_key := take (key_bytes (key_size k) (key_isLarge k)) (key_data k) @ post\<rparr>,
          length (op_bytes k om))"
proof -
  have "op_bytes k om @ post \<noteq> []" by (simp add: op_bytes_def)
  note d = drop_size [OF assms(1) this]
  have rd: "readable k" using assms(2) by (simp add: op_ok_def)
  have "of_bool_byte x \<noteq> 0 \<longleftrightarrow> x" for x by (simp add: of_bool_byte_def)
  then show ?thesis using assms(1) d length_op_bytes [OF rd, of om]
    by (simp add: parseKeyOpMetadataHeader_def recv_args_def op_header_def op_header0_def)
       (simp add: op_bytes_def read_simps Let_def)
qed

lemma hb_ops_read:
  "drop off buf = ops_bytes ops @ post \<Longrightarrow> list_all op_ok ops \<Longrightarrow>
   hb_ops pr stripeList buf (length buf) socket co (length ops) p off f =
     map_option (\<lambda>co'. (co', f)) (insert_ops stripeList socket co ops)"
proof (induction ops arbitrary: off co p)
  case (Cons e ops)
  obtain k om where e: "e = (k, om)" by (cases e)
  have at: "drop off buf = op_bytes k om @ ops_bytes ops @ post" and ok: "op_ok (k, om)"
    using Cons.prems by (auto simp: e)
  have next_off: "drop (off + length (op_bytes k om)) buf = ops_bytes ops @ post"
    using arg_cong [OF at, of "drop (length (op_bytes k om))"] by (simp add: add.commute)
  show ?case
    using Cons.IH [OF next_off] Cons.prems(2)
    by (simp add: e parseKeyOp_at [OF at ok] insert_op_tail [OF ok] map_option_bind comp_def)
qed simp

text \<open>Which insertions can run: known lists, known opcodes, and for a deleted key a known server.\<close>

definition chunk_known :: "coordinator \<Rightarrow> Metadata \<Rightarrow> bool" where
  "chunk_known co md \<longleftrightarrow> unat (md_listId md) < length (co_stripes co)"

definition op_known :: "nat list list \<Rightarrow> coordinator \<Rightarrow> Key \<times> OpMetadata \<Rightarrow> bool" where
  "op_known stripeList co kom \<longleftrightarrow>
     op_ok kom \<and> unat (md_listId (snd kom)) < length (co_stripes co)
     \<and> om_opcode (snd kom) \<in> {OPCODE_SET, OPCODE_DEGRADED_SET, OPCODE_DELETE}
     \<and> (om_opcode (snd kom) = OPCODE_DELETE \<longrightarrow>
          (\<exists>s < length (co_maps co). stripe_get stripeList (md_listId (snd kom)) (md_chunkId (snd kom)) = Some s))"

lemma updateMaxStripeId_runs:
  "unat l < length st \<Longrightarrow> \<exists>b st'. updateMaxStripeId st l s = Some (b, st') \<and> length st' = length st"
  by (auto simp: updateMaxStripeId_def aget_def)

lemma insertChunk_runs:
  assumes "unat l < length st"
  shows "\<exists>b cm' st'. insertChunk cm st l s c = Some (b, cm', st') \<and> length st' = length st
    \<and> (\<forall>md. isSealed cm' md \<longleftrightarrow> isSealed cm md \<or> md_equal (md_set l s c) md)"
proof -
  obtain b st' where u: "updateMaxStripeId st l s = Some (b, st')" "length st' = length st"
    using updateMaxStripeId_runs [OF assms] by blast
  have "um_find md_equal (cm_chunks cm) (md_set l s c) \<noteq> None \<Longrightarrow> md_equal (md_set l s c) md \<Longrightarrow>
      um_find md_equal (cm_chunks cm) md \<noteq> None" for md
    using chunks.find_cong by metis
  then show ?thesis
    using u by (auto simp: insertChunk_def isSealed_def chunks.find_insert Let_def case_prod_unfold)
qed

lemma insert_chunks_runs:
  "socket < length (co_maps co) \<Longrightarrow> list_all (chunk_known co) mds \<Longrightarrow>
   \<exists>co'. insert_chunks socket co mds = Some co' \<and> length (co_maps co') = length (co_maps co)
     \<and> length (co_stripes co') = length (co_stripes co) \<and> co_syncMeta co' = co_syncMeta co \<and> co_synced co' = co_synced co
     \<and> (\<forall>md. isSealed (co_maps co' ! socket) md \<longleftrightarrow> isSealed (co_maps co ! socket) md \<or> (\<exists>x \<in> set mds. md_equal x md))"
proof (induction mds arbitrary: co)
  case (Cons md mds)
  let ?i = "insertChunk (co_maps co ! socket) (co_stripes co) (md_listId md) (md_stripeId md) (md_chunkId md)"
  obtain b cm st where i: "?i = Some (b, cm, st)" "length st = length (co_stripes co)"
      "\<forall>x. isSealed cm x \<longleftrightarrow> isSealed (co_maps co ! socket) x \<or> md_equal (md_set (md_listId md) (md_stripeId md) (md_chunkId md)) x"
    using insertChunk_runs [of "md_listId md" "co_stripes co" "co_maps co ! socket" "md_stripeId md" "md_chunkId md"] Cons.prems(2)
    unfolding chunk_known_def list.pred_inject by blast
  let ?co = "co\<lparr>co_maps := (co_maps co)[socket := cm], co_stripes := st\<rparr>"
  have "socket < length (co_maps ?co)" "list_all (chunk_known ?co) mds"
    using Cons.prems i(2) by (auto simp: chunk_known_def list_all_iff)
  from Cons.IH [OF this] obtain co' where co': "insert_chunks socket ?co mds = Some co'"
      "length (co_maps co') = length (co_maps co)" "length (co_stripes co') = length (co_stripes co)"
      "co_syncMeta co' = co_syncMeta co" "co_synced co' = co_synced co"
      "\<forall>x. isSealed (co_maps co' ! socket) x \<longleftrightarrow> isSealed cm x \<or> (\<exists>y \<in> set mds. md_equal y x)"
    using Cons.prems(1) i(2) by auto
  have "md_equal (md_set (md_listId md) (md_stripeId md) (md_chunkId md)) x = md_equal md x" for x
    by (simp add: md_equal_def md_set_def)
  then show ?case using Cons.prems(1) i co' by auto
qed auto

lemma key_dup_own:
  assumes "readable k" and "key_bytes (key_size k) (key_isLarge k) < 256"
  shows "\<exists>k'. key_dup k 0 None 0 (key_isLarge k) = Some k' \<and> key_same k k' \<and> readable k'"
proof -
  let ?n = "key_bytes (key_size k) (key_isLarge k)"
  have k: "k = key_set (key_size k) (key_data k) (key_ptr k) (key_isLarge k)" by (simp add: key_set_def)
  have l: "?n \<le> length (key_data k)" using assms(1) by (simp add: readable_def)
  have "key_dup k 0 None 0 (key_isLarge k) = Some (key_set (key_size k) (take ?n (key_data k)) 0 (key_isLarge k))"
    by (subst k) (rule key_dup_tail [OF assms(2) refl l l])
  moreover have "key_same k (key_set (key_size k) (take ?n (key_data k)) 0 (key_isLarge k))"
    using key_same_tail [of "key_size k" "key_data k" "key_ptr k" "key_isLarge k" "take ?n (key_data k)" 0] assms(1) l k
    by (simp add: readable_def)
  moreover have "readable (key_set (key_size k) (take ?n (key_data k)) 0 (key_isLarge k))"
    using l by (simp add: readable_def)
  ultimately show ?thesis by blast
qed

lemma insert_copy_runs:
  assumes "readable k" and "key_bytes (key_size k) (key_isLarge k) < 256"
  shows "\<exists>k' cm'. insert_copy cm k om = Some (um_find key_same (cm_keys cm) k = None, cm') \<and> key_same k k' \<and> readable k'
    \<and> cm' = cm\<lparr>cm_keys := snd (um_insert key_same (cm_keys cm) k' om), cm_lockedKeys := um_erase key_same (cm_lockedKeys cm) k'\<rparr>"
proof -
  obtain k' where k': "key_dup k 0 None 0 (key_isLarge k) = Some k'" "key_same k k'" "readable k'"
    using key_dup_own [OF assms] by blast
  then have "um_find key_same (cm_keys cm) k' = um_find key_same (cm_keys cm) k" by (metis keyed.find_cong)
  then show ?thesis using k' by (intro exI [of _ k']) (auto simp: insert_copy_def um_insert_def)
qed

text \<open>
  \<^verbatim>\<open>insertKey\<close> on the operations a heartbeat carries, as a function of the record the key has: the new
  record of the key, all other keys being left alone.
\<close>

definition new_record :: "OpMetadata option \<Rightarrow> OpMetadata \<Rightarrow> OpMetadata option" where
  "new_record old om =
     (case old of
        None \<Rightarrow> Some om
      | Some o1 \<Rightarrow> if om_opcode om = OPCODE_DELETE then None
                   else if om_timestamp o1 > om_timestamp om \<and> om_opcode o1 = OPCODE_DELETE then None
                   else Some om)"

definition records_known :: "Map \<Rightarrow> bool" where
  "records_known cm \<longleftrightarrow> (\<forall>(k, om) \<in> set (cm_keys cm). om_opcode om \<in> {OPCODE_SET, OPCODE_DEGRADED_SET, OPCODE_DELETE})"

lemma find_known:
  "records_known cm \<Longrightarrow> um_find key_same (cm_keys cm) k = Some om \<Longrightarrow>
     om_opcode om \<in> {OPCODE_SET, OPCODE_DEGRADED_SET, OPCODE_DELETE}"
  by (auto simp: records_known_def um_find_def find_Some_iff dest!: nth_mem)

lemma insertKey_switch_effect:
  assumes "readable k" and "key_bytes (key_size k) (key_isLarge k) < 256" and "records_known cm"
    and "om_opcode om \<in> {OPCODE_SET, OPCODE_DEGRADED_SET, OPCODE_DELETE}"
  shows "\<exists>cm'. insertKey_switch cm k om (om_opcode om) (om_timestamp om) = Some (True, cm') \<and> cm_chunks cm' = cm_chunks cm
    \<and> (\<forall>x. um_find key_same (cm_keys cm') x =
         (if key_same k x then new_record (um_find key_same (cm_keys cm) k) om else um_find key_same (cm_keys cm) x))
    \<and> (\<forall>x. um_find key_same (cm_lockedKeys cm') x =
         (if key_same k x \<and> um_find key_same (cm_keys cm) k = None then None else um_find key_same (cm_lockedKeys cm) x))"
proof (cases "um_find key_same (cm_keys cm) k")
  case None
  obtain k' cm' where c: "insert_copy cm k om = Some (True, cm')" "key_same k k'" "readable k'"
    "cm' = cm\<lparr>cm_keys := snd (um_insert key_same (cm_keys cm) k' om), cm_lockedKeys := um_erase key_same (cm_lockedKeys cm) k'\<rparr>"
    using insert_copy_runs [OF assms(1,2), of cm om] None by auto
  have s: "key_same k' x = key_same k x" for x
    using c(2) keyed.same_sym keyed.same_trans by blast
  have n: "um_find key_same (cm_keys cm) k' = None" using None c(2) keyed.find_cong by metis
  show ?thesis
    using assms(4) None c n
    by (auto simp: insertKey_switch_def keyed.find_insert keyed.find_erase s new_record_def)
next
  case (Some old)
  have f: "key_same k x \<Longrightarrow> um_find key_same (cm_keys cm) x = Some old" for x
    using Some keyed.find_cong by metis
  show ?thesis
    using find_known [OF assms(3) Some] assms(4) Some f
    by (auto simp: insertKey_switch_def keyed.find_assign keyed.find_erase new_record_def Let_def)
qed

lemma insertKey_runs:
  assumes "op_ok (k, om)" and "records_known cm" and "unat (md_listId om) < length st"
    and "om_opcode om \<in> {OPCODE_SET, OPCODE_DEGRADED_SET, OPCODE_DELETE}"
  shows "\<exists>cm' st'. insertKey cm st (key_isLarge k) (key_data k) (key_size k) (md_listId om) (md_stripeId om) (md_chunkId om)
      (om_opcode om) (om_timestamp om) = Some (True, cm', st') \<and> length st' = length st \<and> cm_chunks cm' = cm_chunks cm
    \<and> (\<forall>x. um_find key_same (cm_keys cm') x =
         (if key_same k x then new_record (um_find key_same (cm_keys cm) k) om else um_find key_same (cm_keys cm) x))
    \<and> (\<forall>x. um_find key_same (cm_lockedKeys cm') x =
         (if key_same k x \<and> um_find key_same (cm_keys cm) k = None then None else um_find key_same (cm_lockedKeys cm) x))"
proof -
  let ?k = "key_set (key_size k) (key_data k) 0 (key_isLarge k)"
  have rd: "readable ?k" "key_bytes (key_size ?k) (key_isLarge ?k) < 256"
    using assms(1) by (auto simp: op_ok_def readable_def)
  have "key_same k ?k" using key_same_self assms(1) by (simp add: op_ok_def)
  then have same: "key_same ?k x = key_same k x" "um_find key_same t ?k = um_find key_same t k" for x t
    using keyed.same_sym keyed.same_trans keyed.find_cong by metis+
  have om: "om_set (md_listId om) (md_stripeId om) (md_chunkId om) (om_opcode om) (om_timestamp om) = om"
    by (simp add: om_set_def)
  obtain b st' where u: "updateMaxStripeId st (md_listId om) (md_stripeId om) = Some (b, st')" "length st' = length st"
    using updateMaxStripeId_runs [OF assms(3)] by blast
  from insertKey_switch_effect [OF rd assms(2,4)] show ?thesis
    using u by (auto simp: insertKey_def om same)
qed

text \<open>The records stay known, and a map never holds a key both as recorded and as locked.\<close>

definition map_inv :: "Map \<Rightarrow> bool" where
  "map_inv cm \<longleftrightarrow> records_known cm \<and> um_unique key_same (cm_keys cm) \<and> um_unique key_same (cm_lockedKeys cm)
     \<and> (\<forall>(k, om) \<in> set (cm_keys cm). readable k) \<and> (\<forall>(k, u) \<in> set (cm_lockedKeys cm). readable k)
     \<and> (\<forall>k. um_find key_same (cm_keys cm) k = None \<or> um_find key_same (cm_lockedKeys cm) k = None)"

lemma um_insert_set: "set (snd (um_insert same t k v)) \<subseteq> insert (k, v) (set t)"
  by (auto simp: um_insert_def)

lemma um_assign_set: "(a, b) \<in> set (um_assign same t k v) \<Longrightarrow> (\<exists>b'. (a, b') \<in> set t) \<and> (b = v \<or> (a, b) \<in> set t)"
  by (auto simp: um_assign_def)

lemma um_erase_set: "set (um_erase same t k) \<subseteq> set t"
  by (auto simp: um_erase_def)

lemma insert_copy_inv:
  assumes "insert_copy cm k om = Some (b, cm')" and "map_inv cm" and "readable k" "key_bytes (key_size k) (key_isLarge k) < 256"
    and "om_opcode om \<in> {OPCODE_SET, OPCODE_DEGRADED_SET, OPCODE_DELETE}"
  shows "map_inv cm'"
proof -
  obtain k' where k': "key_same k k'" "readable k'"
    "cm' = cm\<lparr>cm_keys := snd (um_insert key_same (cm_keys cm) k' om), cm_lockedKeys := um_erase key_same (cm_lockedKeys cm) k'\<rparr>"
    using insert_copy_runs [OF assms(3,4), of cm om] assms(1) by auto
  have "records_known cm'" using assms(2,5) um_insert_set [of key_same "cm_keys cm" k' om] k'(3)
    by (auto simp: map_inv_def records_known_def)
  moreover have "um_unique key_same (cm_keys cm')" "um_unique key_same (cm_lockedKeys cm')"
    using assms(2) k'(3) by (simp_all add: map_inv_def keyed.insert_unique keyed.erase_unique)
  moreover have "\<forall>(k, om) \<in> set (cm_keys cm'). readable k" "\<forall>(k, u) \<in> set (cm_lockedKeys cm'). readable k"
    using assms(2) k'(2,3) um_insert_set [of key_same "cm_keys cm" k' om] um_erase_set [of key_same "cm_lockedKeys cm" k']
    by (auto simp: map_inv_def)
  moreover have "um_find key_same (cm_keys cm') x = None \<or> um_find key_same (cm_lockedKeys cm') x = None" for x
    using assms(2) k'(3) by (auto simp: map_inv_def keyed.find_insert keyed.find_erase)
  ultimately show ?thesis by (simp add: map_inv_def)
qed

lemma erase_inv: "map_inv cm \<Longrightarrow> map_inv (cm\<lparr>cm_keys := um_erase key_same (cm_keys cm) k\<rparr>)"
  using um_erase_set [of key_same "cm_keys cm" k]
  by (auto simp: map_inv_def records_known_def keyed.erase_unique keyed.find_erase)

lemma assign_inv:
  assumes "map_inv cm" and "om_opcode om \<in> {OPCODE_SET, OPCODE_DEGRADED_SET, OPCODE_DELETE}"
  shows "map_inv (cm\<lparr>cm_keys := um_assign key_same (cm_keys cm) k om\<rparr>)"
proof -
  have "records_known (cm\<lparr>cm_keys := um_assign key_same (cm_keys cm) k om\<rparr>)"
    using assms unfolding map_inv_def records_known_def by (auto dest!: um_assign_set)
  moreover have "\<forall>(x, om) \<in> set (um_assign key_same (cm_keys cm) k om). readable x"
    using assms unfolding map_inv_def by (auto dest!: um_assign_set)
  ultimately show ?thesis using assms
    by (auto simp: map_inv_def keyed.assign_unique keyed.find_assign)
qed

lemma lock_inv:
  assumes "map_inv cm" and "um_find key_same (cm_keys cm) k = None" and "key_same k k'" and "readable k'"
  shows "map_inv (cm\<lparr>cm_lockedKeys := snd (um_insert key_same (cm_lockedKeys cm) k' ())\<rparr>)"
proof -
  have "key_same k' x \<Longrightarrow> um_find key_same (cm_keys cm) x = None" for x
    using assms(2,3) keyed.find_cong by metis
  then show ?thesis using assms um_insert_set [of key_same "cm_lockedKeys cm" k' "()"]
    by (auto simp: map_inv_def records_known_def keyed.insert_unique keyed.find_insert)
qed

lemma insertKey_switch_inv:
  assumes "insertKey_switch cm k om (om_opcode om) ts = Some (b, cm')" and "map_inv cm"
    and "readable k" "key_bytes (key_size k) (key_isLarge k) < 256"
  shows "map_inv cm'"
proof (cases "um_find key_same (cm_keys cm) k")
  case None
  obtain k' where k': "key_dup k 0 None 0 (key_isLarge k) = Some k'" "key_same k k'" "readable k'"
    using key_dup_own [OF assms(3,4)] by blast
  show ?thesis using assms(1,2) None insert_copy_inv [OF _ assms(2,3,4)] lock_inv [OF assms(2) None k'(2,3)] k'(1)
    by (auto simp: insertKey_switch_def Let_def split: if_splits)
next
  case (Some old)
  show ?thesis using assms(1,2) Some erase_inv [OF assms(2)] assign_inv [OF assms(2)]
    by (auto simp: insertKey_switch_def Let_def split: if_splits)
qed

lemma insertKey_inv:
  assumes "insertKey cm st large d sz l s c opcode ts = Some (b, cm', st')" and "map_inv cm"
    and "key_bytes sz large \<le> length d" "key_bytes sz large < 256"
  shows "map_inv cm'"
proof -
  let ?om = "om_set l s c opcode ts"
  obtain b' where "insertKey_switch cm (key_set sz d 0 large) ?om opcode ts = Some (b', cm')"
    using assms(1) by (auto simp: insertKey_def bind_eq_Some_conv)
  moreover have "om_opcode ?om = opcode" by (simp add: om_set_def)
  ultimately show ?thesis
    using insertKey_switch_inv [of cm "key_set sz d 0 large" ?om ts b' cm'] assms(2,3,4) by (simp add: readable_def)
qed

lemma insert_op_runs:
  assumes "socket < length (co_maps co)" and "op_known stripeList co (k, om)" and "list_all map_inv (co_maps co)"
  shows "\<exists>co'. insert_op stripeList socket co (op_header k om) = Some co' \<and> length (co_stripes co') = length (co_stripes co)
    \<and> map cm_chunks (co_maps co') = map cm_chunks (co_maps co) \<and> list_all map_inv (co_maps co')
    \<and> co_syncMeta co' = co_syncMeta co \<and> co_synced co' = co_synced co"
proof -
  obtain s where s: "s < length (co_maps co)" "(if om_opcode om = OPCODE_DELETE
      then stripe_get stripeList (md_listId om) (md_chunkId om) else Some socket) = Some s"
    using assms(1,2) by (auto simp: op_known_def)
  have ok: "op_ok (k, om)" and known: "map_inv (co_maps co ! s)"
    using assms(2,3) s(1) by (auto simp: op_known_def list_all_length)
  obtain cm st where i: "insertKey (co_maps co ! s) (co_stripes co) (key_isLarge k) (key_data k) (key_size k) (md_listId om)
      (md_stripeId om) (md_chunkId om) (om_opcode om) (om_timestamp om) = Some (True, cm, st)"
      "length st = length (co_stripes co)" "cm_chunks cm = cm_chunks (co_maps co ! s)"
    using insertKey_runs [OF ok, of "co_maps co ! s" "co_stripes co"] assms(2) known
    unfolding op_known_def map_inv_def snd_conv by blast
  have "map_inv cm" using insertKey_inv [OF i(1) known] ok by (auto simp: op_ok_def readable_def)
  then have "list_all map_inv ((co_maps co)[s := cm])" using assms(3) set_update_subset_insert [of "co_maps co" s cm] by (auto simp: list_all_iff)
  moreover have "map cm_chunks ((co_maps co)[s := cm]) = map cm_chunks (co_maps co)"
    using i(3) s(1) by (metis list_update_id map_update nth_map)
  moreover have "insert_op stripeList socket co (op_header k om) = Some (co\<lparr>co_maps := (co_maps co)[s := cm], co_stripes := st\<rparr>)"
    unfolding insert_op_def op_header_fields s(2) using s(1) i(1) by simp
  ultimately show ?thesis using i(2) by simp
qed

lemma map_inv_chunks [simp]: "map_inv (cm\<lparr>cm_chunks := cs\<rparr>) = map_inv cm"
  by (simp add: map_inv_def records_known_def)

lemma insert_chunks_inv:
  "insert_chunks socket co mds = Some co' \<Longrightarrow> list_all map_inv (co_maps co) \<Longrightarrow> list_all map_inv (co_maps co')"
proof (induction mds arbitrary: co)
  case (Cons md mds)
  obtain b cm st where i: "socket < length (co_maps co)"
      "insertChunk (co_maps co ! socket) (co_stripes co) (md_listId md) (md_stripeId md) (md_chunkId md) = Some (b, cm, st)"
      "insert_chunks socket (co\<lparr>co_maps := (co_maps co)[socket := cm], co_stripes := st\<rparr>) mds = Some co'"
    using Cons.prems(1) by (auto simp: bind_eq_Some_conv split: if_splits)
  have "map_inv (co_maps co ! socket)" using Cons.prems(2) i(1) by (simp add: list_all_length)
  then have "map_inv cm"
    using i(2) by (auto simp: insertChunk_def bind_eq_Some_conv simp del: split_paired_All split: prod.splits)
  then have "list_all map_inv ((co_maps co)[socket := cm])"
    using Cons.prems(2) set_update_subset_insert [of "co_maps co" socket cm] by (auto simp: list_all_iff)
  then show ?case using Cons.IH [OF i(3)] by simp
qed simp

lemma insert_ops_runs:
  "socket < length (co_maps co) \<Longrightarrow> list_all (op_known stripeList co) ops \<Longrightarrow> list_all map_inv (co_maps co) \<Longrightarrow>
   \<exists>co'. insert_ops stripeList socket co ops = Some co' \<and> map cm_chunks (co_maps co') = map cm_chunks (co_maps co)
     \<and> list_all map_inv (co_maps co') \<and> co_syncMeta co' = co_syncMeta co \<and> co_synced co' = co_synced co"
proof (induction ops arbitrary: co)
  case (Cons e ops)
  obtain k om where e: "e = (k, om)" by (cases e)
  have known: "op_known stripeList co (k, om)" using Cons.prems(2) by (simp add: e)
  obtain co1 where c: "insert_op stripeList socket co (op_header k om) = Some co1"
      "length (co_stripes co1) = length (co_stripes co)" "map cm_chunks (co_maps co1) = map cm_chunks (co_maps co)"
      "list_all map_inv (co_maps co1)" "co_syncMeta co1 = co_syncMeta co" "co_synced co1 = co_synced co"
    using insert_op_runs [OF Cons.prems(1) known Cons.prems(3)] by blast
  have len: "length (co_maps co1) = length (co_maps co)" using c(3) by (metis length_map)
  have "list_all (op_known stripeList co1) ops"
    using Cons.prems(2) c(2) len by (auto simp: op_known_def list_all_iff)
  from Cons.IH [OF _ this c(4)] show ?case using c len Cons.prems(1) by (simp add: e)
qed simp

section \<open>The selection sort of degraded locks\<close>

lemma nth_rows: "i < n \<Longrightarrow> rows xs n ! i = row xs i"
  by (simp add: rows_def)

lemma length_rows [simp]: "length (rows xs n) = n"
  by (simp add: rows_def)

lemma row_aset2:
  assumes "2 * n \<le> length xs" and "i < n"
  shows "\<exists>xs'. aset2 xs i a b = Some xs' \<and> length xs' = length xs \<and> rows xs' n = (rows xs n)[i := (a, b)]"
proof -
  let ?xs = "(xs[i * 2 := a])[i * 2 + 1 := b]"
  have "aset2 xs i a b = Some ?xs" using assms by (simp add: aset2_def aset_def)
  moreover have "rows ?xs n = (rows xs n)[i := (a, b)]"
  proof (rule nth_equalityI)
    fix j assume "j < length (rows ?xs n)"
    then have j: "j < n" by simp
    have "i * 2 \<noteq> j * 2 + 1" "i * 2 + 1 \<noteq> j * 2" by presburger+
    then show "rows ?xs n ! j = (rows xs n)[i := (a, b)] ! j"
      using assms j by (auto simp: nth_rows nth_list_update row_def)
  qed simp
  ultimately show ?thesis by simp
qed

lemma swap_rows_spec:
  assumes "2 * n \<le> length xs" and "i < n" and "m < n"
  shows "\<exists>xs'. swap_rows xs i m = Some xs' \<and> length xs' = length xs
    \<and> rows xs' n = (rows xs n)[i := rows xs n ! m, m := rows xs n ! i]"
proof -
  obtain ys where ys: "aset2 xs i (xs ! (m * 2)) (xs ! (m * 2 + 1)) = Some ys" "length ys = length xs"
      "rows ys n = (rows xs n)[i := row xs m]"
    using row_aset2 [OF assms(1,2)] unfolding row_def by blast
  obtain zs where zs: "aset2 ys m (xs ! (i * 2)) (xs ! (i * 2 + 1)) = Some zs" "length zs = length ys"
      "rows zs n = (rows ys n)[m := row xs i]"
    using row_aset2 [of n ys m] assms ys(2) unfolding row_def by metis
  have "i * 2 + 1 < length xs" "m * 2 + 1 < length xs" using assms by simp_all
  then have "swap_rows xs i m = Some zs" using ys(1) zs(1) by (simp add: swap_rows_def aget_def)
  then show ?thesis using ys zs assms by (simp add: nth_rows)
qed

lemma min_index_spec:
  "2 * (j + k) \<le> length xs \<Longrightarrow> m < j \<Longrightarrow>
   \<exists>m'. min_index xs j k m = Some m' \<and> (m' = m \<or> j \<le> m' \<and> m' < j + k)
     \<and> snd (row xs m') \<le> snd (row xs m) \<and> (\<forall>b. j \<le> b \<and> b < j + k \<longrightarrow> snd (row xs m') \<le> snd (row xs b))"
proof (induction xs j k m rule: min_index.induct)
  case (2 xs j k m)
  let ?m = "if xs ! (j * 2 + 1) < xs ! (m * 2 + 1) then j else m"
  have ix: "aget xs (j * 2 + 1) = Some (xs ! (j * 2 + 1))" "aget xs (m * 2 + 1) = Some (xs ! (m * 2 + 1))"
    using 2(2,3) by (simp_all add: aget_def)
  obtain m' where m': "min_index xs (Suc j) k ?m = Some m'" "m' = ?m \<or> Suc j \<le> m' \<and> m' < Suc j + k"
      "snd (row xs m') \<le> snd (row xs ?m)" "\<forall>b. Suc j \<le> b \<and> b < Suc j + k \<longrightarrow> snd (row xs m') \<le> snd (row xs b)"
  proof -
    have "2 * (Suc j + k) \<le> length xs" "?m < Suc j" using 2(2,3) by simp_all
    from 2(1) [OF ix this] show ?thesis using that by blast
  qed
  have "snd (row xs ?m) \<le> snd (row xs m)" "snd (row xs ?m) \<le> snd (row xs j)" by (auto simp: row_def)
  then have "snd (row xs m') \<le> snd (row xs m)" "snd (row xs m') \<le> snd (row xs j)" using m'(3) by order+
  moreover have "\<forall>b. j \<le> b \<and> b < j + Suc k \<longrightarrow> snd (row xs m') \<le> snd (row xs b)"
    using m'(4) calculation(2) by (metis add_Suc_shift le_neq_implies_less less_eq_Suc_le)
  ultimately show ?case using m' ix by (auto split: if_splits)
qed auto

definition sorted_upto :: "u32 list \<Rightarrow> nat \<Rightarrow> nat \<Rightarrow> bool" where
  "sorted_upto xs i n \<longleftrightarrow> (\<forall>a < i. \<forall>b. a \<le> b \<and> b < n \<longrightarrow> snd (rows xs n ! a) \<le> snd (rows xs n ! b))"

lemma sorted_upto_step:
  assumes "sorted_upto xs i n" and "i \<le> m" and "m < n"
    and least: "\<forall>b. i \<le> b \<and> b < n \<longrightarrow> snd (rows xs n ! m) \<le> snd (rows xs n ! b)"
    and ys: "rows ys n = (rows xs n)[i := rows xs n ! m, m := rows xs n ! i]"
  shows "sorted_upto ys (Suc i) n"
  unfolding sorted_upto_def
proof (intro allI impI)
  fix a b assume a: "a < Suc i" and b: "a \<le> b \<and> b < n"
  have n: "rows ys n ! j = rows xs n ! (if j = m then i else if j = i then m else j)" if "j < n" for j
    using ys assms(2,3) that by (simp add: nth_list_update)
  show "snd (rows ys n ! a) \<le> snd (rows ys n ! b)"
  proof (cases "a < i")
    case True
    then show ?thesis using n [of a] n [of b] a b assms(1,2,3) unfolding sorted_upto_def by auto
  next
    case False
    then have "a = i" using a by simp
    then show ?thesis using n [of a] n [of b] b least assms(2,3) by auto
  qed
qed

lemma sort_loop_spec:
  "2 * (i + k) \<le> length xs \<Longrightarrow> 2 * (i + k) \<le> length ys \<Longrightarrow> sorted_upto xs i (i + k) \<Longrightarrow>
   \<exists>xs' ys'. sort_loop xs ys i k = Some (xs', ys') \<and> length xs' = length xs \<and> length ys' = length ys
     \<and> mset (zip (rows xs' (i + k)) (rows ys' (i + k))) = mset (zip (rows xs (i + k)) (rows ys (i + k)))
     \<and> sorted_upto xs' (i + k) (i + k)"
proof (induction xs ys i k rule: sort_loop.induct)
  case (2 xs ys i k)
  let ?n = "i + Suc k"
  obtain m where m: "min_index xs (Suc i) k i = Some m" "m = i \<or> Suc i \<le> m \<and> m < Suc i + k"
      "snd (row xs m) \<le> snd (row xs i)" "\<forall>b. Suc i \<le> b \<and> b < Suc i + k \<longrightarrow> snd (row xs m) \<le> snd (row xs b)"
    using min_index_spec [of "Suc i" k xs i] 2(2) by auto
  have mn: "i \<le> m" "m < ?n" "i < ?n" using m(2) by auto
  obtain xs1 where x1: "swap_rows xs i m = Some xs1" "length xs1 = length xs"
      "rows xs1 ?n = (rows xs ?n)[i := rows xs ?n ! m, m := rows xs ?n ! i]"
    using swap_rows_spec [OF 2(2) mn(3,2)] by blast
  obtain ys1 where y1: "swap_rows ys i m = Some ys1" "length ys1 = length ys"
      "rows ys1 ?n = (rows ys ?n)[i := rows ys ?n ! m, m := rows ys ?n ! i]"
    using swap_rows_spec [OF 2(3) mn(3,2)] by blast
  have least: "\<forall>b. i \<le> b \<and> b < ?n \<longrightarrow> snd (rows xs ?n ! m) \<le> snd (rows xs ?n ! b)"
    using m(3,4) mn by (metis Suc_leI add_Suc_shift le_neq_implies_less nth_rows)
  have "sorted_upto xs1 (Suc i) (Suc i + k)"
    using sorted_upto_step [OF 2(4) mn(1,2) least x1(3)] by simp
  then obtain xs' ys' where r: "sort_loop xs1 ys1 (Suc i) k = Some (xs', ys')" "length xs' = length xs" "length ys' = length ys"
      "mset (zip (rows xs' ?n) (rows ys' ?n)) = mset (zip (rows xs1 ?n) (rows ys1 ?n))" "sorted_upto xs' ?n ?n"
    using 2(1) [OF m(1) x1(1) y1(1)] 2(2,3) x1(2) y1(2) by auto
  have "zip (rows xs1 ?n) (rows ys1 ?n) = (zip (rows xs ?n) (rows ys ?n))[i := zip (rows xs ?n) (rows ys ?n) ! m, m := zip (rows xs ?n) (rows ys ?n) ! i]"
    using mn x1(3) y1(3) by (simp add: zip_update [symmetric])
  then have "mset (zip (rows xs1 ?n) (rows ys1 ?n)) = mset (zip (rows xs ?n) (rows ys ?n))"
    using mn mset_swap [of m "zip (rows xs ?n) (rows ys ?n)" i] by simp
  then show ?case using r m(1) x1(1) y1(1) by simp
qed (auto simp: sorted_upto_def)

section \<open>Capacity of the copied arrays\<close>

lemma aset2_Some: "aset2 xs i a b = Some xs' \<Longrightarrow> length xs' = length xs \<and> 2 * i + 1 < length xs"
  by (auto simp: aset2_def aset_def bind_eq_Some_conv split: if_splits)

lemma copy_rows_spec:
  "2 * (i + k) \<le> length src \<Longrightarrow> 2 * (i + k) \<le> length dst \<Longrightarrow> (\<forall>j < i. row dst j = row src j) \<Longrightarrow>
   \<exists>dst'. copy_rows src dst i k = Some dst' \<and> length dst' = length dst \<and> (\<forall>j < i + k. row dst' j = row src j)"
proof (induction src dst i k rule: copy_rows.induct)
  case (2 src dst i k)
  have ix: "aget src (i * 2) = Some (src ! (i * 2))" "aget src (i * 2 + 1) = Some (src ! (i * 2 + 1))"
    using 2(2) by (simp_all add: aget_def)
  obtain d1 where d1: "aset2 dst i (src ! (i * 2)) (src ! (i * 2 + 1)) = Some d1" "length d1 = length dst"
      "rows d1 (i + Suc k) = (rows dst (i + Suc k))[i := row src i]"
    using row_aset2 [OF 2(3), of i] unfolding row_def by auto
  have "row d1 j = row src j" if "j < Suc i" for j
  proof -
    have j: "j < i + Suc k" using that by simp
    have "row d1 j = (rows dst (i + Suc k))[i := row src i] ! j" using nth_rows [OF j, of d1] d1(3) by simp
    then show ?thesis using 2(4) that j by (auto simp: nth_list_update nth_rows)
  qed
  then obtain dst' where r: "copy_rows src d1 (Suc i) k = Some dst'" "length dst' = length d1" "\<forall>j < Suc i + k. row dst' j = row src j"
    using 2(1) [OF ix d1(1)] 2(2,3) d1(2) by auto
  then show ?case using ix d1 by simp
qed simp

lemma copy_rows_length: "copy_rows src dst i k = Some dst' \<Longrightarrow> length dst' = length dst"
proof (induction src dst i k rule: copy_rows.induct)
  case (2 src dst i k)
  then show ?case using aset2_Some by (fastforce simp: bind_eq_Some_conv)
qed simp

lemma add_rows_capacity:
  "add_rows listId handled redirected surviving i k original reconstructed ptr = Some r \<Longrightarrow>
     2 * (ptr + length (filter (\<lambda>j. of_nat j \<notin> set handled) [i..<i + k])) \<le> length original
     \<or> filter (\<lambda>j. of_nat j \<notin> set handled) [i..<i + k] = []"
proof (induction listId handled redirected surviving i k original reconstructed ptr arbitrary: r rule: add_rows.induct)
  case (2 listId handled redirected surviving i k original reconstructed ptr)
  have up: "[i..<i + Suc k] = i # [Suc i..<Suc i + k]" by (simp add: upt_rec [of i])
  show ?case
  proof (cases "of_nat i \<in> set handled")
    case True
    then show ?thesis using 2(1) 2(3) unfolding up by simp
  next
    case False
    with 2(3) obtain o1 r1 r2 where o1: "aset2 original ptr listId (of_nat i) = Some o1" "aset reconstructed (ptr * 2) listId = Some r1"
        "(case find (\<lambda>s. s \<notin> set redirected) surviving of None \<Rightarrow> Some r1 | Some s \<Rightarrow> aset r1 (ptr * 2 + 1) s) = Some r2"
        "add_rows listId handled redirected surviving (Suc i) k o1 r2 (Suc ptr) = Some r"
      by (auto simp: bind_eq_Some_conv)
    show ?thesis using 2(2) [OF False o1(1) o1(2) o1(3) o1(4)] aset2_Some [OF o1(1)] False unfolding up by auto
  qed
qed simp

lemma append_rows_capacity:
  "append_rows dst src is tmp = Some dst' \<Longrightarrow> 2 * (tmp + length is) \<le> length dst \<or> is = []"
proof (induction dst src "is" tmp rule: append_rows.induct)
  case (2 dst src i is' tmp)
  then obtain d where d: "aset2 dst tmp (fst (row src i)) (snd (row src i)) = Some d" "append_rows d src is' (Suc tmp) = Some dst'"
    by (auto simp: bind_eq_Some_conv)
  show ?case using 2(1) [OF d] aset2_Some [OF d(1)] by auto
qed simp

lemma unhandled_count:
  assumes "n \<le> 2 ^ 32"
  shows "n - length handled \<le> length (filter (\<lambda>j. of_nat j \<notin> set (handled :: u32 list)) [0..<n])"
proof -
  let ?P = "\<lambda>j. of_nat j \<in> set handled"
  have "inj_on (of_nat :: nat \<Rightarrow> u32) {j. j < n \<and> ?P j}"
  proof (rule inj_onI)
    fix a b assume "a \<in> {j. j < n \<and> ?P j}" "b \<in> {j. j < n \<and> ?P j}" "(of_nat a :: u32) = of_nat b"
    moreover from this have "a < 2 ^ LENGTH(32)" "b < 2 ^ LENGTH(32)" using assms by simp_all
    ultimately show "a = b" by (metis unat_of_nat_eq)
  qed
  then have "card {j. j < n \<and> ?P j} = card ((of_nat :: nat \<Rightarrow> u32) ` {j. j < n \<and> ?P j})" by (simp add: card_image)
  also have "\<dots> \<le> card (set handled)" by (rule card_mono) auto
  also have "\<dots> \<le> length handled" by (rule card_length)
  finally have "length (filter ?P [0..<n]) \<le> length handled"
    by (simp add: length_filter_conv_card cong: conj_cong)
  moreover have "length (filter ?P [0..<n]) + length (filter (\<lambda>j. \<not> ?P j) [0..<n]) = n"
    using sum_length_filter_compl [of ?P "[0..<n]"] by simp
  ultimately show ?thesis by linarith
qed

section \<open>Properties of heartbeats\<close>

text \<open>
  C24. A heartbeat reaches the coordinator's map: of the message a server generates, the coordinator
  parses exactly the sealed chunks and operations the server took off its queues, inserts each of
  them in order, marks every chunk sent as sealed, keeps the map invariant, and acknowledges
  the counts; the rest stays queued at the server, and the message says whether nothing was left.
\<close>

theorem heartbeat_delivered:
  assumes g: "generateHeartbeatMessage prS magic to opcode instanceId msgId timestamp sealed ops =
      Some (n, m, sealedCount, sealedLeft, opsCount, opsLeft, isCompleted)"
    and buf: "29 \<le> length (pr_send prS)" "n < 2 ^ 32" and sock: "socket < length (co_maps co)"
    and known: "list_all (chunk_known co) sealed" "list_all (op_known stripeList co) ops" and inv: "list_all map_inv (co_maps co)"
  shows "\<exists>co1 co2 co'. processHeartbeat prC stripeList co socket requestId (seg 16 (n - 16) m) (n - 16) p0 =
        Some (True, Some \<lparr>hb_timestamp = timestamp, hb_sealed = of_nat sealedCount, hb_keys = of_nat opsCount, hb_isLast = isCompleted\<rparr>, co')
      \<and> insert_chunks socket co (take sealedCount sealed) = Some co1
      \<and> insert_ops stripeList socket co1 (take opsCount ops) = Some co2
      \<and> co_maps co' = co_maps co2 \<and> co_stripes co' = co_stripes co2 \<and> list_all map_inv (co_maps co')
      \<and> (\<forall>md \<in> set (take sealedCount sealed). isSealed (co_maps co' ! socket) md)
      \<and> sealed = take sealedCount sealed @ sealedLeft \<and> ops = take opsCount ops @ opsLeft
      \<and> isCompleted = (sealedLeft = [] \<and> opsLeft = [])"
proof -
  let ?ms = "take sealedCount sealed" and ?os = "take opsCount ops"
  let ?body = "heartbeat_body timestamp ?ms ?os isCompleted"
  have rd: "\<forall>(key, om) \<in> set ops. readable key" using known(2) by (auto simp: list_all_iff op_known_def op_ok_def)
  note im = generateHeartbeat_image [OF g rd buf(1)]
  obtain r where m: "m = header_image prS magic to opcode (of_nat (n - 16)) instanceId msgId 0 False @ ?body @ r" using im by blast
  have len: "n - 16 = length ?body" using im by simp
  have sg: "seg 16 (n - 16) m = ?body" unfolding m by (rule seg_mid) (simp_all add: len)
  obtain co1 where co1: "insert_chunks socket co ?ms = Some co1" "length (co_maps co1) = length (co_maps co)"
      "length (co_stripes co1) = length (co_stripes co)"
      "\<forall>md. isSealed (co_maps co1 ! socket) md \<longleftrightarrow> isSealed (co_maps co ! socket) md \<or> (\<exists>x \<in> set ?ms. md_equal x md)"
    using insert_chunks_runs [OF sock, of ?ms] known(1) by (auto simp: list_all_iff dest: in_set_takeD)
  have inv1: "list_all map_inv (co_maps co1)" by (rule insert_chunks_inv [OF co1(1) inv])
  have "list_all (op_known stripeList co1) ?os"
    using known(2) co1(2,3) by (auto simp: list_all_iff op_known_def dest: in_set_takeD)
  then obtain co2 where co2: "insert_ops stripeList socket co1 ?os = Some co2"
      "map cm_chunks (co_maps co2) = map cm_chunks (co_maps co1)" "list_all map_inv (co_maps co2)"
    using insert_ops_runs [OF _ _ inv1] sock co1(2) by metis
  have ch: "cm_chunks (co_maps co2 ! socket) = cm_chunks (co_maps co1 ! socket)"
    using co2(2) sock co1(2) by (metis length_map nth_map)
  have sealedS: "\<forall>md \<in> set ?ms. isSealed (co_maps co2 ! socket) md"
  proof
    fix md assume "md \<in> set ?ms"
    then have "isSealed (co_maps co1 ! socket) md" using co1(4) by (auto simp: md_equal_def)
    then show "isSealed (co_maps co2 ! socket) md" by (simp add: isSealed_def ch)
  qed
  have counts: "length ?ms = sealedCount" "length ?os = opsCount" and lims: "sealedCount < 2 ^ 32" "opsCount < 2 ^ 32"
    using generateHeartbeat_counts [OF g rd buf(1)] buf(2) by simp_all
  have un: "unat (of_nat sealedCount :: u32) = sealedCount" "unat (of_nat opsCount :: u32) = opsCount"
    using lims by (auto intro!: unat_of_nat_eq)
  have okS: "list_all op_ok ?os" using known(2) by (auto simp: list_all_iff op_known_def dest: in_set_takeD)
  have d1: "drop 13 ?body = metadata_bytes ?ms @ ops_bytes ?os" by (simp add: heartbeat_body_def)
  have d2: "drop (13 + 12 * length ?ms) ?body = ops_bytes ?os @ []"
    using arg_cong [OF d1, of "drop (12 * length ?ms)"] by (simp add: add.commute)
  note r1 = hb_chunks_read [OF d1, unfolded counts]
    and r2 = hb_ops_read [OF d2 okS, unfolded counts]
  have hdr: "parseHeartbeatHeader prC h (Some ?body) (length ?body) 0 = Some (True, h\<lparr>hb_timestamp := timestamp,
      hb_sealed := of_nat sealedCount, hb_keys := of_nat opsCount, hb_isLast := isCompleted\<rparr>)" for h
    using counts by (simp add: parseHeartbeatHeader_def recv_args_def heartbeat_body_def read_simps of_bool_byte_def)
  obtain co' where co': "processHeartbeat prC stripeList co socket requestId ?body (length ?body) p0 =
        Some (True, Some \<lparr>hb_timestamp = timestamp, hb_sealed = of_nat sealedCount, hb_keys = of_nat opsCount, hb_isLast = isCompleted\<rparr>, co')"
      "co_maps co' = co_maps co2" "co_stripes co' = co_stripes co2"
    by (simp add: processHeartbeat_def hdr un r1 r2 co1(1) co2(1) Let_def case_prod_unfold)
  have rest: "sealed = ?ms @ sealedLeft" "ops = ?os @ opsLeft" "isCompleted = (sealedLeft = [] \<and> opsLeft = [])"
    using im append_take_drop_id [of sealedCount sealed] append_take_drop_id [of opsCount ops] by simp_all
  have "list_all map_inv (co_maps co')" "\<forall>md \<in> set ?ms. isSealed (co_maps co' ! socket) md"
    using co2(3) sealedS co'(2) by simp_all
  with co' co1(1) co2(1) rest show ?thesis unfolding sg unfolding len by blast
qed

definition sample_om :: OpMetadata where
  "sample_om = om_set 0 4 1 OPCODE_SET 8"

definition sample_key :: Key where
  "sample_key = key_set 2 [0x6b, 0x31] 0 False"

definition sample_coordinator :: coordinator where
  "sample_coordinator = \<lparr>co_maps = [\<lparr>cm_chunks = [], cm_keys = [], cm_lockedKeys = []\<rparr>], co_stripes = [0], co_syncMeta = [(77, 5)], co_synced = []\<rparr>"

definition sample_heartbeat :: memory where
  "sample_heartbeat =
     [57, 49, 0, 0, 0, 46, 0, 5, 0, 0, 0, 77, 0, 0, 0, 0, 0, 0, 0, 9, 0, 0, 0,
      1, 0, 0, 0, 1, 1, 0, 0, 0, 0, 0, 0, 0, 3, 0, 0, 0, 1, 2, 2, 0, 0, 0, 0,
      0, 0, 0, 4, 0, 0, 0, 1, 0, 0, 0, 8, 0, 107, 49, 0, 0]"

lemma sample_generated:
  "generateHeartbeatMessage (protocol_init (protocol_new ROLE_SERVER) 64) 1 0x20 0x31 5 77 9 [md_set 0 3 1] [(sample_key, sample_om)]
     = Some (62, sample_heartbeat, 1, [], 1, [], True)"
  by code_simp

lemma empty_map_inv: "map_inv \<lparr>cm_chunks = cs, cm_keys = [], cm_lockedKeys = []\<rparr>"
  by (simp add: map_inv_def records_known_def um_unique_def um_find_def)

theorem heartbeat_delivered_witness:
  "\<exists>co1 co2 co'. processHeartbeat (protocol_new ROLE_COORDINATOR) [[0, 0]] sample_coordinator 0 77 (seg 16 (62 - 16) sample_heartbeat) (62 - 16) 0 =
        Some (True, Some \<lparr>hb_timestamp = 9, hb_sealed = of_nat 1, hb_keys = of_nat 1, hb_isLast = True\<rparr>, co')
      \<and> insert_chunks 0 sample_coordinator (take 1 [md_set 0 3 1]) = Some co1
      \<and> insert_ops [[0, 0]] 0 co1 (take 1 [(sample_key, sample_om)]) = Some co2
      \<and> co_maps co' = co_maps co2 \<and> co_stripes co' = co_stripes co2 \<and> list_all map_inv (co_maps co')
      \<and> (\<forall>md \<in> set (take 1 [md_set 0 3 1]). isSealed (co_maps co' ! 0) md)
      \<and> [md_set 0 3 1] = take 1 [md_set 0 3 1] @ [] \<and> [(sample_key, sample_om)] = take 1 [(sample_key, sample_om)] @ []
      \<and> True = (([] :: Metadata list) = [] \<and> ([] :: (Key \<times> OpMetadata) list) = [])"
  by (rule heartbeat_delivered [OF sample_generated])
    (simp_all add: protocol_init_def sample_coordinator_def chunk_known_def md_set_def op_known_def op_ok_def readable_def
      sample_key_def sample_om_def om_set_def key_bytes_def empty_map_inv)

text \<open>
  What the coordinator records for a key: \<^verbatim>\<open>insertKey\<close> succeeds on every operation a heartbeat
  carries, touches no other key, drops the remapping lock of a key it inserts, keeps the map
  invariant, and sets the record of the key to \<^const>\<open>new_record\<close>: a DELETE removes an existing record
  and otherwise leaves a tombstone, a SET older than a tombstone removes it, and every other SET becomes
  the record.  In particular a SET replaces the record of a SET with a larger timestamp.
\<close>

theorem insert_key_effect:
  assumes "readable k" and "key_bytes (key_size k) (key_isLarge k) < 256" and "map_inv cm"
    and "unat (md_listId om) < length stripes" and "om_opcode om \<in> {OPCODE_SET, OPCODE_DEGRADED_SET, OPCODE_DELETE}"
  shows "\<exists>cm' stripes'. insertKey cm stripes (key_isLarge k) (key_data k) (key_size k) (md_listId om) (md_stripeId om)
        (md_chunkId om) (om_opcode om) (om_timestamp om) = Some (True, cm', stripes') \<and> map_inv cm' \<and> cm_chunks cm' = cm_chunks cm
    \<and> (\<forall>x. um_find key_same (cm_keys cm') x =
         (if key_same k x then new_record (um_find key_same (cm_keys cm) k) om else um_find key_same (cm_keys cm) x))
    \<and> (\<forall>x. um_find key_same (cm_lockedKeys cm') x =
         (if key_same k x \<and> um_find key_same (cm_keys cm) k = None then None else um_find key_same (cm_lockedKeys cm) x))"
proof -
  have ok: "op_ok (k, om)" using assms(1,2) by (simp add: op_ok_def)
  have "records_known cm" using assms(3) by (simp add: map_inv_def)
  from insertKey_runs [OF ok this assms(4,5)] obtain cm' st' where
    r: "insertKey cm stripes (key_isLarge k) (key_data k) (key_size k) (md_listId om) (md_stripeId om)
        (md_chunkId om) (om_opcode om) (om_timestamp om) = Some (True, cm', st')" "cm_chunks cm' = cm_chunks cm"
      "\<forall>x. um_find key_same (cm_keys cm') x =
         (if key_same k x then new_record (um_find key_same (cm_keys cm) k) om else um_find key_same (cm_keys cm) x)"
      "\<forall>x. um_find key_same (cm_lockedKeys cm') x =
         (if key_same k x \<and> um_find key_same (cm_keys cm) k = None then None else um_find key_same (cm_lockedKeys cm) x)"
    by blast
  have "map_inv cm'" using insertKey_inv [OF r(1) assms(3)] assms(1,2) by (simp add: readable_def)
  with r show ?thesis by blast
qed

theorem insert_key_effect_witness:
  "\<exists>cm' stripes'. insertKey \<lparr>cm_chunks = [], cm_keys = [], cm_lockedKeys = []\<rparr> [0] (key_isLarge sample_key) (key_data sample_key)
        (key_size sample_key) (md_listId sample_om) (md_stripeId sample_om) (md_chunkId sample_om) (om_opcode sample_om)
        (om_timestamp sample_om) = Some (True, cm', stripes') \<and> map_inv cm' \<and> um_find key_same (cm_keys cm') sample_key = Some sample_om"
proof -
  have rd: "readable sample_key" "key_bytes (key_size sample_key) (key_isLarge sample_key) < 256"
    by (simp_all add: sample_key_def readable_def key_bytes_def)
  then have same: "key_same sample_key sample_key" by (simp add: keyed.same_refl)
  have om: "unat (md_listId sample_om) < length [0 :: u32]" "om_opcode sample_om \<in> {OPCODE_SET, OPCODE_DEGRADED_SET, OPCODE_DELETE}"
    by (simp_all add: sample_om_def om_set_def)
  have "um_find key_same ([] :: (Key, OpMetadata) um) sample_key = None" by (simp add: um_find_def)
  then show ?thesis
    using insert_key_effect [OF rd empty_map_inv [of "[]"] om] same by (auto simp: new_record_def simp del: set_simps)
qed

section \<open>Properties of degraded locks\<close>

definition lock_rows :: "DegradedLock \<Rightarrow> ((u32 \<times> u32) \<times> (u32 \<times> u32)) list" where
  "lock_rows d = zip (rows (dl_original d) (unat (dl_reconstructedCount d))) (rows (dl_reconstructed d) (unat (dl_reconstructedCount d)))"

definition lock_ok :: "DegradedLock \<Rightarrow> bool" where
  "lock_ok d \<longleftrightarrow> dl_reconstructedCount d \<noteq> 0 \<and> 2 * unat (dl_reconstructedCount d) \<le> length (dl_original d)
     \<and> 2 * unat (dl_reconstructedCount d) \<le> length (dl_reconstructed d)"

lemma rows_cong: "(\<forall>j < n. row xs j = row ys j) \<Longrightarrow> rows xs n = rows ys n"
  by (simp add: rows_def)

lemma sorted_rows: "sorted_upto xs n n \<Longrightarrow> sorted (map snd (rows xs n))"
  by (auto simp: sorted_upto_def sorted_iff_nth_mono_less)

text \<open>
  The copy of a degraded lock: when every chunk of the stripe either survives or is already
  redirected, \<^verbatim>\<open>DegradedLock::dup\<close> gives the lock its own arrays with the same (original,
  redirected) rows, in ascending order of the original chunk id, and changes nothing else.
\<close>

theorem degraded_lock_dup_sorts:
  assumes "lock_ok d" and "chunkCount = ucast numSurviving + dl_reconstructedCount d" and "unat numSurviving + unat (dl_reconstructedCount d) < 2 ^ 32"
    and "2 * unat (dl_reconstructedCount d) < 2 ^ 32"
  shows "\<exists>d'. dl_dup junk d numSurviving surviving chunkCount = Some d' \<and> dl_reconstructedCount d' = dl_reconstructedCount d
    \<and> dl_ongoingAtChunk d' = dl_ongoingAtChunk d \<and> mset (lock_rows d') = mset (lock_rows d)
    \<and> sorted (map (snd \<circ> fst) (lock_rows d'))"
proof -
  let ?n = "unat (dl_reconstructedCount d)"
  let ?f = "replicate (2 * ?n) junk"
  have n: "0 < ?n" using assms(1) unat_gt_0 by (auto simp: lock_ok_def)
  have sz: "unat (dl_reconstructedCount d * 2) = 2 * ?n" using assms(4) by (simp add: unat_word_ariths(2) mult.commute)
  have "unat chunkCount = unat numSurviving + ?n" using assms(2,3) by (simp add: unat_plus_eq)
  then have cc: "0 < chunkCount" using n by (simp add: word_less_nat_alt)
  obtain xs where xs: "copy_rows (dl_original d) ?f 0 ?n = Some xs" "length xs = 2 * ?n" "\<forall>j < ?n. row xs j = row (dl_original d) j"
    using copy_rows_spec [of 0 ?n "dl_original d" ?f] assms(1) by (auto simp: lock_ok_def)
  obtain ys where ys: "copy_rows (dl_reconstructed d) ?f 0 ?n = Some ys" "length ys = 2 * ?n" "\<forall>j < ?n. row ys j = row (dl_reconstructed d) j"
    using copy_rows_spec [of 0 ?n "dl_reconstructed d" ?f] assms(1) by (auto simp: lock_ok_def)
  have "sorted_upto xs 0 (0 + ?n)" by (simp add: sorted_upto_def)
  then obtain xs' ys' where st: "sort_loop xs ys 0 ?n = Some (xs', ys')" "mset (zip (rows xs' ?n) (rows ys' ?n)) = mset (zip (rows xs ?n) (rows ys ?n))"
      "sorted_upto xs' ?n ?n"
    using sort_loop_spec [of 0 ?n xs ys] xs(2) ys(2) by auto
  have "aget (dl_original d) 0 = Some (dl_original d ! 0)" using assms(1) n by (auto simp: aget_def lock_ok_def)
  then have "dl_dup junk d numSurviving surviving chunkCount = Some (d\<lparr>dl_original := xs', dl_reconstructed := ys'\<rparr>)"
    using assms(1,2) cc by (simp add: dl_dup_def lock_ok_def sz xs(1) ys(1) dl_sort_def st(1))
  moreover have "mset (zip (rows xs' ?n) (rows ys' ?n)) = mset (lock_rows d)"
    using st(2) rows_cong [OF xs(3)] rows_cong [OF ys(3)] by (simp add: lock_rows_def)
  moreover have "map (snd \<circ> fst) (zip (rows xs' ?n) (rows ys' ?n)) = map snd (rows xs' ?n)"
    by (simp add: map_fst_zip flip: map_map)
  ultimately show ?thesis using sorted_rows [OF st(3)] by (simp add: lock_rows_def)
qed

lemma unat_add_le: "unat (a + b :: u32) \<le> unat a + unat b"
  by (simp add: unat_word_ariths(1))

lemma unat_mult2_le: "unat (a * 2 :: u32) \<le> 2 * unat a"
  using unat_add_le [of a a] by (simp add: mult_2_right)

definition sample_lock :: DegradedLock where
  "sample_lock = \<lparr>dl_original = [0, 2, 0, 1], dl_reconstructed = [0, 4, 0, 3], dl_reconstructedCount = 2, dl_ongoingAtChunk = 4\<rparr>"

theorem degraded_lock_dup_sorts_witness:
  "\<exists>d'. dl_dup 0 sample_lock 3 [0, 3, 4] 5 = Some d' \<and> dl_reconstructedCount d' = 2
    \<and> mset (lock_rows d') = {#((0, 2), (0, 4)), ((0, 1), (0, 3))#} \<and> sorted (map (snd \<circ> fst) (lock_rows d'))"
proof -
  have "lock_rows sample_lock = [((0, 2), (0, 4)), ((0, 1), (0, 3))]" by code_simp
  then show ?thesis
    using degraded_lock_dup_sorts [of sample_lock 5 3 0 "[0, 3, 4]"] by (auto simp: sample_lock_def lock_ok_def add_mset_commute)
qed

text \<open>
  A degraded lock with chunks still to redirect overflows its arrays: when some chunk of the stripe
  neither survives nor is redirected, the assertion of \<^verbatim>\<open>dup\<close> holds, but the arrays
  it allocates have one word per new entry where each entry takes two, and the run leaves them.
\<close>

theorem degraded_lock_dup_overflows:
  assumes "lock_ok d" and "unat numSurviving \<le> length surviving" and "unat numSurviving + unat (dl_reconstructedCount d) < unat chunkCount"
  shows "chunkCount - ucast numSurviving - dl_reconstructedCount d < chunkCount \<and> dl_dup junk d numSurviving surviving chunkCount = None"
proof -
  let ?n = "unat (dl_reconstructedCount d)" and ?new = "chunkCount - ucast numSurviving - dl_reconstructedCount d"
  let ?s = "take (unat numSurviving) surviving"
  let ?h = "chunk_ids (dl_original d) ?n @ ?s"
  have "unat (chunkCount - ucast numSurviving) = unat chunkCount - unat numSurviving"
    using assms(3) by (subst unat_minus_eq) simp_all
  then have new: "unat ?new = unat chunkCount - unat numSurviving - ?n" using assms(3) by (subst unat_minus_eq) simp_all
  have n: "0 < ?n" using assms(1) unat_gt_0 by (auto simp: lock_ok_def)
  have less: "?new < chunkCount" using new n assms(3) by (simp add: word_less_nat_alt)
  have pos: "?new \<noteq> 0" using new assms(3) unat_eq_zero [of ?new] by auto
  let ?u = "filter (\<lambda>j. of_nat j \<notin> set ?h) [0..<unat chunkCount]"
  have "length ?h = ?n + unat numSurviving" using assms(2) by (simp add: chunk_ids_def)
  then have u: "unat ?new \<le> length ?u"
    using unhandled_count [of "unat chunkCount" ?h] unat_u32_less [of chunkCount] new by simp
  have cap: "unat (dl_reconstructedCount d * 2 + ?new) \<le> 2 * ?n + unat ?new"
    using unat_add_le [of "dl_reconstructedCount d * 2" ?new] unat_mult2_le [of "dl_reconstructedCount d"] by linarith
  have "add_rows l ?h r ?s 0 (unat chunkCount) xs ys ?n = None"
    if "length xs = unat (dl_reconstructedCount d * 2 + ?new)" for l r xs ys
  proof (rule ccontr)
    assume "add_rows l ?h r ?s 0 (unat chunkCount) xs ys ?n \<noteq> None"
    then obtain z where "add_rows l ?h r ?s 0 (unat chunkCount) xs ys ?n = Some z" by blast
    from add_rows_capacity [OF this] have "2 * (?n + length ?u) \<le> length xs \<or> ?u = []" by simp
    then show False using u cap that pos new n unat_eq_zero [of ?new] by auto
  qed
  note add = this
  have "copy_rows src (replicate (unat (dl_reconstructedCount d * 2 + ?new)) junk) 0 ?n = Some xs \<Longrightarrow>
      length xs = unat (dl_reconstructedCount d * 2 + ?new)" for src xs
    using copy_rows_length by fastforce
  with add have "dl_dup junk d numSurviving surviving chunkCount = None"
    using assms(1,2) pos by (auto simp: dl_dup_def lock_ok_def Let_def split: Option.bind_split)
  with less show ?thesis by simp
qed

theorem degraded_lock_dup_overflows_witness: "dl_dup 0 sample_lock 3 [0, 3, 4] 6 = None"
  using degraded_lock_dup_overflows [of sample_lock 3 "[0, 3, 4]" 6 0] by (simp add: sample_lock_def lock_ok_def)

text \<open>
  Growing a degraded lock overflows its arrays: \<^verbatim>\<open>DegradedLock::expand\<close> with an entry the lock does not
  have yet allocates one word per entry, copies two words per existing entry and appends
  two per new one, so the run always leaves the arrays; with no such entry the lock stays as it is.
\<close>

theorem degraded_lock_expand_overflows:
  assumes "lock_ok d" and "reconstructedCount \<noteq> 0" and "2 * unat reconstructedCount \<le> length original"
    and "2 * unat reconstructedCount \<le> length reconstructed"
  shows "dl_expand junk d original reconstructed reconstructedCount ongoing numSurviving surviving chunkCount =
    (if set (rows original (unat reconstructedCount)) \<subseteq> set (rows (dl_original d) (unat (dl_reconstructedCount d))) then Some d else None)"
proof -
  let ?new = "new_rows d original (unat reconstructedCount)" and ?n = "unat (dl_reconstructedCount d)"
  let ?total = "of_nat (length ?new) + dl_reconstructedCount d"
  have nil: "?new = [] \<longleftrightarrow> set (rows original (unat reconstructedCount)) \<subseteq> set (rows (dl_original d) ?n)"
    by (auto simp: new_rows_def filter_empty_conv rows_def)
  have n: "0 < ?n" using assms(1) unat_gt_0 by (auto simp: lock_ok_def)
  have "unat (of_nat (length ?new) :: u32) \<le> length ?new" by (simp add: unat_of_nat)
  then have total: "unat ?total \<le> length ?new + ?n" using unat_add_le [of "of_nat (length ?new)" "dl_reconstructedCount d"] by linarith
  have app: "append_rows xs src ?new ?n = None" if "?new \<noteq> []" "length xs = unat ?total" for xs src
    using append_rows_capacity [of xs src ?new ?n] that total n by (cases "append_rows xs src ?new ?n") auto
  have cp: "copy_rows src (replicate (unat ?total) junk) 0 ?n = Some xs \<Longrightarrow> length xs = unat ?total" for src xs
    using copy_rows_length by fastforce
  show ?thesis
  proof (cases "?new = []")
    case True
    then show ?thesis using assms nil by (simp add: dl_expand_def lock_ok_def Let_def)
  next
    case False
    then show ?thesis using assms nil app [OF False] cp
      by (auto simp: dl_expand_def lock_ok_def Let_def split: Option.bind_split)
  qed
qed

theorem degraded_lock_expand_overflows_witness:
  "dl_expand 0 sample_lock [0, 5] [0, 0] 1 5 3 [0, 3, 4] 6 = None \<and> dl_expand 0 sample_lock [0, 1] [0, 0] 1 5 3 [0, 3, 4] 6 = Some sample_lock"
proof -
  have "rows [0, 5] 1 = [(0, 5)]" "rows [0, 1] 1 = [(0, 1)]" "rows (dl_original sample_lock) (unat (dl_reconstructedCount sample_lock)) = [(0, 2), (0, 1)]"
    by code_simp+
  then show ?thesis
    using degraded_lock_expand_overflows [of sample_lock 1 "[0, 5]" "[0, 0]" 0 5 3 "[0, 3, 4]" 6]
      degraded_lock_expand_overflows [of sample_lock 1 "[0, 1]" "[0, 0]" 0 5 3 "[0, 3, 4]" 6]
    by (simp add: lock_ok_def) (simp add: sample_lock_def)
qed

end
