(* ===== verification/Loops.thy ===== *)
theory Loops
  imports Prelude
begin

text \<open>
  Counted loops over a state that a step may leave undefined: \<^verbatim>\<open>for ( i = 0; i < n; i++ )\<close> is a fold over
  \<open>[0..<n]\<close>, and an iteration that executes \<^verbatim>\<open>continue\<close> returns the state as it is.  The rule
  \<open>foldM_upt_inv\<close> is the proof rule of such a loop; it shows that the loop ends in a defined state.
  The exclusive or of words gets its big operator here, the reference of the parity computations.
\<close>

section \<open>Folds in the option monad\<close>

text \<open>Reading an array element; outside the array there is no value.\<close>

definition item_at :: "'a list \<Rightarrow> nat \<Rightarrow> 'a option" where
  "item_at xs i = (if i < length xs then Some (xs ! i) else None)"

fun foldM :: "('a \<Rightarrow> 's \<Rightarrow> 's option) \<Rightarrow> 'a list \<Rightarrow> 's \<Rightarrow> 's option" where
  "foldM f [] s = Some s"
| "foldM f (x # xs) s = do { s \<leftarrow> f x s; foldM f xs s }"

lemma foldM_append: "foldM f (xs @ ys) s = foldM f xs s \<bind> foldM f ys"
proof (induction xs arbitrary: s)
  case (Cons x xs)
  then show ?case by (cases "f x s") auto
qed simp

lemma foldM_upt_inv:
  assumes "P 0 s" and "\<And>i s. i < n \<Longrightarrow> P i s \<Longrightarrow> \<exists>s'. f i s = Some s' \<and> P (Suc i) s'"
  shows "\<exists>s'. foldM f [0..<n] s = Some s' \<and> P n s'"
  using assms(2)
proof (induction n)
  case (Suc n)
  then obtain s1 where s1: "foldM f [0..<n] s = Some s1" "P n s1" by (metis less_SucI)
  obtain s2 where "f n s1 = Some s2" "P (Suc n) s2" using Suc.prems [of n s1] s1(2) by blast
  with s1(1) show ?case by (auto simp: foldM_append)
qed (simp add: assms(1))

lemma foldM_cong: "(\<And>x s. x \<in> set xs \<Longrightarrow> f x s = g x s) \<Longrightarrow> foldM f xs s = foldM g xs s"
proof (induction xs arbitrary: s)
  case (Cons x xs)
  then show ?case by (cases "g x s") auto
qed simp

section \<open>Exclusive or over finite sets\<close>

interpretation xors: comm_monoid_set "(XOR)" "0 :: 8 word"
  by unfold_locales

abbreviation xsum :: "('i \<Rightarrow> byte) \<Rightarrow> 'i set \<Rightarrow> byte" where
  "xsum \<equiv> xors.F"

lemma xsum_insert: "finite A \<Longrightarrow> x \<notin> A \<Longrightarrow> xsum f (insert x A) = f x XOR xsum f A"
  by (rule xors.insert)

lemma xsum_remove: "finite A \<Longrightarrow> x \<in> A \<Longrightarrow> xsum f A = f x XOR xsum f (A - {x})"
  by (rule xors.remove)

lemma xor_cancel_left [simp]: "(x :: 'a::ring_bit_operations) XOR (x XOR y) = y"
  by (simp flip: xor.assoc)

lemma xor_cancel_right [simp]: "(y XOR x) XOR (x :: 'a::ring_bit_operations) = y"
  by (simp add: xor.assoc)

lemma xor_eq_iff: "x XOR y = z \<longleftrightarrow> x = z XOR (y :: 'a::ring_bit_operations)"
  by auto

lemma xsum_solve: "finite A \<Longrightarrow> x \<in> A \<Longrightarrow> xsum f A = s \<Longrightarrow> f x = s XOR xsum f (A - {x})"
  using xsum_remove [of A x f] by auto

end
