(* ===== verification/Coding.thy ===== *)
theory Coding
  imports Loops BitmaskArray Chunk
begin

unbundle bit_operations_syntax

text \<open>
  The coding layer of \<^verbatim>\<open>common/coding\<close>: parameters of the schemes, striping (RAID-0), replication (RAID-1) and
  single parity (RAID-5), and \<^verbatim>\<open>Coding::forceSeal\<close>.  A stripe is the list of its chunks, data chunks first;
  a chunk is its whole memory, the 8-byte identifier followed by the data area.  Positions inside a
  stripe are natural numbers: a stripe is smaller than four gigabytes.
\<close>

section \<open>Schemes and parameters\<close>

datatype CodingScheme = CS_UNDEFINED | CS_RAID0 | CS_RAID1 | CS_RAID5 | CS_RS | CS_RDP | CS_EVENODD | CS_CAUCHY

record CodingParams =
  cpa_scheme :: CodingScheme
  cpa_params :: "u32 list"

definition cpa_new :: CodingParams where
  "cpa_new = \<lparr>cpa_scheme = CS_UNDEFINED, cpa_params = [0, 0, 0]\<rparr>"

definition cpa_set :: "CodingParams \<Rightarrow> nat \<Rightarrow> u32 \<Rightarrow> CodingParams" where
  "cpa_set c i v = c\<lparr>cpa_params := (cpa_params c)[i := v]\<rparr>"

definition setScheme :: "CodingParams \<Rightarrow> CodingScheme \<Rightarrow> CodingParams" where
  "setScheme c s = c\<lparr>cpa_scheme := s\<rparr>"

definition setN :: "CodingParams \<Rightarrow> u32 \<Rightarrow> CodingParams" where
  "setN c n = (if cpa_scheme c \<in> {CS_RAID0, CS_RAID1, CS_RAID5, CS_RDP, CS_EVENODD} then cpa_set c 0 n else c)"

definition setK :: "CodingParams \<Rightarrow> u32 \<Rightarrow> CodingParams" where
  "setK c k = (if cpa_scheme c \<in> {CS_RS, CS_CAUCHY} then cpa_set c 0 k else c)"

definition setM :: "CodingParams \<Rightarrow> u32 \<Rightarrow> CodingParams" where
  "setM c m = (if cpa_scheme c \<in> {CS_RS, CS_CAUCHY} then cpa_set c 1 m else c)"

definition setW :: "CodingParams \<Rightarrow> u32 \<Rightarrow> CodingParams" where
  "setW c w = (if cpa_scheme c \<in> {CS_RS, CS_CAUCHY} then cpa_set c 2 w else c)"

definition getN :: "CodingParams \<Rightarrow> u32" where
  "getN c = (if cpa_scheme c \<in> {CS_RAID0, CS_RAID1, CS_RAID5, CS_RDP, CS_EVENODD} then cpa_params c ! 0 else 0)"

definition getK :: "CodingParams \<Rightarrow> u32" where
  "getK c = (if cpa_scheme c = CS_RAID5 then cpa_params c ! 0 - 1
     else if cpa_scheme c \<in> {CS_RDP, CS_EVENODD} then cpa_params c ! 0 - 2
     else if cpa_scheme c \<in> {CS_RS, CS_CAUCHY} then cpa_params c ! 0 else 0)"

definition getM :: "CodingParams \<Rightarrow> u32" where
  "getM c = (if cpa_scheme c \<in> {CS_RS, CS_CAUCHY} then cpa_params c ! 1 else 0)"

definition getW :: "CodingParams \<Rightarrow> u32" where
  "getW c = (if cpa_scheme c \<in> {CS_RS, CS_CAUCHY} then cpa_params c ! 2 else 0)"

definition getDataChunkCount :: "CodingParams \<Rightarrow> u32" where
  "getDataChunkCount c = (case cpa_scheme c of
       CS_RAID0 \<Rightarrow> getN c | CS_RAID1 \<Rightarrow> 1 | CS_RAID5 \<Rightarrow> getN c - 1 | CS_RS \<Rightarrow> getK c
     | CS_RDP \<Rightarrow> getN c - 2 | CS_EVENODD \<Rightarrow> getN c - 2 | CS_CAUCHY \<Rightarrow> getK c | CS_UNDEFINED \<Rightarrow> 0)"

definition getParityChunkCount :: "CodingParams \<Rightarrow> u32" where
  "getParityChunkCount c = (case cpa_scheme c of
       CS_RAID0 \<Rightarrow> 0 | CS_RAID1 \<Rightarrow> getN c - 1 | CS_RAID5 \<Rightarrow> 1 | CS_RS \<Rightarrow> getM c
     | CS_RDP \<Rightarrow> 2 | CS_EVENODD \<Rightarrow> 2 | CS_CAUCHY \<Rightarrow> getM c | CS_UNDEFINED \<Rightarrow> 0)"

definition getChunkCount :: "CodingParams \<Rightarrow> u32" where
  "getChunkCount c = getDataChunkCount c + getParityChunkCount c"

section \<open>Stripes\<close>

text \<open>XOR of a range of one chunk's data into another chunk: \<^verbatim>\<open>bitwiseXOR\<close> with the target as one operand.\<close>

definition xor_data :: "memory \<Rightarrow> nat \<Rightarrow> memory \<Rightarrow> nat \<Rightarrow> nat \<Rightarrow> memory option" where
  "xor_data dst doff src soff len = bitwiseXOR_self dst (cu_getData 0 + doff) src (cu_getData 0 + soff) (of_nat len)"

definition xor_chunk :: "memory list \<Rightarrow> nat \<Rightarrow> nat \<Rightarrow> nat \<Rightarrow> nat \<Rightarrow> nat \<Rightarrow> memory list option" where
  "xor_chunk cs t toff s soff len =
     do { dst \<leftarrow> item_at cs t; src \<leftarrow> item_at cs s; dst \<leftarrow> xor_data dst toff src soff len; Some (cs[t := dst]) }"

text \<open>
  The scan of the bitmap for lost chunks: the indices found, or \<open>None\<close> inside when more than \<open>lim\<close>
  chunks are lost and the caller returns \<^verbatim>\<open>false\<close> at once.
\<close>

fun scan_lost :: "BitmaskArray \<Rightarrow> nat \<Rightarrow> nat \<Rightarrow> nat \<Rightarrow> nat list \<Rightarrow> nat list option option" where
  "scan_lost bm lim i 0 lost = Some (Some lost)"
| "scan_lost bm lim i (Suc k) lost =
     do { v \<leftarrow> bm_check1 bm i;
          if v then scan_lost bm lim (Suc i) k lost
          else if length lost < lim then scan_lost bm lim (Suc i) k (lost @ [i])
          else Some None }"

section \<open>RAID-0, RAID-1, RAID-5\<close>

definition raid0_encode :: "memory list \<Rightarrow> memory \<Rightarrow> memory option" where
  "raid0_encode data parity = Some parity"

definition raid0_decode :: "nat \<Rightarrow> memory list \<Rightarrow> BitmaskArray \<Rightarrow> (bool \<times> memory list) option" where
  "raid0_decode n cs bm = do { r \<leftarrow> scan_lost bm 0 0 n []; Some (r \<noteq> None, cs) }"

text \<open>\<^verbatim>\<open>memcpy\<close> of the used part of a chunk; RAID-1 has one data chunk.\<close>

definition copy_data :: "u32 \<Rightarrow> memory \<Rightarrow> memory \<Rightarrow> memory option" where
  "copy_data cs dst src = do { sz \<leftarrow> cu_getSize cs 1 False src 0; bs \<leftarrow> peek src (cu_getData 0) (unat sz); poke dst (cu_getData 0) bs }"

definition raid1_encode :: "u32 \<Rightarrow> memory list \<Rightarrow> memory \<Rightarrow> memory option" where
  "raid1_encode cs data parity = do { src \<leftarrow> item_at data 0; copy_data cs parity src }"

fun first_present :: "BitmaskArray \<Rightarrow> nat \<Rightarrow> nat \<Rightarrow> nat option option" where
  "first_present bm i 0 = Some None"
| "first_present bm i (Suc k) = do { v \<leftarrow> bm_check1 bm i; if v then Some (Some i) else first_present bm (Suc i) k }"

definition raid1_decode :: "u32 \<Rightarrow> nat \<Rightarrow> memory list \<Rightarrow> BitmaskArray \<Rightarrow> (bool \<times> memory list) option" where
  "raid1_decode cs n chunks bm =
     do { s \<leftarrow> first_present bm 0 n;
          case s of
            None \<Rightarrow> Some (False, chunks)
          | Some s \<Rightarrow>
              do { chunks \<leftarrow> foldM (\<lambda>i chunks.
                     do { v \<leftarrow> bm_check1 bm i;
                          if v then Some chunks
                          else do { dst \<leftarrow> item_at chunks i; src \<leftarrow> item_at chunks s; dst \<leftarrow> copy_data cs dst src;
                                    Some (chunks[i := dst]) } }) [0..<n] chunks;
                   Some (True, chunks) } }"

definition raid5_encode :: "nat \<Rightarrow> nat \<Rightarrow> memory list \<Rightarrow> memory \<Rightarrow> memory option" where
  "raid5_encode chunkSize n data parity =
     foldM (\<lambda>i parity. do { src \<leftarrow> item_at data i; xor_data parity 0 src 0 chunkSize }) [0..<n - 1] parity"

text \<open>With no lost chunk the index stays 0 and chunk 0 is overwritten.\<close>

definition raid5_decode :: "nat \<Rightarrow> nat \<Rightarrow> memory list \<Rightarrow> BitmaskArray \<Rightarrow> (bool \<times> memory list) option" where
  "raid5_decode chunkSize n chunks bm =
     do { r \<leftarrow> scan_lost bm 1 0 n [];
          case r of
            None \<Rightarrow> Some (False, chunks)
          | Some lost \<Rightarrow>
              do { let lostIndex = (case lost of [] \<Rightarrow> 0 | l # _ \<Rightarrow> l);
                   chunks \<leftarrow> foldM (\<lambda>i chunks. if i = lostIndex then Some chunks else xor_chunk chunks lostIndex 0 i 0 chunkSize) [0..<n] chunks;
                   Some (True, chunks) } }"

section \<open>Sealing the parity chunks of a stripe\<close>

text \<open>
  \<^verbatim>\<open>Coding::forceSeal\<close>.  A missing chunk (a null pointer) is \<open>None\<close>; the rows of \<open>ind\<close> are the seal indicators
  that the parity servers report and, last, the ones of the data servers.  \<open>enc\<close> is the \<^verbatim>\<open>encode\<close> method
  of the scheme in use: data chunks, parity buffer, parity number, start and end offset.  A failed
  \<^verbatim>\<open>assert\<close> and a null pointer given to \<open>enc\<close> have no result.
\<close>

type_synonym encoder = "memory list \<Rightarrow> memory \<Rightarrow> nat \<Rightarrow> nat \<Rightarrow> nat \<Rightarrow> memory option"

definition indicator_at :: "bool list list \<Rightarrow> nat \<Rightarrow> nat \<Rightarrow> bool option" where
  "indicator_at ind i j = item_at ind i \<bind> (\<lambda>row. item_at row j)"

definition set_indicator :: "bool list list \<Rightarrow> nat \<Rightarrow> nat \<Rightarrow> bool \<Rightarrow> bool list list" where
  "set_indicator ind i j v = ind[i := (ind ! i)[j := v]]"

definition seal_votes :: "memory option list \<Rightarrow> bool list list \<Rightarrow> nat \<Rightarrow> nat \<Rightarrow> nat \<Rightarrow> (nat \<times> nat \<times> int) option" where
  "seal_votes chunks ind d m j =
     foldM (\<lambda>i (count, total, indicator).
         do { c \<leftarrow> item_at chunks (i + d);
              case c of
                None \<Rightarrow> Some (count, total, indicator)
              | Some _ \<Rightarrow> do { v \<leftarrow> indicator_at ind i j; Some (count + of_bool v, total + 1, of_bool v) } })
       [0..<m] (0, 0, -1)"

definition follow_parity :: "memory \<Rightarrow> nat \<Rightarrow> nat \<Rightarrow> nat \<Rightarrow> memory option list \<times> bool list list \<Rightarrow> (memory option list \<times> bool list list) option" where
  "follow_parity zeros d m j = (\<lambda>(chunks, ind).
     do { (count, total, indicator) \<leftarrow> seal_votes chunks ind d m j;
          v \<leftarrow> indicator_at ind m j;
          if (count = 0 \<or> count = total) \<and> indicator \<noteq> of_bool v
          then if v then Some (chunks[j := Some zeros], set_indicator ind m j False) else None
          else Some (chunks, ind) })"

definition seal_one :: "encoder \<Rightarrow> nat \<Rightarrow> memory \<Rightarrow> nat \<Rightarrow> nat \<Rightarrow> nat \<Rightarrow> memory \<Rightarrow> memory \<Rightarrow> memory option list \<Rightarrow> (memory option list \<times> memory) option" where
  "seal_one enc chunkSize zeros d i j tmp parity chunks =
     do { tmpChunks \<leftarrow> foldM (\<lambda>k tmpChunks.
            do { c \<leftarrow> (if k = j then item_at chunks j else Some (Some zeros)); c \<leftarrow> c; Some (tmpChunks @ [c]) }) [0..<d] [];
          tmp \<leftarrow> poke tmp 0 (replicate (8 + chunkSize) 0);
          tmp \<leftarrow> enc tmpChunks tmp i 0 chunkSize;
          parity \<leftarrow> xor_data parity 0 tmp 0 chunkSize;
          Some (chunks[i + d := Some parity], tmp) }"

definition follow_data :: "encoder \<Rightarrow> nat \<Rightarrow> memory \<Rightarrow> nat \<Rightarrow> nat \<Rightarrow> nat \<Rightarrow> nat \<Rightarrow>
    memory option list \<times> bool list list \<times> memory \<times> nat \<Rightarrow> (memory option list \<times> bool list list \<times> memory \<times> nat) option" where
  "follow_data enc chunkSize zeros d m i j = (\<lambda>(chunks, ind, tmp, fixedDataCount).
     do { u \<leftarrow> indicator_at ind i j;
          v \<leftarrow> indicator_at ind m j;
          if u \<noteq> v
          then if v then do { c \<leftarrow> item_at chunks (i + d); parity \<leftarrow> c;
                              (chunks, tmp) \<leftarrow> seal_one enc chunkSize zeros d i j tmp parity chunks;
                              Some (chunks, set_indicator ind i j True, tmp, fixedDataCount + 1) }
               else None
          else Some (chunks, ind, tmp, fixedDataCount) })"

definition forceSeal :: "encoder \<Rightarrow> nat \<Rightarrow> memory \<Rightarrow> memory option list \<Rightarrow> memory \<Rightarrow> bool list list \<Rightarrow> nat \<Rightarrow> nat \<Rightarrow>
    (memory option list \<times> bool list list \<times> memory \<times> nat) option" where
  "forceSeal enc chunkSize zeros chunks tmp ind d m =
     do { (chunks, ind) \<leftarrow> foldM (follow_parity zeros d m) [0..<d] (chunks, ind);
          foldM (\<lambda>i (chunks, ind, tmp, fixedDataCount).
              do { c \<leftarrow> item_at chunks (i + d);
                   case c of
                     None \<Rightarrow> Some (chunks, ind, tmp, fixedDataCount)
                   | Some _ \<Rightarrow> foldM (follow_data enc chunkSize zeros d m i) [0..<d] (chunks, ind, tmp, fixedDataCount) })
            [0..<m] (chunks, ind, tmp, 0) }"

section \<open>Chunks as vectors of bytes\<close>

definition dbyte :: "memory \<Rightarrow> nat \<Rightarrow> byte" where
  "dbyte m b = m ! (8 + b)"

definition chunk_ok :: "nat \<Rightarrow> memory \<Rightarrow> bool" where
  "chunk_ok chunkSize m \<longleftrightarrow> length m = 8 + chunkSize"

lemma chunk_eqI:
  assumes "chunk_ok chunkSize m" and "chunk_ok chunkSize m'" and "take 8 m = take 8 m'"
    and "\<And>b. b < chunkSize \<Longrightarrow> dbyte m b = dbyte m' b"
  shows "m = m'"
proof (rule nth_equalityI)
  show "length m = length m'" using assms(1,2) by (simp add: chunk_ok_def)
  fix i assume i: "i < length m"
  show "m ! i = m' ! i"
  proof (cases "i < 8")
    case True
    then have "m ! i = take 8 m ! i" "m' ! i = take 8 m' ! i" by simp_all
    then show ?thesis using assms(3) by simp
  next
    case False
    then show ?thesis using assms(4) [of "i - 8"] i assms(1) by (simp add: dbyte_def chunk_ok_def)
  qed
qed

lemma xor_data_spec:
  assumes "chunk_ok chunkSize dst" and "chunk_ok chunkSize src" and "doff + len \<le> chunkSize" and "soff + len \<le> chunkSize" and "len < 2 ^ 32"
  shows "\<exists>dst'. xor_data dst doff src soff len = Some dst' \<and> chunk_ok chunkSize dst' \<and> take 8 dst' = take 8 dst
    \<and> (\<forall>b < chunkSize. dbyte dst' b = (if doff \<le> b \<and> b < doff + len then dbyte dst b XOR dbyte src (soff + (b - doff)) else dbyte dst b))"
proof -
  have u: "unat (of_nat len :: u32) = len" by (rule unat_of_nat_eq) (use assms(5) in simp)
  let ?x = "xor_bytes (seg (8 + doff) len dst) (seg (8 + soff) len src)"
  let ?d = "take (8 + doff) dst @ ?x @ drop (8 + doff + len) dst"
  have lens: "length dst = 8 + chunkSize" "length src = 8 + chunkSize" using assms(1,2) by (simp_all add: chunk_ok_def)
  have lx: "length ?x = len" using assms(3,4) lens by simp
  have "xor_data dst doff src soff len = poke dst (8 + doff) ?x"
    unfolding xor_data_def using bitwiseXOR_self_poke [of "cu_getData 0 + doff" "of_nat len" dst "cu_getData 0 + soff" src] assms(3,4) lens u
    by (simp add: cu_getData_def)
  then have "xor_data dst doff src soff len = Some ?d" using assms(3) lens lx by (simp add: poke_def)
  moreover have "dbyte ?d b = (if doff \<le> b \<and> b < doff + len then dbyte dst b XOR dbyte src (soff + (b - doff)) else dbyte dst b)"
    if "b < chunkSize" for b
    using that lens lx assms(3,4) by (auto simp: dbyte_def nth_append nth_seg add.assoc)
  moreover have "take 8 ?d = take 8 dst" using lens by simp
  moreover have "chunk_ok chunkSize ?d" using lens lx assms(3) by (simp add: chunk_ok_def)
  ultimately show ?thesis by blast
qed

definition stripe_ok :: "nat \<Rightarrow> nat \<Rightarrow> memory list \<Rightarrow> bool" where
  "stripe_ok chunkSize n cs \<longleftrightarrow> length cs = n \<and> (\<forall>c \<in> set cs. chunk_ok chunkSize c)"

text \<open>A stripe as a matrix of bytes: chunk number and position.\<close>

definition sb :: "memory list \<Rightarrow> nat \<Rightarrow> nat \<Rightarrow> byte" where
  "sb cs i b = dbyte (cs ! i) b"

lemma stripe_chunk: "stripe_ok chunkSize n cs \<Longrightarrow> i < n \<Longrightarrow> chunk_ok chunkSize (cs ! i) \<and> item_at cs i = Some (cs ! i)"
  by (auto simp: stripe_ok_def item_at_def)

lemma stripe_update: "stripe_ok chunkSize n cs \<Longrightarrow> chunk_ok chunkSize c \<Longrightarrow> stripe_ok chunkSize n (cs[i := c])"
  by (auto simp: stripe_ok_def dest!: set_update_subset_insert [THEN subsetD])

definition same_ids :: "memory list \<Rightarrow> memory list \<Rightarrow> bool" where
  "same_ids cs cs' \<longleftrightarrow> map (take 8) cs = map (take 8) cs'"

lemma same_ids_update: "same_ids cs cs' \<Longrightarrow> i < length cs \<Longrightarrow> take 8 c = take 8 (cs ! i) \<Longrightarrow> same_ids (cs[i := c]) cs'"
  by (metis list_update_id map_update same_ids_def)

lemma same_ids_refl [simp]: "same_ids cs cs"
  by (simp add: same_ids_def)

lemma stripe_eqI:
  assumes "stripe_ok chunkSize n cs" and "stripe_ok chunkSize n cs'" and "same_ids cs cs'"
    and "\<And>i b. i < n \<Longrightarrow> b < chunkSize \<Longrightarrow> sb cs i b = sb cs' i b"
  shows "cs = cs'"
proof (rule nth_equalityI)
  show "length cs = length cs'" using assms(1,2) by (simp add: stripe_ok_def)
  fix i assume "i < length cs"
  then have i: "i < n" using assms(1) by (simp add: stripe_ok_def)
  have "map (take 8) cs ! i = map (take 8) cs' ! i" using assms(3) by (simp add: same_ids_def)
  then have "take 8 (cs ! i) = take 8 (cs' ! i)" using i assms(1,2) by (simp add: stripe_ok_def)
  then show "cs ! i = cs' ! i"
    using assms(4) [OF i] stripe_chunk [OF assms(1) i] stripe_chunk [OF assms(2) i] chunk_eqI [of chunkSize "cs ! i" "cs' ! i"]
    unfolding sb_def by blast
qed

lemma xor_chunk_spec:
  assumes "stripe_ok chunkSize n cs" and "t < n" and "s < n" and "toff + len \<le> chunkSize" and "soff + len \<le> chunkSize" and "len < 2 ^ 32"
  shows "\<exists>cs'. xor_chunk cs t toff s soff len = Some cs' \<and> stripe_ok chunkSize n cs' \<and> same_ids cs' cs
    \<and> (\<forall>i < n. \<forall>b < chunkSize. sb cs' i b =
         (if i = t \<and> toff \<le> b \<and> b < toff + len then sb cs t b XOR sb cs s (soff + (b - toff)) else sb cs i b))"
proof -
  have c: "chunk_ok chunkSize (cs ! t)" "chunk_ok chunkSize (cs ! s)" "item_at cs t = Some (cs ! t)" "item_at cs s = Some (cs ! s)"
    and len: "length cs = n" using assms(1-3) stripe_chunk by (auto simp: stripe_ok_def item_at_def)
  obtain d where d: "xor_data (cs ! t) toff (cs ! s) soff len = Some d" "chunk_ok chunkSize d" "take 8 d = take 8 (cs ! t)"
    "\<forall>b < chunkSize. dbyte d b = (if toff \<le> b \<and> b < toff + len then dbyte (cs ! t) b XOR dbyte (cs ! s) (soff + (b - toff)) else dbyte (cs ! t) b)"
    using xor_data_spec [OF c(1,2) assms(4,5,6)] by blast
  have "sb (cs[t := d]) i b = (if i = t \<and> toff \<le> b \<and> b < toff + len then sb cs t b XOR sb cs s (soff + (b - toff)) else sb cs i b)"
    if "i < n" "b < chunkSize" for i b
    using that d(4) len assms(2) by (auto simp: sb_def nth_list_update)
  moreover have "xor_chunk cs t toff s soff len = Some (cs[t := d])" using c(3,4) d(1) by (simp add: xor_chunk_def)
  moreover have "same_ids (cs[t := d]) cs" using d(3) assms(2) len by (intro same_ids_update) simp_all
  ultimately show ?thesis using stripe_update [OF assms(1) d(2)] by blast
qed

section \<open>Lost chunks\<close>

text \<open>The bitmap tells which chunks are there; the memory of a lost chunk is a cleared chunk with the lost chunk's identifier.\<close>

definition status_ok :: "BitmaskArray \<Rightarrow> nat \<Rightarrow> nat set \<Rightarrow> bool" where
  "status_ok bm n E \<longleftrightarrow> (\<forall>i < n. bm_check1 bm i = Some (i \<notin> E))"

definition erased :: "nat set \<Rightarrow> memory list \<Rightarrow> memory list" where
  "erased E cs = map (\<lambda>i. if i \<in> E then take 8 (cs ! i) @ replicate (length (cs ! i) - 8) 0 else cs ! i) [0..<length cs]"

lemma erased_ok: "stripe_ok chunkSize n cs \<Longrightarrow> stripe_ok chunkSize n (erased E cs)"
  by (auto simp: stripe_ok_def erased_def chunk_ok_def)

lemma erased_ids: "stripe_ok chunkSize n cs \<Longrightarrow> same_ids (erased E cs) cs"
  unfolding same_ids_def by (rule nth_equalityI) (auto simp: erased_def stripe_ok_def chunk_ok_def)

lemma sb_erased: "stripe_ok chunkSize n cs \<Longrightarrow> i < n \<Longrightarrow> b < chunkSize \<Longrightarrow> sb (erased E cs) i b = (if i \<in> E then 0 else sb cs i b)"
  by (auto simp: sb_def dbyte_def erased_def stripe_ok_def chunk_ok_def nth_append)

lemma scan_lost_spec:
  "\<forall>j. i \<le> j \<and> j < i + k \<longrightarrow> bm_check1 bm j = Some (j \<notin> E) \<Longrightarrow> length lost \<le> lim \<Longrightarrow>
   scan_lost bm lim i k lost =
     Some (let l = lost @ filter (\<lambda>j. j \<in> E) [i..<i + k] in if length l \<le> lim then Some l else None)"
proof (induction k arbitrary: i lost)
  case (Suc k)
  have up: "[i..<i + Suc k] = i # [Suc i..<Suc i + k]" by (simp add: upt_rec [of i])
  have next_bits: "\<forall>j. Suc i \<le> j \<and> j < Suc i + k \<longrightarrow> bm_check1 bm j = Some (j \<notin> E)" using Suc.prems(1) by simp
  have here: "bm_check1 bm i = Some (i \<notin> E)" using Suc.prems(1) by simp
  show ?case using Suc.IH [OF next_bits] Suc.prems(2) here unfolding up by (auto simp: Let_def)
qed simp

lemma scan_lost_status:
  assumes "status_ok bm n E" and "E \<subseteq> {..<n}"
  shows "scan_lost bm lim 0 n [] = Some (if card E \<le> lim then Some (filter (\<lambda>j. j \<in> E) [0..<n]) else None)"
proof -
  have "length (filter (\<lambda>j. j \<in> E) [0..<n]) = card (set (filter (\<lambda>j. j \<in> E) [0..<n]))"
    by (rule distinct_card [symmetric]) simp
  also have "set (filter (\<lambda>j. j \<in> E) [0..<n]) = E" using assms(2) by auto
  finally show ?thesis using scan_lost_spec [of 0 n bm E "[]" lim] assms(1) by (simp add: status_ok_def Let_def)
qed

lemma filter_singleton: "l < n \<Longrightarrow> filter (\<lambda>j. j \<in> {l}) [0..<n] = [l]"
proof (induction n)
  case (Suc n)
  then show ?case by (cases "l = n") (auto simp: filter_empty_conv)
qed simp

lemma filter_pair: "x < y \<Longrightarrow> y < n \<Longrightarrow> filter (\<lambda>j. j \<in> {x, y}) [0..<n] = [x, y]"
proof (induction n)
  case (Suc n)
  have "filter (\<lambda>j. j \<in> {x, n}) [0..<n] = filter (\<lambda>j. j \<in> {x}) [0..<n]" by (rule filter_cong) auto
  then show ?case using Suc filter_singleton [of x n] by (cases "y = n") auto
qed simp

text \<open>A bitmap with a given set of lost chunks exists: set the bits of the others.\<close>

lemma status_exists: "\<exists>bm. status_ok bm n E"
proof -
  let ?P = "\<lambda>k bm. bm_inv bm \<and> bm_count bm = 1 \<and> bm_size bm = n \<and> (\<forall>i < n. bm_check1 bm i = Some (i < k \<and> i \<notin> E))"
  have "\<exists>bm. foldM (\<lambda>i bm. if i \<in> E then Some bm else bm_set1 bm i) [0..<n] (bm_new n 1) = Some bm \<and> ?P n bm"
  proof (rule foldM_upt_inv [where P = ?P])
    have new: "bm_inv (bm_new n 1)" "bm_count (bm_new n 1) = 1" "bm_size (bm_new n 1) = n"
      by (simp_all add: bm_new_inv) (simp_all add: bm_new_def Let_def)
    moreover have "bm_check1 (bm_new n 1) i = Some False" if "i < n" for i
    proof -
      have r: "0 < bm_count (bm_new n 1)" "i < bm_size (bm_new n 1)" using new that by simp_all
      from bm_in_words [OF new(1) r] have "bm_index (bm_new n 1) 0 i < 64 * length (bm_words (bm_new n 1))"
        by (metis div_less_iff_less_mult mult.commute zero_less_numeral)
      from bm_new_bit [OF this] show ?thesis using bm_check_bit [OF new(1) r] by (simp add: bm_check1_def)
    qed
    ultimately show "?P 0 (bm_new n 1)" by simp
  next
    fix i bm assume i: "i < n" and P: "?P i bm"
    show "\<exists>bm'. (if i \<in> E then Some bm else bm_set1 bm i) = Some bm' \<and> ?P (Suc i) bm'"
    proof (cases "i \<in> E")
      case True
      then show ?thesis using P by (auto simp: less_Suc_eq)
    next
      case False
      have r: "0 < bm_count bm" "i < bm_size bm" and inv: "bm_inv bm" using P i by simp_all
      obtain bm' where bm': "bm_set bm 0 i = Some bm'" using mask.set_total [OF inv r] by blast
      have "bm_check1 bm' j = Some (j < Suc i \<and> j \<notin> E)" if "j < n" for j
        using mask.test_set [OF inv bm' r r(1), of j] P that False by (auto simp: bm_check1_def less_Suc_eq)
      then show ?thesis using mask.set_keeps [OF inv bm'] P False bm' by (simp add: bm_set1_def)
    qed
  qed
  then show ?thesis by (auto simp: status_ok_def)
qed

section \<open>The contract of an erasure code\<close>

text \<open>Two stripes with the same data; the identifiers in front of the data areas may differ.\<close>

definition data_eq :: "nat \<Rightarrow> nat \<Rightarrow> memory list \<Rightarrow> memory list \<Rightarrow> bool" where
  "data_eq chunkSize n cs cs' \<longleftrightarrow> (\<forall>i < n. \<forall>b < chunkSize. sb cs i b = sb cs' i b)"

lemma data_eq_refl [simp]: "data_eq chunkSize n cs cs"
  by (simp add: data_eq_def)

lemma data_eq_trans: "data_eq chunkSize n a b \<Longrightarrow> data_eq chunkSize n b c \<Longrightarrow> data_eq chunkSize n a c"
  by (simp add: data_eq_def)

text \<open>
  A code on stripes of \<open>n\<close> chunks that tolerates the loss of \<open>t\<close> of them: decoding a stripe with lost
  chunks restores its data, and refuses when too many are lost.
\<close>

locale erasure_code =
  fixes chunkSize n t :: nat
    and codeword :: "memory list \<Rightarrow> bool"
    and decode :: "memory list \<Rightarrow> BitmaskArray \<Rightarrow> (bool \<times> memory list) option"
  assumes shape: "codeword cs \<Longrightarrow> stripe_ok chunkSize n cs"
    and codeword_data: "codeword cs \<Longrightarrow> stripe_ok chunkSize n cs' \<Longrightarrow> data_eq chunkSize n cs' cs \<Longrightarrow> codeword cs'"
    and recovers: "codeword cs \<Longrightarrow> status_ok bm n E \<Longrightarrow> E \<subseteq> {..<n} \<Longrightarrow> E \<noteq> {} \<Longrightarrow> card E \<le> t \<Longrightarrow>
      \<exists>cs'. decode (erased E cs) bm = Some (True, cs') \<and> stripe_ok chunkSize n cs' \<and> data_eq chunkSize n cs' cs"
    and refuses: "status_ok bm n E \<Longrightarrow> E \<subseteq> {..<n} \<Longrightarrow> t < card E \<Longrightarrow> decode cs bm = Some (False, cs)"
begin

lemma distance:
  assumes "codeword cs" and "codeword cs'" and "E \<subseteq> {..<n}" and "card E \<le> t" and "erased E cs = erased E cs'"
  shows "data_eq chunkSize n cs cs'"
proof (cases "E = {}")
  case True
  have "erased {} c = c" for c :: "memory list" by (simp add: erased_def map_nth)
  with True assms(5) show ?thesis by simp
next
  case False
  obtain bm where "status_ok bm n E" using status_exists by blast
  note r = recovers [OF _ this assms(3) False assms(4)]
  from r [OF assms(1)] r [OF assms(2)] show ?thesis unfolding assms(5) by (auto simp: data_eq_def)
qed

lemma survives_again:
  assumes "codeword cs" and "status_ok bm n E" "E \<subseteq> {..<n}" "E \<noteq> {}" "card E \<le> t"
    and "status_ok bm' n E'" "E' \<subseteq> {..<n}" "E' \<noteq> {}" "card E' \<le> t"
  shows "\<exists>cs'. decode (erased E cs) bm \<bind> (\<lambda>(ok, cs). decode (erased E' cs) bm') = Some (True, cs') \<and> data_eq chunkSize n cs' cs"
proof -
  from recovers [OF assms(1-5)] obtain c1 where c1: "decode (erased E cs) bm = Some (True, c1)" "stripe_ok chunkSize n c1" "data_eq chunkSize n c1 cs"
    by blast
  from recovers [OF codeword_data [OF assms(1) c1(2,3)] assms(6-9)] c1 show ?thesis by (auto intro: data_eq_trans)
qed

end

section \<open>Single parity\<close>

definition raid5_codeword :: "nat \<Rightarrow> nat \<Rightarrow> memory list \<Rightarrow> bool" where
  "raid5_codeword chunkSize n cs \<longleftrightarrow> stripe_ok chunkSize n cs \<and> (\<forall>b < chunkSize. xsum (\<lambda>i. sb cs i b) {..<n} = 0)"

text \<open>The row loop shared by RAID-5 and RDP: XOR of all chunks but one into that one.\<close>

lemma xor_all_spec:
  assumes "stripe_ok chunkSize m cs" and "n \<le> m" and "l < m" and "chunkSize < 2 ^ 32"
  shows "\<exists>cs'. foldM (\<lambda>i cs. if i = l then Some cs else xor_chunk cs l 0 i 0 chunkSize) [0..<n] cs = Some cs'
    \<and> stripe_ok chunkSize m cs' \<and> same_ids cs' cs
    \<and> (\<forall>i < m. \<forall>b < chunkSize. sb cs' i b = (if i = l then sb cs l b XOR xsum (\<lambda>i. sb cs i b) ({..<n} - {l}) else sb cs i b))"
proof -
  let ?P = "\<lambda>k cs'. stripe_ok chunkSize m cs' \<and> same_ids cs' cs \<and> (\<forall>i < m. \<forall>b < chunkSize.
      sb cs' i b = (if i = l then sb cs l b XOR xsum (\<lambda>i. sb cs i b) ({..<k} - {l}) else sb cs i b))"
  have "\<exists>cs'. foldM (\<lambda>i cs. if i = l then Some cs else xor_chunk cs l 0 i 0 chunkSize) [0..<n] cs = Some cs' \<and> ?P n cs'"
  proof (rule foldM_upt_inv [where P = ?P])
    show "?P 0 cs" using assms by simp
  next
    fix k c assume k: "k < n" and P: "?P k c"
    show "\<exists>c'. (if k = l then Some c else xor_chunk c l 0 k 0 chunkSize) = Some c' \<and> ?P (Suc k) c'"
    proof (cases "k = l")
      case True
      have "{..<Suc l} - {l} = {..<l} - {l}" by auto
      with True P show ?thesis by simp
    next
      case False
      have "stripe_ok chunkSize m c" "k < m" using P k assms(2) by simp_all
      from xor_chunk_spec [OF this(1) assms(3) this(2), of 0 chunkSize 0] assms(4)
      obtain c' where c': "xor_chunk c l 0 k 0 chunkSize = Some c'" "stripe_ok chunkSize m c'" "same_ids c' c"
        "\<forall>i < m. \<forall>b < chunkSize. sb c' i b = (if i = l then sb c l b XOR sb c k b else sb c i b)" by auto
      have ins: "{..<Suc k} - {l} = insert k ({..<k} - {l})" using False by auto
      have "sb c' i b = (if i = l then sb cs l b XOR xsum (\<lambda>i. sb cs i b) ({..<Suc k} - {l}) else sb cs i b)"
        if "i < m" "b < chunkSize" for i b
        using c'(4) P that False \<open>k < m\<close> assms(3) unfolding ins by (auto simp: xsum_insert xor.assoc xor.commute xor.left_commute)
      then show ?thesis using c' P False by (auto simp: same_ids_def)
    qed
  qed
  then show ?thesis by blast
qed

lemma raid5_recovers:
  assumes "raid5_codeword chunkSize n cs" and "status_ok bm n E" and "E \<subseteq> {..<n}" and "E \<noteq> {}" and "card E \<le> 1" and "chunkSize < 2 ^ 32"
  shows "raid5_decode chunkSize n (erased E cs) bm = Some (True, cs)"
proof -
  have "0 < card E" using assms(3,4) finite_subset [OF assms(3)] by (simp add: card_gt_0_iff)
  then have "card E = 1" using assms(5) by simp
  then obtain l where E: "E = {l}" by (auto simp: card_1_singleton_iff)
  have l: "l < n" and ok: "stripe_ok chunkSize n cs" using assms(1,3) by (auto simp: E raid5_codeword_def)
  have scan: "scan_lost bm 1 0 n [] = Some (Some [l])"
    using scan_lost_status [OF assms(2,3), of 1] assms(5) filter_singleton [OF l] by (simp add: E)
  obtain cs' where cs': "foldM (\<lambda>i cs. if i = l then Some cs else xor_chunk cs l 0 i 0 chunkSize) [0..<n] (erased E cs) = Some cs'"
      "stripe_ok chunkSize n cs'" "same_ids cs' (erased E cs)"
      "\<forall>i < n. \<forall>b < chunkSize. sb cs' i b = (if i = l then sb (erased E cs) l b XOR xsum (\<lambda>i. sb (erased E cs) i b) ({..<n} - {l}) else sb (erased E cs) i b)"
    using xor_all_spec [OF erased_ok [OF ok] order_refl l assms(6)] by blast
  have "cs' = cs"
  proof (rule stripe_eqI [OF cs'(2) ok])
    show "same_ids cs' cs" using cs'(3) erased_ids [OF ok] by (simp add: same_ids_def)
    fix i b assume i: "i < n" and b: "b < chunkSize"
    have "xsum (\<lambda>i. sb (erased E cs) i b) ({..<n} - {l}) = xsum (\<lambda>i. sb cs i b) ({..<n} - {l})"
      by (rule xors.cong) (use sb_erased [OF ok _ b] E in auto)
    moreover have "sb cs l b = 0 XOR xsum (\<lambda>i. sb cs i b) ({..<n} - {l})"
      using assms(1) b l by (intro xsum_solve) (auto simp: raid5_codeword_def)
    ultimately show "sb cs' i b = sb cs i b" using cs'(4) i b sb_erased [OF ok i b] sb_erased [OF ok l b] by (auto simp: E)
  qed
  then show ?thesis using scan cs'(1) by (simp add: raid5_decode_def)
qed

lemma raid5_refuses:
  assumes "status_ok bm n E" and "E \<subseteq> {..<n}" and "1 < card E"
  shows "raid5_decode chunkSize n cs bm = Some (False, cs)"
  using scan_lost_status [OF assms(1,2), of 1] assms(3) by (simp add: raid5_decode_def)

interpretation raid5: erasure_code "unat (chunkSize :: u32)" n 1 "raid5_codeword (unat chunkSize) n" "raid5_decode (unat chunkSize) n"
  for chunkSize n
proof unfold_locales
  show ok: "stripe_ok (unat chunkSize) n cs" if "raid5_codeword (unat chunkSize) n cs" for cs
    using that by (simp add: raid5_codeword_def)
  show "raid5_codeword (unat chunkSize) n cs'"
    if "raid5_codeword (unat chunkSize) n cs" "stripe_ok (unat chunkSize) n cs'" "data_eq (unat chunkSize) n cs' cs" for cs cs'
    using that by (simp add: raid5_codeword_def data_eq_def)
  show "\<exists>cs'. raid5_decode (unat chunkSize) n (erased E cs) bm = Some (True, cs') \<and> stripe_ok (unat chunkSize) n cs' \<and> data_eq (unat chunkSize) n cs' cs"
    if "raid5_codeword (unat chunkSize) n cs" "status_ok bm n E" "E \<subseteq> {..<n}" "E \<noteq> {}" "card E \<le> 1" for cs bm E
    using raid5_recovers [OF that unat_u32_less] ok [OF that(1)] by simp
qed (auto intro: raid5_refuses)

lemma raid5_encode_row:
  assumes "n - 1 \<le> length data" and "\<forall>i < n - 1. chunk_ok chunkSize (data ! i)" and "chunk_ok chunkSize parity" and "chunkSize < 2 ^ 32"
  shows "\<exists>p. raid5_encode chunkSize n data parity = Some p \<and> chunk_ok chunkSize p \<and> take 8 p = take 8 parity
    \<and> (\<forall>b < chunkSize. dbyte p b = dbyte parity b XOR xsum (\<lambda>i. sb data i b) {..<n - 1})"
  unfolding raid5_encode_def
proof (rule foldM_upt_inv [where P = "\<lambda>k p. chunk_ok chunkSize p \<and> take 8 p = take 8 parity \<and> (\<forall>b < chunkSize. dbyte p b = dbyte parity b XOR xsum (\<lambda>i. sb data i b) {..<k})"])
  fix i p assume i: "i < n - 1" and P: "chunk_ok chunkSize p \<and> take 8 p = take 8 parity \<and> (\<forall>b < chunkSize. dbyte p b = dbyte parity b XOR xsum (\<lambda>i. sb data i b) {..<i})"
  have src: "chunk_ok chunkSize (data ! i)" "item_at data i = Some (data ! i)" using assms(1,2) i by (simp_all add: item_at_def)
  obtain p' where "xor_data p 0 (data ! i) 0 chunkSize = Some p'" "chunk_ok chunkSize p'" "take 8 p' = take 8 p"
      "\<forall>b < chunkSize. dbyte p' b = dbyte p b XOR dbyte (data ! i) b"
    using xor_data_spec [of chunkSize p "data ! i" 0 chunkSize 0] P src assms(4) by auto
  then show "\<exists>p'. (do { src \<leftarrow> item_at data i; xor_data p 0 src 0 chunkSize }) = Some p' \<and> chunk_ok chunkSize p' \<and> take 8 p' = take 8 parity
      \<and> (\<forall>b < chunkSize. dbyte p' b = dbyte parity b XOR xsum (\<lambda>i. sb data i b) {..<Suc i})"
    using P src by (auto simp: lessThan_Suc xsum_insert sb_def xor.assoc xor.commute xor.left_commute)
qed (use assms(3) in simp)

lemma raid5_encode_codeword:
  assumes "stripe_ok chunkSize (n - 1) data" and "chunk_ok chunkSize parity" and "\<forall>b < chunkSize. dbyte parity b = 0" and "0 < n" and "chunkSize < 2 ^ 32"
  shows "\<exists>p. raid5_encode chunkSize n data parity = Some p \<and> take 8 p = take 8 parity \<and> raid5_codeword chunkSize n (data @ [p])"
proof -
  have n: "n = Suc (n - 1)" and len: "length data = n - 1" "\<forall>i < n - 1. chunk_ok chunkSize (data ! i)" using assms(1,4) by (simp_all add: stripe_ok_def)
  obtain p where p: "raid5_encode chunkSize n data parity = Some p" "chunk_ok chunkSize p" "take 8 p = take 8 parity"
      "\<forall>b < chunkSize. dbyte p b = dbyte parity b XOR xsum (\<lambda>i. sb data i b) {..<n - 1}"
    using raid5_encode_row [OF _ len(2) assms(2,5)] len(1) by auto
  have "xsum (\<lambda>i. sb (data @ [p]) i b) {..<n} = 0" if "b < chunkSize" for b
  proof -
    have "xsum (\<lambda>i. sb (data @ [p]) i b) {..<n - 1} = xsum (\<lambda>i. sb data i b) {..<n - 1}"
      by (rule xors.cong) (auto simp: sb_def nth_append len)
    then show ?thesis using p(4) assms(3) that len by (subst n) (simp add: lessThan_Suc xsum_insert sb_def nth_append)
  qed
  moreover have "stripe_ok chunkSize n (data @ [p])" using assms(1) p(2) n by (auto simp: stripe_ok_def)
  ultimately show ?thesis using p by (auto simp: raid5_codeword_def)
qed

text \<open>
  C15. RAID-5 tolerates the loss of any one chunk: encode the \<open>n - 1\<close> data chunks of a stripe into a cleared
  parity chunk; clear any chunk of the resulting stripe, as the server does with the buffer of a chunk it
  reconstructs; decoding with a bitmap that misses exactly this chunk succeeds and gives the stripe back
  byte for byte, identifiers included.
\<close>

theorem raid5_encode_decode:
  assumes "stripe_ok (unat chunkSize) (n - 1) data" and "0 < n" and "parity = be_id @ replicate (unat chunkSize) 0" and "length be_id = 8"
    and "l < n" and "status_ok bm n {l}"
  shows "\<exists>p. raid5_encode (unat (chunkSize :: u32)) n data parity = Some p \<and> take 8 p = be_id
    \<and> raid5_decode (unat chunkSize) n (erased {l} (data @ [p])) bm = Some (True, data @ [p])"
proof -
  have "chunk_ok (unat chunkSize) parity" "\<forall>b < unat chunkSize. dbyte parity b = 0"
    using assms(3,4) by (simp_all add: chunk_ok_def dbyte_def nth_append)
  from raid5_encode_codeword [OF assms(1) this assms(2) unat_u32_less]
  obtain p where p: "raid5_encode (unat chunkSize) n data parity = Some p" "take 8 p = take 8 parity" "raid5_codeword (unat chunkSize) n (data @ [p])"
    by blast
  from raid5_recovers [OF p(3) assms(6) _ _ _ unat_u32_less] assms(5) p show ?thesis by (simp add: assms(3,4))
qed

theorem raid5_encode_decode_witness:
  "\<exists>bm p. status_ok bm 3 {1} \<and> raid5_encode 2 3 [replicate 8 1 @ [5, 6], replicate 8 2 @ [7, 9]] (replicate 8 3 @ [0, 0]) = Some p
    \<and> raid5_decode 2 3 [replicate 8 1 @ [5, 6], replicate 8 2 @ [0, 0], p] bm = Some (True, [replicate 8 1 @ [5, 6], replicate 8 2 @ [7, 9], p])"
proof -
  obtain bm where bm: "status_ok bm 3 {1}" using status_exists by blast
  have u: "unat (2 :: u32) = 2" by simp
  have z: "replicate 8 3 @ [0, 0] = replicate 8 3 @ replicate 2 (0 :: byte)" by (simp add: numeral_2_eq_2)
  have "stripe_ok 2 (3 - 1) [replicate 8 1 @ [5, 6], replicate 8 2 @ [7, 9]]" by (simp add: stripe_ok_def chunk_ok_def)
  from raid5_encode_decode [where chunkSize = 2 and be_id = "replicate 8 3", unfolded u, OF this _ z _ _ bm]
  obtain p where p: "raid5_encode 2 3 [replicate 8 1 @ [5, 6], replicate 8 2 @ [7, 9]] (replicate 8 3 @ [0, 0]) = Some p"
    "raid5_decode 2 3 (erased {1} ([replicate 8 1 @ [5, 6], replicate 8 2 @ [7, 9]] @ [p])) bm
       = Some (True, [replicate 8 1 @ [5, 6], replicate 8 2 @ [7, 9], p])"
    by auto
  have "erased {1} ([replicate 8 1 @ [5, 6], replicate 8 2 @ [7, 9]] @ [p]) = [replicate 8 1 @ [5, 6], replicate 8 2 @ [0, 0], p]"
    by (simp add: erased_def numeral_2_eq_2 upt_rec)
  with p bm show ?thesis by metis
qed

end
