(* ===== verification/Rdp.thy ===== *)
theory Rdp
  imports Coding
begin

unbundle bit_operations_syntax

text \<open>
  Row-diagonal parity, \<^verbatim>\<open>common/coding/rdpcoding.cc\<close>: the choice of the prime \<open>p\<close> and of the symbol size, the encoder of the
  row and the diagonal parity and the decoder for up to two lost chunks.  A chunk is cut into \<open>p - 1\<close>
  symbols.  The offsets are natural numbers: they are positions in a stripe, which is smaller than four gigabytes.
  \<^verbatim>\<open>chunkToRRepair - 1\<close> is computed for \<^verbatim>\<open>chunkToRRepair == 0\<close> after the last round only, and not used then.
\<close>

section \<open>Choice of the prime\<close>

definition primeList :: "nat list" where
  "primeList =
    [2, 3, 5, 7, 11, 13, 17, 19, 23, 29,
     31, 37, 41, 43, 47, 53, 59, 61, 67, 71,
     73, 79, 83, 89, 97, 101, 103, 107, 109, 113,
     127, 131, 137, 139, 149, 151, 157, 163, 167, 173,
     179, 181, 191, 193, 197, 199, 211, 223, 227, 229,
     233, 239, 241, 251, 257, 263, 269, 271, 277, 281,
     283, 293, 307, 311, 313, 317, 331, 337, 347, 349,
     353, 359, 367, 373, 379, 383, 389, 397, 401, 409,
     419, 421, 431, 433, 439, 443, 449, 457, 461, 463,
     467, 479, 487, 491, 499, 503, 509, 521, 523, 541,
     547, 557, 563, 569, 571, 577, 587, 593, 599, 601,
     607, 613, 617, 619, 631, 641, 643, 647, 653, 659,
     661, 673, 677, 683, 691, 701, 709, 719, 727, 733,
     739, 743, 751, 757, 761, 769, 773, 787, 797, 809,
     811, 821, 823, 827, 829, 839, 853, 857, 859, 863,
     877, 881, 883, 887, 907, 911, 919, 929, 937, 941,
     947, 953, 967, 971, 977, 983, 991, 997]"

definition primeCount :: nat where
  "primeCount = 168"

record RDPCoding =
  rdp_k :: nat
  rdp_p :: nat
  rdp_chunkSize :: nat
  rdp_symbolSize :: nat

text \<open>
  The loop of \<^verbatim>\<open>getPrime\<close>, with the bound and the final choice as parameters: EVENODD overrides both.
  The result is the index stored in \<^verbatim>\<open>_p\<close>; \<open>None\<close> when the loop ends without a store.
\<close>

function search_prime :: "(nat \<Rightarrow> bool) \<Rightarrow> (nat \<Rightarrow> bool) \<Rightarrow> nat \<Rightarrow> nat \<Rightarrow> nat option" where
  "search_prime small pick start fin =
     (if start < fin
      then let mid = (start + fin) div 2;
               start' = (if small (primeList ! mid) then mid else start);
               fin' = (if \<not> small (primeList ! mid) then mid else fin)
           in if start' + 1 = fin' then Some (if pick (primeList ! start') then start' else fin')
              else search_prime small pick start' fin'
      else None)"
  by pat_completeness auto
termination
  by (relation "measure (\<lambda>(small, pick, start, fin). fin - start)") (auto split: if_splits)

declare search_prime.simps [simp del]

definition rdp_getPrime :: "nat \<Rightarrow> nat option" where
  "rdp_getPrime k = search_prime (\<lambda>q. q < k + 1) (\<lambda>q. q \<ge> k + 1) 0 (primeCount - 1)"

text \<open>The loop of \<^verbatim>\<open>getSymbolSize\<close> reads the list before it tests the index; past the list there is no value.\<close>

function find_symbols :: "nat \<Rightarrow> nat \<Rightarrow> nat option" where
  "find_symbols chunkSize pp =
     do { q \<leftarrow> item_at primeList pp;
          if chunkSize mod (q - 1) \<noteq> 0 \<and> pp < primeCount then find_symbols chunkSize (pp + 1) else Some pp }"
  by pat_completeness auto
termination
  by (relation "measure (\<lambda>(chunkSize, pp). length primeList - pp)") (auto simp: item_at_def split: if_splits)

declare find_symbols.simps [simp del]

definition get_symbols :: "nat option \<Rightarrow> nat \<Rightarrow> nat \<Rightarrow> RDPCoding option" where
  "get_symbols prime k chunkSize =
     do { pp \<leftarrow> prime;
          pp \<leftarrow> find_symbols chunkSize pp;
          if pp = primeCount then None
          else do { p \<leftarrow> item_at primeList pp;
                    Some \<lparr>rdp_k = k, rdp_p = p, rdp_chunkSize = chunkSize, rdp_symbolSize = chunkSize div (p - 1)\<rparr> } }"

definition rdp_new :: "nat \<Rightarrow> nat \<Rightarrow> RDPCoding option" where
  "rdp_new k chunkSize = get_symbols (rdp_getPrime k) k chunkSize"

section \<open>Encoding\<close>

text \<open>The modified part of a symbol: \<open>None\<close> when the symbol is skipped, else offset and length.\<close>

definition symbol_range :: "bool \<Rightarrow> nat \<Rightarrow> nat \<Rightarrow> nat \<Rightarrow> nat \<Rightarrow> (nat \<times> nat) option" where
  "symbol_range part symbolSize startOff endOff symbolOff =
     (if part \<and> (symbolOff + symbolSize < startOff \<or> symbolOff > endOff) then None
      else let offset = (if part then if startOff > symbolOff then startOff - symbolOff else 0 else 0);
               len = (if part then endOff - (symbolOff + offset) else symbolSize);
               len = (if len + offset > symbolSize then symbolSize - offset else len)
           in Some (offset, len))"

definition is_partial :: "nat \<Rightarrow> nat \<Rightarrow> bool" where
  "is_partial startOff endOff \<longleftrightarrow> endOff \<noteq> 0 \<and> endOff \<noteq> startOff"

definition rdp_column :: "RDPCoding \<Rightarrow> bool \<Rightarrow> nat \<Rightarrow> nat \<Rightarrow> nat \<Rightarrow> memory \<Rightarrow> memory \<Rightarrow> memory option" where
  "rdp_column r part startOff endOff cidx src parity =
     foldM (\<lambda>sidx parity.
       case symbol_range part (rdp_symbolSize r) startOff endOff (cidx * rdp_chunkSize r + sidx * rdp_symbolSize r) of
         None \<Rightarrow> Some parity
       | Some (offset, len) \<Rightarrow>
           let pidx = (cidx + sidx) mod rdp_p r in
           if pidx = rdp_p r - 1 then Some parity
           else xor_data parity (pidx * rdp_symbolSize r + offset) src (sidx * rdp_symbolSize r + offset) len)
       [0..<rdp_p r - 1] parity"

definition rdp_encode :: "RDPCoding \<Rightarrow> memory list \<Rightarrow> memory \<Rightarrow> nat \<Rightarrow> nat \<Rightarrow> nat \<Rightarrow> memory option" where
  "rdp_encode r data parity index startOff endOff =
     (if index = 1 then raid5_encode (rdp_chunkSize r) (rdp_k r + 1) data parity
      else if index = 2 then
        do { firstParity \<leftarrow> raid5_encode (rdp_chunkSize r) (rdp_k r + 1) data (replicate (8 + rdp_chunkSize r) 0);
             foldM (\<lambda>cidx parity.
               let part = is_partial startOff endOff \<and> cidx < rdp_k r in
               if part \<and> ((cidx + 1) * rdp_chunkSize r < startOff \<or> cidx * rdp_chunkSize r > endOff) then Some parity
               else do { src \<leftarrow> (if cidx < rdp_k r then item_at data cidx else Some firstParity);
                         rdp_column r part startOff endOff cidx src parity })
               [0..<rdp_k r + 1] parity }
      else Some parity)"

section \<open>Decoding\<close>

definition performXOR :: "RDPCoding \<Rightarrow> memory list \<Rightarrow> nat \<Rightarrow> memory list option" where
  "performXOR r chunks target =
     (if target > rdp_k r then Some chunks
      else foldM (\<lambda>cidx chunks. if cidx = target then Some chunks else xor_chunk chunks target 0 cidx 0 (rdp_chunkSize r))
             [0..<rdp_k r + 1] chunks)"

definition encode_into :: "(memory list \<Rightarrow> memory \<Rightarrow> memory option) \<Rightarrow> memory list \<Rightarrow> nat \<Rightarrow> memory list option" where
  "encode_into enc chunks i = do { parity \<leftarrow> item_at chunks i; parity \<leftarrow> enc chunks parity; Some (chunks[i := parity]) }"

definition clear_chunk :: "nat \<Rightarrow> memory list \<Rightarrow> nat \<Rightarrow> memory list option" where
  "clear_chunk chunkSize chunks i =
     do { c \<leftarrow> item_at chunks i; c \<leftarrow> poke c 0 (replicate (8 + chunkSize) 0); Some (chunks[i := c]) }"

record repair =
  chunkToRRepair :: nat
  chunkToDRepair :: nat
  didxToRepair :: nat
  sidxToRepair :: nat

definition aim :: "RDPCoding \<Rightarrow> nat \<Rightarrow> nat \<Rightarrow> nat \<Rightarrow> repair" where
  "aim r R D didx = \<lparr>chunkToRRepair = R, chunkToDRepair = D, didxToRepair = didx, sidxToRepair = (didx + rdp_p r - D) mod rdp_p r\<rparr>"

definition repair_symbols :: "RDPCoding \<Rightarrow> repair \<Rightarrow> memory list \<Rightarrow> memory list option" where
  "repair_symbols r s chunks =
     (let p = rdp_p r; sz = rdp_symbolSize r; R = chunkToRRepair s; D = chunkToDRepair s; row = sidxToRepair s * sz in
      do { chunks \<leftarrow> foldM (\<lambda>cidx chunks.
             if cidx = D then Some chunks
             else do { let sidx = (didxToRepair s + p - cidx) mod p;
                       chunks \<leftarrow> (if sidx \<noteq> p - 1 then xor_chunk chunks D row cidx (sidx * sz) sz else Some chunks);
                       if cidx = R then Some chunks else xor_chunk chunks R row cidx row sz })
             [0..<rdp_k r + 1] chunks;
           chunks \<leftarrow> xor_chunk chunks D row (rdp_k r + 1) (didxToRepair s * sz) sz;
           xor_chunk chunks R row D row sz })"

definition next_repair :: "RDPCoding \<Rightarrow> repair \<Rightarrow> repair" where
  "next_repair r s =
     (let didx = (chunkToRRepair s + sidxToRepair s) mod rdp_p r in
      if didx = rdp_p r - 1 then aim r (chunkToDRepair s) (chunkToRRepair s) (chunkToDRepair s - 1)
      else aim r (chunkToRRepair s) (chunkToDRepair s) didx)"

fun repair_rounds :: "RDPCoding \<Rightarrow> nat \<Rightarrow> repair \<Rightarrow> memory list \<Rightarrow> memory list option" where
  "repair_rounds r 0 s chunks = Some chunks"
| "repair_rounds r (Suc n) s chunks = do { chunks \<leftarrow> repair_symbols r s chunks; repair_rounds r n (next_repair r s) chunks }"

definition rdp_repair_two :: "RDPCoding \<Rightarrow> nat \<Rightarrow> nat \<Rightarrow> memory list \<Rightarrow> memory list option" where
  "rdp_repair_two r x y chunks =
     do { chunks \<leftarrow> clear_chunk (rdp_chunkSize r) chunks x;
          chunks \<leftarrow> clear_chunk (rdp_chunkSize r) chunks y;
          let R = (if x = 0 then y else x); D = (if x = 0 then x else y) in
          repair_rounds r (rdp_p r - 1) (aim r R D (R - 1)) chunks }"

definition rdp_decode :: "RDPCoding \<Rightarrow> memory list \<Rightarrow> BitmaskArray \<Rightarrow> (bool \<times> memory list) option" where
  "rdp_decode r chunks bm =
     do { res \<leftarrow> scan_lost bm 2 0 (rdp_k r + 2) [];
          case res of
            None \<Rightarrow> Some (False, chunks)
          | Some [] \<Rightarrow> Some (False, chunks)
          | Some [x] \<Rightarrow>
              do { chunks \<leftarrow> (if x = rdp_k r + 1 then encode_into (\<lambda>d q. rdp_encode r d q 2 0 0) chunks (rdp_k r + 1) else performXOR r chunks x);
                   Some (True, chunks) }
          | Some (x # y # _) \<Rightarrow>
              if y = rdp_k r + 1
              then do { chunks \<leftarrow> performXOR r chunks x; chunks \<leftarrow> encode_into (\<lambda>d q. rdp_encode r d q 2 0 0) chunks (rdp_k r + 1); Some (True, chunks) }
              else do { chunks \<leftarrow> rdp_repair_two r x y chunks; Some (True, chunks) } }"

section \<open>The chosen prime\<close>

definition is_prime :: "nat \<Rightarrow> bool" where
  "is_prime p \<longleftrightarrow> 1 < p \<and> (\<forall>d. d dvd p \<longrightarrow> d = 1 \<or> d = p)"

definition small_primes :: "nat list" where
  "small_primes = [2, 3, 5, 7, 11, 13, 17, 19, 23, 29, 31]"

lemma small_divisor: "2 \<le> d \<Longrightarrow> d < 32 \<Longrightarrow> \<exists>s \<in> set small_primes. s dvd d"
proof -
  assume "2 \<le> d" "d < 32"
  have "d \<in> set [2, 3, 4, 5, 6, 7, 8, 9, 10, 11, 12, 13, 14, 15, 16, 17, 18, 19, 20, 21, 22, 23, 24, 25, 26, 27, 28, 29, 30, 31]"
    using \<open>2 \<le> d\<close> \<open>d < 32\<close> by simp presburger
  then show ?thesis by (auto simp: small_primes_def)
qed

lemma trial_division:
  assumes "1 < p" and "p < 1024" and "\<forall>d \<in> set small_primes. d < p \<longrightarrow> p mod d \<noteq> 0"
  shows "is_prime p"
  unfolding is_prime_def
proof (intro conjI allI impI)
  have none: "\<not> d dvd p" if "2 \<le> d" "d < 32" "d < p" for d
  proof
    assume "d dvd p"
    from small_divisor [OF that(1,2)] obtain s where s: "s \<in> set small_primes" "s dvd d" by blast
    have "s < p" using dvd_imp_le [OF s(2)] that by simp
    then show False using assms(3) s dvd_trans [OF s(2) \<open>d dvd p\<close>] by (auto simp: dvd_imp_mod_0)
  qed
  fix d assume "d dvd p"
  then obtain e where e: "p = d * e" by (auto elim: dvdE)
  show "d = 1 \<or> d = p"
  proof (rule ccontr)
    assume "\<not> (d = 1 \<or> d = p)"
    then have ge: "2 \<le> d" "2 \<le> e" using e assms(1) by (cases d; cases e; auto)+
    have "d < 32 \<or> e < 32"
    proof (rule ccontr)
      assume "\<not> (d < 32 \<or> e < 32)"
      then have "32 * 32 \<le> d * e" by (intro mult_le_mono) simp_all
      then show False using e assms(2) by simp
    qed
    moreover have "d < p" "e < p" using ge e by simp_all
    ultimately show False using none [of d] none [of e] ge e by auto
  qed
qed (rule assms(1))

lemma primeList_trial: "list_all (\<lambda>q. 1 < q \<and> q < 1024 \<and> list_all (\<lambda>d. d < q \<longrightarrow> q mod d \<noteq> 0) small_primes) primeList"
  by (simp add: primeList_def small_primes_def)

lemma primeList_prime: "q \<in> set primeList \<Longrightarrow> is_prime q"
  using primeList_trial by (intro trial_division) (auto simp: list_all_iff)

lemma primeList_facts: "length primeList = primeCount" "sorted_wrt (<) primeList" "primeList ! 167 = 997"
  by (simp_all add: primeList_def primeCount_def sorted_wrt2 sorted_wrt1 del: sorted_wrt.simps(2))

lemma primeList_mono: "i \<le> j \<Longrightarrow> j < primeCount \<Longrightarrow> primeList ! i \<le> primeList ! j"
  using sorted_wrt_nth_less [OF primeList_facts(2), of i j] primeList_facts(1) by (cases "i = j") auto

lemma search_prime_spec:
  "start + 1 < fin \<Longrightarrow> \<exists>s f. search_prime small pick start fin = Some (if pick (primeList ! s) then s else f)
     \<and> s + 1 = f \<and> start \<le> s \<and> f \<le> fin \<and> (s = start \<or> small (primeList ! s)) \<and> (f = fin \<or> \<not> small (primeList ! f))"
proof (induction small pick start fin rule: search_prime.induct)
  case (1 small pick start fin)
  let ?mid = "(start + fin) div 2"
  let ?s = "if small (primeList ! ?mid) then ?mid else start"
  let ?f = "if \<not> small (primeList ! ?mid) then ?mid else fin"
  have mid: "start < ?mid" "?mid < fin" using 1(2) by auto
  then have bounds: "start \<le> ?s" "?s < ?f" "?f \<le> fin" "?s = start \<or> small (primeList ! ?s)" "?f = fin \<or> \<not> small (primeList ! ?f)" by auto
  have unf: "search_prime small pick start fin =
      (if ?s + 1 = ?f then Some (if pick (primeList ! ?s) then ?s else ?f) else search_prime small pick ?s ?f)"
    using 1(2) by (subst search_prime.simps) (simp only: Let_def if_True add_lessD1)
  show ?case
  proof (cases "?s + 1 = ?f")
    case True
    then show ?thesis unfolding unf using bounds by (intro exI [of _ ?s] exI [of _ ?f]) (simp only: if_True simp_thms)
  next
    case False
    then have "?s + 1 < ?f" using bounds(2) by linarith
    from 1(1) [OF _ refl refl refl False this] 1(2)
    obtain s f where "search_prime small pick ?s ?f = Some (if pick (primeList ! s) then s else f)" "s + 1 = f" "?s \<le> s" "f \<le> ?f"
        "s = ?s \<or> small (primeList ! s)" "f = ?f \<or> \<not> small (primeList ! f)" by fastforce
    then show ?thesis unfolding unf using False bounds by (intro exI [of _ s] exI [of _ f]) (auto split: if_splits)
  qed
qed

lemma rdp_getPrime_least:
  "\<exists>i < primeCount. rdp_getPrime k = Some i \<and> (\<forall>j < i. primeList ! j < k + 1) \<and> (k < 997 \<longrightarrow> k + 1 \<le> primeList ! i)"
proof -
  have gp: "rdp_getPrime k = search_prime (\<lambda>q. q < k + 1) (\<lambda>q. q \<ge> k + 1) 0 167" by (simp add: rdp_getPrime_def primeCount_def)
  have "0 + 1 < (167 :: nat)" by simp
  from search_prime_spec [OF this, of "\<lambda>q. q < k + 1" "\<lambda>q. q \<ge> k + 1", folded gp]
  obtain s f where sf: "rdp_getPrime k = Some (if primeList ! s \<ge> k + 1 then s else f)" "s + 1 = f" "f \<le> 167"
      "s = 0 \<or> primeList ! s < k + 1" "f = 167 \<or> \<not> primeList ! f < k + 1" by blast
  show ?thesis
  proof (cases "primeList ! s \<ge> k + 1")
    case True
    then show ?thesis using sf by (intro exI [of _ s]) (auto simp: primeCount_def)
  next
    case False
    have "primeList ! j < k + 1" if "j < f" for j
      using primeList_mono [of j s] that sf(2,3) False by (auto simp: primeCount_def)
    then show ?thesis using False sf primeList_facts(3) by (intro exI [of _ f]) (auto simp: primeCount_def)
  qed
qed

lemma find_symbols_spec:
  "find_symbols chunkSize pp = Some pp' \<Longrightarrow>
     pp \<le> pp' \<and> pp' < primeCount \<and> (primeList ! pp' - 1) dvd chunkSize \<and> (\<forall>j. pp \<le> j \<and> j < pp' \<longrightarrow> \<not> (primeList ! j - 1) dvd chunkSize)"
proof (induction chunkSize pp rule: find_symbols.induct)
  case (1 chunkSize pp)
  have pp: "pp < primeCount" using "1.prems" primeList_facts(1) by (subst (asm) find_symbols.simps) (auto simp: item_at_def split: if_splits)
  then have item: "item_at primeList pp = Some (primeList ! pp)" using primeList_facts(1) by (simp add: item_at_def)
  show ?case
  proof (cases "(primeList ! pp - 1) dvd chunkSize")
    case True
    then show ?thesis using "1.prems" pp by (subst (asm) find_symbols.simps) (auto simp: item mod_eq_0_iff_dvd)
  next
    case False
    then have "find_symbols chunkSize (pp + 1) = Some pp'"
      using "1.prems" pp by (subst (asm) find_symbols.simps) (auto simp: item mod_eq_0_iff_dvd)
    from "1.IH" [OF item _ this] False pp show ?thesis
      by (auto simp: mod_eq_0_iff_dvd) (metis False Suc_leI le_neq_implies_less)
  qed
qed

definition rdp_ok :: "RDPCoding \<Rightarrow> bool" where
  "rdp_ok r \<longleftrightarrow> is_prime (rdp_p r) \<and> rdp_k r < rdp_p r \<and> rdp_chunkSize r = (rdp_p r - 1) * rdp_symbolSize r \<and> rdp_chunkSize r < 2 ^ 32"

lemma get_symbols_spec:
  assumes "get_symbols prime k chunkSize = Some r"
  shows "\<exists>i pp. prime = Some i \<and> i \<le> pp \<and> pp < primeCount \<and> rdp_p r = primeList ! pp \<and> rdp_k r = k \<and> rdp_chunkSize r = chunkSize
    \<and> is_prime (rdp_p r) \<and> chunkSize = (rdp_p r - 1) * rdp_symbolSize r"
proof -
  obtain i pp where pp: "prime = Some i" "find_symbols chunkSize i = Some pp" "item_at primeList pp = Some (rdp_p r)"
      "rdp_k r = k" "rdp_chunkSize r = chunkSize" "rdp_symbolSize r = chunkSize div (rdp_p r - 1)"
    using assms by (auto simp: get_symbols_def split: bind_splits if_splits)
  have "rdp_p r = primeList ! pp" "pp < length primeList" using pp(3) by (auto simp: item_at_def split: if_splits)
  moreover from this have "rdp_p r \<in> set primeList" by simp
  ultimately show ?thesis using find_symbols_spec [OF pp(2)] pp primeList_prime by auto
qed

lemma rdp_new_ok:
  assumes "rdp_new k chunkSize = Some r" and "k < 997" and "chunkSize < 2 ^ 32"
  shows "rdp_ok r \<and> rdp_k r = k \<and> rdp_chunkSize r = chunkSize"
proof -
  obtain i pp where i: "rdp_getPrime k = Some i" "i \<le> pp" "pp < primeCount" "rdp_p r = primeList ! pp"
    and r: "rdp_k r = k" "rdp_chunkSize r = chunkSize" "is_prime (rdp_p r)" "chunkSize = (rdp_p r - 1) * rdp_symbolSize r"
    using get_symbols_spec [of "rdp_getPrime k" k chunkSize r] assms(1) unfolding rdp_new_def by auto
  have "k + 1 \<le> primeList ! i" using rdp_getPrime_least [of k] i(1) assms(2) by auto
  then have "k < rdp_p r" using primeList_mono [OF i(2,3)] i(4) by simp
  then show ?thesis using r assms(3) by (simp add: rdp_ok_def)
qed

end
