(* ===== verification/Symbols.thy ===== *)
theory Symbols
  imports Rdp
begin

unbundle bit_operations_syntax

text \<open>
  The symbol view of a stripe, used for the array codes: a chunk is \<open>q\<close> symbols of \<open>z\<close> bytes, and the
  stripe is a function of chunk number, symbol number and byte.  \<open>stripe_is\<close> relates chunk memory to this
  view, \<open>xor_symbol\<close> executes one XOR of symbols on it; the section on cycles has the arithmetic of the
  order in which two lost chunks are repaired.
\<close>

section \<open>Symbols\<close>

lemma symbol_pos: "j < q \<Longrightarrow> b < z \<Longrightarrow> j * z + b < q * (z :: nat)"
proof -
  assume "j < q" "b < z"
  have "Suc j * z \<le> q * z" using \<open>j < q\<close> by (intro mult_le_mono1) simp
  then show ?thesis using \<open>b < z\<close> by simp
qed

lemma symbol_range_iff:
  fixes z :: nat
  assumes "b < z" and "off + len \<le> z"
  shows "(j * z + off \<le> i * z + b \<and> i * z + b < j * z + off + len) = (i = j \<and> off \<le> b \<and> b < off + len)"
proof (cases i j rule: linorder_cases)
  case less
  then have "Suc i * z \<le> j * z" by (intro mult_le_mono1) simp
  then show ?thesis using assms less by simp
next
  case greater
  then have "Suc j * z \<le> i * z" by (intro mult_le_mono1) simp
  then show ?thesis using assms greater by simp
qed auto

lemma symbol_bytes:
  fixes z :: nat
  assumes "\<And>s b. s < q \<Longrightarrow> b < z \<Longrightarrow> P (s * z + b)" and "b < q * z"
  shows "P b"
proof -
  have z: "0 < z" using assms(2) by (cases z) simp_all
  have "b div z < q" using assms(2) by (simp add: less_mult_imp_div_less)
  from assms(1) [OF this, of "b mod z"] z show ?thesis by simp
qed

text \<open>A chunk of \<open>q\<close> symbols holds \<open>f\<close>.\<close>

definition chunk_is :: "nat \<Rightarrow> nat \<Rightarrow> memory \<Rightarrow> (nat \<Rightarrow> nat \<Rightarrow> byte) \<Rightarrow> bool" where
  "chunk_is q z m f \<longleftrightarrow> chunk_ok (q * z) m \<and> (\<forall>s < q. \<forall>b < z. dbyte m (s * z + b) = f s b)"

definition stripe_is :: "nat \<Rightarrow> nat \<Rightarrow> nat \<Rightarrow> memory list \<Rightarrow> (nat \<Rightarrow> nat \<Rightarrow> nat \<Rightarrow> byte) \<Rightarrow> bool" where
  "stripe_is q z n cs V \<longleftrightarrow> length cs = n \<and> (\<forall>i < n. chunk_is q z (cs ! i) (V i))"

lemma chunk_is_self: "chunk_ok (q * z) m \<Longrightarrow> chunk_is q z m (\<lambda>s b. dbyte m (s * z + b))"
  by (simp add: chunk_is_def)

lemma chunk_is_cong: "chunk_is q z m f \<Longrightarrow> (\<And>s b. s < q \<Longrightarrow> b < z \<Longrightarrow> f s b = g s b) \<Longrightarrow> chunk_is q z m g"
  by (simp add: chunk_is_def)

lemma stripe_is_cong:
  "stripe_is q z n cs V \<Longrightarrow> (\<And>i s b. i < n \<Longrightarrow> s < q \<Longrightarrow> b < z \<Longrightarrow> V i s b = W i s b) \<Longrightarrow> stripe_is q z n cs W"
  by (auto simp: stripe_is_def chunk_is_def)

lemma stripe_is_ok: "stripe_is q z n cs V \<Longrightarrow> stripe_ok (q * z) n cs"
  by (auto simp: stripe_is_def stripe_ok_def chunk_is_def in_set_conv_nth)

lemma stripe_is_self: "stripe_ok (q * z) n cs \<Longrightarrow> stripe_is q z n cs (\<lambda>i s b. sb cs i (s * z + b))"
  by (auto simp: stripe_is_def stripe_ok_def chunk_is_def sb_def)

lemma stripe_is_sb: "stripe_is q z n cs V \<Longrightarrow> i < n \<Longrightarrow> s < q \<Longrightarrow> b < z \<Longrightarrow> sb cs i (s * z + b) = V i s b"
  by (simp add: stripe_is_def chunk_is_def sb_def)

lemma stripe_is_data_eq:
  assumes "stripe_is q z n cs V" and "stripe_is q z n cs' V"
  shows "data_eq (q * z) n cs cs'"
  unfolding data_eq_def
proof (intro allI impI)
  fix i b assume "i < n" "b < q * z"
  from \<open>b < q * z\<close> show "sb cs i b = sb cs' i b"
    by (rule symbol_bytes [rotated]) (simp add: stripe_is_sb [OF assms(1) \<open>i < n\<close>] stripe_is_sb [OF assms(2) \<open>i < n\<close>])
qed

lemma stripe_is_item: "stripe_is q z n cs V \<Longrightarrow> i < n \<Longrightarrow> \<exists>c. item_at cs i = Some c \<and> cs ! i = c \<and> chunk_is q z c (V i)"
  by (simp add: stripe_is_def item_at_def)

lemma stripe_is_update:
  "stripe_is q z n cs V \<Longrightarrow> i < n \<Longrightarrow> chunk_is q z c f \<Longrightarrow> stripe_is q z n (cs[i := c]) (V(i := f))"
  by (simp add: stripe_is_def nth_list_update)

lemma xor_data_symbol:
  assumes "chunk_is q z m f" and "chunk_is q z src g" and "j < q" and "s < q" and "off + len \<le> z" and "q * z < 2 ^ 32"
  shows "\<exists>m'. xor_data m (j * z + off) src (s * z + off) len = Some m'
    \<and> chunk_is q z m' (\<lambda>i b. if i = j \<and> off \<le> b \<and> b < off + len then f j b XOR g s b else f i b)"
proof -
  have fits: "i * z + off + len \<le> q * z" if "i < q" for i
  proof -
    have "Suc i * z \<le> q * z" using that by (intro mult_le_mono1) simp
    then show ?thesis using assms(5) by simp
  qed
  have len: "len < 2 ^ 32" using fits [OF assms(3)] assms(6) by simp
  have ok: "chunk_ok (q * z) m" "chunk_ok (q * z) src" using assms(1,2) by (simp_all add: chunk_is_def)
  obtain m' where m': "xor_data m (j * z + off) src (s * z + off) len = Some m'" "chunk_ok (q * z) m'"
    "\<forall>b < q * z. dbyte m' b = (if j * z + off \<le> b \<and> b < j * z + off + len then dbyte m b XOR dbyte src (s * z + off + (b - (j * z + off))) else dbyte m b)"
    using xor_data_spec [OF ok fits [OF assms(3)] fits [OF assms(4)] len] by blast
  have "dbyte m' (i * z + b) = (if i = j \<and> off \<le> b \<and> b < off + len then f j b XOR g s b else f i b)" if "i < q" "b < z" for i b
    unfolding m'(3) [rule_format, OF symbol_pos [OF that]] symbol_range_iff [OF that(2) assms(5)]
    using assms(1-4) that by (auto simp: chunk_is_def)
  then show ?thesis using m'(1,2) by (auto simp: chunk_is_def)
qed

lemma xor_symbol:
  assumes "stripe_is q z n cs V" and "t < n" and "u < n" and "j < q" and "s < q" and "q * z < 2 ^ 32"
  shows "\<exists>cs'. xor_chunk cs t (j * z) u (s * z) z = Some cs'
    \<and> stripe_is q z n cs' (\<lambda>i l b. if i = t \<and> l = j then V t j b XOR V u s b else V i l b)"
proof -
  from stripe_is_item [OF assms(1,2)] obtain d where d: "item_at cs t = Some d" "chunk_is q z d (V t)" by blast
  from stripe_is_item [OF assms(1,3)] obtain c where c: "item_at cs u = Some c" "chunk_is q z c (V u)" by blast
  from xor_data_symbol [OF d(2) c(2) assms(4,5) _ assms(6), of 0 z]
  obtain m where m: "xor_data d (j * z) c (s * z) z = Some m" "chunk_is q z m (\<lambda>i b. if i = j \<and> 0 \<le> b \<and> b < 0 + z then V t j b XOR V u s b else V t i b)" by auto
  from stripe_is_update [OF assms(1,2) m(2)] have "stripe_is q z n (cs[t := m]) (\<lambda>i l b. if i = t \<and> l = j then V t j b XOR V u s b else V i l b)"
    by (rule stripe_is_cong) auto
  then show ?thesis using d(1) c(1) m(1) by (simp add: xor_chunk_def)
qed

text \<open>The row loop on whole chunks, and the chunk it restores.\<close>

lemma xor_all_view:
  assumes V: "stripe_is q z n cs V" and "m \<le> n" and "x < n" and "q * z < 2 ^ 32"
  shows "\<exists>cs'. foldM (\<lambda>i cs. if i = x then Some cs else xor_chunk cs x 0 i 0 (q * z)) [0..<m] cs = Some cs'
    \<and> stripe_is q z n cs' (V(x := \<lambda>s b. V x s b XOR xsum (\<lambda>c. V c s b) ({..<m} - {x})))"
proof -
  from xor_all_spec [OF stripe_is_ok [OF V] assms(2-4)] obtain cs' where
    cs': "foldM (\<lambda>i cs. if i = x then Some cs else xor_chunk cs x 0 i 0 (q * z)) [0..<m] cs = Some cs'" "stripe_ok (q * z) n cs'"
      "\<forall>i < n. \<forall>b < q * z. sb cs' i b = (if i = x then sb cs x b XOR xsum (\<lambda>i. sb cs i b) ({..<m} - {x}) else sb cs i b)" by blast
  from stripe_is_self [OF cs'(2)] have "stripe_is q z n cs' (V(x := \<lambda>s b. V x s b XOR xsum (\<lambda>c. V c s b) ({..<m} - {x})))"
  proof (rule stripe_is_cong)
    fix i s b assume i: "i < n" and sb: "s < q" "b < z"
    have "xsum (\<lambda>i. sb cs i (s * z + b)) ({..<m} - {x}) = xsum (\<lambda>c. V c s b) ({..<m} - {x})"
      by (rule xors.cong) (use assms(2) in \<open>auto simp: stripe_is_sb [OF V _ sb]\<close>)
    then show "sb cs' i (s * z + b) = (V(x := \<lambda>s b. V x s b XOR xsum (\<lambda>c. V c s b) ({..<m} - {x}))) i s b"
      using cs'(3) i symbol_pos [OF sb] stripe_is_sb [OF V _ sb] assms(3) by auto
  qed
  with cs'(1) show ?thesis by blast
qed

lemma row_lost:
  assumes row: "\<forall>s < q. \<forall>b < z. xsum (\<lambda>c. V c s b) {..<m} = 0" and "x < m" "m \<le> n" and "q * z < 2 ^ 32" and "E \<inter> {..<m} = {}"
    and W: "stripe_is q z n cs (\<lambda>i s b. if i \<in> insert x E then 0 else V i s b)"
  shows "\<exists>cs'. foldM (\<lambda>i cs. if i = x then Some cs else xor_chunk cs x 0 i 0 (q * z)) [0..<m] cs = Some cs'
    \<and> stripe_is q z n cs' (\<lambda>i s b. if i \<in> E then 0 else V i s b)"
proof -
  let ?W = "\<lambda>i s b. if i \<in> insert x E then 0 else V i s b"
  from xor_all_view [OF W assms(3) _ assms(4), of x] assms(2,3) obtain cs' where
    cs': "foldM (\<lambda>i cs. if i = x then Some cs else xor_chunk cs x 0 i 0 (q * z)) [0..<m] cs = Some cs'"
      "stripe_is q z n cs' (?W(x := \<lambda>s b. ?W x s b XOR xsum (\<lambda>c. ?W c s b) ({..<m} - {x})))" by auto
  have "xsum (\<lambda>c. ?W c s b) ({..<m} - {x}) = V x s b" if "s < q" "b < z" for s b
  proof -
    have "xsum (\<lambda>c. ?W c s b) ({..<m} - {x}) = xsum (\<lambda>c. V c s b) ({..<m} - {x})" by (rule xors.cong) (use assms(5) in auto)
    moreover have "V x s b = 0 XOR xsum (\<lambda>c. V c s b) ({..<m} - {x})" by (rule xsum_solve) (use row that assms(2) in auto)
    ultimately show ?thesis by simp
  qed
  then have "stripe_is q z n cs' (\<lambda>i s b. if i \<in> E then 0 else V i s b)"
    using cs'(2) assms(2,5) by (elim stripe_is_cong) auto
  with cs'(1) show ?thesis by blast
qed

section \<open>Residues\<close>

lemma residue_eq: "c < p \<Longrightarrow> s < p \<Longrightarrow> j < p \<Longrightarrow> ((c + s) mod p = j) = (s = (j + p - c) mod (p :: nat))"
  by (cases "c + s < p"; cases "c \<le> j") (auto simp: mod_if)

lemma residue_back: "c < p \<Longrightarrow> j < p \<Longrightarrow> (c + (j + p - c) mod p) mod p = (j :: nat)"
  by (subst residue_eq) auto

lemma residue_inj: "c < p \<Longrightarrow> d < p \<Longrightarrow> j < p \<Longrightarrow> (j + p - c) mod p = (j + p - d) mod p \<Longrightarrow> c = (d :: nat)"
  by (cases "c \<le> j"; cases "d \<le> j") (auto simp: mod_if split: if_splits)

section \<open>The cycle of rows\<close>

text \<open>
  With the columns \<open>R\<close> and \<open>D\<close> lost, \<open>row p R D t\<close> is the row repaired in round \<open>t\<close> when column \<open>D\<close> is repaired along
  diagonals and column \<open>R\<close> along rows.  For a prime \<open>p\<close> the rounds \<open>1\<close> to \<open>p - 1\<close> visit every row once.
\<close>

definition row :: "nat \<Rightarrow> nat \<Rightarrow> nat \<Rightarrow> nat \<Rightarrow> nat" where
  "row p R D t = nat ((int t * (int R - int D) - 1) mod int p)"

lemma int_row: "0 < p \<Longrightarrow> int (row p R D t) = (int t * (int R - int D) - 1) mod int p"
  by (simp add: row_def)

lemma row_less: "0 < p \<Longrightarrow> row p R D t < p"
  using int_row [of p R D t] by (metis Euclidean_Rings.pos_mod_bound of_nat_0_less_iff of_nat_less_iff)

lemma row_0: "0 < p \<Longrightarrow> row p R D 0 = p - 1"
  by (cases p) (auto simp: row_def zmod_minus1)

lemma row_next: "0 < p \<Longrightarrow> (R + row p R D t) mod p = (D + row p R D (t + 1)) mod p"
proof -
  assume p: "0 < p"
  have "int ((R + row p R D t) mod p) = (int R + (int t * (int R - int D) - 1)) mod int p"
    by (simp add: zmod_int int_row [OF p] mod_simps)
  also have "int R + (int t * (int R - int D) - 1) = int D + (int (t + 1) * (int R - int D) - 1)" by (simp add: algebra_simps)
  also have "\<dots> mod int p = int ((D + row p R D (t + 1)) mod p)" by (simp add: zmod_int int_row [OF p] mod_simps)
  finally show ?thesis by simp
qed

lemma row_swap: "0 < p \<Longrightarrow> t \<le> p \<Longrightarrow> row p D R t = row p R D (p - t)"
proof -
  assume p: "0 < p" "t \<le> p"
  have "int (p - t) * (int R - int D) - 1 = int t * (int D - int R) - 1 + int p * (int R - int D)"
    using p by (simp add: algebra_simps)
  then show ?thesis unfolding row_def by (simp only: mod_mult_self2)
qed

lemma prime_coprime:
  assumes "is_prime p" and "e \<noteq> 0" and "\<bar>e\<bar> < int p"
  shows "coprime (int p) e"
proof -
  define d where "d = nat (gcd (int p) e)"
  have d: "int d = gcd (int p) e" by (simp add: d_def)
  then have "int d dvd int p" "int d dvd e" by simp_all
  then have "d = 1 \<or> d = p" using assms(1) by (simp add: is_prime_def)
  moreover have "d \<noteq> p"
  proof
    assume "d = p"
    then have "int p dvd \<bar>e\<bar>" using \<open>int d dvd e\<close> by simp
    then show False using zdvd_imp_le [of "int p" "\<bar>e\<bar>"] assms(2,3) by simp
  qed
  ultimately show ?thesis using d by (simp add: coprime_iff_gcd_eq_1)
qed

lemma row_inj:
  assumes "is_prime p" and "R < p" and "D < p" and "R \<noteq> D" and "t < p" and "u < p" and "row p R D t = row p R D u"
  shows "t = u"
proof -
  let ?e = "int R - int D"
  have p: "0 < p" using assms(5) by simp
  have "(int t * ?e - 1) mod int p = (int u * ?e - 1) mod int p" using assms(7) int_row [OF p] by metis
  then have "int p dvd (int t * ?e - 1) - (int u * ?e - 1)" by (simp add: mod_eq_dvd_iff)
  also have "(int t * ?e - 1) - (int u * ?e - 1) = (int t - int u) * ?e" by (simp add: algebra_simps)
  finally have "int p dvd int t - int u"
    using prime_coprime [OF assms(1), of ?e] assms(2-4) by (simp add: coprime_dvd_mult_left_iff)
  then show ?thesis using zdvd_imp_le [of "int p" "\<bar>int t - int u\<bar>"] assms(5,6) by (cases "t = u") auto
qed

lemma row_inner: "is_prime p \<Longrightarrow> R < p \<Longrightarrow> D < p \<Longrightarrow> R \<noteq> D \<Longrightarrow> 0 < t \<Longrightarrow> t < p \<Longrightarrow> row p R D t < p - 1"
  using row_less [of p R D t] row_0 [of p R D] row_inj [of p R D t 0] by force

lemma row_onto:
  assumes "is_prime p" and "R < p" and "D < p" and "R \<noteq> D"
  shows "row p R D ` {1..p - 1} = {..<p - 1}"
proof (rule card_subset_eq)
  show "row p R D ` {1..p - 1} \<subseteq> {..<p - 1}" using row_inner [OF assms] by auto
  have "inj_on (row p R D) {1..p - 1}" using row_inj [OF assms] assms(2) by (intro inj_onI) auto
  then show "card (row p R D ` {1..p - 1}) = card {..<p - 1}" by (simp add: card_image)
qed simp

end
