(* ===== verification/RdpRepair.thy ===== *)
theory RdpRepair
  imports Symbols
begin

unbundle bit_operations_syntax

text \<open>
  The repair of two lost columns in row-diagonal parity: code words, one round of the repair loop, and the
  whole loop, which visits every row in the order of the cycle of rows.
\<close>

section \<open>Code words\<close>

text \<open>A symbol, with the imaginary last row of zeros.\<close>

definition ext :: "nat \<Rightarrow> (nat \<Rightarrow> nat \<Rightarrow> nat \<Rightarrow> byte) \<Rightarrow> nat \<Rightarrow> nat \<Rightarrow> nat \<Rightarrow> byte" where
  "ext p V c s b = (if s = p - 1 then 0 else V c s b)"

definition diagonal :: "nat \<Rightarrow> (nat \<Rightarrow> nat \<Rightarrow> nat \<Rightarrow> byte) \<Rightarrow> nat set \<Rightarrow> nat \<Rightarrow> nat \<Rightarrow> byte" where
  "diagonal p V C j b = xsum (\<lambda>c. ext p V c ((j + p - c) mod p) b) C"

definition rdp_code :: "RDPCoding \<Rightarrow> (nat \<Rightarrow> nat \<Rightarrow> nat \<Rightarrow> byte) \<Rightarrow> bool" where
  "rdp_code r V \<longleftrightarrow> (\<forall>s < rdp_p r - 1. \<forall>b < rdp_symbolSize r.
     xsum (\<lambda>c. V c s b) {..rdp_k r} = 0 \<and> V (rdp_k r + 1) s b = diagonal (rdp_p r) V {..rdp_k r} s b)"

definition rdp_codeword :: "RDPCoding \<Rightarrow> memory list \<Rightarrow> bool" where
  "rdp_codeword r cs \<longleftrightarrow> stripe_ok (rdp_chunkSize r) (rdp_k r + 2) cs \<and> rdp_code r (\<lambda>i s b. sb cs i (s * rdp_symbolSize r + b))"

lemma ext_row [simp]: "ext p V c (p - Suc 0) b = 0"
  by (simp add: ext_def)

lemma ext_inner: "s < p - 1 \<Longrightarrow> ext p V c s b = V c s b"
  by (simp add: ext_def)

section \<open>One round of the repair of two columns\<close>

text \<open>What is known of the stripe when the rows in \<open>done\<close> are repaired: the rest of the lost columns is zero.\<close>

definition masked :: "nat set \<Rightarrow> nat set \<Rightarrow> (nat \<Rightarrow> nat \<Rightarrow> nat \<Rightarrow> byte) \<Rightarrow> nat \<Rightarrow> nat \<Rightarrow> nat \<Rightarrow> byte" where
  "masked E rows V i s b = (if i \<in> E \<and> s \<notin> rows then 0 else V i s b)"

lemma masked_out: "i \<notin> E \<Longrightarrow> masked E rows V i s b = V i s b"
  by (simp add: masked_def)

lemma repair_loop:
  fixes R D d j p z :: nat and V :: "nat \<Rightarrow> nat \<Rightarrow> nat \<Rightarrow> byte"
  assumes "stripe_is (p - 1) z n cs V" and "(p - 1) * z < 2 ^ 32" and "R < m" "D < m" "R \<noteq> D" and "m \<le> n" "m \<le> p"
    and "d < p - 1" and "j = (d + p - D) mod p" and "j < p - 1"
  shows "\<exists>cs'. foldM (\<lambda>c cs. if c = D then Some cs
             else do { let s = (d + p - c) mod p;
                       cs \<leftarrow> (if s \<noteq> p - 1 then xor_chunk cs D (j * z) c (s * z) z else Some cs);
                       if c = R then Some cs else xor_chunk cs R (j * z) c (j * z) z }) [0..<m] cs = Some cs'
    \<and> stripe_is (p - 1) z n cs' (\<lambda>i s b.
        if i = D \<and> s = j then V D j b XOR diagonal p V ({..<m} - {D}) d b
        else if i = R \<and> s = j then V R j b XOR xsum (\<lambda>c. V c j b) ({..<m} - {D} - {R})
        else V i s b)"
proof -
  let ?W = "\<lambda>k i s b. if i = D \<and> s = j then V D j b XOR diagonal p V ({..<k} - {D}) d b
        else if i = R \<and> s = j then V R j b XOR xsum (\<lambda>c. V c j b) ({..<k} - {D} - {R}) else V i s b"
  show ?thesis
  proof (rule foldM_upt_inv [where P = "\<lambda>k cs. stripe_is (p - 1) z n cs (?W k)"])
    show "stripe_is (p - 1) z n cs (?W 0)" using assms(1) by (rule stripe_is_cong) (simp add: diagonal_def)
  next
    fix k c assume k: "k < m" and P: "stripe_is (p - 1) z n c (?W k)"
    let ?s = "(d + p - k) mod p"
    have lt: "k < n" "D < n" "R < n" "k < p" "d < p" "D < p" using k assms by simp_all
    show "\<exists>c'. (if k = D then Some c else do { let s = ?s;
                 cs \<leftarrow> (if s \<noteq> p - 1 then xor_chunk c D (j * z) k (s * z) z else Some c);
                 if k = R then Some cs else xor_chunk cs R (j * z) k (j * z) z }) = Some c' \<and> stripe_is (p - 1) z n c' (?W (Suc k))"
    proof (cases "k = D")
      case True
      have "{..<Suc k} - {D} = {..<k} - {D}" using True by auto
      then have "stripe_is (p - 1) z n c (?W (Suc k))" using P by (simp only:)
      then show ?thesis using True by simp
    next
      case False
      have ins: "{..<Suc k} - {D} = insert k ({..<k} - {D})" using False by auto
      have other: "?s \<noteq> j" using residue_inj [of k p D d] False lt assms(9) by auto
      let ?W1 = "\<lambda>i s b. if i = D \<and> s = j then V D j b XOR diagonal p V ({..<Suc k} - {D}) d b else ?W k i s b"
      have "\<exists>c1. (if ?s \<noteq> p - 1 then xor_chunk c D (j * z) k (?s * z) z else Some c) = Some c1 \<and> stripe_is (p - 1) z n c1 ?W1"
      proof (cases "?s = p - 1")
        case True
        have "stripe_is (p - 1) z n c ?W1" using P by (rule stripe_is_cong) (simp add: ins diagonal_def xsum_insert True)
        then show ?thesis using True by simp
      next
        case s: False
        then have "?s < p - 1" using mod_less_divisor [of p "d + p - k"] lt(4) by linarith
        from xor_symbol [OF P lt(2,1) assms(10) this assms(2)] s obtain c1 where
          "xor_chunk c D (j * z) k (?s * z) z = Some c1"
          "stripe_is (p - 1) z n c1 (\<lambda>i l b. if i = D \<and> l = j then ?W k D j b XOR ?W k k ?s b else ?W k i l b)" by blast
        note c1 = this
        have "stripe_is (p - 1) z n c1 ?W1" using c1(2)
          by (rule stripe_is_cong) (use other False \<open>?s < p - 1\<close> in \<open>auto simp: ins diagonal_def xsum_insert ext_inner xor.assoc xor.commute xor.left_commute\<close>)
        then show ?thesis using c1(1) s by simp
      qed
      then obtain c1 where c1: "(if ?s \<noteq> p - 1 then xor_chunk c D (j * z) k (?s * z) z else Some c) = Some c1" "stripe_is (p - 1) z n c1 ?W1" by blast
      show ?thesis
      proof (cases "k = R")
        case True
        have "{..<Suc R} - {D} - {R} = {..<R} - {D} - {R}" by auto
        then have "stripe_is (p - 1) z n c1 (?W (Suc k))" using c1(2) True by (elim stripe_is_cong) auto
        then show ?thesis unfolding Let_def c1(1) if_not_P [OF False] if_P [OF True] Option.bind.bind_lunit by blast
      next
        case R: False
        from xor_symbol [OF c1(2) lt(3,1) assms(10,10,2)] obtain c2 where
          c2: "xor_chunk c1 R (j * z) k (j * z) z = Some c2"
            "stripe_is (p - 1) z n c2 (\<lambda>i l b. if i = R \<and> l = j then ?W1 R j b XOR ?W1 k j b else ?W1 i l b)" by blast
        have ins': "{..<Suc k} - {D} - {R} = insert k ({..<k} - {D} - {R})" using False R by auto
        have "stripe_is (p - 1) z n c2 (?W (Suc k))" using c2(2)
          by (rule stripe_is_cong) (use False R assms(5) in \<open>auto simp: ins' xsum_insert xor.assoc xor.commute xor.left_commute\<close>)
        then show ?thesis unfolding Let_def c1(1) if_not_P [OF False] if_not_P [OF R] Option.bind.bind_lunit c2(1) by blast
      qed
    qed
  qed
qed

lemma repair_symbols_spec:
  assumes ok: "rdp_ok r" and V: "stripe_is (rdp_p r - 1) (rdp_symbolSize r) (rdp_k r + 2) cs V"
    and "R \<le> rdp_k r" "D \<le> rdp_k r" "R \<noteq> D" and "d < rdp_p r - 1" and "j = (d + rdp_p r - D) mod rdp_p r" and "j < rdp_p r - 1"
  shows "\<exists>cs'. repair_symbols r (aim r R D d) cs = Some cs' \<and> stripe_is (rdp_p r - 1) (rdp_symbolSize r) (rdp_k r + 2) cs'
    (\<lambda>i s b. let e = V D j b XOR diagonal (rdp_p r) V ({..rdp_k r} - {D}) d b XOR V (rdp_k r + 1) d b in
       if i = D \<and> s = j then e
       else if i = R \<and> s = j then V R j b XOR xsum (\<lambda>c. V c j b) ({..rdp_k r} - {D} - {R}) XOR e else V i s b)"
proof -
  let ?k = "rdp_k r" and ?p = "rdp_p r" and ?z = "rdp_symbolSize r"
  have le: "?k + 1 \<le> ?p" and fits: "(?p - 1) * ?z < 2 ^ 32" and set: "{..<?k + 1} = {..?k}"
    using ok by (auto simp: rdp_ok_def)
  have lt: "R < ?k + 1" "D < ?k + 1" "R < ?k + 2" "D < ?k + 2" "?k + 1 < ?k + 2" "?k + 1 \<le> ?k + 2" using assms by simp_all
  let ?e = "\<lambda>b. V D j b XOR diagonal ?p V ({..?k} - {D}) d b"
  let ?rest = "\<lambda>b. V R j b XOR xsum (\<lambda>c. V c j b) ({..?k} - {D} - {R})"
  let ?W = "\<lambda>i s b. if i = D \<and> s = j then ?e b else if i = R \<and> s = j then ?rest b else V i s b"
  from repair_loop [OF V fits lt(1,2) assms(5) lt(6) le assms(6-8)] obtain c1 where
    c1: "foldM (\<lambda>cidx chunks. if cidx = D then Some chunks
            else do { let sidx = (d + ?p - cidx) mod ?p;
                      chunks \<leftarrow> (if sidx \<noteq> ?p - 1 then xor_chunk chunks D (j * ?z) cidx (sidx * ?z) ?z else Some chunks);
                      if cidx = R then Some chunks else xor_chunk chunks R (j * ?z) cidx (j * ?z) ?z })
            [0..<?k + 1] cs = Some c1" "stripe_is (?p - 1) ?z (?k + 2) c1 ?W"
    unfolding set by blast
  from xor_symbol [OF c1(2) lt(4,5) assms(8,6) fits] obtain c2 where
    c2: "xor_chunk c1 D (j * ?z) (?k + 1) (d * ?z) ?z = Some c2"
      "stripe_is (?p - 1) ?z (?k + 2) c2 (\<lambda>i l b. if i = D \<and> l = j then ?W D j b XOR ?W (?k + 1) d b else ?W i l b)" by blast
  from xor_symbol [OF c2(2) lt(3,4) assms(8,8) fits] obtain c3 where
    c3: "xor_chunk c2 R (j * ?z) D (j * ?z) ?z = Some c3"
      "stripe_is (?p - 1) ?z (?k + 2) c3 (\<lambda>i l b. if i = R \<and> l = j
        then (if R = D \<and> j = j then ?W D j b XOR ?W (?k + 1) d b else ?W R j b) XOR (if D = D \<and> j = j then ?W D j b XOR ?W (?k + 1) d b else ?W D j b)
        else if i = D \<and> l = j then ?W D j b XOR ?W (?k + 1) d b else ?W i l b)" by blast
  from c3(2) have "stripe_is (?p - 1) ?z (?k + 2) c3 (\<lambda>i s b. let e = ?e b XOR V (?k + 1) d b in
       if i = D \<and> s = j then e else if i = R \<and> s = j then V R j b XOR xsum (\<lambda>c. V c j b) ({..?k} - {D} - {R}) XOR e else V i s b)"
    by (rule stripe_is_cong) (use assms(3,4,5) in \<open>auto simp: Let_def xor.assoc\<close>)
  moreover have "repair_symbols r (aim r R D d) cs = Some c3"
    using c1(1) c2(1) c3(1) unfolding repair_symbols_def aim_def Let_def repair.simps assms(7) [symmetric] by (simp only: Option.bind.bind_lunit)
  ultimately show ?thesis by (simp add: xor.assoc Let_def)
qed

lemma masked_zero: "i \<in> E \<Longrightarrow> s \<notin> rows \<Longrightarrow> masked E rows V i s b = 0"
  by (simp add: masked_def)

lemma repair_round:
  assumes ok: "rdp_ok r" and code: "rdp_code r V"
    and m: "stripe_is (rdp_p r - 1) (rdp_symbolSize r) (rdp_k r + 2) cs (masked {R, D} rows V)"
    and "R \<le> rdp_k r" "D \<le> rdp_k r" "R \<noteq> D" and "d < rdp_p r - 1" and "j = (d + rdp_p r - D) mod rdp_p r" and "j < rdp_p r - 1" and "j \<notin> rows"
    and ready: "(d + rdp_p r - R) mod rdp_p r \<in> insert (rdp_p r - 1) rows"
  shows "\<exists>cs'. repair_symbols r (aim r R D d) cs = Some cs'
    \<and> stripe_is (rdp_p r - 1) (rdp_symbolSize r) (rdp_k r + 2) cs' (masked {R, D} (insert j rows) V)"
proof -
  let ?k = "rdp_k r" and ?p = "rdp_p r" and ?z = "rdp_symbolSize r" and ?M = "masked {R, D} rows V"
  from repair_symbols_spec [OF ok m assms(4-9)] obtain cs' where cs': "repair_symbols r (aim r R D d) cs = Some cs'"
    "stripe_is (?p - 1) ?z (?k + 2) cs' (\<lambda>i s b. let e = ?M D j b XOR diagonal ?p ?M ({..?k} - {D}) d b XOR ?M (?k + 1) d b in
       if i = D \<and> s = j then e else if i = R \<and> s = j then ?M R j b XOR xsum (\<lambda>c. ?M c j b) ({..?k} - {D} - {R}) XOR e else ?M i s b)" by blast
  have D: "?M D j b XOR diagonal ?p ?M ({..?k} - {D}) d b XOR ?M (?k + 1) d b = V D j b" if b: "b < ?z" for b
  proof -
    have "diagonal ?p ?M ({..?k} - {D}) d b = diagonal ?p V ({..?k} - {D}) d b"
      unfolding diagonal_def by (rule xors.cong) (use ready in \<open>auto simp: ext_def masked_def\<close>)
    moreover have "ext ?p V D j b = V (?k + 1) d b XOR diagonal ?p V ({..?k} - {D}) d b"
      unfolding diagonal_def assms(8) by (rule xsum_solve) (use code b assms(5,7) in \<open>auto simp: rdp_code_def diagonal_def\<close>)
    ultimately show ?thesis using assms(4,5,9,10) by (simp add: ext_inner masked_zero masked_out xor.commute)
  qed
  have R: "?M R j b XOR xsum (\<lambda>c. ?M c j b) ({..?k} - {D} - {R}) XOR V D j b = V R j b" if b: "b < ?z" for b
  proof -
    have "xsum (\<lambda>c. ?M c j b) ({..?k} - {D} - {R}) = xsum (\<lambda>c. V c j b) ({..?k} - {D} - {R})"
      by (rule xors.cong) (auto simp: masked_out)
    moreover have "V D j b = 0 XOR xsum (\<lambda>c. V c j b) ({..?k} - {D})"
      by (rule xsum_solve) (use code b assms(5,9) in \<open>auto simp: rdp_code_def\<close>)
    moreover have "xsum (\<lambda>c. V c j b) ({..?k} - {D}) = V R j b XOR xsum (\<lambda>c. V c j b) ({..?k} - {D} - {R})"
      by (rule xsum_remove) (use assms(4,6) in auto)
    ultimately show ?thesis using assms(10) by (simp add: masked_zero xor.commute xor.left_commute)
  qed
  have "stripe_is (?p - 1) ?z (?k + 2) cs' (masked {R, D} (insert j rows) V)"
    using cs'(2)
  proof (rule stripe_is_cong)
    fix i s b assume "b < ?z"
    then show "(let e = ?M D j b XOR diagonal ?p ?M ({..?k} - {D}) d b XOR ?M (?k + 1) d b in
       if i = D \<and> s = j then e else if i = R \<and> s = j then ?M R j b XOR xsum (\<lambda>c. ?M c j b) ({..?k} - {D} - {R}) XOR e else ?M i s b)
       = masked {R, D} (insert j rows) V i s b"
      unfolding Let_def D [OF \<open>b < ?z\<close>] R [OF \<open>b < ?z\<close>] by (auto simp: masked_def)
  qed
  with cs'(1) show ?thesis by blast
qed

section \<open>The rounds\<close>

text \<open>The state of the loop before round \<open>t + 1\<close> of a run that repairs \<open>D\<close> along diagonals.\<close>

definition at_round :: "RDPCoding \<Rightarrow> nat \<Rightarrow> nat \<Rightarrow> nat \<Rightarrow> repair" where
  "at_round r R D t =
     (let d = (D + row (rdp_p r) R D (t + 1)) mod rdp_p r in if d = rdp_p r - 1 then aim r D R (D - 1) else aim r R D d)"

lemma rdp_ok_prime: "rdp_ok r \<Longrightarrow> is_prime (rdp_p r) \<and> 0 < rdp_p r"
  by (simp add: rdp_ok_def)

lemma at_round_0:
  assumes "rdp_ok r" and "0 < R" and "R \<le> rdp_k r"
  shows "at_round r R D 0 = aim r R D (R - 1)"
proof -
  have p: "0 < rdp_p r" "R < rdp_p r" using assms by (simp_all add: rdp_ok_def)
  have "(D + row (rdp_p r) R D (0 + 1)) mod rdp_p r = (R + (rdp_p r - 1)) mod rdp_p r"
    using row_next [OF p(1), of R D 0] row_0 [OF p(1)] by simp
  also have "R + (rdp_p r - 1) = (R - 1) + rdp_p r" using assms(2) p(1) by simp
  also have "(R - 1 + rdp_p r) mod rdp_p r = R - 1" using p(2) by (simp only: mod_add_self2) simp
  finally show ?thesis using p assms(2) by (simp add: at_round_def Let_def)
qed

lemma aim_row:
  assumes "rdp_ok r" and "D \<le> rdp_k r"
  shows "((D + row (rdp_p r) R D t) mod rdp_p r + rdp_p r - D) mod rdp_p r = row (rdp_p r) R D t"
proof -
  have p: "0 < rdp_p r" "D < rdp_p r" using assms by (simp_all add: rdp_ok_def)
  show ?thesis using residue_eq [OF p(2) row_less [OF p(1), of R D t], of "(D + row (rdp_p r) R D t) mod rdp_p r"] p(1) by simp
qed

lemma next_round:
  assumes "rdp_ok r" and "D \<le> rdp_k r"
  shows "next_repair r (aim r R D ((D + row (rdp_p r) R D t) mod rdp_p r)) = at_round r R D t"
  using row_next [of "rdp_p r" R D t] rdp_ok_prime [OF assms(1)]
  by (simp add: next_repair_def at_round_def aim_def aim_row [OF assms] Let_def)

lemma repair_run:
  assumes ok: "rdp_ok r" and code: "rdp_code r V" and cols: "R \<le> rdp_k r" "D \<le> rdp_k r" "R \<noteq> D"
  shows "t + m \<le> rdp_p r - 1 \<Longrightarrow>
    (\<forall>u \<in> {t + 1..t + m}. (D + row (rdp_p r) R D u) mod rdp_p r \<noteq> rdp_p r - 1 \<and> row (rdp_p r) R D u \<notin> rows) \<Longrightarrow>
    stripe_is (rdp_p r - 1) (rdp_symbolSize r) (rdp_k r + 2) cs (masked {R, D} (rows \<union> row (rdp_p r) R D ` {1..t}) V) \<Longrightarrow>
    \<exists>cs'. repair_rounds r (m + l) (at_round r R D t) cs = repair_rounds r l (at_round r R D (t + m)) cs'
      \<and> stripe_is (rdp_p r - 1) (rdp_symbolSize r) (rdp_k r + 2) cs' (masked {R, D} (rows \<union> row (rdp_p r) R D ` {1..t + m}) V)"
proof (induction m arbitrary: t cs)
  case 0
  then show ?case by auto
next
  case (Suc m)
  let ?p = "rdp_p r" and ?row = "row (rdp_p r) R D"
  let ?d = "(D + ?row (t + 1)) mod ?p"
  have prime: "is_prime ?p" "0 < ?p" "R < ?p" "D < ?p" using ok cols by (simp_all add: rdp_ok_def)
  have t: "0 < t + 1" "t + 1 < ?p" using Suc.prems(1) prime(2) by auto
  have d: "?d \<noteq> ?p - 1" "?d < ?p" and fresh: "?row (t + 1) \<notin> rows" using Suc.prems(2) prime(2) by auto
  have j: "?row (t + 1) = (?d + ?p - D) mod ?p" by (rule aim_row [OF ok cols(2), symmetric])
  have new: "?row (t + 1) \<notin> rows \<union> ?row ` {1..t}"
  proof
    assume "?row (t + 1) \<in> rows \<union> ?row ` {1..t}"
    then obtain v where "v \<le> t" "?row (t + 1) = ?row v" using fresh by auto
    then show False using row_inj [OF prime(1,3,4) cols(3), of "t + 1" v] t by simp
  qed
  have "(?d + ?p - R) mod ?p = ?row t"
    using row_next [OF prime(2), of R D t] residue_eq [OF prime(3) row_less [OF prime(2)], of ?d R D t] d(2) by metis
  then have ready: "(?d + ?p - R) mod ?p \<in> insert (?p - 1) (rows \<union> ?row ` {1..t})"
    using row_0 [OF prime(2), of R D] by (cases "t = 0") auto
  have "?d < ?p - 1" using d by linarith
  from repair_round [OF ok code Suc.prems(3) cols this j row_inner [OF prime(1,3,4) cols(3) t] new ready]
  obtain c1 where c1: "repair_symbols r (aim r R D ?d) cs = Some c1"
    "stripe_is (?p - 1) (rdp_symbolSize r) (rdp_k r + 2) c1 (masked {R, D} (insert (?row (t + 1)) (rows \<union> ?row ` {1..t})) V)" by blast
  have "insert (?row (t + 1)) (rows \<union> ?row ` {1..t}) = rows \<union> ?row ` {1..t + 1}" by (auto simp: atLeastAtMostSuc_conv)
  from Suc.IH [OF _ _ c1(2) [unfolded this]] Suc.prems(1,2) obtain c2 where
    c2: "repair_rounds r (m + l) (at_round r R D (t + 1)) c1 = repair_rounds r l (at_round r R D (t + 1 + m)) c2"
      "stripe_is (?p - 1) (rdp_symbolSize r) (rdp_k r + 2) c2 (masked {R, D} (rows \<union> ?row ` {1..t + 1 + m}) V)" by auto
  have "at_round r R D t = aim r R D ?d" using d(1) by (simp add: at_round_def Let_def)
  then have "repair_rounds r (Suc m + l) (at_round r R D t) cs = repair_rounds r (m + l) (at_round r R D (t + 1)) c1"
    using c1(1) next_round [OF ok cols(2), of R "t + 1"] by simp
  then show ?case using c2 by auto
qed

lemma masked_all: "stripe_is q z n cs (masked E rows V) \<Longrightarrow> {..<q} \<subseteq> rows \<Longrightarrow> stripe_is q z n cs V"
  by (erule stripe_is_cong) (auto simp: masked_def)

section \<open>Two runs\<close>

text \<open>
  When \<open>D\<close> is not column 0 the first run stops before the round \<open>s\<close> whose diagonal is the missing one; the
  second run, with the columns exchanged, visits the remaining rows from the other end of the cycle.
\<close>

lemma stop_round:
  assumes "is_prime p" "R < p" "D < p" "R \<noteq> D" and "D \<noteq> 0"
  shows "\<exists>s. 1 \<le> s \<and> s \<le> p - 1 \<and> (\<forall>u < p. (D + row p R D u) mod p = p - 1 \<longleftrightarrow> u = s)"
proof -
  have "p - 1 - D \<in> row p R D ` {1..p - 1}" unfolding row_onto [OF assms(1-4)] using assms(3,5) by auto
  then obtain s where s: "1 \<le> s" "s \<le> p - 1" "row p R D s = p - 1 - D" by auto
  have "(D + row p R D u) mod p = p - 1 \<longleftrightarrow> u = s" if "u < p" for u
  proof -
    have "row p R D u = p - 1 - D \<longleftrightarrow> u = s" using row_inj [OF assms(1-4) that, of s] s by auto
    moreover have "(D + row p R D u) mod p = p - 1 \<longleftrightarrow> row p R D u = p - 1 - D"
      using residue_eq [OF assms(3) row_less, of "p - 1" R D u] assms(3) by (simp add: mod_if)
    ultimately show ?thesis by simp
  qed
  then show ?thesis using s by blast
qed

lemma second_run:
  assumes prime: "is_prime p" "R < p" "D < p" "R \<noteq> D" and "D \<noteq> 0"
    and s: "1 \<le> s" "s \<le> p - 1" "\<forall>u < p. (D + row p R D u) mod p = p - 1 \<longleftrightarrow> u = s" and u: "1 \<le> u" "u \<le> p - s"
  shows "(R + row p D R u) mod p \<noteq> p - 1 \<and> row p D R u \<notin> row p R D ` {1..s - 1}"
proof
  have p: "0 < p" "u \<le> p" using prime(2) u(2) by simp_all
  have rev: "row p D R u = row p R D (p - u)" by (rule row_swap [OF p])
  have "(R + row p D R u) mod p = (D + row p R D (p - u + 1)) mod p" unfolding rev by (rule row_next [OF p(1)])
  also have "\<dots> \<noteq> p - 1"
  proof (cases "u = 1")
    case True
    have "row p R D p = p - 1" using row_0 [OF p(1), of D R] row_swap [OF p(1), of 0 D R] by simp
    then have "(D + row p R D (p - u + 1)) mod p = (D - 1 + p) mod p" using True assms(5) p(1) by simp
    also have "\<dots> = D - 1" using prime(3) by (simp only: mod_add_self2) simp
    finally show ?thesis using prime(3) assms(5) by simp
  next
    case False
    then have "p - u + 1 < p" "p - u + 1 \<noteq> s" using u s(1,2) by auto
    then show ?thesis using s(3) by blast
  qed
  finally show "(R + row p D R u) mod p \<noteq> p - 1" .
  show "row p D R u \<notin> row p R D ` {1..s - 1}"
  proof
    assume "row p D R u \<in> row p R D ` {1..s - 1}"
    then obtain v where v: "1 \<le> v" "v \<le> s - 1" "row p R D (p - u) = row p R D v" using rev by auto
    have "p - u < p" "v < p" using u v s by auto
    then show False using row_inj [OF prime, of "p - u" v] u v s by simp
  qed
qed

lemma runs_cover:
  assumes prime: "is_prime p" "R < p" "D < p" "R \<noteq> D" and "1 \<le> s" "s \<le> p - 1"
  shows "{..<p - 1} \<subseteq> row p R D ` {1..s - 1} \<union> row p D R ` {1..p - s}"
proof
  fix q assume "q \<in> {..<p - 1}"
  then have "q \<in> row p R D ` {1..p - 1}" by (simp only: row_onto [OF prime])
  then obtain u where u: "1 \<le> u" "u \<le> p - 1" "q = row p R D u" by auto
  show "q \<in> row p R D ` {1..s - 1} \<union> row p D R ` {1..p - s}"
  proof (cases "u \<le> s - 1")
    case True
    then show ?thesis using u by auto
  next
    case False
    then have "p - u \<in> {1..p - s}" using u by auto
    moreover have "q = row p D R (p - u)" using row_swap [of p "p - u" D R] prime(2) u by simp
    ultimately show ?thesis by blast
  qed
qed

lemma repair_rounds_all:
  assumes ok: "rdp_ok r" and code: "rdp_code r V" and cols: "R \<le> rdp_k r" "D \<le> rdp_k r" "R \<noteq> D" "0 < R"
    and V: "stripe_is (rdp_p r - 1) (rdp_symbolSize r) (rdp_k r + 2) cs (masked {R, D} {} V)"
  shows "\<exists>cs'. repair_rounds r (rdp_p r - 1) (aim r R D (R - 1)) cs = Some cs'
    \<and> stripe_is (rdp_p r - 1) (rdp_symbolSize r) (rdp_k r + 2) cs' V"
proof -
  let ?p = "rdp_p r" and ?row = "row (rdp_p r) R D" and ?is = "stripe_is (rdp_p r - 1) (rdp_symbolSize r) (rdp_k r + 2)"
  have prime: "is_prime ?p" "R < ?p" "D < ?p" "R \<noteq> D" and p: "0 < ?p" using ok cols by (simp_all add: rdp_ok_def)
  have V0: "?is cs (masked {R, D} ({} \<union> ?row ` {1..0}) V)" using V by simp
  show ?thesis
  proof (cases "D = 0")
    case True
    have "\<forall>u \<in> {0 + 1..0 + (?p - 1)}. (D + ?row u) mod ?p \<noteq> ?p - 1 \<and> ?row u \<notin> {}"
    proof
      fix u assume "u \<in> {0 + 1..0 + (?p - 1)}"
      then have "?row u < ?p - 1" using row_inner [OF prime, of u] by auto
      then show "(D + ?row u) mod ?p \<noteq> ?p - 1 \<and> ?row u \<notin> {}" using True p by simp
    qed
    from repair_run [OF ok code cols(1-3) _ this V0, of 0] obtain c where
      "repair_rounds r (?p - 1) (at_round r R D 0) cs = Some c" "?is c (masked {R, D} ({} \<union> ?row ` {1..0 + (?p - 1)}) V)" by auto
    then show ?thesis using row_onto [OF prime] at_round_0 [OF ok cols(4,1)] by (auto dest!: masked_all)
  next
    case False
    from stop_round [OF prime False] obtain s where s: "1 \<le> s" "s \<le> ?p - 1" "\<forall>u < ?p. (D + ?row u) mod ?p = ?p - 1 \<longleftrightarrow> u = s" by blast
    have first: "\<forall>u \<in> {0 + 1..0 + (s - 1)}. (D + ?row u) mod ?p \<noteq> ?p - 1 \<and> ?row u \<notin> {}"
    proof
      fix u assume "u \<in> {0 + 1..0 + (s - 1)}"
      then have "u < ?p" "u \<noteq> s" using s by auto
      then show "(D + ?row u) mod ?p \<noteq> ?p - 1 \<and> ?row u \<notin> {}" using s(3) by blast
    qed
    have "0 + (s - 1) \<le> ?p - 1" using s by simp
    from repair_run [OF ok code cols(1-3) this first V0, of "?p - s"] obtain c where
      c: "repair_rounds r (s - 1 + (?p - s)) (at_round r R D 0) cs = repair_rounds r (?p - s) (at_round r R D (0 + (s - 1))) c"
        "?is c (masked {R, D} ({} \<union> ?row ` {1..0 + (s - 1)}) V)" by blast
    have swap: "at_round r R D (s - 1) = at_round r D R 0"
      using s p at_round_0 [OF ok _ cols(2), of R] False by (simp add: at_round_def Let_def)
    have V1: "?is c (masked {D, R} (?row ` {1..s - 1} \<union> row ?p D R ` {1..0}) V)" using c(2) by (simp add: insert_commute)
    have second: "\<forall>u \<in> {0 + 1..0 + (?p - s)}. (R + row ?p D R u) mod ?p \<noteq> ?p - 1 \<and> row ?p D R u \<notin> ?row ` {1..s - 1}"
      using second_run [OF prime False s] by simp
    have "0 + (?p - s) \<le> ?p - 1" using s by simp
    from repair_run [OF ok code cols(2,1) cols(3) [symmetric] this second V1, of 0] obtain c2 where
      c2: "repair_rounds r (?p - s + 0) (at_round r D R 0) c = repair_rounds r 0 (at_round r D R (0 + (?p - s))) c2"
        "?is c2 (masked {D, R} (?row ` {1..s - 1} \<union> row ?p D R ` {1..0 + (?p - s)}) V)" by blast
    from masked_all [OF c2(2)] runs_cover [OF prime s(1,2)] show ?thesis
      using c(1) c2(1) swap at_round_0 [OF ok cols(4,1), of D] s by auto
  qed
qed

end
