(* ===== verification/RdpCode.thy ===== *)
theory RdpCode
  imports RdpRepair
begin

unbundle bit_operations_syntax

text \<open>
  Row-diagonal parity as an erasure code: the encoder computes row and diagonal parity, also from the modified
  range of the data only, and the decoder restores any two lost chunks.
\<close>

section \<open>The encoder\<close>

lemma symbol_range_None:
  "symbol_range part z startOff endOff off = None \<Longrightarrow> b < z \<Longrightarrow> part \<and> \<not> (startOff \<le> off + b \<and> off + b < endOff)"
  by (auto simp: symbol_range_def Let_def split: if_splits)

lemma symbol_range_Some:
  assumes "symbol_range part z startOff endOff off = Some (from, len)" and "startOff \<le> endOff"
  shows "from + len \<le> z \<and> (\<forall>b < z. (from \<le> b \<and> b < from + len) = (part \<longrightarrow> startOff \<le> off + b \<and> off + b < endOff))"
  using assms by (auto simp: symbol_range_def Let_def split: if_splits)

text \<open>Data is zero outside a range of positions in the stripe.\<close>

definition zero_outside :: "RDPCoding \<Rightarrow> nat \<Rightarrow> nat \<Rightarrow> nat \<Rightarrow> (nat \<Rightarrow> nat \<Rightarrow> byte) \<Rightarrow> bool" where
  "zero_outside r startOff endOff c f \<longleftrightarrow> (\<forall>s < rdp_p r - 1. \<forall>b < rdp_symbolSize r.
     \<not> (startOff \<le> c * rdp_chunkSize r + s * rdp_symbolSize r + b \<and> c * rdp_chunkSize r + s * rdp_symbolSize r + b < endOff) \<longrightarrow> f s b = 0)"

lemma rdp_column_spec:
  assumes ok: "rdp_ok r" and "c \<le> rdp_k r" and src: "chunk_is (rdp_p r - 1) (rdp_symbolSize r) src f"
    and par: "chunk_is (rdp_p r - 1) (rdp_symbolSize r) parity g" and "startOff \<le> endOff" and zero: "part \<longrightarrow> zero_outside r startOff endOff c f"
  shows "\<exists>parity'. rdp_column r part startOff endOff c src parity = Some parity'
    \<and> chunk_is (rdp_p r - 1) (rdp_symbolSize r) parity' (\<lambda>j b. g j b XOR ext (rdp_p r) (\<lambda>_. f) c ((j + rdp_p r - c) mod rdp_p r) b)"
proof -
  let ?p = "rdp_p r" and ?z = "rdp_symbolSize r"
  let ?h = "\<lambda>k j b. g j b XOR (if (j + ?p - c) mod ?p < k then f ((j + ?p - c) mod ?p) b else 0)"
  have c: "c < ?p" "0 < ?p" and fits: "(?p - 1) * ?z < 2 ^ 32" using ok assms(2) by (auto simp: rdp_ok_def)
  have "\<exists>parity'. rdp_column r part startOff endOff c src parity = Some parity' \<and> chunk_is (?p - 1) ?z parity' (?h (?p - 1))"
    unfolding rdp_column_def
  proof (rule foldM_upt_inv [where P = "\<lambda>k par. chunk_is (?p - 1) ?z par (?h k)"])
    show "chunk_is (?p - 1) ?z parity (?h 0)" using par by simp
  next
    fix s q assume s: "s < ?p - 1" and P: "chunk_is (?p - 1) ?z q (?h s)"
    let ?off = "c * rdp_chunkSize r + s * ?z" and ?j = "(c + s) mod ?p"
    have hit: "(j + ?p - c) mod ?p = s \<longleftrightarrow> ?j = j" if "j < ?p - 1" for j using residue_eq [OF c(1), of s j] s that by auto
    show "\<exists>q'. (case symbol_range part ?z startOff endOff ?off of None \<Rightarrow> Some q
          | Some (offset, len) \<Rightarrow> let pidx = ?j in if pidx = ?p - 1 then Some q else xor_data q (pidx * ?z + offset) src (s * ?z + offset) len) = Some q'
        \<and> chunk_is (?p - 1) ?z q' (?h (Suc s))"
    proof (cases "symbol_range part ?z startOff endOff ?off")
      case None
      have "f s b = 0" if "b < ?z" for b
        using symbol_range_None [OF None that] zero s that by (auto simp: zero_outside_def)
      then have "chunk_is (?p - 1) ?z q (?h (Suc s))" using P by (elim chunk_is_cong) (auto simp: less_Suc_eq)
      then show ?thesis using None by simp
    next
      case (Some w)
      obtain offset len where w: "w = (offset, len)" by fastforce
      note rng = symbol_range_Some [OF Some [unfolded w] assms(5)]
      show ?thesis
      proof (cases "?j = ?p - 1")
        case True
        have "chunk_is (?p - 1) ?z q (?h (Suc s))" using P by (rule chunk_is_cong) (use hit True in \<open>auto simp: less_Suc_eq\<close>)
        then show ?thesis using True Some w by simp
      next
        case False
        have "?j < ?p - 1" using False mod_less_divisor [OF c(2), of "c + s"] by linarith
        from xor_data_symbol [OF P src this s conjunct1 [OF rng] fits] obtain q' where
          q': "xor_data q (?j * ?z + offset) src (s * ?z + offset) len = Some q'"
            "chunk_is (?p - 1) ?z q' (\<lambda>i b. if i = ?j \<and> offset \<le> b \<and> b < offset + len then ?h s ?j b XOR f s b else ?h s i b)" by blast
        have skip: "f s b = 0" if "b < ?z" "\<not> (offset \<le> b \<and> b < offset + len)" for b
          using rng that zero s by (auto simp: zero_outside_def)
        have "chunk_is (?p - 1) ?z q' (?h (Suc s))" using q'(2)
        proof (rule chunk_is_cong)
          fix i b assume "i < ?p - 1" "b < ?z"
          then show "(if i = ?j \<and> offset \<le> b \<and> b < offset + len then ?h s ?j b XOR f s b else ?h s i b) = ?h (Suc s) i b"
            using hit [of i] hit [of ?j] skip [of b] \<open>?j < ?p - 1\<close> by (auto simp: less_Suc_eq)
        qed
        then show ?thesis using q'(1) False Some w by simp
      qed
    qed
  qed
  moreover have "?h (?p - 1) j b = g j b XOR ext ?p (\<lambda>_. f) c ((j + ?p - c) mod ?p) b" for j b
    using mod_less_divisor [OF c(2), of "j + ?p - c"] by (auto simp: ext_def)
  ultimately show ?thesis by simp
qed

lemma ext_const: "ext p (\<lambda>_. V c) c s b = ext p V c s b"
  by (simp add: ext_def)

lemma ext_zero:
  assumes "0 < p" and "\<And>s. s < p - 1 \<Longrightarrow> V c s b = 0"
  shows "ext p V c (s mod p) b = 0"
proof (cases "s mod p = p - 1")
  case False
  then have "s mod p < p - 1" using mod_less_divisor [OF assms(1), of s] by linarith
  then show ?thesis using assms(2) by (simp add: ext_def)
qed simp

lemma rdp_encode_diagonal:
  assumes ok: "rdp_ok r" and len: "rdp_k r \<le> length data"
    and data: "\<forall>i < rdp_k r. chunk_is (rdp_p r - 1) (rdp_symbolSize r) (data ! i) (V i)"
    and row: "\<forall>s < rdp_p r - 1. \<forall>b < rdp_symbolSize r. V (rdp_k r) s b = xsum (\<lambda>i. V i s b) {..<rdp_k r}"
    and par: "chunk_is (rdp_p r - 1) (rdp_symbolSize r) parity g" and "startOff \<le> endOff"
    and zero: "is_partial startOff endOff \<longrightarrow> (\<forall>i < rdp_k r. zero_outside r startOff endOff i (V i))"
  shows "\<exists>p. rdp_encode r data parity 2 startOff endOff = Some p
    \<and> chunk_is (rdp_p r - 1) (rdp_symbolSize r) p (\<lambda>j b. g j b XOR diagonal (rdp_p r) V {..rdp_k r} j b)"
proof -
  let ?p = "rdp_p r" and ?z = "rdp_symbolSize r" and ?k = "rdp_k r" and ?cs = "rdp_chunkSize r"
  have size: "?cs = (?p - 1) * ?z" "?cs < 2 ^ 32" using ok by (simp_all add: rdp_ok_def)
  obtain first where first: "raid5_encode ?cs (?k + 1) data (replicate (8 + ?cs) 0) = Some first" "chunk_ok ?cs first"
      "\<forall>b < ?cs. dbyte first b = dbyte (replicate (8 + ?cs) 0) b XOR xsum (\<lambda>i. sb data i b) {..<?k}"
    using raid5_encode_row [of "?k + 1" data ?cs "replicate (8 + ?cs) 0"] len data size by (auto simp: chunk_is_def chunk_ok_def)
  have fst: "chunk_is (?p - 1) ?z first (V ?k)"
    unfolding chunk_is_def
  proof (intro conjI allI impI)
    show "chunk_ok ((?p - 1) * ?z) first" using first(2) size(1) by simp
    fix s b assume sb: "s < ?p - 1" "b < ?z"
    have "dbyte first (s * ?z + b) = xsum (\<lambda>i. sb data i (s * ?z + b)) {..<?k}"
      using first(3) symbol_pos [OF sb] size(1) by (simp add: dbyte_def)
    also have "\<dots> = xsum (\<lambda>i. V i s b) {..<?k}" by (rule xors.cong) (use data sb in \<open>auto simp: sb_def chunk_is_def\<close>)
    finally show "dbyte first (s * ?z + b) = V ?k s b" using row sb by simp
  qed
  have cols: "\<exists>src. (if c < ?k then item_at data c else Some first) = Some src \<and> chunk_is (?p - 1) ?z src (V c)" if "c \<le> ?k" for c
    using that data len fst by (cases "c < ?k") (auto simp: item_at_def)
  let ?h = "\<lambda>c j b. g j b XOR diagonal ?p V {..<c} j b"
  have "\<exists>q. foldM (\<lambda>cidx parity. let part = is_partial startOff endOff \<and> cidx < ?k in
               if part \<and> ((cidx + 1) * ?cs < startOff \<or> cidx * ?cs > endOff) then Some parity
               else do { src \<leftarrow> (if cidx < ?k then item_at data cidx else Some first); rdp_column r part startOff endOff cidx src parity })
               [0..<?k + 1] parity = Some q \<and> chunk_is (?p - 1) ?z q (?h (?k + 1))"
  proof (rule foldM_upt_inv [where P = "\<lambda>c q. chunk_is (?p - 1) ?z q (?h c)"])
    show "chunk_is (?p - 1) ?z parity (?h 0)" using par by (simp add: diagonal_def)
  next
    fix c q assume c: "c < ?k + 1" and P: "chunk_is (?p - 1) ?z q (?h c)"
    let ?part = "is_partial startOff endOff \<and> c < ?k"
    have step: "?h (Suc c) j b = ?h c j b XOR ext ?p (\<lambda>_. V c) c ((j + ?p - c) mod ?p) b" for j b
      by (simp add: diagonal_def lessThan_Suc xsum_insert ext_const xor.assoc xor.commute xor.left_commute)
    from cols [of c] c obtain src where src: "(if c < ?k then item_at data c else Some first) = Some src" "chunk_is (?p - 1) ?z src (V c)" by auto
    have z: "?part \<longrightarrow> zero_outside r startOff endOff c (V c)" using zero by simp
    show "\<exists>q'. (let part = ?part in if part \<and> ((c + 1) * ?cs < startOff \<or> c * ?cs > endOff) then Some q
               else do { src \<leftarrow> (if c < ?k then item_at data c else Some first); rdp_column r part startOff endOff c src q }) = Some q'
        \<and> chunk_is (?p - 1) ?z q' (?h (Suc c))"
    proof (cases "?part \<and> ((c + 1) * ?cs < startOff \<or> c * ?cs > endOff)")
      case True
      have "V c s b = 0" if "s < ?p - 1" "b < ?z" for s b
        using z True that symbol_pos [OF that] size(1) by (auto simp: zero_outside_def)
      then have "ext ?p (\<lambda>_. V c) c ((j + ?p - c) mod ?p) b = 0" if "b < ?z" for j b
        using that ok by (intro ext_zero) (auto simp: rdp_ok_def)
      then have "chunk_is (?p - 1) ?z q (?h (Suc c))" using P by (elim chunk_is_cong) (simp only: step xor.right_neutral)
      then show ?thesis unfolding Let_def if_P [OF True] by blast
    next
      case False
      from rdp_column_spec [OF ok _ src(2) P assms(6) z] c obtain q' where
        "rdp_column r ?part startOff endOff c src q = Some q'" "chunk_is (?p - 1) ?z q' (?h (Suc c))" unfolding step by auto
      then show ?thesis unfolding Let_def if_not_P [OF False] src(1) Option.bind.bind_lunit by blast
    qed
  qed
  moreover have "{..<?k + 1} = {..?k}" by auto
  ultimately show ?thesis using first(1) by (simp add: rdp_encode_def)
qed

section \<open>The decoder\<close>

lemma encode_into_spec:
  assumes ok: "rdp_ok r" and V: "stripe_is (rdp_p r - 1) (rdp_symbolSize r) (rdp_k r + 2) cs V"
    and row: "\<forall>s < rdp_p r - 1. \<forall>b < rdp_symbolSize r. xsum (\<lambda>c. V c s b) {..rdp_k r} = 0"
  shows "\<exists>cs'. encode_into (\<lambda>d q. rdp_encode r d q 2 0 0) cs (rdp_k r + 1) = Some cs'
    \<and> stripe_is (rdp_p r - 1) (rdp_symbolSize r) (rdp_k r + 2) cs'
        (V(rdp_k r + 1 := \<lambda>j b. V (rdp_k r + 1) j b XOR diagonal (rdp_p r) V {..rdp_k r} j b))"
proof -
  let ?p = "rdp_p r" and ?z = "rdp_symbolSize r" and ?k = "rdp_k r"
  have lt: "?k + 1 < ?k + 2" by simp
  from stripe_is_item [OF V lt] obtain c where c: "item_at cs (?k + 1) = Some c" "chunk_is (?p - 1) ?z c (V (?k + 1))" by blast
  have len: "?k \<le> length cs" and data: "\<forall>i < ?k. chunk_is (?p - 1) ?z (cs ! i) (V i)" using V by (auto simp: stripe_is_def)
  have "\<forall>s < ?p - 1. \<forall>b < ?z. V ?k s b = xsum (\<lambda>i. V i s b) {..<?k}"
  proof (intro allI impI)
    fix s b assume "s < ?p - 1" "b < ?z"
    moreover have "{..?k} - {?k} = {..<?k}" by auto
    ultimately show "V ?k s b = xsum (\<lambda>i. V i s b) {..<?k}" using xsum_solve [of "{..?k}" ?k "\<lambda>c. V c s b" 0] row by auto
  qed
  from rdp_encode_diagonal [OF ok len data this c(2), of 0 0] obtain p where
    p: "rdp_encode r cs c 2 0 0 = Some p" "chunk_is (?p - 1) ?z p (\<lambda>j b. V (?k + 1) j b XOR diagonal ?p V {..?k} j b)"
    by (auto simp: is_partial_def)
  from stripe_is_update [OF V lt p(2)] show ?thesis using c(1) p(1) by (simp add: encode_into_def)
qed

lemma clear_chunk_spec:
  assumes "stripe_is q z n cs V" and "x < n"
  shows "\<exists>cs'. clear_chunk (q * z) cs x = Some cs' \<and> stripe_is q z n cs' (V(x := \<lambda>s b. 0))"
proof -
  obtain c where c: "item_at cs x = Some c" "chunk_is q z c (V x)" using stripe_is_item [OF assms] by blast
  have len: "length c = 8 + q * z" using c(2) by (simp add: chunk_is_def chunk_ok_def)
  have "chunk_is q z (replicate (8 + q * z) 0) (\<lambda>s b. 0)"
    by (auto simp: chunk_is_def chunk_ok_def dbyte_def symbol_pos)
  from stripe_is_update [OF assms this] show ?thesis using c(1) len by (simp add: clear_chunk_def poke_def)
qed

lemma codeword_view:
  assumes "rdp_ok r" and "rdp_codeword r cs"
  shows "\<exists>V. stripe_is (rdp_p r - 1) (rdp_symbolSize r) (rdp_k r + 2) cs V \<and> rdp_code r V
    \<and> stripe_is (rdp_p r - 1) (rdp_symbolSize r) (rdp_k r + 2) (erased E cs) (\<lambda>i s b. if i \<in> E then 0 else V i s b)"
proof -
  let ?V = "\<lambda>i s b. sb cs i (s * rdp_symbolSize r + b)"
  have size: "rdp_chunkSize r = (rdp_p r - 1) * rdp_symbolSize r" and ok: "stripe_ok ((rdp_p r - 1) * rdp_symbolSize r) (rdp_k r + 2) cs"
    using assms by (simp_all add: rdp_ok_def rdp_codeword_def)
  have "stripe_is (rdp_p r - 1) (rdp_symbolSize r) (rdp_k r + 2) (erased E cs) (\<lambda>i s b. if i \<in> E then 0 else ?V i s b)"
    by (rule stripe_is_cong [OF stripe_is_self [OF erased_ok [OF ok]]]) (simp add: sb_erased [OF ok] symbol_pos)
  then show ?thesis using stripe_is_self [OF ok] assms(2) unfolding rdp_codeword_def by blast
qed

lemma rdp_code_cong:
  assumes "rdp_code r V" and "\<And>i s b. i < rdp_k r + 2 \<Longrightarrow> s < rdp_p r - 1 \<Longrightarrow> b < rdp_symbolSize r \<Longrightarrow> W i s b = V i s b"
  shows "rdp_code r W"
  unfolding rdp_code_def
proof (intro allI impI conjI)
  fix s b assume sb: "s < rdp_p r - 1" "b < rdp_symbolSize r"
  have "xsum (\<lambda>c. W c s b) {..rdp_k r} = xsum (\<lambda>c. V c s b) {..rdp_k r}" by (rule xors.cong) (use assms(2) sb in auto)
  then show "xsum (\<lambda>c. W c s b) {..rdp_k r} = 0" using assms(1) sb by (simp add: rdp_code_def)
  have inner: "ext (rdp_p r) W c (t mod rdp_p r) b = ext (rdp_p r) V c (t mod rdp_p r) b" if "c \<le> rdp_k r" for c t
  proof (cases "t mod rdp_p r = rdp_p r - 1")
    case False
    then have "t mod rdp_p r < rdp_p r - 1" using mod_less_divisor [of "rdp_p r" t] sb(1) by linarith
    then show ?thesis using assms(2) that sb(2) by (simp add: ext_def)
  qed simp
  have "diagonal (rdp_p r) W {..rdp_k r} s b = diagonal (rdp_p r) V {..rdp_k r} s b"
    unfolding diagonal_def by (rule xors.cong) (auto simp: inner)
  then show "W (rdp_k r + 1) s b = diagonal (rdp_p r) W {..rdp_k r} s b" using assms sb by (simp add: rdp_code_def)
qed

text \<open>One lost column of the row code, and the diagonal parity.\<close>

lemma row_restores:
  assumes ok: "rdp_ok r" and code: "rdp_code r V" and "x \<le> rdp_k r" and W: "stripe_is (rdp_p r - 1) (rdp_symbolSize r) (rdp_k r + 2) cs (\<lambda>i s b. if i \<in> insert x E then 0 else V i s b)"
    and "E \<inter> {..rdp_k r} = {}"
  shows "\<exists>cs'. performXOR r cs x = Some cs' \<and> stripe_is (rdp_p r - 1) (rdp_symbolSize r) (rdp_k r + 2) cs' (\<lambda>i s b. if i \<in> E then 0 else V i s b)"
proof -
  let ?k = "rdp_k r"
  have set: "{..<?k + 1} = {..?k}" by auto
  have row: "\<forall>s < rdp_p r - 1. \<forall>b < rdp_symbolSize r. xsum (\<lambda>c. V c s b) {..<?k + 1} = 0" unfolding set using code by (simp add: rdp_code_def)
  have size: "(rdp_p r - 1) * rdp_symbolSize r = rdp_chunkSize r" "rdp_chunkSize r < 2 ^ 32" using ok by (simp_all add: rdp_ok_def)
  have lt: "x < ?k + 1" "?k + 1 \<le> ?k + 2" "E \<inter> {..<?k + 1} = {}" "\<not> x > ?k" using assms(3,5) set by simp_all
  from row_lost [OF row lt(1,2) _ lt(3) W, unfolded size(1), OF size(2)] show ?thesis unfolding performXOR_def if_not_P [OF lt(4)] .
qed

lemma diagonal_restores:
  assumes ok: "rdp_ok r" and code: "rdp_code r V" and W: "stripe_is (rdp_p r - 1) (rdp_symbolSize r) (rdp_k r + 2) cs (\<lambda>i s b. if i \<in> {rdp_k r + 1} then 0 else V i s b)"
  shows "\<exists>cs'. encode_into (\<lambda>d q. rdp_encode r d q 2 0 0) cs (rdp_k r + 1) = Some cs' \<and> stripe_is (rdp_p r - 1) (rdp_symbolSize r) (rdp_k r + 2) cs' V"
proof -
  let ?W = "\<lambda>i s b. if i \<in> {rdp_k r + 1} then 0 else V i s b" and ?k = "rdp_k r"
  have same: "xsum (\<lambda>c. ?W c s b) {..?k} = xsum (\<lambda>c. V c s b) {..?k}" for s b by (rule xors.cong) auto
  have diag: "diagonal (rdp_p r) ?W {..?k} s b = diagonal (rdp_p r) V {..?k} s b" for s b
    unfolding diagonal_def by (rule xors.cong) (auto simp: ext_def)
  have "\<forall>s < rdp_p r - 1. \<forall>b < rdp_symbolSize r. xsum (\<lambda>c. ?W c s b) {..?k} = 0" unfolding same using code by (simp add: rdp_code_def)
  from encode_into_spec [OF ok W this] obtain cs' where cs': "encode_into (\<lambda>d q. rdp_encode r d q 2 0 0) cs (?k + 1) = Some cs'"
    "stripe_is (rdp_p r - 1) (rdp_symbolSize r) (?k + 2) cs' (?W(?k + 1 := \<lambda>j b. ?W (?k + 1) j b XOR diagonal (rdp_p r) V {..?k} j b))"
    unfolding diag by blast
  from cs'(2) have "stripe_is (rdp_p r - 1) (rdp_symbolSize r) (?k + 2) cs' V"
    by (rule stripe_is_cong) (use code in \<open>auto simp: rdp_code_def\<close>)
  with cs'(1) show ?thesis by blast
qed

lemma two_restores:
  assumes ok: "rdp_ok r" and code: "rdp_code r V" and "x < y" "y \<le> rdp_k r"
    and W: "stripe_is (rdp_p r - 1) (rdp_symbolSize r) (rdp_k r + 2) cs (\<lambda>i s b. if i \<in> {x, y} then 0 else V i s b)"
  shows "\<exists>cs'. rdp_repair_two r x y cs = Some cs' \<and> stripe_is (rdp_p r - 1) (rdp_symbolSize r) (rdp_k r + 2) cs' V"
proof -
  have size: "rdp_chunkSize r = (rdp_p r - 1) * rdp_symbolSize r" using ok by (simp add: rdp_ok_def)
  have lt: "x < rdp_k r + 2" "y < rdp_k r + 2" using assms(3,4) by simp_all
  from clear_chunk_spec [OF W lt(1)] obtain c1 where c1: "clear_chunk (rdp_chunkSize r) cs x = Some c1"
    "stripe_is (rdp_p r - 1) (rdp_symbolSize r) (rdp_k r + 2) c1 ((\<lambda>i s b. if i \<in> {x, y} then 0 else V i s b)(x := \<lambda>s b. 0))" unfolding size by blast
  from clear_chunk_spec [OF c1(2) lt(2)] obtain c2 where c2: "clear_chunk (rdp_chunkSize r) c1 y = Some c2"
    "stripe_is (rdp_p r - 1) (rdp_symbolSize r) (rdp_k r + 2) c2 ((\<lambda>i s b. if i \<in> {x, y} then 0 else V i s b)(x := \<lambda>s b. 0, y := \<lambda>s b. 0))"
    unfolding size by blast
  let ?R = "if x = 0 then y else x" and ?D = "if x = 0 then x else y"
  have "stripe_is (rdp_p r - 1) (rdp_symbolSize r) (rdp_k r + 2) c2 (masked {?R, ?D} {} V)"
    using c2(2) by (rule stripe_is_cong) (auto simp: masked_def)
  moreover have "?R \<le> rdp_k r" "?D \<le> rdp_k r" "?R \<noteq> ?D" "0 < ?R" using assms(3,4) by auto
  ultimately obtain cs' where "repair_rounds r (rdp_p r - 1) (aim r ?R ?D (?R - 1)) c2 = Some cs'"
    "stripe_is (rdp_p r - 1) (rdp_symbolSize r) (rdp_k r + 2) cs' V" using repair_rounds_all [OF ok code] by blast
  then show ?thesis using c1(1) c2(1) unfolding rdp_repair_two_def Let_def by (simp only: Option.bind.bind_lunit) blast
qed

lemma card_le_2E:
  assumes "E \<subseteq> {..<n :: nat}" "E \<noteq> {}" "card E \<le> 2"
  obtains x where "E = {x}" "x < n" | x y where "E = {x, y}" "x < y" "y < n"
proof -
  have "card E \<noteq> 0" using assms finite_subset [OF assms(1)] by simp
  then consider "card E = 1" | "card E = 2" using assms(3) by linarith
  then show thesis
  proof cases
    case 1
    then obtain x where "E = {x}" by (auto simp: card_1_singleton_iff)
    then show thesis using that(1) assms(1) by blast
  next
    case 2
    then obtain x y where "E = {x, y}" "x \<noteq> y" by (auto simp: card_2_iff)
    then show thesis using that(2) [of x y] that(2) [of y x] assms(1) by (cases "x < y") (auto simp: insert_commute)
  qed
qed

lemma rdp_decode_one:
  "scan_lost bm 2 0 (rdp_k r + 2) [] = Some (Some [x]) \<Longrightarrow>
   (if x = rdp_k r + 1 then encode_into (\<lambda>d q. rdp_encode r d q 2 0 0) cs (rdp_k r + 1) else performXOR r cs x) = Some cs' \<Longrightarrow>
   rdp_decode r cs bm = Some (True, cs')"
  by (simp only: rdp_decode_def Option.bind.bind_lunit option.case list.case)

lemma rdp_decode_two:
  assumes "scan_lost bm 2 0 (rdp_k r + 2) [] = Some (Some [x, y])"
    and "if y = rdp_k r + 1 then performXOR r cs x = Some c1 \<and> encode_into (\<lambda>d q. rdp_encode r d q 2 0 0) c1 (rdp_k r + 1) = Some cs'
         else rdp_repair_two r x y cs = Some cs'"
  shows "rdp_decode r cs bm = Some (True, cs')"
  using assms by (simp only: rdp_decode_def Option.bind.bind_lunit option.case list.case simp_thms if_True if_False split: if_splits)

lemma rdp_recovers:
  assumes ok: "rdp_ok r" and "rdp_codeword r cs" and bm: "status_ok bm (rdp_k r + 2) E" and E: "E \<subseteq> {..<rdp_k r + 2}" "E \<noteq> {}" "card E \<le> 2"
  shows "\<exists>cs'. rdp_decode r (erased E cs) bm = Some (True, cs') \<and> stripe_ok (rdp_chunkSize r) (rdp_k r + 2) cs' \<and> data_eq (rdp_chunkSize r) (rdp_k r + 2) cs' cs"
proof -
  let ?k = "rdp_k r" and ?is = "stripe_is (rdp_p r - 1) (rdp_symbolSize r) (rdp_k r + 2)"
  from codeword_view [OF ok assms(2)] obtain V where V: "?is cs V" "rdp_code r V" "?is (erased E cs) (\<lambda>i s b. if i \<in> E then 0 else V i s b)" by blast
  have scan: "scan_lost bm 2 0 (?k + 2) [] = Some (Some (filter (\<lambda>j. j \<in> E) [0..<?k + 2]))" using scan_lost_status [OF bm E(1), of 2] E(3) by simp
  have "\<exists>cs'. rdp_decode r (erased E cs) bm = Some (True, cs') \<and> ?is cs' V"
  proof (rule card_le_2E [OF E])
    fix x assume x: "E = {x}" "x < ?k + 2"
    have scan1: "scan_lost bm 2 0 (?k + 2) [] = Some (Some [x])" using scan filter_singleton [OF x(2)] x(1) by simp
    show ?thesis
    proof (cases "x = ?k + 1")
      case True
      then show ?thesis using diagonal_restores [OF ok V(2) V(3) [unfolded x(1) True]] rdp_decode_one [OF scan1] x(1) by metis
    next
      case False
      have "x \<le> ?k" using x(2) False by simp
      from row_restores [OF ok V(2) this V(3) [unfolded x(1)]] False show ?thesis using rdp_decode_one [OF scan1] x(1) by auto
    qed
  next
    fix x y assume xy: "E = {x, y}" "x < y" "y < ?k + 2"
    have scan2: "scan_lost bm 2 0 (?k + 2) [] = Some (Some [x, y])" using scan filter_pair [OF xy(2,3)] xy(1) by simp
    show ?thesis
    proof (cases "y = ?k + 1")
      case True
      then obtain c1 where c1: "performXOR r (erased E cs) x = Some c1" "?is c1 (\<lambda>i s b. if i \<in> {?k + 1} then 0 else V i s b)"
        using row_restores [OF ok V(2), of x _ "{?k + 1}"] V(3) xy by auto
      from diagonal_restores [OF ok V(2) c1(2)] show ?thesis using c1(1) rdp_decode_two [OF scan2] True by auto
    next
      case False
      have "y \<le> ?k" using xy(3) False by simp
      from two_restores [OF ok V(2) xy(2) this V(3) [unfolded xy(1)]] show ?thesis using rdp_decode_two [OF scan2] False xy(1) by auto
    qed
  qed
  then show ?thesis using stripe_is_ok stripe_is_data_eq [OF _ V(1)] ok by (fastforce simp: rdp_ok_def)
qed

lemma rdp_refuses:
  assumes "status_ok bm (rdp_k r + 2) E" and "E \<subseteq> {..<rdp_k r + 2}" and "2 < card E"
  shows "rdp_decode r cs bm = Some (False, cs)"
  using scan_lost_status [OF assms(1,2), of 2] assms(3) by (simp add: rdp_decode_def del: scan_lost.simps)

lemma rdp_codeword_shape: "rdp_codeword r cs \<Longrightarrow> stripe_ok (rdp_chunkSize r) (rdp_k r + 2) cs"
  by (simp add: rdp_codeword_def)

interpretation rdp: erasure_code "rdp_chunkSize r" "rdp_k r + 2" 2 "\<lambda>cs. rdp_ok r \<and> rdp_codeword r cs" "rdp_decode r"
  for r
proof unfold_locales
  fix cs cs' assume cs: "rdp_ok r \<and> rdp_codeword r cs" and ok: "stripe_ok (rdp_chunkSize r) (rdp_k r + 2) cs'" and eq: "data_eq (rdp_chunkSize r) (rdp_k r + 2) cs' cs"
  have "sb cs' i (s * rdp_symbolSize r + b) = sb cs i (s * rdp_symbolSize r + b)"
    if "i < rdp_k r + 2" "s < rdp_p r - 1" "b < rdp_symbolSize r" for i s b
    using eq that symbol_pos [OF that(2,3)] cs by (auto simp: data_eq_def rdp_ok_def)
  then have "rdp_code r (\<lambda>i s b. sb cs' i (s * rdp_symbolSize r + b))"
    using rdp_code_cong [of r "\<lambda>i s b. sb cs i (s * rdp_symbolSize r + b)"] cs by (auto simp: rdp_codeword_def)
  then show "rdp_ok r \<and> rdp_codeword r cs'" using cs ok by (simp add: rdp_codeword_def)
qed (blast intro: rdp_refuses rdp_recovers rdp_codeword_shape)+

lemma rdp_encode_codeword:
  assumes ok: "rdp_ok r" and data: "stripe_ok (rdp_chunkSize r) (rdp_k r) data"
    and "chunk_ok (rdp_chunkSize r) c" "chunk_ok (rdp_chunkSize r) d" "\<forall>b < rdp_chunkSize r. dbyte c b = 0 \<and> dbyte d b = 0"
  shows "\<exists>p q. rdp_encode r data c 1 0 0 = Some p \<and> rdp_encode r data d 2 0 0 = Some q \<and> rdp_codeword r (data @ [p, q])"
proof -
  let ?k = "rdp_k r" and ?z = "rdp_symbolSize r" and ?p = "rdp_p r" and ?cs = "rdp_chunkSize r"
  have size: "?cs = (?p - 1) * ?z" "?cs < 2 ^ 32" and len: "length data = ?k" using ok data by (simp_all add: rdp_ok_def stripe_ok_def)
  obtain p where p: "rdp_encode r data c 1 0 0 = Some p" "chunk_ok ?cs p" "\<forall>b < ?cs. dbyte p b = xsum (\<lambda>i. sb data i b) {..<?k}"
    using raid5_encode_row [of "?k + 1" data ?cs c] data size assms(3,5) by (auto simp: rdp_encode_def stripe_ok_def)
  let ?W = "\<lambda>i s b. sb (data @ [p]) i (s * ?z + b)"
  have low: "sb (data @ [p]) i b = sb data i b" if "i < ?k" for i b using that len by (simp add: sb_def nth_append)
  have row: "?W ?k s b = xsum (\<lambda>i. ?W i s b) {..<?k}" if "s < ?p - 1" "b < ?z" for s b
    using p(3) symbol_pos [OF that] size(1) len low by (simp add: sb_def [of "data @ [p]" ?k] nth_append cong: xors.cong_simp)
  have "\<forall>i < ?k. chunk_is (?p - 1) ?z (data ! i) (?W i)" using data low size(1) by (auto simp: chunk_is_def stripe_ok_def sb_def)
  moreover have "chunk_is (?p - 1) ?z d (\<lambda>s b. 0)" using assms(4,5) size(1) symbol_pos by (auto simp: chunk_is_def)
  ultimately obtain q where q: "rdp_encode r data d 2 0 0 = Some q" "chunk_is (?p - 1) ?z q (\<lambda>j b. 0 XOR diagonal ?p ?W {..?k} j b)"
    using rdp_encode_diagonal [OF ok, of data ?W d "\<lambda>s b. 0" 0 0] len row by (auto simp: is_partial_def)
  let ?V = "\<lambda>i s b. sb (data @ [p, q]) i (s * ?z + b)"
  have eq: "?V i s b = ?W i s b" if "i \<le> ?k" for i s b using that len by (auto simp: sb_def nth_append le_less)
  have "rdp_code r ?V"
    unfolding rdp_code_def
  proof (intro allI impI conjI)
    fix s b assume sb: "s < ?p - 1" "b < ?z"
    have "xsum (\<lambda>c. ?V c s b) {..?k} = xsum (\<lambda>c. ?W c s b) (insert ?k {..<?k})" by (rule xors.cong) (auto simp: eq)
    also have "\<dots> = 0" using row [OF sb] by (simp add: xsum_insert)
    finally show "xsum (\<lambda>c. ?V c s b) {..?k} = 0" .
    have "?V (?k + 1) s b = dbyte q (s * ?z + b)" using len by (simp add: sb_def nth_append)
    also have "\<dots> = diagonal ?p ?W {..?k} s b" using q(2) sb by (simp add: chunk_is_def)
    also have "\<dots> = diagonal ?p ?V {..?k} s b" unfolding diagonal_def by (rule xors.cong) (auto simp: ext_def eq)
    finally show "?V (?k + 1) s b = diagonal ?p ?V {..?k} s b" .
  qed
  moreover have "stripe_ok ?cs (?k + 2) (data @ [p, q])" using data p(2) q(2) size(1) by (auto simp: stripe_ok_def chunk_is_def)
  ultimately show ?thesis using p(1) q(1) by (auto simp: rdp_codeword_def)
qed

section \<open>Updating the parities with a delta\<close>

lemma rdp_code_xor:
  assumes "rdp_code r V" and "rdp_code r U"
  shows "rdp_code r (\<lambda>i s b. V i s b XOR U i s b)"
proof -
  have "ext p (\<lambda>i s b. V i s b XOR U i s b) c s b = ext p V c s b XOR ext p U c s b" for p c s b by (simp add: ext_def)
  then show ?thesis using assms by (simp add: rdp_code_def diagonal_def xors.distrib)
qed

lemma xor_whole:
  assumes "chunk_is q z m f" and "chunk_is q z src g" and "q * z < 2 ^ 32"
  shows "\<exists>m'. xor_data m 0 src 0 (q * z) = Some m' \<and> chunk_is q z m' (\<lambda>s b. f s b XOR g s b)"
  using xor_data_spec [of "q * z" m src 0 "q * z" 0] assms symbol_pos by (fastforce simp: chunk_is_def)

lemma chunk_is_cleared: "chunk_is q z (replicate (8 + q * z) 0) (\<lambda>s b. 0)"
  by (auto simp: chunk_is_def chunk_ok_def dbyte_def symbol_pos)

text \<open>The stripe of a delta: \<open>delta_view\<close> is the row-parity column too.\<close>

definition delta_view :: "RDPCoding \<Rightarrow> nat \<Rightarrow> memory \<Rightarrow> nat \<Rightarrow> nat \<Rightarrow> nat \<Rightarrow> byte" where
  "delta_view r c delta i s b = (if i = c \<or> i = rdp_k r then dbyte delta (s * rdp_symbolSize r + b) else 0)"

lemma delta_view_row: "c < rdp_k r \<Longrightarrow> xsum (\<lambda>i. delta_view r c delta i s b) {..<rdp_k r} = delta_view r c delta (rdp_k r) s b"
  using xsum_remove [of "{..<rdp_k r}" c "\<lambda>i. delta_view r c delta i s b"] by (simp add: xors.neutral delta_view_def)

lemma rdp_delta_encode:
  assumes ok: "rdp_ok r" and c: "c < rdp_k r" and delta: "chunk_ok (rdp_chunkSize r) delta"
    and outside: "\<forall>b < rdp_chunkSize r. \<not> (off \<le> b \<and> b < off + len) \<longrightarrow> dbyte delta b = 0"
    and "zero = replicate (8 + rdp_chunkSize r) 0" and "ds = (replicate (rdp_k r) zero)[c := delta]"
    and "startOff = off + c * rdp_chunkSize r" and "endOff = startOff + len"
  shows "\<exists>p q. rdp_encode r ds zero 1 startOff endOff = Some p \<and> rdp_encode r ds zero 2 startOff endOff = Some q
    \<and> chunk_is (rdp_p r - 1) (rdp_symbolSize r) p (delta_view r c delta (rdp_k r))
    \<and> chunk_is (rdp_p r - 1) (rdp_symbolSize r) q (diagonal (rdp_p r) (delta_view r c delta) {..rdp_k r})"
proof -
  let ?k = "rdp_k r" and ?z = "rdp_symbolSize r" and ?p = "rdp_p r" and ?cs = "rdp_chunkSize r" and ?D = "delta_view r c delta"
  have size: "?cs = (?p - 1) * ?z" "?cs < 2 ^ 32" using ok by (simp_all add: rdp_ok_def)
  have zero: "chunk_is (?p - 1) ?z zero (\<lambda>s b. 0)" unfolding assms(5) size(1) by (rule chunk_is_cleared)
  have "chunk_is (?p - 1) ?z delta (?D c)" using delta size(1) by (simp add: chunk_is_def delta_view_def)
  then have ds: "length ds = ?k" "\<forall>i < ?k. chunk_is (?p - 1) ?z (ds ! i) (?D i)"
    using c assms(6) zero by (auto simp: nth_list_update delta_view_def [abs_def])
  obtain p where p: "raid5_encode ?cs (?k + 1) ds zero = Some p" "chunk_ok ?cs p" "\<forall>b < ?cs. dbyte p b = dbyte zero b XOR xsum (\<lambda>i. sb ds i b) {..<?k}"
    using raid5_encode_row [of "?k + 1" ds ?cs zero] ds zero size by (auto simp: chunk_is_def)
  have "dbyte p (s * ?z + b) = ?D ?k s b" if "s < ?p - 1" "b < ?z" for s b
  proof -
    have "xsum (\<lambda>i. sb ds i (s * ?z + b)) {..<?k} = xsum (\<lambda>i. ?D i s b) {..<?k}"
      by (rule xors.cong) (use ds that in \<open>auto simp: sb_def chunk_is_def\<close>)
    then show ?thesis using p(3) symbol_pos [OF that] size(1) zero that delta_view_row [OF c] by (simp add: chunk_is_def)
  qed
  then have "rdp_encode r ds zero 1 startOff endOff = Some p \<and> chunk_is (?p - 1) ?z p (?D ?k)" using p size(1) by (simp add: rdp_encode_def chunk_is_def)
  moreover have "\<forall>i < ?k. zero_outside r startOff endOff i (?D i)"
    using c outside assms(7,8) size(1) symbol_pos by (auto simp: zero_outside_def delta_view_def)
  from rdp_encode_diagonal [OF ok _ ds(2) _ zero, of startOff endOff] this delta_view_row [OF c] ds(1) assms(8) obtain q where
    "rdp_encode r ds zero 2 startOff endOff = Some q" "chunk_is (?p - 1) ?z q (diagonal ?p ?D {..?k})" by auto
  ultimately show ?thesis by blast
qed

lemma delta_view_code:
  assumes "c < rdp_k r"
  shows "rdp_code r ((delta_view r c delta)(rdp_k r + 1 := diagonal (rdp_p r) (delta_view r c delta) {..rdp_k r}))" (is "rdp_code r ?U")
proof -
  have diag: "diagonal (rdp_p r) ?U {..rdp_k r} s b = diagonal (rdp_p r) (delta_view r c delta) {..rdp_k r} s b" for s b
    unfolding diagonal_def by (rule xors.cong) (auto simp: ext_def)
  have "xsum (\<lambda>i. ?U i s b) {..rdp_k r} = 0" for s b
  proof -
    have "xsum (\<lambda>i. ?U i s b) {..rdp_k r} = xsum (\<lambda>i. delta_view r c delta i s b) (insert (rdp_k r) {..<rdp_k r})" by (rule xors.cong) auto
    also have "\<dots> = 0" using delta_view_row [OF assms] by (simp add: xsum_insert)
    finally show ?thesis .
  qed
  then show ?thesis unfolding rdp_code_def diag by simp
qed

text \<open>
  C5. RDP parity update: \<open>cs\<close> is a code word, \<open>delta\<close> the difference of data chunk \<open>c\<close>, zero outside the \<open>len\<close> bytes
  at \<open>off\<close>.  As \<^verbatim>\<open>ParityChunkBuffer::update\<close> does, each parity server encodes the stripe that has \<open>delta\<close> at place \<open>c\<close> and
  the zero chunk elsewhere into a cleared chunk, giving the encoder the modified range only, and XORs the result
  into its parity chunk; with the data chunk updated, the stripe is a code word again.
\<close>

theorem rdp_delta_update:
  assumes "rdp_ok r" and "rdp_codeword r cs" and "c < rdp_k r" and "chunk_ok (rdp_chunkSize r) delta"
    and "\<forall>b < rdp_chunkSize r. \<not> (off \<le> b \<and> b < off + len) \<longrightarrow> dbyte delta b = 0"
    and "zero = replicate (8 + rdp_chunkSize r) 0" and "ds = (replicate (rdp_k r) zero)[c := delta]"
    and "startOff = off + c * rdp_chunkSize r" and "endOff = startOff + len"
  shows "\<exists>p q c' p' q'. rdp_encode r ds zero 1 startOff endOff = Some p \<and> rdp_encode r ds zero 2 startOff endOff = Some q
    \<and> xor_data (cs ! c) 0 delta 0 (rdp_chunkSize r) = Some c' \<and> xor_data (cs ! rdp_k r) 0 p 0 (rdp_chunkSize r) = Some p'
    \<and> xor_data (cs ! (rdp_k r + 1)) 0 q 0 (rdp_chunkSize r) = Some q' \<and> rdp_codeword r (cs[c := c', rdp_k r := p', rdp_k r + 1 := q'])"
proof -
  let ?k = "rdp_k r" and ?z = "rdp_symbolSize r" and ?p = "rdp_p r" and ?cs = "rdp_chunkSize r" and ?D = "delta_view r c delta"
  have size: "?cs = (?p - 1) * ?z" "?cs < 2 ^ 32" using assms(1) by (simp_all add: rdp_ok_def)
  from rdp_delta_encode [OF assms(1,3-9)] obtain p q where
    pq: "rdp_encode r ds zero 1 startOff endOff = Some p" "rdp_encode r ds zero 2 startOff endOff = Some q"
      "chunk_is (?p - 1) ?z p (?D ?k)" "chunk_is (?p - 1) ?z q (diagonal ?p ?D {..?k})" by blast
  have delta: "chunk_is (?p - 1) ?z delta (?D c)" using assms(4) size(1) by (simp add: chunk_is_def delta_view_def)
  let ?U = "?D(?k + 1 := diagonal ?p ?D {..?k})"
  from codeword_view [OF assms(1,2), of "{}"] obtain V where V: "stripe_is (?p - 1) ?z (?k + 2) cs V" "rdp_code r V" by blast
  note code = rdp_code_xor [OF V(2) delta_view_code [OF assms(3), of delta]]
  have item: "chunk_is (?p - 1) ?z (cs ! i) (V i)" if "i < ?k + 2" for i using V(1) that by (simp add: stripe_is_def)
  have lt: "c < ?k + 2" "?k < ?k + 2" "?k + 1 < ?k + 2" using assms(3) by simp_all
  from xor_whole [OF item [OF lt(1)] delta, folded size(1), OF size(2)] obtain c' where
    c': "xor_data (cs ! c) 0 delta 0 ?cs = Some c'" "chunk_is (?p - 1) ?z c' (\<lambda>s b. V c s b XOR ?D c s b)" by blast
  from xor_whole [OF item [OF lt(2)] pq(3), folded size(1), OF size(2)] obtain p' where
    p': "xor_data (cs ! ?k) 0 p 0 ?cs = Some p'" "chunk_is (?p - 1) ?z p' (\<lambda>s b. V ?k s b XOR ?D ?k s b)" by blast
  from xor_whole [OF item [OF lt(3)] pq(4), folded size(1), OF size(2)] obtain q' where
    q': "xor_data (cs ! (?k + 1)) 0 q 0 ?cs = Some q'" "chunk_is (?p - 1) ?z q' (\<lambda>s b. V (?k + 1) s b XOR diagonal ?p ?D {..?k} s b)" by blast
  have "stripe_is (?p - 1) ?z (?k + 2) (cs[c := c', ?k := p', ?k + 1 := q']) (V(c := \<lambda>s b. V c s b XOR ?D c s b, ?k := \<lambda>s b. V ?k s b XOR ?D ?k s b,
      ?k + 1 := \<lambda>s b. V (?k + 1) s b XOR diagonal ?p ?D {..?k} s b))"
    using c'(2) p'(2) q'(2) V(1) assms(3) by (intro stripe_is_update) auto
  then have new: "stripe_is (?p - 1) ?z (?k + 2) (cs[c := c', ?k := p', ?k + 1 := q']) (\<lambda>i s b. V i s b XOR ?U i s b)"
    by (rule stripe_is_cong) (auto simp: delta_view_def)
  have "rdp_codeword r (cs[c := c', ?k := p', ?k + 1 := q'])"
    unfolding rdp_codeword_def using stripe_is_ok [OF new] size(1) rdp_code_cong [OF code] stripe_is_sb [OF new] by simp
  then show ?thesis using pq(1,2) c'(1) p'(1) q'(1) by blast
qed

lemma prime3: "is_prime 3"
  by (rule primeList_prime) (simp add: primeList_def)

abbreviation sample_rdp :: RDPCoding where
  "sample_rdp \<equiv> \<lparr>rdp_k = 2, rdp_p = 3, rdp_chunkSize = 4, rdp_symbolSize = 2\<rparr>"

lemma sample_rdp_new: "rdp_new 2 4 = Some sample_rdp"
proof -
  have "rdp_getPrime 2 = Some 1"
    by (simp add: rdp_getPrime_def primeCount_def search_prime.simps [of _ _ 0] Let_def primeList_def)
  moreover have "find_symbols 4 1 = Some 1" by (simp add: find_symbols.simps [of 4 "Suc 0"] item_at_def primeList_def)
  ultimately show ?thesis by (simp add: rdp_new_def get_symbols_def primeCount_def item_at_def) (simp add: primeList_def)
qed

lemma sample_rdp_ok: "rdp_ok sample_rdp"
  using rdp_new_ok [OF sample_rdp_new] by simp

theorem rdp_delta_update_witness:
  "\<exists>cs p q c' p' q'. rdp_codeword sample_rdp cs
    \<and> rdp_encode sample_rdp [replicate 8 0 @ [0, 7, 0, 0], replicate 12 0] (replicate 12 0) 1 1 2 = Some p
    \<and> rdp_encode sample_rdp [replicate 8 0 @ [0, 7, 0, 0], replicate 12 0] (replicate 12 0) 2 1 2 = Some q
    \<and> xor_data (cs ! 2) 0 p 0 4 = Some p' \<and> xor_data (cs ! 3) 0 q 0 4 = Some q' \<and> rdp_codeword sample_rdp (cs[0 := c', 2 := p', 3 := q'])"
proof -
  have data: "stripe_ok (rdp_chunkSize sample_rdp) (rdp_k sample_rdp) [replicate 12 1, replicate 12 2]"
    and zero: "chunk_ok (rdp_chunkSize sample_rdp) (replicate 12 0)" "\<forall>b < rdp_chunkSize sample_rdp. dbyte (replicate 12 0) b = 0 \<and> dbyte (replicate 12 0) b = 0"
    by (simp_all add: stripe_ok_def chunk_ok_def dbyte_def)
  from rdp_encode_codeword [OF sample_rdp_ok data zero(1,1,2)] obtain cs where cs: "rdp_codeword sample_rdp cs" by blast
  have delta: "chunk_ok (rdp_chunkSize sample_rdp) (replicate 8 0 @ [0, 7, 0, 0])"
    "\<forall>b < rdp_chunkSize sample_rdp. \<not> (1 \<le> b \<and> b < 1 + 1) \<longrightarrow> dbyte (replicate 8 0 @ [0, 7, 0, 0]) b = 0"
    by (auto simp: chunk_ok_def dbyte_def nth_append less_Suc_eq numeral_eq_Suc)
  have two: "(replicate 2 z)[0 := d] = [d, z]" for z d :: memory by (simp add: numeral_2_eq_2)
  have "0 < rdp_k sample_rdp" by simp
  from rdp_delta_update [OF sample_rdp_ok cs this delta refl refl refl refl] obtain p q c' p' q' where
    "rdp_encode sample_rdp [replicate 8 0 @ [0, 7, 0, 0], replicate 12 0] (replicate 12 0) 1 1 2 = Some p"
    "rdp_encode sample_rdp [replicate 8 0 @ [0, 7, 0, 0], replicate 12 0] (replicate 12 0) 2 1 2 = Some q"
    "xor_data (cs ! 2) 0 p 0 4 = Some p'" "xor_data (cs ! 3) 0 q 0 4 = Some q'" "rdp_codeword sample_rdp (cs[0 := c', 2 := p', 3 := q'])"
    by (auto simp: two numeral_2_eq_2 [symmetric])
  with cs show ?thesis by blast
qed

text \<open>
  C1. RDP tolerates the loss of any two chunks: with the parameters the constructor computes for \<open>k\<close> data chunks,
  encode row and diagonal parity into cleared chunks, clear any one or two of the \<open>k + 2\<close> chunks, data or parity;
  decoding with a bitmap that misses exactly these chunks succeeds and restores the data area of every chunk.
\<close>

theorem rdp_encode_decode:
  assumes "rdp_new k (unat (chunkSize :: u32)) = Some r" and "k < 997" and "stripe_ok (unat chunkSize) k data"
    and "zero = replicate (8 + unat chunkSize) 0"
    and "E \<subseteq> {..<k + 2}" and "E \<noteq> {}" and "card E \<le> 2" and "status_ok bm (k + 2) E"
  shows "\<exists>p q cs. rdp_encode r data zero 1 0 0 = Some p \<and> rdp_encode r data zero 2 0 0 = Some q
    \<and> rdp_decode r (erased E (data @ [p, q])) bm = Some (True, cs) \<and> data_eq (unat chunkSize) (k + 2) cs (data @ [p, q])"
proof -
  have r: "rdp_ok r" "rdp_k r = k" "rdp_chunkSize r = unat chunkSize" using rdp_new_ok [OF assms(1,2) unat_u32_less] by simp_all
  have zero: "chunk_ok (rdp_chunkSize r) zero" "\<forall>b < rdp_chunkSize r. dbyte zero b = 0 \<and> dbyte zero b = 0"
    using assms(4) r(3) by (simp_all add: chunk_ok_def dbyte_def)
  have "stripe_ok (rdp_chunkSize r) (rdp_k r) data" using assms(3) r by simp
  from rdp_encode_codeword [OF r(1) this zero(1,1,2)] obtain p q where
    pq: "rdp_encode r data zero 1 0 0 = Some p" "rdp_encode r data zero 2 0 0 = Some q" "rdp_codeword r (data @ [p, q])" by blast
  from rdp.recovers [of r "data @ [p, q]" bm E] pq r assms(5-8) show ?thesis by auto
qed

theorem rdp_encode_decode_witness:
  "\<exists>bm p q cs. status_ok bm 4 {0, 2} \<and> rdp_encode sample_rdp [replicate 12 1, replicate 12 2] (replicate 12 0) 1 0 0 = Some p
    \<and> rdp_encode sample_rdp [replicate 12 1, replicate 12 2] (replicate 12 0) 2 0 0 = Some q
    \<and> rdp_decode sample_rdp (erased {0, 2} [replicate 12 1, replicate 12 2, p, q]) bm = Some (True, cs)
    \<and> data_eq 4 4 cs [replicate 12 1, replicate 12 2, p, q]"
proof -
  obtain bm where bm: "status_ok bm (2 + 2) {0, 2}" using status_exists by blast
  have u: "unat (4 :: u32) = 4" by simp
  have data: "stripe_ok 4 2 [replicate 12 1, replicate 12 2]" by (simp add: stripe_ok_def chunk_ok_def)
  from rdp_encode_decode [where chunkSize = 4, unfolded u, OF sample_rdp_new _ data refl, of "{0, 2}" bm] bm show ?thesis by auto
qed

text \<open>
  The binary search of \<^verbatim>\<open>RDPCoding::getPrime\<close> ends for every \<open>k\<close> and stores an index of the list of primes.  All numbers
  before this index are at most \<open>k\<close>, and for \<open>k < 997\<close> the number at the index is a prime larger than \<open>k\<close>: it is the smallest
  prime \<open>p \<ge> k + 1\<close>.  (The comment in the header says \<open>p > k + 1\<close>.)
\<close>

theorem rdp_prime_search:
  "\<exists>i < primeCount. rdp_getPrime k = Some i \<and> is_prime (primeList ! i) \<and> (\<forall>j < i. primeList ! j \<le> k) \<and> (997 \<le> k \<or> k < primeList ! i)"
proof -
  obtain i where i: "i < primeCount" "rdp_getPrime k = Some i" "\<forall>j < i. primeList ! j < k + 1" "k < 997 \<longrightarrow> k + 1 \<le> primeList ! i"
    using rdp_getPrime_least [of k] by auto
  have "is_prime (primeList ! i)" using i(1) primeList_facts(1) by (intro primeList_prime) simp
  then show ?thesis using i by (intro exI [of _ i]) auto
qed

theorem rdp_prime_search_witness: "\<exists>i. rdp_getPrime 12 = Some i \<and> 12 < primeList ! i"
  using rdp_prime_search [of 12] by auto

section \<open>Forced sealing\<close>

lemma xor_zero_chunk:
  assumes "chunk_ok chunkSize m" and "chunkSize < 2 ^ 32"
  shows "xor_data m 0 (replicate (8 + chunkSize) 0) 0 chunkSize = Some m"
proof -
  have "chunk_ok chunkSize (replicate (8 + chunkSize) 0)" by (simp add: chunk_ok_def)
  from xor_data_spec [OF assms(1) this, of 0 chunkSize 0] assms(2) obtain m' where
    m': "xor_data m 0 (replicate (8 + chunkSize) 0) 0 chunkSize = Some m'" "chunk_ok chunkSize m'" "take 8 m' = take 8 m" "\<forall>b < chunkSize. dbyte m' b = dbyte m b"
    by (auto simp: dbyte_def)
  then show ?thesis using chunk_eqI [OF m'(2) assms(1)] by simp
qed

lemma collect_chunks: "(\<And>k. k < n \<Longrightarrow> f k = Some (Some (g k))) \<Longrightarrow>
    foldM (\<lambda>k xs. do { c \<leftarrow> f k; c \<leftarrow> c; Some (xs @ [c]) }) [0..<n] [] = Some (map g [0..<n])"
  by (induction n) (simp_all add: foldM_append)

end
