(* ===== verification/EvenOdd.thy ===== *)
theory EvenOdd
  imports RdpCode
begin

unbundle bit_operations_syntax

text \<open>
  EVENODD coding, \<^verbatim>\<open>common/coding/evenoddcoding.cc\<close>, a subclass of \<^verbatim>\<open>RDPCoding\<close> with its own prime, diagonal parity and decoder.  The
  diagonal that has no parity symbol, the adjuster \<^verbatim>\<open>s\<close>, is a buffer of one symbol and is added to every diagonal
  parity symbol.  The object is the record of its base class.
\<close>

section \<open>Constructor\<close>

definition eo_getPrime :: "nat \<Rightarrow> nat option" where
  "eo_getPrime k = search_prime (\<lambda>q. q < k) (\<lambda>q. q \<ge> k \<and> q \<noteq> 2) 0 (primeCount - 1)"

text \<open>The constructor of the base class runs first; its parameters are overwritten.\<close>

definition eo_new :: "nat \<Rightarrow> nat \<Rightarrow> RDPCoding option" where
  "eo_new k chunkSize = do { _ \<leftarrow> rdp_new k chunkSize; get_symbols (eo_getPrime k) k chunkSize }"

section \<open>Encoding\<close>

text \<open>XOR between a plain buffer and the data area of a chunk.\<close>

definition xor_mem :: "memory \<Rightarrow> nat \<Rightarrow> memory \<Rightarrow> nat \<Rightarrow> nat \<Rightarrow> memory option" where
  "xor_mem dst doff src soff len = bitwiseXOR_self dst doff src soff (of_nat len)"

definition eo_symbol :: "RDPCoding \<Rightarrow> bool \<Rightarrow> nat \<Rightarrow> nat \<Rightarrow> memory list \<Rightarrow> nat \<Rightarrow> nat \<Rightarrow> memory \<times> memory \<Rightarrow> (memory \<times> memory) option" where
  "eo_symbol r part startOff endOff data sidx cidx = (\<lambda>(parity, s).
     (let z = rdp_symbolSize r in
      case symbol_range part z startOff endOff (cidx * rdp_chunkSize r + sidx * z) of
        None \<Rightarrow> Some (parity, s)
      | Some (offset, len) \<Rightarrow>
          do { src \<leftarrow> item_at data cidx;
               let pidx = (cidx + sidx) mod rdp_p r;
               if pidx = rdp_p r - 1
               then do { s \<leftarrow> xor_mem s offset src (cu_getData 0 + sidx * z + offset) len; Some (parity, s) }
               else do { parity \<leftarrow> xor_data parity (pidx * z + offset) src (sidx * z + offset) len; Some (parity, s) } }))"

definition eo_diagonals :: "RDPCoding \<Rightarrow> memory list \<Rightarrow> memory \<Rightarrow> nat \<Rightarrow> nat \<Rightarrow> (memory \<times> memory) option" where
  "eo_diagonals r data parity startOff endOff =
     foldM (\<lambda>sidx ps. foldM (\<lambda>cidx ps. eo_symbol r (is_partial startOff endOff) startOff endOff data sidx cidx ps) [0..<rdp_k r] ps)
       [0..<rdp_p r - 1] (parity, replicate (rdp_symbolSize r) 0)"

definition add_adjuster :: "RDPCoding \<Rightarrow> memory \<Rightarrow> memory \<Rightarrow> memory option" where
  "add_adjuster r parity s =
     foldM (\<lambda>sidx parity. xor_mem parity (cu_getData 0 + sidx * rdp_symbolSize r) s 0 (rdp_symbolSize r)) [0..<rdp_p r - 1] parity"

definition eo_encode :: "RDPCoding \<Rightarrow> memory list \<Rightarrow> memory \<Rightarrow> nat \<Rightarrow> nat \<Rightarrow> nat \<Rightarrow> memory option" where
  "eo_encode r data parity index startOff endOff =
     (if index = 1 then raid5_encode (rdp_chunkSize r) (rdp_k r + 1) data parity
      else if index = 2 then do { (parity, s) \<leftarrow> eo_diagonals r data parity startOff endOff; add_adjuster r parity s }
      else Some parity)"

section \<open>Decoding\<close>

definition zero_data :: "nat \<Rightarrow> memory list \<Rightarrow> nat \<Rightarrow> memory list option" where
  "zero_data chunkSize chunks i =
     do { c \<leftarrow> item_at chunks i; c \<leftarrow> poke c (cu_getData 0) (replicate chunkSize 0); Some (chunks[i := c]) }"

text \<open>XOR of a symbol of a chunk into a symbol buffer, and of a symbol buffer into a chunk of the stripe.\<close>

definition gather :: "nat \<Rightarrow> memory list \<Rightarrow> nat \<Rightarrow> nat \<Rightarrow> memory \<Rightarrow> memory option" where
  "gather z chunks c sidx s = do { src \<leftarrow> item_at chunks c; xor_mem s 0 src (cu_getData 0 + sidx * z) z }"

definition spread :: "nat \<Rightarrow> memory list \<Rightarrow> nat \<Rightarrow> nat \<Rightarrow> memory \<Rightarrow> memory list option" where
  "spread z chunks c sidx s = do { dst \<leftarrow> item_at chunks c; dst \<leftarrow> xor_mem dst (cu_getData 0 + sidx * z) s 0 z; Some (chunks[c := dst]) }"

text \<open>A lost data chunk \<open>x\<close> and the lost row parity.\<close>

definition adjuster_one :: "RDPCoding \<Rightarrow> nat \<Rightarrow> memory list \<Rightarrow> memory option" where
  "adjuster_one r x chunks =
     (let p = rdp_p r; z = rdp_symbolSize r; pidx = (x + p - 1) mod p in
      do { s \<leftarrow> foldM (\<lambda>cidx s. if cidx = x then Some s else gather z chunks cidx ((pidx + p - cidx) mod p) s) [0..<rdp_k r] (replicate z 0);
           if pidx \<noteq> p - 1 then gather z chunks (rdp_k r + 1) pidx s else Some s })"

definition repair_diagonal :: "RDPCoding \<Rightarrow> nat \<Rightarrow> nat \<Rightarrow> nat \<Rightarrow> memory \<Rightarrow> memory list \<Rightarrow> memory list option" where
  "repair_diagonal r x sidx pidx s chunks =
     (let p = rdp_p r; z = rdp_symbolSize r in
      do { chunks \<leftarrow> foldM (\<lambda>cidx chunks. if cidx = x then Some chunks
                else let t = (pidx + p - cidx) mod p in if t > p - 2 then Some chunks else xor_chunk chunks x (sidx * z) cidx (t * z) z)
             [0..<rdp_k r] chunks;
           chunks \<leftarrow> (if pidx \<noteq> p - 1 then xor_chunk chunks x (sidx * z) (rdp_k r + 1) (pidx * z) z else Some chunks);
           spread z chunks x sidx s })"

definition eo_repair_row_parity :: "RDPCoding \<Rightarrow> nat \<Rightarrow> memory list \<Rightarrow> memory list option" where
  "eo_repair_row_parity r x chunks =
     do { s \<leftarrow> adjuster_one r x chunks;
          chunks \<leftarrow> foldM (\<lambda>sidx chunks. repair_diagonal r x sidx ((x + sidx) mod rdp_p r) s chunks) [0..<rdp_p r - 1] chunks;
          encode_into (\<lambda>d q. eo_encode r d q 1 0 0) chunks (rdp_k r) }"

text \<open>Two lost data chunks \<open>x < y\<close>.\<close>

definition adjuster_two :: "RDPCoding \<Rightarrow> memory list \<Rightarrow> memory option" where
  "adjuster_two r chunks =
     (let z = rdp_symbolSize r in
      do { c \<leftarrow> item_at chunks (rdp_k r);
           s \<leftarrow> peek c (cu_getData 0) z;
           s \<leftarrow> gather z chunks (rdp_k r + 1) 0 s;
           foldM (\<lambda>sidx s. do { s \<leftarrow> gather z chunks (rdp_k r) sidx s; gather z chunks (rdp_k r + 1) sidx s }) [1..<rdp_p r - 1] s })"

definition repair_pair :: "RDPCoding \<Rightarrow> nat \<Rightarrow> nat \<Rightarrow> nat \<Rightarrow> nat \<Rightarrow> memory \<Rightarrow> memory list \<Rightarrow> memory list option" where
  "repair_pair r x y sidx pidx s chunks =
     (let p = rdp_p r; z = rdp_symbolSize r in
      do { chunks \<leftarrow> foldM (\<lambda>cidx chunks. if cidx = y then Some chunks
                else let t = (p + pidx - cidx) mod p in if t = sidx \<or> t = p - 1 then Some chunks else xor_chunk chunks y (sidx * z) cidx (t * z) z)
             [0..<rdp_k r] chunks;
           chunks \<leftarrow> (if pidx \<noteq> p - 1 then xor_chunk chunks y (sidx * z) (rdp_k r + 1) (pidx * z) z else Some chunks);
           chunks \<leftarrow> spread z chunks y sidx s;
           foldM (\<lambda>cidx chunks. if cidx = x then Some chunks else xor_chunk chunks x (sidx * z) cidx (sidx * z) z) [0..<rdp_k r + 1] chunks })"

fun eo_rounds :: "RDPCoding \<Rightarrow> nat \<Rightarrow> nat \<Rightarrow> nat \<Rightarrow> nat \<Rightarrow> nat \<Rightarrow> memory \<Rightarrow> memory list \<Rightarrow> memory list option" where
  "eo_rounds r x y 0 sidx pidx s chunks = Some chunks"
| "eo_rounds r x y (Suc n) sidx pidx s chunks =
     do { chunks \<leftarrow> repair_pair r x y sidx pidx s chunks;
          let pidx = (x + sidx) mod rdp_p r in
          eo_rounds r x y n ((pidx + rdp_p r - y) mod rdp_p r) pidx s chunks }"

definition eo_repair_two :: "RDPCoding \<Rightarrow> nat \<Rightarrow> nat \<Rightarrow> memory list \<Rightarrow> memory list option" where
  "eo_repair_two r x y chunks =
     do { s \<leftarrow> adjuster_two r chunks;
          let pidx = (x + rdp_p r - 1) mod rdp_p r in
          eo_rounds r x y (rdp_p r - 1) ((pidx + rdp_p r - y) mod rdp_p r) pidx s chunks }"

definition eo_decode :: "RDPCoding \<Rightarrow> memory list \<Rightarrow> BitmaskArray \<Rightarrow> (bool \<times> memory list) option" where
  "eo_decode r chunks bm =
     do { res \<leftarrow> scan_lost bm 2 0 (rdp_k r + 2) [];
          case res of
            None \<Rightarrow> Some (False, chunks)
          | Some failed \<Rightarrow>
              if failed = [] then Some (False, chunks)
              else do { chunks \<leftarrow> foldM (\<lambda>i chunks. zero_data (rdp_chunkSize r) chunks i) failed chunks;
                        chunks \<leftarrow> (case failed of
                            [x] \<Rightarrow> if x = rdp_k r + 1 then encode_into (\<lambda>d q. eo_encode r d q 2 0 0) chunks (rdp_k r + 1)
                                   else do { (_, chunks) \<leftarrow> raid5_decode (rdp_chunkSize r) (rdp_k r + 1) chunks bm; Some chunks }
                          | x # y # _ \<Rightarrow>
                              if y = rdp_k r + 1
                              then do { (_, chunks) \<leftarrow> raid5_decode (rdp_chunkSize r) (rdp_k r + 1) chunks bm;
                                        encode_into (\<lambda>d q. eo_encode r d q 2 0 0) chunks (rdp_k r + 1) }
                              else if y = rdp_k r then eo_repair_row_parity r x chunks
                              else eo_repair_two r x y chunks
                          | [] \<Rightarrow> Some chunks);
                        Some (True, chunks) } }"

end
