(* ===== verification/EvenOddCode.thy ===== *)
theory EvenOddCode
  imports EvenOdd
begin

unbundle bit_operations_syntax

text \<open>
  EVENODD as an erasure code: what the encoder computes, the recovery of the adjuster from the surviving chunks, the
  repair of one or two lost columns, and the interpretation of the erasure-code contract.
\<close>

section \<open>Symbol buffers\<close>

definition sym_is :: "nat \<Rightarrow> memory \<Rightarrow> (nat \<Rightarrow> byte) \<Rightarrow> bool" where
  "sym_is z s g \<longleftrightarrow> length s = z \<and> (\<forall>b < z. s ! b = g b)"

lemma sym_is_cong: "sym_is z s g \<Longrightarrow> (\<And>b. b < z \<Longrightarrow> g b = h b) \<Longrightarrow> sym_is z s h"
  by (simp add: sym_is_def)

lemma sym_is_zero: "sym_is z (replicate z 0) (\<lambda>b. 0)"
  by (simp add: sym_is_def)

lemma xor_mem_spec:
  assumes "doff + len \<le> length dst" and "soff + len \<le> length src" and "len < 2 ^ 32"
  shows "\<exists>dst'. xor_mem dst doff src soff len = Some dst' \<and> length dst' = length dst
    \<and> (\<forall>b < length dst. dst' ! b = (if doff \<le> b \<and> b < doff + len then dst ! b XOR src ! (soff + (b - doff)) else dst ! b))"
proof -
  have u: "unat (of_nat len :: u32) = len" by (rule unat_of_nat_eq) (use assms(3) in simp)
  let ?x = "xor_bytes (seg doff len dst) (seg soff len src)"
  have lx: "length ?x = len" using assms(1,2) by simp
  have "xor_mem dst doff src soff len = Some (take doff dst @ ?x @ drop (doff + len) dst)"
    using bitwiseXOR_self_poke [of doff "of_nat len" dst soff src] assms(1,2) u lx by (simp add: xor_mem_def poke_def)
  then show ?thesis using assms(1,2) lx by (auto simp: nth_append nth_seg)
qed

lemma gather_spec:
  assumes "stripe_is q z n cs V" and "c < n" and "t < q" and "sym_is z s g" and "q * z < 2 ^ 32"
  shows "\<exists>s'. gather z cs c t s = Some s' \<and> sym_is z s' (\<lambda>b. g b XOR V c t b)"
proof -
  from stripe_is_item [OF assms(1,2)] obtain m where m: "item_at cs c = Some m" "chunk_is q z m (V c)" by blast
  have "Suc t * z \<le> q * z" using assms(3) by (intro mult_le_mono1) simp
  then have fits: "8 + t * z + z \<le> length m" "z < 2 ^ 32" using m(2) assms(5) by (auto simp: chunk_is_def chunk_ok_def)
  have byte: "m ! (8 + t * z + b) = V c t b" if "b < z" for b
    using m(2) assms(3) that by (auto simp: chunk_is_def dbyte_def add.assoc)
  from xor_mem_spec [of 0 z s "8 + t * z" m] fits assms(4) obtain s' where
    "xor_mem s 0 m (8 + t * z) z = Some s'" "length s' = z" "\<forall>b < z. s' ! b = s ! b XOR m ! (8 + t * z + b)" by (auto simp: sym_is_def)
  then show ?thesis using m(1) assms(4) byte by (auto simp: gather_def cu_getData_def sym_is_def)
qed

lemma xor_mem_chunk:
  assumes "chunk_is q z m f" and "sym_is z s g" and "j < q" and "q * z < 2 ^ 32"
  shows "\<exists>m'. xor_mem m (cu_getData 0 + j * z) s 0 z = Some m' \<and> chunk_is q z m' (\<lambda>i b. if i = j then f j b XOR g b else f i b)"
proof -
  have "Suc j * z \<le> q * z" using assms(3) by (intro mult_le_mono1) simp
  then have fits: "8 + j * z + z \<le> length m" "z < 2 ^ 32" using assms(1,4) by (auto simp: chunk_is_def chunk_ok_def)
  from xor_mem_spec [of "8 + j * z" z m 0 s] fits assms(2) obtain m' where
    m': "xor_mem m (8 + j * z) s 0 z = Some m'" "length m' = length m"
      "\<forall>b < length m. m' ! b = (if 8 + j * z \<le> b \<and> b < 8 + j * z + z then m ! b XOR s ! (b - (8 + j * z)) else m ! b)" by (auto simp: sym_is_def)
  have "dbyte m' (i * z + b) = (if i = j then f j b XOR g b else f i b)" if "i < q" "b < z" for i b
  proof -
    have "8 + (i * z + b) < length m" using symbol_pos [OF that] assms(1) by (simp add: chunk_is_def chunk_ok_def)
    then show ?thesis using m'(3) symbol_range_iff [of b z 0 z j i] that assms(1,2) by (auto simp: dbyte_def chunk_is_def sym_is_def)
  qed
  then show ?thesis using m' assms(1) by (auto simp: cu_getData_def chunk_is_def chunk_ok_def)
qed

lemma spread_spec:
  assumes "stripe_is q z n cs V" and "c < n" and "t < q" and "sym_is z s g" and "q * z < 2 ^ 32"
  shows "\<exists>cs'. spread z cs c t s = Some cs' \<and> stripe_is q z n cs' (\<lambda>i l b. if i = c \<and> l = t then V c t b XOR g b else V i l b)"
proof -
  from stripe_is_item [OF assms(1,2)] obtain m where m: "item_at cs c = Some m" "chunk_is q z m (V c)" by blast
  from xor_mem_chunk [OF m(2) assms(4,3,5)] obtain m' where
    m': "xor_mem m (cu_getData 0 + t * z) s 0 z = Some m'" "chunk_is q z m' (\<lambda>i b. if i = t then V c t b XOR g b else V c i b)" by blast
  from stripe_is_update [OF assms(1,2) m'(2)] have "stripe_is q z n (cs[c := m']) (\<lambda>i l b. if i = c \<and> l = t then V c t b XOR g b else V i l b)"
    by (rule stripe_is_cong) auto
  then show ?thesis using m(1) m'(1) by (simp add: spread_def)
qed

section \<open>Code words\<close>

definition eo_ok :: "RDPCoding \<Rightarrow> bool" where
  "eo_ok r \<longleftrightarrow> is_prime (rdp_p r) \<and> 2 < rdp_p r \<and> rdp_k r \<le> rdp_p r \<and> rdp_chunkSize r = (rdp_p r - 1) * rdp_symbolSize r \<and> rdp_chunkSize r < 2 ^ 32"

definition eo_code :: "RDPCoding \<Rightarrow> (nat \<Rightarrow> nat \<Rightarrow> nat \<Rightarrow> byte) \<Rightarrow> bool" where
  "eo_code r V \<longleftrightarrow> (\<forall>s < rdp_p r - 1. \<forall>b < rdp_symbolSize r. xsum (\<lambda>c. V c s b) {..<rdp_k r + 1} = 0
     \<and> V (rdp_k r + 1) s b = diagonal (rdp_p r) V {..<rdp_k r} s b XOR diagonal (rdp_p r) V {..<rdp_k r} (rdp_p r - 1) b)"

definition eo_codeword :: "RDPCoding \<Rightarrow> memory list \<Rightarrow> bool" where
  "eo_codeword r cs \<longleftrightarrow> stripe_ok (rdp_chunkSize r) (rdp_k r + 2) cs \<and> eo_code r (\<lambda>i s b. sb cs i (s * rdp_symbolSize r + b))"

lemma diagonal_cong:
  assumes "\<And>c s. c \<in> C \<Longrightarrow> s < p - 1 \<Longrightarrow> V c s b = W c s b" and "0 < p"
  shows "diagonal p V C j b = diagonal p W C j b"
  unfolding diagonal_def
proof (rule xors.cong)
  fix c assume "c \<in> C"
  show "ext p V c ((j + p - c) mod p) b = ext p W c ((j + p - c) mod p) b"
  proof (cases "(j + p - c) mod p = p - 1")
    case False
    then have "(j + p - c) mod p < p - 1" using mod_less_divisor [OF assms(2), of "j + p - c"] by linarith
    then show ?thesis using assms(1) \<open>c \<in> C\<close> by (simp add: ext_def)
  qed simp
qed simp

section \<open>The encoder\<close>

text \<open>The part of diagonal \<open>j\<close> that is summed up when the first \<open>n c\<close> symbols of every column \<open>c\<close> are done.\<close>

definition part_diag :: "nat \<Rightarrow> (nat \<Rightarrow> nat \<Rightarrow> nat \<Rightarrow> byte) \<Rightarrow> nat \<Rightarrow> (nat \<Rightarrow> nat) \<Rightarrow> nat \<Rightarrow> nat \<Rightarrow> byte" where
  "part_diag p V k n j b = xsum (\<lambda>c. if (j + p - c) mod p < n c then V c ((j + p - c) mod p) b else 0) {..<k}"

lemma part_diag_step:
  assumes "c < k" and "n c = s"
  shows "part_diag p V k (n(c := Suc s)) j b = part_diag p V k n j b XOR (if (j + p - c) mod p = s then V c s b else 0)"
proof -
  let ?g = "\<lambda>n c. if (j + p - c) mod p < n c then V c ((j + p - c) mod p) b else 0"
  have "xsum (?g (n(c := Suc s))) ({..<k} - {c}) = xsum (?g n) ({..<k} - {c})" by (rule xors.cong) auto
  then show ?thesis
    using xsum_remove [of "{..<k}" c "?g n"] xsum_remove [of "{..<k}" c "?g (n(c := Suc s))"] assms
    by (auto simp: part_diag_def less_Suc_eq xor.assoc xor.commute xor.left_commute)
qed

lemma part_diag_0: "part_diag p V k (\<lambda>c. 0) j b = 0"
  by (simp add: part_diag_def)

lemma part_diag_all: "0 < p \<Longrightarrow> part_diag p V k (\<lambda>c. p - Suc 0) j b = diagonal p V {..<k} j b"
  unfolding part_diag_def diagonal_def
proof (rule xors.cong)
  fix c assume "0 < p"
  then have "(j + p - c) mod p < p" by simp
  then show "(if (j + p - c) mod p < p - Suc 0 then V c ((j + p - c) mod p) b else 0) = ext p V c ((j + p - c) mod p) b"
    by (auto simp: ext_def)
qed simp

definition enc_state :: "RDPCoding \<Rightarrow> (nat \<Rightarrow> nat \<Rightarrow> byte) \<Rightarrow> (nat \<Rightarrow> nat \<Rightarrow> nat \<Rightarrow> byte) \<Rightarrow> (nat \<Rightarrow> nat) \<Rightarrow> memory \<times> memory \<Rightarrow> bool" where
  "enc_state r g V n = (\<lambda>(parity, s). chunk_is (rdp_p r - 1) (rdp_symbolSize r) parity (\<lambda>j b. g j b XOR part_diag (rdp_p r) V (rdp_k r) n j b)
     \<and> sym_is (rdp_symbolSize r) s (\<lambda>b. part_diag (rdp_p r) V (rdp_k r) n (rdp_p r - 1) b))"

lemma enc_state_skip:
  assumes "enc_state r g V n (parity, s)" and "c < rdp_k r" and "n c = sidx" and "\<And>b. b < rdp_symbolSize r \<Longrightarrow> V c sidx b = 0"
  shows "enc_state r g V (n(c := Suc sidx)) (parity, s)"
  using assms(1) unfolding enc_state_def prod.case part_diag_step [of c "rdp_k r" n sidx, OF assms(2,3)]
  by (auto elim!: chunk_is_cong sym_is_cong simp: assms(4))

lemma eo_symbol_spec:
  assumes ok: "eo_ok r" and c: "c < rdp_k r" and sidx: "sidx < rdp_p r - 1" and len: "rdp_k r \<le> length data"
    and data: "chunk_is (rdp_p r - 1) (rdp_symbolSize r) (data ! c) (V c)" and "startOff \<le> endOff"
    and zero: "part \<longrightarrow> zero_outside r startOff endOff c (V c)" and P: "enc_state r g V n ps" and n: "n c = sidx"
  shows "\<exists>ps'. eo_symbol r part startOff endOff data sidx c ps = Some ps' \<and> enc_state r g V (n(c := Suc sidx)) ps'"
proof -
  let ?p = "rdp_p r" and ?z = "rdp_symbolSize r" and ?off = "c * rdp_chunkSize r + sidx * rdp_symbolSize r"
  obtain parity s where ps: "ps = (parity, s)" by fastforce
  have p: "0 < ?p" "c < ?p" and fits: "(?p - 1) * ?z < 2 ^ 32" and item: "item_at data c = Some (data ! c)"
    using ok c len by (auto simp: eo_ok_def item_at_def)
  have hit: "(j + ?p - c) mod ?p = sidx \<longleftrightarrow> (c + sidx) mod ?p = j" if "j < ?p" for j using residue_eq [OF p(2), of sidx j] sidx that by auto
  show ?thesis
  proof (cases "symbol_range part ?z startOff endOff ?off")
    case None
    have "V c sidx b = 0" if "b < ?z" for b using symbol_range_None [OF None that] zero sidx that by (auto simp: zero_outside_def)
    then show ?thesis using enc_state_skip [OF P [unfolded ps] c n] None ps by (simp add: eo_symbol_def)
  next
    case (Some w)
    obtain offset l where w: "w = (offset, l)" by fastforce
    note rng = symbol_range_Some [OF Some [unfolded w] assms(6)]
    have skip: "V c sidx b = 0" if "b < ?z" "\<not> (offset \<le> b \<and> b < offset + l)" for b using rng that zero sidx by (auto simp: zero_outside_def)
    note st = P [unfolded ps enc_state_def prod.case]
    show ?thesis
    proof (cases "(c + sidx) mod ?p = ?p - 1")
      case True
      have "Suc sidx * ?z \<le> (?p - 1) * ?z" using sidx by (intro mult_le_mono1) simp
      then have b: "offset + l \<le> length s" "8 + sidx * ?z + offset + l \<le> length (data ! c)" "l < 2 ^ 32"
        using rng st data fits by (auto simp: sym_is_def chunk_is_def chunk_ok_def)
      from xor_mem_spec [OF b(1,2,3)] obtain s' where
        s': "xor_mem s offset (data ! c) (8 + sidx * ?z + offset) l = Some s'" "length s' = length s"
          "\<forall>b < length s. s' ! b = (if offset \<le> b \<and> b < offset + l then s ! b XOR data ! c ! (8 + sidx * ?z + offset + (b - offset)) else s ! b)" by blast
      have byte: "data ! c ! (8 + (sidx * ?z + b)) = V c sidx b" if "b < ?z" for b using data sidx that by (auto simp: chunk_is_def dbyte_def)
      have "sym_is ?z s' (\<lambda>b. part_diag ?p V (rdp_k r) n (?p - 1) b XOR V c sidx b)"
        using s'(2,3) st byte skip by (auto simp: sym_is_def add.assoc)
      moreover have "chunk_is (?p - 1) ?z parity (\<lambda>j b. g j b XOR (part_diag ?p V (rdp_k r) n j b XOR (if (j + ?p - c) mod ?p = sidx then V c sidx b else 0)))"
        using conjunct1 [OF st] by (rule chunk_is_cong) (use hit True in auto)
      moreover have "(?p - 1 + ?p - c) mod ?p = sidx" using hit [of "?p - 1"] True p by simp
      ultimately show ?thesis using Some w s'(1) True item ps
        by (simp add: eo_symbol_def cu_getData_def enc_state_def part_diag_step [of c "rdp_k r" n sidx, OF c n])
    next
      case False
      then have j: "(c + sidx) mod ?p < ?p - 1" using mod_less_divisor [OF p(1), of "c + sidx"] by linarith
      from xor_data_symbol [OF conjunct1 [OF st] data j sidx conjunct1 [OF rng] fits] obtain q where
        q: "xor_data parity ((c + sidx) mod ?p * ?z + offset) (data ! c) (sidx * ?z + offset) l = Some q"
          "chunk_is (?p - 1) ?z q (\<lambda>i b. if i = (c + sidx) mod ?p \<and> offset \<le> b \<and> b < offset + l
             then (g ((c + sidx) mod ?p) b XOR part_diag ?p V (rdp_k r) n ((c + sidx) mod ?p) b) XOR V c sidx b
             else g i b XOR part_diag ?p V (rdp_k r) n i b)" by blast
      from q(2) have "chunk_is (?p - 1) ?z q (\<lambda>j b. g j b XOR (part_diag ?p V (rdp_k r) n j b XOR (if (j + ?p - c) mod ?p = sidx then V c sidx b else 0)))"
      proof (rule chunk_is_cong)
        fix i b assume ib: "i < ?p - 1" "b < ?z"
        then show "(if i = (c + sidx) mod ?p \<and> offset \<le> b \<and> b < offset + l
             then (g ((c + sidx) mod ?p) b XOR part_diag ?p V (rdp_k r) n ((c + sidx) mod ?p) b) XOR V c sidx b
             else g i b XOR part_diag ?p V (rdp_k r) n i b)
           = g i b XOR (part_diag ?p V (rdp_k r) n i b XOR (if (i + ?p - c) mod ?p = sidx then V c sidx b else 0))"
          using hit [of i] skip [of b] by (auto simp: xor.assoc)
      qed
      moreover have "(?p - 1 + ?p - c) mod ?p \<noteq> sidx" using hit [of "?p - 1"] False p by simp
      ultimately show ?thesis using Some w q(1) False item ps st
        by (simp add: eo_symbol_def enc_state_def part_diag_step [of c "rdp_k r" n sidx, OF c n])
    qed
  qed
qed

lemma eo_diagonals_spec:
  assumes ok: "eo_ok r" and len: "rdp_k r \<le> length data" and data: "\<forall>c < rdp_k r. chunk_is (rdp_p r - 1) (rdp_symbolSize r) (data ! c) (V c)"
    and "startOff \<le> endOff" and zero: "is_partial startOff endOff \<longrightarrow> (\<forall>c < rdp_k r. zero_outside r startOff endOff c (V c))"
    and par: "chunk_is (rdp_p r - 1) (rdp_symbolSize r) parity g"
  shows "\<exists>ps. eo_diagonals r data parity startOff endOff = Some ps \<and> enc_state r g V (\<lambda>c. rdp_p r - 1) ps"
  unfolding eo_diagonals_def
proof (rule foldM_upt_inv [where P = "\<lambda>s. enc_state r g V (\<lambda>c. s)"])
  show "enc_state r g V (\<lambda>c. 0) (parity, replicate (rdp_symbolSize r) 0)"
    using par by (simp add: enc_state_def part_diag_0 sym_is_zero)
next
  fix sidx ps assume s: "sidx < rdp_p r - 1" and P: "enc_state r g V (\<lambda>c. sidx) ps"
  let ?n = "\<lambda>c0 c. if c < c0 then Suc sidx else sidx"
  have "\<exists>ps'. foldM (\<lambda>cidx ps. eo_symbol r (is_partial startOff endOff) startOff endOff data sidx cidx ps) [0..<rdp_k r] ps = Some ps'
      \<and> enc_state r g V (?n (rdp_k r)) ps'"
  proof (rule foldM_upt_inv [where P = "\<lambda>c. enc_state r g V (?n c)"])
    show "enc_state r g V (?n 0) ps" using P by simp
  next
    fix c qs assume c: "c < rdp_k r" and Q: "enc_state r g V (?n c) qs"
    have "(?n c)(c := Suc sidx) = ?n (Suc c)" by (auto simp: fun_eq_iff)
    then show "\<exists>ps'. eo_symbol r (is_partial startOff endOff) startOff endOff data sidx c qs = Some ps' \<and> enc_state r g V (?n (Suc c)) ps'"
      using eo_symbol_spec [OF ok c s len _ assms(4) _ Q] data zero c by simp
  qed
  moreover have "part_diag (rdp_p r) V (rdp_k r) (?n (rdp_k r)) = part_diag (rdp_p r) V (rdp_k r) (\<lambda>c. Suc sidx)"
    unfolding part_diag_def by (intro ext xors.cong) auto
  ultimately show "\<exists>ps'. foldM (\<lambda>cidx ps. eo_symbol r (is_partial startOff endOff) startOff endOff data sidx cidx ps) [0..<rdp_k r] ps = Some ps'
      \<and> enc_state r g V (\<lambda>c. Suc sidx) ps'" by (simp add: enc_state_def)
qed

lemma add_adjuster_spec:
  assumes "chunk_is (rdp_p r - 1) (rdp_symbolSize r) parity f" and "sym_is (rdp_symbolSize r) s g" and "(rdp_p r - 1) * rdp_symbolSize r < 2 ^ 32"
  shows "\<exists>parity'. add_adjuster r parity s = Some parity' \<and> chunk_is (rdp_p r - 1) (rdp_symbolSize r) parity' (\<lambda>j b. f j b XOR g b)"
proof -
  let ?f = "\<lambda>k j b. if j < k then f j b XOR g b else f j b"
  have "\<exists>parity'. add_adjuster r parity s = Some parity' \<and> chunk_is (rdp_p r - 1) (rdp_symbolSize r) parity' (?f (rdp_p r - 1))"
    unfolding add_adjuster_def
  proof (rule foldM_upt_inv [where P = "\<lambda>k q. chunk_is (rdp_p r - 1) (rdp_symbolSize r) q (?f k)"])
    show "chunk_is (rdp_p r - 1) (rdp_symbolSize r) parity (?f 0)" using assms(1) by simp
  next
    fix j q assume j: "j < rdp_p r - 1" and P: "chunk_is (rdp_p r - 1) (rdp_symbolSize r) q (?f j)"
    from xor_mem_chunk [OF P assms(2) j assms(3)] obtain q' where
      q': "xor_mem q (cu_getData 0 + j * rdp_symbolSize r) s 0 (rdp_symbolSize r) = Some q'"
        "chunk_is (rdp_p r - 1) (rdp_symbolSize r) q' (\<lambda>i b. if i = j then ?f j j b XOR g b else ?f j i b)" by blast
    from q'(2) have "chunk_is (rdp_p r - 1) (rdp_symbolSize r) q' (?f (Suc j))" by (rule chunk_is_cong) (auto simp: less_Suc_eq)
    with q'(1) show "\<exists>q'. xor_mem q (cu_getData 0 + j * rdp_symbolSize r) s 0 (rdp_symbolSize r) = Some q' \<and> chunk_is (rdp_p r - 1) (rdp_symbolSize r) q' (?f (Suc j))"
      by blast
  qed
  then obtain q where "add_adjuster r parity s = Some q" "chunk_is (rdp_p r - 1) (rdp_symbolSize r) q (?f (rdp_p r - 1))" by blast
  moreover from this(2) have "chunk_is (rdp_p r - 1) (rdp_symbolSize r) q (\<lambda>j b. f j b XOR g b)" by (rule chunk_is_cong) auto
  ultimately show ?thesis by blast
qed

abbreviation eo_diag :: "RDPCoding \<Rightarrow> (nat \<Rightarrow> nat \<Rightarrow> nat \<Rightarrow> byte) \<Rightarrow> nat \<Rightarrow> nat \<Rightarrow> byte" where
  "eo_diag r V j b \<equiv> diagonal (rdp_p r) V {..<rdp_k r} j b"

lemma eo_encode_diagonal:
  assumes ok: "eo_ok r" and len: "rdp_k r \<le> length data" and data: "\<forall>c < rdp_k r. chunk_is (rdp_p r - 1) (rdp_symbolSize r) (data ! c) (V c)"
    and "startOff \<le> endOff" and zero: "is_partial startOff endOff \<longrightarrow> (\<forall>c < rdp_k r. zero_outside r startOff endOff c (V c))"
    and par: "chunk_is (rdp_p r - 1) (rdp_symbolSize r) parity g"
  shows "\<exists>p. eo_encode r data parity 2 startOff endOff = Some p
    \<and> chunk_is (rdp_p r - 1) (rdp_symbolSize r) p (\<lambda>j b. g j b XOR eo_diag r V j b XOR eo_diag r V (rdp_p r - 1) b)"
proof -
  have p: "0 < rdp_p r" "(rdp_p r - 1) * rdp_symbolSize r < 2 ^ 32" using ok by (simp_all add: eo_ok_def)
  from eo_diagonals_spec [OF assms] obtain q s where qs: "eo_diagonals r data parity startOff endOff = Some (q, s)"
      "chunk_is (rdp_p r - 1) (rdp_symbolSize r) q (\<lambda>j b. g j b XOR eo_diag r V j b)" "sym_is (rdp_symbolSize r) s (\<lambda>b. eo_diag r V (rdp_p r - 1) b)"
    by (auto simp: enc_state_def part_diag_all [OF p(1)])
  from add_adjuster_spec [OF qs(2,3) p(2)] obtain q' where
    "add_adjuster r q s = Some q'" "chunk_is (rdp_p r - 1) (rdp_symbolSize r) q' (\<lambda>j b. (g j b XOR eo_diag r V j b) XOR eo_diag r V (rdp_p r - 1) b)" by blast
  then show ?thesis using qs(1) by (simp add: eo_encode_def xor.assoc)
qed

section \<open>Diagonals and rows of the decoder\<close>

text \<open>The loop along diagonal \<open>d\<close>, which repairs symbol \<open>j\<close> of column \<open>x\<close>; the two repair routines differ in the test for symbols to skip.\<close>

lemma diagonal_loop:
  assumes V: "stripe_is (p - 1) z n cs V" and fits: "(p - 1) * z < 2 ^ 32" and "x < n" "k \<le> n" "k \<le> p" "d < p" "j < p - 1"
    and skip: "\<And>c. c < k \<Longrightarrow> c \<noteq> x \<Longrightarrow> skip ((d + p - c) mod p) \<longleftrightarrow> (d + p - c) mod p = p - 1"
  shows "\<exists>cs'. foldM (\<lambda>c cs. if c = x then Some cs else let t = (d + p - c) mod p in if skip t then Some cs else xor_chunk cs x (j * z) c (t * z) z) [0..<k] cs = Some cs'
    \<and> stripe_is (p - 1) z n cs' (\<lambda>i s b. if i = x \<and> s = j then V x j b XOR diagonal p V ({..<k} - {x}) d b else V i s b)"
proof (rule foldM_upt_inv [where P = "\<lambda>c cs. stripe_is (p - 1) z n cs (\<lambda>i s b. if i = x \<and> s = j then V x j b XOR diagonal p V ({..<c} - {x}) d b else V i s b)"])
  let ?W = "\<lambda>k i s b. if i = x \<and> s = j then V x j b XOR diagonal p V ({..<k} - {x}) d b else V i s b"
  show "stripe_is (p - 1) z n cs (?W 0)" using V by (rule stripe_is_cong) (simp add: diagonal_def)
  fix c cs' assume c: "c < k" and P: "stripe_is (p - 1) z n cs' (?W c)"
  let ?t = "(d + p - c) mod p"
  show "\<exists>cs''. (if c = x then Some cs' else let t = ?t in if skip t then Some cs' else xor_chunk cs' x (j * z) c (t * z) z) = Some cs''
      \<and> stripe_is (p - 1) z n cs'' (?W (Suc c))"
  proof (cases "c = x")
    case True
    have "{..<Suc c} - {x} = {..<c} - {x}" using True by auto
    then have "?W (Suc c) = ?W c" by (simp only:)
    then show ?thesis unfolding if_P [OF True] using P by (intro exI [of _ cs'] conjI refl) (simp only:)
  next
    case False
    have ins: "{..<Suc c} - {x} = insert c ({..<c} - {x})" using False by auto
    show ?thesis
    proof (cases "?t = p - 1")
      case True
      have "stripe_is (p - 1) z n cs' (?W (Suc c))" using P by (rule stripe_is_cong) (simp add: ins diagonal_def xsum_insert True)
      then show ?thesis using True False skip [OF c False] by (simp add: Let_def)
    next
      case t: False
      then have lt: "?t < p - 1" using mod_less_divisor [of p "d + p - c"] assms(6) by linarith
      have "c < n" using c assms(4) by simp
      from xor_symbol [OF P assms(3) this assms(7) lt fits] obtain c1 where
        c1: "xor_chunk cs' x (j * z) c (?t * z) z = Some c1" "stripe_is (p - 1) z n c1 (\<lambda>i l b. if i = x \<and> l = j then ?W c x j b XOR ?W c c ?t b else ?W c i l b)" by blast
      from c1(2) have "stripe_is (p - 1) z n c1 (?W (Suc c))"
        by (rule stripe_is_cong) (use False lt in \<open>auto simp: ins diagonal_def xsum_insert ext_inner xor.assoc xor.commute xor.left_commute\<close>)
      then show ?thesis using c1(1) t False skip [OF c False] by (simp add: Let_def)
    qed
  qed
qed

lemma row_loop:
  assumes V: "stripe_is q z n cs V" and fits: "q * z < 2 ^ 32" and "x < n" "k \<le> n" "j < q"
  shows "\<exists>cs'. foldM (\<lambda>c cs. if c = x then Some cs else xor_chunk cs x (j * z) c (j * z) z) [0..<k] cs = Some cs'
    \<and> stripe_is q z n cs' (\<lambda>i s b. if i = x \<and> s = j then V x j b XOR xsum (\<lambda>c. V c j b) ({..<k} - {x}) else V i s b)"
proof (rule foldM_upt_inv [where P = "\<lambda>c cs. stripe_is q z n cs (\<lambda>i s b. if i = x \<and> s = j then V x j b XOR xsum (\<lambda>c. V c j b) ({..<c} - {x}) else V i s b)"])
  let ?W = "\<lambda>k i s b. if i = x \<and> s = j then V x j b XOR xsum (\<lambda>c. V c j b) ({..<k} - {x}) else V i s b"
  show "stripe_is q z n cs (?W 0)" using V by (rule stripe_is_cong) simp
  fix c cs' assume c: "c < k" and P: "stripe_is q z n cs' (?W c)"
  show "\<exists>cs''. (if c = x then Some cs' else xor_chunk cs' x (j * z) c (j * z) z) = Some cs'' \<and> stripe_is q z n cs'' (?W (Suc c))"
  proof (cases "c = x")
    case True
    have "{..<Suc c} - {x} = {..<c} - {x}" using True by auto
    then have "?W (Suc c) = ?W c" by (simp only:)
    then show ?thesis unfolding if_P [OF True] using P by (intro exI [of _ cs'] conjI refl) (simp only:)
  next
    case False
    have ins: "{..<Suc c} - {x} = insert c ({..<c} - {x})" using False by auto
    have "c < n" using c assms(4) by simp
    from xor_symbol [OF P assms(3) this assms(5,5) fits] obtain c1 where
      c1: "xor_chunk cs' x (j * z) c (j * z) z = Some c1" "stripe_is q z n c1 (\<lambda>i l b. if i = x \<and> l = j then ?W c x j b XOR ?W c c j b else ?W c i l b)" by blast
    from c1(2) have "stripe_is q z n c1 (?W (Suc c))"
      by (rule stripe_is_cong) (use False in \<open>auto simp: ins xsum_insert xor.assoc xor.commute xor.left_commute\<close>)
    then show ?thesis using c1(1) False by simp
  qed
qed

end
