(* ===== verification/EvenOddDecode.thy ===== *)
theory EvenOddDecode
  imports EvenOddCode
begin

unbundle bit_operations_syntax

text \<open>
  The EVENODD decoder restores any two lost chunks: recovery of the adjuster, repair of a column along
  diagonals, repair of two columns along the cycle of rows.
\<close>

section \<open>Diagonals and the adjuster\<close>

lemma xor_cancel_mid: "(x :: 'a::ring_bit_operations) XOR (y XOR x) = y"
  using xor.commute [of y x] by simp

text \<open>A diagonal symbol with the adjuster: on the diagonal without parity symbol the adjuster alone.\<close>

definition diag_sym :: "RDPCoding \<Rightarrow> (nat \<Rightarrow> nat \<Rightarrow> nat \<Rightarrow> byte) \<Rightarrow> nat \<Rightarrow> nat \<Rightarrow> byte" where
  "diag_sym r V j b = (if j = rdp_p r - 1 then 0 else V (rdp_k r + 1) j b)"

lemma eo_code_diag:
  "eo_code r V \<Longrightarrow> j < rdp_p r \<Longrightarrow> b < rdp_symbolSize r \<Longrightarrow> eo_diag r V j b = diag_sym r V j b XOR eo_diag r V (rdp_p r - 1) b"
  by (auto simp: eo_code_def diag_sym_def)

lemma residue_prev:
  fixes x p :: nat
  assumes "x < p"
  shows "((x + p - 1) mod p + p - x) mod p = p - 1"
proof -
  have "x + (p - 1) = x + p - 1" using assms by simp
  then have "(x + (p - 1)) mod p = (x + p - 1) mod p" by (simp only:)
  then show ?thesis using residue_eq [OF assms, of "p - 1" "(x + p - 1) mod p"] assms by simp
qed

lemma prime_odd: "is_prime p \<Longrightarrow> 2 < p \<Longrightarrow> even (p - 1)"
  by (auto simp: is_prime_def)

lemma xsum_const_even: "even n \<Longrightarrow> xsum (\<lambda>_. c) {..<n :: nat} = 0"
proof (induction n rule: nat_less_induct)
  case (1 n)
  show ?case
  proof (cases "n < 2")
    case True
    then show ?thesis using "1.prems" by (cases n) auto
  next
    case False
    then obtain m where m: "n = Suc (Suc m)" by (metis add_2_eq_Suc le_Suc_ex not_less)
    then show ?thesis using 1 by (simp add: lessThan_Suc xsum_insert)
  qed
qed

lemma column_on_diagonals:
  assumes "c < p"
  shows "xsum (\<lambda>j. ext p V c ((j + p - c) mod p) b) {..<p} = xsum (\<lambda>s. V c s b) {..<p - 1}"
proof -
  have bij: "bij_betw (\<lambda>j. (j + p - c) mod p) {..<p} {..<p}"
  proof (rule bij_betw_byWitness [where f' = "\<lambda>s. (c + s) mod p"])
    show "\<forall>j \<in> {..<p}. (c + (j + p - c) mod p) mod p = j" using residue_back [OF assms] by simp
    show "\<forall>s \<in> {..<p}. ((c + s) mod p + p - c) mod p = s"
    proof
      fix s assume "s \<in> {..<p}"
      then show "((c + s) mod p + p - c) mod p = s" using residue_eq [OF assms, of s "(c + s) mod p"] assms by simp
    qed
  qed (use assms in auto)
  have "xsum (\<lambda>j. ext p V c ((j + p - c) mod p) b) {..<p} = xsum (\<lambda>s. ext p V c s b) {..<p}" by (rule xors.reindex_bij_betw [OF bij])
  also have "\<dots> = xsum (\<lambda>s. ext p V c s b) (insert (p - 1) {..<p - 1})" by (rule arg_cong [where f = "xsum (\<lambda>s. ext p V c s b)"]) (use assms in auto)
  also have "\<dots> = xsum (\<lambda>s. ext p V c s b) {..<p - 1}" by (simp add: xsum_insert)
  also have "\<dots> = xsum (\<lambda>s. V c s b) {..<p - 1}" by (rule xors.cong) (auto simp: ext_def)
  finally show ?thesis .
qed

lemma adjuster_value:
  assumes ok: "eo_ok r" and code: "eo_code r V" and b: "b < rdp_symbolSize r"
  shows "xsum (\<lambda>j. V (rdp_k r) j b XOR V (rdp_k r + 1) j b) {..<rdp_p r - 1} = eo_diag r V (rdp_p r - 1) b"
proof -
  let ?p = "rdp_p r" and ?k = "rdp_k r"
  let ?S = "eo_diag r V (?p - 1) b" and ?all = "xsum (\<lambda>c. xsum (\<lambda>s. V c s b) {..<?p - 1}) {..<?k}"
  have p: "0 < ?p" "?k \<le> ?p" and ev: "even (?p - 1)" using ok prime_odd by (auto simp: eo_ok_def)
  have "xsum (\<lambda>j. V ?k j b) {..<?p - 1} = xsum (\<lambda>j. xsum (\<lambda>c. V c j b) {..<?k}) {..<?p - 1}"
  proof (rule xors.cong)
    fix j assume "j \<in> {..<?p - 1}"
    then have "V ?k j b XOR xsum (\<lambda>c. V c j b) {..<?k} = 0" using code b by (simp add: eo_code_def lessThan_Suc xsum_insert)
    then show "V ?k j b = xsum (\<lambda>c. V c j b) {..<?k}" by (simp add: xor_eq_iff)
  qed simp
  also have "\<dots> = ?all" by (rule xors.swap)
  finally have rows: "xsum (\<lambda>j. V ?k j b) {..<?p - 1} = ?all" .
  have "xsum (\<lambda>j. V (?k + 1) j b) {..<?p - 1} = xsum (\<lambda>j. eo_diag r V j b XOR ?S) {..<?p - 1}"
    by (rule xors.cong) (use code b in \<open>auto simp: eo_code_def\<close>)
  also have "\<dots> = xsum (\<lambda>j. eo_diag r V j b) {..<?p - 1}" by (simp only: xors.distrib xsum_const_even [OF ev] xor.right_neutral)
  also have "\<dots> = ?S XOR xsum (\<lambda>j. eo_diag r V j b) (insert (?p - 1) {..<?p - 1})" by (simp add: xsum_insert)
  also have "insert (?p - 1) {..<?p - 1} = {..<?p}" using p(1) by auto
  also have "xsum (\<lambda>j. eo_diag r V j b) {..<?p} = xsum (\<lambda>c. xsum (\<lambda>j. ext ?p V c ((j + ?p - c) mod ?p) b) {..<?p}) {..<?k}"
    unfolding diagonal_def by (rule xors.swap)
  also have "\<dots> = ?all" by (rule xors.cong) (use column_on_diagonals p(2) in auto)
  finally show ?thesis using rows xor.commute [of ?S ?all] by (simp add: xors.distrib)
qed

lemma eo_sizes: "eo_ok r \<Longrightarrow> (rdp_p r - 1) * rdp_symbolSize r < 2 ^ 32 \<and> rdp_k r \<le> rdp_p r \<and> 2 < rdp_p r \<and> rdp_chunkSize r = (rdp_p r - 1) * rdp_symbolSize r"
  by (simp add: eo_ok_def)

abbreviation eo_is :: "RDPCoding \<Rightarrow> memory list \<Rightarrow> (nat \<Rightarrow> nat \<Rightarrow> nat \<Rightarrow> byte) \<Rightarrow> bool" where
  "eo_is r \<equiv> stripe_is (rdp_p r - 1) (rdp_symbolSize r) (rdp_k r + 2)"

lemma adjuster_two_spec:
  assumes ok: "eo_ok r" and code: "eo_code r V" and W: "eo_is r cs W" and "\<And>s b. W (rdp_k r) s b = V (rdp_k r) s b \<and> W (rdp_k r + 1) s b = V (rdp_k r + 1) s b"
  shows "\<exists>s. adjuster_two r cs = Some s \<and> sym_is (rdp_symbolSize r) s (eo_diag r V (rdp_p r - 1))"
proof -
  let ?p = "rdp_p r" and ?k = "rdp_k r" and ?z = "rdp_symbolSize r"
  note sizes = eo_sizes [OF ok]
  have lt: "?k < ?k + 2" "?k + 1 < ?k + 2" "0 < ?p - 1" and fits: "(?p - 1) * ?z < 2 ^ 32" using sizes by auto
  let ?sum = "\<lambda>n b. xsum (\<lambda>j. V ?k j b XOR V (?k + 1) j b) {..<n}"
  from stripe_is_item [OF W lt(1)] obtain c where c: "item_at cs ?k = Some c" "chunk_is (?p - 1) ?z c (W ?k)" by blast
  have "Suc 0 * ?z \<le> (?p - 1) * ?z" using lt(3) by (intro mult_le_mono1) simp
  then have peek: "peek c (cu_getData 0) ?z = Some (seg 8 ?z c)" using c(2) by (simp add: peek_def cu_getData_def chunk_is_def chunk_ok_def)
  have byte: "c ! (8 + b) = V ?k 0 b" if "b < ?z" for b
  proof -
    have "dbyte c (0 * ?z + b) = W ?k 0 b" using c(2) lt(3) that unfolding chunk_is_def by blast
    then show ?thesis using assms(4) by (simp add: dbyte_def)
  qed
  have "sym_is ?z (seg 8 ?z c) (V ?k 0)"
    unfolding sym_is_def
  proof (intro conjI allI impI)
    have len: "8 + ?z \<le> length c" using c(2) \<open>Suc 0 * ?z \<le> (?p - 1) * ?z\<close> by (simp add: chunk_is_def chunk_ok_def)
    then show "length (seg 8 ?z c) = ?z" by simp
    fix b assume "b < ?z"
    then show "seg 8 ?z c ! b = V ?k 0 b" using len byte by (simp add: nth_seg)
  qed
  from gather_spec [OF W lt(2,3) this fits] obtain s0 where
    s0: "gather ?z cs (?k + 1) 0 (seg 8 ?z c) = Some s0" "sym_is ?z s0 (\<lambda>b. V ?k 0 b XOR V (?k + 1) 0 b)" using assms(4) by auto
  have loop: "\<exists>s. foldM (\<lambda>sidx s. do { s \<leftarrow> gather ?z cs ?k sidx s; gather ?z cs (?k + 1) sidx s }) [1..<n] s0 = Some s \<and> sym_is ?z s (?sum n)"
    if "1 \<le> n" "n \<le> ?p - 1" for n
    using that
  proof (induction n rule: nat_induct_at_least)
    case base
    have "?sum 1 = (\<lambda>b. V ?k 0 b XOR V (?k + 1) 0 b)" by (simp add: fun_eq_iff lessThan_Suc xsum_insert)
    then show ?case using s0(2) by simp
  next
    case (Suc n)
    then obtain s where s: "foldM (\<lambda>sidx s. do { s \<leftarrow> gather ?z cs ?k sidx s; gather ?z cs (?k + 1) sidx s }) [1..<n] s0 = Some s" "sym_is ?z s (?sum n)" by auto
    have n: "n < ?p - 1" using Suc by simp
    from gather_spec [OF W lt(1) n s(2) fits] obtain s1 where s1: "gather ?z cs ?k n s = Some s1" "sym_is ?z s1 (\<lambda>b. ?sum n b XOR W ?k n b)" by blast
    from gather_spec [OF W lt(2) n s1(2) fits] obtain s2 where
      s2: "gather ?z cs (?k + 1) n s1 = Some s2" "sym_is ?z s2 (\<lambda>b. (?sum n b XOR W ?k n b) XOR W (?k + 1) n b)" by blast
    from s2(2) have "sym_is ?z s2 (?sum (Suc n))"
      by (rule sym_is_cong) (simp add: assms(4) [simplified] lessThan_Suc xsum_insert xor.assoc xor.commute xor.left_commute)
    moreover have "[1..<Suc n] = [1..<n] @ [n]" using Suc by simp
    ultimately show ?case using s(1) s1(1) s2(1) by (simp add: foldM_append)
  qed
  have "1 \<le> ?p - 1" using lt(3) by linarith
  from loop [OF this order_refl] obtain s where
    s: "foldM (\<lambda>sidx s. do { s \<leftarrow> gather ?z cs ?k sidx s; gather ?z cs (?k + 1) sidx s }) [1..<?p - 1] s0 = Some s" "sym_is ?z s (?sum (?p - 1))" by blast
  from s(2) have "sym_is ?z s (eo_diag r V (?p - 1))" by (rule sym_is_cong) (rule adjuster_value [OF ok code])
  then show ?thesis using s(1) s0(1) c(1) peek by (simp add: adjuster_two_def Let_def)
qed

lemma adjuster_one_spec:
  assumes ok: "eo_ok r" and code: "eo_code r V" and "x < rdp_k r"
    and W: "eo_is r cs W" and "\<And>i s b. i < rdp_k r \<Longrightarrow> i \<noteq> x \<Longrightarrow> W i s b = V i s b" and "\<And>s b. W (rdp_k r + 1) s b = V (rdp_k r + 1) s b"
  shows "\<exists>s. adjuster_one r x cs = Some s \<and> sym_is (rdp_symbolSize r) s (eo_diag r V (rdp_p r - 1))"
proof -
  let ?p = "rdp_p r" and ?k = "rdp_k r" and ?z = "rdp_symbolSize r"
  let ?d = "(x + rdp_p r - 1) mod rdp_p r"
  note sizes = eo_sizes [OF ok]
  have p: "0 < ?p" "x < ?p" "?d < ?p" and fits: "(?p - 1) * ?z < 2 ^ 32" using sizes assms(3) by auto
  have "\<exists>s. foldM (\<lambda>cidx s. if cidx = x then Some s else gather ?z cs cidx ((?d + ?p - cidx) mod ?p) s) [0..<?k] (replicate ?z 0) = Some s
      \<and> sym_is ?z s (diagonal ?p V ({..<?k} - {x}) ?d)"
  proof (rule foldM_upt_inv [where P = "\<lambda>c s. sym_is ?z s (diagonal ?p V ({..<c} - {x}) ?d)"])
    show "sym_is ?z (replicate ?z 0) (diagonal ?p V ({..<0} - {x}) ?d)" using sym_is_zero by (simp add: diagonal_def [abs_def])
  next
    fix c s assume c: "c < ?k" and P: "sym_is ?z s (diagonal ?p V ({..<c} - {x}) ?d)"
    let ?t = "(?d + ?p - c) mod ?p"
    show "\<exists>s'. (if c = x then Some s else gather ?z cs c ?t s) = Some s' \<and> sym_is ?z s' (diagonal ?p V ({..<Suc c} - {x}) ?d)"
    proof (cases "c = x")
      case True
      have "{..<Suc c} - {x} = {..<c} - {x}" using True by auto
      then show ?thesis unfolding if_P [OF True] using P by simp
    next
      case False
      have "?t \<noteq> ?p - 1" using residue_inj [of c ?p x ?d] residue_prev [OF p(2)] False c sizes p by auto
      then have t: "?t < ?p - 1" using mod_less_divisor [OF p(1), of "?d + ?p - c"] by linarith
      have "c < ?k + 2" using c by simp
      from gather_spec [OF W this t P fits] obtain s' where s': "gather ?z cs c ?t s = Some s'" "sym_is ?z s' (\<lambda>b. diagonal ?p V ({..<c} - {x}) ?d b XOR W c ?t b)" by blast
      have ins: "{..<Suc c} - {x} = insert c ({..<c} - {x})" using False by auto
      from s'(2) have "sym_is ?z s' (diagonal ?p V ({..<Suc c} - {x}) ?d)"
        by (rule sym_is_cong) (use t assms(5) [OF c False] in \<open>simp add: ins diagonal_def xsum_insert ext_inner xor.commute\<close>)
      then show ?thesis using s'(1) False by simp
    qed
  qed
  then obtain s where s: "foldM (\<lambda>cidx s. if cidx = x then Some s else gather ?z cs cidx ((?d + ?p - cidx) mod ?p) s) [0..<?k] (replicate ?z 0) = Some s"
      "sym_is ?z s (diagonal ?p V ({..<?k} - {x}) ?d)" by blast
  have diag: "diagonal ?p V ({..<?k} - {x}) ?d b = diag_sym r V ?d b XOR eo_diag r V (?p - 1) b" if "b < ?z" for b
  proof -
    have "eo_diag r V ?d b = diagonal ?p V ({..<?k} - {x}) ?d b"
      using xsum_remove [of "{..<?k}" x "\<lambda>c. ext ?p V c ((?d + ?p - c) mod ?p) b"] assms(3) residue_prev [OF p(2)] by (simp add: diagonal_def)
    then show ?thesis using eo_code_diag [OF code p(3) that] by simp
  qed
  show ?thesis
  proof (cases "?d = ?p - 1")
    case True
    from s(2) have "sym_is ?z s (eo_diag r V (?p - 1))" by (rule sym_is_cong) (simp only: diag [unfolded True diag_sym_def if_P [OF refl]] True xor.left_neutral)
    then show ?thesis unfolding adjuster_one_def Let_def s(1) Option.bind.bind_lunit using True by auto
  next
    case False
    then have d: "?d < ?p - 1" using p(3) by linarith
    have "?k + 1 < ?k + 2" by simp
    from gather_spec [OF W this d s(2) fits] obtain s' where
      s': "gather ?z cs (?k + 1) ?d s = Some s'" "sym_is ?z s' (\<lambda>b. diagonal ?p V ({..<?k} - {x}) ?d b XOR W (?k + 1) ?d b)" by blast
    from s'(2) have "sym_is ?z s' (eo_diag r V (?p - 1))" 
      by (rule sym_is_cong) (simp only: diag diag_sym_def if_not_P [OF False] assms(6) xor.assoc xor_cancel_mid)
    then show ?thesis unfolding adjuster_one_def Let_def s(1) Option.bind.bind_lunit if_P [OF False] s'(1) by blast
  qed
qed

section \<open>Repair of one symbol along a diagonal\<close>

lemma diag_solve:
  assumes "eo_code r V" and "y < rdp_k r" and "d < rdp_p r" and "b < rdp_symbolSize r"
  shows "ext (rdp_p r) V y ((d + rdp_p r - y) mod rdp_p r) b
    = diagonal (rdp_p r) V ({..<rdp_k r} - {y}) d b XOR diag_sym r V d b XOR eo_diag r V (rdp_p r - 1) b"
  using xsum_solve [of "{..<rdp_k r}" y "\<lambda>c. ext (rdp_p r) V c ((d + rdp_p r - c) mod rdp_p r) b" "eo_diag r V d b"]
    eo_code_diag [OF assms(1,3,4)] assms(2) by (simp add: diagonal_def xor.assoc xor.commute xor.left_commute)

lemma diag_repair:
  assumes ok: "eo_ok r" and code: "eo_code r V" and y: "y < rdp_k r" and W: "eo_is r cs W"
    and d: "d < rdp_p r" and j: "j = (d + rdp_p r - y) mod rdp_p r" "j < rdp_p r - 1"
    and skip: "\<And>c. c < rdp_k r \<Longrightarrow> c \<noteq> y \<Longrightarrow> skip ((d + rdp_p r - c) mod rdp_p r) \<longleftrightarrow> (d + rdp_p r - c) mod rdp_p r = rdp_p r - 1"
    and same: "\<And>b. b < rdp_symbolSize r \<Longrightarrow> diagonal (rdp_p r) W ({..<rdp_k r} - {y}) d b = diagonal (rdp_p r) V ({..<rdp_k r} - {y}) d b"
    and par: "\<And>l b. W (rdp_k r + 1) l b = V (rdp_k r + 1) l b" and zero: "\<And>b. W y j b = 0" and s: "sym_is (rdp_symbolSize r) s (eo_diag r V (rdp_p r - 1))"
  shows "\<exists>cs'. do { chunks \<leftarrow> foldM (\<lambda>c cs. if c = y then Some cs else let t = (d + rdp_p r - c) mod rdp_p r in
                 if skip t then Some cs else xor_chunk cs y (j * rdp_symbolSize r) c (t * rdp_symbolSize r) (rdp_symbolSize r)) [0..<rdp_k r] cs;
               chunks \<leftarrow> (if d \<noteq> rdp_p r - 1 then xor_chunk chunks y (j * rdp_symbolSize r) (rdp_k r + 1) (d * rdp_symbolSize r) (rdp_symbolSize r) else Some chunks);
               spread (rdp_symbolSize r) chunks y j s } = Some cs'
    \<and> eo_is r cs' (\<lambda>i l b. if i = y \<and> l = j then V y j b else W i l b)"
proof -
  let ?p = "rdp_p r" and ?k = "rdp_k r" and ?z = "rdp_symbolSize r"
  have lt: "y < ?k + 2" "?k + 1 < ?k + 2" "?k \<le> ?k + 2" "?k \<le> ?p" and fits: "(?p - 1) * ?z < 2 ^ 32" using eo_sizes [OF ok] y by auto
  let ?W1 = "\<lambda>i l b. if i = y \<and> l = j then W y j b XOR diagonal ?p W ({..<?k} - {y}) d b else W i l b"
  from diagonal_loop [OF W fits lt(1,3,4) d j(2) skip] obtain c1 where
    c1: "foldM (\<lambda>c cs. if c = y then Some cs else let t = (d + ?p - c) mod ?p in if skip t then Some cs else xor_chunk cs y (j * ?z) c (t * ?z) ?z) [0..<?k] cs = Some c1"
      "eo_is r c1 ?W1" by blast
  have "\<exists>c2. (if d \<noteq> ?p - 1 then xor_chunk c1 y (j * ?z) (?k + 1) (d * ?z) ?z else Some c1) = Some c2
      \<and> eo_is r c2 (\<lambda>i l b. if i = y \<and> l = j then ?W1 y j b XOR diag_sym r V d b else ?W1 i l b)"
  proof (cases "d = ?p - 1")
    case True
    have "eo_is r c1 (\<lambda>i l b. if i = y \<and> l = j then ?W1 y j b XOR diag_sym r V d b else ?W1 i l b)"
      using c1(2) by (rule stripe_is_cong) (simp add: diag_sym_def True)
    then show ?thesis using True by simp
  next
    case False
    then have "d < ?p - 1" using d by linarith
    from xor_symbol [OF c1(2) lt(1,2) j(2) this fits] obtain c2 where
      c2: "xor_chunk c1 y (j * ?z) (?k + 1) (d * ?z) ?z = Some c2" "eo_is r c2 (\<lambda>i l b. if i = y \<and> l = j then ?W1 y j b XOR ?W1 (?k + 1) d b else ?W1 i l b)" by blast
    from c2(2) have "eo_is r c2 (\<lambda>i l b. if i = y \<and> l = j then ?W1 y j b XOR diag_sym r V d b else ?W1 i l b)"
      by (rule stripe_is_cong) (use False y par in \<open>auto simp: diag_sym_def\<close>)
    then show ?thesis using False c2(1) by auto
  qed
  then obtain c2 where c2: "(if d \<noteq> ?p - 1 then xor_chunk c1 y (j * ?z) (?k + 1) (d * ?z) ?z else Some c1) = Some c2"
      "eo_is r c2 (\<lambda>i l b. if i = y \<and> l = j then ?W1 y j b XOR diag_sym r V d b else ?W1 i l b)" by blast
  let ?W2 = "\<lambda>i l b. if i = y \<and> l = j then ?W1 y j b XOR diag_sym r V d b else ?W1 i l b"
  from spread_spec [OF c2(2) lt(1) j(2) s fits] obtain c3 where
    c3: "spread ?z c2 y j s = Some c3" "eo_is r c3 (\<lambda>i l b. if i = y \<and> l = j then ?W2 y j b XOR eo_diag r V (?p - 1) b else ?W2 i l b)" by blast
  from c3(2) have "eo_is r c3 (\<lambda>i l b. if i = y \<and> l = j then V y j b else W i l b)"
  proof (rule stripe_is_cong)
    fix i l b assume "b < ?z"
    then have "V y j b = diagonal ?p W ({..<?k} - {y}) d b XOR diag_sym r V d b XOR eo_diag r V (?p - 1) b"
      using diag_solve [OF code y d \<open>b < ?z\<close>] same j by (simp add: ext_inner)
    then show "(if i = y \<and> l = j then ?W2 y j b XOR eo_diag r V (?p - 1) b else ?W2 i l b) = (if i = y \<and> l = j then V y j b else W i l b)"
      using zero by (simp add: xor.assoc)
  qed
  then show ?thesis unfolding c1(1) Option.bind.bind_lunit c2(1) c3(1) by blast
qed

lemma eo_diag_masked:
  assumes "0 < rdp_p r" and "\<And>c. c < rdp_k r \<Longrightarrow> c \<noteq> y \<Longrightarrow> (d + rdp_p r - c) mod rdp_p r < rdp_p r - 1 \<Longrightarrow>
      W c ((d + rdp_p r - c) mod rdp_p r) b = V c ((d + rdp_p r - c) mod rdp_p r) b"
  shows "diagonal (rdp_p r) W ({..<rdp_k r} - {y}) d b = diagonal (rdp_p r) V ({..<rdp_k r} - {y}) d b"
  unfolding diagonal_def
proof (rule xors.cong)
  fix c assume c: "c \<in> {..<rdp_k r} - {y}"
  let ?t = "(d + rdp_p r - c) mod rdp_p r"
  show "ext (rdp_p r) W c ?t b = ext (rdp_p r) V c ?t b"
  proof (cases "?t = rdp_p r - 1")
    case False
    then have "?t < rdp_p r - 1" using mod_less_divisor [OF assms(1), of "d + rdp_p r - c"] by linarith
    then show ?thesis using assms(2) c by (simp add: ext_def)
  qed simp
qed simp

end
