(* ===== verification/EvenOddMain.thy ===== *)
theory EvenOddMain
  imports EvenOddDecode
begin

unbundle bit_operations_syntax

text \<open>
  EVENODD: the two repair procedures of the decoder, the decoder as a whole, and the properties of the code.
\<close>

section \<open>A data chunk and the row parity\<close>

lemma residue_cancel: "D < p \<Longrightarrow> s < p \<Longrightarrow> ((D + s) mod p + p - D) mod p = (s :: nat)"
  using residue_eq [of D p s "(D + s) mod p"] by simp

lemma repair_diagonal_spec:
  assumes ok: "eo_ok r" and code: "eo_code r V" and x: "x < rdp_k r" and j: "j < rdp_p r - 1" and s: "sym_is (rdp_symbolSize r) s (eo_diag r V (rdp_p r - 1))"
    and W: "eo_is r cs W" and cols: "\<And>i l b. i < rdp_k r \<Longrightarrow> i \<noteq> x \<Longrightarrow> W i l b = V i l b" "\<And>l b. W (rdp_k r + 1) l b = V (rdp_k r + 1) l b" and "\<And>b. W x j b = 0"
  shows "\<exists>cs'. repair_diagonal r x j ((x + j) mod rdp_p r) s cs = Some cs' \<and> eo_is r cs' (\<lambda>i l b. if i = x \<and> l = j then V x j b else W i l b)"
proof -
  let ?p = "rdp_p r" and ?d = "(x + j) mod rdp_p r"
  have p: "0 < ?p" "x < ?p" "j < ?p" "2 < ?p" using eo_sizes [OF ok] x j by auto
  have "t > ?p - 2 \<longleftrightarrow> t = ?p - 1" if "t < ?p" for t using that p(4) by auto
  from this [OF mod_less_divisor [OF p(1)]] have skip: "(?d + ?p - c) mod ?p > ?p - 2 \<longleftrightarrow> (?d + ?p - c) mod ?p = ?p - 1" for c .
  have d: "?d < ?p" "j = (?d + ?p - x) mod ?p" using residue_cancel [OF p(2,3)] p(1) by simp_all
  show ?thesis unfolding repair_diagonal_def Let_def
  proof (rule diag_repair [OF ok code x W d j, where skip = "\<lambda>t. t > ?p - 2", unfolded Let_def])
    show "diagonal ?p W ({..<rdp_k r} - {x}) ?d b = diagonal ?p V ({..<rdp_k r} - {x}) ?d b" for b
      by (rule eo_diag_masked [OF p(1)]) (rule cols(1))
  qed (rule skip cols(2) assms(9) s)+
qed

text \<open>The view of a stripe without chunks \<open>x\<close> and \<open>k\<close>, with the first \<open>n\<close> symbols of \<open>x\<close> repaired.\<close>

lemma eo_row_parity_restores:
  assumes ok: "eo_ok r" and code: "eo_code r V" and x: "x < rdp_k r" and W: "eo_is r cs (\<lambda>i l b. if i \<in> {x, rdp_k r} then 0 else V i l b)"
  shows "\<exists>cs'. eo_repair_row_parity r x cs = Some cs' \<and> eo_is r cs' V"
proof -
  let ?p = "rdp_p r" and ?k = "rdp_k r" and ?z = "rdp_symbolSize r"
  let ?W = "\<lambda>n i l b. if i = rdp_k r \<or> i = x \<and> \<not> l < n then 0 else V i l b"
  have size: "?p - 1 + 1 = ?p" "rdp_chunkSize r = (?p - 1) * ?z" "rdp_chunkSize r < 2 ^ 32" using ok by (auto simp: eo_ok_def)
  obtain s where s: "adjuster_one r x cs = Some s" "sym_is ?z s (eo_diag r V (?p - 1))"
    using adjuster_one_spec [OF ok code x W] x by auto
  have "\<exists>cs'. foldM (\<lambda>sidx chunks. repair_diagonal r x sidx ((x + sidx) mod ?p) s chunks) [0..<?p - 1] cs = Some cs' \<and> eo_is r cs' (?W (?p - 1))"
  proof (rule foldM_upt_inv [where P = "\<lambda>n cs. eo_is r cs (?W n)"])
    show "eo_is r cs (?W 0)" using W by (rule stripe_is_cong) auto
  next
    fix j c assume j: "j < ?p - 1" and P: "eo_is r c (?W j)"
    obtain c' where c': "repair_diagonal r x j ((x + j) mod ?p) s c = Some c'" "eo_is r c' (\<lambda>i l b. if i = x \<and> l = j then V x j b else ?W j i l b)"
      using repair_diagonal_spec [OF ok code x j s(2) P] x by auto
    from c'(2) have "eo_is r c' (?W (Suc j))" by (rule stripe_is_cong) (use x in \<open>auto simp: less_Suc_eq\<close>)
    with c'(1) show "\<exists>c'. repair_diagonal r x j ((x + j) mod ?p) s c = Some c' \<and> eo_is r c' (?W (Suc j))" by blast
  qed
  then obtain c1 where c1: "foldM (\<lambda>sidx chunks. repair_diagonal r x sidx ((x + sidx) mod ?p) s chunks) [0..<?p - 1] cs = Some c1" "eo_is r c1 (?W (?p - 1))" by blast
  from stripe_is_item [OF c1(2), of ?k] obtain m where m: "item_at c1 ?k = Some m" "chunk_is (?p - 1) ?z m (\<lambda>l b. 0)" by auto
  have data: "?k + 1 - 1 \<le> length c1" "\<forall>i < ?k + 1 - 1. chunk_ok (rdp_chunkSize r) (c1 ! i)" "chunk_ok (rdp_chunkSize r) m"
    using c1(2) m(2) size(2) by (auto simp: stripe_is_def chunk_is_def)
  from raid5_encode_row [OF data size(3)] obtain q where q: "raid5_encode (rdp_chunkSize r) (?k + 1) c1 m = Some q" "chunk_ok (rdp_chunkSize r) q"
      "\<forall>b < rdp_chunkSize r. dbyte q b = dbyte m b XOR xsum (\<lambda>i. sb c1 i b) {..<?k}" by auto
  have "chunk_is (?p - 1) ?z q (V ?k)" unfolding chunk_is_def
  proof (intro conjI allI impI)
    show "chunk_ok ((?p - 1) * ?z) q" using q(2) size(2) by simp
    fix l b assume lb: "l < ?p - 1" "b < ?z"
    have "xsum (\<lambda>i. sb c1 i (l * ?z + b)) {..<?k} = xsum (\<lambda>i. V i l b) {..<?k}"
      by (rule xors.cong) (use lb in \<open>auto simp: stripe_is_sb [OF c1(2) _ lb]\<close>)
    also have "\<dots> = V ?k l b" using code lb by (simp add: eo_code_def lessThan_Suc xsum_insert xor_eq_iff)
    finally show "dbyte q (l * ?z + b) = V ?k l b" using q(3) symbol_pos [OF lb] m(2) lb size(2) by (simp add: chunk_is_def)
  qed
  moreover have "?k < ?k + 2" by simp
  ultimately have "eo_is r (c1[?k := q]) ((?W (?p - 1))(?k := V ?k))" by (intro stripe_is_update [OF c1(2)])
  then have "eo_is r (c1[?k := q]) V" by (rule stripe_is_cong) auto
  then show ?thesis using s(1) c1(1) m(1) q(1) by (simp add: eo_repair_row_parity_def encode_into_def eo_encode_def)
qed

section \<open>Two data chunks\<close>

lemma bind_three: "do { a \<leftarrow> A; b \<leftarrow> B a; C b } = Some c \<Longrightarrow> do { a \<leftarrow> A; b \<leftarrow> B a; c \<leftarrow> C b; D c } = D c"
  by (auto split: Option.bind_splits)

lemma repair_pair_spec:
  assumes ok: "eo_ok r" and code: "eo_code r V" and cols: "x < rdp_k r" "y < rdp_k r" "x \<noteq> y" and s: "sym_is (rdp_symbolSize r) s (eo_diag r V (rdp_p r - 1))"
    and W: "eo_is r cs (masked {x, y} rows V)" and d: "d < rdp_p r" and j: "j = (d + rdp_p r - y) mod rdp_p r" "j < rdp_p r - 1" "j \<notin> rows"
    and ready: "(d + rdp_p r - x) mod rdp_p r \<in> insert (rdp_p r - 1) rows"
  shows "\<exists>cs'. repair_pair r x y j d s cs = Some cs' \<and> eo_is r cs' (masked {x, y} (insert j rows) V)"
proof -
  let ?p = "rdp_p r" and ?k = "rdp_k r" and ?z = "rdp_symbolSize r" and ?M = "masked {x, y} rows V"
  have p: "0 < ?p" "x < ?p" "y < ?p" "?k \<le> ?p" and fits: "(?p - 1) * ?z < 2 ^ 32" using eo_sizes [OF ok] cols by auto
  have skip: "((d + ?p - c) mod ?p = j \<or> (d + ?p - c) mod ?p = ?p - 1) \<longleftrightarrow> (d + ?p - c) mod ?p = ?p - 1" if "c < ?k" "c \<noteq> y" for c
    using residue_inj [of c ?p y d] that p d j(1) by auto
  have same: "diagonal ?p ?M ({..<?k} - {y}) d b = diagonal ?p V ({..<?k} - {y}) d b" for b
    by (rule eo_diag_masked [OF p(1)]) (use ready in \<open>auto simp: masked_def\<close>)
  obtain c1 where c1: "do { chunks \<leftarrow> foldM (\<lambda>c cs. if c = y then Some cs else let t = (d + ?p - c) mod ?p in
                 if t = j \<or> t = ?p - 1 then Some cs else xor_chunk cs y (j * ?z) c (t * ?z) ?z) [0..<?k] cs;
               chunks \<leftarrow> (if d \<noteq> ?p - 1 then xor_chunk chunks y (j * ?z) (?k + 1) (d * ?z) ?z else Some chunks);
               spread ?z chunks y j s } = Some c1" "eo_is r c1 (\<lambda>i l b. if i = y \<and> l = j then V y j b else ?M i l b)"
    using diag_repair [OF ok code cols(2) W d j(1,2), where skip = "\<lambda>t. t = j \<or> t = ?p - 1" and s = s] skip same s cols j(3) by (auto simp: masked_def)
  let ?W = "\<lambda>i l b. if i = y \<and> l = j then V y j b else ?M i l b"
  have lt: "x < ?k + 2" "?k + 1 \<le> ?k + 2" using cols by simp_all
  from row_loop [OF c1(2) fits lt j(2)] obtain c2 where
    c2: "foldM (\<lambda>c cs. if c = x then Some cs else xor_chunk cs x (j * ?z) c (j * ?z) ?z) [0..<?k + 1] c1 = Some c2"
      "eo_is r c2 (\<lambda>i l b. if i = x \<and> l = j then ?W x j b XOR xsum (\<lambda>c. ?W c j b) ({..<?k + 1} - {x}) else ?W i l b)" by blast
  have row: "xsum (\<lambda>c. ?W c j b) ({..<?k + 1} - {x}) = V x j b" if "b < ?z" for b
  proof -
    have "xsum (\<lambda>c. ?W c j b) ({..<?k + 1} - {x}) = xsum (\<lambda>c. V c j b) ({..<?k + 1} - {x})" by (rule xors.cong) (auto simp: masked_def)
    moreover have "V x j b = 0 XOR xsum (\<lambda>c. V c j b) ({..<?k + 1} - {x})" by (rule xsum_solve) (use code that j(2) cols(1) in \<open>auto simp: eo_code_def\<close>)
    ultimately show ?thesis by simp
  qed
  from c2(2) have "eo_is r c2 (masked {x, y} (insert j rows) V)"
    by (rule stripe_is_cong) (use cols(3) j(3) row in \<open>auto simp: masked_def\<close>)
  moreover have "repair_pair r x y j d s cs = Some c2"
    unfolding repair_pair_def add.commute [of ?p d] Let_def
    by (rule trans [OF bind_three [OF c1(1) [unfolded Let_def]]]) (rule c2(1))
  ultimately show ?thesis by blast
qed

lemma eo_rounds_run:
  assumes ok: "eo_ok r" and code: "eo_code r V" and cols: "x < rdp_k r" "y < rdp_k r" "x \<noteq> y" and s: "sym_is (rdp_symbolSize r) s (eo_diag r V (rdp_p r - 1))"
  shows "t + m \<le> rdp_p r - 1 \<Longrightarrow> eo_is r cs (masked {x, y} (row (rdp_p r) x y ` {1..t}) V) \<Longrightarrow>
    \<exists>cs'. eo_rounds r x y m (row (rdp_p r) x y (t + 1)) ((y + row (rdp_p r) x y (t + 1)) mod rdp_p r) s cs = Some cs'
      \<and> eo_is r cs' (masked {x, y} (row (rdp_p r) x y ` {1..t + m}) V)"
proof (induction m arbitrary: t cs)
  case (Suc m)
  let ?p = "rdp_p r" and ?row = "row (rdp_p r) x y"
  let ?d = "(y + ?row (t + 1)) mod ?p"
  have prime: "is_prime ?p" "x < ?p" "y < ?p" "x \<noteq> y" and p: "0 < ?p" using ok cols by (auto simp: eo_ok_def)
  have t: "0 < t + 1" "t + 1 < ?p" using Suc.prems(1) p by auto
  have j: "?row (t + 1) = (?d + ?p - y) mod ?p" using residue_cancel [OF prime(3) row_less [OF p]] by simp
  have new: "?row (t + 1) \<notin> ?row ` {1..t}"
  proof
    assume "?row (t + 1) \<in> ?row ` {1..t}"
    then obtain v where "v \<le> t" "?row (t + 1) = ?row v" by auto
    then show False using row_inj [OF prime, of "t + 1" v] t by simp
  qed
  have "?d = (x + ?row t) mod ?p" by (rule row_next [OF p, symmetric])
  then have "(?d + ?p - x) mod ?p = ?row t" using residue_cancel [OF prime(2) row_less [OF p]] by simp
  then have ready: "(?d + ?p - x) mod ?p \<in> insert (?p - 1) (?row ` {1..t})" using row_0 [OF p, of x y] by (cases "t = 0") auto
  have d: "?d < ?p" using p by simp
  from repair_pair_spec [OF ok code cols s Suc.prems(2) d j row_inner [OF prime t] new ready] obtain c1 where
    c1: "repair_pair r x y (?row (t + 1)) ?d s cs = Some c1" "eo_is r c1 (masked {x, y} (insert (?row (t + 1)) (?row ` {1..t})) V)" by blast
  have "insert (?row (t + 1)) (?row ` {1..t}) = ?row ` {1..t + 1}" by (auto simp: atLeastAtMostSuc_conv)
  from Suc.IH [OF _ c1(2) [unfolded this]] Suc.prems(1) obtain c2 where
    c2: "eo_rounds r x y m (?row (t + 1 + 1)) ((y + ?row (t + 1 + 1)) mod ?p) s c1 = Some c2" "eo_is r c2 (masked {x, y} (?row ` {1..t + 1 + m}) V)" by auto
  have next1: "(x + ?row (t + 1)) mod ?p = (y + ?row (t + 1 + 1)) mod ?p" by (rule row_next [OF p])
  have next2: "((y + ?row (t + 1 + 1)) mod ?p + ?p - y) mod ?p = ?row (t + 1 + 1)" by (rule residue_cancel [OF prime(3) row_less [OF p]])
  have "eo_rounds r x y (Suc m) (?row (t + 1)) ?d s cs = Some c2"
    unfolding eo_rounds.simps c1(1) Option.bind.bind_lunit Let_def next1 next2 by (rule c2(1))
  then show ?case using c2(2) by (simp only: add_Suc_right add_Suc add.right_neutral One_nat_def) blast
qed auto

lemma eo_two_restores:
  assumes ok: "eo_ok r" and code: "eo_code r V" and cols: "x < y" "y < rdp_k r" and W: "eo_is r cs (\<lambda>i l b. if i \<in> {x, y} then 0 else V i l b)"
  shows "\<exists>cs'. eo_repair_two r x y cs = Some cs' \<and> eo_is r cs' V"
proof -
  let ?p = "rdp_p r" and ?row = "row (rdp_p r) x y"
  have prime: "is_prime ?p" "x < ?p" "y < ?p" "x \<noteq> y" and p: "0 < ?p" using ok cols by (auto simp: eo_ok_def)
  obtain s where s: "adjuster_two r cs = Some s" "sym_is (rdp_symbolSize r) s (eo_diag r V (?p - 1))"
    using adjuster_two_spec [OF ok code W] cols by auto
  have x: "x < rdp_k r" using cols by simp
  have W0: "eo_is r cs (masked {x, y} (?row ` {1..0}) V)" using W by (rule stripe_is_cong) (auto simp: masked_def)
  from eo_rounds_run [OF ok code x cols(2) prime(4) s(2) _ W0, of "?p - 1"] obtain cs' where
    cs': "eo_rounds r x y (?p - 1) (?row (0 + 1)) ((y + ?row (0 + 1)) mod ?p) s cs = Some cs'" "eo_is r cs' (masked {x, y} (?row ` {1..0 + (?p - 1)}) V)" by auto
  have "(x + ?p - 1) mod ?p = (x + ?row 0) mod ?p" using row_0 [OF p, of x y] p by simp
  also have "\<dots> = (y + ?row (0 + 1)) mod ?p" by (rule row_next [OF p])
  finally have d: "(x + ?p - 1) mod ?p = (y + ?row (0 + 1)) mod ?p" .
  have "((y + ?row (0 + 1)) mod ?p + ?p - y) mod ?p = ?row (0 + 1)" by (rule residue_cancel [OF prime(3) row_less [OF p]])
  then have "eo_repair_two r x y cs = Some cs'" unfolding eo_repair_two_def s(1) Option.bind.bind_lunit Let_def d using cs'(1) by simp
  moreover have "eo_is r cs' V" using cs'(2) row_onto [OF prime] by (auto dest!: masked_all)
  ultimately show ?thesis by blast
qed

section \<open>The decoder\<close>

lemma zero_data_spec:
  assumes "stripe_is q z n cs V" and "x < n"
  shows "\<exists>cs'. zero_data (q * z) cs x = Some cs' \<and> stripe_is q z n cs' (V(x := \<lambda>s b. 0))"
proof -
  obtain c where c: "item_at cs x = Some c" "chunk_is q z c (V x)" using stripe_is_item [OF assms] by blast
  have len: "length c = 8 + q * z" using c(2) by (simp add: chunk_is_def chunk_ok_def)
  then have "chunk_is q z (take 8 c @ replicate (q * z) 0) (\<lambda>s b. 0)"
    by (auto simp: chunk_is_def chunk_ok_def dbyte_def nth_append symbol_pos)
  from stripe_is_update [OF assms this] show ?thesis using c(1) len by (simp add: zero_data_def poke_def cu_getData_def)
qed

lemma zero_lost:
  assumes ok: "eo_ok r" and "eo_is r cs W" and "\<forall>x \<in> set xs. x < rdp_k r + 2 \<and> (\<forall>s b. W x s b = 0)"
  shows "\<exists>cs'. foldM (\<lambda>i cs. zero_data (rdp_chunkSize r) cs i) xs cs = Some cs' \<and> eo_is r cs' W"
  using assms(2,3)
proof (induction xs arbitrary: cs)
  case (Cons x xs)
  have x: "x < rdp_k r + 2" using Cons.prems(2) by simp
  from zero_data_spec [OF Cons.prems(1) x] obtain c where c: "zero_data (rdp_chunkSize r) cs x = Some c" "eo_is r c (W(x := \<lambda>s b. 0))"
    using eo_sizes [OF ok] by auto
  from c(2) have "eo_is r c W" by (rule stripe_is_cong) (use Cons.prems(2) in auto)
  then show ?case using Cons.IH Cons.prems(2) c(1) by simp
qed simp

lemma status_restrict: "status_ok bm n E \<Longrightarrow> m \<le> n \<Longrightarrow> status_ok bm m (E \<inter> {..<m})"
  by (auto simp: status_ok_def)

lemma eo_row_restores:
  assumes ok: "eo_ok r" and code: "eo_code r V" and "x \<le> rdp_k r" and bm: "status_ok bm (rdp_k r + 2) (insert x E)" and E: "E \<inter> {..rdp_k r} = {}"
    and W: "eo_is r cs (\<lambda>i s b. if i \<in> insert x E then 0 else V i s b)"
  shows "\<exists>cs'. raid5_decode (rdp_chunkSize r) (rdp_k r + 1) cs bm = Some (True, cs') \<and> eo_is r cs' (\<lambda>i s b. if i \<in> E then 0 else V i s b)"
proof -
  let ?k = "rdp_k r"
  have x: "x < ?k + 1" using assms(3) by simp
  have "insert x E \<inter> {..<?k + 1} = {x}" using x E by (auto simp: less_Suc_eq_le)
  then have "status_ok bm (?k + 1) {x}" using status_restrict [OF bm, of "?k + 1"] by simp
  then have scan: "scan_lost bm 1 0 (?k + 1) [] = Some (Some [x])"
    using scan_lost_status [of bm "?k + 1" "{x}" 1] filter_singleton [OF x] x by (simp del: scan_lost.simps)
  have size: "(rdp_p r - 1) * rdp_symbolSize r = rdp_chunkSize r" "rdp_chunkSize r < 2 ^ 32" using ok by (simp_all add: eo_ok_def)
  have row: "\<forall>s < rdp_p r - 1. \<forall>b < rdp_symbolSize r. xsum (\<lambda>c. V c s b) {..<?k + 1} = 0" using code unfolding eo_code_def by blast
  have lt: "?k + 1 \<le> ?k + 2" "E \<inter> {..<?k + 1} = {}" using E by (auto simp: less_Suc_eq_le)
  from row_lost [OF row x lt(1) _ lt(2) W, unfolded size(1), OF size(2)] obtain cs' where
    "foldM (\<lambda>i cs. if i = x then Some cs else xor_chunk cs x 0 i 0 (rdp_chunkSize r)) [0..<?k + 1] cs = Some cs'" "eo_is r cs' (\<lambda>i s b. if i \<in> E then 0 else V i s b)" by blast
  then show ?thesis unfolding raid5_decode_def scan Option.bind.bind_lunit option.case list.case Let_def by auto
qed

lemma eo_diagonal_restores:
  assumes ok: "eo_ok r" and code: "eo_code r V" and W: "eo_is r cs (\<lambda>i s b. if i \<in> {rdp_k r + 1} then 0 else V i s b)"
  shows "\<exists>cs'. encode_into (\<lambda>d q. eo_encode r d q 2 0 0) cs (rdp_k r + 1) = Some cs' \<and> eo_is r cs' V"
proof -
  let ?k = "rdp_k r" and ?p = "rdp_p r" and ?z = "rdp_symbolSize r" and ?W = "\<lambda>i s b. if i \<in> {rdp_k r + 1} then 0 else V i s b"
  have lt: "?k + 1 < ?k + 2" by simp
  from stripe_is_item [OF W lt] obtain m where m: "item_at cs (?k + 1) = Some m" "chunk_is (?p - 1) ?z m (\<lambda>s b. 0)" by auto
  have data: "?k \<le> length cs" "\<forall>c < ?k. chunk_is (?p - 1) ?z (cs ! c) (V c)"
    using W by (auto simp: stripe_is_def chunk_is_def)
  from eo_encode_diagonal [OF ok data _ _ m(2), of 0 0] obtain q where
    q: "eo_encode r cs m 2 0 0 = Some q" "chunk_is (?p - 1) ?z q (\<lambda>j b. 0 XOR eo_diag r V j b XOR eo_diag r V (?p - 1) b)" by (auto simp: is_partial_def)
  from q(2) have "chunk_is (?p - 1) ?z q (V (?k + 1))" by (rule chunk_is_cong) (use code in \<open>auto simp: eo_code_def\<close>)
  from stripe_is_update [OF W lt this] have "eo_is r (cs[?k + 1 := q]) V" by (rule stripe_is_cong) auto
  then show ?thesis using m(1) q(1) by (simp add: encode_into_def)
qed

lemma eo_decode_lost:
  assumes "scan_lost bm 2 0 (rdp_k r + 2) [] = Some (Some (x # xs))" and "foldM (\<lambda>i cs. zero_data (rdp_chunkSize r) cs i) (x # xs) cs = Some c"
    and "(case x # xs of [x] \<Rightarrow> if x = rdp_k r + 1 then encode_into (\<lambda>d q. eo_encode r d q 2 0 0) c (rdp_k r + 1)
                                   else do { (_, chunks) \<leftarrow> raid5_decode (rdp_chunkSize r) (rdp_k r + 1) c bm; Some chunks }
                          | x # y # _ \<Rightarrow>
                              if y = rdp_k r + 1
                              then do { (_, chunks) \<leftarrow> raid5_decode (rdp_chunkSize r) (rdp_k r + 1) c bm;
                                        encode_into (\<lambda>d q. eo_encode r d q 2 0 0) chunks (rdp_k r + 1) }
                              else if y = rdp_k r then eo_repair_row_parity r x c
                              else eo_repair_two r x y c
                          | [] \<Rightarrow> Some c) = Some cs'"
  shows "eo_decode r cs bm = Some (True, cs')"
  unfolding eo_decode_def assms(1) Option.bind.bind_lunit option.case if_not_P [OF list.distinct(2)] assms(2) assms(3) by (rule refl)

lemma eo_codeword_view:
  assumes "eo_ok r" and "eo_codeword r cs"
  shows "\<exists>V. eo_is r cs V \<and> eo_code r V \<and> eo_is r (erased E cs) (\<lambda>i s b. if i \<in> E then 0 else V i s b)"
proof -
  let ?V = "\<lambda>i s b. sb cs i (s * rdp_symbolSize r + b)"
  have ok: "stripe_ok ((rdp_p r - 1) * rdp_symbolSize r) (rdp_k r + 2) cs" using assms by (simp add: eo_ok_def eo_codeword_def)
  have "eo_is r (erased E cs) (\<lambda>i s b. if i \<in> E then 0 else ?V i s b)"
    by (rule stripe_is_cong [OF stripe_is_self [OF erased_ok [OF ok]]]) (simp add: sb_erased [OF ok] symbol_pos)
  then show ?thesis using stripe_is_self [OF ok] assms(2) unfolding eo_codeword_def by blast
qed

lemma eo_recovers:
  assumes ok: "eo_ok r" and "eo_codeword r cs" and bm: "status_ok bm (rdp_k r + 2) E" and E: "E \<subseteq> {..<rdp_k r + 2}" "E \<noteq> {}" "card E \<le> 2"
  shows "\<exists>cs'. eo_decode r (erased E cs) bm = Some (True, cs') \<and> stripe_ok (rdp_chunkSize r) (rdp_k r + 2) cs' \<and> data_eq (rdp_chunkSize r) (rdp_k r + 2) cs' cs"
proof -
  let ?k = "rdp_k r"
  from eo_codeword_view [OF ok assms(2)] obtain V where V: "eo_is r cs V" "eo_code r V" "eo_is r (erased E cs) (\<lambda>i s b. if i \<in> E then 0 else V i s b)" by blast
  have scan: "scan_lost bm 2 0 (?k + 2) [] = Some (Some (filter (\<lambda>j. j \<in> E) [0..<?k + 2]))" using scan_lost_status [OF bm E(1), of 2] E(3) by simp
  have "\<forall>x \<in> set (filter (\<lambda>j. j \<in> E) [0..<?k + 2]). x < ?k + 2 \<and> (\<forall>s b. (if x \<in> E then 0 else V x s b) = 0)" by auto
  from zero_lost [OF ok V(3) this] obtain c where c: "foldM (\<lambda>i cs. zero_data (rdp_chunkSize r) cs i) (filter (\<lambda>j. j \<in> E) [0..<?k + 2]) (erased E cs) = Some c"
    "eo_is r c (\<lambda>i s b. if i \<in> E then 0 else V i s b)" by blast
  have "\<exists>cs'. eo_decode r (erased E cs) bm = Some (True, cs') \<and> eo_is r cs' V"
  proof (rule card_le_2E [OF E])
    fix x assume x: "E = {x}" "x < ?k + 2"
    note lost = eo_decode_lost [OF scan [unfolded x(1) filter_singleton [OF x(2)]] c(1) [unfolded x(1) filter_singleton [OF x(2)]], folded x(1)]
    show ?thesis
    proof (cases "x = ?k + 1")
      case True
      from eo_diagonal_restores [OF ok V(2) c(2) [unfolded x(1) True]] show ?thesis using lost True by auto
    next
      case False
      have "x \<le> ?k" using x(2) False by simp
      from eo_row_restores [OF ok V(2) this bm [unfolded x(1)] _ c(2) [unfolded x(1)]] obtain cs' where
        "raid5_decode (rdp_chunkSize r) (?k + 1) c bm = Some (True, cs')" "eo_is r cs' V" by auto
      then show ?thesis using lost False by auto
    qed
  next
    fix x y assume xy: "E = {x, y}" "x < y" "y < ?k + 2"
    note lost = eo_decode_lost [OF scan [unfolded xy(1) filter_pair [OF xy(2,3)]] c(1) [unfolded xy(1) filter_pair [OF xy(2,3)]], folded xy(1)]
    consider "y = ?k + 1" | "y = ?k" | "y < ?k" using xy(3) by linarith
    then show ?thesis
    proof cases
      case 1
      have "x \<le> ?k" "{y} \<inter> {..?k} = {}" using xy 1 by auto
      from eo_row_restores [OF ok V(2) this(1) bm [unfolded xy(1)] this(2) c(2) [unfolded xy(1)]] 1 obtain c1 where
        c1: "raid5_decode (rdp_chunkSize r) (?k + 1) c bm = Some (True, c1)" "eo_is r c1 (\<lambda>i s b. if i \<in> {?k + 1} then 0 else V i s b)" by auto
      from eo_diagonal_restores [OF ok V(2) c1(2)] show ?thesis using lost c1(1) 1 by auto
    next
      case 2
      have "x < ?k" using xy 2 by simp
      from eo_row_parity_restores [OF ok V(2) this c(2) [unfolded xy(1) 2]] show ?thesis using lost 2 by auto
    next
      case 3
      from eo_two_restores [OF ok V(2) xy(2) 3 c(2) [unfolded xy(1)]] show ?thesis using lost 3 by auto
    qed
  qed
  then show ?thesis using stripe_is_ok stripe_is_data_eq [OF _ V(1)] ok by (fastforce simp: eo_ok_def)
qed

lemma eo_refuses:
  assumes "status_ok bm (rdp_k r + 2) E" and "E \<subseteq> {..<rdp_k r + 2}" and "2 < card E"
  shows "eo_decode r cs bm = Some (False, cs)"
  using scan_lost_status [OF assms(1,2), of 2] assms(3) by (simp add: eo_decode_def del: scan_lost.simps)

lemma eo_codeword_shape: "eo_codeword r cs \<Longrightarrow> stripe_ok (rdp_chunkSize r) (rdp_k r + 2) cs"
  by (simp add: eo_codeword_def)

lemma eo_code_cong:
  assumes "eo_code r V" and "\<And>i s b. i < rdp_k r + 2 \<Longrightarrow> s < rdp_p r - 1 \<Longrightarrow> b < rdp_symbolSize r \<Longrightarrow> W i s b = V i s b"
  shows "eo_code r W"
  unfolding eo_code_def
proof (intro allI impI conjI)
  fix s b assume sb: "s < rdp_p r - 1" "b < rdp_symbolSize r"
  have "xsum (\<lambda>c. W c s b) {..<rdp_k r + 1} = xsum (\<lambda>c. V c s b) {..<rdp_k r + 1}" by (rule xors.cong) (use assms(2) sb in auto)
  then show "xsum (\<lambda>c. W c s b) {..<rdp_k r + 1} = 0" using assms(1) sb by (simp add: eo_code_def)
  have "eo_diag r W j b = eo_diag r V j b" for j by (rule diagonal_cong) (use assms(2) sb in auto)
  then show "W (rdp_k r + 1) s b = eo_diag r W s b XOR eo_diag r W (rdp_p r - 1) b" using assms sb by (simp add: eo_code_def)
qed

interpretation evenodd: erasure_code "rdp_chunkSize r" "rdp_k r + 2" 2 "\<lambda>cs. eo_ok r \<and> eo_codeword r cs" "eo_decode r"
  for r
proof unfold_locales
  fix cs cs' assume cs: "eo_ok r \<and> eo_codeword r cs" and ok: "stripe_ok (rdp_chunkSize r) (rdp_k r + 2) cs'" and eq: "data_eq (rdp_chunkSize r) (rdp_k r + 2) cs' cs"
  have "sb cs' i (s * rdp_symbolSize r + b) = sb cs i (s * rdp_symbolSize r + b)"
    if "i < rdp_k r + 2" "s < rdp_p r - 1" "b < rdp_symbolSize r" for i s b
    using eq that symbol_pos [OF that(2,3)] cs by (auto simp: data_eq_def eo_ok_def)
  then have "eo_code r (\<lambda>i s b. sb cs' i (s * rdp_symbolSize r + b))"
    using eo_code_cong [of r "\<lambda>i s b. sb cs i (s * rdp_symbolSize r + b)"] cs by (auto simp: eo_codeword_def)
  then show "eo_ok r \<and> eo_codeword r cs'" using cs ok by (simp add: eo_codeword_def)
qed (blast intro: eo_refuses eo_recovers eo_codeword_shape)+

section \<open>Encoding and decoding\<close>

lemma eo_encode_codeword:
  assumes ok: "eo_ok r" and data: "stripe_ok (rdp_chunkSize r) (rdp_k r) data" and "zero = replicate (8 + rdp_chunkSize r) 0"
  shows "\<exists>p q. eo_encode r data zero 1 0 0 = Some p \<and> eo_encode r data zero 2 0 0 = Some q \<and> eo_codeword r (data @ [p, q])"
proof -
  let ?k = "rdp_k r" and ?z = "rdp_symbolSize r" and ?p = "rdp_p r" and ?cs = "rdp_chunkSize r"
  have size: "?cs = (?p - 1) * ?z" "?cs < 2 ^ 32" and len: "length data = ?k" using ok data by (simp_all add: eo_ok_def stripe_ok_def)
  have zero: "chunk_is (?p - 1) ?z zero (\<lambda>s b. 0)" unfolding assms(3) size(1) by (rule chunk_is_cleared)
  obtain p where p: "eo_encode r data zero 1 0 0 = Some p" "chunk_ok ?cs p" "\<forall>b < ?cs. dbyte p b = xsum (\<lambda>i. sb data i b) {..<?k}"
    using raid5_encode_row [of "?k + 1" data ?cs zero] data size(2) by (auto simp: eo_encode_def stripe_ok_def assms(3) chunk_ok_def dbyte_def)
  let ?W = "\<lambda>i s b. sb data i (s * ?z + b)"
  have "\<forall>i < ?k. chunk_is (?p - 1) ?z (data ! i) (?W i)" using data size(1) by (auto simp: chunk_is_def stripe_ok_def sb_def)
  from eo_encode_diagonal [OF ok _ this _ _ zero, of 0 0] len obtain q where
    q: "eo_encode r data zero 2 0 0 = Some q" "chunk_is (?p - 1) ?z q (\<lambda>j b. 0 XOR eo_diag r ?W j b XOR eo_diag r ?W (?p - 1) b)" by (auto simp: is_partial_def)
  let ?V = "\<lambda>i s b. sb (data @ [p, q]) i (s * ?z + b)"
  have eq: "?V i s b = ?W i s b" if "i < ?k" for i s b using that len by (auto simp: sb_def nth_append)
  have diag: "eo_diag r ?V j b = eo_diag r ?W j b" for j b by (rule diagonal_cong) (use eq ok in \<open>auto simp: eo_ok_def\<close>)
  have "eo_code r ?V" unfolding eo_code_def diag
  proof (intro allI impI conjI)
    fix s b assume sb: "s < ?p - 1" "b < ?z"
    have "xsum (\<lambda>c. ?V c s b) {..<?k} = xsum (\<lambda>c. ?W c s b) {..<?k}" by (rule xors.cong) (auto simp: eq)
    moreover have "?V ?k s b = dbyte p (s * ?z + b)" using len by (simp add: sb_def nth_append)
    ultimately show "xsum (\<lambda>c. ?V c s b) {..<?k + 1} = 0" using p(3) symbol_pos [OF sb] size(1) by (simp add: lessThan_Suc xsum_insert)
    have "?V (?k + 1) s b = dbyte q (s * ?z + b)" using len by (simp add: sb_def nth_append)
    then show "?V (?k + 1) s b = eo_diag r ?W s b XOR eo_diag r ?W (?p - 1) b" using q(2) sb by (simp add: chunk_is_def)
  qed
  moreover have "stripe_ok ?cs (?k + 2) (data @ [p, q])" using data p(2) q(2) size(1) by (auto simp: stripe_ok_def chunk_is_def)
  ultimately show ?thesis using p(1) q(1) by (auto simp: eo_codeword_def)
qed

lemma eo_getPrime_least:
  assumes "k \<le> 997"
  shows "\<exists>i < primeCount. eo_getPrime k = Some i \<and> k \<le> primeList ! i \<and> 2 < primeList ! i"
proof -
  have gp: "eo_getPrime k = search_prime (\<lambda>q. q < k) (\<lambda>q. q \<ge> k \<and> q \<noteq> 2) 0 167" by (simp add: eo_getPrime_def primeCount_def)
  have "0 + 1 < (167 :: nat)" by simp
  from search_prime_spec [OF this, of "\<lambda>q. q < k" "\<lambda>q. q \<ge> k \<and> q \<noteq> 2", folded gp]
  obtain s f where sf: "eo_getPrime k = Some (if primeList ! s \<ge> k \<and> primeList ! s \<noteq> 2 then s else f)" "s + 1 = f" "f \<le> 167"
      "s = 0 \<or> primeList ! s < k" "f = 167 \<or> \<not> primeList ! f < k" by blast
  have big: "3 \<le> primeList ! i" if "1 \<le> i" "i < primeCount" for i
    using primeList_mono [OF that] by (simp add: primeList_def)
  have first: "primeList ! 0 = 2" by (simp add: primeList_def)
  show ?thesis
  proof (cases "primeList ! s \<ge> k \<and> primeList ! s \<noteq> 2")
    case True
    then have "1 \<le> s" using first by (cases s) auto
    then show ?thesis using True sf big [of s] by (intro exI [of _ s]) (auto simp: primeCount_def)
  next
    case False
    then show ?thesis using sf big [of f] assms primeList_facts(3) by (intro exI [of _ f]) (auto simp: primeCount_def)
  qed
qed

lemma eo_new_ok:
  assumes "eo_new k chunkSize = Some r" and "k \<le> 997" and "chunkSize < 2 ^ 32"
  shows "eo_ok r \<and> rdp_k r = k \<and> rdp_chunkSize r = chunkSize"
proof -
  from assms(1) have "get_symbols (eo_getPrime k) k chunkSize = Some r" by (auto simp: eo_new_def split: Option.bind_splits)
  from get_symbols_spec [OF this] obtain i pp where i: "eo_getPrime k = Some i" "i \<le> pp" "pp < primeCount" "rdp_p r = primeList ! pp"
    and r: "rdp_k r = k" "rdp_chunkSize r = chunkSize" "is_prime (rdp_p r)" "chunkSize = (rdp_p r - 1) * rdp_symbolSize r" by blast
  have "k \<le> primeList ! i" "2 < primeList ! i" using eo_getPrime_least [OF assms(2)] i(1) by auto
  then have "k \<le> rdp_p r" "2 < rdp_p r" using primeList_mono [OF i(2,3)] i(4) by simp_all
  then show ?thesis using r assms(3) by (simp add: eo_ok_def)
qed

text \<open>
  C2. EVENODD tolerates the loss of any two chunks: with the parameters the constructor computes for \<open>k\<close> data chunks,
  encode both parities into cleared chunks, clear any one or two of the \<open>k + 2\<close> chunks, data or parity; decoding
  with a bitmap that misses exactly these chunks succeeds and restores the data area of every chunk.
\<close>

theorem evenodd_encode_decode:
  assumes "eo_new k (unat (chunkSize :: u32)) = Some r" and "k \<le> 997" and "stripe_ok (unat chunkSize) k data"
    and "zero = replicate (8 + unat chunkSize) 0"
    and "E \<subseteq> {..<k + 2}" and "E \<noteq> {}" and "card E \<le> 2" and "status_ok bm (k + 2) E"
  shows "\<exists>p q cs. eo_encode r data zero 1 0 0 = Some p \<and> eo_encode r data zero 2 0 0 = Some q
    \<and> eo_decode r (erased E (data @ [p, q])) bm = Some (True, cs) \<and> data_eq (unat chunkSize) (k + 2) cs (data @ [p, q])"
proof -
  have r: "eo_ok r" "rdp_k r = k" "rdp_chunkSize r = unat chunkSize" using eo_new_ok [OF assms(1,2) unat_u32_less] by simp_all
  from eo_encode_codeword [OF r(1), of data zero] assms(3,4) r obtain p q where
    pq: "eo_encode r data zero 1 0 0 = Some p" "eo_encode r data zero 2 0 0 = Some q" "eo_codeword r (data @ [p, q])" by auto
  from evenodd.recovers [of r "data @ [p, q]" bm E] pq r assms(5-8) show ?thesis by auto
qed

lemma sample_eo_new: "eo_new 2 4 = Some sample_rdp"
proof -
  have "eo_getPrime 2 = Some 1"
    by (simp add: eo_getPrime_def primeCount_def search_prime.simps [of _ _ 0] Let_def primeList_def)
  moreover have "find_symbols 4 1 = Some 1" by (simp add: find_symbols.simps [of 4 "Suc 0"] item_at_def primeList_def)
  ultimately show ?thesis by (simp add: eo_new_def sample_rdp_new get_symbols_def primeCount_def item_at_def) (simp add: primeList_def)
qed

theorem evenodd_encode_decode_witness:
  "\<exists>bm p q cs. status_ok bm 4 {0, 1} \<and> eo_encode sample_rdp [replicate 12 1, replicate 12 2] (replicate 12 0) 1 0 0 = Some p
    \<and> eo_encode sample_rdp [replicate 12 1, replicate 12 2] (replicate 12 0) 2 0 0 = Some q
    \<and> eo_decode sample_rdp (erased {0, 1} [replicate 12 1, replicate 12 2, p, q]) bm = Some (True, cs)
    \<and> data_eq 4 4 cs [replicate 12 1, replicate 12 2, p, q]"
proof -
  obtain bm where bm: "status_ok bm (2 + 2) {0, 1}" using status_exists by blast
  have u: "unat (4 :: u32) = 4" by simp
  have data: "stripe_ok 4 2 [replicate 12 1, replicate 12 2]" by (simp add: stripe_ok_def chunk_ok_def)
  from evenodd_encode_decode [where chunkSize = 4, unfolded u, OF sample_eo_new _ data refl, of "{0, 1}" bm] bm show ?thesis by auto
qed

end
