(* ===== verification/StripeList.thy ===== *)
theory StripeList
  imports Loops BitmaskArray HashFunc
begin

text \<open>
  The stripe lists of \<^verbatim>\<open>common/stripe_list/stripe_list.hh\<close>: which servers hold the data and parity chunks of a stripe list,
  chosen by least load, and the lookups by key, hash value, chunk and server.  The model is the default
  build, in which \<^verbatim>\<open>USE_CONSISTENT_HASHING\<close> is not defined; the hash ring of \<^verbatim>\<open>common/hash/consistent_hash.hh\<close> is modelled at the end.
  Counts are natural numbers with \<open>k \<le> n\<close>; loads are 32-bit words.  The values that \<^verbatim>\<open>rand\<close> returns are an argument.
\<close>

section \<open>State\<close>

record 'a StripeList =
  sl_n :: nat
  sl_k :: nat
  sl_numLists :: nat
  sl_numServers :: nat
  sl_generated :: bool
  sl_useAlgo :: bool
  sl_data :: BitmaskArray
  sl_parity :: BitmaskArray
  sl_load :: "u32 list"
  sl_count :: "u32 list"
  sl_servers :: "'a list"
  sl_lists :: "'a option list list"

record StripeListIndex =
  sli_listId :: nat
  sli_stripeId :: nat
  sli_chunkId :: nat
  sli_isParity :: bool

definition set_at :: "'a list \<Rightarrow> nat \<Rightarrow> 'a \<Rightarrow> 'a list option" where
  "set_at xs i v = (if i < length xs then Some (xs[i := v]) else None)"

section \<open>Choice of servers\<close>

definition is_selected :: "'a StripeList \<Rightarrow> nat \<Rightarrow> nat \<Rightarrow> bool option" where
  "is_selected sl l i = do { d \<leftarrow> bm_check (sl_data sl) l i; if d then Some True else bm_check (sl_parity sl) l i }"

definition pick_step :: "'a StripeList \<Rightarrow> nat \<Rightarrow> nat \<Rightarrow> nat option \<times> u32 \<times> u32 \<Rightarrow> (nat option \<times> u32 \<times> u32) option" where
  "pick_step sl l i = (\<lambda>(index, minLoad, minCount).
     do { ld \<leftarrow> item_at (sl_load sl) i;
          ct \<leftarrow> item_at (sl_count sl) i;
          if ld < minLoad \<or> ld = minLoad \<and> ct < minCount
          then do { s \<leftarrow> is_selected sl l i; Some (if s then (index, minLoad, minCount) else (Some i, ld, ct)) }
          else Some (index, minLoad, minCount) })"

definition pickMin :: "'a StripeList \<Rightarrow> nat \<Rightarrow> nat option" where
  "pickMin sl l =
     do { (index, _, _) \<leftarrow> foldM (pick_step sl l) [0..<sl_numServers sl] (None, - 1, - 1);
          Some (case index of None \<Rightarrow> 0 | Some i \<Rightarrow> i) }"

fun pickRand :: "'a StripeList \<Rightarrow> nat \<Rightarrow> nat list \<Rightarrow> (nat \<times> nat list) option" where
  "pickRand sl l [] = None"
| "pickRand sl l (r # rs) =
     (if sl_numServers sl = 0 then None
      else do { s \<leftarrow> is_selected sl l (r mod sl_numServers sl);
                if s then pickRand sl l rs else Some (r mod sl_numServers sl, rs) })"

definition pick :: "bool \<Rightarrow> 'a StripeList \<Rightarrow> nat \<Rightarrow> nat list \<Rightarrow> (nat \<times> nat list) option" where
  "pick useAlgo sl l rs = (if useAlgo then do { i \<leftarrow> pickMin sl l; Some (i, rs) } else pickRand sl l rs)"

definition select_parity :: "bool \<Rightarrow> nat \<Rightarrow> 'a StripeList \<times> nat list \<Rightarrow> ('a StripeList \<times> nat list) option" where
  "select_parity useAlgo l = (\<lambda>(sl, rs). do { (index, rs) \<leftarrow> pick useAlgo sl l rs; p \<leftarrow> bm_set (sl_parity sl) l index; Some (sl\<lparr>sl_parity := p\<rparr>, rs) })"

definition select_data :: "bool \<Rightarrow> nat \<Rightarrow> 'a StripeList \<times> nat list \<Rightarrow> ('a StripeList \<times> nat list) option" where
  "select_data useAlgo l = (\<lambda>(sl, rs). do { (index, rs) \<leftarrow> pick useAlgo sl l rs; d \<leftarrow> bm_set (sl_data sl) l index; Some (sl\<lparr>sl_data := d\<rparr>, rs) })"

text \<open>The loop that sorts the selected servers into the list; \<open>generate\<close> also charges the servers.\<close>

datatype role = Unused | DataServer | ParityServer

definition role_of :: "'a StripeList \<Rightarrow> nat \<Rightarrow> nat \<Rightarrow> role option" where
  "role_of sl l j =
     do { d \<leftarrow> bm_check (sl_data sl) l j;
          if d then Some DataServer
          else do { p \<leftarrow> bm_check (sl_parity sl) l j; Some (if p then ParityServer else Unused) } }"

definition put_server :: "'a StripeList \<Rightarrow> nat \<Rightarrow> nat \<Rightarrow> 'a option list \<times> nat \<times> nat \<Rightarrow> ('a option list \<times> nat \<times> nat) option" where
  "put_server sl l j = (\<lambda>(row, dataCount, parityCount).
     do { ro \<leftarrow> role_of sl l j;
          case ro of
            Unused \<Rightarrow> Some (row, dataCount, parityCount)
          | DataServer \<Rightarrow> do { s \<leftarrow> item_at (sl_servers sl) j; row \<leftarrow> set_at row dataCount (Some s); Some (row, dataCount + 1, parityCount) }
          | ParityServer \<Rightarrow> do { s \<leftarrow> item_at (sl_servers sl) j; row \<leftarrow> set_at row (sl_k sl + parityCount) (Some s); Some (row, dataCount, parityCount + 1) } })"

definition charge :: "'a StripeList \<Rightarrow> nat \<Rightarrow> nat \<Rightarrow> u32 list \<times> u32 list \<Rightarrow> (u32 list \<times> u32 list) option" where
  "charge sl l j = (\<lambda>(load, count).
     do { ro \<leftarrow> role_of sl l j;
          if ro = Unused then Some (load, count)
          else do { ld \<leftarrow> item_at load j; ct \<leftarrow> item_at count j;
                    Some (load[j := ld + (if ro = DataServer then 1 else of_nat (sl_k sl))], count[j := ct + 1]) } })"

definition gen_list :: "bool \<Rightarrow> nat \<Rightarrow> 'a StripeList \<times> nat list \<Rightarrow> ('a StripeList \<times> nat list) option" where
  "gen_list useAlgo l s =
     do { s \<leftarrow> foldM (\<lambda>_. select_parity useAlgo l) [0..<sl_n (fst s) - sl_k (fst s)] s;
          (sl, rs) \<leftarrow> foldM (\<lambda>_. select_data useAlgo l) [0..<sl_k (fst s)] s;
          row \<leftarrow> item_at (sl_lists sl) l;
          ((row, _, _), load, count) \<leftarrow>
            foldM (\<lambda>j (slots, loads). do { slots \<leftarrow> put_server sl l j slots; loads \<leftarrow> charge sl l j loads; Some (slots, loads) })
              [0..<sl_numServers sl] ((row, 0, 0), sl_load sl, sl_count sl);
          Some (sl\<lparr>sl_lists := (sl_lists sl)[l := row], sl_load := load, sl_count := count\<rparr>, rs) }"

definition generate :: "bool \<Rightarrow> 'a StripeList \<Rightarrow> nat list \<Rightarrow> ('a StripeList \<times> nat list) option" where
  "generate useAlgo sl rs =
     (if sl_generated sl then Some (sl, rs)
      else do { (sl, rs) \<leftarrow> foldM (gen_list useAlgo) [0..<sl_numLists sl] (sl, rs); Some (sl\<lparr>sl_generated := True\<rparr>, rs) })"

definition sl_new :: "nat \<Rightarrow> nat \<Rightarrow> nat \<Rightarrow> 'a list \<Rightarrow> bool \<Rightarrow> nat list \<Rightarrow> ('a StripeList \<times> nat list) option" where
  "sl_new n k numLists servers useAlgo rs =
     generate useAlgo \<lparr>sl_n = n, sl_k = k, sl_numLists = numLists, sl_numServers = length servers, sl_generated = False, sl_useAlgo = useAlgo,
               sl_data = bm_new (length servers) numLists, sl_parity = bm_new (length servers) numLists,
               sl_load = replicate (length servers) 0, sl_count = replicate (length servers) 0, sl_servers = servers,
               sl_lists = replicate numLists (replicate n None)\<rparr> rs"

section \<open>Lookups\<close>

definition list_of_hash :: "'a StripeList \<Rightarrow> u32 \<Rightarrow> nat option" where
  "list_of_hash sl hashValue =
     (if sl_numLists sl = 0 then None else do { h \<leftarrow> hash (le32 hashValue) 4; Some (unat h mod sl_numLists sl) })"

definition chunk_servers :: "'a option list \<Rightarrow> nat \<Rightarrow> nat \<Rightarrow> 'a option list option" where
  "chunk_servers row a b = foldM (\<lambda>i acc. do { s \<leftarrow> item_at row i; Some (acc @ [s]) }) [a..<b] []"

definition sl_get_key :: "'a StripeList \<Rightarrow> byte list \<Rightarrow> u8 \<Rightarrow> (nat \<times> nat \<times> 'a option \<times> 'a option list \<times> 'a option list) option" where
  "sl_get_key sl key keySize =
     do { hashValue \<leftarrow> hash key (ucast keySize);
          if sl_k sl = 0 then None
          else do { let dataIndex = unat hashValue mod sl_k sl;
                    listIndex \<leftarrow> list_of_hash sl hashValue;
                    row \<leftarrow> item_at (sl_lists sl) listIndex;
                    parity \<leftarrow> chunk_servers row (sl_k sl) (sl_n sl);
                    full \<leftarrow> chunk_servers row 0 (sl_k sl);
                    one \<leftarrow> item_at row dataIndex;
                    Some (listIndex, dataIndex, one, full, parity) } }"

definition sl_getByHash :: "'a StripeList \<Rightarrow> u32 \<Rightarrow> (nat \<times> 'a option list \<times> 'a option list) option" where
  "sl_getByHash sl hashValue =
     do { listIndex \<leftarrow> list_of_hash sl hashValue;
          row \<leftarrow> item_at (sl_lists sl) listIndex;
          parity \<leftarrow> chunk_servers row (sl_k sl) (sl_n sl);
          data \<leftarrow> chunk_servers row 0 (sl_k sl);
          Some (listIndex, data, parity) }"

definition sl_get_jump :: "'a StripeList \<Rightarrow> nat \<Rightarrow> u32 \<Rightarrow> u32 \<Rightarrow> (nat \<times> 'a option) option" where
  "sl_get_jump sl listIndex dataIndex jump =
     do { row \<leftarrow> item_at (sl_lists sl) listIndex;
          h \<leftarrow> hash (le32 dataIndex) 4;
          if sl_n sl = 0 then None
          else do { let index = unat (h + jump) mod sl_n sl; s \<leftarrow> item_at row index; Some (index, s) } }"

definition sl_get_chunk :: "'a StripeList \<Rightarrow> nat \<Rightarrow> nat \<Rightarrow> 'a option option" where
  "sl_get_chunk sl listIndex chunkIndex = do { row \<leftarrow> item_at (sl_lists sl) listIndex; item_at row chunkIndex }"

definition sl_get_list :: "'a StripeList \<Rightarrow> nat \<Rightarrow> ('a option list \<times> 'a option list) option" where
  "sl_get_list sl listIndex =
     do { row \<leftarrow> item_at (sl_lists sl) listIndex;
          parity \<leftarrow> chunk_servers row (sl_k sl) (sl_n sl);
          data \<leftarrow> chunk_servers row 0 (sl_k sl);
          Some (parity, data) }"

text \<open>The chunk id of server \<open>index\<close> in a list: the number of selected servers before it.\<close>

definition count_before :: "BitmaskArray \<Rightarrow> nat \<Rightarrow> nat \<Rightarrow> nat \<Rightarrow> nat \<Rightarrow> nat option" where
  "count_before bm l numServers index base =
     foldM (\<lambda>j c. do { b \<leftarrow> bm_check bm l j; Some (if b then c + 1 else c) }) [0..<min index numServers] base"

definition sl_list :: "'a StripeList \<Rightarrow> nat \<Rightarrow> StripeListIndex list option" where
  "sl_list sl index =
     foldM (\<lambda>i ret.
       do { ro \<leftarrow> role_of sl i index;
            case ro of
              Unused \<Rightarrow> Some ret
            | DataServer \<Rightarrow> do { c \<leftarrow> count_before (sl_data sl) i (sl_numServers sl) index 0;
                               Some (ret @ [\<lparr>sli_listId = i, sli_stripeId = 0, sli_chunkId = c, sli_isParity = False\<rparr>]) }
            | ParityServer \<Rightarrow> do { c \<leftarrow> count_before (sl_parity sl) i (sl_numServers sl) index (sl_k sl);
                                 Some (ret @ [\<lparr>sli_listId = i, sli_stripeId = 0, sli_chunkId = c, sli_isParity = True\<rparr>]) } })
       [0..<sl_numLists sl] []"

text \<open>After a server has been replaced in the vector of servers, the lists are filled again with the same selection.\<close>

definition sl_update :: "'a StripeList \<Rightarrow> nat list \<Rightarrow> ('a StripeList \<times> nat list) option" where
  "sl_update sl rs =
     (if \<not> sl_generated sl then generate True sl rs
      else do { lists \<leftarrow> foldM (\<lambda>i lists.
                  do { row \<leftarrow> item_at lists i;
                       (row, _, _) \<leftarrow> foldM (put_server sl i) [0..<sl_numServers sl] (row, 0, 0);
                       Some (lists[i := row]) }) [0..<sl_numLists sl] (sl_lists sl);
                Some (sl\<lparr>sl_lists := lists\<rparr>, rs) })"

fun sl_search_from :: "'a \<Rightarrow> 'a list \<Rightarrow> nat \<Rightarrow> int" where
  "sl_search_from target [] i = -1"
| "sl_search_from target (s # ss) i = (if target = s then int i else sl_search_from target ss (Suc i))"

definition sl_search :: "'a StripeList \<Rightarrow> 'a \<Rightarrow> int" where
  "sl_search sl target = sl_search_from target (take (sl_numServers sl) (sl_servers sl)) 0"

section \<open>Selected servers\<close>

abbreviation selected :: "BitmaskArray \<Rightarrow> nat \<Rightarrow> nat \<Rightarrow> bool" where
  "selected bm l j \<equiv> bm_check bm l j = Some True"

definition chosen :: "BitmaskArray \<Rightarrow> nat \<Rightarrow> nat \<Rightarrow> nat list" where
  "chosen bm S l = filter (selected bm l) [0..<S]"

lemma chosen_facts: "distinct (chosen bm S l)" "set (chosen bm S l) = {j. j < S \<and> selected bm l j}"
  by (auto simp: chosen_def)

lemma length_chosen: "length (chosen bm S l) = card {j. j < S \<and> selected bm l j}"
  using distinct_card [OF chosen_facts(1), of bm S l] chosen_facts(2) by simp

text \<open>The tables of a stripe list object: \<open>S\<close> servers, \<open>c\<close> lists.\<close>

definition tables :: "nat \<Rightarrow> nat \<Rightarrow> BitmaskArray \<Rightarrow> bool" where
  "tables S c bm \<longleftrightarrow> bm_inv bm \<and> bm_size bm = S \<and> bm_count bm = c"

lemma tables_check: "tables S c bm \<Longrightarrow> l < c \<Longrightarrow> j < S \<Longrightarrow> \<exists>b. bm_check bm l j = Some b"
  using bm_check_bit by (auto simp: tables_def)

lemma tables_new: "tables S c (bm_new S c) \<and> (\<forall>l < c. \<forall>j < S. bm_check (bm_new S c) l j = Some False)"
proof -
  have t: "tables S c (bm_new S c)" by (simp add: tables_def bm_new_inv) (simp add: bm_new_def Let_def)
  have "bm_check (bm_new S c) l j = Some False" if "l < c" "j < S" for l j
  proof -
    have r: "bm_inv (bm_new S c)" "l < bm_count (bm_new S c)" "j < bm_size (bm_new S c)" using t that by (simp_all add: tables_def)
    have "bm_index (bm_new S c) l j < 64 * length (bm_words (bm_new S c))"
      using bm_in_words [OF r] by (metis div_less_iff_less_mult mult.commute zero_less_numeral)
    then show ?thesis using bm_check_bit [OF r] bm_new_bit by simp
  qed
  with t show ?thesis by blast
qed

lemma tables_set:
  assumes "tables S c bm" and "l < c" and "j < S"
  shows "\<exists>bm'. bm_set bm l j = Some bm' \<and> tables S c bm' \<and> (\<forall>l' < c. \<forall>j' < S. bm_check bm' l' j' = (if l' = l \<and> j' = j then Some True else bm_check bm l' j'))"
proof -
  have r: "bm_inv bm" "l < bm_count bm" "j < bm_size bm" using assms by (simp_all add: tables_def)
  obtain bm' where bm': "bm_set bm l j = Some bm'" using mask.set_total [OF r] by blast
  have "bm_check bm' l' j' = (if l' = l \<and> j' = j then Some True else bm_check bm l' j')" if "l' < c" "j' < S" for l' j'
    using mask.test_set [OF r(1) bm' r(2,3), of l' j'] that assms(1) by (auto simp: tables_def)
  then show ?thesis using mask.set_keeps [OF r(1) bm'] bm' assms(1) by (auto simp: tables_def)
qed

section \<open>The least loaded server\<close>

definition lighter :: "u32 \<times> u32 \<Rightarrow> u32 \<times> u32 \<Rightarrow> bool" where
  "lighter a b \<longleftrightarrow> fst a < fst b \<or> fst a = fst b \<and> snd a < snd b"

lemma lighter_trans: "lighter a b \<Longrightarrow> lighter b c \<Longrightarrow> lighter a c"
  by (auto simp: lighter_def intro: less_trans)

lemma lighter_irrefl [simp]: "\<not> lighter a a"
  by (simp add: lighter_def)

abbreviation weight :: "'a StripeList \<Rightarrow> nat \<Rightarrow> u32 \<times> u32" where
  "weight sl i \<equiv> (sl_load sl ! i, sl_count sl ! i)"

definition sl_shape :: "'a StripeList \<Rightarrow> bool" where
  "sl_shape sl \<longleftrightarrow> tables (sl_numServers sl) (sl_numLists sl) (sl_data sl) \<and> tables (sl_numServers sl) (sl_numLists sl) (sl_parity sl)
     \<and> length (sl_load sl) = sl_numServers sl \<and> length (sl_count sl) = sl_numServers sl \<and> length (sl_servers sl) = sl_numServers sl
     \<and> length (sl_lists sl) = sl_numLists sl \<and> (\<forall>row \<in> set (sl_lists sl). length row = sl_n sl)"

definition taken :: "'a StripeList \<Rightarrow> nat \<Rightarrow> nat \<Rightarrow> bool" where
  "taken sl l i \<longleftrightarrow> selected (sl_data sl) l i \<or> selected (sl_parity sl) l i"

lemma is_selected_taken:
  assumes "sl_shape sl" and "l < sl_numLists sl" and "i < sl_numServers sl"
  shows "is_selected sl l i = Some (taken sl l i)"
proof -
  obtain d q where "bm_check (sl_data sl) l i = Some d" "bm_check (sl_parity sl) l i = Some q"
    using tables_check assms unfolding sl_shape_def by meson
  then show ?thesis by (simp add: is_selected_def taken_def)
qed

definition pick_inv :: "'a StripeList \<Rightarrow> nat \<Rightarrow> nat \<Rightarrow> nat option \<times> u32 \<times> u32 \<Rightarrow> bool" where
  "pick_inv sl l m = (\<lambda>(index, w).
     (case index of None \<Rightarrow> w = (- 1, - 1) | Some i \<Rightarrow> i < m \<and> \<not> taken sl l i \<and> w = weight sl i)
     \<and> (\<forall>j < m. \<not> taken sl l j \<longrightarrow> \<not> lighter (weight sl j) w))"

lemma pick_fold:
  assumes sh: "sl_shape sl" and "l < sl_numLists sl"
  shows "\<exists>s. foldM (pick_step sl l) [0..<sl_numServers sl] (None, - 1, - 1) = Some s \<and> pick_inv sl l (sl_numServers sl) s"
proof (rule foldM_upt_inv [where P = "pick_inv sl l"])
  fix m s assume m: "m < sl_numServers sl" and P: "pick_inv sl l m s"
  obtain index a b where s: "s = (index, a, b)" by (cases s)
  have items: "item_at (sl_load sl) m = Some (sl_load sl ! m)" "item_at (sl_count sl) m = Some (sl_count sl ! m)"
    using sh m by (simp_all add: sl_shape_def item_at_def)
  note sel = is_selected_taken [OF sh assms(2) m]
  show "\<exists>s'. pick_step sl l m s = Some s' \<and> pick_inv sl l (Suc m) s'"
  proof (cases "lighter (weight sl m) (a, b) \<and> \<not> taken sl l m")
    case True
    have "\<not> lighter (weight sl j) (weight sl m)" if "j < Suc m" "\<not> taken sl l j" for j
      using P that True lighter_trans [of "weight sl j" "weight sl m" "(a, b)"] unfolding s pick_inv_def by (auto simp: less_Suc_eq)
    then show ?thesis using True items sel s by (auto simp: pick_step_def pick_inv_def lighter_def)
  next
    case False
    have "pick_inv sl l (Suc m) (index, a, b)"
      using P False unfolding s pick_inv_def by (auto simp: less_Suc_eq split: option.splits)
    then show ?thesis using False items sel s by (auto simp: pick_step_def lighter_def)
  qed
qed (simp add: pick_inv_def)

lemma pickMin_spec:
  assumes "sl_shape sl" and "l < sl_numLists sl" and "\<exists>i < sl_numServers sl. \<not> taken sl l i \<and> sl_load sl ! i \<noteq> - 1"
  shows "\<exists>i < sl_numServers sl. pickMin sl l = Some i \<and> \<not> taken sl l i \<and> (\<forall>j < sl_numServers sl. \<not> taken sl l j \<longrightarrow> \<not> lighter (weight sl j) (weight sl i))"
proof -
  obtain index a b where f: "foldM (pick_step sl l) [0..<sl_numServers sl] (None, - 1, - 1) = Some (index, a, b)" "pick_inv sl l (sl_numServers sl) (index, a, b)"
    using pick_fold [OF assms(1,2)] by auto
  obtain i where i: "i < sl_numServers sl" "\<not> taken sl l i" "sl_load sl ! i \<noteq> - 1" using assms(3) by blast
  have "lighter (weight sl i) (- 1, - 1)" using i(3) by (simp add: lighter_def word_order.not_eq_extremum)
  then obtain m where "index = Some m" using f(2) i by (cases index) (auto simp: pick_inv_def)
  then show ?thesis using f by (auto simp: pickMin_def pick_inv_def)
qed

section \<open>Filling a list\<close>

lemma foldM_pair:
  "foldM f xs s = Some s' \<Longrightarrow> foldM g xs t = Some t' \<Longrightarrow>
   foldM (\<lambda>x (s, t). do { s \<leftarrow> f x s; t \<leftarrow> g x t; Some (s, t) }) xs (s, t) = Some (s', t')"
  by (induction xs arbitrary: s t) (auto split: Option.bind_splits)

lemma role_of_chosen:
  assumes "sl_shape sl" and "l < sl_numLists sl" and "j < sl_numServers sl"
  shows "role_of sl l j = Some (if selected (sl_data sl) l j then DataServer else if selected (sl_parity sl) l j then ParityServer else Unused)"
proof -
  obtain d q where "bm_check (sl_data sl) l j = Some d" "bm_check (sl_parity sl) l j = Some q"
    using tables_check assms unfolding sl_shape_def by meson
  then show ?thesis by (simp add: role_of_def)
qed

definition roles_ok :: "'a StripeList \<Rightarrow> nat \<Rightarrow> bool" where
  "roles_ok sl l \<longleftrightarrow> length (chosen (sl_data sl) (sl_numServers sl) l) = sl_k sl
     \<and> length (chosen (sl_parity sl) (sl_numServers sl) l) = sl_n sl - sl_k sl
     \<and> (\<forall>j < sl_numServers sl. \<not> (selected (sl_data sl) l j \<and> selected (sl_parity sl) l j))"

definition sl_row :: "'a StripeList \<Rightarrow> nat \<Rightarrow> 'a option list" where
  "sl_row sl l = map (\<lambda>j. Some (sl_servers sl ! j)) (chosen (sl_data sl) (sl_numServers sl) l @ chosen (sl_parity sl) (sl_numServers sl) l)"

lemma chosen_Suc: "chosen bm (Suc m) l = chosen bm m l @ (if selected bm l m then [m] else [])"
  by (simp add: chosen_def)

lemma chosen_prefix: "m \<le> S \<Longrightarrow> length (chosen bm m l) \<le> length (chosen bm S l) \<and> (m < S \<longrightarrow> selected bm l m \<longrightarrow> length (chosen bm m l) < length (chosen bm S l))"
proof (induction S)
  case (Suc S)
  then show ?case by (cases "m = Suc S") (auto simp: chosen_Suc less_Suc_eq)
qed simp

lemma fill_row:
  assumes sh: "sl_shape sl" and l: "l < sl_numLists sl" and ok: "roles_ok sl l" and kn: "sl_k sl \<le> sl_n sl" and len: "length row = sl_n sl"
  shows "foldM (put_server sl l) [0..<sl_numServers sl] (row, 0, 0) = Some (sl_row sl l, sl_k sl, sl_n sl - sl_k sl)"
proof -
  let ?S = "sl_numServers sl" and ?k = "sl_k sl"
  let ?D = "\<lambda>m. chosen (sl_data sl) m l" and ?Q = "\<lambda>m. chosen (sl_parity sl) m l"
  let ?srv = "\<lambda>j. Some (sl_servers sl ! j)"
  let ?P = "\<lambda>m (row, dc, pc). length row = sl_n sl \<and> dc = length (?D m) \<and> pc = length (?Q m)
     \<and> take dc row = map ?srv (?D m) \<and> take pc (drop ?k row) = map ?srv (?Q m)"
  have "\<exists>s. foldM (put_server sl l) [0..<?S] (row, 0, 0) = Some s \<and> ?P ?S s"
  proof (rule foldM_upt_inv [where P = ?P])
    show "?P 0 (row, 0, 0)" using len by (simp add: chosen_def)
  next
    fix j s assume j: "j < ?S" and P: "?P j s"
    obtain r dc pc where s: "s = (r, dc, pc)" by (cases s)
    have item: "item_at (sl_servers sl) j = Some (sl_servers sl ! j)" using sh j by (simp add: item_at_def sl_shape_def)
    have bounds: "selected (sl_data sl) l j \<longrightarrow> dc < ?k" "selected (sl_parity sl) l j \<longrightarrow> pc < sl_n sl - ?k" "dc \<le> ?k"
      using P s ok chosen_prefix [of j ?S "sl_data sl" l] chosen_prefix [of j ?S "sl_parity sl" l] j by (auto simp: roles_ok_def)
    show "\<exists>s'. put_server sl l j s = Some s' \<and> ?P (Suc j) s'"
    proof (cases "selected (sl_data sl) l j")
      case True
      then have "\<not> selected (sl_parity sl) l j" "dc < ?k" "dc < length r" using ok j bounds(1) P s kn by (auto simp: roles_ok_def)
      then show ?thesis using P True item s role_of_chosen [OF sh l j]
        by (auto simp: put_server_def set_at_def chosen_Suc take_Suc_conv_app_nth)
    next
      case False
      show ?thesis
      proof (cases "selected (sl_parity sl) l j")
        case True
        then have "?k + pc < length r" "pc < length (drop ?k r)" using bounds(2) P s kn by auto
        then show ?thesis using P True False item s role_of_chosen [OF sh l j] bounds(3)
          by (auto simp: put_server_def set_at_def chosen_Suc take_Suc_conv_app_nth drop_update_swap)
      next
        case q: False
        then show ?thesis using P False item s role_of_chosen [OF sh l j] by (auto simp: put_server_def chosen_Suc)
      qed
    qed
  qed
  then obtain r where r: "foldM (put_server sl l) [0..<?S] (row, 0, 0) = Some (r, ?k, sl_n sl - ?k)" "length r = sl_n sl"
      "take ?k r = map ?srv (?D ?S)" "take (sl_n sl - ?k) (drop ?k r) = map ?srv (?Q ?S)"
    using ok by (auto simp: roles_ok_def)
  have "r = take ?k r @ drop ?k r" by simp
  also have "drop ?k r = take (sl_n sl - ?k) (drop ?k r)" using r(2) by simp
  finally have "r = sl_row sl l" using r(3,4) by (simp add: sl_row_def)
  with r(1) show ?thesis by simp
qed

section \<open>Selecting the servers of a list\<close>

definition sel_set :: "BitmaskArray \<Rightarrow> nat \<Rightarrow> nat \<Rightarrow> nat set" where
  "sel_set bm S l = {j. j < S \<and> selected bm l j}"

lemma in_sel_set [simp]: "j \<in> sel_set bm S l \<longleftrightarrow> j < S \<and> selected bm l j"
  by (simp add: sel_set_def)

lemma finite_sel_set [simp]: "finite (sel_set bm S l)"
  by (simp add: sel_set_def)

lemma length_chosen_sel: "length (chosen bm S l) = card (sel_set bm S l)"
  by (simp add: length_chosen sel_set_def)

definition light :: "'a StripeList \<Rightarrow> bool" where
  "light sl \<longleftrightarrow> (\<forall>i < sl_numServers sl. sl_load sl ! i \<noteq> - 1)"

text \<open>One more server: a table that differs from \<open>bm\<close> in one bit of row \<open>l\<close>.\<close>

definition adds :: "nat \<Rightarrow> nat \<Rightarrow> nat \<Rightarrow> BitmaskArray \<Rightarrow> nat \<Rightarrow> BitmaskArray \<Rightarrow> bool" where
  "adds S c l bm i bm' \<longleftrightarrow> tables S c bm' \<and> (\<forall>l' < c. \<forall>j < S. bm_check bm' l' j = (if l' = l \<and> j = i then Some True else bm_check bm l' j))"

lemma pick_free:
  assumes sh: "sl_shape sl" and l: "l < sl_numLists sl" and "light sl"
    and "card (sel_set (sl_data sl) (sl_numServers sl) l) + card (sel_set (sl_parity sl) (sl_numServers sl) l) < sl_numServers sl"
  shows "\<exists>i < sl_numServers sl. pick True sl l rs = Some (i, rs) \<and> \<not> taken sl l i"
proof -
  let ?S = "sl_numServers sl"
  have "card (sel_set (sl_data sl) ?S l \<union> sel_set (sl_parity sl) ?S l) < card {..<?S}"
    using card_Un_le [of "sel_set (sl_data sl) ?S l" "sel_set (sl_parity sl) ?S l"] assms(4) by simp
  then have "\<not> {..<?S} \<subseteq> sel_set (sl_data sl) ?S l \<union> sel_set (sl_parity sl) ?S l"
    using card_mono [of "sel_set (sl_data sl) ?S l \<union> sel_set (sl_parity sl) ?S l" "{..<?S}"] by auto
  then have "\<exists>i < ?S. \<not> taken sl l i \<and> sl_load sl ! i \<noteq> - 1" using assms(3) by (auto simp: taken_def light_def)
  from pickMin_spec [OF sh l this] show ?thesis by (auto simp: pick_def)
qed

lemma card_adds:
  assumes "adds S c l bm i bm'" and "l < c" and "i < S" and "\<not> selected bm l i"
  shows "card (sel_set bm' S l) = Suc (card (sel_set bm S l))"
proof -
  have "bm_check bm' l j = (if j = i then Some True else bm_check bm l j)" if "j < S" for j using assms(1,2) that by (simp add: adds_def)
  then have "sel_set bm' S l = insert i (sel_set bm S l)" using assms(3) by (auto split: if_splits)
  then show ?thesis using assms(4) by simp
qed

definition rows_kept :: "nat \<Rightarrow> nat \<Rightarrow> nat \<Rightarrow> BitmaskArray \<Rightarrow> BitmaskArray \<Rightarrow> bool" where
  "rows_kept S c l bm bm' \<longleftrightarrow> (\<forall>l' < c. l' \<noteq> l \<longrightarrow> (\<forall>j < S. bm_check bm' l' j = bm_check bm l' j))"

lemma select_parities:
  fixes sl :: "'a StripeList"
  assumes sh: "sl_shape sl" and l: "l < sl_numLists sl" and lt: "light sl" and none: "sel_set (sl_data sl) (sl_numServers sl) l = {}" "sel_set (sl_parity sl) (sl_numServers sl) l = {}"
    and "m \<le> sl_numServers sl"
  shows "\<exists>s. foldM (\<lambda>_. select_parity True l) [0..<m] (sl, rs) = Some s \<and> (\<exists>p. s = (sl\<lparr>sl_parity := p\<rparr>, rs) \<and> tables (sl_numServers sl) (sl_numLists sl) p
     \<and> rows_kept (sl_numServers sl) (sl_numLists sl) l (sl_parity sl) p \<and> card (sel_set p (sl_numServers sl) l) = m)"
proof (rule foldM_upt_inv [where P = "\<lambda>n s. \<exists>p. s = (sl\<lparr>sl_parity := p\<rparr>, rs) \<and> tables (sl_numServers sl) (sl_numLists sl) p
     \<and> rows_kept (sl_numServers sl) (sl_numLists sl) l (sl_parity sl) p \<and> card (sel_set p (sl_numServers sl) l) = n"])
  show "\<exists>p. (sl, rs) = (sl\<lparr>sl_parity := p\<rparr>, rs) \<and> tables (sl_numServers sl) (sl_numLists sl) p
      \<and> rows_kept (sl_numServers sl) (sl_numLists sl) l (sl_parity sl) p \<and> card (sel_set p (sl_numServers sl) l) = 0"
    using sh none by (intro exI [of _ "sl_parity sl"]) (simp add: sl_shape_def rows_kept_def)
next
  let ?S = "sl_numServers sl" and ?c = "sl_numLists sl"
  fix n s assume n: "n < m" and P: "\<exists>p. s = (sl\<lparr>sl_parity := p\<rparr>, rs) \<and> tables ?S ?c p \<and> rows_kept ?S ?c l (sl_parity sl) p \<and> card (sel_set p ?S l) = n"
  then obtain p where p: "s = (sl\<lparr>sl_parity := p\<rparr>, rs)" "tables ?S ?c p" "rows_kept ?S ?c l (sl_parity sl) p" "card (sel_set p ?S l) = n" by blast
  let ?sl = "sl\<lparr>sl_parity := p\<rparr>"
  have "sl_shape ?sl" "light ?sl" using sh lt p(2) by (simp_all add: sl_shape_def light_def)
  moreover have "card (sel_set (sl_data ?sl) ?S l) + card (sel_set (sl_parity ?sl) ?S l) < ?S" using none(1) p(4) n assms(6) by simp
  ultimately obtain i where i: "i < ?S" "pick True ?sl l rs = Some (i, rs)" "\<not> taken ?sl l i" using pick_free [of ?sl l rs] l by auto
  from tables_set [OF p(2) l i(1)] obtain p' where p': "bm_set p l i = Some p'" "adds ?S ?c l p i p'" by (auto simp: adds_def)
  have "\<not> selected p l i" using i(3) by (simp add: taken_def)
  then have "card (sel_set p' ?S l) = Suc n" using card_adds [OF p'(2) l i(1)] p(4) by simp
  moreover have "rows_kept ?S ?c l (sl_parity sl) p'" using p(3) p'(2) by (auto simp: rows_kept_def adds_def)
  ultimately show "\<exists>s'. select_parity True l s = Some s' \<and> (\<exists>p. s' = (sl\<lparr>sl_parity := p\<rparr>, rs) \<and> tables ?S ?c p \<and> rows_kept ?S ?c l (sl_parity sl) p \<and> card (sel_set p ?S l) = Suc n)"
    using p(1) p'(1,2) i(2) by (auto simp: select_parity_def adds_def)
qed

lemma select_datas:
  fixes sl :: "'a StripeList"
  assumes sh: "sl_shape sl" and l: "l < sl_numLists sl" and lt: "light sl" and none: "sel_set (sl_data sl) (sl_numServers sl) l = {}"
    and "m + card (sel_set (sl_parity sl) (sl_numServers sl) l) \<le> sl_numServers sl"
  shows "\<exists>s. foldM (\<lambda>_. select_data True l) [0..<m] (sl, rs) = Some s \<and> (\<exists>d. s = (sl\<lparr>sl_data := d\<rparr>, rs) \<and> tables (sl_numServers sl) (sl_numLists sl) d
     \<and> rows_kept (sl_numServers sl) (sl_numLists sl) l (sl_data sl) d \<and> card (sel_set d (sl_numServers sl) l) = m
     \<and> sel_set d (sl_numServers sl) l \<inter> sel_set (sl_parity sl) (sl_numServers sl) l = {})"
proof (rule foldM_upt_inv [where P = "\<lambda>n s. \<exists>d. s = (sl\<lparr>sl_data := d\<rparr>, rs) \<and> tables (sl_numServers sl) (sl_numLists sl) d
     \<and> rows_kept (sl_numServers sl) (sl_numLists sl) l (sl_data sl) d \<and> card (sel_set d (sl_numServers sl) l) = n
     \<and> sel_set d (sl_numServers sl) l \<inter> sel_set (sl_parity sl) (sl_numServers sl) l = {}"])
  show "\<exists>d. (sl, rs) = (sl\<lparr>sl_data := d\<rparr>, rs) \<and> tables (sl_numServers sl) (sl_numLists sl) d
      \<and> rows_kept (sl_numServers sl) (sl_numLists sl) l (sl_data sl) d \<and> card (sel_set d (sl_numServers sl) l) = 0
      \<and> sel_set d (sl_numServers sl) l \<inter> sel_set (sl_parity sl) (sl_numServers sl) l = {}"
    using sh none by (intro exI [of _ "sl_data sl"]) (simp add: sl_shape_def rows_kept_def)
next
  let ?S = "sl_numServers sl" and ?c = "sl_numLists sl"
  fix n s assume n: "n < m" and P: "\<exists>d. s = (sl\<lparr>sl_data := d\<rparr>, rs) \<and> tables ?S ?c d \<and> rows_kept ?S ?c l (sl_data sl) d \<and> card (sel_set d ?S l) = n
      \<and> sel_set d ?S l \<inter> sel_set (sl_parity sl) ?S l = {}"
  then obtain d where d: "s = (sl\<lparr>sl_data := d\<rparr>, rs)" "tables ?S ?c d" "rows_kept ?S ?c l (sl_data sl) d" "card (sel_set d ?S l) = n"
      "sel_set d ?S l \<inter> sel_set (sl_parity sl) ?S l = {}" by blast
  let ?sl = "sl\<lparr>sl_data := d\<rparr>"
  have "sl_shape ?sl" "light ?sl" using sh lt d(2) by (simp_all add: sl_shape_def light_def)
  moreover have "card (sel_set (sl_data ?sl) ?S l) + card (sel_set (sl_parity ?sl) ?S l) < ?S" using d(4) n assms(5) by simp
  ultimately obtain i where i: "i < ?S" "pick True ?sl l rs = Some (i, rs)" "\<not> taken ?sl l i" using pick_free [of ?sl l rs] l by auto
  from tables_set [OF d(2) l i(1)] obtain d' where d': "bm_set d l i = Some d'" "adds ?S ?c l d i d'" by (auto simp: adds_def)
  have free: "\<not> selected d l i" "\<not> selected (sl_parity sl) l i" using i(3) by (simp_all add: taken_def)
  then have "card (sel_set d' ?S l) = Suc n" using card_adds [OF d'(2) l i(1)] d(4) by simp
  moreover have "rows_kept ?S ?c l (sl_data sl) d'" using d(3) d'(2) by (auto simp: rows_kept_def adds_def)
  moreover have "sel_set d' ?S l \<inter> sel_set (sl_parity sl) ?S l = {}" 
  proof -
    have "bm_check d' l j = (if j = i then Some True else bm_check d l j)" if "j < ?S" for j using d'(2) l that by (simp add: adds_def)
    then show ?thesis using d(5) free(2) by (auto simp: disjoint_iff split: if_splits)
  qed
  ultimately show "\<exists>s'. select_data True l s = Some s' \<and> (\<exists>d. s' = (sl\<lparr>sl_data := d\<rparr>, rs) \<and> tables ?S ?c d \<and> rows_kept ?S ?c l (sl_data sl) d \<and> card (sel_set d ?S l) = Suc n
      \<and> sel_set d ?S l \<inter> sel_set (sl_parity sl) ?S l = {})"
    using d(1) d'(1,2) i(2) by (auto simp: select_data_def adds_def)
qed

section \<open>Generating all lists\<close>

definition share :: "'a StripeList \<Rightarrow> nat \<Rightarrow> nat \<Rightarrow> nat" where
  "share sl l j = (if selected (sl_data sl) l j then 1 else if selected (sl_parity sl) l j then sl_k sl else 0)"

lemma charge_all:
  assumes sh: "sl_shape sl" and l: "l < sl_numLists sl"
  shows "\<exists>load count. foldM (charge sl l) [0..<sl_numServers sl] (sl_load sl, sl_count sl) = Some (load, count)
    \<and> length load = sl_numServers sl \<and> length count = sl_numServers sl
    \<and> (\<forall>j < sl_numServers sl. load ! j = sl_load sl ! j + of_nat (share sl l j))"
proof -
  let ?S = "sl_numServers sl"
  let ?P = "\<lambda>m (load :: u32 list, count :: u32 list). length load = ?S \<and> length count = ?S \<and> (\<forall>j < ?S. load ! j = sl_load sl ! j + (if j < m then of_nat (share sl l j) else 0))"
  have "\<exists>s. foldM (charge sl l) [0..<?S] (sl_load sl, sl_count sl) = Some s \<and> ?P ?S s"
  proof (rule foldM_upt_inv [where P = ?P])
    show "?P 0 (sl_load sl, sl_count sl)" using sh by (simp add: sl_shape_def)
  next
    fix m s assume m: "m < ?S" and P: "?P m s"
    obtain load count where s: "s = (load, count)" by (cases s)
    show "\<exists>s'. charge sl l m s = Some s' \<and> ?P (Suc m) s'"
      using P m role_of_chosen [OF sh l m] by (auto simp: s charge_def item_at_def share_def nth_list_update less_Suc_eq)
  qed
  then show ?thesis by auto
qed

lemma share_le: "share sl l j \<le> max 1 (sl_k sl)"
  by (simp add: share_def)

definition same_setup :: "'a StripeList \<Rightarrow> 'a StripeList \<Rightarrow> bool" where
  "same_setup sl sl' \<longleftrightarrow> sl_n sl' = sl_n sl \<and> sl_k sl' = sl_k sl \<and> sl_numLists sl' = sl_numLists sl \<and> sl_numServers sl' = sl_numServers sl \<and> sl_servers sl' = sl_servers sl"

definition kept :: "nat \<Rightarrow> 'a StripeList \<Rightarrow> 'a StripeList \<Rightarrow> bool" where
  "kept l sl sl' \<longleftrightarrow> rows_kept (sl_numServers sl) (sl_numLists sl) l (sl_data sl) (sl_data sl') \<and> rows_kept (sl_numServers sl) (sl_numLists sl) l (sl_parity sl) (sl_parity sl')
     \<and> (\<forall>l'. l' \<noteq> l \<longrightarrow> sl_lists sl' ! l' = sl_lists sl ! l')"

lemma gen_list_spec:
  assumes sh: "sl_shape sl" and l: "l < sl_numLists sl" and lt: "light sl" and kn: "sl_k sl \<le> sl_n sl" "sl_n sl \<le> sl_numServers sl"
    and none: "sel_set (sl_data sl) (sl_numServers sl) l = {}" "sel_set (sl_parity sl) (sl_numServers sl) l = {}"
  shows "\<exists>sl'. gen_list True l (sl, rs) = Some (sl', rs) \<and> sl_shape sl' \<and> same_setup sl sl' \<and> kept l sl sl' \<and> roles_ok sl' l \<and> sl_lists sl' ! l = sl_row sl' l
    \<and> (\<forall>j < sl_numServers sl. sl_load sl' ! j = sl_load sl ! j + of_nat (share sl' l j))"
proof -
  let ?S = "sl_numServers sl" and ?c = "sl_numLists sl"
  have "sl_n sl - sl_k sl \<le> ?S" using kn by simp
  from select_parities [OF sh l lt none this, of rs] obtain p where p: "foldM (\<lambda>_. select_parity True l) [0..<sl_n sl - sl_k sl] (sl, rs) = Some (sl\<lparr>sl_parity := p\<rparr>, rs)"
      "tables ?S ?c p" "rows_kept ?S ?c l (sl_parity sl) p" "card (sel_set p ?S l) = sl_n sl - sl_k sl" by blast
  let ?sl1 = "sl\<lparr>sl_parity := p\<rparr>"
  have sh1: "sl_shape ?sl1" "light ?sl1" using sh lt p(2) by (simp_all add: sl_shape_def light_def)
  from select_datas [OF sh1(1) _ sh1(2), of l "sl_k sl" rs] l none p(4) kn obtain d where
    d: "foldM (\<lambda>_. select_data True l) [0..<sl_k sl] (?sl1, rs) = Some (?sl1\<lparr>sl_data := d\<rparr>, rs)" "tables ?S ?c d" "rows_kept ?S ?c l (sl_data sl) d"
      "card (sel_set d ?S l) = sl_k sl" "sel_set d ?S l \<inter> sel_set p ?S l = {}" by auto
  let ?sl2 = "?sl1\<lparr>sl_data := d\<rparr>"
  have sh2: "sl_shape ?sl2" using sh1 d(2) by (simp add: sl_shape_def)
  have ok: "roles_ok ?sl2 l" using d(4,5) p(4) by (auto simp: roles_ok_def length_chosen_sel disjoint_iff)
  have row: "item_at (sl_lists ?sl2) l = Some (sl_lists sl ! l)" "length (sl_lists sl ! l) = sl_n sl" using sh l by (auto simp: sl_shape_def item_at_def)
  have l2: "l < sl_numLists ?sl2" using l by simp
  from charge_all [OF sh2 l2] obtain load count where
    ch: "foldM (charge ?sl2 l) [0..<?S] (sl_load sl, sl_count sl) = Some (load, count)" "length load = ?S" "length count = ?S"
      "\<forall>j < ?S. load ! j = sl_load sl ! j + of_nat (share ?sl2 l j)" by auto
  have "foldM (put_server ?sl2 l) [0..<?S] (sl_lists sl ! l, 0, 0) = Some (sl_row ?sl2 l, sl_k sl, sl_n sl - sl_k sl)"
    using fill_row [OF sh2 l2 ok, of "sl_lists sl ! l"] kn row(2) by simp
  note loop = foldM_pair [OF this ch(1)]
  let ?sl3 = "?sl2\<lparr>sl_lists := (sl_lists sl)[l := sl_row ?sl2 l], sl_load := load, sl_count := count\<rparr>"
  have "gen_list True l (sl, rs) = Some (?sl3, rs)" using p(1) d(1) row(1) loop by (simp add: gen_list_def)
  moreover have "length (sl_row ?sl2 l) = sl_n sl" using ok kn by (simp add: sl_row_def roles_ok_def)
  then have "sl_shape ?sl3" using sh2 ch(2,3) by (auto simp: sl_shape_def dest!: set_update_subset_insert [THEN subsetD])
  moreover have "kept l sl ?sl3" using p(3) d(3) by (simp add: kept_def)
  moreover have "roles_ok ?sl3 l" using ok by (simp add: roles_ok_def)
  moreover have "sl_lists ?sl3 ! l = sl_row ?sl3 l" using sh l by (simp add: sl_shape_def sl_row_def)
  moreover have "\<forall>j < ?S. sl_load ?sl3 ! j = sl_load sl ! j + of_nat (share ?sl3 l j)" using ch(4) by (simp add: share_def)
  ultimately show ?thesis by (intro exI [of _ ?sl3]) (simp add: same_setup_def)
qed

definition sl_wf :: "'a StripeList \<Rightarrow> bool" where
  "sl_wf sl \<longleftrightarrow> sl_shape sl \<and> sl_k sl \<le> sl_n sl \<and> (\<forall>l < sl_numLists sl. roles_ok sl l \<and> sl_lists sl ! l = sl_row sl l)"

lemma kept_row:
  assumes "kept l sl sl'" and "same_setup sl sl'" and "l' < sl_numLists sl" and "l' \<noteq> l"
  shows "roles_ok sl' l' = roles_ok sl l' \<and> sl_row sl' l' = sl_row sl l' \<and> sel_set (sl_data sl') (sl_numServers sl) l' = sel_set (sl_data sl) (sl_numServers sl) l'
    \<and> sel_set (sl_parity sl') (sl_numServers sl) l' = sel_set (sl_parity sl) (sl_numServers sl) l'"
proof -
  have same: "bm_check (sl_data sl') l' j = bm_check (sl_data sl) l' j" "bm_check (sl_parity sl') l' j = bm_check (sl_parity sl) l' j" if "j < sl_numServers sl" for j
    using assms that by (auto simp: kept_def rows_kept_def)
  have ch: "chosen (sl_data sl') (sl_numServers sl) l' = chosen (sl_data sl) (sl_numServers sl) l'" "chosen (sl_parity sl') (sl_numServers sl) l' = chosen (sl_parity sl) (sl_numServers sl) l'"
    unfolding chosen_def by (rule filter_cong, use same in auto)+
  show ?thesis using same ch assms(2) by (auto simp: roles_ok_def sl_row_def same_setup_def)
qed

lemma generate_wf:
  fixes sl :: "'a StripeList"
  assumes sh: "sl_shape sl" and kn: "sl_k sl \<le> sl_n sl" "sl_n sl \<le> sl_numServers sl" and fit: "sl_numLists sl * max 1 (sl_k sl) < 2 ^ 32 - 1"
    and start: "\<forall>l < sl_numLists sl. sel_set (sl_data sl) (sl_numServers sl) l = {} \<and> sel_set (sl_parity sl) (sl_numServers sl) l = {}"
      "\<forall>j < sl_numServers sl. sl_load sl ! j = 0" "\<not> sl_generated sl"
  shows "\<exists>sl'. generate True sl rs = Some (sl', rs) \<and> sl_wf sl' \<and> same_setup sl sl' \<and> sl_generated sl'"
proof -
  let ?S = "sl_numServers sl" and ?c = "sl_numLists sl" and ?w = "max 1 (sl_k sl)"
  let ?P = "\<lambda>m (sl', rs'). rs' = rs \<and> sl_shape sl' \<and> same_setup sl sl' \<and> (\<forall>l < m. roles_ok sl' l \<and> sl_lists sl' ! l = sl_row sl' l)
     \<and> (\<forall>l. m \<le> l \<and> l < ?c \<longrightarrow> sel_set (sl_data sl') ?S l = {} \<and> sel_set (sl_parity sl') ?S l = {}) \<and> (\<forall>j < ?S. unat (sl_load sl' ! j) \<le> m * ?w)"
  have "\<exists>s. foldM (gen_list True) [0..<?c] (sl, rs) = Some s \<and> ?P ?c s"
  proof (rule foldM_upt_inv [where P = ?P])
    show "?P 0 (sl, rs)" using sh start by (simp add: same_setup_def)
  next
    fix m s assume m: "m < ?c" and P: "?P m s"
    obtain sm where s: "s = (sm, rs)" using P by (cases s) auto
    have su: "sl_n sm = sl_n sl" "sl_k sm = sl_k sl" "sl_numLists sm = ?c" "sl_numServers sm = ?S" using P s by (auto simp: same_setup_def)
    have "Suc m * ?w \<le> ?c * ?w" using m by (intro mult_le_mono1) simp
    then have room: "m * ?w + ?w < 2 ^ 32 - 1" using fit by simp
    have bound: "unat (sl_load sm ! j) \<le> m * ?w" if "j < ?S" for j using P s that by auto
    have top: "unat (- 1 :: u32) = 2 ^ 32 - 1" by (simp add: unsigned_minus_1_eq_mask mask_eq_exp_minus_1)
    have "light sm" unfolding light_def su
    proof (intro allI impI notI)
      fix j assume "j < ?S" "sl_load sm ! j = - 1"
      then show False using bound [of j] room top by simp
    qed
    then obtain s' where s': "gen_list True m (sm, rs) = Some (s', rs)" "sl_shape s'" "same_setup sm s'" "kept m sm s'" "roles_ok s' m" "sl_lists s' ! m = sl_row s' m"
        "\<forall>j < ?S. sl_load s' ! j = sl_load sm ! j + of_nat (share s' m j)"
      using gen_list_spec [of sm m rs] P s m kn su by auto
    have old: "roles_ok s' l \<and> sl_lists s' ! l = sl_row s' l" if "l < m" for l
      using kept_row [OF s'(4,3), of l] P s that m su s'(4) by (auto simp: kept_def)
    have rest: "sel_set (sl_data s') ?S l = {} \<and> sel_set (sl_parity s') ?S l = {}" if "Suc m \<le> l" "l < ?c" for l
      using kept_row [OF s'(4,3), of l] P s that su by auto
    have "unat (sl_load s' ! j) \<le> Suc m * ?w" if "j < ?S" for j
    proof -
      have k: "sl_k s' = sl_k sl" using s'(3) su by (simp add: same_setup_def)
      then have le: "share s' m j \<le> ?w" using share_le [of s' m j] by simp
      then have u: "unat (of_nat (share s' m j) :: u32) = share s' m j" using room by (intro unat_of_nat_eq) simp
      have "unat (sl_load sm ! j + of_nat (share s' m j)) = unat (sl_load sm ! j) + share s' m j"
        using unat_plus_eq [of "sl_load sm ! j" "of_nat (share s' m j)"] u bound [OF that] le room by simp
      then show ?thesis using s'(7) that bound [OF that] le by simp
    qed
    then have "?P (Suc m) (s', rs)" using old s' rest P s by (auto simp: less_Suc_eq same_setup_def)
    then show "\<exists>s''. gen_list True m s = Some s'' \<and> ?P (Suc m) s''" using s'(1) s by blast
  qed
  then obtain sl' where g: "foldM (gen_list True) [0..<?c] (sl, rs) = Some (sl', rs)" "?P ?c (sl', rs)" by fastforce
  let ?g = "sl'\<lparr>sl_generated := True\<rparr>"
  have "roles_ok ?g l = roles_ok sl' l" "sl_row ?g l = sl_row sl' l" for l by (simp_all add: roles_ok_def sl_row_def)
  then have "sl_wf ?g" using g(2) kn by (auto simp: sl_wf_def sl_shape_def same_setup_def)
  moreover have "same_setup sl ?g" using g(2) by (auto simp: same_setup_def)
  ultimately show ?thesis using g(1) start(3) by (auto simp: generate_def)
qed

end
