(* ===== verification/StripeLookup.thy ===== *)
theory StripeLookup
  imports StripeList
begin

text \<open>
  What the stripe lists promise to the rest of the system: the constructor assigns \<open>n\<close> different servers to every list, the index of a server
  (\<^verbatim>\<open>StripeList::list\<close>) and the lookup of a chunk are inverse to each other, a key has one data server and the parity servers of its list,
  and replacing a server keeps every position.
\<close>

section \<open>Positions in a list\<close>

definition places :: "'a StripeList \<Rightarrow> nat \<Rightarrow> nat list" where
  "places sl l = chosen (sl_data sl) (sl_numServers sl) l @ chosen (sl_parity sl) (sl_numServers sl) l"

lemma sl_row_places: "sl_row sl l = map (\<lambda>j. Some (sl_servers sl ! j)) (places sl l)"
  by (simp add: sl_row_def places_def)

lemma places_distinct:
  assumes "roles_ok sl l"
  shows "distinct (places sl l)" and "set (places sl l) \<subseteq> {..<sl_numServers sl}" and "length (places sl l) = sl_k sl + (sl_n sl - sl_k sl)"
  using assms by (auto simp: places_def roles_ok_def chosen_facts)

lemma chosen_split:
  assumes "j < S" and "selected bm l j"
  shows "\<exists>ys. chosen bm S l = chosen bm j l @ j # ys"
proof -
  have "[0..<S] = [0..<j] @ j # [Suc j..<S]" using assms(1) upt_add_eq_append [of 0 j "S - j"] upt_conv_Cons [of j S] by simp
  then have "chosen bm S l = chosen bm j l @ j # filter (selected bm l) [Suc j..<S]" using assms(2) by (simp add: chosen_def)
  then show ?thesis by blast
qed

lemma chosen_nth:
  assumes "j < S" and "selected bm l j"
  shows "length (chosen bm j l) < length (chosen bm S l)" and "chosen bm S l ! length (chosen bm j l) = j"
  using chosen_split [OF assms] by auto

text \<open>The chunk that server \<open>j\<close> holds in list \<open>l\<close>, if any.\<close>

definition place_of :: "'a StripeList \<Rightarrow> nat \<Rightarrow> nat \<Rightarrow> nat option" where
  "place_of sl l j =
     (if selected (sl_data sl) l j then Some (length (chosen (sl_data sl) j l))
      else if selected (sl_parity sl) l j then Some (sl_k sl + length (chosen (sl_parity sl) j l)) else None)"

lemma place_of_nth:
  assumes "roles_ok sl l" and j: "j < sl_numServers sl" and "place_of sl l j = Some c"
  shows "c < length (places sl l) \<and> places sl l ! c = j"
  using chosen_nth [OF j, of "sl_data sl" l] chosen_nth [OF j, of "sl_parity sl" l] assms
  by (auto simp: place_of_def places_def nth_append roles_ok_def split: if_splits)

lemma place_of_iff:
  assumes ok: "roles_ok sl l" and j: "j < sl_numServers sl"
  shows "c < length (places sl l) \<and> places sl l ! c = j \<longleftrightarrow> place_of sl l j = Some c"
proof
  assume c: "c < length (places sl l) \<and> places sl l ! c = j"
  then have "selected (sl_data sl) l j \<or> selected (sl_parity sl) l j" using nth_mem [of c "places sl l"] by (auto simp: places_def chosen_facts)
  then obtain c' where c': "place_of sl l j = Some c'" by (cases "selected (sl_data sl) l j") (auto simp: place_of_def)
  then show "place_of sl l j = Some c" using place_of_nth [OF ok j c'] c places_distinct(1) [OF ok] by (metis nth_eq_iff_index_eq)
qed (rule place_of_nth [OF assms])

section \<open>Construction\<close>

lemma sl_wf_places:
  assumes "sl_wf sl" and "l < sl_numLists sl"
  shows "sl_lists sl ! l = map (\<lambda>j. Some (sl_servers sl ! j)) (places sl l)" and "distinct (places sl l)"
    and "set (places sl l) \<subseteq> {..<sl_numServers sl}" and "length (places sl l) = sl_n sl" and "item_at (sl_lists sl) l = Some (sl_lists sl ! l)"
  using assms places_distinct [of sl l] by (auto simp: sl_wf_def sl_row_places item_at_def sl_shape_def)

lemma sl_new_wf:
  assumes "k \<le> n" and "n \<le> length servers" and "numLists * max 1 k < 2 ^ 32 - 1"
  shows "\<exists>sl. sl_new n k numLists servers True rs = Some (sl, rs) \<and> sl_wf sl \<and> sl_n sl = n \<and> sl_k sl = k \<and> sl_numLists sl = numLists
     \<and> sl_servers sl = servers \<and> sl_numServers sl = length servers \<and> sl_generated sl"
proof -
  let ?S = "length servers"
  let ?sl = "\<lparr>sl_n = n, sl_k = k, sl_numLists = numLists, sl_numServers = ?S, sl_generated = False, sl_useAlgo = True,
     sl_data = bm_new ?S numLists, sl_parity = bm_new ?S numLists, sl_load = replicate ?S 0, sl_count = replicate ?S 0, sl_servers = servers,
     sl_lists = replicate numLists (replicate n None)\<rparr> :: 'a StripeList"
  have empty: "sel_set (bm_new ?S numLists) ?S l = {}" if "l < numLists" for l using tables_new [of ?S numLists] that by auto
  have "sl_shape ?sl" using tables_new by (auto simp: sl_shape_def)
  then have "\<exists>sl'. generate True ?sl rs = Some (sl', rs) \<and> sl_wf sl' \<and> same_setup ?sl sl' \<and> sl_generated sl'"
    by (intro generate_wf) (use assms empty in simp_all)
  then show ?thesis by (auto simp: sl_new_def same_setup_def)
qed

text \<open>
  C16. The load-aware constructor of \<open>StripeList\<close>: with \<open>k \<le> n\<close>, at least \<open>n\<close> servers and loads that stay below the 32-bit limit, every pick finds a server that the
  list does not have yet, so that each list consists of \<open>n\<close> different servers, no slot of the uninitialised array is left unwritten, and the two
  tables agree with the lists.
\<close>

theorem stripe_lists_assigned:
  assumes "k \<le> n" and "n \<le> length servers" and "numLists * max 1 k < 2 ^ 32 - 1"
  shows "\<exists>sl. sl_new n k numLists servers True rs = Some (sl, rs) \<and> sl_wf sl \<and> length (sl_lists sl) = numLists
    \<and> (\<forall>l. l < numLists \<longrightarrow> (\<exists>js. length js = n \<and> distinct js \<and> set js \<subseteq> {..<length servers} \<and> sl_lists sl ! l = map (\<lambda>j. Some (servers ! j)) js))"
proof -
  obtain sl where sl: "sl_new n k numLists servers True rs = Some (sl, rs)" "sl_wf sl" "sl_n sl = n" "sl_numLists sl = numLists" "sl_servers sl = servers" "sl_numServers sl = length servers"
    using sl_new_wf [OF assms] by blast
  have "\<exists>js. length js = n \<and> distinct js \<and> set js \<subseteq> {..<length servers} \<and> sl_lists sl ! l = map (\<lambda>j. Some (servers ! j)) js" if "l < numLists" for l
    using sl_wf_places [OF sl(2), of l] sl(3-6) that by (intro exI [of _ "places sl l"]) simp
  moreover have "length (sl_lists sl) = numLists" using sl(2,4) by (simp add: sl_wf_def sl_shape_def)
  ultimately show ?thesis using sl by blast
qed

theorem stripe_lists_assigned_witness:
  "\<exists>sl. sl_new 3 2 2 [10, 20, 30, 40 :: nat] True [] = Some (sl, []) \<and> sl_wf sl \<and> length (sl_lists sl) = 2
    \<and> (\<forall>l. l < 2 \<longrightarrow> (\<exists>js. length js = 3 \<and> distinct js \<and> set js \<subseteq> {..<length [10, 20, 30, 40 :: nat]} \<and> sl_lists sl ! l = map (\<lambda>j. Some ([10, 20, 30, 40] ! j)) js))"
  using stripe_lists_assigned [of 2 3 "[10, 20, 30, 40 :: nat]" 2 "[]"] by simp

section \<open>The index of a server\<close>

lemma count_before_chosen:
  assumes "tables S c bm" and "l < c" and "j < S"
  shows "count_before bm l S j base = Some (base + length (chosen bm j l))"
proof -
  have "\<exists>s. foldM (\<lambda>i c. do { b \<leftarrow> bm_check bm l i; Some (if b then c + 1 else c) }) [0..<j] base = Some s \<and> s = base + length (chosen bm j l)"
  proof (rule foldM_upt_inv [where P = "\<lambda>m s. s = base + length (chosen bm m l)"])
    fix m s assume "m < j" and s: "s = base + length (chosen bm m l)"
    then obtain b where "bm_check bm l m = Some b" using tables_check [OF assms(1,2), of m] assms(3) by auto
    then show "\<exists>s'. bm_check bm l m \<bind> (\<lambda>b. Some (if b then s + 1 else s)) = Some s' \<and> s' = base + length (chosen bm (Suc m) l)"
      using s by (simp add: chosen_Suc)
  qed (simp add: chosen_def)
  then show ?thesis using assms(3) by (simp add: count_before_def)
qed

definition entry_of :: "'a StripeList \<Rightarrow> nat \<Rightarrow> nat \<Rightarrow> StripeListIndex list" where
  "entry_of sl j l = (case place_of sl l j of None \<Rightarrow> []
     | Some c \<Rightarrow> [\<lparr>sli_listId = l, sli_stripeId = 0, sli_chunkId = c, sli_isParity = (sl_k sl \<le> c)\<rparr>])"

lemma sl_list_entries:
  assumes wf: "sl_wf sl" and j: "j < sl_numServers sl"
  shows "sl_list sl j = Some (concat (map (entry_of sl j) [0..<sl_numLists sl]))"
proof -
  have sh: "sl_shape sl" using wf by (simp add: sl_wf_def)
  let ?P = "\<lambda>m ret. ret = concat (map (entry_of sl j) [0..<m])"
  have "\<exists>s. sl_list sl j = Some s \<and> ?P (sl_numLists sl) s"
    unfolding sl_list_def
  proof (rule foldM_upt_inv [where P = ?P], simp)
    fix l ret assume l: "l < sl_numLists sl" and ret: "?P l ret"
    have ok: "roles_ok sl l" using wf l by (simp add: sl_wf_def)
    have t: "tables (sl_numServers sl) (sl_numLists sl) (sl_data sl)" "tables (sl_numServers sl) (sl_numLists sl) (sl_parity sl)" using sh by (simp_all add: sl_shape_def)
    have less: "selected (sl_data sl) l j \<Longrightarrow> \<not> sl_k sl \<le> length (chosen (sl_data sl) j l)" using chosen_nth(1) [OF j, of "sl_data sl" l] ok by (simp add: roles_ok_def)
    show "\<exists>s'. (role_of sl l j \<bind> (\<lambda>ro. case ro of Unused \<Rightarrow> Some ret
        | DataServer \<Rightarrow> count_before (sl_data sl) l (sl_numServers sl) j 0 \<bind> (\<lambda>c. Some (ret @ [\<lparr>sli_listId = l, sli_stripeId = 0, sli_chunkId = c, sli_isParity = False\<rparr>]))
        | ParityServer \<Rightarrow> count_before (sl_parity sl) l (sl_numServers sl) j (sl_k sl) \<bind> (\<lambda>c. Some (ret @ [\<lparr>sli_listId = l, sli_stripeId = 0, sli_chunkId = c, sli_isParity = True\<rparr>])))) = Some s'
       \<and> ?P (Suc l) s'"
      using role_of_chosen [OF sh l j] less ret
      by (simp add: count_before_chosen [OF t(1) l j] count_before_chosen [OF t(2) l j] entry_of_def place_of_def)
  qed
  then show ?thesis by simp
qed

lemma sl_get_chunk_place:
  assumes wf: "sl_wf sl" and d: "distinct (sl_servers sl)" and j: "j < sl_numServers sl"
  shows "sl_get_chunk sl l c = Some (Some (sl_servers sl ! j)) \<longleftrightarrow> l < sl_numLists sl \<and> place_of sl l j = Some c"
proof (cases "l < sl_numLists sl")
  case True
  note w = sl_wf_places [OF wf True]
  have "roles_ok sl l" and len: "length (sl_servers sl) = sl_numServers sl" using wf True by (simp_all add: sl_wf_def sl_shape_def)
  then have "place_of sl l j = Some c \<longleftrightarrow> c < length (places sl l) \<and> places sl l ! c = j" using place_of_iff j by blast
  moreover have "places sl l ! c < sl_numServers sl" if "c < length (places sl l)" using w(3) that nth_mem by blast
  ultimately show ?thesis using True w(1,5) d j len by (auto simp: sl_get_chunk_def item_at_def nth_eq_iff_index_eq)
next
  case False
  then show ?thesis using wf by (simp add: sl_get_chunk_def item_at_def sl_wf_def sl_shape_def)
qed

text \<open>
  The two directions of the assignment agree: \<open>StripeList::list\<close> of a server returns exactly the (list, chunk) pairs at which
  \<open>StripeList::get\<close> returns this server, with the parity flag set exactly for the chunks from \<open>k\<close> on.
\<close>

theorem stripe_list_index_roundtrip:
  assumes "sl_wf sl" and "distinct (sl_servers sl)" and "j < sl_numServers sl"
  shows "\<exists>ret. sl_list sl j = Some ret \<and> (\<forall>l c. sl_get_chunk sl l c = Some (Some (sl_servers sl ! j)) \<longleftrightarrow>
    \<lparr>sli_listId = l, sli_stripeId = 0, sli_chunkId = c, sli_isParity = (sl_k sl \<le> c)\<rparr> \<in> set ret) \<and> (\<forall>r. r \<in> set ret \<longrightarrow> sli_stripeId r = 0 \<and> sli_isParity r = (sl_k sl \<le> sli_chunkId r))"
  unfolding sl_list_entries [OF assms(1,3)] sl_get_chunk_place [OF assms]
  by (auto simp: entry_of_def split: option.splits)

text \<open>A concrete instance: four servers, two lists of two data chunks and one parity chunk.\<close>

definition sample_lists :: "nat StripeList" where
  "sample_lists = fst (the (sl_new 3 2 2 [10, 20, 30, 40 :: nat] True []))"

lemma sample_lists_wf: "sl_wf sample_lists" "sl_k sample_lists = 2" "sl_n sample_lists = 3" "sl_numLists sample_lists = 2" "sl_servers sample_lists = [10, 20, 30, 40]" "sl_numServers sample_lists = 4" "sl_generated sample_lists"
  using sl_new_wf [of 2 3 "[10, 20, 30, 40 :: nat]" 2 "[]"] by (auto simp: sample_lists_def)

theorem stripe_list_index_roundtrip_witness:
  "\<exists>ret. sl_list sample_lists 1 = Some ret \<and> (\<forall>l c. sl_get_chunk sample_lists l c = Some (Some 20) \<longleftrightarrow>
    \<lparr>sli_listId = l, sli_stripeId = 0, sli_chunkId = c, sli_isParity = (2 \<le> c)\<rparr> \<in> set ret) \<and> (\<forall>r. r \<in> set ret \<longrightarrow> sli_stripeId r = 0 \<and> sli_isParity r = (2 \<le> sli_chunkId r))"
  using stripe_list_index_roundtrip [of sample_lists 1] sample_lists_wf by simp

section \<open>Keys\<close>

lemma chunk_servers_slice: "b \<le> length row \<Longrightarrow> a \<le> b \<Longrightarrow> chunk_servers row a b = Some (take (b - a) (drop a row))"
proof (induction b)
  case (Suc b)
  show ?case
  proof (cases "a = Suc b")
    case False
    then have "chunk_servers row a b = Some (take (b - a) (drop a row))" using Suc by simp
    moreover have "[a..<Suc b] = [a..<b] @ [b]" "take (Suc b - a) (drop a row) = take (b - a) (drop a row) @ [row ! b]" using False Suc.prems
      by (simp_all add: Suc_diff_le take_Suc_conv_app_nth)
    ultimately show ?thesis using Suc.prems by (simp add: chunk_servers_def foldM_append item_at_def)
  qed (simp add: chunk_servers_def)
qed (simp add: chunk_servers_def)

lemma list_of_hash_total: "0 < sl_numLists sl \<Longrightarrow> \<exists>l < sl_numLists sl. list_of_hash sl h = Some l"
  using hash_eq_hash_of [of 4 "le32 h"] by (simp add: list_of_hash_def)

lemma sl_wf_slices:
  assumes "sl_wf sl" and "l < sl_numLists sl"
  shows "chunk_servers (sl_lists sl ! l) (sl_k sl) (sl_n sl) = Some (drop (sl_k sl) (sl_lists sl ! l))"
    and "chunk_servers (sl_lists sl ! l) 0 (sl_k sl) = Some (take (sl_k sl) (sl_lists sl ! l))"
  using sl_wf_places(1,4) [OF assms] assms(1) by (simp_all add: chunk_servers_slice sl_wf_def)

text \<open>
  C27. Where a key lives: for every key, \<open>StripeList::get\<close> returns a list, a data chunk index below \<open>k\<close>, the server of that chunk, and the servers of all data and all
  parity chunks of the list, none of them missing; \<open>getByHash\<close> on the hash value of the key and the lookups by list and chunk give the same servers.
\<close>

theorem stripe_list_key_placement:
  assumes wf: "sl_wf sl" and "0 < sl_k sl" and "0 < sl_numLists sl" and "unat keySize \<le> length key"
  shows "\<exists>l d js. l < sl_numLists sl \<and> d < sl_k sl \<and> length js = sl_n sl \<and> distinct js \<and> set js \<subseteq> {..<sl_numServers sl}
    \<and> (let srv = map (\<lambda>j. Some (sl_servers sl ! j)) js in
       sl_get_key sl key keySize = Some (l, d, Some (sl_servers sl ! (js ! d)), take (sl_k sl) srv, drop (sl_k sl) srv)
       \<and> sl_getByHash sl (hash_of (take (unat keySize) key)) = Some (l, take (sl_k sl) srv, drop (sl_k sl) srv)
       \<and> sl_get_chunk sl l d = Some (Some (sl_servers sl ! (js ! d))) \<and> sl_get_list sl l = Some (drop (sl_k sl) srv, take (sl_k sl) srv))"
proof -
  let ?h = "hash_of (take (unat keySize) key)" and ?d = "unat (hash_of (take (unat keySize) key)) mod sl_k sl"
  have h: "hash key (ucast keySize) = Some ?h" using hash_eq_hash_of [of "ucast keySize" key] assms(4) by simp
  obtain l where l: "l < sl_numLists sl" "list_of_hash sl ?h = Some l" using list_of_hash_total assms(3) by blast
  note w = sl_wf_places [OF wf l(1)] and c = sl_wf_slices [OF wf l(1)]
  have d: "?d < sl_k sl" using assms(2) by simp
  then have dl: "?d < length (places sl l)" using wf w(4) unfolding sl_wf_def by linarith
  then have one: "item_at (sl_lists sl ! l) ?d = Some (Some (sl_servers sl ! (places sl l ! ?d)))" using w(1) by (simp add: item_at_def)
  show ?thesis
    by (intro exI [of _ l] exI [of _ ?d] exI [of _ "places sl l"] conjI)
      (use d l w(2-4) h w(5) c one assms(2) in \<open>simp_all add: w(1) [symmetric] Let_def sl_get_key_def sl_getByHash_def sl_get_chunk_def sl_get_list_def\<close>)
qed

theorem stripe_list_key_placement_witness:
  "\<exists>l d js. l < 2 \<and> d < 2 \<and> length js = 3 \<and> distinct js \<and> set js \<subseteq> {..<4}
    \<and> (let srv = map (\<lambda>j. Some ([10, 20, 30, 40] ! j)) js in
       sl_get_key sample_lists [107, 49] 2 = Some (l, d, Some ([10, 20, 30, 40] ! (js ! d)), take 2 srv, drop 2 srv)
       \<and> sl_getByHash sample_lists (hash_of [107, 49]) = Some (l, take 2 srv, drop 2 srv)
       \<and> sl_get_chunk sample_lists l d = Some (Some ([10, 20, 30, 40] ! (js ! d))) \<and> sl_get_list sample_lists l = Some (drop 2 srv, take 2 srv))"
  using stripe_list_key_placement [of sample_lists 2 "[107, 49]"] sample_lists_wf by simp

section \<open>Replacing a server\<close>

text \<open>
  When servers have been replaced in the vector of servers, \<open>StripeList::update\<close> puts each new server at exactly the positions of the server it
  replaces: the lists stay well formed, and position by position they name the same indices into the vector.
\<close>

theorem stripe_list_update_keeps_positions:
  assumes wf: "sl_wf sl" and gen: "sl_generated sl" and len: "length servers = sl_numServers sl"
  shows "\<exists>sl'. sl_update (sl\<lparr>sl_servers := servers\<rparr>) rs = Some (sl', rs) \<and> sl_wf sl' \<and> sl_data sl' = sl_data sl \<and> sl_parity sl' = sl_parity sl \<and> sl_servers sl' = servers
    \<and> (\<forall>l. l < sl_numLists sl \<longrightarrow> (\<exists>js. sl_lists sl ! l = map (\<lambda>j. Some (sl_servers sl ! j)) js \<and> sl_lists sl' ! l = map (\<lambda>j. Some (servers ! j)) js))"
proof -
  let ?sl = "sl\<lparr>sl_servers := servers\<rparr>"
  let ?P = "\<lambda>m ls. length ls = sl_numLists sl \<and> (\<forall>row \<in> set ls. length row = sl_n sl) \<and> (\<forall>l < m. ls ! l = sl_row ?sl l)"
  have sh: "sl_shape ?sl" and kn: "sl_k ?sl \<le> sl_n ?sl" using wf len by (auto simp: sl_wf_def sl_shape_def)
  have ok: "roles_ok ?sl l" if "l < sl_numLists sl" for l using wf that by (simp add: sl_wf_def roles_ok_def)
  have "\<exists>ls. foldM (\<lambda>i lists. item_at lists i \<bind> (\<lambda>row. foldM (put_server ?sl i) [0..<sl_numServers sl] (row, 0, 0) \<bind> (\<lambda>(row, _, _). Some (lists[i := row])))) [0..<sl_numLists sl] (sl_lists sl)
      = Some ls \<and> ?P (sl_numLists sl) ls"
  proof (rule foldM_upt_inv [where P = ?P])
    show "?P 0 (sl_lists sl)" using wf by (simp add: sl_wf_def sl_shape_def)
  next
    fix l ls assume l: "l < sl_numLists sl" and P: "?P l ls"
    have "foldM (put_server ?sl l) [0..<sl_numServers sl] (ls ! l, 0, 0) = Some (sl_row ?sl l, sl_k sl, sl_n sl - sl_k sl)"
      using fill_row [OF sh _ ok kn, of l "ls ! l"] l P by simp
    moreover have "length (sl_row ?sl l) = sl_n sl" using ok [OF l] kn by (simp add: sl_row_def roles_ok_def)
    ultimately show "\<exists>ls'. (item_at ls l \<bind> (\<lambda>row. foldM (put_server ?sl l) [0..<sl_numServers sl] (row, 0, 0) \<bind> (\<lambda>(row, _, _). Some (ls[l := row])))) = Some ls' \<and> ?P (Suc l) ls'"
      using l P by (auto simp: item_at_def nth_list_update less_Suc_eq dest!: set_update_subset_insert [THEN subsetD])
  qed
  then obtain ls where ls: "sl_update ?sl rs = Some (?sl\<lparr>sl_lists := ls\<rparr>, rs)" "?P (sl_numLists sl) ls" using gen by (auto simp: sl_update_def)
  let ?sl' = "?sl\<lparr>sl_lists := ls\<rparr>"
  have same: "roles_ok ?sl' l = roles_ok ?sl l" "sl_row ?sl' l = sl_row ?sl l" "places ?sl l = places sl l" for l by (simp_all add: roles_ok_def sl_row_def places_def)
  then have "sl_wf ?sl'" using ls(2) sh kn ok by (auto simp: sl_wf_def sl_shape_def)
  moreover have "\<exists>js. sl_lists sl ! l = map (\<lambda>j. Some (sl_servers sl ! j)) js \<and> ls ! l = map (\<lambda>j. Some (servers ! j)) js" if "l < sl_numLists sl" for l
    using sl_wf_places(1) [OF wf that] ls(2) that same(3) [of l] sl_row_places [of ?sl l] by auto
  ultimately show ?thesis using ls(1) by (intro exI [of _ ?sl']) simp
qed

theorem stripe_list_update_keeps_positions_witness:
  "\<exists>sl'. sl_update (sample_lists\<lparr>sl_servers := [10, 20, 35, 40]\<rparr>) [] = Some (sl', []) \<and> sl_wf sl' \<and> sl_data sl' = sl_data sample_lists \<and> sl_parity sl' = sl_parity sample_lists \<and> sl_servers sl' = [10, 20, 35, 40]
    \<and> (\<forall>l. l < 2 \<longrightarrow> (\<exists>js. sl_lists sample_lists ! l = map (\<lambda>j. Some ([10, 20, 30, 40] ! j)) js \<and> sl_lists sl' ! l = map (\<lambda>j. Some ([10, 20, 35, 40] ! j)) js))"
  using stripe_list_update_keeps_positions [of sample_lists "[10, 20, 35, 40]" "[]"] sample_lists_wf by simp

end
