(* ===== verification/ConsistentHash.thy ===== *)
theory ConsistentHash
  imports Loops HashFunc
begin

text \<open>
  The hash ring of \<^verbatim>\<open>common/hash/consistent_hash.hh\<close> at its instance \<^verbatim>\<open>ConsistentHash<uint32_t>\<close>.  The ordered map is a list of
  (point, item) pairs with strictly increasing points.  The specification is independent of the order: a value belongs to the point that is nearest clockwise,
  that is, whose difference to the value is smallest as a 32-bit word.
\<close>

section \<open>Operations\<close>

record ConsistentHash =
  ch_ring :: "(u32 \<times> u32) list"
  ch_replicas :: u32

definition ch_new :: ConsistentHash where
  "ch_new = \<lparr>ch_ring = [], ch_replicas = 1\<rparr>"

definition ch_setReplicas :: "ConsistentHash \<Rightarrow> u32 \<Rightarrow> ConsistentHash" where
  "ch_setReplicas ch replicas = ch\<lparr>ch_replicas := replicas\<rparr>"

fun ring_put :: "u32 \<Rightarrow> 'a \<Rightarrow> (u32 \<times> 'a) list \<Rightarrow> (u32 \<times> 'a) list" where
  "ring_put p v [] = [(p, v)]"
| "ring_put p v ((q, w) # r) = (if p < q then (p, v) # (q, w) # r else if p = q then (p, v) # r else (q, w) # ring_put p v r)"

definition ring_erase :: "u32 \<Rightarrow> (u32 \<times> 'a) list \<Rightarrow> (u32 \<times> 'a) list" where
  "ring_erase p r = filter (\<lambda>(q, _). q \<noteq> p) r"

definition ring_lookup :: "(u32 \<times> 'a) list \<Rightarrow> u32 \<Rightarrow> 'a option" where
  "ring_lookup r val =
     (case find (\<lambda>(q, _). val \<le> q) r of
        Some (_, v) \<Rightarrow> Some v
      | None \<Rightarrow> (case r of [] \<Rightarrow> None | (_, v) # _ \<Rightarrow> Some v))"

definition ring_point :: "u32 \<Rightarrow> nat \<Rightarrow> u32 option" where
  "ring_point item i = hash2 (le32 item) 4 (le32 (of_nat i)) 4"

definition ch_add :: "ConsistentHash \<Rightarrow> u32 \<Rightarrow> ConsistentHash option" where
  "ch_add ch item =
     do { r \<leftarrow> foldM (\<lambda>i r. do { val \<leftarrow> ring_point item i; Some (ring_put val item r) }) [0..<unat (ch_replicas ch)] (ch_ring ch);
          Some (ch\<lparr>ch_ring := r\<rparr>) }"

definition ch_remove :: "ConsistentHash \<Rightarrow> u32 \<Rightarrow> ConsistentHash option" where
  "ch_remove ch item =
     do { r \<leftarrow> foldM (\<lambda>i r. do { val \<leftarrow> ring_point item i; Some (ring_erase val r) }) [0..<unat (ch_replicas ch)] (ch_ring ch);
          Some (ch\<lparr>ch_ring := r\<rparr>) }"

definition ch_get :: "ConsistentHash \<Rightarrow> u32 \<Rightarrow> u32 option" where
  "ch_get ch val = ring_lookup (ch_ring ch) val"

definition ch_get_data :: "ConsistentHash \<Rightarrow> byte list \<Rightarrow> u32 \<Rightarrow> u32 option" where
  "ch_get_data ch data n =
     do { val \<leftarrow> (if n \<noteq> 0 then hash data n
                  else if 0 \<in> set data then hash data (of_nat (length (takeWhile (\<lambda>b. b \<noteq> 0) data))) else None);
          ring_lookup (ch_ring ch) val }"

definition ch_get_data2 :: "ConsistentHash \<Rightarrow> byte list \<Rightarrow> u32 \<Rightarrow> byte list \<Rightarrow> u32 \<Rightarrow> u32 option" where
  "ch_get_data2 ch data1 n1 data2 n2 = do { val \<leftarrow> hash2 data1 n1 data2 n2; ring_lookup (ch_ring ch) val }"

section \<open>The ring as a finite map\<close>

definition ring_ok :: "(u32 \<times> 'a) list \<Rightarrow> bool" where
  "ring_ok r \<longleftrightarrow> sorted_wrt (<) (map fst r)"

lemma ring_ok_distinct: "ring_ok r \<Longrightarrow> distinct (map fst r)"
  by (simp add: ring_ok_def strict_sorted_iff)

lemma ring_put_points: "set (map fst (ring_put p v r)) = insert p (set (map fst r))"
  by (induction p v r rule: ring_put.induct) (simp_all add: insert_commute)

lemma ring_put_ok: "ring_ok r \<Longrightarrow> ring_ok (ring_put p v r)"
proof (induction r)
  case (Cons x r)
  obtain q w where x: "x = (q, w)" by (cases x)
  have "\<forall>z \<in> set (map fst (ring_put p v r)). q < z" if "q < p"
    using Cons.prems that x by (simp only: ring_put_points) (auto simp: ring_ok_def)
  then show ?case using Cons x by (auto simp: ring_ok_def)
qed (simp add: ring_ok_def)

lemma map_of_ring_put: "ring_ok r \<Longrightarrow> map_of (ring_put p v r) = (map_of r)(p \<mapsto> v)"
proof (induction r)
  case (Cons x r)
  then show ?case by (cases x) (auto simp: ring_ok_def fun_eq_iff)
qed simp

lemma ring_erase_ok: "ring_ok r \<Longrightarrow> ring_ok (ring_erase p r)"
  by (induction r) (auto simp: ring_ok_def ring_erase_def)

lemma map_of_ring_erase: "map_of (ring_erase p r) = (map_of r)(p := None)"
  by (induction r) (auto simp: ring_erase_def fun_eq_iff)

lemma clockwise_le:
  fixes p q val :: u32
  shows "p - val \<le> q - val \<longleftrightarrow> (if val \<le> p then val \<le> q \<longrightarrow> p \<le> q else q < val \<and> p \<le> q)"
  using unat_u32_less [of p] unat_u32_less [of q] unat_u32_less [of val]
  by (auto simp: word_le_nat_alt word_less_nat_alt unat_sub_if_size word_size split: if_splits)

text \<open>The nearest point clockwise.\<close>

definition nearest :: "(u32 \<rightharpoonup> 'a) \<Rightarrow> u32 \<Rightarrow> u32 \<Rightarrow> bool" where
  "nearest m val p \<longleftrightarrow> p \<in> dom m \<and> (\<forall>q \<in> dom m. p - val \<le> q - val)"

lemma nearest_unique: "nearest m val p \<Longrightarrow> nearest m val q \<Longrightarrow> p = q"
  unfolding nearest_def by (metis diff_add_cancel order_antisym)

lemma nearest_sub: "nearest m val p \<Longrightarrow> m' \<subseteq>\<^sub>m m \<Longrightarrow> p \<in> dom m' \<Longrightarrow> nearest m' val p"
  by (meson map_le_implies_dom_le nearest_def subsetD)

lemma ring_lookup_nearest:
  assumes ok: "ring_ok r" and "r \<noteq> []"
  shows "\<exists>p v. nearest (map_of r) val p \<and> map_of r p = Some v \<and> ring_lookup r val = Some v"
proof (cases "find (\<lambda>(q, _). val \<le> q) r")
  case None
  obtain p v r' where r: "r = (p, v) # r'" using assms(2) by (cases r) auto
  have "q < val" if "q \<in> dom (map_of r)" for q using None that by (auto simp: find_None_iff not_le dest!: map_of_SomeD)
  moreover have "p \<le> q" if "q \<in> dom (map_of r)" for q using ok that r by (fastforce simp: ring_ok_def less_imp_le split: if_splits dest!: map_of_SomeD)
  ultimately have "nearest (map_of r) val p" using r by (auto simp: nearest_def clockwise_le)
  then show ?thesis using None r by (auto simp: ring_lookup_def)
next
  case (Some x)
  then obtain i where i: "i < length r" "val \<le> fst (r ! i)" "x = r ! i" "\<forall>j < i. fst (r ! j) < val"
    by (fastforce simp: find_Some_iff split_beta)
  obtain p v where x: "x = (p, v)" by (cases x)
  then have pi: "p = fst (r ! i)" using i(3) by (metis fst_conv)
  have "p \<le> q" if q: "q \<in> dom (map_of r)" "val \<le> q" for q
  proof -
    obtain w where "(q, w) \<in> set r" using q(1) by (auto dest!: map_of_SomeD)
    then obtain j where "j < length r" "r ! j = (q, w)" by (auto simp: in_set_conv_nth)
    then have j: "j < length r" "fst (r ! j) = q" by simp_all
    then have "i \<le> j" using i(4) q(2) by (metis leD leI)
    then show ?thesis using ok i(1) j pi sorted_wrt_nth_less [of "(<)" "map fst r" i j] by (cases "i = j") (auto simp: ring_ok_def)
  qed
  moreover have p: "map_of r p = Some v" using i x ring_ok_distinct [OF ok] by (metis map_of_is_SomeI nth_mem)
  ultimately have "nearest (map_of r) val p" using i(2) pi by (auto simp: nearest_def clockwise_le)
  then show ?thesis using p Some x by (auto simp: ring_lookup_def)
qed

lemma ring_lookup_iff:
  assumes "ring_ok r"
  shows "ring_lookup r val = Some v \<longleftrightarrow> (\<exists>p. nearest (map_of r) val p \<and> map_of r p = Some v)"
proof (cases "r = []")
  case False
  from ring_lookup_nearest [OF assms this, of val] obtain p w where p: "nearest (map_of r) val p" "map_of r p = Some w" "ring_lookup r val = Some w" by blast
  then show ?thesis using nearest_unique [OF p(1)] by (metis option.inject)
qed (simp add: ring_lookup_def nearest_def)

section \<open>Adding and removing items\<close>

definition points :: "ConsistentHash \<Rightarrow> u32 \<Rightarrow> u32 set" where
  "points ch item = (\<lambda>i. hash_of (le32 item @ le32 (of_nat i))) ` {..<unat (ch_replicas ch)}"

lemma ring_point_total: "ring_point item i = Some (hash_of (le32 item @ le32 (of_nat i)))"
  using hash2_hash_of [of "le32 item" "le32 (of_nat i)"] by (simp add: ring_point_def)

lemma ch_add_map:
  assumes "ring_ok (ch_ring ch)"
  shows "\<exists>ch'. ch_add ch item = Some ch' \<and> ring_ok (ch_ring ch') \<and> ch_replicas ch' = ch_replicas ch
    \<and> map_of (ch_ring ch') = (\<lambda>p. if p \<in> points ch item then Some item else map_of (ch_ring ch) p)"
proof -
  let ?h = "\<lambda>i. hash_of (le32 item @ le32 (of_nat i))"
  let ?P = "\<lambda>m r. ring_ok r \<and> map_of r = (\<lambda>p. if p \<in> ?h ` {..<m} then Some item else map_of (ch_ring ch) p)"
  have "\<exists>r. foldM (\<lambda>i r. ring_point item i \<bind> (\<lambda>val. Some (ring_put val item r))) [0..<unat (ch_replicas ch)] (ch_ring ch) = Some r \<and> ?P (unat (ch_replicas ch)) r"
    by (rule foldM_upt_inv [where P = ?P])
      (use assms in \<open>auto simp: ring_point_total ring_put_ok map_of_ring_put lessThan_Suc fun_eq_iff\<close>)
  then show ?thesis by (auto simp: ch_add_def points_def)
qed

lemma ch_remove_map:
  assumes "ring_ok (ch_ring ch)"
  shows "\<exists>ch'. ch_remove ch item = Some ch' \<and> ring_ok (ch_ring ch') \<and> ch_replicas ch' = ch_replicas ch
    \<and> map_of (ch_ring ch') = (\<lambda>p. if p \<in> points ch item then None else map_of (ch_ring ch) p)"
proof -
  let ?h = "\<lambda>i. hash_of (le32 item @ le32 (of_nat i))"
  let ?P = "\<lambda>m r. ring_ok r \<and> map_of r = (\<lambda>p. if p \<in> ?h ` {..<m} then None else map_of (ch_ring ch) p)"
  have "\<exists>r. foldM (\<lambda>i r. ring_point item i \<bind> (\<lambda>val. Some (ring_erase val r))) [0..<unat (ch_replicas ch)] (ch_ring ch) = Some r \<and> ?P (unat (ch_replicas ch)) r"
    by (rule foldM_upt_inv [where P = ?P])
      (use assms in \<open>auto simp: ring_point_total ring_erase_ok map_of_ring_erase lessThan_Suc fun_eq_iff\<close>)
  then show ?thesis by (auto simp: ch_remove_def points_def)
qed

text \<open>
  C37. Consistent hashing moves only what it must: after \<open>ConsistentHash::add\<close> of an item, every value is looked up to the new item or to the item it had before, and
  after \<open>remove\<close> of an item whose points no other item has taken over, every value that did not belong to the removed item keeps its item.
\<close>

theorem consistent_hash_locality:
  assumes ok: "ring_ok (ch_ring ch)" and "0 < ch_replicas ch"
  shows "\<exists>added removed. ch_add ch item = Some added \<and> ch_remove ch item = Some removed \<and> ring_ok (ch_ring added) \<and> ring_ok (ch_ring removed)
    \<and> (\<forall>val. ch_get added val = Some item \<or> ch_get added val = ch_get ch val)
    \<and> ((\<forall>p. p \<in> points ch item \<longrightarrow> map_of (ch_ring ch) p \<in> {None, Some item}) \<longrightarrow>
       (\<forall>val other. ch_get ch val = Some other \<longrightarrow> other \<noteq> item \<longrightarrow> ch_get removed val = Some other))"
proof -
  obtain a where a: "ch_add ch item = Some a" "ring_ok (ch_ring a)" "map_of (ch_ring a) = (\<lambda>p. if p \<in> points ch item then Some item else map_of (ch_ring ch) p)"
    using ch_add_map [OF ok] by blast
  obtain b where b: "ch_remove ch item = Some b" "ring_ok (ch_ring b)" "map_of (ch_ring b) = (\<lambda>p. if p \<in> points ch item then None else map_of (ch_ring ch) p)"
    using ch_remove_map [OF ok] by blast
  have added: "ch_get a val = Some item \<or> ch_get a val = ch_get ch val" for val
  proof -
    have "hash_of (le32 item @ le32 (of_nat 0)) \<in> points ch item" using assms(2) unfolding points_def by (intro imageI) (simp add: word_less_nat_alt)
    then have "map_of (ch_ring a) \<noteq> Map.empty" using a(3) by (auto simp: fun_eq_iff)
    then obtain p v where p: "nearest (map_of (ch_ring a)) val p" "map_of (ch_ring a) p = Some v" "ch_get a val = Some v"
      using ring_lookup_nearest [OF a(2), of val] by (auto simp: ch_get_def)
    show ?thesis
    proof (cases "p \<in> points ch item")
      case False
      then have "nearest (map_of (ch_ring ch)) val p" using p(1,2) a(3) by (auto simp: nearest_def split: if_splits)
      then show ?thesis using ring_lookup_iff [OF ok, of val v] p(2,3) False a(3) by (auto simp: ch_get_def)
    qed (use p a(3) in auto)
  qed
  have "ch_get b val = Some other" if free: "\<forall>p. p \<in> points ch item \<longrightarrow> map_of (ch_ring ch) p \<in> {None, Some item}" and o: "ch_get ch val = Some other" "other \<noteq> item" for val other
  proof -
    obtain p where p: "nearest (map_of (ch_ring ch)) val p" "map_of (ch_ring ch) p = Some other" using o(1) ring_lookup_iff [OF ok] by (auto simp: ch_get_def)
    then have "p \<notin> points ch item" using free o(2) by fastforce
    then have "map_of (ch_ring b) p = Some other" using p b(3) by simp
    moreover have "map_of (ch_ring b) \<subseteq>\<^sub>m map_of (ch_ring ch)" using b(3) by (auto simp: map_le_def)
    ultimately show ?thesis using nearest_sub [OF p(1)] ring_lookup_iff [OF b(2), of val other] by (auto simp: ch_get_def)
  qed
  then show ?thesis using a b added by blast
qed

text \<open>A ring with the single item 3 at point 5; item 7 has another point.\<close>

lemma sample_point: "hash_of (le32 7 @ le32 0) \<noteq> 5"
  by code_simp

theorem consistent_hash_locality_witness:
  "\<exists>added removed. ch_add \<lparr>ch_ring = [(5, 3)], ch_replicas = 1\<rparr> 7 = Some added \<and> ch_remove \<lparr>ch_ring = [(5, 3)], ch_replicas = 1\<rparr> 7 = Some removed
    \<and> (\<forall>val. ch_get added val = Some 7 \<or> ch_get added val = Some 3) \<and> (\<forall>val. ch_get removed val = Some 3)"
proof -
  let ?ch = "\<lparr>ch_ring = [(5, 3)], ch_replicas = 1\<rparr>"
  have get: "ch_get ?ch val = Some 3" for val by (simp add: ch_get_def ring_lookup_def)
  have "\<forall>p. p \<in> points ?ch 7 \<longrightarrow> map_of (ch_ring ?ch) p \<in> {None, Some 7}" using sample_point by (auto simp: points_def)
  then show ?thesis using consistent_hash_locality [of ?ch 7] get by (auto simp: ring_ok_def)
qed

end
