(* ===== verification/StateTransit.thy ===== *)
theory StateTransit
  imports ProtocolBase Loops
begin

text \<open>
  The server states of \<^verbatim>\<open>common/state_transit/state_transit_state.hh\<close>, socket addresses (\<^verbatim>\<open>common/ds/sockaddr_in.cc\<close>), and the part of
  \<^verbatim>\<open>StateTransitHandler\<close> that coordinator, clients and servers share: the message that carries the states of a list of servers, and its records.
  Delivery of messages is the business of the Spread toolkit, which is not in the repository.
\<close>

section \<open>States and addresses\<close>

text \<open>The last constructor stands for the values of the C++ enumeration type that have no name: a state is read from the network as a byte.\<close>

datatype RemapState = STATE_UNDEFINED | STATE_NORMAL | STATE_INTERMEDIATE | STATE_COORDINATED | STATE_DEGRADED
  | STATE_WAIT_DEGRADED | STATE_WAIT_NORMAL | STATE_UNKNOWN byte

definition state_of_byte :: "byte \<Rightarrow> RemapState" where
  "state_of_byte b =
     (if b = 0 then STATE_UNDEFINED else if b = 1 then STATE_NORMAL else if b = 2 then STATE_INTERMEDIATE else if b = 3 then STATE_COORDINATED
      else if b = 4 then STATE_DEGRADED else if b = 5 then STATE_WAIT_DEGRADED else if b = 6 then STATE_WAIT_NORMAL else STATE_UNKNOWN b)"

fun byte_of_state :: "RemapState \<Rightarrow> byte" where
  "byte_of_state STATE_UNDEFINED = 0"
| "byte_of_state STATE_NORMAL = 1"
| "byte_of_state STATE_INTERMEDIATE = 2"
| "byte_of_state STATE_COORDINATED = 3"
| "byte_of_state STATE_DEGRADED = 4"
| "byte_of_state STATE_WAIT_DEGRADED = 5"
| "byte_of_state STATE_WAIT_NORMAL = 6"
| "byte_of_state (STATE_UNKNOWN b) = b"

definition named :: "RemapState \<Rightarrow> bool" where
  "named st \<longleftrightarrow> (case st of STATE_UNKNOWN _ \<Rightarrow> False | _ \<Rightarrow> True)"

text \<open>\<^verbatim>\<open>printServerState\<close> reports whether the state has a name.\<close>

definition printServerState :: "RemapState \<Rightarrow> bool" where
  "printServerState st = named st"

lemma state_of_byte_of_state [simp]: "named st \<Longrightarrow> state_of_byte (byte_of_state st) = st"
  by (cases st) (simp_all add: state_of_byte_def named_def)

lemma byte_of_state_of_byte [simp]: "byte_of_state (state_of_byte b) = b"
  by (simp add: state_of_byte_def)

datatype sockaddr_in = Sockaddr (sin_addr: u32) (sin_port: u16)

text \<open>The order of addresses in the ordered containers: larger addresses and ports come first.\<close>

definition addr_less :: "sockaddr_in \<Rightarrow> sockaddr_in \<Rightarrow> bool" where
  "addr_less lhs rhs \<longleftrightarrow> sin_addr lhs > sin_addr rhs \<or> sin_addr lhs = sin_addr rhs \<and> sin_port lhs > sin_port rhs"

instantiation sockaddr_in :: linorder
begin

definition less_sockaddr_in :: "sockaddr_in \<Rightarrow> sockaddr_in \<Rightarrow> bool" where
  "less_sockaddr_in = addr_less"

definition less_eq_sockaddr_in :: "sockaddr_in \<Rightarrow> sockaddr_in \<Rightarrow> bool" where
  "less_eq_sockaddr_in lhs rhs \<longleftrightarrow> lhs = rhs \<or> lhs < rhs"

instance
  by intro_classes (auto simp: less_sockaddr_in_def addr_less_def less_eq_sockaddr_in_def intro: sockaddr_in.expand)

end

section \<open>The table of states\<close>

type_synonym states = "sockaddr_in \<rightharpoonup> RemapState"

text \<open>\<^verbatim>\<open>serversState[ server ]\<close>: reading a missing entry inserts \<open>STATE_UNDEFINED\<close>.\<close>

definition read_state :: "states \<Rightarrow> sockaddr_in \<Rightarrow> RemapState \<times> states" where
  "read_state m s = (case m s of Some st \<Rightarrow> (st, m) | None \<Rightarrow> (STATE_UNDEFINED, m(s \<mapsto> STATE_UNDEFINED)))"

definition getState :: "states \<Rightarrow> sockaddr_in \<Rightarrow> RemapState" where
  "getState m s = (case m s of Some st \<Rightarrow> st | None \<Rightarrow> STATE_UNDEFINED)"

definition isRemapStarted :: "states \<Rightarrow> sockaddr_in \<Rightarrow> bool" where
  "isRemapStarted m s = (case m s of None \<Rightarrow> False
     | Some STATE_INTERMEDIATE \<Rightarrow> True | Some STATE_COORDINATED \<Rightarrow> True | Some STATE_DEGRADED \<Rightarrow> True | Some _ \<Rightarrow> False)"

definition isRemapStopped :: "states \<Rightarrow> sockaddr_in \<Rightarrow> bool" where
  "isRemapStopped m s = (case m s of None \<Rightarrow> False | Some STATE_NORMAL \<Rightarrow> True | Some STATE_UNDEFINED \<Rightarrow> True | Some _ \<Rightarrow> False)"

lemma read_state_getState [simp]: "fst (read_state m s) = getState m s" "getState (snd (read_state m s)) = getState m"
  by (auto simp: read_state_def getState_def fun_eq_iff split: option.splits)

section \<open>The state message\<close>

definition MAX_MESSLEN :: nat where "MAX_MESSLEN = 4096"
definition serverStateRecordSize :: nat where "serverStateRecordSize = 7"

definition put_record :: "memory \<Rightarrow> nat \<Rightarrow> sockaddr_in \<Rightarrow> RemapState \<Rightarrow> memory option" where
  "put_record buf len s st =
     do { buf \<leftarrow> poke buf len (le32 (sin_addr s));
          buf \<leftarrow> poke buf (len + 4) (le32 (ucast (sin_port s)));
          poke buf (len + 4 + 2) (le32 (ucast (byte_of_state st))) }"

text \<open>\<open>buf\<close> is the uninitialised array on the stack; the result is the message handed to Spread and the table of states.\<close>

definition sendState :: "states \<Rightarrow> sockaddr_in list \<Rightarrow> memory \<Rightarrow> (byte list \<times> states) option" where
  "sendState m servers buf =
     do { buf \<leftarrow> poke buf 0 [of_nat (length servers)];
          (buf, len, m) \<leftarrow> foldM (\<lambda>s (buf, len, m).
             do { let (st, m) = read_state m s; buf \<leftarrow> put_record buf len s st; Some (buf, len + serverStateRecordSize, m) }) servers (buf, 1, m);
          Some (take len buf, m) }"

text \<open>
  How the receivers read record \<open>i\<close> of a message.  \<open>msg\<close> is the receive buffer; the length of the message is not looked at.
\<close>

definition read_record :: "memory \<Rightarrow> nat \<Rightarrow> (sockaddr_in \<times> byte) option" where
  "read_record msg ofs =
     do { (addr, _) \<leftarrow> read4Bytes (drop ofs msg) False;
          (port, _) \<leftarrow> read2Bytes (drop (ofs + 4) msg) False;
          st \<leftarrow> load_byte msg (ofs + 6);
          Some (Sockaddr addr port, st) }"

definition serverCount :: "memory \<Rightarrow> nat option" where
  "serverCount msg = map_option unat (load_byte msg 0)"

definition message_records :: "memory \<Rightarrow> (sockaddr_in \<times> byte) list option" where
  "message_records msg =
     do { n \<leftarrow> serverCount msg;
          foldM (\<lambda>i rs. do { r \<leftarrow> read_record msg (1 + i * serverStateRecordSize); Some (rs @ [r]) }) [0..<n] [] }"

section \<open>Exchange of a message\<close>

definition record_bytes :: "sockaddr_in \<Rightarrow> RemapState \<Rightarrow> byte list" where
  "record_bytes s st = le32 (sin_addr s) @ le16 (sin_port s) @ [byte_of_state st]"

lemma length_record_bytes [simp]: "length (record_bytes s st) = 7"
  by (simp add: record_bytes_def le16_def)

lemma bit_beyond: "LENGTH('a) \<le> n \<Longrightarrow> \<not> bit (w :: 'a::len word) n"
  by (meson bit_imp_le_length leD)

lemma take_drop_eq: "take n xs = ys \<Longrightarrow> xs = ys @ drop n xs"
  by auto

lemma drop_three: "drop (3 + n) (a # b # c # xs) = drop n xs"
  by (simp add: numeral_3_eq_3)

lemma le32_ucast16: "le32 (ucast (p :: u16)) = le16 p @ [0, 0]"
  by (auto simp: le32_def le16_def intro!: bit_word_eqI simp: bit_simps bit_beyond)

lemma le32_ucast8: "le32 (ucast (b :: byte)) = [b, 0, 0, 0]"
  by (auto simp: le32_def intro!: bit_word_eqI simp: bit_simps bit_beyond)

lemma put_record_bytes:
  "put_record buf len s st = (if len + 10 \<le> length buf then Some (take len buf @ record_bytes s st @ [0, 0, 0] @ drop (len + 10) buf) else None)"
proof (cases "len + 10 \<le> length buf")
  case True
  let ?a = "take len buf @ le32 (sin_addr s) @ drop (len + 4) buf"
  have a: "poke buf len (le32 (sin_addr s)) = Some ?a" using True by (simp add: poke_def)
  let ?b = "take len buf @ le32 (sin_addr s) @ le16 (sin_port s) @ [0, 0] @ drop (len + 8) buf"
  have b: "poke ?a (len + 4) (le32 (ucast (sin_port s))) = Some ?b" using True by (simp add: poke_def le32_ucast16 le16_def add.commute)
  have "poke ?b (len + 4 + 2) (le32 (ucast (byte_of_state st)))
      = Some (take len buf @ le32 (sin_addr s) @ le16 (sin_port s) @ [byte_of_state st, 0, 0, 0] @ drop (len + 10) buf)"
    using True by (simp add: poke_def le32_ucast8 le16_def add.commute [of len])
  then show ?thesis using a b True by (simp add: put_record_def record_bytes_def)
next
  case False
  then show ?thesis by (auto simp: put_record_def poke_def split: Option.bind_splits if_splits)
qed

definition state_message :: "states \<Rightarrow> sockaddr_in list \<Rightarrow> byte list" where
  "state_message m servers = of_nat (length servers) # concat (map (\<lambda>s. record_bytes s (getState m s)) servers)"

definition read_states :: "states \<Rightarrow> sockaddr_in list \<Rightarrow> states" where
  "read_states m servers = foldl (\<lambda>m s. snd (read_state m s)) m servers"

lemma read_states_getState [simp]: "getState (read_states m servers) = getState m"
  by (induction servers arbitrary: m) (simp_all add: read_states_def)

lemma send_loop:
  "take len buf = pre \<Longrightarrow> len = length pre \<Longrightarrow> len \<le> length buf \<Longrightarrow>
   foldM (\<lambda>s (buf, len, m). do { let (st, m) = read_state m s; buf \<leftarrow> put_record buf len s st; Some (buf, len + serverStateRecordSize, m) }) servers (buf, len, m)
     = (if servers = [] \<or> len + 7 * length servers + 3 \<le> length buf
        then let out = pre @ concat (map (\<lambda>s. record_bytes s (getState m s)) servers)
             in Some (out @ (if servers = [] then drop len buf else [0, 0, 0] @ drop (length out + 3) buf), length out, read_states m servers)
        else None)"
proof (induction servers arbitrary: buf len pre m)
  case (Cons s servers)
  show ?case
  proof (cases "len + 10 \<le> length buf")
    case True
    obtain st m1 where r: "read_state m s = (st, m1)" by (cases "read_state m s")
    then have g: "st = getState m s" "getState m1 = getState m" using read_state_getState [of m s] by simp_all
    let ?st = "getState m s"
    let ?buf = "pre @ record_bytes s ?st @ [0, 0, 0] @ drop (len + 10) buf" and ?pre = "pre @ record_bytes s ?st"
    have p: "put_record buf len s ?st = Some ?buf" using True Cons.prems(1) by (simp add: put_record_bytes)
    have "take (len + 7) ?buf = ?pre" "len + 7 = length ?pre" "len + 7 \<le> length ?buf" "length ?buf = length buf" using Cons.prems True by simp_all
    note IH = Cons.IH [OF this(1-3), of m1, unfolded this(4)]
    have len: "length (concat (map (\<lambda>s. record_bytes s (getState m s)) xs)) = 7 * length xs" for xs by (induction xs) simp_all
    show ?thesis using p IH Cons.prems(2) True
      by (auto simp: r g drop_three add_ac Let_def serverStateRecordSize_def read_states_def len split: if_splits)
  next
    case False
    then show ?thesis by (simp add: put_record_bytes split_beta Let_def)
  qed
qed (auto simp: Let_def read_states_def intro: take_drop_eq)

lemma length_records [simp]: "length (concat (map (\<lambda>s. record_bytes s (f s)) xs)) = 7 * length xs"
  by (induction xs) simp_all

lemma sendState_message:
  assumes "length buf = MAX_MESSLEN"
  shows "sendState m servers buf = (if length servers \<le> 584 then Some (state_message m servers, read_states m servers) else None)"
proof -
  let ?buf = "of_nat (length servers) # drop 1 buf"
  have b: "poke buf 0 [of_nat (length servers)] = Some ?buf" "take 1 ?buf = [of_nat (length servers)]" "length ?buf = 4096" "?buf \<noteq> []"
    using assms by (simp_all add: poke_def MAX_MESSLEN_def)
  note loop = send_loop [OF b(2), of servers m]
  show ?thesis
    using b(1,3) loop by (cases "servers = []") (auto simp: sendState_def Let_def state_message_def read_states_def)
qed

lemma read_record_bytes: "length pre = ofs \<Longrightarrow> read_record (pre @ record_bytes s st @ post) ofs = Some (s, byte_of_state st)"
proof -
  assume pre: "length pre = ofs"
  have "read4Bytes (drop ofs (pre @ record_bytes s st @ post)) False = Some (sin_addr s, le16 (sin_port s) @ byte_of_state st # post)"
    using pre by (simp add: record_bytes_def le32_def)
  moreover have "read2Bytes (drop (ofs + 4) (pre @ record_bytes s st @ post)) False = Some (sin_port s, byte_of_state st # post)"
    using pre by (simp add: record_bytes_def le16_def)
  moreover have "load_byte (pre @ record_bytes s st @ post) (ofs + 6) = Some (byte_of_state st)"
    using pre by (simp add: load_byte_def record_bytes_def nth_append le16_def)
  ultimately show ?thesis by (simp add: read_record_def)
qed

lemma read_records:
  "length pre = 1 + 7 * n \<Longrightarrow> foldM (\<lambda>i rs. do { r \<leftarrow> read_record (pre @ concat (map (\<lambda>s. record_bytes s (f s)) xs) @ post) (1 + i * 7); Some (rs @ [r]) }) [n..<n + length xs] rs
    = Some (rs @ map (\<lambda>s. (s, byte_of_state (f s))) xs)"
proof (induction xs arbitrary: pre n rs)
  case (Cons x xs)
  have "[n..<n + length (x # xs)] = n # [Suc n..<Suc n + length xs]" using upt_conv_Cons [of n "n + length (x # xs)"] by simp
  moreover have "read_record (pre @ concat (map (\<lambda>s. record_bytes s (f s)) (x # xs)) @ post) (1 + n * 7) = Some (x, byte_of_state (f x))"
    using read_record_bytes [of pre "1 + n * 7" x "f x"] Cons.prems by simp
  moreover have "length (pre @ record_bytes x (f x)) = 1 + 7 * Suc n" using Cons.prems by simp
  note Cons.IH [OF this, of "rs @ [(x, byte_of_state (f x))]"]
  ultimately show ?case by simp
qed simp

lemma message_records_message:
  "message_records (state_message m servers @ stale) = Some (map (\<lambda>s. (s, byte_of_state (getState m s))) (take (length servers mod 256) servers))"
proof -
  let ?k = "length servers mod 256"
  have "concat (map (\<lambda>s. record_bytes s (getState m s)) servers)
      = concat (map (\<lambda>s. record_bytes s (getState m s)) (take ?k servers)) @ concat (map (\<lambda>s. record_bytes s (getState m s)) (drop ?k servers))"
    by (simp flip: concat_append map_append)
  moreover have "unat (of_nat (length servers) :: byte) = ?k" by (simp add: unat_of_nat take_bit_eq_mod)
  moreover have "length (take ?k servers) = ?k" by simp
  ultimately show ?thesis
    using read_records [of "[of_nat (length servers)]" 0 "getState m" "take ?k servers" "concat (map (\<lambda>s. record_bytes s (getState m s)) (drop ?k servers)) @ stale" "[]"]
    by (simp add: message_records_def serverCount_def state_message_def load_byte_def serverStateRecordSize_def)
qed

text \<open>
  C34. The message that carries server states: \<open>sendState\<close> stays inside its buffer exactly for at most 584 servers, and the receivers decode the address and the state of every server
  in order, whatever the bytes behind the message; but the count is one byte, so that of 256 or more servers only the first \<open>n mod 256\<close> arrive.
\<close>

theorem state_message_exchange:
  assumes "length buf = MAX_MESSLEN"
  shows "if length servers \<le> 584
    then \<exists>msg. sendState m servers buf = Some (msg, read_states m servers) \<and> length msg = 1 + 7 * length servers
      \<and> (\<forall>stale. message_records (msg @ stale) = Some (map (\<lambda>s. (s, byte_of_state (getState m s))) (take (length servers mod 256) servers)))
    else sendState m servers buf = None"
  using sendState_message [OF assms, of m servers] message_records_message [of m servers] by (simp add: state_message_def)

theorem state_message_exchange_witness:
  "\<exists>msg. sendState [Sockaddr 1 80 \<mapsto> STATE_DEGRADED] [Sockaddr 1 80, Sockaddr 2 81] (replicate 4096 0) = Some (msg, read_states [Sockaddr 1 80 \<mapsto> STATE_DEGRADED] [Sockaddr 1 80, Sockaddr 2 81])
    \<and> length msg = 15 \<and> (\<forall>stale. message_records (msg @ stale) = Some [(Sockaddr 1 80, 4), (Sockaddr 2 81, 0)])"
  using state_message_exchange [of "replicate 4096 0" "[Sockaddr 1 80, Sockaddr 2 81]" "[Sockaddr 1 80 \<mapsto> STATE_DEGRADED]"]
  by (simp add: MAX_MESSLEN_def getState_def)

end
