(* ===== verification/CoordTransit.thy ===== *)
theory CoordTransit
  imports StateTransit
begin

text \<open>
  The coordinator's side of state transitions: \<^verbatim>\<open>coordinator/state_transit/state_transit_handler.cc\<close> and the table of pending transitions of
  \<^verbatim>\<open>coordinator/ds/pending.hh\<close>.  An operation that holds a lock throughout is one function on the state; \<open>None\<close> means that the
  call does not return, because it throws or blocks for ever. \<^verbatim>\<open>addAliveServer\<close>, \<^verbatim>\<open>removeAliveServer\<close> and \<^verbatim>\<open>removeAliveClient\<close> take the lock of the
  acknowledgements only after they have released the locks of their first changes: they are two functions each, and other threads may run in between.  \<open>broadcast\<close> is what the sender of the group communication toolkit returns; messages are kept in the order they are sent.
\<close>

section \<open>State\<close>

text \<open>
  The last three fields are the calls that are between their two halves: servers that are being added or removed, clients that are being removed.
\<close>

record CoordTransit =
  ct_states :: states
  ct_aliveClients :: "string set"
  ct_ackClients :: "sockaddr_in \<rightharpoonup> string set"
  ct_aliveServers :: "sockaddr_in set"
  ct_crashedServers :: "sockaddr_in set"
  ct_failedServers :: "sockaddr_in set"
  ct_updatedServers :: "sockaddr_in list"
  ct_ackLocked :: bool
  ct_running :: bool
  ct_queue :: "(bool \<times> sockaddr_in) list"
  ct_intermediate :: "u16 \<rightharpoonup> u32"
  ct_coordinated :: "u16 \<rightharpoonup> u32"
  ct_sent :: "byte list list"
  ct_joining :: "sockaddr_in set"
  ct_leaving :: "sockaddr_in set"
  ct_departing :: "string set"

definition ct_new :: CoordTransit where
  "ct_new = \<lparr>ct_states = Map.empty, ct_aliveClients = {}, ct_ackClients = Map.empty, ct_aliveServers = {}, ct_crashedServers = {}, ct_failedServers = {},
     ct_updatedServers = [], ct_ackLocked = False, ct_running = False, ct_queue = [], ct_intermediate = Map.empty, ct_coordinated = Map.empty, ct_sent = [],
     ct_joining = {}, ct_leaving = {}, ct_departing = {}\<rparr>"

section \<open>Pending transitions\<close>

text \<open>The number of clients whose metadata backup is outstanding, by server instance; \<open>True\<close> selects the table of transitions to degraded state.\<close>

definition pending_table :: "bool \<Rightarrow> CoordTransit \<Rightarrow> u16 \<rightharpoonup> u32" where
  "pending_table isDegraded ct = (if isDegraded then ct_intermediate ct else ct_coordinated ct)"

definition set_pending_table :: "bool \<Rightarrow> (u16 \<rightharpoonup> u32) \<Rightarrow> CoordTransit \<Rightarrow> CoordTransit" where
  "set_pending_table isDegraded m ct = (if isDegraded then ct\<lparr>ct_intermediate := m\<rparr> else ct\<lparr>ct_coordinated := m\<rparr>)"

definition addPendingTransition :: "CoordTransit \<Rightarrow> u16 \<Rightarrow> bool \<Rightarrow> u32 \<Rightarrow> bool \<times> CoordTransit" where
  "addPendingTransition ct instanceId isDegraded pending =
     (if pending_table isDegraded ct instanceId = None
      then (True, set_pending_table isDegraded ((pending_table isDegraded ct)(instanceId \<mapsto> pending)) ct) else (False, ct))"

definition findPendingTransition :: "CoordTransit \<Rightarrow> u16 \<Rightarrow> bool \<Rightarrow> u32 option" where
  "findPendingTransition ct instanceId isDegraded = pending_table isDegraded ct instanceId"

definition erasePendingTransition :: "CoordTransit \<Rightarrow> u16 \<Rightarrow> bool \<Rightarrow> bool \<times> CoordTransit" where
  "erasePendingTransition ct instanceId isDegraded =
     (pending_table isDegraded ct instanceId \<noteq> None, set_pending_table isDegraded ((pending_table isDegraded ct)(instanceId := None)) ct)"

text \<open>The end of \<^verbatim>\<open>handleSyncMetadata\<close>: the last packet of a client's backup for a server.\<close>

definition sync_done :: "CoordTransit \<Rightarrow> u16 \<Rightarrow> CoordTransit" where
  "sync_done ct instanceId =
     (case findPendingTransition ct instanceId True of None \<Rightarrow> ct
      | Some pending \<Rightarrow> set_pending_table True ((pending_table True ct)(instanceId \<mapsto> pending - 1)) ct)"

section \<open>Clients and servers come and go\<close>

definition addAliveClient :: "CoordTransit \<Rightarrow> string \<Rightarrow> CoordTransit" where
  "addAliveClient ct name = ct\<lparr>ct_aliveClients := insert name (ct_aliveClients ct)\<rparr>"

definition removeAliveClient :: "CoordTransit \<Rightarrow> string \<Rightarrow> CoordTransit" where
  "removeAliveClient ct name = ct\<lparr>ct_aliveClients := ct_aliveClients ct - {name}, ct_departing := insert name (ct_departing ct)\<rparr>"

definition removeAliveClient_acks :: "CoordTransit \<Rightarrow> string \<Rightarrow> CoordTransit option" where
  "removeAliveClient_acks ct name =
     (if ct_ackLocked ct then None
      else Some (ct\<lparr>ct_ackClients := (\<lambda>s. map_option (\<lambda>acked. acked - {name}) (ct_ackClients ct s)), ct_departing := ct_departing ct - {name}\<rparr>))"

text \<open>The set of alive servers and the first state of the server have locks of their own; they are changed in one step.\<close>

definition addAliveServer :: "CoordTransit \<Rightarrow> sockaddr_in \<Rightarrow> bool \<times> CoordTransit" where
  "addAliveServer ct server =
     (if server \<in> ct_aliveServers ct then (False, ct)
      else (True, ct\<lparr>ct_aliveServers := insert server (ct_aliveServers ct), ct_states := (ct_states ct)(server \<mapsto> STATE_NORMAL),
                     ct_joining := insert server (ct_joining ct)\<rparr>))"

definition addAliveServer_acks :: "CoordTransit \<Rightarrow> sockaddr_in \<Rightarrow> CoordTransit option" where
  "addAliveServer_acks ct server =
     (if ct_ackLocked ct then None
      else Some (ct\<lparr>ct_ackClients := (ct_ackClients ct)(server \<mapsto> {}), ct_joining := ct_joining ct - {server}\<rparr>))"

definition removeAliveServer :: "CoordTransit \<Rightarrow> sockaddr_in \<Rightarrow> bool \<times> CoordTransit" where
  "removeAliveServer ct server =
     (if server \<notin> ct_aliveServers ct then (False, ct)
      else (True, ct\<lparr>ct_aliveServers := ct_aliveServers ct - {server}, ct_crashedServers := ct_crashedServers ct - {server},
                     ct_states := (ct_states ct)(server := None), ct_leaving := insert server (ct_leaving ct)\<rparr>))"

definition removeAliveServer_acks :: "CoordTransit \<Rightarrow> sockaddr_in \<Rightarrow> CoordTransit option" where
  "removeAliveServer_acks ct server =
     (if ct_ackLocked ct then None
      else Some (ct\<lparr>ct_ackClients := (ct_ackClients ct)(server := None), ct_leaving := ct_leaving ct - {server}\<rparr>))"

definition addCrashedServer :: "CoordTransit \<Rightarrow> sockaddr_in \<Rightarrow> bool \<times> CoordTransit" where
  "addCrashedServer ct server =
     (if server \<in> ct_crashedServers ct then (False, ct) else (True, ct\<lparr>ct_crashedServers := insert server (ct_crashedServers ct)\<rparr>))"

definition getFailedServerCount :: "CoordTransit \<Rightarrow> nat" where
  "getFailedServerCount ct = card (ct_failedServers ct)"

definition addFailedServer :: "CoordTransit \<Rightarrow> sockaddr_in \<Rightarrow> nat \<times> CoordTransit" where
  "addFailedServer ct server = (let ct = ct\<lparr>ct_failedServers := insert server (ct_failedServers ct)\<rparr> in (getFailedServerCount ct, ct))"

definition removeFailedServer :: "CoordTransit \<Rightarrow> sockaddr_in \<Rightarrow> nat \<times> CoordTransit" where
  "removeFailedServer ct server =
     (let ct = (if server \<in> ct_failedServers ct
        then ct\<lparr>ct_failedServers := ct_failedServers ct - {server}, ct_updatedServers := ct_updatedServers ct @ [server]\<rparr> else ct) in
      (getFailedServerCount ct, ct))"

definition eraseUpdatedServers :: "CoordTransit \<Rightarrow> sockaddr_in list \<times> CoordTransit" where
  "eraseUpdatedServers ct = (ct_updatedServers ct, ct\<lparr>ct_updatedServers := []\<rparr>)"

section \<open>Acknowledgements\<close>

text \<open>The branch for an unknown server releases the lock on the clients instead of the lock it holds.\<close>

definition resetClientAck :: "CoordTransit \<Rightarrow> sockaddr_in \<Rightarrow> (bool \<times> CoordTransit) option" where
  "resetClientAck ct server =
     (if ct_ackLocked ct then None
      else case ct_ackClients ct server of
        None \<Rightarrow> Some (False, ct\<lparr>ct_ackLocked := True\<rparr>)
      | Some _ \<Rightarrow> Some (True, ct\<lparr>ct_ackClients := (ct_ackClients ct)(server \<mapsto> {})\<rparr>))"

text \<open>The second component tells whether the threads that wait for this server are woken.\<close>

definition isAllClientAcked :: "CoordTransit \<Rightarrow> sockaddr_in \<Rightarrow> (bool \<times> bool) option" where
  "isAllClientAcked ct server =
     (if ct_ackLocked ct then None
      else case ct_ackClients ct server of
        None \<Rightarrow> Some (True, False)
      | Some acked \<Rightarrow> let all = (card (ct_aliveClients ct) = card acked) in Some (all, all))"

definition from_client :: "string \<Rightarrow> bool" where
  "from_client name \<longleftrightarrow> take 6 (drop 1 name) = ''client''"

definition expects_ack :: "CoordTransit \<Rightarrow> sockaddr_in \<Rightarrow> RemapState \<Rightarrow> bool" where
  "expects_ack ct server state \<longleftrightarrow>
     ct_states ct server = Some STATE_INTERMEDIATE \<and> state = STATE_WAIT_DEGRADED \<or> ct_states ct server = Some STATE_COORDINATED \<and> state = STATE_WAIT_NORMAL"

text \<open>One record of a client's message; the list of servers whose waiting threads are woken grows.\<close>

definition ack_record :: "string \<Rightarrow> sockaddr_in \<times> byte \<Rightarrow> CoordTransit \<times> sockaddr_in list \<Rightarrow> (CoordTransit \<times> sockaddr_in list) option" where
  "ack_record subject = (\<lambda>(server, b) (ct, woken).
     if \<not> expects_ack ct server (state_of_byte b) then Some (ct, woken)
     else let ct = (case ct_ackClients ct server of
              Some acked \<Rightarrow> if subject \<in> ct_aliveClients ct then ct\<lparr>ct_ackClients := (ct_ackClients ct)(server \<mapsto> insert subject acked)\<rparr> else ct
            | None \<Rightarrow> ct) in
       do { (_, wake) \<leftarrow> isAllClientAcked ct server; Some (ct, if wake then woken @ [server] else woken) })"

definition updateState :: "CoordTransit \<Rightarrow> string \<Rightarrow> memory \<Rightarrow> (bool \<times> CoordTransit \<times> sockaddr_in list) option" where
  "updateState ct subject msg =
     (if \<not> from_client subject then Some (False, ct, [])
      else if ct_ackLocked ct then None
      else do { records \<leftarrow> message_records msg; (ct, woken) \<leftarrow> foldM (ack_record subject) records (ct, []); Some (True, ct, woken) })"

section \<open>Messages to clients and servers\<close>

text \<open>
  \<open>buf\<close> is the array on the stack and \<open>ok\<close> whether Spread accepts the message; the result is the integer the code returns.
\<close>

definition broadcastState :: "CoordTransit \<Rightarrow> sockaddr_in list \<Rightarrow> memory \<Rightarrow> bool \<Rightarrow> (int \<times> CoordTransit) option" where
  "broadcastState ct servers buf ok =
     (if 255 < length servers \<or> MAX_MESSLEN < length servers * serverStateRecordSize + 1 then Some (0, ct)
      else do { (msg, m) \<leftarrow> sendState (ct_states ct) (if servers = [] then sorted_list_of_set (ct_aliveServers ct) else servers) buf;
                Some (if ok then 1 else 0, ct\<lparr>ct_states := m, ct_sent := ct_sent ct @ (if ok then [msg] else [])\<rparr>) })"

definition broadcast_one :: "CoordTransit \<Rightarrow> sockaddr_in \<Rightarrow> memory \<Rightarrow> bool \<Rightarrow> (int \<times> CoordTransit) option" where
  "broadcast_one ct server buf ok = broadcastState ct [server] buf ok"

section \<open>Starting a transition\<close>

fun start_servers :: "bool \<Rightarrow> sockaddr_in list \<Rightarrow> CoordTransit \<Rightarrow> (sockaddr_in list \<times> sockaddr_in list \<times> CoordTransit) option" where
  "start_servers start [] ct = Some ([], [], ct)"
| "start_servers start (server # servers) ct =
     (let (state, m) = read_state (ct_states ct) server; ct = ct\<lparr>ct_states := m\<rparr> in
      if state = STATE_UNDEFINED \<or> start \<and> state \<noteq> STATE_NORMAL \<or> \<not> start \<and> state \<noteq> STATE_DEGRADED
      then do { (allServers, checked, ct) \<leftarrow> start_servers start servers ct; Some (server # allServers, checked, ct) }
      else do { (_, ct) \<leftarrow> resetClientAck (ct\<lparr>ct_states := m(server \<mapsto> if start then STATE_INTERMEDIATE else STATE_COORDINATED)\<rparr>) server;
                (allServers, checked, ct) \<leftarrow> start_servers start servers ct;
                Some (allServers, server # checked, ct) })"

text \<open>The revert loop indexes the list of servers that were not started.\<close>

definition revert_one :: "bool \<Rightarrow> sockaddr_in list \<Rightarrow> nat \<Rightarrow> CoordTransit \<Rightarrow> CoordTransit option" where
  "revert_one start allServers i ct =
     do { server \<leftarrow> item_at allServers i;
          let (state, m) = read_state (ct_states ct) server;
          Some (ct\<lparr>ct_states := (if start \<and> state = STATE_INTERMEDIATE then m(server \<mapsto> STATE_NORMAL)
                               else if \<not> start \<and> state = STATE_COORDINATED then m(server \<mapsto> STATE_DEGRADED) else m)\<rparr>) }"

text \<open>
  A full queue delays the caller until a worker has taken an event, so the queue is not bounded here; when it does not run, the insertion fails.
\<close>

definition insertRepeatedEvents :: "CoordTransit \<Rightarrow> bool \<Rightarrow> sockaddr_in list \<Rightarrow> bool \<times> sockaddr_in list \<times> CoordTransit" where
  "insertRepeatedEvents ct start servers =
     (if ct_running ct then (True, [], ct\<lparr>ct_queue := ct_queue ct @ map (\<lambda>server. (start, server)) servers\<rparr>)
      else if servers = [] then (True, [], ct) else (False, servers, ct))"

text \<open>The loop that repeats the insertion until it succeeds: without a running queue it never ends.\<close>

partial_function (option) insert_until_done :: "CoordTransit \<Rightarrow> bool \<Rightarrow> sockaddr_in list \<Rightarrow> CoordTransit option" where
  "insert_until_done ct start servers =
     (case insertRepeatedEvents ct start servers of (ret, servers, ct) \<Rightarrow> if ret then Some ct else insert_until_done ct start servers)"

definition stateChangeInitHandler :: "CoordTransit \<Rightarrow> bool \<Rightarrow> sockaddr_in list \<Rightarrow> memory \<Rightarrow> bool \<Rightarrow> (sockaddr_in list \<times> CoordTransit) option" where
  "stateChangeInitHandler ct start allServers buf ok =
     do { (allServers, checked, ct) \<leftarrow> start_servers start allServers ct;
          (ret, ct) \<leftarrow> broadcastState ct checked buf ok;
          (allServers', ct) \<leftarrow> (if ret = 0
             then do { ct \<leftarrow> foldM (revert_one start allServers) [0..<length checked] ct; Some (allServers @ checked, ct) }
             else Some (allServers, ct));
          ct \<leftarrow> insert_until_done ct start checked;
          Some (allServers', ct) }"

definition transitToDegraded :: "CoordTransit \<Rightarrow> sockaddr_in list \<Rightarrow> memory \<Rightarrow> bool \<Rightarrow> CoordTransit option" where
  "transitToDegraded ct servers buf ok = map_option snd (stateChangeInitHandler ct True servers buf ok)"

definition transitToNormal :: "CoordTransit \<Rightarrow> sockaddr_in list \<Rightarrow> memory \<Rightarrow> bool \<Rightarrow> CoordTransit option" where
  "transitToNormal ct servers buf ok =
     map_option snd (stateChangeInitHandler ct False (filter (\<lambda>server. server \<notin> ct_crashedServers ct) servers) buf ok)"

section \<open>Queries\<close>

definition isInTransition :: "CoordTransit \<Rightarrow> sockaddr_in \<Rightarrow> bool \<times> CoordTransit" where
  "isInTransition ct server = (let (st, m) = read_state (ct_states ct) server in (st = STATE_INTERMEDIATE \<or> st = STATE_COORDINATED, ct\<lparr>ct_states := m\<rparr>))"

definition allowRemapping :: "CoordTransit \<Rightarrow> sockaddr_in \<Rightarrow> bool \<times> CoordTransit" where
  "allowRemapping ct server = (let (st, m) = read_state (ct_states ct) server in (st = STATE_INTERMEDIATE \<or> st = STATE_DEGRADED, ct\<lparr>ct_states := m\<rparr>))"

text \<open>The count stops at the maximum; a maximum of zero is reached only when no server is alive or the first one is normal.\<close>

fun count_abnormal :: "u32 \<Rightarrow> sockaddr_in list \<Rightarrow> u32 \<Rightarrow> states \<Rightarrow> u32 \<times> states" where
  "count_abnormal maximum [] count m = (count, m)"
| "count_abnormal maximum (server # servers) count m =
     (let (st, m) = read_state m server; count = (if st \<noteq> STATE_NORMAL then count + 1 else count) in
      if count = maximum then (count, m) else count_abnormal maximum servers count m)"

definition reachMaximumRemapped :: "CoordTransit \<Rightarrow> u32 \<Rightarrow> bool \<times> CoordTransit" where
  "reachMaximumRemapped ct maximum =
     (let (count, m) = count_abnormal maximum (sorted_list_of_set (ct_aliveServers ct)) 0 (ct_states ct) in (count = maximum, ct\<lparr>ct_states := m\<rparr>))"

end
