(* ===== verification/CoordWorkers.thy ===== *)
theory CoordWorkers
  imports CoordTransit
begin

text \<open>
  The threads of the coordinator that carry out state transitions (\<^verbatim>\<open>coordinator/state_transit/state_transit_worker.cc\<close>), the reader of Spread messages and the handler of
  the switch-phase event (\<^verbatim>\<open>coordinator/worker/client_worker.cc\<close>), as a transition system.  A worker is its position in the code: it waits for metadata, checks the
  acknowledgements, is about to wait, waits for the signal, or has passed the wait.  Between two positions other threads run.  \<^verbatim>\<open>pthread_cond_wait\<close> may return without a
  signal, and the code does not test again: such a wakeup is a step of a waiting worker.
\<close>

section \<open>Configurations\<close>

datatype worker = Idle | AwaitMeta sockaddr_in | CheckAck bool sockaddr_in | ToWait bool sockaddr_in | Waiting bool sockaddr_in | Acked bool sockaddr_in

record Coordinator =
  co_ct :: CoordTransit
  co_workers :: "worker list"
  co_sockets :: "(sockaddr_in \<times> u16) list"
  co_numClients :: nat
  co_reconstructions :: "sockaddr_in list"

definition co_new :: "(sockaddr_in \<times> u16) list \<Rightarrow> nat \<Rightarrow> nat \<Rightarrow> Coordinator" where
  "co_new sockets numClients workers = \<lparr>co_ct = ct_new, co_workers = replicate workers Idle, co_sockets = sockets, co_numClients = numClients, co_reconstructions = []\<rparr>"

definition find_instance :: "Coordinator \<Rightarrow> sockaddr_in \<Rightarrow> u16 option" where
  "find_instance co server = map_option snd (find (\<lambda>(addr, _). addr = server) (co_sockets co))"

text \<open>\<^verbatim>\<open>pthread_cond_broadcast( &ackSignal[ server ] )\<close>.\<close>

fun wake_one :: "sockaddr_in \<Rightarrow> worker \<Rightarrow> worker" where
  "wake_one server (Waiting b s) = (if s = server then Acked b s else Waiting b s)"
| "wake_one server w = w"

definition wake :: "sockaddr_in list \<Rightarrow> Coordinator \<Rightarrow> Coordinator" where
  "wake servers co = co\<lparr>co_workers := map (\<lambda>w. foldl (\<lambda>w s. wake_one s w) w servers) (co_workers co)\<rparr>"

section \<open>Messages of the group communication\<close>

text \<open>One thread reads the messages, so the next one waits until \<^verbatim>\<open>removeAliveClient\<close> has ended.\<close>

datatype event = ClientJoin string | ClientLeft string | ServerJoin | ServerLeft | Regular string memory

definition readMessage :: "CoordTransit \<Rightarrow> event \<Rightarrow> memory \<Rightarrow> bool \<Rightarrow> (CoordTransit \<times> sockaddr_in list) option" where
  "readMessage ct ev buf ok =
     (case ev of
        ClientJoin subject \<Rightarrow> do { (_, ct) \<leftarrow> broadcastState (addAliveClient ct subject) [] buf ok; Some (ct, []) }
      | ClientLeft subject \<Rightarrow> Some (removeAliveClient ct subject, [])
      | ServerJoin \<Rightarrow> do { (_, ct) \<leftarrow> broadcastState ct [] buf ok; Some (ct, []) }
      | ServerLeft \<Rightarrow> Some (ct, [])
      | Regular sender msg \<Rightarrow> do { (_, ct, woken) \<leftarrow> updateState ct sender msg; Some (ct, woken) })"

section \<open>Switching the phase\<close>

definition prepare_degraded :: "Coordinator \<Rightarrow> bool \<Rightarrow> sockaddr_in \<Rightarrow> CoordTransit \<Rightarrow> CoordTransit" where
  "prepare_degraded co isCrashed server ct =
     (let instanceId = (case find_instance co server of None \<Rightarrow> 0 | Some i \<Rightarrow> i);
          ct = (if instanceId \<noteq> 0 then snd (addPendingTransition ct instanceId True (of_nat (co_numClients co))) else ct) in
      if isCrashed then snd (addCrashedServer ct server) else ct)"

definition switchPhase :: "Coordinator \<Rightarrow> bool \<Rightarrow> bool \<Rightarrow> sockaddr_in list \<Rightarrow> memory \<Rightarrow> bool \<Rightarrow> CoordTransit option" where
  "switchPhase co toRemap isCrashed servers buf ok =
     (if toRemap then transitToDegraded (foldl (\<lambda>ct s. prepare_degraded co isCrashed s ct) (co_ct co) servers) servers buf ok
      else transitToNormal (co_ct co) servers buf ok)"

section \<open>Workers\<close>

definition meta_done :: "Coordinator \<Rightarrow> sockaddr_in \<Rightarrow> bool" where
  "meta_done co server =
     (case find_instance co server of None \<Rightarrow> True
      | Some instanceId \<Rightarrow> (case findPendingTransition (co_ct co) instanceId True of None \<Rightarrow> True | Some pending \<Rightarrow> pending = 0))"

text \<open>The rest of \<open>transitToDegradedEnd\<close>, after the wait for metadata.\<close>

definition transitToDegradedEnd :: "Coordinator \<Rightarrow> sockaddr_in \<Rightarrow> Coordinator" where
  "transitToDegradedEnd co server =
     (let co = (case find_instance co server of None \<Rightarrow> co | Some instanceId \<Rightarrow> co\<lparr>co_ct := snd (erasePendingTransition (co_ct co) instanceId True)\<rparr>) in
      if server \<in> ct_crashedServers (co_ct co) then co\<lparr>co_reconstructions := co_reconstructions co @ [server]\<rparr> else co)"

definition transition_done :: "CoordTransit \<Rightarrow> sockaddr_in \<Rightarrow> RemapState \<Rightarrow> memory \<Rightarrow> bool \<Rightarrow> (bool \<times> CoordTransit) option" where
  "transition_done ct server st buf ok =
     (let (failed, ct) = removeFailedServer (ct\<lparr>ct_states := (ct_states ct)(server \<mapsto> st)\<rparr>) server in
      if failed > 0 then Some (True, ct)
      else let (servers, ct) = eraseUpdatedServers ct in
        do { (ret, ct) \<leftarrow> broadcastState ct servers buf ok; Some (\<not> ret < 0, ct) })"

definition worker_toDegraded :: "CoordTransit \<Rightarrow> sockaddr_in \<Rightarrow> memory \<Rightarrow> bool \<Rightarrow> (bool \<times> CoordTransit) option" where
  "worker_toDegraded ct server buf ok =
     (let (st, m) = read_state (ct_states ct) server; ct = ct\<lparr>ct_states := m\<rparr> in
      if st \<noteq> STATE_INTERMEDIATE then Some (False, ct) else transition_done ct server STATE_DEGRADED buf ok)"

text \<open>\<open>transitToNormalEnd\<close>, the backward migration of data, works on other parts of the coordinator and waits for the servers.\<close>

definition worker_toNormal :: "CoordTransit \<Rightarrow> sockaddr_in \<Rightarrow> memory \<Rightarrow> bool \<Rightarrow> (bool \<times> CoordTransit) option" where
  "worker_toNormal ct server buf ok =
     (let (st, m) = read_state (ct_states ct) server; ct = ct\<lparr>ct_states := m\<rparr> in
      if st \<noteq> STATE_COORDINATED then Some (False, ct) else transition_done ct server STATE_NORMAL buf ok)"

text \<open>What worker \<open>i\<close> does next.\<close>

definition set_worker :: "nat \<Rightarrow> worker \<Rightarrow> Coordinator \<Rightarrow> Coordinator" where
  "set_worker i w co = co\<lparr>co_workers := (co_workers co)[i := w]\<rparr>"

definition worker_step :: "Coordinator \<Rightarrow> nat \<Rightarrow> memory \<Rightarrow> bool \<Rightarrow> Coordinator option" where
  "worker_step co i buf ok =
     do { w \<leftarrow> item_at (co_workers co) i;
          case w of
            Idle \<Rightarrow> (case ct_queue (co_ct co) of
                [] \<Rightarrow> None
              | (start, server) # q \<Rightarrow> Some (set_worker i (if start then AwaitMeta server else CheckAck False server) (co\<lparr>co_ct := (co_ct co)\<lparr>ct_queue := q\<rparr>\<rparr>)))
          | AwaitMeta server \<Rightarrow> if meta_done co server then Some (set_worker i (CheckAck True server) (transitToDegradedEnd co server)) else None
          | CheckAck b server \<Rightarrow>
              do { (all, signal) \<leftarrow> isAllClientAcked (co_ct co) server;
                   Some (set_worker i (if all then Acked b server else ToWait b server) (if signal then wake [server] co else co)) }
          | ToWait b server \<Rightarrow> Some (set_worker i (Waiting b server) co)
          | Waiting b server \<Rightarrow> Some (set_worker i (Acked b server) co)
          | Acked b server \<Rightarrow>
              do { (_, ct) \<leftarrow> (if b then worker_toDegraded (co_ct co) server buf ok else worker_toNormal (co_ct co) server buf ok);
                   Some (set_worker i Idle (co\<lparr>co_ct := ct\<rparr>)) } }"

section \<open>The transition system\<close>

datatype action = Receive event | ClientGone string | AddServer sockaddr_in | ServerAdded sockaddr_in | RemoveServer sockaddr_in | ServerRemoved sockaddr_in | Switch bool bool "sockaddr_in list" | SyncDone u16 | StartQueue | Work nat

definition co_step :: "Coordinator \<Rightarrow> action \<Rightarrow> memory \<Rightarrow> bool \<Rightarrow> Coordinator option" where
  "co_step co a buf ok =
     (let ct = co_ct co in
      case a of
        Receive ev \<Rightarrow> if ct_departing ct \<noteq> {} then None else do { (ct, woken) \<leftarrow> readMessage ct ev buf ok; Some (wake woken (co\<lparr>co_ct := ct\<rparr>)) }
      | ClientGone name \<Rightarrow> if name \<notin> ct_departing ct then None else do { ct \<leftarrow> removeAliveClient_acks ct name; Some (co\<lparr>co_ct := ct\<rparr>) }
      | AddServer s \<Rightarrow> Some (co\<lparr>co_ct := snd (addAliveServer ct s)\<rparr>)
      | ServerAdded s \<Rightarrow> if s \<notin> ct_joining ct then None else do { ct \<leftarrow> addAliveServer_acks ct s; Some (co\<lparr>co_ct := ct\<rparr>) }
      | RemoveServer s \<Rightarrow> Some (co\<lparr>co_ct := snd (removeAliveServer ct s)\<rparr>)
      | ServerRemoved s \<Rightarrow> if s \<notin> ct_leaving ct then None else do { ct \<leftarrow> removeAliveServer_acks ct s; Some (wake [s] (co\<lparr>co_ct := ct\<rparr>)) }
      | Switch toRemap isCrashed servers \<Rightarrow> do { ct \<leftarrow> switchPhase co toRemap isCrashed servers buf ok; Some (co\<lparr>co_ct := ct\<rparr>) }
      | SyncDone instanceId \<Rightarrow> Some (co\<lparr>co_ct := sync_done ct instanceId\<rparr>)
      | StartQueue \<Rightarrow> Some (co\<lparr>co_ct := ct\<lparr>ct_running := True\<rparr>\<rparr>)
      | Work i \<Rightarrow> worker_step co i buf ok)"

text \<open>Runs, newest configuration first; \<open>A\<close> restricts the actions in a configuration and the answers of the toolkit.\<close>

inductive run :: "(Coordinator \<Rightarrow> action \<Rightarrow> bool \<Rightarrow> bool) \<Rightarrow> Coordinator list \<Rightarrow> bool" for A where
  run_new: "run A [co_new sockets numClients workers]"
| run_step: "run A (co # cos) \<Longrightarrow> A co a ok \<Longrightarrow> co_step co a buf ok = Some co' \<Longrightarrow> run A (co' # co # cos)"

fun run_actions :: "Coordinator \<Rightarrow> action list \<Rightarrow> memory \<Rightarrow> Coordinator option" where
  "run_actions co [] buf = Some co"
| "run_actions co (a # as) buf = do { co \<leftarrow> co_step co a buf True; run_actions co as buf }"

end
