(* ===== verification/CoordSafety.thy ===== *)
theory CoordSafety
  imports CoordWorkers
begin

text \<open>
  Correctness of the state transitions on the coordinator: the state of the handler stays well formed, the state of a server changes only along the phases, one event
  or worker exists exactly for a server in transition, and a server becomes degraded only after all clients have acknowledged.
\<close>

section \<open>Well-formed handlers\<close>

abbreviation st :: "CoordTransit \<Rightarrow> sockaddr_in \<Rightarrow> RemapState" where
  "st ct \<equiv> getState (ct_states ct)"

definition core_states :: "RemapState set" where
  "core_states = {STATE_UNDEFINED, STATE_NORMAL, STATE_INTERMEDIATE, STATE_COORDINATED, STATE_DEGRADED}"

text \<open>While a call is between its two halves the pools are not yet those of the servers: a server that joins has none, one that leaves still has its own.\<close>

definition ct_ok :: "CoordTransit \<Rightarrow> bool" where
  "ct_ok ct \<longleftrightarrow> \<not> ct_ackLocked ct \<and> finite (ct_aliveServers ct) \<and> finite (ct_aliveClients ct) \<and> ct_failedServers ct = {} \<and> ct_updatedServers ct = []
     \<and> (\<forall>s. st ct s \<noteq> STATE_UNDEFINED \<longleftrightarrow> s \<in> ct_aliveServers ct) \<and> dom (ct_ackClients ct) = ct_aliveServers ct - ct_joining ct \<union> ct_leaving ct
     \<and> (\<forall>s\<in>ct_joining ct. st ct s = STATE_NORMAL) \<and> ct_leaving ct \<inter> ct_aliveServers ct = {}
     \<and> (\<forall>s acked. ct_ackClients ct s = Some acked \<longrightarrow> acked \<subseteq> ct_aliveClients ct \<union> ct_departing ct) \<and> (\<forall>s. st ct s \<in> core_states)"

definition all_acked :: "CoordTransit \<Rightarrow> sockaddr_in \<Rightarrow> bool" where
  "all_acked ct s \<longleftrightarrow> ct_ackClients ct s = Some (ct_aliveClients ct)"

lemma ct_ok_new: "ct_ok ct_new"
  by (auto simp: ct_ok_def ct_new_def getState_def core_states_def)

lemma ct_ok_acked:
  assumes "ct_ok ct" and "ct_departing ct = {}" and "ct_ackClients ct s = Some acked" and "card (ct_aliveClients ct) = card acked"
  shows "all_acked ct s"
proof -
  have "acked \<subseteq> ct_aliveClients ct" "finite (ct_aliveClients ct)" using assms(1-3) by (auto simp: ct_ok_def)
  then have "acked = ct_aliveClients ct" using assms(4) by (intro card_subset_eq) simp_all
  then show ?thesis using assms(3) by (simp add: all_acked_def)
qed

lemma ct_ok_pool: "ct_ok ct \<Longrightarrow> st ct s \<noteq> STATE_UNDEFINED \<Longrightarrow> s \<notin> ct_joining ct \<Longrightarrow> \<exists>acked. ct_ackClients ct s = Some acked"
  unfolding ct_ok_def by blast

lemma ct_ok_alive: "ct_ok ct \<Longrightarrow> st ct s \<noteq> STATE_UNDEFINED \<Longrightarrow> st ct s \<noteq> STATE_NORMAL \<Longrightarrow> \<exists>acked. ct_ackClients ct s = Some acked"
  unfolding ct_ok_def by blast

definition only_acks :: "CoordTransit \<Rightarrow> CoordTransit \<Rightarrow> bool" where
  "only_acks ct ct' \<longleftrightarrow> (\<exists>m. ct' = ct\<lparr>ct_ackClients := m\<rparr>)"

lemma only_acks_upd [simp]: "only_acks ct (ct\<lparr>ct_ackClients := m\<rparr>)"
  by (auto simp: only_acks_def)

lemma only_acks_refl [simp]: "only_acks ct ct"
  using only_acks_upd [of ct "ct_ackClients ct"] by simp

lemma only_acks_trans: "only_acks a b \<Longrightarrow> only_acks b c \<Longrightarrow> only_acks a c"
  by (auto simp: only_acks_def)

lemma only_acks_fields:
  "only_acks ct ct' \<Longrightarrow> ct_states ct' = ct_states ct \<and> ct_aliveServers ct' = ct_aliveServers ct \<and> ct_aliveClients ct' = ct_aliveClients ct \<and> ct_queue ct' = ct_queue ct
     \<and> ct_departing ct' = ct_departing ct"
  by (auto simp: only_acks_def)

lemma isAllClientAcked_ok:
  assumes "ct_ok ct" and "ct_departing ct = {}" and "st ct s \<noteq> STATE_UNDEFINED" and "st ct s \<noteq> STATE_NORMAL"
  shows "isAllClientAcked ct s = Some (all_acked ct s, all_acked ct s)"
proof -
  obtain acked where "ct_ackClients ct s = Some acked" using ct_ok_alive assms(1,3,4) by blast
  moreover from this have "(card (ct_aliveClients ct) = card acked) = all_acked ct s" using ct_ok_acked [OF assms(1,2)] by (auto simp: all_acked_def)
  moreover have "\<not> ct_ackLocked ct" using assms(1) by (simp add: ct_ok_def)
  ultimately show ?thesis by (simp add: isAllClientAcked_def Let_def)
qed

lemma isAllClientAcked_signal: "ct_ok ct \<Longrightarrow> ct_departing ct = {} \<Longrightarrow> isAllClientAcked ct s = Some (a, True) \<Longrightarrow> all_acked ct s"
  using ct_ok_acked by (fastforce simp: isAllClientAcked_def Let_def split: if_splits option.splits)

section \<open>What the operations change\<close>

text \<open>Messages change nothing that is observable.\<close>

definition only_sent :: "CoordTransit \<Rightarrow> CoordTransit \<Rightarrow> bool" where
  "only_sent ct ct' \<longleftrightarrow> st ct' = st ct \<and> ct_aliveClients ct' = ct_aliveClients ct \<and> ct_ackClients ct' = ct_ackClients ct \<and> ct_aliveServers ct' = ct_aliveServers ct
     \<and> ct_failedServers ct' = ct_failedServers ct \<and> ct_updatedServers ct' = ct_updatedServers ct
     \<and> ct_ackLocked ct' = ct_ackLocked ct \<and> ct_queue ct' = ct_queue ct
     \<and> ct_joining ct' = ct_joining ct \<and> ct_leaving ct' = ct_leaving ct \<and> ct_departing ct' = ct_departing ct"

lemma only_sent_refl [simp]: "only_sent ct ct"
  by (simp add: only_sent_def)

lemma only_sent_trans: "only_sent a b \<Longrightarrow> only_sent b c \<Longrightarrow> only_sent a c"
  by (simp add: only_sent_def)

lemma only_sent_upd [simp]: "only_sent ct (ct\<lparr>ct_states := m, ct_sent := sent\<rparr>) \<longleftrightarrow> getState m = st ct"
  by (simp add: only_sent_def)

lemma only_sent_read [simp]: "read_state (ct_states ct) s = (x, m) \<Longrightarrow> only_sent ct (ct\<lparr>ct_states := m\<rparr>)"
  using read_state_getState(2) [of "ct_states ct" s] by (simp add: only_sent_def)

lemma only_sent_ok: "only_sent ct ct' \<Longrightarrow> ct_ok ct \<Longrightarrow> ct_ok ct'"
  by (simp add: only_sent_def ct_ok_def)

lemma broadcastState_frame:
  assumes "broadcastState ct servers buf ok = Some (ret, ct')"
  shows "only_sent ct ct'" and "ok \<Longrightarrow> length servers \<le> 255 \<Longrightarrow> ret = 1"
proof -
  have send: "getState m = getState m0" if "sendState m0 xs buf = Some (msg, m)" for m0 xs msg m
  proof -
    have loop: "foldM (\<lambda>s (buf, len, m). do { let (st, m) = read_state m s; buf \<leftarrow> put_record buf len s st; Some (buf, len + serverStateRecordSize, m) }) xs (b, n, m0) = Some (b', n', m')
        \<Longrightarrow> getState m' = getState m0" for xs b n m0 b' n' m'
    proof (induction xs arbitrary: b n m0)
      case (Cons x xs)
      obtain s1 m1 where r: "read_state m0 x = (s1, m1)" by (cases "read_state m0 x")
      then show ?case using Cons.prems Cons.IH read_state_getState(2) [of m0 x] by (auto split: Option.bind_splits)
    qed simp
    show ?thesis using that loop by (fastforce simp: sendState_def split: Option.bind_splits)
  qed
  show "only_sent ct ct'"
  proof (cases "255 < length servers \<or> MAX_MESSLEN < length servers * serverStateRecordSize + 1")
    case True
    then show ?thesis using assms by (auto simp: broadcastState_def)
  next
    case False
    then obtain xs msg m where "sendState (ct_states ct) xs buf = Some (msg, m)" "ct' = ct\<lparr>ct_states := m, ct_sent := ct_sent ct @ (if ok then [msg] else [])\<rparr>"
      using assms by (auto simp: broadcastState_def split: Option.bind_splits)
    then show ?thesis using send by simp
  qed
  show "ret = 1" if "ok" "length servers \<le> 255"
  proof -
    have "\<not> (255 < length servers \<or> MAX_MESSLEN < length servers * serverStateRecordSize + 1)" using that(2) by (simp add: MAX_MESSLEN_def serverStateRecordSize_def)
    then show ?thesis using assms that(1) by (auto simp: broadcastState_def split: Option.bind_splits)
  qed
qed

text \<open>A client's message changes acknowledgements only; threads are woken for servers that all clients have acknowledged.\<close>

lemma ack_record_spec:
  assumes ok: "ct_ok ct" and "ack_record subject r (ct, woken) = Some (ct', woken')" and w: "\<forall>s \<in> set woken. all_acked ct s" and dep: "ct_departing ct = {}"
  shows "only_acks ct ct' \<and> ct_ok ct' \<and> (\<forall>s \<in> set woken'. all_acked ct' s)"
proof -
  obtain server b where r: "r = (server, b)" by (cases r)
  show ?thesis
  proof (cases "expects_ack ct server (state_of_byte b)")
    case False
    then have "ct' = ct" "woken' = woken" using assms(2) r by (simp_all add: ack_record_def)
    then show ?thesis using ok w by simp
  next
    case True
    then have "st ct server \<noteq> STATE_UNDEFINED" "st ct server \<noteq> STATE_NORMAL" by (auto simp: expects_ack_def getState_def)
    then obtain acked where a: "ct_ackClients ct server = Some acked" using ct_ok_alive ok by blast
    define m where "m = (if subject \<in> ct_aliveClients ct then (ct_ackClients ct)(server \<mapsto> insert subject acked) else ct_ackClients ct)"
    have "isAllClientAcked (ct\<lparr>ct_ackClients := m\<rparr>) server \<bind> (\<lambda>(_, wk). Some (ct\<lparr>ct_ackClients := m\<rparr>, if wk then woken @ [server] else woken)) = Some (ct', woken')"
      using assms(2) True a by (cases "subject \<in> ct_aliveClients ct") (simp_all add: r ack_record_def m_def Let_def)
    then obtain all wk where step: "isAllClientAcked (ct\<lparr>ct_ackClients := m\<rparr>) server = Some (all, wk)" "ct' = ct\<lparr>ct_ackClients := m\<rparr>" "woken' = (if wk then woken @ [server] else woken)"
      by (auto split: Option.bind_splits)
    have ok': "ct_ok (ct\<lparr>ct_ackClients := m\<rparr>)" using ok a unfolding ct_ok_def m_def by (auto split: if_splits)
    have "all_acked (ct\<lparr>ct_ackClients := m\<rparr>) s" if "all_acked ct s" for s
      using that a ok dep by (auto simp: all_acked_def m_def ct_ok_def)
    then show ?thesis using step ok' w dep isAllClientAcked_signal [OF ok'] by (auto split: if_splits)
  qed
qed

lemma updateState_spec:
  assumes ok: "ct_ok ct" and dep: "ct_departing ct = {}" and "updateState ct subject msg = Some (r, ct', woken)"
  shows "only_acks ct ct' \<and> ct_ok ct' \<and> (\<forall>s \<in> set woken. all_acked ct' s)"
proof -
  have loop: "foldM (ack_record subject) rs (ct, woken) = Some (ct', woken') \<Longrightarrow> ct_ok ct \<Longrightarrow> ct_departing ct = {} \<Longrightarrow> \<forall>s \<in> set woken. all_acked ct s
      \<Longrightarrow> only_acks ct ct' \<and> ct_ok ct' \<and> (\<forall>s \<in> set woken'. all_acked ct' s)" for rs ct woken ct' woken'
  proof (induction rs arbitrary: ct woken)
    case Nil
    then show ?case by simp
  next
    case (Cons r rs)
    then obtain ct1 w1 where 1: "ack_record subject r (ct, woken) = Some (ct1, w1)" "foldM (ack_record subject) rs (ct1, w1) = Some (ct', woken')"
      by (auto split: Option.bind_splits)
    from ack_record_spec [OF Cons.prems(2) 1(1) Cons.prems(4,3)] have m1: "only_acks ct ct1" "ct_ok ct1" "\<forall>s \<in> set w1. all_acked ct1 s" by simp_all
    then have "ct_departing ct1 = {}" using only_acks_fields Cons.prems(3) by metis
    then show ?case using Cons.IH [OF 1(2) m1(2) _ m1(3)] m1(1) only_acks_trans by blast
  qed
  show ?thesis
  proof (cases "from_client subject")
    case True
    then show ?thesis using assms loop [of _ ct "[]" ct' woken] by (auto simp: updateState_def split: Option.bind_splits if_splits)
  next
    case False
    then show ?thesis using assms by (auto simp: updateState_def)
  qed
qed

text \<open>Starting a transition: the servers in the right state change it, their acknowledgements are reset, one event each is queued.\<close>

definition target :: "bool \<Rightarrow> RemapState" where
  "target start = (if start then STATE_INTERMEDIATE else STATE_COORDINATED)"

definition origin :: "bool \<Rightarrow> RemapState" where
  "origin start = (if start then STATE_NORMAL else STATE_DEGRADED)"

definition started :: "bool \<Rightarrow> sockaddr_in list \<Rightarrow> CoordTransit \<Rightarrow> CoordTransit \<Rightarrow> bool" where
  "started start checked ct ct' \<longleftrightarrow> distinct checked \<and> (\<forall>s \<in> set checked. st ct s = origin start)
     \<and> (\<forall>s. st ct' s = (if s \<in> set checked then target start else st ct s)) \<and> ct_ok ct' \<and> ct_queue ct' = ct_queue ct
     \<and> ct_aliveClients ct' = ct_aliveClients ct \<and> ct_aliveServers ct' = ct_aliveServers ct \<and> (\<forall>s. ct_ackClients ct' s = (if s \<in> set checked then Some {} else ct_ackClients ct s))"

lemma start_servers_spec:
  "ct_ok ct \<Longrightarrow> set servers \<inter> ct_joining ct = {} \<Longrightarrow> \<exists>kept checked ct'. start_servers start servers ct = Some (kept, checked, ct') \<and> started start checked ct ct' \<and> length checked \<le> length servers"
proof (induction servers arbitrary: ct)
  case Nil
  then show ?case by (simp add: started_def)
next
  case (Cons s servers)
  obtain x m where r: "read_state (ct_states ct) s = (x, m)" by (cases "read_state (ct_states ct) s")
  then have x: "x = st ct s" "getState m = st ct" using read_state_getState [of "ct_states ct" s] by simp_all
  show ?case
  proof (cases "x = origin start")
    case False
    let ?ct = "ct\<lparr>ct_states := m\<rparr>"
    have sent: "only_sent ct ?ct" using r by simp
    then obtain kept checked ct' where IH: "start_servers start servers ?ct = Some (kept, checked, ct')" "started start checked ?ct ct'" "length checked \<le> length servers"
      using Cons.IH [of ?ct] only_sent_ok [OF sent] Cons.prems by auto
    have "x = STATE_UNDEFINED \<or> start \<and> x \<noteq> STATE_NORMAL \<or> \<not> start \<and> x \<noteq> STATE_DEGRADED" using False by (cases start) (auto simp: origin_def)
    then show ?thesis using IH r sent by (auto simp: started_def only_sent_def Let_def)
  next
    case True
    let ?ct = "ct\<lparr>ct_states := m(s \<mapsto> target start), ct_ackClients := (ct_ackClients ct)(s \<mapsto> {})\<rparr>"
    have alive: "st ct s \<noteq> STATE_UNDEFINED" using True x(1) by (auto simp: origin_def split: if_splits)
    then obtain acked where a: "ct_ackClients ct s = Some acked" using ct_ok_pool [OF Cons.prems(1)] Cons.prems(2) by auto
    have g: "getState (m(s \<mapsto> target start)) = (st ct)(s := target start)" using x(2) by (auto simp: getState_def fun_eq_iff)
    have "ct_ok ?ct" using Cons.prems alive a g by (auto simp: ct_ok_def target_def core_states_def split: if_splits)
    then obtain kept checked ct' where IH: "start_servers start servers ?ct = Some (kept, checked, ct')" "started start checked ?ct ct'" "length checked \<le> length servers"
      using Cons.IH [of ?ct] Cons.prems(2) by auto
    have "s \<notin> set checked" using IH(2) g by (auto simp: started_def target_def origin_def split: if_splits)
    moreover have "\<not> ct_ackLocked ct" using Cons.prems by (simp add: ct_ok_def)
    ultimately have "start_servers start (s # servers) ct = Some (kept, s # checked, ct') \<and> started start (s # checked) ct ct'"
      using IH(1,2) r True a x g by (cases start) (auto simp: started_def resetClientAck_def Let_def target_def origin_def split: if_splits)
    then show ?thesis using IH(3) by auto
  qed
qed

lemma insert_until_done_result:
  assumes "insert_until_done ct start servers = Some ct'"
  shows "(ct_running ct \<or> servers = []) \<and> ct' = ct\<lparr>ct_queue := ct_queue ct @ map (\<lambda>server. (start, server)) servers\<rparr>"
proof (rule insert_until_done.raw_induct [where P = "\<lambda>ct start servers ct'. (ct_running ct \<or> servers = [])
    \<and> ct' = ct\<lparr>ct_queue := ct_queue ct @ map (\<lambda>server. (start, server)) servers\<rparr>", OF _ assms])
  fix rec ct start servers ct'
  assume "\<And>ct start servers ct'. rec ct start servers = Some ct' \<Longrightarrow> (ct_running ct \<or> servers = []) \<and> ct' = ct\<lparr>ct_queue := ct_queue ct @ map (\<lambda>server. (start, server)) servers\<rparr>"
    and "(case insertRepeatedEvents ct start servers of (ret, servers, ct) \<Rightarrow> if ret then Some ct else rec ct start servers) = Some ct'"
  then show "(ct_running ct \<or> servers = []) \<and> ct' = ct\<lparr>ct_queue := ct_queue ct @ map (\<lambda>server. (start, server)) servers\<rparr>"
    by (cases "ct_running ct"; cases "servers = []") (auto simp: insertRepeatedEvents_def)
qed

lemma insert_until_done_diverges: "\<not> ct_running ct \<Longrightarrow> servers \<noteq> [] \<Longrightarrow> insert_until_done ct start servers = None"
  using insert_until_done_result by (metis not_None_eq)

lemma revert_one_spec:
  assumes ok: "ct_ok ct" and "revert_one start allServers i ct = Some ct'"
  shows "ct_ok ct' \<and> ct_queue ct' = ct_queue ct"
proof -
  obtain server where "item_at allServers i = Some server" using assms(2) by (auto simp: revert_one_def split: Option.bind_splits)
  moreover obtain x m where r: "read_state (ct_states ct) server = (x, m)" by (cases "read_state (ct_states ct) server")
  then have x: "x = st ct server" "getState m = st ct" using read_state_getState [of "ct_states ct" server] by simp_all
  have g: "getState (m(server \<mapsto> y)) = (st ct)(server := y)" for y using x(2) by (auto simp: getState_def fun_eq_iff)
  ultimately have ct': "ct' = ct\<lparr>ct_states := (if start \<and> x = STATE_INTERMEDIATE then m(server \<mapsto> STATE_NORMAL) else if \<not> start \<and> x = STATE_COORDINATED then m(server \<mapsto> STATE_DEGRADED) else m)\<rparr>"
    using assms(2) by (simp add: revert_one_def r Let_def)
  have "ct_ok ct'"
  proof (cases "start \<and> x = STATE_INTERMEDIATE \<or> \<not> start \<and> x = STATE_COORDINATED")
    case True
    then have alive: "server \<in> ct_aliveServers ct" "server \<notin> ct_joining ct" using x(1) ok by (auto simp: ct_ok_def)
    then show ?thesis using ok True g x(1) unfolding ct' ct_ok_def by (auto simp: core_states_def split: if_splits)
  next
    case False
    then have "only_sent ct ct'" using ct' x(2) by (auto simp: only_sent_def)
    then show ?thesis using ok only_sent_ok by blast
  qed
  then show ?thesis using ct' by simp
qed

lemma revert_loop_spec:
  "ct_ok ct \<Longrightarrow> foldM (revert_one start allServers) is ct = Some ct' \<Longrightarrow> ct_ok ct' \<and> ct_queue ct' = ct_queue ct"
proof (induction "is" arbitrary: ct)
  case (Cons i xs)
  then obtain ct1 where "revert_one start allServers i ct = Some ct1" "foldM (revert_one start allServers) xs ct1 = Some ct'" by (auto split: Option.bind_splits)
  then show ?case using Cons revert_one_spec by metis
qed simp

lemma stateChange_spec:
  assumes ok: "ct_ok ct" and free: "set servers \<inter> ct_joining ct = {}" and "stateChangeInitHandler ct start servers buf sent = Some (left, ct')"
  shows "ct_ok ct'" and "sent \<Longrightarrow> length servers \<le> 255 \<Longrightarrow>
    \<exists>checked ct1. started start checked ct ct1 \<and> only_sent (ct1\<lparr>ct_queue := ct_queue ct @ map (\<lambda>s. (start, s)) checked\<rparr>) ct'"
proof -
  obtain kept checked ct1 where 1: "start_servers start servers ct = Some (kept, checked, ct1)" "started start checked ct ct1" "length checked \<le> length servers"
    using start_servers_spec [OF ok free] by blast
  then obtain ret ct2 where 2: "broadcastState ct1 checked buf sent = Some (ret, ct2)" using assms(3) by (auto simp: stateChangeInitHandler_def split: Option.bind_splits)
  note frame = broadcastState_frame [OF 2]
  have ok2: "ct_ok ct2" using frame(1) 1(2) only_sent_ok by (auto simp: started_def)
  obtain ct3 where 3: "(if ret = 0 then foldM (revert_one start kept) [0..<length checked] ct2 else Some ct2) = Some ct3" "insert_until_done ct3 start checked = Some ct'"
    using assms(3) 1(1) 2 by (auto simp: stateChangeInitHandler_def split: Option.bind_splits if_splits)
  have ok3: "ct_ok ct3" using 3(1) ok2 revert_loop_spec by (auto split: if_splits)
  note ct' = conjunct2 [OF insert_until_done_result [OF 3(2)]]
  show "ct_ok ct'" using ok3 unfolding ct' by (simp add: ct_ok_def)
  show "\<exists>checked ct1. started start checked ct ct1 \<and> only_sent (ct1\<lparr>ct_queue := ct_queue ct @ map (\<lambda>s. (start, s)) checked\<rparr>) ct'" if "sent" "length servers \<le> 255"
  proof -
    have "ret = 1" using frame(2) that 1(3) by simp
    then have "ct3 = ct2" using 3(1) by simp
    then have "only_sent (ct1\<lparr>ct_queue := ct_queue ct @ map (\<lambda>s. (start, s)) checked\<rparr>) ct'"
      using frame(1) 1(2) unfolding ct' by (simp add: only_sent_def started_def)
    then show ?thesis using 1(2) by blast
  qed
qed

lemma readMessage_spec:
  assumes ok: "ct_ok ct" and dep: "ct_departing ct = {}" and "readMessage ct ev buf sent = Some (ct', woken)"
  shows "ct_ok ct' \<and> st ct' = st ct \<and> ct_queue ct' = ct_queue ct \<and> (\<forall>s \<in> set woken. all_acked ct' s)"
proof (cases ev)
  case (ClientJoin subject)
  have "ct_ok (addAliveClient ct subject)" using ok unfolding addAliveClient_def ct_ok_def by (simp, blast)
  moreover obtain ret where "broadcastState (addAliveClient ct subject) [] buf sent = Some (ret, ct')" "woken = []"
    using assms(3) ClientJoin by (auto simp: readMessage_def split: Option.bind_splits)
  moreover from this have frame: "only_sent (addAliveClient ct subject) ct'" using broadcastState_frame(1) by blast
  ultimately show ?thesis using only_sent_ok [OF frame] frame by (simp add: only_sent_def) (simp add: addAliveClient_def)
next
  case (ClientLeft subject)
  let ?ct = "ct\<lparr>ct_aliveClients := ct_aliveClients ct - {subject}, ct_departing := insert subject (ct_departing ct)\<rparr>"
  have "ct' = ?ct" "woken = []" using assms ClientLeft by (auto simp: readMessage_def removeAliveClient_def)
  moreover have "ct_ok ?ct" using ok unfolding ct_ok_def by (simp, blast)
  ultimately show ?thesis by simp
next
  case ServerJoin
  then obtain ret where "broadcastState ct [] buf sent = Some (ret, ct')" "woken = []" using assms(3) by (auto simp: readMessage_def split: Option.bind_splits)
  moreover from this have frame: "only_sent ct ct'" using broadcastState_frame(1) by blast
  ultimately show ?thesis using only_sent_ok [OF frame ok] frame by (simp add: only_sent_def)
next
  case ServerLeft
  then show ?thesis using assms by (auto simp: readMessage_def)
next
  case (Regular sender msg)
  then obtain r where "updateState ct sender msg = Some (r, ct', woken)" using assms(3) by (auto simp: readMessage_def split: Option.bind_splits)
  then show ?thesis using updateState_spec [OF ok dep] only_acks_fields by metis
qed

lemma prepare_degraded_frame: "only_sent ct (prepare_degraded co isCrashed s ct)"
  by (simp add: prepare_degraded_def addPendingTransition_def set_pending_table_def addCrashedServer_def Let_def only_sent_def)

lemma prepare_all_frame: "only_sent ct (foldl (\<lambda>ct s. prepare_degraded co isCrashed s ct) ct servers)"
proof (induction servers arbitrary: ct)
  case (Cons s servers)
  then show ?case using prepare_degraded_frame only_sent_trans by (simp, blast)
qed simp

lemma switchPhase_spec:
  assumes ok: "ct_ok (co_ct co)" and free: "set servers \<inter> ct_joining (co_ct co) = {}" and "switchPhase co start isCrashed servers buf sent = Some ct'"
  shows "ct_ok ct'" and "sent \<Longrightarrow> length servers \<le> 255 \<Longrightarrow> \<exists>checked. distinct checked
     \<and> (\<forall>s. st ct' s = (if s \<in> set checked then target start else st (co_ct co) s)) \<and> (\<forall>s \<in> set checked. st (co_ct co) s = origin start)
     \<and> ct_queue ct' = ct_queue (co_ct co) @ map (\<lambda>s. (start, s)) checked \<and> (\<forall>s \<in> set checked. ct_ackClients ct' s = Some {})"
proof -
  define ct where "ct = (if start then foldl (\<lambda>ct s. prepare_degraded co isCrashed s ct) (co_ct co) servers else co_ct co)"
  let ?servers = "if start then servers else filter (\<lambda>server. server \<notin> ct_crashedServers (co_ct co)) servers"
  have frame: "only_sent (co_ct co) ct" using prepare_all_frame by (simp add: ct_def)
  have ok': "ct_ok ct" using only_sent_ok [OF frame ok] .
  obtain left where sc: "stateChangeInitHandler ct start ?servers buf sent = Some (left, ct')"
    using assms(3) by (auto simp: ct_def switchPhase_def transitToDegraded_def transitToNormal_def split: if_splits)
  have "ct_joining ct = ct_joining (co_ct co)" using frame by (simp add: only_sent_def)
  then have free': "set ?servers \<inter> ct_joining ct = {}" using free by auto
  show "ct_ok ct'" by (rule stateChange_spec(1) [OF ok' free' sc])
  assume "sent" "length servers \<le> 255"
  moreover from this have "length ?servers \<le> 255" by (simp add: le_trans [OF length_filter_le])
  ultimately obtain checked ct1 where "started start checked ct ct1" "only_sent (ct1\<lparr>ct_queue := ct_queue ct @ map (\<lambda>s. (start, s)) checked\<rparr>) ct'"
    using stateChange_spec(2) [OF ok' free' sc] by blast
  then show "\<exists>checked. distinct checked \<and> (\<forall>s. st ct' s = (if s \<in> set checked then target start else st (co_ct co) s))
     \<and> (\<forall>s \<in> set checked. st (co_ct co) s = origin start) \<and> ct_queue ct' = ct_queue (co_ct co) @ map (\<lambda>s. (start, s)) checked
     \<and> (\<forall>s \<in> set checked. ct_ackClients ct' s = Some {})"
    using frame unfolding only_sent_def started_def by (intro exI [of _ checked]) simp
qed

lemma transition_done_spec:
  assumes ok: "ct_ok ct" and "st ct server \<noteq> STATE_UNDEFINED \<and> st ct server \<noteq> STATE_NORMAL" and "x \<in> core_states" and "x \<noteq> STATE_UNDEFINED" and "transition_done ct server x buf sent = Some (r, ct')"
  shows "ct_ok ct' \<and> st ct' = (st ct)(server := x) \<and> ct_queue ct' = ct_queue ct"
proof -
  let ?ct = "ct\<lparr>ct_states := (ct_states ct)(server \<mapsto> x)\<rparr>"
  have g: "st ?ct = (st ct)(server := x)" by (auto simp: getState_def fun_eq_iff)
  have none: "ct_failedServers ct = {}" "ct_updatedServers ct = []" using ok by (simp_all add: ct_ok_def)
  have ok': "ct_ok ?ct" using ok assms(2-4) g by (auto simp: ct_ok_def)
  have same: "?ct\<lparr>ct_updatedServers := []\<rparr> = ?ct" using none by simp
  then obtain ret where "broadcastState ?ct [] buf sent = Some (ret, ct')"
    using assms(5) none by (auto simp: same transition_done_def removeFailedServer_def getFailedServerCount_def eraseUpdatedServers_def Let_def split: Option.bind_splits)
  then have frame: "only_sent ?ct ct'" by (rule broadcastState_frame(1))
  then show ?thesis using only_sent_ok [OF frame ok'] g by (simp add: only_sent_def)
qed

lemma finish_spec:
  assumes ok: "ct_ok ct" and "(if b then worker_toDegraded ct s buf sent else worker_toNormal ct s buf sent) = Some (r, ct')"
  shows "ct_ok ct' \<and> ct_queue ct' = ct_queue ct \<and> st ct' = (if st ct s = target b then (st ct)(s := origin (\<not> b)) else st ct)"
proof -
  obtain x m where r: "read_state (ct_states ct) s = (x, m)" by (cases "read_state (ct_states ct) s")
  let ?ct = "ct\<lparr>ct_states := m\<rparr>"
  have x: "x = st ct s" "st ?ct = st ct" using r read_state_getState [of "ct_states ct" s] by simp_all
  have frame: "only_sent ct ?ct" using r by simp
  then have ok': "ct_ok ?ct" using only_sent_ok ok by blast
  show ?thesis
  proof (cases "x = target b")
    case False
    then have "ct' = ?ct" using assms(2) r by (cases b) (auto simp: worker_toDegraded_def worker_toNormal_def target_def)
    then show ?thesis using ok' frame False x by (simp add: only_sent_def)
  next
    case True
    then have "transition_done ?ct s (origin (\<not> b)) buf sent = Some (r, ct')" "st ?ct s \<noteq> STATE_UNDEFINED \<and> st ?ct s \<noteq> STATE_NORMAL"
      using assms(2) r x by (cases b; simp add: worker_toDegraded_def worker_toNormal_def target_def origin_def)+
    moreover have "origin (\<not> b) \<in> core_states" "origin (\<not> b) \<noteq> STATE_UNDEFINED" by (auto simp: origin_def core_states_def)
    ultimately show ?thesis using transition_done_spec [OF ok', of s "origin (\<not> b)" buf sent r ct'] True x frame by (simp add: only_sent_def)
  qed
qed

section \<open>Tokens of a transition\<close>

fun job :: "worker \<Rightarrow> (bool \<times> sockaddr_in) option" where
  "job Idle = None"
| "job (AwaitMeta s) = Some (True, s)"
| "job (CheckAck b s) = Some (b, s)"
| "job (ToWait b s) = Some (b, s)"
| "job (Waiting b s) = Some (b, s)"
| "job (Acked b s) = Some (b, s)"

definition tokens :: "Coordinator \<Rightarrow> bool \<Rightarrow> sockaddr_in \<Rightarrow> nat" where
  "tokens co b s = count_list (ct_queue (co_ct co)) (b, s) + count_list (map job (co_workers co)) (Some (b, s))"

definition tokens_ok :: "sockaddr_in \<Rightarrow> Coordinator \<Rightarrow> bool" where
  "tokens_ok s co \<longleftrightarrow> (\<forall>b. tokens co b s = of_bool (st (co_ct co) s = target b))"

lemma count_list_upd: "i < length xs \<Longrightarrow> count_list (xs[i := y]) z + of_bool (xs ! i = z) = count_list xs z + of_bool (y = z)"
proof (induction xs arbitrary: i)
  case (Cons x xs)
  then show ?case by (cases i) (auto simp: Cons.IH)
qed simp

lemma count_list_append: "count_list (xs @ ys) z = count_list xs z + count_list ys z"
  by (induction xs) auto

lemma count_list_events: "distinct xs \<Longrightarrow> count_list (map (\<lambda>s. (start, s)) xs) (b, s) = of_bool (b = start \<and> s \<in> set xs)"
  by (induction xs) auto

lemma job_wake_one [simp]: "job (wake_one s w) = job w"
  by (cases "(s, w)" rule: wake_one.cases) auto

lemma job_wake [simp]: "job (foldl (\<lambda>w s. wake_one s w) w servers) = job w"
  by (induction servers arbitrary: w) auto

lemma wake_simps [simp]: "co_ct (wake servers co) = co_ct co" "length (co_workers (wake servers co)) = length (co_workers co)" "map job (co_workers (wake servers co)) = map job (co_workers co)"
  by (simp_all add: wake_def)

lemma tokens_wake [simp]: "tokens (wake servers co) = tokens co"
  by (simp add: tokens_def fun_eq_iff)


text \<open>The phases of a server.\<close>

definition phase_step :: "RemapState \<Rightarrow> RemapState \<Rightarrow> bool" where
  "phase_step a b \<longleftrightarrow> a = b \<or> (a, b) \<in> {(STATE_UNDEFINED, STATE_NORMAL), (STATE_NORMAL, STATE_INTERMEDIATE), (STATE_INTERMEDIATE, STATE_DEGRADED),
     (STATE_DEGRADED, STATE_COORDINATED), (STATE_COORDINATED, STATE_NORMAL)}"

text \<open>
  Actions that do not come between the two halves of a call for the same server: no change of phase and no removal of a server that is being added, no addition of
  a server that is being removed.
\<close>

definition undisturbed :: "Coordinator \<Rightarrow> action \<Rightarrow> bool" where
  "undisturbed co a \<longleftrightarrow> (case a of Switch _ _ servers \<Rightarrow> set servers \<inter> ct_joining (co_ct co) = {} | RemoveServer s \<Rightarrow> s \<notin> ct_joining (co_ct co)
     | AddServer s \<Rightarrow> s \<notin> ct_leaving (co_ct co) | _ \<Rightarrow> True)"

text \<open>In addition Spread accepts the messages, no list is too long for a message, and server \<open>s\<close> is not removed.\<close>

definition quiet :: "sockaddr_in \<Rightarrow> Coordinator \<Rightarrow> action \<Rightarrow> bool \<Rightarrow> bool" where
  "quiet s co a sent \<longleftrightarrow> sent \<and> undisturbed co a \<and> a \<noteq> RemoveServer s \<and> a \<noteq> ServerRemoved s \<and> (case a of Switch _ _ servers \<Rightarrow> length servers \<le> 255 | _ \<Rightarrow> True)"

lemma tokens_set_worker:
  "i < length (co_workers co) \<Longrightarrow> tokens (set_worker i w co) b s + of_bool (job (co_workers co ! i) = Some (b, s)) = tokens co b s + of_bool (job w = Some (b, s))"
  using count_list_upd [of i "map job (co_workers co)" "job w" "Some (b, s)"] by (simp add: tokens_def set_worker_def map_update)

lemma ct_ok_queue: "ct_ok (ct\<lparr>ct_queue := q\<rparr>) = ct_ok ct"
  by (simp add: ct_ok_def)

lemma transitToDegradedEnd_frame:
  "only_sent (co_ct co) (co_ct (transitToDegradedEnd co s)) \<and> co_workers (transitToDegradedEnd co s) = co_workers co"
  by (simp add: transitToDegradedEnd_def erasePendingTransition_def set_pending_table_def only_sent_def Let_def split: option.splits)

text \<open>A worker that has not passed the wait changes only its position.\<close>

lemma worker_moves:
  assumes ok: "ct_ok (co_ct co)" and step: "worker_step co i buf sent = Some co'" and no: "\<forall>b s. co_workers co ! i \<noteq> Acked b s"
  shows "i < length (co_workers co) \<and> ct_ok (co_ct co') \<and> st (co_ct co') = st (co_ct co) \<and> tokens co' = tokens co"
proof -
  have i: "item_at (co_workers co) i = Some (co_workers co ! i)" "i < length (co_workers co)" using step by (auto simp: worker_step_def item_at_def split: if_splits)
  have keep: "tokens (set_worker i w co1) = tokens co" if "tokens co1 = tokens co" "length (co_workers co1) = length (co_workers co)" "job (co_workers co1 ! i) = job (co_workers co ! i)" "job w = job (co_workers co ! i)" for w co1
    using tokens_set_worker [of i co1 w] that i(2) by (simp add: fun_eq_iff)
  show ?thesis
  proof (cases "co_workers co ! i")
    case Idle
    then obtain start s q where q: "ct_queue (co_ct co) = (start, s) # q" and co': "co' = set_worker i (if start then AwaitMeta s else CheckAck False s) (co\<lparr>co_ct := (co_ct co)\<lparr>ct_queue := q\<rparr>\<rparr>)"
      using step i(1) by (auto simp: worker_step_def split: list.splits prod.splits)
    let ?co = "co\<lparr>co_ct := (co_ct co)\<lparr>ct_queue := q\<rparr>\<rparr>" and ?w = "if start then AwaitMeta s else CheckAck False s"
    have "tokens co' b s' = tokens co b s'" for b s'
      using tokens_set_worker [of i ?co ?w b s'] i(2) q Idle unfolding co' by (auto simp: tokens_def split: if_splits)
    then show ?thesis using i(2) ok unfolding co' by (simp add: set_worker_def ct_ok_queue fun_eq_iff)
  next
    case (AwaitMeta s)
    then have co': "co' = set_worker i (CheckAck True s) (transitToDegradedEnd co s)" using step i(1) by (auto simp: worker_step_def split: if_splits)
    have frame: "only_sent (co_ct co) (co_ct (transitToDegradedEnd co s))" and ws: "co_workers (transitToDegradedEnd co s) = co_workers co" using transitToDegradedEnd_frame by simp_all
    have "tokens (transitToDegradedEnd co s) = tokens co" using frame ws by (simp add: tokens_def only_sent_def fun_eq_iff)
    then have "tokens co' = tokens co" unfolding co' using AwaitMeta ws by (intro keep) simp_all
    then show ?thesis using i(2) only_sent_ok [OF frame ok] frame unfolding co' by (simp add: set_worker_def only_sent_def)
  next
    case (CheckAck b s)
    then obtain all signal where "isAllClientAcked (co_ct co) s = Some (all, signal)"
        and co': "co' = set_worker i (if all then Acked b s else ToWait b s) (if signal then wake [s] co else co)"
      using step i(1) by (auto simp: worker_step_def split: Option.bind_splits)
    have jobs: "map job (co_workers (wake [s] co)) ! i = map job (co_workers co) ! i" by simp
    have "job (co_workers (if signal then wake [s] co else co) ! i) = job (co_workers co ! i)" using jobs i(2) by (auto simp del: wake_simps(3))
    then have "tokens co' = tokens co" unfolding co' using CheckAck by (intro keep) simp_all
    then show ?thesis using i(2) ok unfolding co' by (simp add: set_worker_def)
  next
    case (ToWait b s)
    then have co': "co' = set_worker i (Waiting b s) co" using step i(1) by (simp add: worker_step_def)
    have "tokens co' = tokens co" unfolding co' using ToWait by (intro keep) simp_all
    then show ?thesis using i(2) ok unfolding co' by (simp add: set_worker_def)
  next
    case (Waiting b s)
    then have co': "co' = set_worker i (Acked b s) co" using step i(1) by (simp add: worker_step_def)
    have "tokens co' = tokens co" unfolding co' using Waiting by (intro keep) simp_all
    then show ?thesis using i(2) ok unfolding co' by (simp add: set_worker_def)
  qed (use no in simp)
qed

text \<open>A worker that has passed the wait finishes the transition.\<close>

lemma worker_finishes:
  assumes ok: "ct_ok (co_ct co)" and step: "worker_step co i buf sent = Some co'" and w: "co_workers co ! i = Acked b s"
  shows "ct_ok (co_ct co') \<and> co_workers co' = (co_workers co)[i := Idle] \<and> st (co_ct co') = (if st (co_ct co) s = target b then (st (co_ct co))(s := origin (\<not> b)) else st (co_ct co))
    \<and> (\<forall>b' s'. tokens co' b' s' + of_bool ((b', s') = (b, s)) = tokens co b' s')"
proof -
  have i: "item_at (co_workers co) i = Some (co_workers co ! i)" "i < length (co_workers co)" using step by (auto simp: worker_step_def item_at_def split: if_splits)
  then obtain r ct where f: "(if b then worker_toDegraded (co_ct co) s buf sent else worker_toNormal (co_ct co) s buf sent) = Some (r, ct)" and co': "co' = set_worker i Idle (co\<lparr>co_ct := ct\<rparr>)"
    using step w by (auto simp: worker_step_def split: Option.bind_splits)
  note spec = finish_spec [OF ok f]
  have "tokens co' b' s' + of_bool ((b', s') = (b, s)) = tokens co b' s'" for b' s'
    using tokens_set_worker [of i "co\<lparr>co_ct := ct\<rparr>" Idle b' s'] i(2) w spec unfolding co' by (auto simp: tokens_def)
  then show ?thesis using spec unfolding co' by (simp add: set_worker_def)
qed

section \<open>Every step\<close>

lemma addAliveServer_spec:
  assumes ok: "ct_ok ct" and free: "s \<notin> ct_leaving ct" and "addAliveServer ct s = (r, ct')"
  shows "ct_ok ct' \<and> ct_queue ct' = ct_queue ct \<and> (\<forall>x. phase_step (st ct x) (st ct' x) \<and> (st ct' x \<noteq> st ct x \<longrightarrow> st ct x = STATE_UNDEFINED \<and> st ct' x = STATE_NORMAL))"
proof (cases "s \<in> ct_aliveServers ct")
  case True
  then show ?thesis using assms by (simp add: addAliveServer_def phase_step_def)
next
  case False
  let ?ct = "ct\<lparr>ct_aliveServers := insert s (ct_aliveServers ct), ct_states := (ct_states ct)(s \<mapsto> STATE_NORMAL), ct_joining := insert s (ct_joining ct)\<rparr>"
  have g: "getState ((ct_states ct)(s \<mapsto> STATE_NORMAL)) = (st ct)(s := STATE_NORMAL)" by (auto simp: getState_def fun_eq_iff)
  have "ct' = ?ct" using assms(3) False by (simp add: addAliveServer_def)
  moreover have "ct_ok ?ct" using ok free False unfolding ct_ok_def by (auto simp: g core_states_def)
  moreover have "st ct s = STATE_UNDEFINED" using ok False by (auto simp: ct_ok_def)
  ultimately show ?thesis using g by (simp add: phase_step_def)
qed

lemma addAliveServer_acks_spec:
  assumes ok: "ct_ok ct" and s: "s \<in> ct_joining ct" and "addAliveServer_acks ct s = Some ct'"
  shows "ct_ok ct' \<and> ct_queue ct' = ct_queue ct \<and> st ct' = st ct \<and> ct_aliveClients ct' = ct_aliveClients ct"
proof -
  have ct': "ct' = ct\<lparr>ct_ackClients := (ct_ackClients ct)(s \<mapsto> {}), ct_joining := ct_joining ct - {s}\<rparr>"
    using assms(3) by (auto simp: addAliveServer_acks_def split: if_splits)
  have "st ct s = STATE_NORMAL" using ok s by (simp add: ct_ok_def)
  then have "s \<in> ct_aliveServers ct" using ok by (auto simp: ct_ok_def)
  then have "ct_ok ct'" using ok unfolding ct' ct_ok_def by auto
  then show ?thesis by (simp add: ct')
qed

lemma removeAliveServer_spec:
  assumes ok: "ct_ok ct" and free: "s \<notin> ct_joining ct" and "removeAliveServer ct s = (r, ct')"
  shows "ct_ok ct' \<and> ct_queue ct' = ct_queue ct \<and> st ct' = (st ct)(s := STATE_UNDEFINED) \<and> (\<forall>x. x \<noteq> s \<longrightarrow> ct_ackClients ct' x = ct_ackClients ct x) \<and> ct_aliveClients ct' = ct_aliveClients ct"
proof (cases "s \<in> ct_aliveServers ct")
  case False
  then have "st ct s = STATE_UNDEFINED" using ok by (auto simp: ct_ok_def)
  then show ?thesis using assms False by (auto simp: removeAliveServer_def fun_eq_iff)
next
  case True
  let ?ct = "ct\<lparr>ct_aliveServers := ct_aliveServers ct - {s}, ct_crashedServers := ct_crashedServers ct - {s}, ct_states := (ct_states ct)(s := None), ct_leaving := insert s (ct_leaving ct)\<rparr>"
  have g: "getState ((ct_states ct)(s := None)) = (st ct)(s := STATE_UNDEFINED)" by (auto simp: getState_def fun_eq_iff)
  have "ct' = ?ct" using assms(3) True by (simp add: removeAliveServer_def)
  moreover have "ct_ok ?ct" using ok free True unfolding ct_ok_def by (auto simp: g core_states_def)
  ultimately show ?thesis using g by simp
qed

lemma removeAliveServer_acks_spec:
  assumes ok: "ct_ok ct" and s: "s \<in> ct_leaving ct" and "removeAliveServer_acks ct s = Some ct'"
  shows "ct_ok ct' \<and> ct_queue ct' = ct_queue ct \<and> st ct' = st ct \<and> ct_aliveClients ct' = ct_aliveClients ct"
proof -
  have ct': "ct' = ct\<lparr>ct_ackClients := (ct_ackClients ct)(s := None), ct_leaving := ct_leaving ct - {s}\<rparr>"
    using assms(3) by (auto simp: removeAliveServer_acks_def split: if_splits)
  have "ct_ok ct'" using ok s unfolding ct' ct_ok_def by auto
  then show ?thesis by (simp add: ct')
qed

lemma removeAliveClient_acks_spec:
  assumes ok: "ct_ok ct" and s: "name \<in> ct_departing ct" and "removeAliveClient_acks ct name = Some ct'"
  shows "ct_ok ct' \<and> ct_queue ct' = ct_queue ct \<and> st ct' = st ct \<and> ct_aliveClients ct' = ct_aliveClients ct"
proof -
  have ct': "ct' = ct\<lparr>ct_ackClients := (\<lambda>s. map_option (\<lambda>acked. acked - {name}) (ct_ackClients ct s)), ct_departing := ct_departing ct - {name}\<rparr>"
    using assms(3) by (auto simp: removeAliveClient_acks_def split: if_splits)
  moreover have "dom (\<lambda>s. map_option (\<lambda>acked. acked - {name}) (ct_ackClients ct s)) = dom (ct_ackClients ct)" by (auto simp: dom_def)
  ultimately have "ct_ok ct'" using ok unfolding ct_ok_def by (simp, blast)
  then show ?thesis by (simp add: ct')
qed

lemma sync_done_frame: "only_sent ct (sync_done ct i)"
  by (simp add: sync_done_def set_pending_table_def only_sent_def split: option.splits)

text \<open>The handler's invariant is kept by every action, also when messages are lost.\<close>

lemma co_step_ok:
  assumes ok: "ct_ok (co_ct co)" and u: "undisturbed co a" and step: "co_step co a buf sent = Some co'"
  shows "ct_ok (co_ct co')"
proof (cases a)
  case (Receive ev)
  then show ?thesis using step readMessage_spec [OF ok] by (auto simp: co_step_def Let_def split: Option.bind_splits if_splits)
next
  case (ClientGone name)
  then show ?thesis using step removeAliveClient_acks_spec [OF ok] by (auto simp: co_step_def Let_def split: Option.bind_splits if_splits)
next
  case (AddServer s)
  then show ?thesis using step u addAliveServer_spec [OF ok, of s] by (cases "addAliveServer (co_ct co) s") (auto simp: co_step_def Let_def undisturbed_def)
next
  case (ServerAdded s)
  then show ?thesis using step addAliveServer_acks_spec [OF ok] by (auto simp: co_step_def Let_def split: Option.bind_splits if_splits)
next
  case (RemoveServer s)
  then show ?thesis using step u removeAliveServer_spec [OF ok, of s] by (cases "removeAliveServer (co_ct co) s") (auto simp: co_step_def Let_def undisturbed_def)
next
  case (ServerRemoved s)
  then show ?thesis using step removeAliveServer_acks_spec [OF ok] by (auto simp: co_step_def Let_def split: Option.bind_splits if_splits)
next
  case (Switch start isCrashed servers)
  then show ?thesis using step u switchPhase_spec(1) [OF ok, of servers] by (auto simp: co_step_def Let_def undisturbed_def split: Option.bind_splits)
next
  case (SyncDone instanceId)
  then show ?thesis using step only_sent_ok [OF sync_done_frame ok] by (auto simp: co_step_def Let_def)
next
  case StartQueue
  then show ?thesis using step ok by (auto simp: co_step_def Let_def) (simp add: ct_ok_def)
next
  case (Work i)
  then have w: "worker_step co i buf sent = Some co'" using step by (simp add: co_step_def Let_def)
  show ?thesis
    by (cases "\<exists>b s. co_workers co ! i = Acked b s") (use worker_finishes [OF ok w] worker_moves [OF ok w] in blast)+
qed

text \<open>The states follow the phases and every transition has exactly one token.\<close>

lemma tokens_okI:
  "tokens_ok s co \<Longrightarrow> tokens co' = tokens co \<Longrightarrow> st (co_ct co') s = st (co_ct co) s \<Longrightarrow> tokens_ok s co' \<and> phase_step (st (co_ct co) s) (st (co_ct co') s)"
  by (simp add: tokens_ok_def phase_step_def)

lemma tokens_cong: "ct_queue (co_ct co') = ct_queue (co_ct co) \<Longrightarrow> map job (co_workers co') = map job (co_workers co) \<Longrightarrow> tokens co' = tokens co"
  by (simp add: tokens_def fun_eq_iff)

lemma co_step_tokens:
  assumes ok: "ct_ok (co_ct co)" and tok: "tokens_ok s co" and q: "quiet s co a sent" and step: "co_step co a buf sent = Some co'"
  shows "tokens_ok s co' \<and> phase_step (st (co_ct co) s) (st (co_ct co') s)"
proof (cases a)
  case (Receive ev)
  then obtain ct woken where "readMessage (co_ct co) ev buf sent = Some (ct, woken)" "co' = wake woken (co\<lparr>co_ct := ct\<rparr>)" "ct_departing (co_ct co) = {}"
    using step by (auto simp: co_step_def Let_def split: Option.bind_splits if_splits)
  then show ?thesis using readMessage_spec [OF ok] by (intro tokens_okI [OF tok] tokens_cong) simp_all
next
  case (ClientGone name)
  then obtain ct where "removeAliveClient_acks (co_ct co) name = Some ct" "co' = co\<lparr>co_ct := ct\<rparr>" "name \<in> ct_departing (co_ct co)"
    using step by (auto simp: co_step_def Let_def split: Option.bind_splits if_splits)
  then show ?thesis using removeAliveClient_acks_spec [OF ok] by (intro tokens_okI [OF tok] tokens_cong) simp_all
next
  case (ServerAdded s')
  then obtain ct where "addAliveServer_acks (co_ct co) s' = Some ct" "co' = co\<lparr>co_ct := ct\<rparr>" "s' \<in> ct_joining (co_ct co)"
    using step by (auto simp: co_step_def Let_def split: Option.bind_splits if_splits)
  then show ?thesis using addAliveServer_acks_spec [OF ok] by (intro tokens_okI [OF tok] tokens_cong) simp_all
next
  case (ServerRemoved s')
  then obtain ct where "removeAliveServer_acks (co_ct co) s' = Some ct" "co' = wake [s'] (co\<lparr>co_ct := ct\<rparr>)" "s' \<in> ct_leaving (co_ct co)"
    using step by (auto simp: co_step_def Let_def split: Option.bind_splits if_splits)
  then show ?thesis using removeAliveServer_acks_spec [OF ok] by (intro tokens_okI [OF tok] tokens_cong) simp_all
next
  case (AddServer s')
  then obtain r ct where 1: "addAliveServer (co_ct co) s' = (r, ct)" and co': "co' = co\<lparr>co_ct := ct\<rparr>" using step by (cases "addAliveServer (co_ct co) s'") (auto simp: co_step_def Let_def)
  have "s' \<notin> ct_leaving (co_ct co)" using q AddServer by (simp add: quiet_def undisturbed_def)
  note spec = addAliveServer_spec [OF ok this 1]
  have "tokens co' = tokens co" using spec unfolding co' by (intro tokens_cong) simp_all
  then show ?thesis using tok spec unfolding co' tokens_ok_def by (cases "st ct s = st (co_ct co) s") (auto simp: target_def phase_step_def)
next
  case (RemoveServer s')
  then have "s' \<noteq> s" and free: "s' \<notin> ct_joining (co_ct co)" using q by (auto simp: quiet_def undisturbed_def)
  obtain r ct where 1: "removeAliveServer (co_ct co) s' = (r, ct)" and co': "co' = co\<lparr>co_ct := ct\<rparr>"
    using step RemoveServer by (cases "removeAliveServer (co_ct co) s'") (auto simp: co_step_def Let_def)
  show ?thesis using removeAliveServer_spec [OF ok free 1] \<open>s' \<noteq> s\<close> unfolding co' by (intro tokens_okI [OF tok] tokens_cong) simp_all
next
  case (Switch start isCrashed servers)
  then obtain ct where 1: "switchPhase co start isCrashed servers buf sent = Some ct" and co': "co' = co\<lparr>co_ct := ct\<rparr>" using step by (auto simp: co_step_def Let_def split: Option.bind_splits)
  have free: "set servers \<inter> ct_joining (co_ct co) = {}" and "sent" "length servers \<le> 255" using q Switch by (simp_all add: quiet_def undisturbed_def)
  from switchPhase_spec(2) [OF ok free 1 this(2,3)] obtain checked where c: "distinct checked" "\<forall>s. st ct s = (if s \<in> set checked then target start else st (co_ct co) s)"
      "\<forall>s \<in> set checked. st (co_ct co) s = origin start" "ct_queue ct = ct_queue (co_ct co) @ map (\<lambda>s. (start, s)) checked" by blast
  have "tokens co' b s = tokens co b s + of_bool (b = start \<and> s \<in> set checked)" for b
    using c(4) count_list_events [OF c(1), of start b s] unfolding co' by (simp add: tokens_def count_list_append)
  then show ?thesis using tok c(2,3) unfolding co' tokens_ok_def by (auto simp: target_def origin_def phase_step_def split: if_splits)
next
  case (SyncDone instanceId)
  then have co': "co' = co\<lparr>co_ct := sync_done (co_ct co) instanceId\<rparr>" using step by (simp add: co_step_def Let_def)
  show ?thesis using sync_done_frame [of "co_ct co" instanceId] unfolding co' by (intro tokens_okI [OF tok] tokens_cong) (simp_all add: only_sent_def)
next
  case StartQueue
  then have co': "co' = co\<lparr>co_ct := (co_ct co)\<lparr>ct_running := True\<rparr>\<rparr>" using step by (simp add: co_step_def Let_def)
  show ?thesis unfolding co' by (intro tokens_okI [OF tok] tokens_cong) simp_all
next
  case (Work i)
  then have w: "worker_step co i buf sent = Some co'" using step by (simp add: co_step_def Let_def)
  show ?thesis
  proof (cases "\<exists>b s. co_workers co ! i = Acked b s")
    case False
    then show ?thesis using worker_moves [OF ok w] by (intro tokens_okI [OF tok]) simp_all
  next
    case True
    then obtain b s' where "co_workers co ! i = Acked b s'" by blast
    from worker_finishes [OF ok w this] have f: "st (co_ct co') = (if st (co_ct co) s' = target b then (st (co_ct co))(s' := origin (\<not> b)) else st (co_ct co))"
        "\<And>b'' s''. tokens co' b'' s'' + of_bool ((b'', s'') = (b, s')) = tokens co b'' s''" by simp_all
    show ?thesis
    proof (cases "s' = s")
      case False
      then have "tokens co' b'' s = tokens co b'' s" for b'' using f(2) [of b'' s] by simp
      then show ?thesis using f(1) False tok by (simp add: tokens_ok_def phase_step_def)
    next
      case True
      have "st (co_ct co) s = target b" using f(2) [of b s] tok True unfolding tokens_ok_def by (auto simp: of_bool_def split: if_splits)
      moreover have "tokens co' b' s + of_bool (b' = b) = of_bool (b' = b)" for b'
        using f(2) [of b' s] tok True calculation unfolding tokens_ok_def by (auto simp: target_def split: if_splits)
      ultimately show ?thesis using f(1) True by (cases b) (auto simp: tokens_ok_def target_def origin_def phase_step_def)
    qed
  qed
qed









section \<open>Runs\<close>

lemma run_mono: "run A cos \<Longrightarrow> (\<And>co a sent. A co a sent \<Longrightarrow> B co a sent) \<Longrightarrow> run B cos"
  by (induction rule: run.induct) (auto intro: run.intros)

lemma run_ok: "run A cos \<Longrightarrow> (\<And>co a sent. A co a sent \<Longrightarrow> undisturbed co a) \<Longrightarrow> ct_ok (co_ct (hd cos))"
proof (induction rule: run.induct)
  case (run_new sockets numClients workers)
  then show ?case using ct_ok_new by (simp add: co_new_def)
next
  case (run_step co cos a ok buf co')
  then show ?case using co_step_ok [of co a buf ok co'] by auto
qed

lemma quiet_undisturbed: "quiet s co a sent \<Longrightarrow> undisturbed co a"
  by (simp add: quiet_def)


lemmas quiet_ok = run_ok [OF _ quiet_undisturbed]

lemma tokens_ok_new: "tokens_ok s (co_new sockets numClients workers)"
proof -
  have "count_list (replicate workers None) (Some x) = 0" for x :: "bool \<times> sockaddr_in" by (induction workers) auto
  then show ?thesis by (simp add: tokens_ok_def tokens_def co_new_def ct_new_def getState_def target_def)
qed

lemma run_tokens: "run (quiet s) cos \<Longrightarrow> tokens_ok s (hd cos)"
proof (induction rule: run.induct)
  case (run_new sockets numClients workers)
  then show ?case using tokens_ok_new by simp
next
  case (run_step co cos a ok buf co')
  then show ?case using co_step_tokens [of co s a ok buf co'] quiet_ok [OF run_step.hyps(1)] by simp
qed






section \<open>Properties\<close>

text \<open>
  C25. The coordinator's transition handler stays well formed, whatever messages are lost, in every run in which no change of phase and no removal of a server comes between the two
  halves of its registration, and no registration between those of its removal: exactly the registered servers have a state other than undefined, and a pool of acknowledgements
  except while a registration or removal is under way, only clients that are connected or just being removed are in the pools, no client state reaches the table, and the
  lock of the pools is never left locked, although \<open>resetClientAck\<close> has a branch that would leave it.
\<close>

theorem coordinator_handler_wf:
  assumes "run (\<lambda>co a sent. undisturbed co a) (co # cos)"
  shows "ct_ok (co_ct co)"
  using run_ok [OF assms] by simp

definition sample_server :: sockaddr_in where
  "sample_server = Sockaddr 1 80"

lemma sample_run: "run A [co_new [] 0 1]"
  by (rule run.run_new)

definition sample_started :: Coordinator where
  "sample_started = (co_new [] 0 1)\<lparr>co_ct := ct_new\<lparr>ct_running := True\<rparr>\<rparr>"

definition sample_joining :: Coordinator where
  "sample_joining = sample_started\<lparr>co_ct := (co_ct sample_started)\<lparr>ct_aliveServers := {sample_server}, ct_states := [sample_server \<mapsto> STATE_NORMAL],
     ct_joining := {sample_server}\<rparr>\<rparr>"

definition sample_registered :: Coordinator where
  "sample_registered = sample_started\<lparr>co_ct := (co_ct sample_started)\<lparr>ct_aliveServers := {sample_server}, ct_states := [sample_server \<mapsto> STATE_NORMAL], ct_ackClients := [sample_server \<mapsto> {}]\<rparr>\<rparr>"

lemma sample_run2: "run (quiet sample_server) [sample_registered, sample_joining, sample_started, co_new [] 0 1]"
proof -
  have 1: "co_step (co_new [] 0 1) StartQueue [] True = Some sample_started" by (simp add: co_step_def Let_def sample_started_def co_new_def)
  have r1: "run (quiet sample_server) [sample_started, co_new [] 0 1]" by (rule run.run_step [OF sample_run _ 1]) (simp add: quiet_def undisturbed_def)
  have 2: "co_step sample_started (AddServer sample_server) [] True = Some sample_joining"
    by (simp add: co_step_def Let_def sample_joining_def sample_started_def addAliveServer_def ct_new_def co_new_def)
  have r2: "run (quiet sample_server) [sample_joining, sample_started, co_new [] 0 1]"
    by (rule run.run_step [OF r1 _ 2]) (simp add: quiet_def undisturbed_def sample_started_def ct_new_def)
  have 3: "co_step sample_joining (ServerAdded sample_server) [] True = Some sample_registered"
    by (simp add: co_step_def Let_def sample_joining_def sample_registered_def sample_started_def addAliveServer_acks_def ct_new_def co_new_def)
  show ?thesis by (rule run.run_step [OF r2 _ 3]) (simp add: quiet_def undisturbed_def)
qed

theorem coordinator_handler_wf_witness: "ct_ok (co_ct sample_registered)"
  by (rule coordinator_handler_wf [OF run_mono [OF sample_run2]]) (simp add: quiet_def)

text \<open>
  C13. As long as Spread accepts the messages, no call comes between the two halves of a registration or removal, and a server is not removed, its state changes only along the phases normal, intermediate, degraded, coordinated, normal, and
  at any time exactly one queued event or worker stands for a server in transition, and none for any other server, so no two workers finish the same transition.
\<close>

theorem server_follows_phases:
  assumes "run (quiet s) (co' # co # cos)"
  shows "phase_step (st (co_ct co) s) (st (co_ct co') s) \<and> (\<forall>b. tokens co' b s = of_bool (st (co_ct co') s = target b))"
proof -
  from assms obtain a sent buf where 1: "run (quiet s) (co # cos)" "quiet s co a sent" "co_step co a buf sent = Some co'" by (cases rule: run.cases) auto
  then have "ct_ok (co_ct co)" "tokens_ok s co" using quiet_ok [OF 1(1)] run_tokens [OF 1(1)] by simp_all
  from co_step_tokens [OF this 1(2,3)] show ?thesis by (simp add: tokens_ok_def)
qed

theorem server_follows_phases_witness:
  "phase_step STATE_NORMAL STATE_NORMAL \<and> (\<forall>b. tokens sample_registered b sample_server = 0)"
proof -
  have g: "st (co_ct sample_joining) sample_server = STATE_NORMAL" "st (co_ct sample_registered) sample_server = STATE_NORMAL"
    by (simp_all add: sample_started_def sample_joining_def sample_registered_def ct_new_def getState_def)
  show ?thesis using server_follows_phases [OF sample_run2, unfolded g] by (simp add: target_def)
qed



lemma insert_running: "ct_running ct \<Longrightarrow> insert_until_done ct start servers = Some (ct\<lparr>ct_queue := ct_queue ct @ map (\<lambda>server. (start, server)) servers\<rparr>)"
  by (subst insert_until_done.simps) (simp add: insertRepeatedEvents_def)

definition sample_buf :: memory where
  "sample_buf = replicate MAX_MESSLEN 0"

lemma sendState_sample: "length servers \<le> 584 \<Longrightarrow> sendState m servers sample_buf = Some (state_message m servers, read_states m servers)"
  by (simp add: sendState_message sample_buf_def)

definition sample_client :: string where
  "sample_client = ''#client1''"

text \<open>One server, one client, one worker: the transition starts and the worker waits for the client.\<close>

lemmas sample_defs = co_step_def readMessage_def broadcastState_def sendState_sample addAliveClient_def addAliveServer_def addAliveServer_acks_def switchPhase_def transitToDegraded_def transitToNormal_def
  stateChangeInitHandler_def resetClientAck_def insert_running worker_step_def prepare_degraded_def find_instance_def meta_done_def transitToDegradedEnd_def isAllClientAcked_def
  set_worker_def item_at_def Let_def co_new_def ct_new_def read_state_def read_states_def MAX_MESSLEN_def serverStateRecordSize_def wake_def


lemma ack_waiting:
  assumes ok: "ct_ok (co_ct co)" and dep: "ct_departing (co_ct co) = {}" and s: "st (co_ct co) s = STATE_INTERMEDIATE" and acked: "ct_ackClients (co_ct co) s = Some acked"
    and c: "from_client c" "c \<in> ct_aliveClients (co_ct co)" and msg: "message_records msg = Some [(s, byte_of_state STATE_WAIT_DEGRADED)]"
  shows "\<exists>co'. co_step co (Receive (Regular c msg)) buf sent = Some co' \<and> ct_ok (co_ct co') \<and> st (co_ct co') = st (co_ct co) \<and> ct_aliveClients (co_ct co') = ct_aliveClients (co_ct co)
     \<and> ct_departing (co_ct co') = {} \<and> ct_aliveServers (co_ct co') = ct_aliveServers (co_ct co) \<and> ct_ackClients (co_ct co') s = Some (insert c acked)
     \<and> co_workers co' = (if insert c acked = ct_aliveClients (co_ct co) then map (wake_one s) (co_workers co) else co_workers co)"
proof -
  let ?ct = "(co_ct co)\<lparr>ct_ackClients := (ct_ackClients (co_ct co))(s \<mapsto> insert c acked)\<rparr>"
  have "ct_states (co_ct co) s = Some STATE_INTERMEDIATE" using s by (auto simp: getState_def split: option.splits)
  then have exp: "expects_ack (co_ct co) s (state_of_byte (byte_of_state STATE_WAIT_DEGRADED))" by (simp add: expects_ack_def state_of_byte_def)
  have ok': "ct_ok ?ct" using ok acked c(2) unfolding ct_ok_def by (auto split: if_splits)
  have all: "isAllClientAcked ?ct s = Some (insert c acked = ct_aliveClients (co_ct co), insert c acked = ct_aliveClients (co_ct co))"
    using isAllClientAcked_ok [OF ok', of s] s dep by (auto simp: all_acked_def)
  have lock: "\<not> ct_ackLocked (co_ct co)" using ok by (simp add: ct_ok_def)
  have "updateState (co_ct co) c msg = Some (True, ?ct, if insert c acked = ct_aliveClients (co_ct co) then [s] else [])"
    using exp acked c all lock msg by (simp add: updateState_def ack_record_def Let_def)
  then show ?thesis using ok' dep by (auto simp: co_step_def Let_def readMessage_def wake_def)
qed

lemma finish_waiting:
  assumes ok: "ct_ok (co_ct co)" and s: "st (co_ct co) s = STATE_INTERMEDIATE" and i: "i < length (co_workers co)" "co_workers co ! i = Acked True s"
    and "card (ct_aliveServers (co_ct co)) \<le> 584" and "length buf = MAX_MESSLEN"
  shows "\<exists>co'. co_step co (Work i) buf sent = Some co' \<and> st (co_ct co') s = STATE_DEGRADED \<and> co_workers co' ! i = Idle"
proof -
  let ?ct = "(co_ct co)\<lparr>ct_states := (ct_states (co_ct co))(s \<mapsto> STATE_DEGRADED)\<rparr>"
  have r: "read_state (ct_states (co_ct co)) s = (STATE_INTERMEDIATE, ct_states (co_ct co))" using s by (auto simp: getState_def read_state_def split: option.splits)
  have none: "ct_failedServers (co_ct co) = {}" "ct_updatedServers (co_ct co) = []" using ok by (simp_all add: ct_ok_def)
  have same: "?ct\<lparr>ct_updatedServers := []\<rparr> = ?ct" using none by simp
  have fin: "finite (ct_aliveServers (co_ct co))" using ok by (simp add: ct_ok_def)
  then have "length (sorted_list_of_set (ct_aliveServers (co_ct co))) \<le> 584" using assms(5) by simp
  then obtain ret ct where b: "broadcastState ?ct [] buf sent = Some (ret, ct)"
    using sendState_message [OF assms(6)] by (simp add: broadcastState_def MAX_MESSLEN_def)
  then have frame: "only_sent ?ct ct" by (rule broadcastState_frame(1))
  have "worker_toDegraded (co_ct co) s buf sent = Some (\<not> ret < 0, ct)"
    using b none by (simp add: worker_toDegraded_def r transition_done_def removeFailedServer_def getFailedServerCount_def eraseUpdatedServers_def Let_def same)
  then have "co_step co (Work i) buf sent = Some (set_worker i Idle (co\<lparr>co_ct := ct\<rparr>))" using i by (simp add: co_step_def Let_def worker_step_def item_at_def)
  moreover have "st ct s = STATE_DEGRADED" using frame by (simp add: only_sent_def getState_def)
  ultimately show ?thesis using i(1) by (simp add: set_worker_def)
qed

lemma run_actions_append: "run_actions co (as @ bs) buf = run_actions co as buf \<bind> (\<lambda>co. run_actions co bs buf)"
proof (induction as arbitrary: co)
  case (Cons a as)
  then show ?case by (cases "co_step co a buf True") auto
qed simp

lemma wake_waiting: "w = Waiting True s \<Longrightarrow> wake_one s w = Acked True s"
  by simp

lemma acks_wake:
  "ct_ok (co_ct co) \<Longrightarrow> ct_departing (co_ct co) = {} \<Longrightarrow> st (co_ct co) s = STATE_INTERMEDIATE \<Longrightarrow> ct_ackClients (co_ct co) s = Some acked \<Longrightarrow> i < length (co_workers co) \<Longrightarrow> co_workers co ! i = Waiting True s
   \<Longrightarrow> distinct clients \<Longrightarrow> clients \<noteq> [] \<Longrightarrow> set clients = ct_aliveClients (co_ct co) - acked \<Longrightarrow> acked \<subseteq> ct_aliveClients (co_ct co) \<Longrightarrow> \<forall>c \<in> set clients. from_client c
   \<Longrightarrow> message_records msg = Some [(s, byte_of_state STATE_WAIT_DEGRADED)]
   \<Longrightarrow> \<exists>co'. run_actions co (map (\<lambda>c. Receive (Regular c msg)) clients) buf = Some co' \<and> ct_ok (co_ct co') \<and> st (co_ct co') = st (co_ct co)
      \<and> ct_aliveServers (co_ct co') = ct_aliveServers (co_ct co) \<and> i < length (co_workers co') \<and> co_workers co' ! i = Acked True s"
proof (induction clients arbitrary: co acked)
  case (Cons c clients)
  from Cons.prems have c: "from_client c" "c \<in> ct_aliveClients (co_ct co)" by auto
  from ack_waiting [OF Cons.prems(1-4) c Cons.prems(12), of buf True] obtain co1 where 1: "co_step co (Receive (Regular c msg)) buf True = Some co1" "ct_ok (co_ct co1)" "st (co_ct co1) = st (co_ct co)"
      "ct_aliveClients (co_ct co1) = ct_aliveClients (co_ct co)" "ct_aliveServers (co_ct co1) = ct_aliveServers (co_ct co)" "ct_ackClients (co_ct co1) s = Some (insert c acked)"
      "ct_departing (co_ct co1) = {}" "co_workers co1 = (if insert c acked = ct_aliveClients (co_ct co) then map (wake_one s) (co_workers co) else co_workers co)" by blast
  have len: "i < length (co_workers co1)" using 1(8) Cons.prems(5) by auto
  have rest: "set clients = ct_aliveClients (co_ct co) - insert c acked" using Cons.prems(7,9) by auto
  show ?case
  proof (cases "clients = []")
    case True
    then have "insert c acked = ct_aliveClients (co_ct co)" using rest Cons.prems(10) c(2) by auto
    then have "co_workers co1 ! i = Acked True s" using 1(8) Cons.prems(5,6) by simp
    then show ?thesis using 1 True len by simp
  next
    case False
    then have "insert c acked \<noteq> ct_aliveClients (co_ct co)" using rest by (metis Diff_cancel set_empty)
    then have "co_workers co1 ! i = Waiting True s" using 1(8) Cons.prems(6) by simp
    note w = this
    have "st (co_ct co1) s = STATE_INTERMEDIATE" "distinct clients" "set clients = ct_aliveClients (co_ct co1) - insert c acked" "insert c acked \<subseteq> ct_aliveClients (co_ct co1)" "\<forall>c \<in> set clients. from_client c"
      using 1(3,4) Cons.prems(3,7,10,11) rest c(2) by simp_all
    from Cons.IH [OF 1(2,7) this(1) 1(6) len w this(2) False this(3-5) Cons.prems(12)] show ?thesis using 1(1,3,5) by simp
  qed
qed simp

text \<open>
  C14. Progress: while no client is being removed and a worker waits for a server in the intermediate state, the acknowledgements of the clients that are still missing, in any order, wake it, and its next
  step makes the server degraded; nothing else has to happen.
\<close>

theorem missing_acks_finish_transition:
  assumes "ct_ok (co_ct co)" and "ct_departing (co_ct co) = {}" and "st (co_ct co) s = STATE_INTERMEDIATE" and "ct_ackClients (co_ct co) s = Some acked"
    and "i < length (co_workers co)" and "co_workers co ! i = Waiting True s"
    and "distinct clients" and "clients \<noteq> []" and "set clients = ct_aliveClients (co_ct co) - acked" and "\<forall>c \<in> set clients. from_client c"
    and "message_records msg = Some [(s, byte_of_state STATE_WAIT_DEGRADED)]" and "card (ct_aliveServers (co_ct co)) \<le> 584" and "length buf = MAX_MESSLEN"
  shows "\<exists>co'. run_actions co (map (\<lambda>c. Receive (Regular c msg)) clients @ [Work i]) buf = Some co' \<and> st (co_ct co') s = STATE_DEGRADED \<and> co_workers co' ! i = Idle"
proof -
  have "acked \<subseteq> ct_aliveClients (co_ct co)" using assms(1,2,4) by (auto simp: ct_ok_def)
  from acks_wake [OF assms(1-9) this assms(10,11), of buf] obtain co1 where 1: "run_actions co (map (\<lambda>c. Receive (Regular c msg)) clients) buf = Some co1" "ct_ok (co_ct co1)"
      "st (co_ct co1) = st (co_ct co)" "ct_aliveServers (co_ct co1) = ct_aliveServers (co_ct co)" "i < length (co_workers co1)" "co_workers co1 ! i = Acked True s" by blast
  from finish_waiting [OF 1(2) _ 1(5,6), of buf True] assms(3,12,13) 1(3,4) obtain co2 where
    "co_step co1 (Work i) buf True = Some co2" "st (co_ct co2) s = STATE_DEGRADED" "co_workers co2 ! i = Idle" by auto
  then show ?thesis using 1(1) by (simp add: run_actions_append)
qed

lemma sample_message: "message_records (state_message [sample_server \<mapsto> STATE_WAIT_DEGRADED] [sample_server]) = Some [(sample_server, byte_of_state STATE_WAIT_DEGRADED)]"
  using message_records_message [of "[sample_server \<mapsto> STATE_WAIT_DEGRADED]" "[sample_server]" "[]"] by (simp add: getState_def)

definition sample_waiter :: Coordinator where
  "sample_waiter = \<lparr>co_ct = ct_new\<lparr>ct_states := [sample_server \<mapsto> STATE_INTERMEDIATE], ct_aliveClients := {sample_client}, ct_ackClients := [sample_server \<mapsto> {}], ct_aliveServers := {sample_server},
        ct_running := True, ct_sent := [state_message Map.empty [], state_message [sample_server \<mapsto> STATE_INTERMEDIATE] [sample_server]]\<rparr>,
      co_workers = [Waiting True sample_server], co_sockets = [], co_numClients = 1, co_reconstructions = []\<rparr>"

lemma sample_waiter_ok: "ct_ok (co_ct sample_waiter)"
  by (auto simp: sample_waiter_def ct_ok_def ct_new_def getState_def core_states_def)

theorem missing_acks_finish_transition_witness:
  "\<exists>co'. run_actions sample_waiter [Receive (Regular sample_client (state_message [sample_server \<mapsto> STATE_WAIT_DEGRADED] [sample_server])), Work 0] sample_buf = Some co'
    \<and> st (co_ct co') sample_server = STATE_DEGRADED \<and> co_workers co' ! 0 = Idle"
proof -
  have f: "from_client sample_client" by (simp add: from_client_def sample_client_def)
  have "length sample_buf = MAX_MESSLEN" by (simp add: sample_buf_def)
  note missing_acks_finish_transition [OF sample_waiter_ok, of sample_server "{}" 0 "[sample_client]", OF _ _ _ _ _ _ _ _ _ sample_message _ this]
  then show ?thesis using f by (simp add: sample_waiter_def ct_new_def getState_def)
qed











text \<open>
  C22. A change of phase between the two halves of a registration: the server is already in normal state but has no pool of acknowledgements yet, so \<open>resetClientAck\<close> takes its branch for an
  unknown server and leaves the lock of the pools locked. The transition starts all the same, and from then on the registration, every test of the acknowledgements, every acknowledgement of a
  client, every removal of a client or server and every further change of phase that finds a server to start block.
\<close>

theorem switch_during_registration_blocks:
  assumes "ct_ok ct" and "s \<in> ct_joining ct" and "ct_running ct" and "length buf = MAX_MESSLEN"
  shows "\<exists>ct'. transitToDegraded ct [s] buf True = Some ct' \<and> st ct' s = STATE_INTERMEDIATE \<and> ct_ackLocked ct'
    \<and> addAliveServer_acks ct' s = None \<and> (\<forall>x. isAllClientAcked ct' x = None \<and> removeAliveServer_acks ct' x = None \<and> resetClientAck ct' x = None)
    \<and> (\<forall>client msg. from_client client \<longrightarrow> updateState ct' client msg = None) \<and> (\<forall>name. removeAliveClient_acks ct' name = None)"
proof -
  have s: "st ct s = STATE_NORMAL" "\<not> ct_ackLocked ct" using assms(1,2) by (simp_all add: ct_ok_def)
  have "s \<in> ct_aliveServers ct" "ct_leaving ct \<inter> ct_aliveServers ct = {}" "dom (ct_ackClients ct) = ct_aliveServers ct - ct_joining ct \<union> ct_leaving ct"
    using assms(1) s(1) unfolding ct_ok_def by auto
  then have pool: "ct_ackClients ct s = None" using assms(2) by blast
  have r: "read_state (ct_states ct) s = (STATE_NORMAL, ct_states ct)" using s(1) by (auto simp: getState_def read_state_def split: option.splits)
  let ?ct = "ct\<lparr>ct_states := (ct_states ct)(s \<mapsto> STATE_INTERMEDIATE), ct_ackLocked := True\<rparr>"
  have start: "start_servers True [s] ct = Some ([], [s], ?ct)" using r s(2) pool by (simp add: resetClientAck_def)
  obtain ret ct1 where b: "broadcastState ?ct [s] buf True = Some (ret, ct1)"
    using sendState_message [OF assms(4)] by (simp add: broadcastState_def MAX_MESSLEN_def serverStateRecordSize_def)
  note frame = broadcastState_frame [OF b]
  have run1: "ct_running ct1"
    using b assms(3) by (auto simp: broadcastState_def MAX_MESSLEN_def serverStateRecordSize_def split: Option.bind_splits)
  let ?ct' = "ct1\<lparr>ct_queue := ct_queue ct1 @ [(True, s)]\<rparr>"
  have "transitToDegraded ct [s] buf True = Some ?ct'"
    using start b frame(2) insert_running [OF run1, of True "[s]"] by (simp add: transitToDegraded_def stateChangeInitHandler_def)
  moreover have lock: "ct_ackLocked ?ct'" "st ?ct' s = STATE_INTERMEDIATE" using frame(1) by (simp_all add: only_sent_def getState_def)
  ultimately show ?thesis
    by (intro exI [of _ ?ct']) (simp add: addAliveServer_acks_def isAllClientAcked_def removeAliveServer_acks_def resetClientAck_def updateState_def removeAliveClient_acks_def)
qed

lemma sample_joining_ok: "ct_ok (co_ct sample_joining)"
  by (auto simp: sample_joining_def sample_started_def co_new_def ct_ok_def ct_new_def getState_def core_states_def)

theorem switch_during_registration_blocks_witness:
  "\<exists>ct'. transitToDegraded (co_ct sample_joining) [sample_server] sample_buf True = Some ct' \<and> ct_ackLocked ct' \<and> addAliveServer_acks ct' sample_server = None"
  using switch_during_registration_blocks [OF sample_joining_ok, of sample_server sample_buf]
  by (auto simp: sample_joining_def sample_started_def co_new_def ct_new_def sample_buf_def)

text \<open>
  Between the two halves of the removal of a client the sizes that \<open>isAllClientAcked\<close> compares belong to different sets: the acknowledgement of the client that leaves counts for one that
  is still connected, and a worker passes its wait without the acknowledgement of that one.
\<close>

theorem departed_ack_counts:
  assumes "ct_ok ct" and "ct_ackClients ct s = Some acked" and "ct_aliveClients ct = insert d acked" and "d \<notin> acked" and "c \<in> acked" and "\<not> ct_ackLocked ct"
  shows "isAllClientAcked (removeAliveClient ct c) s = Some (True, True) \<and> d \<in> ct_aliveClients (removeAliveClient ct c)"
proof -
  have fin: "finite (ct_aliveClients ct)" using assms(1) by (simp add: ct_ok_def)
  have dc: "d \<noteq> c" using assms(4,5) by auto
  have "card (ct_aliveClients ct - {c}) = card acked" using fin assms(3-5) by (simp add: card_Diff_singleton)
  then show ?thesis using assms dc by (simp add: isAllClientAcked_def removeAliveClient_def)
qed

text \<open>
  A message that cannot be sent is not undone: when Spread refuses the message, the revert loop addresses the servers that were not started instead of the started ones.  With fewer of
  them than started servers the call ends in an exception.
\<close>

theorem failed_broadcast_throws:
  assumes "start_servers start servers ct = Some (left, begun, ct')" and "length left < length begun" and "broadcastState ct' begun buf ok = Some (0, ct'')"
  shows "stateChangeInitHandler ct start servers buf ok = None"
proof -
  have "foldM (revert_one start left) [0..<n] c = None" if "length left < n" for n c
  proof -
    have "[0..<n] = [0..<length left] @ length left # [Suc (length left)..<n]" using that by (metis le_add_diff_inverse less_imp_le_nat upt_add_eq_append upt_conv_Cons zero_le)
    moreover have "revert_one start left (length left) c' = None" for c' by (simp add: revert_one_def item_at_def)
    ultimately show ?thesis by (cases "foldM (revert_one start left) [0..<length left] c") (simp_all add: foldM_append)
  qed
  then show ?thesis using assms by (simp add: stateChangeInitHandler_def)
qed

theorem failed_broadcast_throws_witness:
  "stateChangeInitHandler (co_ct sample_registered) True [sample_server] sample_buf False = None"
proof -
  have "\<exists>ct' ct''. start_servers True [sample_server] (co_ct sample_registered) = Some ([], [sample_server], ct') \<and> broadcastState ct' [sample_server] sample_buf False = Some (0, ct'')"
    by (simp add: sample_registered_def sample_started_def sample_defs)
  then show ?thesis using failed_broadcast_throws [of True "[sample_server]" "co_ct sample_registered" "[]" "[sample_server]"] by fastforce
qed

end
