(* ===== verification/CuckooHash.thy ===== *)
theory CuckooHash
  imports KeyValue Loops "HOL-Library.Multiset"
begin

text \<open>
  The cuckoo hash table of \<^verbatim>\<open>common/hash/cuckoo_hash.{hh,cc}\<close>, as it is configured there: four
  slots to a bucket, no tags in the buckets (\<^verbatim>\<open>CUCKOO_HASH_ENABLE_TAG\<close> is off), a path of width
  one and at most 500 kicks. A slot holds a pointer to an object in the memory \<open>m\<close>; 0 is the
  null pointer, an empty slot. With a key size of 0 the entries are serialised objects, otherwise
  their first \<open>keySize\<close> bytes are the key. The fine-grained spin locks guard the concurrent
  readers; here every operation runs alone.

  \<^verbatim>\<open>rand()\<close> is the parameter \<open>rnd\<close>: the number it returns at the \<open>n\<close>-th kick of an insertion.
  The result \<^term>\<open>None\<close> stands for an undefined access or shift and for a failed
  \<^verbatim>\<open>assert\<close>.
\<close>

section \<open>The table\<close>

abbreviation (input) BUCKET_SIZE :: nat where "BUCKET_SIZE \<equiv> 4"
abbreviation (input) MAX_CUCKOO_COUNT :: nat where "MAX_CUCKOO_COUNT \<equiv> 500"

record cuckoo_record =
  cr_bucket :: u64
  cr_slot :: nat
  cr_ptr :: nat

record CuckooHash =
  ch_keySize :: u8
  ch_size :: u32
  ch_hashPower :: u32
  ch_hashMask :: u32
  ch_buckets :: "nat list list"
  ch_kickCount :: nat
  ch_cp :: "cuckoo_record list"

text \<open>
  \<^verbatim>\<open>init\<close> neither sets the key size nor clears the array of the cuckoo path: both keep what the
  memory held, \<open>ksz0\<close> and \<open>cp0\<close>.
\<close>

definition ch_init :: "u32 \<Rightarrow> u8 \<Rightarrow> cuckoo_record list \<Rightarrow> CuckooHash option" where
  "ch_init pw ksz0 cp0 =
     (if unat pw < 32
      then let sz = push_bit (unat pw) 1 in
           Some \<lparr>ch_keySize = ksz0, ch_size = sz, ch_hashPower = pw, ch_hashMask = sz - 1,
                 ch_buckets = replicate (unat sz) (replicate BUCKET_SIZE 0),
                 ch_kickCount = 0, ch_cp = cp0\<rparr>
      else None)"

definition ch_setKeySize :: "u8 \<Rightarrow> CuckooHash \<Rightarrow> CuckooHash" where
  "ch_setKeySize ksz t = t\<lparr>ch_keySize := ksz\<rparr>"

definition indexHash :: "CuckooHash \<Rightarrow> u32 \<Rightarrow> u64 option" where
  "indexHash t h =
     (if 32 - ch_hashPower t < 32 then Some (ucast (drop_bit (unat (32 - ch_hashPower t)) h)) else None)"

definition tagHash :: "u32 \<Rightarrow> u8" where
  "tagHash h = (let r = h AND 255 in ucast r + (if r = 0 then 1 else 0))"

definition altIndex :: "CuckooHash \<Rightarrow> u64 \<Rightarrow> u8 \<Rightarrow> u64" where
  "altIndex t i tag =
     (i XOR ucast ((ucast tag AND 255) * 1540483477 :: u32)) AND ucast (ch_hashMask t)"

definition lockIndex :: "u64 \<Rightarrow> u64 \<Rightarrow> u8 \<Rightarrow> u64" where
  "lockIndex i1 i2 tag = (if i1 < i2 then i1 else i2)"

text \<open>
  The head that \<^verbatim>\<open>find\<close>, \<^verbatim>\<open>insert\<close> and \<^verbatim>\<open>del\<close> share: the hash of a key, which for a split of a
  large object covers the split offset behind the key, except for the first split.
\<close>

definition arg_hash :: "byte list \<Rightarrow> u8 \<Rightarrow> bool \<Rightarrow> u32 option" where
  "arg_hash key keySize large =
     do { h \<leftarrow> hash key (ucast keySize + (if large then 3 else 0));
          if large \<and> (\<forall>i\<in>{0..<SPLIT_OFFSET_SIZE}. key ! (unat keySize + i) = 0)
          then hash key (ucast keySize)
          else Some h }"

definition homes :: "CuckooHash \<Rightarrow> u32 \<Rightarrow> (u64 \<times> u64) option" where
  "homes t h = do { i1 \<leftarrow> indexHash t h; Some (i1, altIndex t i1 (tagHash h)) }"

text \<open>The comparison of an entry with the key that is looked for.\<close>

definition entry_matches :: "u32 \<Rightarrow> memory \<Rightarrow> u8 \<Rightarrow> byte list \<Rightarrow> u8 \<Rightarrow> bool \<Rightarrow> nat \<Rightarrow> bool option" where
  "entry_matches cs m ksz key keySize large p =
     (if ksz = 0
      then do { k \<leftarrow> kv_key cs m p True; key_equal k (key_set keySize key 0 large) }
      else do { bs \<leftarrow> peek m p (unat ksz);
                ks \<leftarrow> peek key 0 (unat ksz);
                Some (bs = ks) })"

fun scan_bucket :: "(nat \<Rightarrow> bool option) \<Rightarrow> nat list \<Rightarrow> nat option" where
  "scan_bucket f [] = Some 0"
| "scan_bucket f (p # ps) =
     (if p = 0 then scan_bucket f ps
      else do { b \<leftarrow> f p; if b then Some p else scan_bucket f ps })"

text \<open>\<^verbatim>\<open>tryRead\<close>, which nothing calls, stops at the first empty slot and compares with a small key.\<close>

fun read_bucket :: "(nat \<Rightarrow> bool option) \<Rightarrow> nat list \<Rightarrow> nat option" where
  "read_bucket f [] = Some 0"
| "read_bucket f (p # ps) =
     (if p = 0 then Some 0
      else do { b \<leftarrow> f p; if b then Some p else read_bucket f ps })"

definition tryRead :: "u32 \<Rightarrow> memory \<Rightarrow> CuckooHash \<Rightarrow> byte list \<Rightarrow> u8 \<Rightarrow> u64 \<Rightarrow> nat option" where
  "tryRead cs m t key keySize i =
     do { b \<leftarrow> item_at (ch_buckets t) (unat i);
          read_bucket (entry_matches cs m (ch_keySize t) key keySize False) b }"

definition ch_find :: "u32 \<Rightarrow> memory \<Rightarrow> CuckooHash \<Rightarrow> byte list \<Rightarrow> u8 \<Rightarrow> bool \<Rightarrow> nat option" where
  "ch_find cs m t key keySize large =
     do { h \<leftarrow> arg_hash key keySize large;
          (i1, i2) \<leftarrow> homes t h;
          b1 \<leftarrow> item_at (ch_buckets t) (unat i1);
          result \<leftarrow> scan_bucket (entry_matches cs m (ch_keySize t) key keySize large) b1;
          if result = 0
          then do { b2 \<leftarrow> item_at (ch_buckets t) (unat i2);
                    scan_bucket (entry_matches cs m (ch_keySize t) key keySize large) b2 }
          else Some result }"

section \<open>Insertion\<close>

fun first_empty :: "nat list \<Rightarrow> nat option" where
  "first_empty [] = None"
| "first_empty (p # ps) = (if p = 0 then Some 0 else map_option Suc (first_empty ps))"

definition set_slot :: "CuckooHash \<Rightarrow> nat \<Rightarrow> nat \<Rightarrow> nat \<Rightarrow> CuckooHash" where
  "set_slot t i j p = t\<lparr>ch_buckets := (ch_buckets t)[i := (ch_buckets t ! i)[j := p]]\<rparr>"

definition tryAdd :: "CuckooHash \<Rightarrow> nat \<Rightarrow> u64 \<Rightarrow> (bool \<times> CuckooHash) option" where
  "tryAdd t p i =
     do { b \<leftarrow> item_at (ch_buckets t) (unat i);
          case first_empty b of
            None \<Rightarrow> Some (False, t)
          | Some j \<Rightarrow> Some (True, set_slot t (unat i) j p) }"

text \<open>
  The hash that \<^verbatim>\<open>cpSearch\<close> computes of the entry it kicks. The split offset of a large object
  lies behind the key, yet the hash starts three bytes in front of it.
\<close>

definition kick_hash :: "u32 \<Rightarrow> memory \<Rightarrow> u8 \<Rightarrow> nat \<Rightarrow> u32 option" where
  "kick_hash cs m ksz p =
     (if ksz = 0
      then do { ob \<leftarrow> deserialize cs m p;
                (large, _, _) \<leftarrow> isLarge cs (obj_keySize ob) (obj_valueSize ob);
                if large
                then hash (drop (obj_key ob - SPLIT_OFFSET_SIZE) m) (ucast (obj_keySize ob) + 3)
                else hash (drop (obj_key ob) m) (ucast (obj_keySize ob)) }
      else hash (drop p m) (ucast ksz))"

definition cp_update :: "nat \<Rightarrow> (cuckoo_record \<Rightarrow> cuckoo_record) \<Rightarrow> CuckooHash \<Rightarrow> CuckooHash" where
  "cp_update d f t = t\<lparr>ch_cp := (ch_cp t)[d := f (ch_cp t ! d)]\<rparr>"

definition cp_kick :: "nat \<Rightarrow> nat \<Rightarrow> nat \<Rightarrow> u64 \<Rightarrow> CuckooHash \<Rightarrow> CuckooHash" where
  "cp_kick d j p to t =
     (cp_update (Suc d) (\<lambda>e. e\<lparr>cr_bucket := to\<rparr>)
        (cp_update d (\<lambda>e. e\<lparr>cr_slot := j, cr_ptr := p\<rparr>) t))\<lparr>ch_kickCount := ch_kickCount t + 1\<rparr>"

text \<open>The result is the depth at which an empty slot was found; \<^term>\<open>None\<close> inside is \<open>-1\<close>.\<close>

function cpSearch ::
  "u32 \<Rightarrow> memory \<Rightarrow> (nat \<Rightarrow> nat) \<Rightarrow> CuckooHash \<Rightarrow> nat \<Rightarrow> (nat option \<times> CuckooHash) option" where
  "cpSearch cs m rnd t depth =
     (if ch_kickCount t < MAX_CUCKOO_COUNT \<and> depth < MAX_CUCKOO_COUNT - 1
      then do { e \<leftarrow> item_at (ch_cp t) depth;
                b \<leftarrow> item_at (ch_buckets t) (unat (cr_bucket e));
                case first_empty b of
                  Some j \<Rightarrow> Some (Some depth, cp_update depth (\<lambda>e. e\<lparr>cr_slot := j\<rparr>) t)
                | None \<Rightarrow>
                    do { p \<leftarrow> item_at b (rnd (ch_kickCount t) mod BUCKET_SIZE);
                         h \<leftarrow> kick_hash cs m (ch_keySize t) p;
                         cpSearch cs m rnd
                           (cp_kick depth (rnd (ch_kickCount t) mod BUCKET_SIZE) p
                              (altIndex t (cr_bucket e) (tagHash h)) t)
                           (depth + 1) } }
      else Some (None, t))"
  by pat_completeness auto
termination by (relation "measure (\<lambda>(cs, m, rnd, t, depth). MAX_CUCKOO_COUNT - depth)") auto

declare cpSearch.simps [simp del]

fun cpBackmove :: "CuckooHash \<Rightarrow> nat \<Rightarrow> (nat \<times> CuckooHash) option" where
  "cpBackmove t 0 = Some (0, t)"
| "cpBackmove t (Suc d) =
     do { e1 \<leftarrow> item_at (ch_cp t) d;
          e2 \<leftarrow> item_at (ch_cp t) (Suc d);
          b1 \<leftarrow> item_at (ch_buckets t) (unat (cr_bucket e1));
          p1 \<leftarrow> item_at b1 (cr_slot e1);
          if p1 \<noteq> cr_ptr e1 then Some (Suc d, t)
          else do { b2 \<leftarrow> item_at (ch_buckets t) (unat (cr_bucket e2));
                    p2 \<leftarrow> item_at b2 (cr_slot e2);
                    if p2 \<noteq> 0 then None
                    else cpBackmove
                           (set_slot (set_slot t (unat (cr_bucket e2)) (cr_slot e2) p1)
                              (unat (cr_bucket e1)) (cr_slot e1) 0) d } }"

lemma cpBackmove_bound: "cpBackmove t d = Some (d', t') \<Longrightarrow> d' \<le> d"
  by (induction t d rule: cpBackmove.induct)
    (auto simp: bind_eq_Some_conv le_Suc_eq split: if_splits)

lemma set_slot_simps [simp]:
  "ch_kickCount (set_slot t i j p) = ch_kickCount t" "ch_cp (set_slot t i j p) = ch_cp t"
  "ch_keySize (set_slot t i j p) = ch_keySize t" "ch_hashPower (set_slot t i j p) = ch_hashPower t"
  "ch_hashMask (set_slot t i j p) = ch_hashMask t" "ch_size (set_slot t i j p) = ch_size t"
  by (simp_all add: set_slot_def)

lemma cpBackmove_kickCount: "cpBackmove t d = Some (d', t') \<Longrightarrow> ch_kickCount t' = ch_kickCount t"
  by (induction t d rule: cpBackmove.induct) (auto simp: bind_eq_Some_conv split: if_splits)

lemma cp_kickCount [simp]:
  "ch_kickCount (cp_update d f t) = ch_kickCount t"
  "ch_kickCount (cp_kick d j p to t) = Suc (ch_kickCount t)"
  by (simp_all add: cp_update_def cp_kick_def)

text \<open>A search that kicks nothing ends where it started.\<close>

lemma cpSearch_progress:
  "cpSearch cs m rnd t d = Some (Some c, t') \<Longrightarrow>
     ch_kickCount t < MAX_CUCKOO_COUNT
     \<and> (ch_kickCount t' = ch_kickCount t \<and> c = d \<or> ch_kickCount t < ch_kickCount t')"
proof (induction cs m rnd t d rule: cpSearch.induct)
  case (1 cs m rnd t d)
  from "1.prems" have guard: "ch_kickCount t < MAX_CUCKOO_COUNT \<and> d < MAX_CUCKOO_COUNT - 1"
    by (subst (asm) cpSearch.simps) (simp split: if_splits)
  from "1.prems" guard obtain e b where e: "item_at (ch_cp t) d = Some e"
    and b: "item_at (ch_buckets t) (unat (cr_bucket e)) = Some b"
    by (subst (asm) cpSearch.simps) (auto simp: bind_eq_Some_conv)
  show ?case
  proof (cases "first_empty b")
    case (Some j)
    with "1.prems" guard e b show ?thesis by (subst (asm) cpSearch.simps) auto
  next
    case None
    with "1.prems" guard e b obtain p h where p: "item_at b (rnd (ch_kickCount t) mod BUCKET_SIZE) = Some p"
      and h: "kick_hash cs m (ch_keySize t) p = Some h"
      and rec: "cpSearch cs m rnd (cp_kick d (rnd (ch_kickCount t) mod BUCKET_SIZE) p
                  (altIndex t (cr_bucket e) (tagHash h)) t) (d + 1) = Some (Some c, t')"
      by (subst (asm) cpSearch.simps) (auto simp: bind_eq_Some_conv)
    from "1.IH" [OF guard e b None p h rec] guard show ?thesis by auto
  qed
qed

lemma cuckoo_progress:
  assumes "cpSearch cs m rnd t d = Some (Some c, t1)" and "cpBackmove t1 c = Some (c', t2)" and "0 < c'"
  shows "MAX_CUCKOO_COUNT - ch_kickCount t2 < MAX_CUCKOO_COUNT - ch_kickCount t
    \<or> MAX_CUCKOO_COUNT - ch_kickCount t2 = MAX_CUCKOO_COUNT - ch_kickCount t \<and> c' - Suc 0 < d"
  using cpSearch_progress [OF assms(1)] cpBackmove_bound [OF assms(2)]
    cpBackmove_kickCount [OF assms(2)] assms(3) by auto

function cuckoo_loop ::
  "u32 \<Rightarrow> memory \<Rightarrow> (nat \<Rightarrow> nat) \<Rightarrow> CuckooHash \<Rightarrow> nat \<Rightarrow> (bool \<times> CuckooHash) option" where
  "cuckoo_loop cs m rnd t depth =
     (case cpSearch cs m rnd t depth of
        None \<Rightarrow> None
      | Some (None, t1) \<Rightarrow> Some (False, t1)
      | Some (Some current, t1) \<Rightarrow>
          (case cpBackmove t1 current of
             None \<Rightarrow> None
           | Some (current', t2) \<Rightarrow>
               if current' = 0 then Some (True, t2) else cuckoo_loop cs m rnd t2 (current' - 1)))"
  by pat_completeness auto
termination
proof (relation "measures [\<lambda>(cs, m, rnd, t, depth). MAX_CUCKOO_COUNT - ch_kickCount t,
                          \<lambda>(cs, m, rnd, t, depth). depth]", goal_cases)
  case 1
  then show ?case by simp
next
  case prems: 2
  then show ?case by (auto dest: cuckoo_progress)
qed

declare cuckoo_loop.simps [simp del]

definition cuckoo ::
  "u32 \<Rightarrow> memory \<Rightarrow> (nat \<Rightarrow> nat) \<Rightarrow> CuckooHash \<Rightarrow> nat \<Rightarrow> (bool \<times> CuckooHash) option" where
  "cuckoo cs m rnd t depth = cuckoo_loop cs m rnd (t\<lparr>ch_kickCount := 0\<rparr>) depth"

definition ch_insert ::
  "u32 \<Rightarrow> memory \<Rightarrow> (nat \<Rightarrow> nat) \<Rightarrow> CuckooHash \<Rightarrow> byte list \<Rightarrow> u8 \<Rightarrow> nat \<Rightarrow> bool
     \<Rightarrow> (bool \<times> CuckooHash) option" where
  "ch_insert cs m rnd t key keySize p large =
     do { h \<leftarrow> arg_hash key keySize large;
          (i1, i2) \<leftarrow> homes t h;
          (r, t) \<leftarrow> tryAdd t p i1;
          if r then Some (True, t) else do {
          (r, t) \<leftarrow> tryAdd t p i2;
          if r then Some (True, t) else do {
          (found, t) \<leftarrow> cuckoo cs m rnd (cp_update 0 (\<lambda>e. e\<lparr>cr_bucket := i2\<rparr>) t) 0;
          if found then do { e \<leftarrow> item_at (ch_cp t) 0; tryAdd t p (cr_bucket e) }
          else Some (False, t) } } }"

section \<open>Deletion\<close>

fun del_slot :: "(nat \<Rightarrow> bool option) \<Rightarrow> nat list \<Rightarrow> (bool \<times> nat list) option" where
  "del_slot f [] = Some (False, [])"
| "del_slot f (p # ps) =
     (if p = 0 then map_option (\<lambda>(r, qs). (r, p # qs)) (del_slot f ps)
      else do { b \<leftarrow> f p;
                if b then Some (True, 0 # ps)
                else map_option (\<lambda>(r, qs). (r, p # qs)) (del_slot f ps) })"

definition tryDel ::
  "u32 \<Rightarrow> memory \<Rightarrow> CuckooHash \<Rightarrow> byte list \<Rightarrow> u8 \<Rightarrow> u64 \<Rightarrow> bool \<Rightarrow> (bool \<times> CuckooHash) option" where
  "tryDel cs m t key keySize i large =
     do { b \<leftarrow> item_at (ch_buckets t) (unat i);
          (r, b') \<leftarrow> del_slot (entry_matches cs m (ch_keySize t) key keySize large) b;
          Some (r, t\<lparr>ch_buckets := (ch_buckets t)[unat i := b']\<rparr>) }"

definition ch_del ::
  "u32 \<Rightarrow> memory \<Rightarrow> CuckooHash \<Rightarrow> byte list \<Rightarrow> u8 \<Rightarrow> bool \<Rightarrow> CuckooHash option" where
  "ch_del cs m t key keySize large =
     do { h \<leftarrow> arg_hash key keySize large;
          (i1, i2) \<leftarrow> homes t h;
          (r, t) \<leftarrow> tryDel cs m t key keySize i1 large;
          if r then Some t
          else do { (r, t) \<leftarrow> tryDel cs m t key keySize i2 large; Some t } }"

section \<open>Well-formed tables\<close>

definition ch_shape :: "CuckooHash \<Rightarrow> bool" where
  "ch_shape t \<longleftrightarrow> 0 < unat (ch_hashPower t) \<and> unat (ch_hashPower t) < 32
     \<and> ch_hashMask t = mask (unat (ch_hashPower t))
     \<and> length (ch_buckets t) = 2 ^ unat (ch_hashPower t)
     \<and> (\<forall>b\<in>set (ch_buckets t). length b = BUCKET_SIZE)
     \<and> length (ch_cp t) = MAX_CUCKOO_COUNT"

definition home :: "CuckooHash \<Rightarrow> u32 \<Rightarrow> nat \<Rightarrow> bool" where
  "home t h i \<longleftrightarrow> (\<exists>i1. indexHash t h = Some i1 \<and> (i = unat i1 \<or> i = unat (altIndex t i1 (tagHash h))))"

definition entries :: "CuckooHash \<Rightarrow> nat list" where
  "entries t = filter (\<lambda>p. p \<noteq> 0) (concat (ch_buckets t))"

text \<open>
  \<open>V\<close> are the pointers to entries, \<open>K\<close> the key of an entry and \<open>H\<close> the hash of a key. Every
  entry is in one of the two buckets of its key, and no key is there twice.
\<close>

definition ch_ok :: "nat set \<Rightarrow> (nat \<Rightarrow> 'k) \<Rightarrow> ('k \<Rightarrow> u32) \<Rightarrow> CuckooHash \<Rightarrow> bool" where
  "ch_ok V K H t \<longleftrightarrow> ch_shape t
     \<and> (\<forall>i<length (ch_buckets t). \<forall>p\<in>set (ch_buckets t ! i). p \<noteq> 0 \<longrightarrow> p \<in> V \<and> home t (H (K p)) i)
     \<and> distinct (map K (entries t))"

definition ch_abs :: "(nat \<Rightarrow> 'k) \<Rightarrow> CuckooHash \<Rightarrow> 'k \<rightharpoonup> nat" where
  "ch_abs K t = map_of (map (\<lambda>p. (K p, p)) (entries t))"

text \<open>What a kick leaves alone.\<close>

definition same_geometry :: "CuckooHash \<Rightarrow> CuckooHash \<Rightarrow> bool" where
  "same_geometry t t' \<longleftrightarrow> ch_keySize t' = ch_keySize t \<and> ch_size t' = ch_size t
     \<and> ch_hashPower t' = ch_hashPower t \<and> ch_hashMask t' = ch_hashMask t
     \<and> length (ch_cp t') = length (ch_cp t) \<and> length (ch_buckets t') = length (ch_buckets t)"

lemma same_geometry_refl [simp]: "same_geometry t t"
  by (simp add: same_geometry_def)

lemma same_geometry_trans [trans]: "same_geometry t t' \<Longrightarrow> same_geometry t' t'' \<Longrightarrow> same_geometry t t''"
  by (simp add: same_geometry_def)

lemma same_geometry_home: "same_geometry t t' \<Longrightarrow> home t' = home t"
  by (simp add: same_geometry_def home_def indexHash_def altIndex_def fun_eq_iff)

lemma same_geometry_altIndex: "same_geometry t t' \<Longrightarrow> altIndex t' = altIndex t"
  by (simp add: same_geometry_def altIndex_def fun_eq_iff)

lemma ch_ok_cong:
  "ch_ok V K H t \<Longrightarrow> same_geometry t t' \<Longrightarrow> ch_buckets t' = ch_buckets t \<Longrightarrow> ch_ok V K H t'"
  using same_geometry_home [of t t']
  by (simp add: ch_ok_def ch_shape_def entries_def same_geometry_def)

lemma mask_32_64: "n \<le> 32 \<Longrightarrow> (ucast (mask n :: u32) :: u64) = mask n"
  by (simp add: ucast_mask_eq)

lemma altIndex_take_bit:
  assumes "ch_shape t"
  shows "altIndex t i tag =
    take_bit (unat (ch_hashPower t)) (i XOR ucast ((ucast tag AND 255) * 1540483477 :: u32))"
  using assms by (simp add: ch_shape_def altIndex_def mask_32_64 take_bit_eq_mask)

lemma take_bit_unat_less: "n < LENGTH('a) \<Longrightarrow> unat (take_bit n (w :: 'a::len word)) < 2 ^ n"
  by transfer (simp add: take_bit_nat_less_exp min_def flip: nat_take_bit_eq unsigned_take_bit_eq)

lemma altIndex_range: "ch_shape t \<Longrightarrow> unat (altIndex t i tag) < length (ch_buckets t)"
  unfolding altIndex_take_bit
  by (simp add: ch_shape_def take_bit_unat_less del: take_bit_xor)

lemma altIndex_involution:
  assumes "ch_shape t" and "unat i < length (ch_buckets t)"
  shows "altIndex t (altIndex t i tag) tag = i"
proof -
  have "take_bit (unat (ch_hashPower t)) i = i"
    using assms by (simp add: ch_shape_def word_unat_eq_iff unsigned_take_bit_eq take_bit_nat_eq_self)
  with assms show ?thesis
    by (simp add: altIndex_take_bit take_bit_xor bit_simps xor.assoc)
qed

lemma indexHash_range:
  assumes "ch_shape t"
  obtains i where "indexHash t h = Some i" and "unat i < length (ch_buckets t)"
proof -
  let ?p = "unat (ch_hashPower t)"
  from assms have p: "0 < ?p" "?p < 32" by (simp_all add: ch_shape_def)
  then have s: "unat (32 - ch_hashPower t) = 32 - ?p"
    by (simp add: unat_minus_eq)
  have "unat (drop_bit (32 - ?p) h) = unat h div 2 ^ (32 - ?p)"
    by (subst unat_drop_bit_eq) (rule drop_bit_eq_div)
  also have "\<dots> < 2 ^ ?p"
    using p unat_lt_pow [of h] by (simp add: div_less_iff_less_mult less_mult_imp_div_less flip: power_add)
  finally have "unat (ucast (drop_bit (32 - ?p) h) :: u64) < length (ch_buckets t)"
    using assms by (simp add: ch_shape_def)
  moreover have "32 - ch_hashPower t < 32"
    using s p by (simp add: word_less_nat_alt)
  ultimately show ?thesis
    using that by (simp add: indexHash_def s)
qed

lemma home_alt:
  assumes "ch_shape t" and "home t h (unat i)"
  shows "home t h (unat (altIndex t i (tagHash h)))"
proof -
  obtain i1 where i1: "indexHash t h = Some i1" "unat i1 < length (ch_buckets t)"
    using assms(1) by (rule indexHash_range)
  with assms(2) have "i = i1 \<or> i = altIndex t i1 (tagHash h)"
    by (auto simp: home_def simp flip: word_unat_eq_iff)
  with i1 altIndex_involution [OF assms(1) i1(2)] show ?thesis
    by (auto simp: home_def)
qed

lemma homes_home:
  assumes "ch_shape t"
  obtains i1 i2 where "homes t h = Some (i1, i2)"
    and "unat i1 < length (ch_buckets t)" and "unat i2 < length (ch_buckets t)"
    and "\<And>i. home t h i \<longleftrightarrow> i = unat i1 \<or> i = unat i2"
proof -
  obtain i1 where i1: "indexHash t h = Some i1" "unat i1 < length (ch_buckets t)"
    using assms by (rule indexHash_range)
  with altIndex_range [OF assms] show ?thesis
    using that [of i1 "altIndex t i1 (tagHash h)"] by (simp add: homes_def home_def)
qed

section \<open>Slots\<close>

lemma entry_in_bucket: "p \<in> set (entries t) \<longleftrightarrow> p \<noteq> 0 \<and> (\<exists>i<length (ch_buckets t). p \<in> set (ch_buckets t ! i))"
  by (auto simp: entries_def) (metis in_set_conv_nth)

lemma mset_concat_update:
  "i < length bs \<Longrightarrow> mset (concat (bs[i := b])) + mset (bs ! i) = mset (concat bs) + mset b"
proof -
  assume i: "i < length bs"
  have "mset (concat bs) = mset (concat (take i bs @ bs ! i # drop (Suc i) bs))"
    using id_take_nth_drop [OF i] by simp
  with i show ?thesis by (simp add: upd_conv_take_nth_drop)
qed

definition opt_entry :: "nat \<Rightarrow> nat multiset" where
  "opt_entry p = (if p = 0 then {#} else {#p#})"

lemma mset_entries_set_slot:
  assumes "i < length (ch_buckets t)" and "j < length (ch_buckets t ! i)"
  shows "mset (entries (set_slot t i j p)) + opt_entry (ch_buckets t ! i ! j)
    = mset (entries t) + opt_entry p"
proof -
  let ?b = "ch_buckets t ! i"
  have "mset (concat ((ch_buckets t)[i := ?b[j := p]])) + {#?b ! j#} + mset ?b
      = mset (concat (ch_buckets t)) + {#p#} + mset ?b"
    using mset_concat_update [OF assms(1), of "?b[j := p]"] assms(2)
    by (simp add: mset_update)
  then have "mset (concat ((ch_buckets t)[i := ?b[j := p]])) + {#?b ! j#}
      = mset (concat (ch_buckets t)) + {#p#}" by simp
  from arg_cong [OF this, of "filter_mset (\<lambda>p. p \<noteq> 0)"] show ?thesis
    by (simp add: entries_def set_slot_def opt_entry_def mset_filter split: if_splits)
qed

lemma set_slot_bucket:
  "i < length (ch_buckets t) \<Longrightarrow> ch_buckets (set_slot t i j p) ! i' =
     (if i' = i then (ch_buckets t ! i)[j := p] else ch_buckets t ! i')"
  by (simp add: set_slot_def)

lemma set_slot_geometry [simp]: "same_geometry t (set_slot t i j p)"
  by (simp add: same_geometry_def set_slot_def)

lemma set_slot_length [simp]: "length (ch_buckets (set_slot t i j p)) = length (ch_buckets t)"
  by (simp add: set_slot_def)

lemma ch_shape_set_slot:
  "ch_shape t \<Longrightarrow> i < length (ch_buckets t) \<Longrightarrow> ch_shape (set_slot t i j p)"
  by (auto simp: ch_shape_def set_slot_def dest!: subsetD [OF set_update_subset_insert])

lemma bucket_length: "ch_shape t \<Longrightarrow> i < length (ch_buckets t) \<Longrightarrow> length (ch_buckets t ! i) = BUCKET_SIZE"
  by (simp add: ch_shape_def)

lemma distinct_entries:
  "mset (entries t') = mset (entries t) \<Longrightarrow> distinct (map K (entries t')) = distinct (map K (entries t))"
  by (intro mset_eq_imp_distinct_iff) simp

lemma ch_abs_eq_Some:
  "distinct (map K (entries t)) \<Longrightarrow> ch_abs K t k = Some p \<longleftrightarrow> p \<in> set (entries t) \<and> K p = k"
  by (auto simp: ch_abs_def map_of_eq_Some_iff comp_def)

lemma option_eqI: "(\<And>q. a = Some q \<longleftrightarrow> b = Some q) \<Longrightarrow> a = b"
  by (cases a; cases b) auto

lemma ch_abs_cong:
  assumes "distinct (map K (entries t))" and "mset (entries t') = mset (entries t)"
  shows "ch_abs K t' = ch_abs K t"
proof
  fix k
  have "distinct (map K (entries t'))" using assms distinct_entries by blast
  moreover have "set (entries t') = set (entries t)" using assms(2) by (rule mset_eq_setD)
  ultimately have "ch_abs K t' k = Some p \<longleftrightarrow> ch_abs K t k = Some p" for p
    using assms(1) by (simp add: ch_abs_eq_Some)
  then show "ch_abs K t' k = ch_abs K t k"
    by (rule option_eqI)
qed

text \<open>Only the keys of the entries matter.\<close>

lemma ch_ok_key_cong:
  assumes "ch_ok V K H t" and same: "\<And>p. p \<in> set (entries t) \<Longrightarrow> p \<in> V' \<and> K' p = K p"
  shows "ch_ok V' K' H t" and "ch_abs K' t = ch_abs K t"
proof -
  have e: "p \<in> V' \<and> K' p = K p" if "i < length (ch_buckets t)" "p \<in> set (ch_buckets t ! i)" "p \<noteq> 0" for i p
    using that entry_in_bucket same by blast
  have m: "map K' (entries t) = map K (entries t)" using same by (intro map_cong) auto
  have "distinct (map K' (entries t))" unfolding m using assms(1) by (simp add: ch_ok_def)
  with assms(1) e show "ch_ok V' K' H t" by (simp add: ch_ok_def)
  have "map (\<lambda>p. (K' p, p)) (entries t) = map (\<lambda>p. (K p, p)) (entries t)" using same by (intro map_cong) auto
  then show "ch_abs K' t = ch_abs K t" by (simp only: ch_abs_def)
qed

text \<open>One kick: an entry moves from its slot to an empty slot of its other bucket.\<close>

lemma ch_ok_move:
  assumes ok: "ch_ok V K H t" and i1: "i1 < length (ch_buckets t)" and j1: "j1 < BUCKET_SIZE"
    and i2: "i2 < length (ch_buckets t)" and j2: "j2 < BUCKET_SIZE"
    and p: "ch_buckets t ! i1 ! j1 = p" "p \<noteq> 0" and e: "ch_buckets t ! i2 ! j2 = 0"
    and h: "home t (H (K p)) i2"
  defines "t' \<equiv> set_slot (set_slot t i2 j2 p) i1 j1 0"
  shows "ch_ok V K H t'" and "mset (entries t') = mset (entries t)"
    and "ch_buckets t' ! i1 ! j1 = 0" and "same_geometry t t'"
proof -
  from ok have sh: "ch_shape t" by (simp add: ch_ok_def)
  note len = bucket_length [OF sh]
  have m1: "mset (entries (set_slot t i2 j2 p)) = mset (entries t) + {#p#}"
    using mset_entries_set_slot [OF i2, of j2 p] e p len [OF i2] j2 by (simp add: opt_entry_def)
  have at: "ch_buckets (set_slot t i2 j2 p) ! i1 ! j1 = p"
    using p e i1 i2 j1 j2 len by (auto simp: set_slot_bucket nth_list_update)
  have "length (ch_buckets (set_slot t i2 j2 p) ! i1) = 4"
    using i1 i2 len by (simp add: set_slot_bucket)
  then show m: "mset (entries t') = mset (entries t)"
    using mset_entries_set_slot [of i1 "set_slot t i2 j2 p" j1 0] m1 at p(2) i1 j1
    by (simp add: t'_def opt_entry_def)
  show g: "same_geometry t t'"
    unfolding t'_def using same_geometry_trans set_slot_geometry by blast
  show "ch_buckets t' ! i1 ! j1 = 0"
    using i1 j1 len [OF i1] i2 by (auto simp: t'_def set_slot_bucket)
  have sub: "set (ch_buckets t' ! i) - {0} \<subseteq> set (ch_buckets t ! i) \<union> (if i = i2 then {p} else {})"
    if "i < length (ch_buckets t)" for i
    using that i1 i2 set_update_subset_insert [of "ch_buckets t ! i" j2 p]
      set_update_subset_insert [of "(ch_buckets t ! i)[j2 := p]" j1 0]
      set_update_subset_insert [of "ch_buckets t ! i" j1 0]
    by (auto simp: t'_def set_slot_bucket split: if_splits)
  have pin: "p \<in> set (ch_buckets t ! i1)"
    using p(1) j1 len [OF i1] by (metis nth_mem)
  have "ch_shape t'"
    using sh i1 i2 by (simp add: t'_def ch_shape_set_slot)
  moreover have "length (ch_buckets t') = length (ch_buckets t)" by (simp add: t'_def)
  moreover have "q \<in> V \<and> home t' (H (K q)) i"
    if q: "i < length (ch_buckets t)" "q \<in> set (ch_buckets t' ! i)" "q \<noteq> 0" for i q
  proof -
    from q sub [OF q(1)] have "q \<in> set (ch_buckets t ! i) \<or> q = p \<and> i = i2"
      by (auto split: if_splits)
    with ok q h pin i1 p(2) show ?thesis
      by (auto simp: ch_ok_def same_geometry_home [OF g])
  qed
  moreover have "distinct (map K (entries t'))"
    using ok distinct_entries [OF m, of K] by (simp add: ch_ok_def)
  ultimately show "ch_ok V K H t'" by (simp add: ch_ok_def)
qed

section \<open>The kicks\<close>

definition slot_empty :: "CuckooHash \<Rightarrow> nat \<Rightarrow> bool" where
  "slot_empty t d \<longleftrightarrow> cr_slot (ch_cp t ! d) < BUCKET_SIZE
     \<and> ch_buckets t ! unat (cr_bucket (ch_cp t ! d)) ! cr_slot (ch_cp t ! d) = 0"

text \<open>The path up to depth \<open>n\<close>: each entry on it has the next bucket as its other bucket.\<close>

definition cp_path :: "nat set \<Rightarrow> (nat \<Rightarrow> 'k) \<Rightarrow> ('k \<Rightarrow> u32) \<Rightarrow> CuckooHash \<Rightarrow> nat \<Rightarrow> bool" where
  "cp_path V K H t n \<longleftrightarrow>
     (\<forall>d\<le>n. unat (cr_bucket (ch_cp t ! d)) < length (ch_buckets t))
     \<and> (\<forall>d<n. let e = ch_cp t ! d in
           cr_slot e < BUCKET_SIZE \<and> cr_ptr e \<noteq> 0 \<and> cr_ptr e \<in> V
           \<and> cr_bucket (ch_cp t ! Suc d) = altIndex t (cr_bucket e) (tagHash (H (K (cr_ptr e)))))"

definition kick_law :: "u32 \<Rightarrow> memory \<Rightarrow> u8 \<Rightarrow> nat set \<Rightarrow> (nat \<Rightarrow> 'k) \<Rightarrow> ('k \<Rightarrow> u32) \<Rightarrow> bool" where
  "kick_law cs m ksz V K H \<longleftrightarrow> (\<forall>p\<in>V. kick_hash cs m ksz p = Some (H (K p)))"

text \<open>A step of an insertion keeps the invariant and moves entries only.\<close>

definition moved :: "nat set \<Rightarrow> (nat \<Rightarrow> 'k) \<Rightarrow> ('k \<Rightarrow> u32) \<Rightarrow> CuckooHash \<Rightarrow> CuckooHash \<Rightarrow> bool" where
  "moved V K H t t' \<longleftrightarrow> ch_ok V K H t' \<and> same_geometry t t' \<and> mset (entries t') = mset (entries t)
     \<and> cr_bucket (ch_cp t' ! 0) = cr_bucket (ch_cp t ! 0)"

lemma moved_trans: "moved V K H t t' \<Longrightarrow> moved V K H t' t'' \<Longrightarrow> moved V K H t t''"
  unfolding moved_def using same_geometry_trans by (metis (no_types, lifting))

lemma first_empty_Some: "first_empty b = Some j \<Longrightarrow> j < length b \<and> b ! j = 0"
  by (induction b arbitrary: j) (auto split: if_splits)

lemma first_empty_None: "first_empty b = None \<longleftrightarrow> 0 \<notin> set b"
  by (induction b) auto

lemma cp_update_simps [simp]:
  "ch_buckets (cp_update d f t) = ch_buckets t" "same_geometry t (cp_update d f t)"
  "ch_cp (cp_update d f t) = (ch_cp t)[d := f (ch_cp t ! d)]"
  by (simp_all add: cp_update_def same_geometry_def)

lemma cp_kick_simps [simp]:
  "ch_buckets (cp_kick d j p to t) = ch_buckets t" "same_geometry t (cp_kick d j p to t)"
  by (simp_all add: cp_kick_def cp_update_def same_geometry_def)

lemma cp_kick_nth:
  "Suc d < length (ch_cp t) \<Longrightarrow> ch_cp (cp_kick d j p to t) ! i =
     (if i = d then (ch_cp t ! d)\<lparr>cr_slot := j, cr_ptr := p\<rparr>
      else if i = Suc d then (ch_cp t ! Suc d)\<lparr>cr_bucket := to\<rparr> else ch_cp t ! i)"
  by (auto simp: cp_kick_def cp_update_def nth_list_update)

lemma cpSearch_ok:
  assumes "kick_law cs m (ch_keySize t) V K H" and "ch_ok V K H t" and "cp_path V K H t depth"
    and "depth < MAX_CUCKOO_COUNT"
  shows "\<exists>r t1. cpSearch cs m rnd t depth = Some (r, t1) \<and> moved V K H t t1
    \<and> (case r of None \<Rightarrow> True
       | Some c \<Rightarrow> c < MAX_CUCKOO_COUNT \<and> cp_path V K H t1 c \<and> slot_empty t1 c)"
  using assms
proof (induction cs m rnd t depth rule: cpSearch.induct)
  case (1 cs m rnd t d)
  from "1.prems" have sh: "ch_shape t" by (simp add: ch_ok_def)
  then have lcp: "length (ch_cp t) = MAX_CUCKOO_COUNT" by (simp add: ch_shape_def)
  show ?case
  proof (cases "ch_kickCount t < MAX_CUCKOO_COUNT \<and> d < MAX_CUCKOO_COUNT - 1")
    case False
    with "1.prems" show ?thesis by (subst cpSearch.simps) (auto simp: moved_def)
  next
    case guard: True
    let ?e = "ch_cp t ! d"
    let ?b = "ch_buckets t ! unat (cr_bucket ?e)"
    have i: "unat (cr_bucket ?e) < length (ch_buckets t)"
      using "1.prems"(3) by (simp add: cp_path_def)
    have e: "item_at (ch_cp t) d = Some ?e" and b: "item_at (ch_buckets t) (unat (cr_bucket ?e)) = Some ?b"
      using guard lcp i by (simp_all add: item_at_def)
    show ?thesis
    proof (cases "first_empty ?b")
      case (Some j)
      let ?t = "cp_update d (\<lambda>e. e\<lparr>cr_slot := j\<rparr>) t"
      have "cpSearch cs m rnd t d = Some (Some d, ?t)"
        using guard e b Some by (subst cpSearch.simps) simp
      moreover have "moved V K H t ?t"
        using "1.prems"(2) ch_ok_cong [of V K H t ?t] guard lcp
        by (cases "d = 0") (auto simp: moved_def entries_def)
      moreover have "cp_path V K H ?t d"
        using "1.prems"(3) guard lcp
        by (auto simp: cp_path_def Let_def nth_list_update same_geometry_altIndex [of t ?t])
      moreover have "slot_empty ?t d"
        using first_empty_Some [OF Some] bucket_length [OF sh i] guard lcp
        by (simp add: slot_empty_def)
      ultimately show ?thesis using guard by auto
    next
      case None
      let ?j = "rnd (ch_kickCount t) mod BUCKET_SIZE"
      let ?p = "?b ! ?j"
      let ?h = "H (K ?p)"
      let ?t = "cp_kick d ?j ?p (altIndex t (cr_bucket ?e) (tagHash ?h)) t"
      have lb: "length ?b = BUCKET_SIZE" using bucket_length [OF sh i] .
      then have pin: "?p \<in> set ?b" by simp
      with None have p0: "?p \<noteq> 0" by (metis first_empty_None)
      with pin i "1.prems"(2) have pV: "?p \<in> V" by (auto simp: ch_ok_def)
      have p: "item_at ?b ?j = Some ?p" using lb by (simp add: item_at_def)
      have h: "kick_hash cs m (ch_keySize t) ?p = Some ?h"
        using "1.prems"(1) pV by (simp add: kick_law_def)
      have run: "cpSearch cs m rnd t d = cpSearch cs m rnd ?t (d + 1)"
        using guard e b None p h by (subst cpSearch.simps) simp
      have mv: "moved V K H t ?t"
        using "1.prems"(2) ch_ok_cong [of V K H t ?t] guard lcp
        by (auto simp: moved_def entries_def cp_kick_nth)
      have "ch_keySize ?t = ch_keySize t" using cp_kick_simps(2) by (simp only: same_geometry_def)
      with "1.prems"(1) have law: "kick_law cs m (ch_keySize ?t) V K H" by simp
      have "cp_path V K H ?t (d + 1)"
        using "1.prems"(3) guard lcp p0 pV altIndex_range [OF sh]
        by (auto simp: cp_path_def Let_def cp_kick_nth le_Suc_eq less_Suc_eq
            same_geometry_altIndex [OF cp_kick_simps(2)])
      moreover have "ch_ok V K H ?t" using mv by (simp add: moved_def)
      ultimately obtain r t1 where
        "cpSearch cs m rnd ?t (d + 1) = Some (r, t1)" and m1: "moved V K H ?t t1"
        and "case r of None \<Rightarrow> True
             | Some c \<Rightarrow> c < MAX_CUCKOO_COUNT \<and> cp_path V K H t1 c \<and> slot_empty t1 c"
        using "1.IH" [OF guard e b None p h law] guard by auto
      with run moved_trans [OF mv m1] show ?thesis by auto
    qed
  qed
qed

lemma moved_kick:
  assumes ok: "ch_ok V K H t" and path: "cp_path V K H t (Suc d)" and em: "slot_empty t (Suc d)"
    and at: "ch_buckets t ! unat (cr_bucket (ch_cp t ! d)) ! cr_slot (ch_cp t ! d) = cr_ptr (ch_cp t ! d)"
  defines "t' \<equiv> set_slot (set_slot t (unat (cr_bucket (ch_cp t ! Suc d))) (cr_slot (ch_cp t ! Suc d))
                   (cr_ptr (ch_cp t ! d))) (unat (cr_bucket (ch_cp t ! d))) (cr_slot (ch_cp t ! d)) 0"
  shows "moved V K H t t'" and "cp_path V K H t' d" and "slot_empty t' d"
proof -
  let ?e = "ch_cp t ! d" and ?e' = "ch_cp t ! Suc d"
  from path have e: "cr_slot ?e < BUCKET_SIZE" "cr_ptr ?e \<noteq> 0" "cr_ptr ?e \<in> V"
    "cr_bucket ?e' = altIndex t (cr_bucket ?e) (tagHash (H (K (cr_ptr ?e))))"
    "unat (cr_bucket ?e) < length (ch_buckets t)" "unat (cr_bucket ?e') < length (ch_buckets t)"
    by (auto simp: cp_path_def Let_def)
  from em have e': "cr_slot ?e' < BUCKET_SIZE"
    "ch_buckets t ! unat (cr_bucket ?e') ! cr_slot ?e' = 0" by (auto simp: slot_empty_def)
  from ok have sh: "ch_shape t" by (simp add: ch_ok_def)
  have "cr_ptr ?e \<in> set (ch_buckets t ! unat (cr_bucket ?e))"
    using at e(1) bucket_length [OF sh e(5)] by (metis nth_mem)
  with ok e have "home t (H (K (cr_ptr ?e))) (unat (cr_bucket ?e))"
    by (auto simp: ch_ok_def)
  then have h: "home t (H (K (cr_ptr ?e))) (unat (cr_bucket ?e'))"
    using home_alt [OF sh] e(4) by simp
  note mv = ch_ok_move [OF ok e(5,1,6) e'(1) at e(2) e'(2) h, folded t'_def]
  have cp: "ch_cp t' = ch_cp t" by (simp add: t'_def)
  with mv(1,2,4) show "moved V K H t t'" by (simp add: moved_def)
  show "slot_empty t' d" using mv(3) e(1) cp by (simp add: slot_empty_def)
  have "length (ch_buckets t') = length (ch_buckets t)"
    using mv(4) by (simp add: same_geometry_def)
  with path cp show "cp_path V K H t' d"
    by (auto simp: cp_path_def Let_def same_geometry_altIndex [OF mv(4)])
qed

lemma cpBackmove_ok:
  assumes "ch_ok V K H t" and "cp_path V K H t d" and "d < MAX_CUCKOO_COUNT" and "slot_empty t d"
  shows "\<exists>d' t1. cpBackmove t d = Some (d', t1) \<and> moved V K H t t1 \<and> cp_path V K H t1 d'
    \<and> (d' = 0 \<longrightarrow> slot_empty t1 0)"
  using assms
proof (induction d arbitrary: t)
  case 0
  then show ?case by (simp add: moved_def)
next
  case (Suc d)
  let ?e = "ch_cp t ! d" and ?e' = "ch_cp t ! Suc d"
  from Suc.prems(1) have sh: "ch_shape t" by (simp add: ch_ok_def)
  then have lcp: "length (ch_cp t) = MAX_CUCKOO_COUNT" by (simp add: ch_shape_def)
  from Suc.prems(2) have i: "unat (cr_bucket ?e) < length (ch_buckets t)"
    "unat (cr_bucket ?e') < length (ch_buckets t)" "cr_slot ?e < BUCKET_SIZE"
    by (auto simp: cp_path_def Let_def)
  from Suc.prems(4) have e': "cr_slot ?e' < BUCKET_SIZE"
    "ch_buckets t ! unat (cr_bucket ?e') ! cr_slot ?e' = 0" by (auto simp: slot_empty_def)
  note reads = lcp Suc.prems(3) i e' bucket_length [OF sh i(1)] bucket_length [OF sh i(2)]
  show ?case
  proof (cases "ch_buckets t ! unat (cr_bucket ?e) ! cr_slot ?e = cr_ptr ?e")
    case False
    with reads have "cpBackmove t (Suc d) = Some (Suc d, t)"
      by (simp add: item_at_def)
    with Suc.prems show ?thesis by (auto simp: moved_def)
  next
    case at: True
    note mv = moved_kick [OF Suc.prems(1,2,4) at]
    let ?t = "set_slot (set_slot t (unat (cr_bucket ?e')) (cr_slot ?e') (cr_ptr ?e))
                (unat (cr_bucket ?e)) (cr_slot ?e) 0"
    from at reads have "cpBackmove t (Suc d) = cpBackmove ?t d"
      by (simp add: item_at_def)
    moreover have "ch_ok V K H ?t" using mv(1) by (simp add: moved_def)
    ultimately show ?thesis
      using Suc.IH [OF _ mv(2) _ mv(3)] Suc.prems(3) moved_trans [OF mv(1)] by fastforce
  qed
qed

lemma cuckoo_loop_ok:
  assumes "kick_law cs m (ch_keySize t) V K H" and "ch_ok V K H t" and "cp_path V K H t depth"
    and "depth < MAX_CUCKOO_COUNT"
  shows "\<exists>r t1. cuckoo_loop cs m rnd t depth = Some (r, t1) \<and> moved V K H t t1
    \<and> (r \<longrightarrow> slot_empty t1 0)"
  using assms
proof (induction cs m rnd t depth rule: cuckoo_loop.induct)
  case (1 cs m rnd t d)
  from cpSearch_ok [OF "1.prems", of rnd] obtain r t1 where
    s: "cpSearch cs m rnd t d = Some (r, t1)" and m1: "moved V K H t t1"
    and found: "case r of None \<Rightarrow> True
      | Some c \<Rightarrow> c < MAX_CUCKOO_COUNT \<and> cp_path V K H t1 c \<and> slot_empty t1 c" by blast
  show ?case
  proof (cases r)
    case None
    with s m1 show ?thesis by (subst cuckoo_loop.simps) auto
  next
    case r: (Some c)
    with found have c: "c < MAX_CUCKOO_COUNT" "cp_path V K H t1 c" "slot_empty t1 c" by simp_all
    from m1 have "ch_ok V K H t1" by (simp add: moved_def)
    from cpBackmove_ok [OF this c(2,1,3)] obtain d' t2 where
      b: "cpBackmove t1 c = Some (d', t2)" and m2: "moved V K H t1 t2" "cp_path V K H t2 d'"
      "d' = 0 \<longrightarrow> slot_empty t2 0" by blast
    have m12: "moved V K H t t2" using moved_trans [OF m1 m2(1)] .
    show ?thesis
    proof (cases "d' = 0")
      case True
      with s r b m12 m2(3) show ?thesis by (subst cuckoo_loop.simps) auto
    next
      case False
      have "kick_law cs m (ch_keySize t2) V K H" "ch_ok V K H t2"
        using "1.prems"(1) m12 by (simp_all add: moved_def same_geometry_def)
      moreover have "cp_path V K H t2 (d' - 1)"
        using m2(2) by (auto simp: cp_path_def)
      moreover have "d' - 1 < MAX_CUCKOO_COUNT"
        using cpBackmove_bound [OF b] c(1) by simp
      ultimately obtain r' t3 where "cuckoo_loop cs m rnd t2 (d' - 1) = Some (r', t3)"
        "moved V K H t2 t3" "r' \<longrightarrow> slot_empty t3 0"
        using "1.IH" [OF s refl r b refl False] by blast
      with s r b False moved_trans [OF m12] show ?thesis
        by (subst cuckoo_loop.simps) auto
    qed
  qed
qed

section \<open>The operations implement a finite map\<close>

lemma tryAdd_full: "unat i < length (ch_buckets t) \<Longrightarrow> 0 \<notin> set (ch_buckets t ! unat i) \<Longrightarrow> tryAdd t p i = Some (False, t)"
  by (simp add: tryAdd_def item_at_def first_empty_None split: option.split)

lemma tryAdd_ok:
  assumes ok: "ch_ok V K H t" and i: "unat i < length (ch_buckets t)" and h: "home t (H (K p)) (unat i)"
    and p: "p \<in> V" "p \<noteq> 0" and new: "K p \<notin> K ` set (entries t)" and em: "0 \<in> set (ch_buckets t ! unat i)"
  shows "\<exists>t1. tryAdd t p i = Some (True, t1) \<and> ch_ok V K H t1 \<and> same_geometry t t1
    \<and> mset (entries t1) = add_mset p (mset (entries t))"
proof -
  obtain j where fe: "first_empty (ch_buckets t ! unat i) = Some j"
    using em first_empty_None by (cases "first_empty (ch_buckets t ! unat i)") auto
  note j = first_empty_Some [OF fe]
  let ?t = "set_slot t (unat i) j p"
  from ok have sh: "ch_shape t" by (simp add: ch_ok_def)
  have m: "mset (entries ?t) = add_mset p (mset (entries t))"
    using mset_entries_set_slot [OF i, of j p] j p(2) by (simp add: opt_entry_def)
  have "q \<in> V \<and> home ?t (H (K q)) i'"
    if q: "i' < length (ch_buckets t)" "q \<in> set (ch_buckets ?t ! i')" "q \<noteq> 0" for i' q
  proof -
    from q i have "q \<in> set (ch_buckets t ! i') \<or> q = p \<and> i' = unat i"
      by (auto simp: set_slot_bucket split: if_splits dest!: subsetD [OF set_update_subset_insert])
    with ok q p h show ?thesis by (auto simp: ch_ok_def same_geometry_home [OF set_slot_geometry])
  qed
  moreover have "distinct (map K (entries ?t))"
  proof -
    have "distinct (map K (p # entries t))"
      using ok new by (auto simp: ch_ok_def)
    moreover have "mset (map K (entries ?t)) = mset (map K (p # entries t))"
      using m by (metis mset.simps(2) mset_map)
    ultimately show ?thesis using mset_eq_imp_distinct_iff by blast
  qed
  ultimately have "ch_ok V K H ?t"
    using ch_shape_set_slot [OF sh i] by (simp add: ch_ok_def)
  then show ?thesis
    using fe i m by (simp add: tryAdd_def item_at_def)
qed

lemma ch_abs_add:
  assumes "ch_ok V K H t" and "ch_ok V K H t1" and "mset (entries t1) = add_mset p (mset (entries t))"
  shows "ch_abs K t1 = (ch_abs K t)(K p \<mapsto> p)"
proof
  fix k
  from assms(1,2) have d: "distinct (map K (entries t))" "distinct (map K (entries t1))"
    by (simp_all add: ch_ok_def)
  from assms(3) have s: "set (entries t1) = insert p (set (entries t))"
    by (metis set_mset_add_mset_insert set_mset_mset)
  have "distinct (map K (p # entries t))"
    using d(2) mset_eq_imp_distinct_iff [of "map K (entries t1)" "map K (p # entries t)"] assms(3)
    by (metis mset.simps(2) mset_map)
  then have "K p \<notin> K ` set (entries t)" by simp
  then have "ch_abs K t1 k = Some q \<longleftrightarrow> ((ch_abs K t)(K p \<mapsto> p)) k = Some q" for q
    using s by (auto simp: ch_abs_eq_Some [OF d(1)] ch_abs_eq_Some [OF d(2)]) (metis image_eqI)
  then show "ch_abs K t1 k = ((ch_abs K t)(K p \<mapsto> p)) k"
    by (rule option_eqI)
qed

lemma scan_bucket_spec:
  assumes "\<And>p. p \<in> set b \<Longrightarrow> p \<noteq> 0 \<Longrightarrow> f p = Some (P p)"
  shows "\<exists>q. scan_bucket f b = Some q \<and> (q = 0 \<longrightarrow> (\<forall>p\<in>set b. p \<noteq> 0 \<longrightarrow> \<not> P p))
    \<and> (q \<noteq> 0 \<longrightarrow> q \<in> set b \<and> P q)"
  using assms by (induction b) auto

lemma del_slot_spec:
  assumes "\<And>p. p \<in> set b \<Longrightarrow> p \<noteq> 0 \<Longrightarrow> f p = Some (P p)"
  shows "(\<forall>p\<in>set b. p \<noteq> 0 \<longrightarrow> \<not> P p) \<and> del_slot f b = Some (False, b)
    \<or> (\<exists>j<length b. b ! j \<noteq> 0 \<and> P (b ! j) \<and> del_slot f b = Some (True, b[j := 0]))"
  using assms
proof (induction b)
  case Nil
  then show ?case by simp
next
  case (Cons p b)
  show ?case
  proof (cases "p \<noteq> 0 \<and> P p")
    case True
    with Cons.prems show ?thesis by (auto intro!: exI [of _ 0])
  next
    case False
    from Cons.IH Cons.prems consider
      "\<forall>p\<in>set b. p \<noteq> 0 \<longrightarrow> \<not> P p" "del_slot f b = Some (False, b)"
    | j where "j < length b" "b ! j \<noteq> 0" "P (b ! j)" "del_slot f b = Some (True, b[j := 0])"
      by auto
    then show ?thesis
    proof cases
      case 1
      with False Cons.prems show ?thesis by auto
    next
      case (2 j)
      with False Cons.prems show ?thesis by (auto intro!: exI [of _ "Suc j"])
    qed
  qed
qed

locale cuckoo_view =
  fixes cs :: u32 and m :: memory and ksz :: u8
    and V :: "nat set" and K :: "nat \<Rightarrow> 'k" and H :: "'k \<Rightarrow> u32"
    and arg :: "byte list \<Rightarrow> u8 \<Rightarrow> bool \<Rightarrow> 'k \<Rightarrow> bool"
  assumes null: "0 \<notin> V"
    and kicks: "p \<in> V \<Longrightarrow> kick_hash cs m ksz p = Some (H (K p))"
    and hashes: "arg key sz large k \<Longrightarrow> arg_hash key sz large = Some (H k)"
    and matches: "arg key sz large k \<Longrightarrow> p \<in> V \<Longrightarrow> entry_matches cs m ksz key sz large p = Some (K p = k)"
begin

lemma law: "ch_keySize t = ksz \<Longrightarrow> kick_law cs m (ch_keySize t) V K H"
  by (simp add: kick_law_def kicks)

lemma scan:
  assumes "ch_ok V K H t" and "ch_keySize t = ksz" and "arg key sz large k" and "i < length (ch_buckets t)"
  obtains q where "scan_bucket (entry_matches cs m (ch_keySize t) key sz large) (ch_buckets t ! i) = Some q"
    and "q = 0 \<longrightarrow> (\<forall>p\<in>set (ch_buckets t ! i). p \<noteq> 0 \<longrightarrow> K p \<noteq> k)"
    and "q \<noteq> 0 \<longrightarrow> ch_abs K t k = Some q"
proof -
  have f: "entry_matches cs m (ch_keySize t) key sz large p = Some (K p = k)"
    if "p \<in> set (ch_buckets t ! i)" "p \<noteq> 0" for p
    using that assms matches by (auto simp: ch_ok_def)
  have d: "distinct (map K (entries t))" using assms(1) by (simp add: ch_ok_def)
  show thesis
    using scan_bucket_spec [of "ch_buckets t ! i" "entry_matches cs m (ch_keySize t) key sz large"
        "\<lambda>p. K p = k"] f that assms(4)
    by (metis (no_types, lifting) ch_abs_eq_Some [OF d] entry_in_bucket)
qed

lemma abs_home:
  assumes "ch_ok V K H t" and "ch_abs K t k = Some p"
  obtains i where "i < length (ch_buckets t)" and "p \<in> set (ch_buckets t ! i)" and "home t (H k) i"
    and "p \<noteq> 0" and "K p = k"
proof -
  have "distinct (map K (entries t))" using assms(1) by (simp add: ch_ok_def)
  with assms(2) have "p \<in> set (entries t)" "K p = k" by (simp_all add: ch_abs_eq_Some)
  with assms(1) that show ?thesis unfolding entry_in_bucket ch_ok_def by blast
qed

lemma find_abs:
  assumes ok: "ch_ok V K H t" and ksz: "ch_keySize t = ksz" and k: "arg key sz large k"
  shows "ch_find cs m t key sz large = Some (case ch_abs K t k of None \<Rightarrow> 0 | Some p \<Rightarrow> p)"
proof -
  from ok have sh: "ch_shape t" by (simp add: ch_ok_def)
  obtain i1 i2 where hm: "homes t (H k) = Some (i1, i2)"
    and r: "unat i1 < length (ch_buckets t)" "unat i2 < length (ch_buckets t)"
    and home: "\<And>i. home t (H k) i \<longleftrightarrow> i = unat i1 \<or> i = unat i2"
    using homes_home [OF sh, of "H k"] by metis
  obtain q1 where q1: "scan_bucket (entry_matches cs m (ch_keySize t) key sz large) (ch_buckets t ! unat i1) = Some q1"
    "q1 = 0 \<longrightarrow> (\<forall>p\<in>set (ch_buckets t ! unat i1). p \<noteq> 0 \<longrightarrow> K p \<noteq> k)" "q1 \<noteq> 0 \<longrightarrow> ch_abs K t k = Some q1"
    using scan [OF ok ksz k r(1)] by metis
  obtain q2 where q2: "scan_bucket (entry_matches cs m (ch_keySize t) key sz large) (ch_buckets t ! unat i2) = Some q2"
    "q2 = 0 \<longrightarrow> (\<forall>p\<in>set (ch_buckets t ! unat i2). p \<noteq> 0 \<longrightarrow> K p \<noteq> k)" "q2 \<noteq> 0 \<longrightarrow> ch_abs K t k = Some q2"
    using scan [OF ok ksz k r(2)] by metis
  have "ch_abs K t k = None" if "q1 = 0" "q2 = 0"
  proof (rule ccontr)
    assume "ch_abs K t k \<noteq> None"
    then obtain p where "ch_abs K t k = Some p" by blast
    with abs_home [OF ok this] home that q1(2) q2(2) show False by metis
  qed
  with q1 q2 hm r hashes [OF k] show ?thesis
    by (auto simp: ch_find_def item_at_def)
qed

lemma insert_abs:
  assumes ok: "ch_ok V K H t" and ksz: "ch_keySize t = ksz" and k: "arg key sz large k"
    and p: "p \<in> V" "K p = k" and new: "ch_abs K t k = None"
  shows "\<exists>r t'. ch_insert cs m rnd t key sz p large = Some (r, t') \<and> ch_ok V K H t' \<and> ch_keySize t' = ksz
    \<and> ch_abs K t' = (if r then (ch_abs K t)(k \<mapsto> p) else ch_abs K t)"
proof -
  from ok have sh: "ch_shape t" by (simp add: ch_ok_def)
  from p null have p0: "p \<noteq> 0" by metis
  have d: "distinct (map K (entries t))" using ok by (simp add: ch_ok_def)
  have fresh: "K p \<notin> K ` set (entries t)"
    using new p(2) ch_abs_eq_Some [OF d, of k] by fastforce
  obtain i1 i2 where hm: "homes t (H k) = Some (i1, i2)"
    and r: "unat i1 < length (ch_buckets t)" "unat i2 < length (ch_buckets t)"
    and home: "\<And>i. home t (H k) i \<longleftrightarrow> i = unat i1 \<or> i = unat i2"
    using homes_home [OF sh, of "H k"] by metis
  have added: "ch_ok V K H t' \<and> ch_keySize t' = ksz \<and> ch_abs K t' = (ch_abs K t)(k \<mapsto> p)"
    if "ch_ok V K H t'" "same_geometry t t'" "mset (entries t') = add_mset p (mset (entries t))" for t'
    using that ksz p(2) ch_abs_add [OF ok that(1,3)] by (simp add: same_geometry_def)
  consider (first) "0 \<in> set (ch_buckets t ! unat i1)"
    | (second) "0 \<notin> set (ch_buckets t ! unat i1)" "0 \<in> set (ch_buckets t ! unat i2)"
    | (kick) "0 \<notin> set (ch_buckets t ! unat i1)" "0 \<notin> set (ch_buckets t ! unat i2)" by blast
  then show ?thesis
  proof cases
    case first
    with tryAdd_ok [OF ok r(1) _ p(1) p0 fresh] home p(2) obtain t1 where
      "tryAdd t p i1 = Some (True, t1)" "ch_ok V K H t1" "same_geometry t t1"
      "mset (entries t1) = add_mset p (mset (entries t))" by metis
    with added hm hashes [OF k] show ?thesis by (auto simp: ch_insert_def)
  next
    case second
    with tryAdd_ok [OF ok r(2) _ p(1) p0 fresh] home p(2) obtain t1 where
      "tryAdd t p i2 = Some (True, t1)" "ch_ok V K H t1" "same_geometry t t1"
      "mset (entries t1) = add_mset p (mset (entries t))" by metis
    with added hm hashes [OF k] second tryAdd_full [OF r(1)] show ?thesis
      by (auto simp: ch_insert_def)
  next
    case kick
    let ?t = "(cp_update 0 (\<lambda>e. e\<lparr>cr_bucket := i2\<rparr>) t)\<lparr>ch_kickCount := 0\<rparr>"
    have lcp: "length (ch_cp t) = MAX_CUCKOO_COUNT" using sh by (simp add: ch_shape_def)
    have g: "same_geometry t ?t" "ch_buckets ?t = ch_buckets t" by (simp_all add: same_geometry_def cp_update_def)
    then have okt: "ch_ok V K H ?t" and kt: "ch_keySize ?t = ksz" and et: "entries ?t = entries t"
      using ch_ok_cong [OF ok] ksz by (auto simp: same_geometry_def entries_def)
    have b0: "cr_bucket (ch_cp ?t ! 0) = i2" using lcp by simp
    have "cp_path V K H ?t 0" using r(2) b0 g(2) by (simp add: cp_path_def)
    with cuckoo_loop_ok [OF law [OF kt] okt, of 0 rnd] obtain f t1 where
      run: "cuckoo_loop cs m rnd ?t 0 = Some (f, t1)" and mv: "moved V K H ?t t1"
      and em: "f \<longrightarrow> slot_empty t1 0" by auto
    from mv et b0 have t1: "ch_ok V K H t1" "same_geometry t t1" "mset (entries t1) = mset (entries t)"
      "cr_bucket (ch_cp t1 ! 0) = i2"
      using same_geometry_trans [OF g(1)] by (auto simp: moved_def)
    have keep: "ch_abs K t1 = ch_abs K t" using ch_abs_cong [OF d t1(3)] .
    have c: "cuckoo cs m rnd (cp_update 0 (\<lambda>e. e\<lparr>cr_bucket := i2\<rparr>) t) 0 = Some (f, t1)"
      using run by (simp add: cuckoo_def)
    note start = hm hashes [OF k] tryAdd_full [OF r(1) kick(1)] tryAdd_full [OF r(2) kick(2)] c
    show ?thesis
    proof (cases f)
      case False
      with start t1 keep ksz show ?thesis by (auto simp: ch_insert_def same_geometry_def)
    next
      case True
      have len: "length (ch_buckets t1) = length (ch_buckets t)" "length (ch_cp t1) = MAX_CUCKOO_COUNT"
        using t1(2) lcp by (simp_all add: same_geometry_def)
      have "ch_shape t1" using t1(1) by (simp add: ch_ok_def)
      then have "length (ch_buckets t1 ! unat i2) = BUCKET_SIZE"
        using bucket_length r(2) len by simp
      then have "0 \<in> set (ch_buckets t1 ! unat i2)"
        using em True t1(4) by (metis nth_mem slot_empty_def)
      moreover have "home t1 (H (K p)) (unat i2)"
        using home p(2) same_geometry_home [OF t1(2)] by simp
      moreover have "K p \<notin> K ` set (entries t1)"
        using fresh mset_eq_setD [OF t1(3)] by simp
      ultimately obtain t2 where t2: "tryAdd t1 p i2 = Some (True, t2)" "ch_ok V K H t2" "same_geometry t1 t2"
        "mset (entries t2) = add_mset p (mset (entries t))"
        using tryAdd_ok [OF t1(1), of i2 p] r(2) len p(1) p0 t1(3) by metis
      with start True t1(4) len added [OF t2(2) same_geometry_trans [OF t1(2) t2(3)] t2(4)] show ?thesis
        by (auto simp: ch_insert_def item_at_def)
    qed
  qed
qed

lemma tryDel_abs:
  assumes ok: "ch_ok V K H t" and ksz: "ch_keySize t = ksz" and k: "arg key sz large k"
    and i: "unat i < length (ch_buckets t)"
  shows "(\<forall>p\<in>set (ch_buckets t ! unat i). p \<noteq> 0 \<longrightarrow> K p \<noteq> k) \<and> tryDel cs m t key sz i large = Some (False, t)
    \<or> (\<exists>t'. tryDel cs m t key sz i large = Some (True, t') \<and> ch_ok V K H t' \<and> same_geometry t t'
         \<and> ch_abs K t' = (ch_abs K t)(k := None))"
proof -
  let ?b = "ch_buckets t ! unat i"
  have f: "entry_matches cs m (ch_keySize t) key sz large p = Some (K p = k)" if "p \<in> set ?b" "p \<noteq> 0" for p
    using that ok ksz k i matches by (auto simp: ch_ok_def)
  from ok have sh: "ch_shape t" and d: "distinct (map K (entries t))" by (simp_all add: ch_ok_def)
  from del_slot_spec [of ?b "entry_matches cs m (ch_keySize t) key sz large" "\<lambda>p. K p = k", OF f]
  consider (miss) "\<forall>p\<in>set ?b. p \<noteq> 0 \<longrightarrow> K p \<noteq> k"
      "del_slot (entry_matches cs m (ch_keySize t) key sz large) ?b = Some (False, ?b)"
    | (hit) j where "j < length ?b" "?b ! j \<noteq> 0" "K (?b ! j) = k"
      "del_slot (entry_matches cs m (ch_keySize t) key sz large) ?b = Some (True, ?b[j := 0])" by blast
  then show ?thesis
  proof cases
    case miss
    with i show ?thesis by (simp add: tryDel_def item_at_def)
  next
    case (hit j)
    let ?t = "set_slot t (unat i) j 0"
    have run: "tryDel cs m t key sz i large = Some (True, ?t)"
      using hit i by (simp add: tryDel_def item_at_def set_slot_def)
    have m: "mset (entries t) = add_mset (?b ! j) (mset (entries ?t))"
      using mset_entries_set_slot [OF i hit(1), of 0] hit(2) by (simp add: opt_entry_def)
    have "distinct (map K (?b ! j # entries ?t))"
      using d mset_eq_imp_distinct_iff [of "map K (entries t)" "map K (?b ! j # entries ?t)"] m
      by (metis mset.simps(2) mset_map)
    then have d': "distinct (map K (entries ?t))" and new: "k \<notin> K ` set (entries ?t)"
      using hit(3) by auto
    have "q \<in> V \<and> home ?t (H (K q)) i'"
      if "i' < length (ch_buckets t)" "q \<in> set (ch_buckets ?t ! i')" "q \<noteq> 0" for i' q
    proof -
      have "q \<in> set (ch_buckets t ! i')"
        using that i by (auto simp: set_slot_bucket split: if_splits
            dest!: subsetD [OF set_update_subset_insert])
      with ok that show ?thesis by (auto simp: ch_ok_def same_geometry_home [OF set_slot_geometry])
    qed
    with d' ch_shape_set_slot [OF sh i] have okt: "ch_ok V K H ?t" by (simp add: ch_ok_def)
    have "ch_abs K t = (ch_abs K ?t)(k \<mapsto> ?b ! j)"
      using ch_abs_add [OF okt ok m] hit(3) by simp
    moreover have "ch_abs K ?t k = None"
      using new ch_abs_eq_Some [OF d', of k] by (metis image_eqI not_None_eq)
    ultimately have "ch_abs K ?t = (ch_abs K t)(k := None)" by (simp add: fun_eq_iff)
    with run okt show ?thesis by auto
  qed
qed

lemma del_abs:
  assumes ok: "ch_ok V K H t" and ksz: "ch_keySize t = ksz" and k: "arg key sz large k"
  shows "\<exists>t'. ch_del cs m t key sz large = Some t' \<and> ch_ok V K H t' \<and> ch_keySize t' = ksz
    \<and> ch_abs K t' = (ch_abs K t)(k := None)"
proof -
  from ok have sh: "ch_shape t" by (simp add: ch_ok_def)
  obtain i1 i2 where hm: "homes t (H k) = Some (i1, i2)"
    and r: "unat i1 < length (ch_buckets t)" "unat i2 < length (ch_buckets t)"
    and home: "\<And>i. home t (H k) i \<longleftrightarrow> i = unat i1 \<or> i = unat i2"
    using homes_home [OF sh, of "H k"] by metis
  have keep: "ch_keySize t' = ksz" if "same_geometry t t'" for t'
    using that ksz by (simp add: same_geometry_def)
  from tryDel_abs [OF ok ksz k r(1)] show ?thesis
  proof (elim disjE exE conjE)
    fix t' assume "tryDel cs m t key sz i1 large = Some (True, t')" "ch_ok V K H t'" "same_geometry t t'"
      "ch_abs K t' = (ch_abs K t)(k := None)"
    with hm hashes [OF k] keep show ?thesis by (auto simp: ch_del_def)
  next
    assume miss1: "\<forall>p\<in>set (ch_buckets t ! unat i1). p \<noteq> 0 \<longrightarrow> K p \<noteq> k"
      "tryDel cs m t key sz i1 large = Some (False, t)"
    from tryDel_abs [OF ok ksz k r(2)] show ?thesis
    proof (elim disjE exE conjE)
      fix t' assume "tryDel cs m t key sz i2 large = Some (True, t')" "ch_ok V K H t'" "same_geometry t t'"
        "ch_abs K t' = (ch_abs K t)(k := None)"
      with hm hashes [OF k] miss1 keep show ?thesis by (auto simp: ch_del_def)
    next
      assume miss2: "\<forall>p\<in>set (ch_buckets t ! unat i2). p \<noteq> 0 \<longrightarrow> K p \<noteq> k"
        "tryDel cs m t key sz i2 large = Some (False, t)"
      have "ch_abs K t k = None"
      proof (rule ccontr)
        assume "ch_abs K t k \<noteq> None"
        then obtain p where "ch_abs K t k = Some p" by blast
        with abs_home [OF ok this] home miss1 miss2 show False by metis
      qed
      then have "(ch_abs K t)(k := None) = ch_abs K t" by (simp add: fun_eq_iff)
      with hm hashes [OF k] miss1 miss2 ok ksz show ?thesis by (auto simp: ch_del_def)
    qed
  qed
qed

lemma init_abs:
  assumes "ch_init pw ksz0 cp0 = Some t" and "pw \<noteq> 0" and "length cp0 = MAX_CUCKOO_COUNT"
  shows "ch_ok V K H (ch_setKeySize ksz t)" and "ch_keySize (ch_setKeySize ksz t) = ksz"
    and "ch_abs K (ch_setKeySize ksz t) = Map.empty"
proof -
  from assms have p: "0 < unat pw" "unat pw < 32"
    by (auto simp: ch_init_def unat_gt_0 split: if_splits)
  have sz: "unat (push_bit (unat pw) 1 :: u32) = 2 ^ unat pw"
    using p(2) power_strict_increasing [of "unat pw" 32 "2::nat"]
      unat_of_nat_eq [of "2 ^ unat pw", where ?'a = 32] by (simp add: push_bit_eq_mult)
  have "push_bit (unat pw) 1 - 1 = (mask (unat pw) :: u32)"
    by (simp add: mask_eq_exp_minus_1 push_bit_eq_mult)
  with assms p sz have e: "ch_buckets t = replicate (2 ^ unat pw) (replicate BUCKET_SIZE 0)"
    "ch_hashPower t = pw" "ch_hashMask t = mask (unat pw)" "ch_cp t = cp0"
    by (auto simp: ch_init_def Let_def split: if_splits)
  then have "entries (ch_setKeySize ksz t) = []"
    by (auto simp: entries_def ch_setKeySize_def filter_empty_conv)
  with e p assms(3) show "ch_ok V K H (ch_setKeySize ksz t)" "ch_abs K (ch_setKeySize ksz t) = Map.empty"
    by (auto simp: ch_ok_def ch_shape_def ch_setKeySize_def ch_abs_def)
  show "ch_keySize (ch_setKeySize ksz t) = ksz" by (simp add: ch_setKeySize_def)
qed

end

end
