(* ===== verification/CuckooMap.thy ===== *)
theory CuckooMap
  imports CuckooHash
begin

text \<open>
  The two uses of the cuckoo table in \<^verbatim>\<open>server/ds/map.hh\<close>: the chunks of a server, whose key is
  the identifier in front of the chunk (a fixed number of bytes), and its objects, whose key is
  part of the serialised object (key size 0). Both are interpretations of the locale of the
  table; large objects are left out of the second, and the last theorem shows why they must be.
\<close>

section \<open>Entries with a key of fixed size\<close>

definition fixed_entries :: "memory \<Rightarrow> u8 \<Rightarrow> nat set" where
  "fixed_entries m ksz = {p. p \<noteq> 0 \<and> ksz \<noteq> 0 \<and> p + unat ksz \<le> length m}"

definition fixed_key :: "memory \<Rightarrow> u8 \<Rightarrow> nat \<Rightarrow> byte list" where
  "fixed_key m ksz p = seg p (unat ksz) m"

definition fixed_arg :: "u8 \<Rightarrow> byte list \<Rightarrow> u8 \<Rightarrow> bool \<Rightarrow> byte list \<Rightarrow> bool" where
  "fixed_arg ksz key sz large k \<longleftrightarrow> ksz \<noteq> 0 \<and> sz = ksz \<and> \<not> large \<and> peek key 0 (unat ksz) = Some k"

lemma arg_hash_small: "unat sz \<le> length key \<Longrightarrow> arg_hash key sz False = Some (hash_of (take (unat sz) key))"
  by (simp add: arg_hash_def hash_eq_hash_of)

interpretation fixed: cuckoo_view cs m ksz "fixed_entries m ksz" "fixed_key m ksz" hash_of "fixed_arg ksz"
proof (unfold_locales, goal_cases)
  case 1
  then show ?case by (simp add: fixed_entries_def)
next
  case (2 p)
  then show ?case
    by (auto simp: fixed_entries_def fixed_key_def kick_hash_def hash_eq_hash_of seg_def)
next
  case (3 key sz large k)
  then show ?case
    by (simp add: fixed_arg_def peek_Some_iff arg_hash_small seg_def)
next
  case (4 key sz large k p)
  then show ?case
    by (auto simp: fixed_arg_def fixed_entries_def fixed_key_def entry_matches_def peek_Some_iff peek_def)
qed

section \<open>Serialised small objects\<close>

definition object_key :: "u32 \<Rightarrow> memory \<Rightarrow> nat \<Rightarrow> byte list" where
  "object_key cs m p =
     (case deserialize cs m p of
        None \<Rightarrow> [] | Some ob \<Rightarrow> seg (obj_key ob) (unat (obj_keySize ob)) m)"

text \<open>
  A small object whose key has no zero byte. The comparison of keys, \<^verbatim>\<open>Key::equal\<close>, uses \<^verbatim>\<open>strncmp\<close>, which stops at a zero byte, while the
  hash covers the whole key: with such keys the table is no map on keys, and they are left out.
\<close>

definition small_object :: "u32 \<Rightarrow> memory \<Rightarrow> nat \<Rightarrow> bool" where
  "small_object cs m p \<longleftrightarrow> p \<noteq> 0 \<and>
     (case deserialize cs m p of
        None \<Rightarrow> False
      | Some ob \<Rightarrow>
          map_option fst (isLarge cs (obj_keySize ob) (obj_valueSize ob)) = Some False
          \<and> obj_key ob + unat (obj_keySize ob) \<le> length m)
     \<and> 0 \<notin> set (object_key cs m p)"

definition object_arg :: "byte list \<Rightarrow> u8 \<Rightarrow> bool \<Rightarrow> byte list \<Rightarrow> bool" where
  "object_arg key sz large k \<longleftrightarrow> \<not> large \<and> peek key 0 (unat sz) = Some k \<and> 0 \<notin> set k"

lemma small_objectE:
  assumes "small_object cs m p"
  obtains ob x where "deserialize cs m p = Some ob"
    and "isLarge cs (obj_keySize ob) (obj_valueSize ob) = Some (False, x)"
    and "obj_key ob + unat (obj_keySize ob) \<le> length m"
    and "object_key cs m p = seg (obj_key ob) (unat (obj_keySize ob)) m"
    and "0 \<notin> set (object_key cs m p)" and "p \<noteq> 0"
  using assms by (auto simp: small_object_def object_key_def split: option.splits)

lemma entry_matches_small:
  assumes "small_object cs m p" and "object_arg key sz large k"
  shows "entry_matches cs m 0 key sz large p = Some (object_key cs m p = k)"
proof -
  from assms(2) have k: "\<not> large" "unat sz \<le> length key" "k = take (unat sz) key" "0 \<notin> set k"
    by (auto simp: object_arg_def peek_Some_iff seg_def)
  from assms(1) obtain ob x where ob: "deserialize cs m p = Some ob"
    "isLarge cs (obj_keySize ob) (obj_valueSize ob) = Some (False, x)"
    "obj_key ob + unat (obj_keySize ob) \<le> length m"
    "object_key cs m p = take (unat (obj_keySize ob)) (drop (obj_key ob) m)"
    "0 \<notin> set (object_key cs m p)"
    by (auto elim!: small_objectE simp: seg_def)
  let ?k = "\<lparr>key_size = obj_keySize ob, key_data = drop (obj_key ob) m, key_isLarge = False, key_ptr = 0\<rparr>"
  have "kv_key cs m p True = Some ?k"
    using ob(1,2) by (cases x) (simp add: kv_key_def)
  moreover have "key_equal ?k (key_set sz key 0 large)
      = Some (obj_keySize ob = sz \<and> key_string ?k = key_string (key_set sz key 0 large))"
    using k(1,2) ob(3) by (subst key_equal_string) (auto simp: readable_def key_bytes_def key_set_def)
  moreover have "key_string ?k = object_key cs m p" "key_string (key_set sz key 0 large) = k"
    using ob(4,5) k by (simp_all add: key_string_def key_bytes_def key_set_def cstr_nul_free)
  moreover have "length (object_key cs m p) = unat (obj_keySize ob)" "length k = unat sz"
    using ob(3,4) k(2,3) by simp_all
  ultimately show ?thesis
    by (auto simp: entry_matches_def word_unat_eq_iff)
qed

interpretation objects: cuckoo_view cs m 0 "Collect (small_object cs m)" "object_key cs m" hash_of object_arg
proof (unfold_locales, goal_cases)
  case 1
  then show ?case by (simp add: small_object_def)
next
  case (2 p)
  then have "small_object cs m p" by simp
  then obtain ob x where "deserialize cs m p = Some ob"
    "isLarge cs (obj_keySize ob) (obj_valueSize ob) = Some (False, x)"
    "obj_key ob + unat (obj_keySize ob) \<le> length m"
    "object_key cs m p = seg (obj_key ob) (unat (obj_keySize ob)) m"
    by (auto elim: small_objectE)
  then show ?case by (cases x) (simp add: kick_hash_def hash_eq_hash_of seg_def)
next
  case (3 key sz large k)
  then show ?case by (simp add: object_arg_def peek_Some_iff arg_hash_small seg_def)
next
  case (4 key sz large k p)
  then show ?case by (simp add: entry_matches_small)
qed

section \<open>Large objects\<close>

text \<open>What the kick hashes: the three bytes in front of the key, which hold the size of the value.\<close>

lemma kick_hash_large:
  assumes "deserialize cs m p = Some ob"
    and "isLarge cs (obj_keySize ob) (obj_valueSize ob) = Some (True, x)"
    and "obj_key ob + unat (obj_keySize ob) \<le> length m"
  shows "kick_hash cs m 0 p = Some (hash_of (seg (p + 1) (3 + unat (obj_keySize ob)) m))"
proof -
  have k: "obj_key ob = p + 4"
    using assms(1,2) by (auto simp: deserialize_def bind_eq_Some_conv Let_def split: if_splits)
  have "unat (ucast (obj_keySize ob) + 3 :: u32) = unat (obj_keySize ob) + 3"
    using unat_u8_less [of "obj_keySize ob"] by (subst unat_plus_eq) auto
  with assms k show ?thesis
    by (cases x) (simp add: kick_hash_def hash_eq_hash_of seg_def add.commute)
qed

text \<open>C20. A table that holds small objects whose keys have no zero byte is a finite map on such keys (keys that differ only behind a zero byte would be taken for the same, as Key::equal stops there): find returns the entry of the key or the null pointer; the insertion of a new key always returns, binds the key if it reports success and changes no binding otherwise, however many entries it kicks and whatever rand returns; del removes the binding of the key and no other. Each keeps the invariant: every entry is in one of the two buckets of its key, and no key is stored twice.\<close>

theorem cuckoo_objects_refine_map:
  assumes "ch_ok (Collect (small_object cs m)) (object_key cs m) hash_of t" and "ch_keySize t = 0"
    and "object_arg key sz large k"
  shows "ch_find cs m t key sz large
      = Some (case ch_abs (object_key cs m) t k of None \<Rightarrow> 0 | Some p \<Rightarrow> p)
    \<and> (small_object cs m p \<and> object_key cs m p = k \<and> ch_abs (object_key cs m) t k = None \<longrightarrow>
       (\<exists>r t'. ch_insert cs m rnd t key sz p large = Some (r, t')
          \<and> ch_ok (Collect (small_object cs m)) (object_key cs m) hash_of t' \<and> ch_keySize t' = 0
          \<and> ch_abs (object_key cs m) t'
              = (if r then (ch_abs (object_key cs m) t)(k \<mapsto> p) else ch_abs (object_key cs m) t)))
    \<and> (\<exists>t'. ch_del cs m t key sz large = Some t'
          \<and> ch_ok (Collect (small_object cs m)) (object_key cs m) hash_of t' \<and> ch_keySize t' = 0
          \<and> ch_abs (object_key cs m) t' = (ch_abs (object_key cs m) t)(k := None))"
proof (intro conjI impI)
  show "ch_find cs m t key sz large = Some (case ch_abs (object_key cs m) t k of None \<Rightarrow> 0 | Some p \<Rightarrow> p)"
    using assms by (rule objects.find_abs)
  show "\<exists>t'. ch_del cs m t key sz large = Some t'
      \<and> ch_ok (Collect (small_object cs m)) (object_key cs m) hash_of t' \<and> ch_keySize t' = 0
      \<and> ch_abs (object_key cs m) t' = (ch_abs (object_key cs m) t)(k := None)"
    using assms by (rule objects.del_abs)
next
  assume "small_object cs m p \<and> object_key cs m p = k \<and> ch_abs (object_key cs m) t k = None"
  then show "\<exists>r t'. ch_insert cs m rnd t key sz p large = Some (r, t')
      \<and> ch_ok (Collect (small_object cs m)) (object_key cs m) hash_of t' \<and> ch_keySize t' = 0
      \<and> ch_abs (object_key cs m) t'
          = (if r then (ch_abs (object_key cs m) t)(k \<mapsto> p) else ch_abs (object_key cs m) t)"
    using objects.insert_abs [OF assms] by simp
qed

text \<open>A table of the two objects a and c, in the two buckets their hashes give.\<close>

definition demo_memory :: memory where
  "demo_memory = [0, 1, 0, 0, 1, 97, 7, 1, 0, 0, 1, 99, 7]"

definition demo_table :: CuckooHash where
  "demo_table = \<lparr>ch_keySize = 0, ch_size = 2, ch_hashPower = 1, ch_hashMask = 1,
     ch_buckets = [[0, 0, 0, 0], [0, 1, 0, 0]], ch_kickCount = 0,
     ch_cp = replicate 500 \<lparr>cr_bucket = 0, cr_slot = 0, cr_ptr = 0\<rparr>\<rparr>"

lemma demo_ok: "ch_ok (Collect (small_object 16 demo_memory)) (object_key 16 demo_memory) hash_of demo_table"
proof -
  have "small_object 16 demo_memory 1" "object_key 16 demo_memory 1 = [97]" by code_simp+
  moreover have "indexHash demo_table (hash_of [97]) = Some 1" by code_simp
  ultimately show ?thesis
    by (simp add: ch_ok_def ch_shape_def demo_table_def entries_def home_def mask_eq_exp_minus_1
        less_Suc_eq numeral_2_eq_2)
qed

theorem cuckoo_objects_refine_map_witness:
  "ch_find 16 demo_memory demo_table [97] 1 False = Some 1
    \<and> (\<exists>r t'. ch_insert 16 demo_memory (\<lambda>_. 0) demo_table [99] 1 7 False = Some (r, t'))"
proof -
  have abs: "ch_abs (object_key 16 demo_memory) demo_table [97] = Some 1"
    "ch_abs (object_key 16 demo_memory) demo_table [99] = None" by code_simp+
  have arg: "object_arg [97] 1 False [97]" "object_arg [99] 1 False [99]" by code_simp+
  have obj: "small_object 16 demo_memory 7" "object_key 16 demo_memory 7 = [99]" by code_simp+
  have k: "ch_keySize demo_table = 0" by (simp add: demo_table_def)
  show ?thesis
    using cuckoo_objects_refine_map [OF demo_ok k arg(1)]
      cuckoo_objects_refine_map [OF demo_ok k arg(2), of 7 "\<lambda>_. 0"] abs obj by auto
qed

text \<open>A kick can lose a large object: the hash of an entry that is kicked starts three bytes before its key, where the size of the value is, while insert and find hash the key and the split offset behind it. A table of two buckets holds a large object and three small ones; find returns the large object. The insertion of a fourth small object succeeds, and afterwards the large object is still an entry of the table but find does not return it any more.\<close>

theorem cuckoo_kick_loses_large_object:
  "let m = [0, 1, 0, 0, 21, 97, 0, 0, 0, 1, 2, 3, 4, 5, 6, 7, 8,
            1, 0, 0, 1, 99, 9, 1, 0, 0, 1, 101, 9, 1, 0, 0, 1, 103, 9, 1, 0, 0, 1, 105, 9];
       cp0 = replicate 500 \<lparr>cr_bucket = 0, cr_slot = 0, cr_ptr = 0\<rparr>
   in do { t \<leftarrow> ch_init 1 0 cp0;
           (_, t) \<leftarrow> ch_insert 16 m (\<lambda>_. 0) t [97, 0, 0, 0] 1 1 True;
           (_, t) \<leftarrow> ch_insert 16 m (\<lambda>_. 0) t [99] 1 17 False;
           (_, t) \<leftarrow> ch_insert 16 m (\<lambda>_. 0) t [101] 1 23 False;
           (_, t) \<leftarrow> ch_insert 16 m (\<lambda>_. 0) t [103] 1 29 False;
           before \<leftarrow> ch_find 16 m t [97, 0, 0, 0] 1 True;
           (r, t) \<leftarrow> ch_insert 16 m (\<lambda>_. 0) t [105] 1 35 False;
           after \<leftarrow> ch_find 16 m t [97, 0, 0, 0] 1 True;
           Some (before, r, after, 1 \<in> set (entries t)) }
      = Some (1, True, 0, True)"
  by code_simp

end
