(* ===== verification/ServerMap.thy ===== *)
theory ServerMap
  imports CuckooMap HashedTable Ids "HOL-Library.Monad_Syntax"
begin

text \<open>
  The index of a server, \<^verbatim>\<open>server/ds/map.{hh,cc}\<close>: the cuckoo tables of its objects and of its
  chunks, the stripe ids in use in each list, the forwarded keys and chunks, and the operations and
  sealed chunks that wait for the next heartbeat. Objects and chunks are pointers into the memory
  \<open>m\<close> of the server. The locks only serialise the operations. \<open>rnd\<close> gives the numbers of
  \<^verbatim>\<open>rand()\<close>, as for the cuckoo table.
\<close>

record ServerMap =
  sv_timestamp :: Timestamp
  sv_keys :: CuckooHash
  sv_chunks :: CuckooHash
  sv_stripeIds :: "u32 \<Rightarrow> u32 set"
  sv_forwardedKeys :: "(Key, Metadata) um"
  sv_forwardedChunks :: "(Metadata, Metadata) um"
  sv_ops :: "(Key, OpMetadata) um"
  sv_sealed :: "(Metadata, unit) um"

abbreviation (input) PROTO_OPCODE_DELETE :: u8 where "PROTO_OPCODE_DELETE \<equiv> 0x04"

text \<open>The tables have the default size; \<open>ksz0\<close> and \<open>cp0\<close> are as in \<^term>\<open>ch_init\<close>.\<close>

definition sv_init :: "u8 \<Rightarrow> cuckoo_record list \<Rightarrow> Timestamp \<Rightarrow> ServerMap option" where
  "sv_init ksz0 cp0 ts =
     do { t \<leftarrow> ch_init 25 ksz0 cp0;
          Some \<lparr>sv_timestamp = ts, sv_keys = ch_setKeySize 0 t, sv_chunks = ch_setKeySize 8 t,
                sv_stripeIds = (\<lambda>_. {}), sv_forwardedKeys = [], sv_forwardedChunks = [],
                sv_ops = [], sv_sealed = []\<rparr> }"

definition sv_setTimestamp :: "ServerMap \<Rightarrow> Timestamp \<Rightarrow> ServerMap" where
  "sv_setTimestamp sv ts = sv\<lparr>sv_timestamp := ts\<rparr>"

section \<open>Operations for the coordinator\<close>

text \<open>The third result is what is assigned to the reference parameter \<^verbatim>\<open>timestamp\<close>, if anything.\<close>

definition insertOpMetadata ::
  "u8 \<Rightarrow> Key \<Rightarrow> 'a Metadata_scheme \<Rightarrow> bool \<Rightarrow> ServerMap \<Rightarrow> (bool \<times> u32 option \<times> ServerMap) option" where
  "insertOpMetadata opcode key keyMetadata dup sv =
     (case um_find key_same (sv_ops sv) key of
        None \<Rightarrow>
          do { let (now, ts) = ts_nextVal (sv_timestamp sv);
               let om = \<lparr>md_listId = md_listId keyMetadata, md_stripeId = md_stripeId keyMetadata,
                         md_chunkId = md_chunkId keyMetadata, om_opcode = opcode, om_timestamp = now\<rparr>;
               key \<leftarrow> (if dup then key_dup key 0 None 0 (key_isLarge key) else Some key);
               let (ret, ops) = um_insert key_same (sv_ops sv) key om;
               Some (ret, Some now, sv\<lparr>sv_timestamp := ts, sv_ops := ops\<rparr>) }
      | Some _ \<Rightarrow>
          if opcode = PROTO_OPCODE_DELETE
          then Some (True, None, sv\<lparr>sv_ops := um_erase key_same (sv_ops sv) key\<rparr>)
          else Some (False, None, sv))"

section \<open>Objects\<close>

definition obj_ptr :: "nat option \<Rightarrow> nat" where
  "obj_ptr p = (case p of None \<Rightarrow> 0 | Some p \<Rightarrow> p)"

definition sv_insertKey ::
  "u32 \<Rightarrow> memory \<Rightarrow> (nat \<Rightarrow> nat) \<Rightarrow> ServerMap \<Rightarrow> Key \<Rightarrow> u8 \<Rightarrow> KeyMetadata \<Rightarrow> bool \<Rightarrow> bool
     \<Rightarrow> (bool \<times> u32 option \<times> ServerMap) option" where
  "sv_insertKey cs m rnd sv key opcode keyMetadata needsUpdateOpMetadata large =
     do { (r, keys) \<leftarrow> ch_insert cs m rnd (sv_keys sv) (key_data key) (key_size key) (obj_ptr (km_obj keyMetadata)) large;
          let sv = sv\<lparr>sv_keys := keys\<rparr>;
          if \<not> r then Some (False, None, sv)
          else do { key \<leftarrow> key_dup key 0 None 0 large;
                    if needsUpdateOpMetadata then insertOpMetadata opcode key keyMetadata True sv
                    else Some (True, None, sv) } }"

text \<open>The results are the object and the key that \<^verbatim>\<open>keyPtr\<close> receives.\<close>

definition find_object :: "u32 \<Rightarrow> memory \<Rightarrow> ServerMap \<Rightarrow> byte list \<Rightarrow> u8 \<Rightarrow> bool \<Rightarrow> (nat \<times> Key) option" where
  "find_object cs m sv keyStr keySize large =
     do { p \<leftarrow> ch_find cs m (sv_keys sv) keyStr keySize large;
          k \<leftarrow> (if p \<noteq> 0 then kv_key cs m p True else Some (key_set keySize keyStr 0 large));
          Some (p, k) }"

definition findObject :: "u32 \<Rightarrow> memory \<Rightarrow> ServerMap \<Rightarrow> byte list \<Rightarrow> u8 \<Rightarrow> (nat \<times> Key) option" where
  "findObject cs m sv keyStr keySize = find_object cs m sv keyStr keySize False"

definition findLargeObject :: "u32 \<Rightarrow> memory \<Rightarrow> ServerMap \<Rightarrow> byte list \<Rightarrow> u8 \<Rightarrow> (nat \<times> Key) option" where
  "findLargeObject cs m sv keyStr keySize = find_object cs m sv keyStr keySize True"

definition sv_deleteKey ::
  "u32 \<Rightarrow> memory \<Rightarrow> ServerMap \<Rightarrow> Key \<Rightarrow> u8 \<Rightarrow> KeyMetadata \<Rightarrow> bool \<Rightarrow> (bool \<times> u32 option \<times> ServerMap) option" where
  "sv_deleteKey cs m sv key opcode keyMetadata needsUpdateOpMetadata =
     do { p \<leftarrow> ch_find cs m (sv_keys sv) (key_data key) (key_size key) False;
          if p = 0 then Some (False, None, sv)
          else do { keys \<leftarrow> ch_del cs m (sv_keys sv) (key_data key) (key_size key) False;
                    let sv = sv\<lparr>sv_keys := keys\<rparr>;
                    if needsUpdateOpMetadata then insertOpMetadata opcode key keyMetadata True sv
                    else Some (True, None, sv) } }"

section \<open>Chunks\<close>

text \<open>
  The scan of \<^verbatim>\<open>setChunk\<close> enters every object of a data chunk into the table of objects, always as
  a small one, and ignores whether the table took it. \<open>rnd off\<close> gives the numbers drawn while the
  object at offset \<open>off\<close> is inserted. An object of size 0 would be scanned for ever.
\<close>

function insert_objects ::
  "u32 \<Rightarrow> memory \<Rightarrow> (nat \<Rightarrow> nat \<Rightarrow> nat) \<Rightarrow> nat \<Rightarrow> nat \<Rightarrow> CuckooHash \<Rightarrow> CuckooHash option" where
  "insert_objects cs m rnd d off keys =
     (if off + 4 < unat cs
      then case deserialize cs m (d + off) of
        None \<Rightarrow> None
      | Some ob \<Rightarrow>
          if obj_keySize ob = 0 \<and> obj_valueSize ob = 0 then Some keys
          else (case object_size cs ob of
                  None \<Rightarrow> None
                | Some sz \<Rightarrow>
                    if sz = 0 then None
                    else (case ch_insert cs m (rnd off) keys (drop (obj_key ob) m) (obj_keySize ob) (d + off) False of
                            None \<Rightarrow> None
                          | Some (_, keys) \<Rightarrow> insert_objects cs m rnd d (off + unat sz) keys))
      else Some keys)"
  by pat_completeness auto
termination
  by (relation "measure (\<lambda>(cs, m, rnd, d, off, keys). unat cs - off)") (auto intro: scan_progress)

declare insert_objects.simps [simp del]

definition setChunk ::
  "u32 \<Rightarrow> memory \<Rightarrow> (nat \<Rightarrow> nat) \<Rightarrow> (nat \<Rightarrow> nat \<Rightarrow> nat) \<Rightarrow> ServerMap \<Rightarrow> u32 \<Rightarrow> u32 \<Rightarrow> u32 \<Rightarrow> nat \<Rightarrow> bool
     \<Rightarrow> ServerMap option" where
  "setChunk cs m rndc rndk sv listId stripeId chunkId chunk isParity =
     do { p \<leftarrow> ch_find cs m (sv_chunks sv) (drop chunk m) 8 False;
          chunks \<leftarrow> (if p \<noteq> 0 then Some (sv_chunks sv)
                     else map_option snd (ch_insert cs m rndc (sv_chunks sv) (drop chunk m) 8 chunk False));
          let sv = sv\<lparr>sv_chunks := chunks,
                      sv_stripeIds := (sv_stripeIds sv)(listId := insert stripeId (sv_stripeIds sv listId))\<rparr>;
          if isParity then Some sv
          else do { keys \<leftarrow> insert_objects cs m rndk (cu_getData chunk) 0 (sv_keys sv);
                    Some (sv\<lparr>sv_keys := keys\<rparr>) } }"

definition chunk_identifier :: "u32 \<Rightarrow> u32 \<Rightarrow> u32 \<Rightarrow> byte list" where
  "chunk_identifier listId stripeId chunkId = ucast listId # le32 stripeId @ [0, 0, ucast chunkId]"

definition findChunkById :: "u32 \<Rightarrow> memory \<Rightarrow> ServerMap \<Rightarrow> u32 \<Rightarrow> u32 \<Rightarrow> u32 \<Rightarrow> nat option" where
  "findChunkById cs m sv listId stripeId chunkId =
     ch_find cs m (sv_chunks sv) (chunk_identifier listId stripeId chunkId) 8 False"

definition sv_seal :: "ServerMap \<Rightarrow> u32 \<Rightarrow> u32 \<Rightarrow> u32 \<Rightarrow> bool \<times> ServerMap" where
  "sv_seal sv listId stripeId chunkId =
     (let (r, sealed) = um_insert md_equal (sv_sealed sv) (md_set listId stripeId chunkId) ()
      in (r, sv\<lparr>sv_sealed := sealed\<rparr>))"

text \<open>The loop never ends when all stripe ids of the list are in use.\<close>

partial_function (option) next_free :: "u32 set \<Rightarrow> u32 \<Rightarrow> u32 option" where
  "next_free sids ret = (if ret \<in> sids then next_free sids (ret + 1) else Some ret)"

definition nextStripeID :: "ServerMap \<Rightarrow> u32 \<Rightarrow> u32 \<Rightarrow> u32 option" where
  "nextStripeID sv listId from' = next_free (sv_stripeIds sv listId) from'"

section \<open>Forwarded chunks and keys\<close>

definition insertForwardedChunk :: "ServerMap \<Rightarrow> Metadata \<Rightarrow> Metadata \<Rightarrow> bool \<times> ServerMap" where
  "insertForwardedChunk sv src dst =
     (let (r, t) = um_insert md_equal (sv_forwardedChunks sv) src dst in (r, sv\<lparr>sv_forwardedChunks := t\<rparr>))"

definition findForwardedChunk :: "ServerMap \<Rightarrow> Metadata \<Rightarrow> Metadata option" where
  "findForwardedChunk sv src = um_find md_equal (sv_forwardedChunks sv) src"

definition eraseForwardedChunk :: "ServerMap \<Rightarrow> Metadata \<Rightarrow> bool \<times> ServerMap" where
  "eraseForwardedChunk sv src =
     (um_find md_equal (sv_forwardedChunks sv) src \<noteq> None,
      sv\<lparr>sv_forwardedChunks := um_erase md_equal (sv_forwardedChunks sv) src\<rparr>)"

definition insertForwardedKey :: "ServerMap \<Rightarrow> u8 \<Rightarrow> byte list \<Rightarrow> bool \<Rightarrow> u32 \<Rightarrow> u32 \<Rightarrow> (bool \<times> ServerMap) option" where
  "insertForwardedKey sv keySize keyStr large dstListId dstChunkId =
     do { let key = key_set keySize keyStr 0 large;
          key \<leftarrow> (if um_find key_same (sv_forwardedKeys sv) key = None then key_dup key 0 None 0 False else Some key);
          let (r, t) = um_insert key_same (sv_forwardedKeys sv) key (md_set dstListId (- 1) dstChunkId);
          Some (r, sv\<lparr>sv_forwardedKeys := t\<rparr>) }"

definition findForwardedKey :: "ServerMap \<Rightarrow> u8 \<Rightarrow> byte list \<Rightarrow> bool \<Rightarrow> Metadata option" where
  "findForwardedKey sv keySize keyStr large = um_find key_same (sv_forwardedKeys sv) (key_set keySize keyStr 0 large)"

definition eraseForwardedKey :: "ServerMap \<Rightarrow> u8 \<Rightarrow> byte list \<Rightarrow> bool \<Rightarrow> bool \<times> ServerMap" where
  "eraseForwardedKey sv keySize keyStr large =
     (let key = key_set keySize keyStr 0 large in
      (um_find key_same (sv_forwardedKeys sv) key \<noteq> None,
       sv\<lparr>sv_forwardedKeys := um_erase key_same (sv_forwardedKeys sv) key\<rparr>))"

section \<open>Stripe ids\<close>

lemma next_free_simps: "next_free sids f = (if f \<in> sids then next_free sids (f + 1) else Some f)"
  by (subst next_free.simps) simp

lemma next_free_steps:
  "(\<And>k. k < n \<Longrightarrow> f + of_nat k \<in> sids) \<Longrightarrow> f + of_nat n \<notin> sids \<Longrightarrow> next_free sids f = Some (f + of_nat n)"
proof (induction n arbitrary: f)
  case 0
  then show ?case by (subst next_free_simps) simp
next
  case (Suc n)
  have "next_free sids (f + 1) = Some (f + 1 + of_nat n)"
    using Suc.prems(1) [of "Suc _"] Suc.prems(2) by (intro Suc.IH) (simp_all add: add.assoc)
  moreover have "f \<in> sids" using Suc.prems(1) [of 0] by simp
  ultimately show ?case by (subst next_free_simps) (simp add: add.assoc)
qed

lemma next_free_least:
  assumes "x \<notin> sids"
  obtains n where "n \<le> unat (x - f)" and "next_free sids f = Some (f + of_nat n)" and "f + of_nat n \<notin> sids"
    and "\<And>k. k < n \<Longrightarrow> f + of_nat k \<in> sids"
proof -
  have x: "f + of_nat (unat (x - f)) \<notin> sids" using assms by simp
  define n where "n = (LEAST n. f + of_nat n \<notin> sids)"
  have n: "f + of_nat n \<notin> sids" "n \<le> unat (x - f)" "\<And>k. k < n \<Longrightarrow> f + of_nat k \<in> sids"
    unfolding n_def using LeastI [of "\<lambda>n. f + of_nat n \<notin> sids", OF x] Least_le [of "\<lambda>n. f + of_nat n \<notin> sids", OF x]
      not_less_Least [of _ "\<lambda>n. f + of_nat n \<notin> sids"] by auto
  from n(3,1) have "next_free sids f = Some (f + of_nat n)" by (rule next_free_steps)
  with n that show ?thesis by blast
qed

lemma next_free_in: "next_free sids f = Some r \<Longrightarrow> r \<notin> sids"
proof (rule next_free.raw_induct [where P = "\<lambda>sids f r. r \<notin> sids"], goal_cases)
  case (1 next_free sids f r)
  then show ?case by (auto split: if_splits)
qed

section \<open>The table of chunks\<close>

definition chunks_ok :: "memory \<Rightarrow> ServerMap \<Rightarrow> bool" where
  "chunks_ok m sv \<longleftrightarrow> ch_ok (fixed_entries m 8) (fixed_key m 8) hash_of (sv_chunks sv) \<and> ch_keySize (sv_chunks sv) = 8"

definition chunk_index :: "memory \<Rightarrow> ServerMap \<Rightarrow> byte list \<Rightarrow> nat option" where
  "chunk_index m sv = ch_abs (fixed_key m 8) (sv_chunks sv)"

lemma length_chunk_identifier [simp]: "length (chunk_identifier l s c) = 8"
  by (simp add: chunk_identifier_def)

lemma fixed_arg_8: "fixed_arg 8 key 8 False k \<longleftrightarrow> peek key 0 8 = Some k"
  by (simp add: fixed_arg_def)

lemma fixed_arg_identifier: "fixed_arg 8 (chunk_identifier l s c) 8 False (chunk_identifier l s c)"
  by (simp add: fixed_arg_8 peek_def seg_def)

lemma fixed_arg_chunk: "peek m p 8 = Some k \<Longrightarrow> fixed_arg 8 (drop p m) 8 False k"
  by (auto simp: fixed_arg_8 peek_Some_iff seg_def)

lemma findChunkById_index:
  assumes "chunks_ok m sv"
  shows "findChunkById cs m sv l s c
    = Some (case chunk_index m sv (chunk_identifier l s c) of None \<Rightarrow> 0 | Some p \<Rightarrow> p)"
  using assms fixed.find_abs [OF _ _ fixed_arg_identifier]
  by (simp add: findChunkById_def chunks_ok_def chunk_index_def)

lemma chunk_index_pos: "chunks_ok m sv \<Longrightarrow> chunk_index m sv k = Some p \<Longrightarrow> p \<noteq> 0"
  using fixed.abs_home unfolding chunks_ok_def chunk_index_def by metis

lemma insert_chunk:
  assumes "chunks_ok m sv" and "p \<noteq> 0" and "peek m p 8 = Some k" and "chunk_index m sv k = None"
  obtains r t where "ch_insert cs m rnd (sv_chunks sv) (drop p m) 8 p False = Some (r, t)"
    and "ch_ok (fixed_entries m 8) (fixed_key m 8) hash_of t" and "ch_keySize t = 8"
    and "ch_abs (fixed_key m 8) t = (if r then (chunk_index m sv)(k \<mapsto> p) else chunk_index m sv)"
proof -
  have "p \<in> fixed_entries m 8" "fixed_key m 8 p = k"
    using assms(2,3) by (auto simp: fixed_entries_def fixed_key_def peek_Some_iff)
  with fixed.insert_abs [where t = "sv_chunks sv" and p = p and cs = cs and rnd = rnd and m = m,
      OF _ _ fixed_arg_chunk [OF assms(3)]] assms(1,4)
  have "\<exists>r t. ch_insert cs m rnd (sv_chunks sv) (drop p m) 8 p False = Some (r, t)
      \<and> ch_ok (fixed_entries m 8) (fixed_key m 8) hash_of t \<and> ch_keySize t = 8
      \<and> ch_abs (fixed_key m 8) t = (if r then (chunk_index m sv)(k \<mapsto> p) else chunk_index m sv)"
    unfolding chunks_ok_def chunk_index_def by blast
  with that show ?thesis by blast
qed

lemma insert_objects_none:
  assumes "unat cs \<le> 4 \<or> (\<exists>ob. deserialize cs m d = Some ob \<and> obj_keySize ob = 0 \<and> obj_valueSize ob = 0)"
  shows "insert_objects cs m rnd d 0 keys = Some keys"
  using assms by (subst insert_objects.simps) auto

text \<open>
  A fresh chunk: a parity chunk, or a data chunk without objects. Its identifier is in memory at
  \<open>p\<close>, and the table does not have it yet.
\<close>

definition fresh_chunk :: "u32 \<Rightarrow> memory \<Rightarrow> nat \<Rightarrow> u32 \<Rightarrow> u32 \<Rightarrow> u32 \<Rightarrow> bool \<Rightarrow> bool" where
  "fresh_chunk cs m p l s c isParity \<longleftrightarrow> p \<noteq> 0 \<and> peek m p 8 = Some (chunk_identifier l s c)
     \<and> (isParity \<or> peek m (p + 8) (unat cs) = Some (replicate (unat cs) 0))"

lemma setChunk_fresh:
  assumes ok: "chunks_ok m sv" and fresh: "fresh_chunk cs m p l s c isParity"
    and new: "chunk_index m sv (chunk_identifier l s c) = None"
  obtains r t sv' where "ch_insert cs m rndc (sv_chunks sv) (drop p m) 8 p False = Some (r, t)"
    and "setChunk cs m rndc rndk sv l s c p isParity = Some sv'" and "chunks_ok m sv'"
    and "chunk_index m sv' = (if r then (chunk_index m sv)(chunk_identifier l s c \<mapsto> p) else chunk_index m sv)"
    and "sv' = sv\<lparr>sv_chunks := t, sv_stripeIds := (sv_stripeIds sv)(l := insert s (sv_stripeIds sv l))\<rparr>"
proof -
  let ?k = "chunk_identifier l s c"
  from fresh have p: "p \<noteq> 0" "peek m p 8 = Some ?k" by (simp_all add: fresh_chunk_def)
  from ok have find: "ch_find cs m (sv_chunks sv) (drop p m) 8 False = Some 0"
    using fixed.find_abs [OF _ _ fixed_arg_chunk [OF p(2)]] new
    by (simp add: chunks_ok_def chunk_index_def)
  from insert_chunk [OF ok p new] obtain r t where
    ins: "ch_insert cs m rndc (sv_chunks sv) (drop p m) 8 p False = Some (r, t)"
    and t: "ch_ok (fixed_entries m 8) (fixed_key m 8) hash_of t" "ch_keySize t = 8"
      "ch_abs (fixed_key m 8) t = (if r then (chunk_index m sv)(?k \<mapsto> p) else chunk_index m sv)" by blast
  let ?sv = "sv\<lparr>sv_chunks := t, sv_stripeIds := (sv_stripeIds sv)(l := insert s (sv_stripeIds sv l))\<rparr>"
  have scan: "insert_objects cs m rndk (cu_getData p) 0 (sv_keys sv) = Some (sv_keys sv)" if "\<not> isParity"
  proof (rule insert_objects_none)
    have z: "peek m (p + 8) (unat cs) = Some (replicate (unat cs) 0)"
      using that fresh by (simp add: fresh_chunk_def)
    show "unat cs \<le> 4 \<or> (\<exists>ob. deserialize cs m (cu_getData p) = Some ob \<and> obj_keySize ob = 0 \<and> obj_valueSize ob = 0)"
      using zeros_deserialize z by (auto simp: cu_getData_def)
  qed
  have "setChunk cs m rndc rndk sv l s c p isParity = Some ?sv"
    using find ins scan by (cases isParity) (simp_all add: setChunk_def Let_def)
  moreover have "chunks_ok m ?sv" "chunk_index m ?sv = (if r then (chunk_index m sv)(?k \<mapsto> p) else chunk_index m sv)"
    using t by (simp_all add: chunks_ok_def chunk_index_def)
  ultimately show ?thesis using that ins by blast
qed

section \<open>Properties\<close>

text \<open>C31. The next stripe id: as long as some stripe id of the list is not in use, nextStripeID returns, and it returns the first unused id from the given one upwards, wrapping around at 2^32. When every id is in use it never returns.\<close>

theorem next_stripe_id:
  "(sv_stripeIds sv l \<noteq> UNIV \<longrightarrow>
      (\<exists>n<2 ^ 32. nextStripeID sv l f = Some (f + of_nat n) \<and> f + of_nat n \<notin> sv_stripeIds sv l
        \<and> (\<forall>k<n. f + of_nat k \<in> sv_stripeIds sv l)))
   \<and> (sv_stripeIds sv l = UNIV \<longrightarrow> nextStripeID sv l f = None)"
proof (intro conjI impI)
  assume "sv_stripeIds sv l \<noteq> UNIV"
  then obtain x where "x \<notin> sv_stripeIds sv l" by blast
  from next_free_least [OF this, of f] obtain n where n: "n \<le> unat (x - f)"
    "next_free (sv_stripeIds sv l) f = Some (f + of_nat n)" "f + of_nat n \<notin> sv_stripeIds sv l"
    "\<And>k. k < n \<Longrightarrow> f + of_nat k \<in> sv_stripeIds sv l" by blast
  from n(1) unat_u32_less [of "x - f"] have "n < 2 ^ 32" by (rule le_less_trans)
  with n(2-4) show "\<exists>n<2 ^ 32. nextStripeID sv l f = Some (f + of_nat n) \<and> f + of_nat n \<notin> sv_stripeIds sv l
      \<and> (\<forall>k<n. f + of_nat k \<in> sv_stripeIds sv l)"
    unfolding nextStripeID_def by blast
next
  assume "sv_stripeIds sv l = UNIV"
  then show "nextStripeID sv l f = None"
    using next_free_in [of UNIV f] unfolding nextStripeID_def by (cases "next_free UNIV f") auto
qed

text \<open>C30. Registering a chunk: for a fresh chunk (a parity chunk or a data chunk without objects) that the server does not know, setChunk returns, findChunkById finds the chunk by its identifier exactly if the cuckoo table accepted the entry (a full table is not reported, the chunk is then unknown), every other identifier finds what it found before, and the stripe id is in use: nextStripeID of the list never returns it again.\<close>

theorem set_chunk_find:
  assumes "chunks_ok m sv" and "fresh_chunk cs m p l s c isParity" and "findChunkById cs m sv l s c = Some 0"
  shows "\<exists>r t sv'. ch_insert cs m rndc (sv_chunks sv) (drop p m) 8 p False = Some (r, t)
    \<and> setChunk cs m rndc rndk sv l s c p isParity = Some sv' \<and> chunks_ok m sv'
    \<and> findChunkById cs m sv' l s c = Some (if r then p else 0)
    \<and> (\<forall>l' s' c'. chunk_identifier l' s' c' \<noteq> chunk_identifier l s c \<longrightarrow>
         findChunkById cs m sv' l' s' c' = findChunkById cs m sv l' s' c')
    \<and> s \<in> sv_stripeIds sv' l \<and> nextStripeID sv' l f \<noteq> Some s"
proof -
  have "chunk_index m sv (chunk_identifier l s c) = None"
    using assms(3) findChunkById_index [OF assms(1)] chunk_index_pos [OF assms(1)]
    by (cases "chunk_index m sv (chunk_identifier l s c)") auto
  from setChunk_fresh [OF assms(1,2) this] obtain r t sv' where
    ins: "ch_insert cs m rndc (sv_chunks sv) (drop p m) 8 p False = Some (r, t)"
    and run: "setChunk cs m rndc rndk sv l s c p isParity = Some sv'" and ok: "chunks_ok m sv'"
    and index: "chunk_index m sv'
      = (if r then (chunk_index m sv)(chunk_identifier l s c \<mapsto> p) else chunk_index m sv)"
    and sv': "sv' = sv\<lparr>sv_chunks := t, sv_stripeIds := (sv_stripeIds sv)(l := insert s (sv_stripeIds sv l))\<rparr>"
    by metis
  have "s \<in> sv_stripeIds sv' l" by (simp add: sv')
  moreover from this have "nextStripeID sv' l f \<noteq> Some s"
    using next_free_in unfolding nextStripeID_def by metis
  moreover have "findChunkById cs m sv' l s c = Some (if r then p else 0)"
    using findChunkById_index [OF ok] findChunkById_index [OF assms(1)] assms(3) index by auto
  moreover have "findChunkById cs m sv' l' s' c' = findChunkById cs m sv l' s' c'"
    if "chunk_identifier l' s' c' \<noteq> chunk_identifier l s c" for l' s' c'
    using that by (simp add: findChunkById_index [OF ok] findChunkById_index [OF assms(1)] index)
  ultimately show ?thesis using ins run ok by blast
qed

definition demo_chunk_memory :: memory where
  "demo_chunk_memory = 0 # chunk_identifier 1 3 2"

definition demo_sv :: ServerMap where
  "demo_sv =
     (let t = ch_setKeySize 8 (the (ch_init 1 0 (replicate 500 \<lparr>cr_bucket = 0, cr_slot = 0, cr_ptr = 0\<rparr>)))
      in \<lparr>sv_timestamp = ts_new 0, sv_keys = t, sv_chunks = t, sv_stripeIds = (\<lambda>_. {}), sv_forwardedKeys = [],
          sv_forwardedChunks = [], sv_ops = [], sv_sealed = []\<rparr>)"

lemma demo_sv_ok: "chunks_ok m demo_sv" "chunk_index m demo_sv = Map.empty"
proof -
  obtain t where t: "ch_init 1 0 (replicate 500 \<lparr>cr_bucket = 0, cr_slot = 0, cr_ptr = 0\<rparr>) = Some t"
    by (simp add: ch_init_def)
  from fixed.init_abs [OF t] show "chunks_ok m demo_sv" "chunk_index m demo_sv = Map.empty"
    by (simp_all add: demo_sv_def t chunks_ok_def chunk_index_def Let_def)
qed

theorem next_stripe_id_witness:
  "\<exists>n<2 ^ 32. nextStripeID (demo_sv\<lparr>sv_stripeIds := \<lambda>_. {5, 6}\<rparr>) 0 5 = Some (5 + of_nat n)"
proof -
  have "(7 :: u32) \<notin> {5, 6}" by simp
  then have "{5, 6} \<noteq> (UNIV :: u32 set)" by blast
  then show ?thesis
    using next_stripe_id [of "demo_sv\<lparr>sv_stripeIds := \<lambda>_. {5, 6}\<rparr>" 0 5] by auto
qed

theorem set_chunk_find_witness:
  "\<exists>r t sv'. ch_insert 16 demo_chunk_memory (\<lambda>_. 0) (sv_chunks demo_sv) (drop 1 demo_chunk_memory) 8 1 False = Some (r, t)
    \<and> setChunk 16 demo_chunk_memory (\<lambda>_. 0) (\<lambda>_ _. 0) demo_sv 1 3 2 1 True = Some sv'
    \<and> findChunkById 16 demo_chunk_memory sv' 1 3 2 = Some (if r then 1 else 0) \<and> nextStripeID sv' 1 0 \<noteq> Some 3"
proof -
  have "fresh_chunk 16 demo_chunk_memory 1 1 3 2 True"
    by (simp add: fresh_chunk_def demo_chunk_memory_def peek_def seg_def)
  moreover have "findChunkById 16 demo_chunk_memory demo_sv 1 3 2 = Some 0"
    using findChunkById_index [OF demo_sv_ok(1)] demo_sv_ok(2) by simp
  ultimately show ?thesis
    using set_chunk_find [OF demo_sv_ok(1), of 16 demo_chunk_memory 1 1 3 2 True "\<lambda>_. 0" "\<lambda>_ _. 0" 0] by metis
qed

end
