(* ===== verification/ServerSync.thy ===== *)
theory ServerSync
  imports ServerMap CoordinatorMap
begin

text \<open>
  The operations a server records for the coordinator (\<^verbatim>\<open>Map::insertOpMetadata\<close>) composed with what
  the coordinator makes of the records of a heartbeat (\<^verbatim>\<open>Map::insertKey\<close> of the coordinator).
\<close>

lemma key_dup_same:
  assumes "readable key" and "key_dup key 0 None 0 (key_isLarge key) = Some key'"
    and "unat (key_size key) + 3 < 256"
  shows "key_same key' key"
proof -
  let ?n = "key_bytes (key_size key) (key_isLarge key)"
  have n: "unat (if key_isLarge key then key_size key + 3 else key_size key) = ?n"
    using assms(3) by (simp add: key_bytes_def unat_plus_eq)
  with assms(1,2) have k: "key' = \<lparr>key_size = key_size key, key_data = take ?n (key_data key),
      key_isLarge = key_isLarge key, key_ptr = 0\<rparr>" and r: "?n \<le> length (key_data key)"
    by (auto simp: key_dup_def Let_def readable_def split: if_splits)
  have "?n < 2 ^ 32" using assms(3) by (simp add: key_bytes_def)
  then have h: "unat (of_nat ?n :: u32) = ?n" by (intro unat_of_nat_eq) simp
  have "key_hash key' = key_hash key"
    using k r h by (simp add: key_hash_def hash_eq_hash_of)
  moreover have "readable key'" using k r by (simp add: readable_def)
  ultimately show ?thesis
    using assms(1) k by (subst key_same_readable) (simp_all add: key_string_def cstr_def)
qed

lemma key_dup_ok:
  assumes "readable key" and "unat (key_size key) + 3 < 256"
  obtains key' where "key_dup key 0 None 0 (key_isLarge key) = Some key'"
proof -
  have "unat (if key_isLarge key then key_size key + 3 else key_size key) = key_bytes (key_size key) (key_isLarge key)"
    using assms(2) by (simp add: key_bytes_def unat_plus_eq)
  with assms(1) that show ?thesis by (auto simp: key_dup_def Let_def readable_def)
qed

text \<open>C21. A key that is deleted and set again between two heartbeats is lost at the coordinator. The server records the DELETE; the SET finds that record and changes nothing, so it reports failure and assigns no timestamp, and the record the next heartbeat carries is still the DELETE. A coordinator that knows the key then erases it, although the server stores the key again.\<close>

theorem set_after_delete_is_dropped:
  assumes key: "readable key" "unat (key_size key) + 3 < 256"
    and synced: "um_find key_same (sv_ops sv) key = None"
    and known: "um_find key_same (cm_keys cm) key = Some om0" and list: "unat (md_listId km) < length stripes"
  shows "\<exists>now sv1 om cm' stripes'.
    insertOpMetadata PROTO_OPCODE_DELETE key km True sv = Some (True, Some now, sv1)
    \<and> insertOpMetadata OPCODE_SET key km' True sv1 = Some (False, None, sv1)
    \<and> um_find key_same (sv_ops sv1) key = Some om \<and> om_opcode om = PROTO_OPCODE_DELETE
    \<and> insertKey cm stripes (key_isLarge key) (key_data key) (key_size key) (md_listId om) (md_stripeId om)
        (md_chunkId om) (om_opcode om) (om_timestamp om) = Some (True, cm', stripes')
    \<and> findMetadataByKey cm' (key_data key) (key_size key) (key_isLarge key) = None"
proof -
  obtain key' where dup: "key_dup key 0 None 0 (key_isLarge key) = Some key'"
    using key by (rule key_dup_ok)
  have same: "key_same key' key" using key_dup_same [OF key(1) dup key(2)] .
  let ?om = "\<lparr>md_listId = md_listId km, md_stripeId = md_stripeId km, md_chunkId = md_chunkId km,
    om_opcode = PROTO_OPCODE_DELETE, om_timestamp = ts_value (sv_timestamp sv)\<rparr>"
  let ?sv = "sv\<lparr>sv_timestamp := (sv_timestamp sv)\<lparr>ts_value := ts_value (sv_timestamp sv) + 1\<rparr>,
    sv_ops := sv_ops sv @ [(key', ?om)]\<rparr>"
  have new: "um_find key_same (sv_ops sv) key' = None"
    using synced by (simp add: keyed.find_cong [OF same])
  have del: "insertOpMetadata PROTO_OPCODE_DELETE key km True sv
      = Some (True, Some (ts_value (sv_timestamp sv)), ?sv)"
    using synced dup new by (simp add: insertOpMetadata_def ts_nextVal_def um_insert_def)
  have found: "um_find key_same (sv_ops ?sv) key = Some ?om"
    using synced same by (simp add: keyed.find_append) (simp add: um_find_def)
  then have set: "insertOpMetadata OPCODE_SET key km' True ?sv = Some (False, None, ?sv)"
    by (simp add: insertOpMetadata_def)
  let ?k = "key_set (key_size key) (key_data key) 0 (key_isLarge key)"
  have k: "key_same ?k key" "key_same key ?k"
    using key(1) by (simp_all add: key_same_def key_set_def key_hash_def key_equal_string readable_def key_string_def)
  then have known': "um_find key_same (cm_keys cm) ?k = Some om0"
    using known by (simp add: keyed.find_cong [OF k(1)])
  have co: "insertKey cm stripes (key_isLarge key) (key_data key) (key_size key) (md_listId ?om) (md_stripeId ?om)
      (md_chunkId ?om) (om_opcode ?om) (om_timestamp ?om)
    = Some (True, cm\<lparr>cm_keys := um_erase key_same (cm_keys cm) ?k\<rparr>,
        snd (the (updateMaxStripeId stripes (md_listId km) (md_stripeId km))))"
    using known' list by (simp add: insertKey_def insertKey_switch_def updateMaxStripeId_def aget_def)
  moreover have "findMetadataByKey (cm\<lparr>cm_keys := um_erase key_same (cm_keys cm) ?k\<rparr>)
      (key_data key) (key_size key) (key_isLarge key) = None"
    using keyed.same_refl [of ?k] key(1)
    by (simp add: findMetadataByKey_def keyed.find_erase readable_def key_set_def)
  ultimately show ?thesis using del set found by (intro exI conjI) (assumption | rule refl | simp)+
qed

theorem set_after_delete_is_dropped_witness:
  "\<exists>now sv1 om. insertOpMetadata PROTO_OPCODE_DELETE (key_set 1 [97] 0 False) (md_set 0 3 1) True demo_sv
      = Some (True, Some now, sv1)
    \<and> insertOpMetadata OPCODE_SET (key_set 1 [97] 0 False) (md_set 0 4 1) True sv1 = Some (False, None, sv1)
    \<and> um_find key_same (sv_ops sv1) (key_set 1 [97] 0 False) = Some om \<and> om_opcode om = PROTO_OPCODE_DELETE"
proof -
  let ?k = "key_set 1 [97] 0 False"
  have "readable ?k" "unat (key_size ?k) + 3 < 256" by (simp_all add: readable_def key_set_def key_bytes_def)
  moreover have "um_find key_same (sv_ops demo_sv) ?k = None" by (simp add: demo_sv_def um_find_def Let_def)
  moreover have "um_find key_same (cm_keys \<lparr>cm_chunks = [], cm_keys = [(?k, om_set 0 3 1 2 7)], cm_lockedKeys = []\<rparr>) ?k
      = Some (om_set 0 3 1 2 7)"
    by code_simp
  moreover have "unat (md_listId (md_set 0 3 1)) < length [0 :: u32]" by (simp add: md_set_def)
  ultimately show ?thesis
    using set_after_delete_is_dropped [of ?k demo_sv "\<lparr>cm_chunks = [], cm_keys = [(?k, om_set 0 3 1 2 7)], cm_lockedKeys = []\<rparr>"
        "om_set 0 3 1 2 7" "md_set 0 3 1" "[0]" "md_set 0 4 1"] by metis
qed

end
