(* ===== verification/ChunkBuffer.thy ===== *)
theory ChunkBuffer
  imports ServerMap
begin

text \<open>
  What the chunk buffers of a server share (\<^verbatim>\<open>server/buffer/chunk_buffer.{hh,cc}\<close>): the chunk pool and
  the index of the server. A chunk is its position in the pool. In the address space of the
  server the pool begins at address 1, so that address 0 stays the null pointer: \<open>heap\<close> is the
  memory as the index sees it. \<open>cs\<close> is \<^verbatim>\<open>ChunkBuffer::capacity\<close>, the chunk size, and \<open>k\<close> is
  \<^verbatim>\<open>ChunkBuffer::dataChunkCount\<close>. A null pointer from an exhausted pool is written through at once;
  such a run has no result.
\<close>

abbreviation (input) CHUNK_BUFFER_FLUSH_THRESHOLD :: u32 where "CHUNK_BUFFER_FLUSH_THRESHOLD \<equiv> 4"
abbreviation (input) PROTO_KEY_VALUE_SIZE :: u32 where "PROTO_KEY_VALUE_SIZE \<equiv> 4"

record Server =
  se_pool :: ChunkPool
  se_map :: ServerMap

definition se_mem :: "Server \<Rightarrow> memory" where
  "se_mem se = cp_mem (se_pool se)"

definition set_mem :: "memory \<Rightarrow> Server \<Rightarrow> Server" where
  "set_mem m se = se\<lparr>se_pool := (se_pool se)\<lparr>cp_mem := m\<rparr>\<rparr>"

definition heap :: "Server \<Rightarrow> memory" where
  "heap se = 0 # se_mem se"

definition alloc_chunk :: "u32 \<Rightarrow> Server \<Rightarrow> u32 \<Rightarrow> u32 \<Rightarrow> u32 \<Rightarrow> (nat \<times> Server) option" where
  "alloc_chunk cs se l s c =
     do { (p, pool) \<leftarrow> cp_alloc cs (se_pool se) l s c;
          p \<leftarrow> p;
          Some (p, se\<lparr>se_pool := pool\<rparr>) }"

text \<open>\<open>rnd 0\<close> gives the numbers drawn for the chunk, \<open>rnd (Suc off)\<close> those for the object at \<open>off\<close>.\<close>

definition register_chunk ::
  "u32 \<Rightarrow> (nat \<Rightarrow> nat \<Rightarrow> nat) \<Rightarrow> Server \<Rightarrow> u32 \<Rightarrow> u32 \<Rightarrow> u32 \<Rightarrow> nat \<Rightarrow> bool \<Rightarrow> Server option" where
  "register_chunk cs rnd se l s c p isParity =
     do { sv \<leftarrow> setChunk cs (heap se) (rnd 0) (\<lambda>off. rnd (Suc off)) (se_map se) l s c (Suc p) isParity;
          Some (se\<lparr>se_map := sv\<rparr>) }"

definition seal_in_map :: "Server \<Rightarrow> u32 \<Rightarrow> u32 \<Rightarrow> u32 \<Rightarrow> Server" where
  "seal_in_map se l s c = se\<lparr>se_map := snd (sv_seal (se_map se) l s c)\<rparr>"

end
