(* ===== verification/GetBuffer.thy ===== *)
theory GetBuffer
  imports HashedTable Coding
begin

text \<open>
  The buffer of unmodified chunks for requests that fetch a chunk, \<^verbatim>\<open>server/buffer/get_chunk_buffer.{hh,cc}\<close>.
  A chunk comes from a pool of temporary chunks of its own and is its whole memory; \<open>None\<close> is the
  null pointer. The lock, which callers may hold over several operations, serialises them.
\<close>

record GetChunkWrapper =
  gw_acked :: bool
  gw_chunk :: "memory option"
  gw_sealIndicatorCount :: u8
  gw_sealIndicator :: "bool list option"

type_synonym GetChunkBuffer = "(Metadata, GetChunkWrapper) um"

definition gc_new :: GetChunkBuffer where
  "gc_new = []"

text \<open>The first two bytes of a chunk that is copied are the caller's: \<open>chunk\<close> is identifier and data.\<close>

definition gc_insert ::
  "GetChunkBuffer \<Rightarrow> Metadata \<Rightarrow> memory option \<Rightarrow> u8 \<Rightarrow> bool list option \<Rightarrow> bool \<times> GetChunkBuffer" where
  "gc_insert gb metadata chunk sealIndicatorCount sealIndicator =
     (if chunk = None then (False, gb)
      else case um_find md_equal gb metadata of
        None \<Rightarrow>
          (True, snd (um_insert md_equal gb metadata
                   \<lparr>gw_acked = False, gw_chunk = chunk, gw_sealIndicatorCount = sealIndicatorCount,
                    gw_sealIndicator = sealIndicator\<rparr>))
      | Some w \<Rightarrow>
          (True, if \<not> gw_acked w \<and> gw_chunk w = None
                 then um_assign md_equal gb metadata
                        (w\<lparr>gw_chunk := chunk, gw_sealIndicatorCount := sealIndicatorCount,
                           gw_sealIndicator := sealIndicator\<rparr>)
                 else gb))"

definition gc_find :: "GetChunkBuffer \<Rightarrow> Metadata \<Rightarrow> GetChunkWrapper option" where
  "gc_find gb metadata = um_find md_equal gb metadata"

definition gc_acked :: GetChunkWrapper where
  "gc_acked = \<lparr>gw_acked = True, gw_chunk = None, gw_sealIndicatorCount = 0, gw_sealIndicator = None\<rparr>"

definition gc_ack :: "GetChunkBuffer \<Rightarrow> Metadata \<Rightarrow> bool \<times> GetChunkBuffer" where
  "gc_ack gb metadata =
     (True, case um_find md_equal gb metadata of
              None \<Rightarrow> snd (um_insert md_equal gb metadata gc_acked)
            | Some _ \<Rightarrow> um_assign md_equal gb metadata gc_acked)"

definition gc_erase :: "GetChunkBuffer \<Rightarrow> Metadata \<Rightarrow> bool \<times> GetChunkBuffer" where
  "gc_erase gb metadata = (True, um_erase md_equal gb metadata)"

end
