(* ===== verification/ParityBuffer.thy ===== *)
theory ParityBuffer
  imports ChunkBuffer GetBuffer
begin

text \<open>
  The parity chunk buffer of a server, \<^verbatim>\<open>server/buffer/parity_chunk_buffer.{hh,cc}\<close>: the objects whose
  data chunk is not sealed yet, the requests that came before their object, and the parity chunks,
  which every sealed chunk and every update adds its parity delta to. \<open>enc\<close> is the \<^verbatim>\<open>encode\<close> method of
  the coding scheme in use. The chunks \<^verbatim>\<open>dataChunks\<close>, \<^verbatim>\<open>dataChunk\<close> and \<^verbatim>\<open>parityChunk\<close> that the caller lends
  are cleared before every use and hold no state. A request carries the id of a data chunk; for any
  other id, which would index behind the arrays, and for a failed assertion there is no result.
\<close>

record ParityChunkWrapper =
  pw_pending :: "bool list"
  pw_chunk :: nat

datatype PendingRequest = PRT_SEAL u32 u32 | PRT_UPDATE u32 u32 "byte list" | PRT_DELETE

record ParityChunkBuffer =
  pb_listId :: u32
  pb_stripeId :: u32
  pb_chunkId :: u32
  pb_chunks :: "u32 \<rightharpoonup> ParityChunkWrapper"
  pb_keys :: "(Key, memory) um"
  pb_pending :: "(Key, PendingRequest) um"

definition countPending :: "ParityChunkWrapper \<Rightarrow> u32" where
  "countPending w = of_nat (length (filter id (pw_pending w)))"

text \<open>A buffer that is not ready has the identifiers of uninitialised memory: \<open>junk\<close>.\<close>

definition pb_init :: "ParityChunkBuffer \<Rightarrow> u32 \<Rightarrow> u32 \<Rightarrow> u32 \<Rightarrow> ParityChunkBuffer" where
  "pb_init pb l s c = pb\<lparr>pb_listId := l, pb_stripeId := s, pb_chunkId := c\<rparr>"

definition pb_new :: "u32 \<Rightarrow> u32 \<Rightarrow> u32 \<Rightarrow> u32 \<Rightarrow> bool \<Rightarrow> ParityChunkBuffer" where
  "pb_new junk l s c isReady =
     (let pb = \<lparr>pb_listId = junk, pb_stripeId = junk, pb_chunkId = junk, pb_chunks = Map.empty, pb_keys = [],
                pb_pending = []\<rparr>
      in if isReady then pb_init pb l s c else pb)"

definition getWrapper ::
  "u32 \<Rightarrow> u32 \<Rightarrow> (nat \<Rightarrow> nat \<Rightarrow> nat) \<Rightarrow> ParityChunkBuffer \<Rightarrow> Server \<Rightarrow> u32
     \<Rightarrow> (ParityChunkWrapper \<times> ParityChunkBuffer \<times> Server) option" where
  "getWrapper cs k rnd pb se s =
     (case pb_chunks pb s of
        Some w \<Rightarrow> Some (w, pb, se)
      | None \<Rightarrow>
          do { (p, se) \<leftarrow> alloc_chunk cs se (pb_listId pb) s (pb_chunkId pb);
               se \<leftarrow> register_chunk cs rnd se (pb_listId pb) s (pb_chunkId pb) p True;
               let se = seal_in_map se (pb_listId pb) s (pb_chunkId pb);
               let w = \<lparr>pw_pending = replicate (unat k) True, pw_chunk = p\<rparr>;
               Some (w, pb\<lparr>pb_chunks := (pb_chunks pb)(s \<mapsto> w)\<rparr>, se) })"

section \<open>Updating a parity chunk\<close>

definition empty_chunk :: "u32 \<Rightarrow> memory" where
  "empty_chunk cs = replicate (8 + unat cs) 0"

text \<open>The delta of the parity chunk: the stripe that has only the range given of one chunk.\<close>

definition parity_delta :: "encoder \<Rightarrow> u32 \<Rightarrow> u32 \<Rightarrow> ParityChunkBuffer \<Rightarrow> u32 \<Rightarrow> u32 \<Rightarrow> u32 \<Rightarrow> memory \<Rightarrow> memory option" where
  "parity_delta enc cs k pb chunkId off sz dataChunk =
     (if chunkId < k
      then enc ((replicate (unat k) (empty_chunk cs))[unat chunkId := dataChunk]) (empty_chunk cs)
             (unat (pb_chunkId pb - k + 1)) (unat (off + chunkId * cs)) (unat (off + chunkId * cs + sz))
      else None)"

text \<open>
  The backup of a chunk that a request fetches: the code combines it with itself, not with the delta.
\<close>

definition update_backup :: "u32 \<Rightarrow> Metadata \<Rightarrow> u32 \<Rightarrow> GetChunkBuffer \<Rightarrow> GetChunkBuffer option" where
  "update_backup cs metadata chunkId gb =
     (case gc_find gb metadata of
        None \<Rightarrow> Some gb
      | Some w \<Rightarrow>
          (case gw_chunk w of
             None \<Rightarrow> Some gb
           | Some backup \<Rightarrow>
               do { ind \<leftarrow> gw_sealIndicator w;
                    b \<leftarrow> item_at ind (unat chunkId);
                    if b then do { backup \<leftarrow> bitwiseXOR_self backup 8 backup 8 cs;
                                   Some (um_assign md_equal gb metadata (w\<lparr>gw_chunk := Some backup\<rparr>)) }
                    else Some gb }))"

definition pb_update ::
  "encoder \<Rightarrow> u32 \<Rightarrow> u32 \<Rightarrow> (nat \<Rightarrow> nat \<Rightarrow> nat) \<Rightarrow> ParityChunkBuffer \<Rightarrow> Server \<Rightarrow> u32 \<Rightarrow> u32 \<Rightarrow> u32 \<Rightarrow> u32 \<Rightarrow> memory
     \<Rightarrow> bool \<Rightarrow> bool \<Rightarrow> GetChunkBuffer option
     \<Rightarrow> (ParityChunkBuffer \<times> Server \<times> GetChunkBuffer option) option" where
  "pb_update enc cs k rnd pb se stripeId chunkId off sz dataChunk isSeal isDelete gcb =
     do { parityChunk \<leftarrow> parity_delta enc cs k pb chunkId off sz dataChunk;
          (w, pb, se) \<leftarrow> getWrapper cs k rnd pb se stripeId;
          gcb \<leftarrow> (case gcb of
                    None \<Rightarrow> Some None
                  | Some gb \<Rightarrow> map_option Some (update_backup cs (md_set (pb_listId pb) stripeId (pb_chunkId pb)) chunkId gb));
          m \<leftarrow> bitwiseXOR_self (se_mem se) (cu_getData (pw_chunk w)) parityChunk 8 cs;
          if \<not> isSeal \<and> isDelete then None
          else let w = (if isSeal then w\<lparr>pw_pending := (pw_pending w)[unat chunkId := False]\<rparr> else w) in
               Some (pb\<lparr>pb_chunks := (pb_chunks pb)(stripeId \<mapsto> w)\<rparr>, set_mem m se, gcb) }"

text \<open>The public \<^verbatim>\<open>update\<close>, with the delta of the data chunk.\<close>

definition pb_updateDelta ::
  "encoder \<Rightarrow> u32 \<Rightarrow> u32 \<Rightarrow> (nat \<Rightarrow> nat \<Rightarrow> nat) \<Rightarrow> ParityChunkBuffer \<Rightarrow> Server \<Rightarrow> u32 \<Rightarrow> u32 \<Rightarrow> u32 \<Rightarrow> u32 \<Rightarrow> byte list
     \<Rightarrow> bool \<Rightarrow> (ParityChunkBuffer \<times> Server) option" where
  "pb_updateDelta enc cs k rnd pb se stripeId chunkId off sz dataDelta isDelete =
     do { dataChunk \<leftarrow> (if unat sz \<le> length dataDelta
                        then poke (empty_chunk cs) (8 + unat off) (take (unat sz) dataDelta) else None);
          (pb, se, _) \<leftarrow> pb_update enc cs k rnd pb se stripeId chunkId off sz dataChunk False isDelete None;
          Some (pb, se) }"

section \<open>SET and SEAL\<close>

text \<open>
  An object is kept until its chunk is sealed. When the seal has come first, the object goes to the
  parity chunk at once. The length of a large object is taken to be that of the whole value.
\<close>

definition pb_set ::
  "encoder \<Rightarrow> u32 \<Rightarrow> u32 \<Rightarrow> (nat \<Rightarrow> nat \<Rightarrow> nat) \<Rightarrow> ParityChunkBuffer \<Rightarrow> Server
     \<Rightarrow> byte list \<Rightarrow> u8 \<Rightarrow> byte list \<Rightarrow> u32 \<Rightarrow> u32 \<Rightarrow> u32 \<Rightarrow> GetChunkBuffer option
     \<Rightarrow> (bool \<times> ParityChunkBuffer \<times> Server \<times> GetChunkBuffer option) option" where
  "pb_set enc cs k rnd pb se keyStr keySize valueStr valueSize chunkId splitOffset gcb =
     do { (large, _, _) \<leftarrow> isLarge cs keySize valueSize;
          let key = key_set keySize keyStr 0 large;
          case um_find key_same (pb_pending pb) key of
            None \<Rightarrow>
              do { kv \<leftarrow> kv_dup cs (Some keyStr) keySize (Some valueStr) valueSize splitOffset;
                   ob \<leftarrow> deserialize cs kv 0;
                   let (r, keys) = um_insert key_same (pb_keys pb)
                                     (key_set (obj_keySize ob) (drop (obj_key ob) kv) 0 large) kv;
                   Some (r, pb\<lparr>pb_keys := keys\<rparr>, se, gcb) }
          | Some request \<Rightarrow>
              let pb = pb\<lparr>pb_pending := um_erase key_same (pb_pending pb) key\<rparr> in
              (case request of
                 PRT_SEAL stripeId off \<Rightarrow>
                   do { dataChunk \<leftarrow> serialize cs (empty_chunk cs) (8 + unat off) (Some keyStr) keySize
                                       (Some valueStr) valueSize splitOffset;
                        (pb, se, gcb) \<leftarrow> pb_update enc cs k rnd pb se stripeId chunkId off
                                           (4 + ucast keySize + valueSize) dataChunk False False gcb;
                        Some (True, pb, se, gcb) }
               | _ \<Rightarrow> Some (True, pb, se, gcb)) }"

text \<open>One record of a SEAL request: the key with its offset. \<open>sl_data\<close> is the chunk that is put together.\<close>

record seal_state =
  sl_data :: memory
  sl_curPos :: u32
  sl_count :: u32
  sl_ret :: bool
  sl_keys :: "(Key, memory) um"
  sl_pending :: "(Key, PendingRequest) um"

definition defer_key :: "u32 \<Rightarrow> u32 \<Rightarrow> Key \<Rightarrow> seal_state \<Rightarrow> seal_state option" where
  "defer_key stripeId off key st =
     do { key \<leftarrow> key_dup key 0 None 0 (key_isLarge key);
          let (r, pending) = um_insert key_same (sl_pending st) key (PRT_SEAL stripeId off);
          Some (st\<lparr>sl_pending := pending, sl_ret := sl_ret st \<and> r\<rparr>) }"

definition take_key :: "u32 \<Rightarrow> u32 \<Rightarrow> Key \<Rightarrow> memory \<Rightarrow> seal_state \<Rightarrow> (u8 \<times> seal_state) option" where
  "take_key cs off key kv st =
     do { ob \<leftarrow> deserialize cs kv 0;
          n \<leftarrow> object_size cs ob;
          data \<leftarrow> (if unat n \<le> length kv then poke (sl_data st) (8 + unat off) (take (unat n) kv) else None);
          Some (obj_keySize ob,
                st\<lparr>sl_data := data, sl_curPos := off + n, sl_keys := um_erase key_same (sl_keys st) key\<rparr>) }"

definition seal_record :: "u32 \<Rightarrow> u32 \<Rightarrow> byte list \<Rightarrow> seal_state \<Rightarrow> (nat \<times> seal_state) option" where
  "seal_record cs stripeId sealData st =
     (case sealData of
        keySize # a # b # c # d # l # rest \<Rightarrow>
          do { let off = of_be32 a b c d;
               let large = (l \<noteq> 0);
               let key = key_set keySize rest 0 large;
               let st = st\<lparr>sl_ret := sl_ret st \<and> um_find key_same (sl_pending st) key = None\<rparr>;
               (keySize, st) \<leftarrow>
                 (case um_find key_same (sl_keys st) key of
                    None \<Rightarrow> do { st \<leftarrow> defer_key stripeId off key st; Some (keySize, st) }
                  | Some kv \<Rightarrow> take_key cs off key kv st);
               Some (6 + unat keySize + (if large then 3 else 0), st\<lparr>sl_count := sl_count st + 1\<rparr>) }
      | _ \<Rightarrow> None)"

text \<open>The records; one that is cut off would be read beyond the end of the message.\<close>

function seal_records :: "u32 \<Rightarrow> u32 \<Rightarrow> byte list \<Rightarrow> seal_state \<Rightarrow> seal_state option" where
  "seal_records cs stripeId sealData st =
     (if sealData = [] then Some st
      else case seal_record cs stripeId sealData st of
        None \<Rightarrow> None
      | Some (n, st) \<Rightarrow>
          if n \<le> length sealData \<and> 0 < n then seal_records cs stripeId (drop n sealData) st else None)"
  by pat_completeness auto
termination
  by (relation "measure (\<lambda>(cs, stripeId, sealData, st). length sealData)") auto

declare seal_records.simps [simp del]

definition pb_seal ::
  "encoder \<Rightarrow> u32 \<Rightarrow> u32 \<Rightarrow> (nat \<Rightarrow> nat \<Rightarrow> nat) \<Rightarrow> ParityChunkBuffer \<Rightarrow> Server \<Rightarrow> u32 \<Rightarrow> u32 \<Rightarrow> u32 \<Rightarrow> byte list
     \<Rightarrow> (bool \<times> ParityChunkBuffer \<times> Server) option" where
  "pb_seal enc cs k rnd pb se stripeId chunkId cnt sealData =
     do { st \<leftarrow> seal_records cs stripeId sealData
                 \<lparr>sl_data = empty_chunk cs, sl_curPos = 0, sl_count = 0, sl_ret = True,
                  sl_keys = pb_keys pb, sl_pending = pb_pending pb\<rparr>;
          if sl_count st \<noteq> cnt then None
          else do { (pb, se, _) \<leftarrow> pb_update enc cs k rnd (pb\<lparr>pb_keys := sl_keys st, pb_pending := sl_pending st\<rparr>) se
                                     stripeId chunkId 0 (sl_curPos st) (sl_data st) True False None;
                    Some (sl_ret st, pb, se) } }"

section \<open>The objects that wait\<close>

definition pb_find_key :: "ParityChunkBuffer \<Rightarrow> Key \<Rightarrow> (Key \<times> memory) option" where
  "pb_find_key pb key = find (\<lambda>(key', _). key_same key' key) (pb_keys pb)"

definition findValueByKey :: "ParityChunkBuffer \<Rightarrow> byte list \<Rightarrow> u8 \<Rightarrow> bool \<Rightarrow> bool \<times> Key \<times> memory option" where
  "findValueByKey pb data sz large =
     (let key = key_set sz data 0 large in
      case pb_find_key pb key of
        None \<Rightarrow> (False, key, None)
      | Some (key, kv) \<Rightarrow> (True, key, Some kv))"

definition pb_deleteKey :: "ParityChunkBuffer \<Rightarrow> byte list \<Rightarrow> u8 \<Rightarrow> (bool \<times> ParityChunkBuffer) option" where
  "pb_deleteKey pb keyStr keySize =
     (let key = key_set keySize keyStr 0 False in
      case um_find key_same (pb_keys pb) key of
        None \<Rightarrow>
          do { key \<leftarrow> key_dup key 0 None 0 False;
               Some (False, pb\<lparr>pb_pending := snd (um_insert key_same (pb_pending pb) key PRT_DELETE)\<rparr>) }
      | Some _ \<Rightarrow> Some (True, pb\<lparr>pb_keys := um_erase key_same (pb_keys pb) key\<rparr>))"

definition updateKeyValue ::
  "ParityChunkBuffer \<Rightarrow> byte list \<Rightarrow> u8 \<Rightarrow> bool \<Rightarrow> u32 \<Rightarrow> u32 \<Rightarrow> byte list \<Rightarrow> (bool \<times> ParityChunkBuffer) option" where
  "updateKeyValue pb keyStr keySize large off len valueUpdate =
     (let key = key_set keySize keyStr 0 large in
      case pb_find_key pb key of
        None \<Rightarrow>
          if unat len \<le> length valueUpdate
          then do { key \<leftarrow> key_dup key 0 None 0 large;
                    Some (False, pb\<lparr>pb_pending := snd (um_insert key_same (pb_pending pb) key
                                                        (PRT_UPDATE off len (take (unat len) valueUpdate)))\<rparr>) }
          else None
      | Some (found, kv) \<Rightarrow>
          do { kv \<leftarrow> bitwiseXOR_self kv (4 + unat keySize + (if key_isLarge found then 3 else 0) + unat off) valueUpdate 0 len;
               Some (True, pb\<lparr>pb_keys := um_assign key_same (pb_keys pb) key kv\<rparr>) })"

definition getSealIndicator ::
  "u32 \<Rightarrow> u32 \<Rightarrow> (nat \<Rightarrow> nat \<Rightarrow> nat) \<Rightarrow> ParityChunkBuffer \<Rightarrow> Server \<Rightarrow> u32
     \<Rightarrow> (u8 \<times> bool list \<times> ParityChunkBuffer \<times> Server) option" where
  "getSealIndicator cs k rnd pb se stripeId =
     do { (w, pb, se) \<leftarrow> getWrapper cs k rnd pb se stripeId;
          ind \<leftarrow> (if unat (ucast k :: u8) \<le> length (pw_pending w)
                  then Some (map Not (take (unat (ucast k :: u8)) (pw_pending w))) else None);
          Some (ucast k, ind, pb, se) }"

end
