(* ===== verification/SealRequest.thy ===== *)
theory SealRequest
  imports ParityBuffer ControlProtocol
begin

text \<open>
  The SEAL_CHUNK request: \<^verbatim>\<open>ServerProtocol::reqSealChunk\<close> (\<^verbatim>\<open>server/protocol/protocol.cc\<close>), with which a
  data server tells the parity servers the keys of a chunk and their offsets, and the handler of the
  parity server (\<^verbatim>\<open>server/worker/server_peer_req_worker.cc\<close>).
\<close>

partial_function (option) reqSeal_loop ::
  "u32 \<Rightarrow> memory \<Rightarrow> nat \<Rightarrow> u32 \<Rightarrow> u32 \<Rightarrow> byte list \<Rightarrow> (u32 \<times> byte list) option" where
  "reqSeal_loop cs m p currentOffset cnt out =
     do { r \<leftarrow> cu_next cs m p currentOffset;
          case r of
            None \<Rightarrow> Some (cnt, out)
          | Some (nextOffset, key, keySize, large) \<Rightarrow>
              do { k \<leftarrow> peek m key (unat keySize + (if large then 3 else 0));
                   reqSeal_loop cs m p nextOffset (cnt + 1)
                     (out @ keySize # be32 currentOffset @ (if large then 1 else 0) # k) } }"

text \<open>The records are written behind the two headers before the length of the buffer is tested.\<close>

definition reqSealChunk ::
  "Protocol \<Rightarrow> u32 \<Rightarrow> u16 \<Rightarrow> u32 \<Rightarrow> memory \<Rightarrow> nat \<Rightarrow> u32 \<Rightarrow> memory option \<Rightarrow> (nat \<times> memory) option" where
  "reqSealChunk pr cs instanceId requestId m p startPos buf =
     do { md \<leftarrow> cu_getMetadata m p;
          (cnt, out) \<leftarrow> reqSeal_loop cs m p startPos 0 [];
          b \<leftarrow> poke (send_arg pr buf) 32 out;
          if length out \<le> pr_size pr
          then generateChunkSealHeader pr 0x01 0x60 0x51 instanceId requestId (md_listId md) (md_stripeId md)
                 (md_chunkId md) cnt (of_nat (length out)) (Some b)
          else None }"

text \<open>\<open>pbs\<close> are the chunk buffers of the server by stripe list; \<open>buf\<close> begins behind the message header.\<close>

definition handleSealChunkRequest ::
  "Protocol \<Rightarrow> encoder \<Rightarrow> u32 \<Rightarrow> u32 \<Rightarrow> (nat \<Rightarrow> nat \<Rightarrow> nat) \<Rightarrow> ParityChunkBuffer list \<Rightarrow> Server \<Rightarrow> memory \<Rightarrow> nat
     \<Rightarrow> (bool \<times> ParityChunkBuffer list \<times> Server) option" where
  "handleSealChunkRequest pr enc cs k rnd pbs se buf sz =
     do { (ok, h) \<leftarrow> parseChunkSealHeader pr \<lparr>csh_listId = 0, csh_stripeId = 0, csh_chunkId = 0, csh_count = 0\<rparr>
                       (Some buf) sz 0;
          if \<not> ok then Some (False, pbs, se)
          else do { pb \<leftarrow> item_at pbs (unat (csh_listId h));
                    (_, pb, se) \<leftarrow> pb_seal enc cs k rnd pb se (csh_stripeId h) (csh_chunkId h) (csh_count h)
                                    (take (sz - 16) (drop 16 buf));
                    Some (True, pbs[unat (csh_listId h) := pb], se) } }"

end
