(* ===== verification/ParitySeal.thy ===== *)
theory ParitySeal
  imports SealRequest CoordinatorMap
begin

unbundle bit_operations_syntax

text \<open>
  What the parity chunk buffer needs of a coding scheme, and what it gives: whatever the order in which the
  objects of a data chunk and the request that seals it arrive, in the end the parity chunk has the
  parity delta of the complete data chunk.
\<close>

section \<open>Objects at their places\<close>

definition offsets :: "u32 \<Rightarrow> stored list \<Rightarrow> nat \<Rightarrow> nat" where
  "offsets cs xs i = used cs (take i xs)"

lemma offsets_0 [simp]: "offsets cs xs 0 = 0"
  by (simp add: offsets_def)

lemma offsets_Suc: "i < length xs \<Longrightarrow> offsets cs xs (Suc i) = offsets cs xs i + length (st_image cs (xs ! i))"
  by (simp add: offsets_def take_Suc_conv_app_nth)

lemma offsets_all [simp]: "offsets cs xs (length xs) = used cs xs"
  by (simp add: offsets_def)

lemma offsets_mono: "i \<le> j \<Longrightarrow> offsets cs xs i \<le> offsets cs xs j"
proof -
  assume "i \<le> j"
  then obtain ys where "take j xs = take i xs @ ys" by (metis add_diff_inverse_nat not_less take_add)
  then show ?thesis by (simp add: offsets_def)
qed

text \<open>The bytes one object contributes to the data area, and the data area itself.\<close>

definition piece :: "u32 \<Rightarrow> nat \<Rightarrow> stored \<Rightarrow> nat \<Rightarrow> byte" where
  "piece cs off x b = (if off \<le> b \<and> b < off + length (st_image cs x) then st_image cs x ! (b - off) else 0)"

definition piece_at :: "u32 \<Rightarrow> stored list \<Rightarrow> nat \<Rightarrow> nat \<Rightarrow> byte" where
  "piece_at cs xs i = piece cs (offsets cs xs i) (xs ! i)"

definition sealed_chunk :: "u32 \<Rightarrow> stored list \<Rightarrow> memory" where
  "sealed_chunk cs xs = replicate 8 0 @ concat (map (st_image cs) xs) @ replicate (unat cs - used cs xs) 0"

lemma piece_outside: "b < off \<or> off + length (st_image cs x) \<le> b \<Longrightarrow> piece cs off x b = 0"
  by (auto simp: piece_def)

lemma piece_at_outside:
  assumes "i < length xs" and "b < offsets cs xs i \<or> offsets cs xs (Suc i) \<le> b"
  shows "piece_at cs xs i b = 0"
  using assms by (simp add: piece_at_def offsets_Suc piece_outside)

lemma pieces_concat:
  "j \<le> length xs \<Longrightarrow> b < offsets cs xs j \<Longrightarrow>
     xsum (\<lambda>i. piece_at cs xs i b) {..<j} = concat (map (st_image cs) xs) ! b"
proof (induction j)
  case (Suc j)
  have len: "length (concat (map (st_image cs) (take j xs))) = offsets cs xs j"
    by (simp add: offsets_def used_def)
  have split: "concat (map (st_image cs) xs)
      = concat (map (st_image cs) (take j xs)) @ st_image cs (xs ! j) @ concat (map (st_image cs) (drop (Suc j) xs))"
    using Suc.prems(1) id_take_nth_drop [of j xs] by (metis Suc_le_lessD concat.simps(2) concat_append list.simps(9) map_append)
  have ins: "xsum (\<lambda>i. piece_at cs xs i b) {..<Suc j} = piece_at cs xs j b XOR xsum (\<lambda>i. piece_at cs xs i b) {..<j}"
    by (simp add: lessThan_Suc xsum_insert)
  show ?case
  proof (cases "b < offsets cs xs j")
    case True
    then show ?thesis using Suc ins by (simp add: piece_at_outside)
  next
    case False
    have "piece_at cs xs i b = 0" if "i < j" for i
      using that False offsets_mono [of "Suc i" j cs xs] Suc.prems(1) by (intro piece_at_outside) auto
    then have "xsum (\<lambda>i. piece_at cs xs i b) {..<j} = 0" by (simp add: xors.neutral)
    moreover have "b - offsets cs xs j < length (st_image cs (xs ! j))"
      using Suc.prems False by (simp add: offsets_Suc)
    ultimately show ?thesis
      using ins False Suc.prems by (simp add: split nth_append len piece_at_def piece_def offsets_Suc)
  qed
qed simp

lemma sealed_bytes:
  assumes "used cs xs \<le> unat cs" and "b < unat cs"
  shows "dbyte (sealed_chunk cs xs) b = xsum (\<lambda>i. piece_at cs xs i b) {..<length xs}"
proof (cases "b < used cs xs")
  case True
  then show ?thesis using pieces_concat [of "length xs" xs b cs]
    by (simp add: sealed_chunk_def dbyte_def nth_append used_def)
next
  case False
  have "piece_at cs xs i b = 0" if "i < length xs" for i
    using that False offsets_mono [of "Suc i" "length xs" cs xs] by (intro piece_at_outside) auto
  then have "xsum (\<lambda>i. piece_at cs xs i b) {..<length xs} = 0" by (simp add: xors.neutral)
  then show ?thesis using False assms by (simp add: sealed_chunk_def dbyte_def nth_append used_def)
qed

lemma sealed_ok: "used cs xs \<le> unat cs \<Longrightarrow> chunk_ok (unat cs) (sealed_chunk cs xs)"
  by (simp add: chunk_ok_def sealed_chunk_def used_def)

section \<open>The message that seals a chunk\<close>

definition seal_entry :: "u32 \<Rightarrow> nat \<Rightarrow> stored \<Rightarrow> byte list" where
  "seal_entry cs off x = st_keySize x # be32 (of_nat off) @ 0 # st_key x"

definition seal_entries :: "u32 \<Rightarrow> stored list \<Rightarrow> nat \<Rightarrow> nat \<Rightarrow> byte list" where
  "seal_entries cs xs i j = concat (map (\<lambda>i. seal_entry cs (offsets cs xs i) (xs ! i)) [i..<j])"

text \<open>
  Small objects whose keys contain no zero byte: \<^verbatim>\<open>Key::equal\<close> compares with \<^verbatim>\<open>strncmp\<close>, which stops there, so that the tables take
  keys that differ only behind a zero byte for the same one (\<open>key_equal_ignores_split_offset\<close> in \<open>KeyValue\<close>).
\<close>

definition small_wf :: "u32 \<Rightarrow> stored \<Rightarrow> bool" where
  "small_wf cs x \<longleftrightarrow> st_wf cs x \<and> \<not> st_large cs x \<and> 0 \<notin> set (st_key x)"

lemma small_image:
  assumes "small_wf cs x"
  shows "st_image cs x = st_keySize x # drop 1 (be32 (st_valueSize x)) @ st_key x @ st_val x"
    and "length (st_image cs x) = 4 + unat (st_keySize x) + unat (st_valueSize x)"
    and "length (st_key x) = unat (st_keySize x)" and "st_splitOffset x = 0"
  using assms by (auto simp: small_wf_def st_wf_def st_image_def object_image_def be32_def)

lemma reqSeal_loop_simps:
  "reqSeal_loop cs m p off n out =
     do { r \<leftarrow> cu_next cs m p off;
          case r of
            None \<Rightarrow> Some (n, out)
          | Some (nextOffset, key, keySize, large) \<Rightarrow>
              do { k \<leftarrow> peek m key (unat keySize + (if large then 3 else 0));
                   reqSeal_loop cs m p nextOffset (n + 1)
                     (out @ keySize # be32 off @ (if large then 1 else 0) # k) } }"
  by (subst reqSeal_loop.simps) simp

lemma reqSeal_from:
  assumes h: "chunk_holds cs m p xs" and sm: "\<forall>x\<in>set xs. small_wf cs x" and i: "i \<le> length xs"
  shows "reqSeal_loop cs m p (of_nat (offsets cs xs i)) n out
    = Some (n + of_nat (length xs - i), out @ seal_entries cs xs i (length xs))"
  using i
proof (induction "length xs - i" arbitrary: i n out)
  case 0
  then have "i = length xs" by simp
  then show ?case using chunk_next_iterates [of cs m p xs "[]"] h
    by (subst reqSeal_loop_simps) (simp add: seal_entries_def)
next
  case (Suc d)
  then have i: "i < length xs" by simp
  let ?x = "xs ! i" and ?o = "offsets cs xs i"
  have xs: "xs = take i xs @ ?x # drop (Suc i) xs" using i by (rule id_take_nth_drop)
  have "small_wf cs ?x" using sm i by simp
  moreover have "chunk_holds cs m p (take i xs @ ?x # drop (Suc i) xs)" using h xs by simp
  ultimately have nxt: "cu_next cs m p (of_nat ?o)
      = Some (Some (of_nat (offsets cs xs (Suc i)), cu_getData p + ?o + 4, st_keySize ?x, False))"
    and key: "peek m (cu_getData p + ?o + 4) (unat (st_keySize ?x)) = Some (st_key ?x)"
    using chunk_next_iterates [of cs m p "take i xs" "?x # drop (Suc i) xs"] i
    by (simp_all add: offsets_def take_Suc_conv_app_nth small_wf_def)
  have "seal_entries cs xs i (length xs) = seal_entry cs ?o ?x @ seal_entries cs xs (Suc i) (length xs)"
    using i by (simp add: seal_entries_def upt_conv_Cons)
  moreover have "(1 :: u32) + of_nat (length xs - Suc i) = of_nat (length xs - i)"
    using i by (simp add: Suc_diff_Suc [symmetric])
  ultimately show ?case
    using nxt key Suc.hyps(1) [of "Suc i" "n + 1" "out @ seal_entry cs ?o ?x"] Suc.hyps(2) i
    by (subst reqSeal_loop_simps) (simp add: seal_entry_def add.assoc)
qed

section \<open>Keys\<close>

definition K :: "stored \<Rightarrow> Key" where
  "K x = key_set (st_keySize x) (st_key x) 0 False"

lemma K_readable: "small_wf cs x \<Longrightarrow> readable (K x)"
  by (simp add: small_image(3) K_def readable_def key_set_def key_bytes_def)

lemma K_tail: "small_wf cs x \<Longrightarrow> key_same (K x) (key_set (st_keySize x) (st_key x @ tail) 0 False)"
  unfolding K_def by (rule key_same_tail)
    (use K_readable [of cs x] in \<open>simp_all add: K_def key_bytes_def small_image(3)\<close>)

lemma K_same: "small_wf cs x \<Longrightarrow> small_wf cs y \<Longrightarrow> key_same (K x) (K y) \<longleftrightarrow> st_key x = st_key y"
proof -
  assume x: "small_wf cs x" and y: "small_wf cs y"
  have str: "key_string (K z) = st_key z" if "small_wf cs z" for z
    using that small_image(3) [OF that] by (simp add: key_string_def K_def key_set_def key_bytes_def cstr_nul_free small_wf_def)
  have "st_key x = st_key y \<Longrightarrow> st_keySize x = st_keySize y"
    using small_image(3) [OF x] small_image(3) [OF y] by (simp add: word_unat_eq_iff)
  then show ?thesis
    using x y K_readable str by (auto simp: key_same_readable) (simp_all add: K_def key_set_def key_hash_readable)
qed

lemma um_K:
  assumes "small_wf cs x"
  shows "um_find key_same t (key_set (st_keySize x) (st_key x @ tail) 0 False) = um_find key_same t (K x)"
    and "um_erase key_same t (key_set (st_keySize x) (st_key x @ tail) 0 False) = um_erase key_same t (K x)"
  by (rule keyed.find_cong [OF K_tail [OF assms], symmetric])
    (simp add: um_erase_def keyed.same_cong [OF K_tail [OF assms], symmetric])

text \<open>What the two tables have for the objects of a chunk.\<close>

lemma find_erase_K:
  "small_wf cs x \<Longrightarrow> small_wf cs y \<Longrightarrow>
     um_find key_same (um_erase key_same t (K x)) (K y) = (if st_key x = st_key y then None else um_find key_same t (K y))"
  by (simp add: keyed.find_erase K_same)

lemma find_insert_K:
  assumes x: "small_wf cs x" and y: "small_wf cs y" and k: "key_same k (K x)" and new: "um_find key_same t (K x) = None"
  shows "um_find key_same (snd (um_insert key_same t k v)) (K y)
    = (if st_key x = st_key y then Some v else um_find key_same t (K y))"
    and "fst (um_insert key_same t k v)"
proof -
  have n: "um_find key_same t k = None" using keyed.find_cong [OF k] new by metis
  have "key_same k (K y) \<longleftrightarrow> key_same (K x) (K y)" using keyed.same_cong keyed.same_sym k by metis
  then show "um_find key_same (snd (um_insert key_same t k v)) (K y)
      = (if st_key x = st_key y then Some v else um_find key_same t (K y))"
    using n by (simp add: keyed.find_insert K_same [OF x y])
  show "fst (um_insert key_same t k v)" using n by (simp add: um_insert_def)
qed

lemma small_object_of_image:
  assumes "small_wf cs x"
  shows "deserialize cs (st_image cs x) 0 = Some \<lparr>obj_key = 4, obj_keySize = st_keySize x,
      obj_value = 4 + unat (st_keySize x), obj_valueSize = st_valueSize x, obj_splitOffset = 0\<rparr>"
    and "object_size cs \<lparr>obj_key = 4, obj_keySize = st_keySize x,
      obj_value = 4 + unat (st_keySize x), obj_valueSize = st_valueSize x, obj_splitOffset = 0\<rparr>
      = Some (of_nat (length (st_image cs x)))"
    and "drop 4 (st_image cs x) = st_key x @ st_val x"
proof -
  have wf: "st_wf cs x" "\<not> st_large cs x" using assms by (simp_all add: small_wf_def)
  have "peek (st_image cs x) 0 (length (st_image cs x)) = Some (st_image cs x)" by (simp add: peek_def seg_def)
  from deserialize_stored [OF wf(1) this] show "deserialize cs (st_image cs x) 0 = Some \<lparr>obj_key = 4,
      obj_keySize = st_keySize x, obj_value = 4 + unat (st_keySize x), obj_valueSize = st_valueSize x, obj_splitOffset = 0\<rparr>"
    using wf(2) small_image(4) [OF assms] by simp
  show "object_size cs \<lparr>obj_key = 4, obj_keySize = st_keySize x,
      obj_value = 4 + unat (st_keySize x), obj_valueSize = st_valueSize x, obj_splitOffset = 0\<rparr>
      = Some (of_nat (length (st_image cs x)))"
    using object_size_stored [OF wf(1)] small_image(4) [OF assms] by simp
  show "drop 4 (st_image cs x) = st_key x @ st_val x"
    using small_image(1) [OF assms] by (simp add: be32_def)
qed

section \<open>A SET before the seal\<close>

lemma small_large: "small_wf cs x \<Longrightarrow> isLarge cs (st_keySize x) (st_valueSize x) = Some (False, 1, st_valueSize x)"
  using isLarge_unat(1) [of "st_keySize x" cs "st_valueSize x"] by (simp add: small_wf_def st_wf_def st_large_def)

lemma small_serialize:
  assumes "small_wf cs x"
  shows "serialize cs m p (Some (st_key x)) (st_keySize x) (Some (st_val x)) (st_valueSize x) 0
    = poke m p (st_image cs x)"
proof -
  have x: "st_splitOffset x = 0" "length (st_key x) = unat (st_keySize x)" "length (st_val x) = unat (st_valueSize x)"
    "\<not> st_large cs x" using assms by (auto simp: small_wf_def st_wf_def)
  then show ?thesis
    using serialize_image [OF small_large [OF assms], of "st_key x" 0 "st_val x"] small_large [OF assms]
    by (simp add: piece_len_def st_image_def)
qed

lemma small_length_u32:
  assumes "small_wf cs x"
  shows "unat (4 + ucast (st_keySize x) + st_valueSize x :: u32) = length (st_image cs x)"
    and "(of_nat (length (st_image cs x)) :: u32) = 4 + ucast (st_keySize x) + st_valueSize x"
proof -
  have vs: "unat (st_valueSize x) < 2 ^ 24" using assms u24_less by (simp add: small_wf_def st_wf_def)
  have ks: "unat (st_keySize x) < 256" by (rule unat_u8_less)
  show "unat (4 + ucast (st_keySize x) + st_valueSize x :: u32) = length (st_image cs x)"
    using vs ks small_image(2) [OF assms] by (simp add: unat_plus_eq)
  show "(of_nat (length (st_image cs x)) :: u32) = 4 + ucast (st_keySize x) + st_valueSize x"
    using small_image(2) [OF assms] by simp
qed

definition waiting_key :: "stored \<Rightarrow> Key" where
  "waiting_key x = key_set (st_keySize x) (st_key x @ st_val x) 0 False"

lemma set_waits:
  assumes x: "small_wf cs x" and "um_find key_same (pb_pending pb) (K x) = None"
    and new: "um_find key_same (pb_keys pb) (K x) = None"
  shows "pb_set enc cs k rnd pb se (st_key x) (st_keySize x) (st_val x) (st_valueSize x) c 0 gcb
    = Some (True, pb\<lparr>pb_keys := snd (um_insert key_same (pb_keys pb) (waiting_key x) (st_image cs x))\<rparr>, se, gcb)"
proof -
  have "kv_dup cs (Some (st_key x)) (st_keySize x) (Some (st_val x)) (st_valueSize x) 0
      = poke (replicate (length (st_image cs x)) 0) 0 (st_image cs x)"
    using small_large [OF x] small_serialize [OF x] small_length_u32(1) [OF x]
    by (simp add: kv_dup_def add.commute add.left_commute)
  then have dup: "kv_dup cs (Some (st_key x)) (st_keySize x) (Some (st_val x)) (st_valueSize x) 0 = Some (st_image cs x)"
    by (simp add: poke_def)
  have "fst (um_insert key_same (pb_keys pb) (waiting_key x) (st_image cs x))"
    using find_insert_K(2) [OF x x _ new] K_tail [OF x] keyed.same_sym unfolding waiting_key_def by blast
  then show ?thesis
    using assms(2) small_large [OF x] dup small_object_of_image(1,3) [OF x]
    by (simp add: pb_set_def K_def waiting_key_def case_prod_unfold Let_def)
qed

section \<open>The seal\<close>

definition seal_inv :: "u32 \<Rightarrow> u32 \<Rightarrow> stored list \<Rightarrow> nat set \<Rightarrow> nat \<Rightarrow> seal_state \<Rightarrow> bool" where
  "seal_inv cs s xs A j st \<longleftrightarrow>
     chunk_ok (unat cs) (sl_data st)
     \<and> (\<forall>b<unat cs. dbyte (sl_data st) b = xsum (\<lambda>i. piece_at cs xs i b) (A \<inter> {..<j}))
     \<and> (\<exists>e. sl_curPos st = of_nat e \<and> e \<le> offsets cs xs j \<and> (\<forall>i\<in>A \<inter> {..<j}. offsets cs xs (Suc i) \<le> e))
     \<and> sl_count st = of_nat j \<and> sl_ret st
     \<and> (\<forall>i<length xs. um_find key_same (sl_keys st) (K (xs ! i))
          = (if i \<in> A \<and> j \<le> i then Some (st_image cs (xs ! i)) else None))
     \<and> (\<forall>i<length xs. um_find key_same (sl_pending st) (K (xs ! i))
          = (if i \<notin> A \<and> i < j then Some (PRT_SEAL s (of_nat (offsets cs xs i))) else None))"

definition chunk_objects :: "u32 \<Rightarrow> stored list \<Rightarrow> bool" where
  "chunk_objects cs xs \<longleftrightarrow> (\<forall>x\<in>set xs. small_wf cs x) \<and> distinct (map st_key xs) \<and> used cs xs \<le> unat cs"

lemma chunk_objects_nth:
  assumes "chunk_objects cs xs" and "i < length xs"
  shows "small_wf cs (xs ! i)" and "offsets cs xs i + length (st_image cs (xs ! i)) \<le> unat cs"
    and "\<And>j. j < length xs \<Longrightarrow> st_key (xs ! i) = st_key (xs ! j) \<longleftrightarrow> i = j"
proof -
  show "small_wf cs (xs ! i)" using assms by (simp add: chunk_objects_def)
  show "offsets cs xs i + length (st_image cs (xs ! i)) \<le> unat cs"
    using offsets_mono [of "Suc i" "length xs" cs xs] assms by (simp add: offsets_Suc chunk_objects_def)
  show "st_key (xs ! i) = st_key (xs ! j) \<longleftrightarrow> i = j" if "j < length xs" for j
    using assms that nth_eq_iff_index_eq [of "map st_key xs" i j] by (simp add: chunk_objects_def)
qed

lemma seal_entry_length: "small_wf cs x \<Longrightarrow> length (seal_entry cs off x) = 6 + unat (st_keySize x)"
  by (simp add: seal_entry_def small_image(3))

text \<open>The state with the flag of the result already combined, as both branches see it.\<close>

lemma seal_ret_True: "sl_ret st \<Longrightarrow> st\<lparr>sl_ret := True\<rparr> = st"
  by (cases st) simp

lemma seal_record_taken:
  assumes x: "small_wf cs x" and pend: "um_find key_same (sl_pending st) (K x) = None" and ret: "sl_ret st"
    and keys: "um_find key_same (sl_keys st) (K x) = Some (st_image cs x)"
    and poke: "poke (sl_data st) (8 + off) (st_image cs x) = Some D" and off: "off + length (st_image cs x) \<le> unat cs"
  shows "seal_record cs s (seal_entry cs off x @ rest) st
    = Some (length (seal_entry cs off x),
        st\<lparr>sl_data := D, sl_curPos := of_nat (off + length (st_image cs x)), sl_keys := um_erase key_same (sl_keys st) (K x),
           sl_count := sl_count st + 1\<rparr>)"
proof -
  let ?key = "key_set (st_keySize x) (st_key x @ rest) 0 False" and ?n = "length (st_image cs x)"
  have small: "?n < 2 ^ 32" "off < 2 ^ 32" using off unat_u32_less [of cs] by simp_all
  have u: "unat (of_nat off :: u32) = off" "unat (of_nat ?n :: u32) = ?n"
    using small by (simp_all add: unat_of_nat_eq)
  have "take_key cs (of_nat off) ?key (st_image cs x) st
      = Some (st_keySize x, st\<lparr>sl_data := D, sl_curPos := of_nat (off + ?n), sl_keys := um_erase key_same (sl_keys st) (K x)\<rparr>)"
    using poke by (simp add: take_key_def small_object_of_image [OF x] u um_K(2) [OF x])
  then show ?thesis
    using pend keys ret seal_entry_length [OF x, of off]
    by (simp add: um_K(1) [OF x] seal_record_def seal_entry_def be32_def seal_ret_True)
qed

lemma seal_record_deferred:
  assumes x: "small_wf cs x" and pend: "um_find key_same (sl_pending st) (K x) = None" and ret: "sl_ret st"
    and keys: "um_find key_same (sl_keys st) (K x) = None"
  shows "seal_record cs s (seal_entry cs off x @ rest) st
    = Some (length (seal_entry cs off x),
        st\<lparr>sl_pending := snd (um_insert key_same (sl_pending st) (K x) (PRT_SEAL s (of_nat off))),
           sl_count := sl_count st + 1\<rparr>)"
proof -
  let ?key = "key_set (st_keySize x) (st_key x @ rest) 0 False"
  have "key_dup ?key 0 None 0 False = Some (K x)"
    using small_image(3) [OF x] by (simp add: key_dup_def key_set_def K_def Let_def)
  moreover have "fst (um_insert key_same (sl_pending st) (K x) (PRT_SEAL s (of_nat off)))"
    using pend by (simp add: um_insert_def)
  ultimately have "defer_key s (of_nat off) ?key st
      = Some (st\<lparr>sl_pending := snd (um_insert key_same (sl_pending st) (K x) (PRT_SEAL s (of_nat off)))\<rparr>)"
    using ret by (cases st) (simp add: defer_key_def key_set_def case_prod_unfold)
  then show ?thesis
    using pend keys ret seal_entry_length [OF x, of off]
    by (simp add: um_K(1) [OF x] seal_record_def seal_entry_def be32_def seal_ret_True)
qed

lemma seal_step:
  assumes ob: "chunk_objects cs xs" and inv: "seal_inv cs s xs A j st" and j: "j < length xs"
  obtains st' where "seal_record cs s (seal_entry cs (offsets cs xs j) (xs ! j) @ rest) st
      = Some (length (seal_entry cs (offsets cs xs j) (xs ! j)), st')" and "seal_inv cs s xs A (Suc j) st'"
proof -
  let ?x = "xs ! j" and ?o = "offsets cs xs j"
  note x = chunk_objects_nth [OF ob j]
  have pend: "um_find key_same (sl_pending st) (K ?x) = None" and ret: "sl_ret st"
    and keys: "um_find key_same (sl_keys st) (K ?x) = (if j \<in> A then Some (st_image cs ?x) else None)"
    and data: "chunk_ok (unat cs) (sl_data st)"
      "\<And>b. b < unat cs \<Longrightarrow> dbyte (sl_data st) b = xsum (\<lambda>i. piece_at cs xs i b) (A \<inter> {..<j})"
    using inv j by (simp_all add: seal_inv_def)
  obtain e where e: "sl_curPos st = of_nat e" "e \<le> ?o" "\<forall>i\<in>A \<inter> {..<j}. offsets cs xs (Suc i) \<le> e"
    using inv by (auto simp: seal_inv_def)
  have others: "um_find key_same (um_erase key_same t (K ?x)) (K (xs ! i)) = (if i = j then None else um_find key_same t (K (xs ! i)))"
    if "i < length xs" for i and t :: "(Key, memory) um"
    using find_erase_K [OF x(1) chunk_objects_nth(1) [OF ob that]] x(3) [OF that] by auto
  have other: "um_find key_same (snd (um_insert key_same (sl_pending st) (K ?x) v)) (K (xs ! i))
      = (if i = j then Some v else um_find key_same (sl_pending st) (K (xs ! i)))" if "i < length xs" for i v
    using find_insert_K(1) [OF x(1) chunk_objects_nth(1) [OF ob that] keyed.same_refl [OF K_readable [OF x(1)]] pend] x(3) [OF that]
    by auto
  show ?thesis
  proof (cases "j \<in> A")
    case True
    have len: "8 + ?o + length (st_image cs ?x) \<le> length (sl_data st)"
      using x(2) data(1) by (simp add: chunk_ok_def)
    define D where "D = take (8 + ?o) (sl_data st) @ st_image cs ?x @ drop (8 + ?o + length (st_image cs ?x)) (sl_data st)"
    have poke: "poke (sl_data st) (8 + ?o) (st_image cs ?x) = Some D" using len by (simp add: poke_def D_def)
    have AJ: "A \<inter> {..<Suc j} = insert j (A \<inter> {..<j})" using True by auto
    have zero: "xsum (\<lambda>i. piece_at cs xs i b) (A \<inter> {..<j}) = 0" if "?o \<le> b" for b
    proof (intro xors.neutral ballI)
      fix i assume i: "i \<in> A \<inter> {..<j}"
      then have "offsets cs xs (Suc i) \<le> b" using e(2,3) that by (meson le_trans)
      then show "piece_at cs xs i b = 0" using i j by (intro piece_at_outside) auto
    qed
    have "dbyte D b = xsum (\<lambda>i. piece_at cs xs i b) (A \<inter> {..<Suc j})" if b: "b < unat cs" for b
    proof -
      have "dbyte D b = (if ?o \<le> b \<and> b < ?o + length (st_image cs ?x) then st_image cs ?x ! (b - ?o) else dbyte (sl_data st) b)"
        using len b data(1) by (auto simp: dbyte_def D_def nth_append chunk_ok_def add.commute add.left_commute)
      also have "\<dots> = piece_at cs xs j b XOR xsum (\<lambda>i. piece_at cs xs i b) (A \<inter> {..<j})"
        using data(2) [OF b] zero [of b] by (auto simp: piece_at_def piece_def)
      finally show ?thesis by (simp add: AJ xsum_insert)
    qed
    moreover have "chunk_ok (unat cs) D" using len data(1) by (simp add: chunk_ok_def D_def)
    moreover have "\<exists>e'. (of_nat (?o + length (st_image cs ?x)) :: u32) = of_nat e' \<and> e' \<le> offsets cs xs (Suc j)
        \<and> (\<forall>i\<in>A \<inter> {..<Suc j}. offsets cs xs (Suc i) \<le> e')"
      using j e(2,3) by (intro exI [of _ "?o + length (st_image cs ?x)"]) (force simp: offsets_Suc less_Suc_eq)
    ultimately show ?thesis
      using that seal_record_taken [OF x(1) pend ret _ poke x(2)] keys True inv others other
      by (auto simp: seal_inv_def less_Suc_eq)
  next
    case False
    have AJ: "A \<inter> {..<Suc j} = A \<inter> {..<j}" using False by (auto simp: less_Suc_eq)
    have "\<exists>e'. sl_curPos st = of_nat e' \<and> e' \<le> offsets cs xs (Suc j) \<and> (\<forall>i\<in>A \<inter> {..<Suc j}. offsets cs xs (Suc i) \<le> e')"
      using e j AJ by (intro exI [of _ e]) (simp add: offsets_Suc)
    moreover have "um_find key_same (sl_keys st) (K (xs ! i)) = (if i \<in> A \<and> Suc j \<le> i then Some (st_image cs (xs ! i)) else None)"
      if "i < length xs" for i
      using inv that False by (cases "i = j") (auto simp: seal_inv_def Suc_le_eq)
    moreover have "um_find key_same (snd (um_insert key_same (sl_pending st) (K ?x) (PRT_SEAL s (of_nat ?o)))) (K (xs ! i))
        = (if i \<notin> A \<and> i < Suc j then Some (PRT_SEAL s (of_nat (offsets cs xs i))) else None)"
      if "i < length xs" for i
      using inv that False other [OF that] by (cases "i = j") (auto simp: seal_inv_def less_Suc_eq)
    ultimately have "seal_inv cs s xs A (Suc j)
        (st\<lparr>sl_pending := snd (um_insert key_same (sl_pending st) (K ?x) (PRT_SEAL s (of_nat ?o))),
            sl_count := sl_count st + 1\<rparr>)"
      using inv AJ by (simp add: seal_inv_def add.commute)
    then show ?thesis
      using that seal_record_deferred [OF x(1) pend ret] keys False by simp
  qed
qed

lemma seal_records_simps:
  "seal_records cs s [] st = Some st"
  "seal_record cs s (r @ rest) st = Some (length r, st') \<Longrightarrow> r \<noteq> [] \<Longrightarrow>
     seal_records cs s (r @ rest) st = seal_records cs s rest st'"
  by (simp_all add: seal_records.simps [of _ _ "[]"] seal_records.simps [of _ _ "r @ rest"])

lemma seal_all:
  assumes ob: "chunk_objects cs xs"
  shows "j \<le> length xs \<Longrightarrow> seal_inv cs s xs A j st \<Longrightarrow>
    \<exists>st'. seal_records cs s (seal_entries cs xs j (length xs)) st = Some st' \<and> seal_inv cs s xs A (length xs) st'"
proof (induction "length xs - j" arbitrary: j st)
  case 0
  then show ?case by (simp add: seal_entries_def seal_records_simps(1))
next
  case (Suc d)
  then have j: "j < length xs" by simp
  let ?r = "seal_entry cs (offsets cs xs j) (xs ! j)" and ?rest = "seal_entries cs xs (Suc j) (length xs)"
  obtain st1 where st1: "seal_record cs s (?r @ ?rest) st = Some (length ?r, st1)" "seal_inv cs s xs A (Suc j) st1"
    by (rule seal_step [OF ob Suc.prems(2) j])
  have "seal_entries cs xs j (length xs) = ?r @ ?rest" using j by (simp add: seal_entries_def upt_conv_Cons)
  moreover have "?r \<noteq> []" by (simp add: seal_entry_def)
  ultimately show ?case
    using seal_records_simps(2) [OF st1(1)] Suc.hyps(1) [of "Suc j" st1] Suc.hyps(2) st1(2) j by simp
qed

end
