(* ===== verification/ParityOrder.thy ===== *)
theory ParityOrder
  imports ParitySeal
begin

unbundle bit_operations_syntax

text \<open>
  The order of SET and SEAL requests at a parity server. A coding scheme is seen through the parity delta
  of one data chunk, which has to be linear; the scheme is a locale, its laws are what
  \<^verbatim>\<open>ParityChunkBuffer::update\<close> relies on.
\<close>

section \<open>The coding scheme\<close>

locale delta_encoder =
  fixes cs k :: u32 and enc :: encoder and index :: nat and image :: "nat \<Rightarrow> (nat \<Rightarrow> byte) \<Rightarrow> nat \<Rightarrow> byte"
  assumes encodes: "c < unat k \<Longrightarrow> chunk_ok (unat cs) d \<Longrightarrow>
      (\<And>b. b < unat cs \<Longrightarrow> \<not> (off \<le> b \<and> b < off + len) \<Longrightarrow> dbyte d b = 0) \<Longrightarrow>
      \<exists>p. enc ((replicate (unat k) (empty_chunk cs))[c := d]) (empty_chunk cs) index
             (off + c * unat cs) (off + c * unat cs + len) = Some p
        \<and> chunk_ok (unat cs) p \<and> (\<forall>b<unat cs. dbyte p b = image c (dbyte d) b)"
    and linear: "b < unat cs \<Longrightarrow> image c (\<lambda>a. f a XOR g a) b = image c f b XOR image c g b"
    and local: "(\<And>a. a < unat cs \<Longrightarrow> f a = g a) \<Longrightarrow> b < unat cs \<Longrightarrow> image c f b = image c g b"
begin

lemma image_zero: "b < unat cs \<Longrightarrow> image c (\<lambda>a. 0) b = 0"
  using linear [of b c "\<lambda>a. 0" "\<lambda>a. 0"] by simp

lemma image_xsum: "finite A \<Longrightarrow> b < unat cs \<Longrightarrow> image c (\<lambda>a. xsum (\<lambda>i. f i a) A) b = xsum (\<lambda>i. image c (f i) b) A"
  by (induction A rule: finite_induct) (simp_all add: image_zero xsum_insert linear)

end

section \<open>The parity chunk\<close>

definition parity_ready :: "u32 \<Rightarrow> u32 \<Rightarrow> nat \<Rightarrow> ParityChunkBuffer \<Rightarrow> Server \<Rightarrow> u32 \<Rightarrow> ParityChunkWrapper \<Rightarrow> bool" where
  "parity_ready cs k index pb se s w \<longleftrightarrow> pb_chunks pb s = Some w
     \<and> pw_chunk w + 8 + unat cs \<le> length (se_mem se)
     \<and> unat (pb_chunkId pb - k + 1) = index \<and> unat k * unat cs < 2 ^ 32"

definition parity_byte :: "Server \<Rightarrow> ParityChunkWrapper \<Rightarrow> nat \<Rightarrow> byte" where
  "parity_byte se w b = se_mem se ! (pw_chunk w + 8 + b)"

definition no_backup :: "GetChunkBuffer option \<Rightarrow> ParityChunkBuffer \<Rightarrow> u32 \<Rightarrow> bool" where
  "no_backup gcb pb s \<longleftrightarrow> (\<forall>gb. gcb = Some gb \<longrightarrow> gc_find gb (md_set (pb_listId pb) s (pb_chunkId pb)) = None)"

lemma position_u32:
  assumes "c < k" and "unat k * unat cs < 2 ^ 32" and "off + len \<le> unat (cs :: u32)"
  shows "unat (of_nat off + c * cs :: u32) = off + unat c * unat cs"
    and "unat (of_nat off + c * cs + of_nat len :: u32) = off + unat c * unat cs + len"
proof -
  have "unat c * unat cs + unat cs \<le> unat k * unat cs"
    using mult_le_mono1 [of "Suc (unat c)" "unat k" "unat cs"] assms(1) by (simp add: word_less_nat_alt Suc_leI add.commute)
  then have lt: "unat c * unat cs + off + len < 2 ^ 32" using assms(2,3) by linarith
  have e: "(of_nat off + c * cs :: u32) = of_nat (off + unat c * unat cs)"
    "(of_nat off + c * cs + of_nat len :: u32) = of_nat (off + unat c * unat cs + len)" by simp_all
  show "unat (of_nat off + c * cs :: u32) = off + unat c * unat cs"
    unfolding e by (rule unat_of_nat_eq) (use lt in simp)
  show "unat (of_nat off + c * cs + of_nat len :: u32) = off + unat c * unat cs + len"
    unfolding e(2) by (rule unat_of_nat_eq) (use lt in simp)
qed

lemma parity_xor:
  assumes "p + 8 + unat cs \<le> length m" and "chunk_ok (unat cs) q"
  obtains m' where "bitwiseXOR_self m (cu_getData p) q 8 cs = Some m'" and "length m' = length m"
    and "\<And>b. b < unat cs \<Longrightarrow> m' ! (p + 8 + b) = m ! (p + 8 + b) XOR dbyte q b"
proof -
  let ?v = "xor_bytes (seg (p + 8) (unat cs) m) (seg 8 (unat cs) q)"
  have len: "length ?v = unat cs" using assms by (simp add: chunk_ok_def)
  have "bitwiseXOR_self m (cu_getData p) q 8 cs = poke m (p + 8) ?v"
    using bitwiseXOR_self_poke [of "p + 8" cs m 8 q] assms by (simp add: cu_getData_def chunk_ok_def)
  then have run: "bitwiseXOR_self m (cu_getData p) q 8 cs = Some (take (p + 8) m @ ?v @ drop (p + 8 + unat cs) m)"
    using assms(1) len by (simp add: poke_def)
  show ?thesis
    by (rule that [OF run]) (use assms len in \<open>simp_all add: nth_append nth_seg dbyte_def chunk_ok_def\<close>)
qed

context delta_encoder
begin

lemma update_adds:
  assumes ready: "parity_ready cs k index pb se s w" and c: "c < k" and d: "chunk_ok (unat cs) d"
    and zero: "\<And>b. b < unat cs \<Longrightarrow> \<not> (off \<le> b \<and> b < off + len) \<Longrightarrow> dbyte d b = 0"
    and r: "off + len \<le> unat cs" and nb: "no_backup gcb pb s"
  obtains m where "pb_update enc cs k rnd pb se s c (of_nat off) (of_nat len) d isSeal False gcb
      = Some (pb\<lparr>pb_chunks := (pb_chunks pb)(s \<mapsto>
                  if isSeal then w\<lparr>pw_pending := (pw_pending w)[unat c := False]\<rparr> else w)\<rparr>, set_mem m se, gcb)"
    and "length m = length (se_mem se)"
    and "\<And>b. b < unat cs \<Longrightarrow> m ! (pw_chunk w + 8 + b) = parity_byte se w b XOR image (unat c) (dbyte d) b"
proof -
  from ready have w: "pb_chunks pb s = Some w" "pw_chunk w + 8 + unat cs \<le> length (se_mem se)"
    "unat (pb_chunkId pb - k + 1) = index" "unat k * unat cs < 2 ^ 32" by (simp_all add: parity_ready_def)
  have "unat c < unat k" using c by (simp add: word_less_nat_alt)
  from encodes [OF this d zero, of off len] obtain p where
    p: "enc ((replicate (unat k) (empty_chunk cs))[unat c := d]) (empty_chunk cs) index
          (off + unat c * unat cs) (off + unat c * unat cs + len) = Some p"
      "chunk_ok (unat cs) p" "\<And>b. b < unat cs \<Longrightarrow> dbyte p b = image (unat c) (dbyte d) b" by blast
  then have delta: "parity_delta enc cs k pb c (of_nat off) (of_nat len) d = Some p"
    using c w(3) position_u32 [OF c w(4) r] by (simp add: parity_delta_def)
  obtain m where m: "bitwiseXOR_self (se_mem se) (cu_getData (pw_chunk w)) p 8 cs = Some m" "length m = length (se_mem se)"
    "\<And>b. b < unat cs \<Longrightarrow> m ! (pw_chunk w + 8 + b) = se_mem se ! (pw_chunk w + 8 + b) XOR dbyte p b"
    by (rule parity_xor [OF w(2) p(2)]) blast
  have "(case gcb of None \<Rightarrow> Some None
      | Some gb \<Rightarrow> map_option Some (update_backup cs (md_set (pb_listId pb) s (pb_chunkId pb)) c gb)) = Some gcb"
    using nb by (cases gcb) (simp_all add: no_backup_def update_backup_def)
  then show ?thesis
    using that [OF _ m(2)] m delta w(1) p(3) by (simp add: pb_update_def getWrapper_def parity_byte_def)
qed

end

section \<open>Runs of SET requests\<close>

text \<open>The SETs of the objects with the numbers \<open>js\<close>, in this order; a SET that is refused ends the run.\<close>

definition set_objects ::
  "encoder \<Rightarrow> u32 \<Rightarrow> u32 \<Rightarrow> (nat \<Rightarrow> nat \<Rightarrow> nat \<Rightarrow> nat) \<Rightarrow> stored list \<Rightarrow> u32 \<Rightarrow> GetChunkBuffer option \<Rightarrow> nat list
     \<Rightarrow> ParityChunkBuffer \<times> Server \<Rightarrow> (ParityChunkBuffer \<times> Server) option" where
  "set_objects enc cs k rnd xs c gcb =
     foldM (\<lambda>i (pb, se).
       do { x \<leftarrow> item_at xs i;
            (r, pb, se, _) \<leftarrow> pb_set enc cs k (rnd i) pb se (st_key x) (st_keySize x) (st_val x) (st_valueSize x) c 0 gcb;
            if r then Some (pb, se) else None })"

lemma set_objects_Cons:
  "i < length xs \<Longrightarrow>
   pb_set enc cs k (rnd i) pb se (st_key (xs ! i)) (st_keySize (xs ! i)) (st_val (xs ! i)) (st_valueSize (xs ! i)) c 0 gcb
     = Some (True, pb', se', g) \<Longrightarrow>
   set_objects enc cs k rnd xs c gcb (i # js) (pb, se) = set_objects enc cs k rnd xs c gcb js (pb', se')"
  by (simp add: set_objects_def item_at_def)

text \<open>Before the seal: the objects of \<open>A\<close> are waiting. After it: the keys outside \<open>A\<close> are awaited.\<close>

definition before_seal :: "u32 \<Rightarrow> stored list \<Rightarrow> nat set \<Rightarrow> ParityChunkBuffer \<Rightarrow> bool" where
  "before_seal cs xs A pb \<longleftrightarrow> (\<forall>i<length xs.
     um_find key_same (pb_keys pb) (K (xs ! i)) = (if i \<in> A then Some (st_image cs (xs ! i)) else None)
     \<and> um_find key_same (pb_pending pb) (K (xs ! i)) = None)"

definition after_seal :: "u32 \<Rightarrow> stored list \<Rightarrow> u32 \<Rightarrow> nat set \<Rightarrow> ParityChunkBuffer \<Rightarrow> bool" where
  "after_seal cs xs s A pb \<longleftrightarrow> (\<forall>i<length xs.
     um_find key_same (pb_keys pb) (K (xs ! i)) = None
     \<and> um_find key_same (pb_pending pb) (K (xs ! i))
         = (if i \<in> A then None else Some (PRT_SEAL s (of_nat (offsets cs xs i)))))"

definition same_place :: "ParityChunkBuffer \<Rightarrow> ParityChunkBuffer \<Rightarrow> bool" where
  "same_place pb pb' \<longleftrightarrow> pb_listId pb' = pb_listId pb \<and> pb_chunkId pb' = pb_chunkId pb \<and> pb_chunks pb' = pb_chunks pb"

lemma sets_before:
  assumes ob: "chunk_objects cs xs"
  shows "distinct js \<Longrightarrow> set js \<subseteq> {..<length xs} \<Longrightarrow> set js \<inter> A = {} \<Longrightarrow> before_seal cs xs A pb \<Longrightarrow>
    \<exists>pb'. set_objects enc cs k rnd xs c gcb js (pb, se) = Some (pb', se)
      \<and> before_seal cs xs (A \<union> set js) pb' \<and> same_place pb pb'"
proof (induction js arbitrary: A pb)
  case Nil
  then show ?case by (simp add: set_objects_def same_place_def)
next
  case (Cons i js)
  then have i: "i < length xs" "i \<notin> A" by auto
  note x = chunk_objects_nth [OF ob i(1)]
  let ?x = "xs ! i"
  have none: "um_find key_same (pb_pending pb) (K ?x) = None" "um_find key_same (pb_keys pb) (K ?x) = None"
    using Cons.prems(4) i by (simp_all add: before_seal_def)
  let ?pb = "pb\<lparr>pb_keys := snd (um_insert key_same (pb_keys pb) (waiting_key ?x) (st_image cs ?x))\<rparr>"
  have run: "set_objects enc cs k rnd xs c gcb (i # js) (pb, se) = set_objects enc cs k rnd xs c gcb js (?pb, se)"
    using i(1) set_waits [OF x(1) none] by (simp add: set_objects_def item_at_def)
  have wk: "key_same (waiting_key ?x) (K ?x)"
    using K_tail [OF x(1)] keyed.same_sym unfolding waiting_key_def by blast
  have "before_seal cs xs (insert i A) ?pb"
    unfolding before_seal_def
  proof (intro allI impI conjI)
    fix j assume j: "j < length xs"
    show "um_find key_same (pb_keys ?pb) (K (xs ! j)) = (if j \<in> insert i A then Some (st_image cs (xs ! j)) else None)"
      using find_insert_K(1) [OF x(1) chunk_objects_nth(1) [OF ob j] wk none(2)] x(3) [OF j] Cons.prems(4) j
      by (auto simp: before_seal_def)
    show "um_find key_same (pb_pending ?pb) (K (xs ! j)) = None" using Cons.prems(4) j by (simp add: before_seal_def)
  qed
  moreover have "distinct js" "set js \<subseteq> {..<length xs}" "set js \<inter> insert i A = {}" using Cons.prems(1-3) by auto
  ultimately obtain pb' where "set_objects enc cs k rnd xs c gcb js (?pb, se) = Some (pb', se)"
    "before_seal cs xs (insert i A \<union> set js) pb'" "same_place ?pb pb'"
    using Cons.IH by blast
  then show ?case using run by (auto simp: same_place_def)
qed

lemma after_seal_takes:
  assumes ob: "chunk_objects cs xs" and i: "i < length xs" and inv: "after_seal cs xs s A pb"
  shows "after_seal cs xs s (insert i A) (pb\<lparr>pb_pending := um_erase key_same (pb_pending pb) (K (xs ! i))\<rparr>)"
  unfolding after_seal_def
proof (intro allI impI conjI)
  fix j assume j: "j < length xs"
  let ?pb = "pb\<lparr>pb_pending := um_erase key_same (pb_pending pb) (K (xs ! i))\<rparr>"
  show "um_find key_same (pb_keys ?pb) (K (xs ! j)) = None" using inv j by (simp add: after_seal_def)
  show "um_find key_same (pb_pending ?pb) (K (xs ! j))
      = (if j \<in> insert i A then None else Some (PRT_SEAL s (of_nat (offsets cs xs j))))"
    using chunk_objects_nth(3) [OF ob i j] inv j
    by (auto simp: after_seal_def find_erase_K [OF chunk_objects_nth(1) [OF ob i] chunk_objects_nth(1) [OF ob j]])
qed

text \<open>A cleared chunk with some bytes put into it; the chunk that has one object only.\<close>

lemma placed_bytes:
  assumes "off + length bs \<le> unat cs"
  obtains D where "poke (empty_chunk cs) (8 + off) bs = Some D" and "chunk_ok (unat cs) D"
    and "\<And>b. b < unat cs \<Longrightarrow> dbyte D b = (if off \<le> b \<and> b < off + length bs then bs ! (b - off) else 0)"
proof -
  let ?D = "take (8 + off) (empty_chunk cs) @ bs @ drop (8 + off + length bs) (empty_chunk cs)"
  have run: "poke (empty_chunk cs) (8 + off) bs = Some ?D" using assms by (simp add: poke_def empty_chunk_def)
  show ?thesis
    by (rule that [OF run]) (use assms in \<open>auto simp: chunk_ok_def empty_chunk_def dbyte_def nth_append\<close>)
qed

lemma single_piece:
  assumes "off + length (st_image cs x) \<le> unat cs"
  obtains D where "poke (empty_chunk cs) (8 + off) (st_image cs x) = Some D" and "chunk_ok (unat cs) D"
    and "\<And>b. b < unat cs \<Longrightarrow> dbyte D b = piece cs off x b"
  by (rule placed_bytes [OF assms]) (rule that, unfold piece_def)

context delta_encoder
begin

lemma set_after:
  assumes ob: "chunk_objects cs xs" and i: "i < length xs" "i \<notin> A" and inv: "after_seal cs xs s A pb"
    and ready: "parity_ready cs k index pb se s w" and c: "c < k" and nb: "no_backup gcb pb s"
  obtains pb' m where
    "pb_set enc cs k rnd pb se (st_key (xs ! i)) (st_keySize (xs ! i)) (st_val (xs ! i)) (st_valueSize (xs ! i)) c 0 gcb
       = Some (True, pb', set_mem m se, gcb)"
    and "length m = length (se_mem se)" and "after_seal cs xs s (insert i A) pb'" and "same_place pb pb'" and "parity_ready cs k index pb' (set_mem m se) s w"
    and "\<And>b. b < unat cs \<Longrightarrow>
      parity_byte (set_mem m se) w b = parity_byte se w b XOR image (unat c) (piece_at cs xs i) b"
proof -
  let ?x = "xs ! i" and ?o = "offsets cs xs i"
  let ?n = "length (st_image cs (xs ! i))" and ?pb = "pb\<lparr>pb_pending := um_erase key_same (pb_pending pb) (K (xs ! i))\<rparr>"
  note x = chunk_objects_nth [OF ob i(1)]
  have pend: "um_find key_same (pb_pending pb) (K ?x) = Some (PRT_SEAL s (of_nat ?o))"
    using inv i by (simp add: after_seal_def)
  obtain D where D: "poke (empty_chunk cs) (8 + ?o) (st_image cs ?x) = Some D" "chunk_ok (unat cs) D"
    "\<And>b. b < unat cs \<Longrightarrow> dbyte D b = piece cs ?o ?x b" by (rule single_piece [OF x(2)]) blast
  have o32: "unat (of_nat ?o :: u32) = ?o"
    using x(2) unat_u32_less [of cs] by (intro unat_of_nat_eq) simp
  have zero: "dbyte D b = 0" if "b < unat cs" "\<not> (?o \<le> b \<and> b < ?o + ?n)" for b
    using that D(3) by (simp add: piece_outside not_le not_less)
  have rdy: "parity_ready cs k index ?pb se s w" "no_backup gcb ?pb s"
    using ready nb by (simp_all add: parity_ready_def no_backup_def)
  obtain m where upd: "pb_update enc cs k rnd ?pb se s c (of_nat ?o) (of_nat ?n) D False False gcb
      = Some (?pb\<lparr>pb_chunks := (pb_chunks ?pb)(s \<mapsto> w)\<rparr>, set_mem m se, gcb)"
    and len: "length m = length (se_mem se)"
    and bytes: "\<And>b. b < unat cs \<Longrightarrow> m ! (pw_chunk w + 8 + b) = parity_byte se w b XOR image (unat c) (dbyte D) b"
    using update_adds [OF rdy(1) c D(2) zero x(2) rdy(2), of rnd False] by auto
  have same: "(pb_chunks ?pb)(s \<mapsto> w) = pb_chunks pb" using ready by (auto simp: parity_ready_def)
  have pbeq: "?pb\<lparr>pb_chunks := (pb_chunks ?pb)(s \<mapsto> w)\<rparr> = ?pb" unfolding same by simp
  have "pb_set enc cs k rnd pb se (st_key ?x) (st_keySize ?x) (st_val ?x) (st_valueSize ?x) c 0 gcb
      = Some (True, ?pb, set_mem m se, gcb)"
    using pend small_large [OF x(1)] small_serialize [OF x(1)] D(1) o32 upd pbeq small_length_u32(2) [OF x(1)]
    by (simp add: pb_set_def K_def [symmetric])
  moreover have "parity_byte (set_mem m se) w b = parity_byte se w b XOR image (unat c) (piece_at cs xs i) b"
    if b: "b < unat cs" for b
    using bytes [OF b] local [of "dbyte D" "piece_at cs xs i" b "unat c"] D(3) b
    by (simp add: parity_byte_def set_mem_def se_mem_def piece_at_def)
  moreover have "parity_ready cs k index ?pb (set_mem m se) s w"
    using ready len by (simp add: parity_ready_def set_mem_def se_mem_def)
  ultimately show ?thesis
    using that len after_seal_takes [OF ob i(1) inv] by (simp add: same_place_def)
qed

lemma sets_after:
  assumes ob: "chunk_objects cs xs" and c: "c < k"
  shows "distinct js \<Longrightarrow> set js \<subseteq> {..<length xs} \<Longrightarrow> set js \<inter> A = {} \<Longrightarrow> after_seal cs xs s A pb \<Longrightarrow>
    parity_ready cs k index pb se s w \<Longrightarrow> no_backup gcb pb s \<Longrightarrow>
    \<exists>pb' se'. set_objects enc cs k rnd xs c gcb js (pb, se) = Some (pb', se')
      \<and> after_seal cs xs s (A \<union> set js) pb' \<and> same_place pb pb' \<and> length (se_mem se') = length (se_mem se)
      \<and> (\<forall>b<unat cs. parity_byte se' w b
            = parity_byte se w b XOR xsum (\<lambda>i. image (unat c) (piece_at cs xs i) b) (set js))"
proof (induction js arbitrary: A pb se)
  case Nil
  then show ?case by (simp add: set_objects_def same_place_def)
next
  case (Cons i js)
  then have i: "i < length xs" "i \<notin> A" by auto
  obtain pb1 m where run: "pb_set enc cs k (rnd i) pb se (st_key (xs ! i)) (st_keySize (xs ! i)) (st_val (xs ! i))
        (st_valueSize (xs ! i)) c 0 gcb = Some (True, pb1, set_mem m se, gcb)"
    and len: "length m = length (se_mem se)" and inv1: "after_seal cs xs s (insert i A) pb1" and same1: "same_place pb pb1"
    and ready1: "parity_ready cs k index pb1 (set_mem m se) s w"
    and bytes: "\<And>b. b < unat cs \<Longrightarrow>
      parity_byte (set_mem m se) w b = parity_byte se w b XOR image (unat c) (piece_at cs xs i) b"
    by (rule set_after [OF ob i Cons.prems(4,5) c Cons.prems(6)]) blast
  have "distinct js" "set js \<subseteq> {..<length xs}" "set js \<inter> insert i A = {}" "no_backup gcb pb1 s"
    using Cons.prems(1-3,6) same1 by (auto simp: no_backup_def same_place_def)
  from Cons.IH [OF this(1-3) inv1 ready1 this(4)] obtain pb2 se2 where
    "set_objects enc cs k rnd xs c gcb js (pb1, set_mem m se) = Some (pb2, se2)"
    "after_seal cs xs s (insert i A \<union> set js) pb2" "same_place pb1 pb2" "length (se_mem se2) = length (se_mem (set_mem m se))"
    "\<forall>b<unat cs. parity_byte se2 w b
      = parity_byte (set_mem m se) w b XOR xsum (\<lambda>i. image (unat c) (piece_at cs xs i) b) (set js)" by blast
  moreover have "length (se_mem (set_mem m se)) = length (se_mem se)" using len by (simp add: set_mem_def se_mem_def)
  moreover have "set_objects enc cs k rnd xs c gcb (i # js) (pb, se) = set_objects enc cs k rnd xs c gcb js (pb1, set_mem m se)"
    using i(1) run by (simp add: set_objects_def item_at_def)
  ultimately show ?case
    using same1 bytes Cons.prems(1) by (auto simp: same_place_def xsum_insert xor.assoc)
qed

lemma seal_between:
  assumes ob: "chunk_objects cs xs" and A: "A \<subseteq> {..<length xs}" and inv: "before_seal cs xs A pb"
    and ready: "parity_ready cs k index pb se s w" and c: "c < k"
  obtains pb' m w' where
    "pb_seal enc cs k rnd pb se s c (of_nat (length xs)) (seal_entries cs xs 0 (length xs)) = Some (True, pb', set_mem m se)"
    and "w' = w\<lparr>pw_pending := (pw_pending w)[unat c := False]\<rparr>"
    and "after_seal cs xs s A pb'" and "pb_listId pb' = pb_listId pb" and "pb_chunkId pb' = pb_chunkId pb"
    and "parity_ready cs k index pb' (set_mem m se) s w'"
    and "\<And>b. b < unat cs \<Longrightarrow>
      parity_byte (set_mem m se) w' b = parity_byte se w b XOR xsum (\<lambda>i. image (unat c) (piece_at cs xs i) b) A"
proof -
  let ?st = "\<lparr>sl_data = empty_chunk cs, sl_curPos = 0, sl_count = 0, sl_ret = True,
    sl_keys = pb_keys pb, sl_pending = pb_pending pb\<rparr>"
  have zero0: "dbyte (empty_chunk cs) b = 0" if "b < unat cs" for b
    using that by (simp add: empty_chunk_def dbyte_def)
  have "seal_inv cs s xs A 0 ?st"
    using inv zero0 by (auto simp: seal_inv_def before_seal_def chunk_ok_def empty_chunk_def intro: exI [of _ 0])
  then obtain st where st: "seal_records cs s (seal_entries cs xs 0 (length xs)) ?st = Some st"
    "seal_inv cs s xs A (length xs) st" using seal_all [OF ob, of 0] by blast
  have AI: "A \<inter> {..<length xs} = A" using A by auto
  from st(2) have st': "chunk_ok (unat cs) (sl_data st)" "sl_count st = of_nat (length xs)" "sl_ret st"
    "\<And>b. b < unat cs \<Longrightarrow> dbyte (sl_data st) b = xsum (\<lambda>i. piece_at cs xs i b) A"
    by (simp_all add: seal_inv_def AI)
  from st(2) obtain e where e: "sl_curPos st = of_nat e" "e \<le> used cs xs" "\<forall>i\<in>A. offsets cs xs (Suc i) \<le> e"
    by (auto simp: seal_inv_def AI)
  have range: "0 + e \<le> unat cs" using e(2) ob by (simp add: chunk_objects_def)
  have zero: "dbyte (sl_data st) b = 0" if "b < unat cs" "\<not> (0 \<le> b \<and> b < 0 + e)" for b
  proof -
    have "piece_at cs xs i b = 0" if "i \<in> A" for i
      using that e(3) A \<open>\<not> (0 \<le> b \<and> b < 0 + e)\<close> by (intro piece_at_outside) (auto intro: le_trans)
    then show ?thesis using st'(4) [OF that(1)] by (simp add: xors.neutral)
  qed
  let ?pb = "pb\<lparr>pb_keys := sl_keys st, pb_pending := sl_pending st\<rparr>" and ?w = "w\<lparr>pw_pending := (pw_pending w)[unat c := False]\<rparr>"
  have rdy: "parity_ready cs k index ?pb se s w" "no_backup None ?pb s"
    using ready by (simp_all add: parity_ready_def no_backup_def)
  obtain m where upd: "pb_update enc cs k rnd ?pb se s c (of_nat 0) (of_nat e) (sl_data st) True False None
      = Some (?pb\<lparr>pb_chunks := (pb_chunks ?pb)(s \<mapsto> ?w)\<rparr>, set_mem m se, None)"
    and len: "length m = length (se_mem se)"
    and bytes: "\<And>b. b < unat cs \<Longrightarrow> m ! (pw_chunk w + 8 + b) = parity_byte se w b XOR image (unat c) (dbyte (sl_data st)) b"
    using update_adds [OF rdy(1) c st'(1) zero range rdy(2), of rnd True] by auto
  let ?pb' = "?pb\<lparr>pb_chunks := (pb_chunks pb)(s \<mapsto> ?w)\<rparr>"
  have run: "pb_seal enc cs k rnd pb se s c (of_nat (length xs)) (seal_entries cs xs 0 (length xs)) = Some (True, ?pb', set_mem m se)"
    using st(1) st'(2,3) upd e(1) by (simp add: pb_seal_def)
  have after: "after_seal cs xs s A ?pb'"
    using st(2) A by (auto simp: after_seal_def seal_inv_def)
  have fin: "finite A" using A finite_subset by blast
  have byte: "parity_byte (set_mem m se) ?w b = parity_byte se w b XOR xsum (\<lambda>i. image (unat c) (piece_at cs xs i) b) A"
    if b: "b < unat cs" for b
  proof -
    have "image (unat c) (dbyte (sl_data st)) b = image (unat c) (\<lambda>a. xsum (\<lambda>i. piece_at cs xs i a) A) b"
      by (rule local [OF st'(4) b])
    then show ?thesis using bytes [OF b] image_xsum [OF fin b] by (simp add: parity_byte_def set_mem_def se_mem_def)
  qed
  have "parity_ready cs k index ?pb' (set_mem m se) s ?w"
    using ready len by (simp add: parity_ready_def set_mem_def se_mem_def)
  then show ?thesis using that [where pb' = ?pb' and m = m, OF run refl after _ _ _ byte] by simp
qed

text \<open>
  The objects \<open>as\<close> are set before the chunk is sealed and the objects \<open>bs\<close> after it: every request succeeds, nothing
  is left over, and the parity chunk has the parity delta of the whole chunk. The parity chunk exists before, or the SEAL request
  creates it: \<open>pb0\<close> and \<open>se0\<close> are the state in which it is there.
\<close>

lemma getWrapper_place:
  assumes "getWrapper cs k rnd pb se s = Some (w, pb0, se0)" and "same_place pb pb1"
  shows "getWrapper cs k rnd pb1 se s = Some (w, pb1\<lparr>pb_chunks := pb_chunks pb0\<rparr>, se0)"
    and "pb_listId pb0 = pb_listId pb" and "pb_chunkId pb0 = pb_chunkId pb" and "pb_chunks pb0 s = Some w"
  using assms by (auto simp: getWrapper_def same_place_def Let_def split: option.splits bind_splits prod.splits)

lemma getWrapper_found: "pb_chunks pb s = Some w \<Longrightarrow> getWrapper cs k rnd pb se s = Some (w, pb, se)"
  by (simp add: getWrapper_def)

lemma update_creates:
  assumes "getWrapper cs k rnd pb se s = Some (w, pb0, se0)" and "pb_chunkId pb0 = pb_chunkId pb" "pb_listId pb0 = pb_listId pb" and "pb_chunks pb0 s = Some w"
  shows "pb_update enc cs k rnd pb se s c off sz d isSeal isDelete gcb = pb_update enc cs k rnd pb0 se0 s c off sz d isSeal isDelete gcb"
  unfolding pb_update_def parity_delta_def assms(1) getWrapper_found [OF assms(4)] assms(2,3) by simp

lemma seal_creates:
  assumes "getWrapper cs k rnd pb se s = Some (w, pb0, se0)" and "same_place pb pb1"
  shows "pb_seal enc cs k rnd pb1 se s c cnt records = pb_seal enc cs k rnd (pb1\<lparr>pb_chunks := pb_chunks pb0\<rparr>) se0 s c cnt records"
proof -
  have upd: "pb_update enc cs k rnd (pb1\<lparr>pb_keys := ks, pb_pending := ps\<rparr>) se s c off sz d True False None
    = pb_update enc cs k rnd (pb1\<lparr>pb_chunks := pb_chunks pb0, pb_keys := ks, pb_pending := ps\<rparr>) se0 s c off sz d True False None"
    for ks ps off sz d
  proof -
    let ?pb = "pb1\<lparr>pb_keys := ks, pb_pending := ps\<rparr>"
    have "same_place pb ?pb" using assms(2) by (simp add: same_place_def)
    from getWrapper_place(1) [OF assms(1) this]
    have run: "getWrapper cs k rnd ?pb se s = Some (w, ?pb\<lparr>pb_chunks := pb_chunks pb0\<rparr>, se0)" .
    let ?new = "pb1\<lparr>pb_chunks := pb_chunks pb0, pb_keys := ks, pb_pending := ps\<rparr>"
    have "?pb\<lparr>pb_chunks := pb_chunks pb0\<rparr> = ?new" by simp
    then have run0: "getWrapper cs k rnd ?pb se s = Some (w, ?new, se0)" using run by (simp only:)
    show ?thesis
      by (rule update_creates [OF run0]) (simp_all add: getWrapper_place(4) [OF assms])
  qed
  show ?thesis unfolding pb_seal_def by (simp add: upd cong: if_cong)
qed

lemma seal_any_order:
  assumes ob: "chunk_objects cs xs" and order: "distinct (as @ bs)" "set (as @ bs) = {..<length xs}"
    and none: "before_seal cs xs {} pb" and wrapper: "getWrapper cs k rnd' pb se s = Some (w, pb0, se0)"
    and ready: "parity_ready cs k index pb0 se0 s w" and c: "c < k" and nb: "no_backup gcb pb s"
  shows "\<exists>pb1 pb2 se2 pb3 se3 w'. set_objects enc cs k rnd xs c gcb as (pb, se) = Some (pb1, se)
    \<and> pb_seal enc cs k rnd' pb1 se s c (of_nat (length xs)) (seal_entries cs xs 0 (length xs)) = Some (True, pb2, se2)
    \<and> set_objects enc cs k rnd xs c gcb bs (pb2, se2) = Some (pb3, se3)
    \<and> before_seal cs xs {} pb3
    \<and> pb_chunks pb3 s = Some w' \<and> w' = w\<lparr>pw_pending := (pw_pending w)[unat c := False]\<rparr>
    \<and> (\<forall>b<unat cs. parity_byte se3 w' b = parity_byte se0 w b XOR image (unat c) (dbyte (sealed_chunk cs xs)) b)"
proof -
  have sub: "distinct as" "set as \<subseteq> {..<length xs}" "distinct bs" "set bs \<subseteq> {..<length xs}" "set bs \<inter> set as = {}"
    "set as \<union> set bs = {..<length xs}" using order by auto
  obtain pb1 where pb1: "set_objects enc cs k rnd xs c gcb as (pb, se) = Some (pb1, se)"
    "before_seal cs xs (set as) pb1" "same_place pb pb1"
    using sets_before [OF ob sub(1,2) _ none, of enc k rnd c gcb se] by auto
  let ?pb1 = "pb1\<lparr>pb_chunks := pb_chunks pb0\<rparr>"
  note place = getWrapper_place [OF wrapper pb1(3)]
  have ready1: "parity_ready cs k index ?pb1 se0 s w" and before1: "before_seal cs xs (set as) ?pb1"
    using ready pb1(2,3) place(3) by (simp_all add: parity_ready_def same_place_def before_seal_def)
  obtain pb2 m w' where seal: "pb_seal enc cs k rnd' ?pb1 se0 s c (of_nat (length xs)) (seal_entries cs xs 0 (length xs))
        = Some (True, pb2, set_mem m se0)"
    and w': "w' = w\<lparr>pw_pending := (pw_pending w)[unat c := False]\<rparr>" and after: "after_seal cs xs s (set as) pb2"
    and ids: "pb_listId pb2 = pb_listId ?pb1" "pb_chunkId pb2 = pb_chunkId ?pb1"
    and ready2: "parity_ready cs k index pb2 (set_mem m se0) s w'"
    and bytes2: "\<And>b. b < unat cs \<Longrightarrow> parity_byte (set_mem m se0) w' b
      = parity_byte se0 w b XOR xsum (\<lambda>i. image (unat c) (piece_at cs xs i) b) (set as)"
    by (rule seal_between [OF ob sub(2) before1 ready1 c, of rnd']) blast
  have nb2: "no_backup gcb pb2 s" using nb pb1(3) ids by (simp add: no_backup_def same_place_def)
  obtain pb3 se3 where pb3: "set_objects enc cs k rnd xs c gcb bs (pb2, set_mem m se0) = Some (pb3, se3)"
    "after_seal cs xs s (set as \<union> set bs) pb3" "same_place pb2 pb3"
    "\<forall>b<unat cs. parity_byte se3 w' b
      = parity_byte (set_mem m se0) w' b XOR xsum (\<lambda>i. image (unat c) (piece_at cs xs i) b) (set bs)"
    using sets_after [OF ob c sub(3,4,5) after ready2 nb2, of rnd] by blast
  have "parity_byte se3 w' b = parity_byte se0 w b XOR image (unat c) (dbyte (sealed_chunk cs xs)) b" if b: "b < unat cs" for b
  proof -
    have "image (unat c) (dbyte (sealed_chunk cs xs)) b = image (unat c) (\<lambda>a. xsum (\<lambda>i. piece_at cs xs i a) {..<length xs}) b"
      using ob by (intro local [OF _ b] sealed_bytes) (simp_all add: chunk_objects_def)
    also have "\<dots> = xsum (\<lambda>i. image (unat c) (piece_at cs xs i) b) (set as \<union> set bs)"
      using image_xsum [OF finite_lessThan b, of "unat c" "piece_at cs xs"] unfolding sub(6) .
    also have "\<dots> = xsum (\<lambda>i. image (unat c) (piece_at cs xs i) b) (set as) XOR xsum (\<lambda>i. image (unat c) (piece_at cs xs i) b) (set bs)"
      using sub(5) by (intro xors.union_disjoint) auto
    finally show ?thesis using pb3(4) bytes2 b by (simp add: xor.assoc)
  qed
  moreover have "before_seal cs xs {} pb3" using pb3(2) sub(6) by (auto simp: before_seal_def after_seal_def)
  moreover have "pb_chunks pb3 s = Some w'" using ready2 pb3(3) by (simp add: parity_ready_def same_place_def)
  ultimately show ?thesis using pb1(1) seal seal_creates [where c = c, OF wrapper pb1(3)] pb3(1) w' by metis
qed

end

end
