(* ===== verification/DataBuffer.thy ===== *)
theory DataBuffer
  imports ChunkBuffer
begin

text \<open>
  The data chunk buffer of a server, \<^verbatim>\<open>server/buffer/data_chunk_buffer.{hh,cc}\<close>: the chunks that are
  being filled, how a SET chooses one of them, and how a full chunk is sealed and replaced. The locks
  serialise the operations. The seal requests that the worker sends are the list of the chunks they
  are sent for. \<open>rnd n\<close> gives the random numbers of the \<open>n\<close>-th registration of an operation.
\<close>

record DataChunkBuffer =
  db_listId :: u32
  db_stripeId :: u32
  db_chunkId :: u32
  db_count :: u32
  db_chunks :: "nat list"
  db_sizes :: "u32 list"
  db_reInserted :: "nat list"
  db_maxSpace :: u32

type_synonym random = "nat \<Rightarrow> nat \<Rightarrow> nat"

section \<open>Construction\<close>

fun alloc_chunks :: "u32 \<Rightarrow> nat \<Rightarrow> Server \<Rightarrow> nat list \<Rightarrow> (nat list \<times> Server) option" where
  "alloc_chunks cs 0 se ps = Some (ps, se)"
| "alloc_chunks cs (Suc n) se ps =
     do { (p, se) \<leftarrow> alloc_chunk cs se 0 0 0; alloc_chunks cs n se (ps @ [p]) }"

text \<open>\<^verbatim>\<open>init\<close> gives every chunk the next unused stripe id and registers it.\<close>

definition init_chunk ::
  "u32 \<Rightarrow> (nat \<Rightarrow> random) \<Rightarrow> nat \<Rightarrow> DataChunkBuffer \<times> Server \<Rightarrow> (DataChunkBuffer \<times> Server) option" where
  "init_chunk cs rnd i = (\<lambda>(db, se).
     do { p \<leftarrow> item_at (db_chunks db) i;
          s \<leftarrow> nextStripeID (se_map se) (db_listId db) (db_stripeId db);
          m \<leftarrow> cu_set (se_mem se) p (db_listId db) s (db_chunkId db);
          se \<leftarrow> register_chunk cs (rnd i) (set_mem m se) (db_listId db) s (db_chunkId db) p False;
          Some (db\<lparr>db_stripeId := s + 1\<rparr>, se) })"

definition db_init ::
  "u32 \<Rightarrow> (nat \<Rightarrow> random) \<Rightarrow> DataChunkBuffer \<times> Server \<Rightarrow> (DataChunkBuffer \<times> Server) option" where
  "db_init cs rnd = (\<lambda>(db, se). foldM (init_chunk cs rnd) [0..<unat (db_count db)] (db, se))"

text \<open>\<^verbatim>\<open>reInsertedChunkMaxSpace\<close> is not set by the constructor: it holds \<open>space0\<close>.\<close>

definition db_new ::
  "u32 \<Rightarrow> (nat \<Rightarrow> random) \<Rightarrow> u32 \<Rightarrow> u32 \<Rightarrow> u32 \<Rightarrow> u32 \<Rightarrow> u32 \<Rightarrow> bool \<Rightarrow> Server \<Rightarrow> (DataChunkBuffer \<times> Server) option" where
  "db_new cs rnd space0 cnt listId stripeId chunkId isReady se =
     do { (ps, se) \<leftarrow> alloc_chunks cs (unat cnt) se [];
          let db = \<lparr>db_listId = listId, db_stripeId = stripeId, db_chunkId = chunkId, db_count = cnt,
                    db_chunks = ps, db_sizes = replicate (unat cnt) 0, db_reInserted = [], db_maxSpace = space0\<rparr>;
          if isReady then db_init cs rnd (db, se) else Some (db, se) }"

section \<open>Sealing\<close>

text \<open>
  \<^verbatim>\<open>ServerWorker::issueSealChunkRequest\<close> returns true in every case; it sends a request when the chunk
  holds an object behind \<open>startPos\<close> (0 for every caller) and there are parity servers.
\<close>

definition issueSealChunkRequest :: "u32 \<Rightarrow> u32 \<Rightarrow> u32 \<Rightarrow> Server \<Rightarrow> nat \<Rightarrow> u32 \<Rightarrow> (bool \<times> nat list) option" where
  "issueSealChunkRequest cs k parityChunkCount se p startPos =
     (if parityChunkCount = 0 then Some (True, [])
      else do { sz \<leftarrow> cu_getSize cs k False (se_mem se) p;
                Some (True, if startPos < sz then [p] else []) })"

text \<open>The results: the chunk that was flushed, its metadata, the chunk for which a request was sent.\<close>

definition db_flushAt ::
  "u32 \<Rightarrow> u32 \<Rightarrow> u32 \<Rightarrow> random \<Rightarrow> DataChunkBuffer \<Rightarrow> Server \<Rightarrow> nat
     \<Rightarrow> (nat \<times> Metadata \<times> nat list \<times> DataChunkBuffer \<times> Server) option" where
  "db_flushAt cs k parityChunkCount rnd db se index =
     do { chunk \<leftarrow> item_at (db_chunks db) index;
          sealed \<leftarrow> cu_getMetadata (se_mem se) chunk;
          s \<leftarrow> nextStripeID (se_map se) (db_listId db) (db_stripeId db);
          (newChunk, se) \<leftarrow> alloc_chunk cs se (db_listId db) s (db_chunkId db);
          se \<leftarrow> register_chunk cs rnd se (db_listId db) s (db_chunkId db) newChunk False;
          let db = db\<lparr>db_sizes := (db_sizes db)[index := 0], db_chunks := (db_chunks db)[index := newChunk],
                      db_stripeId := s + 1\<rparr>;
          (r, sent) \<leftarrow> issueSealChunkRequest cs k parityChunkCount se chunk 0;
          let se = (if r then seal_in_map se (md_listId sealed) (md_stripeId sealed) (md_chunkId sealed) else se);
          Some (chunk, sealed, sent, db, se) }"

text \<open>The choice of the fullest chunk; among equally full ones the smallest stripe id.\<close>

definition older :: "memory \<Rightarrow> nat list \<Rightarrow> nat \<Rightarrow> nat \<Rightarrow> bool option" where
  "older m chunks i j =
     do { a \<leftarrow> item_at chunks i; b \<leftarrow> item_at chunks j;
          sa \<leftarrow> cu_getStripeId m a; sb \<leftarrow> cu_getStripeId m b;
          Some (sa < sb) }"

definition fullest_step :: "memory \<Rightarrow> nat list \<Rightarrow> u32 list \<Rightarrow> nat \<Rightarrow> u32 \<times> nat \<Rightarrow> (u32 \<times> nat) option" where
  "fullest_step m chunks sizes i = (\<lambda>(mx, index).
     do { sz \<leftarrow> item_at sizes i;
          if sz > mx then Some (sz, i)
          else if sz = mx then do { o' \<leftarrow> older m chunks i index; Some (mx, if o' then i else index) }
          else Some (mx, index) })"

definition fullest :: "memory \<Rightarrow> nat list \<Rightarrow> u32 list \<Rightarrow> nat option" where
  "fullest m chunks sizes =
     do { sz \<leftarrow> item_at sizes 0;
          (_, index) \<leftarrow> foldM (fullest_step m chunks sizes) [1..<length sizes] (sz, 0);
          Some index }"

definition db_flush ::
  "u32 \<Rightarrow> u32 \<Rightarrow> u32 \<Rightarrow> random \<Rightarrow> DataChunkBuffer \<Rightarrow> Server
     \<Rightarrow> (nat \<times> Metadata \<times> nat list \<times> DataChunkBuffer \<times> Server) option" where
  "db_flush cs k parityChunkCount rnd db se =
     do { index \<leftarrow> fullest (se_mem se) (db_chunks db) (db_sizes db);
          (_, sealed, sent, db, se) \<leftarrow> db_flushAt cs k parityChunkCount rnd db se index;
          Some (index, sealed, sent, db, se) }"

section \<open>SET\<close>

definition object_bytes :: "u32 \<Rightarrow> u8 \<Rightarrow> u32 \<Rightarrow> u32 \<Rightarrow> (u32 \<times> bool) option" where
  "object_bytes cs keySize valueSize splitOffset =
     do { (large, _, splitSize) \<leftarrow> isLarge cs keySize valueSize;
          let sz = PROTO_KEY_VALUE_SIZE + ucast keySize + valueSize;
          Some (if large then sz - valueSize + piece_size valueSize splitOffset splitSize + 3 else sz, large) }"

text \<open>Best fit among the re-inserted chunks, in the order in which the set is iterated.\<close>

definition chunk_space :: "u32 \<Rightarrow> u32 \<Rightarrow> memory \<Rightarrow> nat \<Rightarrow> u32 option" where
  "chunk_space cs k m p = map_option (\<lambda>sz. cs - sz) (cu_getSize cs k False m p)"

definition reinserted_step :: "u32 \<Rightarrow> u32 \<Rightarrow> memory \<Rightarrow> u32 \<Rightarrow> nat \<Rightarrow> u32 \<times> nat option \<Rightarrow> (u32 \<times> nat option) option" where
  "reinserted_step cs k m sz c = (\<lambda>(mn, chosen).
     do { space \<leftarrow> chunk_space cs k m c;
          Some (if sz \<le> space \<and> space < mn then (space, Some c) else (mn, chosen)) })"

definition max_space :: "u32 \<Rightarrow> u32 \<Rightarrow> memory \<Rightarrow> nat list \<Rightarrow> u32 option" where
  "max_space cs k m cs' =
     foldM (\<lambda>c mx. do { space \<leftarrow> chunk_space cs k m c; Some (if mx < space then space else mx) }) cs' 0"

definition choose_reinserted :: "u32 \<Rightarrow> u32 \<Rightarrow> memory \<Rightarrow> u32 \<Rightarrow> DataChunkBuffer \<Rightarrow> (nat option \<times> DataChunkBuffer) option" where
  "choose_reinserted cs k m sz db =
     (if sz \<le> db_maxSpace db
      then do { (_, chosen) \<leftarrow> foldM (reinserted_step cs k m sz) (db_reInserted db) (cs, None);
                case chosen of
                  None \<Rightarrow> Some (None, db)
                | Some c \<Rightarrow>
                    do { space \<leftarrow> chunk_space cs k m c;
                         if space = db_maxSpace db
                         then do { mx \<leftarrow> max_space cs k m (db_reInserted db); Some (Some c, db\<lparr>db_maxSpace := mx\<rparr>) }
                         else Some (Some c, db) } }
      else Some (None, db))"

text \<open>Best fit among the chunks of the buffer: the one that is fullest with the object in it.\<close>

definition fit_step :: "u32 \<Rightarrow> memory \<Rightarrow> nat list \<Rightarrow> u32 list \<Rightarrow> u32 \<Rightarrow> nat \<Rightarrow> u32 \<times> nat option \<Rightarrow> (u32 \<times> nat option) option" where
  "fit_step cs m chunks sizes sz i = (\<lambda>(mx, index).
     do { s \<leftarrow> item_at sizes i;
          let tmp = s + sz;
          if tmp \<le> cs
          then if tmp > mx then Some (tmp, Some i)
               else (case index of
                       None \<Rightarrow> Some (mx, index)
                     | Some j \<Rightarrow> if tmp = mx
                                  then do { o' \<leftarrow> older m chunks i j; Some (mx, Some (if o' then i else j)) }
                                  else Some (mx, index))
          else Some (mx, index) })"

definition best_fit :: "u32 \<Rightarrow> memory \<Rightarrow> nat list \<Rightarrow> u32 list \<Rightarrow> u32 \<Rightarrow> nat option option" where
  "best_fit cs m chunks sizes sz =
     map_option snd (foldM (fit_step cs m chunks sizes sz) [0..<length sizes] (0, None))"

text \<open>The chunk for the object: its position, its index in the buffer unless it was re-inserted, and what was sealed.\<close>

definition choose_chunk ::
  "u32 \<Rightarrow> u32 \<Rightarrow> u32 \<Rightarrow> random \<Rightarrow> u32 \<Rightarrow> DataChunkBuffer \<Rightarrow> Server
     \<Rightarrow> (nat \<times> nat option \<times> Metadata list \<times> nat list \<times> DataChunkBuffer \<times> Server) option" where
  "choose_chunk cs k parityChunkCount rnd sz db se =
     do { (c, db) \<leftarrow> choose_reinserted cs k (se_mem se) sz db;
          case c of
            Some c \<Rightarrow> Some (c, None, [], [], db, se)
          | None \<Rightarrow>
              do { index \<leftarrow> best_fit cs (se_mem se) (db_chunks db) (db_sizes db) sz;
                   (index, sealed, sent, db, se) \<leftarrow>
                     (case index of
                        Some index \<Rightarrow> Some (index, [], [], db, se)
                      | None \<Rightarrow>
                          do { (index, sealed, sent, db, se) \<leftarrow> db_flush cs k parityChunkCount rnd db se;
                               Some (index, [sealed], sent, db, se) });
                   chunk \<leftarrow> item_at (db_chunks db) index;
                   Some (chunk, Some index, sealed, sent, db, se) } }"

definition write_object ::
  "u32 \<Rightarrow> u32 \<Rightarrow> byte list \<Rightarrow> u8 \<Rightarrow> byte list \<Rightarrow> u32 \<Rightarrow> u32 \<Rightarrow> u32 \<Rightarrow> nat \<Rightarrow> Server \<Rightarrow> (nat \<times> u32 \<times> Server) option" where
  "write_object cs k key keySize value' valueSize splitOffset sz chunk se =
     do { (ptr, off, m) \<leftarrow> cu_alloc cs k False (se_mem se) chunk sz;
          m \<leftarrow> serialize cs m ptr (Some key) keySize (Some value') valueSize splitOffset;
          Some (ptr, off, set_mem m se) }"

text \<open>A chunk without room for another object is replaced, or dropped from the re-inserted ones.\<close>

definition flush_full ::
  "u32 \<Rightarrow> u32 \<Rightarrow> u32 \<Rightarrow> random \<Rightarrow> nat \<Rightarrow> nat option \<Rightarrow> DataChunkBuffer \<Rightarrow> Server
     \<Rightarrow> (Metadata list \<times> nat list \<times> DataChunkBuffer \<times> Server) option" where
  "flush_full cs k parityChunkCount rnd chunk index db se =
     do { now \<leftarrow> cu_getSize cs k False (se_mem se) chunk;
          if now + PROTO_KEY_VALUE_SIZE + CHUNK_BUFFER_FLUSH_THRESHOLD \<ge> cs
          then (case index of
                  Some index \<Rightarrow>
                    do { (_, sealed, sent, db, se) \<leftarrow> db_flushAt cs k parityChunkCount rnd db se index;
                         Some ([sealed], sent, db, se) }
                | None \<Rightarrow> Some ([], [], db\<lparr>db_reInserted := removeAll chunk (db_reInserted db)\<rparr>, se))
          else Some ([], [], db, se) }"

record set_result =
  sr_keyMetadata :: KeyMetadata
  sr_timestamp :: "u32 option"
  sr_sealed :: "Metadata list"
  sr_sent :: "nat list"
  sr_inserted :: bool

definition db_set ::
  "u32 \<Rightarrow> u32 \<Rightarrow> u32 \<Rightarrow> (nat \<Rightarrow> random) \<Rightarrow> DataChunkBuffer \<Rightarrow> Server
     \<Rightarrow> byte list \<Rightarrow> u8 \<Rightarrow> byte list \<Rightarrow> u32 \<Rightarrow> u8 \<Rightarrow> u32 \<Rightarrow> (set_result \<times> DataChunkBuffer \<times> Server) option" where
  "db_set cs k parityChunkCount rnd db se key keySize value' valueSize opcode splitOffset =
     do { (sz, large) \<leftarrow> object_bytes cs keySize valueSize splitOffset;
          (chunk, index, sealed1, sent1, db, se) \<leftarrow> choose_chunk cs k parityChunkCount (rnd 0) sz db se;
          s \<leftarrow> cu_getStripeId (se_mem se) chunk;
          (ptr, off, se) \<leftarrow> write_object cs k key keySize value' valueSize splitOffset sz chunk se;
          let km = \<lparr>md_listId = db_listId db, md_stripeId = s, md_chunkId = db_chunkId db, km_offset = off,
                    km_length = sz, km_isParityRemapped = (opcode = 0x10), km_obj = Some (Suc ptr)\<rparr>;
          let db = (case index of None \<Rightarrow> db
                    | Some i \<Rightarrow> db\<lparr>db_sizes := (db_sizes db)[i := db_sizes db ! i + sz]\<rparr>);
          (sealed2, sent2, db, se) \<leftarrow> flush_full cs k parityChunkCount (rnd 1) chunk index db se;
          (r, ts, sv) \<leftarrow> sv_insertKey cs (heap se) (rnd 2 0) (se_map se) (key_set keySize key 0 large) opcode km True large;
          Some (\<lparr>sr_keyMetadata = km, sr_timestamp = ts, sr_sealed = sealed1 @ sealed2, sr_sent = sent1 @ sent2,
                 sr_inserted = r\<rparr>, db, se\<lparr>se_map := sv\<rparr>) }"

section \<open>The other operations\<close>

definition db_seal ::
  "u32 \<Rightarrow> u32 \<Rightarrow> u32 \<Rightarrow> (nat \<Rightarrow> random) \<Rightarrow> DataChunkBuffer \<Rightarrow> Server \<Rightarrow> (u32 \<times> nat list \<times> DataChunkBuffer \<times> Server) option" where
  "db_seal cs k parityChunkCount rnd db se =
     do { (sent, db, se) \<leftarrow>
            foldM (\<lambda>i (sent, db, se).
                do { (_, _, sent', db, se) \<leftarrow> db_flushAt cs k parityChunkCount (rnd i) db se i; Some (sent @ sent', db, se) })
              [0..<unat (db_count db)] ([], db, se);
          Some (db_count db + of_nat (length (db_reInserted db)), sent, db, se) }"

definition db_reInsert :: "u32 \<Rightarrow> u32 \<Rightarrow> DataChunkBuffer \<Rightarrow> Server \<Rightarrow> nat \<Rightarrow> u32 \<Rightarrow> (bool \<times> DataChunkBuffer) option" where
  "db_reInsert cs k db se chunk sizeToBeFreed =
     do { free \<leftarrow> chunk_space cs k (se_mem se) chunk;
          let space = free + sizeToBeFreed;
          let db' = (if chunk \<in> set (db_reInserted db) then db else db\<lparr>db_reInserted := db_reInserted db @ [chunk]\<rparr>);
          Some (chunk \<notin> set (db_reInserted db),
                if space > db_maxSpace db' then db'\<lparr>db_maxSpace := space\<rparr> else db') }"

text \<open>The index of a chunk that is being filled, \<^verbatim>\<open>-1\<close> for any other chunk.\<close>

definition db_lockChunk :: "DataChunkBuffer \<Rightarrow> nat \<Rightarrow> nat option" where
  "db_lockChunk db chunk = find (\<lambda>i. db_chunks db ! i = chunk) [0..<length (db_chunks db)]"

definition db_updateChunk :: "u32 \<Rightarrow> u32 \<Rightarrow> DataChunkBuffer \<Rightarrow> Server \<Rightarrow> nat \<Rightarrow> DataChunkBuffer option" where
  "db_updateChunk cs k db se index =
     do { c \<leftarrow> item_at (db_chunks db) index;
          sz \<leftarrow> cu_getSize cs k False (se_mem se) c;
          Some (db\<lparr>db_sizes := (db_sizes db)[index := sz]\<rparr>) }"

end
