(* ===== verification/MixedBuffer.thy ===== *)
theory MixedBuffer
  imports DataBuffer ParityBuffer
begin

text \<open>
  The buffer a server has for one stripe list, \<^verbatim>\<open>server/buffer/mixed_chunk_buffer.{hh,cc}\<close>: a data or a
  parity chunk buffer, depending on the place of the server in the list. An operation of the other
  role does nothing and returns its default.
\<close>

datatype MixedChunkBuffer = CBR_DATA DataChunkBuffer | CBR_PARITY ParityChunkBuffer

record mixed_result =
  mr_ret :: bool
  mr_timestamp :: "u32 option"
  mr_stripeId :: "u32 option"
  mr_sealed :: "Metadata list"
  mr_sent :: "nat list"

definition mb_set ::
  "encoder \<Rightarrow> u32 \<Rightarrow> u32 \<Rightarrow> u32 \<Rightarrow> (nat \<Rightarrow> random) \<Rightarrow> MixedChunkBuffer \<Rightarrow> Server
     \<Rightarrow> byte list \<Rightarrow> u8 \<Rightarrow> byte list \<Rightarrow> u32 \<Rightarrow> u8 \<Rightarrow> u32 \<Rightarrow> u32 \<Rightarrow> GetChunkBuffer option
     \<Rightarrow> (mixed_result \<times> MixedChunkBuffer \<times> Server \<times> GetChunkBuffer option) option" where
  "mb_set enc cs k parityChunkCount rnd mb se key keySize value' valueSize opcode chunkId splitOffset gcb =
     (case mb of
        CBR_DATA db \<Rightarrow>
          do { (r, db, se) \<leftarrow> db_set cs k parityChunkCount rnd db se key keySize value' valueSize opcode splitOffset;
               Some (\<lparr>mr_ret = True, mr_timestamp = sr_timestamp r,
                      mr_stripeId = Some (md_stripeId (sr_keyMetadata r)), mr_sealed = sr_sealed r, mr_sent = sr_sent r\<rparr>,
                     CBR_DATA db, se, gcb) }
      | CBR_PARITY pb \<Rightarrow>
          do { (r, pb, se, gcb) \<leftarrow> pb_set enc cs k (rnd 0) pb se key keySize value' valueSize chunkId splitOffset gcb;
               Some (\<lparr>mr_ret = r, mr_timestamp = Some 0, mr_stripeId = None, mr_sealed = [], mr_sent = []\<rparr>,
                     CBR_PARITY pb, se, gcb) })"

definition mb_init :: "u32 \<Rightarrow> (nat \<Rightarrow> random) \<Rightarrow> MixedChunkBuffer \<times> Server \<Rightarrow> (MixedChunkBuffer \<times> Server) option" where
  "mb_init cs rnd = (\<lambda>(mb, se).
     case mb of
       CBR_DATA db \<Rightarrow> do { (db, se) \<leftarrow> db_init cs rnd (db, se); Some (CBR_DATA db, se) }
     | CBR_PARITY _ \<Rightarrow> Some (mb, se))"

definition mb_sealAll ::
  "u32 \<Rightarrow> u32 \<Rightarrow> u32 \<Rightarrow> (nat \<Rightarrow> random) \<Rightarrow> MixedChunkBuffer \<Rightarrow> Server
     \<Rightarrow> (u32 \<times> nat list \<times> MixedChunkBuffer \<times> Server) option" where
  "mb_sealAll cs k parityChunkCount rnd mb se =
     (case mb of
        CBR_DATA db \<Rightarrow>
          do { (n, sent, db, se) \<leftarrow> db_seal cs k parityChunkCount rnd db se; Some (n, sent, CBR_DATA db, se) }
      | CBR_PARITY _ \<Rightarrow> Some (0, [], mb, se))"

definition mb_reInsert :: "u32 \<Rightarrow> u32 \<Rightarrow> MixedChunkBuffer \<Rightarrow> Server \<Rightarrow> nat \<Rightarrow> u32 \<Rightarrow> (bool \<times> MixedChunkBuffer) option" where
  "mb_reInsert cs k mb se chunk sizeToBeFreed =
     (case mb of
        CBR_DATA db \<Rightarrow> do { (r, db) \<leftarrow> db_reInsert cs k db se chunk sizeToBeFreed; Some (r, CBR_DATA db) }
      | CBR_PARITY _ \<Rightarrow> Some (False, mb))"

definition mb_seal ::
  "encoder \<Rightarrow> u32 \<Rightarrow> u32 \<Rightarrow> (nat \<Rightarrow> nat \<Rightarrow> nat) \<Rightarrow> MixedChunkBuffer \<Rightarrow> Server \<Rightarrow> u32 \<Rightarrow> u32 \<Rightarrow> u32 \<Rightarrow> byte list
     \<Rightarrow> (bool \<times> MixedChunkBuffer \<times> Server) option" where
  "mb_seal enc cs k rnd mb se stripeId chunkId cnt sealData =
     (case mb of
        CBR_PARITY pb \<Rightarrow>
          do { (r, pb, se) \<leftarrow> pb_seal enc cs k rnd pb se stripeId chunkId cnt sealData; Some (r, CBR_PARITY pb, se) }
      | CBR_DATA _ \<Rightarrow> Some (False, mb, se))"

definition mb_lockChunk :: "MixedChunkBuffer \<Rightarrow> nat \<Rightarrow> nat option" where
  "mb_lockChunk mb chunk = (case mb of CBR_DATA db \<Rightarrow> db_lockChunk db chunk | CBR_PARITY _ \<Rightarrow> None)"

definition mb_updateChunk :: "u32 \<Rightarrow> u32 \<Rightarrow> MixedChunkBuffer \<Rightarrow> Server \<Rightarrow> nat \<Rightarrow> MixedChunkBuffer option" where
  "mb_updateChunk cs k mb se index =
     (case mb of
        CBR_DATA db \<Rightarrow> map_option CBR_DATA (db_updateChunk cs k db se index)
      | CBR_PARITY _ \<Rightarrow> Some mb)"

definition mb_findValueByKey :: "MixedChunkBuffer \<Rightarrow> byte list \<Rightarrow> u8 \<Rightarrow> bool \<Rightarrow> (Key \<times> memory) option" where
  "mb_findValueByKey mb data sz large =
     (case mb of
        CBR_PARITY pb \<Rightarrow> (case findValueByKey pb data sz large of (r, key, kv) \<Rightarrow> map_option (\<lambda>kv. (key, kv)) kv)
      | CBR_DATA _ \<Rightarrow> None)"

definition mb_deleteKey :: "MixedChunkBuffer \<Rightarrow> byte list \<Rightarrow> u8 \<Rightarrow> (bool \<times> MixedChunkBuffer) option" where
  "mb_deleteKey mb keyStr keySize =
     (case mb of
        CBR_PARITY pb \<Rightarrow> do { (r, pb) \<leftarrow> pb_deleteKey pb keyStr keySize; Some (r, CBR_PARITY pb) }
      | CBR_DATA _ \<Rightarrow> Some (False, mb))"

definition mb_updateKeyValue ::
  "MixedChunkBuffer \<Rightarrow> byte list \<Rightarrow> u8 \<Rightarrow> bool \<Rightarrow> u32 \<Rightarrow> u32 \<Rightarrow> byte list \<Rightarrow> (bool \<times> MixedChunkBuffer) option" where
  "mb_updateKeyValue mb keyStr keySize large off len valueUpdate =
     (case mb of
        CBR_PARITY pb \<Rightarrow>
          do { (r, pb) \<leftarrow> updateKeyValue pb keyStr keySize large off len valueUpdate; Some (r, CBR_PARITY pb) }
      | CBR_DATA _ \<Rightarrow> Some (False, mb))"

definition mb_update ::
  "encoder \<Rightarrow> u32 \<Rightarrow> u32 \<Rightarrow> (nat \<Rightarrow> nat \<Rightarrow> nat) \<Rightarrow> MixedChunkBuffer \<Rightarrow> Server \<Rightarrow> u32 \<Rightarrow> u32 \<Rightarrow> u32 \<Rightarrow> u32 \<Rightarrow> byte list
     \<Rightarrow> bool \<Rightarrow> (bool \<times> MixedChunkBuffer \<times> Server) option" where
  "mb_update enc cs k rnd mb se stripeId chunkId off sz dataDelta isDelete =
     (case mb of
        CBR_PARITY pb \<Rightarrow>
          do { (pb, se) \<leftarrow> pb_updateDelta enc cs k rnd pb se stripeId chunkId off sz dataDelta isDelete;
               Some (True, CBR_PARITY pb, se) }
      | CBR_DATA _ \<Rightarrow> Some (False, mb, se))"

definition mb_getSealIndicator ::
  "u32 \<Rightarrow> u32 \<Rightarrow> (nat \<Rightarrow> nat \<Rightarrow> nat) \<Rightarrow> MixedChunkBuffer \<Rightarrow> Server \<Rightarrow> u32
     \<Rightarrow> (u8 \<times> bool list option \<times> MixedChunkBuffer \<times> Server) option" where
  "mb_getSealIndicator cs k rnd mb se stripeId =
     (case mb of
        CBR_PARITY pb \<Rightarrow>
          do { (n, ind, pb, se) \<leftarrow> getSealIndicator cs k rnd pb se stripeId; Some (n, Some ind, CBR_PARITY pb, se) }
      | CBR_DATA _ \<Rightarrow> Some (0, None, mb, se))"

end
