(* ===== verification/DataBufferInv.thy ===== *)
theory DataBufferInv
  imports DataBuffer
begin

text \<open>
  The invariant of the data chunk buffer. A buffer is seen as the list of its chunks, each with its
  stripe id and the objects it holds. The lemmas show what a change of memory leaves alone in the
  index of the server, and that sealing a chunk and writing an object keep the invariant.
\<close>

section \<open>Changes of memory\<close>

text \<open>Nothing outside the positions from \<open>a\<close> to \<open>b\<close> has changed.\<close>

definition changed_in :: "nat \<Rightarrow> nat \<Rightarrow> memory \<Rightarrow> memory \<Rightarrow> bool" where
  "changed_in a b m m' \<longleftrightarrow> length m' = length m \<and> (\<forall>q n. q + n \<le> a \<or> b \<le> q \<longrightarrow> peek m' q n = peek m q n)"

lemma changed_in_poke: "poke m a bs = Some m' \<Longrightarrow> b = a + length bs \<Longrightarrow> changed_in a b m m'"
  by (auto simp: changed_in_def peek_poke_other length_poke)

lemma changed_in_trans: "changed_in a b m m' \<Longrightarrow> changed_in a b m' m'' \<Longrightarrow> changed_in a b m m''"
  by (simp add: changed_in_def)

lemma changed_in_mono: "changed_in a b m m' \<Longrightarrow> a' \<le> a \<Longrightarrow> b \<le> b' \<Longrightarrow> changed_in a' b' m m'"
  by (fastforce simp: changed_in_def)

lemma peek_heap: "peek (heap se) (Suc q) n = peek (se_mem se) q n"
  by (auto simp: heap_def peek_def seg_def)

lemma se_mem_simps [simp]:
  "se_mem (set_mem m se) = m" "se_mem (se\<lparr>se_map := sv\<rparr>) = se_mem se" "se_map (set_mem m se) = se_map se"
  "se_mem (se\<lparr>se_pool := pool\<rparr>) = cp_mem pool" "se_mem (seal_in_map se l s c) = se_mem se"
  "heap (se\<lparr>se_map := sv\<rparr>) = heap se" "heap (seal_in_map se l s c) = heap se"
  "se_pool (seal_in_map se l s c) = se_pool se"
  by (simp_all add: se_mem_def set_mem_def heap_def seal_in_map_def)

section \<open>Allocation\<close>

lemma cu_clear_poke: "cu_clear cs m p = Some m' \<longleftrightarrow> poke m p (replicate (8 + unat cs) 0) = Some m'"
  by (simp add: cu_clear_def)

lemma alloc_fresh:
  assumes wf: "cp_wf cs (se_pool se)" and room: "unat (cp_count (se_pool se)) < unat (cp_total (se_pool se))"
  obtains se' where "alloc_chunk cs se l s c = Some (unat (cp_count (se_pool se)) * (8 + unat cs), se')"
    and "se_map se' = se_map se" and "cp_wf cs (se_pool se')"
    and "unat (cp_count (se_pool se')) = Suc (unat (cp_count (se_pool se)))"
    and "cp_total (se_pool se') = cp_total (se_pool se)"
    and "changed_in (unat (cp_count (se_pool se)) * (8 + unat cs))
           (unat (cp_count (se_pool se)) * (8 + unat cs) + 8 + unat cs) (se_mem se) (se_mem se')"
    and "peek (se_mem se') (unat (cp_count (se_pool se)) * (8 + unat cs)) 8 = Some (chunk_identifier l s c)"
    and "peek (se_mem se') (unat (cp_count (se_pool se)) * (8 + unat cs) + 8) (unat cs) = Some (replicate (unat cs) 0)"
proof -
  let ?cp = "se_pool se"
  let ?p = "unat (cp_count ?cp) * (8 + unat cs)"
  from cp_alloc_step [OF wf room, of l s c] obtain m where
    run: "cp_alloc cs ?cp l s c = Some (Some ?p, ?cp\<lparr>cp_count := cp_count ?cp + 1, cp_mem := m\<rparr>)"
    and wf': "cp_wf cs (?cp\<lparr>cp_count := cp_count ?cp + 1, cp_mem := m\<rparr>)"
    and inc: "unat (cp_count ?cp + 1) = unat (cp_count ?cp) + 1" by blast
  from run obtain m1 where m1: "poke (cp_mem ?cp) ?p (replicate (8 + unat cs) 0) = Some m1"
    and m: "poke m1 ?p (chunk_identifier l s c) = Some m"
    by (auto simp: cp_alloc_def Let_def bind_eq_Some_conv cu_clear_def cu_set_poke chunk_identifier_def
        split: if_splits dest!: arg_cong [where f = cp_mem])
  let ?se = "se\<lparr>se_pool := ?cp\<lparr>cp_count := cp_count ?cp + 1, cp_mem := m\<rparr>\<rparr>"
  have "changed_in ?p (?p + 8 + unat cs) (cp_mem ?cp) m1"
    using changed_in_poke [OF m1] by (simp add: add.assoc)
  moreover have "changed_in ?p (?p + 8 + unat cs) m1 m"
    using changed_in_poke [OF m refl] by (rule changed_in_mono) simp_all
  ultimately have ch: "changed_in ?p (?p + 8 + unat cs) (se_mem se) (se_mem ?se)"
    using changed_in_trans by (simp add: se_mem_def)
  have id: "peek (se_mem ?se) ?p 8 = Some (chunk_identifier l s c)"
    using peek_poke_same [OF m] by simp
  have "peek m1 ?p (8 + unat cs) = Some (replicate 8 0 @ replicate (unat cs) 0)"
    using peek_poke_same [OF m1] by (simp add: replicate_add)
  then have "peek m1 (?p + 8) (unat cs) = Some (replicate (unat cs) 0)"
    by (drule_tac peek_split) simp_all
  then have zero: "peek (se_mem ?se) (?p + 8) (unat cs) = Some (replicate (unat cs) 0)"
    using peek_poke_other [OF m, of "?p + 8" "unat cs"] by simp
  show ?thesis
    by (rule that [of ?se]) (use run wf' inc ch id zero in \<open>simp_all add: alloc_chunk_def\<close>)
qed

lemma getMetadata_identifier:
  assumes "peek m p 8 = Some (chunk_identifier l s c)"
  shows "cu_getMetadata m p = Some (md_set (ucast (ucast l :: u8)) s (ucast (ucast c :: u8)))"
proof -
  have "poke m p (ucast l # le32 s @ [0, 0, ucast c]) = Some m"
    using poke_peek_id [of m p "chunk_identifier l s c"] assms by (simp add: chunk_identifier_def)
  then have "cu_set m p l s c = Some m" by (simp add: cu_set_poke)
  then show ?thesis by (rule cu_getMetadata_set)
qed

lemma ucast_u8_id: "unat (l :: u32) < 256 \<Longrightarrow> ucast (ucast l :: u8) = l"
  by (rule word_unat_eq_iff [THEN iffD2])
    (simp add: unsigned_ucast_eq take_bit_nat_eq_self unsigned_take_bit_eq)

lemma getMetadata_parts:
  assumes "cu_getMetadata m p = Some (md_set l s c)"
  shows "cu_getStripeId m p = Some s" and "cu_getChunkId m p = Some c"
  using assms by (auto simp: cu_getMetadata_def md_set_def bind_eq_Some_conv)

section \<open>The index under changes of memory\<close>

lemma chunks_ok_stable:
  assumes "chunks_ok m sv" and "length m' = length m"
    and "\<And>p. p \<in> set (entries (sv_chunks sv)) \<Longrightarrow> peek m' p 8 = peek m p 8"
  shows "chunks_ok m' sv" and "chunk_index m' sv = chunk_index m sv"
proof -
  let ?t = "sv_chunks sv"
  have V: "fixed_entries m' 8 = fixed_entries m 8" using assms(2) by (simp add: fixed_entries_def)
  have K: "fixed_key m' 8 p = fixed_key m 8 p" if "p \<in> set (entries ?t)" for p
  proof -
    have "p \<in> fixed_entries m 8"
      using that assms(1) by (auto simp: chunks_ok_def ch_ok_def entry_in_bucket)
    with assms(3) [OF that] assms(2) show ?thesis
      by (simp add: fixed_entries_def fixed_key_def peek_def)
  qed
  have "p \<in> fixed_entries m' 8" if "p \<in> set (entries ?t)" for p
    using that assms(1) V by (auto simp: chunks_ok_def ch_ok_def entry_in_bucket)
  with K ch_ok_key_cong [of "fixed_entries m 8" "fixed_key m 8" hash_of ?t "fixed_entries m' 8" "fixed_key m' 8"] assms(1)
  show "chunks_ok m' sv" "chunk_index m' sv = chunk_index m sv"
    by (auto simp: chunks_ok_def chunk_index_def)
qed

definition objects_ok :: "u32 \<Rightarrow> memory \<Rightarrow> ServerMap \<Rightarrow> bool" where
  "objects_ok cs m sv \<longleftrightarrow> ch_ok (Collect (small_object cs m)) (object_key cs m) hash_of (sv_keys sv)
     \<and> ch_keySize (sv_keys sv) = 0"

definition object_index :: "u32 \<Rightarrow> memory \<Rightarrow> ServerMap \<Rightarrow> byte list \<rightharpoonup> nat" where
  "object_index cs m sv = ch_abs (object_key cs m) (sv_keys sv)"

definition object_span :: "u32 \<Rightarrow> memory \<Rightarrow> nat \<Rightarrow> nat" where
  "object_span cs m p = 4 + length (object_key cs m p)"

lemma load_byte_peek: "j < n \<Longrightarrow> peek m' p n = peek m p n \<Longrightarrow> peek m p n \<noteq> None \<Longrightarrow> load_byte m' (p + j) = load_byte m (p + j)"
proof -
  assume j: "j < n" and same: "peek m' p n = peek m p n" and r: "peek m p n \<noteq> None"
  then have "p + n \<le> length m" "p + n \<le> length m'" "seg p n m' = seg p n m"
    by (auto simp: peek_def split: if_splits)
  with j nth_seg [of j n p m] nth_seg [of j n p m'] show ?thesis by (simp add: load_byte_def)
qed

text \<open>A small object is determined by its header and its key.\<close>

lemma object_stable:
  assumes so: "small_object cs m p" and same: "peek m' p (object_span cs m p) = peek m p (object_span cs m p)"
    and len: "length m' = length m"
  shows "small_object cs m' p" and "object_key cs m' p = object_key cs m p"
proof -
  from so obtain ob x where ob: "deserialize cs m p = Some ob"
    "isLarge cs (obj_keySize ob) (obj_valueSize ob) = Some (False, x)"
    "obj_key ob + unat (obj_keySize ob) \<le> length m"
    "object_key cs m p = seg (obj_key ob) (unat (obj_keySize ob)) m" "p \<noteq> 0" "0 \<notin> set (object_key cs m p)"
    by (auto elim!: small_objectE)
  have k: "obj_key ob = p + 4"
    using ob(1,2) by (auto simp: deserialize_def bind_eq_Some_conv Let_def split: if_splits)
  have span: "object_span cs m p = 4 + unat (obj_keySize ob)"
    using ob(3,4) by (simp add: object_span_def)
  have in_range: "peek m p (object_span cs m p) \<noteq> None"
    using ob(3) k span by (simp add: peek_def)
  have lb: "load_byte m' (p + j) = load_byte m (p + j)" if "j < 4" for j
    using load_byte_peek [OF _ same in_range] that span by simp
  have "load_byte m' p = load_byte m p" "readSplitOffset m' (p + 1) = readSplitOffset m (p + 1)"
    using lb [of 0] lb [of 1] lb [of 2] lb [of 3] by (simp_all add: readSplitOffset_def add.assoc numeral_eq_Suc)
  with ob(1,2) have d: "deserialize cs m' p = Some ob"
    by (auto simp: deserialize_def bind_eq_Some_conv Let_def split: if_splits)
  have "seg (p + 4) (unat (obj_keySize ob)) m' = seg (p + 4) (unat (obj_keySize ob)) m"
  proof -
    have "seg p (object_span cs m p) m' = seg p (object_span cs m p) m"
      using same in_range len by (simp add: peek_def split: if_splits)
    then have "drop 4 (seg p (4 + unat (obj_keySize ob)) m') = drop 4 (seg p (4 + unat (obj_keySize ob)) m)"
      by (simp add: span)
    then show ?thesis by (simp add: seg_def drop_take add.commute)
  qed
  then show key: "object_key cs m' p = object_key cs m p"
    using d ob(4) k by (simp add: object_key_def)
  show "small_object cs m' p"
    using d ob len by (simp add: small_object_def key)
qed

lemma objects_ok_stable:
  assumes ok: "objects_ok cs m sv" and len: "length m' = length m"
    and same: "\<And>p. p \<in> set (entries (sv_keys sv)) \<Longrightarrow> peek m' p (object_span cs m p) = peek m p (object_span cs m p)"
  shows "objects_ok cs m' sv" and "object_index cs m' sv = object_index cs m sv"
    and "\<And>p. p \<in> set (entries (sv_keys sv)) \<Longrightarrow> object_span cs m' p = object_span cs m p"
proof -
  let ?t = "sv_keys sv"
  have so: "small_object cs m p" if "p \<in> set (entries ?t)" for p
    using that ok by (auto simp: objects_ok_def ch_ok_def entry_in_bucket)
  have K: "object_key cs m' p = object_key cs m p" "small_object cs m' p" if "p \<in> set (entries ?t)" for p
    using object_stable [OF so [OF that] same [OF that] len] by simp_all
  with ch_ok_key_cong [of "Collect (small_object cs m)" "object_key cs m" hash_of ?t "Collect (small_object cs m')" "object_key cs m'"] ok
  show "objects_ok cs m' sv" "object_index cs m' sv = object_index cs m sv"
    by (auto simp: objects_ok_def object_index_def)
  show "object_span cs m' p = object_span cs m p" if "p \<in> set (entries ?t)" for p
    using K [OF that] by (simp add: object_span_def)
qed

section \<open>The invariant\<close>

text \<open>
  The free tail of each chunk is what a SET may write to. Every entry of the index of objects lies
  in the allocated part of the pool and outside these tails. The buffer of this invariant has no
  re-inserted chunks: \<^verbatim>\<open>ReinsertedChunks\<close> counts them as further chunks and states the invariant of both kinds with it.
\<close>

type_synonym contents = "(u32 \<times> stored list) list"

definition pool_chunk :: "u32 \<Rightarrow> Server \<Rightarrow> nat \<Rightarrow> bool" where
  "pool_chunk cs se p \<longleftrightarrow> (\<exists>i<unat (cp_count (se_pool se)). p = i * (8 + unat cs))"

definition pool_end :: "u32 \<Rightarrow> Server \<Rightarrow> nat" where
  "pool_end cs se = unat (cp_count (se_pool se)) * (8 + unat cs)"

definition chunk_ready :: "u32 \<Rightarrow> Server \<Rightarrow> DataChunkBuffer \<Rightarrow> nat \<Rightarrow> u32 \<Rightarrow> stored list \<Rightarrow> bool" where
  "chunk_ready cs se db p s xs \<longleftrightarrow> pool_chunk cs se p \<and> chunk_holds cs (se_mem se) p xs
     \<and> cu_getMetadata (se_mem se) p = Some (md_set (db_listId db) s (db_chunkId db))
     \<and> s \<in> sv_stripeIds (se_map se) (db_listId db)"

definition buffer_ok :: "u32 \<Rightarrow> u32 \<Rightarrow> Server \<Rightarrow> DataChunkBuffer \<Rightarrow> contents \<Rightarrow> bool" where
  "buffer_ok cs k se db bs \<longleftrightarrow>
     bs \<noteq> [] \<and> length (db_chunks db) = length bs \<and> length (db_sizes db) = length bs \<and> unat (db_count db) = length bs
     \<and> distinct (db_chunks db)
     \<and> (\<forall>i<length bs. chunk_ready cs se db (db_chunks db ! i) (fst (bs ! i)) (snd (bs ! i))
          \<and> db_sizes db ! i = of_nat (used cs (snd (bs ! i))))
     \<and> db_reInserted db = []
     \<and> unat (db_listId db) < 256 \<and> unat (db_chunkId db) < 256 \<and> db_chunkId db < k"

definition settled :: "u32 \<Rightarrow> Server \<Rightarrow> DataChunkBuffer \<Rightarrow> contents \<Rightarrow> nat \<Rightarrow> nat \<Rightarrow> bool" where
  "settled cs se db bs p n \<longleftrightarrow> p + n \<le> pool_end cs se
     \<and> (\<forall>i<length bs. p + n \<le> db_chunks db ! i + 8 + used cs (snd (bs ! i)) \<or> db_chunks db ! i + 8 + unat cs \<le> p)"

definition index_ok :: "u32 \<Rightarrow> Server \<Rightarrow> DataChunkBuffer \<Rightarrow> contents \<Rightarrow> bool" where
  "index_ok cs se db bs \<longleftrightarrow>
     chunks_ok (heap se) (se_map se)
     \<and> (\<forall>p\<in>set (entries (sv_chunks (se_map se))). \<exists>q. p = Suc q \<and> pool_chunk cs se q)
     \<and> (\<forall>s. chunk_index (heap se) (se_map se) (chunk_identifier (db_listId db) s (db_chunkId db)) \<noteq> None
          \<longrightarrow> s \<in> sv_stripeIds (se_map se) (db_listId db))
     \<and> objects_ok cs (heap se) (se_map se)
     \<and> (\<forall>p\<in>set (entries (sv_keys (se_map se))). settled cs se db bs (p - 1) (object_span cs (heap se) p))"

definition db_ok :: "u32 \<Rightarrow> u32 \<Rightarrow> Server \<Rightarrow> DataChunkBuffer \<Rightarrow> contents \<Rightarrow> bool" where
  "db_ok cs k se db bs \<longleftrightarrow> cp_wf cs (se_pool se) \<and> buffer_ok cs k se db bs \<and> index_ok cs se db bs"

text \<open>Between two operations every chunk has room for one more object, however small.\<close>

definition roomy :: "u32 \<Rightarrow> contents \<Rightarrow> bool" where
  "roomy cs bs \<longleftrightarrow> (\<forall>i<length bs. used cs (snd (bs ! i)) + 8 < unat cs)"

lemma pool_chunk_end: "pool_chunk cs se p \<Longrightarrow> p + 8 + unat cs \<le> pool_end cs se"
proof -
  assume "pool_chunk cs se p"
  then obtain i where "i < unat (cp_count (se_pool se))" "p = i * (8 + unat cs)"
    by (auto simp: pool_chunk_def)
  then show ?thesis
    using mult_le_mono1 [of "Suc i" "unat (cp_count (se_pool se))" "8 + unat cs"]
    by (simp add: pool_end_def)
qed

lemma pool_chunks_apart:
  assumes "pool_chunk cs se p" and "pool_chunk cs se q" and "p \<noteq> q"
  shows "p + 8 + unat cs \<le> q \<or> q + 8 + unat cs \<le> p"
proof -
  from assms obtain i j where "p = i * (8 + unat cs)" "q = j * (8 + unat cs)" "i \<noteq> j"
    by (auto simp: pool_chunk_def)
  then show ?thesis
    using mult_le_mono1 [of "Suc i" j "8 + unat cs"] mult_le_mono1 [of "Suc j" i "8 + unat cs"]
    by (cases "i < j") auto
qed

lemma chunk_holds_stable:
  "chunk_holds cs m p xs \<Longrightarrow> peek m' (p + 8) (unat cs) = peek m (p + 8) (unat cs) \<Longrightarrow> chunk_holds cs m' p xs"
  by (simp add: chunk_holds_def cu_getData_def)

lemma seg_sub: "j + l \<le> n \<Longrightarrow> seg (p + j) l m = seg j l (seg p n m)"
  by (simp add: seg_def drop_take min_def add.commute)

lemma peek_sub:
  assumes "peek m' p n = peek m p n" and "peek m p n \<noteq> None" and "j + l \<le> n"
  shows "peek m' (p + j) l = peek m (p + j) l"
proof -
  from assms(1,2) have "seg p n m' = seg p n m" "p + n \<le> length m" "p + n \<le> length m'"
    by (auto simp: peek_def split: if_splits)
  with assms(3) show ?thesis by (simp add: peek_def seg_sub [of j l n p])
qed

lemma getMetadata_None: "length m < p + 8 \<Longrightarrow> cu_getMetadata m p = None"
  by (auto simp: cu_getMetadata_def cu_getChunkId_def load_byte_def bind_eq_None_conv)

lemma getMetadata_stable:
  assumes "peek m' p 8 = peek m p 8"
  shows "cu_getMetadata m' p = cu_getMetadata m p"
proof (cases "peek m p 8")
  case None
  with assms have "length m < p + 8" "length m' < p + 8" by (auto simp: peek_def split: if_splits)
  then show ?thesis by (simp add: getMetadata_None)
next
  case (Some bs)
  then have lb: "load_byte m' (p + j) = load_byte m (p + j)" if "j < 8" for j
    using load_byte_peek [OF that assms] by simp
  have "peek m' (p + 1) 6 = peek m (p + 1) 6"
    using peek_sub [OF assms, of 1 6] Some by simp
  with lb [of 0] lb [of 7] show ?thesis
    by (simp add: cu_getMetadata_def cu_getListId_def cu_getStripeId_def cu_getChunkId_def)
qed

lemma chunk_ready_size:
  assumes "chunk_ready cs se db p s xs" and "db_chunkId db < k"
  shows "cu_getSize cs k False (se_mem se) p = Some (of_nat (used cs xs))"
    and "cu_getStripeId (se_mem se) p = Some s"
  using assms holds_scan [of cs "se_mem se" p xs] getMetadata_parts [of "se_mem se" p "db_listId db" s "db_chunkId db"]
  by (auto simp: chunk_ready_def cu_getSize_def cu_isParity_def)

lemma entry_index: "chunks_ok m sv \<Longrightarrow> p \<in> set (entries (sv_chunks sv)) \<longleftrightarrow> chunk_index m sv (fixed_key m 8 p) = Some p"
  by (auto simp: chunks_ok_def ch_ok_def chunk_index_def ch_abs_eq_Some)

lemma index_entry: "chunks_ok m sv \<Longrightarrow> chunk_index m sv key = Some p \<Longrightarrow> p \<in> set (entries (sv_chunks sv))"
  by (auto simp: chunks_ok_def ch_ok_def chunk_index_def ch_abs_eq_Some)

text \<open>What the operations on chunks leave alone in the index.\<close>

definition same_objects :: "ServerMap \<Rightarrow> ServerMap \<Rightarrow> bool" where
  "same_objects sv sv' \<longleftrightarrow> sv_keys sv' = sv_keys sv \<and> sv_ops sv' = sv_ops sv \<and> sv_timestamp sv' = sv_timestamp sv"

lemma chunk_ready_stable:
  assumes "chunk_ready cs se db p s xs" and "peek (se_mem se') p (8 + unat cs) = peek (se_mem se) p (8 + unat cs)"
    and "cp_count (se_pool se') = cp_count (se_pool se) + 1" "unat (cp_count (se_pool se')) = Suc (unat (cp_count (se_pool se)))"
    and "sv_stripeIds (se_map se) (db_listId db) \<subseteq> sv_stripeIds (se_map se') (db_listId db)"
    and "db_listId db' = db_listId db" "db_chunkId db' = db_chunkId db"
  shows "chunk_ready cs se' db' p s xs"
proof -
  have h: "chunk_holds cs (se_mem se) p xs" using assms(1) by (simp add: chunk_ready_def)
  then obtain bs where "peek (se_mem se) (p + 8) (unat cs) = Some bs"
    by (simp add: chunk_holds_def cu_getData_def)
  then have r: "peek (se_mem se) p (8 + unat cs) \<noteq> None" by (auto simp: peek_def split: if_splits)
  have "chunk_holds cs (se_mem se') p xs"
    using peek_sub [OF assms(2) r, of 8 "unat cs"] by (intro chunk_holds_stable [OF h]) simp
  moreover have "cu_getMetadata (se_mem se') p = cu_getMetadata (se_mem se) p"
    using peek_sub [OF assms(2) r, of 0 8] by (intro getMetadata_stable) simp
  moreover have "pool_chunk cs se' p"
    using assms(1,4) by (auto simp: chunk_ready_def pool_chunk_def less_Suc_eq)
  ultimately show ?thesis
    using assms(1,5-7) by (simp add: chunk_ready_def subset_iff)
qed

lemma peek_below: "changed_in a b m m' \<Longrightarrow> q + n \<le> a \<Longrightarrow> peek m' q n = peek m q n"
  by (simp add: changed_in_def)

text \<open>Allocating a chunk and entering it under an unused stripe id.\<close>

lemma new_chunk:
  assumes ok: "db_ok cs k se db bs" and room: "unat (cp_count (se_pool se)) < unat (cp_total (se_pool se))"
    and s: "s \<notin> sv_stripeIds (se_map se) (db_listId db)"
  obtains se1 se2 t where "alloc_chunk cs se (db_listId db) s (db_chunkId db) = Some (pool_end cs se, se1)"
    and "register_chunk cs rnd se1 (db_listId db) s (db_chunkId db) (pool_end cs se) False = Some se2"
    and "se2 = se1\<lparr>se_map := (se_map se)\<lparr>sv_chunks := t,
           sv_stripeIds := (sv_stripeIds (se_map se))(db_listId db := insert s (sv_stripeIds (se_map se) (db_listId db)))\<rparr>\<rparr>"
    and "chunks_ok (heap se2) (se_map se2)"
    and "\<And>key q. chunk_index (heap se2) (se_map se2) key = Some q \<Longrightarrow>
           chunk_index (heap se) (se_map se) key = Some q
           \<or> key = chunk_identifier (db_listId db) s (db_chunkId db) \<and> q = Suc (pool_end cs se)"
    and "cp_wf cs (se_pool se2)"
    and "unat (cp_count (se_pool se2)) = Suc (unat (cp_count (se_pool se)))"
    and "cp_total (se_pool se2) = cp_total (se_pool se)"
    and "changed_in (pool_end cs se) (pool_end cs se + 8 + unat cs) (se_mem se) (se_mem se2)"
    and "peek (se_mem se2) (pool_end cs se) 8 = Some (chunk_identifier (db_listId db) s (db_chunkId db))"
    and "peek (se_mem se2) (pool_end cs se + 8) (unat cs) = Some (replicate (unat cs) 0)"
proof -
  let ?l = "db_listId db" and ?c = "db_chunkId db" and ?p = "pool_end cs se"
  from ok have wf: "cp_wf cs (se_pool se)" and ix: "index_ok cs se db bs" by (simp_all add: db_ok_def)
  from alloc_fresh [OF wf room, of ?l s ?c] obtain se1 where
    run: "alloc_chunk cs se ?l s ?c = Some (?p, se1)" and map: "se_map se1 = se_map se" and wf1: "cp_wf cs (se_pool se1)"
    and cnt: "unat (cp_count (se_pool se1)) = Suc (unat (cp_count (se_pool se)))"
    and tot: "cp_total (se_pool se1) = cp_total (se_pool se)"
    and ch: "changed_in ?p (?p + 8 + unat cs) (se_mem se) (se_mem se1)"
    and id: "peek (se_mem se1) ?p 8 = Some (chunk_identifier ?l s ?c)"
    and zero: "peek (se_mem se1) (?p + 8) (unat cs) = Some (replicate (unat cs) 0)"
    by (auto simp: pool_end_def)
  have lenh: "length (heap se1) = length (heap se)" using ch by (simp add: changed_in_def heap_def)
  have same: "peek (heap se1) p 8 = peek (heap se) p 8" if p: "p \<in> set (entries (sv_chunks (se_map se)))" for p
  proof -
    obtain q where "p = Suc q" "pool_chunk cs se q" using ix p by (auto simp: index_ok_def)
    then show ?thesis using peek_below [OF ch, of q 8] pool_chunk_end [of cs se q] by (simp add: peek_heap)
  qed
  have "chunks_ok (heap se) (se_map se)" using ix by (simp add: index_ok_def)
  note ok1 = chunks_ok_stable [OF this lenh same]
  have fresh: "fresh_chunk cs (heap se1) (Suc ?p) ?l s ?c False"
    using id zero peek_heap [of se1 ?p 8] peek_heap [of se1 "?p + 8" "unat cs"] by (simp add: fresh_chunk_def)
  have "chunk_index (heap se1) (se_map se) (chunk_identifier ?l s ?c) = None"
    using ix s ok1(2) by (auto simp: index_ok_def)
  from setChunk_fresh [OF ok1(1) fresh this, of "rnd 0" "\<lambda>off. rnd (Suc off)"] obtain r t sv' where
    set: "setChunk cs (heap se1) (rnd 0) (\<lambda>off. rnd (Suc off)) (se_map se) ?l s ?c (Suc ?p) False = Some sv'"
    and okv: "chunks_ok (heap se1) sv'"
    and index: "chunk_index (heap se1) sv' = (if r then (chunk_index (heap se1) (se_map se))(chunk_identifier ?l s ?c \<mapsto> Suc ?p)
        else chunk_index (heap se1) (se_map se))"
    and sv': "sv' = (se_map se)\<lparr>sv_chunks := t,
        sv_stripeIds := (sv_stripeIds (se_map se))(?l := insert s (sv_stripeIds (se_map se) ?l))\<rparr>" by metis
  let ?se2 = "se1\<lparr>se_map := sv'\<rparr>"
  have "register_chunk cs rnd se1 ?l s ?c ?p False = Some ?se2"
    using set map by (simp add: register_chunk_def)
  moreover have "chunk_index (heap se) (se_map se) key = Some q \<or> key = chunk_identifier ?l s ?c \<and> q = Suc ?p"
    if "chunk_index (heap ?se2) (se_map ?se2) key = Some q" for key q
    using that index ok1(2) by (auto split: if_splits)
  moreover have "chunks_ok (heap ?se2) (se_map ?se2)" using okv by simp
  ultimately show ?thesis
    using that [of se1 ?se2 t] run sv' wf1 cnt tot ch id zero by auto
qed

lemma used_eq_0: "list_all (st_wf cs) xs \<Longrightarrow> used cs xs = 0 \<longleftrightarrow> xs = []"
  by (cases xs) (simp_all add: st_image_length)

lemma of_nat_u32_pos: "n < 2 ^ 32 \<Longrightarrow> (0 :: u32) < of_nat n \<longleftrightarrow> 0 < n"
  by (simp add: word_less_nat_alt unat_of_nat_eq)

lemma settled_flush:
  assumes set: "settled cs se db bs p n" and i: "i < length bs"
    and "pool_end cs se \<le> pool_end cs se'" and "db_chunks db' = (db_chunks db)[i := pool_end cs se]"
    and len: "length (db_chunks db) = length bs" and e: "p + n \<le> pool_end cs se"
  shows "settled cs se' db' (bs[i := (s, [])]) p n"
  unfolding settled_def
proof (intro conjI allI impI)
  show "p + n \<le> pool_end cs se'" using assms(3) e by simp
  fix j assume "j < length (bs[i := (s, [])])"
  then show "p + n \<le> db_chunks db' ! j + 8 + used cs (snd (bs[i := (s, [])] ! j)) \<or> db_chunks db' ! j + 8 + unat cs \<le> p"
    using set i len e assms(4) by (cases "j = i") (auto simp: settled_def)
qed

lemma flushAt_ok:
  assumes ok: "db_ok cs k se db bs" and i: "i < length bs"
    and room: "unat (cp_count (se_pool se)) < unat (cp_total (se_pool se))"
    and free: "x \<notin> sv_stripeIds (se_map se) (db_listId db)"
  obtains s sent db' se' where
    "db_flushAt cs k pc rnd db se i
       = Some (db_chunks db ! i, md_set (db_listId db) (fst (bs ! i)) (db_chunkId db), sent, db', se')"
    and "db_ok cs k se' db' (bs[i := (s, [])])"
    and "nextStripeID (se_map se) (db_listId db) (db_stripeId db) = Some s"
    and "sv_stripeIds (se_map se') (db_listId db) = insert s (sv_stripeIds (se_map se) (db_listId db))"
    and "unat (cp_count (se_pool se')) = Suc (unat (cp_count (se_pool se)))"
    and "cp_total (se_pool se') = cp_total (se_pool se)"
    and "changed_in (pool_end cs se) (pool_end cs se + 8 + unat cs) (se_mem se) (se_mem se')"
    and "same_objects (se_map se) (se_map se')"
    and "sent = (if pc = 0 \<or> snd (bs ! i) = [] then [] else [db_chunks db ! i])"
    and "db_listId db' = db_listId db" and "db_chunkId db' = db_chunkId db"
    and "db_chunks db' = (db_chunks db)[i := pool_end cs se]"
    and "\<And>p n. settled cs se db bs p n \<Longrightarrow> settled cs se' db' (bs[i := (s, [])]) p n"
    and "object_index cs (heap se') (se_map se') = object_index cs (heap se) (se_map se)"
proof -
  let ?l = "db_listId db" and ?c = "db_chunkId db" and ?p = "pool_end cs se" and ?chunk = "db_chunks db ! i"
  from ok have buf: "buffer_ok cs k se db bs" and ix: "index_ok cs se db bs" by (simp_all add: db_ok_def)
  from buf have len: "length (db_chunks db) = length bs" "length (db_sizes db) = length bs"
    and ids: "unat ?l < 256" "unat ?c < 256" "?c < k" by (simp_all add: buffer_ok_def)
  from buf have ready: "chunk_ready cs se db (db_chunks db ! j) (fst (bs ! j)) (snd (bs ! j))" if "j < length bs" for j
    using that by (simp add: buffer_ok_def)
  from next_free_least [OF free, of "db_stripeId db"] obtain s where
    nxt: "nextStripeID (se_map se) ?l (db_stripeId db) = Some s" and s: "s \<notin> sv_stripeIds (se_map se) ?l"
    unfolding nextStripeID_def by metis
  obtain se1 se2 t where run1: "alloc_chunk cs se ?l s ?c = Some (?p, se1)"
    and run2: "register_chunk cs rnd se1 ?l s ?c ?p False = Some se2"
    and se2: "se2 = se1\<lparr>se_map := (se_map se)\<lparr>sv_chunks := t,
           sv_stripeIds := (sv_stripeIds (se_map se))(?l := insert s (sv_stripeIds (se_map se) ?l))\<rparr>\<rparr>"
    and okm: "chunks_ok (heap se2) (se_map se2)"
    and index: "\<And>key q. chunk_index (heap se2) (se_map se2) key = Some q \<Longrightarrow>
           chunk_index (heap se) (se_map se) key = Some q \<or> key = chunk_identifier ?l s ?c \<and> q = Suc ?p"
    and wf: "cp_wf cs (se_pool se2)" and cnt: "unat (cp_count (se_pool se2)) = Suc (unat (cp_count (se_pool se)))"
    and tot: "cp_total (se_pool se2) = cp_total (se_pool se)"
    and ch: "changed_in ?p (?p + 8 + unat cs) (se_mem se) (se_mem se2)"
    and id: "peek (se_mem se2) ?p 8 = Some (chunk_identifier ?l s ?c)"
    and zero: "peek (se_mem se2) (?p + 8) (unat cs) = Some (replicate (unat cs) 0)"
    by (rule new_chunk [OF ok room s, of rnd]) blast
  have map2: "sv_stripeIds (se_map se2) ?l = insert s (sv_stripeIds (se_map se) ?l)"
    "same_objects (se_map se) (se_map se2)" "sv_keys (se_map se2) = sv_keys (se_map se)"
    using se2 by (simp_all add: same_objects_def)
  have cnt1: "cp_count (se_pool se2) = cp_count (se_pool se) + 1"
    using cnt by (metis Suc_eq_plus1 of_nat_1 of_nat_add of_nat_unat_eq)
  have ends: "pool_end cs se2 = ?p + 8 + unat cs" using cnt by (simp add: pool_end_def)
  have stable: "chunk_ready cs se2 db' q s' xs"
    if "chunk_ready cs se db q s' xs" "db_listId db' = ?l" "db_chunkId db' = ?c" for q s' xs db'
  proof (rule chunk_ready_stable [OF that(1) _ cnt1 cnt _ that(2,3)])
    have "pool_chunk cs se q" using that(1) by (simp add: chunk_ready_def)
    then show "peek (se_mem se2) q (8 + unat cs) = peek (se_mem se) q (8 + unat cs)"
      using peek_below [OF ch, of q "8 + unat cs"] pool_chunk_end [of cs se q] by simp
    show "sv_stripeIds (se_map se) ?l \<subseteq> sv_stripeIds (se_map se2) ?l" using map2(1) by auto
  qed
  define sent where "sent = (if pc = 0 \<or> snd (bs ! i) = [] then [] else [?chunk])"
  have issue: "issueSealChunkRequest cs k pc se2 ?chunk 0 = Some (True, sent)"
  proof -
    have "chunk_ready cs se2 db ?chunk (fst (bs ! i)) (snd (bs ! i))" using stable ready [OF i] by simp
    note sz = chunk_ready_size(1) [OF this ids(3)]
    have h: "list_all (st_wf cs) (snd (bs ! i))" "used cs (snd (bs ! i)) < 2 ^ 32"
      using ready [OF i] unat_u32_less [of cs] by (auto simp: chunk_ready_def chunk_holds_def)
    show ?thesis using sz of_nat_u32_pos [OF h(2)] used_eq_0 [OF h(1)]
      by (auto simp: issueSealChunkRequest_def sent_def)
  qed
  define db' where "db' = db\<lparr>db_sizes := (db_sizes db)[i := 0], db_chunks := (db_chunks db)[i := ?p], db_stripeId := s + 1\<rparr>"
  define se' where "se' = seal_in_map se2 ?l (fst (bs ! i)) ?c"
  have meta: "cu_getMetadata (se_mem se) ?chunk = Some (md_set ?l (fst (bs ! i)) ?c)"
    using ready [OF i] by (simp add: chunk_ready_def)
  have run: "db_flushAt cs k pc rnd db se i
      = Some (?chunk, md_set ?l (fst (bs ! i)) ?c, sent, db', se')"
    using meta nxt run1 run2 issue i len
    by (simp add: db_flushAt_def item_at_def db'_def se'_def md_set_def)
  have same': "sv_chunks (se_map se') = sv_chunks (se_map se2)" "sv_keys (se_map se') = sv_keys (se_map se2)"
    "sv_stripeIds (se_map se') = sv_stripeIds (se_map se2)" "same_objects (se_map se2) (se_map se')"
    by (simp_all add: se'_def seal_in_map_def sv_seal_def same_objects_def case_prod_unfold Let_def)
  have mem': "se_mem se' = se_mem se2" "heap se' = heap se2" "se_pool se' = se_pool se2" by (simp_all add: se'_def)
  have ready': "chunk_ready cs se' db'' q s' xs" if "chunk_ready cs se2 db'' q s' xs" for db'' q s' xs
    using that same'(3) mem' by (simp add: chunk_ready_def pool_chunk_def)
  have new: "chunk_ready cs se2 db' ?p s []"
    using cnt id zero map2(1) getMetadata_identifier [OF id] ids
    by (auto simp: chunk_ready_def pool_chunk_def pool_end_def chunk_holds_def cu_getData_def db'_def ucast_u8_id)
  have below: "db_chunks db ! j + 8 + unat cs \<le> ?p" if "j < length bs" for j
    using ready [OF that] pool_chunk_end by (simp add: chunk_ready_def)
  have dist: "distinct ((db_chunks db)[i := ?p])"
  proof (rule distinct_list_update)
    show "distinct (db_chunks db)" using buf by (simp add: buffer_ok_def)
    show "?p \<notin> set (db_chunks db) - {db_chunks db ! i}"
      using below len by (fastforce simp: in_set_conv_nth)
  qed
  have "buffer_ok cs k se' db' (bs[i := (s, [])])"
    unfolding buffer_ok_def
  proof (intro conjI allI impI)
    fix j assume j: "j < length (bs[i := (s, [])])"
    show "chunk_ready cs se' db' (db_chunks db' ! j) (fst (bs[i := (s, [])] ! j)) (snd (bs[i := (s, [])] ! j))"
      using j i len ready'[OF new] ready'[OF stable [OF ready [of j]]] by (cases "j = i") (simp_all add: db'_def)
    show "db_sizes db' ! j = of_nat (used cs (snd (bs[i := (s, [])] ! j)))"
      using j i len buf by (cases "j = i") (simp_all add: db'_def buffer_ok_def)
  qed (use buf dist in \<open>simp_all add: buffer_ok_def db'_def\<close>)
  moreover have sett: "settled cs se' db' (bs[i := (s, [])]) p n" if "settled cs se db bs p n" for p n
    using that i len ends
    by (intro settled_flush [where se = se and db = db])
      (simp_all add: db'_def settled_def pool_end_def mem'(3) cnt)
  moreover have index: "index_ok cs se' db' (bs[i := (s, [])])
      \<and> object_index cs (heap se') (se_map se') = object_index cs (heap se) (se_map se)"
  proof -
    have lenh: "length (heap se2) = length (heap se)" using ch by (simp add: changed_in_def heap_def)
    have settled: "settled cs se db bs (p - 1) (object_span cs (heap se) p)" and p0: "0 < p"
      if "p \<in> set (entries (sv_keys (se_map se)))" for p
      using that ix by (auto simp: index_ok_def entry_in_bucket)
    have keep: "peek (heap se2) p (object_span cs (heap se) p) = peek (heap se) p (object_span cs (heap se) p)"
      if p: "p \<in> set (entries (sv_keys (se_map se)))" for p
    proof -
      obtain q where q: "p = Suc q" using p0 [OF p] by (cases p) auto
      then show ?thesis using settled [OF p] peek_below [OF ch] by (simp add: settled_def peek_heap)
    qed
    have okk: "objects_ok cs (heap se) (se_map se)" using ix by (simp add: index_ok_def)
    have obj: "objects_ok cs (heap se2) (se_map se)" "object_index cs (heap se2) (se_map se) = object_index cs (heap se) (se_map se)"
      using objects_ok_stable(1,2) [OF okk lenh] keep by simp_all
    have span: "object_span cs (heap se2) p = object_span cs (heap se) p"
      if "p \<in> set (entries (sv_keys (se_map se)))" for p
      using objects_ok_stable(3) [OF okk lenh _ that] keep by simp
    have "objects_ok cs (heap se') (se_map se')"
      using obj(1) same'(2) map2(3) mem'(2) by (simp add: objects_ok_def)
    moreover have "settled cs se' db' (bs[i := (s, [])]) (p - 1) (object_span cs (heap se') p)"
      if "p \<in> set (entries (sv_keys (se_map se')))" for p
    proof -
      have p: "p \<in> set (entries (sv_keys (se_map se)))" using that same'(2) map2(3) by simp
      show ?thesis using sett [OF settled [OF p]] span [OF p] mem'(2) by simp
    qed
    moreover have "chunks_ok (heap se') (se_map se')" using okm same'(1) mem'(2) by (simp add: chunks_ok_def)
    moreover have ci: "chunk_index (heap se') (se_map se') = chunk_index (heap se2) (se_map se2)"
      using same'(1) mem'(2) by (simp add: chunk_index_def fun_eq_iff)
    moreover have "\<exists>q. p = Suc q \<and> pool_chunk cs se' q" if p: "p \<in> set (entries (sv_chunks (se_map se')))" for p
    proof -
      have "chunk_index (heap se2) (se_map se2) (fixed_key (heap se2) 8 p) = Some p"
        using p entry_index [OF okm] same'(1) by simp
      from index [OF this] show ?thesis
      proof
        assume "chunk_index (heap se) (se_map se) (fixed_key (heap se2) 8 p) = Some p"
        then have "p \<in> set (entries (sv_chunks (se_map se)))" using ix index_entry by (auto simp: index_ok_def)
        then show ?thesis using ix cnt mem'(3) by (fastforce simp: index_ok_def pool_chunk_def)
      next
        assume "fixed_key (heap se2) 8 p = chunk_identifier ?l s ?c \<and> p = Suc ?p"
        then show ?thesis using cnt mem'(3) by (auto simp: pool_chunk_def pool_end_def)
      qed
    qed
    moreover have "s' \<in> sv_stripeIds (se_map se') ?l"
      if "chunk_index (heap se2) (se_map se2) (chunk_identifier ?l s' ?c) \<noteq> None" for s'
    proof -
      from that index [of "chunk_identifier ?l s' ?c"] ix
      have "s' \<in> sv_stripeIds (se_map se) ?l \<or> chunk_identifier ?l s' ?c = chunk_identifier ?l s ?c"
        by (auto simp: index_ok_def)
      moreover have "s' = s" if "chunk_identifier ?l s' ?c = chunk_identifier ?l s ?c"
      proof -
        have "le32 s' = le32 s" using that by (simp add: chunk_identifier_def)
        then show ?thesis by (metis of_le32_le32)
      qed
      ultimately show ?thesis using map2(1) same'(3) by auto
    qed
    moreover have "object_index cs (heap se') (se_map se') = object_index cs (heap se) (se_map se)"
      using obj(2) same'(2) map2(3) mem'(2) by (simp add: object_index_def)
    ultimately show ?thesis by (simp add: index_ok_def db'_def)
  qed
  ultimately have "db_ok cs k se' db' (bs[i := (s, [])])" using wf mem'(3) by (simp add: db_ok_def)
  then show ?thesis
    using that [of sent db' se' s] run nxt map2 same' mem' cnt tot ch sett index
    by (simp add: sent_def db'_def same_objects_def)
qed

end
