(* ===== verification/DataBufferSet.thy ===== *)
theory DataBufferSet
  imports DataBufferInv
begin

text \<open>
  SET on the data chunk buffer against an abstract buffer, the list of its chunks with the objects in
  them: which chunk takes an object, when a chunk is sealed and replaced, and that the index of the
  server has the object afterwards.
\<close>

section \<open>The choice of a chunk\<close>

text \<open>The chunk that is fullest with \<open>n\<close> bytes more; of several the one with the smallest stripe id.\<close>

definition preferred :: "u32 \<Rightarrow> contents \<Rightarrow> nat \<Rightarrow> nat \<Rightarrow> bool" where
  "preferred cs bs i j \<longleftrightarrow> used cs (snd (bs ! j)) < used cs (snd (bs ! i))
     \<or> used cs (snd (bs ! j)) = used cs (snd (bs ! i)) \<and> fst (bs ! i) \<le> fst (bs ! j)"

definition fits :: "u32 \<Rightarrow> contents \<Rightarrow> nat \<Rightarrow> nat \<Rightarrow> bool" where
  "fits cs bs n i \<longleftrightarrow> used cs (snd (bs ! i)) + n \<le> unat cs"

definition best :: "u32 \<Rightarrow> contents \<Rightarrow> nat \<Rightarrow> nat \<Rightarrow> nat \<Rightarrow> bool" where
  "best cs bs n e i \<longleftrightarrow> i < e \<and> fits cs bs n i \<and> (\<forall>j<e. fits cs bs n j \<longrightarrow> preferred cs bs i j)"

lemma preferred_trans: "preferred cs bs i j \<Longrightarrow> preferred cs bs j l \<Longrightarrow> preferred cs bs i l"
  by (auto simp: preferred_def)

lemma preferred_refl [simp]: "preferred cs bs i i"
  by (simp add: preferred_def)

lemma best_Suc:
  assumes "best cs bs n e j"
  shows "\<not> fits cs bs n e \<Longrightarrow> best cs bs n (Suc e) j"
    and "preferred cs bs j e \<Longrightarrow> best cs bs n (Suc e) j"
    and "fits cs bs n e \<Longrightarrow> preferred cs bs e j \<Longrightarrow> best cs bs n (Suc e) e"
  using assms preferred_trans by (auto simp: best_def less_Suc_eq)

lemma best_first: "\<forall>j<e. \<not> fits cs bs n j \<Longrightarrow> fits cs bs n e \<Longrightarrow> best cs bs n (Suc e) e"
  by (auto simp: best_def less_Suc_eq)

lemma foldM_upt_from:
  assumes "a \<le> n" and "P a s" and "\<And>i s. a \<le> i \<Longrightarrow> i < n \<Longrightarrow> P i s \<Longrightarrow> \<exists>s'. f i s = Some s' \<and> P (Suc i) s'"
  shows "\<exists>s'. foldM f [a..<n] s = Some s' \<and> P n s'"
  using assms(1,3)
proof (induction n rule: dec_induct)
  case (step n)
  then obtain s1 where s1: "foldM f [a..<n] s = Some s1" "P n s1" by (metis less_SucI)
  obtain s2 where "f n s1 = Some s2" "P (Suc n) s2" using step s1(2) by blast
  with s1(1) step.hyps show ?case by (auto simp: foldM_append)
qed (simp add: assms(2))

text \<open>The chunks that are being filled hold what the list says, whatever else the server keeps.\<close>

definition filling :: "u32 \<Rightarrow> u32 \<Rightarrow> Server \<Rightarrow> DataChunkBuffer \<Rightarrow> contents \<Rightarrow> bool" where
  "filling cs k se db bs \<longleftrightarrow>
     bs \<noteq> [] \<and> length (db_chunks db) = length bs \<and> length (db_sizes db) = length bs \<and> db_chunkId db < k
     \<and> (\<forall>i<length bs. chunk_ready cs se db (db_chunks db ! i) (fst (bs ! i)) (snd (bs ! i))
          \<and> db_sizes db ! i = of_nat (used cs (snd (bs ! i))))"

lemma ok_filling: "db_ok cs k se db bs \<Longrightarrow> filling cs k se db bs"
  by (simp add: db_ok_def buffer_ok_def filling_def)

lemma filling_len:
  "filling cs k se db bs \<Longrightarrow> length (db_chunks db) = length bs"
  "filling cs k se db bs \<Longrightarrow> length (db_sizes db) = length bs" "filling cs k se db bs \<Longrightarrow> bs \<noteq> []"
  by (simp_all add: filling_def)

lemma filling_ready:
  "filling cs k se db bs \<Longrightarrow> i < length bs \<Longrightarrow> chunk_ready cs se db (db_chunks db ! i) (fst (bs ! i)) (snd (bs ! i))"
  by (simp add: filling_def)

lemma filling_used: "filling cs k se db bs \<Longrightarrow> i < length bs \<Longrightarrow> used cs (snd (bs ! i)) \<le> unat cs"
  by (drule (1) filling_ready) (simp add: chunk_ready_def chunk_holds_def)

lemma filling_size:
  "filling cs k se db bs \<Longrightarrow> i < length bs \<Longrightarrow> item_at (db_sizes db) i = Some (of_nat (used cs (snd (bs ! i))))"
  by (simp add: item_at_def filling_def)

lemma filling_older:
  assumes "filling cs k se db bs" and "i < length bs" and "j < length bs"
  shows "older (se_mem se) (db_chunks db) i j = Some (fst (bs ! i) < fst (bs ! j))"
  using chunk_ready_size(2) [OF filling_ready [OF assms(1,2)], of k] chunk_ready_size(2) [OF filling_ready [OF assms(1,3)], of k]
    assms by (simp add: older_def item_at_def filling_def)

lemmas ok_len = filling_len [OF ok_filling]
  and ok_ready = filling_ready [OF ok_filling]
  and ok_used = filling_used [OF ok_filling]
  and ok_size = filling_size [OF ok_filling]

lemma best_fit_choice:
  assumes ok: "filling cs k se db bs" and small: "unat cs < 2 ^ 31" and n: "0 < n" "n \<le> unat cs"
  obtains "best_fit cs (se_mem se) (db_chunks db) (db_sizes db) (of_nat n) = Some None"
    and "\<forall>j<length bs. \<not> fits cs bs n j"
  | i where "best_fit cs (se_mem se) (db_chunks db) (db_sizes db) (of_nat n) = Some (Some i)"
    and "best cs bs n (length bs) i"
proof -
  define P where "P e = (\<lambda>(mx :: u32, index).
      case index of None \<Rightarrow> mx = 0 \<and> (\<forall>j<e. \<not> fits cs bs n j)
      | Some i \<Rightarrow> best cs bs n e i \<and> mx = of_nat (used cs (snd (bs ! i)) + n))" for e
  have tmp: "unat (of_nat (used cs (snd (bs ! i)) + n) :: u32) = used cs (snd (bs ! i)) + n" if "i < length bs" for i
    using filling_used [OF ok that] small n by (intro unat_of_nat_eq) simp
  have step: "\<exists>t. fit_step cs (se_mem se) (db_chunks db) (db_sizes db) (of_nat n) e (mx, index) = Some t \<and> P (Suc e) t"
    if e: "e < length bs" and P: "P e (mx, index)" for e mx index
  proof -
    let ?t = "of_nat (used cs (snd (bs ! e)) + n) :: u32"
    have fit: "?t \<le> cs \<longleftrightarrow> fits cs bs n e" using tmp [OF e] by (simp add: word_le_nat_alt fits_def)
    show ?thesis
    proof (cases "fits cs bs n e")
      case False
      then have "P (Suc e) (mx, index)" using P best_Suc(1)
        by (auto simp: P_def less_Suc_eq split: option.splits)
      then show ?thesis using False fit filling_size [OF ok e]
        by (simp add: fit_step_def add.commute)
    next
      case True
      show ?thesis
      proof (cases index)
        case None
        then have "0 < ?t" "P (Suc e) (?t, Some e)" "mx = 0"
          using True P tmp [OF e] n best_first by (auto simp: P_def word_less_nat_alt)
        then show ?thesis using True fit filling_size [OF ok e] None
          by (simp add: fit_step_def add.commute)
      next
        case (Some j)
        then have b: "best cs bs n e j" and mx: "mx = of_nat (used cs (snd (bs ! j)) + n)" using P by (simp_all add: P_def)
        have j: "j < length bs" using b e by (simp add: best_def)
        have gt: "mx < ?t \<longleftrightarrow> used cs (snd (bs ! j)) < used cs (snd (bs ! e))"
          and eq: "?t = mx \<longleftrightarrow> used cs (snd (bs ! e)) = used cs (snd (bs ! j))"
          using tmp [OF e] tmp [OF j] mx by (auto simp: word_less_nat_alt word_unat_eq_iff)
        have old: "older (se_mem se) (db_chunks db) e j = Some (fst (bs ! e) < fst (bs ! j))"
          by (rule filling_older [OF ok e j])
        consider "mx < ?t" | "\<not> mx < ?t" "?t = mx" "fst (bs ! e) < fst (bs ! j)"
          | "\<not> mx < ?t" "?t = mx" "\<not> fst (bs ! e) < fst (bs ! j)" | "\<not> mx < ?t" "?t \<noteq> mx" by blast
        then show ?thesis
        proof cases
          case 1
          then have "preferred cs bs e j" using gt by (simp add: preferred_def)
          then have "P (Suc e) (?t, Some e)" using best_Suc(3) [OF b True] by (simp add: P_def)
          then show ?thesis using 1 True fit filling_size [OF ok e] by (simp add: fit_step_def add.commute)
        next
          case 2
          then have "preferred cs bs e j" using eq by (simp add: preferred_def)
          then have "P (Suc e) (mx, Some e)" using 2 best_Suc(3) [OF b True] by (simp add: P_def)
          then show ?thesis using 2 True fit filling_size [OF ok e] Some old by (simp add: fit_step_def add.commute)
        next
          case 3
          then have "preferred cs bs j e" using eq by (simp add: preferred_def)
          then have "P (Suc e) (mx, Some j)" using 3 best_Suc(2) [OF b] mx by (simp add: P_def)
          then show ?thesis using 3 True fit filling_size [OF ok e] Some old by (simp add: fit_step_def add.commute)
        next
          case 4
          then have "preferred cs bs j e" using eq gt by (simp add: preferred_def)
          then have "P (Suc e) (mx, Some j)" using best_Suc(2) [OF b] mx by (simp add: P_def)
          then show ?thesis using 4 True fit filling_size [OF ok e] Some by (simp add: fit_step_def add.commute)
        qed
      qed
    qed
  qed
  have "P 0 (0, None)" by (simp add: P_def)
  then obtain t where "foldM (fit_step cs (se_mem se) (db_chunks db) (db_sizes db) (of_nat n)) [0..<length bs] (0, None) = Some t"
    and "P (length bs) t"
    using foldM_upt_inv [of P "(0, None)" "length bs" "fit_step cs (se_mem se) (db_chunks db) (db_sizes db) (of_nat n)"] step
    by (metis surj_pair)
  then show ?thesis
    using that filling_len(2) [OF ok] by (cases t; cases "snd t") (auto simp: best_fit_def P_def)
qed

lemma fullest_choice:
  assumes ok: "filling cs k se db bs"
  obtains i where "fullest (se_mem se) (db_chunks db) (db_sizes db) = Some i" and "best cs bs 0 (length bs) i"
proof -
  define P where "P e = (\<lambda>(mx :: u32, i). best cs bs 0 e i \<and> mx = of_nat (used cs (snd (bs ! i))))" for e
  have fits: "fits cs bs 0 i" if "i < length bs" for i using filling_used [OF ok that] by (simp add: fits_def)
  have tmp: "unat (of_nat (used cs (snd (bs ! i))) :: u32) = used cs (snd (bs ! i))" if "i < length bs" for i
    using filling_used [OF ok that] unat_u32_less [of cs] by (intro unat_of_nat_eq) simp
  have step: "\<exists>t. fullest_step (se_mem se) (db_chunks db) (db_sizes db) e (mx, j) = Some t \<and> P (Suc e) t"
    if e: "e < length bs" and P: "P e (mx, j)" for e mx j
  proof -
    let ?t = "of_nat (used cs (snd (bs ! e))) :: u32"
    have b: "best cs bs 0 e j" and mx: "mx = of_nat (used cs (snd (bs ! j)))" using P by (simp_all add: P_def)
    have j: "j < length bs" using b e by (simp add: best_def)
    have gt: "mx < ?t \<longleftrightarrow> used cs (snd (bs ! j)) < used cs (snd (bs ! e))"
      and eq: "?t = mx \<longleftrightarrow> used cs (snd (bs ! e)) = used cs (snd (bs ! j))"
      using tmp [OF e] tmp [OF j] mx by (auto simp: word_less_nat_alt word_unat_eq_iff)
    have old: "older (se_mem se) (db_chunks db) e j = Some (fst (bs ! e) < fst (bs ! j))"
      by (rule filling_older [OF ok e j])
    show ?thesis
    proof (cases "preferred cs bs e j \<and> (mx < ?t \<or> fst (bs ! e) < fst (bs ! j))")
      case True
      then have "P (Suc e) (?t, e)" using best_Suc(3) [OF b fits [OF e]] by (simp add: P_def)
      moreover have "mx < ?t \<or> ?t = mx \<and> fst (bs ! e) < fst (bs ! j)" using True gt eq by (auto simp: preferred_def)
      ultimately show ?thesis using filling_size [OF ok e] old by (auto simp: fullest_step_def)
    next
      case False
      then have p: "preferred cs bs j e" "\<not> mx < ?t" "?t = mx \<longrightarrow> \<not> fst (bs ! e) < fst (bs ! j)"
        using gt eq by (auto simp: preferred_def)
      then have "P (Suc e) (mx, j)" using best_Suc(2) [OF b] mx by (simp add: P_def)
      then show ?thesis using p filling_size [OF ok e] old by (simp add: fullest_step_def)
    qed
  qed
  have "P 1 (of_nat (used cs (snd (bs ! 0))), 0)"
    using fits [of 0] filling_len(3) [OF ok] by (simp add: P_def best_def)
  moreover have "1 \<le> length bs" using filling_len(3) [OF ok] by (cases bs) auto
  ultimately obtain t where
    "foldM (fullest_step (se_mem se) (db_chunks db) (db_sizes db)) [1..<length bs] (of_nat (used cs (snd (bs ! 0))), 0) = Some t"
    and "P (length bs) t"
    using foldM_upt_from [of 1 "length bs" P _ "fullest_step (se_mem se) (db_chunks db) (db_sizes db)"] step
    by (metis surj_pair)
  then show ?thesis
    using that filling_len(2,3) [OF ok] filling_size [OF ok, of 0] by (cases t) (auto simp: fullest_def P_def)
qed

section \<open>Writing an object\<close>

text \<open>The header that \<^verbatim>\<open>ChunkUtil::alloc\<close> writes first is overwritten by the object.\<close>

lemma serialize_header:
  assumes "4 \<le> unat sz" and "sz - 4 \<le> cs"
  shows "serialize cs m p None 0 None (sz - 8) 0 = poke m p (0 # drop 1 (be32 (sz - 8)))"
proof -
  have "\<not> cs < 4 + ucast (0 :: u8) + (sz - 8)" using assms(2) by (simp add: not_less)
  then have "isLarge cs 0 (sz - 8) = Some (False, 1, sz - 8)" by (simp add: isLarge_def)
  then show ?thesis by (simp add: serialize_def setSize_def copy_in_def bind_assoc)
qed

lemma poke_overwritten: "poke m p as = Some m1 \<Longrightarrow> length as \<le> length bs \<Longrightarrow> poke m1 p bs = poke m p bs"
  by (auto simp: poke_def min_def add.commute add.left_commute
      simp flip: length_0_conv split: if_splits)

lemma poke_shorter: "poke m p bs = Some m' \<Longrightarrow> length as \<le> length bs \<Longrightarrow> \<exists>m1. poke m p as = Some m1"
  by (auto simp: poke_def split: if_splits)

lemma write_object_run:
  assumes ok: "db_ok cs k se db bs" and i: "i < length bs" and wf: "st_wf cs x" and l: "\<not> st_large cs x"
    and fit: "fits cs bs (length (st_image cs x)) i"
  obtains m' where "write_object cs k (st_key x) (st_keySize x) (st_val x) (st_valueSize x) 0
        (of_nat (length (st_image cs x))) (db_chunks db ! i) se
      = Some (db_chunks db ! i + 8 + used cs (snd (bs ! i)), of_nat (used cs (snd (bs ! i))), set_mem m' se)"
    and "poke (se_mem se) (db_chunks db ! i + 8 + used cs (snd (bs ! i))) (st_image cs x) = Some m'"
    and "chunk_holds cs m' (db_chunks db ! i) (snd (bs ! i) @ [x])"
proof -
  let ?p = "db_chunks db ! i" and ?u = "used cs (snd (bs ! i))" and ?n = "length (st_image cs x)"
  let ?q = "?p + 8 + ?u"
  have ready: "chunk_ready cs se db ?p (fst (bs ! i)) (snd (bs ! i))" by (rule ok_ready [OF ok i])
  have id: "db_chunkId db < k" using ok by (simp add: db_ok_def buffer_ok_def)
  note sz = chunk_ready_size(1) [OF ready id]
  have h: "chunk_holds cs (se_mem se) ?p (snd (bs ! i))" using ready by (simp add: chunk_ready_def)
  have f: "?u + ?n \<le> unat cs" using fit by (simp add: fits_def)
  obtain m' where run: "serialize cs (se_mem se) (cu_getData ?p + ?u) (Some (st_key x)) (st_keySize x) (Some (st_val x))
      (st_valueSize x) (st_splitOffset x) = Some m'" and h': "chunk_holds cs m' ?p (snd (bs ! i) @ [x])"
    using holds_append [OF h wf f] by blast
  obtain nsplit where L: "isLarge cs (st_keySize x) (st_valueSize x) = Some (False, nsplit, st_valueSize x)"
    using st_isLarge [OF wf] l by auto
  have so: "st_splitOffset x = 0" "length (st_key x) = unat (st_keySize x)" "length (st_val x) = unat (st_valueSize x)"
    using wf l by (auto simp: st_wf_def)
  have image: "serialize cs m ?q (Some (st_key x)) (st_keySize x) (Some (st_val x)) (st_valueSize x) 0
      = poke m ?q (st_image cs x)" for m
    using serialize_image [OF L, of "st_key x" 0 "st_val x" m ?q] L so l by (simp add: piece_len_def st_image_def)
  have poke: "poke (se_mem se) ?q (st_image cs x) = Some m'"
    using run image so(1) by (simp add: cu_getData_def)
  have n4: "4 \<le> ?n" by (simp add: st_image_length)
  have un: "unat (of_nat ?n :: u32) = ?n"
    using f unat_u32_less [of cs] by (intro unat_of_nat_eq) simp
  have sub: "(of_nat ?n :: u32) - 4 \<le> cs"
    using n4 un f by (simp add: word_le_nat_alt unat_minus_eq)
  obtain m1 where m1: "poke (se_mem se) ?q (0 # drop 1 (be32 (of_nat ?n - 8))) = Some m1"
    using poke_shorter [OF poke, of "0 # drop 1 (be32 (of_nat ?n - 8))"] n4 by (auto simp: be32_def)
  have "cu_alloc cs k False (se_mem se) ?p (of_nat ?n) = Some (?q, of_nat ?u, m1)"
  proof -
    have "unat (of_nat ?u :: u32) = ?u" using f unat_u32_less [of cs] by (intro unat_of_nat_eq) simp
    then show ?thesis using sz serialize_header [of "of_nat ?n" cs "se_mem se" ?q] n4 un sub m1
      by (simp add: cu_alloc_def)
  qed
  moreover have "poke m1 ?q (st_image cs x) = Some m'"
    using poke_overwritten [OF m1, of "st_image cs x"] poke n4 by (simp add: be32_def)
  ultimately show ?thesis
    using that [OF _ poke h'] image by (simp add: write_object_def)
qed

lemma stored_object:
  assumes wf: "st_wf cs x" and l: "\<not> st_large cs x" and nul: "0 \<notin> set (st_key x)" and "q \<noteq> 0"
    and img: "peek m q (length (st_image cs x)) = Some (st_image cs x)"
  shows "object_key cs m q = st_key x" and "small_object cs m q"
proof -
  have k: "length (st_key x) = unat (st_keySize x)" using wf by (simp add: st_wf_def)
  have "peek m (q + 4) (unat (st_keySize x)) = Some (st_key x)"
    using object_image_parts(1) [OF poke_peek_id [OF img, unfolded st_image_def] k] .
  then have seg: "seg (q + 4) (unat (st_keySize x)) m = st_key x" "q + 4 + unat (st_keySize x) \<le> length m"
    by (simp_all add: peek_Some_iff)
  have d: "deserialize cs m q = Some \<lparr>obj_key = q + 4, obj_keySize = st_keySize x,
     obj_value = q + 4 + unat (st_keySize x), obj_valueSize = st_valueSize x, obj_splitOffset = st_splitOffset x\<rparr>"
    using deserialize_stored [OF wf img] l by simp
  show key: "object_key cs m q = st_key x" using d seg by (simp add: object_key_def)
  obtain nsplit where "isLarge cs (st_keySize x) (st_valueSize x) = Some (False, nsplit, st_valueSize x)"
    using st_isLarge [OF wf] l by auto
  then show "small_object cs m q" using d seg key nul \<open>q \<noteq> 0\<close> by (simp add: small_object_def)
qed

lemma settled_append:
  assumes "settled cs se db bs p n" and "i < length bs" and "db_chunks db' = db_chunks db" and "pool_end cs se' = pool_end cs se"
  shows "settled cs se' db' (bs[i := (s, snd (bs ! i) @ ys)]) p n"
  unfolding settled_def
proof (intro conjI allI impI)
  show "p + n \<le> pool_end cs se'" using assms by (simp add: settled_def)
  fix j assume "j < length (bs[i := (s, snd (bs ! i) @ ys)])"
  then show "p + n \<le> db_chunks db' ! j + 8 + used cs (snd (bs[i := (s, snd (bs ! i) @ ys)] ! j))
      \<or> db_chunks db' ! j + 8 + unat cs \<le> p"
    using assms by (cases "j = i") (force simp: settled_def)+
qed

text \<open>Writing to the free tail of a chunk keeps the invariant: neither the other chunks nor the index see it.\<close>

lemma write_ok:
  assumes ok: "db_ok cs k se db bs" and i: "i < length bs"
    and fit: "fits cs bs (length (st_image cs x)) i"
    and poke: "poke (se_mem se) (db_chunks db ! i + 8 + used cs (snd (bs ! i))) (st_image cs x) = Some m'"
    and holds: "chunk_holds cs m' (db_chunks db ! i) (snd (bs ! i) @ [x])"
    and db': "db' = db\<lparr>db_sizes := (db_sizes db)[i := of_nat (used cs (snd (bs ! i) @ [x]))]\<rparr>"
    and bs': "bs' = bs[i := (fst (bs ! i), snd (bs ! i) @ [x])]" and se': "se' = set_mem m' se"
  shows "db_ok cs k se' db' bs'" and "object_index cs (heap se') (se_map se') = object_index cs (heap se) (se_map se)"
    and "settled cs se' db' bs' (db_chunks db ! i + 8 + used cs (snd (bs ! i))) (length (st_image cs x))"
proof -
  let ?p = "db_chunks db ! i" and ?u = "used cs (snd (bs ! i))" and ?n = "length (st_image cs x)"
  let ?q = "?p + 8 + ?u"
  note ready = ok_ready [OF ok]
  have f: "?u + ?n \<le> unat cs" using fit by (simp add: fits_def)
  have ch: "changed_in ?q (?q + ?n) (se_mem se) m'" using changed_in_poke [OF poke refl] .
  have pool: "pool_chunk cs se (db_chunks db ! j)" if "j < length bs" for j
    using ready [OF that] by (simp add: chunk_ready_def)
  have pools: "pool_chunk cs se' = pool_chunk cs se" "pool_end cs se' = pool_end cs se"
    by (simp_all add: se' set_mem_def pool_chunk_def pool_end_def fun_eq_iff)
  have ends: "?p + 8 + unat cs \<le> pool_end cs se" using pool_chunk_end [OF pool [OF i]] .
  have header: "peek m' q 8 = peek (se_mem se) q 8" if "pool_chunk cs se q" for q
    using pool_chunks_apart [OF that pool [OF i]] peek_below [OF ch, of q 8] ch f
    by (cases "q = ?p") (auto simp: changed_in_def)
  have body: "peek m' (q + 8) (unat cs) = peek (se_mem se) (q + 8) (unat cs)" if "pool_chunk cs se q" "q \<noteq> ?p" for q
    using pool_chunks_apart [OF that(1) pool [OF i] that(2)] peek_below [OF ch, of "q + 8" "unat cs"] ch f
    by (auto simp: changed_in_def)
  have dist: "db_chunks db ! j \<noteq> ?p" if "j < length bs" "j \<noteq> i" for j
    using ok that i by (simp add: db_ok_def buffer_ok_def nth_eq_iff_index_eq)
  have same: "se_map se' = se_map se" "cp_count (se_pool se') = cp_count (se_pool se)" "se_mem se' = m'"
    by (simp_all add: se' set_mem_def se_mem_def)
  have "buffer_ok cs k se' db' bs'"
    unfolding buffer_ok_def
  proof (intro conjI allI impI)
    fix j assume j: "j < length bs'"
    then have j': "j < length bs" by (simp add: bs')
    have meta: "cu_getMetadata m' (db_chunks db ! j) = cu_getMetadata (se_mem se) (db_chunks db ! j)"
      using getMetadata_stable [OF header [OF pool [OF j']]] .
    show "chunk_ready cs se' db' (db_chunks db' ! j) (fst (bs' ! j)) (snd (bs' ! j))"
    proof (cases "j = i")
      case True
      then show ?thesis using ready [OF i] holds meta i by (simp add: chunk_ready_def pools same db' bs')
    next
      case False
      have "chunk_holds cs m' (db_chunks db ! j) (snd (bs ! j))"
        using ready [OF j'] chunk_holds_stable [OF _ body [OF pool [OF j'] dist [OF j' False]]]
        by (simp add: chunk_ready_def)
      then show ?thesis using ready [OF j'] meta False by (simp add: chunk_ready_def pools same db' bs')
    qed
    show "db_sizes db' ! j = of_nat (used cs (snd (bs' ! j)))"
      using j' ok i by (cases "j = i") (simp_all add: db' bs' db_ok_def buffer_ok_def)
  qed (use ok in \<open>simp_all add: db_ok_def buffer_ok_def db' bs'\<close>)
  moreover have ix: "index_ok cs se db bs" using ok by (simp add: db_ok_def)
  have lenh: "length (heap se') = length (heap se)" using ch by (simp add: changed_in_def heap_def same)
  have keep: "peek (heap se') p (object_span cs (heap se) p) = peek (heap se) p (object_span cs (heap se) p)" and p0: "0 < p"
    and st: "settled cs se db bs (p - 1) (object_span cs (heap se) p)"
    if p: "p \<in> set (entries (sv_keys (se_map se)))" for p
  proof -
    show st: "settled cs se db bs (p - 1) (object_span cs (heap se) p)" and "0 < p"
      using p ix by (auto simp: index_ok_def entry_in_bucket)
    then obtain q where q: "p = Suc q" by (cases p) auto
    have "q + object_span cs (heap se) p \<le> ?q \<or> ?q + ?n \<le> q"
      using st i f q by (auto simp: settled_def)
    then show "peek (heap se') p (object_span cs (heap se) p) = peek (heap se) p (object_span cs (heap se) p)"
      using ch q by (auto simp: peek_heap same changed_in_def)
  qed
  have okk: "objects_ok cs (heap se) (se_map se)" using ix by (simp add: index_ok_def)
  have obj: "objects_ok cs (heap se') (se_map se)" "object_index cs (heap se') (se_map se) = object_index cs (heap se) (se_map se)"
    using objects_ok_stable(1,2) [OF okk lenh] keep by simp_all
  have span: "object_span cs (heap se') p = object_span cs (heap se) p" if "p \<in> set (entries (sv_keys (se_map se)))" for p
    using objects_ok_stable(3) [OF okk lenh _ that] keep by simp
  have hd: "peek (heap se') p 8 = peek (heap se) p 8" if p: "p \<in> set (entries (sv_chunks (se_map se)))" for p
  proof -
    obtain q where "p = Suc q" "pool_chunk cs se q" using ix p by (auto simp: index_ok_def)
    then show ?thesis using header [of q] by (simp add: peek_heap same)
  qed
  have "chunks_ok (heap se) (se_map se)" using ix by (simp add: index_ok_def)
  note okc = chunks_ok_stable [OF this lenh hd]
  have "settled cs se' db' bs' (p - 1) (object_span cs (heap se') p)" if "p \<in> set (entries (sv_keys (se_map se')))" for p
    using settled_append [OF st i, of p db' se' "fst (bs ! i)" "[x]"] that span [of p] by (simp add: pools bs' db' same)
  then have "index_ok cs se' db' bs'"
    using ix okc obj pools same by (simp add: index_ok_def db')
  moreover have "cp_wf cs (se_pool se')"
    using ok ch by (simp add: db_ok_def cp_wf_def se' set_mem_def changed_in_def se_mem_def)
  ultimately show "db_ok cs k se' db' bs'" by (simp add: db_ok_def)
  show "object_index cs (heap se') (se_map se') = object_index cs (heap se) (se_map se)" using obj same by simp
  show "settled cs se' db' bs' ?q ?n"
    unfolding settled_def
  proof (intro conjI allI impI)
    show "?q + ?n \<le> pool_end cs se'" using ends f pools by simp
    fix j assume "j < length bs'"
    then have j: "j < length bs" by (simp add: bs')
    show "?q + ?n \<le> db_chunks db' ! j + 8 + used cs (snd (bs' ! j)) \<or> db_chunks db' ! j + 8 + unat cs \<le> ?q"
      using pool_chunks_apart [OF pool [OF j] pool [OF i]] dist [OF j] i f
      by (cases "j = i") (auto simp: db' bs')
  qed
qed

section \<open>The abstract buffer\<close>

text \<open>
  The stripe ids in use in the list, and the chunks with their objects. A chunk that is full or that
  has to make room is sealed, and an empty one with an unused stripe id takes its place.
\<close>

type_synonym buffer = "u32 set \<times> contents"

definition reopened :: "nat \<Rightarrow> buffer \<Rightarrow> buffer \<Rightarrow> bool" where
  "reopened i a b \<longleftrightarrow> (\<exists>s. s \<notin> fst a \<and> b = (insert s (fst a), (snd a)[i := (s, [])]))"

definition put :: "stored \<Rightarrow> nat \<Rightarrow> buffer \<Rightarrow> buffer" where
  "put x i a = (fst a, (snd a)[i := (fst (snd a ! i), snd (snd a ! i) @ [x])])"

text \<open>\<open>n\<close> bytes go to chunk \<open>i\<close>; the stripe ids of the chunks that were sealed.\<close>

inductive takes :: "u32 \<Rightarrow> nat \<Rightarrow> buffer \<Rightarrow> nat \<Rightarrow> u32 list \<Rightarrow> buffer \<Rightarrow> bool" for cs n a where
  fitting: "best cs (snd a) n (length (snd a)) i \<Longrightarrow> takes cs n a i [] a"
| sealing: "\<forall>j<length (snd a). \<not> fits cs (snd a) n j \<Longrightarrow> best cs (snd a) 0 (length (snd a)) i \<Longrightarrow>
    reopened i a b \<Longrightarrow> takes cs n a i [fst (snd a ! i)] b"

inductive closes :: "u32 \<Rightarrow> nat \<Rightarrow> buffer \<Rightarrow> u32 list \<Rightarrow> buffer \<Rightarrow> bool" for cs i a where
  roomy: "used cs (snd (snd a ! i)) + 8 < unat cs \<Longrightarrow> closes cs i a [] a"
| full: "unat cs \<le> used cs (snd (snd a ! i)) + 8 \<Longrightarrow> reopened i a b \<Longrightarrow> closes cs i a [fst (snd a ! i)] b"

definition view :: "DataChunkBuffer \<Rightarrow> Server \<Rightarrow> contents \<Rightarrow> buffer" where
  "view db se bs = (sv_stripeIds (se_map se) (db_listId db), bs)"

text \<open>What an operation on the chunks leaves alone.\<close>

definition preserved :: "u32 \<Rightarrow> DataChunkBuffer \<Rightarrow> Server \<Rightarrow> DataChunkBuffer \<Rightarrow> Server \<Rightarrow> bool" where
  "preserved cs db se db' se' \<longleftrightarrow> db_listId db' = db_listId db \<and> db_chunkId db' = db_chunkId db
     \<and> cp_total (se_pool se') = cp_total (se_pool se)
     \<and> same_objects (se_map se) (se_map se')
     \<and> object_index cs (heap se') (se_map se') = object_index cs (heap se) (se_map se)"

lemma preserved_refl: "preserved cs db se db se"
  by (simp add: preserved_def same_objects_def)

lemma preserved_trans: "preserved cs db se db' se' \<Longrightarrow> preserved cs db' se' db'' se'' \<Longrightarrow> preserved cs db se db'' se''"
  by (simp add: preserved_def same_objects_def)

lemma flushAt_reopens:
  assumes ok: "db_ok cs k se db bs" and i: "i < length bs"
    and room: "unat (cp_count (se_pool se)) < unat (cp_total (se_pool se))"
    and free: "card (- fst (view db se bs)) \<noteq> 0"
  obtains sent db' se' bs' where
    "db_flushAt cs k pc rnd db se i
       = Some (db_chunks db ! i, md_set (db_listId db) (fst (bs ! i)) (db_chunkId db), sent, db', se')"
    and "db_ok cs k se' db' bs'" and "reopened i (view db se bs) (view db' se' bs')" and "preserved cs db se db' se'"
    and "unat (cp_count (se_pool se')) = Suc (unat (cp_count (se_pool se)))"
    and "card (- fst (view db se bs)) = Suc (card (- fst (view db' se' bs')))"
    and "changed_in (pool_end cs se) (pool_end cs se + 8 + unat cs) (se_mem se) (se_mem se')"
    and "\<And>p n. settled cs se db bs p n \<Longrightarrow> settled cs se' db' bs' p n"
proof -
  obtain y where "y \<notin> sv_stripeIds (se_map se) (db_listId db)"
    using free by (auto simp: view_def)
  from flushAt_ok [OF ok i room this, of pc rnd] obtain s sent db' se' where
    run: "db_flushAt cs k pc rnd db se i
       = Some (db_chunks db ! i, md_set (db_listId db) (fst (bs ! i)) (db_chunkId db), sent, db', se')"
    and ok': "db_ok cs k se' db' (bs[i := (s, [])])"
    and nxt: "nextStripeID (se_map se) (db_listId db) (db_stripeId db) = Some s"
    and ids: "sv_stripeIds (se_map se') (db_listId db) = insert s (sv_stripeIds (se_map se) (db_listId db))"
    and cnt: "unat (cp_count (se_pool se')) = Suc (unat (cp_count (se_pool se)))"
    and rest: "cp_total (se_pool se') = cp_total (se_pool se)" "same_objects (se_map se) (se_map se')"
      "db_listId db' = db_listId db" "db_chunkId db' = db_chunkId db"
      "object_index cs (heap se') (se_map se') = object_index cs (heap se) (se_map se)"
    and ch: "changed_in (pool_end cs se) (pool_end cs se + 8 + unat cs) (se_mem se) (se_mem se')"
    and st: "\<And>p n. settled cs se db bs p n \<Longrightarrow> settled cs se' db' (bs[i := (s, [])]) p n" by metis
  have s: "s \<notin> sv_stripeIds (se_map se) (db_listId db)"
    using next_free_in nxt unfolding nextStripeID_def by blast
  show ?thesis
  proof (rule that [OF run ok' _ _ cnt _ ch st])
    show "reopened i (view db se bs) (view db' se' (bs[i := (s, [])]))"
      using s ids rest by (auto simp: reopened_def view_def)
    show "preserved cs db se db' se'" using rest by (simp add: preserved_def)
    have "- sv_stripeIds (se_map se) (db_listId db) = insert s (- sv_stripeIds (se_map se') (db_listId db))"
      using s ids by auto
    moreover have "s \<notin> - sv_stripeIds (se_map se') (db_listId db)" using ids by simp
    ultimately show "card (- fst (view db se bs)) = Suc (card (- fst (view db' se' (bs[i := (s, [])]))))"
      using rest(3) by (simp add: view_def)
  qed
qed

lemma choose_chunk_takes:
  assumes ok: "db_ok cs k se db bs" and small: "unat cs < 2 ^ 31" and n: "0 < n" "n \<le> unat cs"
    and room: "unat (cp_count (se_pool se)) < unat (cp_total (se_pool se))"
    and free: "card (- fst (view db se bs)) \<noteq> 0"
  obtains i o1 sent db' se' bs' where
    "choose_chunk cs k pc rnd (of_nat n) db se
       = Some (db_chunks db' ! i, Some i, map (\<lambda>s. md_set (db_listId db) s (db_chunkId db)) o1, sent, db', se')"
    and "takes cs n (view db se bs) i o1 (view db' se' bs')" and "db_ok cs k se' db' bs'"
    and "i < length bs'" and "fits cs bs' n i" and "preserved cs db se db' se'"
    and "unat (cp_count (se_pool se')) \<le> Suc (unat (cp_count (se_pool se)))"
    and "card (- fst (view db se bs)) \<le> Suc (card (- fst (view db' se' bs')))"
proof -
  have re: "choose_reinserted cs k (se_mem se) (of_nat n) db = Some (None, db)"
    using ok by (simp add: choose_reinserted_def db_ok_def buffer_ok_def)
  consider "best_fit cs (se_mem se) (db_chunks db) (db_sizes db) (of_nat n) = Some None" "\<forall>j<length bs. \<not> fits cs bs n j"
    | i where "best_fit cs (se_mem se) (db_chunks db) (db_sizes db) (of_nat n) = Some (Some i)" "best cs bs n (length bs) i"
    by (rule best_fit_choice [OF ok_filling [OF ok] small n])
  then show ?thesis
  proof cases
    case 1
    obtain i where fu: "fullest (se_mem se) (db_chunks db) (db_sizes db) = Some i" and b: "best cs bs 0 (length bs) i"
      by (rule fullest_choice [OF ok_filling [OF ok]])
    then have i: "i < length bs" by (simp add: best_def)
    obtain sent db' se' bs' where
      run: "db_flushAt cs k pc rnd db se i
        = Some (db_chunks db ! i, md_set (db_listId db) (fst (bs ! i)) (db_chunkId db), sent, db', se')"
      and ok': "db_ok cs k se' db' bs'" and reo: "reopened i (view db se bs) (view db' se' bs')"
      and pre: "preserved cs db se db' se'"
      and cnt: "unat (cp_count (se_pool se')) = Suc (unat (cp_count (se_pool se)))"
      and card: "card (- fst (view db se bs)) = Suc (card (- fst (view db' se' bs')))"
      by (rule flushAt_reopens [OF ok i room free]) blast
    have bs': "length bs' = length bs" "snd (bs' ! i) = []" using reo i by (auto simp: reopened_def view_def)
    show ?thesis
    proof (rule that [where i = i and ?o1.0 = "[fst (bs ! i)]" and sent = sent and db' = db' and se' = se' and bs' = bs'])
      show "takes cs n (view db se bs) i [fst (bs ! i)] (view db' se' bs')"
        using takes.sealing [of "view db se bs" cs n i "view db' se' bs'"] 1 b reo by (simp add: view_def)
      show "choose_chunk cs k pc rnd (of_nat n) db se
       = Some (db_chunks db' ! i, Some i, map (\<lambda>s. md_set (db_listId db) s (db_chunkId db)) [fst (bs ! i)], sent, db', se')"
        using re 1 fu run ok_len(1) [OF ok'] bs' i by (simp add: choose_chunk_def db_flush_def item_at_def)
    qed (use ok' pre cnt card bs' i n in \<open>simp_all add: fits_def\<close>)
  next
    case 2
    then have i: "i < length bs" "fits cs bs n i" by (simp_all add: best_def)
    show ?thesis
    proof (rule that [where i = i and ?o1.0 = "[]" and sent = "[]" and db' = db and se' = se and bs' = bs])
      show "takes cs n (view db se bs) i [] (view db se bs)"
        using takes.fitting [of cs "view db se bs" n i] 2 by (simp add: view_def)
      show "choose_chunk cs k pc rnd (of_nat n) db se
       = Some (db_chunks db ! i, Some i, map (\<lambda>s. md_set (db_listId db) s (db_chunkId db)) [], [], db, se)"
        using re 2 ok_len(1) [OF ok] i by (simp add: choose_chunk_def item_at_def)
    qed (use ok i preserved_refl in simp_all)
  qed
qed

lemma flush_full_closes:
  assumes ok: "db_ok cs k se db bs" and small: "unat cs < 2 ^ 31" and i: "i < length bs"
    and room: "unat (cp_count (se_pool se)) < unat (cp_total (se_pool se))"
    and free: "card (- fst (view db se bs)) \<noteq> 0"
  obtains o2 sent db' se' bs' where
    "flush_full cs k pc rnd (db_chunks db ! i) (Some i) db se
       = Some (map (\<lambda>s. md_set (db_listId db) s (db_chunkId db)) o2, sent, db', se')"
    and "closes cs i (view db se bs) o2 (view db' se' bs')" and "db_ok cs k se' db' bs'"
    and "preserved cs db se db' se'"
    and "\<And>p n. settled cs se db bs p n \<Longrightarrow> settled cs se' db' bs' p n"
    and "\<And>q n. q + n \<le> pool_end cs se \<Longrightarrow> peek (se_mem se') q n = peek (se_mem se) q n"
proof -
  let ?u = "used cs (snd (bs ! i))"
  have id: "db_chunkId db < k" using ok by (simp add: db_ok_def buffer_ok_def)
  note sz = chunk_ready_size(1) [OF ok_ready [OF ok i] id]
  have "unat (of_nat ?u + 4 + 4 :: u32) = ?u + 8"
  proof -
    have "unat (of_nat (?u + 8) :: u32) = ?u + 8" using ok_used [OF ok i] small by (intro unat_of_nat_eq) simp
    then show ?thesis by (simp add: add.commute)
  qed
  then have cond: "of_nat ?u + 4 + 4 \<ge> cs \<longleftrightarrow> unat cs \<le> ?u + 8" by (simp add: word_le_nat_alt)
  show ?thesis
  proof (cases "unat cs \<le> ?u + 8")
    case True
    obtain sent db' se' bs' where
      run: "db_flushAt cs k pc rnd db se i
        = Some (db_chunks db ! i, md_set (db_listId db) (fst (bs ! i)) (db_chunkId db), sent, db', se')"
      and ok': "db_ok cs k se' db' bs'" and reo: "reopened i (view db se bs) (view db' se' bs')"
      and pre: "preserved cs db se db' se'"
      and ch: "changed_in (pool_end cs se) (pool_end cs se + 8 + unat cs) (se_mem se) (se_mem se')"
      and st: "\<And>p n. settled cs se db bs p n \<Longrightarrow> settled cs se' db' bs' p n"
      by (rule flushAt_reopens [OF ok i room free]) blast
    show ?thesis
    proof (rule that [where ?o2.0 = "[fst (bs ! i)]" and sent = sent and db' = db' and se' = se' and bs' = bs'])
      show "flush_full cs k pc rnd (db_chunks db ! i) (Some i) db se
          = Some (map (\<lambda>s. md_set (db_listId db) s (db_chunkId db)) [fst (bs ! i)], sent, db', se')"
        using sz cond True run by (simp add: flush_full_def)
      show "closes cs i (view db se bs) [fst (bs ! i)] (view db' se' bs')"
        using closes.full [of cs "view db se bs" i "view db' se' bs'"] True reo by (simp add: view_def)
    qed (use ok' pre ch st in \<open>simp_all add: changed_in_def\<close>)
  next
    case False
    show ?thesis
    proof (rule that [where ?o2.0 = "[]" and sent = "[]" and db' = db and se' = se and bs' = bs])
      show "flush_full cs k pc rnd (db_chunks db ! i) (Some i) db se
          = Some (map (\<lambda>s. md_set (db_listId db) s (db_chunkId db)) [], [], db, se)"
        using sz cond False by (simp add: flush_full_def)
      show "closes cs i (view db se bs) [] (view db se bs)"
        using closes.roomy [of cs "view db se bs" i] False by (simp add: view_def)
    qed (use ok preserved_refl in simp_all)
  qed
qed

text \<open>Writing the object and closing the chunk if it is full.\<close>

lemma append_object:
  assumes ok: "db_ok cs k se db bs" and small: "unat cs < 2 ^ 31" and i: "i < length bs"
    and fit: "fits cs bs (length (st_image cs x)) i" and wf: "st_wf cs x" and l: "\<not> st_large cs x"
    and room: "unat (cp_count (se_pool se)) < unat (cp_total (se_pool se))"
    and free: "card (- fst (view db se bs)) \<noteq> 0"
  obtains m' o2 sent db' se' bs' where
    "cu_getStripeId (se_mem se) (db_chunks db ! i) = Some (fst (bs ! i))"
    and "write_object cs k (st_key x) (st_keySize x) (st_val x) (st_valueSize x) 0
           (of_nat (length (st_image cs x))) (db_chunks db ! i) se
      = Some (db_chunks db ! i + 8 + used cs (snd (bs ! i)), of_nat (used cs (snd (bs ! i))), set_mem m' se)"
    and "flush_full cs k pc rnd (db_chunks db ! i) (Some i)
           (db\<lparr>db_sizes := (db_sizes db)[i := db_sizes db ! i + of_nat (length (st_image cs x))]\<rparr>) (set_mem m' se)
       = Some (map (\<lambda>s. md_set (db_listId db) s (db_chunkId db)) o2, sent, db', se')"
    and "closes cs i (put x i (view db se bs)) o2 (view db' se' bs')" and "db_ok cs k se' db' bs'"
    and "preserved cs db se db' se'"
    and "settled cs se' db' bs' (db_chunks db ! i + 8 + used cs (snd (bs ! i))) (length (st_image cs x))"
    and "peek (se_mem se') (db_chunks db ! i + 8 + used cs (snd (bs ! i))) (length (st_image cs x)) = Some (st_image cs x)"
proof -
  let ?p = "db_chunks db ! i" and ?u = "used cs (snd (bs ! i))"
  let ?q = "?p + 8 + ?u" and ?n = "length (st_image cs x)"
  have sid: "cu_getStripeId (se_mem se) ?p = Some (fst (bs ! i))"
    using chunk_ready_size(2) [OF ok_ready [OF ok i], of k] ok by (simp add: db_ok_def buffer_ok_def)
  obtain m' where wr: "write_object cs k (st_key x) (st_keySize x) (st_val x) (st_valueSize x) 0 (of_nat ?n) ?p se
      = Some (?q, of_nat ?u, set_mem m' se)"
    and poke: "poke (se_mem se) ?q (st_image cs x) = Some m'"
    and holds: "chunk_holds cs m' ?p (snd (bs ! i) @ [x])"
    by (rule write_object_run [OF ok i wf l fit])
  define db1 where "db1 = db\<lparr>db_sizes := (db_sizes db)[i := of_nat (used cs (snd (bs ! i) @ [x]))]\<rparr>"
  define bs1 where "bs1 = bs[i := (fst (bs ! i), snd (bs ! i) @ [x])]"
  define se1 where "se1 = set_mem m' se"
  note written = write_ok [OF ok i fit poke holds db1_def bs1_def se1_def]
  have sizes: "db\<lparr>db_sizes := (db_sizes db)[i := db_sizes db ! i + of_nat ?n]\<rparr> = db1"
    using ok_size [OF ok i] by (simp add: item_at_def db1_def split: if_splits)
  have view1: "view db1 se1 bs1 = put x i (view db se bs)"
    by (simp add: view_def put_def db1_def bs1_def se1_def)
  have pre1: "preserved cs db se db1 se1"
    using written(2) by (simp add: preserved_def same_objects_def db1_def se1_def set_mem_def)
  have room1: "unat (cp_count (se_pool se1)) < unat (cp_total (se_pool se1))"
    using room by (simp add: se1_def set_mem_def)
  have "card (- fst (view db1 se1 bs1)) = card (- fst (view db se bs))" using view1 by (simp add: put_def)
  then have free1: "card (- fst (view db1 se1 bs1)) \<noteq> 0" using free by linarith
  have i1: "i < length bs1" using i by (simp add: bs1_def)
  obtain o2 sent db' se' bs' where
    flush: "flush_full cs k pc rnd (db_chunks db1 ! i) (Some i) db1 se1
       = Some (map (\<lambda>s. md_set (db_listId db1) s (db_chunkId db1)) o2, sent, db', se')"
    and closes: "closes cs i (view db1 se1 bs1) o2 (view db' se' bs')" and ok': "db_ok cs k se' db' bs'"
    and pre2: "preserved cs db1 se1 db' se'"
    and st: "\<And>p n. settled cs se1 db1 bs1 p n \<Longrightarrow> settled cs se' db' bs' p n"
    and below: "\<And>q n. q + n \<le> pool_end cs se1 \<Longrightarrow> peek (se_mem se') q n = peek (se_mem se1) q n"
    by (rule flush_full_closes [OF written(1) small i1 room1 free1]) blast
  have "peek (se_mem se') ?q ?n = Some (st_image cs x)"
    using below [of ?q ?n] written(3) peek_poke_same [OF poke] by (simp add: settled_def se1_def)
  moreover have "db_listId db1 = db_listId db" "db_chunkId db1 = db_chunkId db" "db_chunks db1 = db_chunks db"
    by (simp_all add: db1_def)
  ultimately show ?thesis
    using that [OF sid wr _ _ ok' preserved_trans [OF pre1 pre2] st [OF written(3)]] flush closes view1 sizes
    by (simp add: se1_def)
qed

section \<open>Entering the object into the index\<close>

lemma insertOpMetadata_returns:
  assumes "\<not> key_isLarge key" and "unat (key_size key) \<le> length (key_data key)"
  obtains r ts tsv ops where "insertOpMetadata opcode key km True sv
    = Some (r, ts, sv\<lparr>sv_timestamp := tsv, sv_ops := ops\<rparr>)"
proof (cases "um_find key_same (sv_ops sv) key")
  case None
  have "key_dup key 0 None 0 False \<noteq> None" using assms by (simp add: key_dup_def Let_def)
  then obtain key' where "key_dup key 0 None 0 False = Some key'" by blast
  with None that assms(1) show ?thesis
    by (auto simp: insertOpMetadata_def case_prod_unfold Let_def)
next
  case (Some om)
  have "insertOpMetadata opcode key km True sv
      = (if opcode = PROTO_OPCODE_DELETE
         then Some (True, None, sv\<lparr>sv_timestamp := sv_timestamp sv, sv_ops := um_erase key_same (sv_ops sv) key\<rparr>)
         else Some (False, None, sv\<lparr>sv_timestamp := sv_timestamp sv, sv_ops := sv_ops sv\<rparr>))"
    using Some by (simp add: insertOpMetadata_def)
  then show ?thesis
    using that [where r = True and ts = None and tsv = "sv_timestamp sv"]
      that [where r = False and ts = None and tsv = "sv_timestamp sv"]
    by (cases "opcode = PROTO_OPCODE_DELETE") (simp_all only: if_True if_False simp_thms)
qed

lemma object_entry: "objects_ok cs m sv \<Longrightarrow> p \<in> set (entries (sv_keys sv)) \<longleftrightarrow> object_index cs m sv (object_key cs m p) = Some p"
  by (auto simp: objects_ok_def ch_ok_def object_index_def ch_abs_eq_Some)

lemma settled_mono: "settled cs se db bs p n \<Longrightarrow> n' \<le> n \<Longrightarrow> settled cs se db bs p n'"
  by (fastforce simp: settled_def)

lemma insertKey_ok:
  assumes ok: "db_ok cs k se db bs" and wf: "st_wf cs x" and l: "\<not> st_large cs x" and nul: "0 \<notin> set (st_key x)"
    and img: "peek (se_mem se) q (length (st_image cs x)) = Some (st_image cs x)"
    and st: "settled cs se db bs q (length (st_image cs x))"
    and new: "object_index cs (heap se) (se_map se) (st_key x) = None" and km: "km_obj km = Some (Suc q)"
  obtains r t ts sv where
    "sv_insertKey cs (heap se) rnd (se_map se) (key_set (st_keySize x) (st_key x) 0 False) opcode km True False = Some (r, ts, sv)"
    and "db_ok cs k (se\<lparr>se_map := sv\<rparr>) db bs" and "sv_stripeIds sv = sv_stripeIds (se_map se)"
    and "object_index cs (heap se) sv = (if t then (object_index cs (heap se) (se_map se))(st_key x \<mapsto> Suc q)
           else object_index cs (heap se) (se_map se))" and "r \<longrightarrow> t"
proof -
  let ?sv = "se_map se" and ?h = "heap se" and ?key = "key_set (st_keySize x) (st_key x) 0 False"
  have ix: "index_ok cs se db bs" using ok by (simp add: db_ok_def)
  then have okk: "objects_ok cs ?h ?sv" by (simp add: index_ok_def)
  have k: "length (st_key x) = unat (st_keySize x)" using wf by (simp add: st_wf_def)
  have obj: "object_key cs ?h (Suc q) = st_key x" "small_object cs ?h (Suc q)"
    using stored_object [OF wf l nul, of "Suc q" ?h] img by (simp_all add: peek_heap)
  have arg: "object_arg (st_key x) (st_keySize x) False (st_key x)"
    using nul k by (simp add: object_arg_def peek_def seg_def)
  have "\<exists>t keys. ch_insert cs ?h rnd (sv_keys ?sv) (st_key x) (st_keySize x) (Suc q) False = Some (t, keys)
      \<and> ch_ok (Collect (small_object cs ?h)) (object_key cs ?h) hash_of keys \<and> ch_keySize keys = 0
      \<and> ch_abs (object_key cs ?h) keys
        = (if t then (ch_abs (object_key cs ?h) (sv_keys ?sv))(st_key x \<mapsto> Suc q) else ch_abs (object_key cs ?h) (sv_keys ?sv))"
    using okk new obj unfolding objects_ok_def object_index_def
    by (intro objects.insert_abs [OF _ _ arg]) simp_all
  then obtain t keys where ins: "ch_insert cs ?h rnd (sv_keys ?sv) (st_key x) (st_keySize x) (Suc q) False = Some (t, keys)"
    and okt: "ch_ok (Collect (small_object cs ?h)) (object_key cs ?h) hash_of keys" "ch_keySize keys = 0"
    and abs: "ch_abs (object_key cs ?h) keys
        = (if t then (object_index cs ?h ?sv)(st_key x \<mapsto> Suc q) else object_index cs ?h ?sv)"
    unfolding object_index_def by metis
  let ?sv1 = "?sv\<lparr>sv_keys := keys\<rparr>"
  have dup: "key_dup ?key 0 None 0 False = Some ?key"
    using k by (simp add: key_dup_def key_set_def Let_def)
  have okv: "db_ok cs k (se\<lparr>se_map := sv\<rparr>) db bs \<and> object_index cs ?h sv = ch_abs (object_key cs ?h) keys"
    if "sv_keys sv = keys" "sv_chunks sv = sv_chunks ?sv" "sv_stripeIds sv = sv_stripeIds ?sv" for sv
  proof -
    have o': "objects_ok cs ?h sv" "object_index cs ?h sv = ch_abs (object_key cs ?h) keys"
      using that okt by (simp_all add: objects_ok_def object_index_def)
    have "settled cs se db bs (p - 1) (object_span cs ?h p)" if p: "p \<in> set (entries (sv_keys sv))" for p
    proof -
      have "object_index cs ?h ?sv (object_key cs ?h p) = Some p \<or> p = Suc q"
        using p object_entry [OF o'(1)] o'(2) abs by (auto split: if_splits)
      then show ?thesis
      proof
        assume "object_index cs ?h ?sv (object_key cs ?h p) = Some p"
        then have "p \<in> set (entries (sv_keys ?sv))" using object_entry [OF okk] by simp
        then show ?thesis using ix by (simp add: index_ok_def)
      next
        assume "p = Suc q"
        then show ?thesis using settled_mono [OF st, of "object_span cs ?h p"] obj k
          by (simp add: object_span_def st_image_length)
      qed
    qed
    moreover have "settled cs (se\<lparr>se_map := sv\<rparr>) db bs = settled cs se db bs"
      by (simp add: settled_def pool_end_def fun_eq_iff)
    moreover have "buffer_ok cs k (se\<lparr>se_map := sv\<rparr>) db bs"
      using ok that by (simp add: db_ok_def buffer_ok_def chunk_ready_def pool_chunk_def)
    ultimately show ?thesis
      using ok ix that o' by (simp add: db_ok_def index_ok_def chunks_ok_def chunk_index_def pool_chunk_def)
  qed
  show ?thesis
  proof (cases t)
    case False
    then show ?thesis
      using that [of False None ?sv1 False] ins km okv [of ?sv1] abs by (simp add: sv_insertKey_def key_set_def obj_ptr_def)
  next
    case True
    obtain r ts tsv ops where op: "insertOpMetadata opcode ?key km True ?sv1
        = Some (r, ts, ?sv1\<lparr>sv_timestamp := tsv, sv_ops := ops\<rparr>)"
      by (rule insertOpMetadata_returns [of ?key]) (use k in \<open>simp_all add: key_set_def\<close>)
    then show ?thesis
      using that [of r ts "?sv1\<lparr>sv_timestamp := tsv, sv_ops := ops\<rparr>" True] True ins dup km abs
        okv [of "?sv1\<lparr>sv_timestamp := tsv, sv_ops := ops\<rparr>"]
      by (simp add: sv_insertKey_def key_set_def obj_ptr_def)
  qed
qed

section \<open>SET\<close>

lemma nth_update: "n < length xs \<Longrightarrow> xs[i := y] ! n = (if i = n then y else xs ! n)"
  by (auto simp: nth_list_update_neq)

lemma roomy_reopened: "roomy cs (snd a) \<Longrightarrow> 8 < unat cs \<Longrightarrow> reopened i a b \<Longrightarrow> roomy cs (snd b)"
  by (auto simp: reopened_def roomy_def nth_update)

lemma roomy_takes: "takes cs n a i sealed b \<Longrightarrow> roomy cs (snd a) \<Longrightarrow> 8 < unat cs \<Longrightarrow> roomy cs (snd b)"
  by (erule takes.cases) (auto dest: roomy_reopened)

lemma roomy_closes:
  assumes "closes cs i (put x i a) sealed b" and "roomy cs (snd a)" and "8 < unat cs"
  shows "roomy cs (snd b)"
  using assms by (auto elim!: closes.cases simp: reopened_def roomy_def put_def nth_update split: if_splits)

lemma findObject_index:
  assumes "objects_ok cs m sv" and "length key = unat sz" and "0 \<notin> set key" and "object_index cs m sv key = Some p"
  shows "map_option fst (findObject cs m sv key sz) = Some p"
proof -
  have "object_arg key sz False key" using assms(2,3) by (simp add: object_arg_def peek_def seg_def)
  then have f: "ch_find cs m (sv_keys sv) key sz False = Some p"
    using objects.find_abs [of cs m "sv_keys sv" key sz False key] assms(1,4)
    by (simp add: objects_ok_def object_index_def)
  have "p \<in> set (entries (sv_keys sv))"
    using assms(1,4) by (auto simp: objects_ok_def ch_ok_def object_index_def ch_abs_eq_Some)
  then have "small_object cs m p" using assms(1) by (auto simp: objects_ok_def ch_ok_def entry_in_bucket)
  then obtain ob y where "deserialize cs m p = Some ob" "isLarge cs (obj_keySize ob) (obj_valueSize ob) = Some (False, y)"
    "p \<noteq> 0" by (elim small_objectE)
  then show ?thesis using f by (cases y) (simp add: findObject_def find_object_def kv_key_def)
qed

end
