(* ===== verification/ParityRdp.thy ===== *)
theory ParityRdp
  imports ParityOrder MixedBuffer DataBufferSet RdpCode
begin

unbundle bit_operations_syntax

text \<open>
  The coding schemes behind the parity chunk buffer: RAID-5 and the two parities of RDP have a linear parity
  delta, so that the order in which SET and SEAL requests reach a parity server does not matter.
\<close>

section \<open>RAID-5\<close>

lemma one_chunk:
  assumes "c < n" and "d = (replicate n z)[c := x]" and "dbyte z b = 0"
  shows "xsum (\<lambda>i. sb d i b) {..<n} = dbyte x b"
proof -
  have rest: "sb d i b = 0" if "i \<in> {..<n} - {c}" for i using that assms by (simp add: sb_def)
  have "xsum (\<lambda>i. sb d i b) {..<n} = sb d c b XOR xsum (\<lambda>i. sb d i b) ({..<n} - {c})"
    using assms(1) by (intro xsum_remove) simp_all
  also have "\<dots> = dbyte x b" using assms(1,2) rest by (simp add: xors.neutral sb_def)
  finally show ?thesis .
qed

lemma empty_chunk_facts:
  "chunk_ok (unat cs) (empty_chunk cs)" "b < unat cs \<Longrightarrow> dbyte (empty_chunk cs) b = 0"
  by (simp_all add: empty_chunk_def chunk_ok_def dbyte_def)

interpretation raid5_delta: delta_encoder cs k "\<lambda>ds z _ _ _. raid5_encode (unat cs) (Suc (unat k)) ds z" index "\<lambda>c f. f"
proof
  fix c d off len assume c: "c < unat k" and d: "chunk_ok (unat cs) d"
  let ?ds = "(replicate (unat k) (empty_chunk cs))[c := d]"
  have "\<forall>i<Suc (unat k) - 1. chunk_ok (unat cs) (?ds ! i)"
    using c d empty_chunk_facts(1) by (auto simp: nth_list_update)
  then obtain p where "raid5_encode (unat cs) (Suc (unat k)) ?ds (empty_chunk cs) = Some p" "chunk_ok (unat cs) p"
    "\<forall>b<unat cs. dbyte p b = dbyte (empty_chunk cs) b XOR xsum (\<lambda>i. sb ?ds i b) {..<unat k}"
    using raid5_encode_row [of "Suc (unat k)" ?ds "unat cs" "empty_chunk cs"] empty_chunk_facts(1) [of cs]
      unat_u32_less [of cs] by (simp del: One_nat_def) blast
  then show "\<exists>p. raid5_encode (unat cs) (Suc (unat k)) ?ds (empty_chunk cs) = Some p \<and> chunk_ok (unat cs) p
      \<and> (\<forall>b<unat cs. dbyte p b = dbyte d b)"
    using one_chunk [OF c refl] empty_chunk_facts(2) by auto
qed simp_all

section \<open>RDP\<close>

text \<open>The delta of column \<open>c\<close>, which is the row parity too, and its diagonals.\<close>

definition delta_column :: "RDPCoding \<Rightarrow> nat \<Rightarrow> (nat \<Rightarrow> byte) \<Rightarrow> nat \<Rightarrow> nat \<Rightarrow> nat \<Rightarrow> byte" where
  "delta_column r c f i s b = (if i = c \<or> i = rdp_k r then f (s * rdp_symbolSize r + b) else 0)"

definition rdp_image :: "RDPCoding \<Rightarrow> nat \<Rightarrow> nat \<Rightarrow> (nat \<Rightarrow> byte) \<Rightarrow> nat \<Rightarrow> byte" where
  "rdp_image r index c f b =
     (if index = 1 then f b
      else diagonal (rdp_p r) (delta_column r c f) {..rdp_k r} (b div rdp_symbolSize r) (b mod rdp_symbolSize r))"

lemma split_position:
  assumes "b < q * (z :: nat)"
  shows "b div z < q" "b mod z < z" "b div z * z + b mod z = b"
  using assms by (simp_all add: less_mult_imp_div_less) (cases "z = 0"; simp)

lemma rdp_image_linear: "rdp_image r index c (\<lambda>a. f a XOR g a) b = rdp_image r index c f b XOR rdp_image r index c g b"
proof -
  have "ext p (delta_column r c (\<lambda>a. f a XOR g a)) i s b = ext p (delta_column r c f) i s b XOR ext p (delta_column r c g) i s b"
    for p i s b by (simp add: ext_def delta_column_def)
  then show ?thesis by (simp add: rdp_image_def diagonal_def xors.distrib)
qed

lemma rdp_image_local:
  assumes ok: "rdp_ok r" and same: "\<And>a. a < rdp_chunkSize r \<Longrightarrow> f a = g a" and b: "b < rdp_chunkSize r"
  shows "rdp_image r index c f b = rdp_image r index c g b"
proof -
  let ?p = "rdp_p r" and ?z = "rdp_symbolSize r"
  have size: "rdp_chunkSize r = (?p - 1) * ?z" and p: "0 < ?p" using ok by (simp_all add: rdp_ok_def)
  have "ext ?p (delta_column r c f) i (s mod ?p) (b mod ?z) = ext ?p (delta_column r c g) i (s mod ?p) (b mod ?z)" for i s
  proof -
    have "s mod ?p < ?p" using p by simp
    then have "s mod ?p = ?p - 1 \<or> s mod ?p < ?p - 1" by linarith
    then show ?thesis
      using same symbol_pos [of "s mod ?p" "?p - 1" "b mod ?z" ?z] split_position(2) [of b "?p - 1" ?z] b size
      by (auto simp: ext_def delta_column_def)
  qed
  then show ?thesis using same b by (simp add: rdp_image_def diagonal_def)
qed

lemma rdp_image_of:
  assumes ok: "rdp_ok r" and index: "index = 1 \<or> index = 2" and c: "c < rdp_k r" and d: "chunk_ok (rdp_chunkSize r) d"
    and outside: "\<And>b. b < rdp_chunkSize r \<Longrightarrow> \<not> (off \<le> b \<and> b < off + len) \<Longrightarrow> dbyte d b = 0"
    and z: "z = replicate (8 + rdp_chunkSize r) 0"
  shows "\<exists>p. rdp_encode r ((replicate (rdp_k r) z)[c := d]) z index
        (off + c * rdp_chunkSize r) (off + c * rdp_chunkSize r + len) = Some p
    \<and> chunk_ok (rdp_chunkSize r) p \<and> (\<forall>b<rdp_chunkSize r. dbyte p b = rdp_image r index c (dbyte d) b)"
proof -
  let ?p = "rdp_p r" and ?z = "rdp_symbolSize r"
  have size: "rdp_chunkSize r = (?p - 1) * ?z" using ok by (simp add: rdp_ok_def)
  have col: "delta_column r c (dbyte d) = delta_view r c d" by (intro ext) (simp add: delta_column_def delta_view_def)
  obtain p q where p: "rdp_encode r ((replicate (rdp_k r) z)[c := d]) z 1 (off + c * rdp_chunkSize r) (off + c * rdp_chunkSize r + len) = Some p"
      "chunk_is (?p - 1) ?z p (delta_view r c d (rdp_k r))"
    and q: "rdp_encode r ((replicate (rdp_k r) z)[c := d]) z 2 (off + c * rdp_chunkSize r) (off + c * rdp_chunkSize r + len) = Some q"
      "chunk_is (?p - 1) ?z q (diagonal ?p (delta_view r c d) {..rdp_k r})"
    using rdp_delta_encode [OF ok c d _ z refl refl refl, of off len] outside by blast
  have "dbyte p b = rdp_image r 1 c (dbyte d) b \<and> dbyte q b = rdp_image r 2 c (dbyte d) b" if "b < rdp_chunkSize r" for b
  proof -
    note pos = split_position [of b "?p - 1" ?z, folded size, OF that]
    have "dbyte p (b div ?z * ?z + b mod ?z) = delta_view r c d (rdp_k r) (b div ?z) (b mod ?z)"
      "dbyte q (b div ?z * ?z + b mod ?z) = diagonal ?p (delta_view r c d) {..rdp_k r} (b div ?z) (b mod ?z)"
      using p(2) q(2) pos(1,2) unfolding chunk_is_def by blast+
    then have "dbyte p b = delta_view r c d (rdp_k r) (b div ?z) (b mod ?z)"
      "dbyte q b = diagonal ?p (delta_view r c d) {..rdp_k r} (b div ?z) (b mod ?z)" by (simp_all only: pos(3))
    moreover have "delta_view r c d (rdp_k r) (b div ?z) (b mod ?z) = dbyte d b"
      unfolding delta_view_def pos(3) by simp
    ultimately show ?thesis by (simp add: rdp_image_def col)
  qed
  moreover have "chunk_ok (rdp_chunkSize r) p" "chunk_ok (rdp_chunkSize r) q" using p(2) q(2) by (simp_all add: size chunk_is_def)
  ultimately show ?thesis using p(1) q(1) index by (elim disjE) auto
qed

lemma rdp_delta_encoder:
  assumes "rdp_ok r" and "rdp_chunkSize r = unat cs" and "rdp_k r = unat k" and "index = 1 \<or> index = 2"
  shows "delta_encoder cs k (rdp_encode r) index (rdp_image r index)"
proof
  fix c d off len
  assume "c < unat k" "chunk_ok (unat cs) d"
    and "\<And>b. b < unat cs \<Longrightarrow> \<not> (off \<le> b \<and> b < off + len) \<Longrightarrow> dbyte d b = 0"
  then show "\<exists>p. rdp_encode r ((replicate (unat k) (empty_chunk cs))[c := d]) (empty_chunk cs) index
        (off + c * unat cs) (off + c * unat cs + len) = Some p
      \<and> chunk_ok (unat cs) p \<and> (\<forall>b<unat cs. dbyte p b = rdp_image r index c (dbyte d) b)"
    using rdp_image_of [OF assms(1,4), of c d off len "empty_chunk cs"] assms(2,3) by (simp add: empty_chunk_def)
next
  fix b c f g
  show "rdp_image r index c (\<lambda>a. f a XOR g a) b = rdp_image r index c f b XOR rdp_image r index c g b"
    by (rule rdp_image_linear)
  show "rdp_image r index c f b = rdp_image r index c g b" if "\<And>a. a < unat cs \<Longrightarrow> f a = g a" "b < unat cs"
    by (rule rdp_image_local [OF assms(1)]) (use that assms(2) in simp_all)
qed

section \<open>SET and SEAL requests in any order\<close>

lemma seal_message:
  assumes "chunk_holds cs m p xs" and "chunk_objects cs xs"
  shows "reqSeal_loop cs m p 0 0 [] = Some (of_nat (length xs), seal_entries cs xs 0 (length xs))"
  using reqSeal_from [OF assms(1), of 0 0 "[]"] assms(2) by (simp add: chunk_objects_def)

text \<open>
  C7. The order of SET and SEAL requests for a chunk at a parity server does not matter. A chunk of a data server holds the small
  objects \<open>xs\<close>, with distinct keys that contain no zero byte (key comparison stops there); the parity server knows nothing about these keys yet;
  its parity chunk of the stripe exists, or can be allocated and registered (\<open>getWrapper\<close> gives the state \<open>pb0\<close>, \<open>se0\<close> with it), and no copy of
  it is kept for a GET request. The objects \<open>as\<close> are set
  before and the objects \<open>bs\<close> after the SEAL request with the records that the data server writes. Then every request
  succeeds, the bytes of either RDP parity have changed by the code of the complete data chunk, the chunk is no longer
  pending, and neither an object nor a request for one of these keys is left over.
\<close>

theorem parity_order_irrelevant:
  assumes r: "rdp_ok r" "rdp_chunkSize r = unat cs" "rdp_k r = unat k" and c: "c < k" and index: "index = 1 \<or> index = 2"
    and holds: "chunk_holds cs m p xs" and ob: "chunk_objects cs xs"
    and order: "distinct (as @ bs)" "set (as @ bs) = {..<length xs}"
    and none: "before_seal cs xs {} pb" and wrapper: "getWrapper cs k rnd' pb se s = Some (w, pb0, se0)"
    and ready: "parity_ready cs k index pb0 se0 s w" and nb: "no_backup gcb pb s"
  shows "\<exists>cnt records pb1 pb2 se2 pb3 se3 w' q. reqSeal_loop cs m p 0 0 [] = Some (cnt, records)
    \<and> set_objects (rdp_encode r) cs k rnd xs c gcb as (pb, se) = Some (pb1, se)
    \<and> pb_seal (rdp_encode r) cs k rnd' pb1 se s c cnt records = Some (True, pb2, se2)
    \<and> set_objects (rdp_encode r) cs k rnd xs c gcb bs (pb2, se2) = Some (pb3, se3)
    \<and> rdp_encode r ((replicate (unat k) (empty_chunk cs))[unat c := sealed_chunk cs xs]) (empty_chunk cs) index
         (unat c * unat cs) (unat c * unat cs + unat cs) = Some q
    \<and> pb_chunks pb3 s = Some w' \<and> w' = w\<lparr>pw_pending := (pw_pending w)[unat c := False]\<rparr>
    \<and> (\<forall>b<unat cs. parity_byte se3 w' b = parity_byte se0 w b XOR dbyte q b)
    \<and> before_seal cs xs {} pb3"
proof -
  have enc: "delta_encoder cs k (rdp_encode r) index (rdp_image r index)" by (rule rdp_delta_encoder [OF r index])
  have lt: "unat c < unat k" using c by (simp add: word_less_nat_alt)
  have chunk: "chunk_ok (unat cs) (sealed_chunk cs xs)" using ob by (simp add: sealed_ok chunk_objects_def)
  obtain q where "rdp_encode r ((replicate (unat k) (empty_chunk cs))[unat c := sealed_chunk cs xs]) (empty_chunk cs) index
      (unat c * unat cs) (unat c * unat cs + unat cs) = Some q"
    and "\<forall>b<unat cs. dbyte q b = rdp_image r index (unat c) (dbyte (sealed_chunk cs xs)) b"
    using delta_encoder.encodes [OF enc lt chunk, of 0 "unat cs"] by auto
  then show ?thesis
    using delta_encoder.seal_any_order [OF enc ob order none wrapper ready c nb, of rnd] seal_message [OF holds ob]
    by (metis (no_types, lifting))
qed

definition demo_rdp :: RDPCoding where
  "demo_rdp = \<lparr>rdp_k = 2, rdp_p = 3, rdp_chunkSize = 16, rdp_symbolSize = 8\<rparr>"

lemma demo_rdp_ok: "rdp_ok demo_rdp" "rdp_chunkSize demo_rdp = unat (16 :: u32)" "rdp_k demo_rdp = unat (2 :: u32)"
  using sample_rdp_ok by (simp_all add: rdp_ok_def demo_rdp_def)

definition demo_objects :: "stored list" where
  "demo_objects = [\<lparr>st_keySize = 1, st_key = [97], st_valueSize = 1, st_splitOffset = 0, st_val = [5]\<rparr>,
                   \<lparr>st_keySize = 1, st_key = [98], st_valueSize = 2, st_splitOffset = 0, st_val = [6, 7]\<rparr>]"

lemma demo_objects_ok: "chunk_objects 16 demo_objects" "chunk_holds 16 (sealed_chunk 16 demo_objects) 0 demo_objects"
proof -
  have len: "length (st_image 16 x) = 4 + unat (st_keySize x) + unat (st_valueSize x)" if "x \<in> set demo_objects" for x
    using that by (auto simp: st_image_length demo_objects_def st_large_def)
  then have used: "used 16 demo_objects = 13" by (simp add: demo_objects_def)
  then show ob: "chunk_objects 16 demo_objects"
    by (auto simp: chunk_objects_def) (auto simp: demo_objects_def small_wf_def st_wf_def st_large_def)
  show "chunk_holds 16 (sealed_chunk 16 demo_objects) 0 demo_objects"
    using ob used by (simp add: chunk_holds_def chunk_objects_def small_wf_def list_all_iff peek_def seg_def sealed_chunk_def cu_getData_def used_def)
qed

definition demo_parity :: ParityChunkBuffer where
  "demo_parity = \<lparr>pb_listId = 0, pb_stripeId = 0, pb_chunkId = 3,
     pb_chunks = [4 \<mapsto> \<lparr>pw_pending = [True, True], pw_chunk = 0\<rparr>], pb_keys = [], pb_pending = []\<rparr>"

definition demo_server :: Server where
  "demo_server = \<lparr>se_pool = \<lparr>cp_total = 3, cp_count = 1, cp_mem = replicate 120 0\<rparr>,
     se_map = demo_sv\<lparr>sv_keys := ch_setKeySize 0 (sv_keys demo_sv), sv_stripeIds := (\<lambda>_. {0})\<rparr>\<rparr>"

text \<open>The second object is set before the seal, the first after it; the second parity server of the stripe.\<close>

theorem parity_order_irrelevant_witness:
  "\<exists>cnt records pb1 pb2 se2 pb3 se3. reqSeal_loop 16 (sealed_chunk 16 demo_objects) 0 0 0 [] = Some (cnt, records)
    \<and> set_objects (rdp_encode demo_rdp) 16 2 (\<lambda>_ _ _. 0) demo_objects 1 None [1] (demo_parity, demo_server) = Some (pb1, demo_server)
    \<and> pb_seal (rdp_encode demo_rdp) 16 2 (\<lambda>_ _. 0) pb1 demo_server 4 1 cnt records = Some (True, pb2, se2)
    \<and> set_objects (rdp_encode demo_rdp) 16 2 (\<lambda>_ _ _. 0) demo_objects 1 None [0] (pb2, se2) = Some (pb3, se3)
    \<and> pb_chunks pb3 4 = Some \<lparr>pw_pending = [True, False], pw_chunk = 0\<rparr>"
proof -
  let ?w = "\<lparr>pw_pending = [True, True], pw_chunk = 0\<rparr>"
  note ob = demo_objects_ok(1) and holds = demo_objects_ok(2)
  have none: "before_seal 16 demo_objects {} demo_parity"
    by (simp add: before_seal_def demo_parity_def um_find_def)
  have ready: "parity_ready 16 2 2 demo_parity demo_server 4 ?w"
    by (simp add: parity_ready_def demo_parity_def demo_server_def se_mem_def)
  have "set ([1] @ [0]) = {..<length demo_objects}" "distinct ([1 :: nat] @ [0])" by (auto simp: demo_objects_def)
  moreover have wrapper: "getWrapper 16 2 (\<lambda>_ _. 0) demo_parity demo_server 4 = Some (?w, demo_parity, demo_server)"
    by (simp add: getWrapper_def demo_parity_def)
  ultimately show ?thesis
    using parity_order_irrelevant [OF demo_rdp_ok _ _ holds ob _ _ none wrapper ready, of 1 "[1]" "[0]" None "\<lambda>_ _ _. 0"]
    by (fastforce simp: no_backup_def)
qed

end
