(* ===== verification/ParityFaults.thy ===== *)
theory ParityFaults
  imports ParityOrder
begin

unbundle bit_operations_syntax

text \<open>
  Two error paths of the parity chunk buffer: a request that comes before the SET of its object, and the
  backup of a sealed chunk.
\<close>

section \<open>Requests that come before their object\<close>

lemma set_after_request:
  assumes x: "small_wf cs x" and req: "um_find key_same (pb_pending pb) (K x) = Some request"
    and kind: "\<not> (\<exists>s off. request = PRT_SEAL s off)"
  shows "pb_set enc cs k rnd pb se (st_key x) (st_keySize x) (st_val x) (st_valueSize x) c 0 gcb
    = Some (True, pb\<lparr>pb_pending := um_erase key_same (pb_pending pb) (K x)\<rparr>, se, gcb)"
  using small_large [OF x] req kind by (cases request) (simp_all add: pb_set_def K_def [symmetric])

lemma unknown_key: "um_find key_same (pb_keys pb) (K x) = None \<Longrightarrow> pb_find_key pb (K x) = None"
  by (simp add: pb_find_key_def um_find_def)

text \<open>
  C23. A small object whose UPDATE or DELETE comes first is lost: for a small object (not split, its key without zero byte) that the parity server
  does not know and has no request for, \<^verbatim>\<open>updateKeyValue\<close> and \<^verbatim>\<open>deleteKey\<close> leave a request for it. When the SET comes, it takes the request
  away and reports success, but the object is not kept (the request itself is a TODO): afterwards the server knows neither.
\<close>

theorem early_request_drops_object:
  assumes x: "small_wf cs x" and keys: "um_find key_same (pb_keys pb) (K x) = None"
    and pend: "um_find key_same (pb_pending pb) (K x) = None" and len: "unat len \<le> length upd"
    and pb': "updateKeyValue pb (st_key x) (st_keySize x) False off len upd = Some (r, pb')
      \<or> pb_deleteKey pb (st_key x) (st_keySize x) = Some (r, pb')"
  shows "\<not> r \<and> (\<exists>pb''. pb_set enc cs k rnd pb' se (st_key x) (st_keySize x) (st_val x) (st_valueSize x) c 0 gcb
        = Some (True, pb'', se, gcb)
      \<and> pb_keys pb'' = pb_keys pb \<and> um_find key_same (pb_keys pb'') (K x) = None \<and> um_find key_same (pb_pending pb'') (K x) = None)"
proof -
  have dup: "key_dup (K x) 0 None 0 False = Some (K x)"
    using small_image(3) [OF x] by (simp add: key_dup_def key_set_def K_def Let_def)
  have "\<exists>request. \<not> r \<and> pb' = pb\<lparr>pb_pending := snd (um_insert key_same (pb_pending pb) (K x) request)\<rparr>
      \<and> \<not> (\<exists>s off. request = PRT_SEAL s off)"
    using pb' keys len unknown_key [OF keys] dup
    by (auto simp: updateKeyValue_def pb_deleteKey_def K_def [symmetric])
  then obtain request where r: "\<not> r" and pb'': "pb' = pb\<lparr>pb_pending := snd (um_insert key_same (pb_pending pb) (K x) request)\<rparr>"
    and kind: "\<not> (\<exists>s off. request = PRT_SEAL s off)" by blast
  have "um_find key_same (pb_pending pb') (K x) = Some request"
    using find_insert_K(1) [OF x x keyed.same_refl [OF K_readable [OF x]] pend] by (simp add: pb'')
  from set_after_request [OF x this kind] show ?thesis
    using r keys by (simp add: pb'' find_erase_K [OF x x])
qed

theorem early_request_drops_object_witness:
  "\<exists>pb'. pb_deleteKey (pb_new 0 0 0 2 True) [107] 1 = Some (False, pb')
    \<and> (\<forall>se. \<exists>pb''. pb_set (\<lambda>_ _ _ _ _. None) 32 2 (\<lambda>_ _. 0) pb' se [107] 1 [1, 2] 2 0 0 None = Some (True, pb'', se, None)
        \<and> pb_keys pb'' = [])"
proof -
  let ?x = "\<lparr>st_keySize = 1, st_key = [107], st_valueSize = 2, st_splitOffset = 0, st_val = [1, 2]\<rparr> :: stored"
  obtain pb' where pb': "pb_deleteKey (pb_new 0 0 0 2 True) [107] 1 = Some (False, pb')"
    by (simp add: pb_deleteKey_def pb_new_def pb_init_def um_find_def key_dup_def key_set_def Let_def)
  have "small_wf 32 ?x" by (simp add: small_wf_def st_wf_def st_large_def)
  moreover have "pb_keys (pb_new 0 0 0 2 True) = []" "pb_pending (pb_new 0 0 0 2 True) = []"
    by (simp_all add: pb_new_def pb_init_def)
  ultimately show ?thesis
    using pb' early_request_drops_object [of 32 ?x "pb_new 0 0 0 2 True" 0 "[]" 0 False pb' "\<lambda>_ _ _ _ _. None" 2 "\<lambda>_ _. 0" _ 0 None]
    by (auto simp: um_find_def)
qed

section \<open>The backup of a sealed chunk\<close>

text \<open>
  The backup that an update finds of a parity chunk is combined with itself: whatever it was, its data are
  zero afterwards, and the delta is not in it.
\<close>

theorem backup_cleared:
  assumes "gc_find gb md = Some w" and "gw_chunk w = Some backup" and "chunk_ok (unat cs) backup"
    and "gw_sealIndicator w = Some ind" and "unat c < length ind" and "ind ! unat c"
  shows "\<exists>backup'. update_backup cs md c gb = Some (um_assign md_equal gb md (w\<lparr>gw_chunk := Some backup'\<rparr>))
    \<and> (\<forall>b<unat cs. dbyte backup' b = 0)"
proof -
  have "0 + 8 + unat cs \<le> length backup" using assms(3) by (simp add: chunk_ok_def)
  then obtain m' where m': "bitwiseXOR_self backup (cu_getData 0) backup 8 cs = Some m'" "length m' = length backup"
    "\<And>b. b < unat cs \<Longrightarrow> m' ! (0 + 8 + b) = backup ! (0 + 8 + b) XOR dbyte backup b"
    by (rule parity_xor [OF _ assms(3)]) blast
  then have "dbyte m' b = 0" if "b < unat cs" for b using that by (simp add: dbyte_def)
  then show ?thesis using m'(1) assms
    by (intro exI [of _ m']) (simp add: update_backup_def item_at_def cu_getData_def)
qed

end
