(* ===== verification/DegradedBuffer.thy ===== *)
theory DegradedBuffer
  imports ParityBuffer
begin

text \<open>
  The buffer of a server that stands in for failed ones, \<^verbatim>\<open>server/buffer/degraded_chunk_buffer.{hh,cc}\<close>:
  \<^verbatim>\<open>DegradedMap\<close> has the objects and chunks that were reconstructed and the requests that wait for a
  reconstruction, \<^verbatim>\<open>DegradedChunkBuffer\<close> changes them. A chunk comes from a temporary pool; a \<^verbatim>\<open>Chunk *\<close> is
  the number of the chunk in \<open>dm_store\<close>. An operation on one table holds its lock and is one step.
\<close>

record pid_s =
  pid_instanceId :: u16
  pid_requestId :: u32
  pid_chunkId :: u32

record DegradedMap =
  dm_keys :: "(Key, KeyMetadata) um"
  dm_cache :: "(Metadata, nat) um"
  dm_removed :: "(Metadata, unit) um"
  dm_chunks :: "(Metadata, pid_s list) um"
  dm_reconstructedChunks :: "(Metadata, unit) um"
  dm_degradedKeys :: "(Key, pid_s list) um"
  dm_reconstructedKeys :: "(Key, unit) um"
  dm_values :: "(Key, memory) um"
  dm_metadataRev :: "(Metadata \<times> Key) list"
  dm_deleted :: "(Key, unit) um"
  dm_store :: "memory list"

definition dm_new :: DegradedMap where
  "dm_new = \<lparr>dm_keys = [], dm_cache = [], dm_removed = [], dm_chunks = [], dm_reconstructedChunks = [],
     dm_degradedKeys = [], dm_reconstructedKeys = [], dm_values = [], dm_metadataRev = [], dm_deleted = [],
     dm_store = []\<rparr>"

section \<open>Looking up objects and chunks\<close>

text \<open>The results that \<^verbatim>\<open>findValueByKey\<close> returns through pointers; the object is the memory from its first byte.\<close>

record dm_found =
  df_isSealed :: bool
  df_key :: Key
  df_keyMetadata :: "KeyMetadata option"
  df_metadata :: "Metadata option"
  df_chunk :: "nat option"
  df_keyValue :: "memory option"

definition dm_findValueByKey :: "DegradedMap \<Rightarrow> byte list \<Rightarrow> u8 \<Rightarrow> bool \<Rightarrow> (bool \<times> dm_found) option" where
  "dm_findValueByKey dm data sz large =
     (let key = key_set sz data 0 large;
          none = \<lparr>df_isSealed = False, df_key = key, df_keyMetadata = None, df_metadata = None, df_chunk = None,
                  df_keyValue = None\<rparr> in
      case find (\<lambda>(k, _). key_same k key) (dm_keys dm) of
        Some (k, km) \<Rightarrow>
          let found = none\<lparr>df_isSealed := True, df_key := k, df_keyMetadata := Some km\<rparr> in
          (case find (\<lambda>(md, _). md_equal md (md_set (md_listId km) (md_stripeId km) (md_chunkId km))) (dm_cache dm) of
             None \<Rightarrow> Some (False, found)
           | Some (md, h) \<Rightarrow>
               do { chunk \<leftarrow> item_at (dm_store dm) h;
                    Some (True, found\<lparr>df_metadata := Some md, df_chunk := Some h,
                                      df_keyValue := Some (drop (8 + unat (km_offset km)) chunk)\<rparr>) })
      | None \<Rightarrow>
          (case find (\<lambda>(k, _). key_same k key) (dm_values dm) of
             None \<Rightarrow> Some (False, none)
           | Some (k, kv) \<Rightarrow> Some (True, none\<lparr>df_key := k, df_keyValue := Some kv\<rparr>)))"

definition dm_findChunkById :: "DegradedMap \<Rightarrow> u32 \<Rightarrow> u32 \<Rightarrow> u32 \<Rightarrow> nat option" where
  "dm_findChunkById dm l s c = um_find md_equal (dm_cache dm) (md_set l s c)"

section \<open>Objects\<close>

definition dm_insertKey :: "DegradedMap \<Rightarrow> Key \<Rightarrow> KeyMetadata \<Rightarrow> (bool \<times> DegradedMap) option" where
  "dm_insertKey dm key km =
     do { k \<leftarrow> key_dup (key_set (key_size key) [] 0 False) (key_size key) (Some (key_data key)) 0 (key_isLarge key);
          let (r, keys) = um_insert key_same (dm_keys dm) k km;
          Some (r, dm\<lparr>dm_keys := keys\<rparr>) }"

definition dm_deleteKey ::
  "DegradedMap \<Rightarrow> ServerMap \<Rightarrow> Key \<Rightarrow> u8 \<Rightarrow> (bool \<times> KeyMetadata option \<times> u32 option \<times> DegradedMap \<times> ServerMap) option" where
  "dm_deleteKey dm sv key opcode =
     (case um_find key_same (dm_keys dm) key of
        None \<Rightarrow> Some (False, None, None, dm, sv)
      | Some km \<Rightarrow>
          do { (r, ts, sv) \<leftarrow> insertOpMetadata opcode key km True sv;
               Some (r, Some km, ts, dm\<lparr>dm_keys := um_erase key_same (dm_keys dm) key\<rparr>, sv) })"

definition dm_insertValue :: "u32 \<Rightarrow> DegradedMap \<Rightarrow> memory \<Rightarrow> Metadata \<Rightarrow> (bool \<times> DegradedMap) option" where
  "dm_insertValue cs dm kv metadata =
     do { key \<leftarrow> kv_key cs kv 0 True;
          let (r, values) = um_insert key_same (dm_values dm) key kv;
          Some (r, dm\<lparr>dm_values := values,
                      dm_metadataRev := (if r then dm_metadataRev dm @ [(metadata, key)] else dm_metadataRev dm)\<rparr>) }"

text \<open>The first entry of the list with this metadata and an equal key is removed; there must be one.\<close>

fun remove_rev :: "Metadata \<Rightarrow> Key \<Rightarrow> (Metadata \<times> Key) list \<Rightarrow> (Metadata \<times> Key) list option" where
  "remove_rev md key [] = None"
| "remove_rev md key ((md', k) # es) =
     (if md_equal md' md
      then do { same \<leftarrow> key_equal k key;
                if same then Some es else map_option (Cons (md', k)) (remove_rev md key es) }
      else map_option (Cons (md', k)) (remove_rev md key es))"

text \<open>A deleted object stays in \<^verbatim>\<open>metadataRev\<close>, so that the deletion reaches the server of the chunk.\<close>

definition dm_deleteValue ::
  "DegradedMap \<Rightarrow> ServerMap \<Rightarrow> Key \<Rightarrow> Metadata \<Rightarrow> u8 \<Rightarrow> (bool \<times> u32 option \<times> DegradedMap \<times> ServerMap) option" where
  "dm_deleteValue dm sv key metadata opcode =
     do { dm \<leftarrow> (case um_find key_same (dm_values dm) key of
                    None \<Rightarrow> Some dm
                  | Some _ \<Rightarrow>
                      do { rev \<leftarrow> remove_rev metadata key (dm_metadataRev dm);
                           Some (dm\<lparr>dm_values := um_erase key_same (dm_values dm) key, dm_metadataRev := rev\<rparr>) });
          key \<leftarrow> key_dup key 0 None 0 (key_isLarge key);
          let dm = dm\<lparr>dm_metadataRev := dm_metadataRev dm @ [(metadata, key)],
                      dm_deleted := snd (um_insert key_same (dm_deleted dm) key ())\<rparr>;
          (r, ts, sv) \<leftarrow> insertOpMetadata opcode key metadata True sv;
          Some (r, ts, dm, sv) }"

section \<open>Requests that wait for a reconstruction\<close>

text \<open>
  A stripe is reconstructed as a whole: the entries have the chunk id \<open>-1\<close>. The result says whether the caller
  has to start the reconstruction, and \<^verbatim>\<open>isReconstructed\<close>. Without a request (\<open>None\<close>) nothing is queued.
\<close>

definition insertDegradedChunk :: "DegradedMap \<Rightarrow> u32 \<Rightarrow> u32 \<Rightarrow> pid_s option \<Rightarrow> bool \<times> bool \<times> DegradedMap" where
  "insertDegradedChunk dm l s pid =
     (let metadata = md_set l s (- 1); pids = (case pid of None \<Rightarrow> [] | Some p \<Rightarrow> [p]) in
      case um_find md_equal (dm_chunks dm) metadata of
        None \<Rightarrow>
          if um_find md_equal (dm_reconstructedChunks dm) metadata = None
          then let (r, chunks) = um_insert md_equal (dm_chunks dm) metadata pids
               in (r, False, dm\<lparr>dm_chunks := chunks\<rparr>)
          else (False, True, dm)
      | Some waiting \<Rightarrow> (False, False, dm\<lparr>dm_chunks := um_assign md_equal (dm_chunks dm) metadata (waiting @ pids)\<rparr>))"

definition deleteDegradedChunk ::
  "DegradedMap \<Rightarrow> u32 \<Rightarrow> u32 \<Rightarrow> u32 \<Rightarrow> bool \<Rightarrow> bool \<Rightarrow> bool \<times> pid_s list \<times> DegradedMap" where
  "deleteDegradedChunk dm l s c force ignoreChunkId =
     (let metadata = md_set l s (- 1);
          mark = snd (um_insert md_equal (dm_reconstructedChunks dm) metadata ()) in
      case um_find md_equal (dm_chunks dm) metadata of
        None \<Rightarrow> (False, [], if force then dm\<lparr>dm_reconstructedChunks := mark\<rparr> else dm)
      | Some waiting \<Rightarrow>
          let mine = (\<lambda>pid. ignoreChunkId \<or> pid_chunkId pid = c);
              rest = filter (Not \<circ> mine) waiting in
          (True, filter mine waiting,
           dm\<lparr>dm_chunks := (if rest = [] then um_erase md_equal (dm_chunks dm) metadata
                            else um_assign md_equal (dm_chunks dm) metadata rest),
              dm_reconstructedChunks := mark\<rparr>))"

definition insertDegradedKey :: "DegradedMap \<Rightarrow> Key \<Rightarrow> u16 \<Rightarrow> u32 \<Rightarrow> bool \<times> bool \<times> DegradedMap" where
  "insertDegradedKey dm key instanceId requestId =
     (let pid = \<lparr>pid_instanceId = instanceId, pid_requestId = requestId, pid_chunkId = 0\<rparr> in
      case um_find key_same (dm_degradedKeys dm) key of
        None \<Rightarrow>
          if um_find key_same (dm_reconstructedKeys dm) key = None
          then let (r, keys) = um_insert key_same (dm_degradedKeys dm) key [pid]
               in (r, False, dm\<lparr>dm_degradedKeys := keys\<rparr>)
          else (False, True, dm)
      | Some waiting \<Rightarrow>
          (False, False, dm\<lparr>dm_degradedKeys := um_assign key_same (dm_degradedKeys dm) key (waiting @ [pid])\<rparr>))"

definition deleteDegradedKey :: "DegradedMap \<Rightarrow> Key \<Rightarrow> bool \<Rightarrow> (bool \<times> pid_s list \<times> DegradedMap) option" where
  "deleteDegradedKey dm key success =
     (case um_find key_same (dm_degradedKeys dm) key of
        None \<Rightarrow> Some (False, [], dm)
      | Some waiting \<Rightarrow>
          let dm = dm\<lparr>dm_degradedKeys := um_erase key_same (dm_degradedKeys dm) key\<rparr> in
          if success
          then do { k \<leftarrow> key_dup key 0 None 0 (key_isLarge key);
                    Some (True, waiting,
                          dm\<lparr>dm_reconstructedKeys := snd (um_insert key_same (dm_reconstructedKeys dm) k ())\<rparr>) }
          else Some (True, waiting, dm))"

section \<open>Chunks\<close>

text \<open>\<^verbatim>\<open>operator[]\<close> with an assignment: an entry that exists keeps its key.\<close>

definition um_put :: "('k \<Rightarrow> 'k \<Rightarrow> bool) \<Rightarrow> ('k, 'v) um \<Rightarrow> 'k \<Rightarrow> 'v \<Rightarrow> ('k, 'v) um" where
  "um_put same t k v = (if um_find same t k = None then t @ [(k, v)] else um_assign same t k v)"

text \<open>
  The scan of a data chunk; \<open>off\<close> is the 32-bit offset and the position of the pointer. An object of size 0
  would be scanned for ever, and a key of size 0 takes its size from memory that is not initialised.
\<close>

function dm_index ::
  "u32 \<Rightarrow> memory \<Rightarrow> Metadata \<Rightarrow> nat \<Rightarrow> (Key, KeyMetadata) um \<Rightarrow> (Key, KeyMetadata) um option" where
  "dm_index cs chunk md off keys =
     (if off + 4 < unat cs
      then case deserialize cs chunk (8 + off) of
        None \<Rightarrow> None
      | Some ob \<Rightarrow>
          if obj_keySize ob = 0 \<and> obj_valueSize ob = 0 then Some keys
          else (case (isLarge cs (obj_keySize ob) (obj_valueSize ob), object_size cs ob) of
                  (Some (large, _, _), Some sz) \<Rightarrow>
                    if sz = 0 \<or> obj_keySize ob = 0 then None
                    else (case key_dup (key_set (obj_keySize ob) [] 0 False) (obj_keySize ob)
                                 (Some (drop (obj_key ob) chunk)) 0 large of
                            None \<Rightarrow> None
                          | Some key \<Rightarrow>
                              dm_index cs chunk md (off + unat sz)
                                (um_put key_same keys key
                                   \<lparr>md_listId = md_listId md, md_stripeId = md_stripeId md, md_chunkId = md_chunkId md,
                                    km_offset = of_nat off, km_length = sz, km_isParityRemapped = False, km_obj = None\<rparr>))
                | _ \<Rightarrow> None)
      else Some keys)"
  by pat_completeness auto
termination
  by (relation "measure (\<lambda>(cs, chunk, md, off, keys). unat cs - off)") (auto intro: scan_progress)

declare dm_index.simps [simp del]

definition dm_insertChunk :: "u32 \<Rightarrow> DegradedMap \<Rightarrow> u32 \<Rightarrow> u32 \<Rightarrow> u32 \<Rightarrow> nat \<Rightarrow> bool \<Rightarrow> (bool \<times> DegradedMap) option" where
  "dm_insertChunk cs dm l s c chunk isParity =
     do { let md = md_set l s c;
          let (r, cache) = um_insert md_equal (dm_cache dm) md chunk;
          let dm = dm\<lparr>dm_cache := cache, dm_removed := um_erase md_equal (dm_removed dm) md\<rparr>;
          if r \<and> \<not> isParity
          then do { m \<leftarrow> item_at (dm_store dm) chunk;
                    keys \<leftarrow> dm_index cs m md 0 (dm_keys dm);
                    Some (r, dm\<lparr>dm_keys := keys\<rparr>) }
          else Some (r, dm) }"

definition dm_deleteChunk :: "DegradedMap \<Rightarrow> u32 \<Rightarrow> u32 \<Rightarrow> u32 \<Rightarrow> nat option \<times> DegradedMap" where
  "dm_deleteChunk dm l s c =
     (let md = md_set l s c in
      case um_find md_equal (dm_cache dm) md of
        None \<Rightarrow> (None, dm)
      | Some chunk \<Rightarrow>
          (Some chunk, dm\<lparr>dm_cache := um_erase md_equal (dm_cache dm) md,
                          dm_removed := snd (um_insert md_equal (dm_removed dm) md ())\<rparr>))"

definition dm_findRemovedChunk :: "DegradedMap \<Rightarrow> u32 \<Rightarrow> u32 \<Rightarrow> u32 \<Rightarrow> bool" where
  "dm_findRemovedChunk dm l s c \<longleftrightarrow> um_find md_equal (dm_removed dm) (md_set l s c) \<noteq> None"

section \<open>The degraded chunk buffer\<close>

text \<open>
  An update of a chunk turns \<^verbatim>\<open>valueUpdate\<close> into the delta, in place: it is the destination and the second
  operand. In the last case the object is copied as it is: the update is not applied.
\<close>

definition dg_updateKeyValue ::
  "DegradedMap \<Rightarrow> u8 \<Rightarrow> byte list \<Rightarrow> u32 \<Rightarrow> u32 \<Rightarrow> u32 \<Rightarrow> memory \<Rightarrow> nat \<Rightarrow> bool \<Rightarrow> memory option \<Rightarrow> Metadata option
     \<Rightarrow> (bool \<times> memory \<times> DegradedMap) option" where
  "dg_updateKeyValue dm keySize keyStr len off chunkOff valueUpdate chunk isSealed kv metadata =
     (let key = key_set keySize keyStr 0 False in
      if isSealed
      then do { m \<leftarrow> item_at (dm_store dm) chunk;
                delta \<leftarrow> bitwiseXOR_self valueUpdate 0 m (8 + unat chunkOff) len;
                m \<leftarrow> bitwiseXOR_self m (8 + unat chunkOff) delta 0 len;
                Some (True, delta, dm\<lparr>dm_store := (dm_store dm)[chunk := m]\<rparr>) }
      else (case um_find key_same (dm_values dm) key of
              Some v \<Rightarrow>
                if unat len \<le> length valueUpdate
                then do { v \<leftarrow> poke v (unat (getChunkUpdateOffset 0 keySize off False)) (take (unat len) valueUpdate);
                          Some (True, valueUpdate, dm\<lparr>dm_values := um_assign key_same (dm_values dm) key v\<rparr>) }
                else None
            | None \<Rightarrow>
                (case (metadata, kv) of
                   (Some md, Some kv) \<Rightarrow>
                     do { ob \<leftarrow> deserialize_raw kv 0;
                          v \<leftarrow> kv_dup_raw (Some (drop (obj_key ob) kv)) (obj_keySize ob) (Some (drop (obj_value ob) kv))
                                 (obj_valueSize ob);
                          key \<leftarrow> kv_key 0 v 0 False;
                          let (r, values) = um_insert key_same (dm_values dm) key v;
                          Some (r, valueUpdate,
                                dm\<lparr>dm_values := values,
                                   dm_metadataRev := (if r then dm_metadataRev dm @ [(md, key)] else dm_metadataRev dm)\<rparr>) }
                 | _ \<Rightarrow> Some (False, valueUpdate, dm))))"

definition dg_deleteKey ::
  "u32 \<Rightarrow> DegradedMap \<Rightarrow> ServerMap \<Rightarrow> u8 \<Rightarrow> u8 \<Rightarrow> byte list \<Rightarrow> Metadata \<Rightarrow> bool \<Rightarrow> memory option \<Rightarrow> nat
     \<Rightarrow> (bool \<times> u32 option \<times> u32 option \<times> memory option \<times> DegradedMap \<times> ServerMap) option" where
  "dg_deleteKey cs dm sv opcode keySize keyStr metadata isSealed delta chunk =
     (let key = key_set keySize keyStr 0 False in
      if isSealed
      then do { (r, km, ts, dm, sv) \<leftarrow> dm_deleteKey dm sv key opcode;
                case km of
                  Some km \<Rightarrow>
                    if r
                    then do { m \<leftarrow> item_at (dm_store dm) chunk;
                              (deltaSize, delta, m) \<leftarrow> cu_deleteObject cs m 0 (km_offset km) delta;
                              Some (True, ts, Some deltaSize, delta, dm\<lparr>dm_store := (dm_store dm)[chunk := m]\<rparr>, sv) }
                    else Some (False, ts, None, delta, dm, sv)
                | None \<Rightarrow> Some (r, ts, None, delta, dm, sv) }
      else do { (r, ts, dm, sv) \<leftarrow> dm_deleteValue dm sv key metadata opcode;
                Some (r, ts, None, delta, dm, sv) })"

text \<open>The delta of a parity chunk, as in the parity chunk buffer; a chunk that is not cached starts from zero.\<close>

definition dg_update ::
  "encoder \<Rightarrow> u32 \<Rightarrow> u32 \<Rightarrow> DegradedMap \<Rightarrow> u32 \<Rightarrow> u32 \<Rightarrow> u32 \<Rightarrow> u32 \<Rightarrow> u32 \<Rightarrow> u32 \<Rightarrow> byte list \<Rightarrow> DegradedMap option" where
  "dg_update enc cs k dm l s c updatingChunkId off sz dataDelta =
     do { let md = md_set l s updatingChunkId;
          dataChunk \<leftarrow> (if unat sz \<le> length dataDelta
                        then poke (empty_chunk cs) (8 + unat off) (take (unat sz) dataDelta) else None);
          parityChunk \<leftarrow> (if c < k
             then enc ((replicate (unat k) (empty_chunk cs))[unat c := dataChunk]) (empty_chunk cs)
                    (unat (updatingChunkId - k + 1)) (unat (off + c * cs)) (unat (off + c * cs + sz))
             else None);
          (dm, h) \<leftarrow> (case um_find md_equal (dm_cache dm) md of
             Some h \<Rightarrow> Some (dm, h)
           | None \<Rightarrow>
               do { chunk \<leftarrow> temp_alloc cs 0 0 0;
                    chunk \<leftarrow> cu_set chunk 0 l s updatingChunkId;
                    let h = length (dm_store dm);
                    Some (dm\<lparr>dm_store := dm_store dm @ [chunk],
                             dm_cache := snd (um_insert md_equal (dm_cache dm) md h)\<rparr>, h) });
          m \<leftarrow> item_at (dm_store dm) h;
          m \<leftarrow> bitwiseXOR_self m 8 parityChunk 8 cs;
          Some (dm\<lparr>dm_store := (dm_store dm)[h := m]\<rparr>) }"

end
