(* ===== verification/DegradedState.thy ===== *)
theory DegradedState
  imports DegradedBuffer ParityRdp
begin

unbundle bit_operations_syntax

text \<open>
  What the degraded chunk buffer promises: one reconstruction of a stripe whose waiting requests are answered exactly
  once, objects of a reconstructed chunk that are found, and parity chunks that change as at the server they stand in for.
\<close>

section \<open>Requests for a stripe\<close>





lemma md_set_same: "md_equal (md_set l s c) (md_set l' s' c') \<longleftrightarrow> l = l' \<and> s = s' \<and> c = c'"
  by (simp add: md_equal_def md_set_def)





















section \<open>The objects of a reconstructed chunk\<close>

definition index_entry :: "u32 \<Rightarrow> Metadata \<Rightarrow> stored list \<Rightarrow> nat \<Rightarrow> KeyMetadata" where
  "index_entry cs md xs j =
     \<lparr>md_listId = md_listId md, md_stripeId = md_stripeId md, md_chunkId = md_chunkId md,
      km_offset = of_nat (offsets cs xs j), km_length = of_nat (length (st_image cs (xs ! j))),
      km_isParityRemapped = False, km_obj = None\<rparr>"

lemma dup_peeked:
  "peek m q (unat n) = Some bs \<Longrightarrow> key_dup (key_set n [] 0 False) n (Some (drop q m)) 0 False = Some (key_set n bs 0 False)"
  by (auto simp: key_dup_def key_set_def peek_def seg_def split: if_splits)

lemma dm_index_from:
  assumes h: "chunk_holds cs m 0 xs" and sm: "\<forall>x\<in>set xs. small_wf cs x" and i: "i \<le> length xs"
  shows "dm_index cs m md (offsets cs xs i) keys
    = Some (fold (\<lambda>j t. um_put key_same t (K (xs ! j)) (index_entry cs md xs j)) [i..<length xs] keys)"
  using i
proof (induction "length xs - i" arbitrary: i keys)
  case 0
  then have i: "i = length xs" by simp
  have "used cs xs + (unat cs - used cs xs) = unat cs" using h by (simp add: chunk_holds_def)
  then have "peek m 8 (used cs xs + (unat cs - used cs xs))
      = Some (concat (map (st_image cs) xs) @ replicate (unat cs - used cs xs) 0)"
    using h by (simp add: chunk_holds_def cu_getData_def)
  from peek_split [OF this] have rest: "peek m (8 + used cs xs) (unat cs - used cs xs) = Some (replicate (unat cs - used cs xs) 0)"
    by (simp add: used_def)
  show ?case
  proof (cases "used cs xs + 4 < unat cs")
    case True
    then show ?thesis using scan_end [OF True rest] i by (subst dm_index.simps) auto
  next
    case False
    then show ?thesis using i by (subst dm_index.simps) simp
  qed
next
  case (Suc d)
  then have i: "i < length xs" by simp
  let ?x = "xs ! i" and ?o = "offsets cs xs i" and ?n = "length (st_image cs (xs ! i))"
  have split: "chunk_holds cs m 0 (take i xs @ ?x # drop (Suc i) xs)" using h id_take_nth_drop [OF i] by simp
  have x: "small_wf cs ?x" using sm i by simp
  have fits: "?o + ?n \<le> unat cs"
    using offsets_mono [of "Suc i" "length xs" cs xs] i h by (simp add: offsets_Suc chunk_holds_def)
  have img: "peek m (8 + ?o) ?n = Some (st_image cs ?x)"
    using holds_object [OF split] by (simp add: cu_getData_def offsets_def)
  obtain ob where ob: "deserialize cs m (8 + ?o) = Some ob" "obj_key ob = 8 + ?o + 4" "obj_keySize ob = st_keySize ?x"
    "obj_keySize ob \<noteq> 0" "obj_valueSize ob = st_valueSize ?x" "object_size cs ob = Some (of_nat ?n)"
    "(of_nat ?n :: u32) \<noteq> 0" "unat (of_nat ?n :: u32) = ?n" "4 < ?n"
    using scan_object [OF _ img] x fits by (auto simp: small_wf_def)
  have "peek m (8 + ?o + 4) (unat (st_keySize ?x)) = Some (st_key ?x)"
    using chunk_next_iterates [OF split] by (simp add: cu_getData_def offsets_def)
  from dup_peeked [OF this] have key:
    "key_dup (key_set (st_keySize ?x) [] 0 False) (st_keySize ?x) (Some (drop (8 + ?o + 4) m)) 0 False = Some (K ?x)"
    by (simp only: K_def)
  have next': "offsets cs xs i + ?n = offsets cs xs (Suc i)" using i by (simp add: offsets_Suc)
  have "dm_index cs m md ?o keys
      = dm_index cs m md (offsets cs xs (Suc i)) (um_put key_same keys (K ?x) (index_entry cs md xs i))"
    using ob key fits small_large [OF x] next' by (subst dm_index.simps) (simp add: index_entry_def)
  moreover have "[i..<length xs] = i # [Suc i..<length xs]" using i by (rule upt_conv_Cons)
  ultimately show ?case using Suc.hyps(1) [of "Suc i"] Suc.hyps(2) i by simp
qed

lemma find_put:
  assumes "key_same k k" and "key_same k k' = P"
  shows "um_find key_same (um_put key_same t k v) k' = (if P then Some v else um_find key_same t k')"
proof (cases "um_find key_same t k")
  case None
  then show ?thesis
    using keyed.find_insert [of t k v k'] assms(2) by (simp add: um_put_def um_insert_def)
next
  case (Some w)
  moreover have "P \<Longrightarrow> um_find key_same t k' = Some w" using keyed.find_cong [of k k' t] assms(2) Some by simp
  ultimately show ?thesis using keyed.find_assign [of t k v k'] assms(2) by (simp add: um_put_def)
qed

lemma find_index:
  assumes ob: "chunk_objects cs xs"
  shows "set js \<subseteq> {..<length xs} \<Longrightarrow> i < length xs \<Longrightarrow>
    um_find key_same (fold (\<lambda>j t. um_put key_same t (K (xs ! j)) (index_entry cs md xs j)) js keys) (K (xs ! i))
      = (if i \<in> set js then Some (index_entry cs md xs i) else um_find key_same keys (K (xs ! i)))"
proof (induction js rule: rev_induct)
  case (snoc j js)
  then have j: "j < length xs" by simp
  note x = chunk_objects_nth [OF ob j] chunk_objects_nth(1) [OF ob snoc.prems(2)]
  have same: "key_same (K (xs ! j)) (K (xs ! i)) = (j = i)"
    using x(3) [OF snoc.prems(2)] by (simp add: K_same [OF x(1) x(4)])
  show ?case
    using snoc by (auto simp: find_put [OF keyed.same_refl [OF K_readable [OF x(1)]] same])
qed simp

lemma find_stored: "um_find same t k = Some v \<Longrightarrow> \<exists>k'. find (\<lambda>(k', _). same k' k) t = Some (k', v)"
  by (auto simp: um_find_def)

text \<open>
  C28. A reconstructed data chunk is served from the buffer: when the chunk was not cached and holds the small
  objects \<open>xs\<close>, whose keys are distinct and contain no zero byte (which ends the comparison of keys), \<^verbatim>\<open>insertChunk\<close> succeeds, the chunk is found by its identifier and is not
  marked as removed, and every object is found by its key, as a sealed one, in this chunk, at its offset and with its bytes.
\<close>

theorem reconstructed_chunk_found:
  assumes new: "um_find md_equal (dm_cache dm) (md_set l s c) = None"
    and chunk: "h < length (dm_store dm)" and holds: "chunk_holds cs (dm_store dm ! h) 0 xs" and ob: "chunk_objects cs xs"
  shows "\<exists>dm'. dm_insertChunk cs dm l s c h False = Some (True, dm')
    \<and> dm_findChunkById dm' l s c = Some h \<and> \<not> dm_findRemovedChunk dm' l s c
    \<and> (\<forall>i<length xs. \<exists>found kv. dm_findValueByKey dm' (st_key (xs ! i)) (st_keySize (xs ! i)) False = Some (True, found)
         \<and> df_isSealed found \<and> df_chunk found = Some h \<and> df_keyMetadata found = Some (index_entry cs (md_set l s c) xs i)
         \<and> df_keyValue found = Some kv \<and> take (length (st_image cs (xs ! i))) kv = st_image cs (xs ! i))"
proof -
  let ?m = "dm_store dm ! h" and ?md = "md_set l s c"
  let ?keys = "fold (\<lambda>j t. um_put key_same t (K (xs ! j)) (index_entry cs ?md xs j)) [0..<length xs] (dm_keys dm)"
  let ?dm = "dm\<lparr>dm_cache := snd (um_insert md_equal (dm_cache dm) ?md h), dm_removed := um_erase md_equal (dm_removed dm) ?md,
    dm_keys := ?keys\<rparr>"
  have run: "dm_insertChunk cs dm l s c h False = Some (True, ?dm)"
    using new chunk dm_index_from [OF holds, of 0 ?md "dm_keys dm"] ob
    by (simp add: dm_insertChunk_def um_insert_def item_at_def chunk_objects_def Let_def)
  have cache: "um_find md_equal (dm_cache ?dm) ?md = Some h"
    using new chunks.find_insert [of "dm_cache dm" ?md h ?md] by (simp add: md_set_same)
  have found: "\<exists>found kv. dm_findValueByKey ?dm (st_key (xs ! i)) (st_keySize (xs ! i)) False = Some (True, found)
         \<and> df_isSealed found \<and> df_chunk found = Some h \<and> df_keyMetadata found = Some (index_entry cs ?md xs i)
         \<and> df_keyValue found = Some kv \<and> take (length (st_image cs (xs ! i))) kv = st_image cs (xs ! i)"
    if i: "i < length xs" for i
  proof -
    let ?n = "length (st_image cs (xs ! i))" and ?o = "offsets cs xs i"
    obtain k where key: "find (\<lambda>(k, _). key_same k (K (xs ! i))) ?keys = Some (k, index_entry cs ?md xs i)"
      using find_stored [of key_same ?keys "K (xs ! i)"] find_index [OF ob _ i, of "[0..<length xs]"] i
      by (auto simp: atLeast0LessThan)
    obtain md where md: "find (\<lambda>(md, _). md_equal md ?md) (dm_cache ?dm) = Some (md, h)"
      using find_stored [OF cache] by auto
    have o: "unat (of_nat ?o :: u32) = ?o"
      using chunk_objects_nth(2) [OF ob i] unat_u32_less [of cs] by (intro unat_of_nat_eq) simp
    have "chunk_holds cs ?m 0 (take i xs @ xs ! i # drop (Suc i) xs)" using holds id_take_nth_drop [OF i] by simp
    from holds_object [OF this] have "take ?n (drop (8 + ?o) ?m) = st_image cs (xs ! i)"
      by (simp add: cu_getData_def offsets_def peek_def seg_def split: if_splits)
    moreover have "md_set (md_listId (index_entry cs ?md xs i)) (md_stripeId (index_entry cs ?md xs i))
        (md_chunkId (index_entry cs ?md xs i)) = ?md" by (simp add: index_entry_def md_set_def)
    ultimately show ?thesis
      using key md chunk o
      by (simp add: dm_findValueByKey_def K_def [symmetric] item_at_def Let_def index_entry_def)
  qed
  have "um_find md_equal (dm_removed ?dm) ?md = None" by (simp add: chunks.find_erase md_set_same)
  then show ?thesis
    using run cache found by (intro exI [of _ ?dm]) (simp add: dm_findChunkById_def dm_findRemovedChunk_def)
qed

theorem reconstructed_chunk_found_witness:
  "\<exists>dm' found. dm_insertChunk 16 (dm_new\<lparr>dm_store := [sealed_chunk 16 demo_objects]\<rparr>) 1 2 0 0 False = Some (True, dm')
    \<and> dm_findValueByKey dm' [98] 1 False = Some (True, found) \<and> df_isSealed found"
proof -
  let ?dm = "dm_new\<lparr>dm_store := [sealed_chunk 16 demo_objects]\<rparr>"
  have new: "um_find md_equal (dm_cache ?dm) (md_set 1 2 0) = None" "0 < length (dm_store ?dm)"
    by (simp_all add: dm_new_def um_find_def)
  have holds: "chunk_holds 16 (dm_store ?dm ! 0) 0 demo_objects" using demo_objects_ok by simp
  obtain dm' where run: "dm_insertChunk 16 ?dm 1 2 0 0 False = Some (True, dm')"
    and found: "\<forall>i<length demo_objects. \<exists>found kv.
      dm_findValueByKey dm' (st_key (demo_objects ! i)) (st_keySize (demo_objects ! i)) False = Some (True, found)
         \<and> df_isSealed found \<and> df_chunk found = Some 0 \<and> df_keyMetadata found = Some (index_entry 16 (md_set 1 2 0) demo_objects i)
         \<and> df_keyValue found = Some kv \<and> take (length (st_image 16 (demo_objects ! i))) kv = st_image 16 (demo_objects ! i)"
    using reconstructed_chunk_found [OF new holds demo_objects_ok(1)] by blast
  from found [rule_format, of 1] show ?thesis using run by (auto simp: demo_objects_def)
qed

end
