(* ===== verification/DegradedParity.thy ===== *)
theory DegradedParity
  imports DegradedState
begin

unbundle bit_operations_syntax

text \<open>
  A parity chunk that was reconstructed at another server receives the same deltas as the parity server would
  have; under every sequence of updates the two copies stay equal.
\<close>

definition valid_update :: "u32 \<Rightarrow> u32 \<Rightarrow> u32 \<times> u32 \<times> u32 \<times> byte list \<Rightarrow> bool" where
  "valid_update cs k upd = (case upd of (c, off, sz, delta) \<Rightarrow>
     c < k \<and> unat off + unat sz \<le> unat cs \<and> unat sz \<le> length delta)"

definition parity_updates ::
  "encoder \<Rightarrow> u32 \<Rightarrow> u32 \<Rightarrow> (nat \<Rightarrow> nat \<Rightarrow> nat) \<Rightarrow> u32 \<Rightarrow> (u32 \<times> u32 \<times> u32 \<times> byte list) list
     \<Rightarrow> ParityChunkBuffer \<times> Server \<Rightarrow> (ParityChunkBuffer \<times> Server) option" where
  "parity_updates enc cs k rnd s =
     foldM (\<lambda>(c, off, sz, delta) (pb, se). pb_updateDelta enc cs k rnd pb se s c off sz delta False)"

definition degraded_updates ::
  "encoder \<Rightarrow> u32 \<Rightarrow> u32 \<Rightarrow> u32 \<Rightarrow> u32 \<Rightarrow> u32 \<Rightarrow> (u32 \<times> u32 \<times> u32 \<times> byte list) list
     \<Rightarrow> DegradedMap \<Rightarrow> DegradedMap option" where
  "degraded_updates enc cs k l s u = foldM (\<lambda>(c, off, sz, delta) dm. dg_update enc cs k dm l s c u off sz delta)"

definition cached_parity :: "u32 \<Rightarrow> DegradedMap \<Rightarrow> u32 \<Rightarrow> u32 \<Rightarrow> u32 \<Rightarrow> nat \<Rightarrow> bool" where
  "cached_parity cs dm l s u h \<longleftrightarrow> um_find md_equal (dm_cache dm) (md_set l s u) = Some h
     \<and> h < length (dm_store dm) \<and> chunk_ok (unat cs) (dm_store dm ! h)"

context delta_encoder
begin

lemma update_both:
  assumes ready: "parity_ready cs k index pb se s w" and cached: "cached_parity cs dm l s (pb_chunkId pb) h"
    and upd: "valid_update cs k (c, off, sz, delta)"
    and same: "\<And>b. b < unat cs \<Longrightarrow> dbyte (dm_store dm ! h) b = parity_byte se w b"
  shows "\<exists>m m'. pb_updateDelta enc cs k rnd pb se s c off sz delta False = Some (pb, set_mem m se)
    \<and> length m = length (se_mem se)
    \<and> dg_update enc cs k dm l s c (pb_chunkId pb) off sz delta = Some (dm\<lparr>dm_store := (dm_store dm)[h := m']\<rparr>)
    \<and> chunk_ok (unat cs) m' \<and> (\<forall>b<unat cs. dbyte m' b = parity_byte (set_mem m se) w b)"
proof -
  from upd have c: "c < k" and r: "unat off + unat sz \<le> unat cs" and len: "unat sz \<le> length delta"
    by (simp_all add: valid_update_def)
  let ?bs = "take (unat sz) delta"
  have n: "length ?bs = unat sz" using len by simp
  obtain D where D: "poke (empty_chunk cs) (8 + unat off) ?bs = Some D" "chunk_ok (unat cs) D"
    "\<And>b. b < unat cs \<Longrightarrow> dbyte D b = (if unat off \<le> b \<and> b < unat off + unat sz then ?bs ! (b - unat off) else 0)"
    using placed_bytes [of "unat off" ?bs cs] r unfolding n by blast
  have zero: "dbyte D b = 0" if "b < unat cs" "\<not> (unat off \<le> b \<and> b < unat off + unat sz)" for b using that D(3) by auto
  have nb: "no_backup None pb s" by (simp add: no_backup_def)
  obtain m where m: "pb_update enc cs k rnd pb se s c off sz D False False None
      = Some (pb\<lparr>pb_chunks := (pb_chunks pb)(s \<mapsto> w)\<rparr>, set_mem m se, None)"
    and lm: "length m = length (se_mem se)"
    and bytes: "\<And>b. b < unat cs \<Longrightarrow> m ! (pw_chunk w + 8 + b) = parity_byte se w b XOR image (unat c) (dbyte D) b"
    using update_adds [OF ready c D(2) zero r nb, of rnd False] by auto
  have w: "pb_chunks pb s = Some w" and ix: "unat (pb_chunkId pb - k + 1) = index" and kcs: "unat k * unat cs < 2 ^ 32"
    using ready by (simp_all add: parity_ready_def)
  have same_pb: "pb\<lparr>pb_chunks := (pb_chunks pb)(s \<mapsto> w)\<rparr> = pb"
    using w by (simp add: fun_upd_idem)
  have run1: "pb_updateDelta enc cs k rnd pb se s c off sz delta False = Some (pb, set_mem m se)"
    using m len D(1) by (simp add: pb_updateDelta_def same_pb)
  have "unat c < unat k" using c by (simp add: word_less_nat_alt)
  from encodes [OF this D(2) zero, of "unat off" "unat sz"] obtain q where
    q: "enc ((replicate (unat k) (empty_chunk cs))[unat c := D]) (empty_chunk cs) index
          (unat off + unat c * unat cs) (unat off + unat c * unat cs + unat sz) = Some q"
      "chunk_ok (unat cs) q" "\<And>b. b < unat cs \<Longrightarrow> dbyte q b = image (unat c) (dbyte D) b" by blast
  have pos: "unat (off + c * cs) = unat off + unat c * unat cs" "unat (off + c * cs + sz) = unat off + unat c * unat cs + unat sz"
    using position_u32 [OF c kcs r] by simp_all
  have h: "um_find md_equal (dm_cache dm) (md_set l s (pb_chunkId pb)) = Some h" "h < length (dm_store dm)"
    "chunk_ok (unat cs) (dm_store dm ! h)" using cached by (simp_all add: cached_parity_def)
  have "0 + 8 + unat cs \<le> length (dm_store dm ! h)" using h(3) by (simp add: chunk_ok_def)
  from parity_xor [OF this q(2)] obtain m' where
    m': "bitwiseXOR_self (dm_store dm ! h) 8 q 8 cs = Some m'" "length m' = length (dm_store dm ! h)"
    "\<And>b. b < unat cs \<Longrightarrow> m' ! (8 + b) = dm_store dm ! h ! (8 + b) XOR dbyte q b"
    by (auto simp: cu_getData_def)
  have run2: "dg_update enc cs k dm l s c (pb_chunkId pb) off sz delta = Some (dm\<lparr>dm_store := (dm_store dm)[h := m']\<rparr>)"
    using len D(1) c q(1) h(1,2) m'(1) by (simp add: dg_update_def ix pos item_at_def)
  have "dbyte m' b = parity_byte (set_mem m se) w b" if b: "b < unat cs" for b
    using m'(3) [OF b] q(3) [OF b] same [OF b] bytes [OF b] by (simp add: dbyte_def parity_byte_def set_mem_def se_mem_def)
  moreover have "chunk_ok (unat cs) m'" using m'(2) h(3) by (simp add: chunk_ok_def)
  ultimately show ?thesis using run1 run2 lm by blast
qed

lemma updates_both:
  assumes u: "pb_chunkId pb = u"
  shows "\<forall>upd\<in>set us. valid_update cs k upd \<Longrightarrow> parity_ready cs k index pb se s w \<Longrightarrow> cached_parity cs dm l s u h \<Longrightarrow>
    (\<forall>b<unat cs. dbyte (dm_store dm ! h) b = parity_byte se w b) \<Longrightarrow>
    \<exists>se' dm'. parity_updates enc cs k rnd s us (pb, se) = Some (pb, se') \<and> degraded_updates enc cs k l s u us dm = Some dm'
      \<and> cached_parity cs dm' l s u h \<and> (\<forall>b<unat cs. dbyte (dm_store dm' ! h) b = parity_byte se' w b)"
proof (induction us arbitrary: se dm)
  case Nil
  then show ?case by (simp add: parity_updates_def degraded_updates_def)
next
  case (Cons upd us)
  obtain c off sz delta where upd: "upd = (c, off, sz, delta)" by (cases upd)
  have "valid_update cs k (c, off, sz, delta)" using Cons.prems(1) upd by simp
  from update_both [OF Cons.prems(2) _ this, of dm l h rnd] Cons.prems(3,4) u obtain m m' where
    step: "pb_updateDelta enc cs k rnd pb se s c off sz delta False = Some (pb, set_mem m se)" "length m = length (se_mem se)"
      "dg_update enc cs k dm l s c u off sz delta = Some (dm\<lparr>dm_store := (dm_store dm)[h := m']\<rparr>)"
      "chunk_ok (unat cs) m'" "\<forall>b<unat cs. dbyte m' b = parity_byte (set_mem m se) w b" by auto
  let ?dm = "dm\<lparr>dm_store := (dm_store dm)[h := m']\<rparr>"
  have cached: "cached_parity cs ?dm l s u h" and m': "dm_store ?dm ! h = m'"
    using Cons.prems(3) step(4) by (simp_all add: cached_parity_def)
  have ready: "parity_ready cs k index pb (set_mem m se) s w"
    using Cons.prems(2) step(2) by (simp add: parity_ready_def set_mem_def se_mem_def)
  obtain se' dm' where "parity_updates enc cs k rnd s us (pb, set_mem m se) = Some (pb, se')"
    "degraded_updates enc cs k l s u us ?dm = Some dm'" "cached_parity cs dm' l s u h"
    "\<forall>b<unat cs. dbyte (dm_store dm' ! h) b = parity_byte se' w b"
    using Cons.IH [OF _ ready cached] Cons.prems(1) step(5) m' by auto
  then show ?case using step(1,3) by (simp add: upd parity_updates_def degraded_updates_def)
qed

end

text \<open>
  C11. A reconstructed parity chunk stays equal to the original: if the parity chunk in the degraded chunk
  buffer of another server has the bytes of the parity server's chunk, then after any sequence of updates to data chunks of
  the stripe, in range, applied at both by \<^verbatim>\<open>update\<close> of the two buffers, with either parity of RDP, both
  have succeeded and the bytes are equal again.
\<close>

theorem degraded_parity_follows:
  assumes "rdp_ok r" and "rdp_chunkSize r = unat cs" and "rdp_k r = unat k" and "index = 1 \<or> index = 2"
    and "parity_ready cs k index pb se s w" and "cached_parity cs dm l s (pb_chunkId pb) h"
    and "\<forall>b<unat cs. dbyte (dm_store dm ! h) b = parity_byte se w b" and "\<forall>upd\<in>set us. valid_update cs k upd"
  shows "\<exists>se' dm'. parity_updates (rdp_encode r) cs k rnd s us (pb, se) = Some (pb, se')
    \<and> degraded_updates (rdp_encode r) cs k l s (pb_chunkId pb) us dm = Some dm'
    \<and> (\<forall>b<unat cs. dbyte (dm_store dm' ! h) b = parity_byte se' w b)"
  using delta_encoder.updates_both [OF rdp_delta_encoder [OF assms(1-4)] refl assms(8,5,6,7), of rnd] by blast

theorem degraded_parity_follows_witness:
  "\<exists>se' dm'. parity_updates (rdp_encode demo_rdp) 16 2 (\<lambda>_ _. 0) 4 [(1, 3, 2, [7, 9]), (0, 0, 1, [5])] (demo_parity, demo_server)
      = Some (demo_parity, se')
    \<and> degraded_updates (rdp_encode demo_rdp) 16 2 0 4 3 [(1, 3, 2, [7, 9]), (0, 0, 1, [5])]
        (dm_new\<lparr>dm_cache := [(md_set 0 4 3, 0)], dm_store := [empty_chunk 16]\<rparr>) = Some dm'
    \<and> (\<forall>b<16. dbyte (dm_store dm' ! 0) b = se_mem se' ! (8 + b))"
proof -
  let ?w = "\<lparr>pw_pending = [True, True], pw_chunk = 0\<rparr>" and ?us = "[(1, 3, 2, [7, 9]), (0, 0, 1, [5])] :: (u32 \<times> u32 \<times> u32 \<times> byte list) list"
  let ?dm = "dm_new\<lparr>dm_cache := [(md_set 0 4 3, 0)], dm_store := [empty_chunk 16]\<rparr>"
  have ready: "parity_ready 16 2 2 demo_parity demo_server 4 ?w"
    by (simp add: parity_ready_def demo_parity_def demo_server_def se_mem_def)
  have u: "pb_chunkId demo_parity = 3" by (simp add: demo_parity_def)
  have cached: "cached_parity 16 ?dm 0 4 (pb_chunkId demo_parity) 0"
    by (simp add: u cached_parity_def um_find_def md_set_same chunk_ok_def empty_chunk_def)
  have same: "\<forall>b<unat (16 :: u32). dbyte (dm_store ?dm ! 0) b = parity_byte demo_server ?w b"
    by (simp add: empty_chunk_def dbyte_def parity_byte_def demo_server_def se_mem_def)
  have valid: "\<forall>upd\<in>set ?us. valid_update 16 2 upd" by (simp add: valid_update_def)
  from degraded_parity_follows [OF demo_rdp_ok _ ready cached same valid, of "\<lambda>_ _. 0"] show ?thesis
    by (simp add: u parity_byte_def)
qed

end
