(* ===== verification/ClientTransit.thy ===== *)
theory ClientTransit
  imports StateTransit StripeList
begin

text \<open>
  State transitions at a client, \<^verbatim>\<open>client/state_transit/state_transit_handler.{hh,cc}\<close>, with the parts of
  \<^verbatim>\<open>client/worker\<close> and \<^verbatim>\<open>client/main/client.cc\<close> that count what a server has to wait for, and the handler of
  a server, \<^verbatim>\<open>server/state_transit\<close>. A socket is its instance id and address; no two have the same address. An
  operation on the counters holds their lock and is one step.
\<close>

section \<open>The counters of one server\<close>

record StateTransitInfo =
  ti_parityRevert :: u32
  ti_requestIds :: "u32 set"
  ti_completed :: bool

definition ti_new :: StateTransitInfo where
  "ti_new = \<lparr>ti_parityRevert = 0, ti_requestIds = {}, ti_completed = False\<rparr>"

definition incrementParityRevertCounter :: "u32 \<Rightarrow> StateTransitInfo \<Rightarrow> u32 \<times> StateTransitInfo" where
  "incrementParityRevertCounter inc ti = (ti_parityRevert ti + inc, ti\<lparr>ti_parityRevert := ti_parityRevert ti + inc\<rparr>)"

definition decrementParityRevertCounter :: "u32 \<Rightarrow> StateTransitInfo \<Rightarrow> u32 \<times> StateTransitInfo" where
  "decrementParityRevertCounter dec ti = (ti_parityRevert ti - dec, ti\<lparr>ti_parityRevert := ti_parityRevert ti - dec\<rparr>)"

definition getPendingRequestCount :: "StateTransitInfo \<Rightarrow> u32" where
  "getPendingRequestCount ti = of_nat (card (ti_requestIds ti))"

definition addPendingRequest :: "u32 \<Rightarrow> StateTransitInfo \<Rightarrow> u32 \<times> StateTransitInfo" where
  "addPendingRequest requestId ti =
     (let ti = ti\<lparr>ti_requestIds := insert requestId (ti_requestIds ti)\<rparr> in (getPendingRequestCount ti, ti))"

definition removePendingRequest :: "u32 \<Rightarrow> StateTransitInfo \<Rightarrow> u32 \<times> StateTransitInfo" where
  "removePendingRequest requestId ti =
     (let ti = ti\<lparr>ti_requestIds := ti_requestIds ti - {requestId}\<rparr> in (getPendingRequestCount ti, ti))"

definition isPendingRequest :: "u32 \<Rightarrow> StateTransitInfo \<Rightarrow> bool" where
  "isPendingRequest requestId ti \<longleftrightarrow> requestId \<in> ti_requestIds ti"

definition setCompleted :: "bool \<Rightarrow> StateTransitInfo \<Rightarrow> bool \<times> StateTransitInfo" where
  "setCompleted force ti = (let c = force \<or> ti_requestIds ti = {} in (c, ti\<lparr>ti_completed := c\<rparr>))"

definition unsetCompleted :: "bool \<Rightarrow> StateTransitInfo \<Rightarrow> bool \<times> StateTransitInfo" where
  "unsetCompleted force ti = (let c = \<not> force \<and> ti_requestIds ti \<noteq> {} in (c, ti\<lparr>ti_completed := c\<rparr>))"

section \<open>The handler\<close>

text \<open>\<open>cl_locks\<close>: the servers with an entry in the table of locks; \<open>cl_sent\<close>: the messages to the coordinator.\<close>

record ClientTransit =
  cl_states :: states
  cl_info :: "sockaddr_in \<rightharpoonup> StateTransitInfo"
  cl_locks :: "sockaddr_in set"
  cl_sent :: "byte list list"

text \<open>\<^verbatim>\<open>stateTransitInfo[ server ]\<close> inserts a missing entry.\<close>

definition get_info :: "ClientTransit \<Rightarrow> sockaddr_in \<Rightarrow> StateTransitInfo" where
  "get_info cl s = (case cl_info cl s of Some ti \<Rightarrow> ti | None \<Rightarrow> ti_new)"

definition put_info :: "sockaddr_in \<Rightarrow> StateTransitInfo \<Rightarrow> ClientTransit \<Rightarrow> ClientTransit" where
  "put_info s ti cl = cl\<lparr>cl_info := (cl_info cl)(s \<mapsto> ti)\<rparr>"

definition cl_addAliveServer :: "ClientTransit \<Rightarrow> sockaddr_in \<Rightarrow> bool \<times> ClientTransit" where
  "cl_addAliveServer cl s =
     (if cl_states cl s \<noteq> None then (False, cl)
      else (True, cl\<lparr>cl_states := (cl_states cl)(s \<mapsto> STATE_NORMAL), cl_info := (cl_info cl)(s \<mapsto> ti_new)\<rparr>))"

definition cl_removeAliveServer :: "ClientTransit \<Rightarrow> sockaddr_in \<Rightarrow> bool \<times> ClientTransit" where
  "cl_removeAliveServer cl s =
     (if cl_states cl s = None then (False, cl)
      else (True, cl\<lparr>cl_states := (cl_states cl)(s := None), cl_info := (cl_info cl)(s := None)\<rparr>))"

definition cl_useCoordinatedFlow :: "ClientTransit \<Rightarrow> sockaddr_in \<Rightarrow> bool" where
  "cl_useCoordinatedFlow cl s = (case cl_states cl s of None \<Rightarrow> False | Some st \<Rightarrow> st \<noteq> STATE_NORMAL)"

definition cl_allowRemapping :: "ClientTransit \<Rightarrow> sockaddr_in \<Rightarrow> bool" where
  "cl_allowRemapping cl s = (case cl_states cl s of
     None \<Rightarrow> False
   | Some st \<Rightarrow> st = STATE_INTERMEDIATE \<or> st = STATE_WAIT_DEGRADED \<or> st = STATE_DEGRADED)"

definition cl_acceptNormalResponse :: "ClientTransit \<Rightarrow> sockaddr_in \<Rightarrow> bool" where
  "cl_acceptNormalResponse cl s = (case cl_states cl s of
     None \<Rightarrow> True
   | Some st \<Rightarrow> st = STATE_UNDEFINED \<or> st = STATE_NORMAL \<or> st = STATE_COORDINATED \<or> st = STATE_WAIT_NORMAL \<or> st = STATE_INTERMEDIATE)"

section \<open>Acknowledging a transition\<close>

definition sendStateToCoordinator :: "ClientTransit \<Rightarrow> sockaddr_in list \<Rightarrow> memory \<Rightarrow> ClientTransit option" where
  "sendStateToCoordinator cl servers buf =
     (if servers = [] \<or> 255 < length servers \<or> MAX_MESSLEN < length servers * serverStateRecordSize + 1 then Some cl
      else do { (msg, states) \<leftarrow> sendState (cl_states cl) servers buf;
                Some (cl\<lparr>cl_states := states, cl_sent := cl_sent cl @ [msg]\<rparr>) })"

text \<open>\<open>known\<close>: the ids \<^verbatim>\<open>Pending::findKeyValue\<close> finds, which are those of pending SET requests of applications.\<close>

definition checkAckForServer :: "u32 set \<Rightarrow> ClientTransit \<Rightarrow> sockaddr_in \<Rightarrow> bool \<times> ClientTransit" where
  "checkAckForServer known cl s =
     (let (st, states) = read_state (cl_states cl) s;
          cl = cl\<lparr>cl_states := states, cl_locks := insert s (cl_locks cl)\<rparr>;
          ti = get_info cl s in
      if st = STATE_NORMAL then (False, cl)
      else if st = STATE_INTERMEDIATE \<and> (0 < ti_parityRevert ti \<or> \<not> ti_completed ti)
      then (False, put_info s (ti\<lparr>ti_requestIds := ti_requestIds ti \<inter> known\<rparr>) cl)
      else if st = STATE_INTERMEDIATE then (True, (put_info s ti cl)\<lparr>cl_states := states(s \<mapsto> STATE_WAIT_DEGRADED)\<rparr>)
      else if st = STATE_COORDINATED then (True, cl\<lparr>cl_states := states(s \<mapsto> STATE_WAIT_NORMAL)\<rparr>)
      else (False, cl))"

definition ackTransit :: "u32 set \<Rightarrow> memory \<Rightarrow> ClientTransit \<Rightarrow> sockaddr_in \<Rightarrow> ClientTransit option" where
  "ackTransit known buf cl s =
     (if s \<notin> cl_locks cl then Some cl
      else case checkAckForServer known cl s of
        (True, cl) \<Rightarrow> sendStateToCoordinator cl [s] buf
      | (False, cl) \<Rightarrow> Some cl)"

text \<open>Without an address all servers are tested, in the order \<open>order\<close> of the hash table.\<close>

definition check_all :: "u32 set \<Rightarrow> sockaddr_in list \<Rightarrow> ClientTransit \<Rightarrow> sockaddr_in list \<times> ClientTransit" where
  "check_all known order cl =
     fold (\<lambda>s (acks, cl). case checkAckForServer known cl s of (r, cl) \<Rightarrow> (if r then acks @ [s] else acks, cl)) order ([], cl)"

definition ackTransitAll :: "u32 set \<Rightarrow> memory \<Rightarrow> sockaddr_in list \<Rightarrow> ClientTransit \<Rightarrow> ClientTransit option" where
  "ackTransitAll known buf order cl =
     (case check_all known order cl of (acks, cl) \<Rightarrow> if acks = [] then Some cl else sendStateToCoordinator cl acks buf)"

section \<open>Requests that are pending when a transition starts\<close>

record ServerSocket =
  sk_instanceId :: u16
  sk_addr :: sockaddr_in

text \<open>One pending request at a server: the id of the application's request, and its key.\<close>

type_synonym pending_request = "u32 \<times> byte list \<times> u8"

definition is_parity_list :: "ServerSocket StripeList \<Rightarrow> nat \<Rightarrow> ServerSocket \<Rightarrow> nat \<Rightarrow> bool option" where
  "is_parity_list sl parityChunkCount target i =
     foldM (\<lambda>j found. if found then Some True
                        else do { s \<leftarrow> sl_get_chunk sl i (j + sl_k sl); Some (s = Some target) }) [0..<parityChunkCount] False"

definition gather_one ::
  "ServerSocket StripeList \<Rightarrow> nat \<Rightarrow> ServerSocket \<Rightarrow> pending_request \<Rightarrow> ClientTransit \<times> bool \<times> u32 list
     \<Rightarrow> (ClientTransit \<times> bool \<times> u32 list) option" where
  "gather_one sl parityChunkCount target = (\<lambda>(requestId, key, keySize) (cl, hasPending, outdated).
     do { (listId, _, dataServer, _, _) \<leftarrow> sl_get_key sl key keySize;
          ds \<leftarrow> dataServer;
          if sk_instanceId target = sk_instanceId ds then Some (cl, hasPending, List.insert requestId outdated)
          else do { mine \<leftarrow> is_parity_list sl parityChunkCount target listId;
                    if \<not> mine then Some (cl, hasPending, outdated)
                    else if cl_useCoordinatedFlow cl (sk_addr ds) then Some (cl, hasPending, outdated)
                    else do { ti \<leftarrow> cl_info cl (sk_addr target);
                              Some (put_info (sk_addr target) (snd (addPendingRequest requestId ti)) cl, True, outdated) } } })"

text \<open>A request that is done with; the last one completes the wait.\<close>

definition drop_request :: "u32 \<Rightarrow> StateTransitInfo \<Rightarrow> StateTransitInfo" where
  "drop_request requestId ti =
     (let (n, ti) = removePendingRequest requestId ti in if n = 0 then snd (setCompleted False ti) else ti)"

text \<open>\<open>pend\<close>: the pending SET, UPDATE and DELETE requests at the servers, in the order of the three tables.\<close>

definition gatherPendingNormalRequests ::
  "ServerSocket StripeList \<Rightarrow> nat \<Rightarrow> pending_request list \<Rightarrow> ClientTransit \<Rightarrow> ServerSocket \<Rightarrow> ClientTransit option" where
  "gatherPendingNormalRequests sl parityChunkCount pend cl target =
     (let s = sk_addr target; cl = put_info s (get_info cl s) cl in
      do { (cl, hasPending, outdated) \<leftarrow> foldM (gather_one sl parityChunkCount target) pend (cl, False, []);
           let cl = (if hasPending then cl else put_info s (snd (setCompleted False (get_info cl s))) cl);
           Some (cl\<lparr>cl_info := (\<lambda>a. if a = s then cl_info cl a else map_option (fold drop_request outdated) (cl_info cl a))\<rparr>) })"

text \<open>
  What \<^verbatim>\<open>Client::revertDelta\<close> does to the counters of the target: SET requests that were answered to the
  application at once (\<open>replied\<close>) need not be waited for, and every other server in normal state gets a revert request.
\<close>

definition revertDelta :: "ServerSocket list \<Rightarrow> u32 list \<Rightarrow> ClientTransit \<Rightarrow> ServerSocket \<Rightarrow> ClientTransit option" where
  "revertDelta servers replied cl target =
     do { let s = sk_addr target;
          ti \<leftarrow> (if replied = [] then Some (get_info cl s) else cl_info cl s);
          let ti = fold (\<lambda>requestId ti. snd (removePendingRequest requestId ti)) replied ti;
          let ti = (if replied = [] then ti else snd (setCompleted False ti));
          let others = filter (\<lambda>p. p \<noteq> target \<and> \<not> cl_useCoordinatedFlow cl (sk_addr p)) servers;
          Some (put_info s (fold (\<lambda>_ ti. snd (incrementParityRevertCounter 1 ti)) others ti) cl) }"

section \<open>The handler of a server\<close>

text \<open>A server only records the states it is told, for the peers it knows.\<close>

definition sv_setState :: "ServerSocket list \<Rightarrow> memory \<Rightarrow> states \<Rightarrow> states option" where
  "sv_setState peers msg states =
     do { rs \<leftarrow> message_records msg;
          Some (fold (\<lambda>(s, b) st. if st s \<noteq> None \<and> s \<in> sk_addr ` set peers then st(s \<mapsto> state_of_byte b) else st) rs states) }"

definition sv_addAliveServer :: "states \<Rightarrow> sockaddr_in \<Rightarrow> bool \<times> states" where
  "sv_addAliveServer st s = (if st s \<noteq> None then (False, st) else (True, st(s \<mapsto> STATE_NORMAL)))"

definition sv_removeAliveServer :: "states \<Rightarrow> sockaddr_in \<Rightarrow> bool \<times> states" where
  "sv_removeAliveServer st s = (if st s = None then (False, st) else (True, st(s := None)))"

definition sv_useCoordinatedFlow :: "states \<Rightarrow> sockaddr_in \<Rightarrow> bool" where
  "sv_useCoordinatedFlow st s = (case st s of None \<Rightarrow> False | Some st \<Rightarrow> st \<noteq> STATE_NORMAL)"

end
