(* ===== verification/ClientRun.thy ===== *)
theory ClientRun
  imports ClientTransit
begin

text \<open>
  A client while the states of servers change: the thread that reads the messages of the coordinator
  (\<^verbatim>\<open>ClientStateTransitHandler::setState\<close>), the worker threads that handle the responses of servers
  (\<^verbatim>\<open>client/worker/server_worker.cc\<close>), and the thread that acknowledges in the background, as steps between which the
  other threads run. A step is what a thread does between two operations on a lock; \<open>None\<close> means that the
  thread waits for a lock, has nothing to do, or fails. The exchange of a server's socket at the end of a recovery is not a step.
\<close>

section \<open>State\<close>

text \<open>The thread that reads messages: the records it still looks up, and then the actions of the three loops that follow.\<close>

datatype action = Change ServerSocket byte | Gather ServerSocket | Revert ServerSocket | Put sockaddr_in | Unlock sockaddr_in
  | Post sockaddr_in

datatype reader = Listening | Looking "(sockaddr_in \<times> byte) list" "(ServerSocket \<times> byte) list" | Acting "action list"

text \<open>A worker that handles a response: the flag tells a SET response from those to UPDATE and DELETE.\<close>

datatype handler = Free | Removing bool sockaddr_in u32 | Completing bool sockaddr_in | Acking sockaddr_in

record ClientSetup =
  cs_servers :: "ServerSocket list"
  cs_lists :: "ServerSocket StripeList"
  cs_parityChunkCount :: nat

text \<open>
  \<open>cr_locked\<close>: the servers whose state lock the reading thread holds. The last two fields are only there to state properties: the
  requests that a server's transition has to wait for, and the number of its revert requests without a reply.
\<close>

record ClientRun =
  cr_client :: ClientTransit
  cr_locked :: "sockaddr_in set"
  cr_reader :: reader
  cr_workers :: "nat \<Rightarrow> handler"
  cr_waiting :: "sockaddr_in \<Rightarrow> u32 set"
  cr_reverts :: "sockaddr_in \<Rightarrow> nat"

section \<open>What has to be waited for\<close>

text \<open>
  The requests a scan has to wait for: another server than the target holds the data, the target is a parity server of
  the stripe list, and the data server is in normal state. Requests whose data server is the target are not waited for by anyone.
\<close>

definition must_wait :: "ServerSocket StripeList \<Rightarrow> nat \<Rightarrow> ClientTransit \<Rightarrow> ServerSocket \<Rightarrow> pending_request \<Rightarrow> bool" where
  "must_wait sl parityChunkCount cl target = (\<lambda>(requestId, key, keySize).
     case sl_get_key sl key keySize of
       Some (listId, _, Some ds, _, _) \<Rightarrow> sk_instanceId target \<noteq> sk_instanceId ds
         \<and> is_parity_list sl parityChunkCount target listId = Some True \<and> \<not> cl_useCoordinatedFlow cl (sk_addr ds)
     | _ \<Rightarrow> False)"

definition is_own :: "ServerSocket StripeList \<Rightarrow> ServerSocket \<Rightarrow> pending_request \<Rightarrow> bool" where
  "is_own sl target = (\<lambda>(requestId, key, keySize).
     case sl_get_key sl key keySize of Some (_, _, Some ds, _, _) \<Rightarrow> sk_instanceId target = sk_instanceId ds | _ \<Rightarrow> False)"

definition awaited :: "ClientSetup \<Rightarrow> ClientTransit \<Rightarrow> ServerSocket \<Rightarrow> pending_request list \<Rightarrow> u32 set" where
  "awaited S cl target pend = fst ` set (filter (must_wait (cs_lists S) (cs_parityChunkCount S) cl target) pend)"

definition own_requests :: "ClientSetup \<Rightarrow> ServerSocket \<Rightarrow> pending_request list \<Rightarrow> u32 set" where
  "own_requests S target pend = fst ` set (filter (is_own (cs_lists S) target) pend)"

definition others_normal :: "ClientSetup \<Rightarrow> ClientTransit \<Rightarrow> ServerSocket \<Rightarrow> ServerSocket list" where
  "others_normal S cl target = filter (\<lambda>p. p \<noteq> target \<and> \<not> cl_useCoordinatedFlow cl (sk_addr p)) (cs_servers S)"

section \<open>The thread that reads messages\<close>

text \<open>
  The environment of a step: the pending requests that a scan finds, those that the revert answers at once, the ids of pending SET
  requests, the order of the hash table of states, and the uninitialised buffer for a message.
\<close>

record Env =
  en_pend :: "pending_request list"
  en_replied :: "u32 list"
  en_known :: "u32 set"
  en_order :: "sockaddr_in list"
  en_buf :: memory

definition plan :: "(ServerSocket \<times> byte) list \<Rightarrow> action list" where
  "plan us = map (\<lambda>(t, b). Change t b) us @ map (\<lambda>(t, _). Unlock (sk_addr t)) (rev us) @ map (\<lambda>(t, _). Post (sk_addr t)) (rev us)"

definition look :: "ClientSetup \<Rightarrow> sockaddr_in \<Rightarrow> byte \<Rightarrow> (sockaddr_in \<times> byte) list \<Rightarrow> (ServerSocket \<times> byte) list \<Rightarrow> ClientRun \<Rightarrow> ClientRun option" where
  "look S s b rs us c =
     (case List.find (\<lambda>p. sk_addr p = s) (cs_servers S) of
        Some t \<Rightarrow> if cl_states (cr_client c) s = None then Some (c\<lparr>cr_reader := Looking rs us\<rparr>)
                  else if s \<in> cr_locked c then None
                  else Some (c\<lparr>cr_reader := Looking rs (us @ [(t, b)]), cr_locked := insert s (cr_locked c),
                               cr_client := (cr_client c)\<lparr>cl_locks := insert s (cl_locks (cr_client c))\<rparr>\<rparr>)
      | None \<Rightarrow> Some (c\<lparr>cr_reader := Looking rs us\<rparr>))"

text \<open>One round of the second loop, up to the scan for pending requests if it needs one.\<close>

definition change :: "ServerSocket \<Rightarrow> byte \<Rightarrow> action list \<Rightarrow> ClientRun \<Rightarrow> ClientRun" where
  "change t b as c =
     (let s = sk_addr t; cl = cr_client c; signal = state_of_byte b;
          (state, states) = read_state (cl_states cl) s;
          cl = cl\<lparr>cl_states := states\<rparr>;
          put = (\<lambda>st. c\<lparr>cr_client := cl\<lparr>cl_states := states(s \<mapsto> st)\<rparr>, cr_reader := Acting as\<rparr>) in
      if \<not> printServerState signal then c\<lparr>cr_client := cl, cr_locked := cr_locked c - {s}, cr_reader := Acting as\<rparr>
      else if signal = STATE_INTERMEDIATE \<and> state = STATE_WAIT_DEGRADED then put state
      else if signal = STATE_INTERMEDIATE
      then c\<lparr>cr_client := put_info s (snd (unsetCompleted True (get_info cl s))) cl, cr_reader := Acting (Gather t # Revert t # Put s # as)\<rparr>
      else if signal = STATE_COORDINATED \<and> state = STATE_WAIT_NORMAL then put state
      else put signal)"

text \<open>The third loop. Cleaning and replaying the tables of pending requests is not part of this state.\<close>

definition all_unlocked :: "ClientRun \<Rightarrow> sockaddr_in list \<Rightarrow> bool" where
  "all_unlocked c order \<longleftrightarrow> set order = dom (cl_states (cr_client c)) \<and> distinct order \<and> set order \<inter> cr_locked c = {}"

definition ack_all :: "Env \<Rightarrow> ClientRun \<Rightarrow> ClientRun option" where
  "ack_all E c =
     (if \<not> all_unlocked c (en_order E) then None
      else do { cl \<leftarrow> ackTransitAll (en_known E) (en_buf E) (en_order E) (cr_client c); Some (c\<lparr>cr_client := cl\<rparr>) })"

definition ack_one :: "Env \<Rightarrow> sockaddr_in \<Rightarrow> ClientRun \<Rightarrow> ClientRun option" where
  "ack_one E s c =
     (if s \<in> cl_locks (cr_client c) \<and> s \<in> cr_locked c then None
      else do { cl \<leftarrow> ackTransit (en_known E) (en_buf E) (cr_client c) s; Some (c\<lparr>cr_client := cl\<rparr>) })"

definition post :: "Env \<Rightarrow> sockaddr_in \<Rightarrow> ClientRun \<Rightarrow> ClientRun option" where
  "post E s c =
     (let (state, states) = read_state (cl_states (cr_client c)) s;
          c = c\<lparr>cr_client := (cr_client c)\<lparr>cl_states := states\<rparr>\<rparr> in
      if state = STATE_INTERMEDIATE then ack_all E c else if state = STATE_COORDINATED then ack_one E s c else Some c)"

fun act :: "ClientSetup \<Rightarrow> Env \<Rightarrow> action \<Rightarrow> action list \<Rightarrow> ClientRun \<Rightarrow> ClientRun option" where
  "act S E (Change t b) as c = Some (change t b as c)"
| "act S E (Gather t) as c =
     do { cl \<leftarrow> gatherPendingNormalRequests (cs_lists S) (cs_parityChunkCount S) (en_pend E) (cr_client c) t;
          Some (c\<lparr>cr_client := cl, cr_reader := Acting as,
                  cr_waiting := (\<lambda>a. if a = sk_addr t then cr_waiting c a \<union> awaited S (cr_client c) t (en_pend E)
                                     else cr_waiting c a - own_requests S t (en_pend E))\<rparr>) }"
| "act S E (Revert t) as c =
     do { cl \<leftarrow> revertDelta (cs_servers S) (en_replied E) (cr_client c) t;
          Some (c\<lparr>cr_client := cl, cr_reader := Acting as,
                  cr_waiting := (cr_waiting c)(sk_addr t := cr_waiting c (sk_addr t) - set (en_replied E)),
                  cr_reverts := (cr_reverts c)(sk_addr t := cr_reverts c (sk_addr t) + length (others_normal S (cr_client c) t))\<rparr>) }"
| "act S E (Put s) as c =
     Some (c\<lparr>cr_client := (cr_client c)\<lparr>cl_states := (cl_states (cr_client c))(s \<mapsto> STATE_INTERMEDIATE)\<rparr>, cr_reader := Acting as\<rparr>)"
| "act S E (Unlock s) as c = Some (c\<lparr>cr_locked := cr_locked c - {s}, cr_reader := Acting as\<rparr>)"
| "act S E (Post s) as c = map_option (\<lambda>c. c\<lparr>cr_reader := Acting as\<rparr>) (post E s c)"

fun read_on :: "ClientSetup \<Rightarrow> Env \<Rightarrow> ClientRun \<Rightarrow> reader \<Rightarrow> ClientRun option" where
  "read_on S E c Listening = None"
| "read_on S E c (Looking [] us) = Some (c\<lparr>cr_reader := Acting (plan us)\<rparr>)"
| "read_on S E c (Looking ((s, b) # rs) us) = look S s b rs us c"
| "read_on S E c (Acting []) = Some (c\<lparr>cr_reader := Listening\<rparr>)"
| "read_on S E c (Acting (a # as)) = act S E a as c"

section \<open>The workers\<close>

definition set_handler :: "nat \<Rightarrow> handler \<Rightarrow> ClientRun \<Rightarrow> ClientRun" where
  "set_handler w h c = c\<lparr>cr_workers := (cr_workers c)(w := h)\<rparr>"

text \<open>
  What the response to request \<open>requestId\<close> does for one parity server \<open>s\<close> of its stripe list. For a SET nothing is tested; for UPDATE and
  DELETE the server must be out of normal state and still waiting. \<^verbatim>\<open>at\<close> throws if there is no entry.
\<close>

definition respond :: "nat \<Rightarrow> bool \<Rightarrow> sockaddr_in \<Rightarrow> u32 \<Rightarrow> ClientRun \<Rightarrow> ClientRun option" where
  "respond w isSet s requestId c =
     (if cr_workers c w \<noteq> Free then None
      else if isSet then Some (set_handler w (Removing True s requestId) c)
      else if cl_states (cr_client c) s \<noteq> None \<and> s \<in> cr_locked c then None
      else let cl = (if cl_states (cr_client c) s = None then cr_client c else (cr_client c)\<lparr>cl_locks := insert s (cl_locks (cr_client c))\<rparr>);
               c = c\<lparr>cr_client := cl\<rparr> in
           if \<not> cl_useCoordinatedFlow cl s then Some c
           else do { ti \<leftarrow> cl_info cl s;
                     Some (if ti_completed ti then c else set_handler w (Removing False s requestId) c) })"

fun continue :: "Env \<Rightarrow> nat \<Rightarrow> ClientRun \<Rightarrow> handler \<Rightarrow> ClientRun option" where
  "continue E w c Free = None"
| "continue E w c (Removing isSet s requestId) =
     do { ti \<leftarrow> cl_info (cr_client c) s;
          let (n, ti) = removePendingRequest requestId ti;
          Some (set_handler w (if n = 0 then Completing isSet s else Free)
                 (c\<lparr>cr_client := put_info s ti (cr_client c), cr_waiting := (cr_waiting c)(s := cr_waiting c s - {requestId})\<rparr>)) }"
| "continue E w c (Completing isSet s) =
     do { ti \<leftarrow> cl_info (cr_client c) s;
          let (r, ti) = setCompleted False ti;
          Some (set_handler w (if isSet \<and> \<not> r then Free else Acking s) (c\<lparr>cr_client := put_info s ti (cr_client c)\<rparr>)) }"
| "continue E w c (Acking s) = map_option (set_handler w Free) (ack_one E s c)"

text \<open>The reply of a server to a request to revert.\<close>

definition revert_acked :: "nat \<Rightarrow> sockaddr_in \<Rightarrow> ClientRun \<Rightarrow> ClientRun option" where
  "revert_acked w s c =
     (if cr_workers c w \<noteq> Free \<or> cr_reverts c s = 0 then None
      else do { ti \<leftarrow> cl_info (cr_client c) s;
                Some (set_handler w (Acking s) (c\<lparr>cr_client := put_info s (snd (decrementParityRevertCounter 1 ti)) (cr_client c),
                                                  cr_reverts := (cr_reverts c)(s := cr_reverts c s - 1)\<rparr>)) })"

section \<open>Steps and runs\<close>

datatype label = Receive memory | Read | Respond nat bool sockaddr_in u32 | Continue nat | RevertAcked nat sockaddr_in | Background

fun client_step :: "ClientSetup \<Rightarrow> Env \<Rightarrow> label \<Rightarrow> ClientRun \<Rightarrow> ClientRun option" where
  "client_step S E (Receive msg) c =
     (if cr_reader c \<noteq> Listening then None
      else do { rs \<leftarrow> message_records msg; Some (c\<lparr>cr_reader := Looking rs []\<rparr>) })"
| "client_step S E Read c = read_on S E c (cr_reader c)"
| "client_step S E (Respond w isSet s requestId) c = respond w isSet s requestId c"
| "client_step S E (Continue w) c = continue E w c (cr_workers c w)"
| "client_step S E (RevertAcked w s) c = revert_acked w s c"
| "client_step S E Background c = ack_all E c"

definition cr_start :: "sockaddr_in list \<Rightarrow> ClientRun" where
  "cr_start servers =
     \<lparr>cr_client = fold (\<lambda>s cl. snd (cl_addAliveServer cl s)) servers
        \<lparr>cl_states = Map.empty, cl_info = Map.empty, cl_locks = {}, cl_sent = []\<rparr>,
      cr_locked = {}, cr_reader = Listening, cr_workers = (\<lambda>_. Free), cr_waiting = (\<lambda>_. {}), cr_reverts = (\<lambda>_. 0)\<rparr>"

text \<open>Runs in which every step satisfies \<open>P\<close>; the last state comes first.\<close>

inductive client_run :: "ClientSetup \<Rightarrow> (Env \<Rightarrow> label \<Rightarrow> ClientRun \<Rightarrow> bool) \<Rightarrow> ClientRun list \<Rightarrow> bool" for S P where
  start: "client_run S P [cr_start servers]"
| step: "client_run S P (c # cs) \<Longrightarrow> P E l c \<Longrightarrow> client_step S E l c = Some c' \<Longrightarrow> client_run S P (c' # c # cs)"

inductive_cases client_run_last: "client_run S P (c' # c # cs)"

end
