(* ===== verification/ClientInv.thy ===== *)
theory ClientInv
  imports ClientRun
begin

text \<open>
  The invariant of a client's counters during transitions, the conditions on a run under which it holds, and its proof: what each
  operation does to the counters of each server, and that every step keeps the invariant.
\<close>

section \<open>The invariant\<close>

definition scanning :: "ClientRun \<Rightarrow> sockaddr_in \<Rightarrow> bool" where
  "scanning c s = (case cr_reader c of Acting (Gather t # _) \<Rightarrow> sk_addr t = s | _ \<Rightarrow> False)"

definition ti_ok :: "u32 set \<Rightarrow> nat \<Rightarrow> bool \<Rightarrow> StateTransitInfo \<Rightarrow> bool" where
  "ti_ok waiting reverts scan ti \<longleftrightarrow>
     waiting \<subseteq> ti_requestIds ti \<and> (ti_completed ti \<longrightarrow> ti_requestIds ti = {} \<and> \<not> scan) \<and> ti_parityRevert ti = of_nat reverts"

definition infos_ok :: "ClientRun \<Rightarrow> bool" where
  "infos_ok c \<longleftrightarrow> (\<forall>s. ti_ok (cr_waiting c s) (cr_reverts c s) (scanning c s) (get_info (cr_client c) s))"

text \<open>Only the first action may be a scan, and no record asks for the state in which a client waits.\<close>

fun phase_only :: "action \<Rightarrow> bool" where
  "phase_only (Change _ b) \<longleftrightarrow> b \<noteq> 5"
| "phase_only _ \<longleftrightarrow> True"

fun reader_ok :: "reader \<Rightarrow> bool" where
  "reader_ok Listening \<longleftrightarrow> True"
| "reader_ok (Looking rs us) \<longleftrightarrow> (\<forall>r\<in>set rs. snd r \<noteq> 5) \<and> (\<forall>u\<in>set us. snd u \<noteq> 5)"
| "reader_ok (Acting as) \<longleftrightarrow> list_all phase_only as \<and> list_all (\<lambda>a. \<forall>t. a \<noteq> Gather t) (tl as)"

text \<open>
  The conditions on a step: what is waited for is a pending SET request of an application, no worker tests for the end of the
  wait while the scan has not been done, and the coordinator does not send the state in which a client waits.
\<close>

definition requests_known :: "Env \<Rightarrow> ClientRun \<Rightarrow> bool" where
  "requests_known E c \<longleftrightarrow> (\<forall>s. cr_waiting c s \<subseteq> en_known E)"

definition scan_undisturbed :: "label \<Rightarrow> ClientRun \<Rightarrow> bool" where
  "scan_undisturbed l c \<longleftrightarrow> (case l of
     Continue w \<Rightarrow> (case cr_workers c w of Completing _ s \<Rightarrow> \<not> scanning c s | _ \<Rightarrow> True) | _ \<Rightarrow> True)"

definition phases_only :: "label \<Rightarrow> bool" where
  "phases_only l \<longleftrightarrow> (case l of
     Receive msg \<Rightarrow> (case message_records msg of Some rs \<Rightarrow> list_all (\<lambda>r. snd r \<noteq> 5) rs | None \<Rightarrow> True) | _ \<Rightarrow> True)"

definition orderly :: "Env \<Rightarrow> label \<Rightarrow> ClientRun \<Rightarrow> bool" where
  "orderly E l c \<longleftrightarrow> requests_known E c \<and> scan_undisturbed l c \<and> phases_only l"

lemmas orderly_defs = orderly_def requests_known_def scan_undisturbed_def phases_only_def

section \<open>The counters\<close>

named_theorems client

lemma get_info_put [client]: "get_info (put_info s ti cl) t = (if t = s then ti else get_info cl t)"
  by (simp add: get_info_def put_info_def)

lemma get_info_frame [client]:
  "get_info (cl\<lparr>cl_states := x\<rparr>) = get_info cl" "get_info (cl\<lparr>cl_locks := y\<rparr>) = get_info cl" "get_info (cl\<lparr>cl_sent := z\<rparr>) = get_info cl"
  by (simp_all add: get_info_def fun_eq_iff)

lemma put_info_frame [client]:
  "cl_states (put_info s ti cl) = cl_states cl" "cl_locks (put_info s ti cl) = cl_locks cl" "cl_sent (put_info s ti cl) = cl_sent cl"
  by (simp_all add: put_info_def)

lemma get_info_Some [client]: "cl_info cl s = Some ti \<Longrightarrow> get_info cl s = ti"
  by (simp add: get_info_def)

lemma snd_counters [client]:
  "snd (addPendingRequest i ti) = ti\<lparr>ti_requestIds := insert i (ti_requestIds ti)\<rparr>"
  "snd (removePendingRequest i ti) = ti\<lparr>ti_requestIds := ti_requestIds ti - {i}\<rparr>"
  "snd (setCompleted False ti) = ti\<lparr>ti_completed := (ti_requestIds ti = {})\<rparr>"
  "snd (unsetCompleted True ti) = ti\<lparr>ti_completed := False\<rparr>"
  "snd (incrementParityRevertCounter n ti) = ti\<lparr>ti_parityRevert := ti_parityRevert ti + n\<rparr>"
  "snd (decrementParityRevertCounter n ti) = ti\<lparr>ti_parityRevert := ti_parityRevert ti - n\<rparr>"
  by (simp_all add: addPendingRequest_def removePendingRequest_def setCompleted_def unsetCompleted_def
      incrementParityRevertCounter_def decrementParityRevertCounter_def Let_def)

lemma flow_cong: "cl_states cl' = cl_states cl \<Longrightarrow> cl_useCoordinatedFlow cl' = cl_useCoordinatedFlow cl"
  by (simp add: cl_useCoordinatedFlow_def fun_eq_iff)

lemma drop_request_spec:
  assumes "ti_completed ti \<longrightarrow> ti_requestIds ti = {}"
  shows "ti_requestIds (drop_request i ti) = ti_requestIds ti - {i}" "ti_parityRevert (drop_request i ti) = ti_parityRevert ti"
    "ti_completed (drop_request i ti) \<longrightarrow> ti_requestIds (drop_request i ti) = {}"
  using assms by (auto simp: drop_request_def removePendingRequest_def setCompleted_def Let_def)

lemma drop_requests_spec:
  assumes "ti_completed ti \<longrightarrow> ti_requestIds ti = {}"
  shows "ti_requestIds (fold drop_request ids ti) = ti_requestIds ti - set ids"
    "ti_parityRevert (fold drop_request ids ti) = ti_parityRevert ti"
    "ti_completed (fold drop_request ids ti) \<longrightarrow> ti_requestIds (fold drop_request ids ti) = {}"
proof -
  have "ti_requestIds (fold drop_request ids ti) = ti_requestIds ti - set ids \<and>
      ti_parityRevert (fold drop_request ids ti) = ti_parityRevert ti \<and>
      (ti_completed (fold drop_request ids ti) \<longrightarrow> ti_requestIds (fold drop_request ids ti) = {})"
    using assms
  proof (induction ids arbitrary: ti)
    case (Cons i ids)
    show ?case using Cons.IH [OF drop_request_spec(3) [OF Cons.prems]] drop_request_spec [OF Cons.prems, of i] by auto
  qed simp
  then show "ti_requestIds (fold drop_request ids ti) = ti_requestIds ti - set ids"
    "ti_parityRevert (fold drop_request ids ti) = ti_parityRevert ti"
    "ti_completed (fold drop_request ids ti) \<longrightarrow> ti_requestIds (fold drop_request ids ti) = {}" by blast+
qed

section \<open>The scan\<close>

lemma gather_one_spec:
  assumes run: "gather_one sl pc target r (cl, h, out) = Some (cl', h', out')"
  shows "get_info cl' s = (if s = sk_addr target \<and> must_wait sl pc cl target r
      then (get_info cl s)\<lparr>ti_requestIds := insert (fst r) (ti_requestIds (get_info cl s))\<rparr> else get_info cl s)"
    "cl_states cl' = cl_states cl" "h' \<longleftrightarrow> h \<or> must_wait sl pc cl target r" "set out' = set out \<union> (if is_own sl target r then {fst r} else {})"
proof -
  obtain requestId key keySize where r: "r = (requestId, key, keySize)" by (cases r) auto
  obtain listId x ds y z where key: "sl_get_key sl key keySize = Some (listId, x, Some ds, y, z)"
    using run unfolding gather_one_def r by (auto split: bind_splits option.splits)
  show "get_info cl' s = (if s = sk_addr target \<and> must_wait sl pc cl target r
      then (get_info cl s)\<lparr>ti_requestIds := insert (fst r) (ti_requestIds (get_info cl s))\<rparr> else get_info cl s)"
    "cl_states cl' = cl_states cl" "h' \<longleftrightarrow> h \<or> must_wait sl pc cl target r" "set out' = set out \<union> (if is_own sl target r then {fst r} else {})"
    using run
    by (auto simp: gather_one_def r key must_wait_def is_own_def client split: if_splits bind_splits)
qed

lemma gather_cong:
  assumes "cl_states cl' = cl_states cl"
  shows "must_wait sl pc cl' target = must_wait sl pc cl target"
  by (auto simp: must_wait_def fun_eq_iff flow_cong [OF assms] split: prod.splits option.splits)

lemma gather_all:
  assumes "foldM (gather_one sl pc target) pend (cl, h, out) = Some (cl', h', out')"
  shows "get_info cl' s = (if s = sk_addr target
      then (get_info cl s)\<lparr>ti_requestIds := ti_requestIds (get_info cl s) \<union> fst ` set (filter (must_wait sl pc cl target) pend)\<rparr>
      else get_info cl s)"
    "cl_states cl' = cl_states cl" "h' \<longleftrightarrow> h \<or> filter (must_wait sl pc cl target) pend \<noteq> []"
    "set out' = set out \<union> fst ` set (filter (is_own sl target) pend)"
proof -
  have "get_info cl' s = (if s = sk_addr target
      then (get_info cl s)\<lparr>ti_requestIds := ti_requestIds (get_info cl s) \<union> fst ` set (filter (must_wait sl pc cl target) pend)\<rparr>
      else get_info cl s) \<and> cl_states cl' = cl_states cl \<and> (h' \<longleftrightarrow> h \<or> filter (must_wait sl pc cl target) pend \<noteq> [])
    \<and> set out' = set out \<union> fst ` set (filter (is_own sl target) pend)"
    using assms
  proof (induction pend arbitrary: cl h out)
    case (Cons r pend)
    obtain cl1 h1 out1 where one: "gather_one sl pc target r (cl, h, out) = Some (cl1, h1, out1)"
      and rest: "foldM (gather_one sl pc target) pend (cl1, h1, out1) = Some (cl', h', out')"
      using Cons.prems by (auto split: bind_splits)
    note first = gather_one_spec [OF one]
    show ?case
      using Cons.IH [OF rest] first(2-4) first(1) [of s] by (auto simp: gather_cong [OF first(2)])
  qed simp
  then show "get_info cl' s = (if s = sk_addr target
      then (get_info cl s)\<lparr>ti_requestIds := ti_requestIds (get_info cl s) \<union> fst ` set (filter (must_wait sl pc cl target) pend)\<rparr>
      else get_info cl s)"
    "cl_states cl' = cl_states cl" "h' \<longleftrightarrow> h \<or> filter (must_wait sl pc cl target) pend \<noteq> []"
    "set out' = set out \<union> fst ` set (filter (is_own sl target) pend)" by blast+
qed

text \<open>What a scan leaves in the counters, for a server whose wait is not over and for the others.\<close>

lemma gather_pending_spec:
  assumes run: "gatherPendingNormalRequests (cs_lists S) (cs_parityChunkCount S) pend cl target = Some cl'"
    and ok: "\<forall>s. ti_ok (waiting s) (reverts s) (sk_addr target = s) (get_info cl s)"
  shows "cl_states cl' = cl_states cl"
    "ti_ok (if s = sk_addr target then waiting s \<union> awaited S cl target pend else waiting s - own_requests S target pend)
       (reverts s) False (get_info cl' s)"
proof -
  let ?s = "sk_addr target" and ?cl = "put_info (sk_addr target) (get_info cl (sk_addr target)) cl"
  have same: "get_info ?cl = get_info cl" "cl_states ?cl = cl_states cl" by (simp_all add: fun_eq_iff client)
  obtain cl1 h out where scan: "foldM (gather_one (cs_lists S) (cs_parityChunkCount S) target) pend (?cl, False, []) = Some (cl1, h, out)"
    and cl': "cl' = (if h then cl1 else put_info ?s (snd (setCompleted False (get_info cl1 ?s))) cl1)
       \<lparr>cl_info := (\<lambda>a. if a = ?s then cl_info (if h then cl1 else put_info ?s (snd (setCompleted False (get_info cl1 ?s))) cl1) a
          else map_option (fold drop_request out) (cl_info (if h then cl1 else put_info ?s (snd (setCompleted False (get_info cl1 ?s))) cl1) a))\<rparr>"
    using run by (auto simp: gatherPendingNormalRequests_def Let_def split: bind_splits)
  note all = gather_all [OF scan, unfolded gather_cong [OF same(2)] same, folded awaited_def own_requests_def]
  show "cl_states cl' = cl_states cl" using all(2) by (simp add: cl' client)
  show "ti_ok (if s = sk_addr target then waiting s \<union> awaited S cl target pend else waiting s - own_requests S target pend)
       (reverts s) False (get_info cl' s)"
  proof (cases "s = ?s")
    case True
    have "get_info cl' s = (if h then get_info cl1 s else snd (setCompleted False (get_info cl1 s)))"
      by (simp add: cl' True get_info_def put_info_def)
    then show ?thesis using all(1) [of s] all(3) ok [rule_format, of s] True by (auto simp: ti_ok_def client awaited_def)
  next
    case False
    have "get_info cl' s = (case cl_info cl1 s of None \<Rightarrow> ti_new | Some ti \<Rightarrow> fold drop_request out ti)"
      using False by (auto simp: cl' get_info_def put_info_def split: option.splits)
    moreover have "get_info cl1 s = get_info cl s" "set out = own_requests S target pend" using all False by auto
    ultimately show ?thesis using ok [rule_format, of s] False drop_requests_spec [of "get_info cl s" out]
      by (auto simp: ti_ok_def get_info_def split: option.splits)
  qed
qed

section \<open>The revert and the acknowledgement\<close>

lemma remove_all:
  "fold (\<lambda>i ti. snd (removePendingRequest i ti)) ids ti = ti\<lparr>ti_requestIds := ti_requestIds ti - set ids\<rparr>"
  by (induction ids arbitrary: ti) (simp_all add: client Diff_insert2 [symmetric])

lemma increment_all:
  "fold (\<lambda>_ ti. snd (incrementParityRevertCounter 1 ti)) xs ti = ti\<lparr>ti_parityRevert := ti_parityRevert ti + of_nat (length xs)\<rparr>"
  by (induction xs arbitrary: ti) (simp_all add: client)

lemma revert_spec:
  assumes run: "revertDelta (cs_servers S) replied cl target = Some cl'"
    and ok: "\<forall>s. ti_ok (waiting s) (reverts s) False (get_info cl s)"
  shows "cl_states cl' = cl_states cl"
    "ti_ok ((waiting(sk_addr target := waiting (sk_addr target) - set replied)) s)
       ((reverts(sk_addr target := reverts (sk_addr target) + length (others_normal S cl target))) s) False (get_info cl' s)"
proof -
  let ?ti = "get_info cl (sk_addr target)"
  have cl': "cl' = put_info (sk_addr target)
     (?ti\<lparr>ti_requestIds := ti_requestIds ?ti - set replied,
          ti_completed := (if replied = [] then ti_completed ?ti else ti_requestIds ?ti - set replied = {}),
          ti_parityRevert := ti_parityRevert ?ti + of_nat (length (others_normal S cl target))\<rparr>) cl"
  proof (cases "replied = []")
    case True
    then show ?thesis using run unfolding revertDelta_def Let_def remove_all increment_all others_normal_def [symmetric] by simp
  next
    case False
    then obtain ti where ti: "cl_info cl (sk_addr target) = Some ti"
      using run by (auto simp: revertDelta_def Let_def split: bind_splits)
    show ?thesis using run False
      unfolding revertDelta_def Let_def remove_all increment_all others_normal_def [symmetric] by (simp add: ti snd_counters get_info_Some [OF ti])
  qed
  show "cl_states cl' = cl_states cl"
    "ti_ok ((waiting(sk_addr target := waiting (sk_addr target) - set replied)) s)
       ((reverts(sk_addr target := reverts (sk_addr target) + length (others_normal S cl target))) s) False (get_info cl' s)"
    using ok [rule_format, of s] by (auto simp: cl' client ti_ok_def)
qed

text \<open>
  An acknowledgement may only drop requests that are not among the known ones, and a server leaves intermediate state
  only when it is ready.
\<close>

definition acks :: "u32 set \<Rightarrow> ClientTransit \<Rightarrow> ClientTransit \<Rightarrow> bool" where
  "acks known cl cl' \<longleftrightarrow> (\<forall>s.
     (get_info cl' s = get_info cl s \<or> get_info cl' s = (get_info cl s)\<lparr>ti_requestIds := ti_requestIds (get_info cl s) \<inter> known\<rparr>) \<and>
     (getState (cl_states cl) s = STATE_INTERMEDIATE \<longrightarrow> getState (cl_states cl') s \<noteq> STATE_INTERMEDIATE \<longrightarrow>
       ti_completed (get_info cl s) \<and> ti_parityRevert (get_info cl s) = 0))"

lemma acks_refl: "get_info cl' = get_info cl \<Longrightarrow> getState (cl_states cl') = getState (cl_states cl) \<Longrightarrow> acks known cl cl'"
  by (simp add: acks_def)

lemma acks_trans: "acks known cl cl1 \<Longrightarrow> acks known cl1 cl2 \<Longrightarrow> acks known cl cl2"
  unfolding acks_def
proof (intro allI)
  fix s
  assume "\<forall>s. (get_info cl1 s = get_info cl s \<or> get_info cl1 s = (get_info cl s)\<lparr>ti_requestIds := ti_requestIds (get_info cl s) \<inter> known\<rparr>) \<and>
     (getState (cl_states cl) s = STATE_INTERMEDIATE \<longrightarrow> getState (cl_states cl1) s \<noteq> STATE_INTERMEDIATE \<longrightarrow>
       ti_completed (get_info cl s) \<and> ti_parityRevert (get_info cl s) = 0)"
    "\<forall>s. (get_info cl2 s = get_info cl1 s \<or> get_info cl2 s = (get_info cl1 s)\<lparr>ti_requestIds := ti_requestIds (get_info cl1 s) \<inter> known\<rparr>) \<and>
     (getState (cl_states cl1) s = STATE_INTERMEDIATE \<longrightarrow> getState (cl_states cl2) s \<noteq> STATE_INTERMEDIATE \<longrightarrow>
       ti_completed (get_info cl1 s) \<and> ti_parityRevert (get_info cl1 s) = 0)"
  note one = this(1) [rule_format, of s] and two = this(2) [rule_format, of s]
  have info: "get_info cl2 s = get_info cl s \<or> get_info cl2 s = (get_info cl s)\<lparr>ti_requestIds := ti_requestIds (get_info cl s) \<inter> known\<rparr>"
    using conjunct1 [OF one] conjunct1 [OF two] by (elim disjE) (simp_all add: Int_assoc)
  have same: "ti_completed (get_info cl1 s) = ti_completed (get_info cl s)" "ti_parityRevert (get_info cl1 s) = ti_parityRevert (get_info cl s)"
    using conjunct1 [OF one] by (elim disjE; simp)+
  show "(get_info cl2 s = get_info cl s \<or> get_info cl2 s = (get_info cl s)\<lparr>ti_requestIds := ti_requestIds (get_info cl s) \<inter> known\<rparr>) \<and>
     (getState (cl_states cl) s = STATE_INTERMEDIATE \<longrightarrow> getState (cl_states cl2) s \<noteq> STATE_INTERMEDIATE \<longrightarrow>
       ti_completed (get_info cl s) \<and> ti_parityRevert (get_info cl s) = 0)"
    using info conjunct2 [OF one] conjunct2 [OF two] unfolding same by blast
qed

lemma acks_check: "acks known cl (snd (checkAckForServer known cl s))"
  by (auto simp: acks_def checkAckForServer_def Let_def client getState_def read_state_def word_gt_0 split: if_splits option.splits prod.splits)

lemma sendState_reads:
  assumes "sendState m servers buf = Some (msg, m')"
  shows "getState m' = getState m"
proof -
  have "foldM (\<lambda>s (buf, len, m). do { let (st, m) = read_state m s; buf \<leftarrow> put_record buf len s st; Some (buf, len + serverStateRecordSize, m) })
      servers (buf, len, m) = Some (buf', len', m') \<Longrightarrow> getState m' = getState m" for buf len buf' len'
    by (induction servers arbitrary: buf len m) (auto simp: case_prod_unfold Let_def split: bind_splits)
  then show ?thesis using assms by (auto simp: sendState_def split: bind_splits)
qed

lemma acks_send: "sendStateToCoordinator cl servers buf = Some cl' \<Longrightarrow> acks known cl cl'"
  by (rule acks_refl) (auto simp: sendStateToCoordinator_def client sendState_reads split: if_splits bind_splits)

lemma acks_one: "ackTransit known buf cl s = Some cl' \<Longrightarrow> acks known cl cl'"
  using acks_check [of known cl s]
  by (auto simp: ackTransit_def acks_refl split: if_splits prod.splits bool.splits dest: acks_send [of _ _ _ _ known] intro: acks_trans)

lemma acks_all: "ackTransitAll known buf order cl = Some cl' \<Longrightarrow> acks known cl cl'"
proof -
  have "acks known cl (snd (fold (\<lambda>s (as, cl). case checkAckForServer known cl s of (r, cl) \<Rightarrow> (if r then as @ [s] else as, cl)) order (as, cl)))" for as
  proof (induction order arbitrary: as cl)
    case (Cons s order)
    show ?case using acks_trans [OF acks_check Cons.IH] by (simp add: case_prod_unfold)
  qed (simp add: acks_refl)
  from this [of "[]"] show "ackTransitAll known buf order cl = Some cl' \<Longrightarrow> acks known cl cl'"
    by (auto simp: ackTransitAll_def check_all_def split: prod.splits if_splits dest: acks_send [of _ _ _ _ known] intro: acks_trans)
qed

section \<open>Every step keeps the invariant\<close>

text \<open>A server passes from intermediate state to the wait for degraded state only when it is ready.\<close>

definition ready :: "ClientRun \<Rightarrow> sockaddr_in \<Rightarrow> bool" where
  "ready c s \<longleftrightarrow> ti_completed (get_info (cr_client c) s) \<and> ti_parityRevert (get_info (cr_client c) s) = 0"

definition passes_ready :: "ClientRun \<Rightarrow> ClientRun \<Rightarrow> bool" where
  "passes_ready c c' \<longleftrightarrow> (\<forall>s. getState (cl_states (cr_client c)) s = STATE_INTERMEDIATE \<longrightarrow>
     getState (cl_states (cr_client c')) s = STATE_WAIT_DEGRADED \<longrightarrow> ready c s)"

definition step_ok :: "ClientRun \<Rightarrow> ClientRun \<Rightarrow> bool" where
  "step_ok c c' \<longleftrightarrow> infos_ok c' \<and> reader_ok (cr_reader c') \<and> passes_ready c c'"

lemma scanning_simps [client]:
  "cr_reader c = Listening \<Longrightarrow> \<not> scanning c s" "cr_reader c = Looking rs us \<Longrightarrow> \<not> scanning c s"
  "cr_reader c = Acting [] \<Longrightarrow> \<not> scanning c s"
  by (simp_all add: scanning_def)

lemma scanning_tail: "reader_ok (Acting (a # as)) \<Longrightarrow> cr_reader c = Acting as \<Longrightarrow> \<not> scanning c s"
  by (cases as) (auto simp: scanning_def split: action.splits)

lemma ti_ok_scan: "ti_ok w r b ti \<Longrightarrow> (b' \<Longrightarrow> b) \<Longrightarrow> ti_ok w r b' ti"
  by (auto simp: ti_ok_def)

text \<open>A step that leaves the counters alone, or only acknowledges.\<close>

lemma acks_step:
  assumes ok: "infos_ok c" and acks: "acks known (cr_client c) (cr_client c')" and known: "\<forall>s. cr_waiting c s \<subseteq> known"
    and same: "cr_waiting c' = cr_waiting c" "cr_reverts c' = cr_reverts c" "\<And>s. scanning c' s \<Longrightarrow> scanning c s" and reader: "reader_ok (cr_reader c')"
  shows "step_ok c c'"
proof -
  have "ti_ok (cr_waiting c s) (cr_reverts c s) (scanning c s) (get_info (cr_client c') s)" for s
    using ok acks known unfolding infos_ok_def acks_def ti_ok_def
    by (metis (no_types, lifting) Int_empty_left StateTransitInfo.select_convs StateTransitInfo.surjective StateTransitInfo.update_convs(2) le_infI)
  then have "infos_ok c'" using same ti_ok_scan by (fastforce simp: infos_ok_def)
  moreover have "passes_ready c c'" using acks by (auto simp: passes_ready_def ready_def acks_def)
  ultimately show ?thesis using reader by (simp add: step_ok_def)
qed

lemma quiet_step:
  assumes "infos_ok c" "get_info (cr_client c') = get_info (cr_client c)" "getState (cl_states (cr_client c')) = getState (cl_states (cr_client c))"
    "cr_waiting c' = cr_waiting c" "cr_reverts c' = cr_reverts c" "\<And>s. scanning c' s \<Longrightarrow> scanning c s" "reader_ok (cr_reader c')"
  shows "step_ok c c'"
  using acks_step [OF assms(1) acks_refl [OF assms(2,3)], of UNIV] assms(4-) by blast

lemma look_step:
  assumes "infos_ok c" "reader_ok (Looking ((s, b) # rs) us)" "look S s b rs us c = Some c'"
  shows "step_ok c c'"
  using assms by (intro quiet_step) (auto simp: look_def client scanning_def split: option.splits if_splits)

lemma change_step:
  assumes ok: "infos_ok c" and reader: "reader_ok (Acting (Change t b # as))"
  shows "step_ok c (change t b as c)"
proof -
  let ?c = "change t b as c"
  have b: "state_of_byte b \<noteq> STATE_WAIT_DEGRADED" using reader by (auto simp: state_of_byte_def)
  have "passes_ready c ?c"
    using b by (auto simp: passes_ready_def change_def Let_def case_prod_unfold client getState_def read_state_def split: option.splits)
  moreover have "reader_ok (cr_reader ?c)" using reader by (cases as) (auto simp: change_def Let_def case_prod_unfold)
  moreover have "scanning ?c s \<Longrightarrow> s = sk_addr t \<and> \<not> ti_completed (get_info (cr_client ?c) s)" for s
    using reader by (cases as) (auto simp: change_def Let_def case_prod_unfold scanning_def client split: if_splits action.splits)
  moreover have "get_info (cr_client ?c) s = get_info (cr_client c) s \<or> get_info (cr_client ?c) s = (get_info (cr_client c) s)\<lparr>ti_completed := False\<rparr>" for s
    by (auto simp: change_def Let_def case_prod_unfold client)
  moreover have "cr_waiting ?c = cr_waiting c" "cr_reverts ?c = cr_reverts c" by (simp_all add: change_def Let_def case_prod_unfold)
  ultimately show ?thesis using ok unfolding step_ok_def infos_ok_def ti_ok_def
    by (metis StateTransitInfo.select_convs StateTransitInfo.surjective StateTransitInfo.update_convs(3))
qed

lemma acks_step_of:
  assumes "infos_ok c" "\<forall>s. cr_waiting c s \<subseteq> en_known E" "reader_ok (cr_reader c)"
  shows "ack_one E s c = Some c' \<Longrightarrow> step_ok c c'" "ack_all E c = Some c' \<Longrightarrow> step_ok c c'"
  using assms
  by (auto simp: ack_one_def ack_all_def scanning_def split: if_splits bind_splits
      intro!: acks_step [where known = "en_known E"] dest: acks_one acks_all)

text \<open>The scanning server does not matter for the next action, since only the first action may be a scan.\<close>

lemma next_action:
  assumes "step_ok c c'" "reader_ok (Acting (a # as))" "cr_reader c = Acting (a # as)" "cr_reader c' = cr_reader c"
  shows "step_ok c (c'\<lparr>cr_reader := Acting as\<rparr>)"
proof -
  have "\<not> scanning (c'\<lparr>cr_reader := Acting as\<rparr>) s" for s using scanning_tail [OF assms(2)] by simp
  moreover have "reader_ok (Acting as)" using assms(2) by (cases as) auto
  ultimately show ?thesis using assms(1) ti_ok_scan by (fastforce simp: step_ok_def infos_ok_def passes_ready_def ready_def)
qed

lemma post_step:
  assumes ok: "infos_ok c" "\<forall>s. cr_waiting c s \<subseteq> en_known E" "reader_ok (cr_reader c)" and run: "post E s c = Some c'"
  shows "step_ok c c'" "cr_reader c' = cr_reader c"
proof -
  let ?c = "c\<lparr>cr_client := (cr_client c)\<lparr>cl_states := snd (read_state (cl_states (cr_client c)) s)\<rparr>\<rparr>"
  have same: "step_ok c ?c" by (rule quiet_step) (use ok in \<open>auto simp: client scanning_def\<close>)
  then have ok': "infos_ok ?c" "\<forall>s. cr_waiting ?c s \<subseteq> en_known E" "reader_ok (cr_reader ?c)" using ok by (simp_all add: step_ok_def)
  have "step_ok ?c c'"
    using run same acks_step_of [OF ok'] ok'
    by (auto simp: post_def Let_def case_prod_unfold step_ok_def passes_ready_def split: if_splits)
  then show "step_ok c c'" by (simp add: step_ok_def passes_ready_def ready_def client)
  show "cr_reader c' = cr_reader c"
    using run by (auto simp: post_def Let_def case_prod_unfold ack_one_def ack_all_def split: if_splits bind_splits)
qed

lemma act_step:
  assumes ok: "infos_ok c" "\<forall>s. cr_waiting c s \<subseteq> en_known E" and reader: "cr_reader c = Acting (a # as)" "reader_ok (Acting (a # as))"
    and run: "act S E a as c = Some c'"
  shows "step_ok c c'"
proof (cases a)
  case (Change t b)
  then show ?thesis using run change_step [OF ok(1) reader(2) [unfolded Change]] by simp
next
  case (Gather t)
  obtain cl where cl: "gatherPendingNormalRequests (cs_lists S) (cs_parityChunkCount S) (en_pend E) (cr_client c) t = Some cl"
    using run by (auto simp: Gather split: bind_splits)
  have rest: "cr_reader c' = Acting as" "cr_client c' = cl" using run by (auto simp: Gather cl)
  have "reader_ok (Acting as)" using reader(2) by (cases as) auto
  moreover have scan: "\<not> scanning c' s" for s using scanning_tail [OF reader(2) rest(1)] .
  moreover have now: "\<forall>s. ti_ok (cr_waiting c s) (cr_reverts c s) (sk_addr t = s) (get_info (cr_client c) s)"
    using ok reader(1) by (simp add: infos_ok_def scanning_def Gather)
  have "infos_ok c'"
    using run gather_pending_spec(2) [OF cl now] scan unfolding infos_ok_def by (auto simp: Gather cl)
  moreover have "passes_ready c c'" using gather_pending_spec(1) [OF cl now] by (simp add: passes_ready_def rest)
  ultimately show ?thesis by (simp add: step_ok_def rest)
next
  case (Revert t)
  obtain cl where cl: "revertDelta (cs_servers S) (en_replied E) (cr_client c) t = Some cl"
    using run by (auto simp: Revert split: bind_splits)
  have rest: "cr_reader c' = Acting as" "cr_client c' = cl" using run by (auto simp: Revert cl)
  have "reader_ok (Acting as)" using reader(2) by (cases as) auto
  moreover have scan: "\<not> scanning c' s" for s using scanning_tail [OF reader(2) rest(1)] .
  moreover have now: "\<forall>s. ti_ok (cr_waiting c s) (cr_reverts c s) False (get_info (cr_client c) s)"
    using ok reader(1) by (simp add: infos_ok_def scanning_def Revert)
  have "infos_ok c'"
    using run revert_spec(2) [OF cl now] scan unfolding infos_ok_def by (auto simp: Revert cl)
  moreover have "passes_ready c c'" using revert_spec(1) [OF cl now] by (simp add: passes_ready_def rest)
  ultimately show ?thesis by (simp add: step_ok_def rest)
next
  case (Put s)
  have "step_ok c (c\<lparr>cr_client := (cr_client c)\<lparr>cl_states := (cl_states (cr_client c))(s \<mapsto> STATE_INTERMEDIATE)\<rparr>\<rparr>)"
    using ok reader by (auto simp: step_ok_def infos_ok_def passes_ready_def client scanning_def getState_def)
  from next_action [OF this reader(2,1)] show ?thesis using run by (auto simp: Put)
next
  case (Unlock s)
  have "step_ok c (c\<lparr>cr_locked := cr_locked c - {s}\<rparr>)" using ok reader by (intro quiet_step) (auto simp: scanning_def)
  from next_action [OF this reader(2,1)] show ?thesis using run by (auto simp: Unlock)
next
  case (Post s)
  then show ?thesis using run next_action [OF post_step(1) reader(2,1) post_step(2)] ok reader by auto
qed

lemma read_step:
  assumes ok: "infos_ok c" "\<forall>s. cr_waiting c s \<subseteq> en_known E" and reader: "reader_ok (cr_reader c)"
    and run: "read_on S E c (cr_reader c) = Some c'"
  shows "step_ok c c'"
  using run reader ok
proof (cases rule: read_on.cases [of "(S, E, c, cr_reader c)"])
  case (2 S E c us)
  have "reader_ok (Acting (plan us))"
    using reader 2 by (cases us) (force simp: plan_def list_all_iff)+
  moreover have "\<not> scanning (c\<lparr>cr_reader := Acting (plan us)\<rparr>) s" for s
    by (cases us) (auto simp: plan_def scanning_def split: prod.splits)
  ultimately show ?thesis using 2 run ok by (auto intro!: quiet_step)
next
  case (3 S E c s b rs us)
  then show ?thesis using run reader ok look_step by auto
next
  case (4 S E c)
  then show ?thesis using run ok by (auto intro!: quiet_step simp: client)
next
  case (5 S E c a as)
  then show ?thesis using run reader ok act_step by auto
qed auto

lemma worker_frame [client]:
  "cr_client (set_handler w h c) = cr_client c" "cr_waiting (set_handler w h c) = cr_waiting c" "cr_reverts (set_handler w h c) = cr_reverts c"
  "cr_reader (set_handler w h c) = cr_reader c" "scanning (set_handler w h c) = scanning c"
  by (simp_all add: set_handler_def scanning_def fun_eq_iff)

lemma step_ok_handler: "step_ok c (set_handler w h c') \<longleftrightarrow> step_ok c c'"
  by (simp add: step_ok_def infos_ok_def passes_ready_def client)

text \<open>A worker that changes the counters of one server only.\<close>

lemma one_server_step:
  assumes "infos_ok c" "reader_ok (cr_reader c)" "cr_reader c' = cr_reader c" "cl_states (cr_client c') = cl_states (cr_client c)"
    "\<And>a. a \<noteq> s \<Longrightarrow> get_info (cr_client c') a = get_info (cr_client c) a \<and> cr_waiting c' a = cr_waiting c a \<and> cr_reverts c' a = cr_reverts c a"
    "ti_ok (cr_waiting c' s) (cr_reverts c' s) (scanning c s) (get_info (cr_client c') s)"
  shows "step_ok c c'"
proof -
  have "scanning c' = scanning c" using assms(3) by (simp add: scanning_def fun_eq_iff)
  then have "ti_ok (cr_waiting c' a) (cr_reverts c' a) (scanning c' a) (get_info (cr_client c') a)" for a
    using assms(1,5,6) by (cases "a = s") (auto simp: infos_ok_def)
  then show ?thesis using assms(2-4) by (simp add: step_ok_def infos_ok_def passes_ready_def)
qed

lemma respond_step:
  assumes "infos_ok c" "reader_ok (cr_reader c)" "respond w isSet s requestId c = Some c'"
  shows "step_ok c c'"
proof -
  have "step_ok c c" "step_ok c (c\<lparr>cr_client := (cr_client c)\<lparr>cl_locks := insert s (cl_locks (cr_client c))\<rparr>\<rparr>)"
    by (rule quiet_step; use assms in \<open>auto simp: client scanning_def\<close>)+
  then show ?thesis using assms(3)
    by (auto simp: respond_def Let_def step_ok_handler split: if_splits bind_splits)
qed

lemma continue_step:
  assumes ok: "infos_ok c" "reader_ok (cr_reader c)" "\<forall>s. cr_waiting c s \<subseteq> en_known E"
    and quiet: "\<And>isSet s. h = Completing isSet s \<Longrightarrow> \<not> scanning c s" and run: "continue E w c h = Some c'"
  shows "step_ok c c'"
proof (cases h)
  case (Removing isSet s requestId)
  then obtain ti where ti: "cl_info (cr_client c) s = Some ti" using run by (auto split: bind_splits)
  have "ti_ok (cr_waiting c s) (cr_reverts c s) (scanning c s) ti" using ok(1) by (auto simp: infos_ok_def get_info_Some [OF ti, symmetric])
  then have "step_ok c (c\<lparr>cr_client := put_info s (snd (removePendingRequest requestId ti)) (cr_client c),
      cr_waiting := (cr_waiting c)(s := cr_waiting c s - {requestId})\<rparr>)"
    using ok by (intro one_server_step [where s = s]) (auto simp: client ti_ok_def)
  then show ?thesis using run ti by (auto simp: Removing Let_def case_prod_unfold step_ok_handler)
next
  case (Completing isSet s)
  then obtain ti where ti: "cl_info (cr_client c) s = Some ti" using run by (auto split: bind_splits)
  have "ti_ok (cr_waiting c s) (cr_reverts c s) (scanning c s) ti" using ok(1) by (auto simp: infos_ok_def get_info_Some [OF ti, symmetric])
  then have "step_ok c (c\<lparr>cr_client := put_info s (snd (setCompleted False ti)) (cr_client c)\<rparr>)"
    using ok quiet [OF Completing] by (intro one_server_step [where s = s]) (auto simp: client ti_ok_def)
  then show ?thesis using run ti by (auto simp: Completing Let_def case_prod_unfold step_ok_handler)
next
  case (Acking s)
  then show ?thesis using run acks_step_of(1) [OF ok(1,3,2)] by (auto simp: step_ok_handler)
qed (use run in simp)

lemma revert_acked_step:
  assumes ok: "infos_ok c" "reader_ok (cr_reader c)" and run: "revert_acked w s c = Some c'"
  shows "step_ok c c'"
proof -
  obtain ti where ti: "cl_info (cr_client c) s = Some ti" and some: "cr_reverts c s \<noteq> 0"
    using run by (auto simp: revert_acked_def split: if_splits bind_splits)
  have "ti_ok (cr_waiting c s) (cr_reverts c s) (scanning c s) ti" using ok(1) by (auto simp: infos_ok_def get_info_Some [OF ti, symmetric])
  then have "step_ok c (c\<lparr>cr_client := put_info s (snd (decrementParityRevertCounter 1 ti)) (cr_client c),
      cr_reverts := (cr_reverts c)(s := cr_reverts c s - 1)\<rparr>)"
    using ok some by (intro one_server_step [where s = s]) (auto simp: client ti_ok_def of_nat_diff)
  then show ?thesis using run ti by (auto simp: revert_acked_def step_ok_handler split: if_splits)
qed

lemma client_step_ok:
  assumes ok: "infos_ok c" "reader_ok (cr_reader c)" and orderly: "orderly E l c" and run: "client_step S E l c = Some c'"
  shows "step_ok c c'"
proof (cases l)
  case (Receive msg)
  then obtain rs where rs: "message_records msg = Some rs" "cr_reader c = Listening" "c' = c\<lparr>cr_reader := Looking rs []\<rparr>"
    using run by (auto split: if_splits bind_splits)
  then show ?thesis using orderly ok Receive by (intro quiet_step) (auto simp: orderly_defs client list_all_iff)
next
  case Read
  then show ?thesis using run orderly ok read_step by (simp add: orderly_defs)
next
  case (Respond w isSet s requestId)
  then show ?thesis using run ok respond_step by simp
next
  case (Continue w)
  then show ?thesis using run ok orderly by (intro continue_step [of c E "cr_workers c w" w]) (auto simp: orderly_defs)
next
  case (RevertAcked w s)
  then show ?thesis using run ok revert_acked_step by simp
next
  case Background
  then show ?thesis using run ok orderly acks_step_of(2) by (simp add: orderly_defs)
qed

lemma add_server_info: "get_info cl = (\<lambda>_. ti_new) \<Longrightarrow> get_info (fold (\<lambda>s cl. snd (cl_addAliveServer cl s)) servers cl) = (\<lambda>_. ti_new)"
proof (induction servers arbitrary: cl)
  case (Cons s servers)
  have "get_info (snd (cl_addAliveServer cl s)) = (\<lambda>_. ti_new)"
    using Cons.prems by (auto simp: cl_addAliveServer_def get_info_def fun_eq_iff)
  then show ?case using Cons.IH by simp
qed simp

lemma client_run_inv: "client_run S orderly cs \<Longrightarrow> infos_ok (hd cs) \<and> reader_ok (cr_reader (hd cs))"
proof (induction rule: client_run.induct)
  case (start servers)
  have "get_info \<lparr>cl_states = Map.empty, cl_info = Map.empty, cl_locks = {}, cl_sent = []\<rparr> = (\<lambda>_. ti_new)"
    by (simp add: get_info_def fun_eq_iff)
  from add_server_info [OF this] show ?case
    by (simp add: cr_start_def infos_ok_def ti_ok_def ti_new_def scanning_def)
next
  case (step c cs E l c')
  then show ?case using client_step_ok [of c E l S c'] by (simp add: step_ok_def)
qed

end
