(* ===== verification/ClientSafety.thy ===== *)
theory ClientSafety
  imports ClientInv
begin

text \<open>
  When a client tells the coordinator that a server may become degraded. First the condition under which all requests
  that have to be waited for are answered by then, and then two interleavings in which they are not.
\<close>

section \<open>An example\<close>

fun run_labels :: "ClientSetup \<Rightarrow> (Env \<Rightarrow> label \<Rightarrow> ClientRun \<Rightarrow> bool) \<Rightarrow> Env \<Rightarrow> label list \<Rightarrow> ClientRun \<Rightarrow> ClientRun \<Rightarrow> bool" where
  "run_labels S P E [] c c' \<longleftrightarrow> c' = c"
| "run_labels S P E (l # ls) c c' \<longleftrightarrow> P E l c \<and> (case client_step S E l c of Some c1 \<Rightarrow> run_labels S P E ls c1 c' | None \<Rightarrow> False)"

lemma run_labels_run: "run_labels S P E ls c c' \<Longrightarrow> client_run S P (c # cs) \<Longrightarrow> \<exists>cs'. client_run S P (c' # cs')"
proof (induction ls arbitrary: c cs)
  case (Cons l ls)
  then show ?case by (fastforce split: option.splits intro: client_run.step)
qed auto

text \<open>One data and one parity server, and two requests of applications, 7 and 8, for a key of one byte.\<close>

definition demo_data :: ServerSocket where "demo_data = \<lparr>sk_instanceId = 1, sk_addr = Sockaddr 1 1\<rparr>"
definition demo_parity_server :: ServerSocket where "demo_parity_server = \<lparr>sk_instanceId = 2, sk_addr = Sockaddr 2 2\<rparr>"

definition demo_lists :: "ServerSocket StripeList" where
  "demo_lists = \<lparr>sl_n = 2, sl_k = 1, sl_numLists = 1, sl_numServers = 2, sl_generated = True, sl_useAlgo = True,
     sl_data = bm_new 2 1, sl_parity = bm_new 2 1, sl_load = [0, 0], sl_count = [0, 0], sl_servers = [demo_data, demo_parity_server],
     sl_lists = [[Some demo_data, Some demo_parity_server]]\<rparr>"

definition demo_setup :: ClientSetup where
  "demo_setup = \<lparr>cs_servers = [demo_data, demo_parity_server], cs_lists = demo_lists, cs_parityChunkCount = 1\<rparr>"

definition demo_env :: "u32 set \<Rightarrow> Env" where
  "demo_env known = \<lparr>en_pend = [(7, [107], 1), (8, [107], 1)], en_replied = [], en_known = known,
     en_order = [Sockaddr 1 1, Sockaddr 2 2], en_buf = replicate 16 0\<rparr>"

definition demo_start :: ClientRun where "demo_start = cr_start [Sockaddr 1 1, Sockaddr 2 2]"

text \<open>The message that starts the transition of the parity server, and the transition, up to the reply to the revert request.\<close>

definition demo_message :: memory where "demo_message = [1, 2, 0, 0, 0, 2, 0, 2]"

definition demo_transit :: "label list" where
  "demo_transit = [Receive demo_message, Read, Read, Read, Read, Read, Read, Read, Read, Read, RevertAcked 1 (Sockaddr 2 2), Continue 1]"

lemma demo_lookup: "sl_get_key demo_lists [107] 1 = Some (0, 0, Some demo_data, [Some demo_data], [Some demo_parity_server])"
  by (simp add: sl_get_key_def hash_eq_hash_of list_of_hash_def demo_lists_def item_at_def chunk_servers_def upt_rec)

lemma demo_is_parity: "is_parity_list demo_lists (Suc 0) demo_parity_server 0 = Some True"
  by code_simp

lemma demo_records: "message_records demo_message = Some [(Sockaddr 2 2, 2)]"
  by code_simp

lemma demo_simps:
  "sk_addr demo_data = Sockaddr 1 1" "sk_addr demo_parity_server = Sockaddr 2 2"
  "sk_instanceId demo_data = 1" "sk_instanceId demo_parity_server = 2" "demo_data \<noteq> demo_parity_server"
  "cs_servers demo_setup = [demo_data, demo_parity_server]" "cs_lists demo_setup = demo_lists" "cs_parityChunkCount demo_setup = 1"
  "en_pend (demo_env known) = [(7, [107], 1), (8, [107], 1)]" "en_replied (demo_env known) = []" "en_known (demo_env known) = known"
  "en_order (demo_env known) = [Sockaddr 1 1, Sockaddr 2 2]" "en_buf (demo_env known) = replicate 16 0"
  by (simp_all add: demo_data_def demo_parity_server_def demo_setup_def demo_env_def)

lemmas step_defs = orderly_defs scanning_def look_def change_def plan_def read_state_def Let_def gatherPendingNormalRequests_def gather_one_def
  cl_useCoordinatedFlow_def state_of_byte_def printServerState_def named_def client get_info_def put_info_def revertDelta_def awaited_def
  own_requests_def others_normal_def must_wait_def is_own_def post_def ack_all_def all_unlocked_def ackTransitAll_def check_all_def
  checkAckForServer_def ti_new_def revert_acked_def ack_one_def ackTransit_def set_handler_def respond_def removePendingRequest_def
  setCompleted_def getPendingRequestCount_def getState_def sendStateToCoordinator_def sendState_def put_record_def poke_def MAX_MESSLEN_def
  serverStateRecordSize_def cr_start_def cl_addAliveServer_def insert_commute

lemmas demo_eval = demo_simps demo_records demo_lookup demo_is_parity demo_start_def demo_transit_def

section \<open>Safety\<close>

text \<open>
  C3. In every orderly run, a client enters the state in which it has acknowledged the transition of a server only when no request is
  left that the transition has to wait for, and all revert requests have been answered (below \<open>2 ^ 32\<close> of them). A run is
  orderly if no worker tests for the end of the wait while the scan for pending requests has not been done, the table of pending SET requests
  holds all requests that are waited for, and the coordinator does not ask for the waiting state itself.
\<close>

theorem client_waits_for_answers:
  assumes "client_run S orderly (c # cs)" and "orderly E l c" and "client_step S E l c = Some c'"
    and "getState (cl_states (cr_client c)) s = STATE_INTERMEDIATE" and "getState (cl_states (cr_client c')) s = STATE_WAIT_DEGRADED"
  shows "cr_waiting c s = {} \<and> (cr_reverts c s < 2 ^ 32 \<longrightarrow> cr_reverts c s = 0)"
proof -
  have ok: "infos_ok c" "reader_ok (cr_reader c)" using client_run_inv [OF assms(1)] by simp_all
  have "ready c s" using client_step_ok [OF ok assms(2,3)] assms(4,5) by (simp add: step_ok_def passes_ready_def)
  then have "cr_waiting c s = {} \<and> (of_nat (cr_reverts c s) :: u32) = 0"
    using ok(1) by (auto simp: infos_ok_def ready_def ti_ok_def)
  then show ?thesis by (auto simp: word_of_nat_eq_0_iff nat_dvd_not_less)
qed

theorem client_waits_for_answers_witness:
  "\<exists>c cs c'. client_run demo_setup orderly (c # cs) \<and> client_step demo_setup (demo_env {7, 8}) (Continue 0) c = Some c'
     \<and> getState (cl_states (cr_client c')) (Sockaddr 2 2) = STATE_WAIT_DEGRADED \<and> cr_waiting c (Sockaddr 2 2) = {}"
proof -
  let ?last = "[Respond 0 True (Sockaddr 2 2) 7, Continue 0, Respond 0 True (Sockaddr 2 2) 8, Continue 0, Continue 0]"
  have "\<exists>c. run_labels demo_setup orderly (demo_env {7, 8}) (demo_transit @ ?last) demo_start c
     \<and> orderly (demo_env {7, 8}) (Continue 0) c \<and> getState (cl_states (cr_client c)) (Sockaddr 2 2) = STATE_INTERMEDIATE
     \<and> (\<exists>c'. client_step demo_setup (demo_env {7, 8}) (Continue 0) c = Some c'
          \<and> getState (cl_states (cr_client c')) (Sockaddr 2 2) = STATE_WAIT_DEGRADED)"
    by (simp add: demo_eval step_defs cong: if_cong)
  then obtain c c' where run: "run_labels demo_setup orderly (demo_env {7, 8}) (demo_transit @ ?last) demo_start c"
    and last: "orderly (demo_env {7, 8}) (Continue 0) c" "client_step demo_setup (demo_env {7, 8}) (Continue 0) c = Some c'"
      "getState (cl_states (cr_client c)) (Sockaddr 2 2) = STATE_INTERMEDIATE" "getState (cl_states (cr_client c')) (Sockaddr 2 2) = STATE_WAIT_DEGRADED"
    by blast
  obtain cs where "client_run demo_setup orderly (c # cs)"
    using run_labels_run [OF run, unfolded demo_start_def, OF client_run.start] by blast
  with client_waits_for_answers [OF this last] last show ?thesis by blast
qed

section \<open>Two runs that are not orderly\<close>

text \<open>
  C19. Requests to UPDATE or DELETE are not in the table of pending SET requests. Take any client for which a server is in the intermediate state, all revert requests are
  answered and only such requests are waited for, with one worker about to test for the end of the wait. The test drops all these requests; after it, the answer to any one UPDATE or
  DELETE request, whether it was waited for or not, takes the client to the state in which it acknowledges the transition, and all other requests are still unanswered.
\<close>

theorem pending_updates_forgotten:
  assumes "cl_states (cr_client c) s = Some STATE_INTERMEDIATE" and "cl_info (cr_client c) s = Some ti" and "\<not> ti_completed ti" and "ti_parityRevert ti = 0"
    and "ti_requestIds ti \<inter> en_known E = {}" and "s \<in> cl_locks (cr_client c)" and "s \<notin> cr_locked c"
    and "cr_workers c w = Acking s" and "cr_workers c v = Free" and "v \<noteq> w" and "11 \<le> length (en_buf E)"
  shows "\<exists>c'. run_labels S (\<lambda>_ _ _. True) E [Continue w, Respond v False s r, Continue v, Continue v, Continue v] c c'
    \<and> cl_states (cr_client c') s = Some STATE_WAIT_DEGRADED \<and> cr_waiting c' s = cr_waiting c s - {r}"
proof -
  have "\<exists>msg m. sendState ((cl_states (cr_client c))(s \<mapsto> STATE_WAIT_DEGRADED)) [s] (en_buf E) = Some (msg, m) \<and> m s = Some STATE_WAIT_DEGRADED"
    using assms(11) by (simp add: sendState_def put_record_def poke_def read_state_def serverStateRecordSize_def)
  then obtain m msg where send: "sendState ((cl_states (cr_client c))(s \<mapsto> STATE_WAIT_DEGRADED)) [s] (en_buf E) = Some (msg, m)" "m s = Some STATE_WAIT_DEGRADED"
    by blast
  show ?thesis
    using assms(1-10) send
    by (simp add: respond_def ack_one_def ackTransit_def checkAckForServer_def sendStateToCoordinator_def removePendingRequest_def getPendingRequestCount_def
        setCompleted_def set_handler_def get_info_def put_info_def read_state_def cl_useCoordinatedFlow_def MAX_MESSLEN_def serverStateRecordSize_def Let_def)
qed

theorem pending_updates_forgotten_witness:
  "\<exists>c cs c'. client_run demo_setup (\<lambda>E l c. scan_undisturbed l c \<and> phases_only l) (c # cs)
     \<and> run_labels demo_setup (\<lambda>_ _ _. True) (demo_env {}) [Continue 1, Respond 0 False (Sockaddr 2 2) 7, Continue 0, Continue 0, Continue 0] c c'
     \<and> cl_states (cr_client c') (Sockaddr 2 2) = Some STATE_WAIT_DEGRADED \<and> cr_waiting c' (Sockaddr 2 2) = {8}"
proof -
  let ?P = "\<lambda>E l c. scan_undisturbed l c \<and> phases_only l" and ?E = "demo_env {}" and ?s = "Sockaddr 2 2"
  have "\<exists>c ti. run_labels demo_setup ?P ?E (butlast demo_transit) demo_start c
     \<and> cl_states (cr_client c) ?s = Some STATE_INTERMEDIATE \<and> cl_info (cr_client c) ?s = Some ti \<and> \<not> ti_completed ti \<and> ti_parityRevert ti = 0
     \<and> ti_requestIds ti \<inter> {} = {} \<and> ?s \<in> cl_locks (cr_client c) \<and> ?s \<notin> cr_locked c \<and> cr_workers c 1 = Acking ?s \<and> cr_workers c 0 = Free \<and> cr_waiting c ?s = {7, 8}"
    by (simp add: demo_eval step_defs cong: if_cong)
  then obtain c ti where run: "run_labels demo_setup ?P ?E (butlast demo_transit) demo_start c"
    and c: "cl_states (cr_client c) ?s = Some STATE_INTERMEDIATE" "cl_info (cr_client c) ?s = Some ti" "\<not> ti_completed ti" "ti_parityRevert ti = 0"
      "?s \<in> cl_locks (cr_client c)" "?s \<notin> cr_locked c" "cr_workers c 1 = Acking ?s" "cr_workers c 0 = Free" "cr_waiting c ?s = {7, 8}" by blast
  obtain cs where "client_run demo_setup ?P (c # cs)" using run_labels_run [OF run, unfolded demo_start_def, OF client_run.start] by blast
  moreover obtain c' where "run_labels demo_setup (\<lambda>_ _ _. True) ?E [Continue 1, Respond 0 False ?s 7, Continue 0, Continue 0, Continue 0] c c'"
    and "cl_states (cr_client c') ?s = Some STATE_WAIT_DEGRADED" "cr_waiting c' ?s = cr_waiting c ?s - {7}"
    using pending_updates_forgotten [OF c(1-4) _ c(5-8), of ?E demo_setup 7] by (auto simp: demo_simps)
  ultimately show ?thesis using c(9) by (intro exI [of _ c] exI [of _ cs] exI [of _ c']) auto
qed

text \<open>
  A worker that handles the response to an older SET request tests for the end of the wait after the flag has been cleared
  and before the scan: the flag is set again, and the scan does not clear it.
\<close>

theorem completed_before_scan:
  "\<exists>c cs c'. client_run demo_setup (\<lambda>E l c. requests_known E c \<and> phases_only l) (c # cs)
     \<and> client_step demo_setup (demo_env {7, 8}) (Continue 0) c = Some c'
     \<and> getState (cl_states (cr_client c)) (Sockaddr 2 2) = STATE_INTERMEDIATE
     \<and> getState (cl_states (cr_client c')) (Sockaddr 2 2) = STATE_WAIT_DEGRADED \<and> cr_waiting c (Sockaddr 2 2) = {7, 8}"
proof -
  let ?P = "\<lambda>E l c. requests_known E c \<and> phases_only l" and ?E = "demo_env {7, 8}"
  let ?ls = "[Respond 0 True (Sockaddr 2 2) 5, Continue 0, Receive demo_message, Read, Read, Read, Continue 0, Read, Read, Read, Read,
    RevertAcked 1 (Sockaddr 2 2)]"
  have "\<exists>c. run_labels demo_setup ?P ?E ?ls demo_start c
     \<and> getState (cl_states (cr_client c)) (Sockaddr 2 2) = STATE_INTERMEDIATE \<and> cr_waiting c (Sockaddr 2 2) = {7, 8}
     \<and> (\<exists>c'. client_step demo_setup ?E (Continue 0) c = Some c'
          \<and> getState (cl_states (cr_client c')) (Sockaddr 2 2) = STATE_WAIT_DEGRADED)"
    by (simp add: demo_eval step_defs cong: if_cong)
  then show ?thesis using run_labels_run [of demo_setup ?P ?E, unfolded demo_start_def, OF _ client_run.start] unfolding demo_start_def by blast
qed

end
