(* ===== verification/BasicRemap.thy ===== *)
theory BasicRemap
  imports ClientTransit ArrayMap KeyValue
begin

text \<open>
  Where a client sends the chunks of failed servers: \<^verbatim>\<open>client/remap/basic_remap_scheme.cc\<close>, the latencies of
  \<^verbatim>\<open>common/ds/latency.cc\<close> it compares, and \<^verbatim>\<open>ClientWorker::getServers\<close> that asks it. Entries of the arrays
  \<^verbatim>\<open>original\<close> and \<^verbatim>\<open>remapped\<close> are pairs of a list and a chunk id; a null pointer that is used is \<^term>\<open>None\<close>. The floating-point
  averages of the latencies are not modelled.
\<close>

section \<open>Latencies\<close>

record Latency =
  lt_sec :: u32
  lt_nsec :: u32

definition lat_less :: "Latency \<Rightarrow> Latency \<Rightarrow> bool" where
  "lat_less a b = (if lt_sec a < lt_sec b then True else if lt_sec a > lt_sec b then False else if lt_nsec a > lt_nsec b then False else True)"

definition lat_add :: "Latency \<Rightarrow> Latency \<Rightarrow> Latency" where
  "lat_add a b =
     (let sec = lt_sec a + lt_sec b; nsec = lt_nsec a + lt_nsec b in
      if 1000000000 \<le> nsec then \<lparr>lt_sec = sec + 1, lt_nsec = nsec - 1000000000\<rparr> else \<lparr>lt_sec = sec, lt_nsec = nsec\<rparr>)"

definition increment :: Latency where "increment = \<lparr>lt_sec = 0, lt_nsec = 100\<rparr>"

section \<open>The scheme\<close>

text \<open>\<open>rs_loading\<close> is the mirror of the cumulative latencies of SET requests.\<close>

record RemapScheme =
  rs_loading :: "(sockaddr_in, Latency) ArrayMap"
  rs_overloaded :: "sockaddr_in set"
  rs_lists :: "ServerSocket StripeList"
  rs_handler :: ClientTransit

type_synonym entry = "nat \<times> nat"

text \<open>\<open>useCoordinatedFlow\<close> with its lock, which it leaves in the table of locks.\<close>

definition flow_locked :: "sockaddr_in \<Rightarrow> ClientTransit \<Rightarrow> bool \<times> ClientTransit" where
  "flow_locked s cl =
     (cl_useCoordinatedFlow cl s, if cl_states cl s = None then cl else cl\<lparr>cl_locks := insert s (cl_locks cl)\<rparr>)"

definition server_addr :: "nat \<Rightarrow> ServerSocket option list \<Rightarrow> ServerSocket option list \<Rightarrow> nat \<Rightarrow> sockaddr_in option" where
  "server_addr k data parity j = do { s \<leftarrow> (if j < k then item_at data j else item_at parity (j - k)); map_option sk_addr s }"

definition list_addr :: "ServerSocket StripeList \<Rightarrow> entry \<Rightarrow> sockaddr_in option" where
  "list_addr sl = (\<lambda>(l, c). do { s \<leftarrow> sl_get_chunk sl l c; map_option sk_addr s })"

text \<open>The first loop: the entries that are remapped, and the servers that may not be chosen.\<close>

definition scan_entry ::
  "ClientTransit \<Rightarrow> nat \<Rightarrow> nat \<Rightarrow> ServerSocket option list \<Rightarrow> ServerSocket option list \<Rightarrow> bool \<Rightarrow> entry list \<Rightarrow> nat
     \<Rightarrow> entry list \<times> sockaddr_in set \<Rightarrow> (entry list \<times> sockaddr_in set) option" where
  "scan_entry cl k m data parity isGet original i = (\<lambda>(remapped, taboo).
     do { (l, c) \<leftarrow> item_at original i;
          s \<leftarrow> server_addr k data parity c;
          let taboo = (if length original \<le> k \<or> 1 + m \<le> i then insert s taboo else taboo);
          Some (if cl_allowRemapping cl s \<and> (\<not> isGet \<or> c < k) then remapped @ [(l, c)] else remapped, taboo) })"

text \<open>One candidate for an entry with chunk \<open>c\<close>; \<open>r\<close> is the chunk chosen so far, \<open>c\<close> itself if there is none.\<close>

definition try_server ::
  "(sockaddr_in, Latency) ArrayMap \<Rightarrow> nat \<Rightarrow> ServerSocket option list \<Rightarrow> ServerSocket option list \<Rightarrow> sockaddr_in set \<Rightarrow> sockaddr_in set
     \<Rightarrow> nat \<Rightarrow> nat \<Rightarrow> nat \<times> Latency option \<times> ClientTransit \<Rightarrow> (nat \<times> Latency option \<times> ClientTransit) option" where
  "try_server loading k data parity taboo redirected c j = (\<lambda>(r, target, cl).
     do { s \<leftarrow> server_addr k data parity j;
          if s \<in> taboo \<or> s \<in> redirected then Some (r, target, cl)
          else let (flow, cl) = flow_locked s cl in
               if flow then Some (r, target, cl)
               else let node = fst (am_get loading s) in
                    if r = c then Some (j, node, cl)
                    else case (target, node) of
                           (Some t, Some n) \<Rightarrow> if lat_less n t then Some (j, node, cl) else Some (r, target, cl)
                         | _ \<Rightarrow> Some (r, target, cl) })"

definition remap_entry ::
  "nat \<Rightarrow> nat \<Rightarrow> ServerSocket option list \<Rightarrow> ServerSocket option list \<Rightarrow> sockaddr_in set \<Rightarrow> entry
     \<Rightarrow> RemapScheme \<times> sockaddr_in set \<times> entry list \<Rightarrow> (RemapScheme \<times> sockaddr_in set \<times> entry list) option" where
  "remap_entry k m data parity taboo = (\<lambda>(l, c) (rs, redirected, remapped).
     do { _ \<leftarrow> list_addr (rs_lists rs) (l, c);
          (r, _, cl) \<leftarrow> foldM (try_server (rs_loading rs) k data parity taboo redirected c) [0..<k + m] (c, None, rs_handler rs);
          let rs = rs\<lparr>rs_handler := cl\<rparr>;
          if r = c then Some (rs, redirected, remapped @ [(l, r)])
          else do { s \<leftarrow> list_addr (rs_lists rs) (l, r);
                    let loading = (case am_get (rs_loading rs) s of
                       (Some n, Some i) \<Rightarrow> (rs_loading rs)\<lparr>am_values := (am_values (rs_loading rs))[i := lat_add n increment]\<rparr>
                     | _ \<Rightarrow> rs_loading rs);
                    Some (rs\<lparr>rs_loading := loading\<rparr>, insert s redirected, remapped @ [(l, r)]) } })"

text \<open>
  The result is the scheme, the array \<^verbatim>\<open>original\<close> and the entries written to \<^verbatim>\<open>remapped\<close>; \<^verbatim>\<open>remappedCount\<close> is the number of those. A scheme
  that is not initialised changes nothing.
\<close>

definition redirect ::
  "RemapScheme option \<Rightarrow> nat \<Rightarrow> nat \<Rightarrow> ServerSocket option list \<Rightarrow> ServerSocket option list \<Rightarrow> bool \<Rightarrow> entry list
     \<Rightarrow> (RemapScheme option \<times> entry list \<times> entry list option) option" where
  "redirect scheme k m data parity isGet original =
     (case scheme of None \<Rightarrow> Some (None, original, None)
      | Some rs \<Rightarrow>
          do { (taken, taboo) \<leftarrow> foldM (scan_entry (rs_handler rs) k m data parity isGet original) [0..<length original] ([], {});
               (rs, _, remapped) \<leftarrow> foldM (remap_entry k m data parity taboo) taken (rs, {}, []);
               Some (Some rs, taken @ drop (length taken) original, Some remapped) })"

definition isOverloaded :: "RemapScheme option \<Rightarrow> ServerSocket \<Rightarrow> bool" where
  "isOverloaded scheme socket =
     (case scheme of None \<Rightarrow> False
      | Some rs \<Rightarrow> cl_allowRemapping (rs_handler rs) (sk_addr socket) \<and> sk_addr socket \<in> rs_overloaded rs)"

section \<open>The servers of a request\<close>

datatype request = REQ_SET | REQ_GET | REQ_UPDATE | REQ_DELETE

text \<open>The settings of the client: the debug flag, the option that disables degraded operation, the counts of chunks, and the chunk size.\<close>

record ClientConfig =
  cc_isDegraded :: bool
  cc_disabled :: bool
  cc_k :: nat
  cc_m :: nat
  cc_chunkSize :: u32

definition isDegraded :: "ClientConfig \<Rightarrow> sockaddr_in \<Rightarrow> ClientTransit \<Rightarrow> bool \<times> ClientTransit" where
  "isDegraded cc s cl =
     (if cc_isDegraded cc then (True, cl) else let (flow, cl) = flow_locked s cl in (flow \<and> \<not> cc_disabled cc, cl))"

text \<open>The data chunk of a split of a large object is counted on from that of its key.\<close>

definition split_chunk :: "ClientConfig \<Rightarrow> byte list \<Rightarrow> u8 \<Rightarrow> nat \<Rightarrow> nat option" where
  "split_chunk cc key keySize c =
     do { off \<leftarrow> readSplitOffset key (unat keySize - 3);
          (index, _) \<leftarrow> getSplitIndex (cc_chunkSize cc) (keySize - 3) 0 off;
          if cc_k cc = 0 then None else Some (unat (of_nat c + index) mod cc_k cc) }"

definition any_degraded ::
  "ClientConfig \<Rightarrow> ServerSocket option list \<Rightarrow> ServerSocket option list \<Rightarrow> ClientTransit \<Rightarrow> (bool \<times> ClientTransit) option" where
  "any_degraded cc data parity cl =
     foldM (\<lambda>i (found, cl). if found then Some (True, cl)
        else do { s \<leftarrow> server_addr (cc_k cc) data parity i; Some (isDegraded cc s cl) }) [0..<cc_k cc + cc_m cc] (False, cl)"

definition degraded_data :: "ClientConfig \<Rightarrow> ServerSocket option list \<Rightarrow> entry \<Rightarrow> ClientTransit \<Rightarrow> (entry list \<times> ClientTransit) option" where
  "degraded_data cc data = (\<lambda>(l, c) cl.
     foldM (\<lambda>i (es, cl). if i = c then Some (es, cl)
        else do { s \<leftarrow> server_addr (cc_k cc) data [] i;
                  let (d, cl) = isDegraded cc s cl;
                  Some (if d then es @ [(l, i)] else es, cl) }) [0..<cc_k cc] ([], cl))"

text \<open>
  The result is the scheme, the socket of the data chunk, the flag \<^verbatim>\<open>useCoordinatedFlow\<close>, and the two arrays; \<open>split\<close>: the key carries the
  offset of a split.
\<close>

definition getServers ::
  "ClientConfig \<Rightarrow> RemapScheme \<Rightarrow> request \<Rightarrow> byte list \<Rightarrow> u8 \<Rightarrow> bool
     \<Rightarrow> (RemapScheme \<times> ServerSocket option \<times> bool \<times> entry list \<times> entry list) option" where
  "getServers cc rs opcode key keySize split =
     (if split \<and> keySize < 3 then None else
      do { (l, c, _, data, parity) \<leftarrow> sl_get_key (rs_lists rs) key (if split then keySize - 3 else keySize);
           c \<leftarrow> (if split then split_chunk cc key keySize c else Some c);
           original \<leftarrow> item_at data c;
           (flow, cl) \<leftarrow> (case opcode of
               REQ_SET \<Rightarrow> Some (True, rs_handler rs)
             | REQ_GET \<Rightarrow> do { s \<leftarrow> original; Some (isDegraded cc (sk_addr s) (rs_handler rs)) }
             | _ \<Rightarrow> any_degraded cc data parity (rs_handler rs));
           if \<not> flow then Some (rs\<lparr>rs_handler := cl\<rparr>, original, False, [], [])
           else do { (lost, cl) \<leftarrow> (if opcode = REQ_UPDATE \<or> opcode = REQ_DELETE then degraded_data cc data (l, c) cl else Some ([], cl));
                     let entries = (l, c) # map (\<lambda>i. (l, cc_k cc + i)) [0..<cc_m cc] @ lost;
                     (scheme, entries, remapped) \<leftarrow> redirect (Some (rs\<lparr>rs_handler := cl\<rparr>)) (cc_k cc) (cc_m cc) data parity (opcode = REQ_GET) entries;
                     rs \<leftarrow> scheme;
                     remapped \<leftarrow> remapped;
                     Some (rs, original, True, take (length remapped) entries, remapped) } })"

end
