(* ===== verification/RemapTargets.thy ===== *)
theory RemapTargets
  imports BasicRemap StripeLookup
begin

text \<open>
  The servers that \<^verbatim>\<open>BasicRemappingScheme::redirect\<close> chooses: its specification, which greedily gives every chunk of a failed server the least
  loaded server of the stripe that is in normal state and not in use, and the proof that the two loops meet it.
\<close>

section \<open>Specification\<close>

text \<open>\<open>addr j\<close> is the server of chunk \<open>j\<close> of the stripe; \<open>cs\<close> are the chunks of the request and \<open>used\<close> those chosen before.\<close>

definition latency_of :: "(sockaddr_in, Latency) ArrayMap \<Rightarrow> sockaddr_in \<Rightarrow> Latency option" where
  "latency_of loading s = fst (am_get loading s)"

text \<open>The servers of the stripe that are in normal state and not in use.\<close>

definition eligible :: "ClientTransit \<Rightarrow> (nat \<Rightarrow> sockaddr_in) \<Rightarrow> nat \<Rightarrow> nat set \<Rightarrow> nat set" where
  "eligible cl addr n used = {j. j < n \<and> j \<notin> used \<and> \<not> cl_useCoordinatedFlow cl (addr j)}"

text \<open>
  The choice \<open>t\<close> among the eligible servers \<open>E\<close>: the first of them if no latency is recorded for it (then it is never replaced), else the
  one of least latency among those with a recorded latency, the last one if several have it; chunk \<open>c\<close> stays in place if there is none.
\<close>

definition best_target ::
  "(sockaddr_in \<Rightarrow> Latency option) \<Rightarrow> (nat \<Rightarrow> sockaddr_in) \<Rightarrow> nat set \<Rightarrow> nat \<Rightarrow> nat \<Rightarrow> bool" where
  "best_target lat addr E c t \<longleftrightarrow>
     (if E = {} then t = c
      else case lat (addr (Min E)) of
        None \<Rightarrow> t = Min E
      | Some _ \<Rightarrow> t \<in> E \<and> (case lat (addr t) of
            None \<Rightarrow> False
          | Some a \<Rightarrow> \<forall>j\<in>E. case lat (addr j) of None \<Rightarrow> True | Some b \<Rightarrow> lat_less a b \<and> (t < j \<longrightarrow> \<not> lat_less b a)))"

fun placed ::
  "ClientTransit \<Rightarrow> (sockaddr_in \<Rightarrow> Latency option) \<Rightarrow> (nat \<Rightarrow> sockaddr_in) \<Rightarrow> nat \<Rightarrow> nat set \<Rightarrow> nat list \<Rightarrow> nat list \<Rightarrow> bool" where
  "placed cl lat addr n used [] ts \<longleftrightarrow> ts = []"
| "placed cl lat addr n used (c # cs) [] \<longleftrightarrow> False"
| "placed cl lat addr n used (c # cs) (t # ts) \<longleftrightarrow>
     best_target lat addr (eligible cl addr n used) c t \<and> placed cl lat addr n (if t = c then used else insert t used) cs ts"

definition stripe_of ::
  "RemapScheme \<Rightarrow> nat \<Rightarrow> nat \<Rightarrow> ServerSocket option list \<Rightarrow> ServerSocket option list \<Rightarrow> nat \<Rightarrow> (nat \<Rightarrow> sockaddr_in) \<Rightarrow> bool" where
  "stripe_of rs k m data parity l addr \<longleftrightarrow>
     (\<forall>j<k + m. server_addr k data parity j = Some (addr j) \<and> list_addr (rs_lists rs) (l, j) = Some (addr j)) \<and> inj_on addr {..<k + m}"

text \<open>The chunks that are remapped.\<close>

definition remaps :: "ClientTransit \<Rightarrow> nat \<Rightarrow> bool \<Rightarrow> (nat \<Rightarrow> sockaddr_in) \<Rightarrow> nat \<Rightarrow> bool" where
  "remaps cl k isGet addr c \<longleftrightarrow> cl_allowRemapping cl (addr c) \<and> (\<not> isGet \<or> c < k)"

section \<open>Lemmas\<close>

lemma lat_less_refl: "lat_less a a"
  by (simp add: lat_less_def)

lemma lat_less_trans: "lat_less a b \<Longrightarrow> lat_less b c \<Longrightarrow> lat_less a c"
  by (auto simp: lat_less_def split: if_splits)

lemma lat_less_total: "\<not> lat_less a b \<Longrightarrow> lat_less b a"
  by (auto simp: lat_less_def split: if_splits)

lemma allow_flow: "cl_allowRemapping cl s \<Longrightarrow> cl_useCoordinatedFlow cl s"
  by (auto simp: cl_allowRemapping_def cl_useCoordinatedFlow_def split: option.splits)

lemma flow_locked_states [simp]: "cl_states (snd (flow_locked s cl)) = cl_states cl" "fst (flow_locked s cl) = cl_useCoordinatedFlow cl s"
  by (simp_all add: flow_locked_def)

lemma flow_states: "cl_states (cl' :: ClientTransit) = cl_states cl \<Longrightarrow> cl_useCoordinatedFlow cl' s = cl_useCoordinatedFlow cl s"
  by (simp add: cl_useCoordinatedFlow_def)

lemma eligible_states:
  assumes "cl_states cl' = cl_states cl"
  shows "eligible cl' addr n used = eligible cl addr n used"
  by (simp add: eligible_def flow_states [OF assms])

lemma eligible_Suc:
  "eligible cl addr (Suc n) used = (if n \<in> used \<or> cl_useCoordinatedFlow cl (addr n) then eligible cl addr n used else insert n (eligible cl addr n used))"
  by (auto simp: eligible_def less_Suc_eq)

lemma latency_update:
  assumes "am_get loading s = (Some x, Some i)" "s' \<noteq> s"
  shows "latency_of (loading\<lparr>am_values := (am_values loading)[i := v]\<rparr>) s' = latency_of loading s'"
  using assms indexOf_Some [of loading s] indexOf_Some [of loading s']
  by (auto simp: latency_of_def am_get_def indexOf_def split: option.splits) (metis nth_list_update_neq)

lemma best_in: "best_target lat addr E c t \<Longrightarrow> finite E \<Longrightarrow> if E = {} then t = c else t \<in> E"
  by (auto simp: best_target_def split: option.splits if_splits)

lemma least_first: "best_target lat addr {i} c i"
  by (simp add: best_target_def lat_less_refl split: option.splits)

lemma Min_insert_last: "finite E \<Longrightarrow> E \<noteq> {} \<Longrightarrow> \<forall>j\<in>E. j < (i :: nat) \<Longrightarrow> Min (insert i E) = Min E"
  by (metis Min_in Min_insert less_imp_le min_absorb2)

lemma best_better:
  assumes best: "best_target lat addr E c r" and E: "finite E" "E \<noteq> {}" "\<forall>j\<in>E. j < i"
    and lat: "lat (addr r) = Some a" "lat (addr i) = Some b" "lat_less b a"
  shows "best_target lat addr (insert i E) c i"
proof -
  obtain a0 where least: "lat (addr (Min E)) = Some a0" using best E lat(1) by (auto simp: best_target_def split: option.splits)
  have "lat_less b b'" if "j \<in> E" "lat (addr j) = Some b'" for j b'
    using best E that least lat by (auto simp: best_target_def dest!: bspec [of _ _ j] intro: lat_less_trans)
  then show ?thesis using lat E least
    by (auto simp: best_target_def Min_insert_last [OF E] lat_less_refl split: option.splits)
qed

lemma best_keep:
  assumes best: "best_target lat addr E c r" and E: "finite E" "E \<noteq> {}" "\<forall>j\<in>E. j < i"
    and lat: "\<And>a b. lat (addr r) = Some a \<Longrightarrow> lat (addr i) = Some b \<Longrightarrow> \<not> lat_less b a"
  shows "best_target lat addr (insert i E) c r"
proof (cases "lat (addr (Min E))")
  case None
  then show ?thesis using best E by (simp add: best_target_def Min_insert_last [OF E])
next
  case (Some a0)
  then obtain a where "lat (addr r) = Some a" "r \<in> E" using best E by (auto simp: best_target_def split: option.splits)
  then show ?thesis using best E lat Some lat_less_total
    by (auto simp: best_target_def Min_insert_last [OF E] split: option.splits)
qed

lemma best_cong:
  assumes "\<And>j. j \<in> E \<Longrightarrow> lat (addr j) = lat' (addr j)" and "finite E"
  shows "best_target lat addr E c t = best_target lat' addr E c t"
proof (cases "E = {}")
  case False
  then have "Min E \<in> E" using assms(2) by simp
  then show ?thesis using assms by (cases "t \<in> E") (auto simp: best_target_def split: option.splits)
qed (simp add: best_target_def)

lemma eligible_finite [simp]: "finite (eligible cl addr n used)"
  by (rule finite_subset [of _ "{..<n}"]) (auto simp: eligible_def)

section \<open>The loops\<close>

lemma choose_target:
  assumes lay: "\<And>j. j < n \<Longrightarrow> server_addr k data parity j = Some (addr j) \<and> (addr j \<in> taboo \<or> addr j \<in> redirected \<longleftrightarrow> j \<in> used)"
    and c: "c \<notin> eligible cl addr n used"
  shows "\<exists>r target cl'. foldM (try_server loading k data parity taboo redirected c) [0..<n] (c, None, cl) = Some (r, target, cl')
    \<and> cl_states cl' = cl_states cl \<and> best_target (latency_of loading) addr (eligible cl addr n used) c r"
proof -
  let ?P = "\<lambda>i (r, target, cl' :: ClientTransit). cl_states cl' = cl_states cl \<and> best_target (latency_of loading) addr (eligible cl addr i used) c r
     \<and> (eligible cl addr i used \<noteq> {} \<longrightarrow> target = latency_of loading (addr r))"
  have "\<exists>s'. foldM (try_server loading k data parity taboo redirected c) [0..<n] (c, None, cl) = Some s' \<and> ?P n s'"
  proof (rule foldM_upt_inv)
    fix i s
    assume i: "i < n" and "?P i s"
    then obtain r target cl' where s: "s = (r, target, cl')" and st: "cl_states cl' = cl_states cl"
      and best: "best_target (latency_of loading) addr (eligible cl addr i used) c r"
      and target: "eligible cl addr i used \<noteq> {} \<longrightarrow> target = latency_of loading (addr r)" by (cases s) auto
    let ?E = "eligible cl addr i used"
    note here = lay [OF i]
    have flow: "cl_useCoordinatedFlow cl' (addr i) = cl_useCoordinatedFlow cl (addr i)" by (rule flow_states [OF st])
    have new: "r = c \<longleftrightarrow> ?E = {}"
      using best_in [OF best] c i by (auto simp: eligible_def split: if_splits)
    show "\<exists>s'. try_server loading k data parity taboo redirected c i s = Some s' \<and> ?P (Suc i) s'"
    proof (cases "i \<in> used \<or> cl_useCoordinatedFlow cl (addr i)")
      case True
      then show ?thesis using here st best target flow by (auto simp: s try_server_def eligible_Suc case_prod_unfold Let_def)
    next
      case False
      then have E: "eligible cl addr (Suc i) used = insert i ?E" by (simp add: eligible_Suc)
      let ?node = "latency_of loading (addr i)" and ?cl = "snd (flow_locked (addr i) cl')"
      have step: "try_server loading k data parity taboo redirected c i s = Some
        (if ?E = {} then (i, ?node, ?cl)
         else case (target, ?node) of (Some t, Some x) \<Rightarrow> if lat_less x t then (i, ?node, ?cl) else (r, target, ?cl) | _ \<Rightarrow> (r, target, ?cl))"
        using here False flow new
        by (simp add: s try_server_def case_prod_unfold Let_def latency_of_def split: option.splits)
      show ?thesis
      proof (cases "?E = {}")
        case True
        then show ?thesis using step st by (simp add: E least_first)
      next
        case some: False
        then have t: "target = latency_of loading (addr r)" using target by simp
        have below: "\<forall>j\<in>?E. j < i" by (simp add: eligible_def)
        show ?thesis unfolding step E t
          using st some by (auto split: option.splits intro: best_keep [OF best eligible_finite some below] best_better [OF best eligible_finite some below])
      qed
    qed
  qed (simp add: best_target_def eligible_def)
  then show ?thesis by auto
qed

lemma scan_all:
  assumes lay: "\<And>j. j < k + m \<Longrightarrow> server_addr k data parity j = Some (addr j)" and cs: "\<forall>c\<in>set cs. c < k + m" "length cs \<le> k"
  shows "foldM (scan_entry cl k m data parity isGet (map (Pair l) cs)) [0..<length (map (Pair l) cs)] ([], {})
    = Some (map (Pair l) (filter (remaps cl k isGet addr) cs), addr ` set cs)"
proof -
  have "foldM (scan_entry cl k m data parity isGet (map (Pair l) cs)) [0..<n] ([], {})
      = Some (map (Pair l) (filter (remaps cl k isGet addr) (take n cs)), addr ` set (take n cs))" if "n \<le> length cs" for n
    using that
  proof (induction n)
    case (Suc n)
    then have n: "n < length cs" and "cs ! n < k + m" using cs(1) by auto
    then show ?case using Suc lay [of "cs ! n"] cs(2)
      by (simp add: foldM_append scan_entry_def item_at_def take_Suc_conv_app_nth remaps_def)
  qed simp
  from this [of "length cs"] show ?thesis by simp
qed

lemma remap_all:
  assumes lay: "stripe_of rs0 k m data parity l addr" and cs: "\<forall>c\<in>set cs. c < k + m" "\<forall>c\<in>set cs. cl_useCoordinatedFlow cl (addr c)"
    and taboo: "taboo = addr ` original" "original \<subseteq> {..<k + m}" and used: "used \<subseteq> {..<k + m}" "original \<subseteq> used"
    and rs: "rs_lists rs = rs_lists rs0" "cl_states (rs_handler rs) = cl_states cl"
      "\<forall>j<k + m. j \<notin> used \<longrightarrow> latency_of (rs_loading rs) (addr j) = lat (addr j)"
  shows "\<exists>rs' redirected ts. foldM (remap_entry k m data parity taboo) (map (Pair l) cs) (rs, addr ` (used - original), out)
      = Some (rs', redirected, out @ map (Pair l) ts) \<and> placed cl lat addr (k + m) used cs ts \<and> cl_states (rs_handler rs') = cl_states cl"
  using cs used rs
proof (induction cs arbitrary: used rs out)
  case Nil
  then show ?case by (intro exI [of _ rs] exI [of _ "addr ` (used - original)"] exI [of _ "[]"]) simp
next
  case (Cons c cs)
  have inj: "inj_on addr {..<k + m}" and at: "\<And>j. j < k + m \<Longrightarrow> server_addr k data parity j = Some (addr j) \<and> list_addr (rs_lists rs) (l, j) = Some (addr j)"
    using lay Cons.prems(5) by (auto simp: stripe_of_def)
  have mem: "addr j \<in> addr ` A \<longleftrightarrow> j \<in> A" if "j < k + m" "A \<subseteq> {..<k + m}" for j A
    using inj_on_image_mem_iff [OF inj] that by auto
  have in_use: "addr j \<in> taboo \<or> addr j \<in> addr ` (used - original) \<longleftrightarrow> j \<in> used" if "j < k + m" for j
    using mem [OF that taboo(2)] mem [OF that, of "used - original"] taboo Cons.prems(3,4) by auto
  have "c \<notin> eligible (rs_handler rs) addr (k + m) used"
    using Cons.prems(2) flow_states [OF Cons.prems(6)] by (simp add: eligible_def)
  with choose_target [of "k + m" k data parity addr taboo "addr ` (used - original)" used c "rs_handler rs" "rs_loading rs"] at in_use
  obtain r target cl' where pick: "foldM (try_server (rs_loading rs) k data parity taboo (addr ` (used - original)) c) [0..<k + m] (c, None, rs_handler rs) = Some (r, target, cl')"
    and cl': "cl_states cl' = cl_states cl" and best: "best_target (latency_of (rs_loading rs)) addr (eligible cl addr (k + m) used) c r"
    using Cons.prems(6) by (auto simp: eligible_states [OF Cons.prems(6)])
  have best: "best_target lat addr (eligible cl addr (k + m) used) c r"
    using best Cons.prems(7) by (subst best_cong [where lat' = "latency_of (rs_loading rs)"]) (auto simp: eligible_def)
  have c: "c < k + m" using Cons.prems(1) by simp
  let ?rs = "rs\<lparr>rs_handler := cl'\<rparr>"
  show ?case
  proof (cases "r = c")
    case True
    have "remap_entry k m data parity taboo (l, c) (rs, addr ` (used - original), out) = Some (?rs, addr ` (used - original), out @ [(l, c)])"
      using at [OF c] pick True by (simp add: remap_entry_def)
    moreover note Cons.IH [of used ?rs "out @ [(l, c)]"]
    ultimately show ?thesis using Cons.prems cl' best True by (fastforce simp: exI [of _ "c # _"])
  next
    case False
    then have r: "r < k + m" "r \<notin> used" using best_in [OF best] by (auto simp: eligible_def split: if_splits)
    define loading where "loading = (case am_get (rs_loading rs) (addr r) of
       (Some x, Some i) \<Rightarrow> (rs_loading rs)\<lparr>am_values := (am_values (rs_loading rs))[i := lat_add x increment]\<rparr> | _ \<Rightarrow> rs_loading rs)"
    have entry: "remap_entry k m data parity taboo (l, c) (rs, addr ` (used - original), out)
        = Some (?rs\<lparr>rs_loading := loading\<rparr>, insert (addr r) (addr ` (used - original)), out @ [(l, r)])"
      using at [OF c] at [OF r(1)] pick False by (simp add: remap_entry_def loading_def Let_def split: prod.splits option.splits)
    have loading: "latency_of loading s = latency_of (rs_loading rs) s" if "s \<noteq> addr r" for s
      using that latency_update by (auto simp: loading_def split: prod.splits option.splits)
    have "insert (addr r) (addr ` (used - original)) = addr ` (insert r used - original)" using r(2) Cons.prems(4) by auto
    moreover have "\<forall>j<k + m. j \<notin> insert r used \<longrightarrow> latency_of loading (addr j) = lat (addr j)"
      using Cons.prems(7) r(1) inj_onD [OF inj] by (metis insert_iff lessThan_iff loading)
    ultimately obtain rs' redirected ts where "foldM (remap_entry k m data parity taboo) (map (Pair l) cs)
        (?rs\<lparr>rs_loading := loading\<rparr>, insert (addr r) (addr ` (used - original)), out @ [(l, r)]) = Some (rs', redirected, (out @ [(l, r)]) @ map (Pair l) ts)"
      and "placed cl lat addr (k + m) (insert r used) cs ts" "cl_states (rs_handler rs') = cl_states cl"
      using Cons.IH [of "insert r used" "?rs\<lparr>rs_loading := loading\<rparr>" "out @ [(l, r)]"] Cons.prems cl' r(1) by (simp; blast)
    then show ?thesis using entry best False
      by (intro exI [of _ rs'] exI [of _ redirected] exI [of _ "r # ts"]) simp
  qed
qed

lemma placed_facts:
  assumes "placed cl lat addr n used cs ts"
  shows "length ts = length cs" "\<forall>(c, t)\<in>set (zip cs ts). t = c \<or> t < n \<and> t \<notin> used \<and> \<not> cl_useCoordinatedFlow cl (addr t)"
    "distinct [t. (c, t) \<leftarrow> zip cs ts, t \<noteq> c]"
proof -
  have "length ts = length cs \<and> (\<forall>(c, t)\<in>set (zip cs ts). t = c \<or> t < n \<and> t \<notin> used \<and> \<not> cl_useCoordinatedFlow cl (addr t))
    \<and> distinct [t. (c, t) \<leftarrow> zip cs ts, t \<noteq> c]"
    using assms
  proof (induction cl lat addr n used cs ts rule: placed.induct)
    case (3 cl lat addr n used c cs t ts)
    then have "t = c \<or> t \<in> eligible cl addr n used" using best_in [of lat addr "eligible cl addr n used" c t] by (auto split: if_splits)
    with 3 show ?case by (auto simp: eligible_def split: if_splits)
  qed auto
  then show "length ts = length cs" "\<forall>(c, t)\<in>set (zip cs ts). t = c \<or> t < n \<and> t \<notin> used \<and> \<not> cl_useCoordinatedFlow cl (addr t)"
    "distinct [t. (c, t) \<leftarrow> zip cs ts, t \<noteq> c]" by blast+
qed

lemma redirect_all:
  assumes "stripe_of rs k m data parity l addr" and "\<forall>c\<in>set cs. c < k + m" and "length cs \<le> k"
  shows "\<exists>rs' ts. redirect (Some rs) k m data parity isGet (map (Pair l) cs)
      = Some (Some rs', map (Pair l) (filter (remaps (rs_handler rs) k isGet addr) cs
               @ drop (length (filter (remaps (rs_handler rs) k isGet addr) cs)) cs), Some (map (Pair l) ts))
    \<and> placed (rs_handler rs) (latency_of (rs_loading rs)) addr (k + m) (set cs) (filter (remaps (rs_handler rs) k isGet addr) cs) ts"
proof -
  let ?taken = "filter (remaps (rs_handler rs) k isGet addr) cs"
  have scan: "foldM (scan_entry (rs_handler rs) k m data parity isGet (map (Pair l) cs)) [0..<length (map (Pair l) cs)] ([], {})
      = Some (map (Pair l) ?taken, addr ` set cs)"
    using assms by (intro scan_all) (auto simp: stripe_of_def)
  obtain rs' redirected ts where remap: "foldM (remap_entry k m data parity (addr ` set cs)) (map (Pair l) ?taken) (rs, {}, [])
      = Some (rs', redirected, map (Pair l) ts)"
    and placed: "placed (rs_handler rs) (latency_of (rs_loading rs)) addr (k + m) (set cs) ?taken ts"
    using remap_all [OF assms(1), of ?taken "rs_handler rs" "addr ` set cs" "set cs" "set cs" rs "latency_of (rs_loading rs)" "[]"] assms(2) allow_flow
    by (auto simp: remaps_def)
  show ?thesis using scan remap placed
    by (intro exI [of _ rs'] exI [of _ ts]) (simp add: redirect_def drop_map)
qed

section \<open>Properties\<close>

text \<open>
  C17. For a request with at most \<open>k\<close> entries, \<open>redirect\<close> remaps exactly the chunks of servers that allow it (for GET only the data
  chunk), each to a server of the stripe that is in normal state, holds no chunk of the request and has not been chosen before: the first one
  of these in the order of the stripe if no latency is recorded for it, else the last one whose recorded latency is least among those with
  a recorded latency. A chunk is left alone only if there is no such server. The servers chosen are distinct.
\<close>

theorem redirect_targets:
  assumes "stripe_of rs k m data parity l addr" and "\<forall>c\<in>set cs. c < k + m" and "length cs \<le> k"
  shows "\<exists>rs' ts. redirect (Some rs) k m data parity isGet (map (Pair l) cs)
      = Some (Some rs', map (Pair l) (filter (remaps (rs_handler rs) k isGet addr) cs
               @ drop (length (filter (remaps (rs_handler rs) k isGet addr) cs)) cs), Some (map (Pair l) ts))
    \<and> placed (rs_handler rs) (latency_of (rs_loading rs)) addr (k + m) (set cs) (filter (remaps (rs_handler rs) k isGet addr) cs) ts
    \<and> distinct [t. (c, t) \<leftarrow> zip (filter (remaps (rs_handler rs) k isGet addr) cs) ts, t \<noteq> c]"
  using redirect_all [OF assms, of isGet] placed_facts(3) by blast

text \<open>The sockets of a well-formed stripe list, as \<open>getServers\<close> looks them up for a key.\<close>

lemma key_stripe:
  assumes wf: "sl_wf sl" and k: "0 < sl_k sl" "0 < sl_numLists sl" and key: "unat keySize \<le> length key"
    and inj: "inj_on (\<lambda>j. sk_addr (sl_servers sl ! j)) {..<sl_numServers sl}" and lists: "rs_lists rs = sl" and n: "sl_n sl = sl_k sl + m"
  shows "\<exists>l d js data parity. d < sl_k sl \<and> length js = sl_n sl \<and> set js \<subseteq> {..<sl_numServers sl}
    \<and> sl_get_key sl key keySize = Some (l, d, Some (sl_servers sl ! (js ! d)), data, parity) \<and> item_at data d = Some (Some (sl_servers sl ! (js ! d)))
    \<and> data = map (\<lambda>c. Some (sl_servers sl ! (js ! c))) [0..<sl_k sl] \<and> parity = map (\<lambda>c. Some (sl_servers sl ! (js ! c))) [sl_k sl..<sl_n sl]
    \<and> stripe_of rs (sl_k sl) m data parity l (\<lambda>c. sk_addr (sl_servers sl ! (js ! c)))"
proof -
  let ?h = "hash_of (take (unat keySize) key)"
  let ?d = "unat ?h mod sl_k sl"
  have h: "hash key (ucast keySize) = Some ?h" using hash_eq_hash_of [of "ucast keySize" key] key by simp
  obtain l where l: "l < sl_numLists sl" "list_of_hash sl ?h = Some l" using list_of_hash_total k(2) by blast
  note w = sl_wf_places [OF wf l(1)] and c = sl_wf_slices [OF wf l(1)]
  let ?js = "places sl l"
  let ?srv = "map (\<lambda>j. Some (sl_servers sl ! j)) ?js"
  have d: "?d < sl_k sl" using k(1) by simp
  have get: "sl_get_key sl key keySize = Some (l, ?d, Some (sl_servers sl ! (?js ! ?d)), take (sl_k sl) ?srv, drop (sl_k sl) ?srv)"
    using h l w c k(1) d n by (simp add: w(1) [symmetric] sl_get_key_def item_at_def Let_def) (simp add: w(1) n)
  have "inj_on (\<lambda>c. sk_addr (sl_servers sl ! (?js ! c))) {..<sl_k sl + m}"
  proof (rule inj_onI)
    fix a b
    assume ab: "a \<in> {..<sl_k sl + m}" "b \<in> {..<sl_k sl + m}" "sk_addr (sl_servers sl ! (?js ! a)) = sk_addr (sl_servers sl ! (?js ! b))"
    then have "?js ! a = ?js ! b" using inj_onD [OF inj ab(3)] w(3,4) n by (auto simp: subset_iff)
    then show "a = b" using w(2,4) ab n by (simp add: nth_eq_iff_index_eq)
  qed
  then have "stripe_of rs (sl_k sl) m (take (sl_k sl) ?srv) (drop (sl_k sl) ?srv) l (\<lambda>c. sk_addr (sl_servers sl ! (?js ! c)))"
    using w lists n by (auto simp: stripe_of_def server_addr_def list_addr_def sl_get_chunk_def item_at_def)
  moreover have "take (sl_k sl) ?srv = map (\<lambda>c. Some (sl_servers sl ! (?js ! c))) [0..<sl_k sl]"
    "drop (sl_k sl) ?srv = map (\<lambda>c. Some (sl_servers sl ! (?js ! c))) [sl_k sl..<sl_n sl]"
    using w(4) n by (auto intro!: nth_equalityI)
  ultimately show ?thesis using d w(3,4) get n by (intro exI [of _ l] exI [of _ ?d] exI [of _ ?js] exI) (auto simp: item_at_def)
qed

text \<open>
  C9. Setting an object while servers are failing: if a stripe has at least as many data chunks as the object has copies (\<open>1 + m \<le> k\<close>), \<open>getServers\<close>
  takes the \<open>k + m\<close> servers the stripe list gives for the key and asks to remap exactly those of the data chunk and the parity chunks that
  sit on a server which allows it, each to a server in normal state that holds no chunk of the
  object, no two to the same server, or leaves it in place.
\<close>

theorem set_targets_safe:
  assumes "sl_wf (rs_lists rs)" and "sl_k (rs_lists rs) = cc_k cc" and "sl_n (rs_lists rs) = cc_k cc + cc_m cc" and "0 < sl_numLists (rs_lists rs)"
    and "1 + cc_m cc \<le> cc_k cc" and "unat keySize \<le> length key"
    and "inj_on (\<lambda>j. sk_addr (sl_servers (rs_lists rs) ! j)) {..<sl_numServers (rs_lists rs)}"
  shows "\<exists>rs' l d js ts. d < cc_k cc \<and> set js \<subseteq> {..<sl_numServers (rs_lists rs)} \<and> length js = cc_k cc + cc_m cc
    \<and> (let srv = (\<lambda>c. sl_servers (rs_lists rs) ! (js ! c));
           cs = filter (\<lambda>c. cl_allowRemapping (rs_handler rs) (sk_addr (srv c))) (d # [cc_k cc..<cc_k cc + cc_m cc]) in
       sl_get_key (rs_lists rs) key keySize
         = Some (l, d, Some (srv d), map (Some \<circ> srv) [0..<cc_k cc], map (Some \<circ> srv) [cc_k cc..<cc_k cc + cc_m cc])
       \<and> getServers cc rs REQ_SET key keySize False = Some (rs', Some (srv d), True, map (Pair l) cs, map (Pair l) ts)
       \<and> length ts = length cs \<and> distinct [t. (c, t) \<leftarrow> zip cs ts, t \<noteq> c]
       \<and> (\<forall>(c, t)\<in>set (zip cs ts). t = c \<or> t < cc_k cc \<and> t \<noteq> d \<and> \<not> cl_useCoordinatedFlow (rs_handler rs) (sk_addr (srv t))))"
proof -
  let ?sl = "rs_lists rs" and ?cl = "rs_handler rs"
  obtain l d js data parity where d: "d < sl_k ?sl" and js: "length js = sl_n ?sl" "set js \<subseteq> {..<sl_numServers ?sl}"
    and get: "sl_get_key ?sl key keySize = Some (l, d, Some (sl_servers ?sl ! (js ! d)), data, parity)"
      "item_at data d = Some (Some (sl_servers ?sl ! (js ! d)))"
    and chunks: "data = map (\<lambda>c. Some (sl_servers ?sl ! (js ! c))) [0..<sl_k ?sl]" "parity = map (\<lambda>c. Some (sl_servers ?sl ! (js ! c))) [sl_k ?sl..<sl_n ?sl]"
    and stripe: "stripe_of rs (sl_k ?sl) (cc_m cc) data parity l (\<lambda>c. sk_addr (sl_servers ?sl ! (js ! c)))"
    using key_stripe [OF assms(1) _ assms(4,6,7) refl, of "cc_m cc"] assms(2,3,5) by auto
  let ?addr = "\<lambda>c. sk_addr (sl_servers ?sl ! (js ! c))" and ?k = "cc_k cc" and ?m = "cc_m cc"
  let ?all = "d # [?k..<?k + ?m]"
  let ?taken = "filter (remaps ?cl ?k False ?addr) ?all"
  have stripe: "stripe_of rs ?k ?m data parity l ?addr" and d: "d < ?k" using stripe d assms(2) by simp_all
  obtain rs' ts where red: "redirect (Some rs) ?k ?m data parity False (map (Pair l) ?all)
      = Some (Some rs', map (Pair l) (?taken @ drop (length ?taken) ?all), Some (map (Pair l) ts))"
    and placed: "placed ?cl (latency_of (rs_loading rs)) ?addr (?k + ?m) (set ?all) ?taken ts"
    using redirect_all [OF stripe, of ?all False] d assms(5) by auto
  note facts = placed_facts [OF placed]
  have "getServers cc rs REQ_SET key keySize False = Some (rs', Some (sl_servers ?sl ! (js ! d)), True, map (Pair l) ?taken, map (Pair l) ts)"
  proof -
    define es where "es = map (Pair l) ?all"
    have es: "(l, d) # map (\<lambda>i. (l, ?k + i)) [0..<?m] = es" unfolding es_def by (rule nth_equalityI) (auto simp: nth_Cons split: nat.splits)
    have red: "redirect (Some rs) ?k ?m data parity False es = Some (Some rs', map (Pair l) (?taken @ drop (length ?taken) ?all), Some (map (Pair l) ts))"
      using red unfolding es_def .
    define taken rest where "taken = ?taken" and "rest = drop (length ?taken) ?all"
    show ?thesis using red get facts(1) unfolding taken_def [symmetric] rest_def [symmetric]
      by (simp add: getServers_def es)
  qed
  moreover have "?taken = filter (\<lambda>c. cl_allowRemapping ?cl (?addr c)) ?all" by (simp add: remaps_def cong: filter_cong)
  moreover have "\<forall>(c, t)\<in>set (zip ?taken ts). t = c \<or> t < ?k \<and> t \<noteq> d \<and> \<not> cl_useCoordinatedFlow ?cl (?addr t)"
    using facts(2) by (fastforce simp: not_less)
  moreover have "sl_get_key ?sl key keySize = Some (l, d, Some (sl_servers ?sl ! (js ! d)),
      map (Some \<circ> (\<lambda>c. sl_servers ?sl ! (js ! c))) [0..<?k], map (Some \<circ> (\<lambda>c. sl_servers ?sl ! (js ! c))) [?k..<?k + ?m])"
    using get(1) chunks assms(2,3) by (simp add: comp_def)
  ultimately show ?thesis using d js assms(3) facts(1,3)
    by (intro exI [of _ rs'] exI [of _ l] exI [of _ d] exI [of _ js] exI [of _ ts]) (simp add: Let_def)
qed

text \<open>Stripes of servers with the ids of their chunks, of which server 2, which holds a parity chunk, is degraded.\<close>

definition remap_server :: "nat \<Rightarrow> ServerSocket" where "remap_server j = \<lparr>sk_instanceId = of_nat j, sk_addr = Sockaddr (of_nat j) 1\<rparr>"

definition remap_scheme :: "nat \<Rightarrow> nat \<Rightarrow> RemapScheme" where
  "remap_scheme k n =
     \<lparr>rs_loading = am_new, rs_overloaded = {},
      rs_lists = \<lparr>sl_n = n, sl_k = k, sl_numLists = 1, sl_numServers = n, sl_generated = True, sl_useAlgo = True, sl_data = bm_new n 1,
        sl_parity = bm_new n 1, sl_load = replicate n 0, sl_count = replicate n 0, sl_servers = map remap_server [0..<n],
        sl_lists = [map (Some \<circ> remap_server) [0..<n]]\<rparr>,
      rs_handler = \<lparr>cl_states = [Sockaddr 2 1 \<mapsto> STATE_DEGRADED], cl_info = Map.empty, cl_locks = {}, cl_sent = []\<rparr>\<rparr>"

definition remap_data :: "nat \<Rightarrow> ServerSocket option list" where "remap_data k = map (Some \<circ> remap_server) [0..<k]"
definition remap_parity :: "nat \<Rightarrow> nat \<Rightarrow> ServerSocket option list" where "remap_parity k n = map (Some \<circ> remap_server) [k..<n]"

text \<open>The latencies that are recorded for servers 1 and 2.\<close>

definition remap_loading :: "(sockaddr_in, Latency) ArrayMap" where
  "remap_loading = \<lparr>am_keys = [Sockaddr 1 1, Sockaddr 3 1], am_values = [\<lparr>lt_sec = 2, lt_nsec = 5\<rparr>, \<lparr>lt_sec = 1, lt_nsec = 9\<rparr>], am_needsDelete = True\<rparr>"

lemma remap_stripe: "stripe_of (remap_scheme 4 5\<lparr>rs_loading := remap_loading\<rparr>) 4 1 (remap_data 4) (remap_parity 4 5) 0 (\<lambda>j. Sockaddr (of_nat j) 1)"
proof -
  have "{..<5} = {0, 1, 2, 3, 4 :: nat}" by auto
  then have "inj_on (\<lambda>j. Sockaddr (of_nat j) 1) {..<5}" by simp
  moreover have "server_addr 4 (remap_data 4) (remap_parity 4 5) j = Some (Sockaddr (of_nat j) 1)
      \<and> list_addr (rs_lists (remap_scheme 4 5)) (0, j) = Some (Sockaddr (of_nat j) 1)" if "j < 5" for j
  proof -
    have "j = 0 \<or> j = 1 \<or> j = 2 \<or> j = 3 \<or> j = 4" using that by auto
    then show ?thesis by (elim disjE) (simp_all add: server_addr_def list_addr_def item_at_def remap_data_def remap_parity_def remap_scheme_def sl_get_chunk_def remap_server_def upt_rec numeral_eq_Suc)
  qed
  ultimately show ?thesis by (simp add: stripe_of_def)
qed

text \<open>Chunk 2 of the request is on the failed server; servers 1 and 3 are eligible, and server 3 is the less loaded one.\<close>

theorem redirect_targets_witness:
  "\<exists>rs'. redirect (Some (remap_scheme 4 5\<lparr>rs_loading := remap_loading\<rparr>)) 4 1 (remap_data 4) (remap_parity 4 5) False [(0, 0), (0, 2), (0, 4)]
     = Some (Some rs', [(0, 2), (0, 2), (0, 4)], Some [(0, 3)])"
proof -
  let ?rs = "remap_scheme 4 5\<lparr>rs_loading := remap_loading\<rparr>" and ?addr = "\<lambda>j. Sockaddr (of_nat j) 1"
  have taken: "filter (remaps (rs_handler ?rs) 4 False ?addr) [0, 2, 4] = [2]"
    by (simp add: remaps_def remap_scheme_def cl_allowRemapping_def)
  have two: "eligible (rs_handler ?rs) ?addr 5 (set [0, 2, 4]) = {1, 3}"
  proof -
    have "{j. j < 5 \<and> j \<notin> set [0, 2, 4 :: nat]} = {1, 3}" by auto
    then show ?thesis by (fastforce simp: eligible_def remap_scheme_def cl_useCoordinatedFlow_def)
  qed
  have lat: "latency_of remap_loading (Sockaddr 1 1) = Some \<lparr>lt_sec = 2, lt_nsec = 5\<rparr>"
    "latency_of remap_loading (Sockaddr 3 1) = Some \<lparr>lt_sec = 1, lt_nsec = 9\<rparr>"
    by (simp_all add: latency_of_def am_get_def indexOf_def remap_loading_def)
  obtain rs' ts where red: "redirect (Some ?rs) 4 1 (remap_data 4) (remap_parity 4 5) False (map (Pair 0) [0, 2, 4])
      = Some (Some rs', map (Pair 0) ([2] @ drop 1 [0, 2, 4]), Some (map (Pair 0) ts))"
    and placed: "placed (rs_handler ?rs) (latency_of (rs_loading ?rs)) ?addr 5 (set [0, 2, 4]) [2] ts"
    using redirect_targets [OF remap_stripe, of "[0, 2, 4]" False] unfolding taken by auto
  obtain t where ts: "ts = [t]" and best: "best_target (latency_of remap_loading) ?addr {1, 3} 2 t"
    using placed unfolding two [symmetric] by (cases ts; cases "tl ts") auto
  have "Min {1, 3 :: nat} = 1" by simp
  then have "t = 3" using best lat by (auto simp: best_target_def lat_less_def simp del: Min_insert)
  then show ?thesis using red by (auto simp: ts)
qed

theorem set_targets_safe_witness:
  "\<exists>sl. sl_new 3 2 1 (map remap_server [0..<3]) True [] = Some (sl, [])
     \<and> (\<exists>rs' l d js ts. d < 2 \<and> set js \<subseteq> {..<3} \<and> length js = 3 \<and>
       (let cs = filter (\<lambda>c. cl_allowRemapping (rs_handler (remap_scheme 2 3)) (sk_addr (map remap_server [0..<3] ! (js ! c)))) (d # [2..<2 + 1]) in
        getServers \<lparr>cc_isDegraded = False, cc_disabled = False, cc_k = 2, cc_m = 1, cc_chunkSize = 4096\<rparr>
           ((remap_scheme 2 3)\<lparr>rs_lists := sl\<rparr>) REQ_SET [107] 1 False
         = Some (rs', Some (map remap_server [0..<3] ! (js ! d)), True, map (Pair l) cs, map (Pair l) ts) \<and> length ts = length cs))"
proof -
  let ?servers = "map remap_server [0..<3]" and ?cc = "\<lparr>cc_isDegraded = False, cc_disabled = False, cc_k = 2, cc_m = 1, cc_chunkSize = 4096\<rparr>"
  obtain sl where sl: "sl_new 3 2 1 ?servers True [] = Some (sl, [])" "sl_wf sl" "sl_n sl = 3" "sl_k sl = 2" "sl_numLists sl = 1" "sl_servers sl = ?servers"
    and n: "sl_numServers sl = 3"
    using sl_new_wf [of 2 3 ?servers 1 "[]"] by (auto simp: sl_wf_def sl_shape_def)
  have "inj_on (\<lambda>j. sk_addr (?servers ! j)) {..<3}" by (auto simp: inj_on_def less_Suc_eq numeral_eq_Suc remap_server_def)
  then obtain rs' l d js ts where at: "d < 2" "set js \<subseteq> {..<3}" "length js = 3"
    and get: "let cs = filter (\<lambda>c. cl_allowRemapping (rs_handler (remap_scheme 2 3)) (sk_addr (?servers ! (js ! c)))) (d # [2..<2 + 1]) in
        getServers ?cc ((remap_scheme 2 3)\<lparr>rs_lists := sl\<rparr>) REQ_SET [107] 1 False
         = Some (rs', Some (?servers ! (js ! d)), True, map (Pair l) cs, map (Pair l) ts) \<and> length ts = length cs"
    using set_targets_safe [of "(remap_scheme 2 3)\<lparr>rs_lists := sl\<rparr>" ?cc 1 "[107]"] by (simp add: sl n Let_def del: filter.simps) blast
  show ?thesis by (intro exI [of _ sl] exI [of _ rs'] exI [of _ l] exI [of _ d] exI [of _ js] exI [of _ ts] conjI sl(1) at get)
qed

text \<open>
  A request with more entries than the stripe has data chunks protects none of its servers: with two data and two parity chunks, the
  replacement of the degraded parity server is the server of the data chunk of the same request.
\<close>

theorem redirect_reuses_data_server:
  "\<exists>rs'. redirect (Some (remap_scheme 2 4)) 2 2 (remap_data 2) (remap_parity 2 4) False [(0, 0), (0, 2), (0, 3)]
     = Some (Some rs', [(0, 2), (0, 2), (0, 3)], Some [(0, 0)])"
  by (simp add: redirect_def scan_entry_def remap_entry_def try_server_def server_addr_def list_addr_def item_at_def remap_data_def remap_parity_def
      remap_scheme_def remap_server_def sl_get_chunk_def cl_allowRemapping_def flow_locked_def cl_useCoordinatedFlow_def am_get_def am_new_def indexOf_def
      Let_def upt_rec numeral_eq_Suc)

end
