(* ===== verification/ServerBackup.thy ===== *)
theory ServerBackup
  imports Chunk Loops
begin

text \<open>
  The deltas that a server keeps until they are acknowledged, \<^verbatim>\<open>server/backup/backup.{hh,cc}\<close>: a data server keeps what it has sent to parity servers,
  a parity server what it has applied, so that it can be reverted. Tables are multimaps ordered by time stamp, the first-come first
  among equals. A socket is its number. The source lists the operations by macros, once for UPDATE and once for DELETE; here the flag \<open>del\<close> selects the
  table. \<open>None\<close>: the call waits for a lock that is never released.
\<close>

section \<open>Ordered multimaps\<close>

type_synonym ('k, 'v) mm = "('k \<times> 'v) list"

definition mm_insert :: "'k::linorder \<Rightarrow> 'v \<Rightarrow> ('k, 'v) mm \<Rightarrow> ('k, 'v) mm" where
  "mm_insert k v xs = takeWhile (\<lambda>p. fst p \<le> k) xs @ (k, v) # dropWhile (\<lambda>p. fst p \<le> k) xs"

definition mm_equal :: "'k \<Rightarrow> ('k, 'v) mm \<Rightarrow> 'v list" where
  "mm_equal k xs = map snd (filter (\<lambda>p. fst p = k) xs)"

section \<open>State\<close>

record BackupDelta =
  bd_key :: "byte list"
  bd_data :: "byte list"
  bd_valueOffset :: u32
  bd_chunkOffset :: u32
  bd_metadata :: Metadata
  bd_isChunkDelta :: bool
  bd_isParity :: bool
  bd_parityServers :: "u16 set"
  bd_requestId :: u32
  bd_dataServerId :: u16
  bd_timestamp :: u32

definition bd_set :: "Metadata \<Rightarrow> byte list \<Rightarrow> byte list \<Rightarrow> bool \<Rightarrow> u32 \<Rightarrow> u32 \<Rightarrow> bool \<Rightarrow> u32 \<Rightarrow> u16 \<Rightarrow> u32 \<Rightarrow> BackupDelta" where
  "bd_set md key value isChunkDelta valueOffset chunkOffset isParity requestId dataServerId ts =
     \<lparr>bd_key = key, bd_data = value, bd_valueOffset = valueOffset, bd_chunkOffset = chunkOffset, bd_metadata = md, bd_isChunkDelta = isChunkDelta,
      bd_isParity = isParity, bd_parityServers = {}, bd_requestId = requestId, bd_dataServerId = dataServerId, bd_timestamp = ts\<rparr>"

text \<open>\<open>sb_ids\<close>: the parity servers that have not acknowledged, by request id; \<open>sb_held\<close>: the tables whose lock is held for ever.\<close>

record ServerBackup =
  sb_data :: "bool \<Rightarrow> (u32, BackupDelta) mm"
  sb_parity :: "bool \<Rightarrow> (u32, BackupDelta) mm"
  sb_ids :: "(u32, nat \<times> u32) mm"
  sb_held :: "bool set"

definition sb_new :: ServerBackup where
  "sb_new = \<lparr>sb_data = (\<lambda>_. []), sb_parity = (\<lambda>_. []), sb_ids = [], sb_held = {}\<rparr>"

definition set_data :: "bool \<Rightarrow> (u32, BackupDelta) mm \<Rightarrow> ServerBackup \<Rightarrow> ServerBackup" where
  "set_data del xs bk = bk\<lparr>sb_data := (sb_data bk)(del := xs)\<rparr>"

definition set_parity :: "bool \<Rightarrow> (u32, BackupDelta) mm \<Rightarrow> ServerBackup \<Rightarrow> ServerBackup" where
  "set_parity del xs bk = bk\<lparr>sb_parity := (sb_parity bk)(del := xs)\<rparr>"

section \<open>Insertion\<close>

text \<open>The result is whether the pair is new, and whether the request is known for another server.\<close>

definition addPendingAck :: "u32 \<Rightarrow> nat \<Rightarrow> u32 \<Rightarrow> (u32, nat \<times> u32) mm \<Rightarrow> bool \<times> bool \<times> (u32, nat \<times> u32) mm" where
  "addPendingAck requestId socket ts ids =
     (let same = mm_equal requestId ids in
      if socket \<in> fst ` set same then (False, False, ids) else (True, same \<noteq> [], mm_insert requestId (socket, ts) ids))"

definition add_parity_server :: "u32 \<Rightarrow> u32 \<Rightarrow> u16 \<Rightarrow> (u32, BackupDelta) mm \<Rightarrow> (u32, BackupDelta) mm" where
  "add_parity_server ts requestId targetId =
     map (\<lambda>(t, bd). (t, if t = ts \<and> bd_requestId bd = requestId then bd\<lparr>bd_parityServers := insert targetId (bd_parityServers bd)\<rparr> else bd))"

definition insertData ::
  "bool \<Rightarrow> u32 \<Rightarrow> byte list \<Rightarrow> byte list \<Rightarrow> Metadata \<Rightarrow> bool \<Rightarrow> u32 \<Rightarrow> u32 \<Rightarrow> u32 \<Rightarrow> u16 \<Rightarrow> nat \<Rightarrow> ServerBackup \<Rightarrow> (bool \<times> ServerBackup) option" where
  "insertData del ts key value md isChunkDelta valueOffset chunkOffset requestId targetId socket bk =
     (if del \<in> sb_held bk then None
      else case addPendingAck requestId socket ts (sb_ids bk) of
        (ret, duplicate, ids) \<Rightarrow>
          let bk = bk\<lparr>sb_ids := ids\<rparr> in
          Some (ret,
            if \<not> duplicate \<and> ret
            then set_data del (mm_insert ts ((bd_set md key value isChunkDelta valueOffset chunkOffset False requestId 0 ts)\<lparr>bd_parityServers := {targetId}\<rparr>)
                   (sb_data bk del)) bk
            else if ret then set_data del (add_parity_server ts requestId targetId (sb_data bk del)) bk
            else bk))"

definition insertParity ::
  "bool \<Rightarrow> u32 \<Rightarrow> byte list \<Rightarrow> byte list \<Rightarrow> Metadata \<Rightarrow> bool \<Rightarrow> u32 \<Rightarrow> u32 \<Rightarrow> u16 \<Rightarrow> u32 \<Rightarrow> ServerBackup \<Rightarrow> ServerBackup" where
  "insertParity del ts key value md isChunkDelta valueOffset chunkOffset dataServerId requestId bk =
     set_parity del (mm_insert ts (bd_set md key value isChunkDelta valueOffset chunkOffset True requestId dataServerId ts) (sb_parity bk del)) bk"

section \<open>Removal by time stamps\<close>

text \<open>The entries from \<^verbatim>\<open>lower_bound\<close> to \<^verbatim>\<open>upper_bound\<close>; a missing bound is the end of the table. The result is the table and what was removed.\<close>

definition remove_items :: "(u32 \<times> 'v \<Rightarrow> bool) \<Rightarrow> u32 option \<Rightarrow> u32 option \<Rightarrow> (u32, 'v) mm \<Rightarrow> (u32, 'v) mm \<times> 'v list" where
  "remove_items sel lo hi xs =
     (let below = (\<lambda>p. case lo of None \<Rightarrow> False | Some a \<Rightarrow> fst p < a); inside = (\<lambda>p. case hi of None \<Rightarrow> True | Some b \<Rightarrow> fst p \<le> b);
          pre = takeWhile below xs; rest = dropWhile below xs; mid = takeWhile inside rest; post = dropWhile inside rest in
      (pre @ filter (\<lambda>p. \<not> sel p) mid @ post, map snd (filter sel mid)))"

definition remove_window :: "(u32 \<times> 'v \<Rightarrow> bool) \<Rightarrow> u32 \<Rightarrow> u32 \<Rightarrow> (u32, 'v) mm \<Rightarrow> (u32, 'v) mm \<times> 'v list" where
  "remove_window sel from to xs =
     (if from > to
      then case remove_items sel (Some from) None xs of (xs, a) \<Rightarrow> (case remove_items sel None (Some to) xs of (xs, b) \<Rightarrow> (xs, a @ b))
      else remove_items sel (Some from) (Some to) xs)"

text \<open>The entries of a parity server's table that are removed; an empty set of time stamps allows all.\<close>

definition parity_selected :: "u32 set \<Rightarrow> u16 \<Rightarrow> u32 \<times> BackupDelta \<Rightarrow> bool" where
  "parity_selected timestamps serverId = (\<lambda>(ts, bd).
     serverId = 0 \<or> bd_dataServerId bd = serverId \<and> (timestamps = {} \<or> ts \<in> timestamps))"

definition data_selected :: "u16 \<Rightarrow> u32 \<times> BackupDelta \<Rightarrow> bool" where
  "data_selected serverId = (\<lambda>(_, bd). serverId = 0 \<or> serverId \<in> bd_parityServers bd)"

text \<open>With \<open>free\<close> the entries are deleted and not returned. First a range of time stamps, \<^verbatim>\<open>Timestamp from, Timestamp to\<close>.\<close>

definition removeParity_range :: "bool \<Rightarrow> u32 \<Rightarrow> u32 \<Rightarrow> u16 \<Rightarrow> bool \<Rightarrow> ServerBackup \<Rightarrow> BackupDelta list \<times> ServerBackup" where
  "removeParity_range del from to serverId free bk =
     (case remove_window (parity_selected {} serverId) from to (sb_parity bk del) of
        (xs, out) \<Rightarrow> (if free then [] else out, set_parity del xs bk))"

text \<open>
  Then a set of time stamps. Its range ends at \<^verbatim>\<open>*timestamps.end()\<close>, an element that does not exist: \<open>past\<close> is what is read there, and also what is read as
  first element of an empty set.
\<close>

definition removeParity_set :: "u32 \<Rightarrow> bool \<Rightarrow> u32 list \<Rightarrow> u16 \<Rightarrow> bool \<Rightarrow> ServerBackup \<Rightarrow> BackupDelta list \<times> ServerBackup" where
  "removeParity_set past del timestamps serverId free bk =
     (let from = (if timestamps = [] then past else Min (set timestamps)) in
      case remove_window (parity_selected (set timestamps) serverId) from past (sb_parity bk del) of
        (xs, out) \<Rightarrow> (if free then [] else out, set_parity del xs bk))"

text \<open>Each entry that a data server removes takes all pairs of its request with it.\<close>

definition removeData_set :: "u32 \<Rightarrow> bool \<Rightarrow> u32 list \<Rightarrow> u16 \<Rightarrow> bool \<Rightarrow> ServerBackup \<Rightarrow> (BackupDelta list \<times> ServerBackup) option" where
  "removeData_set past del timestamps serverId free bk =
     (if del \<in> sb_held bk then None
      else let from = (if timestamps = [] then past else Min (set timestamps)) in
        case remove_window (data_selected serverId) from past (sb_data bk del) of
          (xs, out) \<Rightarrow> Some (if free then [] else out,
             (set_data del xs bk)\<lparr>sb_ids := filter (\<lambda>(requestId, _). requestId \<notin> bd_requestId ` set out) (sb_ids bk)\<rparr>))"

section \<open>Removal by request\<close>

text \<open>\<open>remove_first P xs\<close>: the first entry with \<open>P\<close>, and the table without it.\<close>

fun remove_first :: "('a \<Rightarrow> bool) \<Rightarrow> 'a list \<Rightarrow> ('a \<times> 'a list) option" where
  "remove_first P [] = None"
| "remove_first P (x # xs) = (if P x then Some (x, xs) else map_option (\<lambda>(y, ys). (y, x # ys)) (remove_first P xs))"

fun update_first :: "('a \<Rightarrow> bool) \<Rightarrow> ('a \<Rightarrow> 'a) \<Rightarrow> 'a list \<Rightarrow> 'a list" where
  "update_first P f [] = []"
| "update_first P f (x # xs) = (if P x then f x # xs else x # update_first P f xs)"

text \<open>
  A parity server has acknowledged. The result is the backup if it was removed with the last one; if the backup is missing the
  function returns without releasing the lock.
\<close>

definition removeData_id :: "bool \<Rightarrow> u32 \<Rightarrow> u16 \<Rightarrow> nat \<Rightarrow> ServerBackup \<Rightarrow> (BackupDelta option \<times> ServerBackup) option" where
  "removeData_id del requestId targetId socket bk =
     (if del \<in> sb_held bk then None
      else case remove_first (\<lambda>(r, s, _). r = requestId \<and> s = socket) (sb_ids bk) of
        None \<Rightarrow> Some (None, bk)
      | Some ((_, _, ts), ids) \<Rightarrow>
          let pending = length (mm_equal requestId (sb_ids bk));
              bk = bk\<lparr>sb_ids := ids\<rparr>;
              mine = (\<lambda>(t, bd). t = ts \<and> bd_requestId bd = requestId) in
          case remove_first mine (sb_data bk del) of
            None \<Rightarrow> Some (None, bk\<lparr>sb_held := insert del (sb_held bk)\<rparr>)
          | Some ((_, bd), rest) \<Rightarrow>
              if pending = 1 then Some (Some bd, set_data del rest bk)
              else Some (None, set_data del
                     (update_first mine (\<lambda>(t, bd). (t, bd\<lparr>bd_parityServers := bd_parityServers bd - {targetId}\<rparr>)) (sb_data bk del)) bk))"

section \<open>Lookup\<close>

text \<open>\<^verbatim>\<open>findData...\<close> and \<^verbatim>\<open>findParity...\<close>: the entries of a range, which may wrap around.\<close>

definition find_window :: "u32 \<Rightarrow> u32 \<Rightarrow> (u32, 'v) mm \<Rightarrow> 'v list" where
  "find_window from to xs =
     (if from > to then map snd (dropWhile (\<lambda>p. fst p < from) xs) @ map snd (takeWhile (\<lambda>p. fst p \<le> to) xs)
      else map snd (takeWhile (\<lambda>p. fst p \<le> to) (dropWhile (\<lambda>p. fst p < from) xs)))"

definition findData :: "bool \<Rightarrow> u32 \<Rightarrow> u32 \<Rightarrow> ServerBackup \<Rightarrow> BackupDelta list option" where
  "findData del from to bk = (if del \<in> sb_held bk then None else Some (find_window from to (sb_data bk del)))"

definition findParity :: "bool \<Rightarrow> u32 \<Rightarrow> u32 \<Rightarrow> ServerBackup \<Rightarrow> BackupDelta list" where
  "findParity del from to bk = find_window from to (sb_parity bk del)"

end
