(* ===== verification/BackupSafety.thy ===== *)
theory BackupSafety
  imports ServerBackup "HOL-Library.Multiset"
begin

text \<open>
  What the backup of deltas guarantees: an acknowledged range of time stamps removes exactly the deltas of that range, also where it
  wraps around, and a data server keeps a delta until the last parity server has acknowledged.
\<close>

section \<open>Ordered tables\<close>

definition mm_sorted :: "('k::linorder, 'v) mm \<Rightarrow> bool" where
  "mm_sorted xs \<longleftrightarrow> sorted (map fst xs)"

lemma prefix_filter:
  assumes "sorted_wrt (\<lambda>x y. P y \<longrightarrow> P x) xs"
  shows "takeWhile P xs = filter P xs" "dropWhile P xs = filter (\<lambda>x. \<not> P x) xs"
  using assms by (induction xs) (auto simp: filter_empty_conv filter_id_conv intro: sym)

lemma mm_prefix:
  assumes "mm_sorted xs"
  shows "sorted_wrt (\<lambda>x y. fst y \<le> k \<longrightarrow> fst x \<le> k) xs" "sorted_wrt (\<lambda>x y. fst y < k \<longrightarrow> fst x < k) xs"
  using assms by (auto simp: mm_sorted_def sorted_map elim!: sorted_wrt_mono_rel [rotated])

lemmas mm_filter = prefix_filter [OF mm_prefix(1)] prefix_filter [OF mm_prefix(2)]

lemma split_window:
  assumes xs: "sorted_wrt (\<lambda>x y. below y \<longrightarrow> below x) xs" "sorted_wrt (\<lambda>x y. inside y \<longrightarrow> inside x) xs"
    and parts: "pre = takeWhile below xs" "rest = dropWhile below xs" "mid = takeWhile inside rest" "post = dropWhile inside rest"
  shows "pre @ filter (\<lambda>p. \<not> sel p) mid @ post = filter (\<lambda>p. \<not> (\<not> below p \<and> inside p \<and> sel p)) xs"
    "filter sel mid = filter (\<lambda>p. \<not> below p \<and> inside p \<and> sel p) xs"
proof -
  have split: "xs = pre @ mid @ post" by (simp add: parts)
  have rest: "rest = filter (\<lambda>x. \<not> below x) xs" using prefix_filter(2) [OF xs(1)] parts(2) by simp
  have "sorted_wrt (\<lambda>x y. inside y \<longrightarrow> inside x) rest" unfolding rest by (rule sorted_wrt_filter [OF xs(2)])
  then have post: "post = filter (\<lambda>x. \<not> inside x) rest" and mid: "mid = filter inside rest" using prefix_filter parts(3,4) by auto
  have "\<forall>p\<in>set pre. below p" by (auto simp: parts dest: set_takeWhileD)
  moreover have "\<forall>p\<in>set mid. \<not> below p \<and> inside p" "\<forall>p\<in>set post. \<not> inside p" by (simp_all add: mid post rest)
  ultimately show "pre @ filter (\<lambda>p. \<not> sel p) mid @ post = filter (\<lambda>p. \<not> (\<not> below p \<and> inside p \<and> sel p)) xs"
    "filter sel mid = filter (\<lambda>p. \<not> below p \<and> inside p \<and> sel p) xs"
    by (subst split, simp add: filter_id_conv filter_empty_conv cong: filter_cong)+
qed

lemma mm_sorted_filter: "mm_sorted xs \<Longrightarrow> mm_sorted (filter P xs)"
  by (simp add: mm_sorted_def sorted_filter)

lemma mm_insert_sorted: "mm_sorted xs \<Longrightarrow> mm_sorted (mm_insert k v xs)"
  by (auto simp: mm_insert_def mm_filter mm_sorted_def sorted_append sorted_filter)

text \<open>The window of time stamps, in arithmetic modulo \<open>2 ^ 32\<close>.\<close>

lemma window_iff: "(if (a :: u32) > b then a \<le> t \<or> t \<le> b else a \<le> t \<and> t \<le> b) \<longleftrightarrow> t - a \<le> b - a"
proof -
  have "unat (t - a) = (if a \<le> t then unat t - unat a else 2 ^ 32 - unat a + unat t)"
    "unat (b - a) = (if a \<le> b then unat b - unat a else 2 ^ 32 - unat a + unat b)"
    using unat_lt_pow [of a] by (simp_all add: unat_sub_if_size word_le_nat_alt word_size) linarith+
  then show ?thesis using unat_lt_pow [of t] unat_lt_pow [of b] unat_lt_pow [of a] by (auto simp: word_le_nat_alt word_less_nat_alt split: if_splits)
qed

lemma always: "sorted_wrt (\<lambda>x y. True \<longrightarrow> True) xs" and never: "sorted_wrt (\<lambda>x y. False \<longrightarrow> False) xs"
  by (induction xs) simp_all

lemma remove_items_sorted:
  assumes "mm_sorted xs"
  shows "remove_items sel (Some a) (Some b) xs = (filter (\<lambda>p. \<not> (a \<le> fst p \<and> fst p \<le> b \<and> sel p)) xs, map snd (filter (\<lambda>p. a \<le> fst p \<and> fst p \<le> b \<and> sel p) xs))"
    "remove_items sel (Some a) None xs = (filter (\<lambda>p. \<not> (a \<le> fst p \<and> sel p)) xs, map snd (filter (\<lambda>p. a \<le> fst p \<and> sel p) xs))"
    "remove_items sel None (Some b) xs = (filter (\<lambda>p. \<not> (fst p \<le> b \<and> sel p)) xs, map snd (filter (\<lambda>p. fst p \<le> b \<and> sel p) xs))"
  using split_window [OF mm_prefix(2) [OF assms, of a] mm_prefix(1) [OF assms, of b] refl refl refl refl, of sel]
    split_window [OF mm_prefix(2) [OF assms, of a] always refl refl refl refl, of sel]
    split_window [OF never mm_prefix(1) [OF assms, of b] refl refl refl refl, of sel]
  by (simp_all add: remove_items_def Let_def not_less)

text \<open>What is left and what is returned when a range is removed.\<close>

definition in_range :: "u32 \<Rightarrow> u32 \<Rightarrow> u32 \<Rightarrow> bool" where
  "in_range a b t \<longleftrightarrow> t - a \<le> b - a"

lemma remove_window_sorted:
  assumes xs: "mm_sorted xs"
  shows "fst (remove_window sel a b xs) = filter (\<lambda>p. \<not> (in_range a b (fst p) \<and> sel p)) xs"
    "set (snd (remove_window sel a b xs)) = snd ` {p \<in> set xs. in_range a b (fst p) \<and> sel p}"
proof -
  let ?ys = "filter (\<lambda>p. \<not> (a \<le> fst p \<and> sel p)) xs"
  have ys: "mm_sorted ?ys" by (rule mm_sorted_filter [OF xs])
  have wrapped: "remove_window sel a b xs = (filter (\<lambda>p. \<not> (fst p \<le> b \<and> sel p)) ?ys,
      map snd (filter (\<lambda>p. a \<le> fst p \<and> sel p) xs) @ map snd (filter (\<lambda>p. fst p \<le> b \<and> sel p) ?ys))" if "a > b"
    using that remove_items_sorted(2) [OF xs] remove_items_sorted(3) [OF ys] by (simp add: remove_window_def)
  have plain: "remove_window sel a b xs = (filter (\<lambda>p. \<not> (a \<le> fst p \<and> fst p \<le> b \<and> sel p)) xs,
      map snd (filter (\<lambda>p. a \<le> fst p \<and> fst p \<le> b \<and> sel p) xs))" if "\<not> a > b"
    using that remove_items_sorted(1) [OF xs] by (simp add: remove_window_def)
  have range: "in_range a b t \<longleftrightarrow> (if a > b then a \<le> t \<or> t \<le> b else a \<le> t \<and> t \<le> b)" for t
    using window_iff [where t = t and a = a and b = b] by (simp add: in_range_def)
  show "fst (remove_window sel a b xs) = filter (\<lambda>p. \<not> (in_range a b (fst p) \<and> sel p)) xs"
    using wrapped plain by (cases "a > b") (auto simp: range intro!: filter_cong)
  show "set (snd (remove_window sel a b xs)) = snd ` {p \<in> set xs. in_range a b (fst p) \<and> sel p}"
    using wrapped plain by (cases "a > b") (force simp: range)+
qed

section \<open>A delta and its acknowledgements\<close>

lemma remove_first_append: "\<forall>x\<in>set pre. \<not> P x \<Longrightarrow> remove_first P (pre @ xs) = map_option (\<lambda>(y, ys). (y, pre @ ys)) (remove_first P xs)"
  by (induction pre) (auto simp: option.map_comp comp_def case_prod_unfold option.map_ident)

lemma update_first_append: "\<forall>x\<in>set pre. \<not> P x \<Longrightarrow> update_first P f (pre @ xs) = pre @ update_first P f xs"
  by (induction pre) auto

lemma remove_first_hit:
  assumes "p \<in> set R" "distinct (map snd R)" "\<And>q. q \<in> set R \<Longrightarrow> P (f q) \<longleftrightarrow> snd q = snd p"
  shows "remove_first P (map f R @ post) = Some (f p, map f (remove1 p R) @ post)"
  using assms
proof (induction R)
  case (Cons q R)
  show ?case
  proof (cases "q = p")
    case False
    then have "snd q \<noteq> snd p" using Cons.prems(1,2) by (force simp: image_iff)
    then show ?thesis using Cons False by auto
  qed (use Cons.prems in simp)
qed simp

lemma mm_insert_between:
  assumes "\<forall>p\<in>set pre. fst p \<le> k" "\<forall>p\<in>set post. k < fst p"
  shows "mm_insert k v (pre @ post) = pre @ (k, v) # post"
proof -
  have "takeWhile (\<lambda>p. fst p \<le> k) post = []" "dropWhile (\<lambda>p. fst p \<le> k) post = post"
    using assms(2) by (cases post; auto)+
  then show ?thesis using assms(1) by (simp add: mm_insert_def takeWhile_append2 dropWhile_append2)
qed

text \<open>The delta of a request, and the state of the backup in which the parity servers in \<open>R\<close> have not acknowledged it.\<close>

record Delta =
  de_del :: bool
  de_ts :: u32
  de_key :: "byte list"
  de_value :: "byte list"
  de_md :: Metadata
  de_isChunkDelta :: bool
  de_valueOffset :: u32
  de_chunkOffset :: u32
  de_requestId :: u32

definition delta_of :: "Delta \<Rightarrow> u16 set \<Rightarrow> BackupDelta" where
  "delta_of d servers = (bd_set (de_md d) (de_key d) (de_value d) (de_isChunkDelta d) (de_valueOffset d) (de_chunkOffset d) False (de_requestId d) 0 (de_ts d))
     \<lparr>bd_parityServers := servers\<rparr>"

definition send_delta :: "Delta \<Rightarrow> u16 \<times> nat \<Rightarrow> ServerBackup \<Rightarrow> ServerBackup option" where
  "send_delta d = (\<lambda>(targetId, socket) bk.
     map_option snd (insertData (de_del d) (de_ts d) (de_key d) (de_value d) (de_md d) (de_isChunkDelta d) (de_valueOffset d) (de_chunkOffset d)
       (de_requestId d) targetId socket bk))"

definition ack_delta :: "Delta \<Rightarrow> u16 \<times> nat \<Rightarrow> ServerBackup \<Rightarrow> ServerBackup option" where
  "ack_delta d = (\<lambda>(targetId, socket) bk. map_option snd (removeData_id (de_del d) (de_requestId d) targetId socket bk))"

definition waits_for :: "Delta \<Rightarrow> (u32, nat \<times> u32) mm \<Rightarrow> (u32, nat \<times> u32) mm \<Rightarrow> (u32, BackupDelta) mm \<Rightarrow> (u32, BackupDelta) mm
    \<Rightarrow> ServerBackup \<Rightarrow> (u16 \<times> nat) list \<Rightarrow> ServerBackup" where
  "waits_for d pre post before after bk R =
     (set_data (de_del d) (before @ (de_ts d, delta_of d (fst ` set R)) # after) bk)
       \<lparr>sb_ids := pre @ map (\<lambda>(_, socket). (de_requestId d, socket, de_ts d)) R @ post\<rparr>"

text \<open>A request that the backup does not know yet.\<close>

definition new_request :: "Delta \<Rightarrow> ServerBackup \<Rightarrow> bool" where
  "new_request d bk \<longleftrightarrow> de_del d \<notin> sb_held bk \<and> mm_sorted (sb_ids bk) \<and> mm_sorted (sb_data bk (de_del d))
     \<and> de_requestId d \<notin> fst ` set (sb_ids bk) \<and> (\<forall>(t, bd)\<in>set (sb_data bk (de_del d)). bd_requestId bd \<noteq> de_requestId d)"

definition parts_of :: "Delta \<Rightarrow> ServerBackup \<Rightarrow> (u32, nat \<times> u32) mm \<Rightarrow> (u32, nat \<times> u32) mm \<Rightarrow> (u32, BackupDelta) mm \<Rightarrow> (u32, BackupDelta) mm \<Rightarrow> bool" where
  "parts_of d bk pre post before after \<longleftrightarrow> de_del d \<notin> sb_held bk
     \<and> sb_ids bk = pre @ post \<and> (\<forall>p\<in>set pre. fst p < de_requestId d) \<and> (\<forall>p\<in>set post. de_requestId d < fst p)
     \<and> sb_data bk (de_del d) = before @ after \<and> (\<forall>p\<in>set before. fst p \<le> de_ts d) \<and> (\<forall>p\<in>set after. de_ts d < fst p)
     \<and> (\<forall>p\<in>set before \<union> set after. bd_requestId (snd p) \<noteq> de_requestId d)"

lemma new_request_parts:
  assumes "new_request d bk"
  obtains pre post before after where "parts_of d bk pre post before after"
proof -
  let ?ids = "sb_ids bk" and ?xs = "sb_data bk (de_del d)"
  note ids = mm_filter(1,2) [of ?ids "de_requestId d"] and xs = mm_filter(1,2) [of ?xs "de_ts d"]
  have "\<forall>p\<in>set (takeWhile (\<lambda>p. fst p \<le> de_requestId d) ?ids). fst p < de_requestId d"
    using assms ids by (force simp: new_request_def)
  moreover have "\<forall>p\<in>set (dropWhile (\<lambda>p. fst p \<le> de_requestId d) ?ids). de_requestId d < fst p"
    "\<forall>p\<in>set (takeWhile (\<lambda>p. fst p \<le> de_ts d) ?xs). fst p \<le> de_ts d" "\<forall>p\<in>set (dropWhile (\<lambda>p. fst p \<le> de_ts d) ?xs). de_ts d < fst p"
    using assms ids xs by (auto simp: new_request_def)
  moreover have "\<forall>p\<in>set (takeWhile (\<lambda>p. fst p \<le> de_ts d) ?xs) \<union> set (dropWhile (\<lambda>p. fst p \<le> de_ts d) ?xs). bd_requestId (snd p) \<noteq> de_requestId d"
    using assms set_takeWhileD set_dropWhileD by (fastforce simp: new_request_def)
  ultimately have "parts_of d bk (takeWhile (\<lambda>p. fst p \<le> de_requestId d) ?ids) (dropWhile (\<lambda>p. fst p \<le> de_requestId d) ?ids)
      (takeWhile (\<lambda>p. fst p \<le> de_ts d) ?xs) (dropWhile (\<lambda>p. fst p \<le> de_ts d) ?xs)"
    using assms by (simp add: parts_of_def new_request_def)
  then show ?thesis using that by blast
qed

lemma mm_equal_middle:
  assumes "\<forall>p\<in>set pre. fst p \<noteq> k" "\<forall>p\<in>set post. fst p \<noteq> k"
  shows "mm_equal k (pre @ map (\<lambda>q. (k, f q)) R @ post) = map f R"
proof -
  have "filter (\<lambda>p. fst p = k) pre = []" "filter (\<lambda>p. fst p = k) post = []" using assms by (auto simp: filter_empty_conv)
  then show ?thesis by (simp add: mm_equal_def comp_def)
qed

lemma delta_fields:
  "bd_requestId (delta_of d A) = de_requestId d" "(delta_of d A)\<lparr>bd_parityServers := B\<rparr> = delta_of d B" "bd_parityServers (delta_of d A) = A"
  by (simp_all add: delta_of_def bd_set_def)

lemma send_first:
  assumes parts: "parts_of d bk pre post before after"
  shows "send_delta d p bk = Some (waits_for d pre post before after bk [p])"
proof -
  have "mm_equal (de_requestId d) (sb_ids bk) = []"
    using parts by (auto simp: parts_of_def mm_equal_def filter_empty_conv)
  moreover have "mm_insert (de_requestId d) v (pre @ post) = pre @ (de_requestId d, v) # post" "mm_insert (de_ts d) w (before @ after) = before @ (de_ts d, w) # after" for v w
    using parts by (auto simp: parts_of_def intro!: mm_insert_between)
  ultimately show ?thesis using parts
    by (cases p) (simp add: parts_of_def send_delta_def insertData_def addPendingAck_def waits_for_def set_data_def delta_of_def)
qed

lemma add_parity_server_middle:
  assumes "parts_of d bk pre post before after"
  shows "add_parity_server (de_ts d) (de_requestId d) targetId (before @ (de_ts d, delta_of d A) # after)
    = before @ (de_ts d, delta_of d (insert targetId A)) # after"
proof -
  have "add_parity_server (de_ts d) (de_requestId d) targetId xs = xs" if "\<forall>p\<in>set xs. bd_requestId (snd p) \<noteq> de_requestId d" for xs
    using that by (auto simp: add_parity_server_def intro!: map_idI)
  moreover have "\<forall>p\<in>set before. bd_requestId (snd p) \<noteq> de_requestId d" "\<forall>p\<in>set after. bd_requestId (snd p) \<noteq> de_requestId d"
    using assms by (auto simp: parts_of_def)
  ultimately have "add_parity_server (de_ts d) (de_requestId d) targetId before = before" "add_parity_server (de_ts d) (de_requestId d) targetId after = after"
    by blast+
  then show ?thesis by (simp add: add_parity_server_def delta_fields)
qed

lemma send_more:
  assumes parts: "parts_of d bk pre post before after" and R: "R \<noteq> []" "snd p \<notin> snd ` set R"
  shows "send_delta d p (waits_for d pre post before after bk R) = Some (waits_for d pre post before after bk (R @ [p]))"
proof -
  let ?f = "\<lambda>q :: u16 \<times> nat. (snd q, de_ts d)"
  have ids: "sb_ids (waits_for d pre post before after bk R) = pre @ map (\<lambda>q. (de_requestId d, ?f q)) R @ post" for R
    by (simp add: waits_for_def case_prod_unfold)
  have "mm_equal (de_requestId d) (pre @ map (\<lambda>q. (de_requestId d, ?f q)) R @ post) = map ?f R"
    using parts by (intro mm_equal_middle) (auto simp: parts_of_def)
  moreover have "mm_insert (de_requestId d) v ((pre @ map (\<lambda>q. (de_requestId d, ?f q)) R) @ post) = (pre @ map (\<lambda>q. (de_requestId d, ?f q)) R) @ (de_requestId d, v) # post" for v
    using parts by (intro mm_insert_between) (auto simp: parts_of_def)
  moreover have "sb_held (waits_for d pre post before after bk R) = sb_held bk"
    "sb_data (waits_for d pre post before after bk R) (de_del d) = before @ (de_ts d, delta_of d (fst ` set R)) # after"
    by (simp_all add: waits_for_def set_data_def)
  ultimately show ?thesis using parts R
    by (cases p) (simp add: send_delta_def insertData_def addPendingAck_def ids image_image add_parity_server_middle [OF parts] parts_of_def Let_def,
        simp add: waits_for_def set_data_def case_prod_unfold)
qed

lemma delta_middle:
  assumes "parts_of d bk pre post before after"
  shows "remove_first (\<lambda>(t, bd). t = de_ts d \<and> bd_requestId bd = de_requestId d) (before @ (de_ts d, delta_of d A) # after)
      = Some ((de_ts d, delta_of d A), before @ after)"
    "update_first (\<lambda>(t, bd). t = de_ts d \<and> bd_requestId bd = de_requestId d) (\<lambda>(t, bd). (t, f bd)) (before @ (de_ts d, delta_of d A) # after)
      = before @ (de_ts d, f (delta_of d A)) # after"
proof -
  have before: "\<forall>x\<in>set before. \<not> (case x of (t, bd) \<Rightarrow> t = de_ts d \<and> bd_requestId bd = de_requestId d)"
    using assms by (auto simp: parts_of_def ball_Un)
  show "remove_first (\<lambda>(t, bd). t = de_ts d \<and> bd_requestId bd = de_requestId d) (before @ (de_ts d, delta_of d A) # after)
      = Some ((de_ts d, delta_of d A), before @ after)"
    "update_first (\<lambda>(t, bd). t = de_ts d \<and> bd_requestId bd = de_requestId d) (\<lambda>(t, bd). (t, f bd)) (before @ (de_ts d, delta_of d A) # after)
      = before @ (de_ts d, f (delta_of d A)) # after"
    by (simp_all add: remove_first_append [OF before] update_first_append [OF before] delta_fields)
qed

lemma remove_pending:
  assumes parts: "parts_of d bk pre post before after" and p: "p \<in> set R" "distinct (map snd R)"
  shows "remove_first (\<lambda>(r, s, _). r = de_requestId d \<and> s = snd p) (pre @ map (\<lambda>(_, s). (de_requestId d, s, de_ts d)) R @ post)
    = Some ((de_requestId d, snd p, de_ts d), pre @ map (\<lambda>(_, s). (de_requestId d, s, de_ts d)) (remove1 p R) @ post)"
proof -
  have "\<forall>x\<in>set pre. \<not> (case x of (r, s, _) \<Rightarrow> r = de_requestId d \<and> s = snd p)" using parts by (auto simp: parts_of_def)
  then show ?thesis using p
    by (simp add: remove_first_append remove_first_hit [OF p] case_prod_unfold)
qed

lemma ack_one:
  assumes parts: "parts_of d bk pre post before after" and p: "p \<in> set R" "distinct (map snd R)" "distinct (map fst R)"
  shows "ack_delta d p (waits_for d pre post before after bk R)
    = Some (if R = [p] then bk else waits_for d pre post before after bk (remove1 p R))"
proof -
  have ids: "sb_ids (waits_for d pre post before after bk R) = pre @ map (\<lambda>(_, s). (de_requestId d, s, de_ts d)) R @ post"
    and xs: "sb_data (waits_for d pre post before after bk R) (de_del d) = before @ (de_ts d, delta_of d (fst ` set R)) # after"
    and held: "sb_held (waits_for d pre post before after bk R) = sb_held bk" by (simp_all add: waits_for_def set_data_def)
  have "mm_equal (de_requestId d) (pre @ map (\<lambda>q. (de_requestId d, snd q, de_ts d)) R @ post) = map (\<lambda>q. (snd q, de_ts d)) R"
    using parts by (intro mm_equal_middle) (auto simp: parts_of_def)
  then have n: "length (mm_equal (de_requestId d) (pre @ map (\<lambda>(_, s). (de_requestId d, s, de_ts d)) R @ post)) = length R"
    by (simp add: case_prod_unfold)
  have one: "length R = Suc 0 \<longleftrightarrow> R = [p]" using p(1) by (auto simp: length_Suc_conv)
  have "fst ` set (remove1 p R) = fst ` set R - {fst p}"
  proof -
    have "distinct R" using p(3) by (simp add: distinct_map)
    then have "set (remove1 p R) = set R - {p}" by simp
    then show ?thesis using p(1,3) by (auto simp: distinct_map inj_on_def)
  qed
  then have servers: "fst ` set R - {fst p} = fst ` set (remove1 p R)" by simp
  have "\<not> de_del d \<in> sb_held bk" using parts by (simp add: parts_of_def)
  then have held: "\<not> de_del d \<in> sb_held (waits_for d pre post before after bk R)" using held by simp
  let ?bk = "waits_for d pre post before after bk R"
  have "removeData_id (de_del d) (de_requestId d) (fst p) (snd p) ?bk
    = Some (if length R = 1 then (Some (delta_of d (fst ` set R)), set_data (de_del d) (before @ after) (?bk\<lparr>sb_ids := pre @ map (\<lambda>(_, s). (de_requestId d, s, de_ts d)) (remove1 p R) @ post\<rparr>))
            else (None, set_data (de_del d) (before @ (de_ts d, delta_of d (fst ` set (remove1 p R))) # after)
              (?bk\<lparr>sb_ids := pre @ map (\<lambda>(_, s). (de_requestId d, s, de_ts d)) (remove1 p R) @ post\<rparr>)))"
    unfolding removeData_id_def if_not_P [OF held] ids remove_pending [OF parts p(1,2)]
    by (simp add: ids xs n delta_middle [OF parts] delta_fields servers Let_def set_data_def)
  then have run: "ack_delta d p ?bk
    = Some (if R = [p] then set_data (de_del d) (before @ after) (?bk\<lparr>sb_ids := pre @ post\<rparr>)
            else set_data (de_del d) (before @ (de_ts d, delta_of d (fst ` set (remove1 p R))) # after)
              (?bk\<lparr>sb_ids := pre @ map (\<lambda>(_, s). (de_requestId d, s, de_ts d)) (remove1 p R) @ post\<rparr>))"
    using one by (simp add: ack_delta_def case_prod_unfold)
  have "bk\<lparr>sb_ids := pre @ post, sb_data := (sb_data bk)(de_del d := before @ after)\<rparr> = bk"
    using parts by (cases bk) (auto simp: parts_of_def fun_upd_idem_iff)
  then show ?thesis unfolding run by (simp add: set_data_def waits_for_def)
qed

lemma send_all:
  assumes parts: "parts_of d bk pre post before after" and ps: "ps \<noteq> []" "distinct (map snd ps)"
  shows "foldM (send_delta d) ps bk = Some (waits_for d pre post before after bk ps)"
proof -
  have "foldM (send_delta d) (take (Suc n) ps) bk = Some (waits_for d pre post before after bk (take (Suc n) ps))" if "Suc n \<le> length ps" for n
    using that
  proof (induction n)
    case 0
    then show ?case using send_first [OF parts] by (cases ps) simp_all
  next
    case (Suc n)
    have longer: "take (Suc (Suc n)) ps = take (Suc n) ps @ [ps ! Suc n]" using Suc.prems by (simp add: take_Suc_conv_app_nth)
    have "distinct (map snd (take (Suc (Suc n)) ps))" using ps(2) by (simp add: distinct_take flip: take_map)
    then have new: "snd (ps ! Suc n) \<notin> snd ` set (take (Suc n) ps)" unfolding longer by simp
    from longer show ?case using Suc send_more [OF parts _ new] ps(1) by (simp add: foldM_append)
  qed
  from this [of "length ps - 1"] show ?thesis using ps(1) by (cases ps) simp_all
qed

lemma ack_some:
  assumes parts: "parts_of d bk pre post before after" and R: "distinct (map snd R)" "distinct (map fst R)"
    and qs: "mset qs + mset rest = mset R" "rest \<noteq> []"
  shows "\<exists>R'. foldM (ack_delta d) qs (waits_for d pre post before after bk R) = Some (waits_for d pre post before after bk R') \<and> mset R' = mset rest"
  using R qs(1)
proof (induction qs arbitrary: R)
  case (Cons q qs)
  have "q \<in># mset R" unfolding Cons.prems(3) [symmetric] by simp
  then have q: "q \<in> set R" by simp
  have rest: "mset qs + mset rest = mset (remove1 q R)" by (simp flip: Cons.prems(3))
  have "R \<noteq> [q]" using Cons.prems(3) qs(2) by auto
  moreover have "distinct (map snd (remove1 q R))" "distinct (map fst (remove1 q R))"
    using Cons.prems(1,2) by (metis distinct_map distinct_remove1 inj_on_subset set_remove1_subset)+
  ultimately show ?case using Cons.IH [OF _ _ rest] ack_one [OF parts q Cons.prems(1,2)] by simp
qed auto

section \<open>Properties\<close>

text \<open>
  C4. A data server keeps a delta until every parity server has acknowledged it: whatever the order of the acknowledgements, before
  the last of them the delta is in the table, with exactly the servers that are missing, and the last one leaves the backup
  as it was before the delta was sent.
\<close>

theorem delta_kept_until_acked:
  assumes "new_request d bk" and "ps \<noteq> []" and "distinct (map fst ps)" and "distinct (map snd ps)" and "mset qs = mset ps"
  shows "\<exists>bk'. foldM (send_delta d) ps bk = Some bk' \<and> foldM (ack_delta d) qs bk' = Some bk
    \<and> (\<forall>n<length qs. \<exists>bk1. foldM (ack_delta d) (take n qs) bk' = Some bk1
         \<and> (de_ts d, delta_of d (fst ` set (drop n qs))) \<in> set (sb_data bk1 (de_del d)))"
proof -
  obtain pre post before after where parts: "parts_of d bk pre post before after" using new_request_parts [OF assms(1)] .
  let ?w = "waits_for d pre post before after bk"
  have mid: "\<exists>R'. foldM (ack_delta d) (take n qs) (?w ps) = Some (?w R') \<and> mset R' = mset (drop n qs)" if "n < length qs" for n
  proof (rule ack_some [OF parts assms(4,3)])
    show "mset (take n qs) + mset (drop n qs) = mset ps" using assms(5) by (metis append_take_drop_id mset_append)
  qed (use that in simp)
  have last: "foldM (ack_delta d) qs (?w ps) = Some bk"
  proof -
    obtain q qs' where qs: "qs = qs' @ [q]" using assms(2,5) by (cases qs rule: rev_cases) auto
    then obtain R' where R': "foldM (ack_delta d) qs' (?w ps) = Some (?w R')" "mset R' = {#q#}"
      using mid [of "length qs'"] by auto
    then have "R' = [q]" by simp
    with R' ack_one [OF parts, of q "[q]"] show ?thesis by (simp add: qs foldM_append)
  qed
  have "\<exists>bk1. foldM (ack_delta d) (take n qs) (?w ps) = Some bk1 \<and> (de_ts d, delta_of d (fst ` set (drop n qs))) \<in> set (sb_data bk1 (de_del d))" if n: "n < length qs" for n
  proof -
    obtain R' where R': "foldM (ack_delta d) (take n qs) (?w ps) = Some (?w R')" "mset R' = mset (drop n qs)" using mid [OF n] by blast
    have "set R' = set (drop n qs)" using R'(2) by (metis set_mset_mset)
    then show ?thesis using R'(1) by (simp add: waits_for_def set_data_def)
  qed
  with last send_all [OF parts assms(2,4)] show ?thesis by blast
qed

definition demo_delta :: Delta where
  "demo_delta = \<lparr>de_del = False, de_ts = 7, de_key = [107], de_value = [1, 2], de_md = md_set 0 4 1, de_isChunkDelta = True,
     de_valueOffset = 0, de_chunkOffset = 8, de_requestId = 5\<rparr>"

theorem delta_kept_until_acked_witness:
  "\<exists>bk'. foldM (send_delta demo_delta) [(1, 10), (2, 20)] sb_new = Some bk' \<and> foldM (ack_delta demo_delta) [(2, 20), (1, 10)] bk' = Some sb_new
    \<and> (\<exists>bk1. foldM (ack_delta demo_delta) [(2, 20)] bk' = Some bk1 \<and> (7, delta_of demo_delta {1}) \<in> set (sb_data bk1 False))"
proof -
  let ?ps = "[(1, 10), (2, 20)] :: (u16 \<times> nat) list" and ?qs = "[(2, 20), (1, 10)] :: (u16 \<times> nat) list"
  have new: "new_request demo_delta sb_new" by (simp add: new_request_def sb_new_def mm_sorted_def)
  obtain bk' where run: "foldM (send_delta demo_delta) ?ps sb_new = Some bk'" "foldM (ack_delta demo_delta) ?qs bk' = Some sb_new"
    and mid: "\<forall>n<length ?qs. \<exists>bk1. foldM (ack_delta demo_delta) (take n ?qs) bk' = Some bk1
      \<and> (de_ts demo_delta, delta_of demo_delta (fst ` set (drop n ?qs))) \<in> set (sb_data bk1 (de_del demo_delta))"
    using delta_kept_until_acked [OF new, of ?ps ?qs] by auto
  have "\<exists>bk1. foldM (ack_delta demo_delta) [(2, 20)] bk' = Some bk1 \<and> (7, delta_of demo_delta {1}) \<in> set (sb_data bk1 False)"
    using mid [rule_format, of 1] by (simp add: demo_delta_def)
  with run show ?thesis by blast
qed

text \<open>
  C18. An acknowledged range of time stamps removes from a table of a parity server exactly the deltas of the data server whose time stamps \<open>t\<close>
  lie between \<open>a\<close> and \<open>b\<close> in arithmetic modulo \<open>2 ^ 32\<close>, so that the counter may wrap around inside the range.
\<close>

theorem acked_range_removed:
  assumes "mm_sorted (sb_parity bk del)" and "removeParity_range del a b serverId free bk = (out, bk')"
  shows "sb_parity bk' del = filter (\<lambda>(t, bd). \<not> (t - a \<le> b - a \<and> (serverId = 0 \<or> bd_dataServerId bd = serverId))) (sb_parity bk del)
    \<and> (\<not> free \<longrightarrow> set out = {bd. \<exists>t. (t, bd) \<in> set (sb_parity bk del) \<and> t - a \<le> b - a \<and> (serverId = 0 \<or> bd_dataServerId bd = serverId)})
    \<and> sb_parity bk' (\<not> del) = sb_parity bk (\<not> del) \<and> mm_sorted (sb_parity bk' del)"
proof -
  note window = remove_window_sorted [OF assms(1), of "parity_selected {} serverId" a b]
  have "sb_parity bk' del = fst (remove_window (parity_selected {} serverId) a b (sb_parity bk del))"
    and out: "\<not> free \<longrightarrow> out = snd (remove_window (parity_selected {} serverId) a b (sb_parity bk del))"
    and "sb_parity bk' (\<not> del) = sb_parity bk (\<not> del)"
    using assms(2) by (auto simp: removeParity_range_def set_parity_def split: prod.splits)
  moreover have "snd ` {p \<in> set xs. in_range a b (fst p) \<and> parity_selected {} serverId p}
      = {bd. \<exists>t. (t, bd) \<in> set xs \<and> t - a \<le> b - a \<and> (serverId = 0 \<or> bd_dataServerId bd = serverId)}" for xs
    by (auto simp: in_range_def parity_selected_def image_iff)
  ultimately show ?thesis using window mm_sorted_filter [OF assms(1)]
    by (simp add: in_range_def parity_selected_def case_prod_unfold)
qed

theorem acked_range_removed_witness:
  "\<exists>out bk'. removeParity_range False 4294967290 3 9 False
      (sb_new\<lparr>sb_parity := (\<lambda>_. [(2, bd_set (md_set 0 4 1) [] [1] True 0 0 True 5 9 2), (100, bd_set (md_set 0 4 1) [] [1] True 0 0 True 6 9 100),
         (4294967295, bd_set (md_set 0 4 1) [] [1] True 0 0 True 4 9 4294967295)])\<rparr>) = (out, bk')
    \<and> map fst (sb_parity bk' False) = [100]"
proof -
  let ?bd = "\<lambda>r t. bd_set (md_set 0 4 1) [] [1] True 0 0 True r 9 t"
  let ?bk = "sb_new\<lparr>sb_parity := (\<lambda>_. [(2, ?bd 5 2), (100, ?bd 6 100), (4294967295, ?bd 4 4294967295)])\<rparr>"
  obtain out bk' where run: "removeParity_range False 4294967290 3 9 False ?bk = (out, bk')" by (cases "removeParity_range False 4294967290 3 9 False ?bk")
  have "mm_sorted (sb_parity ?bk False)" by (simp add: mm_sorted_def)
  from acked_range_removed [OF this run] have "map fst (sb_parity bk' False) = [100]" by (simp add: bd_set_def)
  with run show ?thesis by (intro exI conjI)
qed

text \<open>
  If the delta of a pair is missing, the acknowledgement returns with the lock of the table held, and every later call for
  that table waits for ever.
\<close>

theorem missing_delta_keeps_lock:
  assumes "remove_first (\<lambda>(r, s, _). r = requestId \<and> s = socket) (sb_ids bk) = Some ((r, s, ts), ids)" and "del \<notin> sb_held bk"
    and "\<forall>(t, bd)\<in>set (sb_data bk del). bd_requestId bd \<noteq> requestId"
  shows "\<exists>bk'. removeData_id del requestId targetId socket bk = Some (None, bk') \<and> findData del a b bk' = None
    \<and> insertData del ts' key value md isChunkDelta valueOffset chunkOffset requestId' targetId' socket' bk' = None"
proof -
  have "remove_first (\<lambda>(t, bd). t = ts \<and> bd_requestId bd = requestId) xs = None" if "\<forall>(t, bd)\<in>set xs. bd_requestId bd \<noteq> requestId" for xs
    using that by (induction xs) auto
  from this [OF assms(3)] show ?thesis using assms(1,2) by (simp add: removeData_id_def findData_def insertData_def Let_def)
qed

text \<open>
  The range that goes with a set of time stamps ends at an element past its end: if what is read there lies between the first and
  the last of them, the delta with the last time stamp is not removed, and so not reverted.
\<close>

theorem revert_misses_delta:
  assumes "mm_sorted (sb_parity bk del)" and "(t2, bd) \<in> set (sb_parity bk del)" and "t1 \<le> past" and "past < t2" and "serverId \<noteq> 0"
  shows "(t2, bd) \<in> set (sb_parity (snd (removeParity_set past del [t1, t2] serverId free bk)) del)"
proof -
  have "Min (set [t1, t2]) = t1" using assms(3,4) by (auto simp: min_def)
  then have "sb_parity (snd (removeParity_set past del [t1, t2] serverId free bk)) del
      = fst (remove_window (parity_selected {t1, t2} serverId) t1 past (sb_parity bk del))"
    by (simp add: removeParity_set_def set_parity_def split: prod.splits)
  moreover have "\<not> t2 \<le> past" "\<not> past < t1" using assms(3,4) by (simp_all add: not_le not_less)
  then have "\<not> in_range t1 past t2"
    using window_iff [where a = t1 and b = past and t = t2] unfolding in_range_def by simp
  ultimately show ?thesis using assms(2) remove_window_sorted(1) [OF assms(1)] by simp
qed

end
