(* ===== verification/ClientBackup.thy ===== *)
theory ClientBackup
  imports HashedTable BackupSafety
begin

text \<open>
  The metadata that a client keeps for each server until the coordinator has it, \<^verbatim>\<open>client/backup/backup.{hh,cc}\<close>: one entry
  per key in \<open>bu_ops\<close>, and the sealed chunks with the time stamp of the response that named them.
\<close>

record ClientBackup =
  bu_ops :: "(Key, OpMetadata) um"
  bu_sealed :: "(u32 \<times> Metadata) list"

definition op_set :: "u8 \<Rightarrow> u32 \<Rightarrow> u32 \<Rightarrow> u32 \<Rightarrow> u32 \<Rightarrow> OpMetadata" where
  "op_set opcode timestamp l s c = \<lparr>md_listId = l, md_stripeId = s, md_chunkId = c, om_opcode = opcode, om_timestamp = timestamp\<rparr>"

text \<open>The opcodes are those of \<^verbatim>\<open>common/protocol/opcode.hh\<close>.\<close>

definition OP_SET :: u8 where "OP_SET = 2"
definition OP_DELETE :: u8 where "OP_DELETE = 4"

definition insert_op :: "Key \<Rightarrow> OpMetadata \<Rightarrow> ClientBackup \<Rightarrow> ClientBackup" where
  "insert_op key om bu =
     (case um_find key_same (bu_ops bu) key of
        None \<Rightarrow> bu\<lparr>bu_ops := snd (um_insert key_same (bu_ops bu) key om)\<rparr>
      | Some old \<Rightarrow>
          if om_opcode om = OP_SET \<and> om_timestamp om > om_timestamp old then bu\<lparr>bu_ops := um_assign key_same (bu_ops bu) key om\<rparr>
          else if om_opcode om = OP_DELETE \<and> om_timestamp om > om_timestamp old then bu\<lparr>bu_ops := um_erase key_same (bu_ops bu) key\<rparr>
          else bu)"

definition bu_insert ::
  "byte list \<Rightarrow> u8 \<Rightarrow> bool \<Rightarrow> u8 \<Rightarrow> u32 \<Rightarrow> u32 \<Rightarrow> u32 \<Rightarrow> u32 \<Rightarrow> Metadata list \<Rightarrow> ClientBackup \<Rightarrow> ClientBackup option" where
  "bu_insert keyStr keySize large opcode timestamp l s c sealed bu =
     do { key \<leftarrow> key_dup (key_set keySize keyStr 0 large) 0 None 0 large;
          let bu = insert_op key (op_set opcode timestamp l s c) bu;
          Some (bu\<lparr>bu_sealed := bu_sealed bu @ map (Pair timestamp) sealed\<rparr>) }"

definition erased :: "u32 \<Rightarrow> u32 \<Rightarrow> u32 \<Rightarrow> bool" where
  "erased a b t \<longleftrightarrow> (if a > b then t \<ge> a \<or> t < b else t \<ge> a \<and> t < b)"

definition bu_erase :: "u32 \<Rightarrow> u32 \<Rightarrow> ClientBackup \<Rightarrow> nat \<times> ClientBackup" where
  "bu_erase a b bu =
     (let gone = filter (\<lambda>(_, om). erased a b (om_timestamp om)) (bu_ops bu); gone' = filter (\<lambda>(t, _). erased a b t) (bu_sealed bu) in
      (length gone + length gone',
       bu\<lparr>bu_ops := filter (\<lambda>(_, om). \<not> erased a b (om_timestamp om)) (bu_ops bu),
          bu_sealed := filter (\<lambda>(t, _). \<not> erased a b t) (bu_sealed bu)\<rparr>))"

section \<open>Lemmas\<close>

text \<open>The range is half open, in arithmetic modulo \<open>2 ^ 32\<close>.\<close>

lemma erased_iff: "erased a b t \<longleftrightarrow> t - a < b - a"
proof -
  have n: "unat (t - a) = (if a \<le> t then unat t - unat a else 2 ^ 32 - unat a + unat t)"
    "unat (b - a) = (if a \<le> b then unat b - unat a else 2 ^ 32 - unat a + unat b)"
    using unat_lt_pow [of a] by (simp_all add: unat_sub_if_size word_le_nat_alt word_size) linarith+
  show ?thesis using n unat_lt_pow [of t] unat_lt_pow [of b] unat_lt_pow [of a]
    by (auto simp: erased_def word_le_nat_alt word_less_nat_alt split: if_splits)
qed

lemma insert_op_unique: "um_unique key_same (bu_ops bu) \<Longrightarrow> um_unique key_same (bu_ops (insert_op key om bu))"
  by (auto simp: insert_op_def keyed.insert_unique keyed.assign_unique keyed.erase_unique split: option.splits)

text \<open>What the backup knows of a key: the first operation, then every later SET replaces and every later DELETE removes it.\<close>

lemma insert_op_find:
  assumes "readable key"
  shows "um_find key_same (bu_ops (insert_op key om bu)) key =
    (case um_find key_same (bu_ops bu) key of
       None \<Rightarrow> Some om
     | Some old \<Rightarrow> if om_timestamp om \<le> om_timestamp old then Some old
                   else if om_opcode om = OP_SET then Some om else if om_opcode om = OP_DELETE then None else Some old)"
  using keyed.same_refl [OF assms]
  by (auto simp: insert_op_def keyed.find_insert keyed.find_assign keyed.find_erase OP_SET_def OP_DELETE_def not_le split: option.splits)

text \<open>After the time stamps have wrapped around, an operation with a smaller time stamp is taken for an older one.\<close>

lemma insert_op_wrapped:
  assumes "um_find key_same (bu_ops bu) key = Some old" and "om_timestamp old = - 1" and "om_timestamp om = om_timestamp old + 1"
  shows "insert_op key om bu = bu"
  using assms by (simp add: insert_op_def)

end
