(* ===== verification/ParityRevert.thy ===== *)
theory ParityRevert
  imports DegradedParity "HOL-Library.Multiset"
begin

text \<open>
  Why a parity server may revert the deltas of a failed server by applying its backup of them once more
  (\<^verbatim>\<open>ServerWorker::handleRevertDelta\<close>): the updates of a parity chunk commute, and each is its own inverse.
\<close>

section \<open>Adding to a range of the memory\<close>

definition xor_range :: "nat \<Rightarrow> nat \<Rightarrow> byte list \<Rightarrow> memory \<Rightarrow> memory" where
  "xor_range d n x m = (if d + n \<le> length m \<and> length x = n then take d m @ xor_bytes (seg d n m) x @ drop (d + n) m else m)"

lemma xor_range_parts:
  assumes "d + n \<le> length m" "length x = n"
  shows "length (xor_range d n x m) = length m" "take d (xor_range d n x m) = take d m"
    "seg d n (xor_range d n x m) = xor_bytes (seg d n m) x" "drop (d + n) (xor_range d n x m) = drop (d + n) m"
  using assms by (simp_all add: xor_range_def seg_def)

lemma length_xor_range [simp]: "length (xor_range d n x m) = length m"
  by (cases "d + n \<le> length m \<and> length x = n") (auto simp: xor_range_parts, simp_all add: xor_range_def)

lemma memory_parts: "d + n \<le> length m \<Longrightarrow> take d m @ seg d n m @ drop (d + n) m = m"
  using append_take_drop_id [of n "drop d m"] append_take_drop_id [of d m] by (simp add: seg_def add.commute)

lemma xor_range_id: "\<not> (d + n \<le> length m \<and> length x = n) \<Longrightarrow> xor_range d n x m = m"
  by (auto simp: xor_range_def)

lemma xor_range_again:
  assumes "d + n \<le> length m" "length x = n" "length y = n"
  shows "xor_range d n x (xor_range d n y m) = take d m @ xor_bytes (xor_bytes (seg d n m) y) x @ drop (d + n) m"
  using assms xor_range_parts [OF assms(1,3)] by (subst xor_range_def) simp

lemma xor_range_commute: "xor_range d n x (xor_range d n y m) = xor_range d n y (xor_range d n x m)"
proof (cases "d + n \<le> length m \<and> length x = n \<and> length y = n")
  case True
  then show ?thesis by (simp add: xor_range_again xor_bytes_assoc xor_bytes_commute [of x y])
next
  case False
  then consider "\<not> d + n \<le> length m" | "length x \<noteq> n" | "length y \<noteq> n" by blast
  then show ?thesis by cases (simp_all add: xor_range_id)
qed

lemma xor_range_twice: "xor_range d n x (xor_range d n x m) = m"
proof (cases "d + n \<le> length m \<and> length x = n")
  case True
  have len: "length (seg d n m) = n" using True by simp
  then show ?thesis using True len by (simp add: xor_range_again xor_bytes_assoc xor_bytes_self xor_bytes_zeros memory_parts)
next
  case False
  then show ?thesis by (simp add: xor_range_id)
qed

lemma xor_ranges_reverted:
  assumes "mset ys = mset xs"
  shows "fold (xor_range d n) ys (fold (xor_range d n) xs m) = m"
proof -
  have "fold (xor_range d n) ys = fold (xor_range d n) (rev xs)"
    by (rule fold_multiset_equiv) (use assms in \<open>auto simp: fun_eq_iff xor_range_commute\<close>)
  moreover have "fold (xor_range d n) (rev xs) (fold (xor_range d n) xs m) = m"
    by (induction xs arbitrary: m) (simp_all add: xor_range_twice)
  ultimately show ?thesis by simp
qed

section \<open>Updates of a parity chunk\<close>

context delta_encoder
begin

lemma update_range:
  assumes upd: "valid_update cs k (c, off, sz, delta)"
  shows "\<exists>x. \<forall>se. parity_ready cs k index pb se s w \<longrightarrow>
    pb_updateDelta enc cs k rnd pb se s c off sz delta False = Some (pb, set_mem (xor_range (pw_chunk w + 8) (unat cs) x (se_mem se)) se)"
proof -
  from upd have c: "c < k" and r: "unat off + unat sz \<le> unat cs" and len: "unat sz \<le> length delta"
    by (simp_all add: valid_update_def)
  let ?bs = "take (unat sz) delta"
  have n: "length ?bs = unat sz" using len by simp
  obtain D where D: "poke (empty_chunk cs) (8 + unat off) ?bs = Some D" "chunk_ok (unat cs) D"
    "\<And>b. b < unat cs \<Longrightarrow> dbyte D b = (if unat off \<le> b \<and> b < unat off + unat sz then ?bs ! (b - unat off) else 0)"
    using placed_bytes [of "unat off" ?bs cs] r unfolding n by blast
  have zero: "dbyte D b = 0" if "b < unat cs" "\<not> (unat off \<le> b \<and> b < unat off + unat sz)" for b using that D(3) by auto
  have "unat c < unat k" using c by (simp add: word_less_nat_alt)
  from encodes [OF this D(2) zero, of "unat off" "unat sz"] obtain q where
    q: "enc ((replicate (unat k) (empty_chunk cs))[unat c := D]) (empty_chunk cs) index
          (unat off + unat c * unat cs) (unat off + unat c * unat cs + unat sz) = Some q" "chunk_ok (unat cs) q" by blast
  have "pb_updateDelta enc cs k rnd pb se s c off sz delta False
      = Some (pb, set_mem (xor_range (pw_chunk w + 8) (unat cs) (seg 8 (unat cs) q) (se_mem se)) se)"
    if ready: "parity_ready cs k index pb se s w" for se
  proof -
    have w: "pb_chunks pb s = Some w" and ix: "unat (pb_chunkId pb - k + 1) = index" and kcs: "unat k * unat cs < 2 ^ 32"
      and room: "pw_chunk w + 8 + unat cs \<le> length (se_mem se)"
      using ready by (simp_all add: parity_ready_def)
    have pos: "unat (off + c * cs) = unat off + unat c * unat cs" "unat (off + c * cs + sz) = unat off + unat c * unat cs + unat sz"
      using position_u32 [OF c kcs r] by simp_all
    have lq: "8 + unat cs \<le> length q" using q(2) by (simp add: chunk_ok_def)
    have "bitwiseXOR_self (se_mem se) (pw_chunk w + 8) q 8 cs = Some (xor_range (pw_chunk w + 8) (unat cs) (seg 8 (unat cs) q) (se_mem se))"
      using bitwiseXOR_self_poke [OF room lq] room lq by (simp add: poke_def xor_range_def)
    then show ?thesis using len D(1) c q(1) w
      by (simp add: pb_updateDelta_def pb_update_def parity_delta_def getWrapper_def ix pos cu_getData_def fun_upd_idem)
  qed
  then show ?thesis by blast
qed

lemma updates_range:
  assumes x: "\<forall>upd\<in>set us. \<forall>se. parity_ready cs k index pb se s w \<longrightarrow>
      (case upd of (c, off, sz, delta) \<Rightarrow> pb_updateDelta enc cs k rnd pb se s c off sz delta False
         = Some (pb, set_mem (xor_range (pw_chunk w + 8) (unat cs) (x upd) (se_mem se)) se))"
    and ready: "parity_ready cs k index pb se s w"
  shows "parity_updates enc cs k rnd s us (pb, se)
      = Some (pb, set_mem (fold (xor_range (pw_chunk w + 8) (unat cs)) (map x us) (se_mem se)) se)"
  using assms
proof (induction us arbitrary: se)
  case (Cons upd us)
  let ?se = "set_mem (xor_range (pw_chunk w + 8) (unat cs) (x upd) (se_mem se)) se"
  have "parity_ready cs k index pb ?se s w" using Cons.prems(2) by (simp add: parity_ready_def set_mem_def se_mem_def)
  from Cons.IH [OF _ this] Cons.prems show ?case
    by (cases upd) (simp add: parity_updates_def, simp add: set_mem_def se_mem_def)
qed (simp add: parity_updates_def set_mem_def se_mem_def)

lemma updates_reverted:
  assumes ready: "parity_ready cs k index pb se s w" and us: "\<forall>upd\<in>set us. valid_update cs k upd" and perm: "mset us' = mset us"
  shows "\<exists>se'. parity_updates enc cs k rnd s us (pb, se) = Some (pb, se') \<and> parity_updates enc cs k rnd s us' (pb, se') = Some (pb, se)"
proof -
  have all: "\<forall>upd\<in>set us. \<exists>x. \<forall>se. parity_ready cs k index pb se s w \<longrightarrow>
      (case upd of (c, off, sz, delta) \<Rightarrow> pb_updateDelta enc cs k rnd pb se s c off sz delta False
         = Some (pb, set_mem (xor_range (pw_chunk w + 8) (unat cs) x (se_mem se)) se))"
    using us update_range [where pb = pb and s = s and w = w and rnd = rnd] by auto
  then obtain x where x: "\<forall>upd\<in>set us. \<forall>se. parity_ready cs k index pb se s w \<longrightarrow>
      (case upd of (c, off, sz, delta) \<Rightarrow> pb_updateDelta enc cs k rnd pb se s c off sz delta False
         = Some (pb, set_mem (xor_range (pw_chunk w + 8) (unat cs) (x upd) (se_mem se)) se))"
    using bchoice [OF all] by blast
  let ?f = "fold (xor_range (pw_chunk w + 8) (unat cs))" and ?se = "\<lambda>us m. set_mem (fold (xor_range (pw_chunk w + 8) (unat cs)) (map x us) m) se"
  have "parity_updates enc cs k rnd s us (pb, se) = Some (pb, ?se us (se_mem se))" by (rule updates_range [OF x ready])
  moreover have "length (?f ys m) = length m" for ys m by (induction ys arbitrary: m) simp_all
  then have "parity_ready cs k index pb (?se us (se_mem se)) s w" using ready by (simp add: parity_ready_def set_mem_def se_mem_def)
  moreover have "set us' = set us" using perm by (metis set_mset_mset)
  ultimately have "parity_updates enc cs k rnd s us (pb, se) = Some (pb, ?se us (se_mem se))"
    "parity_updates enc cs k rnd s us' (pb, ?se us (se_mem se)) = Some (pb, set_mem (?f (map x us') (?f (map x us) (se_mem se))) se)"
    using updates_range [of us' pb s w rnd x "?se us (se_mem se)"] x by (simp_all, simp add: set_mem_def se_mem_def)
  moreover have "?f (map x us') (?f (map x us) (se_mem se)) = se_mem se" using perm by (intro xor_ranges_reverted) simp
  ultimately show ?thesis by (auto simp: set_mem_def se_mem_def)
qed

end

text \<open>
  C10. Reverting deltas: after any sequence of updates in range to a parity chunk of RDP, applying the same
  deltas once more in any order restores the memory of the server exactly.
\<close>

theorem deltas_reverted:
  assumes "rdp_ok r" and "rdp_chunkSize r = unat cs" and "rdp_k r = unat k" and "index = 1 \<or> index = 2"
    and "parity_ready cs k index pb se s w" and "\<forall>upd\<in>set us. valid_update cs k upd" and "mset us' = mset us"
  shows "\<exists>se'. parity_updates (rdp_encode r) cs k rnd s us (pb, se) = Some (pb, se')
    \<and> parity_updates (rdp_encode r) cs k rnd s us' (pb, se') = Some (pb, se)"
  using delta_encoder.updates_reverted [OF rdp_delta_encoder [OF assms(1-4)] assms(5-7), of rnd] .

theorem deltas_reverted_witness:
  "\<exists>se'. parity_updates (rdp_encode demo_rdp) 16 2 (\<lambda>_ _. 0) 4 [(1, 3, 2, [7, 9]), (0, 0, 1, [5])] (demo_parity, demo_server) = Some (demo_parity, se')
    \<and> parity_updates (rdp_encode demo_rdp) 16 2 (\<lambda>_ _. 0) 4 [(0, 0, 1, [5]), (1, 3, 2, [7, 9])] (demo_parity, se') = Some (demo_parity, demo_server)"
proof -
  have ready: "parity_ready 16 2 2 demo_parity demo_server 4 \<lparr>pw_pending = [True, True], pw_chunk = 0\<rparr>"
    by (simp add: parity_ready_def demo_parity_def demo_server_def se_mem_def)
  show ?thesis by (rule deltas_reverted [OF demo_rdp_ok _ ready]) (simp_all add: valid_update_def)
qed

end
