(* ===== verification/RemappedBuffer.thy ===== *)
theory RemappedBuffer
  imports HashedTable Loops
begin

text \<open>
  The objects that a server holds for failed servers, and the records of where a key has been remapped: \<^verbatim>\<open>server/buffer/remapped_buffer.{hh,cc}\<close>.
  The arrays \<^verbatim>\<open>original\<close> and \<^verbatim>\<open>remapped\<close> are lists of pairs of a list and a chunk id; an operation holds the lock of its table.
\<close>

record RemappedKeyValue =
  rk_listId :: u32
  rk_chunkId :: u32
  rk_original :: "(u32 \<times> u32) list"
  rk_remapped :: "(u32 \<times> u32) list"
  rk_keyValue :: memory

record RemappingRecord =
  rr_listId :: u32
  rr_chunkId :: u32
  rr_original :: "(u32 \<times> u32) list"
  rr_remapped :: "(u32 \<times> u32) list"
  rr_key :: Key

record RemappedBuffer =
  rm_keys :: "(Key, RemappedKeyValue) um"
  rm_records :: "(Key, RemappingRecord) um"

definition rm_empty :: RemappedBuffer where "rm_empty = \<lparr>rm_keys = [], rm_records = []\<rparr>"

text \<open>The key of the copy: \<^verbatim>\<open>KeyValue::key( true )\<close> looks at the size of the object.\<close>

definition rm_insert ::
  "u32 \<Rightarrow> u32 \<Rightarrow> u32 \<Rightarrow> (u32 \<times> u32) list \<Rightarrow> (u32 \<times> u32) list \<Rightarrow> byte list \<Rightarrow> u8 \<Rightarrow> bool \<Rightarrow> byte list \<Rightarrow> u32 \<Rightarrow> RemappedBuffer
     \<Rightarrow> (bool \<times> RemappedBuffer) option" where
  "rm_insert cs listId chunkId original remapped keyStr keySize large valueStr valueSize rm =
     do { splitOffset \<leftarrow> (if large then readSplitOffset keyStr (unat keySize) else Some 0);
          kv \<leftarrow> kv_dup cs (Some keyStr) keySize (Some valueStr) valueSize splitOffset;
          ob \<leftarrow> deserialize cs kv 0;
          (isL, _, _) \<leftarrow> isLarge cs (obj_keySize ob) (obj_valueSize ob);
          let (r, keys) = um_insert key_same (rm_keys rm) (key_set (obj_keySize ob) (drop (obj_key ob) kv) 0 isL)
            \<lparr>rk_listId = listId, rk_chunkId = chunkId, rk_original = original, rk_remapped = remapped, rk_keyValue = kv\<rparr>;
          Some (r, rm\<lparr>rm_keys := keys\<rparr>) }"

definition rm_insert_record ::
  "u32 \<Rightarrow> u32 \<Rightarrow> (u32 \<times> u32) list \<Rightarrow> (u32 \<times> u32) list \<Rightarrow> byte list \<Rightarrow> u8 \<Rightarrow> bool \<Rightarrow> RemappedBuffer \<Rightarrow> (bool \<times> RemappedBuffer) option" where
  "rm_insert_record listId chunkId original remapped keyStr keySize large rm =
     do { key \<leftarrow> key_dup (key_set 0 [] 0 False) keySize (Some keyStr) 0 large;
          let (r, records) = um_insert key_same (rm_records rm) key
            \<lparr>rr_listId = listId, rr_chunkId = chunkId, rr_original = original, rr_remapped = remapped, rr_key = key\<rparr>;
          Some (r, rm\<lparr>rm_records := records\<rparr>) }"

text \<open>\<^verbatim>\<open>memcpy\<close> into the object; the sizes are not checked there.\<close>

definition rm_update ::
  "u8 \<Rightarrow> byte list \<Rightarrow> bool \<Rightarrow> u32 \<Rightarrow> u32 \<Rightarrow> byte list \<Rightarrow> RemappedBuffer \<Rightarrow> (RemappedKeyValue option \<times> RemappedBuffer) option" where
  "rm_update keySize keyStr large len off valueUpdate rm =
     (let key = key_set keySize keyStr 0 large in
      case um_find key_same (rm_keys rm) key of
        None \<Rightarrow> Some (None, rm)
      | Some rk \<Rightarrow>
          if length valueUpdate < unat len then None
          else do { kv \<leftarrow> poke (rk_keyValue rk) (unat (4 + ucast keySize + (if large then 3 else 0) + off)) (take (unat len) valueUpdate);
                    let rk = rk\<lparr>rk_keyValue := kv\<rparr>;
                    Some (Some rk, rm\<lparr>rm_keys := um_assign key_same (rm_keys rm) key rk\<rparr>) })"

definition rm_find :: "u8 \<Rightarrow> byte list \<Rightarrow> bool \<Rightarrow> RemappedBuffer \<Rightarrow> RemappedKeyValue option" where
  "rm_find keySize keyStr large rm = um_find key_same (rm_keys rm) (key_set keySize keyStr 0 large)"

definition rm_find_record :: "u8 \<Rightarrow> byte list \<Rightarrow> bool \<Rightarrow> RemappedBuffer \<Rightarrow> RemappingRecord option" where
  "rm_find_record keySize keyStr large rm = um_find key_same (rm_records rm) (key_set keySize keyStr 0 large)"

text \<open>Erasing through an iterator: the entry at position \<open>i\<close> of the iteration.\<close>

definition rm_erase :: "nat \<Rightarrow> RemappedBuffer \<Rightarrow> RemappedBuffer option" where
  "rm_erase i rm = (if i < length (rm_keys rm) then Some (rm\<lparr>rm_keys := take i (rm_keys rm) @ drop (Suc i) (rm_keys rm)\<rparr>) else None)"

section \<open>Lemmas\<close>

text \<open>An update is found by later lookups, keeps all other objects, and changes only the bytes it names.\<close>

lemma rm_update_find:
  assumes "rm_update keySize keyStr large len off valueUpdate rm = Some (Some rk, rm')" and "readable (key_set keySize keyStr 0 large)"
  shows "rm_find keySize keyStr large rm' = Some rk"
    and "\<not> key_same (key_set keySize keyStr 0 large) (key_set n s 0 l) \<Longrightarrow> rm_find n s l rm' = rm_find n s l rm"
    and "peek (rk_keyValue rk) (unat (4 + ucast keySize + (if large then 3 else 0) + off)) (unat len) = Some (take (unat len) valueUpdate)"
proof -
  let ?key = "key_set keySize keyStr 0 large"
  obtain old kv where old: "um_find key_same (rm_keys rm) ?key = Some old" "unat len \<le> length valueUpdate"
    and kv: "poke (rk_keyValue old) (unat (4 + ucast keySize + (if large then 3 else 0) + off)) (take (unat len) valueUpdate) = Some kv"
    and new: "rk = old\<lparr>rk_keyValue := kv\<rparr>" "rm' = rm\<lparr>rm_keys := um_assign key_same (rm_keys rm) ?key rk\<rparr>"
    using assms(1) by (auto simp: rm_update_def Let_def split: option.splits if_splits bind_splits)
  have refl: "key_same ?key ?key" by (rule keyed.same_refl [OF assms(2)])
  show "rm_find keySize keyStr large rm' = Some rk" using old(1) refl by (simp add: rm_find_def new keyed.find_assign)
  show "\<not> key_same (key_set keySize keyStr 0 large) (key_set n s 0 l) \<Longrightarrow> rm_find n s l rm' = rm_find n s l rm"
    by (simp add: rm_find_def new keyed.find_assign)
  show "peek (rk_keyValue rk) (unat (4 + ucast keySize + (if large then 3 else 0) + off)) (unat len) = Some (take (unat len) valueUpdate)"
  proof -
    have "length (take (unat len) valueUpdate) = unat len" using old(2) by simp
    with peek_poke_same [OF kv] show ?thesis by (simp add: new(1))
  qed
qed

text \<open>A second object with the same key is refused, and the first one stays.\<close>

lemma rm_insert_refused:
  assumes "rm_insert cs listId chunkId original remapped keyStr keySize large valueStr valueSize rm = Some (False, rm')"
  shows "rm' = rm"
  using assms by (auto simp: rm_insert_def um_insert_def Let_def split: bind_splits if_splits prod.splits)

end
