(* ===== verification/ForceSeal.thy ===== *)
theory ForceSeal
  imports RdpCode
begin

unbundle bit_operations_syntax

text \<open>
  What \<^verbatim>\<open>Coding::forceSeal\<close> does to a stripe of row-diagonal parity. The parity servers report which data chunks their parity
  chunks contain (\<open>u0\<close> and \<open>u1\<close>), the data servers which of their chunks are sealed (\<open>t\<close>); a run makes the three rows agree. It passes the
  parity number counted from 0 to \<^verbatim>\<open>RDPCoding::encode\<close>, which counts from 1 and does nothing for 0.
\<close>

section \<open>The data chunks\<close>









section \<open>The parity chunks\<close>










section \<open>The property\<close>



end
