(* ===== verification/ReinsertedChunks.thy ===== *)
theory ReinsertedChunks
  imports DataBufferSet
begin

text \<open>
  SET on the data chunk buffer with chunks that were re-inserted: sealed chunks in which a deletion has left room. They are tried before the chunks
  that are being filled. For the invariant they are further chunks of the buffer, so the lemmas on single chunks of
  \<^verbatim>\<open>DataBufferSet\<close> apply to both kinds.
\<close>

section \<open>The choice among re-inserted chunks\<close>











section \<open>The invariant\<close>

text \<open>The buffer in which the re-inserted chunks are listed behind those that are being filled.\<close>

definition whole :: "u32 \<Rightarrow> contents \<Rightarrow> DataChunkBuffer \<Rightarrow> DataChunkBuffer" where
  "whole cs rs db = db\<lparr>db_count := db_count db + of_nat (length rs), db_chunks := db_chunks db @ db_reInserted db,
     db_sizes := db_sizes db @ map (\<lambda>c. of_nat (used cs (snd c))) rs, db_reInserted := []\<rparr>"


lemma whole_simps [simp]:
  "db_listId (whole cs rs db) = db_listId db" "db_chunkId (whole cs rs db) = db_chunkId db" "db_stripeId (whole cs rs db) = db_stripeId db"
  "db_chunks (whole cs rs db) = db_chunks db @ db_reInserted db" "db_reInserted (whole cs rs db) = []"
  by (simp_all add: whole_def)









section \<open>SET\<close>



























end
