(* ===== verification/Spec2Isabelle.thy ===== *)
theory Spec2Isabelle
  imports Ids RingBuffer MemoryPool BitmaskArray ArrayMap DegradedProtocol CoordinatorMap EvenOddMain StripeLookup ConsistentHash CoordSafety ServerSync ParityRdp ParityFaults DegradedParity ClientSafety RemapTargets ClientBackup ParityRevert RemappedBuffer ForceSeal ReinsertedChunks
begin

text \<open>
  MemEC is a key-value store that keeps its objects in main memory and protects them with erasure codes.  Clients split the key space over stripe lists; a data server appends objects to
  chunks and seals full chunks; parity servers keep the coded chunks up to date with deltas; the coordinator keeps the metadata that servers report in heartbeats and takes the system
  through the states normal, intermediate, degraded and coordinated when servers fail or slow down and when they return.  This development models the C++ code under \<^verbatim>\<open>src/common\<close>,
  \<^verbatim>\<open>src/coordinator\<close>, \<^verbatim>\<open>src/client\<close> and \<^verbatim>\<open>src/server\<close> as functions and step relations over explicit states, and proves what each part promises to the others.

  \<^bold>\<open>Conventions.\<close>  A region of memory is a list of bytes with checked accesses; an access outside it, a failed assertion, an exception and a call that never returns are \<^verbatim>\<open>None\<close>.
  Integers that can wrap have their width (\<^verbatim>\<open>u8\<close>, \<^verbatim>\<open>u16\<close>, \<^verbatim>\<open>u32\<close>, \<^verbatim>\<open>u64\<close>); sizes and loop counters that provably cannot are natural numbers.  A \<^verbatim>\<open>for\<close> loop is a fold over
  \<^verbatim>\<open>[0..<n]\<close> (theory \<^verbatim>\<open>Loops\<close>) or a recursive function with its measure, a function that runs under a mutex is one step.  Two results that the code returns through pointers
  are components of a tuple.  Definitions carry the names of the code; the prefix of a record field names its class.

  \<^bold>\<open>Theories and code.\<close>

  \<^item> \<^verbatim>\<open>Prelude\<close>, \<^verbatim>\<open>Loops\<close>: byte memory, big- and little-endian encodings, folds in the option monad, sums of exclusive ors.
  \<^item> \<^verbatim>\<open>HashFunc\<close>, \<^verbatim>\<open>ConsistentHash\<close>: \<^verbatim>\<open>common/hash/hash_func.hh\<close> and the ring of \<^verbatim>\<open>consistent_hash.hh\<close>.
  \<^item> \<^verbatim>\<open>Ids\<close>, \<^verbatim>\<open>RingBuffer\<close>, \<^verbatim>\<open>MemoryPool\<close>, \<^verbatim>\<open>BitmaskArray\<close>, \<^verbatim>\<open>ArrayMap\<close>, \<^verbatim>\<open>HashedTable\<close>: the containers and identifier sources of \<^verbatim>\<open>common/ds\<close>, \<^verbatim>\<open>common/timestamp\<close>; \<^verbatim>\<open>HashedTable\<close> states
    what the code relies on of \<^verbatim>\<open>std::unordered_map\<close> with its own equality of keys.
  \<^item> \<^verbatim>\<open>KeyValue\<close>, \<^verbatim>\<open>Chunk\<close>: \<^verbatim>\<open>common/ds/key.hh\<close>, \<^verbatim>\<open>key_value.cc\<close>, \<^verbatim>\<open>value.hh\<close>, \<^verbatim>\<open>chunk_util.hh\<close>, \<^verbatim>\<open>chunk_pool.cc\<close>, \<^verbatim>\<open>metadata.hh\<close>: objects, large objects, chunks as logs of objects, pools of chunks.
  \<^item> \<^verbatim>\<open>Xor\<close>, \<^verbatim>\<open>Coding\<close>, \<^verbatim>\<open>Rdp\<close>, \<^verbatim>\<open>Symbols\<close>, \<^verbatim>\<open>RdpRepair\<close>, \<^verbatim>\<open>RdpCode\<close>, \<^verbatim>\<open>ForceSeal\<close>, \<^verbatim>\<open>EvenOdd\<close>, \<^verbatim>\<open>EvenOddCode\<close>, \<^verbatim>\<open>EvenOddDecode\<close>, \<^verbatim>\<open>EvenOddMain\<close>: \<^verbatim>\<open>common/coding\<close>.  \<^verbatim>\<open>Xor\<close>, \<^verbatim>\<open>Coding\<close>, \<^verbatim>\<open>Rdp\<close> and \<^verbatim>\<open>EvenOdd\<close> hold the code;
    \<^verbatim>\<open>Symbols\<close> is the view of a stripe as a matrix of symbols in which the proofs take place; \<^verbatim>\<open>ForceSeal\<close> runs the sealing of a stripe before it is full with RDP.
  \<^item> \<^verbatim>\<open>ProtocolBase\<close>, \<^verbatim>\<open>NormalProtocol\<close>, \<^verbatim>\<open>BatchProtocol\<close>, \<^verbatim>\<open>ControlProtocol\<close>, \<^verbatim>\<open>DegradedProtocol\<close>: \<^verbatim>\<open>common/protocol\<close>, generators and parsers of every message on byte memory.
  \<^item> \<^verbatim>\<open>StripeList\<close>, \<^verbatim>\<open>StripeLookup\<close>: \<^verbatim>\<open>common/stripe_list/stripe_list.hh\<close>: the assignment of servers to stripe lists and its lookups.
  \<^item> \<^verbatim>\<open>CoordinatorMap\<close>: \<^verbatim>\<open>coordinator/ds/map.hh\<close>, \<^verbatim>\<open>map.cc\<close> and the heartbeat handler of \<^verbatim>\<open>coordinator/worker/server_worker.cc\<close>.
  \<^item> \<^verbatim>\<open>StateTransit\<close>: \<^verbatim>\<open>common/state_transit\<close>, \<^verbatim>\<open>common/ds/sockaddr_in.cc\<close>: server states, addresses and the message that carries them.
  \<^item> \<^verbatim>\<open>CoordTransit\<close>, \<^verbatim>\<open>CoordWorkers\<close>, \<^verbatim>\<open>CoordSafety\<close>: \<^verbatim>\<open>coordinator/state_transit\<close> and the transition table of \<^verbatim>\<open>coordinator/ds/pending.hh\<close>: the handler, its threads as a transition system over
    configurations, and its invariants by induction over runs.
  \<^item> \<^verbatim>\<open>CuckooHash\<close>, \<^verbatim>\<open>CuckooMap\<close>: \<^verbatim>\<open>common/hash/cuckoo_hash.{hh,cc}\<close>, and its two uses: entries with keys of fixed size, and serialised objects.
  \<^item> \<^verbatim>\<open>ServerMap\<close>, \<^verbatim>\<open>ServerSync\<close>: \<^verbatim>\<open>server/ds/map.{hh,cc}\<close>: the index of a server, and its records for the coordinator together with what \<^verbatim>\<open>CoordinatorMap\<close> makes of them.
  \<^item> \<^verbatim>\<open>ChunkBuffer\<close>, \<^verbatim>\<open>DataBuffer\<close>, \<^verbatim>\<open>DataBufferInv\<close>, \<^verbatim>\<open>DataBufferSet\<close>, \<^verbatim>\<open>ReinsertedChunks\<close>: \<^verbatim>\<open>server/buffer/chunk_buffer.{hh,cc}\<close>, \<^verbatim>\<open>data_chunk_buffer.{hh,cc}\<close>: the code, its invariant, and SET as an operation on an
    abstract buffer, the list of chunks with the objects in them, with the sealed chunks that were re-inserted after a deletion as a second list.
  \<^item> \<^verbatim>\<open>GetBuffer\<close>, \<^verbatim>\<open>ParityBuffer\<close>, \<^verbatim>\<open>MixedBuffer\<close>, \<^verbatim>\<open>SealRequest\<close>: \<^verbatim>\<open>server/buffer/get_chunk_buffer.{hh,cc}\<close>, \<^verbatim>\<open>parity_chunk_buffer.{hh,cc}\<close>, \<^verbatim>\<open>mixed_chunk_buffer.{hh,cc}\<close>, and the SEAL request
    from \<^verbatim>\<open>server/protocol/protocol.cc\<close> to its handler in \<^verbatim>\<open>server/worker/server_peer_req_worker.cc\<close>.
  \<^item> \<^verbatim>\<open>ParitySeal\<close>, \<^verbatim>\<open>ParityOrder\<close>, \<^verbatim>\<open>ParityRdp\<close>, \<^verbatim>\<open>ParityFaults\<close>: what a SEAL request does to the objects that wait, the independence of the order of SET and SEAL for any linear parity delta
    (locale \<^verbatim>\<open>delta_encoder\<close>, interpreted on RAID-5 and instantiated with the two parities of RDP), and the error paths.
  \<^item> \<^verbatim>\<open>DegradedBuffer\<close>, \<^verbatim>\<open>DegradedState\<close>, \<^verbatim>\<open>DegradedParity\<close>: \<^verbatim>\<open>server/buffer/degraded_chunk_buffer.{hh,cc}\<close>: the buffer of a server that stands in for failed ones; a stripe as a state machine
    (idle, waiting, reconstructed), the objects of a reconstructed chunk, and reconstructed parity chunks.
  \<^item> \<^verbatim>\<open>ClientTransit\<close>, \<^verbatim>\<open>ClientRun\<close>, \<^verbatim>\<open>ClientInv\<close>, \<^verbatim>\<open>ClientSafety\<close>: \<^verbatim>\<open>client/state_transit\<close>, with the parts of \<^verbatim>\<open>client/worker/worker.cc\<close>, \<^verbatim>\<open>client/worker/server_worker.cc\<close> and
    \<^verbatim>\<open>client/main/client.cc\<close> that count what a transition waits for; the reading thread and the workers as a transition system, its invariant and its runs.  \<^verbatim>\<open>ClientTransit\<close> also has
    \<^verbatim>\<open>server/state_transit\<close>.
  \<^item> \<^verbatim>\<open>BasicRemap\<close>, \<^verbatim>\<open>RemapTargets\<close>: \<^verbatim>\<open>client/remap/basic_remap_scheme.cc\<close>, \<^verbatim>\<open>common/ds/latency.cc\<close> and \<^verbatim>\<open>ClientWorker::getServers\<close> of \<^verbatim>\<open>client/worker/worker.cc\<close>.
  \<^item> \<^verbatim>\<open>ServerBackup\<close>, \<^verbatim>\<open>BackupSafety\<close>, \<^verbatim>\<open>ClientBackup\<close>: \<^verbatim>\<open>server/backup\<close>, \<^verbatim>\<open>client/backup\<close>: deltas and metadata that are kept until they are acknowledged.  \<^verbatim>\<open>ParityRevert\<close>: applying them again.
  \<^item> \<^verbatim>\<open>RemappedBuffer\<close>: \<^verbatim>\<open>server/buffer/remapped_buffer.{hh,cc}\<close>.

  \<^bold>\<open>Interfaces.\<close>  A bounded queue (\<^verbatim>\<open>bounded_fifo\<close> in \<^verbatim>\<open>RingBuffer\<close>), a finite map (\<^verbatim>\<open>ArrayMap\<close>), a hashed container over an equality of keys (\<^verbatim>\<open>HashedTable\<close>), the entries of a cuckoo table
  with their keys (\<^verbatim>\<open>cuckoo_view\<close> in \<^verbatim>\<open>CuckooHash\<close>), and an erasure code
  (\<^verbatim>\<open>erasure_code\<close> in \<^verbatim>\<open>Coding\<close>: encoding gives a code word, decoding restores the lost chunks, too many losses are refused) are locales.  Each is interpreted on the model's own
  operations; the erasure code on RAID-5, row-diagonal parity and EVENODD.

  \<^bold>\<open>What the lemmas show.\<close>  Coding: every loss that a scheme promises to tolerate is repaired to the original bytes, and updating parity from the delta of one data chunk equals encoding anew.
  Protocol: every message is parsed to what was put in, and the size checks of the parsers are compared with the bytes they read.  Objects and chunks: a chunk is exactly the sequence of the
  objects appended to it.  Containers: refinement of a queue, of a map, of a set of free objects.  Stripe lists: every list has the right number of different servers and the two directions of lookup agree.
  Coordinator: a heartbeat changes its map as the server intended, the locks of degraded chunks keep their shape or overflow.
  State transitions: a server follows the phases, one worker carries out a transition, no server becomes degraded before all clients have acknowledged this transition unless a worker wakes up by chance or a client is just being removed, the missing acknowledgements complete a transition; a
  signal can be lost, a change of phase during a registration blocks the handler, and a failed broadcast is not undone.  Servers: the cuckoo table refines a finite map on small objects, whatever it kicks, and loses large ones; a SET puts the object where the
  abstract buffer puts it, seals the chunks that are full, and leaves it findable in the index.  At a parity server SET and SEAL requests may come in any order; an UPDATE or DELETE that comes before its
  object loses the object.  A stripe is reconstructed once and every request that waits for it is answered, the objects of a reconstructed chunk are found in it, and a reconstructed parity chunk follows the original.
  Clients: a transition is acknowledged when all requests it waits for are answered, in the runs that exclude two races shown next to it; lost chunks are redirected to different servers in normal state.
  Backups: a delta is kept until the last parity server has acknowledged it, acknowledged ranges may wrap around, and a delta that is applied again is undone.

  \<^bold>\<open>Bounds and fuel.\<close>  There is no fuel: loops are structural or have a measure.  The search for an instance id ends after 65536 rounds; the bit matrix is walked with a counter that grows by at
  least one; \<^verbatim>\<open>find_symbols\<close> is bounded by the list of primes.  Sizes of chunks and stripes are below \<^verbatim>\<open>2 ^ 32\<close> where the code counts them in 32 bits; every theorem states the bound it needs.

  \<^bold>\<open>Not modelled.\<close>  Sockets, epoll, named pipes, threads, time and files (operating system); configuration files, consoles and \<^verbatim>\<open>main\<close> programs; printing; the matrix arithmetic of the vendored
  libraries under \<^verbatim>\<open>src/lib\<close>, and with it the Reed-Solomon and Cauchy schemes, which only call it.  A step of the coordinator is a critical section: registration and removal of a server and removal of a client are two steps each, a wakeup without a signal is a step; the set of servers and the table of states change in one step of registration and removal, and a change of phase is one step.  The keys of objects in the index and in the parity and degraded buffers have no zero byte, where the properties say so, because the code compares keys as C strings.  The cuckoo table is modelled in the configuration the code compiles, without tags.  The other tables of pending requests carry arguments from a request to its answer and are not modelled, nor are the handlers of sockets around them.
\<close>

end
